(* ===== verification/Prelude.thy ===== *)
theory Prelude
  imports Complex_Main "HOL-Library.AList" "HOL-Library.List_Lexorder" "HOL-Library.Char_ord" "HOL-Library.Multiset"
begin

text \<open>
  The shared vocabulary of the development: the TypeScript library types the
  program is written over, and the generic lemmas the components use.

  A JavaScript \<open>Map\<close> remembers the order in which its keys were first inserted, and the
  program iterates over maps, so a map is an association list with the operations of
  \<open>HOL-Library.AList\<close>: \<open>AList.update\<close> overwrites a present key in place and appends a new
  one at the end, exactly as \<open>Map.set\<close> does, and \<open>AList.delete\<close> is \<open>Map.delete\<close>.
  A string is a list of byte-sized characters, a \<open>bigint\<close> is an \<open>int\<close>, and a \<open>number\<close> used as a
  fraction is an exact rational (the rounding of IEEE doubles is not modelled).
\<close>

named_theorems ledger_simps "rewriting facts of the ledger components"
named_theorems frame_simps "what an operation leaves unchanged"

type_synonym ('k, 'v) jmap = "('k \<times> 'v) list"
type_synonym num = rat

section \<open>Maps\<close>

abbreviation jm_get :: "('k, 'v) jmap \<Rightarrow> 'k \<Rightarrow> 'v option" where
  "jm_get m k \<equiv> map_of m k"

abbreviation jm_set :: "'k \<Rightarrow> 'v \<Rightarrow> ('k, 'v) jmap \<Rightarrow> ('k, 'v) jmap" where
  "jm_set \<equiv> AList.update"

abbreviation jm_del :: "'k \<Rightarrow> ('k, 'v) jmap \<Rightarrow> ('k, 'v) jmap" where
  "jm_del \<equiv> AList.delete"

abbreviation jm_values :: "('k, 'v) jmap \<Rightarrow> 'v list" where
  "jm_values m \<equiv> map snd m"

abbreviation jm_wf :: "('k, 'v) jmap \<Rightarrow> bool" where
  "jm_wf m \<equiv> distinct (map fst m)"

text \<open>The interface of a keyed collection, as the projections use their maps.\<close>

locale keyed_map =
  fixes get :: "'m \<Rightarrow> 'k \<Rightarrow> 'v option"
    and put :: "'k \<Rightarrow> 'v \<Rightarrow> 'm \<Rightarrow> 'm"
    and del :: "'k \<Rightarrow> 'm \<Rightarrow> 'm"
    and wf_map :: "'m \<Rightarrow> bool"
  assumes get_put: "get (put k v m) j = (if j = k then Some v else get m j)"
    and get_del: "get (del k m) j = (if j = k then None else get m j)"
    and wf_put: "wf_map m \<Longrightarrow> wf_map (put k v m)"
    and wf_del: "wf_map m \<Longrightarrow> wf_map (del k m)"
begin

lemma put_put_get: "get (put k v (put k u m)) j = get (put k v m) j"
  by (simp add: get_put)

lemma del_put_get: "get (del k (put k v m)) j = get (del k m) j"
  by (simp add: get_put get_del)

lemma put_other_get: "i \<noteq> k \<Longrightarrow> get (put k v m) i = get m i"
  by (simp add: get_put)

lemma put_commute_get: "i \<noteq> k \<Longrightarrow> get (put k v (put i u m)) j = get (put i u (put k v m)) j"
  by (simp add: get_put)

lemma fold_put_get:
  "j \<notin> fst ` set kvs \<Longrightarrow> get (fold (\<lambda>(k, v). put k v) kvs m) j = get m j"
  by (induction kvs arbitrary: m) (auto simp: get_put split: prod.splits)

end

lemma jm_get_set [simp]: "jm_get (jm_set k v m) j = (if j = k then Some v else jm_get m j)"
  by (simp add: update_conv)

lemma jm_get_del [simp]: "jm_get (jm_del k m) j = (if j = k then None else jm_get m j)"
  by (simp add: delete_conv)

lemma jm_wf_set [simp]: "jm_wf m \<Longrightarrow> jm_wf (jm_set k v m)"
  by (rule distinct_update)

lemma jm_wf_del [simp]: "jm_wf m \<Longrightarrow> jm_wf (jm_del k m)"
  by (rule distinct_delete)

interpretation jmap: keyed_map map_of AList.update AList.delete jm_wf
  by unfold_locales simp_all

lemma jm_set_fresh: "jm_get m k = None \<Longrightarrow> jm_set k v m = m @ [(k, v)]"
  by (simp add: map_of_eq_None_iff)
    (induction m, auto)

lemma jm_set_keys: "fst ` set (jm_set k v m) = insert k (fst ` set m)"
  by (simp add: dom_update)

lemma jm_get_in: "jm_wf m \<Longrightarrow> (k, v) \<in> set m \<Longrightarrow> jm_get m k = Some v"
  by simp

lemma jm_get_mem: "jm_get m k = Some v \<Longrightarrow> (k, v) \<in> set m"
  by (rule map_of_SomeD)

lemma jm_wf_distinct: "jm_wf m \<Longrightarrow> distinct m"
  by (simp add: distinct_map)

lemma jm_del_fresh: "jm_get m k = None \<Longrightarrow> jm_del k m = m"
  by (induction m) (auto split: if_splits)

text \<open>A property of every entry.\<close>

definition jm_all :: "('k \<Rightarrow> 'v \<Rightarrow> bool) \<Rightarrow> ('k, 'v) jmap \<Rightarrow> bool" where
  "jm_all P m \<longleftrightarrow> (\<forall>(k, v) \<in> set m. P k v)"

lemma in_jm_set: "kv \<in> set (jm_set k v m) \<Longrightarrow> kv = (k, v) \<or> kv \<in> set m"
  by (induction m) (auto split: if_splits)

lemma in_jm_del: "kv \<in> set (jm_del k m) \<Longrightarrow> kv \<in> set m"
  by (induction m) (auto split: if_splits)

lemma jm_all_Nil [simp]: "jm_all P []"
  by (simp add: jm_all_def)

lemma jm_all_get: "jm_all P m \<Longrightarrow> jm_get m k = Some v \<Longrightarrow> P k v"
  by (auto simp: jm_all_def dest: jm_get_mem)

lemma jm_all_in: "jm_all P m \<Longrightarrow> (k, v) \<in> set m \<Longrightarrow> P k v"
  by (auto simp: jm_all_def)

lemma jm_all_set [simp]: "jm_all P m \<Longrightarrow> P k v \<Longrightarrow> jm_all P (jm_set k v m)"
  by (auto simp: jm_all_def dest!: in_jm_set)

lemma jm_all_del [simp]: "jm_all P m \<Longrightarrow> jm_all P (jm_del k m)"
  by (auto simp: jm_all_def dest!: in_jm_del)

lemma jm_all_map:
  "jm_all P m \<Longrightarrow> (\<And>k v. P k v \<Longrightarrow> Q k (f k v)) \<Longrightarrow> jm_all Q (map (\<lambda>(k, v). (k, f k v)) m)"
  by (auto simp: jm_all_def)

lemma jm_all_mono: "jm_all P m \<Longrightarrow> (\<And>k v. P k v \<Longrightarrow> Q k v) \<Longrightarrow> jm_all Q m"
  by (auto simp: jm_all_def)

lemma jm_wf_map [simp]: "jm_wf (map (\<lambda>(k, v). (k, f k v)) m) = jm_wf m"
  by (simp add: comp_def case_prod_beta)

lemma jm_all_set_key:
  assumes "jm_wf m" "jm_all P m" "Q k v" "\<And>j u. j \<noteq> k \<Longrightarrow> P j u \<Longrightarrow> Q j u"
  shows "jm_all Q (jm_set k v m)"
proof -
  have "Q j u" if "(j, u) \<in> set (jm_set k v m)" for j u
  proof -
    have "jm_get (jm_set k v m) j = Some u" using that assms(1) by (intro jm_get_in) simp_all
    then show ?thesis using assms(2-4) by (auto split: if_splits dest: jm_all_get)
  qed
  then show ?thesis by (auto simp: jm_all_def)
qed

text \<open>How a sum over the values of a map changes with its keys.\<close>

definition jm_sum :: "('v \<Rightarrow> int) \<Rightarrow> ('k, 'v) jmap \<Rightarrow> int" where
  "jm_sum f m = (\<Sum>(k, v) \<leftarrow> m. f v)"

lemma jm_sum_Nil [simp]: "jm_sum f [] = 0"
  by (simp add: jm_sum_def)

lemma jm_sum_Cons [simp]: "jm_sum f (p # m) = f (snd p) + jm_sum f m"
  by (simp add: jm_sum_def case_prod_beta)

lemma jm_sum_append [simp]: "jm_sum f (m @ n) = jm_sum f m + jm_sum f n"
  by (simp add: jm_sum_def)

lemma jm_sum_perm: "mset m = mset n \<Longrightarrow> jm_sum f m = jm_sum f n"
  unfolding jm_sum_def by (metis mset_map sum_mset_sum_list)

lemma jm_sum_map: "jm_sum f (map (\<lambda>x. (k x, v x)) xs) = (\<Sum>x\<leftarrow>xs. f (v x))"
  by (induction xs) simp_all

lemma jm_sum_set_fresh: "jm_get m k = None \<Longrightarrow> jm_sum f (jm_set k v m) = jm_sum f m + f v"
  by (simp add: jm_set_fresh)

lemma jm_sum_set:
  "jm_wf m \<Longrightarrow> jm_sum f (jm_set k v m) = jm_sum f m - (case jm_get m k of None \<Rightarrow> 0 | Some u \<Rightarrow> f u) + f v"
  by (induction m) (auto simp: map_of_eq_None_iff rev_image_eqI split: option.splits)

lemma jm_sum_del:
  "jm_wf m \<Longrightarrow> jm_get m k = Some u \<Longrightarrow> jm_sum f (jm_del k m) = jm_sum f m - f u"
proof (induction m)
  case Nil
  then show ?case by simp
next
  case (Cons p m)
  show ?case
  proof (cases "fst p = k")
    case True
    with Cons.prems(1) have "jm_get m k = None"
      by (auto simp: map_of_eq_None_iff)
    with True Cons.prems show ?thesis
      by (cases p) (simp add: jm_del_fresh)
  next
    case False
    with Cons show ?thesis by (cases p) auto
  qed
qed

lemma jm_sum_nonneg: "(\<And>k v. (k, v) \<in> set m \<Longrightarrow> 0 \<le> f v) \<Longrightarrow> 0 \<le> jm_sum f m"
  by (induction m) (fastforce intro: add_nonneg_nonneg)+

lemma jm_sum_ge_member:
  assumes "\<And>k v. (k, v) \<in> set m \<Longrightarrow> 0 \<le> f v" and "(k, v) \<in> set m"
  shows "f v \<le> jm_sum f m"
  using assms
proof (induction m)
  case Nil
  then show ?case by simp
next
  case (Cons p m)
  have nn: "0 \<le> jm_sum f m"
    using Cons.prems(1) by (intro jm_sum_nonneg) auto
  show ?case
  proof (cases "p = (k, v)")
    case True
    with nn show ?thesis by simp
  next
    case False
    with Cons have "f v \<le> jm_sum f m" by auto
    moreover have "0 \<le> f (snd p)"
      using Cons.prems(1)[of "fst p" "snd p"] by simp
    ultimately show ?thesis by simp
  qed
qed

section \<open>Sets, strings and numbers\<close>

text \<open>\<open>Set.add\<close>: a new element goes to the end of the iteration order.\<close>

definition set_add :: "'a \<Rightarrow> 'a list \<Rightarrow> 'a list" where
  "set_add x xs = (if x \<in> set xs then xs else xs @ [x])"

lemma set_add_set [simp]: "set (set_add x xs) = insert x (set xs)"
  by (auto simp: set_add_def)

lemma set_add_distinct [simp]: "distinct xs \<Longrightarrow> distinct (set_add x xs)"
  by (simp add: set_add_def)

definition starts_with :: "string \<Rightarrow> string \<Rightarrow> bool" where
  "starts_with p s \<longleftrightarrow> take (length p) s = p"

lemma starts_with_append [simp]: "starts_with p (p @ s)"
  by (simp add: starts_with_def)

lemma starts_with_iff: "starts_with p s \<longleftrightarrow> (\<exists>t. s = p @ t)"
  unfolding starts_with_def by (metis append_eq_conv_conj append_take_drop_id)

text \<open>\<open>slice(-n)\<close> and \<open>slice(0, n)\<close> of an array.\<close>

definition take_last :: "nat \<Rightarrow> 'a list \<Rightarrow> 'a list" where
  "take_last n xs = drop (length xs - n) xs"

lemma length_take_last [simp]: "length (take_last n xs) = min n (length xs)"
  by (simp add: take_last_def)

text \<open>\<open>String.trim\<close> on the one-byte white space.\<close>

definition is_space :: "char \<Rightarrow> bool" where
  "is_space c \<longleftrightarrow> of_char c \<in> {9, 10, 11, 12, 13, 32 :: nat}"

definition js_trim :: "string \<Rightarrow> string" where
  "js_trim s = rev (dropWhile is_space (rev (dropWhile is_space s)))"

text \<open>Decimal text of an integer: \<open>toString()\<close> of a bigint.\<close>

definition digit_char :: "nat \<Rightarrow> char" where
  "digit_char d = char_of (48 + d)"

fun nat_str :: "nat \<Rightarrow> string" where
  "nat_str n = (if n < 10 then [digit_char n] else nat_str (n div 10) @ [digit_char (n mod 10)])"

declare nat_str.simps [simp del]

definition int_str :: "int \<Rightarrow> string" where
  "int_str i = (if i < 0 then ''-'' @ nat_str (nat (- i)) else nat_str (nat i))"

definition digit_val :: "char \<Rightarrow> nat option" where
  "digit_val c = (let n = of_char c :: nat in if 48 \<le> n \<and> n \<le> 57 then Some (n - 48) else None)"

lemma digit_val_char [simp]: "d < 10 \<Longrightarrow> digit_val (digit_char d) = Some d"
  by (simp add: digit_val_def digit_char_def)

text \<open>\<open>BigInt(s)\<close> on an optional minus sign and decimal digits; the empty text is 0.\<close>

fun parse_digits :: "nat \<Rightarrow> string \<Rightarrow> nat option" where
  "parse_digits acc [] = Some acc"
| "parse_digits acc (c # cs) =
     (case digit_val c of None \<Rightarrow> None | Some d \<Rightarrow> parse_digits (acc * 10 + d) cs)"

definition parse_int :: "string \<Rightarrow> int option" where
  "parse_int s =
     (case s of
        [] \<Rightarrow> Some 0
      | c # cs \<Rightarrow>
          if c = CHR ''-'' then (if cs = [] then None else map_option (\<lambda>n. - int n) (parse_digits 0 cs))
          else map_option int (parse_digits 0 s))"

lemma parse_digits_append:
  "parse_digits acc (s @ t) = (case parse_digits acc s of None \<Rightarrow> None | Some a \<Rightarrow> parse_digits a t)"
  by (induction acc s rule: parse_digits.induct) (auto split: option.splits)

lemma nat_str_nonempty [simp]: "nat_str n \<noteq> []"
  by (subst nat_str.simps) simp

lemma parse_nat_str: "parse_digits 0 (nat_str n) = Some n"
proof (induction n rule: nat_str.induct)
  case (1 n)
  show ?case
  proof (cases "n < 10")
    case True
    then show ?thesis by (simp add: nat_str.simps[of n])
  next
    case False
    with 1 have "parse_digits 0 (nat_str (n div 10)) = Some (n div 10)" by simp
    with False show ?thesis
      by (simp add: nat_str.simps[of n] parse_digits_append)
  qed
qed

lemma nat_str_inj: "nat_str m = nat_str n \<Longrightarrow> m = n"
  by (metis option.inject parse_nat_str)

lemma nat_str_digits: "c \<in> set (nat_str n) \<Longrightarrow> digit_val c \<noteq> None"
proof (induction n rule: nat_str.induct)
  case (1 n)
  then show ?case
    by (cases "n < 10") (auto simp: nat_str.simps[of n])
qed

lemma digit_val_not_minus: "digit_val c \<noteq> None \<Longrightarrow> c \<noteq> CHR ''-'' \<and> c \<noteq> CHR ''.''"
  by (auto simp: digit_val_def Let_def split: if_splits)

lemma parse_int_nat_str: "parse_int (nat_str n) = Some (int n)"
proof (cases "nat_str n")
  case Nil
  then show ?thesis by simp
next
  case (Cons c cs)
  then have "digit_val c \<noteq> None"
    using nat_str_digits[of c n] by simp
  then have "c \<noteq> CHR ''-''" by (simp add: digit_val_not_minus)
  with Cons parse_nat_str[of n] show ?thesis
    by (simp add: parse_int_def)
qed

text \<open>\<open>Math.round\<close>: to the nearest integer, halves upwards.\<close>

definition js_round :: "num \<Rightarrow> int" where
  "js_round x = \<lfloor>x + 1 / 2\<rfloor>"

lemma js_round_mono: "x \<le> y \<Longrightarrow> js_round x \<le> js_round y"
  unfolding js_round_def by (rule floor_mono) simp

lemma js_round_of_int [simp]: "js_round (of_int n) = n"
  unfolding js_round_def by (rule floor_unique) simp_all

lemma js_round_numeral [simp]:
  "js_round 0 = 0" "js_round 1 = 1" "js_round (numeral k) = numeral k"
  "js_round (- numeral k) = - numeral k"
  using js_round_of_int[of 0] js_round_of_int[of 1] js_round_of_int[of "numeral k"]
    js_round_of_int[of "- numeral k"]
  by simp_all

lemma js_round_bounds: "x - 1 / 2 < of_int (js_round x)" "of_int (js_round x) \<le> x + 1 / 2"
  unfolding js_round_def by linarith+

text \<open>Division of bigints truncates towards zero.\<close>

definition big_div :: "int \<Rightarrow> int \<Rightarrow> int" where
  "big_div a b = sgn a * sgn b * (\<bar>a\<bar> div \<bar>b\<bar>)"

lemma big_div_nonneg [simp]: "0 \<le> a \<Longrightarrow> 0 < b \<Longrightarrow> big_div a b = a div b"
  by (cases "a = 0") (simp_all add: big_div_def)

section \<open>Sums over lists\<close>

lemma sum_list_filter_split:
  "(\<Sum>x\<leftarrow>xs. f x) = (\<Sum>x\<leftarrow>filter P xs. f x) + (\<Sum>x\<leftarrow>filter (\<lambda>x. \<not> P x) xs. f x)"
  for f :: "'a \<Rightarrow> int"
  by (induction xs) auto

lemma sum_list_nonneg_int: "(\<And>x. x \<in> set xs \<Longrightarrow> 0 \<le> f x) \<Longrightarrow> 0 \<le> (\<Sum>x\<leftarrow>xs. f x)"
  for f :: "'a \<Rightarrow> int"
  by (induction xs) auto

lemma sum_list_mono_int:
  "(\<And>x. x \<in> set xs \<Longrightarrow> f x \<le> g x) \<Longrightarrow> (\<Sum>x\<leftarrow>xs. f x) \<le> (\<Sum>x\<leftarrow>xs. g x)"
  for f g :: "'a \<Rightarrow> int"
  by (induction xs) (auto intro: add_mono)

lemma sum_list_sort_key: "(\<Sum>x\<leftarrow>sort_key k xs. f x) = (\<Sum>x\<leftarrow>xs. f x)"
  for f :: "'a \<Rightarrow> int"
  by (metis mset_map mset_sort sum_mset_sum_list)

end
