(* ===== verification/Domain.thy ===== *)
theory Domain
  imports Prelude
begin

text \<open>
  The domain vocabulary (\<open>src/domain\<close>): identifiers and money units (\<open>ids.ts\<close>), the value
  objects (\<open>model.ts\<close>), the rule errors (\<open>errors.ts\<close>) and the events every state of the
  system is folded from (\<open>events.ts\<close>).
  Branded strings are strings. An event interface becomes a record, its \<open>type\<close> tag a
  constructor; an optional field is an \<open>option\<close>.
\<close>

section \<open>Identifiers and money\<close>

type_synonym frost = int
type_synonym wallet = string
type_synonym match_id = string
type_synonym market_id = string
type_synonym bucket = string
type_synonym call_id = string
type_synonym challenge_id = string

definition FROST_PER_WAL :: frost where
  "FROST_PER_WAL = 1000000"

definition FROST_DECIMALS :: nat where
  "FROST_DECIMALS = length (int_str FROST_PER_WAL) - 1"

definition pad_start :: "nat \<Rightarrow> char \<Rightarrow> string \<Rightarrow> string" where
  "pad_start n c s = replicate (n - length s) c @ s"

definition strip_zeros :: "string \<Rightarrow> string" where
  "strip_zeros s = rev (dropWhile (\<lambda>c. c = CHR ''0'') (rev s))"

text \<open>
  \<open>wal\<close> reads the decimal text of its number (\<open>whole.toString()\<close>): \<open>None\<close> is the
  \<open>SyntaxError\<close> of \<open>BigInt\<close> on a text that is not an integer.
\<close>

definition wal :: "string \<Rightarrow> frost option" where
  "wal s =
     (let int_part = takeWhile (\<lambda>c. c \<noteq> CHR ''.'') s;
          rest = dropWhile (\<lambda>c. c \<noteq> CHR ''.'') s;
          frac = (case rest of [] \<Rightarrow> [] | _ # f \<Rightarrow> f);
          frac_padded = take FROST_DECIMALS (frac @ replicate FROST_DECIMALS (CHR ''0''))
      in case parse_int int_part of
           None \<Rightarrow> None
         | Some i \<Rightarrow>
             (case parse_int frac_padded of
                None \<Rightarrow> None
              | Some f \<Rightarrow> Some (i * FROST_PER_WAL + f)))"

definition formatWal :: "frost \<Rightarrow> string" where
  "formatWal frost =
     (let neg = frost < 0;
          a = (if neg then - frost else frost);
          i = a div FROST_PER_WAL;
          frac = strip_zeros (pad_start FROST_DECIMALS (CHR ''0'') (int_str (a mod FROST_PER_WAL)))
      in (if neg then ''-'' else []) @ int_str i @ (if frac \<noteq> [] then ''.'' @ frac else []))"

text \<open>\<open>newId\<close>: the prefix, an underscore and 20 characters of a random UUID, given here.\<close>

definition newId :: "string \<Rightarrow> string \<Rightarrow> string" where
  "newId prefix uuid = prefix @ ''_'' @ uuid"

definition playerStream :: "wallet \<Rightarrow> string" where
  "playerStream w = ''gaffer:'' @ w"

definition matchStream :: "match_id \<Rightarrow> string" where
  "matchStream m = ''gaffer:match:'' @ m"

definition challengeStream :: "challenge_id \<Rightarrow> string" where
  "challengeStream c = ''gaffer:challenge:'' @ c"

definition HOUSE_WALLET_PREFIX :: string where
  "HOUSE_WALLET_PREFIX = ''house:''"

definition houseWallet :: "nat \<Rightarrow> wallet" where
  "houseWallet i = HOUSE_WALLET_PREFIX @ ''bot:'' @ nat_str i"

definition isHouseWallet :: "wallet \<Rightarrow> bool" where
  "isHouseWallet w = starts_with HOUSE_WALLET_PREFIX w"

text \<open>
  The wallet of a player stream, read back from the stream id. The projections each carry
  this function; a blank wallet is falsy, so their callers treat it as none.
\<close>

definition streamWallet :: "string \<Rightarrow> wallet option" where
  "streamWallet s =
     (if starts_with ''gaffer:'' s \<and> \<not> starts_with ''gaffer:match:'' s
      then (let w = drop (length ''gaffer:'') s in if w = [] then None else Some w)
      else None)"

section \<open>Rule errors\<close>

datatype error_code =
  NOT_SIGNED | ALREADY_SIGNED | INSUFFICIENT_BALANCE | FUNDS_LOCKED | MATCH_NOT_OPEN
| MATCH_LOCKED | UNKNOWN_MARKET | UNKNOWN_BUCKET | DUPLICATE_CALL | DUPLICATE_DEPOSIT
| STAKE_TOO_SMALL | RATE_LIMITED | CONFLICT | INVALID

text \<open>A thrown value: a domain error (its code; the text is for people) or any other error.\<close>

datatype failure = DomainError error_code | OtherError string

section \<open>Value objects\<close>

datatype tier = Trialist | Squad_Player | First_Team | Captain | Assistant_Manager
  | Director_of_Football

definition TIERS :: "tier list" where
  "TIERS = [Trialist, Squad_Player, First_Team, Captain, Assistant_Manager, Director_of_Football]"

record txline_ref =
  tx_fixtureId :: int
  tx_participant1IsHome :: bool

record fixture =
  fx_matchId :: match_id
  fx_home :: string
  fx_away :: string
  fx_competition :: string
  fx_group :: "string option"
  fx_stage :: string
  fx_kickoff :: int
  fx_txline :: "txline_ref option"

datatype market_kind = RESULT | OVER_UNDER | HANDICAP | BOLD

record bucket_def =
  bd_bucket :: bucket
  bd_label :: string

datatype line_op = ADD | SUB
datatype line_stat = GOALS | CORNERS | CARDS
datatype line_period = FULL | H1

text \<open>The half-line is held in tenths: 2.5 is 25, so its text and its floor are exact.\<close>

record line_spec =
  ls_op :: line_op
  ls_tenths :: int
  ls_stat :: line_stat
  ls_period :: line_period

record market_def =
  md_marketId :: market_id
  md_kind :: market_kind
  md_label :: string
  md_buckets :: "bucket_def list"
  md_line :: "line_spec option"
  md_potMatchId :: "string option"

text \<open>The outcome of a market is a bucket or the text VOID: one string at run time.\<close>

type_synonym outcome = string

definition VOID :: outcome where
  "VOID = ''VOID''"

definition HOME :: bucket where "HOME = ''HOME''"
definition DRAW :: bucket where "DRAW = ''DRAW''"
definition AWAY :: bucket where "AWAY = ''AWAY''"
definition OVER :: bucket where "OVER = ''OVER''"
definition UNDER :: bucket where "UNDER = ''UNDER''"

lemmas bucket_defs = HOME_def DRAW_def AWAY_def OVER_def UNDER_def VOID_def

datatype form_result = FormW | FormL | FormVoid

datatype verdict_trigger = BIG_RESULT | PROMOTION | DEMOTION | ON_DEMAND | SEASON_REVIEW

record trait =
  tr_key :: string
  tr_label :: string
  tr_confidence :: num
  tr_evidence :: string
  tr_firstSeen :: int
  tr_lastSeen :: int

record score =
  sc_home :: int
  sc_away :: int

section \<open>Events\<close>

datatype call_result = WON | LOST
datatype stake_role = CREATOR | OPPONENT
datatype tier_direction = Promoted | Demoted

record call_made =
  cm_callId :: call_id
  cm_matchId :: match_id
  cm_marketId :: market_id
  cm_bucket :: bucket
  cm_stake :: frost
  cm_impliedProbAtCall :: num
  cm_bold :: bool
  cm_note :: "string option"

record call_settled =
  cs_callId :: call_id
  cs_matchId :: match_id
  cs_marketId :: market_id
  cs_result :: call_result
  cs_stake :: frost
  cs_payout :: frost
  cs_pnlDelta :: frost
  cs_grDelta :: int
  cs_difficulty :: num

record call_voided =
  cv_callId :: call_id
  cv_matchId :: match_id
  cv_marketId :: market_id
  cv_refund :: frost
  cv_reason :: string

record tier_changed =
  tc_from :: tier
  tc_to :: tier
  tc_direction :: tier_direction
  tc_grAt :: int

record trait_observed =
  to_traitKey :: string
  to_label :: string
  to_confidence :: num
  to_evidence :: string

record verdict_issued =
  vi_verdictId :: string
  vi_text :: string
  vi_trigger :: verdict_trigger
  vi_quotes :: "string list"

record stake_locked =
  sl_challengeId :: challenge_id
  sl_matchId :: match_id
  sl_side :: bucket
  sl_stake :: frost
  sl_role :: stake_role

record stake_settled =
  ss_challengeId :: challenge_id
  ss_matchId :: match_id
  ss_result :: call_result
  ss_stake :: frost
  ss_payout :: frost
  ss_pnlDelta :: frost

record stake_refunded =
  sr_challengeId :: challenge_id
  sr_matchId :: match_id
  sr_refund :: frost
  sr_reason :: string

text \<open>
  The events of a player stream. The two-phase withdrawal events carry their withdrawal id
  first, then the gross amount.
\<close>

datatype player_event =
  PlayerSigned wallet "string option"
| Deposited frost "string option"
| Withdrawn frost "frost option" "string option"
| WithdrawalInitiated string frost "frost option"
| WithdrawalSettled string frost "frost option" "string option"
| WithdrawalReversed string frost "string option"
| WelcomeGranted frost
| HouseSeeded frost
| CallMade call_made
| HotTakeDeclared string string "string option"
| CallSettled call_settled
| CallVoided call_voided
| TierChanged tier_changed
| TraitObserved trait_observed
| VerdictIssued verdict_issued
| ChatExchanged string string
| ChallengeStakeLocked stake_locked
| ChallengeStakeSettled stake_settled
| ChallengeStakeRefunded stake_refunded

record match_resolved =
  mr_matchId :: match_id
  mr_score :: score
  mr_outcomes :: "(market_id, outcome) jmap"
  mr_source :: string

record pot_settled =
  ps_matchId :: match_id
  ps_marketId :: market_id
  ps_winningBucket :: outcome
  ps_grossPot :: frost
  ps_rake :: frost
  ps_winnersStake :: frost
  ps_settledCount :: nat

datatype match_event =
  MatchOpened fixture "market_def list"
| MarketsAdded match_id "market_def list"
| MatchLocked match_id
| MatchResolved match_resolved
| PotSettled pot_settled

record challenge_created =
  cc_challengeId :: challenge_id
  cc_matchId :: match_id
  cc_creator :: wallet
  cc_creatorSide :: bucket
  cc_opponentSide :: bucket
  cc_stake :: frost

record challenge_settled =
  ct_challengeId :: challenge_id
  ct_winningBucket :: bucket
  ct_winner :: wallet
  ct_grossPot :: frost
  ct_rake :: frost
  ct_payout :: frost

datatype challenge_event =
  ChallengeCreated challenge_created
| ChallengeAccepted challenge_id wallet
| ChallengeSettled challenge_settled
| ChallengeVoided challenge_id outcome string
| ChallengeCancelled challenge_id

datatype domain_event =
  PlayerE player_event
| MatchE match_event
| ChallengeE challenge_event

record stored_event =
  ev_id :: string
  ev_streamId :: string
  ev_version :: nat
  ev_at :: int
  ev_payload :: domain_event

definition is_signing :: "player_event \<Rightarrow> bool" where
  "is_signing p \<longleftrightarrow> (case p of PlayerSigned _ _ \<Rightarrow> True | _ \<Rightarrow> False)"

lemma is_signing_iff: "is_signing p \<longleftrightarrow> (\<exists>w h. p = PlayerSigned w h)"
  by (cases p) (simp_all add: is_signing_def)

text \<open>The \<open>type\<close> tag of an event, as it is stored and subscribed to.\<close>

fun player_event_type :: "player_event \<Rightarrow> string" where
  "player_event_type (PlayerSigned _ _) = ''PlayerSigned''"
| "player_event_type (Deposited _ _) = ''Deposited''"
| "player_event_type (Withdrawn _ _ _) = ''Withdrawn''"
| "player_event_type (WithdrawalInitiated _ _ _) = ''WithdrawalInitiated''"
| "player_event_type (WithdrawalSettled _ _ _ _) = ''WithdrawalSettled''"
| "player_event_type (WithdrawalReversed _ _ _) = ''WithdrawalReversed''"
| "player_event_type (WelcomeGranted _) = ''WelcomeGranted''"
| "player_event_type (HouseSeeded _) = ''HouseSeeded''"
| "player_event_type (CallMade _) = ''CallMade''"
| "player_event_type (HotTakeDeclared _ _ _) = ''HotTakeDeclared''"
| "player_event_type (CallSettled _) = ''CallSettled''"
| "player_event_type (CallVoided _) = ''CallVoided''"
| "player_event_type (TierChanged _) = ''TierChanged''"
| "player_event_type (TraitObserved _) = ''TraitObserved''"
| "player_event_type (VerdictIssued _) = ''VerdictIssued''"
| "player_event_type (ChatExchanged _ _) = ''ChatExchanged''"
| "player_event_type (ChallengeStakeLocked _) = ''ChallengeStakeLocked''"
| "player_event_type (ChallengeStakeSettled _) = ''ChallengeStakeSettled''"
| "player_event_type (ChallengeStakeRefunded _) = ''ChallengeStakeRefunded''"

fun match_event_type :: "match_event \<Rightarrow> string" where
  "match_event_type (MatchOpened _ _) = ''MatchOpened''"
| "match_event_type (MarketsAdded _ _) = ''MarketsAdded''"
| "match_event_type (MatchLocked _) = ''MatchLocked''"
| "match_event_type (MatchResolved _) = ''MatchResolved''"
| "match_event_type (PotSettled _) = ''PotSettled''"

fun challenge_event_type :: "challenge_event \<Rightarrow> string" where
  "challenge_event_type (ChallengeCreated _) = ''ChallengeCreated''"
| "challenge_event_type (ChallengeAccepted _ _) = ''ChallengeAccepted''"
| "challenge_event_type (ChallengeSettled _) = ''ChallengeSettled''"
| "challenge_event_type (ChallengeVoided _ _ _) = ''ChallengeVoided''"
| "challenge_event_type (ChallengeCancelled _) = ''ChallengeCancelled''"

fun event_type :: "domain_event \<Rightarrow> string" where
  "event_type (PlayerE e) = player_event_type e"
| "event_type (MatchE e) = match_event_type e"
| "event_type (ChallengeE e) = challenge_event_type e"

section \<open>Stream names\<close>

lemma starts_with_player [simp]: "starts_with ''gaffer:'' (playerStream w)"
  unfolding playerStream_def by (rule starts_with_append)

lemma drop_player [simp]: "drop 7 (playerStream w) = w"
  by (simp add: playerStream_def)

lemma playerStream_inj: "playerStream v = playerStream w \<Longrightarrow> v = w"
  by (simp add: playerStream_def)

lemma matchStream_inj: "matchStream v = matchStream w \<Longrightarrow> v = w"
  by (simp add: matchStream_def)

lemma challengeStream_inj: "challengeStream v = challengeStream w \<Longrightarrow> v = w"
  by (simp add: challengeStream_def)

text \<open>A usable wallet: not blank, and not a text that names another kind of stream.\<close>

definition plain_wallet :: "wallet \<Rightarrow> bool" where
  "plain_wallet w \<longleftrightarrow> w \<noteq> [] \<and> \<not> starts_with ''match:'' w \<and> \<not> starts_with ''challenge:'' w"

lemma starts_with_match_player:
  "starts_with ''gaffer:match:'' (playerStream w) \<longleftrightarrow> starts_with ''match:'' w"
  by (simp add: playerStream_def starts_with_def)

lemma streamWallet_player [simp]: "plain_wallet w \<Longrightarrow> streamWallet (playerStream w) = Some w"
  by (simp add: streamWallet_def plain_wallet_def starts_with_match_player)
    (simp add: playerStream_def)

lemma streamWallet_match [simp]: "streamWallet (matchStream m) = None"
  by (simp add: streamWallet_def matchStream_def starts_with_def)

lemma streamWallet_challenge: "streamWallet (challengeStream c) = Some (''challenge:'' @ c)"
  by (simp add: streamWallet_def challengeStream_def starts_with_def)

lemma streamWallet_Some: "streamWallet s = Some w \<Longrightarrow> s = playerStream w \<and> w \<noteq> []"
  by (auto simp: streamWallet_def Let_def starts_with_iff playerStream_def split: if_splits)

lemma playerStream_not_match [simp]: "plain_wallet w \<Longrightarrow> playerStream w \<noteq> matchStream m"
  by (metis option.distinct(1) streamWallet_match streamWallet_player)

lemma playerStream_not_challenge [simp]: "plain_wallet w \<Longrightarrow> playerStream w \<noteq> challengeStream c"
  by (auto simp: playerStream_def challengeStream_def plain_wallet_def starts_with_def)

lemma matchStream_not_challenge [simp]: "matchStream m \<noteq> challengeStream c"
  by (simp add: matchStream_def challengeStream_def)

lemma plain_houseWallet [simp]: "plain_wallet (houseWallet i)"
  by (simp add: plain_wallet_def houseWallet_def HOUSE_WALLET_PREFIX_def starts_with_def)

lemma isHouseWallet_house [simp]: "isHouseWallet (houseWallet i)"
  by (simp add: isHouseWallet_def houseWallet_def)

lemma houseWallet_inj: "houseWallet i = houseWallet j \<Longrightarrow> i = j"
  by (auto simp: houseWallet_def dest: nat_str_inj)

section \<open>Money text\<close>

lemma FROST_DECIMALS_eq: "FROST_DECIMALS = 6"
  by (simp add: FROST_DECIMALS_def FROST_PER_WAL_def int_str_def nat_str.simps)

lemma strip_zeros_rest:
  "strip_zeros s @ replicate (length s - length (strip_zeros s)) (CHR ''0'') = s"
proof -
  let ?P = "\<lambda>c. c = CHR ''0''"
  let ?z = "takeWhile ?P (rev s)"
  have z: "?z = replicate (length ?z) (CHR ''0'')"
    by (rule replicate_eqI [symmetric, THEN sym]) (auto dest: set_takeWhileD)
  have s: "rev s = ?z @ dropWhile ?P (rev s)" by simp
  then have "s = rev (dropWhile ?P (rev s)) @ rev ?z"
    by (metis rev_append rev_rev_ident)
  moreover have "rev ?z = ?z" by (metis z rev_replicate)
  moreover have "length ?z = length s - length (strip_zeros s)"
  proof -
    have "length (rev s) = length ?z + length (dropWhile ?P (rev s))"
      by (metis length_append s)
    then show ?thesis by (simp add: strip_zeros_def)
  qed
  ultimately show ?thesis using z by (simp add: strip_zeros_def)
qed

lemma take_strip_zeros:
  "length s = n \<Longrightarrow> take n (strip_zeros s @ replicate n (CHR ''0'')) = s"
proof -
  assume n: "length s = n"
  have le: "length (strip_zeros s) \<le> n"
    using arg_cong[OF strip_zeros_rest[of s], of length] n by simp
  have "take n (strip_zeros s @ replicate n (CHR ''0'')) =
      strip_zeros s @ replicate (n - length (strip_zeros s)) (CHR ''0'')"
    using le by (simp add: min_def)
  then show ?thesis using strip_zeros_rest[of s] n by simp
qed

lemma digit_char_0: "digit_char 0 = CHR ''0''"
  by code_simp

lemma parse_digits_zeros: "parse_digits 0 (replicate k (CHR ''0'') @ s) = parse_digits 0 s"
  using digit_val_char[of 0] by (induction k) (simp_all add: digit_char_0)

lemma length_nat_str: "n < 10 ^ k \<Longrightarrow> 0 < k \<Longrightarrow> length (nat_str n) \<le> k"
proof (induction k arbitrary: n)
  case 0
  then show ?case by simp
next
  case (Suc k)
  show ?case
  proof (cases "n < 10")
    case True
    then show ?thesis by (simp add: nat_str.simps[of n])
  next
    case False
    with Suc.prems have "n div 10 < 10 ^ k" "0 < k"
      by (auto simp: less_mult_imp_div_less intro: Suc_lessI gr0I)
    with Suc.IH False show ?thesis
      by (simp add: nat_str.simps[of n])
  qed
qed

lemma nat_str_no_dot: "c \<in> set (nat_str n) \<Longrightarrow> c \<noteq> CHR ''.'' \<and> c \<noteq> CHR ''-''"
  by (simp add: digit_val_not_minus nat_str_digits)

lemma parse_int_padded:
  assumes "n < 10 ^ k" "0 < k"
  shows "parse_int (pad_start k (CHR ''0'') (nat_str n)) = Some (int n)"
proof -
  let ?s = "pad_start k (CHR ''0'') (nat_str n)"
  have "parse_digits 0 ?s = Some n"
    by (simp add: pad_start_def parse_digits_zeros parse_nat_str)
  moreover have "\<exists>c cs. ?s = c # cs \<and> c \<noteq> CHR ''-''"
  proof (cases "k - length (nat_str n)")
    case 0
    then show ?thesis
      using nat_str_no_dot[of "hd (nat_str n)" n]
      by (cases "nat_str n") (auto simp: pad_start_def)
  next
    case (Suc m)
    then show ?thesis by (simp add: pad_start_def)
  qed
  ultimately show ?thesis by (auto simp: parse_int_def)
qed

lemma wal_parts:
  assumes "\<forall>c \<in> set a. c \<noteq> CHR ''.''"
  shows "wal (a @ (if b \<noteq> [] then ''.'' @ b else [])) =
    (case parse_int a of None \<Rightarrow> None | Some i \<Rightarrow>
      (case parse_int (take FROST_DECIMALS (b @ replicate FROST_DECIMALS (CHR ''0''))) of
         None \<Rightarrow> None | Some f \<Rightarrow> Some (i * FROST_PER_WAL + f)))"
proof (cases "b = []")
  case True
  have tw: "takeWhile (\<lambda>c. c \<noteq> CHR ''.'') a = a" and dw: "dropWhile (\<lambda>c. c \<noteq> CHR ''.'') a = []"
    using assms by (auto simp: takeWhile_eq_all_conv dropWhile_eq_Nil_conv)
  show ?thesis using True by (cases "parse_int a") (simp_all add: wal_def tw dw)
next
  case False
  have tw: "takeWhile (\<lambda>c. c \<noteq> CHR ''.'') (a @ CHR ''.'' # b) = a"
    and dw: "dropWhile (\<lambda>c. c \<noteq> CHR ''.'') (a @ CHR ''.'' # b) = CHR ''.'' # b"
    using assms by (simp_all add: takeWhile_append2 dropWhile_append2)
  show ?thesis using False by (cases "parse_int a") (simp_all add: wal_def tw dw)
qed

lemma wal_formatWal_nonneg:
  assumes "0 \<le> f"
  shows "wal (formatWal f) = Some f"
proof -
  let ?q = "f div FROST_PER_WAL" and ?r = "f mod FROST_PER_WAL"
  let ?p = "pad_start FROST_DECIMALS (CHR ''0'') (nat_str (nat ?r))"
  have q: "0 \<le> ?q" and r: "0 \<le> ?r" "?r < 1000000"
    using assms by (simp_all add: FROST_PER_WAL_def)
  have small: "nat ?r < 10 ^ FROST_DECIMALS"
    using r by (simp add: FROST_DECIMALS_eq nat_less_iff)
  then have len: "length ?p = FROST_DECIMALS"
    using length_nat_str[of "nat ?r" FROST_DECIMALS] by (simp add: pad_start_def FROST_DECIMALS_eq)
  have fmt: "formatWal f = nat_str (nat ?q) @ (if strip_zeros ?p \<noteq> [] then ''.'' @ strip_zeros ?p else [])"
    using assms q r by (simp add: formatWal_def Let_def int_str_def not_less)
  have "parse_int (take FROST_DECIMALS (strip_zeros ?p @ replicate FROST_DECIMALS (CHR ''0''))) = Some ?r"
    using take_strip_zeros[OF len] parse_int_padded[OF small] r by (simp add: FROST_DECIMALS_eq)
  moreover have "parse_int (nat_str (nat ?q)) = Some ?q"
    using q by (simp add: parse_int_nat_str)
  ultimately show ?thesis
    unfolding fmt using wal_parts[of "nat_str (nat ?q)" "strip_zeros ?p"] nat_str_no_dot[of _ "nat ?q"]
    by auto
qed

end
