(* ===== verification/EventStore.thy ===== *)
theory EventStore
  imports Domain
begin

text \<open>
  The append-only event log (\<open>src/core/eventstore\<close>): the contract of \<open>EventStore.ts\<close> as an
  operation on one log, the locale \<open>event_store\<close> of the stores that implement it, and the
  two stores of the program, the in-memory one and the SQLite one. Random event ids and the
  clock are arguments; the encoding of a payload as text (\<open>superjson\<close>, a package) is a
  parameter with its round trip as a hypothesis.
\<close>

section \<open>The contract\<close>

definition mk_stored :: "(nat \<Rightarrow> string) \<Rightarrow> string \<Rightarrow> nat \<Rightarrow> int \<Rightarrow> domain_event list \<Rightarrow> stored_event list" where
  "mk_stored ids s base now es =
     map (\<lambda>(i, p). \<lparr>ev_id = ids i, ev_streamId = s, ev_version = base + i, ev_at = now, ev_payload = p\<rparr>)
       (enumerate 0 es)"

definition stream_of :: "string \<Rightarrow> stored_event list \<Rightarrow> stored_event list" where
  "stream_of s lg = filter (\<lambda>e. ev_streamId e = s) lg"

definition log_append :: "(nat \<Rightarrow> string) \<Rightarrow> int \<Rightarrow> stored_event list \<Rightarrow> string \<Rightarrow> domain_event list
    \<Rightarrow> nat option \<Rightarrow> failure + (stored_event list \<times> stored_event list)" where
  "log_append ids now lg s es expected =
     (let current = length (stream_of s lg)
      in if expected \<noteq> None \<and> expected \<noteq> Some current then Inl (DomainError CONFLICT)
         else (let stored = mk_stored ids s current now es in Inr (stored, lg @ stored)))"

text \<open>Every stream's versions count up from 0: the log's own invariant.\<close>

definition versions_ok :: "stored_event list \<Rightarrow> bool" where
  "versions_ok lg \<longleftrightarrow> (\<forall>s. map ev_version (stream_of s lg) = [0..<length (stream_of s lg)])"

lemma stream_of_append [simp]: "stream_of s (xs @ ys) = stream_of s xs @ stream_of s ys"
  by (simp add: stream_of_def)

lemma stream_of_Nil [simp]: "stream_of s [] = []"
  by (simp add: stream_of_def)

lemma mk_stored_stream [simp]: "e \<in> set (mk_stored ids s b now es) \<Longrightarrow> ev_streamId e = s"
  by (auto simp: mk_stored_def)

lemma length_mk_stored [simp]: "length (mk_stored ids s b now es) = length es"
  by (simp add: mk_stored_def)

lemma stream_of_mk_stored [simp]:
  "stream_of t (mk_stored ids s b now es) = (if t = s then mk_stored ids s b now es else [])"
  by (auto simp: stream_of_def filter_id_conv filter_empty_conv)

lemma map_enumerate_Suc:
  "map (\<lambda>(i, p). f i p) (enumerate (Suc n) es) = map (\<lambda>(i, p). f (Suc i) p) (enumerate n es)"
  by (induction es arbitrary: n) simp_all

lemma mk_stored_Nil [simp]: "mk_stored ids s b now [] = []"
  by (simp add: mk_stored_def)

lemma mk_stored_Cons: "mk_stored ids s b now (e # es) =
    \<lparr>ev_id = ids 0, ev_streamId = s, ev_version = b, ev_at = now, ev_payload = e\<rparr>
      # mk_stored (\<lambda>k. ids (Suc k)) s (Suc b) now es"
  by (simp add: mk_stored_def map_enumerate_Suc)

lemma payloads_mk_stored [simp]: "map ev_payload (mk_stored ids s b now es) = es"
  by (induction es arbitrary: ids b) (simp_all add: mk_stored_Cons)

lemma versions_mk_stored: "map ev_version (mk_stored ids s b now es) = [b..<b + length es]"
proof (induction es arbitrary: ids b)
  case (Cons e es)
  have "b < b + length (e # es)" by simp
  from upt_conv_Cons[OF this] have "[b..<b + length (e # es)] = b # [Suc b..<Suc b + length es]"
    by simp
  with Cons show ?case by (simp add: mk_stored_Cons)
qed simp

lemma mk_stored_one: "mk_stored ids s b now [e] =
    [\<lparr>ev_id = ids 0, ev_streamId = s, ev_version = b, ev_at = now, ev_payload = e\<rparr>]"
  by (simp add: mk_stored_def)

lemma versions_ok_append:
  assumes "versions_ok lg"
  shows "versions_ok (lg @ mk_stored ids s (length (stream_of s lg)) now es)"
  unfolding versions_ok_def
proof
  fix t
  let ?n = "length (stream_of s lg)"
  have "[0..<?n + length es] = [0..<?n] @ [?n..<?n + length es]"
    by (rule upt_add_eq_append) simp
  then show "map ev_version (stream_of t (lg @ mk_stored ids s ?n now es)) =
      [0..<length (stream_of t (lg @ mk_stored ids s ?n now es))]"
    using assms by (simp add: versions_ok_def versions_mk_stored)
qed

lemma log_append_versions:
  "versions_ok lg \<Longrightarrow> log_append ids now lg s es ex = Inr (out, lg') \<Longrightarrow> versions_ok lg'"
  using versions_ok_append by (auto simp: log_append_def Let_def split: if_splits)

lemma log_append_prefix:
  "log_append ids now lg s es ex = Inr (out, lg') \<Longrightarrow> lg' = lg @ out \<and> map ev_payload out = es"
  by (auto simp: log_append_def Let_def split: if_splits)

section \<open>The stores that implement it\<close>

locale event_store =
  fixes append :: "(nat \<Rightarrow> string) \<Rightarrow> int \<Rightarrow> 's \<Rightarrow> string \<Rightarrow> domain_event list \<Rightarrow> nat option
      \<Rightarrow> failure + (stored_event list \<times> 's)"
    and read_stream :: "'s \<Rightarrow> string \<Rightarrow> nat \<Rightarrow> stored_event list"
    and read_all :: "'s \<Rightarrow> nat \<Rightarrow> stored_event list"
    and store_ok :: "'s \<Rightarrow> bool"
    and empty_store :: 's
  assumes empty_ok: "store_ok empty_store" and empty_log: "read_all empty_store 0 = []"
    and append_Inl: "store_ok st \<Longrightarrow> append ids now st s es ex = Inl f \<Longrightarrow>
      log_append ids now (read_all st 0) s es ex = Inl f"
    and append_Inr: "store_ok st \<Longrightarrow> append ids now st s es ex = Inr (out, st') \<Longrightarrow>
      store_ok st' \<and> log_append ids now (read_all st 0) s es ex = Inr (out, read_all st' 0)"
    and read_all_from: "read_all st n = drop n (read_all st 0)"
    and read_stream_from: "store_ok st \<Longrightarrow> read_stream st s n = drop n (stream_of s (read_all st 0))"
begin

text \<open>A run of appends, each with its own ids and time; a refused append leaves the store alone.\<close>

fun run :: "((nat \<Rightarrow> string) \<times> int \<times> string \<times> domain_event list \<times> nat option) list \<Rightarrow> 's
    \<Rightarrow> (failure + stored_event list) list \<times> 's" where
  "run [] st = ([], st)"
| "run ((ids, now, s, es, ex) # rs) st =
     (case append ids now st s es ex of
        Inl f \<Rightarrow> (let (outs, st') = run rs st in (Inl f # outs, st'))
      | Inr (out, st') \<Rightarrow> (let (outs, st'') = run rs st' in (Inr out # outs, st'')))"

lemma append_refines:
  assumes "store_ok st"
  shows "(case append ids now st s es ex of
      Inl f \<Rightarrow> log_append ids now (read_all st 0) s es ex = Inl f
    | Inr (out, st') \<Rightarrow> store_ok st' \<and> log_append ids now (read_all st 0) s es ex = Inr (out, read_all st' 0))"
  using assms append_Inl append_Inr by (auto split: sum.splits)

lemma append_only:
  assumes "store_ok st" "append ids now st s es ex = Inr (out, st')"
  shows "read_all st' 0 = read_all st 0 @ out"
  using append_Inr[OF assms] log_append_prefix by blast

lemma append_versions:
  "store_ok st \<Longrightarrow> versions_ok (read_all st 0) \<Longrightarrow> append ids now st s es ex = Inr (out, st') \<Longrightarrow>
    versions_ok (read_all st' 0)"
  using append_Inr log_append_versions by blast

lemma append_other_stream:
  assumes "store_ok st" "append ids now st s es ex = Inr (out, st')" "t \<noteq> s"
  shows "read_stream st' t n = read_stream st t n"
proof -
  from append_Inr[OF assms(1,2)] have ok: "store_ok st'"
    and l: "log_append ids now (read_all st 0) s es ex = Inr (out, read_all st' 0)" by auto
  from l assms(3) have "stream_of t (read_all st' 0) = stream_of t (read_all st 0)"
    by (auto simp: log_append_def Let_def split: if_splits dest: sym)
  then show ?thesis using assms(1) ok by (simp add: read_stream_from)
qed

lemma stale_version_refused:
  "store_ok st \<Longrightarrow> v \<noteq> length (read_stream st s 0) \<Longrightarrow>
    append ids now st s es (Some v) = Inl (DomainError CONFLICT)"
  using append_refines[of st ids now s es "Some v"]
  by (auto simp: log_append_def read_stream_from split: sum.splits)

lemma current_version_accepted:
  assumes "store_ok st" "v = length (read_stream st s 0)"
  shows "\<exists>out st'. append ids now st s es (Some v) = Inr (out, st') \<and> map ev_payload out = es"
  using append_refines[OF assms(1), of ids now s es "Some v"] assms
  by (auto simp: log_append_def read_stream_from Let_def split: sum.splits)

end

section \<open>The in-memory store\<close>

record mem_store =
  me_streams :: "(string, stored_event list) jmap"
  me_log :: "stored_event list"

definition mem_empty :: mem_store where
  "mem_empty = \<lparr>me_streams = [], me_log = []\<rparr>"

definition mem_current :: "mem_store \<Rightarrow> string \<Rightarrow> stored_event list" where
  "mem_current st s = (case jm_get (me_streams st) s of None \<Rightarrow> [] | Some es \<Rightarrow> es)"

definition mem_append :: "(nat \<Rightarrow> string) \<Rightarrow> int \<Rightarrow> mem_store \<Rightarrow> string \<Rightarrow> domain_event list
    \<Rightarrow> nat option \<Rightarrow> failure + (stored_event list \<times> mem_store)" where
  "mem_append ids now st s es expected =
     (let current = mem_current st s
      in if expected \<noteq> None \<and> expected \<noteq> Some (length current) then Inl (DomainError CONFLICT)
         else (let stored = mk_stored ids s (length current) now es
               in Inr (stored, st\<lparr>me_streams := jm_set s (current @ stored) (me_streams st),
                                  me_log := me_log st @ stored\<rparr>)))"

definition mem_readStream :: "mem_store \<Rightarrow> string \<Rightarrow> nat \<Rightarrow> stored_event list" where
  "mem_readStream st s from = drop from (mem_current st s)"

definition mem_readAll :: "mem_store \<Rightarrow> nat \<Rightarrow> stored_event list" where
  "mem_readAll st from = drop from (me_log st)"

definition mem_ok :: "mem_store \<Rightarrow> bool" where
  "mem_ok st \<longleftrightarrow> (\<forall>s. mem_current st s = stream_of s (me_log st))"

lemma mem_current_set [simp]:
  "mem_current (st\<lparr>me_streams := jm_set s x (me_streams st), me_log := l\<rparr>) t =
    (if t = s then x else mem_current st t)"
  by (simp add: mem_current_def)

lemma mem_append_ok:
  "mem_ok st \<Longrightarrow> mem_append ids now st s es ex = Inr (out, st') \<Longrightarrow> mem_ok st'"
  by (auto simp: mem_ok_def mem_append_def Let_def split: if_splits)

interpretation mem: event_store mem_append mem_readStream mem_readAll mem_ok mem_empty
proof
  show "mem_ok mem_empty" by (simp add: mem_ok_def mem_empty_def mem_current_def)
  show "mem_readAll mem_empty 0 = []" by (simp add: mem_readAll_def mem_empty_def)
next
  fix st ids now s es ex f
  assume "mem_ok st" "mem_append ids now st s es ex = Inl f"
  then show "log_append ids now (mem_readAll st 0) s es ex = Inl f"
    by (auto simp: mem_append_def log_append_def mem_ok_def mem_readAll_def Let_def split: if_splits)
next
  fix st ids now s es ex out st'
  assume "mem_ok st" "mem_append ids now st s es ex = Inr (out, st')"
  then show "mem_ok st' \<and> log_append ids now (mem_readAll st 0) s es ex = Inr (out, mem_readAll st' 0)"
    using mem_append_ok
    by (auto simp: mem_append_def log_append_def mem_ok_def mem_readAll_def Let_def split: if_splits)
next
  fix st n
  show "mem_readAll st n = drop n (mem_readAll st 0)" by (simp add: mem_readAll_def)
next
  fix st s n
  assume "mem_ok st"
  then show "mem_readStream st s n = drop n (stream_of s (mem_readAll st 0))"
    by (simp add: mem_readStream_def mem_readAll_def mem_ok_def)
qed

section \<open>The SQLite store\<close>

text \<open>
  One table row per event, in insertion order (\<open>seq\<close>), with a unique index on the stream
  and the version. The payload column is the encoded text \<open>'r\<close>.
\<close>

record 'r row =
  rw_id :: string
  rw_stream_id :: string
  rw_version :: nat
  rw_at :: int
  rw_type :: string
  rw_payload :: 'r

definition rowToStored :: "('r \<Rightarrow> domain_event) \<Rightarrow> 'r row \<Rightarrow> stored_event" where
  "rowToStored decode r = \<lparr>ev_id = rw_id r, ev_streamId = rw_stream_id r, ev_version = rw_version r,
     ev_at = rw_at r, ev_payload = decode (rw_payload r)\<rparr>"

text \<open>The insert loop of the transaction; a unique violation aborts it.\<close>

fun insert_rows :: "(domain_event \<Rightarrow> 'r) \<Rightarrow> (nat \<Rightarrow> string) \<Rightarrow> int \<Rightarrow> string \<Rightarrow> nat \<Rightarrow> nat
    \<Rightarrow> domain_event list \<Rightarrow> 'r row list \<Rightarrow> failure + (stored_event list \<times> 'r row list)" where
  "insert_rows encode ids now s i version [] rows = Inr ([], rows)"
| "insert_rows encode ids now s i version (p # ps) rows =
     (if \<exists>r \<in> set rows. rw_stream_id r = s \<and> rw_version r = version
      then Inl (OtherError ''UNIQUE constraint failed'')
      else (case insert_rows encode ids now s (i + 1) (version + 1) ps
              (rows @ [\<lparr>rw_id = ids i, rw_stream_id = s, rw_version = version, rw_at = now,
                        rw_type = event_type p, rw_payload = encode p\<rparr>]) of
              Inl f \<Rightarrow> Inl f
            | Inr (out, rows') \<Rightarrow>
                Inr (\<lparr>ev_id = ids i, ev_streamId = s, ev_version = version, ev_at = now,
                      ev_payload = p\<rparr> # out, rows')))"

definition sqlite_append :: "(domain_event \<Rightarrow> 'r) \<Rightarrow> (nat \<Rightarrow> string) \<Rightarrow> int \<Rightarrow> 'r row list \<Rightarrow> string
    \<Rightarrow> domain_event list \<Rightarrow> nat option \<Rightarrow> failure + (stored_event list \<times> 'r row list)" where
  "sqlite_append encode ids now rows s es expected =
     (let current = length (filter (\<lambda>r. rw_stream_id r = s) rows)
      in if expected \<noteq> None \<and> expected \<noteq> Some current then Inl (DomainError CONFLICT)
         else insert_rows encode ids now s 0 current es rows)"

definition sqlite_readStream :: "('r \<Rightarrow> domain_event) \<Rightarrow> 'r row list \<Rightarrow> string \<Rightarrow> nat \<Rightarrow> stored_event list" where
  "sqlite_readStream decode rows s from =
     map (rowToStored decode)
       (sort_key rw_version (filter (\<lambda>r. rw_stream_id r = s \<and> rw_version r \<ge> from) rows))"

definition sqlite_readAll :: "('r \<Rightarrow> domain_event) \<Rightarrow> 'r row list \<Rightarrow> nat \<Rightarrow> stored_event list" where
  "sqlite_readAll decode rows from = map (rowToStored decode) (drop from rows)"

definition rows_ok :: "'r row list \<Rightarrow> bool" where
  "rows_ok rows \<longleftrightarrow> (\<forall>s. map rw_version (filter (\<lambda>r. rw_stream_id r = s) rows)
     = [0..<length (filter (\<lambda>r. rw_stream_id r = s) rows)])"

lemma rows_ok_fresh:
  assumes "rows_ok rows" "r \<in> set rows" "rw_stream_id r = s"
  shows "rw_version r < length (filter (\<lambda>r. rw_stream_id r = s) rows)"
proof -
  have "rw_version r \<in> set (map rw_version (filter (\<lambda>r. rw_stream_id r = s) rows))"
    using assms(2,3) by auto
  then show ?thesis using assms(1) unfolding rows_ok_def by (metis atLeastLessThan_iff set_upt)
qed

text \<open>With contiguous versions the unique index never fires, and the rows added are the events.\<close>

lemma insert_rows_ok:
  assumes "rows_ok rows" "v = length (filter (\<lambda>r. rw_stream_id r = s) rows)"
  shows "\<exists>new. insert_rows encode ids now s i v es rows =
      Inr (mk_stored (\<lambda>k. ids (i + k)) s v now es, rows @ new) \<and> rows_ok (rows @ new) \<and>
      (\<forall>decode. (\<forall>e. decode (encode e) = e) \<longrightarrow>
        map (rowToStored decode) new = mk_stored (\<lambda>k. ids (i + k)) s v now es)"
  using assms
proof (induction es arbitrary: rows i v)
  case Nil
  then show ?case by simp
next
  case (Cons e es)
  let ?r = "\<lparr>rw_id = ids i, rw_stream_id = s, rw_version = v, rw_at = now,
    rw_type = event_type e, rw_payload = encode e\<rparr>"
  have fresh: "\<not> (\<exists>r \<in> set rows. rw_stream_id r = s \<and> rw_version r = v)"
    using rows_ok_fresh[OF Cons.prems(1)] Cons.prems(2) by fastforce
  have ok: "rows_ok (rows @ [?r])"
    using Cons.prems by (auto simp: rows_ok_def)
  have v: "v + 1 = length (filter (\<lambda>r. rw_stream_id r = s) (rows @ [?r]))"
    using Cons.prems(2) by simp
  have mk: "mk_stored (\<lambda>k. ids (i + k)) s v now (e # es) =
      \<lparr>ev_id = ids i, ev_streamId = s, ev_version = v, ev_at = now, ev_payload = e\<rparr>
        # mk_stored (\<lambda>k. ids (i + 1 + k)) s (v + 1) now es"
    by (simp add: mk_stored_Cons)
  from Cons.IH[OF ok v, of "i + 1"] obtain new where new:
    "insert_rows encode ids now s (i + 1) (v + 1) es (rows @ [?r]) =
      Inr (mk_stored (\<lambda>k. ids (i + 1 + k)) s (v + 1) now es, (rows @ [?r]) @ new)"
    "rows_ok ((rows @ [?r]) @ new)"
    "\<forall>decode. (\<forall>e. decode (encode e) = e) \<longrightarrow>
        map (rowToStored decode) new = mk_stored (\<lambda>k. ids (i + 1 + k)) s (v + 1) now es"
    by blast
  have "insert_rows encode ids now s i v (e # es) rows =
      Inr (mk_stored (\<lambda>k. ids (i + k)) s v now (e # es), rows @ ?r # new)"
    using fresh new(1) by (simp add: mk)
  moreover have "map (rowToStored decode) (?r # new) = mk_stored (\<lambda>k. ids (i + k)) s v now (e # es)"
    if "\<forall>e. decode (encode e) = e" for decode
    using new(3) that by (simp only: mk list.map) (simp add: rowToStored_def)
  moreover have "rows_ok (rows @ ?r # new)" using new(2) by simp
  ultimately show ?case by blast
qed

lemma sort_rows:
  assumes "rows_ok rows"
  shows "sort_key rw_version (filter (\<lambda>r. rw_stream_id r = s \<and> rw_version r \<ge> n) rows) =
    drop n (filter (\<lambda>r. rw_stream_id r = s) rows)"
proof -
  let ?f = "filter (\<lambda>r. rw_stream_id r = s) rows"
  have v: "map rw_version ?f = [0..<length ?f]" using assms by (simp add: rows_ok_def)
  have nth: "rw_version (?f ! i) = i" if "i < length ?f" for i
    using arg_cong[OF v, of "\<lambda>xs. xs ! i"] that by simp
  have "filter (\<lambda>r. rw_stream_id r = s \<and> rw_version r \<ge> n) rows = filter (\<lambda>r. rw_version r \<ge> n) ?f"
    by (simp add: conj_commute)
  also have "\<dots> = drop n ?f"
  proof -
    have "filter (\<lambda>r. rw_version r \<ge> n) (take n ?f) = []"
      using nth by (auto simp: filter_empty_conv in_set_conv_nth)
    moreover have "filter (\<lambda>r. rw_version r \<ge> n) (drop n ?f) = drop n ?f"
      using nth by (auto simp: filter_id_conv in_set_conv_nth)
    ultimately show ?thesis by (metis append_Nil append_take_drop_id filter_append)
  qed
  finally show ?thesis
    using v by (simp add: sorted_sort_id sort_key_id_if_sorted flip: drop_map)
qed

lemma map_row_stream:
  "map (rowToStored decode) (filter (\<lambda>r. rw_stream_id r = s) rows) =
    stream_of s (map (rowToStored decode) rows)"
  by (induction rows) (simp_all add: stream_of_def rowToStored_def)

text \<open>
  With an encoding that round-trips, the table behind its queries is the log of the contract.
  The encoding is a parameter, so the facts are stated for any pair \<open>encode\<close>, \<open>decode\<close>; the
  interpretation below takes the payload column to hold the event itself.
\<close>

lemma sqlite_refines_log:
  assumes ok: "rows_ok rows" and rt: "\<And>e. decode (encode e) = e"
  shows "(case sqlite_append encode ids now rows s es ex of
      Inl f \<Rightarrow> log_append ids now (sqlite_readAll decode rows 0) s es ex = Inl f
    | Inr (out, rows') \<Rightarrow> rows_ok rows' \<and>
        log_append ids now (sqlite_readAll decode rows 0) s es ex = Inr (out, sqlite_readAll decode rows' 0))"
proof -
  let ?v = "length (filter (\<lambda>r. rw_stream_id r = s) rows)"
  have len: "length (stream_of s (map (rowToStored decode) rows)) = ?v"
    by (simp flip: map_row_stream)
  obtain new where new: "insert_rows encode ids now s 0 ?v es rows =
      Inr (mk_stored (\<lambda>k. ids (0 + k)) s ?v now es, rows @ new)" "rows_ok (rows @ new)"
      "map (rowToStored decode) new = mk_stored (\<lambda>k. ids (0 + k)) s ?v now es"
    using insert_rows_ok[OF ok refl, of encode ids now s 0 es] rt by blast
  then show ?thesis
    by (simp add: sqlite_append_def log_append_def sqlite_readAll_def Let_def len)
qed

lemma sqlite_read_stream:
  "rows_ok rows \<Longrightarrow> sqlite_readStream decode rows s n = drop n (stream_of s (sqlite_readAll decode rows 0))"
  by (simp add: sqlite_readStream_def sqlite_readAll_def sort_rows map_row_stream flip: drop_map)

interpretation sqlite: event_store "sqlite_append (\<lambda>e. e)" "sqlite_readStream (\<lambda>e. e)"
  "sqlite_readAll (\<lambda>e. e)" rows_ok "[]"
proof
  show "rows_ok []" by (simp add: rows_ok_def)
  show "sqlite_readAll (\<lambda>e. e) [] 0 = []" by (simp add: sqlite_readAll_def)
next
  fix st :: "domain_event row list" and ids now s es ex f
  assume "rows_ok st" "sqlite_append (\<lambda>e. e) ids now st s es ex = Inl f"
  with sqlite_refines_log[of st "\<lambda>e. e" "\<lambda>e. e" ids now s es ex]
  show "log_append ids now (sqlite_readAll (\<lambda>e. e) st 0) s es ex = Inl f" by simp
next
  fix st :: "domain_event row list" and ids now s es ex out st'
  assume "rows_ok st" "sqlite_append (\<lambda>e. e) ids now st s es ex = Inr (out, st')"
  with sqlite_refines_log[of st "\<lambda>e. e" "\<lambda>e. e" ids now s es ex]
  show "rows_ok st' \<and> log_append ids now (sqlite_readAll (\<lambda>e. e) st 0) s es ex =
      Inr (out, sqlite_readAll (\<lambda>e. e) st' 0)" by simp
next
  fix st :: "domain_event row list" and n
  show "sqlite_readAll (\<lambda>e. e) st n = drop n (sqlite_readAll (\<lambda>e. e) st 0)"
    by (simp add: sqlite_readAll_def drop_map)
next
  fix st :: "domain_event row list" and s n
  assume "rows_ok st"
  then show "sqlite_readStream (\<lambda>e. e) st s n = drop n (stream_of s (sqlite_readAll (\<lambda>e. e) st 0))"
    by (rule sqlite_read_stream)
qed

section \<open>The two stores are one\<close>

lemma mk_stored_fields:
  "map ev_id (mk_stored ids s b now es) = map ids [0..<length es]"
  "list_all (\<lambda>e. ev_streamId e = s \<and> ev_at e = now) (mk_stored ids s b now es)"
proof -
  show "map ev_id (mk_stored ids s b now es) = map ids [0..<length es]"
  proof (induction es arbitrary: ids b)
    case (Cons e es)
    have "[0..<length (e # es)] = 0 # map Suc [0..<length es]" by (simp add: upt_conv_Cons map_Suc_upt del: upt_Suc)
    then show ?case by (simp only: mk_stored_Cons list.map Cons.IH) (simp add: comp_def)
  qed simp
  show "list_all (\<lambda>e. ev_streamId e = s \<and> ev_at e = now) (mk_stored ids s b now es)"
    by (induction es arbitrary: ids b) (simp_all add: mk_stored_Cons)
qed

text \<open>C39: The durable store is a drop-in for the in-memory one, and both only append. On any in-memory
  store and any table that hold the same log, an append with a stale expected version is refused by
  both as a conflict, and any other is accepted by both: both return the same stored events, the
  given payloads on the given stream at the given time, with the next ids and the versions that
  follow on, and both then hold the old log, unchanged, with these events after it. The unique
  index never fires, and reading a stream from any version gives the same part of that log. Only
  the round trip of the payload encoding is assumed.\<close>

theorem stores_agree:
  fixes s :: string
  assumes "mem_ok st" "rows_ok rows" "mem_readAll st 0 = sqlite_readAll decode rows 0"
    and rt: "\<And>e. decode (encode e) = e"
  defines "lg \<equiv> mem_readAll st 0" and "pos \<equiv> length (filter (\<lambda>e. ev_streamId e = s) (mem_readAll st 0))"
  shows "mem_readStream st s n = drop n (filter (\<lambda>e. ev_streamId e = s) lg) \<and>
    sqlite_readStream decode rows s n = drop n (filter (\<lambda>e. ev_streamId e = s) lg) \<and>
    (if ex = None \<or> ex = Some pos
     then \<exists>new st' rows'. mem_append ids now st s es ex = Inr (new, st') \<and>
       sqlite_append encode ids now rows s es ex = Inr (new, rows') \<and> mem_ok st' \<and> rows_ok rows' \<and>
       mem_readAll st' 0 = lg @ new \<and> sqlite_readAll decode rows' 0 = lg @ new \<and>
       map ev_payload new = es \<and> map ev_version new = [pos..<pos + length es] \<and>
       map ev_id new = map ids [0..<length es] \<and> list_all (\<lambda>e. ev_streamId e = s \<and> ev_at e = now) new
     else mem_append ids now st s es ex = Inl (DomainError CONFLICT) \<and>
       sqlite_append encode ids now rows s es ex = Inl (DomainError CONFLICT))"
proof (intro conjI)
  show "mem_readStream st s n = drop n (filter (\<lambda>e. ev_streamId e = s) lg)"
    using mem.read_stream_from[OF assms(1), of s n] by (simp add: lg_def stream_of_def)
  show "sqlite_readStream decode rows s n = drop n (filter (\<lambda>e. ev_streamId e = s) lg)"
    using sqlite_read_stream[OF assms(2), of decode s n] assms(3) by (simp add: lg_def stream_of_def)
  note m = mem.append_refines[OF assms(1), of ids now s es ex]
    and q = sqlite_refines_log[OF assms(2) rt, of ids now s es ex, unfolded assms(3)[symmetric]]
  have lg: "log_append ids now lg s es ex = (if ex = None \<or> ex = Some pos
      then Inr (mk_stored ids s pos now es, lg @ mk_stored ids s pos now es) else Inl (DomainError CONFLICT))"
    by (auto simp: log_append_def Let_def lg_def pos_def stream_of_def)
  show "if ex = None \<or> ex = Some pos
     then \<exists>new st' rows'. mem_append ids now st s es ex = Inr (new, st') \<and>
       sqlite_append encode ids now rows s es ex = Inr (new, rows') \<and> mem_ok st' \<and> rows_ok rows' \<and>
       mem_readAll st' 0 = lg @ new \<and> sqlite_readAll decode rows' 0 = lg @ new \<and>
       map ev_payload new = es \<and> map ev_version new = [pos..<pos + length es] \<and>
       map ev_id new = map ids [0..<length es] \<and> list_all (\<lambda>e. ev_streamId e = s \<and> ev_at e = now) new
     else mem_append ids now st s es ex = Inl (DomainError CONFLICT) \<and>
       sqlite_append encode ids now rows s es ex = Inl (DomainError CONFLICT)"
    using m q mk_stored_fields[where ids = ids and s = s and b = pos and now = now and es = es]
      versions_mk_stored[where ids = ids and s = s and b = pos and now = now and es = es] lg
    by (auto simp: lg_def split: sum.splits if_splits)
qed

definition sample_signing :: domain_event where
  "sample_signing = PlayerE (PlayerSigned ''ann'' None)"

definition sample_payment :: domain_event where
  "sample_payment = PlayerE (Deposited 5 (Some ''d1''))"

text \<open>On a store with one event: the next version is taken after it, a stale one is refused.\<close>

theorem stores_agree_witness:
  "\<exists>st rows e0. mem_readAll st 0 = [e0] \<and> sqlite_readAll (\<lambda>e. e) rows 0 = [e0] \<and>
     mem_append nat_str 9 st ''gaffer:ann'' [sample_payment] (Some 0) = Inl (DomainError CONFLICT) \<and>
     (\<exists>e1 st' rows'. mem_append nat_str 9 st ''gaffer:ann'' [sample_payment] (Some 1) = Inr ([e1], st') \<and>
        sqlite_append (\<lambda>e. e) nat_str 9 rows ''gaffer:ann'' [sample_payment] (Some 1) = Inr ([e1], rows') \<and>
        ev_payload e1 = sample_payment \<and> ev_version e1 = 1 \<and>
        mem_readAll st' 0 = [e0, e1] \<and> sqlite_readAll (\<lambda>e. e) rows' 0 = [e0, e1])"
proof -
  define st where "st = \<lparr>me_streams = [(''gaffer:ann'', mk_stored nat_str ''gaffer:ann'' 0 3 [sample_signing])],
    me_log = mk_stored nat_str ''gaffer:ann'' 0 3 [sample_signing]\<rparr>"
  define rows where "rows = [\<lparr>rw_id = nat_str 0, rw_stream_id = ''gaffer:ann'', rw_version = 0, rw_at = 3,
    rw_type = event_type sample_signing, rw_payload = sample_signing\<rparr>]"
  have ok: "mem_ok st" "rows_ok rows" "mem_readAll st 0 = sqlite_readAll (\<lambda>e. e) rows 0"
    by (auto simp: st_def rows_def mem_ok_def mem_current_def rows_ok_def mem_readAll_def sqlite_readAll_def
        stream_of_def mk_stored_one rowToStored_def)
  have lg: "mem_readAll st 0 = [\<lparr>ev_id = nat_str 0, ev_streamId = ''gaffer:ann'', ev_version = 0, ev_at = 3,
      ev_payload = sample_signing\<rparr>]" (is "_ = [?e0]")
    by (simp add: st_def mem_readAll_def mk_stored_one)
  note law = stores_agree[OF ok, of "\<lambda>e. e" "''gaffer:ann''" 0 _ nat_str 9 "[sample_payment]"]
  have a: "mem_append nat_str 9 st ''gaffer:ann'' [sample_payment] (Some 0) = Inl (DomainError CONFLICT)"
    using law[of "Some 0"] by (simp add: lg)
  obtain new st' rows' where new: "mem_append nat_str 9 st ''gaffer:ann'' [sample_payment] (Some 1) = Inr (new, st')"
      "sqlite_append (\<lambda>e. e) nat_str 9 rows ''gaffer:ann'' [sample_payment] (Some 1) = Inr (new, rows')"
      "mem_readAll st' 0 = mem_readAll st 0 @ new" "sqlite_readAll (\<lambda>e. e) rows' 0 = mem_readAll st 0 @ new"
      "map ev_payload new = [sample_payment]" "map ev_version new = [1]"
    using law[of "Some 1"] by (auto simp: lg)
  obtain e1 where "new = [e1]" "ev_payload e1 = sample_payment" "ev_version e1 = 1" using new(5,6) by auto
  then show ?thesis using new a lg ok(3) by (intro exI[of _ st] exI[of _ rows] exI[of _ ?e0]) auto
qed

end
