(* ===== verification/Projection.thy ===== *)
theory Projection
  imports EventStore
begin

text \<open>
  Projections (\<open>src/core/projections/Projection.ts\<close>): a projection folds the event log into a
  read model. The locale \<open>projection\<close> states what one promises (events it does not read leave
  it unchanged); \<open>keyed_projection\<close> adds that its view at a key depends only on the events
  of that key, which makes the view independent of how streams interleave.
\<close>

locale projection =
  fixes step_ev :: "stored_event \<Rightarrow> 's \<Rightarrow> 's"
    and reads :: "stored_event \<Rightarrow> bool"
  assumes ignores: "\<not> reads e \<Longrightarrow> step_ev e s = s"
begin

text \<open>Replaying the log and then tailing the store is replaying the longer log.\<close>

lemma hydrate_then_tail: "fold step_ev new (fold step_ev lg s) = fold step_ev (lg @ new) s"
  by simp

lemma fold_reads: "fold step_ev (filter reads lg) s = fold step_ev lg s"
  by (induction lg arbitrary: s) (simp_all add: ignores)

lemma fold_superset:
  assumes "\<And>e. reads e \<Longrightarrow> P e"
  shows "fold step_ev (filter P lg) s = fold step_ev lg s"
proof (induction lg arbitrary: s)
  case (Cons e lg)
  show ?case
  proof (cases "P e")
    case True
    with Cons show ?thesis by simp
  next
    case False
    with assms have "step_ev e s = s" by (intro ignores) auto
    with Cons False show ?thesis by simp
  qed
qed simp

end

locale keyed_projection = projection step_ev reads
  for step_ev :: "stored_event \<Rightarrow> 's \<Rightarrow> 's" and reads :: "stored_event \<Rightarrow> bool" +
  fixes view :: "'s \<Rightarrow> 'k \<Rightarrow> 'v option"
    and owner :: "stored_event \<Rightarrow> 'k option"
  assumes foreign: "owner e \<noteq> Some k \<Longrightarrow> view (step_ev e s) k = view s k"
    and same_key: "view s k = view t k \<Longrightarrow> view (step_ev e s) k = view (step_ev e t) k"
begin

lemma view_fold_cong:
  "view s k = view t k \<Longrightarrow> view (fold step_ev lg s) k = view (fold step_ev lg t) k"
proof (induction lg arbitrary: s t)
  case (Cons e lg)
  then have "view (step_ev e s) k = view (step_ev e t) k" by (intro same_key)
  then have "view (fold step_ev lg (step_ev e s)) k = view (fold step_ev lg (step_ev e t)) k"
    by (rule Cons.IH)
  then show ?case by (simp only: fold_simps)
qed (simp only: fold_simps)

text \<open>The view at a key is computed from that key's events alone.\<close>

lemma view_own_events:
  "view (fold step_ev lg s) k = view (fold step_ev (filter (\<lambda>e. owner e = Some k) lg) s) k"
proof (induction lg arbitrary: s)
  case (Cons e lg)
  show ?case
  proof (cases "owner e = Some k")
    case True
    then show ?thesis using Cons[of "step_ev e s"] by (simp only: fold_simps filter.simps if_True refl)
  next
    case False
    then have "view (fold step_ev lg (step_ev e s)) k = view (fold step_ev lg s) k"
      by (intro view_fold_cong foreign)
    also have "\<dots> = view (fold step_ev (filter (\<lambda>e. owner e = Some k) lg) s) k" by (rule Cons)
    finally show ?thesis using False by (simp only: fold_simps filter.simps if_False refl)
  qed
qed simp

lemma view_same_events:
  assumes "filter (\<lambda>e. owner e = Some k) lg = filter (\<lambda>e. owner e = Some k) lg'"
  shows "view (fold step_ev lg s) k = view (fold step_ev lg' s) k"
  by (metis assms view_own_events)

lemma view_fold_foreign:
  "(\<And>e. e \<in> set lg \<Longrightarrow> owner e \<noteq> Some k) \<Longrightarrow> view (fold step_ev lg s) k = view s k"
proof (induction lg arbitrary: s)
  case (Cons e lg)
  have "view (fold step_ev lg (step_ev e s)) k = view (step_ev e s) k"
    by (rule Cons.IH) (simp add: Cons.prems)
  also have "\<dots> = view s k" by (rule foreign) (simp add: Cons.prems)
  finally show ?case by (simp only: fold_simps)
qed (simp only: fold_simps)

end

end
