(* ===== verification/Rating.thy ===== *)
theory Rating
  imports Domain
begin

text \<open>
  The skill side of the game: the Gaffer Rating (\<open>src/game/rating.ts\<close>), the squad ladder
  (\<open>tiers.ts\<close>) and the form streak (\<open>form.ts\<close>). The lemmas bound a rating change, show it
  to be a scoring rule with no drift, and show that the ladder and the streak are what their
  loops compute.
\<close>

section \<open>Rating\<close>

definition clamp :: "num \<Rightarrow> num \<Rightarrow> num \<Rightarrow> num" where
  "clamp x lo hi = (if x < lo then lo else if x > hi then hi else x)"

definition BASE_GR :: int where "BASE_GR = 1000"
definition K_FACTOR :: num where "K_FACTOR = 40"
definition BOLD_MULTIPLIER :: num where "BOLD_MULTIPLIER = 3 / 2"

record rating_input =
  ri_impliedProbAtCall :: num
  ri_won :: bool
  ri_bold :: bool
  ri_formMultiplier :: num

text \<open>The change before rounding, and the rounded change.\<close>

definition gr_raw :: "rating_input \<Rightarrow> num" where
  "gr_raw i =
     (let p = clamp (ri_impliedProbAtCall i) (1 / 100) (99 / 100);
          actual = (if ri_won i then 1 else 0);
          delta = K_FACTOR * (if ri_bold i then BOLD_MULTIPLIER else 1) * (actual - p)
      in if delta > 0 then delta * max 1 (ri_formMultiplier i) else delta)"

definition grDelta :: "rating_input \<Rightarrow> int" where
  "grDelta i = js_round (gr_raw i)"

definition difficultyOf :: "num \<Rightarrow> num" where
  "difficultyOf impliedProb = clamp (1 - impliedProb) 0 1"

lemmas rating_consts = K_FACTOR_def BOLD_MULTIPLIER_def

lemma clamp_bounds: "lo \<le> hi \<Longrightarrow> lo \<le> clamp x lo hi \<and> clamp x lo hi \<le> hi"
  by (simp add: clamp_def)

lemma clamp_mono: "lo \<le> hi \<Longrightarrow> x \<le> y \<Longrightarrow> clamp x lo hi \<le> clamp y lo hi"
  by (simp add: clamp_def)

lemma clamp_id: "lo \<le> x \<Longrightarrow> x \<le> hi \<Longrightarrow> clamp x lo hi = x"
  by (simp add: clamp_def)

lemma difficulty_bounds: "0 \<le> difficultyOf p \<and> difficultyOf p \<le> 1"
  unfolding difficultyOf_def by (rule clamp_bounds) simp

lemma gr_raw_won:
  assumes "ri_won i"
  shows "gr_raw i = K_FACTOR * (if ri_bold i then BOLD_MULTIPLIER else 1)
    * (1 - clamp (ri_impliedProbAtCall i) (1 / 100) (99 / 100)) * max 1 (ri_formMultiplier i)"
    and "0 < gr_raw i"
  using assms clamp_bounds[of "1 / 100" "99 / 100" "ri_impliedProbAtCall i"]
  by (auto simp: gr_raw_def Let_def rating_consts)

lemma gr_raw_lost:
  assumes "\<not> ri_won i"
  shows "gr_raw i = - (K_FACTOR * (if ri_bold i then BOLD_MULTIPLIER else 1)
    * clamp (ri_impliedProbAtCall i) (1 / 100) (99 / 100))"
    and "gr_raw i < 0"
  using assms clamp_bounds[of "1 / 100" "99 / 100" "ri_impliedProbAtCall i"]
  by (auto simp: gr_raw_def Let_def rating_consts)

text \<open>A rating change has the sign of the result and is bounded whatever the stake: a win
  gains between 0 and 69 points and a loss costs between 0 and 59, for any form bonus of at
  most 15%.\<close>

theorem grDelta_bounds:
  assumes "ri_formMultiplier i \<le> 23 / 20"
  shows "if ri_won i then 0 \<le> grDelta i \<and> grDelta i \<le> 69 else - 59 \<le> grDelta i \<and> grDelta i \<le> 0"
proof -
  let ?p = "clamp (ri_impliedProbAtCall i) (1 / 100) (99 / 100)"
  let ?b = "if ri_bold i then BOLD_MULTIPLIER else 1"
  have p: "1 / 100 \<le> ?p" "?p \<le> 99 / 100"
    using clamp_bounds[of "1 / 100" "99 / 100"] by simp_all
  have b: "0 < K_FACTOR * ?b" "K_FACTOR * ?b \<le> 60" by (simp_all add: rating_consts)
  show ?thesis
  proof (cases "ri_won i")
    case True
    have "K_FACTOR * ?b * (1 - ?p) \<le> 60 * (99 / 100)"
      using p b by (intro mult_mono) simp_all
    moreover have "max 1 (ri_formMultiplier i) \<le> 23 / 20" using assms by simp
    ultimately have "gr_raw i \<le> 60 * (99 / 100) * (23 / 20)"
      unfolding gr_raw_won(1)[OF True] using p b by (intro mult_mono) simp_all
    then have "gr_raw i \<le> 69" by simp
    then have "grDelta i \<le> js_round 69" unfolding grDelta_def by (rule js_round_mono)
    moreover have "js_round 0 \<le> grDelta i"
      unfolding grDelta_def using gr_raw_won(2)[OF True] by (intro js_round_mono) simp
    ultimately show ?thesis using True by simp
  next
    case False
    have "K_FACTOR * ?b * ?p \<le> 60 * (99 / 100)"
      using p b by (intro mult_mono) simp_all
    then have "- (297 / 5) \<le> gr_raw i" unfolding gr_raw_lost(1)[OF False] by simp
    then have "js_round (- (297 / 5)) \<le> grDelta i" unfolding grDelta_def by (rule js_round_mono)
    moreover have "grDelta i \<le> js_round 0"
      unfolding grDelta_def using gr_raw_lost(2)[OF False] by (intro js_round_mono) simp
    moreover have "js_round (- (297 / 5)) = - 59"
      unfolding js_round_def by (rule floor_unique) simp_all
    ultimately show ?thesis using False by simp
  qed
qed

theorem grDelta_bounds_witness:
  "0 \<le> grDelta \<lparr>ri_impliedProbAtCall = 1 / 4, ri_won = True, ri_bold = False, ri_formMultiplier = 1\<rparr>"
  using grDelta_bounds[of "\<lparr>ri_impliedProbAtCall = 1 / 4, ri_won = True, ri_bold = False,
    ri_formMultiplier = 1\<rparr>"]
  by simp

text \<open>The rating is a proper scoring rule: with no form bonus, a player whose calls come in
  exactly as often as the crowd's odds say gains nothing in expectation (before rounding), for
  every probability the clamp leaves alone.\<close>

theorem gr_raw_no_drift:
  assumes "1 / 100 \<le> p" "p \<le> 99 / 100"
  shows "p * gr_raw \<lparr>ri_impliedProbAtCall = p, ri_won = True, ri_bold = b, ri_formMultiplier = 1\<rparr>
    + (1 - p) * gr_raw \<lparr>ri_impliedProbAtCall = p, ri_won = False, ri_bold = b, ri_formMultiplier = 1\<rparr> = 0"
proof -
  let ?w = "\<lparr>ri_impliedProbAtCall = p, ri_won = True, ri_bold = b, ri_formMultiplier = 1\<rparr>"
  let ?l = "\<lparr>ri_impliedProbAtCall = p, ri_won = False, ri_bold = b, ri_formMultiplier = 1\<rparr>"
  let ?b = "if b then BOLD_MULTIPLIER else 1"
  have "clamp p (1 / 100) (99 / 100) = p" using assms by (rule clamp_id)
  then have w: "gr_raw ?w = K_FACTOR * ?b * (1 - p)" and l: "gr_raw ?l = - (K_FACTOR * ?b * p)"
    using gr_raw_won(1)[of ?w] gr_raw_lost(1)[of ?l] by simp_all
  show ?thesis unfolding w l by (simp add: algebra_simps)
qed

theorem gr_raw_no_drift_witness:
  "(1 / 4 :: num) * gr_raw \<lparr>ri_impliedProbAtCall = 1 / 4, ri_won = True, ri_bold = True, ri_formMultiplier = 1\<rparr>
    + (1 - 1 / 4) * gr_raw \<lparr>ri_impliedProbAtCall = 1 / 4, ri_won = False, ri_bold = True, ri_formMultiplier = 1\<rparr> = 0"
  by (rule gr_raw_no_drift) simp_all

lemma gr_raw_antimono:
  assumes "ri_impliedProbAtCall i \<le> q" "ri_won i"
  shows "gr_raw (i\<lparr>ri_impliedProbAtCall := q\<rparr>) \<le> gr_raw i"
proof -
  have "clamp (ri_impliedProbAtCall i) (1 / 100) (99 / 100) \<le> clamp q (1 / 100) (99 / 100)"
    using assms(1) by (intro clamp_mono) simp_all
  moreover have "clamp q (1 / 100) (99 / 100) \<le> 99 / 100"
    using clamp_bounds[of "1 / 100" "99 / 100" q] by simp
  ultimately show ?thesis
    using assms(2) by (simp add: gr_raw_won(1) rating_consts mult_right_mono)
qed

section \<open>The squad ladder\<close>

record band =
  bn_tier :: tier
  bn_min :: int

definition BANDS :: "band list" where
  "BANDS =
    [\<lparr>bn_tier = Trialist, bn_min = 0\<rparr>,
     \<lparr>bn_tier = Squad_Player, bn_min = 1040\<rparr>,
     \<lparr>bn_tier = First_Team, bn_min = 1120\<rparr>,
     \<lparr>bn_tier = Captain, bn_min = 1220\<rparr>,
     \<lparr>bn_tier = Assistant_Manager, bn_min = 1340\<rparr>,
     \<lparr>bn_tier = Director_of_Football, bn_min = 1480\<rparr>]"

definition tierForGr :: "int \<Rightarrow> tier" where
  "tierForGr gr = fold (\<lambda>b t. if gr \<ge> bn_min b then bn_tier b else t) BANDS Trialist"

fun index_of :: "'a \<Rightarrow> 'a list \<Rightarrow> nat option" where
  "index_of x [] = None"
| "index_of x (y # ys) = (if x = y then Some 0 else map_option Suc (index_of x ys))"

definition tierIndex :: "tier \<Rightarrow> nat" where
  "tierIndex t = the (index_of t TIERS)"

definition nextTierFloor :: "int \<Rightarrow> band option" where
  "nextTierFloor gr = find (\<lambda>b. gr < bn_min b) BANDS"

instantiation tier :: linorder
begin

definition less_eq_tier :: "tier \<Rightarrow> tier \<Rightarrow> bool" where
  "less_eq_tier s t \<longleftrightarrow> tierIndex s \<le> tierIndex t"

definition less_tier :: "tier \<Rightarrow> tier \<Rightarrow> bool" where
  "less_tier s t \<longleftrightarrow> tierIndex s < tierIndex t"

instance
proof
  fix s t u :: tier
  show "s < t \<longleftrightarrow> s \<le> t \<and> \<not> t \<le> s" by (auto simp: less_eq_tier_def less_tier_def)
  show "s \<le> s" by (simp add: less_eq_tier_def)
  show "s \<le> t \<Longrightarrow> t \<le> u \<Longrightarrow> s \<le> u" by (simp add: less_eq_tier_def)
  show "s \<le> t \<or> t \<le> s" by (auto simp: less_eq_tier_def)
  show "s \<le> t \<Longrightarrow> t \<le> s \<Longrightarrow> s = t"
    by (cases s; cases t) (simp_all add: less_eq_tier_def tierIndex_def TIERS_def)
qed

end

lemma tierIndex_simps [simp]:
  "tierIndex Trialist = 0" "tierIndex Squad_Player = 1" "tierIndex First_Team = 2"
  "tierIndex Captain = 3" "tierIndex Assistant_Manager = 4" "tierIndex Director_of_Football = 5"
  by (simp_all add: tierIndex_def TIERS_def)

lemma tierForGr_eq:
  "tierForGr gr = (if gr < 1040 then Trialist else if gr < 1120 then Squad_Player
    else if gr < 1220 then First_Team else if gr < 1340 then Captain
    else if gr < 1480 then Assistant_Manager else Director_of_Football)"
  by (simp add: tierForGr_def BANDS_def)

text \<open>The ladder is monotone in the rating and the floor of the next tier is exact: it is
  above the current rating, reaching it puts the player one rank higher, and one point less
  does not; at the top there is no next tier.\<close>

theorem ladder_next_floor:
  "case nextTierFloor gr of
     None \<Rightarrow> tierForGr gr = Director_of_Football
   | Some b \<Rightarrow> gr < bn_min b \<and> (0 \<le> gr \<longrightarrow> tierIndex (tierForGr (bn_min b)) = Suc (tierIndex (tierForGr gr))
       \<and> tierForGr (bn_min b) = bn_tier b \<and> tierForGr (bn_min b - 1) = tierForGr gr)"
  by (simp add: nextTierFloor_def BANDS_def tierForGr_eq)

theorem ladder_next_floor_witness:
  "case nextTierFloor 1000 of None \<Rightarrow> False | Some b \<Rightarrow> 1000 < bn_min b"
  using ladder_next_floor[of 1000] by (simp add: nextTierFloor_def BANDS_def)

lemma tierForGr_mono: "g \<le> h \<Longrightarrow> tierForGr g \<le> tierForGr h"
  by (simp add: tierForGr_eq less_eq_tier_def)

lemma tier_change_direction:
  "tierForGr g \<noteq> tierForGr h \<Longrightarrow> tierIndex (tierForGr h) > tierIndex (tierForGr g) \<longleftrightarrow> h > g"
  using tierForGr_mono[of g h] tierForGr_mono[of h g]
  by (smt (verit) antisym less_eq_tier_def less_le_not_le linorder_le_cases not_le)

section \<open>Form\<close>

datatype streak_kind = StreakW | StreakL | StreakNone

record form_state =
  fm_recent :: "form_result list"
  fm_streak :: int
  fm_streakKind :: streak_kind
  fm_hot :: bool
  fm_cold :: bool
  fm_multiplier :: num

definition FORM_WINDOW :: nat where "FORM_WINDOW = 5"

definition kind_of :: "form_result \<Rightarrow> streak_kind" where
  "kind_of r = (case r of FormW \<Rightarrow> StreakW | FormL \<Rightarrow> StreakL | FormVoid \<Rightarrow> StreakNone)"

text \<open>The loop from the last result backwards; it breaks at the first other result.\<close>

fun streak_loop :: "form_result list \<Rightarrow> streak_kind \<Rightarrow> int \<Rightarrow> streak_kind \<times> int" where
  "streak_loop [] kind streak = (kind, streak)"
| "streak_loop (r # rs) kind streak =
     (if kind = StreakNone then streak_loop rs (kind_of r) 1
      else if kind_of r = kind then streak_loop rs kind (streak + 1)
      else (kind, streak))"

definition computeForm :: "form_result list \<Rightarrow> nat \<Rightarrow> form_state" where
  "computeForm results window =
     (let wl = filter (\<lambda>r. r \<noteq> FormVoid) results;
          recent = take_last window wl;
          (kind, streak) = streak_loop (rev wl) StreakNone 0;
          hot = (kind = StreakW \<and> streak \<ge> 3);
          cold = (kind = StreakL \<and> streak \<ge> 3);
          multiplier = (if hot then 1 + of_int (min (streak - 2) 3) * (1 / 20) else 1)
      in \<lparr>fm_recent = recent, fm_streak = (if kind = StreakNone then 0 else streak),
          fm_streakKind = kind, fm_hot = hot, fm_cold = cold, fm_multiplier = multiplier\<rparr>)"

lemma streak_loop_run:
  "k \<noteq> StreakNone \<Longrightarrow>
    streak_loop rs k n = (k, n + int (length (takeWhile (\<lambda>r. kind_of r = k) rs)))"
  by (induction rs arbitrary: n) simp_all

lemma streak_loop_start:
  "FormVoid \<notin> set rs \<Longrightarrow> streak_loop rs StreakNone 0 =
    (case rs of [] \<Rightarrow> (StreakNone, 0)
     | r # _ \<Rightarrow> (kind_of r, int (length (takeWhile (\<lambda>s. s = r) rs))))"
proof (cases rs)
  case (Cons r rs')
  assume v: "FormVoid \<notin> set rs"
  have inj: "s \<noteq> FormVoid \<Longrightarrow> t \<noteq> FormVoid \<Longrightarrow> kind_of s = kind_of t \<longleftrightarrow> s = t" for s t
    by (cases s; cases t) (simp_all add: kind_of_def)
  have r: "kind_of r \<noteq> StreakNone" using v Cons by (cases r) (auto simp: kind_of_def)
  have "takeWhile (\<lambda>s. kind_of s = kind_of r) rs' = takeWhile (\<lambda>s. s = r) rs'"
  proof (rule takeWhile_cong[OF refl])
    fix x assume "x \<in> set rs'"
    then have "x \<noteq> FormVoid" "r \<noteq> FormVoid" using v Cons by auto
    then show "(kind_of x = kind_of r) = (x = r)" by (rule inj)
  qed
  then show ?thesis using Cons r by (simp add: streak_loop_run)
qed simp

text \<open>The form loop computes the current run: its kind is the last decided result and its
  length is the longest stretch of that result at the end, refunds left out; the bonus stays
  between 1 and 1.15 and exceeds 1 only on at least three straight wins.\<close>

theorem form_is_last_run:
  "let wl = filter (\<lambda>r. r \<noteq> FormVoid) results; f = computeForm results window in
     fm_streak f = int (length (takeWhile (\<lambda>r. r = last wl) (rev wl))) \<and>
     fm_streakKind f = (if wl = [] then StreakNone else kind_of (last wl)) \<and>
     1 \<le> fm_multiplier f \<and> fm_multiplier f \<le> 23 / 20 \<and>
     fm_hot f = (1 < fm_multiplier f) \<and>
     (fm_hot f \<longrightarrow> 3 \<le> length wl \<and> last wl = FormW) \<and>
     fm_recent f = drop (length wl - window) wl"
proof -
  let ?wl = "filter (\<lambda>r. r \<noteq> FormVoid) results"
  let ?n = "length (takeWhile (\<lambda>r. r = last ?wl) (rev ?wl))"
  have loop: "streak_loop (rev ?wl) StreakNone 0 =
      (if ?wl = [] then (StreakNone, 0) else (kind_of (last ?wl), int ?n))"
    by (subst streak_loop_start) (auto split: list.splits simp: last_rev rev_swap)
  have n: "?n \<le> length ?wl" using length_takeWhile_le[of _ "rev ?wl"] by simp
  have last: "?wl \<noteq> [] \<Longrightarrow> last ?wl \<noteq> FormVoid"
    using last_in_set[of ?wl] by auto
  have kind: "kind_of r = StreakW \<longleftrightarrow> r = FormW" for r by (cases r) (simp_all add: kind_of_def)
  have kn: "r \<noteq> FormVoid \<Longrightarrow> kind_of r \<noteq> StreakNone" for r
    by (cases r) (simp_all add: kind_of_def)
  show ?thesis
    using loop n last kind kn
    by (auto simp: computeForm_def Let_def take_last_def of_nat_diff min_def)
qed

theorem form_is_last_run_witness:
  "fm_streak (computeForm [FormL, FormW, FormVoid, FormW, FormW] FORM_WINDOW) = 3"
  using form_is_last_run[of "[FormL, FormW, FormVoid, FormW, FormW]" FORM_WINDOW]
  by (simp add: Let_def)

lemma computeForm_void [simp]: "computeForm (rs @ [FormVoid]) w = computeForm rs w"
  by (simp add: computeForm_def)

lemma form_multiplier_bounds:
  "1 \<le> fm_multiplier (computeForm rs w)" "fm_multiplier (computeForm rs w) \<le> 23 / 20"
proof -
  have "1 \<le> fm_multiplier (computeForm rs w) \<and> fm_multiplier (computeForm rs w) \<le> 23 / 20"
    by (auto simp: computeForm_def Let_def min_def split: prod.splits)
  then show "1 \<le> fm_multiplier (computeForm rs w)" "fm_multiplier (computeForm rs w) \<le> 23 / 20"
    by simp_all
qed

end
