(* ===== verification/Dossier.thy ===== *)
theory Dossier
  imports Projection Rating
begin

text \<open>
  The Dossier (\<open>src/core/projections/DossierProjection.ts\<close>): a player's file, folded from the
  events of the player's stream: money (free balance, locked stakes, bonus, realised profit),
  rating, record, form, open calls and open challenge stakes, traits, hot takes, landmarks.
  A landmark keeps the percentage its sentence shows. The lemmas give the money effect of
  every event, the well-formedness of a dossier with the condition under which each event
  keeps it, and the rating as the running sum of the changes.
\<close>

section \<open>State\<close>

record open_call =
  oc_callId :: call_id
  oc_matchId :: match_id
  oc_marketId :: market_id
  oc_bucket :: bucket
  oc_stake :: frost
  oc_impliedProbAtCall :: num
  oc_bold :: bool
  oc_at :: int

record open_stake =
  os_challengeId :: challenge_id
  os_matchId :: match_id
  os_side :: bucket
  os_stake :: frost
  os_at :: int

record hot_take =
  ht_takeId :: string
  ht_text :: string
  ht_at :: int

record landmark =
  lm_callId :: call_id
  lm_matchId :: match_id
  lm_percent :: int
  lm_at :: int

record last_verdict =
  lv_text :: string
  lv_at :: int
  lv_trigger :: verdict_trigger

record dossier_state =
  ds_wallet :: wallet
  ds_handle :: "string option"
  ds_signedAt :: int
  ds_balance :: frost
  ds_locked :: frost
  ds_bonus :: frost
  ds_claimedGrant :: bool
  ds_gr :: int
  ds_pnl :: frost
  ds_won :: nat
  ds_lost :: nat
  ds_voided :: nat
  ds_formResults :: "form_result list"
  ds_openCalls :: "(call_id, open_call) jmap"
  ds_openStakes :: "(challenge_id, open_stake) jmap"
  ds_traits :: "(string, trait) jmap"
  ds_hotTakes :: "hot_take list"
  ds_landmarks :: "landmark list"
  ds_lastVerdict :: "last_verdict option"

definition new_dossier :: "wallet \<Rightarrow> string option \<Rightarrow> int \<Rightarrow> dossier_state" where
  "new_dossier w handle tm = \<lparr>ds_wallet = w, ds_handle = handle, ds_signedAt = tm,
     ds_balance = 0, ds_locked = 0, ds_bonus = 0, ds_claimedGrant = False, ds_gr = BASE_GR,
     ds_pnl = 0, ds_won = 0, ds_lost = 0, ds_voided = 0, ds_formResults = [], ds_openCalls = [],
     ds_openStakes = [], ds_traits = [], ds_hotTakes = [], ds_landmarks = [], ds_lastVerdict = None\<rparr>"

section \<open>Events\<close>

text \<open>Spend the bonus first, then the free balance.\<close>

definition lock_funds :: "frost \<Rightarrow> dossier_state \<Rightarrow> dossier_state" where
  "lock_funds stake s =
     (let fromBonus = (if ds_bonus s < stake then ds_bonus s else stake)
      in s\<lparr>ds_bonus := ds_bonus s - fromBonus,
           ds_balance := ds_balance s - (stake - fromBonus),
           ds_locked := ds_locked s + stake\<rparr>)"

definition settle_call_step :: "int \<Rightarrow> call_settled \<Rightarrow> dossier_state \<Rightarrow> dossier_state" where
  "settle_call_step tm p s =
     (let s1 = s\<lparr>ds_openCalls := jm_del (cs_callId p) (ds_openCalls s),
                 ds_locked := ds_locked s - cs_stake p,
                 ds_balance := ds_balance s + cs_payout p,
                 ds_pnl := ds_pnl s + cs_pnlDelta p,
                 ds_gr := ds_gr s + cs_grDelta p\<rparr>
      in if cs_result p = WON
         then s1\<lparr>ds_won := ds_won s + 1, ds_formResults := ds_formResults s @ [FormW],
                 ds_landmarks := ds_landmarks s @
                   (if cs_difficulty p \<ge> 3 / 5
                    then [\<lparr>lm_callId = cs_callId p, lm_matchId = cs_matchId p,
                           lm_percent = \<lfloor>cs_difficulty p * 100\<rfloor>, lm_at = tm\<rparr>] else [])\<rparr>
         else s1\<lparr>ds_lost := ds_lost s + 1, ds_formResults := ds_formResults s @ [FormL]\<rparr>)"

text \<open>One event on the dossier of its stream's wallet.\<close>

fun dossier_step :: "int \<Rightarrow> player_event \<Rightarrow> dossier_state \<Rightarrow> dossier_state" where
  "dossier_step tm (Deposited amount _) s = s\<lparr>ds_balance := ds_balance s + amount\<rparr>"
| "dossier_step tm (Withdrawn amount _ _) s = s\<lparr>ds_balance := ds_balance s - amount\<rparr>"
| "dossier_step tm (WithdrawalInitiated _ amount _) s = s\<lparr>ds_balance := ds_balance s - amount\<rparr>"
| "dossier_step tm (WithdrawalReversed _ amount _) s = s\<lparr>ds_balance := ds_balance s + amount\<rparr>"
| "dossier_step tm (WithdrawalSettled _ _ _ _) s = s"
| "dossier_step tm (WelcomeGranted amount) s =
     s\<lparr>ds_bonus := ds_bonus s + amount, ds_claimedGrant := True\<rparr>"
| "dossier_step tm (HouseSeeded amount) s = s\<lparr>ds_balance := ds_balance s + amount\<rparr>"
| "dossier_step tm (CallMade p) s =
     (lock_funds (cm_stake p) s)\<lparr>ds_openCalls := jm_set (cm_callId p)
        \<lparr>oc_callId = cm_callId p, oc_matchId = cm_matchId p, oc_marketId = cm_marketId p,
         oc_bucket = cm_bucket p, oc_stake = cm_stake p,
         oc_impliedProbAtCall = cm_impliedProbAtCall p, oc_bold = cm_bold p, oc_at = tm\<rparr>
        (ds_openCalls s)\<rparr>"
| "dossier_step tm (CallSettled p) s = settle_call_step tm p s"
| "dossier_step tm (CallVoided p) s =
     s\<lparr>ds_openCalls := jm_del (cv_callId p) (ds_openCalls s),
       ds_locked := ds_locked s - cv_refund p, ds_balance := ds_balance s + cv_refund p,
       ds_voided := ds_voided s + 1, ds_formResults := ds_formResults s @ [FormVoid]\<rparr>"
| "dossier_step tm (TraitObserved p) s =
     s\<lparr>ds_traits := jm_set (to_traitKey p)
        \<lparr>tr_key = to_traitKey p, tr_label = to_label p, tr_confidence = to_confidence p,
         tr_evidence = to_evidence p,
         tr_firstSeen = (case jm_get (ds_traits s) (to_traitKey p) of None \<Rightarrow> tm | Some t \<Rightarrow> tr_firstSeen t),
         tr_lastSeen = tm\<rparr> (ds_traits s)\<rparr>"
| "dossier_step tm (HotTakeDeclared takeId txt _) s =
     s\<lparr>ds_hotTakes := ds_hotTakes s @ [\<lparr>ht_takeId = takeId, ht_text = txt, ht_at = tm\<rparr>]\<rparr>"
| "dossier_step tm (VerdictIssued p) s =
     s\<lparr>ds_lastVerdict := Some \<lparr>lv_text = vi_text p, lv_at = tm, lv_trigger = vi_trigger p\<rparr>\<rparr>"
| "dossier_step tm (ChallengeStakeLocked p) s =
     (lock_funds (sl_stake p) s)\<lparr>ds_openStakes := jm_set (sl_challengeId p)
        \<lparr>os_challengeId = sl_challengeId p, os_matchId = sl_matchId p, os_side = sl_side p,
         os_stake = sl_stake p, os_at = tm\<rparr> (ds_openStakes s)\<rparr>"
| "dossier_step tm (ChallengeStakeSettled p) s =
     (case jm_get (ds_openStakes s) (ss_challengeId p) of
        None \<Rightarrow> s
      | Some os \<Rightarrow> s\<lparr>ds_openStakes := jm_del (ss_challengeId p) (ds_openStakes s),
                     ds_locked := ds_locked s - os_stake os,
                     ds_balance := ds_balance s + ss_payout p,
                     ds_pnl := ds_pnl s + ss_pnlDelta p\<rparr>)"
| "dossier_step tm (ChallengeStakeRefunded p) s =
     (case jm_get (ds_openStakes s) (sr_challengeId p) of
        None \<Rightarrow> s
      | Some os \<Rightarrow> s\<lparr>ds_openStakes := jm_del (sr_challengeId p) (ds_openStakes s),
                     ds_locked := ds_locked s - sr_refund p,
                     ds_balance := ds_balance s + sr_refund p\<rparr>)"
| "dossier_step tm (PlayerSigned _ _) s = s"
| "dossier_step tm (TierChanged _) s = s"
| "dossier_step tm (ChatExchanged _ _) s = s"

type_synonym dossiers = "(wallet, dossier_state) jmap"

text \<open>The projection: signing creates the file once; any other player event acts on the file of
  the wallet its stream names, when there is one.\<close>

definition dossier_apply :: "stored_event \<Rightarrow> dossiers \<Rightarrow> dossiers" where
  "dossier_apply e ds =
     (case ev_payload e of
        PlayerE (PlayerSigned w handle) \<Rightarrow>
          if jm_get ds w \<noteq> None then ds else jm_set w (new_dossier w handle (ev_at e)) ds
      | PlayerE p \<Rightarrow>
          (case streamWallet (ev_streamId e) of
             None \<Rightarrow> ds
           | Some w \<Rightarrow>
               (case jm_get ds w of
                  None \<Rightarrow> ds
                | Some s \<Rightarrow> jm_set w (dossier_step (ev_at e) p s) ds))
      | _ \<Rightarrow> ds)"

section \<open>Views\<close>

record dossier_view =
  dv_wallet :: wallet
  dv_handle :: "string option"
  dv_signedAt :: int
  dv_balance :: frost
  dv_locked :: frost
  dv_bonus :: frost
  dv_claimedGrant :: bool
  dv_gr :: int
  dv_tier :: tier
  dv_nextTier :: "band option"
  dv_pnl :: frost
  dv_won :: nat
  dv_lost :: nat
  dv_voided :: nat
  dv_form :: form_state
  dv_openCalls :: "open_call list"
  dv_openStakes :: "open_stake list"
  dv_traits :: "trait list"
  dv_hotTakes :: "hot_take list"
  dv_landmarks :: "landmark list"
  dv_lastVerdict :: "last_verdict option"

definition toView :: "dossier_state \<Rightarrow> dossier_view" where
  "toView s = \<lparr>dv_wallet = ds_wallet s, dv_handle = ds_handle s, dv_signedAt = ds_signedAt s,
     dv_balance = ds_balance s, dv_locked = ds_locked s, dv_bonus = ds_bonus s,
     dv_claimedGrant = ds_claimedGrant s, dv_gr = ds_gr s, dv_tier = tierForGr (ds_gr s),
     dv_nextTier = nextTierFloor (ds_gr s), dv_pnl = ds_pnl s, dv_won = ds_won s,
     dv_lost = ds_lost s, dv_voided = ds_voided s,
     dv_form = computeForm (ds_formResults s) FORM_WINDOW,
     dv_openCalls = sort_key oc_at (jm_values (ds_openCalls s)),
     dv_openStakes = sort_key os_at (jm_values (ds_openStakes s)),
     dv_traits = sort_key (\<lambda>t. - tr_confidence t) (jm_values (ds_traits s)),
     dv_hotTakes = sort_key (\<lambda>t. - ht_at t) (ds_hotTakes s),
     dv_landmarks = sort_key (\<lambda>l. - lm_at l) (ds_landmarks s),
     dv_lastVerdict = ds_lastVerdict s\<rparr>"

definition dossier_get :: "dossiers \<Rightarrow> wallet \<Rightarrow> dossier_view option" where
  "dossier_get ds w = map_option toView (jm_get ds w)"

definition dossier_all :: "dossiers \<Rightarrow> dossier_view list" where
  "dossier_all ds = map toView (jm_values ds)"

text \<open>The views list the open calls and stakes without changing which there are.\<close>

lemma set_view_openCalls: "set (dv_openCalls (toView s)) = snd ` set (ds_openCalls s)"
  by (simp add: toView_def)

lemma set_view_openStakes: "set (dv_openStakes (toView s)) = snd ` set (ds_openStakes s)"
  by (simp add: toView_def)

section \<open>The projection's contract\<close>

definition is_player_event :: "stored_event \<Rightarrow> bool" where
  "is_player_event e \<longleftrightarrow> (case ev_payload e of PlayerE _ \<Rightarrow> True | _ \<Rightarrow> False)"

definition dossier_owner :: "stored_event \<Rightarrow> wallet option" where
  "dossier_owner e =
     (case ev_payload e of
        PlayerE (PlayerSigned w _) \<Rightarrow> Some w
      | PlayerE _ \<Rightarrow> streamWallet (ev_streamId e)
      | _ \<Rightarrow> None)"

lemma dossier_apply_signed:
  "ev_payload e = PlayerE (PlayerSigned w h) \<Longrightarrow>
    dossier_apply e ds = (if jm_get ds w \<noteq> None then ds else jm_set w (new_dossier w h (ev_at e)) ds)"
  by (simp add: dossier_apply_def)

lemma dossier_apply_step:
  "ev_payload e = PlayerE p \<Longrightarrow> \<not> is_signing p \<Longrightarrow>
    dossier_apply e ds = (case streamWallet (ev_streamId e) of None \<Rightarrow> ds
      | Some w \<Rightarrow> (case jm_get ds w of None \<Rightarrow> ds | Some s \<Rightarrow> jm_set w (dossier_step (ev_at e) p s) ds))"
  by (cases p; hypsubst; simp add: dossier_apply_def is_signing_def)

lemma dossier_apply_other:
  "ev_payload e = MatchE m \<Longrightarrow> dossier_apply e ds = ds"
  "ev_payload e = ChallengeE c \<Longrightarrow> dossier_apply e ds = ds"
  by (simp_all add: dossier_apply_def)

lemma dossier_owner_step:
  "ev_payload e = PlayerE p \<Longrightarrow> \<not> is_signing p \<Longrightarrow>
    dossier_owner e = streamWallet (ev_streamId e)"
  by (cases p) (simp_all add: dossier_owner_def is_signing_def)

text \<open>The file of a wallet after an event, in one equation.\<close>

lemma dossier_apply_get:
  "jm_get (dossier_apply e ds) w =
    (if dossier_owner e \<noteq> Some w then jm_get ds w
     else case ev_payload e of
       PlayerE (PlayerSigned _ h) \<Rightarrow>
         (case jm_get ds w of None \<Rightarrow> Some (new_dossier w h (ev_at e)) | Some s \<Rightarrow> Some s)
     | PlayerE p \<Rightarrow> map_option (dossier_step (ev_at e) p) (jm_get ds w)
     | _ \<Rightarrow> jm_get ds w)"
proof (cases "ev_payload e")
  case (PlayerE p)
  show ?thesis
  proof (cases "is_signing p")
    case True
    then obtain v h where "p = PlayerSigned v h" by (auto simp: is_signing_iff)
    with PlayerE show ?thesis
      by (auto simp: dossier_apply_signed dossier_owner_def split: option.splits)
  next
    case False
    with PlayerE have own: "dossier_owner e = streamWallet (ev_streamId e)"
      by (rule dossier_owner_step)
    have "jm_get (dossier_apply e ds) w = (if streamWallet (ev_streamId e) \<noteq> Some w then jm_get ds w
      else map_option (dossier_step (ev_at e) p) (jm_get ds w))"
      unfolding dossier_apply_step[OF PlayerE False] by (auto split: option.splits)
    with PlayerE False own show ?thesis by (cases p) (simp_all add: is_signing_def)
  qed
qed (simp_all add: dossier_apply_other dossier_owner_def)

interpretation dossier: keyed_projection dossier_apply is_player_event jm_get dossier_owner
proof
  fix e ds
  assume "\<not> is_player_event e"
  then show "dossier_apply e ds = ds"
    by (cases "ev_payload e") (simp_all add: dossier_apply_other is_player_event_def)
next
  fix e :: stored_event and w and ds :: dossiers
  assume "dossier_owner e \<noteq> Some w"
  then show "jm_get (dossier_apply e ds) w = jm_get ds w" by (simp add: dossier_apply_get)
next
  fix ds dt :: dossiers and w e
  assume "jm_get ds w = jm_get dt w"
  then show "jm_get (dossier_apply e ds) w = jm_get (dossier_apply e dt) w"
    by (simp only: dossier_apply_get)
qed

section \<open>Money\<close>

text \<open>All of a player's money: free, bonus and staked.\<close>

definition wealth :: "dossier_state \<Rightarrow> frost" where
  "wealth s = ds_balance s + ds_bonus s + ds_locked s"

text \<open>What an event pays into the file from outside, or takes out of it.\<close>

fun funding :: "player_event \<Rightarrow> frost" where
  "funding (Deposited amount _) = amount"
| "funding (Withdrawn amount _ _) = - amount"
| "funding (WithdrawalInitiated _ amount _) = - amount"
| "funding (WithdrawalReversed _ amount _) = amount"
| "funding (WelcomeGranted amount) = amount"
| "funding (HouseSeeded amount) = amount"
| "funding _ = 0"

definition stake_total :: "dossier_state \<Rightarrow> frost" where
  "stake_total s = jm_sum oc_stake (ds_openCalls s) + jm_sum os_stake (ds_openStakes s)"

text \<open>A well-formed file: no money is negative, every open stake is positive and listed under
  its own id, and the locked money is exactly what the open calls and stakes hold.\<close>

definition dossier_ok :: "dossier_state \<Rightarrow> bool" where
  "dossier_ok s \<longleftrightarrow>
     0 \<le> ds_balance s \<and> 0 \<le> ds_bonus s \<and>
     jm_wf (ds_openCalls s) \<and> jm_wf (ds_openStakes s) \<and>
     (\<forall>(k, oc) \<in> set (ds_openCalls s). oc_callId oc = k \<and> 0 < oc_stake oc) \<and>
     (\<forall>(k, os) \<in> set (ds_openStakes s). os_challengeId os = k \<and> 0 < os_stake os) \<and>
     ds_locked s = stake_total s"

text \<open>The condition under which each event is a legal entry of the file.\<close>

fun event_valid :: "player_event \<Rightarrow> dossier_state \<Rightarrow> bool" where
  "event_valid (Deposited amount _) s \<longleftrightarrow> 0 < amount"
| "event_valid (Withdrawn amount _ _) s \<longleftrightarrow> amount \<le> ds_balance s"
| "event_valid (WithdrawalInitiated _ amount _) s \<longleftrightarrow> amount \<le> ds_balance s"
| "event_valid (WithdrawalReversed _ amount _) s \<longleftrightarrow> 0 \<le> amount"
| "event_valid (WelcomeGranted amount) s \<longleftrightarrow> 0 \<le> amount"
| "event_valid (HouseSeeded amount) s \<longleftrightarrow> 0 \<le> amount"
| "event_valid (CallMade p) s \<longleftrightarrow>
     0 < cm_stake p \<and> cm_stake p \<le> ds_balance s + ds_bonus s \<and> jm_get (ds_openCalls s) (cm_callId p) = None"
| "event_valid (CallSettled p) s \<longleftrightarrow>
     map_option oc_stake (jm_get (ds_openCalls s) (cs_callId p)) = Some (cs_stake p) \<and>
     0 \<le> cs_payout p \<and> cs_pnlDelta p = cs_payout p - cs_stake p"
| "event_valid (CallVoided p) s \<longleftrightarrow>
     map_option oc_stake (jm_get (ds_openCalls s) (cv_callId p)) = Some (cv_refund p)"
| "event_valid (ChallengeStakeLocked p) s \<longleftrightarrow>
     0 < sl_stake p \<and> sl_stake p \<le> ds_balance s + ds_bonus s \<and>
     jm_get (ds_openStakes s) (sl_challengeId p) = None"
| "event_valid (ChallengeStakeSettled p) s \<longleftrightarrow>
     map_option os_stake (jm_get (ds_openStakes s) (ss_challengeId p)) = Some (ss_stake p) \<and>
     0 \<le> ss_payout p \<and> ss_pnlDelta p = ss_payout p - ss_stake p"
| "event_valid (ChallengeStakeRefunded p) s \<longleftrightarrow>
     map_option os_stake (jm_get (ds_openStakes s) (sr_challengeId p)) = Some (sr_refund p)"
| "event_valid _ s \<longleftrightarrow> True"

text \<open>A history of the file: each event with its time, legal when it is appended.\<close>

fun run_file :: "(int \<times> player_event) list \<Rightarrow> dossier_state \<Rightarrow> dossier_state" where
  "run_file [] s = s"
| "run_file ((tm, p) # es) s = run_file es (dossier_step tm p s)"

fun history_valid :: "(int \<times> player_event) list \<Rightarrow> dossier_state \<Rightarrow> bool" where
  "history_valid [] s \<longleftrightarrow> True"
| "history_valid ((tm, p) # es) s \<longleftrightarrow> event_valid p s \<and> history_valid es (dossier_step tm p s)"

lemma lock_funds_fields [simp]:
  "wealth (lock_funds stake s) = wealth s"
  "ds_locked (lock_funds stake s) = ds_locked s + stake"
  "ds_openCalls (lock_funds stake s) = ds_openCalls s"
  "ds_openStakes (lock_funds stake s) = ds_openStakes s"
  "ds_pnl (lock_funds stake s) = ds_pnl s"
  by (simp_all add: lock_funds_def wealth_def Let_def)

lemma lock_funds_nonneg:
  assumes "0 \<le> ds_balance s" "0 \<le> ds_bonus s" "0 \<le> stake" "stake \<le> ds_balance s + ds_bonus s"
  shows "0 \<le> ds_balance (lock_funds stake s)" "0 \<le> ds_bonus (lock_funds stake s)"
  using assms by (simp_all add: lock_funds_def Let_def)

text \<open>The bonus is spent before any of the player's own balance.\<close>

lemma lock_funds_bonus_first:
  "0 \<le> stake \<Longrightarrow> ds_balance (lock_funds stake s) < ds_balance s \<Longrightarrow> ds_bonus (lock_funds stake s) = 0"
  by (simp add: lock_funds_def Let_def split: if_splits)

lemma wealth_update [simp]:
  "wealth (s\<lparr>ds_openCalls := oc\<rparr>) = wealth s"
  "wealth (s\<lparr>ds_openStakes := os\<rparr>) = wealth s"
  "wealth (s\<lparr>ds_traits := tr\<rparr>) = wealth s"
  "wealth (s\<lparr>ds_hotTakes := ht\<rparr>) = wealth s"
  "wealth (s\<lparr>ds_lastVerdict := lv\<rparr>) = wealth s"
  by (simp_all add: wealth_def)

text \<open>Every event's money effect: what it pays in, plus the profit it books.\<close>

lemma dossier_step_wealth:
  "event_valid p s \<Longrightarrow>
    wealth (dossier_step tm p s) - ds_pnl (dossier_step tm p s) = wealth s - ds_pnl s + funding p"
  by (cases p) (auto simp: wealth_def settle_call_step_def Let_def lock_funds_def split: option.splits)

lemma dossier_ok_new: "dossier_ok (new_dossier w h tm)"
  by (simp add: dossier_ok_def new_dossier_def stake_total_def)

lemma dossier_ok_money:
  "dossier_ok s \<Longrightarrow> 0 \<le> b \<Longrightarrow> 0 \<le> bo \<Longrightarrow> dossier_ok (s\<lparr>ds_balance := b, ds_bonus := bo\<rparr>)"
  by (simp add: dossier_ok_def stake_total_def)

text \<open>Fields the money does not depend on.\<close>

lemma dossier_ok_frame:
  assumes "dossier_ok s" "0 \<le> ds_balance t" "0 \<le> ds_bonus t" "ds_locked t = ds_locked s"
    "ds_openCalls t = ds_openCalls s" "ds_openStakes t = ds_openStakes s"
  shows "dossier_ok t"
  using assms by (simp add: dossier_ok_def stake_total_def)

lemma dossier_ok_open_call:
  assumes ok: "dossier_ok s" and st: "0 < oc_stake c" "oc_stake c \<le> ds_balance s + ds_bonus s"
    and fresh: "jm_get (ds_openCalls s) (oc_callId c) = None"
  shows "dossier_ok ((lock_funds (oc_stake c) s)\<lparr>ds_openCalls := jm_set (oc_callId c) c (ds_openCalls s)\<rparr>)"
  using ok st lock_funds_nonneg[of s "oc_stake c"]
  by (auto simp: dossier_ok_def stake_total_def jm_sum_set fresh dest!: in_jm_set)

lemma dossier_ok_open_stake:
  assumes ok: "dossier_ok s" and st: "0 < os_stake c" "os_stake c \<le> ds_balance s + ds_bonus s"
    and fresh: "jm_get (ds_openStakes s) (os_challengeId c) = None"
  shows "dossier_ok ((lock_funds (os_stake c) s)\<lparr>ds_openStakes := jm_set (os_challengeId c) c (ds_openStakes s)\<rparr>)"
  using ok st lock_funds_nonneg[of s "os_stake c"]
  by (auto simp: dossier_ok_def stake_total_def jm_sum_set fresh dest!: in_jm_set)

lemma dossier_ok_close_call:
  assumes "dossier_ok s" "jm_get (ds_openCalls s) k = Some c" "0 \<le> pay"
    and "ds_balance t = ds_balance s + pay" "ds_bonus t = ds_bonus s"
    "ds_locked t = ds_locked s - oc_stake c" "ds_openCalls t = jm_del k (ds_openCalls s)"
    "ds_openStakes t = ds_openStakes s"
  shows "dossier_ok t"
  using assms by (auto simp: dossier_ok_def stake_total_def jm_sum_del dest!: in_jm_del)

lemma dossier_ok_close_stake:
  assumes "dossier_ok s" "jm_get (ds_openStakes s) k = Some c" "0 \<le> pay"
    and "ds_balance t = ds_balance s + pay" "ds_bonus t = ds_bonus s"
    "ds_locked t = ds_locked s - os_stake c" "ds_openStakes t = jm_del k (ds_openStakes s)"
    "ds_openCalls t = ds_openCalls s"
  shows "dossier_ok t"
  using assms by (auto simp: dossier_ok_def stake_total_def jm_sum_del dest!: in_jm_del)

lemma dossier_ok_call_stake_pos:
  "dossier_ok s \<Longrightarrow> jm_get (ds_openCalls s) k = Some c \<Longrightarrow> 0 < oc_stake c \<and> oc_callId c = k"
  by (auto simp: dossier_ok_def dest: jm_get_mem)

lemma dossier_ok_stake_pos:
  "dossier_ok s \<Longrightarrow> jm_get (ds_openStakes s) k = Some c \<Longrightarrow> 0 < os_stake c \<and> os_challengeId c = k"
  by (auto simp: dossier_ok_def dest: jm_get_mem)

lemma dossier_step_ok:
  assumes ok: "dossier_ok s" and valid: "event_valid p s"
  shows "dossier_ok (dossier_step tm p s)"
proof (cases p)
  case (CallMade c)
  with ok valid dossier_ok_open_call[of s "\<lparr>oc_callId = cm_callId c, oc_matchId = cm_matchId c,
      oc_marketId = cm_marketId c, oc_bucket = cm_bucket c, oc_stake = cm_stake c,
      oc_impliedProbAtCall = cm_impliedProbAtCall c, oc_bold = cm_bold c, oc_at = tm\<rparr>"]
  show ?thesis by simp
next
  case (ChallengeStakeLocked c)
  with ok valid dossier_ok_open_stake[of s "\<lparr>os_challengeId = sl_challengeId c,
      os_matchId = sl_matchId c, os_side = sl_side c, os_stake = sl_stake c, os_at = tm\<rparr>"]
  show ?thesis by simp
next
  case (CallSettled c)
  with valid obtain oc where oc: "jm_get (ds_openCalls s) (cs_callId c) = Some oc"
    "oc_stake oc = cs_stake c" "0 \<le> cs_payout c" by auto
  show ?thesis using CallSettled oc
    by (intro dossier_ok_close_call[OF ok oc(1,3)]) (simp_all add: settle_call_step_def Let_def)
next
  case (CallVoided c)
  with valid obtain oc where oc: "jm_get (ds_openCalls s) (cv_callId c) = Some oc"
    "oc_stake oc = cv_refund c" by auto
  with dossier_ok_call_stake_pos[OF ok oc(1)] have "0 \<le> cv_refund c" by simp
  with CallVoided oc show ?thesis by (intro dossier_ok_close_call[OF ok oc(1)]) simp_all
next
  case (ChallengeStakeSettled c)
  with valid obtain os where os: "jm_get (ds_openStakes s) (ss_challengeId c) = Some os"
    "0 \<le> ss_payout c" by auto
  with ChallengeStakeSettled show ?thesis by (intro dossier_ok_close_stake[OF ok os]) simp_all
next
  case (ChallengeStakeRefunded c)
  with valid obtain os where os: "jm_get (ds_openStakes s) (sr_challengeId c) = Some os"
    "os_stake os = sr_refund c" by auto
  with dossier_ok_stake_pos[OF ok os(1)] have "0 \<le> sr_refund c" by simp
  with ChallengeStakeRefunded os show ?thesis by (intro dossier_ok_close_stake[OF ok os(1)]) simp_all
qed (use ok valid in \<open>auto simp: dossier_ok_def stake_total_def\<close>)

lemma run_file_ok: "dossier_ok s \<Longrightarrow> history_valid es s \<Longrightarrow> dossier_ok (run_file es s)"
  by (induction es s rule: run_file.induct) (auto intro: dossier_step_ok)

lemma run_file_wealth:
  "history_valid es s \<Longrightarrow>
    wealth (run_file es s) - ds_pnl (run_file es s) = wealth s - ds_pnl s + (\<Sum>(tm, p)\<leftarrow>es. funding p)"
proof (induction es s rule: run_file.induct)
  case (2 tm p es s)
  then show ?case using dossier_step_wealth[of p s tm] by simp
qed simp

text \<open>C10: The money of a player's file balances. Over any legal history of a fresh file, no
  amount goes negative, the locked money is the sum of the open calls and open challenge
  stakes, and free money, bonus and locked money together are exactly what was paid in less
  what was withdrawn, plus the realised profit the file shows.\<close>

theorem dossier_balances:
  assumes "history_valid es (new_dossier w h t0)"
  defines "s \<equiv> run_file es (new_dossier w h t0)"
  shows "0 \<le> ds_balance s \<and> 0 \<le> ds_bonus s \<and> ds_locked s = stake_total s \<and>
    ds_balance s + ds_bonus s + ds_locked s = (\<Sum>(tm, p)\<leftarrow>es. funding p) + ds_pnl s"
proof -
  have "dossier_ok s" unfolding s_def using dossier_ok_new assms(1) by (rule run_file_ok)
  moreover have "wealth s - ds_pnl s = (\<Sum>(tm, p)\<leftarrow>es. funding p)"
    using run_file_wealth[OF assms(1)] by (simp add: s_def new_dossier_def wealth_def)
  ultimately show ?thesis by (simp add: dossier_ok_def wealth_def)
qed

definition sample_history :: "(int \<times> player_event) list" where
  "sample_history =
    [(1, Deposited 100 None), (2, WelcomeGranted 30),
     (3, CallMade \<lparr>cm_callId = ''c1'', cm_matchId = ''m'', cm_marketId = ''k'', cm_bucket = ''HOME'',
        cm_stake = 50, cm_impliedProbAtCall = 1 / 2, cm_bold = False, cm_note = None\<rparr>),
     (4, ChallengeStakeLocked \<lparr>sl_challengeId = ''h1'', sl_matchId = ''m'', sl_side = ''HOME'',
        sl_stake = 20, sl_role = CREATOR\<rparr>),
     (5, CallSettled \<lparr>cs_callId = ''c1'', cs_matchId = ''m'', cs_marketId = ''k'', cs_result = WON,
        cs_stake = 50, cs_payout = 95, cs_pnlDelta = 45, cs_grDelta = 12, cs_difficulty = 1 / 2\<rparr>),
     (6, WithdrawalInitiated ''wd1'' 40 None)]"

theorem dossier_balances_witness:
  "history_valid sample_history (new_dossier ''w'' None 0) \<and>
   ds_balance (run_file sample_history (new_dossier ''w'' None 0)) +
   ds_bonus (run_file sample_history (new_dossier ''w'' None 0)) +
   ds_locked (run_file sample_history (new_dossier ''w'' None 0)) = 135"
proof -
  have v: "history_valid sample_history (new_dossier ''w'' None 0)" by code_simp
  have "(\<Sum>(tm, p)\<leftarrow>sample_history. funding p) = 90" by code_simp
  moreover have "ds_pnl (run_file sample_history (new_dossier ''w'' None 0)) = 45" by code_simp
  ultimately show ?thesis using v dossier_balances[OF v] by simp
qed

section \<open>Rating, record and order\<close>

fun gr_change :: "player_event \<Rightarrow> int" where
  "gr_change (CallSettled p) = cs_grDelta p"
| "gr_change _ = 0"

fun form_entry :: "player_event \<Rightarrow> form_result list" where
  "form_entry (CallSettled p) = [if cs_result p = WON then FormW else FormL]"
| "form_entry (CallVoided _) = [FormVoid]"
| "form_entry _ = []"

lemma dossier_step_gr: "ds_gr (dossier_step tm p s) = ds_gr s + gr_change p"
  by (cases p) (simp_all add: settle_call_step_def lock_funds_def Let_def split: option.split)

lemma dossier_step_form: "ds_formResults (dossier_step tm p s) = ds_formResults s @ form_entry p"
  by (cases p) (simp_all add: settle_call_step_def lock_funds_def Let_def split: option.split)

lemma dossier_step_won:
  "ds_won (dossier_step tm p s) = ds_won s + count (mset (form_entry p)) FormW"
  "ds_lost (dossier_step tm p s) = ds_lost s + count (mset (form_entry p)) FormL"
  "ds_voided (dossier_step tm p s) = ds_voided s + count (mset (form_entry p)) FormVoid"
  by (cases p; simp add: settle_call_step_def lock_funds_def Let_def split: option.split)+

lemma run_file_gr: "ds_gr (run_file es s) = ds_gr s + (\<Sum>(tm, p)\<leftarrow>es. gr_change p)"
  by (induction es s rule: run_file.induct) (simp_all add: dossier_step_gr)

lemma run_file_form:
  "ds_formResults (run_file es s) = ds_formResults s @ concat (map (\<lambda>(tm, p). form_entry p) es)"
  by (induction es s rule: run_file.induct) (simp_all add: dossier_step_form)

definition record_ok :: "dossier_state \<Rightarrow> bool" where
  "record_ok s \<longleftrightarrow> ds_won s = count (mset (ds_formResults s)) FormW \<and>
     ds_lost s = count (mset (ds_formResults s)) FormL \<and>
     ds_voided s = count (mset (ds_formResults s)) FormVoid"

lemma record_ok_step: "record_ok s \<Longrightarrow> record_ok (dossier_step tm p s)"
  by (simp add: record_ok_def dossier_step_won dossier_step_form)

lemma run_file_record: "record_ok s \<Longrightarrow> record_ok (run_file es s)"
  by (induction es s rule: run_file.induct) (simp_all add: record_ok_step)

text \<open>Rank cannot be bought. After any events, the rating the file shows is the base
  rating plus the rating changes of the settled calls and nothing else (no deposit, stake,
  void or challenge moves it), the tier is the tier of that rating, the record counts exactly
  the results of the calls, and the form is computed from those results in order.\<close>

theorem rank_from_calls_only:
  defines "v \<equiv> (\<lambda>es w h t0. toView (run_file es (new_dossier w h t0)))"
  shows "dv_gr (v es w h t0) = BASE_GR + (\<Sum>(tm, p)\<leftarrow>es. gr_change p) \<and>
    dv_tier (v es w h t0) = tierForGr (dv_gr (v es w h t0)) \<and>
    dv_won (v es w h t0) + dv_lost (v es w h t0) + dv_voided (v es w h t0) =
      length (concat (map (\<lambda>(tm, p). form_entry p) es)) \<and>
    dv_form (v es w h t0) = computeForm (concat (map (\<lambda>(tm, p). form_entry p) es)) FORM_WINDOW"
proof -
  let ?s = "run_file es (new_dossier w h t0)"
  have f: "ds_formResults ?s = concat (map (\<lambda>(tm, p). form_entry p) es)"
    by (simp add: run_file_form new_dossier_def)
  have r: "record_ok ?s" by (rule run_file_record) (simp add: record_ok_def new_dossier_def)
  have three: "count (mset xs) FormW + count (mset xs) FormL + count (mset xs) FormVoid = length xs" for xs
    by (induction xs) (use form_result.exhaust in auto)
  have g: "ds_gr ?s = BASE_GR + (\<Sum>(tm, p)\<leftarrow>es. gr_change p)"
    by (simp add: run_file_gr) (simp add: new_dossier_def)
  show ?thesis using r three[of "ds_formResults ?s"]
    by (simp add: v_def toView_def f g record_ok_def)
qed

end
