(* ===== verification/Parimutuel.thy ===== *)
theory Parimutuel
  imports Domain
begin

text \<open>
  Parimutuel settlement (\<open>src/game/parimutuel.ts\<close>): the winners of a market split the
  losers' stakes pro rata, after a rake on the losers' pool; integer dust is handed out one
  unit at a time in the order of the call ids. The lemmas show that the payouts reconcile
  with the pot to the last unit, that a winner is made whole, and that the result does not
  depend on the order in which the calls were recorded.
\<close>

section \<open>The settlement\<close>

record call_stake =
  ck_callId :: call_id
  ck_wallet :: wallet
  ck_bucket :: bucket
  ck_stake :: frost

record settlement_input =
  si_calls :: "call_stake list"
  si_winningBucket :: bucket
  si_rakeBps :: num
  si_minParticipants :: nat

record payout =
  po_callId :: call_id
  po_wallet :: wallet
  po_stake :: frost
  po_payout :: frost
  po_won :: bool

record paid_result =
  pd_winningBucket :: bucket
  pd_grossPot :: frost
  pd_rake :: frost
  pd_winnersStake :: frost
  pd_distributable :: frost
  pd_payouts :: "payout list"

record void_result =
  vd_reason :: string
  vd_grossPot :: frost
  vd_payouts :: "payout list"

datatype settlement_result = PAID paid_result | VOIDED void_result

definition total_stake :: "call_stake list \<Rightarrow> frost" where
  "total_stake cs = (\<Sum>c\<leftarrow>cs. ck_stake c)"

definition refundAll :: "call_stake list \<Rightarrow> string \<Rightarrow> settlement_result" where
  "refundAll calls reason =
     VOIDED \<lparr>vd_reason = reason, vd_grossPot = total_stake calls,
       vd_payouts = map (\<lambda>c. \<lparr>po_callId = ck_callId c, po_wallet = ck_wallet c,
         po_stake = ck_stake c, po_payout = ck_stake c, po_won = False\<rparr>) calls\<rparr>"

text \<open>The first loop: each winner's stake plus the floor of its share; the running total.\<close>

fun allocate :: "frost \<Rightarrow> frost \<Rightarrow> call_stake list \<Rightarrow> frost \<times> (call_id, frost) jmap
    \<Rightarrow> frost \<times> (call_id, frost) jmap" where
  "allocate distributable winnersStake [] acc = acc"
| "allocate distributable winnersStake (w # ws) (allocated, m) =
     (let share = big_div (distributable * ck_stake w) winnersStake
      in allocate distributable winnersStake ws
           (allocated + share, jm_set (ck_callId w) (ck_stake w + share) m))"

text \<open>The second loop: one unit of dust each, until there is none left.\<close>

fun hand_dust :: "call_stake list \<Rightarrow> frost \<Rightarrow> (call_id, frost) jmap \<Rightarrow> (call_id, frost) jmap" where
  "hand_dust [] dust m = m"
| "hand_dust (w # ws) dust m =
     (if dust \<le> 0 then m
      else hand_dust ws (dust - 1)
        (jm_set (ck_callId w) ((case jm_get m (ck_callId w) of None \<Rightarrow> 0 | Some v \<Rightarrow> v) + 1) m))"

definition payout_map :: "frost \<Rightarrow> frost \<Rightarrow> call_stake list \<Rightarrow> (call_id, frost) jmap" where
  "payout_map distributable winnersStake winners =
     (let sorted = sort_key ck_callId winners;
          (allocated, m) = allocate distributable winnersStake sorted (0, [])
      in hand_dust sorted (distributable - allocated) m)"

definition call_payout :: "call_stake list \<Rightarrow> (call_id, frost) jmap \<Rightarrow> call_stake \<Rightarrow> payout" where
  "call_payout winners m c =
     (let won = ck_callId c \<in> ck_callId ` set winners
      in \<lparr>po_callId = ck_callId c, po_wallet = ck_wallet c, po_stake = ck_stake c,
          po_payout = (if won then (case jm_get m (ck_callId c) of None \<Rightarrow> ck_stake c | Some v \<Rightarrow> v)
                       else 0),
          po_won = won\<rparr>)"

definition rake_of :: "num \<Rightarrow> frost \<Rightarrow> frost" where
  "rake_of rakeBps losersStake = big_div (losersStake * js_round rakeBps) 10000"

definition settleParimutuel :: "settlement_input \<Rightarrow> settlement_result" where
  "settleParimutuel inp =
     (let calls = si_calls inp;
          grossPot = total_stake calls
      in if calls = [] then VOIDED \<lparr>vd_reason = ''no calls'', vd_grossPot = 0, vd_payouts = []\<rparr>
         else if length (remdups (map ck_wallet calls)) < si_minParticipants inp
         then refundAll calls ''thin pool''
         else
           (let winners = filter (\<lambda>c. ck_bucket c = si_winningBucket inp) calls;
                winnersStake = total_stake winners
            in if winnersStake = 0 then refundAll calls ''no correct calls''
               else
                 (let losersStake = grossPot - winnersStake;
                      rake = rake_of (si_rakeBps inp) losersStake;
                      distributable = losersStake - rake;
                      m = payout_map distributable winnersStake winners
                  in PAID \<lparr>pd_winningBucket = si_winningBucket inp, pd_grossPot = grossPot,
                       pd_rake = rake, pd_winnersStake = winnersStake,
                       pd_distributable = distributable,
                       pd_payouts = map (call_payout winners m) calls\<rparr>)))"

text \<open>The payouts of either branch, and what the house keeps.\<close>

fun payouts_of :: "settlement_result \<Rightarrow> payout list" where
  "payouts_of (PAID r) = pd_payouts r"
| "payouts_of (VOIDED r) = vd_payouts r"

fun rake_taken :: "settlement_result \<Rightarrow> frost" where
  "rake_taken (PAID r) = pd_rake r"
| "rake_taken (VOIDED r) = 0"

definition impliedProb :: "frost \<Rightarrow> frost \<Rightarrow> num" where
  "impliedProb bucketStake totalStake =
     (if totalStake \<le> 0 then 0
      else of_int (big_div (bucketStake * 1000000) totalStake) / 1000000)"

section \<open>What the settlement relies on\<close>

text \<open>
  The calls of a market as the pots record them: no call id twice, every stake positive
  (stakes are at least \<open>minStake\<close>), and a rake between none and all of the losers' pool.
\<close>

definition calls_ok :: "call_stake list \<Rightarrow> bool" where
  "calls_ok cs \<longleftrightarrow> distinct (map ck_callId cs) \<and> (\<forall>c \<in> set cs. 0 < ck_stake c)"

definition rake_ok :: "num \<Rightarrow> bool" where
  "rake_ok r \<longleftrightarrow> 0 \<le> js_round r \<and> js_round r \<le> 10000"

lemma total_stake_Nil [simp]: "total_stake [] = 0"
  and total_stake_Cons [simp]: "total_stake (c # cs) = ck_stake c + total_stake cs"
  by (simp_all add: total_stake_def)

lemma total_stake_filter:
  "total_stake cs = total_stake (filter P cs) + total_stake (filter (\<lambda>c. \<not> P c) cs)"
  unfolding total_stake_def by (rule sum_list_filter_split)

lemma total_stake_sort [simp]: "total_stake (sort_key k cs) = total_stake cs"
  by (simp add: total_stake_def sum_list_sort_key)

lemma calls_ok_filter: "calls_ok cs \<Longrightarrow> calls_ok (filter P cs)"
  by (auto simp: calls_ok_def distinct_map inj_on_def)

lemma total_stake_nonneg: "calls_ok cs \<Longrightarrow> 0 \<le> total_stake cs"
  unfolding total_stake_def calls_ok_def
  by (rule sum_list_nonneg_int) (auto intro: less_imp_le)

lemma total_stake_zero_iff: "calls_ok cs \<Longrightarrow> total_stake cs = 0 \<longleftrightarrow> cs = []"
proof (cases cs)
  case (Cons c cs')
  assume ok: "calls_ok cs"
  then have "calls_ok cs'" "0 < ck_stake c" using Cons by (auto simp: calls_ok_def)
  then show ?thesis using Cons total_stake_nonneg[of cs'] by simp
qed simp

lemma rake_bounds:
  assumes "rake_ok r" "0 \<le> l"
  shows "0 \<le> rake_of r l" "rake_of r l \<le> l"
proof -
  from assms have a: "0 \<le> l * js_round r" and le: "l * js_round r \<le> l * 10000"
    by (auto simp: rake_ok_def intro: mult_left_mono)
  then have eq: "rake_of r l = l * js_round r div 10000"
    by (simp add: rake_of_def)
  show "0 \<le> rake_of r l" using a eq by simp
  show "rake_of r l \<le> l" using le zdiv_mono1[OF le, of 10000] eq by simp
qed

section \<open>The two loops\<close>

lemma allocate_fst:
  "fst (allocate d t ws (a, m)) = a + (\<Sum>w\<leftarrow>ws. big_div (d * ck_stake w) t)"
  by (induction ws arbitrary: a m) (simp_all add: Let_def)

lemma allocate_get_other:
  "k \<notin> ck_callId ` set ws \<Longrightarrow> jm_get (snd (allocate d t ws (a, m))) k = jm_get m k"
  by (induction ws arbitrary: a m) (auto simp: Let_def)

lemma allocate_get:
  "distinct (map ck_callId ws) \<Longrightarrow> w \<in> set ws \<Longrightarrow>
    jm_get (snd (allocate d t ws (a, m))) (ck_callId w) = Some (ck_stake w + big_div (d * ck_stake w) t)"
proof (induction ws arbitrary: a m)
  case Nil
  then show ?case by simp
next
  case (Cons x ws)
  then show ?case
    by (cases "w = x") (auto simp: Let_def allocate_get_other)
qed

lemma allocate_wf: "jm_wf m \<Longrightarrow> jm_wf (snd (allocate d t ws (a, m)))"
  by (induction ws arbitrary: a m) (simp_all add: Let_def)

lemma allocate_keys:
  "fst ` set (snd (allocate d t ws (a, m))) = ck_callId ` set ws \<union> fst ` set m"
  by (induction ws arbitrary: a m) (auto simp: Let_def jm_set_keys)

lemma hand_dust_wf: "jm_wf m \<Longrightarrow> jm_wf (hand_dust ws d m)"
  by (induction ws d m rule: hand_dust.induct) simp_all

lemma hand_dust_keys:
  "ck_callId ` set ws \<subseteq> fst ` set m \<Longrightarrow> fst ` set (hand_dust ws d m) = fst ` set m"
proof (induction ws d m rule: hand_dust.induct)
  case (1 dust m)
  then show ?case by simp
next
  case (2 w ws dust m)
  then show ?case by (simp add: jm_set_keys insert_absorb)
qed

lemma hand_dust_get_other:
  "k \<notin> ck_callId ` set ws \<Longrightarrow> jm_get (hand_dust ws d m) k = jm_get m k"
  by (induction ws d m rule: hand_dust.induct) auto

lemma hand_dust_get:
  "distinct (map ck_callId ws) \<Longrightarrow> jm_get m k = Some v \<Longrightarrow>
    jm_get (hand_dust ws d m) k = Some v \<or> jm_get (hand_dust ws d m) k = Some (v + 1)"
proof (induction ws d m rule: hand_dust.induct)
  case (1 dust m)
  then show ?case by simp
next
  case (2 w ws dust m)
  show ?case
  proof (cases "dust \<le> 0 \<or> k \<noteq> ck_callId w")
    case True
    with 2 show ?thesis by auto
  next
    case False
    with 2 show ?thesis by (simp add: hand_dust_get_other)
  qed
qed

lemma hand_dust_sum:
  assumes "distinct (map ck_callId ws)" "jm_wf m" "ck_callId ` set ws \<subseteq> fst ` set m" "0 \<le> d"
  shows "jm_sum (\<lambda>v. v) (hand_dust ws d m) = jm_sum (\<lambda>v. v) m + min d (int (length ws))"
  using assms
proof (induction ws d m rule: hand_dust.induct)
  case (1 dust m)
  then show ?case by simp
next
  case (2 w ws dust m)
  show ?case
  proof (cases "dust \<le> 0")
    case True
    with 2 show ?thesis by simp
  next
    case False
    from "2.prems"(3) obtain v where v: "jm_get m (ck_callId w) = Some v"
      by (metis image_subset_iff list.set_intros(1) map_of_eq_None_iff option.exhaust_sel)
    let ?m = "jm_set (ck_callId w) (v + 1) m"
    have "jm_sum (\<lambda>v. v) ?m = jm_sum (\<lambda>v. v) m + 1"
      using "2.prems"(2) v by (simp add: jm_sum_set)
    moreover have "ck_callId ` set ws \<subseteq> fst ` set ?m"
      using "2.prems"(3) by (auto simp: jm_set_keys)
    ultimately show ?thesis
      using "2.IH" "2.prems" False v by simp
  qed
qed

section \<open>The payout map\<close>

definition share_of :: "frost \<Rightarrow> frost \<Rightarrow> call_stake \<Rightarrow> frost" where
  "share_of d t w = d * ck_stake w div t"

lemma floor_shares:
  assumes t: "0 < t" "t = total_stake ws"
  shows "(\<Sum>w\<leftarrow>ws. share_of d t w) \<le> d"
    and "d < (\<Sum>w\<leftarrow>ws. share_of d t w) + int (length ws)"
proof -
  have lo: "(\<Sum>w\<leftarrow>us. share_of d t w) * t \<le> d * total_stake us" for us
  proof (induction us)
    case (Cons w us)
    have "share_of d t w * t \<le> d * ck_stake w"
      unfolding share_of_def using \<open>0 < t\<close>
      by (simp add: minus_mod_eq_div_mult [symmetric])
    with Cons show ?case by (simp add: algebra_simps)
  qed simp
  have hi: "us \<noteq> [] \<longrightarrow> d * total_stake us < ((\<Sum>w\<leftarrow>us. share_of d t w) + int (length us)) * t" for us
  proof (induction us)
    case (Cons w us)
    have "d * ck_stake w < share_of d t w * t + t"
      unfolding share_of_def using \<open>0 < t\<close>
      by (simp add: minus_mod_eq_div_mult [symmetric])
    with Cons show ?case by (cases us) (simp_all add: algebra_simps)
  qed simp
  have ne: "ws \<noteq> []" using t by auto
  from lo[of ws] t show "(\<Sum>w\<leftarrow>ws. share_of d t w) \<le> d" by simp
  from hi[of ws] ne t have "d * t < ((\<Sum>w\<leftarrow>ws. share_of d t w) + int (length ws)) * t" by simp
  with t(1) show "d < (\<Sum>w\<leftarrow>ws. share_of d t w) + int (length ws)" by simp
qed

lemma calls_ok_sort: "calls_ok ws \<Longrightarrow> calls_ok (sort_key ck_callId ws)"
  unfolding calls_ok_def by (metis distinct_map distinct_sort set_sort)

lemma big_share:
  "calls_ok ws \<Longrightarrow> w \<in> set ws \<Longrightarrow> 0 \<le> d \<Longrightarrow> 0 < t \<Longrightarrow>
    big_div (d * ck_stake w) t = share_of d t w"
  by (simp add: calls_ok_def share_of_def less_imp_le)

lemma allocate_total:
  assumes "calls_ok ws" "0 \<le> d" "0 < t"
  shows "fst (allocate d t (sort_key ck_callId ws) (0, [])) = (\<Sum>w\<leftarrow>ws. share_of d t w)"
proof -
  have "map (\<lambda>w. big_div (d * ck_stake w) t) ws = map (share_of d t) ws"
    by (rule map_cong[OF refl]) (use assms in \<open>simp add: big_share\<close>)
  then show ?thesis by (simp only: allocate_fst sum_list_sort_key)
qed

text \<open>
  The map the payouts are read from: one entry per winner, adding up to the winners' own
  stakes and the whole distributable pool, each entry the floor share or one unit more.
\<close>

lemma payout_map_facts:
  assumes ok: "calls_ok ws" and t: "t = total_stake ws" "0 < t" and d: "0 \<le> d"
  shows "jm_wf (payout_map d t ws)"
    and "fst ` set (payout_map d t ws) = ck_callId ` set ws"
    and "jm_sum (\<lambda>v. v) (payout_map d t ws) = t + d"
    and "w \<in> set ws \<Longrightarrow> \<exists>e \<in> {0, 1}.
      jm_get (payout_map d t ws) (ck_callId w) = Some (ck_stake w + share_of d t w + e)"
proof -
  let ?s = "sort_key ck_callId ws"
  let ?m = "snd (allocate d t ?s (0, []))"
  let ?d = "d - (\<Sum>w\<leftarrow>ws. share_of d t w)"
  have oks: "calls_ok ?s" and dist: "distinct (map ck_callId ?s)"
    using calls_ok_sort[OF ok] by (simp_all add: calls_ok_def)
  have pm: "payout_map d t ws = hand_dust ?s ?d ?m"
    using allocate_total[OF ok d t(2)] by (simp add: payout_map_def Let_def case_prod_beta)
  have wfm: "jm_wf ?m" by (simp add: allocate_wf)
  have keys: "fst ` set ?m = ck_callId ` set ws" by (simp add: allocate_keys)
  have dust: "0 \<le> ?d" "?d < int (length ?s)"
    using floor_shares[OF t(2,1), of d] by simp_all
  have get: "jm_get ?m (ck_callId w) = Some (ck_stake w + share_of d t w)" if "w \<in> set ws" for w
    using allocate_get[OF dist, of w] that by (simp add: big_share[OF ok that d t(2)])
  have summ: "jm_sum (\<lambda>v. v) ?m = t + (\<Sum>w\<leftarrow>ws. share_of d t w)"
  proof -
    have "mset ?m = mset (map (\<lambda>w. (ck_callId w, ck_stake w + share_of d t w)) ws)"
    proof (rule set_eq_iff_mset_eq_distinct [THEN iffD1])
      show "distinct ?m" using wfm by (rule jm_wf_distinct)
      show "distinct (map (\<lambda>w. (ck_callId w, ck_stake w + share_of d t w)) ws)"
        using ok by (auto simp: calls_ok_def distinct_map inj_on_def)
      show "set ?m = set (map (\<lambda>w. (ck_callId w, ck_stake w + share_of d t w)) ws)"
      proof (intro set_eqI iffI)
        fix p assume p: "p \<in> set ?m"
        then obtain w where w: "w \<in> set ws" "fst p = ck_callId w"
          using keys by (metis imageE imageI)
        then have "snd p = ck_stake w + share_of d t w"
          using p wfm get[OF w(1)] by (metis map_of_is_SomeI option.inject prod.collapse)
        with w show "p \<in> set (map (\<lambda>w. (ck_callId w, ck_stake w + share_of d t w)) ws)"
          by (cases p) auto
      next
        fix p assume "p \<in> set (map (\<lambda>w. (ck_callId w, ck_stake w + share_of d t w)) ws)"
        then show "p \<in> set ?m" using get by (auto dest: map_of_SomeD)
      qed
    qed
    from jm_sum_perm[OF this, of "\<lambda>v. v"] show ?thesis
      by (simp add: jm_sum_map total_stake_def sum_list_addf t(1))
  qed
  show "jm_wf (payout_map d t ws)" unfolding pm by (rule hand_dust_wf[OF wfm])
  show "fst ` set (payout_map d t ws) = ck_callId ` set ws"
    unfolding pm using hand_dust_keys[of ?s ?m ?d] keys by simp
  show "jm_sum (\<lambda>v. v) (payout_map d t ws) = t + d"
    unfolding pm using hand_dust_sum[OF dist wfm _ dust(1)] keys dust summ by simp
  show "\<exists>e \<in> {0, 1}. jm_get (payout_map d t ws) (ck_callId w) =
      Some (ck_stake w + share_of d t w + e)" if "w \<in> set ws"
    unfolding pm using hand_dust_get[OF dist get[OF that], of ?d] by auto
qed

section \<open>Correctness of the settlement\<close>

lemma filter_winner_ids:
  assumes "calls_ok cs" "c \<in> set cs"
  shows "ck_callId c \<in> ck_callId ` set (filter P cs) \<longleftrightarrow> P c"
  using assms by (auto simp: calls_ok_def distinct_map inj_on_def)

text \<open>The shape of the two branches.\<close>

lemma settle_cases:
  obtains (void) r where "settleParimutuel inp = VOIDED r"
      "vd_payouts r = map (\<lambda>c. \<lparr>po_callId = ck_callId c, po_wallet = ck_wallet c,
         po_stake = ck_stake c, po_payout = ck_stake c, po_won = False\<rparr>) (si_calls inp)"
      "vd_grossPot r = total_stake (si_calls inp)"
  | (paid) ws t l d where
      "ws = filter (\<lambda>c. ck_bucket c = si_winningBucket inp) (si_calls inp)"
      "t = total_stake ws" "t \<noteq> 0" "l = total_stake (si_calls inp) - t"
      "d = l - rake_of (si_rakeBps inp) l"
      "settleParimutuel inp = PAID \<lparr>pd_winningBucket = si_winningBucket inp,
         pd_grossPot = total_stake (si_calls inp), pd_rake = rake_of (si_rakeBps inp) l,
         pd_winnersStake = t, pd_distributable = d,
         pd_payouts = map (call_payout ws (payout_map d t ws)) (si_calls inp)\<rparr>"
  by (cases "settleParimutuel inp")
    (auto simp: settleParimutuel_def refundAll_def Let_def split: if_splits)

lemma paid_facts:
  assumes ok: "calls_ok cs" and rk: "rake_ok r"
    and ws: "ws = filter P cs" "t = total_stake ws" "t \<noteq> 0"
    and l: "l = total_stake cs - t" "d = l - rake_of r l"
  shows "calls_ok ws" "0 < t" "0 \<le> l" "0 \<le> d" "0 \<le> rake_of r l" "rake_of r l \<le> l"
proof -
  show okw: "calls_ok ws" using ok ws(1) by (simp add: calls_ok_filter)
  show "0 < t" using total_stake_nonneg[OF okw] ws(2,3) by simp
  show l0: "0 \<le> l"
    using total_stake_filter[of cs P] total_stake_nonneg[OF calls_ok_filter[OF ok]] ws l
    by simp
  show "0 \<le> rake_of r l" "rake_of r l \<le> l" using rake_bounds[OF rk l0] by simp_all
  then show "0 \<le> d" using l(2) by simp
qed

lemma payouts_sum:
  assumes ok: "calls_ok cs" and ws: "ws = filter P cs" and okw: "calls_ok ws"
    and wf: "jm_wf m" and keys: "fst ` set m = ck_callId ` set ws"
  shows "(\<Sum>c\<leftarrow>cs. po_payout (call_payout ws m c)) = jm_sum (\<lambda>v. v) m"
proof -
  let ?g = "\<lambda>c. (ck_callId c, the (jm_get m (ck_callId c)))"
  have some: "jm_get m (ck_callId c) \<noteq> None" if "c \<in> set ws" for c
    using that keys by (auto simp: map_of_eq_None_iff)
  have pay: "po_payout (call_payout ws m c) = (if P c then the (jm_get m (ck_callId c)) else 0)"
    if "c \<in> set cs" for c
    using that some[of c] filter_winner_ids[OF ok that, of P] ws
    by (auto simp: call_payout_def Let_def)
  have "(\<Sum>c\<leftarrow>cs. po_payout (call_payout ws m c)) =
      (\<Sum>c\<leftarrow>cs. if P c then the (jm_get m (ck_callId c)) else 0)"
    using pay by (intro arg_cong[where f = sum_list] map_cong) auto
  also have "\<dots> = (\<Sum>c\<leftarrow>ws. the (jm_get m (ck_callId c)))"
    unfolding ws by (simp add: sum_list_map_filter')
  also have "\<dots> = jm_sum (\<lambda>v. v) (map ?g ws)"
    by (induction ws) simp_all
  also have "mset (map ?g ws) = mset m"
  proof (rule set_eq_iff_mset_eq_distinct [THEN iffD1])
    show "distinct (map ?g ws)" using okw by (auto simp: calls_ok_def distinct_map inj_on_def)
    show "distinct m" using wf by (rule jm_wf_distinct)
    show "set (map ?g ws) = set m"
    proof (intro set_eqI iffI)
      fix p assume "p \<in> set (map ?g ws)"
      then obtain c where "c \<in> set ws" "p = ?g c" by auto
      with some[of c] show "p \<in> set m" by (auto dest: map_of_SomeD)
    next
      fix p assume p: "p \<in> set m"
      then obtain c where c: "c \<in> set ws" "fst p = ck_callId c"
        using keys by (metis imageE imageI)
      moreover have "jm_get m (ck_callId c) = Some (snd p)"
        using p wf c(2) by (metis map_of_is_SomeI prod.collapse)
      ultimately show "p \<in> set (map ?g ws)" by (cases p) auto
    qed
  qed
  then have "jm_sum (\<lambda>v. v) (map ?g ws) = jm_sum (\<lambda>v. v) m"
    by (rule jm_sum_perm)
  finally show ?thesis .
qed

lemma settlement_sum:
  assumes ok: "calls_ok (si_calls inp)" and rk: "rake_ok (si_rakeBps inp)"
  shows "(\<Sum>p\<leftarrow>payouts_of (settleParimutuel inp). po_payout p) + rake_taken (settleParimutuel inp)
    = total_stake (si_calls inp)"
proof (cases inp rule: settle_cases)
  case (void r)
  then show ?thesis by (simp add: total_stake_def comp_def)
next
  case (paid ws t l d)
  note f = paid_facts[OF ok rk paid(1-5)]
  note m = payout_map_facts[OF f(1) paid(2) f(2,4)]
  show ?thesis
    using payouts_sum[OF ok paid(1) f(1) m(1,2)] m(3) paid(4,5,6) by (simp add: comp_def)
qed

text \<open>The payouts of a paid market, one per call in the order of the calls.\<close>

lemma paid_payouts:
  assumes ok: "calls_ok (si_calls inp)" and rk: "rake_ok (si_rakeBps inp)" and r: "settleParimutuel inp = PAID r"
  shows "map (\<lambda>p. (po_callId p, po_wallet p, po_stake p)) (pd_payouts r) =
      map (\<lambda>c. (ck_callId c, ck_wallet c, ck_stake c)) (si_calls inp)"
    and "\<forall>p \<in> set (pd_payouts r). 0 \<le> po_payout p" and "0 \<le> pd_rake r" and "pd_rake r \<le> pd_grossPot r"
    and "pd_grossPot r = total_stake (si_calls inp)"
proof -
  have all: "map (\<lambda>p. (po_callId p, po_wallet p, po_stake p)) (pd_payouts r) =
      map (\<lambda>c. (ck_callId c, ck_wallet c, ck_stake c)) (si_calls inp) \<and>
    (\<forall>p \<in> set (pd_payouts r). 0 \<le> po_payout p) \<and> 0 \<le> pd_rake r \<and> pd_rake r \<le> pd_grossPot r \<and>
    pd_grossPot r = total_stake (si_calls inp)"
  proof (cases inp rule: settle_cases)
    case (void v)
    with r show ?thesis by simp
  next
    case (paid ws t l d)
    note f = paid_facts[OF ok rk paid(1-5)]
    have pos: "0 \<le> po_payout (call_payout ws (payout_map d t ws) c)" if c: "c \<in> set (si_calls inp)" for c
    proof (cases "ck_callId c \<in> ck_callId ` set ws")
      case True
      then obtain v where v: "v \<in> set ws" "ck_callId c = ck_callId v" by auto
      obtain e where "e \<in> {0, 1}" "jm_get (payout_map d t ws) (ck_callId v) = Some (ck_stake v + share_of d t v + e)"
        using payout_map_facts(4)[OF f(1) paid(2) f(2,4) v(1)] by blast
      moreover have "0 < ck_stake v" using f(1) v(1) by (simp add: calls_ok_def)
      moreover from this have "0 \<le> share_of d t v"
        using f(2,4) by (simp add: share_of_def pos_imp_zdiv_nonneg_iff)
      ultimately show ?thesis using True v(2) by (auto simp: call_payout_def Let_def)
    next
      case False
      then show ?thesis by (simp add: call_payout_def Let_def)
    qed
    have "r = \<lparr>pd_winningBucket = si_winningBucket inp, pd_grossPot = total_stake (si_calls inp),
        pd_rake = rake_of (si_rakeBps inp) l, pd_winnersStake = t, pd_distributable = d,
        pd_payouts = map (call_payout ws (payout_map d t ws)) (si_calls inp)\<rparr>"
      using r paid(6) by simp
    moreover have "(po_callId (call_payout ws m c), po_wallet (call_payout ws m c), po_stake (call_payout ws m c)) =
        (ck_callId c, ck_wallet c, ck_stake c)" for m c
      by (simp add: call_payout_def Let_def)
    ultimately show ?thesis using pos f(2,5,6) paid(4) by (simp add: comp_def)
  qed
  from all show "map (\<lambda>p. (po_callId p, po_wallet p, po_stake p)) (pd_payouts r) =
      map (\<lambda>c. (ck_callId c, ck_wallet c, ck_stake c)) (si_calls inp)" by (rule conjunct1)
  from all show "\<forall>p \<in> set (pd_payouts r). 0 \<le> po_payout p" "0 \<le> pd_rake r" "pd_rake r \<le> pd_grossPot r"
    "pd_grossPot r = total_stake (si_calls inp)" by simp_all
qed

lemma void_payouts:
  assumes ok: "calls_ok (si_calls inp)" and r: "settleParimutuel inp = VOIDED r"
  shows "map (\<lambda>p. (po_callId p, po_wallet p, po_stake p)) (vd_payouts r) =
      map (\<lambda>c. (ck_callId c, ck_wallet c, ck_stake c)) (si_calls inp)"
    and "\<forall>p \<in> set (vd_payouts r). po_payout p = po_stake p \<and> 0 < po_payout p"
proof -
  obtain e: "vd_payouts r = map (\<lambda>c. \<lparr>po_callId = ck_callId c, po_wallet = ck_wallet c,
      po_stake = ck_stake c, po_payout = ck_stake c, po_won = False\<rparr>) (si_calls inp)"
    using r by (cases inp rule: settle_cases) auto
  show "map (\<lambda>p. (po_callId p, po_wallet p, po_stake p)) (vd_payouts r) =
      map (\<lambda>c. (ck_callId c, ck_wallet c, ck_stake c)) (si_calls inp)"
    by (simp add: e comp_def)
  show "\<forall>p \<in> set (vd_payouts r). po_payout p = po_stake p \<and> 0 < po_payout p"
    using ok by (auto simp: e calls_ok_def)
qed

text \<open>C5: Settling a market reconciles to the last unit: over every branch (payout and the
  three refunds) the payouts plus the rake are exactly the stakes that went in, each call has
  one payout, in the order of the calls and under its own id, player and stake, no payout is
  negative and neither is the rake, and a refund pays each call its own stake.\<close>

theorem settle_reconciles:
  assumes ok: "calls_ok (si_calls inp)" and rk: "rake_ok (si_rakeBps inp)"
  shows "(\<Sum>p\<leftarrow>payouts_of (settleParimutuel inp). po_payout p) + rake_taken (settleParimutuel inp)
      = total_stake (si_calls inp) \<and>
    map (\<lambda>p. (po_callId p, po_wallet p, po_stake p)) (payouts_of (settleParimutuel inp)) =
      map (\<lambda>c. (ck_callId c, ck_wallet c, ck_stake c)) (si_calls inp) \<and>
    list_all (\<lambda>p. 0 \<le> po_payout p) (payouts_of (settleParimutuel inp)) \<and>
    0 \<le> rake_taken (settleParimutuel inp) \<and>
    (case settleParimutuel inp of PAID r \<Rightarrow> True
      | VOIDED r \<Rightarrow> list_all (\<lambda>p. po_payout p = po_stake p) (vd_payouts r))"
proof (cases "settleParimutuel inp")
  case (PAID r)
  then show ?thesis
    using settlement_sum[OF ok rk] paid_payouts[OF ok rk PAID] by (simp add: list_all_iff)
next
  case (VOIDED r)
  then show ?thesis
    using settlement_sum[OF ok rk] void_payouts[OF ok VOIDED] by (fastforce simp: list_all_iff)
qed

definition sample_market :: settlement_input where
  "sample_market = \<lparr>si_calls =
      [\<lparr>ck_callId = ''call_b'', ck_wallet = ''ann'', ck_bucket = HOME, ck_stake = 100\<rparr>,
       \<lparr>ck_callId = ''call_a'', ck_wallet = ''bob'', ck_bucket = HOME, ck_stake = 50\<rparr>,
       \<lparr>ck_callId = ''call_c'', ck_wallet = ''cyd'', ck_bucket = AWAY, ck_stake = 101\<rparr>],
     si_winningBucket = HOME, si_rakeBps = 250, si_minParticipants = 3\<rparr>"

lemma sample_market_ok: "calls_ok (si_calls sample_market)" "rake_ok (si_rakeBps sample_market)"
  by (simp_all add: sample_market_def calls_ok_def rake_ok_def js_round_def)

lemma sample_market_settles:
  "settleParimutuel sample_market = PAID \<lparr>pd_winningBucket = HOME, pd_grossPot = 251, pd_rake = 2,
     pd_winnersStake = 150, pd_distributable = 99,
     pd_payouts =
      [\<lparr>po_callId = ''call_b'', po_wallet = ''ann'', po_stake = 100, po_payout = 166, po_won = True\<rparr>,
       \<lparr>po_callId = ''call_a'', po_wallet = ''bob'', po_stake = 50, po_payout = 83, po_won = True\<rparr>,
       \<lparr>po_callId = ''call_c'', po_wallet = ''cyd'', po_stake = 101, po_payout = 0, po_won = False\<rparr>]\<rparr>"
  by code_simp

theorem settle_reconciles_witness:
  "calls_ok (si_calls sample_market) \<and>
   (\<Sum>p\<leftarrow>payouts_of (settleParimutuel sample_market). po_payout p)
     + rake_taken (settleParimutuel sample_market) = 251 \<and>
   list_all (\<lambda>p. 0 \<le> po_payout p) (payouts_of (settleParimutuel sample_market)) \<and>
   map po_payout (payouts_of (settleParimutuel sample_market)) = [166, 83, 0]"
  using settle_reconciles[OF sample_market_ok] sample_market_ok sample_market_settles
  by (simp add: sample_market_def total_stake_def)

text \<open>Each payout is exact: a losing call gets nothing, a winning call gets its stake back
  plus the floor of its pro-rata share of the distributable pool, or one unit of dust more. So
  a winner is always made at least whole.\<close>

theorem settle_winner_share:
  assumes ok: "calls_ok (si_calls inp)" and rk: "rake_ok (si_rakeBps inp)"
    and paid: "settleParimutuel inp = PAID r" and c: "c \<in> set (si_calls inp)"
  shows "\<exists>p \<in> set (pd_payouts r). po_callId p = ck_callId c \<and> po_wallet p = ck_wallet c \<and>
    po_won p = (ck_bucket c = si_winningBucket inp) \<and>
    (if ck_bucket c = si_winningBucket inp
     then 0 \<le> po_payout p - ck_stake c - pd_distributable r * ck_stake c div pd_winnersStake r \<and>
       po_payout p - ck_stake c - pd_distributable r * ck_stake c div pd_winnersStake r \<le> 1 \<and>
       ck_stake c \<le> po_payout p
     else po_payout p = 0)"
proof (cases inp rule: settle_cases)
  case (void r)
  with paid show ?thesis by simp
next
  case (paid ws t l d)
  note f = paid_facts[OF ok rk paid(1-5)]
  let ?p = "call_payout ws (payout_map d t ws) c"
  have r: "pd_distributable r = d" "pd_winnersStake r = t" "?p \<in> set (pd_payouts r)"
    using paid(6) \<open>settleParimutuel inp = PAID r\<close> c by auto
  have won: "ck_callId c \<in> ck_callId ` set ws \<longleftrightarrow> ck_bucket c = si_winningBucket inp"
    unfolding paid(1) by (rule filter_winner_ids[OF ok c])
  show ?thesis
  proof (cases "ck_bucket c = si_winningBucket inp")
    case False
    with won r(3) show ?thesis by (intro bexI[of _ ?p]) (simp_all add: call_payout_def Let_def)
  next
    case True
    then have "c \<in> set ws" using paid(1) c by simp
    then obtain e where e: "e \<in> {0, 1}"
        "jm_get (payout_map d t ws) (ck_callId c) = Some (ck_stake c + share_of d t c + e)"
      using payout_map_facts(4)[OF f(1) paid(2) f(2,4)] by blast
    have "0 \<le> share_of d t c"
      using f(2,4) ok c by (auto simp: share_of_def calls_ok_def pos_imp_zdiv_nonneg_iff less_imp_le)
    with e True won r show ?thesis
      by (intro bexI[of _ ?p]) (auto simp: call_payout_def Let_def share_of_def)
  qed
qed

theorem settle_winner_share_witness:
  "\<exists>r. settleParimutuel sample_market = PAID r \<and>
    (\<exists>p \<in> set (pd_payouts r). po_callId p = ''call_b'' \<and> 100 \<le> po_payout p)"
proof -
  let ?c = "\<lparr>ck_callId = ''call_b'', ck_wallet = ''ann'', ck_bucket = HOME, ck_stake = 100\<rparr>"
  obtain r where r: "settleParimutuel sample_market = PAID r"
    using sample_market_settles by blast
  have "?c \<in> set (si_calls sample_market)" by (simp add: sample_market_def)
  from settle_winner_share[OF sample_market_ok r this] r show ?thesis
    by (auto simp: sample_market_def)
qed

lemma sort_key_perm:
  "mset xs = mset ys \<Longrightarrow> inj_on f (set xs) \<Longrightarrow> sort_key f xs = sort_key f ys"
  by (rule sort_key_inj_key_eq) simp_all

lemma payout_map_perm:
  assumes "calls_ok ws" "mset ws = mset vs"
  shows "payout_map d t ws = payout_map d t vs"
proof -
  have "inj_on ck_callId (set ws)" using assms(1) by (simp add: calls_ok_def distinct_map)
  with assms(2) show ?thesis by (simp add: payout_map_def sort_key_perm[of ws vs])
qed

lemma total_stake_perm: "mset cs = mset ds \<Longrightarrow> total_stake cs = total_stake ds"
  unfolding total_stake_def by (metis mset_map sum_mset_sum_list)

text \<open>The order in which the calls were recorded does not matter: two records of the same
  calls settle to the same payouts, call by call, and the same rake.\<close>

theorem settle_order_irrelevant:
  assumes ok: "calls_ok (si_calls inp)" and perm: "mset (si_calls inp) = mset ds"
  shows "mset (payouts_of (settleParimutuel (inp\<lparr>si_calls := ds\<rparr>))) = mset (payouts_of (settleParimutuel inp))
    \<and> rake_taken (settleParimutuel (inp\<lparr>si_calls := ds\<rparr>)) = rake_taken (settleParimutuel inp)"
proof -
  let ?w = "filter (\<lambda>c. ck_bucket c = si_winningBucket inp)"
  let ?cs = "si_calls inp"
  have total: "total_stake ds = total_stake ?cs" by (rule total_stake_perm[OF perm, symmetric])
  have wperm: "mset (?w ?cs) = mset (?w ds)" using perm by simp
  have wtotal: "total_stake (?w ds) = total_stake (?w ?cs)" by (rule total_stake_perm[OF wperm, symmetric])
  have sets: "set ds = set ?cs" using perm by (metis set_mset_mset)
  have wallets: "length (remdups (map ck_wallet ds)) = length (remdups (map ck_wallet ?cs))"
    using sets by (simp add: length_remdups_card_conv)
  have "call_payout (?w ds) m = call_payout (?w ?cs) m" for m
    using sets by (auto simp: call_payout_def fun_eq_iff)
  moreover have "payout_map d t (?w ds) = payout_map d t (?w ?cs)" for d t
    using payout_map_perm[OF calls_ok_filter[OF ok] wperm] by simp
  moreover have "mset (map f ds) = mset (map f ?cs)" for f :: "call_stake \<Rightarrow> payout"
    using perm by simp
  moreover have "ds = [] \<longleftrightarrow> ?cs = []" using perm by auto
  ultimately show ?thesis
    using total wtotal wallets
    by (simp add: settleParimutuel_def refundAll_def Let_def)
qed

theorem settle_order_irrelevant_witness:
  "rake_taken (settleParimutuel (sample_market\<lparr>si_calls := rev (si_calls sample_market)\<rparr>)) = 2"
proof -
  have "mset (si_calls sample_market) = mset (rev (si_calls sample_market))" by simp
  from conjunct2[OF settle_order_irrelevant[OF sample_market_ok(1) this]]
  show ?thesis unfolding sample_market_settles by simp
qed

text \<open>A market is refunded exactly when it has no calls, fewer distinct wallets than the
  threshold, or no stake on the winning bucket; then every call gets its own stake back.\<close>

theorem settle_refund_iff:
  assumes ok: "calls_ok (si_calls inp)"
  shows "(\<exists>r. settleParimutuel inp = VOIDED r \<and>
      map po_payout (vd_payouts r) = map ck_stake (si_calls inp) \<and>
      map po_wallet (vd_payouts r) = map ck_wallet (si_calls inp)) \<longleftrightarrow>
    si_calls inp = [] \<or> card (ck_wallet ` set (si_calls inp)) < si_minParticipants inp \<or>
    (\<forall>c \<in> set (si_calls inp). ck_bucket c \<noteq> si_winningBucket inp)"
proof -
  let ?w = "filter (\<lambda>c. ck_bucket c = si_winningBucket inp) (si_calls inp)"
  have "total_stake ?w = 0 \<longleftrightarrow> (\<forall>c \<in> set (si_calls inp). ck_bucket c \<noteq> si_winningBucket inp)"
    using total_stake_zero_iff[OF calls_ok_filter[OF ok]] by (simp add: filter_empty_conv)
  then show ?thesis
    by (simp add: settleParimutuel_def refundAll_def Let_def length_remdups_card_conv comp_def)
qed

theorem settle_refund_iff_witness:
  "\<exists>r. settleParimutuel (sample_market\<lparr>si_winningBucket := DRAW\<rparr>) = VOIDED r"
  using settle_refund_iff[of "sample_market\<lparr>si_winningBucket := DRAW\<rparr>"] sample_market_ok
  by (auto simp: sample_market_def bucket_defs)

end
