(* ===== verification/Markets.thy ===== *)
theory Markets
  imports Domain
begin

text \<open>
  Market construction and resolution (\<open>src/game/markets.ts\<close>): the result market, the line
  markets, the on-chain pot id of a market, and the outcome of each market from a final
  score. The lemmas show that a half-line never pushes, that every market of a fixture gets
  an outcome it can pay, and when two markets share a pot id.
\<close>

section \<open>Construction\<close>

definition RESULT_MARKET :: market_id where
  "RESULT_MARKET = ''RESULT''"

definition resultMarket :: market_def where
  "resultMarket = \<lparr>md_marketId = RESULT_MARKET, md_kind = RESULT, md_label = ''Full-time result'',
     md_buckets = [\<lparr>bd_bucket = HOME, bd_label = ''Home win''\<rparr>,
                   \<lparr>bd_bucket = DRAW, bd_label = ''Draw''\<rparr>,
                   \<lparr>bd_bucket = AWAY, bd_label = ''Away win''\<rparr>],
     md_line = None, md_potMatchId = None\<rparr>"

definition resolveResult :: "score \<Rightarrow> bucket" where
  "resolveResult s = (if sc_home s > sc_away s then HOME
     else if sc_home s < sc_away s then AWAY else DRAW)"

text \<open>The text of a line held in tenths, as a template string prints the number.\<close>

definition line_str :: "int \<Rightarrow> string" where
  "line_str t = (if t < 0 then ''-'' else []) @ nat_str (nat \<bar>t\<bar> div 10)
     @ (if nat \<bar>t\<bar> mod 10 = 0 then [] else ''.'' @ nat_str (nat \<bar>t\<bar> mod 10))"

fun stat_str :: "line_stat \<Rightarrow> string" where
  "stat_str GOALS = ''GOALS''"
| "stat_str CORNERS = ''CORNERS''"
| "stat_str CARDS = ''CARDS''"

fun period_str :: "line_period \<Rightarrow> string" where
  "period_str FULL = ''FULL''"
| "period_str H1 = ''H1''"

definition lineMarketId :: "line_spec \<Rightarrow> market_id" where
  "lineMarketId spec = (if ls_op spec = ADD then ''OU'' else ''HCP'') @ ''-'' @ stat_str (ls_stat spec)
     @ ''-'' @ period_str (ls_period spec) @ ''-'' @ line_str (ls_tenths spec)"

definition overUnderGoalsMarket :: "int \<Rightarrow> line_period \<Rightarrow> market_def" where
  "overUnderGoalsMarket line period =
     (let spec = \<lparr>ls_op = ADD, ls_tenths = line, ls_stat = GOALS, ls_period = period\<rparr>;
          scope = (if period = H1 then ''first-half '' else [])
      in \<lparr>md_marketId = lineMarketId spec, md_kind = OVER_UNDER,
          md_label = ''Over/Under '' @ line_str line @ '' '' @ scope @ ''goals'',
          md_buckets = [\<lparr>bd_bucket = OVER, bd_label = ''Over '' @ line_str line\<rparr>,
                        \<lparr>bd_bucket = UNDER, bd_label = ''Under '' @ line_str line\<rparr>],
          md_line = Some spec, md_potMatchId = None\<rparr>)"

definition handicapGoalsMarket :: "int \<Rightarrow> string \<Rightarrow> string \<Rightarrow> market_def" where
  "handicapGoalsMarket line home away =
     (let spec = \<lparr>ls_op = SUB, ls_tenths = line, ls_stat = GOALS, ls_period = FULL\<rparr>
      in \<lparr>md_marketId = lineMarketId spec, md_kind = HANDICAP,
          md_label = home @ '' -'' @ line_str line @ '' handicap'',
          md_buckets = [\<lparr>bd_bucket = OVER, bd_label = home @ '' -'' @ line_str line\<rparr>,
                        \<lparr>bd_bucket = UNDER, bd_label = away @ '' +'' @ line_str line\<rparr>],
          md_line = Some spec, md_potMatchId = None\<rparr>)"

definition marketPotTag :: "market_def \<Rightarrow> string" where
  "marketPotTag m =
     (case md_line m of
        None \<Rightarrow> []
      | Some l \<Rightarrow>
          if md_kind m = RESULT then []
          else (if ls_op l = ADD then ''OU'' else ''H'') @ int_str (ls_tenths l)
            @ (if ls_period l = H1 then ''1H'' else []))"

definition derivePotMatchId :: "match_id \<Rightarrow> market_def \<Rightarrow> failure + string" where
  "derivePotMatchId fixtureMatchId m =
     (let tag = marketPotTag m;
          id = (if tag \<noteq> [] then fixtureMatchId @ ''#'' @ tag else fixtureMatchId)
      in if length id > 32 then Inl (OtherError ''pot matchId exceeds 32 bytes'') else Inr id)"

section \<open>Resolution\<close>

definition resolveLine :: "line_spec \<Rightarrow> score \<Rightarrow> outcome" where
  "resolveLine spec s =
     (if ls_stat spec \<noteq> GOALS then VOID
      else (let v = (if ls_op spec = ADD then sc_home s + sc_away s else sc_home s - sc_away s)
            in if v > ls_tenths spec div 10 then OVER else UNDER))"

definition counterSide :: "bucket \<Rightarrow> bucket" where
  "counterSide side = (if side = HOME then AWAY else if side = AWAY then HOME else HOME)"

text \<open>What resolution reads of a market: its id and its line.\<close>

fun resolve_market :: "score \<Rightarrow> market_id \<times> line_spec option \<Rightarrow> outcome" where
  "resolve_market s (mid, line) =
     (if mid = RESULT_MARKET then resolveResult s
      else case line of Some l \<Rightarrow> resolveLine l s | None \<Rightarrow> VOID)"

definition resolveOutcomes :: "(market_id \<times> line_spec option) list \<Rightarrow> score \<Rightarrow> (market_id, outcome) jmap" where
  "resolveOutcomes markets s = fold (\<lambda>m out. jm_set (fst m) (resolve_market s m) out) markets []"

section \<open>Lines\<close>

lemma resolveResult_cases:
  "resolveResult s = HOME \<longleftrightarrow> sc_home s > sc_away s"
  "resolveResult s = AWAY \<longleftrightarrow> sc_home s < sc_away s"
  "resolveResult s = DRAW \<longleftrightarrow> sc_home s = sc_away s"
  by (auto simp: resolveResult_def bucket_defs)

lemma counterSide_differs [simp]: "counterSide side \<noteq> side"
  by (simp add: counterSide_def bucket_defs)

text \<open>A half-line cannot push: on a goals market with a line that is not a whole number,
  OVER is exactly the totals (or the home margins) above the line and UNDER exactly those
  below it; any other statistic is void.\<close>

theorem half_line_no_push:
  assumes "ls_tenths spec mod 10 \<noteq> 0"
  defines "v \<equiv> \<lambda>s. if ls_op spec = ADD then sc_home s + sc_away s else sc_home s - sc_away s"
  shows "if ls_stat spec \<noteq> GOALS then resolveLine spec s = VOID
    else (resolveLine spec s = OVER \<longleftrightarrow> 10 * v s > ls_tenths spec) \<and>
         (resolveLine spec s = UNDER \<longleftrightarrow> 10 * v s < ls_tenths spec)"
proof -
  have "x > ls_tenths spec div 10 \<longleftrightarrow> 10 * x > ls_tenths spec" for x by presburger
  moreover have "\<not> x > ls_tenths spec div 10 \<longleftrightarrow> 10 * x < ls_tenths spec" for x
    using assms(1) by presburger
  ultimately show ?thesis
    by (simp add: resolveLine_def v_def Let_def bucket_defs)
qed

theorem half_line_no_push_witness:
  "resolveLine \<lparr>ls_op = ADD, ls_tenths = 25, ls_stat = GOALS, ls_period = FULL\<rparr> \<lparr>sc_home = 2, sc_away = 1\<rparr> = OVER"
  using half_line_no_push[of "\<lparr>ls_op = ADD, ls_tenths = 25, ls_stat = GOALS, ls_period = FULL\<rparr>"
      "\<lparr>sc_home = 2, sc_away = 1\<rparr>"]
  by simp

section \<open>Outcomes\<close>

lemma fold_outcomes_other:
  "k \<notin> fst ` set ms \<Longrightarrow> jm_get (fold (\<lambda>m out. jm_set (fst m) (g m) out) ms acc) k = jm_get acc k"
  by (induction ms arbitrary: acc) auto

lemma fold_outcomes_get:
  "distinct (map fst ms) \<Longrightarrow> m \<in> set ms \<Longrightarrow>
    jm_get (fold (\<lambda>m out. jm_set (fst m) (g m) out) ms acc) (fst m) = Some (g m)"
proof (induction ms arbitrary: acc)
  case Nil
  then show ?case by simp
next
  case (Cons x ms)
  then show ?case by (cases "m = x") (auto simp: fold_outcomes_other)
qed

lemma resolveOutcomes_get:
  assumes "distinct (map fst ms)" "m \<in> set ms"
  shows "jm_get (resolveOutcomes ms s) (fst m) = Some (resolve_market s m)"
  unfolding resolveOutcomes_def by (rule fold_outcomes_get[OF assms])

section \<open>The curated book and its pots\<close>

text \<open>A market as the book lists it, and what its pot may pay: one of its buckets, or a refund.\<close>

definition payable :: "market_def \<Rightarrow> outcome \<Rightarrow> bool" where
  "payable m out \<longleftrightarrow> out = VOID \<or> out \<in> bd_bucket ` set (md_buckets m)"

definition lineMarketsFor :: "fixture \<Rightarrow> market_def list" where
  "lineMarketsFor f =
     [overUnderGoalsMarket 15 FULL, overUnderGoalsMarket 25 FULL, overUnderGoalsMarket 35 FULL,
      handicapGoalsMarket 15 (fx_home f) (fx_away f), handicapGoalsMarket 25 (fx_home f) (fx_away f)]"

definition market_line :: "market_def \<Rightarrow> market_id \<times> line_spec option" where
  "market_line m = (md_marketId m, md_line m)"

lemma nat_str_small [simp]:
  "nat_str 0 = ''0''" "nat_str (Suc 0) = ''1''" "nat_str 2 = ''2''" "nat_str 3 = ''3''" "nat_str 5 = ''5''"
  "nat_str 15 = ''15''" "nat_str 25 = ''25''" "nat_str 35 = ''35''"
  by code_simp+

lemma line_str_curated [simp]:
  "line_str 15 = ''1.5''" "line_str 25 = ''2.5''" "line_str 35 = ''3.5''"
  by (simp_all add: line_str_def)

lemma int_str_curated [simp]: "int_str 15 = ''15''" "int_str 25 = ''25''" "int_str 35 = ''35''"
  by (simp_all add: int_str_def)

lemmas market_defs = overUnderGoalsMarket_def handicapGoalsMarket_def resultMarket_def
  lineMarketId_def RESULT_MARKET_def

lemma resultMarket_id: "md_marketId resultMarket = ''RESULT''"
  by (simp add: market_defs)

lemma curated_ids:
  "map md_marketId (resultMarket # lineMarketsFor f) =
    [''RESULT'', ''OU-GOALS-FULL-1.5'', ''OU-GOALS-FULL-2.5'', ''OU-GOALS-FULL-3.5'',
     ''HCP-GOALS-FULL-1.5'', ''HCP-GOALS-FULL-2.5'']"
  by (simp add: lineMarketsFor_def market_defs Let_def)

lemma curated_tags:
  "map marketPotTag (resultMarket # lineMarketsFor f) = ['''', ''OU15'', ''OU25'', ''OU35'', ''H15'', ''H25'']"
  by (simp add: lineMarketsFor_def market_defs Let_def marketPotTag_def)

lemma resolveLine_goals: "ls_stat spec = GOALS \<Longrightarrow> resolveLine spec s = OVER \<or> resolveLine spec s = UNDER"
  by (simp add: resolveLine_def Let_def)

definition settles_in :: "score \<Rightarrow> market_def \<Rightarrow> bool" where
  "settles_in s m \<longleftrightarrow> (let out = resolve_market s (market_line m) in out \<noteq> VOID \<and> payable m out)"

lemma settles_in_result: "settles_in s resultMarket"
  by (simp add: settles_in_def market_line_def resultMarket_def payable_def resolveResult_def bucket_defs)

lemma settles_in_over_under: "settles_in s (overUnderGoalsMarket line p)"
  using resolveLine_goals[of "\<lparr>ls_op = ADD, ls_tenths = line, ls_stat = GOALS, ls_period = p\<rparr>" s]
  by (auto simp: settles_in_def market_line_def market_defs Let_def payable_def bucket_defs)

lemma settles_in_handicap: "settles_in s (handicapGoalsMarket line h a)"
  using resolveLine_goals[of "\<lparr>ls_op = SUB, ls_tenths = line, ls_stat = GOALS, ls_period = FULL\<rparr>" s]
  by (auto simp: settles_in_def market_line_def market_defs Let_def payable_def bucket_defs)

text \<open>Every market of a fixture's book resolves: a final score gives each of them one
  outcome, and that outcome is a bucket the market offers.\<close>

theorem curated_book_resolves:
  assumes "m \<in> set (resultMarket # lineMarketsFor f)"
  shows "\<exists>out. jm_get (resolveOutcomes (map market_line (resultMarket # lineMarketsFor f)) s) (md_marketId m)
      = Some out \<and> out \<noteq> VOID \<and> payable m out"
proof -
  have d: "distinct (map fst (map market_line (resultMarket # lineMarketsFor f)))"
    using curated_ids[of f] by (simp add: market_line_def comp_def)
  have "market_line m \<in> set (map market_line (resultMarket # lineMarketsFor f))"
    using assms by auto
  from resolveOutcomes_get[OF d this, of s]
  have "jm_get (resolveOutcomes (map market_line (resultMarket # lineMarketsFor f)) s) (md_marketId m)
      = Some (resolve_market s (market_line m))"
    by (simp add: market_line_def)
  moreover have "settles_in s m"
    using assms by (auto simp: lineMarketsFor_def settles_in_result settles_in_over_under settles_in_handicap)
  ultimately show ?thesis by (simp add: settles_in_def Let_def)
qed

theorem curated_book_resolves_witness:
  "\<exists>out. jm_get (resolveOutcomes (map market_line (resultMarket # lineMarketsFor
      \<lparr>fx_matchId = ''m1'', fx_home = ''A'', fx_away = ''B'', fx_competition = ''WC'', fx_group = None,
       fx_stage = ''F'', fx_kickoff = 0, fx_txline = None\<rparr>)) \<lparr>sc_home = 2, sc_away = 1\<rparr>) ''RESULT'' = Some out"
proof -
  let ?f = "\<lparr>fx_matchId = ''m1'', fx_home = ''A'', fx_away = ''B'', fx_competition = ''WC'', fx_group = None,
    fx_stage = ''F'', fx_kickoff = 0, fx_txline = None\<rparr>"
  have "resultMarket \<in> set (resultMarket # lineMarketsFor ?f)" by simp
  from curated_book_resolves[OF this, of "\<lparr>sc_home = 2, sc_away = 1\<rparr>"] show ?thesis
    by (metis (no_types) resultMarket_id)
qed

text \<open>The pots of one fixture's book do not collide and fit the seed: for a match id of at
  most 27 bytes every market gets a pot id, no two markets share one, and the result market's
  is the match id itself.\<close>

theorem curated_pots_distinct:
  assumes "length mid \<le> 27"
  shows "\<exists>ids. map (derivePotMatchId mid) (resultMarket # lineMarketsFor f) = map Inr ids \<and>
    distinct ids \<and> hd ids = mid \<and> (\<forall>i \<in> set ids. length i \<le> 32)"
proof -
  have "derivePotMatchId mid m =
      (if length (marketPotTag m) \<le> 4 then Inr (if marketPotTag m \<noteq> [] then mid @ ''#'' @ marketPotTag m else mid)
       else derivePotMatchId mid m)" for m
    using assms by (simp add: derivePotMatchId_def Let_def)
  then have "map (derivePotMatchId mid) (resultMarket # lineMarketsFor f) =
      map Inr [mid, mid @ ''#OU15'', mid @ ''#OU25'', mid @ ''#OU35'', mid @ ''#H15'', mid @ ''#H25'']"
    using curated_tags[of f] assms
    by (simp add: lineMarketsFor_def derivePotMatchId_def Let_def)
  then show ?thesis
    using assms
    by (intro exI[of _ "[mid, mid @ ''#OU15'', mid @ ''#OU25'', mid @ ''#OU35'', mid @ ''#H15'', mid @ ''#H25'']"])
      simp
qed

theorem curated_pots_distinct_witness:
  "\<exists>ids. map (derivePotMatchId ''txl_17'') (resultMarket # lineMarketsFor
      \<lparr>fx_matchId = ''txl_17'', fx_home = ''A'', fx_away = ''B'', fx_competition = ''WC'', fx_group = None,
       fx_stage = ''F'', fx_kickoff = 0, fx_txline = None\<rparr>) = map Inr ids \<and> distinct ids"
proof -
  have "length ''txl_17'' \<le> 27" by simp
  from curated_pots_distinct[OF this] show ?thesis by blast
qed

text \<open>The pot tag leaves the statistic out: two markets on the same line and period of
  different statistics have different market ids and the same pot.\<close>

theorem pot_tag_ignores_stat:
  "\<exists>goals corners. md_line goals \<noteq> md_line corners \<and>
    lineMarketId (the (md_line goals)) \<noteq> lineMarketId (the (md_line corners)) \<and>
    derivePotMatchId mid goals = derivePotMatchId mid corners"
proof -
  let ?m = "\<lambda>stat. \<lparr>md_marketId = [], md_kind = OVER_UNDER, md_label = [], md_buckets = [],
    md_line = Some \<lparr>ls_op = ADD, ls_tenths = 25, ls_stat = stat, ls_period = FULL\<rparr>, md_potMatchId = None\<rparr>"
  show ?thesis
    by (intro exI[of _ "?m GOALS"] exI[of _ "?m CORNERS"])
      (simp add: lineMarketId_def derivePotMatchId_def marketPotTag_def)
qed

end
