(* ===== verification/Pots.thy ===== *)
theory Pots
  imports Projection Parimutuel Markets
begin

text \<open>
  The pots (\<open>src/core/projections/PotProjection.ts\<close>): the live parimutuel markets, folded from
  the log: per match and market the buckets with their stakes and callers, the calls, the
  status and the outcome. The lemmas show that the buckets always agree with the calls, that
  a closed match has no open market, and what the smoothed odds add up to.
\<close>

section \<open>State\<close>

datatype market_status = OPEN | LOCKED | RESOLVED

definition PRIOR_STAKE :: frost where
  "PRIOR_STAKE = 5000000000"

record bucket_state =
  bs_label :: string
  bs_stake :: frost
  bs_callers :: "wallet list"

record market_state =
  mk_matchId :: match_id
  mk_marketId :: market_id
  mk_kind :: market_kind
  mk_label :: string
  mk_buckets :: "(bucket, bucket_state) jmap"
  mk_calls :: "call_stake list"
  mk_status :: market_status
  mk_winningBucket :: "outcome option"
  mk_settled :: bool
  mk_line :: "line_spec option"
  mk_potMatchId :: "string option"

record match_state =
  ms_fixture :: fixture
  ms_status :: market_status
  ms_markets :: "(market_id, market_state) jmap"
  ms_score :: "score option"

type_synonym pots = "(match_id, match_state) jmap"

definition fresh_bucket :: "bucket_def \<Rightarrow> (bucket, bucket_state) jmap \<Rightarrow> (bucket, bucket_state) jmap" where
  "fresh_bucket b = jm_set (bd_bucket b) \<lparr>bs_label = bd_label b, bs_stake = 0, bs_callers = []\<rparr>"

definition buildMarketState :: "match_id \<Rightarrow> market_def \<Rightarrow> market_state" where
  "buildMarketState matchId d =
     \<lparr>mk_matchId = matchId, mk_marketId = md_marketId d, mk_kind = md_kind d, mk_label = md_label d,
      mk_buckets = fold fresh_bucket (md_buckets d) [],
      mk_calls = [], mk_status = OPEN, mk_winningBucket = None, mk_settled = False,
      mk_line = md_line d, mk_potMatchId = md_potMatchId d\<rparr>"

section \<open>Events\<close>

text \<open>What each event does to a match, and a call to its market.\<close>

definition open_match :: "fixture \<Rightarrow> market_def list \<Rightarrow> match_state" where
  "open_match f defs =
     \<lparr>ms_fixture = f, ms_status = OPEN,
      ms_markets = fold (\<lambda>d. jm_set (md_marketId d) (buildMarketState (fx_matchId f) d)) defs [],
      ms_score = None\<rparr>"

definition backfill_market :: "match_id \<Rightarrow> market_def \<Rightarrow> (market_id, market_state) jmap
    \<Rightarrow> (market_id, market_state) jmap" where
  "backfill_market matchId d mks = (if jm_get mks (md_marketId d) \<noteq> None then mks
     else jm_set (md_marketId d) (buildMarketState matchId d) mks)"

definition add_markets :: "match_id \<Rightarrow> market_def list \<Rightarrow> match_state \<Rightarrow> match_state" where
  "add_markets matchId defs m =
     (if ms_status m \<noteq> OPEN then m
      else m\<lparr>ms_markets := fold (backfill_market matchId) defs (ms_markets m)\<rparr>)"

definition lock_match :: "match_state \<Rightarrow> match_state" where
  "lock_match m = m\<lparr>ms_status := LOCKED,
     ms_markets := map (\<lambda>(k, mk). (k, if mk_status mk = OPEN then mk\<lparr>mk_status := LOCKED\<rparr> else mk))
       (ms_markets m)\<rparr>"

definition resolve_match :: "score \<Rightarrow> (market_id, outcome) jmap \<Rightarrow> match_state \<Rightarrow> match_state" where
  "resolve_match sc outcomes m = m\<lparr>ms_status := RESOLVED, ms_score := Some sc,
     ms_markets := map (\<lambda>(k, mk). (k, (case jm_get outcomes k of
         None \<Rightarrow> mk\<lparr>mk_status := RESOLVED\<rparr>
       | Some w \<Rightarrow> mk\<lparr>mk_status := RESOLVED, mk_winningBucket := Some w\<rparr>))) (ms_markets m)\<rparr>"

definition market_call :: "string \<Rightarrow> call_made \<Rightarrow> market_state \<Rightarrow> market_state" where
  "market_call streamId p mk =
     (case jm_get (mk_buckets mk) (cm_bucket p) of
        None \<Rightarrow> mk
      | Some b \<Rightarrow>
          (case streamWallet streamId of
             None \<Rightarrow> mk\<lparr>mk_buckets := jm_set (cm_bucket p) (b\<lparr>bs_stake := bs_stake b + cm_stake p\<rparr>)
                        (mk_buckets mk)\<rparr>
           | Some w \<Rightarrow>
               mk\<lparr>mk_buckets := jm_set (cm_bucket p)
                    (b\<lparr>bs_stake := bs_stake b + cm_stake p, bs_callers := set_add w (bs_callers b)\<rparr>)
                    (mk_buckets mk),
                  mk_calls := mk_calls mk @
                    [\<lparr>ck_callId = cm_callId p, ck_wallet = w, ck_bucket = cm_bucket p,
                      ck_stake = cm_stake p\<rparr>]\<rparr>))"

definition on_market :: "market_id \<Rightarrow> (market_state \<Rightarrow> market_state) \<Rightarrow> match_state \<Rightarrow> match_state" where
  "on_market k f m = (case jm_get (ms_markets m) k of
     None \<Rightarrow> m | Some mk \<Rightarrow> m\<lparr>ms_markets := jm_set k (f mk) (ms_markets m)\<rparr>)"

definition on_match :: "match_id \<Rightarrow> (match_state \<Rightarrow> match_state) \<Rightarrow> pots \<Rightarrow> pots" where
  "on_match k f ps = (case jm_get ps k of None \<Rightarrow> ps | Some m \<Rightarrow> jm_set k (f m) ps)"

definition pot_apply :: "stored_event \<Rightarrow> pots \<Rightarrow> pots" where
  "pot_apply e ps =
     (case ev_payload e of
        MatchE (MatchOpened f defs) \<Rightarrow> jm_set (fx_matchId f) (open_match f defs) ps
      | MatchE (MarketsAdded matchId defs) \<Rightarrow> on_match matchId (add_markets matchId defs) ps
      | MatchE (MatchLocked matchId) \<Rightarrow> on_match matchId lock_match ps
      | PlayerE (CallMade p) \<Rightarrow>
          on_match (cm_matchId p) (on_market (cm_marketId p) (market_call (ev_streamId e) p)) ps
      | MatchE (MatchResolved r) \<Rightarrow> on_match (mr_matchId r) (resolve_match (mr_score r) (mr_outcomes r)) ps
      | MatchE (PotSettled r) \<Rightarrow>
          on_match (ps_matchId r) (on_market (ps_marketId r) (\<lambda>mk. mk\<lparr>mk_settled := True\<rparr>)) ps
      | _ \<Rightarrow> ps)"

section \<open>Views\<close>

record bucket_view =
  bv_bucket :: bucket
  bv_label :: string
  bv_stake :: frost
  bv_impliedProb :: num
  bv_callerCount :: nat

record market_view =
  mv_matchId :: match_id
  mv_marketId :: market_id
  mv_kind :: market_kind
  mv_label :: string
  mv_status :: market_status
  mv_buckets :: "bucket_view list"
  mv_grossPot :: frost
  mv_participantCount :: nat
  mv_winningBucket :: "outcome option"
  mv_settled :: bool
  mv_line :: "line_spec option"
  mv_potMatchId :: "string option"

record match_view =
  mw_fixture :: fixture
  mw_status :: market_status
  mw_markets :: "market_view list"
  mw_score :: "score option"

definition bucket_total :: "market_state \<Rightarrow> frost" where
  "bucket_total mk = jm_sum bs_stake (mk_buckets mk)"

definition participants :: "market_state \<Rightarrow> wallet list" where
  "participants mk = fold (\<lambda>b acc. fold set_add (bs_callers b) acc) (jm_values (mk_buckets mk)) []"

definition toMarketView :: "market_state \<Rightarrow> market_view" where
  "toMarketView mk =
     (let total = bucket_total mk
      in \<lparr>mv_matchId = mk_matchId mk, mv_marketId = mk_marketId mk, mv_kind = mk_kind mk,
          mv_label = mk_label mk, mv_status = mk_status mk,
          mv_buckets = map (\<lambda>(k, b). \<lparr>bv_bucket = k, bv_label = bs_label b, bv_stake = bs_stake b,
            bv_impliedProb = impliedProb (bs_stake b) total, bv_callerCount = length (bs_callers b)\<rparr>)
            (mk_buckets mk),
          mv_grossPot = total, mv_participantCount = length (participants mk),
          mv_winningBucket = mk_winningBucket mk, mv_settled = mk_settled mk,
          mv_line = mk_line mk, mv_potMatchId = mk_potMatchId mk\<rparr>)"

definition toMatchView :: "match_state \<Rightarrow> match_view" where
  "toMatchView m = \<lparr>mw_fixture = ms_fixture m, mw_status = ms_status m,
     mw_markets = map toMarketView (jm_values (ms_markets m)), mw_score = ms_score m\<rparr>"

definition getMatch :: "pots \<Rightarrow> match_id \<Rightarrow> match_view option" where
  "getMatch ps matchId = map_option toMatchView (jm_get ps matchId)"

definition the_market :: "pots \<Rightarrow> match_id \<Rightarrow> market_id \<Rightarrow> market_state option" where
  "the_market ps matchId marketId =
     (case jm_get ps matchId of None \<Rightarrow> None | Some m \<Rightarrow> jm_get (ms_markets m) marketId)"

definition getMarketCalls :: "pots \<Rightarrow> match_id \<Rightarrow> market_id \<Rightarrow> call_stake list" where
  "getMarketCalls ps matchId marketId =
     (case the_market ps matchId marketId of None \<Rightarrow> [] | Some mk \<Rightarrow> mk_calls mk)"

definition impliedProbFor :: "pots \<Rightarrow> match_id \<Rightarrow> market_id \<Rightarrow> bucket \<Rightarrow> num" where
  "impliedProbFor ps matchId marketId b =
     (case the_market ps matchId marketId of
        None \<Rightarrow> 0
      | Some mk \<Rightarrow>
          (let n = (if mk_buckets mk = [] then 1 else length (mk_buckets mk));
               total = bucket_total mk;
               nm = (case jm_get (mk_buckets mk) b of None \<Rightarrow> 0 | Some bs \<Rightarrow> bs_stake bs) + PRIOR_STAKE;
               den = total + PRIOR_STAKE * int n
           in impliedProb nm den))"

definition isOpen :: "pots \<Rightarrow> match_id \<Rightarrow> market_id \<Rightarrow> bool" where
  "isOpen ps matchId marketId \<longleftrightarrow>
     (case the_market ps matchId marketId of None \<Rightarrow> False | Some mk \<Rightarrow> mk_status mk = OPEN)"

definition openFixtures :: "pots \<Rightarrow> fixture list" where
  "openFixtures ps = sort_key fx_kickoff (map ms_fixture (filter (\<lambda>m. ms_status m = OPEN) (jm_values ps)))"

definition allMatches :: "pots \<Rightarrow> match_view list" where
  "allMatches ps = sort_key (\<lambda>m. fx_kickoff (mw_fixture m)) (map toMatchView (jm_values ps))"

definition pendingSettlements :: "pots \<Rightarrow> (match_id \<times> market_id) list" where
  "pendingSettlements ps = concat (map (\<lambda>m. map (\<lambda>mk. (mk_matchId mk, mk_marketId mk))
     (filter (\<lambda>mk. mk_status mk = RESOLVED \<and> \<not> mk_settled mk) (jm_values (ms_markets m)))) (jm_values ps))"

definition winningBucketOf :: "pots \<Rightarrow> match_id \<Rightarrow> market_id \<Rightarrow> outcome option" where
  "winningBucketOf ps matchId marketId =
     (case the_market ps matchId marketId of None \<Rightarrow> None | Some mk \<Rightarrow> mk_winningBucket mk)"

section \<open>The projection's contract\<close>

definition pot_owner :: "stored_event \<Rightarrow> match_id option" where
  "pot_owner e =
     (case ev_payload e of
        MatchE (MatchOpened f _) \<Rightarrow> Some (fx_matchId f)
      | MatchE (MarketsAdded matchId _) \<Rightarrow> Some matchId
      | MatchE (MatchLocked matchId) \<Rightarrow> Some matchId
      | PlayerE (CallMade p) \<Rightarrow> Some (cm_matchId p)
      | MatchE (MatchResolved r) \<Rightarrow> Some (mr_matchId r)
      | MatchE (PotSettled r) \<Rightarrow> Some (ps_matchId r)
      | _ \<Rightarrow> None)"

lemma on_match_get:
  "jm_get (on_match k f ps) j = (if j = k then map_option f (jm_get ps k) else jm_get ps j)"
  by (simp add: on_match_def split: option.split)

lemma pot_apply_foreign: "pot_owner e \<noteq> Some k \<Longrightarrow> jm_get (pot_apply e ps) k = jm_get ps k"
  by (auto simp: pot_owner_def pot_apply_def on_match_get
      split: domain_event.splits match_event.splits player_event.splits)

lemma pot_apply_same_key:
  assumes "jm_get ps k = jm_get qs k"
  shows "jm_get (pot_apply e ps) k = jm_get (pot_apply e qs) k"
proof (cases "ev_payload e")
  case (PlayerE p)
  with assms show ?thesis by (cases p) (auto simp add: pot_apply_def on_match_get)
next
  case (MatchE m)
  with assms show ?thesis by (cases m) (auto simp add: pot_apply_def on_match_get)
next
  case (ChallengeE c)
  with assms show ?thesis by (simp add: pot_apply_def)
qed

lemma pot_apply_none: "pot_owner e = None \<Longrightarrow> pot_apply e ps = ps"
  by (auto simp: pot_owner_def pot_apply_def
      split: domain_event.splits match_event.splits player_event.splits)

interpretation pot: keyed_projection pot_apply "\<lambda>e. pot_owner e \<noteq> None" jm_get pot_owner
  by unfold_locales (auto intro: pot_apply_none pot_apply_foreign pot_apply_same_key)

section \<open>Buckets and calls\<close>

text \<open>A market's books: the buckets hold exactly the stakes and callers of the market's calls.\<close>

definition calls_on :: "bucket \<Rightarrow> call_stake list \<Rightarrow> call_stake list" where
  "calls_on b cs = filter (\<lambda>c. ck_bucket c = b) cs"

definition bucket_ok :: "call_stake list \<Rightarrow> bucket \<Rightarrow> bucket_state \<Rightarrow> bool" where
  "bucket_ok cs b bs \<longleftrightarrow> bs_stake bs = total_stake (calls_on b cs) \<and> distinct (bs_callers bs) \<and>
     set (bs_callers bs) = ck_wallet ` set (calls_on b cs)"

definition market_ok :: "market_state \<Rightarrow> bool" where
  "market_ok mk \<longleftrightarrow> jm_wf (mk_buckets mk) \<and>
     jm_all (bucket_ok (mk_calls mk)) (mk_buckets mk) \<and>
     (\<forall>c \<in> set (mk_calls mk). ck_bucket c \<in> fst ` set (mk_buckets mk))"

text \<open>The state of a match agrees with that of its markets: an open match has only open
  markets, a closed one none.\<close>

definition match_ok :: "match_state \<Rightarrow> bool" where
  "match_ok m \<longleftrightarrow> jm_wf (ms_markets m) \<and>
     jm_all (\<lambda>k mk. market_ok mk \<and> mk_marketId mk = k \<and> (mk_status mk = OPEN \<longleftrightarrow> ms_status m = OPEN))
       (ms_markets m)"

definition pots_ok :: "pots \<Rightarrow> bool" where
  "pots_ok ps \<longleftrightarrow> jm_wf ps \<and> jm_all (\<lambda>k. match_ok) ps"

lemma total_stake_simps [simp]:
  "total_stake [] = 0" "total_stake (c # cs) = ck_stake c + total_stake cs"
  "total_stake (xs @ ys) = total_stake xs + total_stake ys"
  by (simp_all add: total_stake_def)

lemma calls_on_simps [simp]:
  "calls_on b [] = []" "calls_on b (xs @ ys) = calls_on b xs @ calls_on b ys"
  "calls_on b (c # cs) = (if ck_bucket c = b then c # calls_on b cs else calls_on b cs)"
  by (simp_all add: calls_on_def)

lemma sum_one_key:
  "distinct ks \<Longrightarrow> b \<in> set ks \<Longrightarrow> (\<Sum>k\<leftarrow>ks. if b = k then x else 0) = (x :: int)"
proof (induction ks)
  case (Cons k ks)
  show ?case
  proof (cases "b = k")
    case True
    with Cons.prems have "(\<Sum>j\<leftarrow>ks. if b = j then x else 0) = (\<Sum>j\<leftarrow>ks. 0)"
      by (intro arg_cong[where f = sum_list] map_cong) auto
    with True show ?thesis by simp
  next
    case False
    with Cons show ?thesis by simp
  qed
qed simp

lemma total_stake_by_bucket:
  assumes "distinct ks" "\<forall>c \<in> set cs. ck_bucket c \<in> set ks"
  shows "(\<Sum>k\<leftarrow>ks. total_stake (calls_on k cs)) = total_stake cs"
  using assms(2)
proof (induction cs)
  case (Cons c cs)
  have "(\<Sum>k\<leftarrow>ks. total_stake (calls_on k (c # cs))) =
      (\<Sum>k\<leftarrow>ks. (if ck_bucket c = k then ck_stake c else 0) + total_stake (calls_on k cs))"
    by (intro arg_cong[where f = sum_list] map_cong) auto
  also have "\<dots> = ck_stake c + total_stake cs"
    using Cons sum_one_key[OF assms(1), of "ck_bucket c" "ck_stake c"] by (simp add: sum_list_addf)
  finally show ?case by simp
qed simp

lemma market_gross:
  assumes "market_ok mk"
  shows "bucket_total mk = total_stake (mk_calls mk)"
proof -
  have "bucket_total mk = (\<Sum>kb\<leftarrow>mk_buckets mk. total_stake (calls_on (fst kb) (mk_calls mk)))"
    unfolding bucket_total_def jm_sum_def using assms
    by (intro arg_cong[where f = sum_list] map_cong) (auto simp: market_ok_def jm_all_def bucket_ok_def)
  also have "\<dots> = (\<Sum>k\<leftarrow>map fst (mk_buckets mk). total_stake (calls_on k (mk_calls mk)))"
    by (simp add: comp_def)
  also have "\<dots> = total_stake (mk_calls mk)"
    using assms by (intro total_stake_by_bucket) (auto simp: market_ok_def)
  finally show ?thesis .
qed

lemma set_fold_set_add [simp]: "set (fold set_add xs acc) = set acc \<union> set xs"
  by (induction xs arbitrary: acc) auto

lemma distinct_fold_set_add [simp]: "distinct acc \<Longrightarrow> distinct (fold set_add xs acc)"
  by (induction xs arbitrary: acc) simp_all

lemma fold_callers:
  "set (fold (\<lambda>b a. fold set_add (bs_callers b) a) bs acc) = set acc \<union> (\<Union>b \<in> set bs. set (bs_callers b))"
  "distinct acc \<Longrightarrow> distinct (fold (\<lambda>b a. fold set_add (bs_callers b) a) bs acc)"
  by (induction bs arbitrary: acc) auto

lemma market_participants:
  assumes "market_ok mk"
  shows "length (participants mk) = length (remdups (map ck_wallet (mk_calls mk)))"
proof -
  have "set (participants mk) = (\<Union>(b, bs) \<in> set (mk_buckets mk). ck_wallet ` set (calls_on b (mk_calls mk)))"
    using assms by (force simp: participants_def fold_callers market_ok_def jm_all_def bucket_ok_def)
  also have "\<dots> = ck_wallet ` set (mk_calls mk)"
    using assms by (fastforce simp: market_ok_def calls_on_def)
  finally have "set (participants mk) = set (map ck_wallet (mk_calls mk))" by simp
  moreover have "distinct (participants mk)" by (simp add: participants_def fold_callers)
  ultimately show ?thesis by (metis distinct_card length_remdups_card_conv)
qed

section \<open>Preservation\<close>

lemma fresh_buckets:
  "jm_wf m \<Longrightarrow> jm_all (bucket_ok []) m \<Longrightarrow>
    jm_wf (fold fresh_bucket bs m) \<and> jm_all (bucket_ok []) (fold fresh_bucket bs m)"
  by (induction bs arbitrary: m) (simp_all add: fresh_bucket_def bucket_ok_def)

lemma market_ok_build:
  "market_ok (buildMarketState mid d)" "mk_marketId (buildMarketState mid d) = md_marketId d"
  "mk_status (buildMarketState mid d) = OPEN"
  using fresh_buckets[of "[]" "md_buckets d"]
  by (simp_all add: market_ok_def buildMarketState_def)

lemma bucket_ok_other: "k \<noteq> ck_bucket c \<Longrightarrow> bucket_ok cs k b \<Longrightarrow> bucket_ok (cs @ [c]) k b"
  by (simp add: bucket_ok_def)

lemma market_ok_call:
  assumes ok: "market_ok mk" and w: "streamWallet s = Some w"
  shows "market_ok (market_call s p mk)"
proof (cases "jm_get (mk_buckets mk) (cm_bucket p)")
  case None
  with ok show ?thesis by (simp add: market_call_def)
next
  case (Some b)
  then have b: "bucket_ok (mk_calls mk) (cm_bucket p) b"
    using ok by (auto simp: market_ok_def dest: jm_all_get)
  have key: "cm_bucket p \<in> fst ` set (mk_buckets mk)"
    using Some by (force dest: jm_get_mem)
  let ?c = "\<lparr>ck_callId = cm_callId p, ck_wallet = w, ck_bucket = cm_bucket p, ck_stake = cm_stake p\<rparr>"
  let ?b = "b\<lparr>bs_stake := bs_stake b + cm_stake p, bs_callers := set_add w (bs_callers b)\<rparr>"
  have "jm_all (bucket_ok (mk_calls mk @ [?c])) (jm_set (cm_bucket p) ?b (mk_buckets mk))"
  proof (rule jm_all_set_key)
    show "jm_wf (mk_buckets mk)" "jm_all (bucket_ok (mk_calls mk)) (mk_buckets mk)"
      using ok by (simp_all add: market_ok_def)
    show "bucket_ok (mk_calls mk @ [?c]) (cm_bucket p) ?b" using b by (simp add: bucket_ok_def)
  qed (rule bucket_ok_other, simp_all)
  then show ?thesis using ok Some w key
    by (simp add: market_call_def market_ok_def jm_set_keys)
qed

lemma market_call_ids [simp]:
  "mk_marketId (market_call s p mk) = mk_marketId mk" "mk_status (market_call s p mk) = mk_status mk"
  by (simp_all add: market_call_def split: option.split)

text \<open>A match all of whose markets are open keeps its books while markets are added to it.\<close>

definition open_markets_ok :: "(market_id, market_state) jmap \<Rightarrow> bool" where
  "open_markets_ok mks \<longleftrightarrow> jm_wf mks \<and> jm_all (\<lambda>k mk. market_ok mk \<and> mk_marketId mk = k \<and> mk_status mk = OPEN) mks"

lemma open_markets_ok_set:
  "open_markets_ok mks \<Longrightarrow> open_markets_ok (jm_set (md_marketId d) (buildMarketState mid d) mks)"
  by (simp add: open_markets_ok_def market_ok_build)

lemma match_ok_OPEN: "ms_status m = OPEN \<Longrightarrow> match_ok m \<longleftrightarrow> open_markets_ok (ms_markets m)"
  by (simp add: match_ok_def open_markets_ok_def)

lemma open_markets_fold:
  "open_markets_ok mks \<Longrightarrow> open_markets_ok (fold (\<lambda>d. jm_set (md_marketId d) (buildMarketState mid d)) ds mks)"
  "open_markets_ok mks \<Longrightarrow> open_markets_ok (fold (backfill_market mid) ds mks)"
  by (induction ds arbitrary: mks; simp add: open_markets_ok_set backfill_market_def)+

lemma match_ok_open: "match_ok (open_match f ds)"
proof -
  have "open_markets_ok []" by (simp add: open_markets_ok_def)
  then show ?thesis by (simp add: match_ok_OPEN open_match_def open_markets_fold)
qed

lemma match_ok_add_markets: "match_ok m \<Longrightarrow> match_ok (add_markets mid ds m)"
  by (cases "ms_status m = OPEN") (simp_all add: add_markets_def match_ok_OPEN open_markets_fold)

lemma market_ok_frame [simp]:
  "market_ok (mk\<lparr>mk_status := st\<rparr>) = market_ok mk"
  "market_ok (mk\<lparr>mk_winningBucket := w\<rparr>) = market_ok mk"
  "market_ok (mk\<lparr>mk_settled := b\<rparr>) = market_ok mk"
  by (simp_all add: market_ok_def)

lemma match_ok_map:
  assumes "match_ok m" and "\<And>k mk. market_ok mk \<Longrightarrow> mk_marketId mk = k \<Longrightarrow>
      (mk_status mk = OPEN \<longleftrightarrow> ms_status m = OPEN) \<Longrightarrow>
      market_ok (f k mk) \<and> mk_marketId (f k mk) = k \<and> mk_status (f k mk) \<noteq> OPEN"
    and "ms_status m' \<noteq> OPEN" "ms_markets m' = map (\<lambda>(k, mk). (k, f k mk)) (ms_markets m)"
  shows "match_ok m'"
proof -
  have "jm_all (\<lambda>k mk. market_ok mk \<and> mk_marketId mk = k \<and> (mk_status mk = OPEN \<longleftrightarrow> ms_status m = OPEN))
      (ms_markets m)" using assms(1) by (simp add: match_ok_def)
  then have "jm_all (\<lambda>k mk. market_ok mk \<and> mk_marketId mk = k \<and> mk_status mk \<noteq> OPEN) (ms_markets m')"
    unfolding assms(4) by (rule jm_all_map) (simp add: assms(2))
  moreover have "jm_wf (ms_markets m')"
    unfolding assms(4) jm_wf_map using assms(1) by (simp add: match_ok_def)
  ultimately show ?thesis using assms(3) by (auto simp: match_ok_def elim: jm_all_mono)
qed

lemma match_ok_lock: "match_ok m \<Longrightarrow> match_ok (lock_match m)"
  by (rule match_ok_map[where f = "\<lambda>k mk. if mk_status mk = OPEN then mk\<lparr>mk_status := LOCKED\<rparr> else mk"])
    (auto simp: lock_match_def)

lemma match_ok_resolve: "match_ok m \<Longrightarrow> match_ok (resolve_match sc oc m)"
  by (rule match_ok_map[where f = "\<lambda>k mk. case jm_get oc k of None \<Rightarrow> mk\<lparr>mk_status := RESOLVED\<rparr>
      | Some w \<Rightarrow> mk\<lparr>mk_status := RESOLVED, mk_winningBucket := Some w\<rparr>"])
    (auto simp: resolve_match_def split: option.split)

lemma match_ok_on_market:
  assumes "match_ok m" and "\<And>mk. market_ok mk \<Longrightarrow> market_ok (f mk)"
    and "\<And>mk. mk_marketId (f mk) = mk_marketId mk" "\<And>mk. mk_status (f mk) = mk_status mk"
  shows "match_ok (on_market k f m)"
proof (cases "jm_get (ms_markets m) k")
  case None
  with assms(1) show ?thesis by (simp add: on_market_def)
next
  case (Some mk)
  have all: "jm_all (\<lambda>k mk. market_ok mk \<and> mk_marketId mk = k \<and> (mk_status mk = OPEN \<longleftrightarrow> ms_status m = OPEN))
      (ms_markets m)" using assms(1) by (simp add: match_ok_def)
  from jm_all_get[OF all Some] assms(2-4) have "market_ok (f mk) \<and> mk_marketId (f mk) = k \<and>
      (mk_status (f mk) = OPEN \<longleftrightarrow> ms_status m = OPEN)" by simp
  with all have "jm_all (\<lambda>k mk. market_ok mk \<and> mk_marketId mk = k \<and> (mk_status mk = OPEN \<longleftrightarrow> ms_status m = OPEN))
      (jm_set k (f mk) (ms_markets m))" by (rule jm_all_set)
  with Some assms(1) show ?thesis by (simp add: match_ok_def on_market_def)
qed

lemma pots_ok_on_match:
  assumes "pots_ok ps" and "\<And>m. match_ok m \<Longrightarrow> match_ok (f m)"
  shows "pots_ok (on_match k f ps)"
proof (cases "jm_get ps k")
  case None
  with assms(1) show ?thesis by (simp add: on_match_def)
next
  case (Some m)
  have all: "jm_all (\<lambda>k. match_ok) ps" using assms(1) by (simp add: pots_ok_def)
  then have "jm_all (\<lambda>k. match_ok) (jm_set k (f m) ps)"
    using assms(2) jm_all_get[OF all Some] by (intro jm_all_set)
  with Some assms(1) show ?thesis by (simp add: on_match_def pots_ok_def)
qed

text \<open>Calls are recorded on the streams of their callers.\<close>

definition pot_event_ok :: "stored_event \<Rightarrow> bool" where
  "pot_event_ok e \<longleftrightarrow> (case ev_payload e of PlayerE (CallMade p) \<Rightarrow> streamWallet (ev_streamId e) \<noteq> None | _ \<Rightarrow> True)"

lemma pots_ok_apply:
  assumes ok: "pots_ok ps" and e: "pot_event_ok e"
  shows "pots_ok (pot_apply e ps)"
proof (cases "ev_payload e")
  case (PlayerE p)
  show ?thesis
  proof (cases "\<exists>c. p = CallMade c")
    case True
    then obtain c w where c: "p = CallMade c" "streamWallet (ev_streamId e) = Some w"
      using e PlayerE by (auto simp: pot_event_ok_def)
    have "pots_ok (on_match (cm_matchId c) (on_market (cm_marketId c) (market_call (ev_streamId e) c)) ps)"
      by (intro pots_ok_on_match[OF ok] match_ok_on_market market_ok_call[OF _ c(2)]) simp_all
    with PlayerE c show ?thesis by (simp add: pot_apply_def)
  next
    case False
    with PlayerE ok show ?thesis by (cases p) (simp_all add: pot_apply_def)
  qed
next
  case (MatchE m)
  show ?thesis
  proof (cases m)
    case (MatchOpened f ds)
    with MatchE ok show ?thesis by (simp add: pot_apply_def pots_ok_def match_ok_open)
  next
    case (PotSettled r)
    have "pots_ok (on_match (ps_matchId r) (on_market (ps_marketId r) (\<lambda>mk. mk\<lparr>mk_settled := True\<rparr>)) ps)"
      by (intro pots_ok_on_match[OF ok] match_ok_on_market) (simp_all)
    with MatchE PotSettled show ?thesis by (simp add: pot_apply_def)
  qed (use MatchE ok in \<open>auto simp: pot_apply_def intro!: pots_ok_on_match
      match_ok_add_markets match_ok_lock match_ok_resolve\<close>)
next
  case (ChallengeE c)
  with ok show ?thesis by (simp add: pot_apply_def)
qed

lemma pots_ok_fold:
  "pots_ok ps \<Longrightarrow> \<forall>e \<in> set lg. pot_event_ok e \<Longrightarrow> pots_ok (fold pot_apply lg ps)"
  by (induction lg arbitrary: ps) (simp_all add: pots_ok_apply)

lemma pots_ok_Nil: "pots_ok []"
  by (simp add: pots_ok_def)

lemma the_market_ok: "pots_ok ps \<Longrightarrow> the_market ps mid k = Some mk \<Longrightarrow> market_ok mk"
  by (auto simp: the_market_def pots_ok_def match_ok_def split: option.splits dest!: jm_all_get)

section \<open>What the pots promise\<close>

text \<open>The pots agree with the calls. After any log whose calls are recorded on their
  callers' streams, the gross pot a market shows is the sum of the stakes of the calls that
  the settlement will read, each bucket shows the sum of its own calls, and the participant
  count is the number of distinct callers, the number the thin-pool guard counts.\<close>

theorem pots_agree_with_calls:
  assumes "\<forall>e \<in> set lg. pot_event_ok e" and "the_market (fold pot_apply lg []) mid k = Some mk"
  shows "mv_grossPot (toMarketView mk) = total_stake (getMarketCalls (fold pot_apply lg []) mid k) \<and>
    (\<forall>bv \<in> set (mv_buckets (toMarketView mk)). bv_stake bv =
       total_stake (filter (\<lambda>c. ck_bucket c = bv_bucket bv) (getMarketCalls (fold pot_apply lg []) mid k))) \<and>
    mv_participantCount (toMarketView mk) =
       length (remdups (map ck_wallet (getMarketCalls (fold pot_apply lg []) mid k)))"
proof -
  have ok: "market_ok mk"
    using the_market_ok[OF pots_ok_fold[OF pots_ok_Nil assms(1)] assms(2)] .
  then have "bs_stake b = total_stake (filter (\<lambda>c. ck_bucket c = k) (mk_calls mk))"
    if "(k, b) \<in> set (mk_buckets mk)" for k b
    using that by (auto simp: market_ok_def bucket_ok_def calls_on_def dest: jm_all_in)
  then show ?thesis
    using assms(2) market_gross[OF ok] market_participants[OF ok]
    by (auto simp: getMarketCalls_def toMarketView_def Let_def)
qed

definition sample_fixture :: fixture where
  "sample_fixture = \<lparr>fx_matchId = ''m1'', fx_home = ''A'', fx_away = ''B'', fx_competition = ''C'',
     fx_group = None, fx_stage = ''Group'', fx_kickoff = 1000, fx_txline = None\<rparr>"

definition sample_call :: "call_id \<Rightarrow> bucket \<Rightarrow> frost \<Rightarrow> call_made" where
  "sample_call cid b stake = \<lparr>cm_callId = cid, cm_matchId = ''m1'', cm_marketId = RESULT_MARKET,
     cm_bucket = b, cm_stake = stake, cm_impliedProbAtCall = 1 / 3, cm_bold = False, cm_note = None\<rparr>"

definition sample_event :: "string \<Rightarrow> nat \<Rightarrow> domain_event \<Rightarrow> stored_event" where
  "sample_event s v p = \<lparr>ev_id = ''e'', ev_streamId = s, ev_version = v, ev_at = 1, ev_payload = p\<rparr>"

definition sample_pot_log :: "stored_event list" where
  "sample_pot_log =
    [sample_event (matchStream ''m1'') 0 (MatchE (MatchOpened sample_fixture [resultMarket])),
     sample_event (playerStream ''ann'') 1 (PlayerE (CallMade (sample_call ''c1'' HOME 30))),
     sample_event (playerStream ''bob'') 1 (PlayerE (CallMade (sample_call ''c2'' AWAY 20))),
     sample_event (playerStream ''ann'') 2 (PlayerE (CallMade (sample_call ''c3'' DRAW 5)))]"

theorem pots_agree_with_calls_witness:
  "\<exists>mk. the_market (fold pot_apply sample_pot_log []) ''m1'' RESULT_MARKET = Some mk \<and>
    mv_grossPot (toMarketView mk) = 55 \<and> mv_participantCount (toMarketView mk) = 2"
proof -
  have ok: "\<forall>e \<in> set sample_pot_log. pot_event_ok e" by code_simp
  have "the_market (fold pot_apply sample_pot_log []) ''m1'' RESULT_MARKET \<noteq> None" by code_simp
  then obtain mk where mk: "the_market (fold pot_apply sample_pot_log []) ''m1'' RESULT_MARKET = Some mk"
    by blast
  have "total_stake (getMarketCalls (fold pot_apply sample_pot_log []) ''m1'' RESULT_MARKET) = 55"
    and "length (remdups (map ck_wallet (getMarketCalls (fold pot_apply sample_pot_log []) ''m1'' RESULT_MARKET))) = 2"
    by code_simp+
  with pots_agree_with_calls[OF ok mk] mk show ?thesis by simp
qed

text \<open>A closed book stays closed. After any log whose calls are recorded on their
  callers' streams, a market takes calls exactly when its match is open; adding markets to a
  match that is locked or resolved changes nothing, and locking or resolving an open match
  closes every one of its markets.\<close>

theorem closed_book:
  assumes "\<forall>e \<in> set lg. pot_event_ok e" and "jm_get (fold pot_apply lg []) mid = Some m"
    and "jm_get (ms_markets m) k = Some mk"
  shows "(isOpen (fold pot_apply lg []) mid k \<longleftrightarrow> ms_status m = OPEN) \<and>
    (ms_status m \<noteq> OPEN \<longrightarrow> add_markets mid defs m = m) \<and>
    \<not> isOpen (jm_set mid (lock_match m) (fold pot_apply lg [])) mid k \<and>
    \<not> isOpen (jm_set mid (resolve_match sc oc m) (fold pot_apply lg [])) mid k"
proof -
  have ok: "match_ok m"
    using pots_ok_fold[OF pots_ok_Nil assms(1)] assms(2) by (auto simp: pots_ok_def dest: jm_all_in)
  have st: "mk_status mk = OPEN \<longleftrightarrow> ms_status m = OPEN"
    using ok jm_all_get[OF _ assms(3)] by (fastforce simp: match_ok_def)
  have closed: "\<not> isOpen (jm_set mid m' (fold pot_apply lg [])) mid k" if "match_ok m'" "ms_status m' \<noteq> OPEN" for m'
    using that by (auto simp: isOpen_def the_market_def match_ok_def split: option.split dest: jm_all_in)
  have "\<not> isOpen (jm_set mid (lock_match m) (fold pot_apply lg [])) mid k"
    by (rule closed[OF match_ok_lock[OF ok]]) (simp add: lock_match_def)
  moreover have "\<not> isOpen (jm_set mid (resolve_match sc oc m) (fold pot_apply lg [])) mid k"
    by (rule closed[OF match_ok_resolve[OF ok]]) (simp add: resolve_match_def)
  ultimately show ?thesis using st assms(2,3)
    by (simp add: isOpen_def the_market_def add_markets_def)
qed

theorem closed_book_witness:
  "\<exists>m. jm_get (fold pot_apply sample_pot_log []) ''m1'' = Some m \<and>
     isOpen (fold pot_apply sample_pot_log []) ''m1'' RESULT_MARKET \<and>
     \<not> isOpen (jm_set ''m1'' (lock_match m) (fold pot_apply sample_pot_log [])) ''m1'' RESULT_MARKET"
proof -
  have ok: "\<forall>e \<in> set sample_pot_log. pot_event_ok e" by code_simp
  have "the_market (fold pot_apply sample_pot_log []) ''m1'' RESULT_MARKET \<noteq> None"
    and o: "isOpen (fold pot_apply sample_pot_log []) ''m1'' RESULT_MARKET" by code_simp+
  then obtain m mk where m: "jm_get (fold pot_apply sample_pot_log []) ''m1'' = Some m"
    "jm_get (ms_markets m) RESULT_MARKET = Some mk"
    by (auto simp: the_market_def split: option.splits)
  from closed_book[OF ok m] m o show ?thesis by blast
qed

section \<open>Odds\<close>

lemma impliedProb_bounds:
  assumes "0 \<le> a" "a \<le> t" "0 < t"
  shows "0 \<le> impliedProb a t" "impliedProb a t \<le> 1"
    "of_int a / of_int t - 1 / 1000000 < impliedProb a t" "impliedProb a t \<le> of_int a / of_int t"
proof -
  let ?q = "a * 1000000 div t"
  have ip: "impliedProb a t = of_int ?q / 1000000"
    using assms by (simp add: impliedProb_def)
  have split: "?q * t + (a * 1000000) mod t = a * 1000000" by (rule div_mult_mod_eq)
  have mod: "0 \<le> (a * 1000000) mod t" "(a * 1000000) mod t < t" using assms(3) by simp_all
  have le: "?q * t \<le> a * 1000000" using split mod by linarith
  have "(?q + 1) * t = ?q * t + t" by (rule int_distrib(1)[of ?q 1 t, simplified mult_1])
  then have lt: "a * 1000000 < (?q + 1) * t" using split mod by linarith
  have q0: "0 \<le> ?q" using assms by (simp add: pos_imp_zdiv_nonneg_iff)
  have "rat_of_int (?q * t) \<le> rat_of_int (a * 1000000)" using le by (simp only: of_int_le_iff)
  then have le': "of_int ?q * of_int t \<le> (of_int a * 1000000 :: rat)"
    by (simp only: of_int_mult of_int_numeral)
  have "rat_of_int (a * 1000000) < rat_of_int ((?q + 1) * t)" using lt by (simp only: of_int_less_iff)
  then have lt': "(of_int a * 1000000 :: rat) < (of_int ?q + 1) * of_int t"
    by (simp only: of_int_mult of_int_numeral of_int_add of_int_1)
  have t: "(0 :: rat) < of_int t" using assms(3) by simp
  show "0 \<le> impliedProb a t" using q0 by (simp add: ip)
  show up: "impliedProb a t \<le> of_int a / of_int t"
    using le' t by (simp add: ip field_simps)
  show "of_int a / of_int t - 1 / 1000000 < impliedProb a t"
    using lt' t by (simp add: ip field_simps)
  have "of_int a / of_int t \<le> (1 :: rat)" using assms(2) t by simp
  with up show "impliedProb a t \<le> 1" by linarith
qed

text \<open>The odds a call is scored by are smoothed probabilities. For a market with
  buckets and no negative stake, every bucket's crowd-implied probability lies between 0
  and 1, and over the market's buckets the probabilities add up to 1, short of it by at
  most one millionth per bucket, for the six decimals they are cut to.\<close>

theorem smoothed_odds:
  assumes mk: "the_market ps mid k = Some mk" and wf: "jm_wf (mk_buckets mk)" "mk_buckets mk \<noteq> []"
    and nn: "\<forall>(b, bs) \<in> set (mk_buckets mk). 0 \<le> bs_stake bs"
  shows "(\<forall>b. 0 \<le> impliedProbFor ps mid k b \<and> impliedProbFor ps mid k b \<le> 1) \<and>
    (\<Sum>b\<leftarrow>map fst (mk_buckets mk). impliedProbFor ps mid k b) \<le> 1 \<and>
    1 - of_nat (length (mk_buckets mk)) / 1000000 \<le> (\<Sum>b\<leftarrow>map fst (mk_buckets mk). impliedProbFor ps mid k b)"
proof -
  let ?m = "mk_buckets mk"
  define stk where "stk = (\<lambda>b. (case jm_get ?m b of None \<Rightarrow> 0 | Some bs \<Rightarrow> bs_stake bs) + PRIOR_STAKE)"
  define den where "den = bucket_total mk + PRIOR_STAKE * int (length ?m)"
  have pr: "0 < PRIOR_STAKE" by (simp add: PRIOR_STAKE_def)
  have ip: "impliedProbFor ps mid k b = impliedProb (stk b) den" for b
    using mk wf by (simp add: impliedProbFor_def stk_def den_def Let_def)
  have tot: "0 \<le> bucket_total mk" unfolding bucket_total_def
    using nn by (intro jm_sum_nonneg) auto
  have len: "1 \<le> int (length ?m)" using wf(2) by (cases ?m) simp_all
  then have prn: "PRIOR_STAKE \<le> PRIOR_STAKE * int (length ?m)" using pr by simp
  have den: "0 < den" unfolding den_def using tot prn pr by linarith
  have stk: "0 \<le> stk b \<and> stk b \<le> den" for b
  proof (cases "jm_get ?m b")
    case None
    with tot prn pr have "stk b = PRIOR_STAKE" by (simp add: stk_def)
    then show ?thesis using tot prn pr unfolding den_def by linarith
  next
    case (Some bs)
    then have "(b, bs) \<in> set ?m" by (rule jm_get_mem)
    then have "0 \<le> bs_stake bs" "bs_stake bs \<le> bucket_total mk"
      unfolding bucket_total_def using nn by (auto intro: jm_sum_ge_member)
    moreover from Some have "stk b = bs_stake bs + PRIOR_STAKE" by (simp add: stk_def)
    ultimately show ?thesis using prn pr unfolding den_def by linarith
  qed
  have sum_num: "(\<Sum>b\<leftarrow>map fst ?m. stk b) = den"
  proof -
    have "(\<Sum>b\<leftarrow>map fst ?m. stk b) = (\<Sum>kb\<leftarrow>?m. bs_stake (snd kb) + PRIOR_STAKE)"
      unfolding map_map using wf(1)
      by (intro arg_cong[where f = sum_list] map_cong) (auto simp: stk_def)
    also have "\<dots> = bucket_total mk + (\<Sum>kb\<leftarrow>?m. PRIOR_STAKE)"
      by (simp add: sum_list_addf bucket_total_def jm_sum_def case_prod_unfold)
    finally show ?thesis by (simp add: den_def sum_list_triv)
  qed
  have frac: "(\<Sum>b\<leftarrow>bs. of_int (stk b) / (of_int den :: rat)) = of_int (\<Sum>b\<leftarrow>bs. stk b) / of_int den" for bs
    by (induction bs) (simp_all add: add_divide_distrib)
  have "(\<Sum>b\<leftarrow>bs. impliedProb (stk b) den) \<le> (\<Sum>b\<leftarrow>bs. of_int (stk b) / of_int den)" for bs
    by (rule sum_list_mono) (use impliedProb_bounds(4) stk den in blast)
  then have up: "(\<Sum>b\<leftarrow>map fst ?m. impliedProb (stk b) den) \<le> 1"
    using frac[of "map fst ?m"] sum_num den by (metis divide_self_if less_irrefl of_int_0_eq_iff)
  have "(\<Sum>b\<leftarrow>bs. of_int (stk b) / of_int den) - of_nat (length bs) / 1000000
      \<le> (\<Sum>b\<leftarrow>bs. impliedProb (stk b) den)" for bs
  proof (induction bs)
    case (Cons b bs)
    have "of_int (stk b) / of_int den - 1 / 1000000 < impliedProb (stk b) den"
      using impliedProb_bounds(3) stk den by blast
    with Cons show ?case by (simp add: field_simps)
  qed simp
  from this[of "map fst ?m"] have "1 - of_nat (length ?m) / 1000000 \<le> (\<Sum>b\<leftarrow>map fst ?m. impliedProb (stk b) den)"
    using frac[of "map fst ?m"] sum_num den by simp
  then show ?thesis using up impliedProb_bounds(1,2) stk den by (simp add: ip)
qed

theorem smoothed_odds_witness:
  "\<exists>mk. the_market (fold pot_apply sample_pot_log []) ''m1'' RESULT_MARKET = Some mk \<and>
    1 - 3 / 1000000 \<le> (\<Sum>b\<leftarrow>map fst (mk_buckets mk).
       impliedProbFor (fold pot_apply sample_pot_log []) ''m1'' RESULT_MARKET b)"
proof -
  let ?t = "the_market (fold pot_apply sample_pot_log []) ''m1'' RESULT_MARKET"
  have c: "?t \<noteq> None \<and> jm_wf (mk_buckets (the ?t)) \<and> length (mk_buckets (the ?t)) = 3 \<and>
      list_all (\<lambda>(b, bs). 0 \<le> bs_stake bs) (mk_buckets (the ?t))" by code_simp
  then obtain mk where mk: "?t = Some mk" "jm_wf (mk_buckets mk)" "length (mk_buckets mk) = 3"
      "\<forall>(b, bs) \<in> set (mk_buckets mk). 0 \<le> bs_stake bs" by (auto simp: list_all_iff)
  then have "mk_buckets mk \<noteq> []" by auto
  from smoothed_odds[OF mk(1,2) this mk(4)] mk show ?thesis by simp
qed

end
