(* ===== verification/Challenges.thy ===== *)
theory Challenges
  imports Projection
begin

text \<open>
  The challenges (\<open>src/core/projections/ChallengeProjection.ts\<close>): the private one-against-one
  wagers, folded from the challenge streams, and the life cycle a challenge should follow.
  The projection itself overwrites the status with whatever event arrives; the life cycle
  is the specification the engine's guards are held against.
\<close>

datatype challenge_status = C_OPEN | C_MATCHED | C_SETTLED | C_VOID | C_CANCELLED

record challenge_view =
  cw_challengeId :: challenge_id
  cw_matchId :: match_id
  cw_creator :: wallet
  cw_opponent :: "wallet option"
  cw_creatorSide :: bucket
  cw_opponentSide :: bucket
  cw_stake :: frost
  cw_status :: challenge_status
  cw_winner :: "wallet option"
  cw_winningBucket :: "outcome option"
  cw_createdAt :: int
  cw_settledAt :: "int option"

type_synonym challenges = "(challenge_id, challenge_view) jmap"

definition new_challenge :: "int \<Rightarrow> challenge_created \<Rightarrow> challenge_view" where
  "new_challenge tm p = \<lparr>cw_challengeId = cc_challengeId p, cw_matchId = cc_matchId p,
     cw_creator = cc_creator p, cw_opponent = None, cw_creatorSide = cc_creatorSide p,
     cw_opponentSide = cc_opponentSide p, cw_stake = cc_stake p, cw_status = C_OPEN,
     cw_winner = None, cw_winningBucket = None, cw_createdAt = tm, cw_settledAt = None\<rparr>"

text \<open>An event on the view of its challenge.\<close>

fun challenge_step :: "int \<Rightarrow> challenge_event \<Rightarrow> challenge_view \<Rightarrow> challenge_view" where
  "challenge_step tm (ChallengeCreated p) c = new_challenge tm p"
| "challenge_step tm (ChallengeAccepted _ opponent) c =
     c\<lparr>cw_opponent := Some opponent, cw_status := C_MATCHED\<rparr>"
| "challenge_step tm (ChallengeSettled p) c =
     c\<lparr>cw_status := C_SETTLED, cw_winner := Some (ct_winner p),
       cw_winningBucket := Some (ct_winningBucket p), cw_settledAt := Some tm\<rparr>"
| "challenge_step tm (ChallengeVoided _ winningBucket _) c =
     c\<lparr>cw_status := C_VOID, cw_winningBucket := Some winningBucket, cw_settledAt := Some tm\<rparr>"
| "challenge_step tm (ChallengeCancelled _) c =
     c\<lparr>cw_status := C_CANCELLED, cw_settledAt := Some tm\<rparr>"

fun challenge_key :: "challenge_event \<Rightarrow> challenge_id" where
  "challenge_key (ChallengeCreated p) = cc_challengeId p"
| "challenge_key (ChallengeAccepted cid _) = cid"
| "challenge_key (ChallengeSettled p) = ct_challengeId p"
| "challenge_key (ChallengeVoided cid _ _) = cid"
| "challenge_key (ChallengeCancelled cid) = cid"

definition challenge_apply :: "stored_event \<Rightarrow> challenges \<Rightarrow> challenges" where
  "challenge_apply e cs =
     (case ev_payload e of
        ChallengeE (ChallengeCreated p) \<Rightarrow> jm_set (cc_challengeId p) (new_challenge (ev_at e) p) cs
      | ChallengeE p \<Rightarrow>
          (case jm_get cs (challenge_key p) of
             None \<Rightarrow> cs
           | Some c \<Rightarrow> jm_set (challenge_key p) (challenge_step (ev_at e) p c) cs)
      | _ \<Rightarrow> cs)"

definition challenge_get :: "challenges \<Rightarrow> challenge_id \<Rightarrow> challenge_view option" where
  "challenge_get cs cid = jm_get cs cid"

definition forWallet :: "challenges \<Rightarrow> wallet \<Rightarrow> challenge_view list" where
  "forWallet cs w = sort_key (\<lambda>c. - cw_createdAt c)
     (filter (\<lambda>c. cw_creator c = w \<or> cw_opponent c = Some w) (jm_values cs))"

definition matchedFor :: "challenges \<Rightarrow> match_id \<Rightarrow> challenge_view list" where
  "matchedFor cs mid = filter (\<lambda>c. cw_status c = C_MATCHED \<and> cw_matchId c = mid) (jm_values cs)"

section \<open>The projection's contract\<close>

definition challenge_owner :: "stored_event \<Rightarrow> challenge_id option" where
  "challenge_owner e = (case ev_payload e of ChallengeE p \<Rightarrow> Some (challenge_key p) | _ \<Rightarrow> None)"

lemma challenge_apply_get:
  "jm_get (challenge_apply e cs) k =
    (case ev_payload e of
       ChallengeE p \<Rightarrow>
         (if challenge_key p \<noteq> k then jm_get cs k
          else case p of
              ChallengeCreated q \<Rightarrow> Some (new_challenge (ev_at e) q)
            | _ \<Rightarrow> map_option (challenge_step (ev_at e) p) (jm_get cs k))
     | _ \<Rightarrow> jm_get cs k)"
proof (cases "ev_payload e")
  case (ChallengeE p)
  then show ?thesis by (cases p) (auto simp: challenge_apply_def split: option.split)
qed (simp_all add: challenge_apply_def)

interpretation challenge: keyed_projection challenge_apply "\<lambda>e. challenge_owner e \<noteq> None" jm_get challenge_owner
proof
  fix e cs
  assume "\<not> challenge_owner e \<noteq> None"
  then show "challenge_apply e cs = cs"
    by (cases "ev_payload e") (simp_all add: challenge_owner_def challenge_apply_def)
next
  fix e :: stored_event and k and cs :: challenges
  assume "challenge_owner e \<noteq> Some k"
  then show "jm_get (challenge_apply e cs) k = jm_get cs k"
    by (cases "ev_payload e") (simp_all add: challenge_owner_def challenge_apply_get)
next
  fix cs ct :: challenges and k e
  assume "jm_get cs k = jm_get ct k"
  then show "jm_get (challenge_apply e cs) k = jm_get (challenge_apply e ct) k"
    by (simp only: challenge_apply_get)
qed

lemma challenge_wf: "jm_wf cs \<Longrightarrow> jm_wf (challenge_apply e cs)"
  by (auto simp: challenge_apply_def split: domain_event.split challenge_event.split option.split)

section \<open>The life cycle\<close>

text \<open>The transitions a challenge may make: accepted only while open and by someone other
  than its creator, cancelled only while open, settled or voided only once matched.\<close>

inductive life_step :: "challenge_view \<Rightarrow> challenge_event \<Rightarrow> bool" where
  life_accept: "cw_status c = C_OPEN \<Longrightarrow> opp \<noteq> cw_creator c \<Longrightarrow> life_step c (ChallengeAccepted cid opp)"
| life_cancel: "cw_status c = C_OPEN \<Longrightarrow> life_step c (ChallengeCancelled cid)"
| life_settle: "cw_status c = C_MATCHED \<Longrightarrow> ct_winner p = cw_creator c \<or> Some (ct_winner p) = cw_opponent c
    \<Longrightarrow> life_step c (ChallengeSettled p)"
| life_void: "cw_status c = C_MATCHED \<Longrightarrow> life_step c (ChallengeVoided cid w r)"

inductive_simps life_step_simps [simp]:
  "life_step c (ChallengeCreated p)"
  "life_step c (ChallengeAccepted cid opp)"
  "life_step c (ChallengeCancelled cid)"
  "life_step c (ChallengeSettled p)"
  "life_step c (ChallengeVoided cid w r)"

inductive life :: "challenge_created \<Rightarrow> challenge_event list \<Rightarrow> challenge_view \<Rightarrow> bool" for p where
  life_new: "life p [] (new_challenge tm p)"
| life_next: "life p es c \<Longrightarrow> life_step c e \<Longrightarrow> life p (es @ [e]) (challenge_step tm e c)"

definition terminal :: "challenge_status \<Rightarrow> bool" where
  "terminal st \<longleftrightarrow> st = C_SETTLED \<or> st = C_VOID \<or> st = C_CANCELLED"

lemma life_terminal: "terminal (cw_status c) \<Longrightarrow> \<not> life_step c e"
  by (auto simp: terminal_def elim: life_step.cases)

definition life_ok :: "challenge_created \<Rightarrow> challenge_view \<Rightarrow> bool" where
  "life_ok p c \<longleftrightarrow> cw_creator c = cc_creator p \<and> cw_stake c = cc_stake p \<and>
     cw_matchId c = cc_matchId p \<and> cw_creatorSide c = cc_creatorSide p \<and>
     cw_opponentSide c = cc_opponentSide p \<and>
     (cw_opponent c \<noteq> Some (cw_creator c)) \<and>
     (cw_status c = C_OPEN \<or> cw_status c = C_CANCELLED \<longleftrightarrow> cw_opponent c = None) \<and>
     (cw_status c = C_SETTLED \<longleftrightarrow> cw_winner c \<noteq> None) \<and>
     (cw_winner c \<noteq> None \<longrightarrow> cw_winner c = Some (cw_creator c) \<or> cw_winner c = cw_opponent c) \<and>
     (terminal (cw_status c) \<longleftrightarrow> cw_settledAt c \<noteq> None)"

lemma life_invariant: "life p es c \<Longrightarrow> life_ok p c \<and> length es \<le> 2 \<and>
    (length es = (if cw_status c = C_OPEN then 0 else if cw_status c = C_MATCHED \<or> cw_status c = C_CANCELLED then 1 else 2))"
proof (induction rule: life.induct)
  case (life_new tm)
  show ?case by (simp add: life_ok_def new_challenge_def terminal_def)
next
  case (life_next es c e tm)
  then show ?case
    by (cases e) (auto simp: life_ok_def terminal_def split: if_splits)
qed

text \<open>A challenge that follows its life cycle ends, and ends once: at most two events
  follow its creation; stake, sides, match and creator never change; the opponent is someone
  other than the creator and is recorded exactly from acceptance on; a winner is recorded
  exactly when it is settled and is one of the two players; and no event is possible from a
  settled, void or cancelled challenge.\<close>

theorem challenge_life_cycle:
  assumes "life p es c"
  shows "life_ok p c \<and> length es \<le> 2 \<and> (terminal (cw_status c) \<longrightarrow> (\<forall>e. \<not> life_step c e))"
  using life_invariant[OF assms] life_terminal by blast

definition sample_challenge :: challenge_created where
  "sample_challenge = \<lparr>cc_challengeId = ''h1'', cc_matchId = ''m1'', cc_creator = ''ann'',
     cc_creatorSide = HOME, cc_opponentSide = AWAY, cc_stake = 100\<rparr>"

theorem challenge_life_cycle_witness:
  "\<exists>c. life sample_challenge [ChallengeAccepted ''h1'' ''bob'', ChallengeVoided ''h1'' DRAW ''nobody''] c \<and>
     cw_status c = C_VOID \<and> (\<forall>e. \<not> life_step c e)"
proof -
  let ?c0 = "new_challenge 1 sample_challenge"
  let ?c1 = "challenge_step 2 (ChallengeAccepted ''h1'' ''bob'') ?c0"
  let ?c2 = "challenge_step 3 (ChallengeVoided ''h1'' DRAW ''nobody'') ?c1"
  have "life sample_challenge ([] @ [ChallengeAccepted ''h1'' ''bob'']) ?c1"
    by (rule life_next[OF life_new]) (simp add: new_challenge_def sample_challenge_def)
  from life_next[OF this, of "ChallengeVoided ''h1'' DRAW ''nobody''" 3]
  have l: "life sample_challenge [ChallengeAccepted ''h1'' ''bob'', ChallengeVoided ''h1'' DRAW ''nobody''] ?c2"
    by simp
  moreover have "cw_status ?c2 = C_VOID" by simp
  ultimately show ?thesis using challenge_life_cycle[OF l] by (auto simp: terminal_def)
qed

end
