(* ===== verification/Ledgers.thy ===== *)
theory Ledgers
  imports Projection
begin

text \<open>
  Two per-player ledgers folded from the log: the settled calls
  (\<open>src/core/projections/SettledCallsProjection.ts\<close>), which join a call with its result and the
  final score, newest first, and the chat transcript (\<open>ChatProjection.ts\<close>), oldest first.
\<close>

section \<open>Settled calls\<close>

datatype settled_result = R_WON | R_LOST | R_VOID

record settled_call =
  sv_callId :: call_id
  sv_matchId :: match_id
  sv_marketId :: market_id
  sv_bucket :: bucket
  sv_result :: settled_result
  sv_stake :: frost
  sv_payout :: frost
  sv_pnlDelta :: frost
  sv_grDelta :: int
  sv_difficulty :: num
  sv_score :: "score option"
  sv_at :: int

record open_ref =
  or_wallet :: wallet
  or_matchId :: match_id
  or_marketId :: market_id
  or_bucket :: bucket
  or_stake :: frost

record settled_state =
  st_byWallet :: "(wallet, settled_call list) jmap"
  st_open :: "(call_id, open_ref) jmap"
  st_scores :: "(match_id, score) jmap"

definition settled_empty :: settled_state where
  "settled_empty = \<lparr>st_byWallet = [], st_open = [], st_scores = []\<rparr>"

text \<open>The long dash shown for an unknown bucket, as its three bytes.\<close>

definition DASH :: bucket where
  "DASH = [CHR 0xE2, CHR 0x80, CHR 0x94]"

definition jm_list :: "('k, 'v list) jmap \<Rightarrow> 'k \<Rightarrow> 'v list" where
  "jm_list m k = (case jm_get m k of None \<Rightarrow> [] | Some xs \<Rightarrow> xs)"

lemma jm_list_set [simp]: "jm_list (jm_set k xs m) j = (if j = k then xs else jm_list m j)"
  by (simp add: jm_list_def)

definition settled_record :: "wallet \<Rightarrow> settled_call \<Rightarrow> settled_state \<Rightarrow> settled_state" where
  "settled_record w v s = s\<lparr>st_byWallet := jm_set w (v # jm_list (st_byWallet s) w) (st_byWallet s)\<rparr>"

definition settled_view :: "int \<Rightarrow> call_settled \<Rightarrow> settled_state \<Rightarrow> settled_call" where
  "settled_view tm p s = \<lparr>sv_callId = cs_callId p, sv_matchId = cs_matchId p, sv_marketId = cs_marketId p,
     sv_bucket = (case jm_get (st_open s) (cs_callId p) of None \<Rightarrow> DASH | Some r \<Rightarrow> or_bucket r),
     sv_result = (if cs_result p = WON then R_WON else R_LOST), sv_stake = cs_stake p,
     sv_payout = cs_payout p, sv_pnlDelta = cs_pnlDelta p, sv_grDelta = cs_grDelta p,
     sv_difficulty = cs_difficulty p, sv_score = jm_get (st_scores s) (cs_matchId p), sv_at = tm\<rparr>"

definition voided_view :: "int \<Rightarrow> call_voided \<Rightarrow> settled_state \<Rightarrow> settled_call" where
  "voided_view tm p s = \<lparr>sv_callId = cv_callId p, sv_matchId = cv_matchId p, sv_marketId = cv_marketId p,
     sv_bucket = (case jm_get (st_open s) (cv_callId p) of None \<Rightarrow> DASH | Some r \<Rightarrow> or_bucket r),
     sv_result = R_VOID,
     sv_stake = (case jm_get (st_open s) (cv_callId p) of None \<Rightarrow> cv_refund p | Some r \<Rightarrow> or_stake r),
     sv_payout = cv_refund p, sv_pnlDelta = 0, sv_grDelta = 0,
     sv_difficulty = 0, sv_score = jm_get (st_scores s) (cv_matchId p), sv_at = tm\<rparr>"

definition settled_apply :: "stored_event \<Rightarrow> settled_state \<Rightarrow> settled_state" where
  "settled_apply e s =
     (case ev_payload e of
        MatchE (MatchResolved r) \<Rightarrow> s\<lparr>st_scores := jm_set (mr_matchId r) (mr_score r) (st_scores s)\<rparr>
      | PlayerE (CallMade p) \<Rightarrow>
          (case streamWallet (ev_streamId e) of
             None \<Rightarrow> s
           | Some w \<Rightarrow> s\<lparr>st_open := jm_set (cm_callId p)
               \<lparr>or_wallet = w, or_matchId = cm_matchId p, or_marketId = cm_marketId p,
                or_bucket = cm_bucket p, or_stake = cm_stake p\<rparr> (st_open s)\<rparr>)
      | PlayerE (CallSettled p) \<Rightarrow>
          (case streamWallet (ev_streamId e) of
             None \<Rightarrow> s
           | Some w \<Rightarrow> (settled_record w (settled_view (ev_at e) p s) s)
               \<lparr>st_open := jm_del (cs_callId p) (st_open s)\<rparr>)
      | PlayerE (CallVoided p) \<Rightarrow>
          (case streamWallet (ev_streamId e) of
             None \<Rightarrow> s
           | Some w \<Rightarrow> (settled_record w (voided_view (ev_at e) p s) s)
               \<lparr>st_open := jm_del (cv_callId p) (st_open s)\<rparr>)
      | _ \<Rightarrow> s)"

definition settled_get :: "settled_state \<Rightarrow> wallet \<Rightarrow> nat \<Rightarrow> settled_call list" where
  "settled_get s w limit = take limit (jm_list (st_byWallet s) w)"

definition settled_reads :: "stored_event \<Rightarrow> bool" where
  "settled_reads e \<longleftrightarrow>
     (case ev_payload e of
        MatchE (MatchResolved _) \<Rightarrow> True
      | PlayerE (CallMade _) \<Rightarrow> True | PlayerE (CallSettled _) \<Rightarrow> True | PlayerE (CallVoided _) \<Rightarrow> True
      | _ \<Rightarrow> False)"

interpretation settled: projection settled_apply settled_reads
proof
  fix e s
  assume "\<not> settled_reads e"
  then show "settled_apply e s = s"
    by (auto simp: settled_reads_def settled_apply_def
        split: domain_event.splits match_event.splits player_event.splits)
qed

text \<open>What a wallet's ledger gains from an event: one line for a settled or voided call on
  the wallet's own stream, at the front, and nothing otherwise.\<close>

lemma settled_apply_list:
  "jm_list (st_byWallet (settled_apply e s)) w =
    (case ev_payload e of
       PlayerE (CallSettled p) \<Rightarrow> (if streamWallet (ev_streamId e) = Some w
         then settled_view (ev_at e) p s # jm_list (st_byWallet s) w else jm_list (st_byWallet s) w)
     | PlayerE (CallVoided p) \<Rightarrow> (if streamWallet (ev_streamId e) = Some w
         then voided_view (ev_at e) p s # jm_list (st_byWallet s) w else jm_list (st_byWallet s) w)
     | _ \<Rightarrow> jm_list (st_byWallet s) w)"
  by (auto simp: settled_apply_def settled_record_def
      split: domain_event.split match_event.split player_event.split option.split)

section \<open>Chat\<close>

record chat_entry =
  ch_message :: string
  ch_reply :: string
  ch_at :: int

type_synonym chat_state = "(wallet, chat_entry list) jmap"

definition chat_apply :: "stored_event \<Rightarrow> chat_state \<Rightarrow> chat_state" where
  "chat_apply e s =
     (case ev_payload e of
        PlayerE (ChatExchanged msg reply) \<Rightarrow>
          (case streamWallet (ev_streamId e) of
             None \<Rightarrow> s
           | Some w \<Rightarrow> jm_set w (jm_list s w @ [\<lparr>ch_message = msg, ch_reply = reply, ch_at = ev_at e\<rparr>]) s)
      | _ \<Rightarrow> s)"

text \<open>\<open>slice(-limit)\<close>, which for a limit of 0 is the whole list.\<close>

definition chat_get :: "chat_state \<Rightarrow> wallet \<Rightarrow> nat \<Rightarrow> chat_entry list" where
  "chat_get s w limit = (if limit = 0 then jm_list s w else take_last limit (jm_list s w))"

definition chat_owner :: "stored_event \<Rightarrow> wallet option" where
  "chat_owner e = (case ev_payload e of PlayerE (ChatExchanged _ _) \<Rightarrow> streamWallet (ev_streamId e) | _ \<Rightarrow> None)"

lemma chat_apply_owner:
  "chat_apply e s = (case chat_owner e of None \<Rightarrow> s | Some w \<Rightarrow>
     (case ev_payload e of PlayerE (ChatExchanged msg reply) \<Rightarrow>
        jm_set w (jm_list s w @ [\<lparr>ch_message = msg, ch_reply = reply, ch_at = ev_at e\<rparr>]) s | _ \<Rightarrow> s))"
  by (auto simp: chat_apply_def chat_owner_def
      split: domain_event.split match_event.split player_event.split option.split)

interpretation chat: keyed_projection chat_apply "\<lambda>e. chat_owner e \<noteq> None" jm_get chat_owner
proof
  fix e s
  assume "\<not> chat_owner e \<noteq> None"
  then show "chat_apply e s = s" by (simp add: chat_apply_owner)
next
  fix e :: stored_event and k and s :: chat_state
  assume "chat_owner e \<noteq> Some k"
  then show "jm_get (chat_apply e s) k = jm_get s k"
    by (auto simp: chat_apply_owner split: option.split domain_event.split player_event.split)
next
  fix s t :: chat_state and k e
  assume "jm_get s k = jm_get t k"
  then have "jm_list s k = jm_list t k" "jm_get s k = jm_get t k" by (simp_all add: jm_list_def)
  then show "jm_get (chat_apply e s) k = jm_get (chat_apply e t) k"
    by (cases "chat_owner e = Some k")
      (simp_all add: chat_apply_owner split: option.split domain_event.split player_event.split)
qed

end
