(* ===== verification/ReadModel.thy ===== *)
theory ReadModel
  imports Dossier Pots Challenges Ledgers
begin

text \<open>
  The query side (\<open>src/core/projections/ReadModel.ts\<close>): every projection folded together, with
  the Manager's Pot and the house revenue as running totals, and the two leaderboards. The
  lemmas show that each projection sees its own events, what the totals sum, that a player's
  file does not depend on how the streams interleave, that the results ledger reconciles
  with the file, and which players a leaderboard lists.
\<close>

section \<open>State\<close>

record read_model =
  rm_dossier :: dossiers
  rm_pots :: pots
  rm_settled :: settled_state
  rm_chat :: chat_state
  rm_challenges :: challenges
  rm_managersPot :: frost
  rm_houseRevenue :: frost

definition rm_empty :: read_model where
  "rm_empty = \<lparr>rm_dossier = [], rm_pots = [], rm_settled = settled_empty, rm_chat = [],
     rm_challenges = [], rm_managersPot = 0, rm_houseRevenue = 0\<rparr>"

text \<open>What an event adds to the Manager's Pot and to the house revenue.\<close>

fun rake_of_event :: "domain_event \<Rightarrow> frost" where
  "rake_of_event (MatchE (PotSettled p)) = ps_rake p"
| "rake_of_event (ChallengeE (ChallengeSettled p)) = ct_rake p"
| "rake_of_event _ = 0"

definition fee_or_zero :: "frost option \<Rightarrow> frost" where
  "fee_or_zero fee = (case fee of None \<Rightarrow> 0 | Some f \<Rightarrow> f)"

fun fee_of_event :: "domain_event \<Rightarrow> frost" where
  "fee_of_event (PlayerE (Withdrawn _ fee _)) = fee_or_zero fee"
| "fee_of_event (PlayerE (WithdrawalSettled _ _ fee _)) = fee_or_zero fee"
| "fee_of_event _ = 0"

definition rm_apply :: "stored_event \<Rightarrow> read_model \<Rightarrow> read_model" where
  "rm_apply e rm =
     \<lparr>rm_dossier = dossier_apply e (rm_dossier rm), rm_pots = pot_apply e (rm_pots rm),
      rm_settled = settled_apply e (rm_settled rm), rm_chat = chat_apply e (rm_chat rm),
      rm_challenges = challenge_apply e (rm_challenges rm),
      rm_managersPot = rm_managersPot rm + rake_of_event (ev_payload e),
      rm_houseRevenue = rm_houseRevenue rm + fee_of_event (ev_payload e)\<rparr>"

definition hydrate :: "stored_event list \<Rightarrow> read_model" where
  "hydrate lg = fold rm_apply lg rm_empty"

section \<open>Queries\<close>

definition managersPotTotal :: "read_model \<Rightarrow> frost" where
  "managersPotTotal rm = rm_managersPot rm"

definition houseRevenueTotal :: "read_model \<Rightarrow> frost" where
  "houseRevenueTotal rm = rm_houseRevenue rm"

record leaderboard_entry =
  lb_rank :: nat
  lb_wallet :: wallet
  lb_handle :: "string option"
  lb_gr :: int
  lb_tier :: tier
  lb_pnl :: frost
  lb_won :: nat
  lb_lost :: nat
  lb_voided :: nat
  lb_form :: form_state

definition toEntry :: "nat \<Rightarrow> dossier_view \<Rightarrow> leaderboard_entry" where
  "toEntry i d = \<lparr>lb_rank = i + 1, lb_wallet = dv_wallet d, lb_handle = dv_handle d, lb_gr = dv_gr d,
     lb_tier = dv_tier d, lb_pnl = dv_pnl d, lb_won = dv_won d, lb_lost = dv_lost d,
     lb_voided = dv_voided d, lb_form = dv_form d\<rparr>"

definition board :: "(dossier_view \<Rightarrow> int) \<Rightarrow> read_model \<Rightarrow> nat \<Rightarrow> leaderboard_entry list" where
  "board key rm limit = map (\<lambda>(i, d). toEntry i d) (enumerate 0 (take limit
     (sort_key (\<lambda>d. - key d) (filter (\<lambda>d. \<not> isHouseWallet (dv_wallet d)) (dossier_all (rm_dossier rm))))))"

definition leaderboardByGr :: "read_model \<Rightarrow> nat \<Rightarrow> leaderboard_entry list" where
  "leaderboardByGr rm limit = board dv_gr rm limit"

definition leaderboardByPnl :: "read_model \<Rightarrow> nat \<Rightarrow> leaderboard_entry list" where
  "leaderboardByPnl rm limit = board dv_pnl rm limit"

definition getDossier :: "read_model \<Rightarrow> wallet \<Rightarrow> dossier_view option" where
  "getDossier rm w = dossier_get (rm_dossier rm) w"

definition getChallenge :: "read_model \<Rightarrow> challenge_id \<Rightarrow> challenge_view option" where
  "getChallenge rm cid = challenge_get (rm_challenges rm) cid"

definition myChallenges :: "read_model \<Rightarrow> wallet \<Rightarrow> challenge_view list" where
  "myChallenges rm w = forWallet (rm_challenges rm) w"

definition settledCalls :: "read_model \<Rightarrow> wallet \<Rightarrow> nat \<Rightarrow> settled_call list" where
  "settledCalls rm w limit = settled_get (rm_settled rm) w limit"

definition chatHistory :: "read_model \<Rightarrow> wallet \<Rightarrow> nat \<Rightarrow> chat_entry list" where
  "chatHistory rm w limit = chat_get (rm_chat rm) w limit"

section \<open>The fold\<close>

interpretation rmodel: projection rm_apply "\<lambda>e. True"
  by unfold_locales simp

lemma hydrate_Nil [simp]: "hydrate [] = rm_empty"
  by (simp add: hydrate_def)

lemma hydrate_append: "hydrate (lg @ new) = fold rm_apply new (hydrate lg)"
  by (simp add: hydrate_def)

lemma rm_apply_fields [simp]:
  "rm_dossier (rm_apply e rm) = dossier_apply e (rm_dossier rm)"
  "rm_pots (rm_apply e rm) = pot_apply e (rm_pots rm)"
  "rm_settled (rm_apply e rm) = settled_apply e (rm_settled rm)"
  "rm_chat (rm_apply e rm) = chat_apply e (rm_chat rm)"
  "rm_challenges (rm_apply e rm) = challenge_apply e (rm_challenges rm)"
  "rm_managersPot (rm_apply e rm) = rm_managersPot rm + rake_of_event (ev_payload e)"
  "rm_houseRevenue (rm_apply e rm) = rm_houseRevenue rm + fee_of_event (ev_payload e)"
  by (simp_all add: rm_apply_def)

lemma fold_rm_fields:
  "rm_dossier (fold rm_apply lg rm) = fold dossier_apply lg (rm_dossier rm)"
  "rm_pots (fold rm_apply lg rm) = fold pot_apply lg (rm_pots rm)"
  "rm_settled (fold rm_apply lg rm) = fold settled_apply lg (rm_settled rm)"
  "rm_chat (fold rm_apply lg rm) = fold chat_apply lg (rm_chat rm)"
  "rm_challenges (fold rm_apply lg rm) = fold challenge_apply lg (rm_challenges rm)"
  "rm_managersPot (fold rm_apply lg rm) = rm_managersPot rm + (\<Sum>e\<leftarrow>lg. rake_of_event (ev_payload e))"
  "rm_houseRevenue (fold rm_apply lg rm) = rm_houseRevenue rm + (\<Sum>e\<leftarrow>lg. fee_of_event (ev_payload e))"
  by (induction lg arbitrary: rm; simp)+

lemma rm_empty_fields [simp]:
  "rm_dossier rm_empty = []" "rm_pots rm_empty = []" "rm_settled rm_empty = settled_empty"
  "rm_chat rm_empty = []" "rm_challenges rm_empty = []" "rm_managersPot rm_empty = 0"
  "rm_houseRevenue rm_empty = 0"
  by (simp_all add: rm_empty_def)

lemmas hydrate_fields = fold_rm_fields[of _ rm_empty, folded hydrate_def, simplified rm_empty_fields add_0]

section \<open>Order of the streams\<close>

text \<open>A player's file depends only on the player's own events, in their order. Two logs
  that interleave the streams differently but hold the same events of a wallet, in the same
  order, give that wallet the same file; so do a match's pots and a challenge, for their own
  events. This is what lets a restart rebuild the views from the store.\<close>

theorem views_follow_streams:
  assumes "filter (\<lambda>e. dossier_owner e = Some w) lg = filter (\<lambda>e. dossier_owner e = Some w) lg'"
    and "filter (\<lambda>e. pot_owner e = Some m) lg = filter (\<lambda>e. pot_owner e = Some m) lg'"
    and "filter (\<lambda>e. challenge_owner e = Some c) lg = filter (\<lambda>e. challenge_owner e = Some c) lg'"
  shows "getDossier (hydrate lg) w = getDossier (hydrate lg') w \<and>
    getMatch (rm_pots (hydrate lg)) m = getMatch (rm_pots (hydrate lg')) m \<and>
    getChallenge (hydrate lg) c = getChallenge (hydrate lg') c"
  using dossier.view_same_events[OF assms(1)] pot.view_same_events[OF assms(2)]
    challenge.view_same_events[OF assms(3)]
  by (simp add: getDossier_def dossier_get_def getMatch_def getChallenge_def challenge_get_def hydrate_fields)

definition sample_two_logs :: "stored_event list \<times> stored_event list" where
  "sample_two_logs =
    (let a = sample_event (playerStream ''ann'') 0 (PlayerE (PlayerSigned ''ann'' None));
         b = sample_event (playerStream ''bob'') 0 (PlayerE (PlayerSigned ''bob'' None));
         d = sample_event (playerStream ''ann'') 1 (PlayerE (Deposited 7 None))
     in ([a, d, b], [b, a, d]))"

theorem views_follow_streams_witness:
  "getDossier (hydrate (fst sample_two_logs)) ''ann'' = getDossier (hydrate (snd sample_two_logs)) ''ann'' \<and>
   map_option dv_balance (getDossier (hydrate (fst sample_two_logs)) ''ann'') = Some 7"
proof -
  have "filter (\<lambda>e. dossier_owner e = Some ''ann'') (fst sample_two_logs) =
      filter (\<lambda>e. dossier_owner e = Some ''ann'') (snd sample_two_logs)"
    "filter (\<lambda>e. pot_owner e = Some ''m'') (fst sample_two_logs) =
      filter (\<lambda>e. pot_owner e = Some ''m'') (snd sample_two_logs)"
    "filter (\<lambda>e. challenge_owner e = Some ''c'') (fst sample_two_logs) =
      filter (\<lambda>e. challenge_owner e = Some ''c'') (snd sample_two_logs)" by code_simp+
  note same = views_follow_streams[OF this]
  have "map_option dv_balance (getDossier (hydrate (fst sample_two_logs)) ''ann'') = Some 7" by code_simp
  with same show ?thesis by simp
qed

section \<open>The results ledger\<close>

text \<open>A log in which a wallet's first event is its signing, as the actor guards it.\<close>

definition signed_before :: "dossiers \<Rightarrow> stored_event \<Rightarrow> bool" where
  "signed_before ds e \<longleftrightarrow>
     (case ev_payload e of
        PlayerE p \<Rightarrow> is_signing p \<or>
          (case streamWallet (ev_streamId e) of None \<Rightarrow> False | Some w \<Rightarrow> jm_get ds w \<noteq> None)
      | _ \<Rightarrow> True)"

fun signed_log :: "dossiers \<Rightarrow> stored_event list \<Rightarrow> bool" where
  "signed_log ds [] \<longleftrightarrow> True"
| "signed_log ds (e # lg) \<longleftrightarrow> signed_before ds e \<and> signed_log (dossier_apply e ds) lg"

definition ledger_of :: "settled_state \<Rightarrow> wallet \<Rightarrow> settled_call list" where
  "ledger_of s w = jm_list (st_byWallet s) w"

definition count_result :: "settled_result \<Rightarrow> settled_call list \<Rightarrow> nat" where
  "count_result r vs = length (filter (\<lambda>v. sv_result v = r) vs)"

text \<open>The ledger agrees with a file, or is empty where there is none.\<close>

definition ledger_agrees :: "settled_call list \<Rightarrow> dossier_state option \<Rightarrow> bool" where
  "ledger_agrees vs d \<longleftrightarrow>
     (case d of
        None \<Rightarrow> vs = []
      | Some s \<Rightarrow> ds_gr s = BASE_GR + (\<Sum>v\<leftarrow>vs. sv_grDelta v) \<and>
          ds_won s = count_result R_WON vs \<and> ds_lost s = count_result R_LOST vs \<and>
          ds_voided s = count_result R_VOID vs)"

lemma ledger_agrees_step:
  assumes "\<And>w. ledger_agrees (ledger_of st w) (jm_get ds w)" and "signed_before ds e"
  shows "ledger_agrees (ledger_of (settled_apply e st) w) (jm_get (dossier_apply e ds) w)"
proof (cases "ev_payload e")
  case (PlayerE p)
  show ?thesis
  proof (cases "is_signing p")
    case True
    then obtain v h where p: "p = PlayerSigned v h" by (auto simp: is_signing_iff)
    have "ledger_of (settled_apply e st) w = ledger_of st w"
      using PlayerE p by (simp add: ledger_of_def settled_apply_def)
    moreover have "ledger_agrees [] (Some (new_dossier w h (ev_at e)))"
      by (simp add: ledger_agrees_def new_dossier_def count_result_def)
    ultimately show ?thesis using PlayerE p assms(1)[of w]
      by (auto simp: dossier_apply_get dossier_owner_def ledger_agrees_def split: option.splits)
  next
    case False
    then obtain u s where u: "streamWallet (ev_streamId e) = Some u" "jm_get ds u = Some s"
      using assms(2) PlayerE by (auto simp: signed_before_def split: option.splits)
    have d: "dossier_apply e ds = jm_set u (dossier_step (ev_at e) p s) ds"
      unfolding dossier_apply_step[OF PlayerE False] using u by simp
    show ?thesis
    proof (cases "u = w")
      case True
      with u assms(1)[of w] PlayerE False d show ?thesis
        by (cases p) (auto simp: ledger_of_def settled_apply_list ledger_agrees_def count_result_def
            settled_view_def voided_view_def settle_call_step_def lock_funds_def Let_def is_signing_def
            split: option.splits call_result.splits)
    next
      case other: False
      with u PlayerE have "ledger_of (settled_apply e st) w = ledger_of st w"
        by (cases p) (simp_all add: ledger_of_def settled_apply_list)
      with other u d assms(1)[of w] show ?thesis by simp
    qed
  qed
next
  case (MatchE m)
  with assms(1)[of w] show ?thesis by (simp add: dossier_apply_other ledger_of_def settled_apply_list)
next
  case (ChallengeE c)
  with assms(1)[of w] show ?thesis by (simp add: dossier_apply_other ledger_of_def settled_apply_list)
qed

lemma ledger_agrees_fold:
  assumes "signed_log ds lg" and "\<And>w. ledger_agrees (ledger_of st w) (jm_get ds w)"
  shows "ledger_agrees (ledger_of (fold settled_apply lg st) w) (jm_get (fold dossier_apply lg ds) w)"
  using assms
proof (induction lg arbitrary: ds st)
  case (Cons e lg)
  have "ledger_agrees (ledger_of (fold settled_apply lg (settled_apply e st)) w)
      (jm_get (fold dossier_apply lg (dossier_apply e ds)) w)"
    using Cons.prems by (intro Cons.IH ledger_agrees_step) simp_all
  then show ?case by simp
qed simp

text \<open>The results screen reconciles with the player's file. After any log in which players
  sign before they play, the settled calls listed for a wallet carry rating changes that sum,
  from the base, to the rating of its file, and as many wins, losses and voids as the file's
  record shows.\<close>

theorem results_reconcile:
  assumes "signed_log [] lg" and "jm_get (rm_dossier (hydrate lg)) w = Some s"
  defines "vs \<equiv> ledger_of (rm_settled (hydrate lg)) w"
  shows "ds_gr s = BASE_GR + (\<Sum>v\<leftarrow>vs. sv_grDelta v) \<and> ds_won s = count_result R_WON vs \<and>
    ds_lost s = count_result R_LOST vs \<and> ds_voided s = count_result R_VOID vs"
  using ledger_agrees_fold[OF assms(1), of settled_empty w] assms(2)
  by (simp add: vs_def hydrate_fields ledger_agrees_def ledger_of_def settled_empty_def jm_list_def)

definition sample_results_log :: "stored_event list" where
  "sample_results_log =
    [sample_event (playerStream ''ann'') 0 (PlayerE (PlayerSigned ''ann'' None)),
     sample_event (playerStream ''ann'') 1 (PlayerE (Deposited 90 None)),
     sample_event (playerStream ''ann'') 2 (PlayerE (CallMade (sample_call ''c1'' HOME 30))),
     sample_event (playerStream ''ann'') 3 (PlayerE (CallSettled \<lparr>cs_callId = ''c1'', cs_matchId = ''m1'',
       cs_marketId = RESULT_MARKET, cs_result = WON, cs_stake = 30, cs_payout = 50, cs_pnlDelta = 20,
       cs_grDelta = 27, cs_difficulty = 2 / 3\<rparr>))]"

theorem results_reconcile_witness:
  "\<exists>s. jm_get (rm_dossier (hydrate sample_results_log)) ''ann'' = Some s \<and> ds_gr s = BASE_GR + 27 \<and> ds_won s = 1"
proof -
  have ok: "signed_log [] sample_results_log" by code_simp
  have "jm_get (rm_dossier (hydrate sample_results_log)) ''ann'' \<noteq> None" by code_simp
  then obtain s where s: "jm_get (rm_dossier (hydrate sample_results_log)) ''ann'' = Some s" by blast
  have "(\<Sum>v\<leftarrow>ledger_of (rm_settled (hydrate sample_results_log)) ''ann''. sv_grDelta v) = 27"
    "count_result R_WON (ledger_of (rm_settled (hydrate sample_results_log)) ''ann'') = 1" by code_simp+
  with results_reconcile[OF ok s] s show ?thesis by simp
qed

section \<open>The leaderboards\<close>

lemma board_nth:
  "i < length (board key rm limit) \<Longrightarrow>
    board key rm limit ! i = toEntry i (take limit (sort_key (\<lambda>d. - key d)
      (filter (\<lambda>d. \<not> isHouseWallet (dv_wallet d)) (dossier_all (rm_dossier rm)))) ! i)"
  by (simp add: board_def nth_enumerate_eq split: prod.split)

lemma sorted_take_rest:
  assumes "sorted (map f xs)" "x \<in> set xs" "x \<notin> set (take n xs)" "y \<in> set (take n xs)"
  shows "f y \<le> f x"
proof -
  have "set xs = set (take n xs) \<union> set (drop n xs)"
    by (metis append_take_drop_id set_append)
  with assms(2,3) have x: "x \<in> set (drop n xs)" by blast
  have "sorted (map f (take n xs) @ map f (drop n xs))"
    by (metis append_take_drop_id assms(1) map_append)
  then show ?thesis using x assms(4) by (auto simp: sorted_append)
qed

text \<open>The squad ladder lists the best players by rating. Its entries carry the ranks 1, 2,
  3 and so on, there are at most as many as asked for and as many as there are players, the
  ratings never increase down the list, house bots are never listed, and a player who is not
  listed is rated no higher than any who is.\<close>

theorem ladder_lists_best:
  defines "players \<equiv> (\<lambda>rm. filter (\<lambda>d. \<not> isHouseWallet (dv_wallet d)) (dossier_all (rm_dossier rm)))"
  defines "listed \<equiv> (\<lambda>rm limit. take limit (sort_key (\<lambda>d. - dv_gr d) (players rm)))"
  shows "length (leaderboardByGr rm limit) = min limit (length (players rm)) \<and>
    map lb_rank (leaderboardByGr rm limit) = [1..<Suc (length (leaderboardByGr rm limit))] \<and>
    sorted (rev (map lb_gr (leaderboardByGr rm limit))) \<and>
    map lb_wallet (leaderboardByGr rm limit) = map dv_wallet (listed rm limit) \<and>
    list_all (\<lambda>e. \<not> isHouseWallet (lb_wallet e)) (leaderboardByGr rm limit) \<and>
    list_all (\<lambda>d. d \<in> set (listed rm limit) \<or> list_all (\<lambda>e. dv_gr d \<le> lb_gr e) (leaderboardByGr rm limit))
      (players rm)"
proof -
  let ?xs = "sort_key (\<lambda>d. - dv_gr d) (players rm)" and ?L = "leaderboardByGr rm limit"
  have L: "?L = map (\<lambda>(i, d). toEntry i d) (enumerate 0 (take limit ?xs))"
    by (simp add: leaderboardByGr_def board_def players_def)
  have proj: "map f ?L = map g (take limit ?xs)" if "\<And>i d. f (toEntry i d) = g d" for f :: "leaderboard_entry \<Rightarrow> 'x" and g
    unfolding L by (rule nth_equalityI) (simp_all add: that nth_enumerate_eq)
  have gr: "map lb_gr ?L = map dv_gr (take limit ?xs)" by (rule proj) (simp add: toEntry_def)
  have wa: "map lb_wallet ?L = map dv_wallet (take limit ?xs)" by (rule proj) (simp add: toEntry_def)
  have len: "length ?L = min limit (length (players rm))" by (simp add: L)
  have rank: "map lb_rank ?L = [1..<Suc (length ?L)]"
    unfolding L by (rule nth_equalityI) (simp_all add: nth_enumerate_eq toEntry_def del: upt_Suc)
  have srt: "sorted (map (\<lambda>d. - dv_gr d) ?xs)" by simp
  have "sorted (map (\<lambda>d. - dv_gr d) (take limit ?xs))" using sorted_wrt_take[OF srt, of limit] by (simp add: take_map)
  then have "sorted_wrt (\<ge>) (map dv_gr (take limit ?xs))" by (simp add: sorted_wrt_map)
  then have desc: "sorted (rev (map lb_gr ?L))" by (simp only: gr sorted_wrt_rev)
  have pl: "\<not> isHouseWallet (dv_wallet d)" if "d \<in> set (take limit ?xs)" for d
    using in_set_takeD[OF that] by (simp add: players_def)
  have house: "list_all (\<lambda>e. \<not> isHouseWallet (lb_wallet e)) ?L"
  proof -
    have "\<forall>w \<in> set (map lb_wallet ?L). \<not> isHouseWallet w" unfolding wa using pl by auto
    then show ?thesis by (simp add: list_all_iff)
  qed
  have best: "d \<in> set (take limit ?xs) \<or> (\<forall>e \<in> set ?L. dv_gr d \<le> lb_gr e)" if "d \<in> set (players rm)" for d
  proof (rule disjCI)
    assume far: "\<not> (\<forall>e \<in> set ?L. dv_gr d \<le> lb_gr e)"
    then obtain g where "g \<in> set (map lb_gr ?L)" "g < dv_gr d" by (auto simp: not_le)
    then obtain y where "y \<in> set (take limit ?xs)" "dv_gr y < dv_gr d" unfolding gr by auto
    then show "d \<in> set (take limit ?xs)"
      using sorted_take_rest[OF srt, of d limit y] that by force
  qed
  show ?thesis using len rank desc wa house best by (simp add: listed_def list_all_iff)
qed

end
