(* ===== verification/World.thy ===== *)
theory World
  imports ReadModel
begin

text \<open>
  The state the write side works on: the event log with its read model, the versions the
  writers remember (one per player actor, \<open>ActorRegistry.ts\<close>; one per match and challenge
  stream, \<open>Engine.ts\<close>), the clock and the identifiers drawn so far; and the configuration
  (\<open>src/config.ts\<close>). An operation is a function from a world to a result, either a failure or
  a value, and the world it leaves. Appending writes the log and folds the stored events into
  the read model, as the store's subscription does.
\<close>

section \<open>Configuration\<close>

record bucket_spec =
  bk_capacity :: num
  bk_refillMs :: num

record rate_limit_config =
  rl_chat :: bucket_spec
  rl_verdict :: bucket_spec
  rl_preBetRead :: bucket_spec
  rl_globalDailyCap :: nat

record house_config =
  hc_enabled :: bool
  hc_botCount :: nat
  hc_seedStake :: frost
  hc_bankrollPerBot :: frost
  hc_liquidityCap :: frost

record game_config =
  gc_rakeBps :: num
  gc_minParticipants :: nat
  gc_minStake :: frost
  gc_welcomeGrant :: frost
  gc_withdrawFeeBps :: int
  gc_withdrawFeeMin :: frost
  gc_rateLimits :: rate_limit_config
  gc_house :: house_config

text \<open>The game configuration of an empty environment.\<close>

definition default_config :: game_config where
  "default_config = \<lparr>gc_rakeBps = 250, gc_minParticipants = 3, gc_minStake = 1000000,
     gc_welcomeGrant = 50000000, gc_withdrawFeeBps = 200, gc_withdrawFeeMin = 50000,
     gc_rateLimits = \<lparr>rl_chat = \<lparr>bk_capacity = 5, bk_refillMs = 60000\<rparr>,
       rl_verdict = \<lparr>bk_capacity = 2, bk_refillMs = 300000\<rparr>,
       rl_preBetRead = \<lparr>bk_capacity = 10, bk_refillMs = 15000\<rparr>, rl_globalDailyCap = 3000\<rparr>,
     gc_house = \<lparr>hc_enabled = True, hc_botCount = 3, hc_seedStake = 1000000,
       hc_bankrollPerBot = 10000000, hc_liquidityCap = 30000000\<rparr>\<rparr>"

text \<open>A configuration the guarantees need: a positive minimum stake, a rake between none and
  all of the losers' pool, and fees and house money that are not negative.\<close>

definition config_ok :: "game_config \<Rightarrow> bool" where
  "config_ok cfg \<longleftrightarrow> 0 < gc_minStake cfg \<and> rake_ok (gc_rakeBps cfg) \<and> 0 \<le> gc_withdrawFeeBps cfg \<and>
     0 \<le> gc_withdrawFeeMin cfg \<and> 0 \<le> hc_bankrollPerBot (gc_house cfg) \<and> 0 \<le> hc_liquidityCap (gc_house cfg)"

lemma default_config_ok: "config_ok default_config"
  by (simp add: config_ok_def default_config_def rake_ok_def)

section \<open>The world\<close>

text \<open>Besides what the process keeps, the world has the list of the payments asked of custody so far,
  each with the log as it was at that moment: the effect on the outside that \<open>withdraw\<close> has between its
  two writes.\<close>

record world =
  w_log :: "stored_event list"
  w_rm :: read_model
  w_actors :: "(wallet, nat) jmap"
  w_matchVersions :: "(match_id, nat) jmap"
  w_challengeVersions :: "(challenge_id, nat) jmap"
  w_drawn :: nat
  w_now :: int
  w_payments :: "(stored_event list \<times> wallet \<times> frost) list"

type_synonym uuids = "nat \<Rightarrow> string"
type_synonym 'a outcome_of = "(failure + 'a) \<times> world"

text \<open>A process booted on a log: the read model is rebuilt, no writer has a version yet.\<close>

definition boot :: "stored_event list \<Rightarrow> nat \<Rightarrow> int \<Rightarrow> world" where
  "boot lg drawn now = \<lparr>w_log = lg, w_rm = hydrate lg, w_actors = [], w_matchVersions = [],
     w_challengeVersions = [], w_drawn = drawn, w_now = now, w_payments = []\<rparr>"

definition draw_id :: "uuids \<Rightarrow> string \<Rightarrow> world \<Rightarrow> string \<times> world" where
  "draw_id uuid prefix w = (newId prefix (uuid (w_drawn w)), w\<lparr>w_drawn := w_drawn w + 1\<rparr>)"

definition store_append :: "uuids \<Rightarrow> string \<Rightarrow> domain_event list \<Rightarrow> nat \<Rightarrow> world \<Rightarrow> failure + world" where
  "store_append uuid s es v w =
     (case log_append (\<lambda>i. newId ''evt'' (uuid (w_drawn w + i))) (w_now w) (w_log w) s es (Some v) of
        Inl f \<Rightarrow> Inl f
      | Inr (stored, lg) \<Rightarrow> Inr (w\<lparr>w_log := lg, w_rm := fold rm_apply stored (w_rm w),
          w_drawn := w_drawn w + length es\<rparr>))"

text \<open>The next step on success, none on failure.\<close>

fun and_then :: "'a outcome_of \<Rightarrow> ('a \<Rightarrow> world \<Rightarrow> 'b outcome_of) \<Rightarrow> 'b outcome_of" where
  "and_then (Inl f, w) k = (Inl f, w)"
| "and_then (Inr x, w) k = k x w"

text \<open>Run a list of operations for their effects, one after the other, stopping at a failure.\<close>

fun run_seq :: "('a \<Rightarrow> world \<Rightarrow> unit outcome_of) \<Rightarrow> 'a list \<Rightarrow> world \<Rightarrow> unit outcome_of" where
  "run_seq f [] w = (Inr (), w)"
| "run_seq f (x # xs) w = and_then (f x w) (\<lambda>_. run_seq f xs)"

section \<open>Well-formed logs\<close>

text \<open>Each event is on the stream of its kind, a player's events on the player's own.\<close>

definition event_placed :: "string \<Rightarrow> domain_event \<Rightarrow> bool" where
  "event_placed s p \<longleftrightarrow>
     (case p of
        PlayerE q \<Rightarrow> (case streamWallet s of None \<Rightarrow> False
          | Some w \<Rightarrow> plain_wallet w \<and> (case q of PlayerSigned v _ \<Rightarrow> v = w | _ \<Rightarrow> True))
      | MatchE _ \<Rightarrow> streamWallet s = None
      | ChallengeE _ \<Rightarrow> True)"

definition call_drawn :: "uuids \<Rightarrow> nat \<Rightarrow> call_id \<Rightarrow> bool" where
  "call_drawn uuid n k \<longleftrightarrow> (\<exists>i < n. k = newId ''call'' (uuid i))"

lemma call_drawn_mono: "call_drawn uuid n k \<Longrightarrow> n \<le> m \<Longrightarrow> call_drawn uuid m k"
  unfolding call_drawn_def using less_le_trans by blast

lemma call_drawn_fresh: "inj uuid \<Longrightarrow> \<not> call_drawn uuid n (newId ''call'' (uuid n))"
  by (auto simp: call_drawn_def newId_def dest: injD)

text \<open>A player event that may be appended to the file it names.\<close>

definition admissible :: "uuids \<Rightarrow> nat \<Rightarrow> string \<Rightarrow> domain_event \<Rightarrow> dossiers \<Rightarrow> bool" where
  "admissible uuid n s p ds \<longleftrightarrow>
     (case p of
        PlayerE q \<Rightarrow> is_signing q \<or>
          (case streamWallet s of None \<Rightarrow> False | Some w \<Rightarrow>
            (case jm_get ds w of None \<Rightarrow> False | Some d \<Rightarrow>
               event_valid q d \<and> (case q of CallMade c \<Rightarrow> call_drawn uuid n (cm_callId c) | _ \<Rightarrow> True)))
      | _ \<Rightarrow> True)"

definition file_ok :: "uuids \<Rightarrow> nat \<Rightarrow> wallet \<Rightarrow> dossier_state \<Rightarrow> bool" where
  "file_ok uuid n w d \<longleftrightarrow> ds_wallet d = w \<and> dossier_ok d \<and> record_ok d \<and>
     jm_all (\<lambda>k c. call_drawn uuid n k) (ds_openCalls d)"

definition log_ok :: "uuids \<Rightarrow> nat \<Rightarrow> stored_event list \<Rightarrow> bool" where
  "log_ok uuid n lg \<longleftrightarrow> versions_ok lg \<and> list_all (\<lambda>e. event_placed (ev_streamId e) (ev_payload e)) lg \<and>
     signed_log [] lg \<and> jm_wf (rm_dossier (hydrate lg)) \<and> jm_all (file_ok uuid n) (rm_dossier (hydrate lg))"

lemma file_ok_mono: "file_ok uuid n w d \<Longrightarrow> n \<le> m \<Longrightarrow> file_ok uuid m w d"
  by (auto simp: file_ok_def elim: jm_all_mono call_drawn_mono)

lemma log_ok_mono: "log_ok uuid n lg \<Longrightarrow> n \<le> m \<Longrightarrow> log_ok uuid m lg"
  by (auto simp: log_ok_def elim: jm_all_mono file_ok_mono)

lemma log_ok_Nil: "log_ok uuid n []"
  by (simp add: log_ok_def versions_ok_def)

lemma file_ok_new: "file_ok uuid n w (new_dossier w h tm)"
  by (simp add: file_ok_def dossier_ok_new record_ok_def) (simp add: new_dossier_def)

lemma dossier_step_wallet: "ds_wallet (dossier_step tm p s) = ds_wallet s"
  by (cases p) (simp_all add: settle_call_step_def lock_funds_def Let_def split: option.split)

lemma file_ok_step:
  assumes "file_ok uuid n w d" "event_valid p d" "\<And>c. p = CallMade c \<Longrightarrow> call_drawn uuid n (cm_callId c)"
  shows "file_ok uuid n w (dossier_step tm p d)"
proof -
  have "jm_all (\<lambda>k c. call_drawn uuid n k) (ds_openCalls (dossier_step tm p d))"
    using assms(1,3) by (cases p) (simp_all add: file_ok_def settle_call_step_def Let_def split: option.split)
  then show ?thesis using assms(1,2)
    by (simp add: file_ok_def dossier_step_wallet dossier_step_ok record_ok_step)
qed

lemma dossier_apply_wf: "jm_wf ds \<Longrightarrow> jm_wf (dossier_apply e ds)"
  by (auto simp: dossier_apply_def split: domain_event.split player_event.split option.split)

lemma files_ok_apply:
  assumes all: "jm_all (file_ok uuid n) ds" and adm: "admissible uuid n (ev_streamId e) (ev_payload e) ds"
  shows "jm_all (file_ok uuid n) (dossier_apply e ds)"
proof (cases "ev_payload e")
  case (PlayerE p)
  show ?thesis
  proof (cases "is_signing p")
    case True
    then obtain v h where "p = PlayerSigned v h" by (auto simp: is_signing_iff)
    with PlayerE all show ?thesis by (simp add: dossier_apply_signed file_ok_new)
  next
    case False
    with adm PlayerE obtain w d where w: "streamWallet (ev_streamId e) = Some w" "jm_get ds w = Some d"
      "event_valid p d" "case p of CallMade c \<Rightarrow> call_drawn uuid n (cm_callId c) | _ \<Rightarrow> True"
      by (auto simp: admissible_def split: option.splits)
    have "file_ok uuid n w (dossier_step (ev_at e) p d)"
      using jm_all_get[OF all w(2)] w(3,4) by (intro file_ok_step) auto
    with all w show ?thesis unfolding dossier_apply_step[OF PlayerE False] by simp
  qed
qed (use all in \<open>simp_all add: dossier_apply_other\<close>)

lemma signed_log_snoc:
  "signed_log ds (lg @ [e]) \<longleftrightarrow> signed_log ds lg \<and> signed_before (fold dossier_apply lg ds) e"
  by (induction lg arbitrary: ds) simp_all

lemma versions_ok_snoc:
  "versions_ok lg \<Longrightarrow> ev_version e = length (stream_of (ev_streamId e) lg) \<Longrightarrow> versions_ok (lg @ [e])"
  by (simp add: versions_ok_def stream_of_def)

lemma log_ok_snoc:
  assumes "log_ok uuid n lg" and "ev_version e = length (stream_of (ev_streamId e) lg)"
    and pl: "event_placed (ev_streamId e) (ev_payload e)"
    and adm: "admissible uuid n (ev_streamId e) (ev_payload e) (rm_dossier (hydrate lg))"
  shows "log_ok uuid n (lg @ [e])"
proof -
  have "signed_before (rm_dossier (hydrate lg)) e"
    using adm by (auto simp: admissible_def signed_before_def split: domain_event.splits option.splits)
  then show ?thesis using assms
    by (simp add: log_ok_def versions_ok_snoc signed_log_snoc hydrate_fields files_ok_apply dossier_apply_wf)
qed

text \<open>A list of events that may be appended to one stream, each to the files the ones
  before it leave.\<close>

fun admissible_seq :: "uuids \<Rightarrow> nat \<Rightarrow> string \<Rightarrow> int \<Rightarrow> domain_event list \<Rightarrow> dossiers \<Rightarrow> bool" where
  "admissible_seq uuid n s now [] ds \<longleftrightarrow> True"
| "admissible_seq uuid n s now (p # ps) ds \<longleftrightarrow> event_placed s p \<and> admissible uuid n s p ds \<and>
     admissible_seq uuid n s now ps
       (dossier_apply \<lparr>ev_id = [], ev_streamId = s, ev_version = 0, ev_at = now, ev_payload = p\<rparr> ds)"

lemma dossier_apply_meta:
  "dossier_apply \<lparr>ev_id = i, ev_streamId = s, ev_version = v, ev_at = now, ev_payload = p\<rparr> ds =
   dossier_apply \<lparr>ev_id = j, ev_streamId = s, ev_version = u, ev_at = now, ev_payload = p\<rparr> ds"
  unfolding dossier_apply_def stored_event.simps ..

lemma log_ok_append:
  "log_ok uuid n lg \<Longrightarrow> admissible_seq uuid n s now ps (rm_dossier (hydrate lg)) \<Longrightarrow>
    log_ok uuid n (lg @ mk_stored ids s (length (stream_of s lg)) now ps)"
proof (induction ps arbitrary: lg ids)
  case Nil
  then show ?case by simp
next
  case (Cons p ps)
  let ?e = "\<lparr>ev_id = ids 0, ev_streamId = s, ev_version = length (stream_of s lg), ev_at = now, ev_payload = p\<rparr>"
  have ok: "log_ok uuid n (lg @ [?e])"
    using Cons.prems by (intro log_ok_snoc) simp_all
  have "rm_dossier (hydrate (lg @ [?e])) = dossier_apply ?e (rm_dossier (hydrate lg))"
    by (simp add: hydrate_fields)
  then have "admissible_seq uuid n s now ps (rm_dossier (hydrate (lg @ [?e])))"
    using Cons.prems(2) dossier_apply_meta[of "[]" s 0 now p _ "ids 0" "length (stream_of s lg)"] by simp
  from Cons.IH[OF ok this, of "\<lambda>k. ids (Suc k)"] show ?case
    by (simp add: mk_stored_Cons stream_of_def)
qed

section \<open>Well-formed worlds\<close>

definition player_version_ok :: "stored_event list \<Rightarrow> wallet \<Rightarrow> nat \<Rightarrow> bool" where
  "player_version_ok lg k v \<longleftrightarrow> plain_wallet k \<and> v = length (stream_of (playerStream k) lg)"

definition match_version_ok :: "stored_event list \<Rightarrow> match_id \<Rightarrow> nat \<Rightarrow> bool" where
  "match_version_ok lg k v \<longleftrightarrow> v = length (stream_of (matchStream k) lg)"

definition challenge_version_ok :: "stored_event list \<Rightarrow> challenge_id \<Rightarrow> nat \<Rightarrow> bool" where
  "challenge_version_ok lg k v \<longleftrightarrow> v = length (stream_of (challengeStream k) lg)"

text \<open>The read model is the fold of the log, and every writer that remembers a version
  remembers the length of its stream.\<close>

definition world_ok :: "uuids \<Rightarrow> world \<Rightarrow> bool" where
  "world_ok uuid w \<longleftrightarrow> log_ok uuid (w_drawn w) (w_log w) \<and> w_rm w = hydrate (w_log w) \<and>
     jm_wf (w_actors w) \<and> jm_all (player_version_ok (w_log w)) (w_actors w) \<and>
     jm_wf (w_matchVersions w) \<and> jm_all (match_version_ok (w_log w)) (w_matchVersions w) \<and>
     jm_wf (w_challengeVersions w) \<and> jm_all (challenge_version_ok (w_log w)) (w_challengeVersions w)"

lemma world_ok_boot: "log_ok uuid n lg \<Longrightarrow> world_ok uuid (boot lg n now)"
  by (simp add: world_ok_def boot_def)

lemma world_ok_draw:
  "world_ok uuid w \<Longrightarrow> world_ok uuid (w\<lparr>w_drawn := w_drawn w + k\<rparr>)"
  by (auto simp: world_ok_def elim: log_ok_mono)

lemma world_ok_time: "world_ok uuid w \<Longrightarrow> world_ok uuid (w\<lparr>w_now := t\<rparr>)"
  by (simp add: world_ok_def)

abbreviation dossier_of :: "world \<Rightarrow> wallet \<Rightarrow> dossier_state option" where
  "dossier_of w pw \<equiv> jm_get (rm_dossier (w_rm w)) pw"

lemma world_file:
  assumes "world_ok uuid w" "dossier_of w pw = Some d"
  shows "file_ok uuid (w_drawn w) pw d" "dossier_ok d" "record_ok d"
proof -
  have "jm_all (file_ok uuid (w_drawn w)) (rm_dossier (w_rm w))"
    using assms(1) by (simp add: world_ok_def log_ok_def)
  from jm_all_get[OF this assms(2)] show "file_ok uuid (w_drawn w) pw d" "dossier_ok d" "record_ok d"
    by (simp_all add: file_ok_def)
qed

text \<open>An append at the stream's own length succeeds, and keeps the log well-formed.\<close>

definition appended :: "uuids \<Rightarrow> string \<Rightarrow> domain_event list \<Rightarrow> world \<Rightarrow> stored_event list" where
  "appended uuid s es w = mk_stored (\<lambda>i. newId ''evt'' (uuid (w_drawn w + i))) s
     (length (stream_of s (w_log w))) (w_now w) es"

definition after_append :: "uuids \<Rightarrow> string \<Rightarrow> domain_event list \<Rightarrow> world \<Rightarrow> world" where
  "after_append uuid s es w = w\<lparr>w_log := w_log w @ appended uuid s es w,
     w_rm := fold rm_apply (appended uuid s es w) (w_rm w), w_drawn := w_drawn w + length es\<rparr>"

lemma store_append_current:
  "v = length (stream_of s (w_log w)) \<Longrightarrow> store_append uuid s es v w = Inr (after_append uuid s es w)"
  by (simp add: store_append_def log_append_def after_append_def appended_def Let_def)

lemma store_append_stale:
  "v \<noteq> length (stream_of s (w_log w)) \<Longrightarrow> store_append uuid s es v w = Inl (DomainError CONFLICT)"
  by (simp add: store_append_def log_append_def Let_def)

lemma after_append_fields [simp]:
  "w_actors (after_append uuid s es w) = w_actors w"
  "w_matchVersions (after_append uuid s es w) = w_matchVersions w"
  "w_challengeVersions (after_append uuid s es w) = w_challengeVersions w"
  "w_drawn (after_append uuid s es w) = w_drawn w + length es"
  "w_now (after_append uuid s es w) = w_now w"
  "w_log (after_append uuid s es w) = w_log w @ appended uuid s es w"
  "w_rm (after_append uuid s es w) = fold rm_apply (appended uuid s es w) (w_rm w)"
  by (simp_all add: after_append_def)

lemma appended_streams [simp]:
  "stream_of t (appended uuid s es w) = (if t = s then appended uuid s es w else [])"
  "length (appended uuid s es w) = length es"
  "map ev_payload (appended uuid s es w) = es"
  by (simp_all add: appended_def)

lemma appended_one:
  "appended uuid s [p] w = [\<lparr>ev_id = newId ''evt'' (uuid (w_drawn w)), ev_streamId = s,
     ev_version = length (stream_of s (w_log w)), ev_at = w_now w, ev_payload = p\<rparr>]"
  by (simp add: appended_def mk_stored_one)

lemma after_append_log_ok:
  assumes "log_ok uuid (w_drawn w) (w_log w)" "w_rm w = hydrate (w_log w)"
    and "admissible_seq uuid (w_drawn w) s (w_now w) es (rm_dossier (w_rm w))"
  shows "log_ok uuid (w_drawn (after_append uuid s es w)) (w_log (after_append uuid s es w))"
    and "w_rm (after_append uuid s es w) = hydrate (w_log (after_append uuid s es w))"
proof -
  have "log_ok uuid (w_drawn w) (w_log w @ appended uuid s es w)"
    unfolding appended_def using assms by (intro log_ok_append) simp_all
  then show "log_ok uuid (w_drawn (after_append uuid s es w)) (w_log (after_append uuid s es w))"
    by (auto elim: log_ok_mono)
  show "w_rm (after_append uuid s es w) = hydrate (w_log (after_append uuid s es w))"
    using assms(2) by (simp add: hydrate_append)
qed

end
