(* ===== verification/PlayerActor.thy ===== *)
theory PlayerActor
  imports World
begin

text \<open>
  The player actor (\<open>src/core/actor/PlayerActor.ts\<close>, \<open>ActorRegistry.ts\<close>, \<open>Mailbox.ts\<close>): every
  command of a player and every settlement instruction, validated against the player's file
  and appended to the player's stream under the version the actor remembers. The mailbox runs
  the commands of one player one at a time, so a command is one step of the world. The answers
  of the ports (custody, the Gaffer) are functions given to the commands.
  The lemmas show that every command keeps the world well-formed and never meets a version
  conflict, and what each command does to the money.
\<close>

section \<open>Appending\<close>

text \<open>\<open>ensureLoaded\<close>: the remembered version, or the length of the stream on first use.\<close>

definition actor_version :: "wallet \<Rightarrow> world \<Rightarrow> nat" where
  "actor_version u w =
     (case jm_get (w_actors w) u of
        Some v \<Rightarrow> v
      | None \<Rightarrow> length (stream_of (playerStream u) (w_log w)))"

definition actor_append :: "uuids \<Rightarrow> wallet \<Rightarrow> player_event list \<Rightarrow> world \<Rightarrow> unit outcome_of" where
  "actor_append uuid u ps w =
     (let v = actor_version u w
      in case store_append uuid (playerStream u) (map PlayerE ps) v w of
           Inl f \<Rightarrow> (Inl f, w\<lparr>w_actors := jm_set u v (w_actors w)\<rparr>)
         | Inr w1 \<Rightarrow> (Inr (), w1\<lparr>w_actors := jm_set u (v + length ps) (w_actors w1)\<rparr>))"

definition dossier_now :: "wallet \<Rightarrow> world \<Rightarrow> dossier_view option" where
  "dossier_now u w = getDossier (w_rm w) u"

definition requireSigned :: "wallet \<Rightarrow> world \<Rightarrow> dossier_view outcome_of" where
  "requireSigned u w =
     (case dossier_now u w of
        None \<Rightarrow> (Inl (DomainError NOT_SIGNED), w)
      | Some d \<Rightarrow> (Inr d, w))"

definition reject :: "error_code \<Rightarrow> world \<Rightarrow> 'a outcome_of" where
  "reject c w = (Inl (DomainError c), w)"

text \<open>A text that is present and not empty.\<close>

definition truthy :: "string option \<Rightarrow> string option" where
  "truthy s = (if s = Some [] then None else s)"

section \<open>Commands of a player\<close>

definition signContract :: "uuids \<Rightarrow> wallet \<Rightarrow> string option \<Rightarrow> world \<Rightarrow> wallet outcome_of" where
  "signContract uuid u handle w =
     (if dossier_now u w \<noteq> None then reject ALREADY_SIGNED w
      else and_then (actor_append uuid u [PlayerSigned u (truthy handle)] w) (\<lambda>_ w1. (Inr u, w1)))"

definition depositRefSeen :: "wallet \<Rightarrow> string \<Rightarrow> world \<Rightarrow> bool" where
  "depositRefSeen u ref w = list_ex (\<lambda>e. case ev_payload e of
       PlayerE (Deposited _ r) \<Rightarrow> r = Some ref | _ \<Rightarrow> False) (stream_of (playerStream u) (w_log w))"

definition deposit :: "uuids \<Rightarrow> (wallet \<Rightarrow> frost \<Rightarrow> string option \<Rightarrow> string + string) \<Rightarrow> wallet \<Rightarrow> frost
    \<Rightarrow> string option \<Rightarrow> world \<Rightarrow> frost outcome_of" where
  "deposit uuid confirmDeposit u amount proof_ref w =
     and_then (requireSigned u w) (\<lambda>_ w.
       if amount \<le> 0 then reject INVALID w
       else if (case truthy proof_ref of None \<Rightarrow> False | Some r \<Rightarrow> depositRefSeen u r w)
       then reject DUPLICATE_DEPOSIT w
       else case confirmDeposit u amount proof_ref of
           Inl msg \<Rightarrow> (Inl (OtherError msg), w)
         | Inr ref \<Rightarrow>
             and_then (actor_append uuid u [Deposited amount (Some ref)] w) (\<lambda>_ w.
               and_then (requireSigned u w) (\<lambda>d w. (Inr (dv_balance d), w))))"

definition withdraw_fee :: "game_config \<Rightarrow> frost \<Rightarrow> frost" where
  "withdraw_fee cfg amount =
     (let pctFee = big_div (amount * gc_withdrawFeeBps cfg) 10000
      in if pctFee > gc_withdrawFeeMin cfg then pctFee else gc_withdrawFeeMin cfg)"

record withdrawal =
  wd_balance :: frost
  wd_ref :: string
  wd_net :: frost
  wd_fee :: frost

text \<open>The call to custody that pays a player, with the log as it is when the call is made.\<close>

definition custody_pay :: "wallet \<Rightarrow> frost \<Rightarrow> world \<Rightarrow> world" where
  "custody_pay u net w = w\<lparr>w_payments := w_payments w @ [(w_log w, u, net)]\<rparr>"

definition withdraw :: "uuids \<Rightarrow> game_config \<Rightarrow> (wallet \<Rightarrow> frost \<Rightarrow> string + string) \<Rightarrow> wallet \<Rightarrow> frost
    \<Rightarrow> world \<Rightarrow> withdrawal outcome_of" where
  "withdraw uuid cfg custodyWithdraw u amount w =
     and_then (requireSigned u w) (\<lambda>d w.
       if amount \<le> 0 then reject INVALID w
       else if dv_balance d < amount then reject INSUFFICIENT_BALANCE w
       else if amount \<le> withdraw_fee cfg amount then reject INVALID w
       else
         (let fee = withdraw_fee cfg amount;
              net = amount - fee;
              (wid, w) = draw_id uuid ''wd'' w
          in and_then (actor_append uuid u [WithdrawalInitiated wid amount (Some fee)] w) (\<lambda>_ w.
               let w = custody_pay u net w in
               case custodyWithdraw u net of
                 Inl msg \<Rightarrow>
                   and_then (actor_append uuid u [WithdrawalReversed wid amount (Some msg)] w)
                     (\<lambda>_ w. (Inl (OtherError msg), w))
               | Inr ref \<Rightarrow>
                   and_then (actor_append uuid u [WithdrawalSettled wid amount (Some fee) (Some ref)] w) (\<lambda>_ w.
                     and_then (requireSigned u w) (\<lambda>d w.
                       (Inr \<lparr>wd_balance = dv_balance d, wd_ref = ref, wd_net = net, wd_fee = fee\<rparr>, w))))))"

definition is_payload :: "(player_event \<Rightarrow> bool) \<Rightarrow> stored_event \<Rightarrow> bool" where
  "is_payload P e \<longleftrightarrow> (case ev_payload e of PlayerE p \<Rightarrow> P p | _ \<Rightarrow> False)"

definition is_seeding :: "player_event \<Rightarrow> bool" where
  "is_seeding p \<longleftrightarrow> (case p of HouseSeeded _ \<Rightarrow> True | _ \<Rightarrow> False)"

definition is_grant :: "player_event \<Rightarrow> bool" where
  "is_grant p \<longleftrightarrow> (case p of WelcomeGranted _ \<Rightarrow> True | _ \<Rightarrow> False)"

definition ensureHouseFunded :: "uuids \<Rightarrow> wallet \<Rightarrow> frost \<Rightarrow> world \<Rightarrow> unit outcome_of" where
  "ensureHouseFunded uuid u amount w =
     (let es = stream_of (playerStream u) (w_log w);
          signed = list_ex (is_payload is_signing) es;
          funded = list_ex (is_payload is_seeding) es;
          toAppend = (if signed then [] else [PlayerSigned u (Some ''The House'')])
            @ (if funded then [] else [HouseSeeded amount])
      in if toAppend = [] then (Inr (), w) else actor_append uuid u toAppend w)"

definition claimWelcomeGrant :: "uuids \<Rightarrow> wallet \<Rightarrow> frost \<Rightarrow> world \<Rightarrow> frost outcome_of" where
  "claimWelcomeGrant uuid u amount w =
     and_then (requireSigned u w) (\<lambda>_ w.
       if amount \<le> 0 then reject INVALID w
       else if list_ex (is_payload is_grant) (stream_of (playerStream u) (w_log w)) then reject CONFLICT w
       else and_then (actor_append uuid u [WelcomeGranted amount] w) (\<lambda>_ w.
         and_then (requireSigned u w) (\<lambda>d w. (Inr (dv_bonus d), w))))"

record call_input =
  ci_matchId :: match_id
  ci_marketId :: market_id
  ci_bucket :: bucket
  ci_stake :: frost
  ci_note :: "string option"

definition find_market :: "market_id \<Rightarrow> match_view \<Rightarrow> market_view option" where
  "find_market k m = find (\<lambda>mv. mv_marketId mv = k) (mw_markets m)"

definition makeCall :: "uuids \<Rightarrow> game_config \<Rightarrow> wallet \<Rightarrow> call_input \<Rightarrow> world \<Rightarrow> (call_id \<times> num) outcome_of" where
  "makeCall uuid cfg u i w =
     and_then (requireSigned u w) (\<lambda>d w.
       if ci_stake i < gc_minStake cfg then reject STAKE_TOO_SMALL w
       else if dv_balance d + dv_bonus d < ci_stake i then reject INSUFFICIENT_BALANCE w
       else case getMatch (rm_pots (w_rm w)) (ci_matchId i) of
         None \<Rightarrow> reject MATCH_NOT_OPEN w
       | Some m \<Rightarrow>
          (case find_market (ci_marketId i) m of
             None \<Rightarrow> reject UNKNOWN_MARKET w
           | Some mv \<Rightarrow>
               if mv_status mv \<noteq> OPEN then reject MATCH_LOCKED w
               else if \<not> list_ex (\<lambda>b. bv_bucket b = ci_bucket i) (mv_buckets mv) then reject UNKNOWN_BUCKET w
               else if list_ex (\<lambda>c. oc_matchId c = ci_matchId i \<and> oc_marketId c = ci_marketId i) (dv_openCalls d)
               then reject DUPLICATE_CALL w
               else
                 (let p = impliedProbFor (rm_pots (w_rm w)) (ci_matchId i) (ci_marketId i) (ci_bucket i);
                      (callId, w) = draw_id uuid ''call'' w
                  in and_then (actor_append uuid u [CallMade \<lparr>cm_callId = callId, cm_matchId = ci_matchId i,
                         cm_marketId = ci_marketId i, cm_bucket = ci_bucket i, cm_stake = ci_stake i,
                         cm_impliedProbAtCall = p, cm_bold = (mv_kind mv = BOLD),
                         cm_note = truthy (ci_note i)\<rparr>] w)
                       (\<lambda>_ w. (Inr (callId, p), w)))))"

record lock_input =
  li_challengeId :: challenge_id
  li_matchId :: match_id
  li_side :: bucket
  li_stake :: frost
  li_role :: stake_role

definition lockChallengeStake :: "uuids \<Rightarrow> game_config \<Rightarrow> wallet \<Rightarrow> lock_input \<Rightarrow> world \<Rightarrow> unit outcome_of" where
  "lockChallengeStake uuid cfg u i w =
     and_then (requireSigned u w) (\<lambda>d w.
       if li_stake i < gc_minStake cfg then reject STAKE_TOO_SMALL w
       else if dv_balance d + dv_bonus d < li_stake i then reject INSUFFICIENT_BALANCE w
       else if list_ex (\<lambda>s. os_challengeId s = li_challengeId i) (dv_openStakes d) then (Inr (), w)
       else actor_append uuid u [ChallengeStakeLocked \<lparr>sl_challengeId = li_challengeId i,
         sl_matchId = li_matchId i, sl_side = li_side i, sl_stake = li_stake i, sl_role = li_role i\<rparr>] w)"

definition declareHotTake :: "uuids \<Rightarrow> wallet \<Rightarrow> string \<Rightarrow> world \<Rightarrow> string outcome_of" where
  "declareHotTake uuid u txt w =
     and_then (requireSigned u w) (\<lambda>_ w.
       if js_trim txt = [] then reject INVALID w
       else (let (takeId, w) = draw_id uuid ''take'' w
             in and_then (actor_append uuid u [HotTakeDeclared takeId (js_trim txt) None] w)
                  (\<lambda>_ w. (Inr takeId, w))))"

definition requestVerdict :: "uuids \<Rightarrow> (wallet \<Rightarrow> verdict_trigger \<Rightarrow> string + string \<times> string list) \<Rightarrow> wallet
    \<Rightarrow> verdict_trigger \<Rightarrow> world \<Rightarrow> (string \<times> string \<times> string list) outcome_of" where
  "requestVerdict uuid composeVerdict u trg w =
     and_then (requireSigned u w) (\<lambda>_ w.
       case composeVerdict u trg of
         Inl msg \<Rightarrow> (Inl (OtherError msg), w)
       | Inr (txt, quotes) \<Rightarrow>
           (let (verdictId, w) = draw_id uuid ''vdct'' w
            in and_then (actor_append uuid u [VerdictIssued \<lparr>vi_verdictId = verdictId, vi_text = txt,
                   vi_trigger = trg, vi_quotes = quotes\<rparr>] w)
                 (\<lambda>_ w. (Inr (verdictId, txt, quotes), w))))"

definition recordChat :: "uuids \<Rightarrow> wallet \<Rightarrow> string \<Rightarrow> string \<Rightarrow> world \<Rightarrow> unit outcome_of" where
  "recordChat uuid u msg reply w =
     (if dossier_now u w = None then (Inr (), w) else actor_append uuid u [ChatExchanged msg reply] w)"

section \<open>Settlement instructions\<close>

definition find_call :: "call_id \<Rightarrow> dossier_view \<Rightarrow> open_call option" where
  "find_call k d = find (\<lambda>c. oc_callId c = k) (dv_openCalls d)"

definition find_stake :: "challenge_id \<Rightarrow> dossier_view \<Rightarrow> open_stake option" where
  "find_stake k d = find (\<lambda>s. os_challengeId s = k) (dv_openStakes d)"

text \<open>The events of a settled call: the result, and the promotion or demotion it brings.\<close>

definition settle_events :: "call_id \<Rightarrow> dossier_view \<Rightarrow> open_call \<Rightarrow> bool \<Rightarrow> frost \<Rightarrow> player_event list" where
  "settle_events callId d c won pay =
     (let delta = grDelta \<lparr>ri_impliedProbAtCall = oc_impliedProbAtCall c, ri_won = won, ri_bold = oc_bold c,
            ri_formMultiplier = fm_multiplier (dv_form d)\<rparr>;
          fromTier = tierForGr (dv_gr d);
          toTier = tierForGr (dv_gr d + delta)
      in [CallSettled \<lparr>cs_callId = callId, cs_matchId = oc_matchId c, cs_marketId = oc_marketId c,
            cs_result = (if won then WON else LOST), cs_stake = oc_stake c, cs_payout = pay,
            cs_pnlDelta = pay - oc_stake c, cs_grDelta = delta,
            cs_difficulty = difficultyOf (oc_impliedProbAtCall c)\<rparr>]
         @ (if fromTier \<noteq> toTier
            then [TierChanged \<lparr>tc_from = fromTier, tc_to = toTier,
                    tc_direction = (if tierIndex toTier > tierIndex fromTier then Promoted else Demoted),
                    tc_grAt = dv_gr d + delta\<rparr>]
            else []))"

definition settleCall :: "uuids \<Rightarrow> wallet \<Rightarrow> call_id \<Rightarrow> bool \<Rightarrow> frost \<Rightarrow> world \<Rightarrow> unit outcome_of" where
  "settleCall uuid u callId won pay w =
     (case dossier_now u w of
        None \<Rightarrow> (Inr (), w)
      | Some d \<Rightarrow>
          (case find_call callId d of
             None \<Rightarrow> (Inr (), w)
           | Some c \<Rightarrow> actor_append uuid u (settle_events callId d c won pay) w))"

definition voidCall :: "uuids \<Rightarrow> wallet \<Rightarrow> call_id \<Rightarrow> string \<Rightarrow> world \<Rightarrow> unit outcome_of" where
  "voidCall uuid u callId reason w =
     (case dossier_now u w of
        None \<Rightarrow> (Inr (), w)
      | Some d \<Rightarrow>
          (case find_call callId d of
             None \<Rightarrow> (Inr (), w)
           | Some c \<Rightarrow> actor_append uuid u [CallVoided \<lparr>cv_callId = callId, cv_matchId = oc_matchId c,
               cv_marketId = oc_marketId c, cv_refund = oc_stake c, cv_reason = reason\<rparr>] w))"

definition settleChallengeStake :: "uuids \<Rightarrow> wallet \<Rightarrow> challenge_id \<Rightarrow> call_result \<Rightarrow> frost \<Rightarrow> world
    \<Rightarrow> unit outcome_of" where
  "settleChallengeStake uuid u cid result pay w =
     (case dossier_now u w of
        None \<Rightarrow> (Inr (), w)
      | Some d \<Rightarrow>
          (case find_stake cid d of
             None \<Rightarrow> (Inr (), w)
           | Some s \<Rightarrow> actor_append uuid u [ChallengeStakeSettled \<lparr>ss_challengeId = cid,
               ss_matchId = os_matchId s, ss_result = result, ss_stake = os_stake s, ss_payout = pay,
               ss_pnlDelta = pay - os_stake s\<rparr>] w))"

definition refundChallengeStake :: "uuids \<Rightarrow> wallet \<Rightarrow> challenge_id \<Rightarrow> string \<Rightarrow> world \<Rightarrow> unit outcome_of" where
  "refundChallengeStake uuid u cid reason w =
     (case dossier_now u w of
        None \<Rightarrow> (Inr (), w)
      | Some d \<Rightarrow>
          (case find_stake cid d of
             None \<Rightarrow> (Inr (), w)
           | Some s \<Rightarrow> actor_append uuid u [ChallengeStakeRefunded \<lparr>sr_challengeId = cid,
               sr_matchId = os_matchId s, sr_refund = os_stake s, sr_reason = reason\<rparr>] w))"

definition observeTrait :: "uuids \<Rightarrow> wallet \<Rightarrow> trait_observed \<Rightarrow> world \<Rightarrow> unit outcome_of" where
  "observeTrait uuid u t w =
     (if dossier_now u w = None then (Inr (), w) else actor_append uuid u [TraitObserved t] w)"

section \<open>The append of an actor\<close>

definition actor_after :: "uuids \<Rightarrow> wallet \<Rightarrow> player_event list \<Rightarrow> world \<Rightarrow> world" where
  "actor_after uuid u ps w = (after_append uuid (playerStream u) (map PlayerE ps) w)
     \<lparr>w_actors := jm_set u (length (stream_of (playerStream u) (w_log w)) + length ps) (w_actors w)\<rparr>"

lemma actor_after_fields [simp]:
  "w_log (actor_after uuid u ps w) = w_log w @ appended uuid (playerStream u) (map PlayerE ps) w"
  "w_drawn (actor_after uuid u ps w) = w_drawn w + length ps"
  "w_now (actor_after uuid u ps w) = w_now w"
  "w_matchVersions (actor_after uuid u ps w) = w_matchVersions w"
  "w_challengeVersions (actor_after uuid u ps w) = w_challengeVersions w"
  by (simp_all add: actor_after_def)

lemma world_ok_payments [simp]: "world_ok uuid (w\<lparr>w_payments := p\<rparr>) = world_ok uuid w"
  by (simp add: world_ok_def)

lemma actor_after_payments [simp]:
  "actor_after uuid u ps (w\<lparr>w_payments := p\<rparr>) = (actor_after uuid u ps w)\<lparr>w_payments := p\<rparr>"
  "w_payments (actor_after uuid u ps w) = w_payments w"
  by (simp_all add: actor_after_def after_append_def appended_def)

lemma actor_after_rm:
  "w_rm (actor_after uuid u ps w) = fold rm_apply (appended uuid (playerStream u) (map PlayerE ps) w) (w_rm w)"
  by (simp add: actor_after_def)

lemma actor_version_current:
  "world_ok uuid w \<Longrightarrow> actor_version u w = length (stream_of (playerStream u) (w_log w))"
  by (auto simp: actor_version_def world_ok_def player_version_ok_def dest: jm_all_get split: option.split)

text \<open>In a well-formed world an actor's append always succeeds.\<close>

lemma actor_append_eq:
  "world_ok uuid w \<Longrightarrow> actor_append uuid u ps w = (Inr (), actor_after uuid u ps w)"
  by (simp add: actor_append_def actor_version_current store_append_current actor_after_def)

lemma player_versions_append:
  assumes "jm_wf m" "jm_all (player_version_ok lg) m" "\<And>e. e \<in> set new \<Longrightarrow> ev_streamId e = playerStream u"
    and "plain_wallet u"
  shows "jm_all (player_version_ok (lg @ new)) (jm_set u (length (stream_of (playerStream u) lg) + length new) m)"
proof -
  have new: "stream_of (playerStream k) new = (if k = u then new else [])" for k
    using assms(3) by (auto simp: stream_of_def filter_id_conv filter_empty_conv dest: playerStream_inj)
  show ?thesis
    by (rule jm_all_set_key[OF assms(1,2)]) (simp_all add: player_version_ok_def new assms(4))
qed

lemma match_versions_append:
  "jm_all (match_version_ok lg) m \<Longrightarrow> (\<And>e k. e \<in> set new \<Longrightarrow> ev_streamId e \<noteq> matchStream k) \<Longrightarrow>
    jm_all (match_version_ok (lg @ new)) m"
proof (rule jm_all_mono)
  fix k v
  assume "\<And>e k. e \<in> set new \<Longrightarrow> ev_streamId e \<noteq> matchStream k" and v: "match_version_ok lg k v"
  then have "stream_of (matchStream k) new = []" by (simp add: stream_of_def filter_empty_conv)
  with v show "match_version_ok (lg @ new) k v" by (simp add: match_version_ok_def)
qed

lemma challenge_versions_append:
  "jm_all (challenge_version_ok lg) m \<Longrightarrow> (\<And>e k. e \<in> set new \<Longrightarrow> ev_streamId e \<noteq> challengeStream k) \<Longrightarrow>
    jm_all (challenge_version_ok (lg @ new)) m"
proof (rule jm_all_mono)
  fix k v
  assume "\<And>e k. e \<in> set new \<Longrightarrow> ev_streamId e \<noteq> challengeStream k" and v: "challenge_version_ok lg k v"
  then have "stream_of (challengeStream k) new = []" by (simp add: stream_of_def filter_empty_conv)
  with v show "challenge_version_ok (lg @ new) k v" by (simp add: challenge_version_ok_def)
qed

lemma appended_stream [simp]: "e \<in> set (appended uuid s es w) \<Longrightarrow> ev_streamId e = s"
  by (simp add: appended_def)

lemma actor_after_ok:
  assumes ok: "world_ok uuid w" and u: "plain_wallet u"
    and adm: "admissible_seq uuid (w_drawn w) (playerStream u) (w_now w) (map PlayerE ps) (rm_dossier (w_rm w))"
  shows "world_ok uuid (actor_after uuid u ps w)"
proof -
  let ?new = "appended uuid (playerStream u) (map PlayerE ps) w"
  have lg: "log_ok uuid (w_drawn w) (w_log w)" "w_rm w = hydrate (w_log w)"
    using ok by (simp_all add: world_ok_def)
  note aft = after_append_log_ok[OF lg adm]
  have "jm_all (player_version_ok (w_log w @ ?new)) (w_actors (actor_after uuid u ps w))"
    using ok u player_versions_append[of "w_actors w" "w_log w" ?new u]
    by (simp add: world_ok_def actor_after_def)
  moreover have "jm_all (match_version_ok (w_log w @ ?new)) (w_matchVersions w)"
    using ok u by (intro match_versions_append) (auto simp: world_ok_def dest!: appended_stream)
  moreover have "jm_all (challenge_version_ok (w_log w @ ?new)) (w_challengeVersions w)"
    using ok u by (intro challenge_versions_append) (auto simp: world_ok_def dest!: appended_stream)
  moreover have "jm_wf (w_actors (actor_after uuid u ps w))"
    using ok by (simp add: world_ok_def actor_after_def)
  ultimately show ?thesis using ok aft by (simp add: world_ok_def actor_after_rm)
qed

text \<open>One event, legal for the file it is appended to.\<close>

lemma admissible_one:
  assumes "plain_wallet u" "jm_get ds u = Some d" "\<not> is_signing p" "event_valid p d"
    and "\<And>c. p = CallMade c \<Longrightarrow> call_drawn uuid n (cm_callId c)"
  shows "event_placed (playerStream u) (PlayerE p)" "admissible uuid n (playerStream u) (PlayerE p) ds"
  using assms by (auto simp: event_placed_def admissible_def is_signing_def split: player_event.split)

lemma actor_after_one_ok:
  assumes ok: "world_ok uuid w" and u: "plain_wallet u" and d: "dossier_of w u = Some d"
    and p: "\<not> is_signing p" "event_valid p d"
    and c: "\<And>c. p = CallMade c \<Longrightarrow> call_drawn uuid (w_drawn w) (cm_callId c)"
  shows "world_ok uuid (actor_after uuid u [p] w)"
  using admissible_one[OF u d p c] by (intro actor_after_ok[OF ok u]) simp

lemma actor_after_sign_ok:
  assumes "world_ok uuid w" "plain_wallet u"
  shows "world_ok uuid (actor_after uuid u [PlayerSigned u h] w)"
  using assms by (intro actor_after_ok) (simp_all add: event_placed_def admissible_def is_signing_def)

text \<open>The effect of one event: the player's own file takes the step, no other file changes.\<close>

lemma actor_after_dossier:
  assumes "plain_wallet u" "\<not> is_signing p"
  shows "dossier_of (actor_after uuid u [p] w) v =
    (if v = u then map_option (dossier_step (w_now w) p) (dossier_of w u) else dossier_of w v)"
proof -
  let ?e = "\<lparr>ev_id = newId ''evt'' (uuid (w_drawn w)), ev_streamId = playerStream u,
     ev_version = length (stream_of (playerStream u) (w_log w)), ev_at = w_now w, ev_payload = PlayerE p\<rparr>"
  have "rm_dossier (w_rm (actor_after uuid u [p] w)) = dossier_apply ?e (rm_dossier (w_rm w))"
    by (simp add: appended_one actor_after_rm)
  moreover have "dossier_apply ?e (rm_dossier (w_rm w)) = (case dossier_of w u of None \<Rightarrow> rm_dossier (w_rm w)
      | Some s \<Rightarrow> jm_set u (dossier_step (w_now w) p s) (rm_dossier (w_rm w)))"
    using assms(1) by (cases "dossier_of w u") (simp_all add: dossier_apply_step[OF _ assms(2)])
  ultimately show ?thesis by (simp split: option.split)
qed

lemma dossier_now_Some: "dossier_now u w = map_option toView (dossier_of w u)"
  by (simp add: dossier_now_def getDossier_def dossier_get_def)

section \<open>Looking up an open call or stake\<close>

lemma find_unique:
  assumes "x \<in> set xs" "P x" "\<And>y. y \<in> set xs \<Longrightarrow> P y \<Longrightarrow> y = x"
  shows "find P xs = Some x"
proof (cases "find P xs")
  case None
  with assms(1,2) show ?thesis by (auto simp: find_None_iff)
next
  case (Some y)
  then have "y \<in> set xs" "P y" by (auto simp: find_Some_iff)
  then have "y = x" by (rule assms(3))
  with Some show ?thesis by simp
qed

lemma find_none: "(\<And>y. y \<in> set xs \<Longrightarrow> \<not> P y) \<Longrightarrow> find P xs = None"
  by (induction xs) auto

lemma find_by_key:
  assumes "jm_wf m" "\<And>k v. (k, v) \<in> set m \<Longrightarrow> key v = k" "set xs = snd ` set m"
  shows "find (\<lambda>v. key v = k) xs = jm_get m k"
proof (cases "jm_get m k")
  case None
  have "key y \<noteq> k" if y: "y \<in> set xs" for y
  proof -
    obtain j where j: "(j, y) \<in> set m" using assms(3) y by auto
    have "k \<notin> fst ` set m" using None by (simp add: map_of_eq_None_iff)
    with assms(2)[OF j] j show ?thesis by force
  qed
  then show ?thesis using None by (simp add: find_none)
next
  case (Some v)
  have "find (\<lambda>v. key v = k) xs = Some v"
  proof (rule find_unique)
    show "v \<in> set xs" using jm_get_mem[OF Some] assms(3) by force
    show "key v = k" using assms(2) jm_get_mem[OF Some] by blast
    fix y
    assume y: "y \<in> set xs" "key y = k"
    then obtain j where "(j, y) \<in> set m" using assms(3) by auto
    with assms(2)[OF this] y(2) have "(k, y) \<in> set m" by simp
    with assms(1) Some show "y = v" by simp
  qed
  with Some show ?thesis by simp
qed

lemma find_call_eq: "dossier_ok s \<Longrightarrow> find_call k (toView s) = jm_get (ds_openCalls s) k"
  unfolding find_call_def
  by (rule find_by_key) (auto simp: dossier_ok_def set_view_openCalls)

lemma find_stake_eq: "dossier_ok s \<Longrightarrow> find_stake k (toView s) = jm_get (ds_openStakes s) k"
  unfolding find_stake_def
  by (rule find_by_key) (auto simp: dossier_ok_def set_view_openStakes)

lemma has_stake_eq:
  assumes "dossier_ok s"
  shows "list_ex (\<lambda>c. os_challengeId c = k) (dv_openStakes (toView s)) \<longleftrightarrow> jm_get (ds_openStakes s) k \<noteq> None"
proof -
  have ex: "list_ex P xs \<longleftrightarrow> find P xs \<noteq> None" for P and xs :: "open_stake list"
    by (induction xs) auto
  show ?thesis unfolding ex find_stake_eq[OF assms, unfolded find_stake_def] ..
qed

lemma toView_money [simp]:
  "dv_balance (toView s) = ds_balance s" "dv_bonus (toView s) = ds_bonus s"
  "dv_locked (toView s) = ds_locked s" "dv_pnl (toView s) = ds_pnl s" "dv_gr (toView s) = ds_gr s"
  by (simp_all add: toView_def)

section \<open>Every command keeps the world\<close>

lemma requireSigned_eq:
  "requireSigned u w = (case dossier_of w u of None \<Rightarrow> (Inl (DomainError NOT_SIGNED), w) | Some s \<Rightarrow> (Inr (toView s), w))"
  by (simp add: requireSigned_def dossier_now_Some split: option.split)

lemmas command_simps = custody_pay_def requireSigned_eq dossier_now_Some reject_def actor_append_eq draw_id_def Let_def

lemma draw_fields [simp]:
  "dossier_of (w\<lparr>w_drawn := n\<rparr>) u = dossier_of w u"
  by simp

lemma world_ok_draw1: "world_ok uuid w \<Longrightarrow> world_ok uuid (w\<lparr>w_drawn := Suc (w_drawn w)\<rparr>)"
  using world_ok_draw[of uuid w 1] by simp

lemma signContract_ok:
  "world_ok uuid w \<Longrightarrow> plain_wallet u \<Longrightarrow> world_ok uuid (snd (signContract uuid u h w))"
  by (simp add: signContract_def command_simps actor_after_sign_ok)

lemma deposit_ok:
  assumes "world_ok uuid w" "plain_wallet u"
  shows "world_ok uuid (snd (deposit uuid confirm u amount ref w))"
proof (cases "dossier_of w u")
  case None
  with assms show ?thesis by (simp add: deposit_def command_simps)
next
  case (Some d)
  have app: "world_ok uuid (actor_after uuid u [Deposited amount r] w)" if "0 < amount" for r
    using that by (intro actor_after_one_ok[OF assms Some]) (simp_all add: is_signing_def)
  show ?thesis using assms(1) Some app
    by (auto simp: deposit_def command_simps split: sum.split option.split)
qed

lemma withdraw_steps:
  assumes ok: "world_ok uuid w" and u: "plain_wallet u" and d: "dossier_of w u = Some d"
    and amt: "0 < amount" "amount \<le> ds_balance d"
    and w2_def: "w2 = actor_after uuid u [WithdrawalInitiated wid amount fee] w"
  shows "world_ok uuid w2" "dossier_of w2 u = Some (d\<lparr>ds_balance := ds_balance d - amount\<rparr>)"
    "world_ok uuid (actor_after uuid u [WithdrawalReversed wid amount msg] w2)"
    "dossier_of (actor_after uuid u [WithdrawalReversed wid amount msg] w2) u = Some d"
    "world_ok uuid (actor_after uuid u [WithdrawalSettled wid amount fee ref] w2)"
    "dossier_of (actor_after uuid u [WithdrawalSettled wid amount fee ref] w2) u =
       Some (d\<lparr>ds_balance := ds_balance d - amount\<rparr>)"
proof -
  show w2: "world_ok uuid w2" unfolding w2_def
    using amt by (intro actor_after_one_ok[OF ok u d]) (simp_all add: is_signing_def)
  show d2: "dossier_of w2 u = Some (d\<lparr>ds_balance := ds_balance d - amount\<rparr>)"
    unfolding w2_def by (subst actor_after_dossier[OF u]) (simp_all add: is_signing_def d)
  show "world_ok uuid (actor_after uuid u [WithdrawalReversed wid amount msg] w2)"
    using amt by (intro actor_after_one_ok[OF w2 u d2]) (simp_all add: is_signing_def)
  show "dossier_of (actor_after uuid u [WithdrawalReversed wid amount msg] w2) u = Some d"
    by (subst actor_after_dossier[OF u]) (simp_all add: is_signing_def d2)
  show "world_ok uuid (actor_after uuid u [WithdrawalSettled wid amount fee ref] w2)"
    by (intro actor_after_one_ok[OF w2 u d2]) (simp_all add: is_signing_def)
  show "dossier_of (actor_after uuid u [WithdrawalSettled wid amount fee ref] w2) u =
       Some (d\<lparr>ds_balance := ds_balance d - amount\<rparr>)"
    by (subst actor_after_dossier[OF u]) (simp_all add: is_signing_def d2)
qed

lemma withdraw_ok:
  assumes "world_ok uuid w" "plain_wallet u"
  shows "world_ok uuid (snd (withdraw uuid cfg pay u amount w))"
proof (cases "dossier_of w u")
  case None
  with assms show ?thesis by (simp add: withdraw_def command_simps)
next
  case (Some d)
  let ?w1 = "w\<lparr>w_drawn := Suc (w_drawn w)\<rparr>"
  have w1: "world_ok uuid ?w1" and d1: "dossier_of ?w1 u = Some d"
    using assms(1) Some by (simp_all add: world_ok_draw1)
  show ?thesis
  proof (cases "0 < amount \<and> amount \<le> ds_balance d")
    case True
    then have amt: "0 < amount" "amount \<le> ds_balance d" by simp_all
    note st = withdraw_steps[OF w1 assms(2) d1 amt refl]
    show ?thesis using assms(1) Some w1 amt st(1,3,5)
      by (auto simp: withdraw_def command_simps st(2,6) split: sum.split option.split)
  next
    case False
    with assms(1) Some show ?thesis by (auto simp: withdraw_def command_simps)
  qed
qed

lemma dossier_exists_iff:
  "jm_get (fold dossier_apply lg ds) u \<noteq> None \<longleftrightarrow>
    jm_get ds u \<noteq> None \<or> (\<exists>e \<in> set lg. \<exists>h. ev_payload e = PlayerE (PlayerSigned u h))"
proof (induction lg arbitrary: ds)
  case (Cons e lg)
  have "jm_get (dossier_apply e ds) u \<noteq> None \<longleftrightarrow>
      jm_get ds u \<noteq> None \<or> (\<exists>h. ev_payload e = PlayerE (PlayerSigned u h))"
    by (auto simp: dossier_apply_get dossier_owner_def
        split: if_splits domain_event.splits player_event.splits option.splits)
  with Cons show ?case by (simp only: fold_simps) auto
qed simp

lemma is_payload_signing: "is_payload is_signing e \<longleftrightarrow> (\<exists>v h. ev_payload e = PlayerE (PlayerSigned v h))"
  by (cases "ev_payload e") (simp_all add: is_payload_def is_signing_iff)

lemma signed_in_stream:
  assumes "world_ok uuid w" "plain_wallet u"
  shows "list_ex (is_payload is_signing) (stream_of (playerStream u) (w_log w)) \<longleftrightarrow> dossier_of w u \<noteq> None"
proof -
  have placed: "\<forall>e \<in> set (w_log w). event_placed (ev_streamId e) (ev_payload e)"
    using assms(1) by (simp add: world_ok_def log_ok_def list_all_iff)
  have "dossier_of w u \<noteq> None \<longleftrightarrow> (\<exists>e \<in> set (w_log w). \<exists>h. ev_payload e = PlayerE (PlayerSigned u h))"
    using assms(1) dossier_exists_iff[of "w_log w" "[]" u] by (simp add: world_ok_def hydrate_fields)
  also have "\<dots> \<longleftrightarrow> (\<exists>e \<in> set (stream_of (playerStream u) (w_log w)). is_payload is_signing e)"
  proof
    assume "\<exists>e \<in> set (w_log w). \<exists>h. ev_payload e = PlayerE (PlayerSigned u h)"
    then obtain e h where e: "e \<in> set (w_log w)" "ev_payload e = PlayerE (PlayerSigned u h)" by blast
    with placed have "event_placed (ev_streamId e) (PlayerE (PlayerSigned u h))" by metis
    then have "streamWallet (ev_streamId e) = Some u"
      by (auto simp: event_placed_def split: option.splits)
    then have "ev_streamId e = playerStream u" by (auto dest: streamWallet_Some)
    with e show "\<exists>e \<in> set (stream_of (playerStream u) (w_log w)). is_payload is_signing e"
      by (auto simp: stream_of_def is_payload_signing)
  next
    assume "\<exists>e \<in> set (stream_of (playerStream u) (w_log w)). is_payload is_signing e"
    then obtain e v h where e: "e \<in> set (w_log w)" "ev_streamId e = playerStream u"
      "ev_payload e = PlayerE (PlayerSigned v h)"
      by (auto simp: stream_of_def is_payload_signing)
    with placed have "event_placed (playerStream u) (PlayerE (PlayerSigned v h))" by metis
    with assms(2) have "v = u" by (simp add: event_placed_def)
    with e show "\<exists>e \<in> set (w_log w). \<exists>h. ev_payload e = PlayerE (PlayerSigned u h)" by blast
  qed
  finally show ?thesis by (simp add: list_ex_iff)
qed

lemma ensureHouseFunded_ok:
  assumes ok: "world_ok uuid w" "plain_wallet u" and amt: "0 \<le> amount"
  shows "world_ok uuid (snd (ensureHouseFunded uuid u amount w))"
proof (cases "dossier_of w u")
  case None
  have "world_ok uuid (actor_after uuid u [PlayerSigned u h, HouseSeeded amount] w)" for h
    using None amt
    by (intro actor_after_ok[OF ok])
      (simp_all add: event_placed_def admissible_def ok(2) is_signing_def dossier_apply_signed split: option.split)
  then show ?thesis using ok None signed_in_stream[OF ok]
    by (auto simp: ensureHouseFunded_def command_simps actor_after_sign_ok)
next
  case (Some d)
  have "world_ok uuid (actor_after uuid u [HouseSeeded amount] w)"
    using amt by (intro actor_after_one_ok[OF ok Some]) (simp_all add: is_signing_def)
  then show ?thesis using ok Some signed_in_stream[OF ok]
    by (auto simp: ensureHouseFunded_def command_simps)
qed

lemma claimWelcomeGrant_ok:
  assumes "world_ok uuid w" "plain_wallet u"
  shows "world_ok uuid (snd (claimWelcomeGrant uuid u amount w))"
proof (cases "dossier_of w u")
  case None
  with assms show ?thesis by (simp add: claimWelcomeGrant_def command_simps)
next
  case (Some d)
  have app: "world_ok uuid (actor_after uuid u [WelcomeGranted amount] w)" if "0 < amount"
    using that by (intro actor_after_one_ok[OF assms Some]) (simp_all add: is_signing_def)
  show ?thesis using assms(1) Some app
    by (auto simp: claimWelcomeGrant_def command_simps split: option.split)
qed

definition call_event :: "call_id \<Rightarrow> call_input \<Rightarrow> num \<Rightarrow> bool \<Rightarrow> player_event" where
  "call_event k i p bold = CallMade \<lparr>cm_callId = k, cm_matchId = ci_matchId i, cm_marketId = ci_marketId i,
     cm_bucket = ci_bucket i, cm_stake = ci_stake i, cm_impliedProbAtCall = p, cm_bold = bold,
     cm_note = truthy (ci_note i)\<rparr>"

lemma call_event_ok:
  assumes ok: "world_ok uuid w" "plain_wallet u" and uuid: "inj uuid" and d: "dossier_of w u = Some d"
    and st: "0 < ci_stake i" "ci_stake i \<le> ds_balance d + ds_bonus d"
  defines "w1 \<equiv> w\<lparr>w_drawn := Suc (w_drawn w)\<rparr>"
  shows "world_ok uuid (actor_after uuid u [call_event (newId ''call'' (uuid (w_drawn w))) i p bold] w1)"
    "event_valid (call_event (newId ''call'' (uuid (w_drawn w))) i p bold) d"
proof -
  let ?k = "newId ''call'' (uuid (w_drawn w))"
  have "jm_get (ds_openCalls d) ?k = None"
  proof (rule ccontr)
    assume "jm_get (ds_openCalls d) ?k \<noteq> None"
    then obtain c where "jm_get (ds_openCalls d) ?k = Some c" by blast
    moreover have "jm_all (\<lambda>k c. call_drawn uuid (w_drawn w) k) (ds_openCalls d)"
      using world_file(1)[OF ok(1) d] by (simp add: file_ok_def)
    ultimately show False using call_drawn_fresh[OF uuid] by (blast dest: jm_all_get)
  qed
  then show v: "event_valid (call_event ?k i p bold) d" using st by (simp add: call_event_def)
  have "call_drawn uuid (w_drawn w1) ?k" by (auto simp: call_drawn_def w1_def)
  with v show "world_ok uuid (actor_after uuid u [call_event ?k i p bold] w1)"
    using world_ok_draw1[OF ok(1)] d ok(2)
    by (intro actor_after_one_ok[where d = d]) (auto simp: w1_def is_signing_def call_event_def)
qed

lemma makeCall_ok:
  assumes "world_ok uuid w" "plain_wallet u" "inj uuid" "config_ok cfg"
  shows "world_ok uuid (snd (makeCall uuid cfg u i w))"
proof (cases "dossier_of w u")
  case None
  with assms show ?thesis by (simp add: makeCall_def command_simps)
next
  case (Some d)
  have app: "world_ok uuid (actor_after uuid u
      [call_event (newId ''call'' (uuid (w_drawn w))) i p bold] (w\<lparr>w_drawn := Suc (w_drawn w)\<rparr>))"
    if "gc_minStake cfg \<le> ci_stake i" "ci_stake i \<le> ds_balance d + ds_bonus d" for p bold
    using that assms(4) by (intro call_event_ok(1)[OF assms(1-3) Some]) (simp_all add: config_ok_def)
  show ?thesis using assms(1) Some app
    by (auto simp: makeCall_def command_simps world_ok_draw1 call_event_def[symmetric]
        split: option.split)
qed

lemma lockChallengeStake_ok:
  assumes "world_ok uuid w" "plain_wallet u" "config_ok cfg"
  shows "world_ok uuid (snd (lockChallengeStake uuid cfg u i w))"
proof (cases "dossier_of w u")
  case None
  with assms show ?thesis by (simp add: lockChallengeStake_def command_simps)
next
  case (Some d)
  let ?p = "ChallengeStakeLocked \<lparr>sl_challengeId = li_challengeId i,
         sl_matchId = li_matchId i, sl_side = li_side i, sl_stake = li_stake i, sl_role = li_role i\<rparr>"
  have app: "world_ok uuid (actor_after uuid u [?p] w)"
    if "gc_minStake cfg \<le> li_stake i" "li_stake i \<le> ds_balance d + ds_bonus d"
      "jm_get (ds_openStakes d) (li_challengeId i) = None"
    using that assms(3)
    by (intro actor_after_one_ok[OF assms(1,2) Some]) (simp_all add: is_signing_def config_ok_def)
  show ?thesis using assms(1) Some app has_stake_eq[OF world_file(2)[OF assms(1) Some]]
    by (auto simp: lockChallengeStake_def command_simps)
qed

lemma harmless_event_ok:
  assumes "world_ok uuid w" "plain_wallet u" "dossier_of w u = Some d"
    and "p = HotTakeDeclared a b c \<or> p = VerdictIssued v \<or> p = ChatExchanged m r \<or> p = TraitObserved t"
  shows "world_ok uuid (actor_after uuid u [p] w)"
  using assms(4) by (intro actor_after_one_ok[OF assms(1-3)]) (auto simp: is_signing_def)

lemma declareHotTake_ok:
  assumes "world_ok uuid w" "plain_wallet u"
  shows "world_ok uuid (snd (declareHotTake uuid u txt w))"
proof (cases "dossier_of w u")
  case (Some d)
  then have "world_ok uuid (actor_after uuid u [HotTakeDeclared k t None] (w\<lparr>w_drawn := Suc (w_drawn w)\<rparr>))" for k t
    using assms by (intro harmless_event_ok[OF world_ok_draw1]) auto
  with assms Some show ?thesis by (simp add: declareHotTake_def command_simps world_ok_draw1)
qed (use assms in \<open>simp add: declareHotTake_def command_simps\<close>)

lemma requestVerdict_ok:
  assumes "world_ok uuid w" "plain_wallet u"
  shows "world_ok uuid (snd (requestVerdict uuid compose u trg w))"
proof (cases "dossier_of w u")
  case (Some d)
  then have "world_ok uuid (actor_after uuid u [VerdictIssued v] (w\<lparr>w_drawn := Suc (w_drawn w)\<rparr>))" for v
    using assms by (intro harmless_event_ok[OF world_ok_draw1]) auto
  with assms Some show ?thesis
    by (simp add: requestVerdict_def command_simps world_ok_draw1 split: sum.split prod.split)
qed (use assms in \<open>simp add: requestVerdict_def command_simps\<close>)

lemma recordChat_ok:
  "world_ok uuid w \<Longrightarrow> plain_wallet u \<Longrightarrow> world_ok uuid (snd (recordChat uuid u msg reply w))"
  by (cases "dossier_of w u") (auto simp: recordChat_def command_simps intro: harmless_event_ok)

lemma observeTrait_ok:
  "world_ok uuid w \<Longrightarrow> plain_wallet u \<Longrightarrow> world_ok uuid (snd (observeTrait uuid u t w))"
  by (cases "dossier_of w u") (auto simp: observeTrait_def command_simps intro: harmless_event_ok)

section \<open>Settlement instructions keep the world\<close>

lemma settle_events_step:
  assumes "ds_openCalls d = oc" "jm_get oc k = Some c"
  shows "\<exists>p tail. settle_events k (toView d) c won pay = CallSettled p # tail \<and>
      cs_callId p = k \<and> cs_stake p = oc_stake c \<and> cs_payout p = pay \<and> cs_pnlDelta p = pay - oc_stake c \<and>
      cs_result p = (if won then WON else LOST) \<and>
      (tail = [] \<or> (\<exists>t. tail = [TierChanged t]))"
  by (simp add: settle_events_def Let_def)

lemma settle_after_ok:
  assumes ok: "world_ok uuid w" "plain_wallet u" and d: "dossier_of w u = Some d"
    and c: "jm_get (ds_openCalls d) k = Some c" and pay: "0 \<le> pay"
  shows "world_ok uuid (actor_after uuid u (settle_events k (toView d) c won pay) w)"
proof -
  obtain p tail where ev: "settle_events k (toView d) c won pay = CallSettled p # tail"
    and p: "cs_callId p = k" "cs_stake p = oc_stake c" "cs_payout p = pay" "cs_pnlDelta p = pay - oc_stake c"
    and tail: "tail = [] \<or> (\<exists>t. tail = [TierChanged t])"
    using settle_events_step[OF refl c] by metis
  have v: "event_valid (CallSettled p) d" using c p pay by simp
  have one: "event_placed (playerStream u) (PlayerE (CallSettled p))"
    "admissible uuid (w_drawn w) (playerStream u) (PlayerE (CallSettled p)) (rm_dossier (w_rm w))"
    using admissible_one[OF ok(2) d _ v] by (simp_all add: is_signing_def)
  have two: "event_placed (playerStream u) (PlayerE (TierChanged t))"
    "admissible uuid (w_drawn w) (playerStream u) (PlayerE (TierChanged t)) (jm_set u d' ds)" for t d' ds
    using ok(2) by (simp_all add: event_placed_def admissible_def)
  have step: "dossier_apply \<lparr>ev_id = [], ev_streamId = playerStream u, ev_version = 0, ev_at = w_now w,
      ev_payload = PlayerE (CallSettled p)\<rparr> (rm_dossier (w_rm w)) =
      jm_set u (dossier_step (w_now w) (CallSettled p) d) (rm_dossier (w_rm w))"
    using ok(2) d by (subst dossier_apply_step[of _ "CallSettled p"]) (simp_all add: is_signing_def)
  show ?thesis unfolding ev
    using tail one two by (intro actor_after_ok[OF ok]) (auto simp: step)
qed

lemma settleCall_eq:
  assumes "world_ok uuid w"
  shows "settleCall uuid u k won pay w =
    (case dossier_of w u of None \<Rightarrow> (Inr (), w) | Some d \<Rightarrow>
      (case jm_get (ds_openCalls d) k of None \<Rightarrow> (Inr (), w)
       | Some c \<Rightarrow> (Inr (), actor_after uuid u (settle_events k (toView d) c won pay) w)))"
  using assms by (auto simp: settleCall_def command_simps find_call_eq world_file split: option.split)

lemma voidCall_eq:
  assumes "world_ok uuid w"
  shows "voidCall uuid u k reason w =
    (case dossier_of w u of None \<Rightarrow> (Inr (), w) | Some d \<Rightarrow>
      (case jm_get (ds_openCalls d) k of None \<Rightarrow> (Inr (), w)
       | Some c \<Rightarrow> (Inr (), actor_after uuid u [CallVoided \<lparr>cv_callId = k, cv_matchId = oc_matchId c,
               cv_marketId = oc_marketId c, cv_refund = oc_stake c, cv_reason = reason\<rparr>] w)))"
  using assms by (auto simp: voidCall_def command_simps find_call_eq world_file split: option.split)

lemma settleChallengeStake_eq:
  assumes "world_ok uuid w"
  shows "settleChallengeStake uuid u k result pay w =
    (case dossier_of w u of None \<Rightarrow> (Inr (), w) | Some d \<Rightarrow>
      (case jm_get (ds_openStakes d) k of None \<Rightarrow> (Inr (), w)
       | Some s \<Rightarrow> (Inr (), actor_after uuid u [ChallengeStakeSettled \<lparr>ss_challengeId = k,
               ss_matchId = os_matchId s, ss_result = result, ss_stake = os_stake s, ss_payout = pay,
               ss_pnlDelta = pay - os_stake s\<rparr>] w)))"
  using assms by (auto simp: settleChallengeStake_def command_simps find_stake_eq world_file split: option.split)

lemma refundChallengeStake_eq:
  assumes "world_ok uuid w"
  shows "refundChallengeStake uuid u k reason w =
    (case dossier_of w u of None \<Rightarrow> (Inr (), w) | Some d \<Rightarrow>
      (case jm_get (ds_openStakes d) k of None \<Rightarrow> (Inr (), w)
       | Some s \<Rightarrow> (Inr (), actor_after uuid u [ChallengeStakeRefunded \<lparr>sr_challengeId = k,
               sr_matchId = os_matchId s, sr_refund = os_stake s, sr_reason = reason\<rparr>] w)))"
  using assms by (auto simp: refundChallengeStake_def command_simps find_stake_eq world_file split: option.split)

lemma settleCall_ok:
  assumes "world_ok uuid w" "plain_wallet u" "0 \<le> pay"
  shows "world_ok uuid (snd (settleCall uuid u k won pay w))"
  using assms settle_after_ok by (simp add: settleCall_eq split: option.split)

lemma voidCall_ok:
  assumes "world_ok uuid w" "plain_wallet u"
  shows "world_ok uuid (snd (voidCall uuid u k reason w))"
  using assms by (auto simp: voidCall_eq is_signing_def intro!: actor_after_one_ok split: option.split)

lemma settleChallengeStake_ok:
  assumes "world_ok uuid w" "plain_wallet u" "0 \<le> pay"
  shows "world_ok uuid (snd (settleChallengeStake uuid u k result pay w))"
  using assms by (auto simp: settleChallengeStake_eq is_signing_def intro!: actor_after_one_ok split: option.split)

lemma refundChallengeStake_ok:
  assumes "world_ok uuid w" "plain_wallet u"
  shows "world_ok uuid (snd (refundChallengeStake uuid u k reason w))"
  using assms by (auto simp: refundChallengeStake_eq is_signing_def intro!: actor_after_one_ok split: option.split)

section \<open>Any command\<close>

text \<open>The commands an actor's mailbox takes, and the answers of the ports they call.\<close>

datatype player_command =
  SignContract "string option"
| Deposit frost "string option"
| Withdraw frost
| EnsureHouseFunded frost
| ClaimWelcomeGrant frost
| MakeCall call_input
| LockChallengeStake lock_input
| DeclareHotTake string
| RequestVerdict verdict_trigger
| RecordChat string string
| SettleCall call_id bool frost
| VoidCall call_id string
| SettleChallengeStake challenge_id call_result frost
| RefundChallengeStake challenge_id string
| ObserveTrait trait_observed

record ports =
  pt_confirmDeposit :: "wallet \<Rightarrow> frost \<Rightarrow> string option \<Rightarrow> string + string"
  pt_withdraw :: "wallet \<Rightarrow> frost \<Rightarrow> string + string"
  pt_composeVerdict :: "wallet \<Rightarrow> verdict_trigger \<Rightarrow> string + string \<times> string list"

definition failure_of :: "'a outcome_of \<Rightarrow> failure option \<times> world" where
  "failure_of r = (case fst r of Inl f \<Rightarrow> Some f | Inr _ \<Rightarrow> None, snd r)"

fun exec :: "uuids \<Rightarrow> game_config \<Rightarrow> ports \<Rightarrow> wallet \<Rightarrow> player_command \<Rightarrow> world \<Rightarrow> failure option \<times> world" where
  "exec uuid cfg pt u (SignContract h) w = failure_of (signContract uuid u h w)"
| "exec uuid cfg pt u (Deposit a r) w = failure_of (deposit uuid (pt_confirmDeposit pt) u a r w)"
| "exec uuid cfg pt u (Withdraw a) w = failure_of (withdraw uuid cfg (pt_withdraw pt) u a w)"
| "exec uuid cfg pt u (EnsureHouseFunded a) w = failure_of (ensureHouseFunded uuid u a w)"
| "exec uuid cfg pt u (ClaimWelcomeGrant a) w = failure_of (claimWelcomeGrant uuid u a w)"
| "exec uuid cfg pt u (MakeCall i) w = failure_of (makeCall uuid cfg u i w)"
| "exec uuid cfg pt u (LockChallengeStake i) w = failure_of (lockChallengeStake uuid cfg u i w)"
| "exec uuid cfg pt u (DeclareHotTake t) w = failure_of (declareHotTake uuid u t w)"
| "exec uuid cfg pt u (RequestVerdict t) w = failure_of (requestVerdict uuid (pt_composeVerdict pt) u t w)"
| "exec uuid cfg pt u (RecordChat m r) w = failure_of (recordChat uuid u m r w)"
| "exec uuid cfg pt u (SettleCall k b p) w = failure_of (settleCall uuid u k b p w)"
| "exec uuid cfg pt u (VoidCall k r) w = failure_of (voidCall uuid u k r w)"
| "exec uuid cfg pt u (SettleChallengeStake k c p) w = failure_of (settleChallengeStake uuid u k c p w)"
| "exec uuid cfg pt u (RefundChallengeStake k r) w = failure_of (refundChallengeStake uuid u k r w)"
| "exec uuid cfg pt u (ObserveTrait t) w = failure_of (observeTrait uuid u t w)"

text \<open>A settlement pays no negative amount, and the house funds its bots with none.\<close>

fun command_ok :: "player_command \<Rightarrow> bool" where
  "command_ok (EnsureHouseFunded a) \<longleftrightarrow> 0 \<le> a"
| "command_ok (SettleCall _ _ p) \<longleftrightarrow> 0 \<le> p"
| "command_ok (SettleChallengeStake _ _ p) \<longleftrightarrow> 0 \<le> p"
| "command_ok _ \<longleftrightarrow> True"

lemma snd_failure_of [simp]: "snd (failure_of r) = snd r"
  by (simp add: failure_of_def)

lemma exec_ok:
  assumes "world_ok uuid w" "plain_wallet u" "inj uuid" "config_ok cfg" "command_ok c"
  shows "world_ok uuid (snd (exec uuid cfg pt u c w))"
  using assms
  by (cases c) (simp_all add: signContract_ok deposit_ok withdraw_ok ensureHouseFunded_ok
      claimWelcomeGrant_ok makeCall_ok lockChallengeStake_ok declareHotTake_ok requestVerdict_ok
      recordChat_ok settleCall_ok voidCall_ok settleChallengeStake_ok refundChallengeStake_ok observeTrait_ok)

text \<open>No command but the second claim of the grant fails with a conflict.\<close>

lemma exec_no_conflict:
  assumes "world_ok uuid w" "plain_wallet u" "inj uuid" "config_ok cfg" "command_ok c"
    and "fst (exec uuid cfg pt u c w) = Some (DomainError CONFLICT)"
  shows "\<exists>a. c = ClaimWelcomeGrant a"
proof (cases c)
  case (Withdraw a)
  show ?thesis
  proof (cases "dossier_of w u")
    case None
    with assms(6) Withdraw show ?thesis by (simp add: failure_of_def withdraw_def command_simps)
  next
    case (Some d)
    let ?w1 = "w\<lparr>w_drawn := Suc (w_drawn w)\<rparr>"
    have d1: "dossier_of ?w1 u = Some d" using Some by simp
    note st = withdraw_steps[OF world_ok_draw1[OF assms(1)] assms(2) d1 _ _ refl]
    show ?thesis using assms(6) Withdraw Some world_ok_draw1[OF assms(1)] st(1,2,5,6)[of a]
      by (auto simp: failure_of_def withdraw_def command_simps split: if_splits sum.splits option.splits)
  qed
next
  case (SettleCall k b p)
  with assms show ?thesis
    by (auto simp: failure_of_def settleCall_eq split: option.splits)
qed (use assms in \<open>auto simp: failure_of_def signContract_def deposit_def ensureHouseFunded_def makeCall_def
    lockChallengeStake_def declareHotTake_def requestVerdict_def recordChat_def voidCall_eq
    settleChallengeStake_eq refundChallengeStake_eq observeTrait_def command_simps world_ok_draw1
    split: option.splits if_splits sum.splits prod.splits\<close>)

end
