(* ===== verification/Custody.thy ===== *)
theory Custody
  imports PlayerActor
begin

text \<open>
  Custody, the seam between the ledger and the chain (ports/Custody.ts): the play ledger, which grants
  whatever it is asked, and the Solana custody, which confirms a deposit from the transaction its proof
  names and pays a withdrawal from the Sessions wallet. The chain's answers and the library that derives
  token accounts, signs and sends are the arguments gathered in \<open>solana_chain\<close>: a request that throws is
  \<open>Inl\<close> its message. A token amount, a decimal text in the RPC's answer, is the number it reads as.
\<close>

section \<open>Play money\<close>

text \<open>The counter \<open>notionalSeq\<close> is the argument; the answer comes with its next value.\<close>

definition play_confirm_deposit :: "nat \<Rightarrow> wallet \<Rightarrow> frost \<Rightarrow> string option \<Rightarrow> (string + string) \<times> nat" where
  "play_confirm_deposit n u amount proof_ref = (Inr (''play_deposit_'' @ nat_str (Suc n)), Suc n)"

definition play_withdraw :: "nat \<Rightarrow> wallet \<Rightarrow> frost \<Rightarrow> (string + string) \<times> nat" where
  "play_withdraw n u amount = (Inr (''play_withdraw_'' @ nat_str (Suc n)), Suc n)"

section \<open>Solana\<close>

record custody_balance =
  tb_owner :: "wallet option"
  tb_mint :: string
  tb_amount :: int

record custody_tx =
  tm_err :: bool
  tm_pre :: "custody_balance list option"
  tm_post :: "custody_balance list option"

record token_transfer =
  tt_source :: string
  tt_mint :: string
  tt_destination :: string
  tt_authority :: wallet
  tt_amount :: frost
  tt_decimals :: nat

text \<open>What the chain and its library answer: a transaction by its signature (none when it is not found,
  and its \<open>meta\<close> may be missing), the token account of a mint and an owner, the two balances, and the
  end of signing, sending and confirming a transfer.\<close>

record solana_chain =
  sc_getTransaction :: "string \<Rightarrow> string + custody_tx option option"
  sc_ata :: "string \<Rightarrow> wallet \<Rightarrow> string + string"
  sc_getBalance :: "wallet \<Rightarrow> string + int"
  sc_tokenBalance :: "string \<Rightarrow> string + int"
  sc_sendAndConfirm :: "token_transfer \<Rightarrow> string + string"

record custody_config =
  sk_address :: wallet
  sk_usdcMint :: string

definition USDC_DECIMALS :: nat where
  "USDC_DECIMALS = 6"

definition SOL_GAS_FLOOR :: int where
  "SOL_GAS_FLOOR = 10000000"

definition owned_amount :: "wallet \<Rightarrow> custody_balance list \<Rightarrow> int" where
  "owned_amount u bs = (case find (\<lambda>b. tb_owner b = Some u) bs of None \<Rightarrow> 0 | Some b \<Rightarrow> tb_amount b)"

definition deltaFor :: "custody_tx option \<Rightarrow> wallet \<Rightarrow> int" where
  "deltaFor m u =
     (let balances = (\<lambda>f. case m of None \<Rightarrow> [] | Some x \<Rightarrow> (case f x of None \<Rightarrow> [] | Some bs \<Rightarrow> bs))
      in owned_amount u (balances tm_post) - owned_amount u (balances tm_pre))"

definition solana_confirm_deposit :: "solana_chain \<Rightarrow> custody_config \<Rightarrow> wallet \<Rightarrow> frost \<Rightarrow> string option
    \<Rightarrow> string + string" where
  "solana_confirm_deposit ch cfg u amount proof_ref =
     (case truthy proof_ref of
        None \<Rightarrow> Inl ''on-chain deposit requires a proof (the USDC transfer's tx signature)''
      | Some p \<Rightarrow>
         (case sc_getTransaction ch p of
            Inl msg \<Rightarrow> Inl msg
          | Inr None \<Rightarrow> Inl (''deposit tx '' @ p @ '' did not finalise successfully'')
          | Inr (Some meta) \<Rightarrow>
              if (case meta of None \<Rightarrow> False | Some x \<Rightarrow> tm_err x)
              then Inl (''deposit tx '' @ p @ '' did not finalise successfully'')
              else case sc_ata ch (sk_usdcMint cfg) (sk_address cfg) of
                Inl msg \<Rightarrow> Inl msg
              | Inr _ \<Rightarrow>
                 (case sc_ata ch (sk_usdcMint cfg) u of
                    Inl msg \<Rightarrow> Inl msg
                  | Inr _ \<Rightarrow>
                      if deltaFor meta (sk_address cfg) < amount
                      then Inl (''deposit tx '' @ p @ '' does not credit '' @ int_str amount
                        @ '' FROST of USDC to the Sessions wallet'')
                      else if 0 \<le> deltaFor meta u
                      then Inl (''deposit tx '' @ p @ '' did not move USDC out of '' @ u)
                      else Inr p)))"

definition PAUSED :: string where
  "PAUSED = ''Withdrawals are temporarily paused '' @ [CHR 0xE2, CHR 0x80, CHR 0x94] @ '' the Sessions wallet ''"

definition custody_float :: "solana_chain \<Rightarrow> custody_config \<Rightarrow> string + int \<times> int" where
  "custody_float ch cfg =
     (case sc_getBalance ch (sk_address cfg) of
        Inl msg \<Rightarrow> Inl msg
      | Inr sol \<Rightarrow>
         (case sc_ata ch (sk_usdcMint cfg) (sk_address cfg) of
            Inl msg \<Rightarrow> Inl msg
          | Inr ata \<Rightarrow> Inr (sol, case sc_tokenBalance ch ata of Inl _ \<Rightarrow> 0 | Inr usdc \<Rightarrow> usdc)))"

definition solana_withdraw :: "solana_chain \<Rightarrow> custody_config \<Rightarrow> wallet \<Rightarrow> frost \<Rightarrow> string + string" where
  "solana_withdraw ch cfg u amount =
     (case custody_float ch cfg of
        Inl msg \<Rightarrow> Inl msg
      | Inr (sol, usdc) \<Rightarrow>
          if usdc < amount then Inl (PAUSED @ ''float is being topped up. Try again shortly.'')
          else if sol < SOL_GAS_FLOOR then Inl (PAUSED @ ''is low on gas. Try again shortly.'')
          else case sc_ata ch (sk_usdcMint cfg) (sk_address cfg) of
            Inl msg \<Rightarrow> Inl msg
          | Inr source \<Rightarrow>
             (case sc_ata ch (sk_usdcMint cfg) u of
                Inl msg \<Rightarrow> Inl msg
              | Inr dest \<Rightarrow> sc_sendAndConfirm ch \<lparr>tt_source = source, tt_mint = sk_usdcMint cfg,
                  tt_destination = dest, tt_authority = sk_address cfg, tt_amount = amount,
                  tt_decimals = USDC_DECIMALS\<rparr>))"

text \<open>What a confirmed deposit rests on: the proof comes back as the reference, and the transaction it
  names did not fail, put at least the amount into the Sessions wallet and took tokens from the player.\<close>

lemma solana_confirmed:
  assumes "solana_confirm_deposit ch cfg u amount (Some p) = Inr ref"
  shows "ref = p \<and> p \<noteq> [] \<and> (\<exists>meta. sc_getTransaction ch p = Inr (Some meta) \<and>
    (\<forall>m. meta = Some m \<longrightarrow> \<not> tm_err m) \<and>
    amount \<le> deltaFor meta (sk_address cfg) \<and> deltaFor meta u < 0)"
  using assms
  by (auto simp: solana_confirm_deposit_def truthy_def split: if_splits sum.splits option.splits)

text \<open>What is paid is what was asked, from the Sessions wallet's account to the player's, within the float.\<close>

lemma solana_paid:
  assumes "solana_withdraw ch cfg u amount = Inr ref"
  shows "\<exists>source dest. sc_ata ch (sk_usdcMint cfg) (sk_address cfg) = Inr source \<and>
    sc_ata ch (sk_usdcMint cfg) u = Inr dest \<and>
    sc_sendAndConfirm ch \<lparr>tt_source = source, tt_mint = sk_usdcMint cfg, tt_destination = dest,
       tt_authority = sk_address cfg, tt_amount = amount, tt_decimals = 6\<rparr> = Inr ref \<and>
    amount \<le> (case sc_tokenBalance ch source of Inl _ \<Rightarrow> 0 | Inr usdc \<Rightarrow> usdc)"
  using assms
  by (auto simp: solana_withdraw_def custody_float_def USDC_DECIMALS_def not_less split: if_splits sum.splits)

text \<open>A chain with two transfers of five units from Ann to the house: one of USDC, one of another token.\<close>

definition deposit_tx :: "string \<Rightarrow> custody_tx" where
  "deposit_tx mint = \<lparr>tm_err = False,
     tm_pre = Some [\<lparr>tb_owner = Some ''ann'', tb_mint = mint, tb_amount = 9000000\<rparr>],
     tm_post = Some [\<lparr>tb_owner = Some ''ann'', tb_mint = mint, tb_amount = 4000000\<rparr>,
       \<lparr>tb_owner = Some ''house'', tb_mint = mint, tb_amount = 5000000\<rparr>]\<rparr>"

definition sample_chain :: solana_chain where
  "sample_chain = \<lparr>sc_getTransaction = (\<lambda>p. if p = ''d2'' then Inr (Some (Some (deposit_tx ''usdc'')))
       else if p = ''d3'' then Inr (Some (Some (deposit_tx ''other''))) else Inr None),
     sc_ata = (\<lambda>mint u. Inr (mint @ u)), sc_getBalance = (\<lambda>u. Inr 20000000),
     sc_tokenBalance = (\<lambda>a. Inr 5000000), sc_sendAndConfirm = (\<lambda>t. Inr ''tx'')\<rparr>"

definition sample_custody :: custody_config where
  "sample_custody = \<lparr>sk_address = ''house'', sk_usdcMint = ''usdc''\<rparr>"

text \<open>The balances are looked up by owner and not by mint, so a transfer of any other token is
  confirmed as a deposit of USDC.\<close>

lemma foreign_token_confirmed:
  "solana_confirm_deposit sample_chain sample_custody ''ann'' 5000000 (Some ''d3'') = Inr ''d3'' \<and>
   list_all (\<lambda>b. tb_mint b \<noteq> sk_usdcMint sample_custody) (the (tm_pre (deposit_tx ''other'')) @
     the (tm_post (deposit_tx ''other'')))"
  by code_simp

lemma sample_withdrawals:
  "solana_withdraw sample_chain sample_custody ''ann'' 5000000 = Inr ''tx''"
  "isl (solana_withdraw sample_chain sample_custody ''ann'' 5000001)"
  by code_simp+

end
