(* ===== verification/Players.thy ===== *)
theory Players
  imports Custody
begin

text \<open>
  What the player actor's commands promise: no command breaks the world or meets a version
  conflict; a withdrawal is debited before it is paid, once, and made good when the payment fails;
  a deposit on the chain is credited once; a settlement instruction has an effect once; a call moves the
  same stake into the player's file and into the market's pot.
\<close>

section \<open>Sample worlds\<close>

definition sample_uuid :: uuids where
  "sample_uuid n = nat_str n"

lemma inj_sample_uuid: "inj sample_uuid"
  by (rule injI) (simp add: sample_uuid_def nat_str_inj)

definition sample_ports :: ports where
  "sample_ports = \<lparr>pt_confirmDeposit = (\<lambda>u a r. case r of None \<Rightarrow> Inl ''no proof'' | Some d \<Rightarrow> Inr d),
     pt_withdraw = (\<lambda>u a. if a < 5000000 then Inr ''tx'' else Inl ''float is being topped up''),
     pt_composeVerdict = (\<lambda>u t. Inr (''steady'', []))\<rparr>"

definition sample_boot :: world where
  "sample_boot = boot [] 0 0"

lemma sample_boot_ok: "world_ok sample_uuid sample_boot"
  by (simp add: sample_boot_def world_ok_boot log_ok_Nil)

lemma plain_samples [simp]: "plain_wallet ''ann''" "plain_wallet ''bob''" "plain_wallet ''cy''"
  by (simp_all add: plain_wallet_def starts_with_def)

text \<open>Ann has signed and deposited 9 units of a million each.\<close>

definition sample_ann :: world where
  "sample_ann = snd (exec sample_uuid default_config sample_ports ''ann'' (Deposit 9000000 (Some ''d1''))
     (snd (exec sample_uuid default_config sample_ports ''ann'' (SignContract None) sample_boot)))"

lemma sample_ann_ok: "world_ok sample_uuid sample_ann"
  unfolding sample_ann_def
  by (intro exec_ok sample_boot_ok inj_sample_uuid default_config_ok) simp_all

section \<open>Consistency\<close>

text \<open>C4: Whatever a player or the settlement asks of an actor, the world stays consistent and
  the single-writer discipline holds: after any command, accepted or rejected, the stream
  versions count up from 0, the read model is the fold of the log, every remembered version
  is the length of its stream, every player's file is well-formed (no negative money, locked
  money equal to the open stakes), and the command never fails on a version conflict (the one
  command that answers CONFLICT is a second claim of the starter grant).\<close>

theorem actor_keeps_world:
  assumes "world_ok uuid w" "plain_wallet u" "inj uuid" "config_ok cfg" "command_ok c"
  shows "world_ok uuid (snd (exec uuid cfg pt u c w)) \<and>
    (fst (exec uuid cfg pt u c w) = Some (DomainError CONFLICT) \<longrightarrow> (\<exists>a. c = ClaimWelcomeGrant a)) \<and>
    (\<forall>v d. dossier_of (snd (exec uuid cfg pt u c w)) v = Some d \<longrightarrow> dossier_ok d)"
proof (intro conjI allI impI)
  show ok: "world_ok uuid (snd (exec uuid cfg pt u c w))" by (rule exec_ok[OF assms])
  show "\<exists>a. c = ClaimWelcomeGrant a" if "fst (exec uuid cfg pt u c w) = Some (DomainError CONFLICT)"
    by (rule exec_no_conflict[OF assms that])
  show "dossier_ok d" if "dossier_of (snd (exec uuid cfg pt u c w)) v = Some d" for v d
    by (rule world_file(2)[OF ok that])
qed

theorem actor_keeps_world_witness:
  "world_ok sample_uuid (snd (exec sample_uuid default_config sample_ports ''ann'' (Withdraw 2000000) sample_ann)) \<and>
   map_option ds_balance (dossier_of (snd (exec sample_uuid default_config sample_ports ''ann''
     (Withdraw 2000000) sample_ann)) ''ann'') = Some 7000000"
proof -
  have "map_option ds_balance (dossier_of (snd (exec sample_uuid default_config sample_ports ''ann''
     (Withdraw 2000000) sample_ann)) ''ann'') = Some 7000000" by code_simp
  moreover have "command_ok (Withdraw 2000000)" by simp
  moreover from this have "world_ok sample_uuid
      (snd (exec sample_uuid default_config sample_ports ''ann'' (Withdraw 2000000) sample_ann))"
    by (rule actor_keeps_world[OF sample_ann_ok plain_samples(1) inj_sample_uuid default_config_ok, THEN conjunct1])
  ultimately show ?thesis by (intro conjI)
qed

section \<open>Withdrawals\<close>

lemma fold_houseRevenue_one:
  "rm_houseRevenue (w_rm (actor_after uuid u [p] w)) = rm_houseRevenue (w_rm w) + fee_of_event (PlayerE p)"
  by (simp add: appended_one actor_after_rm)

text \<open>C6: A withdrawal is debited before it is paid, paid at most once and never for free. A call to
  custody is made exactly when the checks pass, once, for the amount less the fee; and the log at
  the moment of that call already has the debit: a process that dies with the payment in flight
  and boots on that log shows the reduced balance. If the withdrawal succeeds, custody answered
  that payment, the free balance dropped by the whole amount, which it covered, and the fee
  became house revenue. If it fails, for a rule or because the payment failed, the player's
  file and the revenue are as before. No other player's file changes.\<close>

theorem withdraw_two_phase:
  assumes ok: "world_ok uuid w" and u: "plain_wallet u" and d: "dossier_of w u = Some d"
  defines "r \<equiv> \<lambda>amount pay cfg. withdraw uuid cfg pay u amount w"
    and "allowed \<equiv> \<lambda>amount cfg. 0 < amount \<and> amount \<le> ds_balance d \<and> withdraw_fee cfg amount < amount"
    and "debited \<equiv> \<lambda>amount. d\<lparr>ds_balance := ds_balance d - amount\<rparr>"
  shows "(case fst (r amount pay cfg) of
       Inr x \<Rightarrow> allowed amount cfg \<and> pay u (wd_net x) = Inr (wd_ref x) \<and> wd_fee x = withdraw_fee cfg amount \<and>
         wd_net x + wd_fee x = amount \<and> dossier_of (snd (r amount pay cfg)) u = Some (debited amount) \<and>
         rm_houseRevenue (w_rm (snd (r amount pay cfg))) = rm_houseRevenue (w_rm w) + wd_fee x
     | Inl f \<Rightarrow> dossier_of (snd (r amount pay cfg)) u = Some d \<and>
         rm_houseRevenue (w_rm (snd (r amount pay cfg))) = rm_houseRevenue (w_rm w)) \<and>
    (if allowed amount cfg
     then \<exists>lg. w_payments (snd (r amount pay cfg)) =
         w_payments w @ [(lg, u, amount - withdraw_fee cfg amount)] \<and>
       lg = take (Suc (length (w_log w))) (w_log (snd (r amount pay cfg))) \<and>
       jm_get (rm_dossier (hydrate lg)) u = Some (debited amount)
     else w_payments (snd (r amount pay cfg)) = w_payments w) \<and>
    (\<forall>v. v \<noteq> u \<longrightarrow> dossier_of (snd (r amount pay cfg)) v = dossier_of w v)"
proof (cases "allowed amount cfg")
  case False
  then show ?thesis using d
    by (auto simp: r_def withdraw_def command_simps allowed_def not_le not_less)
next
  case True
  let ?w1 = "w\<lparr>w_drawn := Suc (w_drawn w)\<rparr>" and ?fee = "withdraw_fee cfg amount"
    and ?wid = "newId ''wd'' (uuid (w_drawn w))"
  let ?w2 = "actor_after uuid u [WithdrawalInitiated ?wid amount (Some ?fee)] ?w1"
  have w1: "world_ok uuid ?w1" and d1: "dossier_of ?w1 u = Some d" using ok d by (simp_all add: world_ok_draw1)
  have amt: "0 < amount" "amount \<le> ds_balance d" using True by (simp_all add: allowed_def)
  note st = withdraw_steps[OF w1 u d1 amt refl]
  let ?w3 = "?w2\<lparr>w_payments := w_payments w @ [(w_log ?w2, u, amount - ?fee)]\<rparr>"
  have run: "r amount pay cfg = (case pay u (amount - ?fee) of
        Inl msg \<Rightarrow> (Inl (OtherError msg), actor_after uuid u [WithdrawalReversed ?wid amount (Some msg)] ?w3)
      | Inr ref \<Rightarrow> (Inr \<lparr>wd_balance = ds_balance d - amount, wd_ref = ref, wd_net = amount - ?fee, wd_fee = ?fee\<rparr>,
          actor_after uuid u [WithdrawalSettled ?wid amount (Some ?fee) (Some ref)] ?w3))"
    using True d w1 st(1,2,6)
    by (simp add: r_def withdraw_def command_simps allowed_def not_le not_less split: sum.split)
  have rev: "rm_houseRevenue (w_rm ?w2) = rm_houseRevenue (w_rm w)"
    by (simp add: fold_houseRevenue_one)
  have hyd: "w_rm ?w2 = hydrate (w_log ?w2)" using st(1) by (simp only: world_ok_def)
  have deb: "jm_get (rm_dossier (hydrate (w_log ?w2))) u = Some (debited amount)"
    unfolding hyd[symmetric] debited_def by (rule st(2))
  have lg: "take (Suc (length (w_log w))) (w_log (snd (r amount pay cfg))) = w_log ?w2"
    and pays: "w_payments (snd (r amount pay cfg)) = w_payments w @ [(w_log ?w2, u, amount - ?fee)]"
    by (simp_all add: run appended_one split: sum.split)
  have others: "dossier_of (snd (r amount pay cfg)) v = dossier_of w v" if "v \<noteq> u" for v
    using that u by (simp add: run actor_after_dossier is_signing_def split: sum.split)
  have "(case fst (r amount pay cfg) of
       Inr x \<Rightarrow> allowed amount cfg \<and> pay u (wd_net x) = Inr (wd_ref x) \<and> wd_fee x = ?fee \<and>
         wd_net x + wd_fee x = amount \<and> dossier_of (snd (r amount pay cfg)) u = Some (debited amount) \<and>
         rm_houseRevenue (w_rm (snd (r amount pay cfg))) = rm_houseRevenue (w_rm w) + wd_fee x
     | Inl f \<Rightarrow> dossier_of (snd (r amount pay cfg)) u = Some d \<and>
         rm_houseRevenue (w_rm (snd (r amount pay cfg))) = rm_houseRevenue (w_rm w))"
    using True st(4,6) rev
    by (simp add: run debited_def fold_houseRevenue_one fee_or_zero_def split: sum.split)
  with True deb lg pays others show ?thesis by simp
qed

theorem withdraw_two_phase_witness:
  "(\<exists>d. dossier_of sample_ann ''ann'' = Some d \<and>
     fst (exec sample_uuid default_config sample_ports ''ann'' (Withdraw 8000000) sample_ann)
       = Some (OtherError ''float is being topped up'') \<and>
     dossier_of (snd (exec sample_uuid default_config sample_ports ''ann'' (Withdraw 8000000) sample_ann)) ''ann''
       = Some d \<and>
     dossier_of (snd (exec sample_uuid default_config sample_ports ''ann'' (Withdraw 2000000) sample_ann)) ''ann''
       = Some (d\<lparr>ds_balance := 7000000\<rparr>)) \<and>
   map snd (w_payments (snd (exec sample_uuid default_config sample_ports ''ann'' (Withdraw 2000000) sample_ann)))
     = [(''ann'', 2000000 - withdraw_fee default_config 2000000)]"
proof -
  have ex: "map_option ds_balance (dossier_of sample_ann ''ann'') = Some 9000000" by code_simp
  then obtain d where d: "dossier_of sample_ann ''ann'' = Some d" "ds_balance d = 9000000" by auto
  have f: "fst (exec sample_uuid default_config sample_ports ''ann'' (Withdraw 8000000) sample_ann)
     = Some (OtherError ''float is being topped up'')" by code_simp
  have g: "fst (exec sample_uuid default_config sample_ports ''ann'' (Withdraw 2000000) sample_ann) = None" by code_simp
  have fee: "withdraw_fee default_config 2000000 < 2000000" and no: "w_payments sample_ann = []" by code_simp+
  note law = withdraw_two_phase[OF sample_ann_ok plain_samples(1) d(1), where
      pay = "pt_withdraw sample_ports" and cfg = default_config]
  have "\<exists>e. fst (withdraw sample_uuid default_config (pt_withdraw sample_ports) ''ann'' 8000000 sample_ann) = Inl e"
    using f by (auto simp: failure_of_def split: sum.splits)
  then have a: "dossier_of (snd (withdraw sample_uuid default_config (pt_withdraw sample_ports) ''ann'' 8000000 sample_ann)) ''ann''
     = Some d" using law[where amount = 8000000] by auto
  have "\<exists>x. fst (withdraw sample_uuid default_config (pt_withdraw sample_ports) ''ann'' 2000000 sample_ann) = Inr x"
    using g by (auto simp: failure_of_def split: sum.splits)
  then have b: "dossier_of (snd (withdraw sample_uuid default_config (pt_withdraw sample_ports) ''ann'' 2000000 sample_ann)) ''ann''
     = Some (d\<lparr>ds_balance := 7000000\<rparr>)" using law[where amount = 2000000] d(2) by auto
  have c: "map snd (w_payments (snd (withdraw sample_uuid default_config (pt_withdraw sample_ports) ''ann'' 2000000 sample_ann)))
     = [(''ann'', 2000000 - withdraw_fee default_config 2000000)]"
    using law[where amount = 2000000] d(2) fee no by auto
  show ?thesis using d f a b c by simp
qed

section \<open>Deposits\<close>




text \<open>The play ledger's two answers to one proof, and both are credited.\<close>

lemma play_deposit_replayed:
  "(let dep = \<lambda>n. deposit sample_uuid (\<lambda>u a p. fst (play_confirm_deposit n u a p)) ''ann'' 500 (Some ''d2'')
    in (fst (dep 0 sample_ann), fst (dep 1 (snd (dep 0 sample_ann))))) = (Inr 9000500, Inr 9001000)"
  by code_simp

section \<open>Settlement instructions\<close>

lemma dossier_after_settle:
  assumes ok: "world_ok uuid w" "plain_wallet u" and d: "dossier_of w u = Some d"
    and c: "jm_get (ds_openCalls d) k = Some c" and pay: "0 \<le> pay"
  shows "\<exists>p. dossier_of (actor_after uuid u (settle_events k (toView d) c won pay) w) u =
      Some (settle_call_step (w_now w) p d) \<and> cs_callId p = k \<and> cs_stake p = oc_stake c \<and> cs_payout p = pay \<and>
      cs_pnlDelta p = pay - oc_stake c"
    and "v \<noteq> u \<Longrightarrow> dossier_of (actor_after uuid u (settle_events k (toView d) c won pay) w) v = dossier_of w v"
proof -
  obtain p tail where ev: "settle_events k (toView d) c won pay = CallSettled p # tail"
    and p: "cs_callId p = k" "cs_stake p = oc_stake c" "cs_payout p = pay" "cs_pnlDelta p = pay - oc_stake c"
    and tail: "tail = [] \<or> (\<exists>t. tail = [TierChanged t])"
    using settle_events_step[OF refl c] by metis
  have "rm_dossier (w_rm (actor_after uuid u (CallSettled p # tail) w)) =
      jm_set u (settle_call_step (w_now w) p d) (rm_dossier (w_rm w)) \<or>
    rm_dossier (w_rm (actor_after uuid u (CallSettled p # tail) w)) =
      jm_set u (settle_call_step (w_now w) p d) (jm_set u (settle_call_step (w_now w) p d) (rm_dossier (w_rm w)))"
    using tail ok(2) d
    by (auto simp: actor_after_rm appended_def mk_stored_Cons dossier_apply_step is_signing_def)
  then show "\<exists>p. dossier_of (actor_after uuid u (settle_events k (toView d) c won pay) w) u =
      Some (settle_call_step (w_now w) p d) \<and> cs_callId p = k \<and> cs_stake p = oc_stake c \<and> cs_payout p = pay \<and>
      cs_pnlDelta p = pay - oc_stake c"
    and "v \<noteq> u \<Longrightarrow> dossier_of (actor_after uuid u (settle_events k (toView d) c won pay) w) v = dossier_of w v"
    unfolding ev using p by auto
qed

lemma settled_call_gone:
  "jm_get (ds_openCalls (settle_call_step tm p d)) (cs_callId p) = None"
  by (simp add: settle_call_step_def Let_def)

text \<open>C8: Settlement instructions take effect once. After a call is settled, settling it again,
  with any result and payout, or voiding it, does nothing at all; the same holds after it is
  voided, and for the stake of a challenge once it is settled or refunded. A settlement that
  is driven again after a crash therefore never pays twice.\<close>

theorem settle_once:
  assumes ok: "world_ok uuid w" and u: "plain_wallet u" and pay: "0 \<le> pay"
  shows "(let w1 = snd (settleCall uuid u k won pay w)
      in settleCall uuid u k won' pay' w1 = (Inr (), w1) \<and> voidCall uuid u k reason w1 = (Inr (), w1)) \<and>
    (let w1 = snd (voidCall uuid u k reason w)
      in settleCall uuid u k won' pay' w1 = (Inr (), w1) \<and> voidCall uuid u k reason w1 = (Inr (), w1)) \<and>
    (let w1 = snd (settleChallengeStake uuid u h res pay w)
      in settleChallengeStake uuid u h res' pay' w1 = (Inr (), w1) \<and> refundChallengeStake uuid u h reason w1 = (Inr (), w1)) \<and>
    (let w1 = snd (refundChallengeStake uuid u h reason w)
      in settleChallengeStake uuid u h res' pay' w1 = (Inr (), w1) \<and> refundChallengeStake uuid u h reason w1 = (Inr (), w1))"
proof -
  have call_noop: "settleCall uuid u k won' pay' v = (Inr (), v) \<and> voidCall uuid u k reason v = (Inr (), v)"
    if "world_ok uuid v" "\<And>d. dossier_of v u = Some d \<Longrightarrow> jm_get (ds_openCalls d) k = None" for v
    using that by (simp add: settleCall_eq voidCall_eq split: option.split)
  have stake_noop: "settleChallengeStake uuid u h res' pay' v = (Inr (), v) \<and>
      refundChallengeStake uuid u h reason v = (Inr (), v)"
    if "world_ok uuid v" "\<And>d. dossier_of v u = Some d \<Longrightarrow> jm_get (ds_openStakes d) h = None" for v
    using that by (simp add: settleChallengeStake_eq refundChallengeStake_eq split: option.split)
  have a: "jm_get (ds_openCalls d) k = None" if "dossier_of (snd (settleCall uuid u k won pay w)) u = Some d" for d
  proof -
    have "jm_get (ds_openCalls d) k = None" if w: "dossier_of w u = Some d0" "jm_get (ds_openCalls d0) k = Some c"
      "dossier_of (actor_after uuid u (settle_events k (toView d0) c won pay) w) u = Some d" for d0 c
      using dossier_after_settle(1)[OF ok u w(1,2) pay, of won] w(3) settled_call_gone by auto
    with that show ?thesis by (auto simp: settleCall_eq[OF ok] split: option.splits)
  qed
  have b: "jm_get (ds_openCalls d) k = None" if "dossier_of (snd (voidCall uuid u k reason w)) u = Some d" for d
    using that u by (auto simp: voidCall_eq[OF ok] actor_after_dossier is_signing_def 
        split: option.splits)
  have c: "jm_get (ds_openStakes d) h = None"
    if "dossier_of (snd (settleChallengeStake uuid u h res pay w)) u = Some d" for d
    using that u by (auto simp: settleChallengeStake_eq[OF ok] actor_after_dossier is_signing_def
         split: option.splits)
  have e: "jm_get (ds_openStakes d) h = None"
    if "dossier_of (snd (refundChallengeStake uuid u h reason w)) u = Some d" for d
    using that u by (auto simp: refundChallengeStake_eq[OF ok] actor_after_dossier is_signing_def
         split: option.splits)
  show ?thesis unfolding Let_def
    by (intro conjI call_noop[THEN conjunct1] call_noop[THEN conjunct2] stake_noop[THEN conjunct1]
        stake_noop[THEN conjunct2] settleCall_ok voidCall_ok settleChallengeStake_ok refundChallengeStake_ok
        ok u pay a b c e)
qed

text \<open>Ann's stake of a million in a challenge.\<close>

definition sample_lock :: lock_input where
  "sample_lock = \<lparr>li_challengeId = ''h1'', li_matchId = ''m1'', li_side = HOME, li_stake = 1000000, li_role = CREATOR\<rparr>"

definition sample_locked :: world where
  "sample_locked = snd (exec sample_uuid default_config sample_ports ''ann'' (LockChallengeStake sample_lock) sample_ann)"

lemma sample_locked_ok: "world_ok sample_uuid sample_locked"
  unfolding sample_locked_def
  by (intro exec_ok sample_ann_ok inj_sample_uuid default_config_ok) simp_all

theorem settle_once_witness:
  "map_option ds_balance (dossier_of (snd (refundChallengeStake sample_uuid ''ann'' ''h1'' ''off'' sample_locked)) ''ann'')
     = Some 9000000 \<and>
   snd (refundChallengeStake sample_uuid ''ann'' ''h1'' ''off''
      (snd (refundChallengeStake sample_uuid ''ann'' ''h1'' ''off'' sample_locked)))
     = snd (refundChallengeStake sample_uuid ''ann'' ''h1'' ''off'' sample_locked)"
proof -
  have "map_option ds_balance (dossier_of (snd (refundChallengeStake sample_uuid ''ann'' ''h1'' ''off'' sample_locked)) ''ann'')
     = Some 9000000" by code_simp
  moreover have "(0 :: frost) \<le> 0" by simp
  ultimately show ?thesis
    using settle_once[OF sample_locked_ok plain_samples(1), of 0 "''c''" True True 0 "''off''" "''h1''" WON WON]
    by (simp add: Let_def)
qed

section \<open>Calls\<close>

lemma event_placed_pot: "event_placed (ev_streamId e) (ev_payload e) \<Longrightarrow> pot_event_ok e"
  by (auto simp: event_placed_def pot_event_ok_def split: domain_event.splits player_event.splits option.splits)

lemma world_pots_ok: "world_ok uuid w \<Longrightarrow> pots_ok (rm_pots (w_rm w))"
  by (auto simp: world_ok_def log_ok_def hydrate_fields list_all_iff
      intro!: pots_ok_fold pots_ok_Nil event_placed_pot)

lemma world_match_ok: "world_ok uuid w \<Longrightarrow> jm_get (rm_pots (w_rm w)) mid = Some m \<Longrightarrow> match_ok m"
  using world_pots_ok by (auto simp: pots_ok_def dest: jm_all_in)

lemma find_map_eq: "find P (map f xs) = map_option f (find (\<lambda>x. P (f x)) xs)"
  by (induction xs) simp_all

lemma find_market_eq:
  assumes "match_ok m"
  shows "find_market k (toMatchView m) = map_option toMarketView (jm_get (ms_markets m) k)"
proof -
  have "find (\<lambda>mk. mk_marketId mk = k) (jm_values (ms_markets m)) = jm_get (ms_markets m) k"
    using assms by (intro find_by_key) (auto simp: match_ok_def jm_all_def)
  moreover have "find_market k (toMatchView m) =
      map_option toMarketView (find (\<lambda>mk. mv_marketId (toMarketView mk) = k) (jm_values (ms_markets m)))"
    unfolding find_market_def toMatchView_def match_view.simps by (rule find_map_eq)
  moreover have "mv_marketId (toMarketView mk) = mk_marketId mk" for mk
    by (simp add: toMarketView_def Let_def)
  ultimately show ?thesis by simp
qed

lemma has_bucket_eq:
  "list_ex (\<lambda>b. bv_bucket b = k) (mv_buckets (toMarketView mk)) \<longleftrightarrow> jm_get (mk_buckets mk) k \<noteq> None"
  by (force simp: toMarketView_def Let_def list_ex_iff map_of_eq_None_iff)

lemma wealth_call_event: "wealth (dossier_step tm (call_event k i p b) d) = wealth d"
  by (simp add: call_event_def)

text \<open>What an accepted call found, and the one event it appended.\<close>

lemma makeCall_success:
  assumes ok: "world_ok uuid w" and u: "plain_wallet u" and inj: "inj uuid" and cfg: "config_ok cfg"
    and run: "makeCall uuid cfg u i w = (Inr (k, p), w')"
  obtains d m mk q bold where "dossier_of w u = Some d"
    "jm_get (rm_pots (w_rm w)) (ci_matchId i) = Some m" "jm_get (ms_markets m) (ci_marketId i) = Some mk"
    "gc_minStake cfg \<le> ci_stake i" "0 < ci_stake i" "ci_stake i \<le> ds_balance d + ds_bonus d" "mk_status mk = OPEN"
    "jm_get (mk_buckets mk) (ci_bucket i) \<noteq> None" "k = newId ''call'' (uuid (w_drawn w))"
    "jm_get (ds_openCalls d) k = None"
    "w' = actor_after uuid u [call_event k i q bold] (w\<lparr>w_drawn := Suc (w_drawn w)\<rparr>)" "world_ok uuid w'"
    "\<And>v. dossier_of w' v = (if v = u then Some (dossier_step (w_now w) (call_event k i q bold) d) else dossier_of w v)"
proof (cases "dossier_of w u")
  case None
  with run show ?thesis by (simp add: makeCall_def command_simps)
next
  case (Some d)
  let ?w1 = "w\<lparr>w_drawn := Suc (w_drawn w)\<rparr>" and ?ps = "rm_pots (w_rm w)"
  have w1: "world_ok uuid ?w1" using world_ok_draw1[OF ok] .
  obtain m where m: "jm_get ?ps (ci_matchId i) = Some m"
    using run Some by (cases "jm_get ?ps (ci_matchId i)")
      (auto simp: makeCall_def command_simps getMatch_def split: if_splits)
  have mok: "match_ok m" by (rule world_match_ok[OF ok m])
  obtain mk where mk: "jm_get (ms_markets m) (ci_marketId i) = Some mk"
    using run Some m find_market_eq[OF mok] by (cases "jm_get (ms_markets m) (ci_marketId i)")
      (auto simp: makeCall_def command_simps getMatch_def split: if_splits)
  have st: "gc_minStake cfg \<le> ci_stake i" "ci_stake i \<le> ds_balance d + ds_bonus d"
    and opn: "mk_status mk = OPEN" and b: "jm_get (mk_buckets mk) (ci_bucket i) \<noteq> None"
    and k: "k = newId ''call'' (uuid (w_drawn w))"
    and w': "\<exists>q bold. w' = actor_after uuid u [call_event k i q bold] ?w1"
    using run Some m mk find_market_eq[OF mok] has_bucket_eq[of "ci_bucket i" mk] w1
    by (auto simp: makeCall_def command_simps getMatch_def toMarketView_def Let_def call_event_def
        split: if_splits)
  obtain q bold where w': "w' = actor_after uuid u [call_event k i q bold] ?w1" using w' by blast
  have pos: "0 < ci_stake i" using st cfg by (simp add: config_ok_def)
  have fresh: "jm_get (ds_openCalls d) k = None"
    using call_event_ok(2)[OF ok u inj Some pos st(2)] by (simp add: call_event_def k)
  have ok': "world_ok uuid w'" unfolding w' k by (rule call_event_ok(1)[OF ok u inj Some pos st(2)])
  have d': "dossier_of w' v = (if v = u then Some (dossier_step (w_now w) (call_event k i q bold) d) else dossier_of w v)" for v
    unfolding w' using Some
    by (subst actor_after_dossier[OF u]) (simp_all add: call_event_def is_signing_def)
  show ?thesis by (rule that[OF Some m mk st(1) pos st(2) opn b k fresh w' ok' d'])
qed

text \<open>What a call needs, stated on the files and the pots: the stake is at least the minimum and covered,
  the market exists, is open and has the outcome, and no open call of the player is on it.\<close>

definition call_checks :: "game_config \<Rightarrow> call_input \<Rightarrow> dossier_state \<Rightarrow> world \<Rightarrow> bool" where
  "call_checks cfg i d w \<longleftrightarrow>
     gc_minStake cfg \<le> ci_stake i \<and> ci_stake i \<le> ds_balance d + ds_bonus d \<and>
     (case the_market (rm_pots (w_rm w)) (ci_matchId i) (ci_marketId i) of None \<Rightarrow> False | Some mk \<Rightarrow>
       mk_status mk = OPEN \<and> jm_get (mk_buckets mk) (ci_bucket i) \<noteq> None) \<and>
     (\<forall>c \<in> set (jm_values (ds_openCalls d)). oc_matchId c \<noteq> ci_matchId i \<or> oc_marketId c \<noteq> ci_marketId i)"

lemma makeCall_decides:
  assumes ok: "world_ok uuid w" and u: "plain_wallet u"
  shows "(case dossier_of w u of None \<Rightarrow> False | Some d \<Rightarrow> call_checks cfg i d w) \<longleftrightarrow>
      \<not> isl (fst (makeCall uuid cfg u i w))"
    and "isl (fst (makeCall uuid cfg u i w)) \<Longrightarrow> snd (makeCall uuid cfg u i w) = w"
proof -
  have "(case dossier_of w u of None \<Rightarrow> False | Some d \<Rightarrow> call_checks cfg i d w) = (\<not> isl (fst (makeCall uuid cfg u i w))) \<and>
    (isl (fst (makeCall uuid cfg u i w)) \<longrightarrow> snd (makeCall uuid cfg u i w) = w)"
  proof (cases "dossier_of w u")
    case None
    then show ?thesis by (simp add: makeCall_def command_simps)
  next
    case (Some d)
    have w1: "world_ok uuid (w\<lparr>w_drawn := Suc (w_drawn w)\<rparr>)" using world_ok_draw1[OF ok] .
    show ?thesis
    proof (cases "jm_get (rm_pots (w_rm w)) (ci_matchId i)")
      case None
      with Some show ?thesis by (auto simp: makeCall_def command_simps getMatch_def call_checks_def the_market_def)
    next
      case m: (Some m)
      note fm = find_market_eq[OF world_match_ok[OF ok m]]
      show ?thesis
      proof (cases "jm_get (ms_markets m) (ci_marketId i)")
        case None
        with Some m fm show ?thesis by (auto simp: makeCall_def command_simps getMatch_def call_checks_def the_market_def)
      next
        case mk: (Some mk)
        have vw: "mv_status (toMarketView mk) = mk_status mk" "list_ex P (dv_openCalls (toView d)) \<longleftrightarrow> (\<exists>c \<in> set (jm_values (ds_openCalls d)). P c)"
          "dv_balance (toView d) = ds_balance d" "dv_bonus (toView d) = ds_bonus d" for P
          by (simp_all add: toMarketView_def toView_def Let_def list_ex_iff)
        show ?thesis using Some m mk fm w1
          by (auto simp: makeCall_def command_simps getMatch_def call_checks_def the_market_def vw has_bucket_eq split: if_splits)
      qed
    qed
  qed
  then show "(case dossier_of w u of None \<Rightarrow> False | Some d \<Rightarrow> call_checks cfg i d w) \<longleftrightarrow>
      \<not> isl (fst (makeCall uuid cfg u i w))"
    and "isl (fst (makeCall uuid cfg u i w)) \<Longrightarrow> snd (makeCall uuid cfg u i w) = w" by blast+
qed

lemma accepted_call:
  assumes ok: "world_ok uuid w" and u: "plain_wallet u" and inj: "inj uuid" and cfg: "config_ok cfg"
    and run: "makeCall uuid cfg u i w = (Inr (k, p), w')"
  shows "\<exists>d d' c. dossier_of w u = Some d \<and> dossier_of w' u = Some d' \<and>
    wealth d' = wealth d \<and> ds_locked d' = ds_locked d + ci_stake i \<and>
    jm_get (ds_openCalls d) k = None \<and> jm_get (ds_openCalls d') k = Some c \<and> oc_stake c = ci_stake i \<and>
    oc_matchId c = ci_matchId i \<and> oc_marketId c = ci_marketId i \<and> oc_bucket c = ci_bucket i \<and>
    (\<forall>v. v \<noteq> u \<longrightarrow> dossier_of w' v = dossier_of w v) \<and>
    getMarketCalls (rm_pots (w_rm w')) (ci_matchId i) (ci_marketId i) =
      getMarketCalls (rm_pots (w_rm w)) (ci_matchId i) (ci_marketId i) @
        [\<lparr>ck_callId = k, ck_wallet = u, ck_bucket = ci_bucket i, ck_stake = ci_stake i\<rparr>]"
proof -
  obtain d m mk q bold where Some: "dossier_of w u = Some d"
    and m: "jm_get (rm_pots (w_rm w)) (ci_matchId i) = Some m" "jm_get (ms_markets m) (ci_marketId i) = Some mk"
    and st: "gc_minStake cfg \<le> ci_stake i" "0 < ci_stake i" "ci_stake i \<le> ds_balance d + ds_bonus d"
    and mk: "mk_status mk = OPEN" "jm_get (mk_buckets mk) (ci_bucket i) \<noteq> None"
    and k: "k = newId ''call'' (uuid (w_drawn w))" "jm_get (ds_openCalls d) k = None"
    and w': "w' = actor_after uuid u [call_event k i q bold] (w\<lparr>w_drawn := Suc (w_drawn w)\<rparr>)" "world_ok uuid w'"
    and d': "\<And>v. dossier_of w' v = (if v = u then Some (dossier_step (w_now w) (call_event k i q bold) d) else dossier_of w v)"
    by (rule makeCall_success[OF assms]) (rule that; assumption)
  have calls: "getMarketCalls (rm_pots (w_rm w')) (ci_matchId i) (ci_marketId i) = mk_calls mk @
        [\<lparr>ck_callId = k, ck_wallet = u, ck_bucket = ci_bucket i, ck_stake = ci_stake i\<rparr>]"
    using m mk u by (auto simp: w'(1) actor_after_rm appended_one call_event_def pot_apply_def on_match_def
        on_market_def market_call_def getMarketCalls_def the_market_def)
  show ?thesis
    by (rule exI[of _ d], rule exI[of _ "dossier_step (w_now w) (call_event k i q bold) d"],
        rule exI[of _ "\<lparr>oc_callId = k, oc_matchId = ci_matchId i, oc_marketId = ci_marketId i,
          oc_bucket = ci_bucket i, oc_stake = ci_stake i, oc_impliedProbAtCall = q, oc_bold = bold, oc_at = w_now w\<rparr>"])
      (use Some d' m mk st k(2) calls in \<open>simp add: wealth_call_event isOpen_def the_market_def
        getMarketCalls_def call_event_def\<close>)
qed

text \<open>C7: A call moves one stake in two places, under exactly the checks of makeCall. It is accepted
  if and only if the player has signed, the stake is at least the minimum and covered by balance
  and bonus, the market exists, is open and has the outcome, and the player has no open call on
  that market; a refused call changes nothing. After an accepted one the player's total money
  is unchanged, the stake is locked in the file under the new call's id, no other player's
  file has changed, and the market's pot holds the same call, with the same id, wallet,
  outcome and stake, after the calls it had.\<close>

theorem call_moves_stake:
  assumes ok: "world_ok uuid w" and u: "plain_wallet u" and inj: "inj uuid" and cfg: "config_ok cfg"
  shows "case makeCall uuid cfg u i w of
      (Inl f, w') \<Rightarrow> w' = w \<and> \<not> (\<exists>d. dossier_of w u = Some d \<and> call_checks cfg i d w)
    | (Inr (k, p), w') \<Rightarrow> \<exists>d d' c. dossier_of w u = Some d \<and> dossier_of w' u = Some d' \<and>
        call_checks cfg i d w \<and> wealth d' = wealth d \<and> ds_locked d' = ds_locked d + ci_stake i \<and>
        jm_get (ds_openCalls d) k = None \<and> jm_get (ds_openCalls d') k = Some c \<and> oc_stake c = ci_stake i \<and>
        oc_matchId c = ci_matchId i \<and> oc_marketId c = ci_marketId i \<and> oc_bucket c = ci_bucket i \<and>
        (\<forall>v. v \<noteq> u \<longrightarrow> dossier_of w' v = dossier_of w v) \<and>
        getMarketCalls (rm_pots (w_rm w')) (ci_matchId i) (ci_marketId i) =
          getMarketCalls (rm_pots (w_rm w)) (ci_matchId i) (ci_marketId i) @
            [\<lparr>ck_callId = k, ck_wallet = u, ck_bucket = ci_bucket i, ck_stake = ci_stake i\<rparr>]"
proof (cases "fst (makeCall uuid cfg u i w)")
  case (Inl f)
  then obtain w' where r: "makeCall uuid cfg u i w = (Inl f, w')" by (metis prod.collapse)
  have l: "isl (fst (makeCall uuid cfg u i w))" by (simp add: Inl)
  have "w' = w" using makeCall_decides(2)[OF ok u l] r by simp
  moreover have "\<not> (case dossier_of w u of None \<Rightarrow> False | Some d \<Rightarrow> call_checks cfg i d w)"
    using makeCall_decides(1)[OF ok u, where cfg = cfg and i = i] l by blast
  ultimately show ?thesis by (auto simp: r)
next
  case (Inr kp)
  then obtain k p w' where run: "makeCall uuid cfg u i w = (Inr (k, p), w')" by (metis prod.collapse)
  have "\<not> isl (fst (makeCall uuid cfg u i w))" by (simp add: run)
  then have chk: "case dossier_of w u of None \<Rightarrow> False | Some d \<Rightarrow> call_checks cfg i d w"
    using makeCall_decides(1)[OF ok u, where cfg = cfg and i = i] by blast
  then obtain d where d: "dossier_of w u = Some d" "call_checks cfg i d w" by (auto split: option.splits)
  show ?thesis using accepted_call[OF ok u inj cfg run] d by (simp add: run)
qed

text \<open>A match on which Ann may call.\<close>

definition sample_match_log :: "stored_event list" where
  "sample_match_log = w_log sample_ann @
     [sample_event (matchStream ''m1'') 0 (MatchE (MatchOpened sample_fixture [resultMarket]))]"

definition sample_open :: world where
  "sample_open = boot sample_match_log 10 0"

lemma sample_open_ok: "world_ok sample_uuid sample_open"
proof -
  have "log_ok sample_uuid 10 (w_log sample_ann)"
  proof -
    have "w_drawn sample_ann = 2" by code_simp
    then show ?thesis using sample_ann_ok log_ok_mono[of sample_uuid "w_drawn sample_ann" "w_log sample_ann" 10]
      by (simp add: world_ok_def)
  qed
  moreover have "stream_of (matchStream ''m1'') (w_log sample_ann) = []" by code_simp
  ultimately have "log_ok sample_uuid 10 sample_match_log"
    unfolding sample_match_log_def
    by (intro log_ok_snoc) (simp_all add: sample_event_def event_placed_def admissible_def)
  then show ?thesis by (simp add: sample_open_def world_ok_boot)
qed

definition sample_input :: "bucket \<Rightarrow> frost \<Rightarrow> call_input" where
  "sample_input b stake = \<lparr>ci_matchId = ''m1'', ci_marketId = RESULT_MARKET, ci_bucket = b,
     ci_stake = stake, ci_note = None\<rparr>"

theorem call_moves_stake_witness:
  "(\<exists>k p w'. makeCall sample_uuid default_config ''ann'' (sample_input HOME 2000000) sample_open = (Inr (k, p), w') \<and>
     (\<exists>d'. dossier_of w' ''ann'' = Some d' \<and> ds_locked d' = 2000000) \<and>
     length (getMarketCalls (rm_pots (w_rm w')) ''m1'' RESULT_MARKET) = 1) \<and>
   snd (makeCall sample_uuid default_config ''ann'' (sample_input HOME 20000000) sample_open) = sample_open"
proof -
  let ?r = "makeCall sample_uuid default_config ''ann'' (sample_input HOME 2000000) sample_open"
    and ?big = "makeCall sample_uuid default_config ''ann'' (sample_input HOME 20000000) sample_open"
  note law = call_moves_stake[OF sample_open_ok plain_samples(1) inj_sample_uuid default_config_ok]
  have "\<not> isl (fst ?r)" by code_simp
  then obtain k p w' where r: "?r = (Inr (k, p), w')" by (metis isl_def obj_sumE prod.collapse)
  have "map_option ds_locked (dossier_of sample_open ''ann'') = Some 0" by code_simp
  moreover have "getMarketCalls (rm_pots (w_rm sample_open)) ''m1'' RESULT_MARKET = []" by code_simp
  moreover have "ci_matchId (sample_input HOME 2000000) = ''m1''" "ci_marketId (sample_input HOME 2000000) = RESULT_MARKET"
    "ci_stake (sample_input HOME 2000000) = 2000000" by (simp_all add: sample_input_def)
  ultimately have a: "(\<exists>d'. dossier_of w' ''ann'' = Some d' \<and> ds_locked d' = 2000000) \<and>
     length (getMarketCalls (rm_pots (w_rm w')) ''m1'' RESULT_MARKET) = 1"
    using law[of "sample_input HOME 2000000"] by (auto simp: r)
  have "isl (fst ?big)" by code_simp
  then obtain f v where b: "?big = (Inl f, v)" by (metis isl_def prod.collapse)
  have "snd ?big = sample_open" using law[of "sample_input HOME 20000000"] by (simp add: b)
  with a r show ?thesis by blast
qed

end
