(* ===== verification/RateLimiter.thy ===== *)
theory RateLimiter
  imports World
begin

text \<open>
  The throttle on the paid endpoints (\<open>src/engine/RateLimiter.ts\<close>): a token bucket per wallet
  and endpoint, and a counter per UTC day over all wallets. A day is its number since the
  epoch (the ISO date of a time determines it), tokens are exact fractions. The lemmas bound
  what a wallet and what everyone together can get through.
\<close>

section \<open>State\<close>

record rl_bucket =
  rb_tokens :: num
  rb_lastRefillMs :: int

record limiter =
  lt_buckets :: "(string, rl_bucket) jmap"
  lt_dayKey :: "int option"
  lt_dayCount :: nat

datatype llm_endpoint = EP_chat | EP_verdict | EP_preBetRead

definition limiter_new :: limiter where
  "limiter_new = \<lparr>lt_buckets = [], lt_dayKey = None, lt_dayCount = 0\<rparr>"

fun endpoint_str :: "llm_endpoint \<Rightarrow> string" where
  "endpoint_str EP_chat = ''chat''"
| "endpoint_str EP_verdict = ''verdict''"
| "endpoint_str EP_preBetRead = ''preBetRead''"

fun spec_of :: "rate_limit_config \<Rightarrow> llm_endpoint \<Rightarrow> bucket_spec" where
  "spec_of cfg EP_chat = rl_chat cfg"
| "spec_of cfg EP_verdict = rl_verdict cfg"
| "spec_of cfg EP_preBetRead = rl_preBetRead cfg"

definition bucket_key :: "llm_endpoint \<Rightarrow> wallet \<Rightarrow> string" where
  "bucket_key ep u = endpoint_str ep @ '':'' @ u"

definition utc_day :: "int \<Rightarrow> int" where
  "utc_day now = now div 86400000"

section \<open>Charging\<close>

text \<open>The tokens a bucket holds at a time: what it had, plus what has accrued, up to its capacity.\<close>

definition refilled :: "bucket_spec \<Rightarrow> int \<Rightarrow> rl_bucket option \<Rightarrow> num" where
  "refilled spec now b =
     (case b of
        None \<Rightarrow> min (bk_capacity spec) (bk_capacity spec)
      | Some b \<Rightarrow> min (bk_capacity spec) (rb_tokens b + of_int (now - rb_lastRefillMs b) / bk_refillMs spec))"

definition roll_day :: "int \<Rightarrow> limiter \<Rightarrow> limiter" where
  "roll_day now s = (if lt_dayKey s \<noteq> Some (utc_day now)
     then s\<lparr>lt_dayKey := Some (utc_day now), lt_dayCount := 0\<rparr> else s)"

definition charge :: "rate_limit_config \<Rightarrow> llm_endpoint \<Rightarrow> wallet \<Rightarrow> int \<Rightarrow> limiter \<Rightarrow> (failure + unit) \<times> limiter" where
  "charge cfg ep u now s =
     (let spec = spec_of cfg ep;
          key = bucket_key ep u;
          tokens = refilled spec now (jm_get (lt_buckets s) key);
          s = roll_day now s
      in if tokens < 1
         then (Inl (DomainError RATE_LIMITED),
               s\<lparr>lt_buckets := jm_set key \<lparr>rb_tokens = tokens, rb_lastRefillMs = now\<rparr> (lt_buckets s)\<rparr>)
         else if lt_dayCount s \<ge> rl_globalDailyCap cfg
         then (Inl (DomainError RATE_LIMITED), s)
         else (Inr (), s\<lparr>lt_buckets := jm_set key \<lparr>rb_tokens = tokens - 1, rb_lastRefillMs = now\<rparr> (lt_buckets s),
                         lt_dayCount := lt_dayCount s + 1\<rparr>))"

text \<open>A sequence of requests: endpoint, wallet and time; the requests that went through.\<close>

type_synonym request = "llm_endpoint \<times> wallet \<times> int"

fun charge_all :: "rate_limit_config \<Rightarrow> request list \<Rightarrow> limiter \<Rightarrow> request list \<times> limiter" where
  "charge_all cfg [] s = ([], s)"
| "charge_all cfg ((ep, u, now) # rs) s =
     (case charge cfg ep u now s of
        (Inl _, s1) \<Rightarrow> charge_all cfg rs s1
      | (Inr _, s1) \<Rightarrow> (case charge_all cfg rs s1 of (ok, s2) \<Rightarrow> ((ep, u, now) # ok, s2)))"

definition time_of :: "request \<Rightarrow> int" where
  "time_of r = snd (snd r)"

definition key_of :: "request \<Rightarrow> string" where
  "key_of r = bucket_key (fst r) (fst (snd r))"

section \<open>The bounds\<close>

lemma bucket_key_endpoint: "bucket_key ep u = bucket_key ep' u' \<Longrightarrow> ep = ep' \<and> u = u'"
  by (cases ep; cases ep'; simp add: bucket_key_def)

lemma charge_other_bucket:
  "bucket_key ep u \<noteq> key \<Longrightarrow> jm_get (lt_buckets (snd (charge cfg ep u now s))) key = jm_get (lt_buckets s) key"
  by (simp add: charge_def roll_day_def Let_def)

text \<open>A bucket that holds no more than its capacity, with its clock not in the future.\<close>

definition bucket_within :: "bucket_spec \<Rightarrow> int \<Rightarrow> rl_bucket option \<Rightarrow> bool" where
  "bucket_within spec now b \<longleftrightarrow> (case b of None \<Rightarrow> True
     | Some b \<Rightarrow> 0 \<le> rb_tokens b \<and> rb_tokens b \<le> bk_capacity spec \<and> rb_lastRefillMs b \<le> now)"

definition spec_ok :: "bucket_spec \<Rightarrow> bool" where
  "spec_ok spec \<longleftrightarrow> 0 < bk_refillMs spec \<and> 0 \<le> bk_capacity spec"

text \<open>What a bucket allows between a time and a later one.\<close>

definition allowance :: "bucket_spec \<Rightarrow> int \<Rightarrow> int \<Rightarrow> rl_bucket option \<Rightarrow> num" where
  "allowance spec t later b = (case b of
       None \<Rightarrow> bk_capacity spec + of_int (later - t) / bk_refillMs spec
     | Some b \<Rightarrow> rb_tokens b + of_int (later - rb_lastRefillMs b) / bk_refillMs spec)"

lemma bucket_within_mono: "bucket_within spec t b \<Longrightarrow> t \<le> t' \<Longrightarrow> bucket_within spec t' b"
  by (auto simp: bucket_within_def split: option.splits)

lemma allowance_nonneg: "spec_ok spec \<Longrightarrow> bucket_within spec t b \<Longrightarrow> t \<le> later \<Longrightarrow> 0 \<le> allowance spec t later b"
  by (auto simp: allowance_def bucket_within_def spec_ok_def split: option.splits)

lemma allowance_mono: "spec_ok spec \<Longrightarrow> t \<le> t' \<Longrightarrow> allowance spec t' later b \<le> allowance spec t later b"
  by (auto simp: allowance_def spec_ok_def divide_right_mono split: option.splits)

lemma refilled_bounds:
  assumes "spec_ok spec" "bucket_within spec now b" "now \<le> later"
  shows "0 \<le> refilled spec now b" "refilled spec now b \<le> bk_capacity spec"
    "refilled spec now b + of_int (later - now) / bk_refillMs spec \<le> allowance spec now later b"
proof -
  show "0 \<le> refilled spec now b" "refilled spec now b \<le> bk_capacity spec"
    using assms by (auto simp: refilled_def bucket_within_def spec_ok_def split: option.splits)
  have split: "of_int (later - t) / bk_refillMs spec =
      of_int (now - t) / bk_refillMs spec + of_int (later - now) / bk_refillMs spec" for t
    by (simp add: add_divide_distrib[symmetric])
  show "refilled spec now b + of_int (later - now) / bk_refillMs spec \<le> allowance spec now later b"
  proof (cases b)
    case None
    then show ?thesis by (simp add: refilled_def allowance_def)
  next
    case (Some o')
    then have "refilled spec now b \<le> rb_tokens o' + of_int (now - rb_lastRefillMs o') / bk_refillMs spec"
      by (simp add: refilled_def)
    with Some show ?thesis by (simp only: allowance_def option.case split[of "rb_lastRefillMs o'"])
  qed
qed

text \<open>A request on the bucket: it keeps the bucket within its bounds, and a request that goes
  through uses up one of what the bucket allows.\<close>

lemma charge_own_bucket:
  assumes ok: "spec_ok (spec_of cfg ep)" and b: "bucket_within (spec_of cfg ep) now (jm_get (lt_buckets s) (bucket_key ep u))"
    and r: "charge cfg ep u now s = (r, s1)" and later: "now \<le> later"
  shows "bucket_within (spec_of cfg ep) now (jm_get (lt_buckets s1) (bucket_key ep u))"
    and "(if isl r then 0 else 1) + allowance (spec_of cfg ep) now later (jm_get (lt_buckets s1) (bucket_key ep u))
      \<le> allowance (spec_of cfg ep) now later (jm_get (lt_buckets s) (bucket_key ep u))"
proof -
  let ?spec = "spec_of cfg ep" and ?old = "jm_get (lt_buckets s) (bucket_key ep u)"
  let ?new = "jm_get (lt_buckets s1) (bucket_key ep u)"
  note bounds = refilled_bounds[OF ok b later]
  consider (empty) "isl r" "?new = Some \<lparr>rb_tokens = refilled ?spec now ?old, rb_lastRefillMs = now\<rparr>"
    | (capped) "isl r" "?new = ?old"
    | (ok) "\<not> isl r" "1 \<le> refilled ?spec now ?old"
        "?new = Some \<lparr>rb_tokens = refilled ?spec now ?old - 1, rb_lastRefillMs = now\<rparr>"
    using r by (auto simp: charge_def roll_day_def Let_def split: if_splits)
  then have "bucket_within ?spec now ?new \<and>
      (if isl r then 0 else 1) + allowance ?spec now later ?new \<le> allowance ?spec now later ?old"
  proof cases
    case empty
    with bounds show ?thesis by (simp add: bucket_within_def allowance_def)
  next
    case capped
    with b show ?thesis by simp
  next
    case ok
    with bounds show ?thesis by (simp add: bucket_within_def allowance_def)
  qed
  then show "bucket_within ?spec now ?new"
    "(if isl r then 0 else 1) + allowance ?spec now later ?new \<le> allowance ?spec now later ?old" by blast+
qed

lemma charge_all_Cons:
  "charge cfg ep u now s = (res, s1) \<Longrightarrow> fst (charge_all cfg ((ep, u, now) # rs) s) =
    (if isl res then [] else [(ep, u, now)]) @ fst (charge_all cfg rs s1)"
  by (cases res) (simp_all split: prod.split)

lemma allowed_within:
  assumes ok: "spec_ok (spec_of cfg ep)" and rs: "sorted (map time_of rs)"
    "\<forall>r \<in> set rs. t \<le> time_of r \<and> time_of r \<le> later"
    and "t \<le> later" "bucket_within (spec_of cfg ep) t (jm_get (lt_buckets s) (bucket_key ep u))"
  shows "of_nat (length (filter (\<lambda>r. key_of r = bucket_key ep u) (fst (charge_all cfg rs s)))) \<le>
    allowance (spec_of cfg ep) t later (jm_get (lt_buckets s) (bucket_key ep u))"
  using rs assms(4-)
proof (induction rs arbitrary: t s)
  case Nil
  then show ?case using allowance_nonneg[OF ok] by simp
next
  case (Cons r rs)
  obtain ep' u' now where r: "r = (ep', u', now)" by (cases r) auto
  obtain res s1 where ch: "charge cfg ep' u' now s = (res, s1)" by fastforce
  let ?b = "\<lambda>s. jm_get (lt_buckets s) (bucket_key ep u)"
  have now: "t \<le> now" "now \<le> later" using Cons.prems(2) by (simp_all add: r time_of_def)
  have within: "bucket_within (spec_of cfg ep) now (?b s)"
    using Cons.prems(4) now(1) by (rule bucket_within_mono)
  have ind: "of_nat (length (filter (\<lambda>r. key_of r = bucket_key ep u) (fst (charge_all cfg rs s1)))) \<le>
      allowance (spec_of cfg ep) now later (?b s1)" if "bucket_within (spec_of cfg ep) now (?b s1)"
    using Cons.prems(1,2) now that by (intro Cons.IH) (auto simp: r time_of_def)
  have mono: "allowance (spec_of cfg ep) now later (?b s) \<le> allowance (spec_of cfg ep) t later (?b s)"
    using ok now(1) by (rule allowance_mono)
  show ?case
  proof (cases "bucket_key ep' u' = bucket_key ep u")
    case True
    then have same: "ep' = ep" "u' = u" by (auto dest: bucket_key_endpoint)
    note own = charge_own_bucket[OF ok within ch[unfolded same] now(2)]
    show ?thesis using own(2) ind[OF own(1)] mono
      by (cases "isl res") (simp_all add: r same charge_all_Cons[OF ch[unfolded same]] key_of_def del: charge_all.simps)
  next
    case False
    then have "?b s1 = ?b s" using charge_other_bucket[OF False, of cfg now s] ch by simp
    with ind within mono False show ?thesis
      by (cases "isl res") (simp_all add: r charge_all_Cons[OF ch] key_of_def del: charge_all.simps)
  qed
qed

text \<open>The requests of one day.\<close>

definition day_of :: "request \<Rightarrow> int" where
  "day_of r = utc_day (time_of r)"

lemma utc_day_mono: "t \<le> t' \<Longrightarrow> utc_day t \<le> utc_day t'"
  by (simp add: utc_day_def zdiv_mono1)

lemma charge_all_subset: "set (fst (charge_all cfg rs s)) \<subseteq> set rs"
proof (induction cfg rs s rule: charge_all.induct)
  case (2 cfg ep u now rs s)
  obtain res s1 where ch: "charge cfg ep u now s = (res, s1)" by fastforce
  show ?case
  proof (cases res)
    case (Inl f)
    with 2(1)[OF ch[symmetric] Inl] ch show ?thesis by auto
  next
    case (Inr x)
    with 2(2)[OF ch[symmetric] Inr] ch show ?thesis by (auto split: prod.splits)
  qed
qed simp

lemma charge_day:
  assumes "charge cfg ep u now s = (res, s1)"
  shows "lt_dayKey s1 = Some (utc_day now)"
    "lt_dayCount s1 = (if lt_dayKey s = Some (utc_day now) then lt_dayCount s else 0) + (if isl res then 0 else 1)"
    "\<not> isl res \<Longrightarrow> lt_dayCount s1 \<le> rl_globalDailyCap cfg"
  using assms by (auto simp: charge_def roll_day_def Let_def split: if_splits)

lemma allowed_in_day:
  assumes "sorted (map time_of rs)" "\<forall>r \<in> set rs. t \<le> time_of r"
    and "lt_dayCount s \<le> rl_globalDailyCap cfg" "\<And>d. lt_dayKey s = Some d \<Longrightarrow> d \<le> utc_day t"
  shows "length (filter (\<lambda>r. day_of r = D) (fst (charge_all cfg rs s)))
      + (if lt_dayKey s = Some D then lt_dayCount s else 0) \<le> rl_globalDailyCap cfg"
  using assms
proof (induction rs arbitrary: t s)
  case Nil
  then show ?case by simp
next
  case (Cons r rs)
  obtain ep u now where r: "r = (ep, u, now)" by (cases r) auto
  obtain res s1 where ch: "charge cfg ep u now s = (res, s1)" by fastforce
  note day = charge_day[OF ch]
  have now: "t \<le> now" using Cons.prems(2) by (simp add: r time_of_def)
  have c1: "lt_dayCount s1 \<le> rl_globalDailyCap cfg"
    using day Cons.prems(3) by (cases res) auto
  have rest: "\<forall>r \<in> set rs. now \<le> time_of r" "sorted (map time_of rs)"
    using Cons.prems(1) by (auto simp: r time_of_def[of "(ep, u, now)"])
  have ind: "length (filter (\<lambda>r. day_of r = D) (fst (charge_all cfg rs s1)))
      + (if lt_dayKey s1 = Some D then lt_dayCount s1 else 0) \<le> rl_globalDailyCap cfg"
    using rest c1 day(1) by (intro Cons.IH[where t = now]) auto
  have len: "length (filter (\<lambda>r. day_of r = D) (fst (charge_all cfg (r # rs) s))) =
      (if \<not> isl res \<and> utc_day now = D then 1 else 0) + length (filter (\<lambda>r. day_of r = D) (fst (charge_all cfg rs s1)))"
    by (auto simp: r charge_all_Cons[OF ch] day_of_def time_of_def simp del: charge_all.simps)
  show ?case
  proof (cases "utc_day now = D")
    case True
    with ind day show ?thesis unfolding len by (auto split: if_splits)
  next
    case False
    have "length (filter (\<lambda>r. day_of r = D) (fst (charge_all cfg rs s1))) = 0" if "lt_dayKey s = Some D"
    proof -
      have "D < utc_day now"
        using Cons.prems(4)[OF that] utc_day_mono[OF now] False by simp
      then have "D < day_of q" if "q \<in> set (fst (charge_all cfg rs s1))" for q
        using that charge_all_subset[of cfg rs s1] rest(1) utc_day_mono
        by (fastforce simp: day_of_def intro: order_less_le_trans)
      then show ?thesis by (force simp: filter_empty_conv)
    qed
    with ind False Cons.prems(3) show ?thesis unfolding len by (auto split: if_splits)
  qed
qed

text \<open>C40: The paid endpoints are throttled twice. Of any sequence of requests in time order,
  starting from a fresh limiter, the requests of one wallet on one endpoint that get through
  between two times are at most the burst capacity plus one for every refill period between
  them; and in one UTC day, all wallets and endpoints together get at most the global daily
  cap through.\<close>

theorem limiter_bounds:
  assumes "sorted (map time_of rs)" "\<forall>r \<in> set rs. t \<le> time_of r \<and> time_of r \<le> later" "t \<le> later"
    and "spec_ok (spec_of cfg ep)"
  shows "of_nat (length (filter (\<lambda>r. key_of r = bucket_key ep u) (fst (charge_all cfg rs limiter_new)))) \<le>
      bk_capacity (spec_of cfg ep) + of_int (later - t) / bk_refillMs (spec_of cfg ep) \<and>
    length (filter (\<lambda>r. day_of r = D) (fst (charge_all cfg rs limiter_new))) \<le> rl_globalDailyCap cfg"
  using allowed_within[OF assms(4,1,2,3), of limiter_new u] allowed_in_day[OF assms(1), of t limiter_new cfg D] assms(2)
  by (simp add: limiter_new_def bucket_within_def allowance_def)

definition sample_requests :: "request list" where
  "sample_requests = map (\<lambda>i. (EP_verdict, ''ann'', int i * 1000)) [0..<5]"

theorem limiter_bounds_witness:
  "length (filter (\<lambda>r. key_of r = bucket_key EP_verdict ''ann'')
     (fst (charge_all (gc_rateLimits default_config) sample_requests limiter_new))) = 2 \<and>
   length (filter (\<lambda>r. day_of r = 0) (fst (charge_all (gc_rateLimits default_config) sample_requests limiter_new))) \<le> 3000"
proof -
  have s: "sorted (map time_of sample_requests)"
    "\<forall>r \<in> set sample_requests. 0 \<le> time_of r \<and> time_of r \<le> 4000" by code_simp+
  have ok: "spec_ok (spec_of (gc_rateLimits default_config) EP_verdict)"
    by (simp add: spec_ok_def default_config_def)
  have "length (filter (\<lambda>r. key_of r = bucket_key EP_verdict ''ann'')
     (fst (charge_all (gc_rateLimits default_config) sample_requests limiter_new))) = 2" by code_simp
  with limiter_bounds[OF s _ ok, of "''ann''" 0] show ?thesis by (simp add: default_config_def)
qed

end
