(* ===== verification/Engine.thy ===== *)
theory Engine
  imports Players RateLimiter
begin

text \<open>
  The engine (\<open>src/engine/Engine.ts\<close>, \<open>HouseLiquidity.ts\<close>): the application service that owns
  the write side. Player commands go to the actors; the private challenges, the life of a
  match (open, lock, resolve) and the settlement run here. Each operation is written with the
  calls of the code in their order; the read model is read where the code reads it. The
  outside answers (match data, settlement verifier, deposit gateway, the Gaffer) are arguments.
\<close>

section \<open>Match and challenge streams\<close>

definition match_version :: "match_id \<Rightarrow> world \<Rightarrow> nat" where
  "match_version mid w = (case jm_get (w_matchVersions w) mid of
     Some v \<Rightarrow> v | None \<Rightarrow> length (stream_of (matchStream mid) (w_log w)))"

definition matchAppend :: "uuids \<Rightarrow> match_id \<Rightarrow> match_event list \<Rightarrow> world \<Rightarrow> unit outcome_of" where
  "matchAppend uuid mid es w =
     (let v = match_version mid w
      in case store_append uuid (matchStream mid) (map MatchE es) v w of
           Inl f \<Rightarrow> (Inl f, w)
         | Inr w1 \<Rightarrow> (Inr (), w1\<lparr>w_matchVersions := jm_set mid (v + length es) (w_matchVersions w1)\<rparr>))"

definition challenge_version :: "challenge_id \<Rightarrow> world \<Rightarrow> nat" where
  "challenge_version cid w = (case jm_get (w_challengeVersions w) cid of
     Some v \<Rightarrow> v | None \<Rightarrow> length (stream_of (challengeStream cid) (w_log w)))"

definition challengeAppend :: "uuids \<Rightarrow> challenge_id \<Rightarrow> challenge_event list \<Rightarrow> world \<Rightarrow> unit outcome_of" where
  "challengeAppend uuid cid es w =
     (let v = challenge_version cid w
      in case store_append uuid (challengeStream cid) (map ChallengeE es) v w of
           Inl f \<Rightarrow> (Inl f, w)
         | Inr w1 \<Rightarrow> (Inr (), w1\<lparr>w_challengeVersions := jm_set cid (v + length es) (w_challengeVersions w1)\<rparr>))"

section \<open>House liquidity\<close>

definition OUTCOMES :: "bucket list" where
  "OUTCOMES = [HOME, AWAY, DRAW]"

definition per_bot :: "house_config \<Rightarrow> frost" where
  "per_bot h = min (hc_bankrollPerBot h) (big_div (hc_liquidityCap h) (int (max 1 (hc_botCount h))))"

text \<open>One bot: fund it, then let it call; any failure skips the bot.\<close>

definition seed_bot :: "uuids \<Rightarrow> game_config \<Rightarrow> match_id \<Rightarrow> nat \<Rightarrow> world \<Rightarrow> unit outcome_of" where
  "seed_bot uuid cfg mid i w =
     (let bot = houseWallet i;
          b = OUTCOMES ! (i mod length OUTCOMES)
      in case ensureHouseFunded uuid bot (per_bot (gc_house cfg)) w of
           (Inl _, w) \<Rightarrow> (Inr (), w)
         | (Inr _, w) \<Rightarrow>
             (case makeCall uuid cfg bot \<lparr>ci_matchId = mid, ci_marketId = RESULT_MARKET, ci_bucket = b,
                  ci_stake = hc_seedStake (gc_house cfg), ci_note = None\<rparr> w of
                (_, w) \<Rightarrow> (Inr (), w)))"

definition seed :: "uuids \<Rightarrow> game_config \<Rightarrow> match_id \<Rightarrow> world \<Rightarrow> unit outcome_of" where
  "seed uuid cfg mid w =
     (case getMatch (rm_pots (w_rm w)) mid of
        None \<Rightarrow> (Inr (), w)
      | Some m \<Rightarrow>
          (case find_market RESULT_MARKET m of
             None \<Rightarrow> (Inr (), w)
           | Some mv \<Rightarrow>
               if mv_status mv \<noteq> OPEN then (Inr (), w)
               else run_seq (seed_bot uuid cfg mid) [0..<hc_botCount (gc_house cfg)] w))"

text \<open>The state of the engine: its world, its throttle, and the matches it has seeded in this
  process. A seeding runs once per match and process, and a failure of it is not reported.\<close>

record engine =
  eg_world :: world
  eg_limiter :: limiter
  eg_inFlight :: "match_id list"

definition ensureSeeded :: "uuids \<Rightarrow> game_config \<Rightarrow> match_id \<Rightarrow> engine \<Rightarrow> engine" where
  "ensureSeeded uuid cfg mid eg =
     (if \<not> hc_enabled (gc_house cfg) \<or> mid \<in> set (eg_inFlight eg) then eg
      else eg\<lparr>eg_world := snd (seed uuid cfg mid (eg_world eg)), eg_inFlight := set_add mid (eg_inFlight eg)\<rparr>)"

section \<open>Player commands\<close>

definition on_world :: "(world \<Rightarrow> 'a outcome_of) \<Rightarrow> engine \<Rightarrow> (failure + 'a) \<times> engine" where
  "on_world f eg = (case f (eg_world eg) of (r, w) \<Rightarrow> (r, eg\<lparr>eg_world := w\<rparr>))"

definition Engine_makeCall :: "uuids \<Rightarrow> game_config \<Rightarrow> wallet \<Rightarrow> call_input \<Rightarrow> engine
    \<Rightarrow> (failure + call_id \<times> num) \<times> engine" where
  "Engine_makeCall uuid cfg u i eg =
     (case on_world (makeCall uuid cfg u i) eg of
        (Inl f, eg) \<Rightarrow> (Inl f, eg)
      | (Inr r, eg) \<Rightarrow> (Inr r, if isHouseWallet u then eg else ensureSeeded uuid cfg (ci_matchId i) eg))"

text \<open>The throttle is charged before the paid request is made.\<close>

definition charged :: "game_config \<Rightarrow> llm_endpoint \<Rightarrow> wallet \<Rightarrow> (engine \<Rightarrow> (failure + 'a) \<times> engine) \<Rightarrow> engine
    \<Rightarrow> (failure + 'a) \<times> engine" where
  "charged cfg ep u f eg =
     (case charge (gc_rateLimits cfg) ep u (w_now (eg_world eg)) (eg_limiter eg) of
        (Inl x, l) \<Rightarrow> (Inl x, eg\<lparr>eg_limiter := l\<rparr>)
      | (Inr _, l) \<Rightarrow> f (eg\<lparr>eg_limiter := l\<rparr>))"

definition Engine_requestVerdict :: "uuids \<Rightarrow> game_config \<Rightarrow> (wallet \<Rightarrow> verdict_trigger \<Rightarrow> string + string \<times> string list)
    \<Rightarrow> wallet \<Rightarrow> verdict_trigger \<Rightarrow> engine \<Rightarrow> (failure + string \<times> string \<times> string list) \<times> engine" where
  "Engine_requestVerdict uuid cfg compose u trg =
     charged cfg EP_verdict u (on_world (requestVerdict uuid compose u trg))"

definition Engine_chat :: "uuids \<Rightarrow> game_config \<Rightarrow> (wallet \<Rightarrow> string \<Rightarrow> string + string) \<Rightarrow> wallet \<Rightarrow> string
    \<Rightarrow> engine \<Rightarrow> (failure + string) \<times> engine" where
  "Engine_chat uuid cfg gafferChat u msg =
     charged cfg EP_chat u (on_world (\<lambda>w.
       case gafferChat u msg of
         Inl e \<Rightarrow> (Inl (OtherError e), w)
       | Inr reply \<Rightarrow> and_then (recordChat uuid u msg reply w) (\<lambda>_ w. (Inr reply, w))))"

definition refreshTraits :: "uuids \<Rightarrow> (wallet \<Rightarrow> string + trait_observed list) \<Rightarrow> wallet \<Rightarrow> world
    \<Rightarrow> trait_observed list outcome_of" where
  "refreshTraits uuid distill u w =
     (case distill u of
        Inl e \<Rightarrow> (Inl (OtherError e), w)
      | Inr ts \<Rightarrow> and_then (run_seq (observeTrait uuid u) ts w) (\<lambda>_ w. (Inr ts, w)))"

text \<open>The read before a bet: the context given to the Gaffer.\<close>

record pre_bet =
  pb_wallet :: wallet
  pb_fixture :: fixture
  pb_marketLabel :: string
  pb_bucketLabel :: string
  pb_stakeWal :: string
  pb_impliedProb :: num

definition preBetRead :: "game_config \<Rightarrow> (pre_bet \<Rightarrow> string + string) \<Rightarrow> wallet \<Rightarrow> call_input \<Rightarrow> engine
    \<Rightarrow> (failure + string) \<times> engine" where
  "preBetRead cfg gafferRead u i =
     charged cfg EP_preBetRead u (on_world (\<lambda>w.
       case getMatch (rm_pots (w_rm w)) (ci_matchId i) of
         None \<Rightarrow> (Inl (OtherError ''no such match''), w)
       | Some m \<Rightarrow>
          (let mv = find_market (ci_marketId i) m;
               b = (case mv of None \<Rightarrow> None | Some v \<Rightarrow> find (\<lambda>b. bv_bucket b = ci_bucket i) (mv_buckets v));
               ctx = \<lparr>pb_wallet = u, pb_fixture = mw_fixture m,
                      pb_marketLabel = (case mv of None \<Rightarrow> ''the call'' | Some v \<Rightarrow> mv_label v),
                      pb_bucketLabel = (case b of None \<Rightarrow> ci_bucket i | Some b \<Rightarrow> bv_label b),
                      pb_stakeWal = formatWal (ci_stake i),
                      pb_impliedProb = impliedProbFor (rm_pots (w_rm w)) (ci_matchId i) (ci_marketId i) (ci_bucket i)\<rparr>
           in case gafferRead ctx of Inl e \<Rightarrow> (Inl (OtherError e), w) | Inr t \<Rightarrow> (Inr t, w))))"

text \<open>Sweeps found by the deposit gateway, credited one by one; \<open>None\<close> when there is no
  gateway or the player has no wallet with it.\<close>

fun credit_sweeps :: "uuids \<Rightarrow> (wallet \<Rightarrow> frost \<Rightarrow> string option \<Rightarrow> string + string) \<Rightarrow> wallet
    \<Rightarrow> (frost \<times> string) list \<Rightarrow> frost \<Rightarrow> world \<Rightarrow> frost \<times> world" where
  "credit_sweeps uuid confirm u [] credited w = (credited, w)"
| "credit_sweeps uuid confirm u ((amount, sig) # cs) credited w =
     (case deposit uuid confirm u amount (Some sig) w of
        (Inl _, w) \<Rightarrow> credit_sweeps uuid confirm u cs credited w
      | (Inr _, w) \<Rightarrow> credit_sweeps uuid confirm u cs (credited + amount) w)"

definition balance_of :: "wallet \<Rightarrow> world \<Rightarrow> frost" where
  "balance_of u w = (case dossier_now u w of None \<Rightarrow> 0 | Some d \<Rightarrow> dv_balance d)"

definition syncDeposits :: "uuids \<Rightarrow> (wallet \<Rightarrow> frost \<Rightarrow> string option \<Rightarrow> string + string)
    \<Rightarrow> (wallet \<Rightarrow> string + (frost \<times> string) list) option \<Rightarrow> wallet \<Rightarrow> world \<Rightarrow> (frost \<times> frost) outcome_of" where
  "syncDeposits uuid confirm collect u w =
     (case collect of
        None \<Rightarrow> (Inr (0, balance_of u w), w)
      | Some c \<Rightarrow>
          if dossier_now u w = None then (Inr (0, balance_of u w), w)
          else (case c u of
              Inl e \<Rightarrow> (Inl (OtherError e), w)
            | Inr credits \<Rightarrow>
                (case credit_sweeps uuid confirm u credits 0 w of
                   (credited, w) \<Rightarrow> (Inr (credited, balance_of u w), w))))"

section \<open>Challenges\<close>

record challenge_input =
  hi_matchId :: match_id
  hi_side :: bucket
  hi_stake :: frost
  hi_opponentSide :: "bucket option"

definition result_open :: "world \<Rightarrow> match_id \<Rightarrow> bool" where
  "result_open w mid = (case getMatch (rm_pots (w_rm w)) mid of None \<Rightarrow> False
     | Some m \<Rightarrow> (case find_market RESULT_MARKET m of None \<Rightarrow> False | Some mv \<Rightarrow> mv_status mv = OPEN))"

text \<open>On a failure, hand the stake back and fail with the same error.\<close>

definition or_refund :: "uuids \<Rightarrow> wallet \<Rightarrow> challenge_id \<Rightarrow> string \<Rightarrow> unit outcome_of \<Rightarrow> challenge_id outcome_of" where
  "or_refund uuid u cid reason r =
     (case r of
        (Inr _, w) \<Rightarrow> (Inr cid, w)
      | (Inl f, w) \<Rightarrow> and_then (refundChallengeStake uuid u cid reason w) (\<lambda>_ w. (Inl f, w)))"

definition createChallenge :: "uuids \<Rightarrow> game_config \<Rightarrow> wallet \<Rightarrow> challenge_input \<Rightarrow> world \<Rightarrow> challenge_id outcome_of" where
  "createChallenge uuid cfg creator i w =
     (if getMatch (rm_pots (w_rm w)) (hi_matchId i) = None then reject MATCH_NOT_OPEN w
      else if \<not> result_open w (hi_matchId i) then reject MATCH_LOCKED w
      else
        (let side = hi_side i;
             opponentSide = (case truthy (hi_opponentSide i) of Some b \<Rightarrow> b | None \<Rightarrow> counterSide side)
         in if opponentSide = side then reject INVALID w
            else
              (let (cid, w) = draw_id uuid ''chg'' w
               in and_then (lockChallengeStake uuid cfg creator \<lparr>li_challengeId = cid, li_matchId = hi_matchId i,
                      li_side = side, li_stake = hi_stake i, li_role = CREATOR\<rparr> w)
                    (\<lambda>_ w. or_refund uuid creator cid ''challenge create failed''
                       (challengeAppend uuid cid [ChallengeCreated \<lparr>cc_challengeId = cid, cc_matchId = hi_matchId i,
                          cc_creator = creator, cc_creatorSide = side, cc_opponentSide = opponentSide,
                          cc_stake = hi_stake i\<rparr>] w)))))"

text \<open>Accepting has three steps, with other requests free to run between them: the checks on
  the read model, the lock in the opponent's mailbox, and the append to the escrow stream.\<close>

definition accept_check :: "wallet \<Rightarrow> challenge_id \<Rightarrow> world \<Rightarrow> failure + challenge_view" where
  "accept_check opponent cid w =
     (case getChallenge (w_rm w) cid of
        None \<Rightarrow> Inl (DomainError INVALID)
      | Some ch \<Rightarrow>
          if cw_status ch \<noteq> C_OPEN then Inl (DomainError CONFLICT)
          else if cw_creator ch = opponent then Inl (DomainError INVALID)
          else if \<not> result_open w (cw_matchId ch) then Inl (DomainError MATCH_LOCKED)
          else Inr ch)"

definition accept_lock :: "uuids \<Rightarrow> game_config \<Rightarrow> wallet \<Rightarrow> challenge_view \<Rightarrow> challenge_id \<Rightarrow> world \<Rightarrow> unit outcome_of" where
  "accept_lock uuid cfg opponent ch cid w =
     lockChallengeStake uuid cfg opponent \<lparr>li_challengeId = cid, li_matchId = cw_matchId ch,
       li_side = cw_opponentSide ch, li_stake = cw_stake ch, li_role = OPPONENT\<rparr> w"

definition accept_commit :: "uuids \<Rightarrow> wallet \<Rightarrow> challenge_id \<Rightarrow> world \<Rightarrow> challenge_id outcome_of" where
  "accept_commit uuid opponent cid w =
     or_refund uuid opponent cid ''challenge already taken''
       (challengeAppend uuid cid [ChallengeAccepted cid opponent] w)"

definition acceptChallenge :: "uuids \<Rightarrow> game_config \<Rightarrow> wallet \<Rightarrow> challenge_id \<Rightarrow> world \<Rightarrow> challenge_id outcome_of" where
  "acceptChallenge uuid cfg opponent cid w =
     (case accept_check opponent cid w of
        Inl f \<Rightarrow> (Inl f, w)
      | Inr ch \<Rightarrow> and_then (accept_lock uuid cfg opponent ch cid w) (\<lambda>_. accept_commit uuid opponent cid))"

definition cancelChallenge :: "uuids \<Rightarrow> wallet \<Rightarrow> challenge_id \<Rightarrow> world \<Rightarrow> unit outcome_of" where
  "cancelChallenge uuid creator cid w =
     (case getChallenge (w_rm w) cid of
        None \<Rightarrow> reject INVALID w
      | Some ch \<Rightarrow>
          if cw_creator ch \<noteq> creator then reject INVALID w
          else if cw_status ch \<noteq> C_OPEN then reject CONFLICT w
          else and_then (refundChallengeStake uuid creator cid ''challenge cancelled'' w)
                 (\<lambda>_. challengeAppend uuid cid [ChallengeCancelled cid]))"

text \<open>\<open>Promise.all\<close>: every task runs, and the first failure is the failure of the whole.\<close>

fun run_all :: "('a \<Rightarrow> world \<Rightarrow> unit outcome_of) \<Rightarrow> 'a list \<Rightarrow> world \<Rightarrow> unit outcome_of" where
  "run_all f [] w = (Inr (), w)"
| "run_all f (x # xs) w =
     (case f x w of
        (Inr _, w) \<Rightarrow> run_all f xs w
      | (Inl e, w) \<Rightarrow> (Inl e, snd (run_all f xs w)))"

definition challenge_calls :: "challenge_view \<Rightarrow> wallet \<Rightarrow> call_stake list" where
  "challenge_calls ch opponent =
     [\<lparr>ck_callId = cw_challengeId ch @ '':c'', ck_wallet = cw_creator ch, ck_bucket = cw_creatorSide ch, ck_stake = cw_stake ch\<rparr>,
      \<lparr>ck_callId = cw_challengeId ch @ '':o'', ck_wallet = opponent, ck_bucket = cw_opponentSide ch, ck_stake = cw_stake ch\<rparr>]"

definition settle_challenge :: "uuids \<Rightarrow> game_config \<Rightarrow> bucket \<Rightarrow> challenge_view \<Rightarrow> world \<Rightarrow> unit outcome_of" where
  "settle_challenge uuid cfg winning ch w =
     (case cw_opponent ch of
        None \<Rightarrow> (Inr (), w)
      | Some opponent \<Rightarrow>
          (case settleParimutuel \<lparr>si_calls = challenge_calls ch opponent, si_winningBucket = winning,
               si_rakeBps = gc_rakeBps cfg, si_minParticipants = 2\<rparr> of
             VOIDED r \<Rightarrow>
               and_then (refundChallengeStake uuid (cw_creator ch) (cw_challengeId ch) (vd_reason r) w) (\<lambda>_ w.
               and_then (refundChallengeStake uuid opponent (cw_challengeId ch) (vd_reason r) w) (\<lambda>_.
                 challengeAppend uuid (cw_challengeId ch) [ChallengeVoided (cw_challengeId ch) winning (vd_reason r)]))
           | PAID r \<Rightarrow>
               and_then (run_all (\<lambda>p. settleChallengeStake uuid (po_wallet p) (cw_challengeId ch)
                   (if po_won p then WON else LOST) (po_payout p)) (pd_payouts r) w) (\<lambda>_ w.
                 case find po_won (pd_payouts r) of
                   None \<Rightarrow> (Inr (), w)
                 | Some win \<Rightarrow> challengeAppend uuid (cw_challengeId ch)
                     [ChallengeSettled \<lparr>ct_challengeId = cw_challengeId ch, ct_winningBucket = winning,
                        ct_winner = po_wallet win, ct_grossPot = pd_grossPot r, ct_rake = pd_rake r,
                        ct_payout = po_payout win\<rparr>] w)))"

definition settleChallengesForMatch :: "uuids \<Rightarrow> game_config \<Rightarrow> match_id \<Rightarrow> score \<Rightarrow> world \<Rightarrow> unit outcome_of" where
  "settleChallengesForMatch uuid cfg mid sc w =
     run_seq (settle_challenge uuid cfg (resolveResult sc)) (matchedFor (rm_challenges (w_rm w)) mid) w"

section \<open>The life of a match\<close>

text \<open>Stamp each market with its pot id; one too long fails the whole.\<close>

fun stamp_all :: "match_id \<Rightarrow> market_def list \<Rightarrow> failure + market_def list" where
  "stamp_all mid [] = Inr []"
| "stamp_all mid (m # ms) =
     (case derivePotMatchId mid m of
        Inl f \<Rightarrow> Inl f
      | Inr p \<Rightarrow> (case stamp_all mid ms of Inl f \<Rightarrow> Inl f | Inr ms' \<Rightarrow> Inr (m\<lparr>md_potMatchId := Some p\<rparr> # ms')))"

definition openMatch :: "uuids \<Rightarrow> fixture \<Rightarrow> market_def list \<Rightarrow> world \<Rightarrow> unit outcome_of" where
  "openMatch uuid f extra w =
     (if getMatch (rm_pots (w_rm w)) (fx_matchId f) \<noteq> None then (Inr (), w)
      else case stamp_all (fx_matchId f) (resultMarket # extra) of
          Inl e \<Rightarrow> (Inl e, w)
        | Inr ms \<Rightarrow> matchAppend uuid (fx_matchId f) [MatchOpened f ms] w)"

definition reconcileMarkets :: "uuids \<Rightarrow> fixture \<Rightarrow> world \<Rightarrow> unit outcome_of" where
  "reconcileMarkets uuid f w =
     (case getMatch (rm_pots (w_rm w)) (fx_matchId f) of
        None \<Rightarrow> (Inr (), w)
      | Some m \<Rightarrow>
          if mw_status m \<noteq> OPEN then (Inr (), w)
          else
            (let have = map mv_marketId (mw_markets m);
                 missing = filter (\<lambda>d. md_marketId d \<notin> set have) (resultMarket # lineMarketsFor f)
             in if missing = [] then (Inr (), w)
                else case stamp_all (fx_matchId f) missing of
                    Inl e \<Rightarrow> (Inl e, w)
                  | Inr ms \<Rightarrow> matchAppend uuid (fx_matchId f) [MarketsAdded (fx_matchId f) ms] w))"

definition lockMatch :: "uuids \<Rightarrow> match_id \<Rightarrow> world \<Rightarrow> unit outcome_of" where
  "lockMatch uuid mid w =
     (case getMatch (rm_pots (w_rm w)) mid of
        None \<Rightarrow> (Inr (), w)
      | Some m \<Rightarrow> if mw_status m \<noteq> OPEN then (Inr (), w) else matchAppend uuid mid [MatchLocked mid] w)"

definition pot_event :: "match_id \<Rightarrow> market_id \<Rightarrow> outcome \<Rightarrow> frost \<Rightarrow> frost \<Rightarrow> frost \<Rightarrow> nat \<Rightarrow> match_event" where
  "pot_event mid k outcome gross rake winnersStake n = PotSettled \<lparr>ps_matchId = mid, ps_marketId = k,
     ps_winningBucket = outcome, ps_grossPot = gross, ps_rake = rake, ps_winnersStake = winnersStake,
     ps_settledCount = n\<rparr>"

definition settleMarket :: "uuids \<Rightarrow> game_config \<Rightarrow> match_id \<Rightarrow> market_id \<Rightarrow> outcome \<Rightarrow> world \<Rightarrow> unit outcome_of" where
  "settleMarket uuid cfg mid k outcome w =
     (let calls = getMarketCalls (rm_pots (w_rm w)) mid k;
          grossPot = total_stake calls;
          void_all = (\<lambda>reason. run_all (\<lambda>c. voidCall uuid (ck_wallet c) (ck_callId c) reason) calls w)
      in if outcome = VOID
         then and_then (void_all ''market voided'') (\<lambda>_.
                matchAppend uuid mid [pot_event mid k VOID grossPot 0 0 (length calls)])
         else
           (case settleParimutuel \<lparr>si_calls = calls, si_winningBucket = outcome, si_rakeBps = gc_rakeBps cfg,
                si_minParticipants = gc_minParticipants cfg\<rparr> of
              VOIDED r \<Rightarrow> and_then (void_all (vd_reason r)) (\<lambda>_.
                matchAppend uuid mid [pot_event mid k outcome grossPot 0 0 (length calls)])
            | PAID r \<Rightarrow>
                and_then (run_all (\<lambda>p. settleCall uuid (po_wallet p) (po_callId p) (po_won p) (po_payout p)) (pd_payouts r) w)
                  (\<lambda>_. matchAppend uuid mid [pot_event mid k outcome (pd_grossPot r) (pd_rake r)
                     (pd_winnersStake r) (length (pd_payouts r))])))"

definition resolveMatch :: "uuids \<Rightarrow> game_config \<Rightarrow> (match_id \<Rightarrow> int \<Rightarrow> score \<Rightarrow> string + bool) \<Rightarrow> match_id \<Rightarrow> score
    \<Rightarrow> string \<Rightarrow> world \<Rightarrow> unit outcome_of" where
  "resolveMatch uuid cfg verify mid sc source w =
     (case getMatch (rm_pots (w_rm w)) mid of
        None \<Rightarrow> (Inr (), w)
      | Some m \<Rightarrow>
          if mw_status m = RESOLVED then (Inr (), w)
          else
            (case verify mid (case fx_txline (mw_fixture m) of None \<Rightarrow> -1 | Some t \<Rightarrow> tx_fixtureId t) sc of
               Inl e \<Rightarrow> (Inl (OtherError e), w)
             | Inr False \<Rightarrow> (Inr (), w)
             | Inr True \<Rightarrow>
                 and_then (if mw_status m = OPEN then lockMatch uuid mid w else (Inr (), w)) (\<lambda>_ w.
                 let outcomes = resolveOutcomes (map (\<lambda>mv. (mv_marketId mv, mv_line mv)) (mw_markets m)) sc
                 in and_then (matchAppend uuid mid [MatchResolved \<lparr>mr_matchId = mid, mr_score = sc,
                        mr_outcomes = outcomes, mr_source = source\<rparr>] w) (\<lambda>_ w.
                    and_then (run_seq (\<lambda>k. settleMarket uuid cfg mid k
                        (case jm_get outcomes k of None \<Rightarrow> VOID | Some oc \<Rightarrow> oc)) (map mv_marketId (mw_markets m)) w) (\<lambda>_.
                      settleChallengesForMatch uuid cfg mid sc)))))"

section \<open>Ingestion\<close>

definition sync_fixture :: "uuids \<Rightarrow> fixture \<Rightarrow> world \<Rightarrow> unit outcome_of" where
  "sync_fixture uuid f w =
     and_then (openMatch uuid f (lineMarketsFor f) w) (\<lambda>_. reconcileMarkets uuid f)"

definition syncFixtures :: "uuids \<Rightarrow> fixture list \<Rightarrow> world \<Rightarrow> unit outcome_of" where
  "syncFixtures uuid fs w = run_seq (sync_fixture uuid) fs w"

record match_result =
  re_matchId :: match_id
  re_score :: score
  re_finished :: bool

definition tick :: "uuids \<Rightarrow> game_config \<Rightarrow> (match_id \<Rightarrow> int \<Rightarrow> score \<Rightarrow> string + bool)
    \<Rightarrow> (match_id list \<Rightarrow> string + match_result list) \<Rightarrow> int \<Rightarrow> world \<Rightarrow> unit outcome_of" where
  "tick uuid cfg verify fetchResults now w =
     and_then (run_seq (\<lambda>m w. if mw_status m = OPEN \<and> fx_kickoff (mw_fixture m) \<le> now
         then lockMatch uuid (fx_matchId (mw_fixture m)) w else (Inr (), w)) (allMatches (rm_pots (w_rm w))) w) (\<lambda>_ w.
     case fetchResults (map (\<lambda>m. fx_matchId (mw_fixture m))
         (filter (\<lambda>m. mw_status m \<noteq> RESOLVED) (allMatches (rm_pots (w_rm w))))) of
       Inl e \<Rightarrow> (Inl (OtherError e), w)
     | Inr rs \<Rightarrow>
         and_then (run_seq (\<lambda>r w. if re_finished r
             then resolveMatch uuid cfg verify (re_matchId r) (re_score r) ''matchdata'' w else (Inr (), w)) rs w) (\<lambda>_ w.
         run_seq (\<lambda>m w.
             case (mw_status m, mw_score m) of
               (RESOLVED, Some sc) \<Rightarrow>
                 if matchedFor (rm_challenges (w_rm w)) (fx_matchId (mw_fixture m)) \<noteq> []
                 then settleChallengesForMatch uuid cfg (fx_matchId (mw_fixture m)) sc w else (Inr (), w)
             | _ \<Rightarrow> (Inr (), w)) (allMatches (rm_pots (w_rm w))) w))"

end
