(* ===== verification/Settlement.thy ===== *)
theory Settlement
  imports Engine
begin

text \<open>
  What the settlement of the engine (\<open>src/engine/Engine.ts\<close>) does to the money. A file holds
  money in slots, one per open call and one per open challenge stake. Settling or voiding a
  call, settling or refunding a stake are four operations with one contract, the locale
  \<open>releasing\<close>: the slot is emptied, nothing else of the game moves, and the player's money
  changes by the payout less the stake. The settlement of a market and of a challenge are
  built on it.
\<close>

section \<open>Appends of the engine keep the world\<close>

definition match_after :: "uuids \<Rightarrow> match_id \<Rightarrow> match_event list \<Rightarrow> world \<Rightarrow> world" where
  "match_after uuid mid es w = (after_append uuid (matchStream mid) (map MatchE es) w)
     \<lparr>w_matchVersions := jm_set mid (length (stream_of (matchStream mid) (w_log w)) + length es) (w_matchVersions w)\<rparr>"

definition challenge_after :: "uuids \<Rightarrow> challenge_id \<Rightarrow> challenge_event list \<Rightarrow> world \<Rightarrow> world" where
  "challenge_after uuid cid es w = (after_append uuid (challengeStream cid) (map ChallengeE es) w)
     \<lparr>w_challengeVersions := jm_set cid (length (stream_of (challengeStream cid) (w_log w)) + length es) (w_challengeVersions w)\<rparr>"

lemma match_after_fields [simp]:
  "w_drawn (match_after uuid mid es w) = w_drawn w + length es"
  "w_now (match_after uuid mid es w) = w_now w"
  "w_rm (match_after uuid mid es w) = fold rm_apply (appended uuid (matchStream mid) (map MatchE es) w) (w_rm w)"
  by (simp_all add: match_after_def)

lemma challenge_after_fields [simp]:
  "w_drawn (challenge_after uuid cid ces w) = w_drawn w + length ces"
  "w_now (challenge_after uuid cid ces w) = w_now w"
  "w_rm (challenge_after uuid cid ces w) =
     fold rm_apply (appended uuid (challengeStream cid) (map ChallengeE ces) w) (w_rm w)"
  by (simp_all add: challenge_after_def)

lemma matchAppend_eq: "world_ok uuid w \<Longrightarrow> matchAppend uuid mid es w = (Inr (), match_after uuid mid es w)"
proof -
  assume "world_ok uuid w"
  then have "match_version mid w = length (stream_of (matchStream mid) (w_log w))"
    by (auto simp: match_version_def world_ok_def match_version_ok_def dest: jm_all_get split: option.split)
  then show ?thesis by (simp add: matchAppend_def store_append_current match_after_def)
qed

lemma challengeAppend_eq:
  "world_ok uuid w \<Longrightarrow> challengeAppend uuid cid es w = (Inr (), challenge_after uuid cid es w)"
proof -
  assume "world_ok uuid w"
  then have "challenge_version cid w = length (stream_of (challengeStream cid) (w_log w))"
    by (auto simp: challenge_version_def world_ok_def challenge_version_ok_def dest: jm_all_get split: option.split)
  then show ?thesis by (simp add: challengeAppend_def store_append_current challenge_after_def)
qed

lemma player_versions_keep:
  assumes "jm_all (player_version_ok lg) m" "\<And>e k. e \<in> set new \<Longrightarrow> plain_wallet k \<Longrightarrow> ev_streamId e \<noteq> playerStream k"
  shows "jm_all (player_version_ok (lg @ new)) m"
proof (rule jm_all_mono[OF assms(1)])
  fix k v
  assume v: "player_version_ok lg k v"
  then have "stream_of (playerStream k) new = []"
    using assms(2) by (auto simp: player_version_ok_def stream_of_def filter_empty_conv)
  with v show "player_version_ok (lg @ new) k v" by (simp add: player_version_ok_def)
qed

lemma admissible_seq_engine:
  "admissible_seq uuid n (matchStream mid) now (map MatchE es) ds"
  "admissible_seq uuid n (challengeStream cid) now (map ChallengeE ces) ds"
  by (induction es arbitrary: ds, simp_all add: event_placed_def admissible_def)
    (induction ces arbitrary: ds, simp_all add: event_placed_def admissible_def)

lemma match_after_ok:
  assumes ok: "world_ok uuid w"
  shows "world_ok uuid (match_after uuid mid es w)"
proof -
  let ?new = "appended uuid (matchStream mid) (map MatchE es) w"
  have lg: "log_ok uuid (w_drawn w) (w_log w)" "w_rm w = hydrate (w_log w)"
    using ok by (simp_all add: world_ok_def)
  note aft = after_append_log_ok[OF lg admissible_seq_engine(1)[of uuid _ mid _ es]]
  have new: "stream_of (matchStream k) ?new = (if k = mid then ?new else [])" for k
    by (auto dest: matchStream_inj)
  have "jm_all (match_version_ok (w_log w @ ?new)) (w_matchVersions (match_after uuid mid es w))"
    unfolding match_after_def using ok new
    by (auto simp: world_ok_def match_version_ok_def intro!: jm_all_set_key[where P = "match_version_ok (w_log w)"])
  moreover have "jm_all (player_version_ok (w_log w @ ?new)) (w_actors w)"
    using ok by (intro player_versions_keep) (simp_all add: world_ok_def not_sym)
  moreover have "jm_all (challenge_version_ok (w_log w @ ?new)) (w_challengeVersions w)"
    using ok by (intro challenge_versions_append) (auto simp: world_ok_def dest!: appended_stream)
  ultimately show ?thesis using ok aft by (simp add: world_ok_def match_after_def)
qed

lemma challenge_after_ok:
  assumes ok: "world_ok uuid w"
  shows "world_ok uuid (challenge_after uuid cid es w)"
proof -
  let ?new = "appended uuid (challengeStream cid) (map ChallengeE es) w"
  have lg: "log_ok uuid (w_drawn w) (w_log w)" "w_rm w = hydrate (w_log w)"
    using ok by (simp_all add: world_ok_def)
  note aft = after_append_log_ok[OF lg admissible_seq_engine(2)[of uuid _ cid _ es]]
  have new: "stream_of (challengeStream k) ?new = (if k = cid then ?new else [])" for k
    by (auto dest: challengeStream_inj)
  have "jm_all (challenge_version_ok (w_log w @ ?new)) (w_challengeVersions (challenge_after uuid cid es w))"
    unfolding challenge_after_def using ok new
    by (auto simp: world_ok_def challenge_version_ok_def
        intro!: jm_all_set_key[where P = "challenge_version_ok (w_log w)"])
  moreover have "jm_all (player_version_ok (w_log w @ ?new)) (w_actors w)"
    using ok by (intro player_versions_keep) (simp_all add: world_ok_def not_sym)
  moreover have "jm_all (match_version_ok (w_log w @ ?new)) (w_matchVersions w)"
    using ok matchStream_not_challenge
    by (intro match_versions_append) (auto simp: world_ok_def dest!: appended_stream dest: sym)
  ultimately show ?thesis using ok aft by (simp add: world_ok_def challenge_after_def)
qed

text \<open>Only a wallet that keeps its own stream has a file.\<close>

lemma file_plain:
  assumes ok: "world_ok uuid w" and d: "dossier_of w u = Some d"
  shows "plain_wallet u"
proof -
  obtain e h where e: "e \<in> set (w_log w)" "ev_payload e = PlayerE (PlayerSigned u h)"
    using ok d dossier_exists_iff[of "w_log w" "[]" u] by (auto simp: world_ok_def hydrate_fields)
  have "event_placed (ev_streamId e) (ev_payload e)"
    using ok e(1) by (auto simp: world_ok_def log_ok_def list_all_iff)
  with e(2) show ?thesis by (auto simp: event_placed_def split: option.splits)
qed

section \<open>Slots\<close>

text \<open>A slot of a file holds the stake of an open call or of an open challenge.\<close>

datatype slot = CallSlot call_id | StakeSlot challenge_id

fun file_held :: "dossier_state \<Rightarrow> slot \<Rightarrow> frost option" where
  "file_held d (CallSlot k) = map_option oc_stake (jm_get (ds_openCalls d) k)"
| "file_held d (StakeSlot k) = map_option os_stake (jm_get (ds_openStakes d) k)"

definition held :: "world \<Rightarrow> wallet \<Rightarrow> slot \<Rightarrow> frost option" where
  "held w u s = (case dossier_of w u of None \<Rightarrow> None | Some d \<Rightarrow> file_held d s)"

text \<open>All the money of the players, free, bonus and staked; and with the Manager's Pot.\<close>

definition players_money :: "world \<Rightarrow> frost" where
  "players_money w = jm_sum wealth (rm_dossier (w_rm w))"

definition game_money :: "world \<Rightarrow> frost" where
  "game_money w = players_money w + rm_managersPot (w_rm w)"

text \<open>An operation that empties the slots \<open>ks\<close>: it succeeds, the players' money changes by
  \<open>gain\<close>, the other slots, the pots, the challenges and the Manager's Pot stay.\<close>

definition releases :: "uuids \<Rightarrow> (wallet \<times> slot) set \<Rightarrow> frost \<Rightarrow> world \<Rightarrow> unit outcome_of \<Rightarrow> bool" where
  "releases uuid ks gain w r \<longleftrightarrow> fst r = Inr () \<and> world_ok uuid (snd r) \<and>
     rm_pots (w_rm (snd r)) = rm_pots (w_rm w) \<and> rm_challenges (w_rm (snd r)) = rm_challenges (w_rm w) \<and>
     rm_managersPot (w_rm (snd r)) = rm_managersPot (w_rm w) \<and>
     players_money (snd r) = players_money w + gain \<and> w_drawn w \<le> w_drawn (snd r) \<and>
     (\<forall>v s. held (snd r) v s = (if (v, s) \<in> ks then None else held w v s))"

lemma releases_none: "world_ok uuid w \<Longrightarrow> releases uuid {} 0 w (Inr (), w)"
  by (simp add: releases_def)

lemma releases_trans:
  assumes "releases uuid ks g w r" "releases uuid ks' g' (snd r) r'"
  shows "releases uuid (ks \<union> ks') (g + g') w r'"
  using assms unfolding releases_def by auto

lemma releases_result: "releases uuid ks g w r \<Longrightarrow> r = (Inr (), snd r)"
  by (cases r) (simp add: releases_def)

lemma jm_sum_pointwise:
  assumes "jm_wf m" "jm_wf n" "\<And>k. jm_get m k = jm_get n k"
  shows "jm_sum f m = jm_sum f n"
proof (rule jm_sum_perm)
  have "set m = set n" using assms by (auto simp: set_eq_iff) (metis jm_get_in jm_get_mem)+
  then show "mset m = mset n"
    using assms(1,2) by (simp add: set_eq_iff_mset_eq_distinct jm_wf_distinct)
qed

lemma world_dossiers_wf: "world_ok uuid w \<Longrightarrow> jm_wf (rm_dossier (w_rm w))"
  by (simp add: world_ok_def log_ok_def)

lemma players_money_change:
  assumes "world_ok uuid w" "world_ok uuid w'" "dossier_of w u = Some d"
    and "\<And>v. dossier_of w' v = (if v = u then Some d' else dossier_of w v)"
  shows "players_money w' = players_money w + (wealth d' - wealth d)"
proof -
  have "players_money w' = jm_sum wealth (jm_set u d' (rm_dossier (w_rm w)))"
    unfolding players_money_def using assms
    by (intro jm_sum_pointwise) (simp_all add: world_dossiers_wf)
  then show ?thesis using assms(3) world_dossiers_wf[OF assms(1)]
    by (simp add: players_money_def jm_sum_set)
qed

lemma fold_other_views:
  assumes "\<And>e. e \<in> set lg \<Longrightarrow> pot_owner e = None"
  shows "fold pot_apply lg ps = ps"
  using assms by (induction lg arbitrary: ps) (simp_all add: pot_apply_none)

text \<open>The views of an actor's events that are not calls.\<close>

lemma actor_after_views:
  assumes "\<And>c. CallMade c \<notin> set ps"
  shows "rm_pots (w_rm (actor_after uuid u ps w)) = rm_pots (w_rm w)"
    and "rm_challenges (w_rm (actor_after uuid u ps w)) = rm_challenges (w_rm w)"
    and "rm_managersPot (w_rm (actor_after uuid u ps w)) = rm_managersPot (w_rm w)"
proof -
  let ?new = "appended uuid (playerStream u) (map PlayerE ps) w"
  have new: "\<exists>p \<in> set ps. ev_payload e = PlayerE p" if "e \<in> set ?new" for e
  proof -
    have "map ev_payload ?new = map PlayerE ps" by simp
    then have "ev_payload ` set ?new = PlayerE ` set ps" by (metis set_map)
    then show ?thesis using that by blast
  qed
  have "pot_owner e = None" if "e \<in> set ?new" for e
    using new[OF that] assms by (auto simp: pot_owner_def split: player_event.split)
  then show "rm_pots (w_rm (actor_after uuid u ps w)) = rm_pots (w_rm w)"
    by (simp add: actor_after_rm fold_rm_fields fold_other_views)
  have "fold challenge_apply lg cs = cs" if "\<And>e. e \<in> set lg \<Longrightarrow> \<exists>p. ev_payload e = PlayerE p" for lg cs
    using that by (induction lg arbitrary: cs) (fastforce simp: challenge_apply_def)+
  then show "rm_challenges (w_rm (actor_after uuid u ps w)) = rm_challenges (w_rm w)"
    using new by (simp add: actor_after_rm fold_rm_fields) blast
  have "(\<Sum>e\<leftarrow>?new. rake_of_event (ev_payload e)) = (\<Sum>p\<leftarrow>map ev_payload ?new. rake_of_event p)"
    unfolding map_map comp_def ..
  also have "\<dots> = 0" unfolding appended_streams by (simp add: comp_def)
  finally show "rm_managersPot (w_rm (actor_after uuid u ps w)) = rm_managersPot (w_rm w)"
    by (simp add: actor_after_rm fold_rm_fields)
qed

lemma actor_after_releases:
  assumes ok: "world_ok uuid w" "world_ok uuid (actor_after uuid u ps w)" and d: "dossier_of w u = Some d"
    and d': "\<And>v. dossier_of (actor_after uuid u ps w) v = (if v = u then Some d' else dossier_of w v)"
    and ps: "\<And>c. CallMade c \<notin> set ps"
    and h: "\<And>s. file_held d' s = (if s = t then None else file_held d s)" and g: "wealth d' - wealth d = g"
  shows "releases uuid {(u, t)} g w (Inr (), actor_after uuid u ps w)"
  using ok players_money_change[OF ok d d'] d' h g d
  by (simp add: releases_def actor_after_views[OF ps] held_def)

section \<open>The contract of a release\<close>

locale releasing =
  fixes uuid :: uuids
    and act :: "'x \<Rightarrow> world \<Rightarrow> unit outcome_of"
    and who :: "'x \<Rightarrow> wallet"
    and slot_of :: "'x \<Rightarrow> slot"
    and pay :: "'x \<Rightarrow> frost \<Rightarrow> frost"
    and fine :: "'x \<Rightarrow> bool"
  assumes release: "world_ok uuid w \<Longrightarrow> fine x \<Longrightarrow> held w (who x) (slot_of x) = Some st \<Longrightarrow>
      releases uuid {(who x, slot_of x)} (pay x st - st) w (act x w)"
    and idle: "world_ok uuid w \<Longrightarrow> held w (who x) (slot_of x) = None \<Longrightarrow> act x w = (Inr (), w)"
begin

lemma keeps_world: "world_ok uuid w \<Longrightarrow> fine x \<Longrightarrow> world_ok uuid (snd (act x w)) \<and> fst (act x w) = Inr ()"
  by (cases "held w (who x) (slot_of x)") (auto simp: idle dest: release simp: releases_def)

lemma release_all:
  "world_ok uuid w \<Longrightarrow> distinct (map (\<lambda>x. (who x, slot_of x)) xs) \<Longrightarrow>
    (\<And>x. x \<in> set xs \<Longrightarrow> fine x \<and> held w (who x) (slot_of x) = Some (stake x)) \<Longrightarrow>
    releases uuid ((\<lambda>x. (who x, slot_of x)) ` set xs) (\<Sum>x\<leftarrow>xs. pay x (stake x) - stake x) w (run_all act xs w)"
proof (induction xs arbitrary: w)
  case Nil
  then show ?case by (simp add: releases_none)
next
  case (Cons x xs)
  have r: "releases uuid {(who x, slot_of x)} (pay x (stake x) - stake x) w (act x w)"
    using Cons.prems(1,3) by (intro release) auto
  let ?w1 = "snd (act x w)"
  have w1: "world_ok uuid ?w1" "\<And>v s. held ?w1 v s = (if (v, s) = (who x, slot_of x) then None else held w v s)"
    using r by (auto simp: releases_def)
  have "releases uuid ((\<lambda>x. (who x, slot_of x)) ` set xs) (\<Sum>x\<leftarrow>xs. pay x (stake x) - stake x) ?w1 (run_all act xs ?w1)"
  proof (rule Cons.IH[OF w1(1)])
    show "distinct (map (\<lambda>x. (who x, slot_of x)) xs)" using Cons.prems(2) by simp
    fix y
    assume y: "y \<in> set xs"
    have "(who y, slot_of y) \<noteq> (who x, slot_of x)"
    proof
      assume "(who y, slot_of y) = (who x, slot_of x)"
      then have "(who x, slot_of x) \<in> (\<lambda>x. (who x, slot_of x)) ` set xs"
        using imageI[OF y, of "\<lambda>x. (who x, slot_of x)"] by (simp only:)
      with Cons.prems(2) show False by simp
    qed
    then have "held ?w1 (who y) (slot_of y) = held w (who y) (slot_of y)"
      unfolding w1(2) by (rule if_not_P)
    moreover have "fine y \<and> held w (who y) (slot_of y) = Some (stake y)"
      using y by (intro Cons.prems(3)) (rule list.set_intros(2))
    ultimately show "fine y \<and> held ?w1 (who y) (slot_of y) = Some (stake y)" by (simp only:)
  qed
  from releases_trans[OF r this] have "releases uuid ((\<lambda>x. (who x, slot_of x)) ` set (x # xs))
      (\<Sum>x\<leftarrow>x # xs. pay x (stake x) - stake x) w (run_all act xs ?w1)" by simp
  moreover have "run_all act (x # xs) w = run_all act xs ?w1"
    using r by (cases "act x w") (simp add: releases_def)
  ultimately show ?case by (simp only:)
qed

lemma all_idle:
  "world_ok uuid w \<Longrightarrow> (\<And>x. x \<in> set xs \<Longrightarrow> held w (who x) (slot_of x) = None) \<Longrightarrow> run_all act xs w = (Inr (), w)"
  by (induction xs) (simp_all add: idle)

end

lemma file_held_settled:
  "file_held (settle_call_step tm p d) s = (if s = CallSlot (cs_callId p) then None else file_held d s)"
  by (cases s) (simp_all add: settle_call_step_def Let_def)

lemma wealth_settled: "wealth (settle_call_step tm p d) = wealth d + (cs_payout p - cs_stake p)"
  by (simp add: settle_call_step_def wealth_def Let_def)

lemma held_Some:
  assumes "held w u s = Some st"
  obtains d where "dossier_of w u = Some d" "file_held d s = Some st"
  using assms by (auto simp: held_def split: option.splits)

lemma settleCall_releases:
  assumes ok: "world_ok uuid w" and pay: "0 \<le> pay" and h: "held w u (CallSlot k) = Some st"
  shows "releases uuid {(u, CallSlot k)} (pay - st) w (settleCall uuid u k won pay w)"
proof -
  obtain d where d: "dossier_of w u = Some d" "file_held d (CallSlot k) = Some st" using h by (rule held_Some)
  then obtain c where c: "jm_get (ds_openCalls d) k = Some c" "oc_stake c = st" by auto
  note u = file_plain[OF ok d(1)]
  obtain p where p: "dossier_of (actor_after uuid u (settle_events k (toView d) c won pay) w) u =
      Some (settle_call_step (w_now w) p d)" "cs_callId p = k" "cs_stake p = st" "cs_payout p = pay"
    using dossier_after_settle(1)[OF ok u d(1) c(1) pay] c(2) by blast
  have no: "CallMade x \<notin> set (settle_events k (toView d) c won pay)" for x
    using settle_events_step[OF refl c(1), of won pay] by auto
  have "releases uuid {(u, CallSlot k)} (pay - st) w (Inr (), actor_after uuid u (settle_events k (toView d) c won pay) w)"
    using p dossier_after_settle(2)[OF ok u d(1) c(1) pay]
    by (intro actor_after_releases[OF ok settle_after_ok[OF ok u d(1) c(1) pay] d(1) _ no,
          where d' = "settle_call_step (w_now w) p d"])
      (simp_all add: file_held_settled wealth_settled)
  with d c show ?thesis by (simp add: settleCall_eq[OF ok])
qed

text \<open>A slot closed by one event.\<close>

lemma one_event_releases:
  assumes ok: "world_ok uuid w" and d: "dossier_of w u = Some d" and p: "\<not> is_signing p" "event_valid p d"
    and no: "\<And>c. p \<noteq> CallMade c"
    and h: "\<And>s. file_held (dossier_step (w_now w) p d) s = (if s = t then None else file_held d s)"
    and g: "wealth (dossier_step (w_now w) p d) - wealth d = g"
  shows "releases uuid {(u, t)} g w (Inr (), actor_after uuid u [p] w)"
proof -
  note u = file_plain[OF ok d]
  have "world_ok uuid (actor_after uuid u [p] w)" using no by (intro actor_after_one_ok[OF ok u d p]) blast
  moreover have "dossier_of (actor_after uuid u [p] w) v =
      (if v = u then Some (dossier_step (w_now w) p d) else dossier_of w v)" for v
    using d by (simp add: actor_after_dossier[OF u p(1)])
  ultimately show ?thesis using h g no by (intro actor_after_releases[OF ok _ d]) auto
qed

lemma voidCall_releases:
  assumes ok: "world_ok uuid w" and h: "held w u (CallSlot k) = Some st"
  shows "releases uuid {(u, CallSlot k)} 0 w (voidCall uuid u k reason w)"
proof -
  obtain d where d: "dossier_of w u = Some d" "file_held d (CallSlot k) = Some st" using h by (rule held_Some)
  then obtain c where c: "jm_get (ds_openCalls d) k = Some c" "oc_stake c = st" by auto
  let ?p = "CallVoided \<lparr>cv_callId = k, cv_matchId = oc_matchId c, cv_marketId = oc_marketId c,
      cv_refund = oc_stake c, cv_reason = reason\<rparr>"
  have "file_held (dossier_step (w_now w) ?p d) s = (if s = CallSlot k then None else file_held d s)" for s
    by (cases s) simp_all
  then have "releases uuid {(u, CallSlot k)} 0 w (Inr (), actor_after uuid u [?p] w)"
    using c by (intro one_event_releases[OF ok d(1)]) (simp_all add: is_signing_def wealth_def)
  with d c show ?thesis by (simp add: voidCall_eq[OF ok])
qed

lemma settleChallengeStake_releases:
  assumes ok: "world_ok uuid w" and pay: "0 \<le> pay" and h: "held w u (StakeSlot k) = Some st"
  shows "releases uuid {(u, StakeSlot k)} (pay - st) w (settleChallengeStake uuid u k result pay w)"
proof -
  obtain d where d: "dossier_of w u = Some d" "file_held d (StakeSlot k) = Some st" using h by (rule held_Some)
  then obtain c where c: "jm_get (ds_openStakes d) k = Some c" "os_stake c = st" by auto
  let ?p = "ChallengeStakeSettled \<lparr>ss_challengeId = k, ss_matchId = os_matchId c, ss_result = result,
      ss_stake = os_stake c, ss_payout = pay, ss_pnlDelta = pay - os_stake c\<rparr>"
  have "file_held (dossier_step (w_now w) ?p d) s = (if s = StakeSlot k then None else file_held d s)" for s
    using c by (cases s) simp_all
  then have "releases uuid {(u, StakeSlot k)} (pay - st) w (Inr (), actor_after uuid u [?p] w)"
    using c pay by (intro one_event_releases[OF ok d(1)]) (simp_all add: is_signing_def wealth_def)
  with d c show ?thesis by (simp add: settleChallengeStake_eq[OF ok])
qed

lemma refundChallengeStake_releases:
  assumes ok: "world_ok uuid w" and h: "held w u (StakeSlot k) = Some st"
  shows "releases uuid {(u, StakeSlot k)} 0 w (refundChallengeStake uuid u k reason w)"
proof -
  obtain d where d: "dossier_of w u = Some d" "file_held d (StakeSlot k) = Some st" using h by (rule held_Some)
  then obtain c where c: "jm_get (ds_openStakes d) k = Some c" "os_stake c = st" by auto
  let ?p = "ChallengeStakeRefunded \<lparr>sr_challengeId = k, sr_matchId = os_matchId c,
      sr_refund = os_stake c, sr_reason = reason\<rparr>"
  have "file_held (dossier_step (w_now w) ?p d) s = (if s = StakeSlot k then None else file_held d s)" for s
    using c by (cases s) simp_all
  then have "releases uuid {(u, StakeSlot k)} 0 w (Inr (), actor_after uuid u [?p] w)"
    using c by (intro one_event_releases[OF ok d(1)]) (simp_all add: is_signing_def wealth_def)
  with d c show ?thesis by (simp add: refundChallengeStake_eq[OF ok])
qed

text \<open>Each does nothing on an empty slot.\<close>

lemma settleCall_idle: "world_ok uuid w \<Longrightarrow> held w u (CallSlot k) = None \<Longrightarrow> settleCall uuid u k won pay w = (Inr (), w)"
  by (auto simp: settleCall_eq held_def split: option.splits)

lemma voidCall_idle: "world_ok uuid w \<Longrightarrow> held w u (CallSlot k) = None \<Longrightarrow> voidCall uuid u k reason w = (Inr (), w)"
  by (auto simp: voidCall_eq held_def split: option.splits)

lemma settleChallengeStake_idle:
  "world_ok uuid w \<Longrightarrow> held w u (StakeSlot k) = None \<Longrightarrow> settleChallengeStake uuid u k res pay w = (Inr (), w)"
  by (auto simp: settleChallengeStake_eq held_def split: option.splits)

lemma refundChallengeStake_idle:
  "world_ok uuid w \<Longrightarrow> held w u (StakeSlot k) = None \<Longrightarrow> refundChallengeStake uuid u k reason w = (Inr (), w)"
  by (auto simp: refundChallengeStake_eq held_def split: option.splits)

interpretation settling: releasing uuid "\<lambda>p. settleCall uuid (po_wallet p) (po_callId p) (po_won p) (po_payout p)"
    po_wallet "\<lambda>p. CallSlot (po_callId p)" "\<lambda>p st. po_payout p" "\<lambda>p. 0 \<le> po_payout p" for uuid
  by unfold_locales
    (use settleCall_releases in \<open>fastforce simp: settleCall_idle\<close>)+

interpretation voiding: releasing uuid "\<lambda>c. voidCall uuid (ck_wallet c) (ck_callId c) reason"
    ck_wallet "\<lambda>c. CallSlot (ck_callId c)" "\<lambda>c st. st" "\<lambda>c. True" for uuid reason
  by unfold_locales
    (use voidCall_releases in \<open>fastforce simp: voidCall_idle\<close>)+

interpretation stake_settling: releasing uuid "\<lambda>p. settleChallengeStake uuid (po_wallet p) cid
      (if po_won p then WON else LOST) (po_payout p)"
    po_wallet "\<lambda>p. StakeSlot cid" "\<lambda>p st. po_payout p" "\<lambda>p. 0 \<le> po_payout p" for uuid cid
  by unfold_locales
    (use settleChallengeStake_releases in \<open>fastforce simp: settleChallengeStake_idle\<close>)+

interpretation stake_refunding: releasing uuid "\<lambda>u. refundChallengeStake uuid u cid reason"
    "\<lambda>u. u" "\<lambda>u. StakeSlot cid" "\<lambda>u st. st" "\<lambda>u. True" for uuid cid reason
  by unfold_locales
    (use refundChallengeStake_releases in \<open>fastforce simp: refundChallengeStake_idle\<close>)+

section \<open>Events of a match and of a challenge\<close>

lemma match_event_frame:
  "dossier_of (match_after uuid mid [e] w) u = dossier_of w u"
  "held (match_after uuid mid [e] w) u s = held w u s"
  "players_money (match_after uuid mid [e] w) = players_money w"
  "rm_challenges (w_rm (match_after uuid mid [e] w)) = rm_challenges (w_rm w)"
  "rm_managersPot (w_rm (match_after uuid mid [e] w)) = rm_managersPot (w_rm w) + rake_of_event (MatchE e)"
  by (simp_all add: appended_one dossier_apply_other held_def players_money_def challenge_apply_def)

lemma challenge_event_frame:
  "dossier_of (challenge_after uuid cid [ce] w) u = dossier_of w u"
  "held (challenge_after uuid cid [ce] w) u s = held w u s"
  "players_money (challenge_after uuid cid [ce] w) = players_money w"
  "rm_pots (w_rm (challenge_after uuid cid [ce] w)) = rm_pots (w_rm w)"
  "rm_managersPot (w_rm (challenge_after uuid cid [ce] w)) = rm_managersPot (w_rm w) + rake_of_event (ChallengeE ce)"
  by (simp_all add: appended_one dossier_apply_other held_def players_money_def pot_apply_def)

lemma pot_settled_pots:
  "rm_pots (w_rm (match_after uuid mid [pot_event mid k oc g r ws n] w)) =
    on_match mid (on_market k (\<lambda>mk. mk\<lparr>mk_settled := True\<rparr>)) (rm_pots (w_rm w))"
  by (simp add: appended_one pot_apply_def pot_event_def)

lemma the_market_on_match:
  "the_market (on_match mid (on_market k f) ps) mid' k' =
    (if mid' = mid \<and> k' = k then map_option f (the_market ps mid k) else the_market ps mid' k')"
  by (auto simp: the_market_def on_match_get on_market_def split: option.splits)

lemma pot_settled_calls:
  "getMarketCalls (on_match mid (on_market k (\<lambda>mk. mk\<lparr>mk_settled := True\<rparr>)) ps) mid' k' = getMarketCalls ps mid' k'"
  by (simp add: getMarketCalls_def the_market_on_match split: option.split)

section \<open>The settlement of a market\<close>

text \<open>The slots a market's calls stand for, and a market whose every call holds its stake.\<close>

definition call_slots :: "call_stake list \<Rightarrow> (wallet \<times> slot) set" where
  "call_slots cs = (\<lambda>c. (ck_wallet c, CallSlot (ck_callId c))) ` set cs"

definition backed :: "world \<Rightarrow> call_stake list \<Rightarrow> bool" where
  "backed w cs \<longleftrightarrow> list_all (\<lambda>c. held w (ck_wallet c) (CallSlot (ck_callId c)) = Some (ck_stake c)) cs"

lemma call_slots_distinct: "calls_ok cs \<Longrightarrow> distinct (map (\<lambda>c. (ck_wallet c, CallSlot (ck_callId c))) cs)"
  by (auto simp: calls_ok_def distinct_map inj_on_def)

lemma void_all_releases:
  assumes "world_ok uuid w" "calls_ok cs" "backed w cs"
  shows "releases uuid (call_slots cs) 0 w
    (run_all (\<lambda>c. voidCall uuid (ck_wallet c) (ck_callId c) reason) cs w)"
  using voiding.release_all[OF assms(1) call_slots_distinct[OF assms(2)], of ck_stake reason] assms(3)
  by (simp add: backed_def list_all_iff call_slots_def)

lemma payout_slots:
  assumes "map (\<lambda>p. (po_callId p, po_wallet p, po_stake p)) ps = map (\<lambda>c. (ck_callId c, ck_wallet c, ck_stake c)) cs"
  shows "map (\<lambda>p. (po_wallet p, CallSlot (po_callId p))) ps = map (\<lambda>c. (ck_wallet c, CallSlot (ck_callId c))) cs"
    and "map po_stake ps = map ck_stake cs" and "length ps = length cs"
    and "p \<in> set ps \<Longrightarrow> backed w cs \<Longrightarrow> held w (po_wallet p) (CallSlot (po_callId p)) = Some (po_stake p)"
proof -
  have "map (\<lambda>p. (po_wallet p, CallSlot (po_callId p))) ps =
      map (\<lambda>(k, u, s). (u, CallSlot k)) (map (\<lambda>p. (po_callId p, po_wallet p, po_stake p)) ps)" by simp
  then show "map (\<lambda>p. (po_wallet p, CallSlot (po_callId p))) ps = map (\<lambda>c. (ck_wallet c, CallSlot (ck_callId c))) cs"
    unfolding assms by simp
  have "map po_stake ps = map (\<lambda>(k, u, s). s) (map (\<lambda>p. (po_callId p, po_wallet p, po_stake p)) ps)" by simp
  then show "map po_stake ps = map ck_stake cs" unfolding assms by simp
  show "length ps = length cs" using map_eq_imp_length_eq[OF assms] .
  show "held w (po_wallet p) (CallSlot (po_callId p)) = Some (po_stake p)" if p: "p \<in> set ps" "backed w cs"
  proof -
    have "(po_callId p, po_wallet p, po_stake p) \<in> set (map (\<lambda>p. (po_callId p, po_wallet p, po_stake p)) ps)"
      using p(1) by simp
    then obtain c where "c \<in> set cs" "ck_callId c = po_callId p" "ck_wallet c = po_wallet p" "ck_stake c = po_stake p"
      unfolding assms by auto
    with p(2) show ?thesis by (auto simp: backed_def list_all_iff)
  qed
qed

lemma pay_all_releases:
  assumes ok: "world_ok uuid w" and cs: "calls_ok (si_calls inp)" "rake_ok (si_rakeBps inp)" "backed w (si_calls inp)"
    and r: "settleParimutuel inp = PAID r"
  shows "releases uuid (call_slots (si_calls inp)) (- pd_rake r) w
    (run_all (\<lambda>p. settleCall uuid (po_wallet p) (po_callId p) (po_won p) (po_payout p)) (pd_payouts r) w)"
proof -
  note pp = paid_payouts[OF cs(1,2) r]
  note ps = payout_slots[OF pp(1)]
  have d: "distinct (map (\<lambda>p. (po_wallet p, CallSlot (po_callId p))) (pd_payouts r))"
    unfolding ps(1) by (rule call_slots_distinct[OF cs(1)])
  have "releases uuid ((\<lambda>p. (po_wallet p, CallSlot (po_callId p))) ` set (pd_payouts r))
      (\<Sum>p\<leftarrow>pd_payouts r. po_payout p - po_stake p) w
      (run_all (\<lambda>p. settleCall uuid (po_wallet p) (po_callId p) (po_won p) (po_payout p)) (pd_payouts r) w)"
    using pp(2) ps(4)[OF _ cs(3)] by (intro settling.release_all[OF ok d]) simp
  moreover have "(\<lambda>p. (po_wallet p, CallSlot (po_callId p))) ` set (pd_payouts r) = call_slots (si_calls inp)"
    using ps(1) unfolding call_slots_def by (metis set_map)
  moreover have "(\<Sum>p\<leftarrow>pd_payouts r. po_payout p - po_stake p) = - pd_rake r"
  proof -
    have "(\<Sum>p\<leftarrow>pd_payouts r. po_payout p) + pd_rake r = total_stake (si_calls inp)"
      using settlement_sum[OF cs(1,2)] r by simp
    moreover have "(\<Sum>p\<leftarrow>pd_payouts r. po_stake p) = total_stake (si_calls inp)"
      by (simp add: ps(2) total_stake_def)
    ultimately show ?thesis by (simp add: sum_list_subtractf)
  qed
  ultimately show ?thesis by (simp only:)
qed

text \<open>What is left after a market is settled: its slots are empty, the pot is marked settled,
  and what the players lost is in the Manager's Pot.\<close>

definition market_done :: "uuids \<Rightarrow> match_id \<Rightarrow> market_id \<Rightarrow> world \<Rightarrow> unit outcome_of \<Rightarrow> bool" where
  "market_done uuid mid k w r \<longleftrightarrow> fst r = Inr () \<and> world_ok uuid (snd r) \<and>
     game_money (snd r) = game_money w \<and>
     rm_managersPot (w_rm w) \<le> rm_managersPot (w_rm (snd r)) \<and>
     rm_managersPot (w_rm (snd r)) \<le> rm_managersPot (w_rm w) + total_stake (getMarketCalls (rm_pots (w_rm w)) mid k) \<and>
     (\<forall>v s. held (snd r) v s = (if (v, s) \<in> call_slots (getMarketCalls (rm_pots (w_rm w)) mid k) then None else held w v s)) \<and>
     rm_pots (w_rm (snd r)) = on_match mid (on_market k (\<lambda>mk. mk\<lparr>mk_settled := True\<rparr>)) (rm_pots (w_rm w)) \<and>
     rm_challenges (w_rm (snd r)) = rm_challenges (w_rm w) \<and> w_drawn w \<le> w_drawn (snd r)"

lemma then_pot_event:
  assumes r: "releases uuid (call_slots (getMarketCalls (rm_pots (w_rm w)) mid k)) (- rake) w r"
    and rake: "0 \<le> rake" "rake \<le> total_stake (getMarketCalls (rm_pots (w_rm w)) mid k)"
  shows "market_done uuid mid k w (and_then r (\<lambda>_. matchAppend uuid mid [pot_event mid k oc g rake ws n]))"
proof -
  let ?w = "match_after uuid mid [pot_event mid k oc g rake ws n] (snd r)"
  have ok: "world_ok uuid (snd r)" using r by (simp add: releases_def)
  have "and_then r (\<lambda>_. matchAppend uuid mid [pot_event mid k oc g rake ws n]) = (Inr (), ?w)"
    by (subst releases_result[OF r]) (simp add: matchAppend_eq[OF ok])
  moreover have "rake_of_event (MatchE (pot_event mid k oc g rake ws n)) = rake" by (simp add: pot_event_def)
  ultimately show ?thesis
    using r rake match_after_ok[OF ok, of mid "[pot_event mid k oc g rake ws n]"]
    unfolding market_done_def game_money_def releases_def
    by (simp add: match_event_frame pot_settled_pots del: match_after_fields(3)) 
qed

lemma settleMarket_done:
  assumes ok: "world_ok uuid w" and rk: "rake_ok (gc_rakeBps cfg)"
    and cs: "calls_ok (getMarketCalls (rm_pots (w_rm w)) mid k)" "backed w (getMarketCalls (rm_pots (w_rm w)) mid k)"
  shows "market_done uuid mid k w (settleMarket uuid cfg mid k oc w)"
proof -
  let ?cs = "getMarketCalls (rm_pots (w_rm w)) mid k"
  let ?inp = "\<lparr>si_calls = ?cs, si_winningBucket = oc, si_rakeBps = gc_rakeBps cfg, si_minParticipants = gc_minParticipants cfg\<rparr>"
  have void: "releases uuid (call_slots ?cs) (- 0) w
      (run_all (\<lambda>c. voidCall uuid (ck_wallet c) (ck_callId c) reason) ?cs w)" for reason
    using void_all_releases[OF ok cs] by simp
  have nn: "0 \<le> total_stake ?cs" by (rule total_stake_nonneg[OF cs(1)])
  show ?thesis
  proof (cases "settleParimutuel ?inp")
    case (PAID r)
    have "releases uuid (call_slots ?cs) (- pd_rake r) w
        (run_all (\<lambda>p. settleCall uuid (po_wallet p) (po_callId p) (po_won p) (po_payout p)) (pd_payouts r) w)"
      using pay_all_releases[OF ok _ _ _ PAID] cs rk by simp
    moreover have "0 \<le> pd_rake r" "pd_rake r \<le> total_stake ?cs"
      using paid_payouts(3-5)[OF _ _ PAID] cs(1) rk by simp_all
    ultimately show ?thesis using PAID then_pot_event[OF void _ nn]
      by (simp add: settleMarket_def Let_def then_pot_event)
  next
    case (VOIDED r)
    then show ?thesis using then_pot_event[OF void _ nn] by (simp add: settleMarket_def Let_def)
  qed
qed

section \<open>The settlement of a challenge\<close>

lemma paid_has_winner:
  assumes r: "settleParimutuel inp = PAID r"
  shows "\<exists>p. find po_won (pd_payouts r) = Some p"
proof (cases inp rule: settle_cases)
  case (void v)
  with r show ?thesis by simp
next
  case (paid ws t l d)
  have "ws \<noteq> []" using paid(2,3) by auto
  then obtain c where c: "c \<in> set ws" by fastforce
  then have "c \<in> set (si_calls inp)" "po_won (call_payout ws (payout_map d t ws) c)"
    using paid(1) by (auto simp: call_payout_def Let_def)
  then have "\<exists>p \<in> set (pd_payouts r). po_won p" using r paid(6) by auto
  then show ?thesis by (cases "find po_won (pd_payouts r)") (auto simp: find_None_iff)
qed

definition challenge_slots :: "challenge_view \<Rightarrow> wallet \<Rightarrow> (wallet \<times> slot) set" where
  "challenge_slots ch opponent = {(cw_creator ch, StakeSlot (cw_challengeId ch)), (opponent, StakeSlot (cw_challengeId ch))}"

lemma challenge_calls_ok: "0 < cw_stake ch \<Longrightarrow> calls_ok (challenge_calls ch opponent)"
  by (simp add: calls_ok_def challenge_calls_def)

lemma challenge_paid_releases:
  assumes ok: "world_ok uuid w" and pos: "0 < cw_stake ch" and ne: "opponent \<noteq> cw_creator ch"
    and h: "held w (cw_creator ch) (StakeSlot (cw_challengeId ch)) = Some (cw_stake ch)"
      "held w opponent (StakeSlot (cw_challengeId ch)) = Some (cw_stake ch)"
    and inp: "si_calls inp = challenge_calls ch opponent" "rake_ok (si_rakeBps inp)"
    and r: "settleParimutuel inp = PAID r"
  shows "releases uuid (challenge_slots ch opponent) (- pd_rake r) w
    (run_all (\<lambda>p. settleChallengeStake uuid (po_wallet p) (cw_challengeId ch)
       (if po_won p then WON else LOST) (po_payout p)) (pd_payouts r) w)"
proof -
  have cs: "calls_ok (si_calls inp)" by (simp add: inp challenge_calls_ok[OF pos])
  note pp = paid_payouts[OF cs inp(2) r]
  let ?f = "\<lambda>p. (po_callId p, po_wallet p, po_stake p)"
  have w: "map po_wallet (pd_payouts r) = [cw_creator ch, opponent]"
    "map po_stake (pd_payouts r) = [cw_stake ch, cw_stake ch]"
    using arg_cong[OF pp(1), of "map (\<lambda>(k, u, s). u)"] arg_cong[OF pp(1), of "map (\<lambda>(k, u, s). s)"]
    by (simp_all add: inp challenge_calls_def comp_def)
  then obtain p q where pq: "pd_payouts r = [p, q]" by (auto simp: map_eq_Cons_conv)
  have "releases uuid ((\<lambda>p. (po_wallet p, StakeSlot (cw_challengeId ch))) ` set (pd_payouts r))
      (\<Sum>p\<leftarrow>pd_payouts r. po_payout p - po_stake p) w
      (run_all (\<lambda>p. settleChallengeStake uuid (po_wallet p) (cw_challengeId ch)
         (if po_won p then WON else LOST) (po_payout p)) (pd_payouts r) w)"
    using pp(2) w pq ne h by (intro stake_settling.release_all[OF ok]) auto
  moreover have "(\<lambda>p. (po_wallet p, StakeSlot (cw_challengeId ch))) ` set (pd_payouts r) = challenge_slots ch opponent"
    using w pq by (simp add: challenge_slots_def)
  moreover have "(\<Sum>p\<leftarrow>pd_payouts r. po_payout p - po_stake p) = - pd_rake r"
  proof -
    have "(\<Sum>p\<leftarrow>pd_payouts r. po_payout p) + pd_rake r = total_stake (si_calls inp)"
      using settlement_sum[OF cs inp(2)] r by simp
    moreover have "(\<Sum>p\<leftarrow>pd_payouts r. po_stake p) = total_stake (si_calls inp)"
      by (simp add: w(2) inp(1) challenge_calls_def)
    ultimately show ?thesis by (simp add: sum_list_subtractf)
  qed
  ultimately show ?thesis by (simp only:)
qed

lemma challenge_void_releases:
  assumes ok: "world_ok uuid w" and ne: "opponent \<noteq> cw_creator ch"
    and h: "held w (cw_creator ch) (StakeSlot (cw_challengeId ch)) = Some (cw_stake ch)"
      "held w opponent (StakeSlot (cw_challengeId ch)) = Some (cw_stake ch)"
  shows "releases uuid (challenge_slots ch opponent) 0 w
    (and_then (refundChallengeStake uuid (cw_creator ch) (cw_challengeId ch) reason w)
      (\<lambda>_. refundChallengeStake uuid opponent (cw_challengeId ch) reason))"
proof -
  let ?r = "refundChallengeStake uuid (cw_creator ch) (cw_challengeId ch) reason w"
  have r: "releases uuid {(cw_creator ch, StakeSlot (cw_challengeId ch))} 0 w ?r"
    by (rule refundChallengeStake_releases[OF ok h(1)])
  then have "world_ok uuid (snd ?r)" "held (snd ?r) opponent (StakeSlot (cw_challengeId ch)) = Some (cw_stake ch)"
    using h(2) ne by (auto simp: releases_def)
  from releases_trans[OF r refundChallengeStake_releases[OF this]]
  have "releases uuid (challenge_slots ch opponent) 0 w
      (refundChallengeStake uuid opponent (cw_challengeId ch) reason (snd ?r))"
    by (simp add: challenge_slots_def insert_commute)
  moreover have "and_then ?r (\<lambda>_. refundChallengeStake uuid opponent (cw_challengeId ch) reason) =
      refundChallengeStake uuid opponent (cw_challengeId ch) reason (snd ?r)"
    by (subst releases_result[OF r]) simp
  ultimately show ?thesis by (simp only:)
qed

text \<open>What is left after a challenge is settled.\<close>

definition challenge_done :: "uuids \<Rightarrow> challenge_view \<Rightarrow> wallet \<Rightarrow> world \<Rightarrow> unit outcome_of \<Rightarrow> bool" where
  "challenge_done uuid ch opponent w r \<longleftrightarrow> fst r = Inr () \<and> world_ok uuid (snd r) \<and>
     game_money (snd r) = game_money w \<and>
     rm_managersPot (w_rm w) \<le> rm_managersPot (w_rm (snd r)) \<and>
     (\<forall>v s. held (snd r) v s = (if (v, s) \<in> challenge_slots ch opponent then None else held w v s)) \<and>
     rm_pots (w_rm (snd r)) = rm_pots (w_rm w) \<and>
     (\<exists>ce tm. challenge_key ce = cw_challengeId ch \<and> (\<forall>c. terminal (cw_status (challenge_step tm ce c))) \<and>
        (\<forall>p. ce \<noteq> ChallengeCreated p) \<and>
        rm_challenges (w_rm (snd r)) = (case jm_get (rm_challenges (w_rm w)) (cw_challengeId ch) of
           None \<Rightarrow> rm_challenges (w_rm w)
         | Some c \<Rightarrow> jm_set (cw_challengeId ch) (challenge_step tm ce c) (rm_challenges (w_rm w)))) \<and>
     w_drawn w \<le> w_drawn (snd r)"

lemma then_challenge_event:
  assumes r: "releases uuid (challenge_slots ch opponent) (- rake) w r" and rake: "0 \<le> rake"
    and ce: "rake_of_event (ChallengeE ce) = rake" "challenge_key ce = cw_challengeId ch"
      "\<And>tm c. terminal (cw_status (challenge_step tm ce c))" "\<And>p. ce \<noteq> ChallengeCreated p"
  shows "challenge_done uuid ch opponent w (and_then r (\<lambda>_. challengeAppend uuid (cw_challengeId ch) [ce]))"
proof -
  let ?w = "challenge_after uuid (cw_challengeId ch) [ce] (snd r)"
  have ok: "world_ok uuid (snd r)" using r by (simp add: releases_def)
  have eq: "and_then r (\<lambda>_. challengeAppend uuid (cw_challengeId ch) [ce]) = (Inr (), ?w)"
    by (subst releases_result[OF r]) (simp add: challengeAppend_eq[OF ok])
  have ch: "rm_challenges (w_rm ?w) = (case jm_get (rm_challenges (w_rm (snd r))) (cw_challengeId ch) of
      None \<Rightarrow> rm_challenges (w_rm (snd r))
    | Some c \<Rightarrow> jm_set (cw_challengeId ch) (challenge_step (w_now (snd r)) ce c) (rm_challenges (w_rm (snd r))))"
    using ce(2,4) by (cases ce) (auto simp: appended_one challenge_apply_def split: option.split)
  have same: "rm_challenges (w_rm (snd r)) = rm_challenges (w_rm w)" using r by (simp add: releases_def)
  have "\<exists>ce' tm. challenge_key ce' = cw_challengeId ch \<and> (\<forall>c. terminal (cw_status (challenge_step tm ce' c))) \<and>
        (\<forall>p. ce' \<noteq> ChallengeCreated p) \<and>
        rm_challenges (w_rm ?w) = (case jm_get (rm_challenges (w_rm w)) (cw_challengeId ch) of
           None \<Rightarrow> rm_challenges (w_rm w)
         | Some c \<Rightarrow> jm_set (cw_challengeId ch) (challenge_step tm ce' c) (rm_challenges (w_rm w)))"
    unfolding ch[unfolded same] using ce by (intro exI[of _ ce] exI[of _ "w_now (snd r)"]) simp
  then show ?thesis
    using r rake ce challenge_after_ok[OF ok, of "cw_challengeId ch" "[ce]"]
    unfolding challenge_done_def eq game_money_def releases_def
    by (simp add: challenge_event_frame del: challenge_after_fields(3))
qed

lemma settle_challenge_done:
  assumes ok: "world_ok uuid w" and rk: "rake_ok (gc_rakeBps cfg)"
    and ch: "cw_opponent ch = Some opponent" "opponent \<noteq> cw_creator ch" "0 < cw_stake ch"
    and h: "held w (cw_creator ch) (StakeSlot (cw_challengeId ch)) = Some (cw_stake ch)"
      "held w opponent (StakeSlot (cw_challengeId ch)) = Some (cw_stake ch)"
  shows "challenge_done uuid ch opponent w (settle_challenge uuid cfg winning ch w)"
proof -
  let ?inp = "\<lparr>si_calls = challenge_calls ch opponent, si_winningBucket = winning, si_rakeBps = gc_rakeBps cfg,
      si_minParticipants = 2\<rparr>"
  have assoc: "and_then r (\<lambda>_ w. and_then (f w) (\<lambda>_. g)) = and_then (and_then r (\<lambda>_. f)) (\<lambda>_. g)"
    for r :: "unit outcome_of" and f g :: "world \<Rightarrow> unit outcome_of"
    by (cases "(r, \<lambda>_::unit. f)" rule: and_then.cases) auto
  show ?thesis
  proof (cases "settleParimutuel ?inp")
    case (VOIDED r)
    have rel: "releases uuid (challenge_slots ch opponent) (- 0) w
        (and_then (refundChallengeStake uuid (cw_creator ch) (cw_challengeId ch) (vd_reason r) w)
          (\<lambda>_. refundChallengeStake uuid opponent (cw_challengeId ch) (vd_reason r)))"
      using challenge_void_releases[OF ok ch(2) h] by simp
    show ?thesis
      using VOIDED ch(1) then_challenge_event[OF rel, of "ChallengeVoided (cw_challengeId ch) winning (vd_reason r)"]
      by (simp add: settle_challenge_def assoc terminal_def)
  next
    case (PAID r)
    have rel: "releases uuid (challenge_slots ch opponent) (- pd_rake r) w
        (run_all (\<lambda>p. settleChallengeStake uuid (po_wallet p) (cw_challengeId ch)
           (if po_won p then WON else LOST) (po_payout p)) (pd_payouts r) w)"
      using challenge_paid_releases[OF ok ch(3,2) h _ _ PAID] rk by simp
    have "0 \<le> pd_rake r" using paid_payouts(3)[OF _ _ PAID] rk challenge_calls_ok[OF ch(3)] by simp
    moreover obtain win where "find po_won (pd_payouts r) = Some win" using paid_has_winner[OF PAID] by blast
    ultimately show ?thesis
      using PAID ch(1) then_challenge_event[OF rel, of "ChallengeSettled \<lparr>ct_challengeId = cw_challengeId ch,
          ct_winningBucket = winning, ct_winner = po_wallet win, ct_grossPot = pd_grossPot r,
          ct_rake = pd_rake r, ct_payout = po_payout win\<rparr>"]
      by (simp add: settle_challenge_def terminal_def)
  qed
qed

end
