(* ===== verification/Books.thy ===== *)
theory Books
  imports Settlement
begin

text \<open>
  The books of the engine: the pots and challenges on one side, the stakes held in the players'
  files on the other. In a sound world every call recorded in a market that is not resolved
  holds exactly its stake in its caller's file, every call of a resolved market holds nothing,
  no file holds a call stake the markets do not know, and the stakes of challenges are exactly
  those of the open and matched ones. Every operation of the engine, run to its end, keeps the
  world sound; run with another request between its steps, accepting a challenge does not.
\<close>

section \<open>Sound books\<close>

abbreviation calls_of :: "world \<Rightarrow> match_id \<Rightarrow> market_id \<Rightarrow> call_stake list" where
  "calls_of w \<equiv> getMarketCalls (rm_pots (w_rm w))"

definition unresolved :: "world \<Rightarrow> match_id \<Rightarrow> bool" where
  "unresolved w mid \<longleftrightarrow> (case jm_get (rm_pots (w_rm w)) mid of None \<Rightarrow> True | Some m \<Rightarrow> ms_status m \<noteq> RESOLVED)"

definition call_slot :: "world \<Rightarrow> call_stake \<Rightarrow> frost option" where
  "call_slot w c = held w (ck_wallet c) (CallSlot (ck_callId c))"

text \<open>The calls of the markets against the files, where \<open>opn\<close> tells which markets still hold
  their stakes.\<close>

definition calls_booked :: "uuids \<Rightarrow> (match_id \<Rightarrow> market_id \<Rightarrow> bool) \<Rightarrow> world \<Rightarrow> bool" where
  "calls_booked uuid opn w \<longleftrightarrow>
     (\<forall>mid k. distinct (map ck_callId (calls_of w mid k))) \<and>
     (\<forall>mid k. \<forall>c \<in> set (calls_of w mid k). 0 < ck_stake c \<and> call_drawn uuid (w_drawn w) (ck_callId c) \<and>
        call_slot w c = (if opn mid k then Some (ck_stake c) else None)) \<and>
     (\<forall>mid k mid' k'. \<forall>c \<in> set (calls_of w mid k). \<forall>c' \<in> set (calls_of w mid' k').
        ck_callId c = ck_callId c' \<longrightarrow> mid = mid' \<and> k = k') \<and>
     (\<forall>u cid. held w u (CallSlot cid) \<noteq> None \<longrightarrow>
        (\<exists>mid k. \<exists>c \<in> set (calls_of w mid k). ck_wallet c = u \<and> ck_callId c = cid))"

text \<open>Who has a stake in a challenge, and the stake that is held for it.\<close>

definition parties :: "challenge_view \<Rightarrow> wallet set" where
  "parties ch = (case cw_status ch of C_OPEN \<Rightarrow> {cw_creator ch}
     | C_MATCHED \<Rightarrow> {cw_creator ch} \<union> set_option (cw_opponent ch) | _ \<Rightarrow> {})"

definition stake_due :: "challenges \<Rightarrow> wallet \<Rightarrow> challenge_id \<Rightarrow> frost option" where
  "stake_due cs u cid = (case jm_get cs cid of None \<Rightarrow> None
     | Some ch \<Rightarrow> if u \<in> parties ch then Some (cw_stake ch) else None)"

definition challenge_ok :: "uuids \<Rightarrow> nat \<Rightarrow> challenge_id \<Rightarrow> challenge_view \<Rightarrow> bool" where
  "challenge_ok uuid n cid ch \<longleftrightarrow> cw_challengeId ch = cid \<and> 0 < cw_stake ch \<and>
     cw_opponent ch \<noteq> Some (cw_creator ch) \<and> (cw_status ch = C_MATCHED \<longrightarrow> cw_opponent ch \<noteq> None) \<and>
     (\<exists>i < n. cid = newId ''chg'' (uuid i))"

definition stakes_booked :: "uuids \<Rightarrow> world \<Rightarrow> bool" where
  "stakes_booked uuid w \<longleftrightarrow> jm_wf (rm_challenges (w_rm w)) \<and>
     jm_all (challenge_ok uuid (w_drawn w)) (rm_challenges (w_rm w)) \<and>
     (\<forall>u cid. held w u (StakeSlot cid) = stake_due (rm_challenges (w_rm w)) u cid)"

definition books_ok :: "uuids \<Rightarrow> (match_id \<Rightarrow> market_id \<Rightarrow> bool) \<Rightarrow> world \<Rightarrow> bool" where
  "books_ok uuid opn w \<longleftrightarrow> world_ok uuid w \<and> calls_booked uuid opn w \<and> stakes_booked uuid w"

definition sound :: "uuids \<Rightarrow> world \<Rightarrow> bool" where
  "sound uuid w \<longleftrightarrow> books_ok uuid (\<lambda>mid k. unresolved w mid) w"

lemma challenge_ok_mono: "challenge_ok uuid n cid ch \<Longrightarrow> n \<le> m \<Longrightarrow> challenge_ok uuid m cid ch"
  unfolding challenge_ok_def using less_le_trans by blast

text \<open>The books look at the markets' calls, the slots, the challenges and the ids drawn.\<close>

lemma calls_booked_cong:
  assumes "calls_booked uuid opn w" "\<And>mid k. calls_of w' mid k = calls_of w mid k"
    "\<And>u s. held w' u (CallSlot s) = held w u (CallSlot s)" "w_drawn w \<le> w_drawn w'"
    "\<And>mid k. calls_of w mid k \<noteq> [] \<Longrightarrow> opn' mid k = opn mid k"
  shows "calls_booked uuid opn' w'"
proof -
  have "call_slot w' c = (if opn' mid k then Some (ck_stake c) else None)" if c: "c \<in> set (calls_of w mid k)" for mid k c
  proof -
    have "opn' mid k = opn mid k" using c by (intro assms(5)) auto
    with assms(1,3) c show ?thesis by (simp add: calls_booked_def call_slot_def)
  qed
  moreover have "call_drawn uuid (w_drawn w') k" if "call_drawn uuid (w_drawn w) k" for k
    using that assms(4) by (rule call_drawn_mono)
  ultimately have "\<forall>c \<in> set (calls_of w mid k). 0 < ck_stake c \<and> call_drawn uuid (w_drawn w') (ck_callId c) \<and>
      call_slot w' c = (if opn' mid k then Some (ck_stake c) else None)" for mid k
    using assms(1) by (simp add: calls_booked_def)
  with assms(1) show ?thesis unfolding calls_booked_def assms(2,3) by (elim conjE) (intro conjI allI; simp)
qed

lemma stakes_booked_cong:
  assumes "stakes_booked uuid w" "rm_challenges (w_rm w') = rm_challenges (w_rm w)"
    "\<And>u s. held w' u (StakeSlot s) = held w u (StakeSlot s)" "w_drawn w \<le> w_drawn w'"
  shows "stakes_booked uuid w'"
  using assms by (auto simp: stakes_booked_def elim: jm_all_mono challenge_ok_mono)

lemma books_ok_cong:
  assumes "books_ok uuid opn w" "world_ok uuid w'" "\<And>mid k. calls_of w' mid k = calls_of w mid k"
    "\<And>u s. held w' u s = held w u s" "rm_challenges (w_rm w') = rm_challenges (w_rm w)" "w_drawn w \<le> w_drawn w'"
    "\<And>mid k. calls_of w mid k \<noteq> [] \<Longrightarrow> opn' mid k = opn mid k"
  shows "books_ok uuid opn' w'"
  using assms calls_booked_cong[of uuid opn w w' opn'] stakes_booked_cong[of uuid w w']
  by (simp add: books_ok_def)

lemma sound_world: "sound uuid w \<Longrightarrow> world_ok uuid w"
  by (simp add: sound_def books_ok_def)

lemma sound_boot: "sound uuid (boot [] n now)"
proof -
  have "world_ok uuid (boot [] n now)" by (simp add: world_ok_boot log_ok_Nil)
  then show ?thesis
    by (simp add: sound_def books_ok_def calls_booked_def stakes_booked_def)
      (simp add: boot_def getMarketCalls_def the_market_def held_def stake_due_def)
qed

section \<open>Events that move no stake\<close>

fun stake_event :: "player_event \<Rightarrow> bool" where
  "stake_event (CallMade _) \<longleftrightarrow> True"
| "stake_event (CallSettled _) \<longleftrightarrow> True"
| "stake_event (CallVoided _) \<longleftrightarrow> True"
| "stake_event (ChallengeStakeLocked _) \<longleftrightarrow> True"
| "stake_event (ChallengeStakeSettled _) \<longleftrightarrow> True"
| "stake_event (ChallengeStakeRefunded _) \<longleftrightarrow> True"
| "stake_event _ \<longleftrightarrow> False"

definition quiet_event :: "stored_event \<Rightarrow> bool" where
  "quiet_event e \<longleftrightarrow> (\<exists>p. ev_payload e = PlayerE p \<and> \<not> stake_event p)"

text \<open>The log grew by quiet events only.\<close>

definition quiet :: "world \<Rightarrow> world \<Rightarrow> bool" where
  "quiet w w' \<longleftrightarrow> (\<exists>new. w_log w' = w_log w @ new \<and> list_all quiet_event new) \<and> w_drawn w \<le> w_drawn w'"

lemma quiet_refl [simp]: "quiet w w" "quiet w (w\<lparr>w_drawn := w_drawn w + n\<rparr>)" "quiet w (w\<lparr>w_drawn := Suc (w_drawn w)\<rparr>)"
  by (simp_all add: quiet_def)

lemma quiet_pay [simp]: "quiet (custody_pay u net w) w' = quiet w w'" "quiet w' (custody_pay u net w) = quiet w' w"
  by (simp_all add: quiet_def custody_pay_def)

lemma quiet_trans: "quiet w w1 \<Longrightarrow> quiet w1 w2 \<Longrightarrow> quiet w w2"
  by (auto simp: quiet_def)

lemma quiet_actor_append:
  assumes "list_all (\<lambda>p. \<not> stake_event p) ps"
  shows "quiet w (snd (actor_append uuid u ps w))"
proof -
  have new: "quiet_event e" if "e \<in> set (mk_stored ids s b now (map PlayerE ps))" for e ids s b now
  proof -
    have "ev_payload e \<in> ev_payload ` set (mk_stored ids s b now (map PlayerE ps))" using that by (rule imageI)
    also have "\<dots> = PlayerE ` set ps" by (metis payloads_mk_stored set_map)
    finally obtain p where "p \<in> set ps" "ev_payload e = PlayerE p" by blast
    with assms show ?thesis by (auto simp: list_all_iff quiet_event_def)
  qed
  show ?thesis
    using new by (simp add: quiet_def actor_append_def Let_def store_append_def log_append_def list_all_iff)
qed

lemma quiet_and_then:
  assumes "quiet w (snd r)" "\<And>x. fst r = Inr x \<Longrightarrow> quiet (snd r) (snd (k x (snd r)))"
  shows "quiet w (snd (and_then r k))"
  using assms by (cases "(r, k)" rule: and_then.cases) (auto intro: quiet_trans)

lemma quiet_requireSigned [simp]: "snd (requireSigned u w) = w" "snd (reject c w) = w"
  by (simp_all add: requireSigned_def reject_def split: option.split)

lemma file_held_quiet: "\<not> stake_event p \<Longrightarrow> file_held (dossier_step tm p d) s = file_held d s"
  by (cases p; cases s) simp_all

lemma held_quiet_event:
  assumes "quiet_event e"
  shows "(case jm_get (dossier_apply e ds) u of None \<Rightarrow> None | Some d \<Rightarrow> file_held d s) =
    (case jm_get ds u of None \<Rightarrow> None | Some d \<Rightarrow> file_held d s)"
proof -
  obtain p where p: "ev_payload e = PlayerE p" "\<not> stake_event p" using assms by (auto simp: quiet_event_def)
  have new: "file_held (new_dossier v h tm) s = None" for v h tm
    by (cases s) (simp_all add: new_dossier_def)
  show ?thesis
  proof (cases "is_signing p")
    case True
    then show ?thesis using p new
      by (auto simp: is_signing_iff dossier_apply_get split: option.split)
  next
    case False
    then have "jm_get (dossier_apply e ds) u =
        (if dossier_owner e = Some u then map_option (dossier_step (ev_at e) p) (jm_get ds u) else jm_get ds u)"
      using p(1) by (cases p) (simp_all add: dossier_apply_get is_signing_def)
    then show ?thesis using p(2) by (simp add: file_held_quiet split: option.split)
  qed
qed

lemma quiet_views:
  assumes "quiet w w'" "world_ok uuid w" "world_ok uuid w'"
  shows "held w' u s = held w u s" "rm_pots (w_rm w') = rm_pots (w_rm w)"
    "rm_challenges (w_rm w') = rm_challenges (w_rm w)" "w_drawn w \<le> w_drawn w'"
    "rm_managersPot (w_rm w') = rm_managersPot (w_rm w)"
proof -
  obtain new where new: "w_log w' = w_log w @ new" "list_all quiet_event new"
    using assms(1) by (auto simp: quiet_def)
  have rm: "w_rm w' = fold rm_apply new (w_rm w)"
    using assms(2,3) new(1) by (simp add: world_ok_def hydrate_append)
  have "(case jm_get (fold dossier_apply new ds) u of None \<Rightarrow> None | Some d \<Rightarrow> file_held d s) =
      (case jm_get ds u of None \<Rightarrow> None | Some d \<Rightarrow> file_held d s)" for ds
    using new(2) by (induction new arbitrary: ds) (simp_all add: held_quiet_event)
  then show "held w' u s = held w u s" by (simp add: held_def rm fold_rm_fields)
  have "pot_owner e = None" if e: "e \<in> set new" for e
  proof -
    obtain p where "ev_payload e = PlayerE p" "\<not> stake_event p"
      using e new(2) by (auto simp: list_all_iff quiet_event_def)
    then show ?thesis by (cases p) (simp_all add: pot_owner_def)
  qed
  then show "rm_pots (w_rm w') = rm_pots (w_rm w)" by (simp add: rm fold_rm_fields fold_other_views)
  have "fold challenge_apply new cs = cs" for cs
    using new(2) by (induction new arbitrary: cs) (auto simp: quiet_event_def challenge_apply_def)
  then show "rm_challenges (w_rm w') = rm_challenges (w_rm w)" by (simp add: rm fold_rm_fields)
  have "(\<Sum>e\<leftarrow>new. rake_of_event (ev_payload e)) = 0"
    using new(2) by (induction new) (auto simp: quiet_event_def)
  then show "rm_managersPot (w_rm w') = rm_managersPot (w_rm w)" by (simp add: rm fold_rm_fields)
  show "w_drawn w \<le> w_drawn w'" using assms(1) by (simp add: quiet_def)
qed

lemma sound_quiet:
  assumes "sound uuid w" "quiet w w'" "world_ok uuid w'"
  shows "sound uuid w'"
  using assms(1) quiet_views[OF assms(2) sound_world[OF assms(1)] assms(3)] assms(3) unfolding sound_def
  by (elim books_ok_cong) (simp_all add: unresolved_def)

section \<open>Commands of players\<close>

text \<open>The commands a player gives; the others are instructions of the engine.\<close>

fun player_issued :: "player_command \<Rightarrow> bool" where
  "player_issued (LockChallengeStake _) \<longleftrightarrow> False"
| "player_issued (SettleCall _ _ _) \<longleftrightarrow> False"
| "player_issued (VoidCall _ _) \<longleftrightarrow> False"
| "player_issued (SettleChallengeStake _ _ _) \<longleftrightarrow> False"
| "player_issued (RefundChallengeStake _ _) \<longleftrightarrow> False"
| "player_issued _ \<longleftrightarrow> True"

lemma quiet_draw_id: "snd (draw_id uuid pre w) = w\<lparr>w_drawn := w_drawn w + 1\<rparr>"
  by (simp add: draw_id_def)

lemma quiet_append_then:
  assumes "list_all (\<lambda>p. \<not> stake_event p) ps"
    and "quiet (snd (actor_append uuid u ps w)) (snd (k () (snd (actor_append uuid u ps w))))"
  shows "quiet w (snd (and_then (actor_append uuid u ps w) k))"
  by (rule quiet_and_then[OF quiet_actor_append[OF assms(1)]]) (use assms(2) in simp)

lemma quiet_draw_append_then:
  assumes "list_all (\<lambda>p. \<not> stake_event p) ps"
    and "quiet (snd (actor_append uuid u ps (w\<lparr>w_drawn := Suc (w_drawn w)\<rparr>)))
      (snd (k () (snd (actor_append uuid u ps (w\<lparr>w_drawn := Suc (w_drawn w)\<rparr>)))))"
  shows "quiet w (snd (and_then (actor_append uuid u ps (w\<lparr>w_drawn := Suc (w_drawn w)\<rparr>)) k))"
  by (rule quiet_trans[OF quiet_refl(3)], rule quiet_append_then[where k = k, OF assms(1)], rule assms(2))

lemma quiet_pay_append_then:
  assumes "list_all (\<lambda>p. \<not> stake_event p) ps"
    and "quiet (snd (actor_append uuid u ps (custody_pay u n w))) (snd (k () (snd (actor_append uuid u ps (custody_pay u n w)))))"
  shows "quiet w (snd (and_then (actor_append uuid u ps (custody_pay u n w)) k))"
  using quiet_append_then[where k = k, OF assms] by simp

lemma quiet_then_read: "quiet w (snd r) \<Longrightarrow> (\<And>x w1. snd (k x w1) = w1) \<Longrightarrow> quiet w (snd (and_then r k))"
  by (cases "(r, k)" rule: and_then.cases) simp_all

lemma and_then_signed: "snd (and_then (requireSigned u w) k) = (case fst (requireSigned u w) of Inl f \<Rightarrow> w | Inr x \<Rightarrow> snd (k x w))"
  by (simp add: requireSigned_def split: option.split)

lemma quiet_commands:
  "quiet w (snd (signContract uuid u h w))"
  "quiet w (snd (deposit uuid confirm u amount r w))"
  "quiet w (snd (withdraw uuid cfg pay u amount w))"
  "quiet w (snd (ensureHouseFunded uuid u amount w))"
  "quiet w (snd (claimWelcomeGrant uuid u amount w))"
  "quiet w (snd (declareHotTake uuid u t w))"
  "quiet w (snd (requestVerdict uuid compose u trg w))"
  "quiet w (snd (recordChat uuid u m reply w))"
  "quiet w (snd (observeTrait uuid u tr w))"
proof -
  show "quiet w (snd (signContract uuid u h w))"
    by (simp add: signContract_def quiet_then_read quiet_actor_append)
  show "quiet w (snd (deposit uuid confirm u amount r w))"
    by (auto simp: deposit_def and_then_signed split: sum.split
        intro!: quiet_append_then)
  show "quiet w (snd (withdraw uuid cfg pay u amount w))"
    by (auto simp: withdraw_def and_then_signed Let_def draw_id_def split: sum.split
        intro!: quiet_draw_append_then quiet_pay_append_then)
  show "quiet w (snd (ensureHouseFunded uuid u amount w))"
    by (simp add: ensureHouseFunded_def Let_def quiet_actor_append)
  show "quiet w (snd (claimWelcomeGrant uuid u amount w))"
    by (auto simp: claimWelcomeGrant_def and_then_signed split: sum.split
        intro!: quiet_append_then)
  show "quiet w (snd (declareHotTake uuid u t w))"
    by (auto simp: declareHotTake_def and_then_signed Let_def draw_id_def split: sum.split
        intro!: quiet_draw_append_then quiet_append_then)
  show "quiet w (snd (requestVerdict uuid compose u trg w))"
    by (auto simp: requestVerdict_def and_then_signed Let_def draw_id_def split: sum.split
        intro!: quiet_draw_append_then quiet_append_then)
  show "quiet w (snd (recordChat uuid u m reply w))"
    by (simp add: recordChat_def quiet_actor_append)
  show "quiet w (snd (observeTrait uuid u tr w))"
    by (simp add: observeTrait_def quiet_actor_append)
qed

lemma calls_booked_dest:
  assumes "calls_booked uuid opn w" "c \<in> set (calls_of w mid k)"
  shows "0 < ck_stake c" "call_drawn uuid (w_drawn w) (ck_callId c)"
    "call_slot w c = (if opn mid k then Some (ck_stake c) else None)"
    "c' \<in> set (calls_of w mid' k') \<Longrightarrow> ck_callId c = ck_callId c' \<Longrightarrow> mid = mid' \<and> k = k'"
  using assms unfolding calls_booked_def by blast+

lemma calls_booked_known:
  assumes "calls_booked uuid opn w" "held w u (CallSlot i) \<noteq> None"
  obtains mid k c where "c \<in> set (calls_of w mid k)" "ck_wallet c = u" "ck_callId c = i"
  using assms unfolding calls_booked_def by blast

lemma calls_bookedI:
  assumes "\<And>mid k. distinct (map ck_callId (calls_of w mid k))"
    and "\<And>mid k c. c \<in> set (calls_of w mid k) \<Longrightarrow> 0 < ck_stake c"
    and "\<And>mid k c. c \<in> set (calls_of w mid k) \<Longrightarrow> call_drawn uuid (w_drawn w) (ck_callId c)"
    and "\<And>mid k c. c \<in> set (calls_of w mid k) \<Longrightarrow> call_slot w c = (if opn mid k then Some (ck_stake c) else None)"
    and "\<And>mid k mid' k' c c'. c \<in> set (calls_of w mid k) \<Longrightarrow> c' \<in> set (calls_of w mid' k') \<Longrightarrow>
      ck_callId c = ck_callId c' \<Longrightarrow> mid = mid' \<and> k = k'"
    and "\<And>u i. held w u (CallSlot i) \<noteq> None \<Longrightarrow> \<exists>mid k. \<exists>c \<in> set (calls_of w mid k). ck_wallet c = u \<and> ck_callId c = i"
  shows "calls_booked uuid opn w"
  unfolding calls_booked_def using assms by (intro conjI allI impI ballI) blast+

lemma calls_booked_distinct: "calls_booked uuid opn w \<Longrightarrow> distinct (map ck_callId (calls_of w mid k))"
  by (simp add: calls_booked_def)

text \<open>A new call in a market.\<close>

lemma calls_booked_new:
  assumes b: "calls_booked uuid opn w" and new: "c = \<lparr>ck_callId = newId ''call'' (uuid (w_drawn w)), ck_wallet = u,
      ck_bucket = b, ck_stake = st\<rparr>" "0 < st" "inj uuid" "opn mid k"
    and calls: "\<And>mid' k'. calls_of w' mid' k' = (if mid' = mid \<and> k' = k then calls_of w mid k @ [c] else calls_of w mid' k')"
    and h: "\<And>v j. held w' v (CallSlot j) = (if v = u \<and> j = ck_callId c then Some st else held w v (CallSlot j))"
    and d: "w_drawn w < w_drawn w'"
  shows "calls_booked uuid opn w'"
proof -
  have fresh: "\<not> call_drawn uuid (w_drawn w) (ck_callId c)" using new by (simp add: call_drawn_fresh)
  have drawn: "call_drawn uuid (w_drawn w') (ck_callId c)" using new(1) d by (auto simp: call_drawn_def)
  have old: "ck_callId c' \<noteq> ck_callId c" "call_drawn uuid (w_drawn w') (ck_callId c')"
    if "c' \<in> set (calls_of w m j)" for c' m j
    using calls_booked_dest(2)[OF b that] fresh d by (metis, metis call_drawn_mono less_imp_le)
  have slots: "call_slot w' c' = call_slot w c'" if "c' \<in> set (calls_of w m j)" for c' m j
    using old(1)[OF that] by (simp add: call_slot_def h)
  have mem: "c' \<in> set (calls_of w m j) \<or> c' = c \<and> m = mid \<and> j = k" if "c' \<in> set (calls_of w' m j)" for c' m j
    using that by (simp add: calls split: if_splits) blast
  have "distinct (map ck_callId (calls_of w' m j))" for m j
  proof -
    have "ck_callId c \<notin> ck_callId ` set (calls_of w mid k)" using old(1)[of _ mid k] by (metis imageE)
    then show ?thesis using calls_booked_distinct[OF b] by (simp add: calls)
  qed
  moreover have "0 < ck_stake c' \<and> call_drawn uuid (w_drawn w') (ck_callId c') \<and>
      call_slot w' c' = (if opn m j then Some (ck_stake c') else None)" if "c' \<in> set (calls_of w' m j)" for c' m j
    using mem[OF that]
  proof
    assume c': "c' \<in> set (calls_of w m j)"
    show ?thesis using calls_booked_dest(1,3)[OF b c'] old(2)[OF c'] slots[OF c'] by simp
  next
    assume "c' = c \<and> m = mid \<and> j = k"
    with drawn new h show ?thesis by (simp add: call_slot_def)
  qed
  moreover have "m = m' \<and> j = j'" if "c1 \<in> set (calls_of w' m j)" "c2 \<in> set (calls_of w' m' j')"
    "ck_callId c1 = ck_callId c2" for c1 c2 m j m' j'
    using mem[OF that(1)] mem[OF that(2)] calls_booked_dest(4)[OF b _ _ that(3)] old(1) that(3) by metis
  moreover have "\<exists>m j. \<exists>c' \<in> set (calls_of w' m j). ck_wallet c' = v \<and> ck_callId c' = i"
    if "held w' v (CallSlot i) \<noteq> None" for v i
  proof (cases "v = u \<and> i = ck_callId c")
    case True
    have "c \<in> set (calls_of w' mid k)" by (simp add: calls)
    moreover have "ck_wallet c = v" "ck_callId c = i" using True new(1) by simp_all
    ultimately show ?thesis by blast
  next
    case False
    with that h have "held w v (CallSlot i) \<noteq> None" by (simp split: if_splits)
    then obtain m j c' where c': "c' \<in> set (calls_of w m j)" "ck_wallet c' = v" "ck_callId c' = i"
      by (rule calls_booked_known[OF b])
    have "c' \<in> set (calls_of w' m j)" using c'(1) by (auto simp: calls)
    with c'(2,3) show ?thesis by blast
  qed
  ultimately show ?thesis unfolding calls_booked_def by blast
qed

lemma makeCall_failed:
  assumes "world_ok uuid w"
  shows "fst (makeCall uuid cfg u i w) = Inl f \<Longrightarrow> snd (makeCall uuid cfg u i w) = w"
  using assms world_ok_draw1[OF assms]
  by (auto simp: makeCall_def command_simps split: option.splits if_splits)

lemma makeCall_sound:
  assumes s: "sound uuid w" and u: "plain_wallet u" "inj uuid" "config_ok cfg"
  shows "sound uuid (snd (makeCall uuid cfg u i w))"
proof (cases "fst (makeCall uuid cfg u i w)")
  case (Inl f)
  with s show ?thesis by (simp add: makeCall_failed[OF sound_world[OF s]])
next
  case (Inr r)
  obtain k p w' where run: "makeCall uuid cfg u i w = (Inr (k, p), w')"
    using Inr by (metis prod.collapse)
  obtain d m mk q bold where d: "dossier_of w u = Some d"
    and m: "jm_get (rm_pots (w_rm w)) (ci_matchId i) = Some m" "jm_get (ms_markets m) (ci_marketId i) = Some mk"
    and st: "gc_minStake cfg \<le> ci_stake i" "0 < ci_stake i" "ci_stake i \<le> ds_balance d + ds_bonus d"
    and mk: "mk_status mk = OPEN" "jm_get (mk_buckets mk) (ci_bucket i) \<noteq> None"
    and k: "k = newId ''call'' (uuid (w_drawn w))" "jm_get (ds_openCalls d) k = None"
    and w': "w' = actor_after uuid u [call_event k i q bold] (w\<lparr>w_drawn := Suc (w_drawn w)\<rparr>)" "world_ok uuid w'"
    and d': "\<And>v. dossier_of w' v = (if v = u then Some (dossier_step (w_now w) (call_event k i q bold) d) else dossier_of w v)"
    by (rule makeCall_success[OF sound_world[OF s] u run]) (rule that; assumption)
  let ?c = "\<lparr>ck_callId = k, ck_wallet = u, ck_bucket = ci_bucket i, ck_stake = ci_stake i\<rparr>"
  have opn: "ms_status m = OPEN"
    using world_match_ok[OF sound_world[OF s] m(1)] mk(1) jm_all_get[OF _ m(2)] by (fastforce simp: match_ok_def)
  let ?pa = "on_match (ci_matchId i) (on_market (ci_marketId i) (market_call (playerStream u)
      \<lparr>cm_callId = k, cm_matchId = ci_matchId i, cm_marketId = ci_marketId i, cm_bucket = ci_bucket i,
       cm_stake = ci_stake i, cm_impliedProbAtCall = q, cm_bold = bold, cm_note = truthy (ci_note i)\<rparr>)) (rm_pots (w_rm w))"
  have pots: "rm_pots (w_rm w') = ?pa"
    by (simp add: w'(1) actor_after_rm appended_one call_event_def pot_apply_def)
  have calls: "calls_of w' mid j = (if mid = ci_matchId i \<and> j = ci_marketId i
      then calls_of w (ci_matchId i) (ci_marketId i) @ [?c] else calls_of w mid j)" for mid j
  proof -
    have "the_market (rm_pots (w_rm w)) (ci_matchId i) (ci_marketId i) = Some mk" using m by (simp add: the_market_def)
    moreover obtain b where "jm_get (mk_buckets mk) (ci_bucket i) = Some b" using mk(2) by blast
    ultimately show ?thesis
      using u(1) by (simp add: pots getMarketCalls_def the_market_on_match market_call_def)
  qed
  have un: "unresolved w' mid = unresolved w mid" for mid
    using m(1,2) by (simp add: unresolved_def pots on_match_get on_market_def)
  have h: "held w' v s = (if v = u \<and> s = CallSlot k then Some (ci_stake i) else held w v s)" for v s
    by (cases s) (auto simp: held_def d' d call_event_def)
  have ch: "rm_challenges (w_rm w') = rm_challenges (w_rm w)"
    by (simp add: w'(1) actor_after_rm appended_one call_event_def challenge_apply_def)
  have drawn: "w_drawn w < w_drawn w'" by (simp add: w'(1))
  have "calls_booked uuid (\<lambda>mid k. unresolved w mid) w'"
  proof (rule calls_booked_new[OF _ _ st(2) u(2) _ calls _ drawn])
    show "calls_booked uuid (\<lambda>mid k. unresolved w mid) w" using s by (simp add: sound_def books_ok_def)
    show "?c = \<lparr>ck_callId = newId ''call'' (uuid (w_drawn w)), ck_wallet = u, ck_bucket = ci_bucket i,
        ck_stake = ci_stake i\<rparr>" by (simp add: k(1))
    show "unresolved w (ci_matchId i)" using m(1) opn by (simp add: unresolved_def)
    show "held w' v (CallSlot j) = (if v = u \<and> j = ck_callId ?c then Some (ci_stake i) else held w v (CallSlot j))" for v j
      by (simp add: h)
  qed
  moreover have "stakes_booked uuid w'"
  proof (rule stakes_booked_cong[OF _ ch])
    show "stakes_booked uuid w" using s by (simp add: sound_def books_ok_def)
  qed (use drawn in \<open>simp_all add: h\<close>)
  ultimately have "sound uuid w'" using w'(2) unfolding sound_def books_ok_def un by blast
  with run show ?thesis by (simp only: snd_conv)
qed

lemma exec_sound:
  assumes s: "sound uuid w" and u: "plain_wallet u" "inj uuid" "config_ok cfg"
    and c: "command_ok c" "player_issued c"
  shows "sound uuid (snd (exec uuid cfg pt u c w))"
proof (cases "\<exists>i. c = MakeCall i")
  case True
  with makeCall_sound[OF s u] show ?thesis by auto
next
  case False
  have "quiet w (snd (exec uuid cfg pt u c w))"
    using False c(2) by (cases c) (simp_all add: quiet_commands)
  then show ?thesis by (rule sound_quiet[OF s _ exec_ok[OF sound_world[OF s] u c(1)]])
qed

section \<open>The life of a match\<close>

definition calls_in :: "(market_id, market_state) jmap \<Rightarrow> market_id \<Rightarrow> call_stake list" where
  "calls_in mks k = (case jm_get mks k of None \<Rightarrow> [] | Some mk \<Rightarrow> mk_calls mk)"

abbreviation match_calls :: "match_state \<Rightarrow> market_id \<Rightarrow> call_stake list" where
  "match_calls m k \<equiv> calls_in (ms_markets m) k"

lemma calls_in_set: "calls_in (jm_set j mk mks) k = (if k = j then mk_calls mk else calls_in mks k)"
  by (simp add: calls_in_def)

lemma calls_in_fresh: "mk_calls (buildMarketState mid d) = []"
  by (simp add: buildMarketState_def)

lemma calls_in_backfill: "calls_in (backfill_market mid d mks) k = calls_in mks k"
  by (auto simp: backfill_market_def calls_in_set calls_in_fresh) (simp add: calls_in_def)

lemma getMarketCalls_match:
  "getMarketCalls ps mid k = (case jm_get ps mid of None \<Rightarrow> [] | Some m \<Rightarrow> match_calls m k)"
  by (simp add: getMarketCalls_def the_market_def calls_in_def split: option.split)

lemma on_match_calls:
  assumes "\<And>m. jm_get ps mid = Some m \<Longrightarrow> match_calls (f m) k = match_calls m k"
  shows "getMarketCalls (on_match mid f ps) mid' k = getMarketCalls ps mid' k"
  using assms by (simp add: getMarketCalls_match on_match_get split: option.split)

lemma jm_get_map: "jm_get (map (\<lambda>(k, v). (k, f k v)) m) j = map_option (f j) (jm_get m j)"
  by (induction m) auto

lemma match_calls_same:
  "match_calls (lock_match m) k = match_calls m k"
  "match_calls (resolve_match sc oc m) k = match_calls m k"
proof -
  have "ms_markets (lock_match m) = map (\<lambda>(k, mk). (k, (\<lambda>_ mk. if mk_status mk = OPEN then mk\<lparr>mk_status := LOCKED\<rparr> else mk) k mk)) (ms_markets m)"
    by (simp add: lock_match_def)
  then show "match_calls (lock_match m) k = match_calls m k"
    by (simp only: calls_in_def jm_get_map) (simp split: option.split)
  have "ms_markets (resolve_match sc oc m) = map (\<lambda>(k, mk). (k, (\<lambda>k mk. case jm_get oc k of
         None \<Rightarrow> mk\<lparr>mk_status := RESOLVED\<rparr>
       | Some w \<Rightarrow> mk\<lparr>mk_status := RESOLVED, mk_winningBucket := Some w\<rparr>) k mk)) (ms_markets m)"
    by (simp add: resolve_match_def)
  then show "match_calls (resolve_match sc oc m) k = match_calls m k"
    by (simp only: calls_in_def jm_get_map) (simp split: option.split)
qed

lemma match_calls_added: "match_calls (add_markets mid defs m) k = match_calls m k"
proof -
  have "calls_in (fold (backfill_market mid) defs mks) k = calls_in mks k" for mks
    by (induction defs arbitrary: mks) (simp_all add: calls_in_backfill)
  then show ?thesis by (simp add: add_markets_def)
qed

lemma match_calls_opened: "match_calls (open_match f defs) k = []"
proof -
  have "calls_in mks k = [] \<Longrightarrow> calls_in (fold (\<lambda>d. jm_set (md_marketId d) (buildMarketState mid d)) defs mks) k = []" for mks mid
    by (induction defs arbitrary: mks) (simp_all add: calls_in_set calls_in_fresh)
  then show ?thesis by (simp add: open_match_def) (simp add: calls_in_def)
qed

text \<open>An event of a match that keeps every market's calls.\<close>

lemma books_ok_match_event:
  assumes b: "books_ok uuid opn w"
    and calls: "\<And>mid' k. getMarketCalls (pot_apply \<lparr>ev_id = [], ev_streamId = matchStream mid, ev_version = 0, ev_at = 0,
        ev_payload = MatchE e\<rparr> (rm_pots (w_rm w))) mid' k = calls_of w mid' k"
    and opn: "\<And>mid k. calls_of w mid k \<noteq> [] \<Longrightarrow> opn' mid k = opn mid k"
  shows "books_ok uuid opn' (match_after uuid mid [e] w)"
proof -
  have "pot_apply \<lparr>ev_id = i, ev_streamId = st, ev_version = v, ev_at = t, ev_payload = MatchE e\<rparr> ps =
      pot_apply \<lparr>ev_id = [], ev_streamId = matchStream mid, ev_version = 0, ev_at = 0, ev_payload = MatchE e\<rparr> ps"
    for i st v t and ps :: pots
    by (cases e) (simp_all add: pot_apply_def)
  then have "rm_pots (w_rm (match_after uuid mid [e] w)) = pot_apply \<lparr>ev_id = [], ev_streamId = matchStream mid,
      ev_version = 0, ev_at = 0, ev_payload = MatchE e\<rparr> (rm_pots (w_rm w))"
    by (simp add: appended_one)
  with b calls opn show ?thesis
    by (intro books_ok_cong[OF b]) (simp_all add: match_after_ok books_ok_def match_event_frame del: match_after_fields(3))
qed

lemma match_event_pots:
  "rm_pots (w_rm (match_after uuid mid [MatchLocked k] w)) = on_match k lock_match (rm_pots (w_rm w))"
  "rm_pots (w_rm (match_after uuid mid [MarketsAdded k defs] w)) = on_match k (add_markets k defs) (rm_pots (w_rm w))"
  "rm_pots (w_rm (match_after uuid mid [MatchOpened f defs] w)) = jm_set (fx_matchId f) (open_match f defs) (rm_pots (w_rm w))"
  "rm_pots (w_rm (match_after uuid mid [MatchResolved r] w)) =
     on_match (mr_matchId r) (resolve_match (mr_score r) (mr_outcomes r)) (rm_pots (w_rm w))"
  by (simp_all add: appended_one pot_apply_def)

lemma match_status_steps [simp]:
  "ms_status (lock_match m) = LOCKED" "ms_status (add_markets mid defs m) = ms_status m"
  "ms_status (open_match f defs) = OPEN" "ms_status (resolve_match sc oc m) = RESOLVED"
  by (simp_all add: lock_match_def add_markets_def open_match_def resolve_match_def)

lemma unresolved_on_match:
  "rm_pots (w_rm w') = on_match mid f (rm_pots (w_rm w)) \<Longrightarrow>
    unresolved w' k = (if k = mid then (case jm_get (rm_pots (w_rm w)) mid of None \<Rightarrow> True | Some m \<Rightarrow> ms_status (f m) \<noteq> RESOLVED)
      else unresolved w k)"
  by (simp add: unresolved_def on_match_get split: option.split)

lemma openMatch_sound:
  assumes s: "sound uuid w"
  shows "sound uuid (snd (openMatch uuid f extra w))"
proof -
  have "sound uuid (match_after uuid (fx_matchId f) [MatchOpened f ms] w)"
    if none: "jm_get (rm_pots (w_rm w)) (fx_matchId f) = None" for ms
  proof -
    let ?w = "match_after uuid (fx_matchId f) [MatchOpened f ms] w"
    have "unresolved ?w k = unresolved w k" for k
      using none unfolding unresolved_def match_event_pots(3) by simp
    moreover have "books_ok uuid (\<lambda>mid k. unresolved w mid) ?w"
      using s none by (intro books_ok_match_event[where opn = "\<lambda>mid k. unresolved w mid"])
        (simp_all add: sound_def pot_apply_def getMarketCalls_match match_calls_opened)
    ultimately show ?thesis by (simp add: sound_def)
  qed
  then show ?thesis using s sound_world[OF s]
    by (auto simp: openMatch_def getMatch_def matchAppend_eq simp del: match_after_fields(3) split: sum.split)
qed

lemma reconcileMarkets_sound:
  assumes s: "sound uuid w"
  shows "sound uuid (snd (reconcileMarkets uuid f w))"
proof -
  have "sound uuid (match_after uuid (fx_matchId f) [MarketsAdded (fx_matchId f) ms] w)" for ms
  proof -
    let ?w = "match_after uuid (fx_matchId f) [MarketsAdded (fx_matchId f) ms] w"
    have "unresolved ?w k = unresolved w k" for k
      unfolding unresolved_on_match[OF match_event_pots(2)] by (simp add: unresolved_def split: option.split)
    moreover have "books_ok uuid (\<lambda>mid k. unresolved w mid) ?w"
      using s by (intro books_ok_match_event[where opn = "\<lambda>mid k. unresolved w mid"])
        (simp_all add: sound_def pot_apply_def on_match_calls match_calls_added)
    ultimately show ?thesis by (simp add: sound_def)
  qed
  then show ?thesis using s sound_world[OF s]
    by (auto simp: reconcileMarkets_def Let_def matchAppend_eq simp del: match_after_fields(3) split: option.split sum.split)
qed

lemma lockMatch_sound:
  assumes s: "sound uuid w"
  shows "sound uuid (snd (lockMatch uuid mid w))"
proof -
  have "sound uuid (match_after uuid mid [MatchLocked mid] w)"
    if opn: "jm_get (rm_pots (w_rm w)) mid = Some m" "ms_status m = OPEN" for m
  proof -
    let ?w = "match_after uuid mid [MatchLocked mid] w"
    have "unresolved ?w k = unresolved w k" for k
      unfolding unresolved_on_match[OF match_event_pots(1)] using opn by (simp add: unresolved_def)
    moreover have "books_ok uuid (\<lambda>mid k. unresolved w mid) ?w"
      using s by (intro books_ok_match_event[where opn = "\<lambda>mid k. unresolved w mid"])
        (simp_all add: sound_def pot_apply_def on_match_calls match_calls_same)
    ultimately show ?thesis by (simp add: sound_def)
  qed
  then show ?thesis using s sound_world[OF s]
    by (auto simp: lockMatch_def getMatch_def toMatchView_def matchAppend_eq simp del: match_after_fields(3) split: option.split)
qed

section \<open>Settling the markets of a match\<close>

lemma market_done_books:
  assumes b: "books_ok uuid opn w" and fin: "market_done uuid mid k w r"
  shows "books_ok uuid (\<lambda>mid' k'. if mid' = mid \<and> k' = k then False else opn mid' k') (snd r)"
proof -
  let ?cs = "calls_of w mid k" and ?w = "snd r"
  have cb: "calls_booked uuid opn w" using b by (simp add: books_ok_def)
  have calls: "calls_of ?w mid' k' = calls_of w mid' k'" for mid' k'
    using fin by (simp add: market_done_def pot_settled_calls)
  have h: "held ?w v s = (if (v, s) \<in> call_slots ?cs then None else held w v s)" for v s
    using fin by (simp add: market_done_def)
  have drawn: "w_drawn w \<le> w_drawn ?w" using fin by (simp add: market_done_def)
  have slot: "call_slot ?w c = (if mid' = mid \<and> k' = k then None else call_slot w c)" if c: "c \<in> set (calls_of w mid' k')" for c mid' k'
  proof (cases "mid' = mid \<and> k' = k")
    case True
    with c show ?thesis by (auto simp: call_slot_def h call_slots_def)
  next
    case False
    then have "(ck_wallet c, CallSlot (ck_callId c)) \<notin> call_slots ?cs"
      using calls_booked_dest(4)[OF cb c] by (auto simp: call_slots_def)
    then show ?thesis unfolding if_not_P[OF False] by (simp add: call_slot_def h)
  qed
  have "calls_booked uuid (\<lambda>mid' k'. if mid' = mid \<and> k' = k then False else opn mid' k') ?w"
  proof (rule calls_bookedI, unfold calls)
    show "distinct (map ck_callId (calls_of w mid' k'))" for mid' k' by (rule calls_booked_distinct[OF cb])
    fix mid' k' c
    assume c: "c \<in> set (calls_of w mid' k')"
    show "0 < ck_stake c" by (rule calls_booked_dest(1)[OF cb c])
    show "call_drawn uuid (w_drawn ?w) (ck_callId c)" by (rule call_drawn_mono[OF calls_booked_dest(2)[OF cb c] drawn])
    show "call_slot ?w c = (if if mid' = mid \<and> k' = k then False else opn mid' k' then Some (ck_stake c) else None)"
      using slot[OF c] calls_booked_dest(3)[OF cb c] by simp
    show "mid' = m \<and> k' = j" if "c' \<in> set (calls_of w m j)" "ck_callId c = ck_callId c'" for m j c'
      by (rule calls_booked_dest(4)[OF cb c that])
  next
    fix v i
    assume "held ?w v (CallSlot i) \<noteq> None"
    then have "held w v (CallSlot i) \<noteq> None" by (auto simp: h split: if_splits)
    then show "\<exists>mid k. \<exists>c \<in> set (calls_of w mid k). ck_wallet c = v \<and> ck_callId c = i"
      by (rule calls_booked_known[OF cb]) blast
  qed
  moreover have "stakes_booked uuid ?w"
  proof (rule stakes_booked_cong)
    show "stakes_booked uuid w" using b by (simp add: books_ok_def)
    show "rm_challenges (w_rm ?w) = rm_challenges (w_rm w)" using fin by (simp add: market_done_def)
    show "held ?w u (StakeSlot s) = held w u (StakeSlot s)" for u s by (auto simp: h call_slots_def)
  qed (rule drawn)
  ultimately show ?thesis using fin by (simp add: books_ok_def market_done_def)
qed

lemma books_ok_backed:
  assumes "books_ok uuid opn w" "opn mid k \<or> calls_of w mid k = []"
  shows "calls_ok (calls_of w mid k)" "backed w (calls_of w mid k)"
proof -
  have cb: "calls_booked uuid opn w" using assms(1) by (simp add: books_ok_def)
  show "calls_ok (calls_of w mid k)"
    using calls_booked_distinct[OF cb] calls_booked_dest(1)[OF cb] by (simp add: calls_ok_def)
  show "backed w (calls_of w mid k)"
    using calls_booked_dest(3)[OF cb] assms(2) by (auto simp: backed_def list_all_iff call_slot_def)
qed

text \<open>The loop over the markets of a resolved match.\<close>

lemma settle_markets_books:
  assumes "books_ok uuid (\<lambda>mid' k'. if mid' = mid then k' \<in> set ks else opn mid' k') w" "rake_ok (gc_rakeBps cfg)"
    and "distinct ks"
    and "r = run_seq (\<lambda>k. settleMarket uuid cfg mid k (oc k)) ks w"
  shows "fst r = Inr () \<and> books_ok uuid (\<lambda>mid' k'. if mid' = mid then False else opn mid' k') (snd r) \<and>
    game_money (snd r) = game_money w \<and> (\<forall>mid. unresolved (snd r) mid = unresolved w mid) \<and>
    (\<forall>mid k. calls_of (snd r) mid k = calls_of w mid k) \<and>
    (\<forall>mid. map_option ms_score (jm_get (rm_pots (w_rm (snd r))) mid) =
       map_option ms_score (jm_get (rm_pots (w_rm w)) mid)) \<and>
    rm_challenges (w_rm (snd r)) = rm_challenges (w_rm w)"
  using assms(1,3) unfolding assms(4)
proof (induction ks arbitrary: w)
  case Nil
  then have "books_ok uuid (\<lambda>mid' k'. if mid' = mid then False else opn mid' k') w"
    by (intro books_ok_cong[OF Nil(1)]) (simp_all add: books_ok_def)
  then show ?case by simp
next
  case (Cons k ks)
  let ?r = "settleMarket uuid cfg mid k (oc k) w"
  have ok: "world_ok uuid w" using Cons.prems(1) by (simp add: books_ok_def)
  have fin: "market_done uuid mid k w ?r"
    using books_ok_backed[OF Cons.prems(1), of mid k] by (intro settleMarket_done[OF ok assms(2)]) simp_all
  have b: "books_ok uuid (\<lambda>mid' k'. if mid' = mid then k' \<in> set ks else opn mid' k') (snd ?r)"
    using market_done_books[OF Cons.prems(1) fin]
  proof (rule books_ok_cong)
    show "(if mid' = mid then k' \<in> set ks else opn mid' k') =
        (if mid' = mid \<and> k' = k then False else if mid' = mid then k' \<in> set (k # ks) else opn mid' k')" for mid' k'
      using Cons.prems(2) by auto
  qed (use fin in \<open>simp_all add: market_done_def\<close>)
  have st: "unresolved (snd ?r) mid' = unresolved w mid'" for mid'
  proof -
    have "rm_pots (w_rm (snd ?r)) = on_match mid (on_market k (\<lambda>mk. mk\<lparr>mk_settled := True\<rparr>)) (rm_pots (w_rm w))"
      using fin by (simp add: market_done_def)
    from unresolved_on_match[OF this, of mid'] show ?thesis
      by (simp add: unresolved_def on_market_def split: option.split)
  qed
  have calls: "calls_of (snd ?r) mid' k' = calls_of w mid' k'" for mid' k'
    using fin by (simp add: market_done_def pot_settled_calls)
  have score: "map_option ms_score (jm_get (rm_pots (w_rm (snd ?r))) mid') =
      map_option ms_score (jm_get (rm_pots (w_rm w)) mid')" for mid'
  proof -
    have "ms_score (on_market k f m) = ms_score m" for f m by (simp add: on_market_def split: option.split)
    then show ?thesis using fin by (simp add: market_done_def on_match_get option.map_comp comp_def)
  qed
  have "run_seq (\<lambda>k. settleMarket uuid cfg mid k (oc k)) (k # ks) w =
      run_seq (\<lambda>k. settleMarket uuid cfg mid k (oc k)) ks (snd ?r)"
    using fin by (cases ?r) (simp add: market_done_def)
  moreover have "distinct ks" using Cons.prems(2) by simp
  ultimately show ?case using Cons.IH[OF b] fin st calls score by (simp add: market_done_def)
qed

end
