(* ===== verification/EngineRuns.thy ===== *)
theory EngineRuns
  imports Books
begin

text \<open>
  The operations of the engine on the books (\<open>src/engine/Engine.ts\<close>): each challenge operation,
  the resolution of a match, the house seeding and the tick, run to their end, keep a sound
  world sound. From there: resolving a match creates and destroys no money, nothing settles
  without the verifier's confirmation, the house risks no more than its cap, and the two
  interleavings of the challenge operations that break the books.
\<close>

section \<open>Challenge operations\<close>

lemma sound_challenge:
  assumes s: "sound uuid w" and ok: "world_ok uuid w'" and pots: "rm_pots (w_rm w') = rm_pots (w_rm w)"
    and calls: "\<And>v i. held w' v (CallSlot i) = held w v (CallSlot i)"
    and chs: "rm_challenges (w_rm w') = jm_set cid ch (rm_challenges (w_rm w))"
    and ch: "challenge_ok uuid (w_drawn w') cid ch" and d: "w_drawn w \<le> w_drawn w'"
    and stake: "\<And>u. held w' u (StakeSlot cid) = (if u \<in> parties ch then Some (cw_stake ch) else None)"
    and other: "\<And>u j. j \<noteq> cid \<Longrightarrow> held w' u (StakeSlot j) = held w u (StakeSlot j)"
  shows "sound uuid w'"
proof -
  have sb: "stakes_booked uuid w" and cb: "calls_booked uuid (\<lambda>mid k. unresolved w mid) w"
    using s by (simp_all add: sound_def books_ok_def)
  have "calls_booked uuid (\<lambda>mid k. unresolved w' mid) w'"
    by (rule calls_booked_cong[OF cb]) (simp_all add: pots calls d unresolved_def)
  moreover have "stakes_booked uuid w'"
  proof -
    have "jm_wf (rm_challenges (w_rm w'))" using sb by (simp add: chs stakes_booked_def)
    moreover have "jm_all (challenge_ok uuid (w_drawn w')) (rm_challenges (w_rm w))"
      using sb by (auto simp: stakes_booked_def elim!: jm_all_mono intro: challenge_ok_mono[OF _ d])
    then have "jm_all (challenge_ok uuid (w_drawn w')) (rm_challenges (w_rm w'))"
      unfolding chs using ch by (intro jm_all_set)
    moreover have "held w' u (StakeSlot j) = stake_due (rm_challenges (w_rm w')) u j" for u j
    proof (cases "j = cid")
      case True
      then show ?thesis by (simp add: stake chs stake_due_def)
    next
      case False
      then show ?thesis using sb by (simp add: other chs stake_due_def stakes_booked_def)
    qed
    ultimately show ?thesis by (simp add: stakes_booked_def)
  qed
  ultimately show ?thesis using ok by (simp add: sound_def books_ok_def)
qed

lemma sound_stakes: "sound uuid w \<Longrightarrow> held w u (StakeSlot cid) = stake_due (rm_challenges (w_rm w)) u cid"
  by (simp add: sound_def books_ok_def stakes_booked_def)

lemma sound_challenge_get:
  assumes "sound uuid w" "jm_get (rm_challenges (w_rm w)) cid = Some ch"
  shows "challenge_ok uuid (w_drawn w) cid ch"
  using assms by (auto simp: sound_def books_ok_def stakes_booked_def dest: jm_all_get)

text \<open>A stake locked in an empty slot.\<close>

definition locks :: "uuids \<Rightarrow> wallet \<Rightarrow> challenge_id \<Rightarrow> frost \<Rightarrow> world \<Rightarrow> world \<Rightarrow> bool" where
  "locks uuid u cid st w w' \<longleftrightarrow> world_ok uuid w' \<and> 0 < st \<and>
     (\<forall>v s. held w' v s = (if v = u \<and> s = StakeSlot cid then Some st else held w v s)) \<and>
     rm_pots (w_rm w') = rm_pots (w_rm w) \<and> rm_challenges (w_rm w') = rm_challenges (w_rm w) \<and>
     rm_managersPot (w_rm w') = rm_managersPot (w_rm w) \<and> players_money w' = players_money w \<and>
     w_drawn w \<le> w_drawn w'"

lemma lockChallengeStake_effect:
  assumes ok: "world_ok uuid w" and cfg: "config_ok cfg" and empty: "held w u (StakeSlot (li_challengeId i)) = None"
  shows "case lockChallengeStake uuid cfg u i w of
      (Inl f, w') \<Rightarrow> w' = w
    | (Inr _, w') \<Rightarrow> locks uuid u (li_challengeId i) (li_stake i) w w'"
proof (cases "dossier_of w u")
  case None
  then show ?thesis by (simp add: lockChallengeStake_def command_simps)
next
  case (Some d)
  note u = file_plain[OF ok Some]
  let ?p = "ChallengeStakeLocked \<lparr>sl_challengeId = li_challengeId i, sl_matchId = li_matchId i,
      sl_side = li_side i, sl_stake = li_stake i, sl_role = li_role i\<rparr>"
  let ?w = "actor_after uuid u [?p] w"
  have free: "jm_get (ds_openStakes d) (li_challengeId i) = None" using empty Some by (simp add: held_def)
  have "locks uuid u (li_challengeId i) (li_stake i) w ?w"
    if st: "gc_minStake cfg \<le> li_stake i" "li_stake i \<le> ds_balance d + ds_bonus d"
  proof -
    have pos: "0 < li_stake i" using st(1) cfg by (simp add: config_ok_def)
    have okw: "world_ok uuid ?w"
      using pos st free by (intro actor_after_one_ok[OF ok u Some]) (simp_all add: is_signing_def)
    have d': "dossier_of ?w v = (if v = u then Some (dossier_step (w_now w) ?p d) else dossier_of w v)" for v
      using Some by (subst actor_after_dossier[OF u]) (simp_all add: is_signing_def)
    have "held ?w v s = (if v = u \<and> s = StakeSlot (li_challengeId i) then Some (li_stake i) else held w v s)" for v s
      by (cases s) (auto simp: held_def d' Some)
    moreover have "players_money ?w = players_money w"
      using players_money_change[OF ok okw Some d'] by simp
    moreover have "rm_pots (w_rm ?w) = rm_pots (w_rm w)" "rm_challenges (w_rm ?w) = rm_challenges (w_rm w)"
      "rm_managersPot (w_rm ?w) = rm_managersPot (w_rm w)"
      by (intro actor_after_views; simp)+
    ultimately show ?thesis using okw pos by (simp add: locks_def)
  qed
  then show ?thesis
    using Some free has_stake_eq[OF world_file(2)[OF ok Some]] ok
    by (auto simp: lockChallengeStake_def command_simps)
qed

lemma challenge_event_views:
  "rm_challenges (w_rm (challenge_after uuid cid [ChallengeCreated p] w)) =
     jm_set (cc_challengeId p) (new_challenge (w_now w) p) (rm_challenges (w_rm w))"
  "jm_get (rm_challenges (w_rm w)) cid = Some ch \<Longrightarrow>
   rm_challenges (w_rm (challenge_after uuid cid [ChallengeAccepted cid opp] w)) =
     jm_set cid (ch\<lparr>cw_opponent := Some opp, cw_status := C_MATCHED\<rparr>) (rm_challenges (w_rm w))"
  "jm_get (rm_challenges (w_rm w)) cid = Some ch \<Longrightarrow>
   rm_challenges (w_rm (challenge_after uuid cid [ChallengeCancelled cid] w)) =
     jm_set cid (ch\<lparr>cw_status := C_CANCELLED, cw_settledAt := Some (w_now w)\<rparr>) (rm_challenges (w_rm w))"
  by (simp_all add: appended_one challenge_apply_def)

lemma createChallenge_sound:
  assumes s: "sound uuid w" and inj: "inj uuid" and cfg: "config_ok cfg"
  shows "sound uuid (snd (createChallenge uuid cfg u i w)) \<and>
    game_money (snd (createChallenge uuid cfg u i w)) = game_money w"
proof -
  let ?w0 = "w\<lparr>w_drawn := Suc (w_drawn w)\<rparr>" and ?cid = "newId ''chg'' (uuid (w_drawn w))"
  define side where "side = hi_side i"
  define opp where "opp = (case truthy (hi_opponentSide i) of Some b \<Rightarrow> b | None \<Rightarrow> counterSide (hi_side i))"
  let ?li = "\<lparr>li_challengeId = ?cid, li_matchId = hi_matchId i, li_side = side, li_stake = hi_stake i, li_role = CREATOR\<rparr>"
  let ?ce = "ChallengeCreated \<lparr>cc_challengeId = ?cid, cc_matchId = hi_matchId i, cc_creator = u,
      cc_creatorSide = side, cc_opponentSide = opp, cc_stake = hi_stake i\<rparr>"
  have s0: "sound uuid ?w0"
    using s by (intro sound_quiet[OF s]) (simp_all add: world_ok_draw1 sound_world)
  have h0: "held ?w0 v t = held w v t" for v t by (simp add: held_def)
  have none: "jm_get (rm_challenges (w_rm w)) ?cid = None"
  proof (rule ccontr)
    assume "jm_get (rm_challenges (w_rm w)) ?cid \<noteq> None"
    then obtain ch where "jm_get (rm_challenges (w_rm w)) ?cid = Some ch" by blast
    from sound_challenge_get[OF s this] obtain j where "j < w_drawn w" "?cid = newId ''chg'' (uuid j)"
      by (auto simp: challenge_ok_def)
    then show False using inj by (auto simp: newId_def dest: injD)
  qed
  have empty: "held ?w0 v (StakeSlot ?cid) = None" for v
    using none sound_stakes[OF s, of v ?cid] by (simp add: h0 stake_due_def)
  note eff = lockChallengeStake_effect[OF sound_world[OF s0] cfg, of u ?li, simplified, OF empty]
  have made: "sound uuid (challenge_after uuid ?cid [?ce] w1) \<and>
      game_money (challenge_after uuid ?cid [?ce] w1) = game_money w \<and> world_ok uuid w1"
    if l: "locks uuid u ?cid (hi_stake i) ?w0 w1" for w1
  proof -
    have h: "held w1 v t = (if v = u \<and> t = StakeSlot ?cid then Some (hi_stake i) else held w v t)" for v t
      using l by (simp add: locks_def h0)
    have "sound uuid (challenge_after uuid ?cid [?ce] w1)"
    proof (rule sound_challenge[OF s])
      show "rm_challenges (w_rm (challenge_after uuid ?cid [?ce] w1)) =
          jm_set ?cid (new_challenge (w_now w1) \<lparr>cc_challengeId = ?cid, cc_matchId = hi_matchId i, cc_creator = u,
            cc_creatorSide = side, cc_opponentSide = opp, cc_stake = hi_stake i\<rparr>) (rm_challenges (w_rm w))"
        using l by (simp add: challenge_event_views(1) locks_def del: challenge_after_fields(3))
      show "world_ok uuid (challenge_after uuid ?cid [?ce] w1)"
        using l by (intro challenge_after_ok) (simp add: locks_def)
      show "held (challenge_after uuid ?cid [?ce] w1) v (StakeSlot ?cid) = (if v \<in> parties (new_challenge (w_now w1)
          \<lparr>cc_challengeId = ?cid, cc_matchId = hi_matchId i, cc_creator = u,
            cc_creatorSide = side, cc_opponentSide = opp, cc_stake = hi_stake i\<rparr>)
        then Some (cw_stake (new_challenge (w_now w1) \<lparr>cc_challengeId = ?cid, cc_matchId = hi_matchId i, cc_creator = u,
            cc_creatorSide = side, cc_opponentSide = opp, cc_stake = hi_stake i\<rparr>)) else None)" for v
        using empty[of v] by (simp add: challenge_event_frame h parties_def new_challenge_def h0)
      have "\<exists>j < Suc (w_drawn w1). ?cid = newId ''chg'' (uuid j)"
        using l by (intro exI[of _ "w_drawn w"]) (simp add: locks_def)
      then show "challenge_ok uuid (w_drawn (challenge_after uuid ?cid [?ce] w1)) ?cid (new_challenge (w_now w1)
          \<lparr>cc_challengeId = ?cid, cc_matchId = hi_matchId i, cc_creator = u,
            cc_creatorSide = side, cc_opponentSide = opp, cc_stake = hi_stake i\<rparr>)"
        using l by (simp add: challenge_ok_def new_challenge_def locks_def)
    qed (use l in \<open>auto simp: challenge_event_frame h locks_def simp del: challenge_after_fields(3)\<close>)
    moreover have "game_money (challenge_after uuid ?cid [?ce] w1) = game_money w"
      using l by (simp add: game_money_def challenge_event_frame locks_def del: challenge_after_fields(3))
        (simp add: players_money_def)
    ultimately show ?thesis using l by (simp add: locks_def)
  qed
  have gm: "game_money ?w0 = game_money w" by (simp add: game_money_def players_money_def)
  show ?thesis
  proof (cases "getMatch (rm_pots (w_rm w)) (hi_matchId i) = None \<or> \<not> result_open w (hi_matchId i) \<or> opp = side")
    case True
    then show ?thesis using s by (auto simp: createChallenge_def reject_def side_def opp_def Let_def)
  next
    case False
    then have run: "createChallenge uuid cfg u i w = and_then (lockChallengeStake uuid cfg u ?li ?w0)
        (\<lambda>_ w. or_refund uuid u ?cid ''challenge create failed'' (challengeAppend uuid ?cid [?ce] w))"
      by (auto simp: createChallenge_def draw_id_def Let_def side_def opp_def)
    show ?thesis
    proof (cases "lockChallengeStake uuid cfg u ?li ?w0")
      case (Pair r w1)
      show ?thesis
      proof (cases r)
        case (Inl f)
        then show ?thesis using eff Pair s0 gm by (simp add: run)
      next
        case (Inr x)
        then show ?thesis using eff Pair made[of w1]
          by (simp add: run or_refund_def challengeAppend_eq del: challenge_after_fields(3))
      qed
    qed
  qed
qed

lemma held_parties:
  "sound uuid w \<Longrightarrow> jm_get (rm_challenges (w_rm w)) cid = Some ch \<Longrightarrow>
    held w u (StakeSlot cid) = (if u \<in> parties ch then Some (cw_stake ch) else None)"
  by (simp add: sound_stakes stake_due_def)

lemma acceptChallenge_sound:
  assumes s: "sound uuid w" and cfg: "config_ok cfg"
  shows "sound uuid (snd (acceptChallenge uuid cfg opponent cid w)) \<and>
    game_money (snd (acceptChallenge uuid cfg opponent cid w)) = game_money w"
proof (cases "accept_check opponent cid w")
  case (Inl f)
  with s show ?thesis by (simp add: acceptChallenge_def)
next
  case (Inr ch)
  then have ch: "jm_get (rm_challenges (w_rm w)) cid = Some ch" "cw_status ch = C_OPEN" "cw_creator ch \<noteq> opponent"
    by (auto simp: accept_check_def getChallenge_def challenge_get_def split: option.splits if_splits)
  note chok = sound_challenge_get[OF s ch(1)]
  let ?li = "\<lparr>li_challengeId = cid, li_matchId = cw_matchId ch, li_side = cw_opponentSide ch,
      li_stake = cw_stake ch, li_role = OPPONENT\<rparr>"
  have "held w opponent (StakeSlot cid) = None" using ch by (simp add: held_parties[OF s] parties_def)
  note eff = lockChallengeStake_effect[OF sound_world[OF s] cfg, of opponent ?li, simplified, OF this]
  let ?ch = "ch\<lparr>cw_opponent := Some opponent, cw_status := C_MATCHED\<rparr>"
  have taken: "sound uuid (challenge_after uuid cid [ChallengeAccepted cid opponent] w1) \<and>
      game_money (challenge_after uuid cid [ChallengeAccepted cid opponent] w1) = game_money w \<and> world_ok uuid w1"
    if l: "locks uuid opponent cid (cw_stake ch) w w1" for w1
  proof -
    let ?w2 = "challenge_after uuid cid [ChallengeAccepted cid opponent] w1"
    have h: "held w1 v t = (if v = opponent \<and> t = StakeSlot cid then Some (cw_stake ch) else held w v t)" for v t
      using l by (simp add: locks_def)
    have "sound uuid ?w2"
    proof (rule sound_challenge[OF s])
      show "rm_challenges (w_rm ?w2) = jm_set cid ?ch (rm_challenges (w_rm w))"
        using l ch(1) by (simp add: challenge_event_views(2) locks_def del: challenge_after_fields(3))
      show "world_ok uuid ?w2" using l by (intro challenge_after_ok) (simp add: locks_def)
      show "challenge_ok uuid (w_drawn ?w2) cid ?ch"
        using chok ch(3) l challenge_ok_mono[of uuid "w_drawn w" cid ch "Suc (w_drawn w1)"]
        by (auto simp: challenge_ok_def locks_def)
      show "held ?w2 v (StakeSlot cid) = (if v \<in> parties ?ch then Some (cw_stake ?ch) else None)" for v
        using ch by (auto simp: challenge_event_frame h held_parties[OF s] parties_def)
    qed (use l in \<open>auto simp: challenge_event_frame h locks_def simp del: challenge_after_fields(3)\<close>)
    moreover have "game_money ?w2 = game_money w"
      using l by (simp add: game_money_def challenge_event_frame locks_def del: challenge_after_fields(3))
    ultimately show ?thesis using l by (simp add: locks_def)
  qed
  show ?thesis
  proof (cases "lockChallengeStake uuid cfg opponent ?li w")
    case (Pair r w1)
    show ?thesis
    proof (cases r)
      case (Inl f)
      then show ?thesis using eff Pair s \<open>accept_check opponent cid w = Inr ch\<close>
        by (simp add: acceptChallenge_def accept_lock_def)
    next
      case (Inr x)
      then show ?thesis using eff Pair taken[of w1] \<open>accept_check opponent cid w = Inr ch\<close>
        by (simp add: acceptChallenge_def accept_lock_def accept_commit_def or_refund_def challengeAppend_eq
            del: challenge_after_fields(3))
    qed
  qed
qed

lemma cancelChallenge_sound:
  assumes s: "sound uuid w"
  shows "sound uuid (snd (cancelChallenge uuid creator cid w)) \<and>
    game_money (snd (cancelChallenge uuid creator cid w)) = game_money w"
proof (cases "\<exists>ch. getChallenge (w_rm w) cid = Some ch \<and> cw_creator ch = creator \<and> cw_status ch = C_OPEN")
  case False
  then show ?thesis using s by (auto simp: cancelChallenge_def reject_def split: option.split)
next
  case True
  then obtain ch where ch: "jm_get (rm_challenges (w_rm w)) cid = Some ch" "cw_creator ch = creator" "cw_status ch = C_OPEN"
    by (auto simp: getChallenge_def challenge_get_def)
  note chok = sound_challenge_get[OF s ch(1)]
  have h: "held w creator (StakeSlot cid) = Some (cw_stake ch)"
    using ch by (simp add: held_parties[OF s] parties_def)
  let ?r = "refundChallengeStake uuid creator cid ''challenge cancelled'' w"
  have r: "releases uuid {(creator, StakeSlot cid)} 0 w ?r"
    by (rule refundChallengeStake_releases[OF sound_world[OF s] h])
  let ?w1 = "snd ?r" and ?ch = "ch\<lparr>cw_status := C_CANCELLED, cw_settledAt := Some (w_now (snd ?r))\<rparr>"
  let ?w2 = "challenge_after uuid cid [ChallengeCancelled cid] ?w1"
  have ok: "world_ok uuid ?w1" using r by (simp add: releases_def)
  have h1: "held ?w1 v t = (if v = creator \<and> t = StakeSlot cid then None else held w v t)" for v t
    using r by (simp add: releases_def)
  have "sound uuid ?w2"
  proof (rule sound_challenge[OF s challenge_after_ok[OF ok]])
    show "rm_challenges (w_rm ?w2) = jm_set cid ?ch (rm_challenges (w_rm w))"
      using r ch(1) by (simp add: challenge_event_views(3) releases_def del: challenge_after_fields(3))
    show "challenge_ok uuid (w_drawn ?w2) cid ?ch"
      using chok r challenge_ok_mono[of uuid "w_drawn w" cid ch "Suc (w_drawn ?w1)"]
      by (auto simp: challenge_ok_def releases_def)
    show "held ?w2 v (StakeSlot cid) = (if v \<in> parties ?ch then Some (cw_stake ?ch) else None)" for v
      using ch by (auto simp: challenge_event_frame h1 held_parties[OF s] parties_def)
  qed (use r in \<open>auto simp: challenge_event_frame h1 releases_def simp del: challenge_after_fields(3)\<close>)
  moreover have "game_money ?w2 = game_money w"
    using r by (simp add: game_money_def challenge_event_frame releases_def del: challenge_after_fields(3))
  moreover have "cancelChallenge uuid creator cid w = and_then ?r (\<lambda>_. challengeAppend uuid cid [ChallengeCancelled cid])"
    using ch by (simp add: cancelChallenge_def getChallenge_def challenge_get_def)
  then have "snd (cancelChallenge uuid creator cid w) = ?w2"
    by (subst (asm) releases_result[OF r]) (simp add: challengeAppend_eq[OF ok] del: challenge_after_fields(3))
  ultimately show ?thesis by (simp only:)
qed

section \<open>Settling the challenges of a match\<close>

text \<open>A settled challenge: the result, and what the later ones of the loop still find.\<close>

lemma settle_challenge_sound:
  assumes s: "sound uuid w" and rk: "rake_ok (gc_rakeBps cfg)"
    and ch: "jm_get (rm_challenges (w_rm w)) (cw_challengeId ch) = Some ch" "cw_status ch = C_MATCHED"
    and r_def: "r = settle_challenge uuid cfg winning ch w"
  shows "fst r = Inr () \<and> sound uuid (snd r) \<and> game_money (snd r) = game_money w \<and>
    rm_pots (w_rm (snd r)) = rm_pots (w_rm w) \<and>
    (\<forall>cid. cid \<noteq> cw_challengeId ch \<longrightarrow> jm_get (rm_challenges (w_rm (snd r))) cid = jm_get (rm_challenges (w_rm w)) cid) \<and>
    (\<forall>u. held (snd r) u (StakeSlot (cw_challengeId ch)) = None)"
proof -
  let ?cid = "cw_challengeId ch"
  note chok = sound_challenge_get[OF s ch(1)]
  obtain opponent where opp: "cw_opponent ch = Some opponent" "opponent \<noteq> cw_creator ch" "0 < cw_stake ch"
    using chok ch(2) by (auto simp: challenge_ok_def)
  have fin: "challenge_done uuid ch opponent w r"
    unfolding r_def using ch opp
    by (intro settle_challenge_done[OF sound_world[OF s] rk opp]) (simp_all add: held_parties[OF s] parties_def)
  obtain ce tm where ce: "challenge_key ce = ?cid" "\<And>c. terminal (cw_status (challenge_step tm ce c))"
    "\<And>p. ce \<noteq> ChallengeCreated p"
    "rm_challenges (w_rm (snd r)) = jm_set ?cid (challenge_step tm ce ch) (rm_challenges (w_rm w))"
    using fin ch(1) by (auto simp: challenge_done_def)
  have h: "held (snd r) v t = (if (v, t) \<in> challenge_slots ch opponent then None else held w v t)" for v t
    using fin by (simp add: challenge_done_def)
  let ?ch = "challenge_step tm ce ch"
  have same: "cw_challengeId ?ch = ?cid" "cw_stake ?ch = cw_stake ch" "cw_creator ?ch = cw_creator ch"
    "parties ?ch = {}" "cw_status ?ch \<noteq> C_MATCHED" "cw_opponent ?ch = cw_opponent ch \<or> (\<exists>k o'. ce = ChallengeAccepted k o')"
    using ce(2)[of ch] ce(3) by (cases ce; auto simp: terminal_def parties_def)+
  have opp': "cw_opponent ?ch = Some opponent"
    using same(6) ce(2)[of ch] opp(1) by (auto simp: terminal_def)
  have empty: "held (snd r) v (StakeSlot ?cid) = None" for v
    using ch(2) opp(1) by (auto simp: h challenge_slots_def held_parties[OF s ch(1)] parties_def)
  have "sound uuid (snd r)"
  proof (rule sound_challenge[OF s _ _ _ ce(4)])
    show "challenge_ok uuid (w_drawn (snd r)) ?cid ?ch"
      using chok fin same opp' opp(2) challenge_ok_mono[of uuid "w_drawn w" ?cid ch "w_drawn (snd r)"]
      by (auto simp: challenge_ok_def challenge_done_def)
    show "held (snd r) v (StakeSlot ?cid) = (if v \<in> parties ?ch then Some (cw_stake ?ch) else None)" for v
      by (simp add: empty same)
  qed (use fin in \<open>auto simp: challenge_done_def challenge_slots_def\<close>)
  then show ?thesis using fin ce(4) empty by (simp add: challenge_done_def)
qed

lemma settle_challenges_sound:
  assumes "sound uuid w" "rake_ok (gc_rakeBps cfg)" "distinct (map cw_challengeId L)"
    and "\<And>ch. ch \<in> set L \<Longrightarrow> jm_get (rm_challenges (w_rm w)) (cw_challengeId ch) = Some ch \<and> cw_status ch = C_MATCHED"
  shows "fst (run_seq (settle_challenge uuid cfg winning) L w) = Inr () \<and>
    sound uuid (snd (run_seq (settle_challenge uuid cfg winning) L w)) \<and>
    game_money (snd (run_seq (settle_challenge uuid cfg winning) L w)) = game_money w \<and>
    rm_pots (w_rm (snd (run_seq (settle_challenge uuid cfg winning) L w))) = rm_pots (w_rm w)"
  using assms(1,3,4)
proof (induction L arbitrary: w)
  case Nil
  then show ?case by simp
next
  case (Cons ch L)
  let ?r = "settle_challenge uuid cfg winning ch w"
  have c: "jm_get (rm_challenges (w_rm w)) (cw_challengeId ch) = Some ch" "cw_status ch = C_MATCHED"
    using Cons.prems(3) by simp_all
  note one = settle_challenge_sound[OF Cons.prems(1) assms(2) c, where r = ?r and winning = winning, OF refl]
  have "run_seq (settle_challenge uuid cfg winning) (ch # L) w = run_seq (settle_challenge uuid cfg winning) L (snd ?r)"
    using one by (cases ?r) simp
  moreover have "fst (run_seq (settle_challenge uuid cfg winning) L (snd ?r)) = Inr () \<and>
    sound uuid (snd (run_seq (settle_challenge uuid cfg winning) L (snd ?r))) \<and>
    game_money (snd (run_seq (settle_challenge uuid cfg winning) L (snd ?r))) = game_money (snd ?r) \<and>
    rm_pots (w_rm (snd (run_seq (settle_challenge uuid cfg winning) L (snd ?r)))) = rm_pots (w_rm (snd ?r))"
  proof (rule Cons.IH)
    show "sound uuid (snd ?r)" using one by simp
    show "distinct (map cw_challengeId L)" using Cons.prems(2) by simp
    fix c
    assume c: "c \<in> set L"
    then have "cw_challengeId c \<noteq> cw_challengeId ch" using Cons.prems(2) by (metis distinct.simps(2) imageI list.simps(9) list.set_map)
    then show "jm_get (rm_challenges (w_rm (snd ?r))) (cw_challengeId c) = Some c \<and> cw_status c = C_MATCHED"
      using one Cons.prems(3)[of c] c by simp
  qed
  ultimately show ?case using one by simp
qed

lemma settleChallengesForMatch_sound:
  assumes s: "sound uuid w" and rk: "rake_ok (gc_rakeBps cfg)"
  shows "fst (settleChallengesForMatch uuid cfg mid sc w) = Inr () \<and>
    sound uuid (snd (settleChallengesForMatch uuid cfg mid sc w)) \<and>
    game_money (snd (settleChallengesForMatch uuid cfg mid sc w)) = game_money w \<and>
    rm_pots (w_rm (snd (settleChallengesForMatch uuid cfg mid sc w))) = rm_pots (w_rm w)"
  unfolding settleChallengesForMatch_def
proof (rule settle_challenges_sound[OF s rk])
  let ?cs = "rm_challenges (w_rm w)"
  have wf: "jm_wf ?cs" "jm_all (challenge_ok uuid (w_drawn w)) ?cs"
    using s by (simp_all add: sound_def books_ok_def stakes_booked_def)
  have keys: "map cw_challengeId (jm_values ?cs) = map fst ?cs"
    using wf(2) by (auto simp: jm_all_def challenge_ok_def intro: map_cong)
  have "distinct (map cw_challengeId (jm_values ?cs))" unfolding keys by (rule wf(1))
  then show "distinct (map cw_challengeId (matchedFor ?cs mid))"
    unfolding matchedFor_def by (rule distinct_map_filter)
  fix ch
  assume "ch \<in> set (matchedFor ?cs mid)"
  then obtain k where k: "(k, ch) \<in> set ?cs" "cw_status ch = C_MATCHED" by (auto simp: matchedFor_def)
  with wf have "jm_get ?cs k = Some ch" "cw_challengeId ch = k" by (auto simp: jm_all_def challenge_ok_def)
  with k(2) show "jm_get ?cs (cw_challengeId ch) = Some ch \<and> cw_status ch = C_MATCHED" by simp
qed

section \<open>Resolving a match\<close>

lemma and_then_ok: "fst r = Inr x \<Longrightarrow> and_then r k = k x (snd r)"
  by (cases r) simp

lemma match_keys:
  assumes "match_ok m"
  shows "map mv_marketId (mw_markets (toMatchView m)) = map fst (ms_markets m)" "distinct (map fst (ms_markets m))"
proof -
  have "mk_marketId (snd kv) = fst kv" if "kv \<in> set (ms_markets m)" for kv
    using assms that by (auto simp: match_ok_def jm_all_def split: prod.splits)
  then show "map mv_marketId (mw_markets (toMatchView m)) = map fst (ms_markets m)"
    by (simp add: toMatchView_def toMarketView_def Let_def comp_def)
  show "distinct (map fst (ms_markets m))" using assms by (simp add: match_ok_def)
qed

lemma lockMatch_effect:
  assumes s: "sound uuid w" and m: "jm_get (rm_pots (w_rm w)) mid = Some m" "ms_status m = OPEN"
  defines "w1 \<equiv> snd (lockMatch uuid mid w)"
  shows "fst (lockMatch uuid mid w) = Inr () \<and> sound uuid w1 \<and> game_money w1 = game_money w \<and>
    jm_get (rm_pots (w_rm w1)) mid = Some (lock_match m) \<and> (\<forall>mid k. calls_of w1 mid k = calls_of w mid k)"
proof -
  have run: "lockMatch uuid mid w = (Inr (), match_after uuid mid [MatchLocked mid] w)"
    using m by (simp add: lockMatch_def getMatch_def toMatchView_def matchAppend_eq[OF sound_world[OF s]])
  moreover have "sound uuid w1" unfolding w1_def by (rule lockMatch_sound[OF s])
  ultimately show ?thesis using m(1)
    by (simp add: w1_def game_money_def match_event_frame match_event_pots(1) on_match_calls match_calls_same
        on_match_get del: match_after_fields(3))
qed

lemma resolved_books:
  assumes s: "sound uuid w" and m: "jm_get (rm_pots (w_rm w)) mid = Some m" "ms_status m \<noteq> RESOLVED"
    and r: "mr_matchId r = mid"
  defines "w2 \<equiv> match_after uuid mid [MatchResolved r] w"
  shows "books_ok uuid (\<lambda>mid' k'. if mid' = mid then k' \<in> set (map fst (ms_markets m)) else unresolved w2 mid') w2"
    and "\<not> unresolved w2 mid" "\<And>mid' k. calls_of w2 mid' k = calls_of w mid' k" "game_money w2 = game_money w"
    and "map_option ms_score (jm_get (rm_pots (w_rm w2)) mid) = Some (Some (mr_score r))"
proof -
  have pots: "rm_pots (w_rm w2) = on_match mid (resolve_match (mr_score r) (mr_outcomes r)) (rm_pots (w_rm w))"
    unfolding w2_def using match_event_pots(4)[of uuid mid r w] r by simp
  show un: "\<not> unresolved w2 mid" unfolding unresolved_on_match[OF pots] using m by simp
  have other: "unresolved w2 k = unresolved w k" if "k \<noteq> mid" for k
    unfolding unresolved_on_match[OF pots] using that by simp
  show calls: "calls_of w2 mid' k = calls_of w mid' k" for mid' k
    by (simp add: pots on_match_calls match_calls_same)
  show "game_money w2 = game_money w"
    unfolding w2_def by (simp add: game_money_def match_event_frame del: match_after_fields(3))
  show "map_option ms_score (jm_get (rm_pots (w_rm w2)) mid) = Some (Some (mr_score r))"
    using m by (simp add: pots on_match_get resolve_match_def)
  show "books_ok uuid (\<lambda>mid' k'. if mid' = mid then k' \<in> set (map fst (ms_markets m)) else unresolved w2 mid') w2"
    unfolding w2_def
  proof (rule books_ok_match_event[where opn = "\<lambda>mid k. unresolved w mid"], fold w2_def)
    show "books_ok uuid (\<lambda>mid k. unresolved w mid) w" using s by (simp add: sound_def)
    show "getMarketCalls (pot_apply \<lparr>ev_id = [], ev_streamId = matchStream mid, ev_version = 0, ev_at = 0,
        ev_payload = MatchE (MatchResolved r)\<rparr> (rm_pots (w_rm w))) mid' k = calls_of w mid' k" for mid' k
      by (simp add: pot_apply_def on_match_calls match_calls_same)
    show "(if mid' = mid then k \<in> set (map fst (ms_markets m)) else unresolved w2 mid') = unresolved w mid'"
      if c: "calls_of w mid' k \<noteq> []" for mid' k
    proof (cases "mid' = mid")
      case True
      then have "jm_get (ms_markets m) k \<noteq> None"
        using c m(1) by (auto simp: getMarketCalls_match calls_in_def split: option.splits)
      then have "k \<in> fst ` set (ms_markets m)" by (simp add: map_of_eq_None_iff)
      then show ?thesis using True m by (simp add: unresolved_def)
    next
      case False
      then show ?thesis by (simp add: other)
    qed
  qed
qed

lemma resolveMatch_confirmed:
  assumes s: "sound uuid w" and rk: "rake_ok (gc_rakeBps cfg)"
    and m: "jm_get (rm_pots (w_rm w)) mid = Some m" "ms_status m \<noteq> RESOLVED"
    and v: "verify mid (case fx_txline (ms_fixture m) of None \<Rightarrow> -1 | Some t \<Rightarrow> tx_fixtureId t) sc = Inr True"
    and r_def: "r = resolveMatch uuid cfg verify mid sc src w"
  shows "fst r = Inr () \<and> sound uuid (snd r) \<and> game_money (snd r) = game_money w \<and>
    \<not> unresolved (snd r) mid \<and> map_option ms_score (jm_get (rm_pots (w_rm (snd r))) mid) = Some (Some sc) \<and>
    (\<forall>mid k. calls_of (snd r) mid k = calls_of w mid k)"
proof -
  let ?ks = "map fst (ms_markets m)"
  have mok: "match_ok m" by (rule world_match_ok[OF sound_world[OF s] m(1)])
  define w1 where "w1 = (if ms_status m = OPEN then snd (lockMatch uuid mid w) else w)"
  obtain m1 where m1: "jm_get (rm_pots (w_rm w1)) mid = Some m1" "ms_status m1 \<noteq> RESOLVED" "map fst (ms_markets m1) = ?ks"
    and s1: "sound uuid w1" "game_money w1 = game_money w" "\<And>mid k. calls_of w1 mid k = calls_of w mid k"
  proof (cases "ms_status m = OPEN")
    case True
    note l = lockMatch_effect[OF s m(1) True]
    have "map fst (ms_markets (lock_match m)) = ?ks"
      by (simp add: lock_match_def comp_def case_prod_beta)
    then show ?thesis using l True by (intro that[of "lock_match m"]) (simp_all add: w1_def)
  next
    case False
    with m s show ?thesis by (intro that[of m]) (simp_all add: w1_def)
  qed
  define mw where "mw = toMatchView m"
  have mw: "getMatch (rm_pots (w_rm w)) mid = Some mw" "mw_status mw = ms_status m" "mw_fixture mw = ms_fixture m"
    "map mv_marketId (mw_markets mw) = ?ks"
    using match_keys(1)[OF mok] m(1) by (simp_all add: mw_def getMatch_def) (simp_all add: toMatchView_def)
  let ?oc = "resolveOutcomes (map (\<lambda>mv. (mv_marketId mv, mv_line mv)) (mw_markets mw)) sc"
  let ?ev = "\<lparr>mr_matchId = mid, mr_score = sc, mr_outcomes = ?oc, mr_source = src\<rparr>"
  let ?w2 = "match_after uuid mid [MatchResolved ?ev] w1"
  have ev: "mr_matchId ?ev = mid" by simp
  note rb = resolved_books[OF s1(1) m1(1,2) ev]
  let ?f = "\<lambda>k. settleMarket uuid cfg mid k (case jm_get ?oc k of None \<Rightarrow> VOID | Some oc \<Rightarrow> oc)"
  let ?r3 = "run_seq ?f ?ks ?w2"
  have b2: "books_ok uuid (\<lambda>mid' k'. if mid' = mid then k' \<in> set ?ks else unresolved ?w2 mid') ?w2"
    using rb(1) unfolding m1(3) .
  note st = settle_markets_books[OF b2 rk match_keys(2)[OF mok], where r = ?r3
      and oc = "\<lambda>k. case jm_get ?oc k of None \<Rightarrow> VOID | Some oc \<Rightarrow> oc", OF refl]
  have un3: "unresolved (snd ?r3) k = unresolved ?w2 k" for k using st by blast
  have "sound uuid (snd ?r3)"
  proof -
    have "(\<lambda>mid' k'. if mid' = mid then False else unresolved ?w2 mid') = (\<lambda>mid' k :: market_id. unresolved (snd ?r3) mid')"
      using rb(2) un3 by (auto simp: fun_eq_iff)
    with st show ?thesis unfolding sound_def by (elim conjE) (simp only:)
  qed
  note c4 = settleChallengesForMatch_sound[OF this rk, of mid sc]
  have "r = settleChallengesForMatch uuid cfg mid sc (snd ?r3)"
  proof -
    have lk: "(if ms_status m = OPEN then lockMatch uuid mid w else (Inr (), w)) = (Inr (), w1)"
      using lockMatch_effect[OF s m(1)] by (cases "lockMatch uuid mid w") (simp add: w1_def)
    have ma: "matchAppend uuid mid [MatchResolved ?ev] w1 = (Inr (), ?w2)"
      by (rule matchAppend_eq[OF sound_world[OF s1(1)]])
    have "fst ?r3 = Inr ()" using st by (elim conjE)
    from and_then_ok[OF this, of "\<lambda>_. settleChallengesForMatch uuid cfg mid sc"]
    have "and_then ?r3 (\<lambda>_. settleChallengesForMatch uuid cfg mid sc) = settleChallengesForMatch uuid cfg mid sc (snd ?r3)" .
    then show ?thesis
      using m(2) unfolding r_def resolveMatch_def
      by (simp only: mw option.case lk v and_then.simps Let_def ma if_False sum.case bool.case)
  qed
  then show ?thesis
    using c4 st rb(2-5) s1(2,3) un3[of mid] unfolding unresolved_def by simp
qed

lemma resolveMatch_refused:
  assumes "\<And>m. getMatch (rm_pots (w_rm w)) mid = Some m \<Longrightarrow> mw_status m \<noteq> RESOLVED \<Longrightarrow>
      verify mid (case fx_txline (mw_fixture m) of None \<Rightarrow> -1 | Some t \<Rightarrow> tx_fixtureId t) sc \<noteq> Inr True"
  shows "snd (resolveMatch uuid cfg verify mid sc src w) = w"
proof (cases "getMatch (rm_pots (w_rm w)) mid")
  case None
  then show ?thesis by (simp add: resolveMatch_def)
next
  case (Some m)
  show ?thesis
  proof (cases "verify mid (case fx_txline (mw_fixture m) of None \<Rightarrow> -1 | Some t \<Rightarrow> tx_fixtureId t) sc")
    case (Inr b)
    then show ?thesis using Some assms[of m] by (cases b) (auto simp: resolveMatch_def)
  qed (use Some in \<open>simp add: resolveMatch_def\<close>)
qed

section \<open>Operations that keep the books and the money\<close>

definition keeps :: "uuids \<Rightarrow> (world \<Rightarrow> world) \<Rightarrow> bool" where
  "keeps uuid f \<longleftrightarrow> (\<forall>w. sound uuid w \<longrightarrow> sound uuid (f w) \<and> game_money (f w) = game_money w)"

lemma keepsD: "keeps uuid f \<Longrightarrow> sound uuid w \<Longrightarrow> sound uuid (f w) \<and> game_money (f w) = game_money w"
  by (simp add: keeps_def)

lemma keeps_id [simp]: "keeps uuid (\<lambda>w. w)"
  by (simp add: keeps_def)

lemma keeps_and_then:
  assumes "keeps uuid (\<lambda>w. snd (f w))" "\<And>x. keeps uuid (\<lambda>w. snd (k x w))"
  shows "keeps uuid (\<lambda>w. snd (and_then (f w) k))"
  unfolding keeps_def
proof (intro allI impI)
  fix w
  assume s: "sound uuid w"
  obtain r w1 where f: "f w = (r, w1)" by (cases "f w")
  have w1: "sound uuid w1 \<and> game_money w1 = game_money w" using keepsD[OF assms(1) s] f by simp
  show "sound uuid (snd (and_then (f w) k)) \<and> game_money (snd (and_then (f w) k)) = game_money w"
    using w1 f keepsD[OF assms(2), of w1] by (cases r) simp_all
qed

lemma keeps_run_seq: "(\<And>x. keeps uuid (\<lambda>w. snd (f x w))) \<Longrightarrow> keeps uuid (\<lambda>w. snd (run_seq f xs w))"
  by (induction xs) (simp_all add: keeps_and_then)

text \<open>The arguments of an operation may be read from the world it runs on.\<close>

lemma keeps_read:
  "(\<And>v. keeps uuid (\<lambda>w. snd (f v w))) \<Longrightarrow> keeps uuid (\<lambda>w. snd (f (g w) w))"
  by (simp add: keeps_def)

lemma keeps_lockMatch: "keeps uuid (\<lambda>w. snd (lockMatch uuid mid w))"
proof -
  have "game_money (snd (lockMatch uuid mid w)) = game_money w" if "sound uuid w" for w
    using sound_world[OF that]
    by (auto simp: lockMatch_def matchAppend_eq game_money_def match_event_frame simp del: match_after_fields(3) split: option.split)
  then show ?thesis by (simp add: keeps_def lockMatch_sound)
qed

lemma keeps_sync_fixture: "keeps uuid (\<lambda>w. snd (sync_fixture uuid f w))"
proof -
  have "game_money (snd (openMatch uuid f ms w)) = game_money w" "game_money (snd (reconcileMarkets uuid f w)) = game_money w"
    if "sound uuid w" for w ms
    using sound_world[OF that]
    by (auto simp: openMatch_def reconcileMarkets_def Let_def matchAppend_eq game_money_def match_event_frame
        simp del: match_after_fields(3) split: option.split sum.split)
  then show ?thesis unfolding sync_fixture_def
    by (intro keeps_and_then) (simp_all add: keeps_def openMatch_sound reconcileMarkets_sound)
qed

lemma keeps_resolveMatch:
  assumes "rake_ok (gc_rakeBps cfg)"
  shows "keeps uuid (\<lambda>w. snd (resolveMatch uuid cfg verify mid sc src w))"
  unfolding keeps_def
proof (intro allI impI)
  fix w
  assume s: "sound uuid w"
  show "sound uuid (snd (resolveMatch uuid cfg verify mid sc src w)) \<and>
      game_money (snd (resolveMatch uuid cfg verify mid sc src w)) = game_money w"
  proof (cases "\<exists>m. jm_get (rm_pots (w_rm w)) mid = Some m \<and> ms_status m \<noteq> RESOLVED \<and>
      verify mid (case fx_txline (ms_fixture m) of None \<Rightarrow> -1 | Some t \<Rightarrow> tx_fixtureId t) sc = Inr True")
    case True
    then show ?thesis using resolveMatch_confirmed[OF s assms _ _ _ refl] by blast
  next
    case False
    then have "snd (resolveMatch uuid cfg verify mid sc src w) = w"
      by (intro resolveMatch_refused) (auto simp: getMatch_def toMatchView_def)
    with s show ?thesis by simp
  qed
qed

lemma keeps_settleChallenges:
  "rake_ok (gc_rakeBps cfg) \<Longrightarrow> keeps uuid (\<lambda>w. snd (settleChallengesForMatch uuid cfg mid sc w))"
  by (simp add: keeps_def settleChallengesForMatch_sound)

lemma keeps_if: "keeps uuid (\<lambda>w. snd (f w)) \<Longrightarrow> keeps uuid (\<lambda>w. snd (if P then f w else (Inr (), w)))"
  by (cases P) simp_all

lemma keeps_tick:
  assumes "rake_ok (gc_rakeBps cfg)"
  shows "keeps uuid (\<lambda>w. snd (tick uuid cfg verify fetchResults now w))"
proof -
  let ?lock = "\<lambda>m w. if mw_status m = OPEN \<and> fx_kickoff (mw_fixture m) \<le> now
      then lockMatch uuid (fx_matchId (mw_fixture m)) w else (Inr (), w)"
  let ?res = "\<lambda>r w. if re_finished r then resolveMatch uuid cfg verify (re_matchId r) (re_score r) ''matchdata'' w else (Inr (), w)"
  let ?late = "\<lambda>m w. case (mw_status m, mw_score m) of
      (RESOLVED, Some sc) \<Rightarrow>
        if matchedFor (rm_challenges (w_rm w)) (fx_matchId (mw_fixture m)) \<noteq> []
        then settleChallengesForMatch uuid cfg (fx_matchId (mw_fixture m)) sc w else (Inr (), w)
    | _ \<Rightarrow> (Inr (), w)"
  have "keeps uuid (\<lambda>w. snd (run_seq ?lock ms w))" for ms
    by (intro keeps_run_seq keeps_if keeps_lockMatch)
  then have lock: "keeps uuid (\<lambda>w. snd (run_seq ?lock (allMatches (rm_pots (w_rm w))) w))"
    by (rule keeps_read)
  have res: "keeps uuid (\<lambda>w. snd (run_seq ?res rs w))" for rs
    by (intro keeps_run_seq keeps_if keeps_resolveMatch[OF assms])
  have "keeps uuid (\<lambda>w. snd (?late m w))" for m
    using keeps_settleChallenges[OF assms]
    by (cases "mw_status m"; cases "mw_score m") (auto simp: keeps_def)
  then have "keeps uuid (\<lambda>w. snd (run_seq ?late ms w))" for ms by (rule keeps_run_seq)
  then have late: "keeps uuid (\<lambda>w. snd (run_seq ?late (allMatches (rm_pots (w_rm w))) w))"
    by (rule keeps_read)
  have rest: "keeps uuid (\<lambda>w. snd (case v of
      Inl e \<Rightarrow> (Inl (OtherError e), w)
    | Inr rs \<Rightarrow> and_then (run_seq ?res rs w) (\<lambda>_ w. run_seq ?late (allMatches (rm_pots (w_rm w))) w)))" for v :: "string + match_result list"
  proof (cases v)
    case (Inr rs)
    show ?thesis unfolding Inr sum.case by (rule keeps_and_then[OF res late])
  qed simp
  show ?thesis unfolding tick_def
    by (rule keeps_and_then[OF lock keeps_read[where f = "\<lambda>v w. case v of
      Inl e \<Rightarrow> (Inl (OtherError e), w)
    | Inr rs \<Rightarrow> and_then (run_seq ?res rs w) (\<lambda>_ w. run_seq ?late (allMatches (rm_pots (w_rm w))) w)", OF rest]])
qed

section \<open>Any run of the engine\<close>

text \<open>The answers of the outside: the ports of the actors, the settlement verifier, the match data
  and the deposit gateway.\<close>

record engine_ports =
  ep_player :: ports
  ep_verify :: "match_id \<Rightarrow> int \<Rightarrow> score \<Rightarrow> string + bool"
  ep_fetchResults :: "match_id list \<Rightarrow> string + match_result list"
  ep_collect :: "(wallet \<Rightarrow> string + (frost \<times> string) list) option"

datatype engine_command =
  PlayerAct wallet player_command
| SeedHouse match_id
| SyncDeposits wallet
| CreateChallenge wallet challenge_input
| AcceptChallenge wallet challenge_id
| CancelChallenge wallet challenge_id
| SyncFixtures "fixture list"
| LockMatch match_id
| ResolveMatch match_id score string
| Tick int
| PassTime int

fun engine_exec :: "uuids \<Rightarrow> game_config \<Rightarrow> engine_ports \<Rightarrow> engine_command \<Rightarrow> world \<Rightarrow> world" where
  "engine_exec uuid cfg pt (PlayerAct u c) w = snd (exec uuid cfg (ep_player pt) u c w)"
| "engine_exec uuid cfg pt (SeedHouse mid) w = snd (seed uuid cfg mid w)"
| "engine_exec uuid cfg pt (SyncDeposits u) w =
     snd (syncDeposits uuid (pt_confirmDeposit (ep_player pt)) (ep_collect pt) u w)"
| "engine_exec uuid cfg pt (CreateChallenge u i) w = snd (createChallenge uuid cfg u i w)"
| "engine_exec uuid cfg pt (AcceptChallenge u cid) w = snd (acceptChallenge uuid cfg u cid w)"
| "engine_exec uuid cfg pt (CancelChallenge u cid) w = snd (cancelChallenge uuid u cid w)"
| "engine_exec uuid cfg pt (SyncFixtures fs) w = snd (syncFixtures uuid fs w)"
| "engine_exec uuid cfg pt (LockMatch mid) w = snd (lockMatch uuid mid w)"
| "engine_exec uuid cfg pt (ResolveMatch mid sc src) w = snd (resolveMatch uuid cfg (ep_verify pt) mid sc src w)"
| "engine_exec uuid cfg pt (Tick now) w = snd (tick uuid cfg (ep_verify pt) (ep_fetchResults pt) now w)"
| "engine_exec uuid cfg pt (PassTime t) w = w\<lparr>w_now := t\<rparr>"

fun engine_command_ok :: "engine_command \<Rightarrow> bool" where
  "engine_command_ok (PlayerAct u c) \<longleftrightarrow> plain_wallet u \<and> player_issued c \<and> command_ok c"
| "engine_command_ok (SyncDeposits u) \<longleftrightarrow> plain_wallet u"
| "engine_command_ok _ \<longleftrightarrow> True"

text \<open>The commands that only move money between the players and the Manager's Pot.\<close>

fun moves_only :: "engine_command \<Rightarrow> bool" where
  "moves_only (PlayerAct _ _) \<longleftrightarrow> False"
| "moves_only (SeedHouse _) \<longleftrightarrow> False"
| "moves_only (SyncDeposits _) \<longleftrightarrow> False"
| "moves_only _ \<longleftrightarrow> True"

lemma run_seq_sound:
  "(\<And>x w. sound uuid w \<Longrightarrow> sound uuid (snd (f x w))) \<Longrightarrow> sound uuid w \<Longrightarrow> sound uuid (snd (run_seq f xs w))"
proof (induction xs arbitrary: w)
  case (Cons x xs)
  obtain r w1 where f: "f x w = (r, w1)" by (cases "f x w")
  have "sound uuid w1" using Cons.prems(1)[OF Cons.prems(2), of x] f by simp
  then show ?case using Cons f by (cases r) simp_all
qed simp

lemma per_bot_nonneg: "config_ok cfg \<Longrightarrow> 0 \<le> per_bot (gc_house cfg)"
  by (simp add: per_bot_def config_ok_def pos_imp_zdiv_nonneg_iff)

lemma seed_sound:
  assumes s: "sound uuid w" and "inj uuid" "config_ok cfg"
  shows "sound uuid (snd (seed uuid cfg mid w))"
proof -
  have "sound uuid (snd (seed_bot uuid cfg mid i w))" if "sound uuid w" for i w
  proof -
    have f: "sound uuid (snd (ensureHouseFunded uuid (houseWallet i) (per_bot (gc_house cfg)) w))"
      using exec_sound[OF that plain_houseWallet assms(2,3), of "EnsureHouseFunded (per_bot (gc_house cfg))"]
        per_bot_nonneg[OF assms(3)] by simp
    show ?thesis using f makeCall_sound[OF _ plain_houseWallet assms(2,3)]
      by (auto simp: seed_bot_def Let_def split: prod.split sum.split) (metis snd_conv)
  qed
  with s show ?thesis
    by (auto simp: seed_def intro: run_seq_sound split: option.split)
qed

lemma syncDeposits_sound:
  assumes s: "sound uuid w" and u: "plain_wallet u" "inj uuid" "config_ok cfg"
  shows "sound uuid (snd (syncDeposits uuid confirm collect u w))"
proof -
  have dep: "sound uuid (snd (deposit uuid confirm u a r w))" if "sound uuid w" for a r w
    using that u(1) by (intro sound_quiet[OF that quiet_commands(2) deposit_ok]) (simp_all add: sound_world)
  have "sound uuid (snd (credit_sweeps uuid confirm u cs credited w))" if "sound uuid w" for cs credited w
    using that dep
    by (induction uuid confirm u cs credited w rule: credit_sweeps.induct)
      (auto split: prod.split sum.split, (metis snd_conv)+)
  with s show ?thesis
    by (auto simp: syncDeposits_def split: option.split sum.split prod.split) (metis snd_conv)
qed

lemma engine_exec_keeps:
  assumes "inj uuid" "config_ok cfg" "moves_only c"
  shows "keeps uuid (engine_exec uuid cfg pt c)"
proof -
  have rk: "rake_ok (gc_rakeBps cfg)" using assms(2) by (simp add: config_ok_def)
  have sync: "keeps uuid (\<lambda>w. snd (syncFixtures uuid fs w))" for fs
    unfolding syncFixtures_def by (intro keeps_run_seq keeps_sync_fixture)
  have time: "keeps uuid (\<lambda>w. w\<lparr>w_now := t\<rparr>)" for t
  proof -
    have "quiet w (w\<lparr>w_now := t\<rparr>)" for w by (simp add: quiet_def)
    then show ?thesis
      by (auto simp: keeps_def game_money_def players_money_def world_ok_time sound_world intro: sound_quiet)
  qed
  show ?thesis
    using assms(3) sync time keeps_lockMatch[of uuid] keeps_resolveMatch[OF rk, of uuid] keeps_tick[OF rk, of uuid]
      createChallenge_sound[OF _ assms(1,2)] acceptChallenge_sound[OF _ assms(2)] cancelChallenge_sound
    by (cases c) (simp_all add: keeps_def)
qed

lemma engine_exec_sound:
  assumes "sound uuid w" "inj uuid" "config_ok cfg" "engine_command_ok c"
  shows "sound uuid (engine_exec uuid cfg pt c w)"
proof (cases "moves_only c")
  case True
  then show ?thesis using keepsD[OF engine_exec_keeps[OF assms(2,3)] assms(1)] by blast
next
  case False
  then show ?thesis
    using assms exec_sound[OF assms(1) _ assms(2,3)] seed_sound[OF assms(1-3)] syncDeposits_sound[OF assms(1) _ assms(2,3)]
    by (cases c) simp_all
qed

lemma engine_fold_sound:
  assumes "inj uuid" "config_ok cfg"
  shows "sound uuid w \<Longrightarrow> list_all engine_command_ok cs \<Longrightarrow> sound uuid (fold (engine_exec uuid cfg pt) cs w)"
  by (induction cs arbitrary: w) (simp_all add: engine_exec_sound[OF _ assms])

text \<open>Ann, Bob and Cy with nine million each and an open match.\<close>

definition sample_eports :: engine_ports where
  "sample_eports = \<lparr>ep_player = sample_ports, ep_verify = (\<lambda>mid fid sc. Inr (sc_home sc < 9)),
     ep_fetchResults = (\<lambda>ms. Inr []), ep_collect = None\<rparr>"

definition sample_setup :: "engine_command list" where
  "sample_setup =
    [PlayerAct ''ann'' (SignContract None), PlayerAct ''ann'' (Deposit 9000000 (Some ''d1'')),
     PlayerAct ''bob'' (SignContract None), PlayerAct ''bob'' (Deposit 9000000 (Some ''d2'')),
     PlayerAct ''cy'' (SignContract None), PlayerAct ''cy'' (Deposit 9000000 (Some ''d3'')),
     SyncFixtures [sample_fixture]]"

definition sample_run :: "engine_command list \<Rightarrow> world" where
  "sample_run cs = fold (engine_exec sample_uuid default_config sample_eports) (sample_setup @ cs) (boot [] 0 0)"

definition sample_bets :: "engine_command list" where
  "sample_bets = [PlayerAct ''ann'' (MakeCall (sample_input HOME 1000000)),
     PlayerAct ''bob'' (MakeCall (sample_input AWAY 2000000)),
     PlayerAct ''cy'' (MakeCall (sample_input HOME 1000000))]"

definition away_win :: score where
  "away_win = \<lparr>sc_home = 0, sc_away = 1\<rparr>"

lemma sample_run_sound: "list_all engine_command_ok cs \<Longrightarrow> sound sample_uuid (sample_run cs)"
  unfolding sample_run_def
  by (rule engine_fold_sound[OF inj_sample_uuid default_config_ok sound_boot]) (simp add: sample_setup_def)

section \<open>What the engine promises\<close>

text \<open>C1: The books always agree. After any sequence of player commands and engine operations on
  an empty store, each run to its end, every call recorded in a market holds exactly its stake
  in its caller's file as long as its match is not resolved, and nothing once it is; every
  call stake in a file is a call of some market; and a file holds a stake for a challenge
  exactly when its owner is a party of it while it is open or matched.\<close>

theorem books_always_agree:
  assumes "inj uuid" "config_ok cfg" "list_all engine_command_ok cs"
    and run: "w = fold (engine_exec uuid cfg pt) cs (boot [] n now)"
  shows "(\<forall>mid k. \<forall>c \<in> set (calls_of w mid k).
       call_slot w c = (if unresolved w mid then Some (ck_stake c) else None)) \<and>
    (\<forall>u cid. held w u (CallSlot cid) \<noteq> None \<longrightarrow>
       (\<exists>mid k. \<exists>c \<in> set (calls_of w mid k). ck_wallet c = u \<and> ck_callId c = cid)) \<and>
    (\<forall>u cid. held w u (StakeSlot cid) = stake_due (rm_challenges (w_rm w)) u cid)"
proof -
  have s: "sound uuid w" unfolding run by (rule engine_fold_sound[OF assms(1,2) sound_boot assms(3)])
  then have cb: "calls_booked uuid (\<lambda>mid k. unresolved w mid) w" by (simp add: sound_def books_ok_def)
  show ?thesis
    using calls_booked_dest(3)[OF cb] calls_booked_known[OF cb] sound_stakes[OF s] by blast
qed

theorem books_always_agree_witness:
  "map (call_slot (sample_run sample_bets)) (calls_of (sample_run sample_bets) ''m1'' RESULT_MARKET) =
    map (\<lambda>c. Some (ck_stake c)) (calls_of (sample_run sample_bets) ''m1'' RESULT_MARKET) \<and>
   length (calls_of (sample_run sample_bets) ''m1'' RESULT_MARKET) = 3"
proof -
  have ok: "list_all engine_command_ok (sample_setup @ sample_bets)"
    by (simp add: sample_setup_def sample_bets_def)
  have "unresolved (sample_run sample_bets) ''m1''"
    and l: "length (calls_of (sample_run sample_bets) ''m1'' RESULT_MARKET) = 3" by code_simp+
  moreover have "sample_run sample_bets = fold (engine_exec sample_uuid default_config sample_eports)
      (sample_setup @ sample_bets) (boot [] 0 0)" by (simp only: sample_run_def)
  ultimately show ?thesis
    using books_always_agree[OF inj_sample_uuid default_config_ok ok] by simp
qed

text \<open>C2: Moving money between players neither makes nor loses any. From a sound world, under an
  acceptable configuration, any sequence of opening, locking and resolving matches, settling
  markets and challenges, the tick, and creating, accepting or cancelling a challenge, each
  run to its end before the next starts, leaves the world sound and the total of all players'
  money (free, bonus and staked) and the Manager's Pot unchanged: what a settlement takes from
  the losers is exactly what it pays the winners plus the rake. The commands that bring money
  in or out (a player's own commands, seeding the house, crediting swept deposits) are not
  among them, and requests that interleave inside one challenge can break the law
  (\<open>challenge_races\<close>).\<close>

theorem engine_conserves_money:
  assumes "sound uuid w" "inj uuid" "config_ok cfg" "list_all moves_only cs"
  shows "sound uuid (fold (engine_exec uuid cfg pt) cs w) \<and> game_money (fold (engine_exec uuid cfg pt) cs w) = game_money w"
  using assms(1,4)
proof (induction cs arbitrary: w)
  case (Cons c cs)
  have "sound uuid (engine_exec uuid cfg pt c w) \<and> game_money (engine_exec uuid cfg pt c w) = game_money w"
    using Cons.prems by (intro keepsD[OF engine_exec_keeps[OF assms(2,3)]]) simp_all
  with Cons show ?case by simp
qed simp

theorem engine_conserves_money_witness:
  "game_money (sample_run (sample_bets @ [Tick 2000, ResolveMatch ''m1'' away_win ''feed''])) = 27000000 \<and>
   0 < rm_managersPot (w_rm (sample_run (sample_bets @ [Tick 2000, ResolveMatch ''m1'' away_win ''feed''])))"
proof -
  have "sound sample_uuid (sample_run sample_bets)" by (rule sample_run_sound) (simp add: sample_bets_def)
  moreover have "list_all moves_only [Tick 2000, ResolveMatch ''m1'' away_win ''feed'']" by simp
  ultimately have "game_money (fold (engine_exec sample_uuid default_config sample_eports)
      [Tick 2000, ResolveMatch ''m1'' away_win ''feed''] (sample_run sample_bets)) = game_money (sample_run sample_bets)"
    using engine_conserves_money[OF _ inj_sample_uuid default_config_ok] by blast
  moreover have "game_money (sample_run sample_bets) = 27000000" by code_simp
  moreover have "0 < rm_managersPot (w_rm (sample_run (sample_bets @ [Tick 2000, ResolveMatch ''m1'' away_win ''feed''])))"
    by code_simp
  ultimately show ?thesis by (simp add: sample_run_def)
qed

text \<open>C3: Nothing settles without confirmation, and a confirmed result settles everything. On a
  match that is not yet resolved, resolving does nothing at all unless the verifier answers
  that the score is confirmed; if it does, the operation succeeds, the match is resolved with
  that score, and no call on it holds money any more.\<close>

theorem settlement_gate:
  assumes s: "sound uuid w" and cfg: "config_ok cfg"
    and m: "jm_get (rm_pots (w_rm w)) mid = Some m" "ms_status m \<noteq> RESOLVED"
  defines "answer \<equiv> \<lambda>verify. verify mid (case fx_txline (ms_fixture m) of None \<Rightarrow> -1 | Some t \<Rightarrow> tx_fixtureId t)"
    and "r \<equiv> \<lambda>verify sc src. resolveMatch uuid cfg verify mid sc src w"
  shows "(answer verify sc \<noteq> Inr True \<longrightarrow> snd (r verify sc src) = w) \<and>
    (answer verify sc = Inr True \<longrightarrow> fst (r verify sc src) = Inr () \<and>
      (\<exists>m'. jm_get (rm_pots (w_rm (snd (r verify sc src)))) mid = Some m' \<and> ms_status m' = RESOLVED \<and> ms_score m' = Some sc) \<and>
      (\<forall>k. \<forall>c \<in> set (calls_of w mid k). call_slot (snd (r verify sc src)) c = None))"
proof (intro conjI impI)
  assume "answer verify sc \<noteq> Inr True"
  then show "snd (r verify sc src) = w"
    unfolding r_def answer_def using m by (intro resolveMatch_refused) (auto simp: getMatch_def toMatchView_def)
next
  assume v: "answer verify sc = Inr True"
  have rk: "rake_ok (gc_rakeBps cfg)" using cfg by (simp add: config_ok_def)
  have req: "r verify sc src = resolveMatch uuid cfg verify mid sc src w" by (simp add: r_def)
  note c = resolveMatch_confirmed[where verify = verify and sc = sc and src = src,
      OF s rk m v[unfolded answer_def] req]
  show "fst (r verify sc src) = Inr ()" using c by blast
  show "\<exists>m'. jm_get (rm_pots (w_rm (snd (r verify sc src)))) mid = Some m' \<and> ms_status m' = RESOLVED \<and> ms_score m' = Some sc"
    using c by (auto simp: unresolved_def split: option.splits)
  have cb: "calls_booked uuid (\<lambda>mid k. unresolved (snd (r verify sc src)) mid) (snd (r verify sc src))"
    using c by (simp add: sound_def books_ok_def)
  show "\<forall>k. \<forall>c \<in> set (calls_of w mid k). call_slot (snd (r verify sc src)) c = None"
    using calls_booked_dest(3)[OF cb] c by simp
qed

theorem settlement_gate_witness:
  "snd (resolveMatch sample_uuid default_config (ep_verify sample_eports) ''m1'' \<lparr>sc_home = 9, sc_away = 0\<rparr> ''feed''
      (sample_run sample_bets)) = sample_run sample_bets \<and>
   fst (resolveMatch sample_uuid default_config (ep_verify sample_eports) ''m1'' away_win ''feed''
      (sample_run sample_bets)) = Inr ()"
proof -
  have s: "sound sample_uuid (sample_run sample_bets)" by (rule sample_run_sound) (simp add: sample_bets_def)
  have "map_option ms_status (jm_get (rm_pots (w_rm (sample_run sample_bets))) ''m1'') = Some OPEN" by code_simp
  then obtain m where m: "jm_get (rm_pots (w_rm (sample_run sample_bets))) ''m1'' = Some m" "ms_status m \<noteq> RESOLVED"
    by auto
  show ?thesis
    using settlement_gate[OF s default_config_ok m, of "ep_verify sample_eports" away_win "''feed''"]
      settlement_gate[OF s default_config_ok m, of "ep_verify sample_eports" "\<lparr>sc_home = 9, sc_away = 0\<rparr>" "''feed''"]
    by (simp add: sample_eports_def away_win_def)
qed

section \<open>Two requests at once\<close>

text \<open>Ann's open challenge on a home win, at one million.\<close>

definition sample_dare :: world where
  "sample_dare = sample_run [CreateChallenge ''ann'' \<lparr>hi_matchId = ''m1'', hi_side = HOME, hi_stake = 1000000,
     hi_opponentSide = None\<rparr>]"

definition sample_cid :: challenge_id where
  "sample_cid = ''chg_7''"

definition take_check :: "wallet \<Rightarrow> world \<Rightarrow> challenge_view option" where
  "take_check u w = (case accept_check u sample_cid w of Inl f \<Rightarrow> None | Inr ch \<Rightarrow> Some ch)"

definition take_lock :: "wallet \<Rightarrow> challenge_view option \<Rightarrow> world \<Rightarrow> world" where
  "take_lock u ch w = (case ch of None \<Rightarrow> w | Some c \<Rightarrow> snd (accept_lock sample_uuid default_config u c sample_cid w))"

definition take_commit :: "wallet \<Rightarrow> world \<Rightarrow> challenge_id outcome_of" where
  "take_commit u w = accept_commit sample_uuid u sample_cid w"

definition sample_resolve :: "world \<Rightarrow> world" where
  "sample_resolve w = engine_exec sample_uuid default_config sample_eports (ResolveMatch ''m1'' away_win ''feed'') w"

text \<open>Two requests on one challenge can break the books, because the stake is locked between
  the check and the append, and the append is made under the version the engine itself
  remembers, so it never conflicts. If the creator's cancellation completes after the taker's
  check, both requests succeed, the refunded creator still plays, and settling the challenge
  makes a million out of nothing. If two takers pass the check, both accepts succeed, the
  second replaces the first, and the first taker's stake stays locked after the settlement.\<close>

theorem challenge_races:
  "(let ch = take_check ''bob'' sample_dare;
        w1 = take_lock ''bob'' ch sample_dare;
        cancel = cancelChallenge sample_uuid ''ann'' sample_cid w1;
        commit = take_commit ''bob'' (snd cancel)
    in fst cancel = Inr () \<and> fst commit = Inr sample_cid \<and>
       game_money (sample_resolve (snd commit)) = game_money sample_dare + 1000000) \<and>
   (let bob = take_check ''bob'' sample_dare; cy = take_check ''cy'' sample_dare;
        w1 = take_lock ''cy'' cy (take_lock ''bob'' bob sample_dare);
        first = take_commit ''bob'' w1;
        second = take_commit ''cy'' (snd first);
        w2 = sample_resolve (snd second)
    in fst first = Inr sample_cid \<and> fst second = Inr sample_cid \<and>
       map_option cw_status (jm_get (rm_challenges (w_rm w2)) sample_cid) = Some C_SETTLED \<and>
       held w2 ''bob'' (StakeSlot sample_cid) = Some 1000000)"
proof -
  have a: "let ch = take_check ''bob'' sample_dare;
        w1 = take_lock ''bob'' ch sample_dare;
        cancel = cancelChallenge sample_uuid ''ann'' sample_cid w1;
        commit = take_commit ''bob'' (snd cancel)
    in fst cancel = Inr () \<and> fst commit = Inr sample_cid \<and>
       game_money (sample_resolve (snd commit)) = game_money sample_dare + 1000000" by code_simp
  have b: "let bob = take_check ''bob'' sample_dare; cy = take_check ''cy'' sample_dare;
        w1 = take_lock ''cy'' cy (take_lock ''bob'' bob sample_dare);
        first = take_commit ''bob'' w1;
        second = take_commit ''cy'' (snd first);
        w2 = sample_resolve (snd second)
    in fst first = Inr sample_cid \<and> fst second = Inr sample_cid \<and>
       map_option cw_status (jm_get (rm_challenges (w_rm w2)) sample_cid) = Some C_SETTLED \<and>
       held w2 ''bob'' (StakeSlot sample_cid) = Some 1000000" by code_simp
  show ?thesis by (intro conjI a b)
qed

section \<open>The house\<close>

text \<open>The house risks no more than its cap. The bankrolls of all its bots together are within
  the liquidity cap, and a bot is funded once: after a funding has been run, running it again,
  with any amount, in that world changes nothing.\<close>

theorem house_exposure:
  assumes ok: "world_ok uuid w" and cfg: "config_ok cfg"
  shows "int (hc_botCount (gc_house cfg)) * per_bot (gc_house cfg) \<le> hc_liquidityCap (gc_house cfg) \<and>
    (let w1 = snd (ensureHouseFunded uuid (houseWallet i) amount w)
     in ensureHouseFunded uuid (houseWallet i) amount' w1 = (Inr (), w1))"
proof (intro conjI)
  let ?h = "gc_house cfg" and ?n = "int (hc_botCount (gc_house cfg))"
  let ?m = "int (max 1 (hc_botCount (gc_house cfg)))"
  have cap: "0 \<le> hc_liquidityCap ?h" using cfg by (simp add: config_ok_def)
  have pb: "per_bot ?h \<le> hc_liquidityCap ?h div ?m" using cap by (simp add: per_bot_def)
  have "?n * per_bot ?h \<le> ?m * per_bot ?h"
    using per_bot_nonneg[OF cfg] by (intro mult_right_mono) simp_all
  also have "\<dots> \<le> ?m * (hc_liquidityCap ?h div ?m)" using pb by (intro mult_left_mono) simp_all
  also have "\<dots> \<le> hc_liquidityCap ?h" using cap by (metis minus_mod_eq_mult_div pos_mod_sign diff_ge_0_iff_ge
      diff_le_eq le_add_same_cancel1 max.cobounded1 of_nat_0_less_iff zero_less_one less_le_trans)
  finally show "?n * per_bot ?h \<le> hc_liquidityCap ?h" .
next
  let ?u = "houseWallet i"
  let ?ps = "\<lambda>w a. (if list_ex (is_payload is_signing) (stream_of (playerStream ?u) (w_log w)) then []
      else [PlayerSigned ?u (Some ''The House'')]) @
      (if list_ex (is_payload is_seeding) (stream_of (playerStream ?u) (w_log w)) then [] else [HouseSeeded a])"
  have run: "ensureHouseFunded uuid ?u a w = (if ?ps w a = [] then (Inr (), w) else actor_append uuid ?u (?ps w a) w)" for a w
    unfolding ensureHouseFunded_def Let_def ..
  let ?w1 = "snd (ensureHouseFunded uuid ?u amount w)"
  have "stream_of (playerStream ?u) (w_log ?w1) = stream_of (playerStream ?u) (w_log w) @
      appended uuid (playerStream ?u) (map PlayerE (?ps w amount)) w"
    unfolding run actor_append_eq[OF ok] by (simp add: appended_def)
  then have "?ps ?w1 amount' = []"
    by (auto simp: appended_def mk_stored_Cons is_payload_def is_signing_def is_seeding_def)
  then show "let w1 = ?w1 in ensureHouseFunded uuid ?u amount' w1 = (Inr (), w1)"
    unfolding Let_def run[of amount' ?w1] by (rule if_P)
qed

theorem house_exposure_witness:
  "int (hc_botCount (gc_house default_config)) * per_bot (gc_house default_config) \<le> 30000000 \<and>
   map_option ds_balance (dossier_of (snd (ensureHouseFunded sample_uuid (houseWallet 0) 5
     (snd (ensureHouseFunded sample_uuid (houseWallet 0) 10000000 sample_ann)))) (houseWallet 0)) = Some 10000000"
proof -
  have "map_option ds_balance (dossier_of (snd (ensureHouseFunded sample_uuid (houseWallet 0) 10000000 sample_ann))
    (houseWallet 0)) = Some 10000000" by code_simp
  moreover have "hc_liquidityCap (gc_house default_config) = 30000000" by (simp add: default_config_def)
  ultimately show ?thesis
    using house_exposure[OF sample_ann_ok default_config_ok, of 0 10000000 5] by (simp add: Let_def)
qed

end
