(* ===== verification/Memory.thy ===== *)
theory Memory
  imports World "HOL-Library.List_Lexorder" "HOL-Library.Product_Lexorder" "HOL-Library.Char_ord"
begin

text \<open>
  The semantic memory (\<open>src/core/memory\<close>) and its two writers: \<open>engine/MemoryWriter.ts\<close>, which
  turns a player's events into sentences in the player's namespace, and
  \<open>engine/WalrusLedgerMirror.ts\<close>, which copies the events that move money into a ledger
  namespace and recovers them. The text codec of the mirror (a package) is a parameter. The
  lemmas show that the recovered events refold to the same money, and when they do not.
\<close>

section \<open>Memory stores\<close>

datatype memory_kind = K_call | K_result | K_hot_take | K_trait | K_milestone | K_verdict | K_ledger

record memory_record =
  mm_text :: string
  mm_kind :: memory_kind
  mm_at :: int
  mm_tags :: "string list"

type_synonym memories = "(string, memory_record list) jmap"

definition records_of :: "memories \<Rightarrow> string \<Rightarrow> memory_record list" where
  "records_of m ns = (case jm_get m ns of None \<Rightarrow> [] | Some rs \<Rightarrow> rs)"

definition remember :: "string \<Rightarrow> memory_record \<Rightarrow> memories \<Rightarrow> memories option" where
  "remember ns r m = Some (jm_set ns (records_of m ns @ [r]) m)"

definition timeline :: "memories \<Rightarrow> string \<Rightarrow> nat \<Rightarrow> memory_record list" where
  "timeline m ns limit = take limit (sort_key (\<lambda>r. - mm_at r) (records_of m ns))"

definition restore_count :: "memories \<Rightarrow> string \<Rightarrow> nat" where
  "restore_count m ns = length (records_of m ns)"

text \<open>What a writer needs of a store: a write that is accepted shows up in the timeline of its
  namespace, in any order, as long as the limit leaves room; no other namespace changes.\<close>

locale memory_store =
  fixes store :: "string \<Rightarrow> memory_record \<Rightarrow> 'm \<Rightarrow> 'm option"
    and recent :: "'m \<Rightarrow> string \<Rightarrow> nat \<Rightarrow> memory_record list"
    and size_of :: "'m \<Rightarrow> string \<Rightarrow> nat"
  assumes write_same: "store ns r m = Some m' \<Longrightarrow> size_of m' ns \<le> n \<Longrightarrow>
      mset (recent m' ns n) = add_mset r (mset (recent m ns n))"
    and write_size: "store ns r m = Some m' \<Longrightarrow> size_of m' ns = Suc (size_of m ns)"
    and write_other: "store ns r m = Some m' \<Longrightarrow> i \<noteq> ns \<Longrightarrow> recent m' i n = recent m i n"
    and recent_size: "size_of m ns \<le> n \<Longrightarrow> length (recent m ns n) = size_of m ns"
begin

fun write_all :: "string \<Rightarrow> memory_record list \<Rightarrow> 'm \<Rightarrow> 'm option" where
  "write_all ns [] m = Some m"
| "write_all ns (r # rs) m = (case store ns r m of None \<Rightarrow> None | Some m' \<Rightarrow> write_all ns rs m')"

lemma write_all_size: "write_all ns rs m = Some m' \<Longrightarrow> size_of m' ns = length rs + size_of m ns"
  by (induction rs arbitrary: m) (auto split: option.splits simp: write_size)

lemma write_all_recent:
  "write_all ns rs m = Some m' \<Longrightarrow> size_of m ns + length rs \<le> n \<Longrightarrow>
    mset (recent m' ns n) = mset rs + mset (recent m ns n)"
proof (induction rs arbitrary: m)
  case (Cons r rs)
  then obtain m1 where m1: "store ns r m = Some m1" "write_all ns rs m1 = Some m'"
    by (auto split: option.splits)
  have "mset (recent m' ns n) = mset rs + mset (recent m1 ns n)"
    using Cons.prems(2) m1 by (intro Cons.IH) (simp_all add: write_size)
  moreover have "mset (recent m1 ns n) = add_mset r (mset (recent m ns n))"
    using Cons.prems(2) m1 by (intro write_same) (simp_all add: write_size)
  ultimately show ?case by simp
qed simp

lemma write_all_other: "write_all ns rs m = Some m' \<Longrightarrow> i \<noteq> ns \<Longrightarrow> recent m' i n = recent m i n"
  by (induction rs arbitrary: m) (auto split: option.splits simp: write_other)

end

lemma records_of_set [simp]: "records_of (jm_set ns rs m) i = (if i = ns then rs else records_of m i)"
  by (simp add: records_of_def)

interpretation in_memory: memory_store remember timeline restore_count
proof
  fix ns r m m' and n :: nat
  assume "remember ns r m = Some m'" and "restore_count m' ns \<le> n"
  then show "mset (timeline m' ns n) = add_mset r (mset (timeline m ns n))"
    by (auto simp: remember_def timeline_def restore_count_def)
next
  fix ns r m m'
  assume "remember ns r m = Some m'"
  then show "restore_count m' ns = Suc (restore_count m ns)"
    by (auto simp: remember_def restore_count_def)
next
  fix ns r m m' i and n :: nat
  assume "remember ns r m = Some m'" and "i \<noteq> ns"
  then show "timeline m' i n = timeline m i n" by (auto simp: remember_def timeline_def)
next
  fix m ns and n :: nat
  assume "restore_count m ns \<le> n"
  then show "length (timeline m ns n) = restore_count m ns"
    by (simp add: timeline_def restore_count_def)
qed

section \<open>The ledger mirror\<close>

definition LEDGER_EVENTS :: "string list" where
  "LEDGER_EVENTS = [''PlayerSigned'', ''Deposited'', ''Withdrawn'', ''WithdrawalInitiated'',
     ''WithdrawalSettled'', ''WithdrawalReversed'', ''WelcomeGranted'', ''HouseSeeded'', ''CallMade'',
     ''CallSettled'', ''CallVoided'', ''PotSettled'', ''ChallengeStakeLocked'',
     ''ChallengeStakeSettled'', ''ChallengeStakeRefunded'', ''ChallengeSettled'']"

definition is_ledger :: "stored_event \<Rightarrow> bool" where
  "is_ledger e \<longleftrightarrow> event_type (ev_payload e) \<in> set LEDGER_EVENTS"

definition ledger_record :: "(stored_event \<Rightarrow> string) \<Rightarrow> stored_event \<Rightarrow> memory_record" where
  "ledger_record encode e = \<lparr>mm_text = encode e, mm_kind = K_ledger, mm_at = ev_at e,
     mm_tags = [ev_streamId e, event_type (ev_payload e)]\<rparr>"

text \<open>One event of the store's subscription: what is not of the ledger is ignored, and a write
  that fails is reported and dropped. The number counts the writes that went through.\<close>

definition mirror_event :: "(string \<Rightarrow> memory_record \<Rightarrow> 'm \<Rightarrow> 'm option) \<Rightarrow> (stored_event \<Rightarrow> string) \<Rightarrow> string
    \<Rightarrow> stored_event \<Rightarrow> 'm \<times> nat \<Rightarrow> 'm \<times> nat" where
  "mirror_event store encode ns e mn =
     (case mn of (m, n) \<Rightarrow>
        if \<not> is_ledger e then (m, n)
        else (case store ns (ledger_record encode e) m of None \<Rightarrow> (m, n) | Some m' \<Rightarrow> (m', n + 1)))"

definition stream_version :: "stored_event \<Rightarrow> string \<times> nat" where
  "stream_version e = (ev_streamId e, ev_version e)"

definition recoverLedgerFromWalrus :: "('m \<Rightarrow> string \<Rightarrow> nat \<Rightarrow> memory_record list) \<Rightarrow> (string \<Rightarrow> stored_event option)
    \<Rightarrow> 'm \<Rightarrow> string \<Rightarrow> nat \<Rightarrow> stored_event list" where
  "recoverLedgerFromWalrus recent parse m ns limit =
     sort_key stream_version (List.map_filter (\<lambda>r. parse (mm_text r)) (recent m ns limit))"

subsection \<open>Recovery\<close>

text \<open>The part of a player's file that is money, rank or an open stake.\<close>

definition money_view :: "dossier_state \<Rightarrow> (frost \<times> frost \<times> frost \<times> frost \<times> int) \<times> (nat \<times> nat \<times> nat)
    \<times> (call_id, open_call) jmap \<times> (challenge_id, open_stake) jmap" where
  "money_view s = ((ds_balance s, ds_locked s, ds_bonus s, ds_pnl s, ds_gr s),
     (ds_won s, ds_lost s, ds_voided s), ds_openCalls s, ds_openStakes s)"

definition ledger_payload :: "player_event \<Rightarrow> bool" where
  "ledger_payload p \<longleftrightarrow> event_type (PlayerE p) \<in> set LEDGER_EVENTS"

lemma money_step_ignored: "\<not> ledger_payload p \<Longrightarrow> money_view (dossier_step tm p s) = money_view s"
  by (cases p) (simp_all add: ledger_payload_def LEDGER_EVENTS_def money_view_def)

lemma money_step_cong:
  assumes "money_view s = money_view t"
  shows "money_view (dossier_step tm p s) = money_view (dossier_step tm p t)"
  using assms by (cases p) (auto simp: money_view_def settle_call_step_def lock_funds_def Let_def
      split: option.splits)

definition money_of :: "dossiers \<Rightarrow> wallet \<Rightarrow> ((frost \<times> frost \<times> frost \<times> frost \<times> int) \<times> (nat \<times> nat \<times> nat)
    \<times> (call_id, open_call) jmap \<times> (challenge_id, open_stake) jmap) option" where
  "money_of ds u = map_option money_view (jm_get ds u)"

lemma money_of_ignored: "\<not> is_ledger e \<Longrightarrow> money_of (dossier_apply e ds) u = money_of ds u"
proof (cases "ev_payload e")
  case (PlayerE p)
  moreover assume "\<not> is_ledger e"
  ultimately have no: "\<not> ledger_payload p" "\<not> is_signing p"
    by (auto simp: is_ledger_def ledger_payload_def is_signing_iff LEDGER_EVENTS_def)
  show ?thesis unfolding dossier_apply_step[OF PlayerE no(2)]
    by (auto simp: money_of_def money_step_ignored[OF no(1)] split: option.splits)
qed (simp_all add: dossier_apply_other)

lemma money_map_cong:
  "map_option money_view a = map_option money_view b \<Longrightarrow>
    map_option money_view (map_option (dossier_step tm p) a) = map_option money_view (map_option (dossier_step tm p) b)"
  by (cases a; cases b) (auto intro: money_step_cong)

lemma money_new_cong:
  "map_option money_view a = map_option money_view b \<Longrightarrow>
    map_option money_view (case a of None \<Rightarrow> Some d | Some s \<Rightarrow> Some s) =
    map_option money_view (case b of None \<Rightarrow> Some d | Some s \<Rightarrow> Some s)"
  by (cases a; cases b) auto

lemma money_of_cong:
  assumes "money_of ds u = money_of dt u"
  shows "money_of (dossier_apply e ds) u = money_of (dossier_apply e dt) u"
  using assms money_map_cong[of "jm_get ds u" "jm_get dt u" "ev_at e"]
    money_new_cong[of "jm_get ds u" "jm_get dt u"]
  unfolding money_of_def dossier_apply_get
  by (simp split: domain_event.split player_event.split)

lemma money_of_fold_cong:
  "money_of ds u = money_of dt u \<Longrightarrow> money_of (fold dossier_apply lg ds) u = money_of (fold dossier_apply lg dt) u"
proof (induction lg arbitrary: ds dt)
  case (Cons e lg)
  from Cons.IH[OF money_of_cong[OF Cons.prems]] show ?case by (simp only: fold_simps)
qed (simp only: fold_simps)

text \<open>The events the mirror keeps are enough for the money.\<close>

lemma money_of_ledger:
  "money_of (fold dossier_apply (filter is_ledger lg) ds) u = money_of (fold dossier_apply lg ds) u"
proof (induction lg arbitrary: ds)
  case (Cons e lg)
  show ?case
  proof (cases "is_ledger e")
    case False
    have "money_of (fold dossier_apply (filter is_ledger lg) ds) u = money_of (fold dossier_apply lg ds) u"
      by (rule Cons.IH)
    also have "\<dots> = money_of (fold dossier_apply lg (dossier_apply e ds)) u"
      using money_of_ignored[OF False, of ds u] by (intro money_of_fold_cong) simp
    finally show ?thesis using False by (simp only: fold_simps filter.simps if_False)
  qed (use Cons.IH in \<open>simp only: fold_simps filter.simps if_True\<close>)
qed simp

lemma versions_of: "versions_ok lg \<Longrightarrow> sorted (map ev_version (stream_of s lg)) \<and> distinct (map ev_version (stream_of s lg))"
  by (simp add: versions_ok_def)

text \<open>Restricted to one stream, the recovered order is the order of the log.\<close>

lemma recovered_stream:
  assumes ok: "versions_ok lg" and perm: "mset xs = mset (filter is_ledger lg)"
  shows "stream_of s (sort_key stream_version xs) = filter is_ledger (stream_of s lg)"
proof -
  let ?ys = "filter is_ledger (stream_of s lg)"
  have on: "\<And>e. e \<in> set ?ys \<Longrightarrow> ev_streamId e = s" by (simp add: stream_of_def)
  have "stream_of s (sort_key stream_version xs) = sort_key stream_version (stream_of s xs)"
    by (simp add: stream_of_def filter_sort)
  also have "\<dots> = ?ys"
  proof (rule sort_key_inj_key_eq)
    have "mset (stream_of s xs) = filter_mset (\<lambda>e. ev_streamId e = s) (mset xs)" by (simp add: stream_of_def)
    then show "mset (stream_of s xs) = mset ?ys" by (simp add: perm stream_of_def filter_filter_mset conj_commute)
    then have set_eq: "set (stream_of s xs) = set ?ys" by (metis set_mset_mset)
    have "inj_on ev_version (set (stream_of s lg))"
      using versions_of[OF ok] by (simp add: distinct_map)
    then show "inj_on stream_version (set (stream_of s xs))"
      unfolding set_eq inj_on_def stream_version_def by auto
    have "sorted (map ev_version ?ys)"
      using versions_of[OF ok, of s] sorted_filter[of ev_version "stream_of s lg" is_ledger] by simp
    then show "sorted (map stream_version ?ys)"
      unfolding sorted_map by (rule sorted_wrt_mono_rel[rotated])
        (use on in \<open>simp add: stream_version_def less_eq_prod_def\<close>)
  qed
  finally show ?thesis .
qed

text \<open>In a well-formed log the events of a wallet's file are on the wallet's stream.\<close>

lemma owner_stream:
  assumes "event_placed (ev_streamId e) (ev_payload e)" "dossier_owner e = Some u"
  shows "streamWallet (ev_streamId e) = Some u"
  using assms by (auto simp: event_placed_def dossier_owner_def split: domain_event.splits
      player_event.splits option.splits)

lemma streamWallet_inj:
  "streamWallet s = Some u \<Longrightarrow> s = playerStream u"
  by (auto simp: streamWallet_def playerStream_def starts_with_iff Let_def split: if_splits)

lemma owned_in_stream:
  assumes "list_all (\<lambda>e. event_placed (ev_streamId e) (ev_payload e)) xs"
  shows "filter (\<lambda>e. dossier_owner e = Some u) xs =
    filter (\<lambda>e. dossier_owner e = Some u) (stream_of (playerStream u) xs)"
  using assms by (induction xs) (auto simp: stream_of_def dest: owner_stream streamWallet_inj)

lemma refold_recovered:
  assumes ok: "versions_ok lg" and placed: "list_all (\<lambda>e. event_placed (ev_streamId e) (ev_payload e)) lg"
    and perm: "mset xs = mset (filter is_ledger lg)"
  shows "money_of (fold dossier_apply (sort_key stream_version xs) []) u = money_of (fold dossier_apply lg []) u"
proof -
  let ?s = "playerStream u" and ?xs = "sort_key stream_version xs"
  have "set xs = set (filter is_ledger lg)" using perm by (metis set_mset_mset)
  then have placed': "list_all (\<lambda>e. event_placed (ev_streamId e) (ev_payload e)) ?xs"
    and placedf: "list_all (\<lambda>e. event_placed (ev_streamId e) (ev_payload e)) (filter is_ledger lg)"
    using placed by (auto simp: list_all_iff)
  have "filter (\<lambda>e. dossier_owner e = Some u) ?xs = filter (\<lambda>e. dossier_owner e = Some u) (stream_of ?s ?xs)"
    by (rule owned_in_stream[OF placed'])
  also have "\<dots> = filter (\<lambda>e. dossier_owner e = Some u) (stream_of ?s (filter is_ledger lg))"
    by (simp only: recovered_stream[OF ok perm]) (simp add: stream_of_def conj_commute)
  also have "\<dots> = filter (\<lambda>e. dossier_owner e = Some u) (filter is_ledger lg)"
    by (rule owned_in_stream[OF placedf, symmetric])
  finally have "jm_get (fold dossier_apply ?xs []) u = jm_get (fold dossier_apply (filter is_ledger lg) []) u"
    by (rule dossier.view_same_events)
  then have "money_of (fold dossier_apply ?xs []) u = money_of (fold dossier_apply (filter is_ledger lg) []) u"
    by (simp add: money_of_def)
  then show ?thesis by (simp add: money_of_ledger)
qed

context memory_store
begin

lemma mirror_write_all:
  "write_all ns (map (ledger_record encode) (filter is_ledger lg)) m = Some m' \<Longrightarrow>
    fold (mirror_event store encode ns) lg (m, n) = (m', n + length (filter is_ledger lg))"
proof (induction lg arbitrary: m n)
  case (Cons e lg)
  show ?case
  proof (cases "is_ledger e")
    case True
    with Cons.prems obtain m1 where m1: "store ns (ledger_record encode e) m = Some m1"
      "write_all ns (map (ledger_record encode) (filter is_ledger lg)) m1 = Some m'"
      by (auto split: option.splits)
    from Cons.IH[OF m1(2), of "n + 1"] True m1(1) show ?thesis by (simp add: mirror_event_def)
  next
    case False
    with Cons show ?thesis by (simp add: mirror_event_def)
  qed
qed simp

text \<open>When nothing was lost and the limit leaves room, the parsed records are the mirrored events.\<close>

lemma mirrored_records:
  assumes "write_all ns (map (ledger_record encode) (filter is_ledger lg)) m = Some m'"
    and "size_of m ns = 0" and "length (filter is_ledger lg) \<le> limit"
    and codec: "\<And>e. e \<in> set (filter is_ledger lg) \<Longrightarrow> parse (encode e) = Some e"
  shows "mset (List.map_filter (\<lambda>r. parse (mm_text r)) (recent m' ns limit)) = mset (filter is_ledger lg)"
proof -
  have "recent m ns limit = []" using recent_size[of m ns limit] assms(2) by simp
  then have perm: "mset (recent m' ns limit) = mset (map (ledger_record encode) (filter is_ledger lg))"
    using write_all_recent[OF assms(1), of limit] assms(2,3) by simp
  have reparse: "List.map_filter (\<lambda>r. parse (mm_text r)) (map (ledger_record encode) es) = es"
    if "\<And>e. e \<in> set es \<Longrightarrow> parse (encode e) = Some e" for es
    using that by (induction es) (simp_all add: ledger_record_def)
  have "mset (List.map_filter f xs) = image_mset (the \<circ> f) (filter_mset (\<lambda>x. f x \<noteq> None) (mset xs))"
    for f :: "memory_record \<Rightarrow> stored_event option" and xs
    by (simp add: map_filter_def)
  then have "mset (List.map_filter f xs) = mset (List.map_filter f ys)" if "mset xs = mset ys"
    for f :: "memory_record \<Rightarrow> stored_event option" and xs ys
    using that by simp
  moreover have "List.map_filter (\<lambda>r. parse (mm_text r)) (map (ledger_record encode) (filter is_ledger lg)) =
      filter is_ledger lg"
    by (rule reparse) (rule codec)
  ultimately show ?thesis using perm by metis
qed

lemma mirror_refolds:
  assumes "write_all ns (map (ledger_record encode) (filter is_ledger lg)) m = Some m'"
    and "size_of m ns = 0" and "length (filter is_ledger lg) \<le> limit"
    and "\<And>e. e \<in> set (filter is_ledger lg) \<Longrightarrow> parse (encode e) = Some e"
    and "versions_ok lg" "list_all (\<lambda>e. event_placed (ev_streamId e) (ev_payload e)) lg"
  shows "money_of (fold dossier_apply (recoverLedgerFromWalrus recent parse m' ns limit) []) u =
    money_of (fold dossier_apply lg []) u"
  unfolding recoverLedgerFromWalrus_def
  by (rule refold_recovered[OF assms(5,6) mirrored_records[OF assms(1-4)]])

end

lemma remember_all: "in_memory.write_all ns rs m \<noteq> None"
  by (induction rs arbitrary: m) (simp_all add: remember_def)

lemma mirror_recovers_money_parts:
  assumes "log_ok uuid n lg" and "records_of m ns = []" and "length (filter is_ledger lg) \<le> limit"
    and "list_all (\<lambda>e. parse (encode e) = Some e) (filter is_ledger lg)"
    and "fold (mirror_event remember encode ns) lg (m, 0) = (m', k)"
  shows "k = length (filter is_ledger lg)"
    and "money_of (fold dossier_apply (recoverLedgerFromWalrus timeline parse m' ns limit) []) u =
      money_of (fold dossier_apply lg []) u"
proof -
  obtain m1 where m1: "in_memory.write_all ns (map (ledger_record encode) (filter is_ledger lg)) m = Some m1"
    using remember_all by blast
  have "fold (mirror_event remember encode ns) lg (m, 0) = (m1, length (filter is_ledger lg))"
    using in_memory.mirror_write_all[OF m1, of 0] by simp
  with assms(5) have eq: "m1 = m'" "k = length (filter is_ledger lg)" by simp_all
  show "k = length (filter is_ledger lg)" by (rule eq(2))
  have "restore_count m ns = 0" using assms(2) by (simp add: restore_count_def)
  from in_memory.mirror_refolds[OF m1 this assms(3)] assms(1,4) eq(1)
  show "money_of (fold dossier_apply (recoverLedgerFromWalrus timeline parse m' ns limit) []) u =
      money_of (fold dossier_apply lg []) u"
    by (simp add: log_ok_def list_all_iff)
qed

text \<open>C13: The money is recoverable from the mirror alone, as far as the mirror is read whole. With the
  in-memory store, an empty namespace, a ledger that fits the limit (a longer one loses its
  oldest events: \<open>recovery_truncates\<close>) and events that each survive the text round trip, mirroring
  a well-formed log writes one record per ledger event, and refolding what is recovered gives
  each player the same balance, locked stakes, bonus, profit, rating, record, open calls and
  open stakes as the log itself.\<close>

theorem mirror_recovers_money:
  assumes "log_ok uuid n lg" and "records_of m ns = []" and "length (filter is_ledger lg) \<le> limit"
    and "list_all (\<lambda>e. parse (encode e) = Some e) (filter is_ledger lg)"
    and "fold (mirror_event remember encode ns) lg (m, 0) = (m', k)"
  shows "k = length (filter is_ledger lg) \<and>
    money_of (fold dossier_apply (recoverLedgerFromWalrus timeline parse m' ns limit) []) u =
      money_of (fold dossier_apply lg []) u"
  using mirror_recovers_money_parts[OF assms] by blast

definition sample_ledger :: "stored_event list" where
  "sample_ledger =
    [\<lparr>ev_id = ''e1'', ev_streamId = playerStream ''ann'', ev_version = 0, ev_at = 10,
        ev_payload = PlayerE (PlayerSigned ''ann'' None)\<rparr>,
     \<lparr>ev_id = ''e2'', ev_streamId = playerStream ''ann'', ev_version = 1, ev_at = 20,
        ev_payload = PlayerE (Deposited 500 None)\<rparr>,
     \<lparr>ev_id = ''e3'', ev_streamId = playerStream ''ann'', ev_version = 2, ev_at = 30,
        ev_payload = PlayerE (ChatExchanged ''hi'' ''hello'')\<rparr>]"

definition sample_parse :: "string \<Rightarrow> stored_event option" where
  "sample_parse t = find (\<lambda>e. ev_id e = t) sample_ledger"

lemma sample_ledger_log_ok: "log_ok (\<lambda>_. []) 0 sample_ledger"
proof -
  let ?a = "sample_ledger ! 0" and ?b = "sample_ledger ! 1" and ?c = "sample_ledger ! 2"
  have "log_ok (\<lambda>_. []) 0 ([] @ [?a])" by (rule log_ok_snoc[OF log_ok_Nil]) code_simp+
  then have "log_ok (\<lambda>_. []) 0 (([] @ [?a]) @ [?b])" by (rule log_ok_snoc) code_simp+
  then have "log_ok (\<lambda>_. []) 0 ((([] @ [?a]) @ [?b]) @ [?c])" by (rule log_ok_snoc) code_simp+
  moreover have "(([] @ [?a]) @ [?b]) @ [?c] = sample_ledger" by (simp add: sample_ledger_def)
  ultimately show ?thesis by simp
qed

theorem mirror_recovers_money_witness:
  "money_of (fold dossier_apply (recoverLedgerFromWalrus timeline sample_parse
      (fst (fold (mirror_event remember ev_id ''gaffer:ledger'') sample_ledger ([], 0)))
      ''gaffer:ledger'' 5000) []) ''ann'' = money_of (fold dossier_apply sample_ledger []) ''ann''"
proof (rule mirror_recovers_money[OF sample_ledger_log_ok, THEN conjunct2])
  show "records_of [] ''gaffer:ledger'' = []" by code_simp
  show "length (filter is_ledger sample_ledger) \<le> 5000" by code_simp
  show "list_all (\<lambda>e. sample_parse (ev_id e) = Some e) (filter is_ledger sample_ledger)" by code_simp
  show "fold (mirror_event remember ev_id ''gaffer:ledger'') sample_ledger ([], 0) =
    (fst (fold (mirror_event remember ev_id ''gaffer:ledger'') sample_ledger ([], 0)),
     snd (fold (mirror_event remember ev_id ''gaffer:ledger'') sample_ledger ([], 0)))" by simp
qed

lemma insort_ledger:
  "insort_key (\<lambda>r. - mm_at r) (ledger_record encode e) (map (ledger_record encode) xs) =
    map (ledger_record encode) (insort_key (\<lambda>e. - ev_at e) e xs)"
  by (induction xs) (simp_all add: ledger_record_def)

text \<open>A ledger longer than the limit is recovered without its oldest events: exactly the limit
  many events come back, all from the log, and every event left out is at most as recent as
  every event kept. (A player whose signing is left out has no file at all.)\<close>

theorem recovery_truncates:
  assumes "list_all (\<lambda>e. parse (encode e) = Some e) (filter is_ledger lg)"
    and "limit < length (filter is_ledger lg)"
    and "fold (mirror_event remember encode ns) lg ([], 0) = (m', k)"
  shows "\<exists>dropped. length (recoverLedgerFromWalrus timeline parse m' ns limit) = limit \<and>
      mset (filter is_ledger lg) = mset dropped + mset (recoverLedgerFromWalrus timeline parse m' ns limit) \<and>
      list_all (\<lambda>d. list_all (\<lambda>r. ev_at d \<le> ev_at r) (recoverLedgerFromWalrus timeline parse m' ns limit)) dropped"
proof -
  let ?es = "filter is_ledger lg" and ?rec = "ledger_record encode"
  have recs: "fst (fold (mirror_event remember encode ns) es (m, j)) = m1 \<Longrightarrow>
      records_of m1 ns = records_of m ns @ map ?rec (filter is_ledger es)" for es m j m1
    by (induction es arbitrary: m j) (auto simp: mirror_event_def remember_def)
  have "records_of m' ns = map ?rec ?es"
    using recs[of lg "[]" 0 m'] assms(3) by (simp add: records_of_def)
  then have tl: "timeline m' ns limit = take limit (sort_key (\<lambda>r. - mm_at r) (map ?rec ?es))"
    by (simp add: timeline_def)
  have sm: "sort_key (\<lambda>r. - mm_at r) (map ?rec xs) = map ?rec (sort_key (\<lambda>e. - ev_at e) xs)" for xs
    by (induction xs) (simp_all add: insort_ledger)
  let ?so = "sort_key (\<lambda>e. - ev_at e) ?es"
  have reparse: "List.map_filter (\<lambda>r. parse (mm_text r)) (map ?rec es) = es"
    if "set es \<subseteq> set ?es" for es
    using that assms(1) by (induction es) (auto simp: ledger_record_def list_all_iff)
  have "List.map_filter (\<lambda>r. parse (mm_text r)) (timeline m' ns limit) = take limit ?so"
    unfolding tl sm take_map using set_take_subset[of limit ?so] by (intro reparse) auto
  then have rec: "recoverLedgerFromWalrus timeline parse m' ns limit = sort_key stream_version (take limit ?so)"
    by (simp add: recoverLedgerFromWalrus_def)
  have "sorted (map (\<lambda>e. - ev_at e) (take limit ?so @ drop limit ?so))" by simp
  then have order: "\<forall>r\<in>set (take limit ?so). \<forall>d\<in>set (drop limit ?so). ev_at d \<le> ev_at r"
    unfolding map_append sorted_append by auto
  have "mset ?es = mset (drop limit ?so) + mset (take limit ?so)"
    by (metis append_take_drop_id mset_append mset_sort add.commute)
  then show ?thesis using order assms(2)
    by (intro exI[of _ "drop limit ?so"]) (simp add: rec list_all_iff)
qed

theorem recovery_truncates_witness:
  "\<exists>dropped. length (recoverLedgerFromWalrus timeline sample_parse
      (fst (fold (mirror_event remember ev_id ''gaffer:ledger'') sample_ledger ([], 0))) ''gaffer:ledger'' 1) = 1 \<and>
    mset (filter is_ledger sample_ledger) = mset dropped + mset (recoverLedgerFromWalrus timeline sample_parse
      (fst (fold (mirror_event remember ev_id ''gaffer:ledger'') sample_ledger ([], 0))) ''gaffer:ledger'' 1)"
proof -
  have "\<exists>m' k. fold (mirror_event remember ev_id ''gaffer:ledger'') sample_ledger ([], 0) = (m', k)"
    by (metis surj_pair)
  then obtain m' k where f: "fold (mirror_event remember ev_id ''gaffer:ledger'') sample_ledger ([], 0) = (m', k)"
    by blast
  have "list_all (\<lambda>e. sample_parse (ev_id e) = Some e) (filter is_ledger sample_ledger)"
    "1 < length (filter is_ledger sample_ledger)" by code_simp+
  from recovery_truncates[OF this f] show ?thesis unfolding f by auto
qed

section \<open>The memory writer\<close>

text \<open>Texts: a dash and an arrow are their UTF-8 bytes, and a fraction is shown as the code shows it.\<close>

definition EM_DASH :: string where
  "EM_DASH = [CHR 0xE2, CHR 0x80, CHR 0x94]"

definition ARROW :: string where
  "ARROW = [CHR 0xE2, CHR 0x86, CHR 0x92]"

fun tier_text :: "tier \<Rightarrow> string" where
  "tier_text Trialist = ''Trialist''"
| "tier_text Squad_Player = ''Squad Player''"
| "tier_text First_Team = ''First Team''"
| "tier_text Captain = ''Captain''"
| "tier_text Assistant_Manager = ''Assistant Manager''"
| "tier_text Director_of_Football = ''Director of Football''"

definition result_text :: "call_result \<Rightarrow> string" where
  "result_text r = (case r of WON \<Rightarrow> ''WON'' | LOST \<Rightarrow> ''LOST'')"

definition playerNamespace :: "string \<Rightarrow> string option" where
  "playerNamespace s = (if starts_with ''gaffer:'' s \<and> \<not> starts_with ''gaffer:match:'' s then Some s else None)"

definition where_text :: "read_model \<Rightarrow> match_id \<Rightarrow> string" where
  "where_text rm mid = (case getMatch (rm_pots rm) mid of None \<Rightarrow> mid
     | Some m \<Rightarrow> fx_home (mw_fixture m) @ '' v '' @ fx_away (mw_fixture m))"

definition memo :: "memory_kind \<Rightarrow> int \<Rightarrow> string \<Rightarrow> string list \<Rightarrow> memory_record" where
  "memo k tm txt tags = \<lparr>mm_text = txt, mm_kind = k, mm_at = tm, mm_tags = tags\<rparr>"

fun describe_player :: "read_model \<Rightarrow> int \<Rightarrow> player_event \<Rightarrow> memory_record option" where
  "describe_player rm tm (PlayerSigned _ _) =
     Some (memo K_milestone tm (''Signed for the Gaffer. No history yet '' @ EM_DASH @ '' a blank slate.'') [])"
| "describe_player rm tm (CallMade p) =
     Some (memo K_call tm (''Backed '' @ cm_bucket p @ '' in '' @ where_text rm (cm_matchId p) @ '' for ''
       @ formatWal (cm_stake p) @ '' WAL'' @ (if cm_bold p then '' (a Bold Call)'' else [])
       @ '', when the crowd had it at '' @ int_str (js_round (cm_impliedProbAtCall p * 100)) @ ''%.'')
       [cm_matchId p, cm_bucket p])"
| "describe_player rm tm (CallSettled p) =
     Some (memo K_result tm (where_text rm (cs_matchId p) @ '' ''
       @ (if cs_result p = WON then ''came in'' else ''went down'')
       @ (if cs_difficulty p \<ge> 6 / 10 then '' against the odds''
          else if cs_difficulty p \<le> 2 / 10 then '' '' @ EM_DASH @ '' the safe one'' else [])
       @ ''. P&L '' @ formatWal (cs_pnlDelta p) @ '' WAL, GR ''
       @ (if cs_grDelta p \<ge> 0 then ''+'' else []) @ int_str (cs_grDelta p) @ ''.'')
       [cs_matchId p, result_text (cs_result p)])"
| "describe_player rm tm (CallVoided p) =
     Some (memo K_result tm (''Call on '' @ where_text rm (cv_matchId p) @ '' voided ('' @ cv_reason p
       @ ''); stake refunded.'') [cv_matchId p])"
| "describe_player rm tm (HotTakeDeclared _ txt _) =
     Some (memo K_hot_take tm (''Hot take, on the record: \"'' @ txt @ ''\"'') [])"
| "describe_player rm tm (TierChanged p) =
     Some (memo K_milestone tm ((if tc_direction p = Promoted then ''Promoted'' else ''Demoted'') @ '': ''
       @ tier_text (tc_from p) @ '' '' @ ARROW @ '' '' @ tier_text (tc_to p)
       @ '' (GR '' @ int_str (tc_grAt p) @ '').'') [])"
| "describe_player rm tm (TraitObserved p) =
     Some (memo K_trait tm (''Pattern: '' @ to_label p @ ''. '' @ to_evidence p) [])"
| "describe_player rm tm (VerdictIssued p) = Some (memo K_verdict tm (vi_text p) [])"
| "describe_player rm tm _ = None"

definition describe :: "read_model \<Rightarrow> stored_event \<Rightarrow> memory_record option" where
  "describe rm e = (case ev_payload e of PlayerE p \<Rightarrow> describe_player rm (ev_at e) p | _ \<Rightarrow> None)"

definition writer_event :: "(string \<Rightarrow> memory_record \<Rightarrow> 'm \<Rightarrow> 'm option) \<Rightarrow> read_model \<Rightarrow> stored_event \<Rightarrow> 'm \<Rightarrow> 'm" where
  "writer_event store rm e m =
     (case playerNamespace (ev_streamId e) of
        None \<Rightarrow> m
      | Some ns \<Rightarrow>
          (case describe rm e of
             None \<Rightarrow> m
           | Some r \<Rightarrow> (case store ns r m of None \<Rightarrow> m | Some m' \<Rightarrow> m')))"

text \<open>The subscription: the read model folds an event before the writer sees it.\<close>

fun writer_run :: "(string \<Rightarrow> memory_record \<Rightarrow> 'm \<Rightarrow> 'm option) \<Rightarrow> stored_event list \<Rightarrow> read_model \<Rightarrow> 'm \<Rightarrow> 'm" where
  "writer_run store [] rm m = m"
| "writer_run store (e # es) rm m = writer_run store es (rm_apply e rm) (writer_event store (rm_apply e rm) e m)"

fun remembered :: "player_event \<Rightarrow> bool" where
  "remembered (PlayerSigned _ _) = True"
| "remembered (CallMade _) = True"
| "remembered (CallSettled _) = True"
| "remembered (CallVoided _) = True"
| "remembered (HotTakeDeclared _ _ _) = True"
| "remembered (TierChanged _) = True"
| "remembered (TraitObserved _) = True"
| "remembered (VerdictIssued _) = True"
| "remembered _ = False"

definition remembered_event :: "stored_event \<Rightarrow> bool" where
  "remembered_event e \<longleftrightarrow> (case ev_payload e of PlayerE p \<Rightarrow> remembered p | _ \<Rightarrow> False)"

lemma memo_at [simp]: "mm_at (memo k tm txt tags) = tm"
  by (simp add: memo_def)

lemma describe_remembered:
  "describe rm e = None \<longleftrightarrow> \<not> remembered_event e"
  "describe rm e = Some r \<Longrightarrow> mm_at r = ev_at e"
proof -
  have "describe_player rm tm p = None \<longleftrightarrow> \<not> remembered p"
    "describe_player rm tm p = Some r \<Longrightarrow> mm_at r = tm" for tm p
    by (cases p; simp only: describe_player.simps remembered.simps option.simps memo_at simp_thms)
      (cases p; auto simp only: describe_player.simps option.simps memo_at)
  then show "describe rm e = None \<longleftrightarrow> \<not> remembered_event e"
    "describe rm e = Some r \<Longrightarrow> mm_at r = ev_at e"
    by (auto simp: describe_def remembered_event_def split: domain_event.splits)
qed

lemma playerNamespace_Some: "playerNamespace s = Some ns \<Longrightarrow> ns = s"
  by (simp add: playerNamespace_def split: if_splits)

text \<open>The Gaffer's memory of a player holds exactly what happened to that player: folding the
  log into an empty store leaves, in a player's namespace, one record for each of the player's
  calls, results, takes, promotions, traits and verdicts, in the order of the log and with the
  times of the events; in every other namespace, a match's among them, nothing.\<close>

theorem memory_holds_own_events:
  "map mm_at (records_of (writer_run remember lg rm []) ns) =
    (if playerNamespace ns = None then [] else map ev_at (filter remembered_event (stream_of ns lg)))"
proof -
  have one: "map mm_at (records_of (writer_event remember rm e m) ns) =
      map mm_at (records_of m ns) @ (if playerNamespace ns \<noteq> None \<and> ev_streamId e = ns \<and> remembered_event e
        then [ev_at e] else [])" for rm e m
  proof (cases "playerNamespace (ev_streamId e)")
    case (Some s)
    then have s: "s = ev_streamId e" by (rule playerNamespace_Some)
    show ?thesis
    proof (cases "describe rm e")
      case None
      with Some show ?thesis using describe_remembered(1)[of rm e] by (simp add: writer_event_def)
    next
      case (Some r)
      with \<open>playerNamespace (ev_streamId e) = Some s\<close> s show ?thesis
        using describe_remembered(1)[of rm e] describe_remembered(2)[OF Some]
        by (auto simp: writer_event_def remember_def)
    qed
  qed (auto simp: writer_event_def)
  have "map mm_at (records_of (writer_run remember lg rm m) ns) = map mm_at (records_of m ns) @
      (if playerNamespace ns = None then [] else map ev_at (filter remembered_event (stream_of ns lg)))" for m
    by (induction lg arbitrary: rm m) (auto simp: one stream_of_def)
  then show ?thesis by (simp add: records_of_def)
qed

end
