(* ===== verification/Venue.thy ===== *)
theory Venue
  imports Prelude
begin

text \<open>
  The infrastructure under the prediction venues (\<open>src/prediction\<close>): the vocabulary of
  \<open>types.ts\<close>, the failures of \<open>errors.ts\<close>, the circuit breaker of \<open>circuit.ts\<close>, the retry loop
  of \<open>backoff.ts\<close> and the cache of \<open>cache.ts\<close>. Time is an argument in milliseconds; a call to
  the venue is an argument that gives its outcome. Calls that overlap are written as the
  sequence of their starts and ends.
\<close>

section \<open>Vocabulary\<close>

datatype side = YES | NO
datatype resolution = R_YES | R_NO | R_VOID
datatype venue_market_status = M_OPEN | M_CLOSED_PENDING_RESOLUTION | M_RESOLVED | M_CANCELLED | M_PAUSED
datatype call_outcome = O_PENDING | O_CORRECT | O_INCORRECT | O_VOID
datatype funding_state = F_NONE | F_QUOTED | F_SUBMITTED | F_FILLED | F_PARTIAL | F_FAILED | F_CLOSED
  | F_CLAIMABLE | F_CLAIMED
datatype venue_id = V_jupiter | V_polymarket | V_panta | V_fixture

definition isSettledStatus :: "venue_market_status \<Rightarrow> bool" where
  "isSettledStatus s \<longleftrightarrow> s = M_RESOLVED \<or> s = M_CANCELLED"

definition side_resolution :: "side \<Rightarrow> resolution" where
  "side_resolution s = (case s of YES \<Rightarrow> R_YES | NO \<Rightarrow> R_NO)"

definition deriveCallOutcome :: "side \<Rightarrow> resolution option \<Rightarrow> call_outcome" where
  "deriveCallOutcome s r =
     (case r of
        None \<Rightarrow> O_PENDING
      | Some v \<Rightarrow> if v = R_VOID then O_VOID
                  else if v = side_resolution s then O_CORRECT else O_INCORRECT)"

text \<open>Integer base units: a digit string with no leading zero, at most 39 digits.\<close>

definition isBaseUnits :: "string \<Rightarrow> bool" where
  "isBaseUnits v \<longleftrightarrow> v = ''0'' \<or>
     (v \<noteq> [] \<and> hd v \<noteq> CHR ''0'' \<and> length v \<le> 39 \<and> list_all (\<lambda>c. digit_val c \<noteq> None) v)"

definition isProbability :: "num \<Rightarrow> bool" where
  "isProbability v \<longleftrightarrow> 0 \<le> v \<and> v \<le> 1"

section \<open>Failures\<close>

datatype venue_error_code = VENUE_SCHEMA | VENUE_TIMEOUT | VENUE_RATE_LIMITED | VENUE_UNAVAILABLE
  | VENUE_BAD_REQUEST | VENUE_NOT_FOUND | CIRCUIT_OPEN | FUNDED_POSITIONS_DISABLED
  | IDEMPOTENCY_CONFLICT | INVALID_TRANSITION | VENUE_MISCONFIGURED | WALLET_NOT_LINKED

text \<open>What a call can throw: a venue error with its code and the delay it asks for, another
  error, or (when nothing was tried at all) the undefined value.\<close>

datatype thrown = Venue_error venue_error_code "int option" | Other_error | Undefined_error

fun retryable_code :: "venue_error_code \<Rightarrow> bool" where
  "retryable_code VENUE_TIMEOUT = True"
| "retryable_code VENUE_RATE_LIMITED = True"
| "retryable_code VENUE_UNAVAILABLE = True"
| "retryable_code _ = False"

fun circuit_fault_code :: "venue_error_code \<Rightarrow> bool" where
  "circuit_fault_code VENUE_TIMEOUT = True"
| "circuit_fault_code VENUE_RATE_LIMITED = True"
| "circuit_fault_code VENUE_UNAVAILABLE = True"
| "circuit_fault_code VENUE_SCHEMA = True"
| "circuit_fault_code _ = False"

definition isRetryable :: "thrown \<Rightarrow> bool" where
  "isRetryable e = (case e of Venue_error c _ \<Rightarrow> retryable_code c | _ \<Rightarrow> False)"

definition counts_as_fault :: "thrown \<Rightarrow> bool" where
  "counts_as_fault e = (case e of Venue_error c _ \<Rightarrow> circuit_fault_code c | _ \<Rightarrow> True)"

definition retry_after :: "thrown \<Rightarrow> int" where
  "retry_after e = (case e of Venue_error _ (Some ms) \<Rightarrow> ms | _ \<Rightarrow> 0)"

section \<open>Circuit breaker\<close>

datatype circuit_state = CB_CLOSED | CB_OPEN | CB_HALF_OPEN

record circuit_opts =
  co_failureThreshold :: nat
  co_resetAfterMs :: int
  co_halfOpenMaxCalls :: nat

definition DEFAULT_CIRCUIT :: circuit_opts where
  "DEFAULT_CIRCUIT = \<lparr>co_failureThreshold = 5, co_resetAfterMs = 30000, co_halfOpenMaxCalls = 1\<rparr>"

record breaker =
  cb_s :: circuit_state
  cb_consecutiveFaults :: nat
  cb_openedAt :: int
  cb_halfOpenInFlight :: nat
  cb_trips :: nat

definition new_breaker :: breaker where
  "new_breaker = \<lparr>cb_s = CB_CLOSED, cb_consecutiveFaults = 0, cb_openedAt = 0, cb_halfOpenInFlight = 0, cb_trips = 0\<rparr>"

text \<open>Reading the state applies a due change from open to half-open.\<close>

definition read_state :: "circuit_opts \<Rightarrow> int \<Rightarrow> breaker \<Rightarrow> breaker" where
  "read_state o1 now b =
     (if cb_s b = CB_OPEN \<and> now - cb_openedAt b \<ge> co_resetAfterMs o1
      then b\<lparr>cb_s := CB_HALF_OPEN, cb_halfOpenInFlight := 0\<rparr> else b)"

definition retryAfterMs :: "circuit_opts \<Rightarrow> int \<Rightarrow> breaker \<Rightarrow> int \<times> breaker" where
  "retryAfterMs o1 now b =
     (let b = read_state o1 now b
      in if cb_s b \<noteq> CB_OPEN then (0, b)
         else (max 0 (co_resetAfterMs o1 - (now - cb_openedAt b)), b))"

text \<open>The start of a call: refused, or admitted under the state it found.\<close>

definition circuit_admit :: "circuit_opts \<Rightarrow> int \<Rightarrow> breaker \<Rightarrow> (thrown + circuit_state) \<times> breaker" where
  "circuit_admit o1 now b =
     (let b = read_state o1 now b; st = cb_s b
      in if st = CB_OPEN \<or> st = CB_HALF_OPEN \<and> cb_halfOpenInFlight b \<ge> co_halfOpenMaxCalls o1
         then (case retryAfterMs o1 now b of (ms, b) \<Rightarrow> (Inl (Venue_error CIRCUIT_OPEN (Some ms)), b))
         else (Inr st, if st = CB_HALF_OPEN then b\<lparr>cb_halfOpenInFlight := cb_halfOpenInFlight b + 1\<rparr> else b))"

definition trip :: "int \<Rightarrow> breaker \<Rightarrow> breaker" where
  "trip now b = b\<lparr>cb_trips := (if cb_s b \<noteq> CB_OPEN then cb_trips b + 1 else cb_trips b),
     cb_s := CB_OPEN, cb_openedAt := now\<rparr>"

definition onSuccess :: "breaker \<Rightarrow> breaker" where
  "onSuccess b = b\<lparr>cb_consecutiveFaults := 0, cb_s := CB_CLOSED, cb_halfOpenInFlight := 0\<rparr>"

definition onError :: "circuit_opts \<Rightarrow> int \<Rightarrow> thrown \<Rightarrow> breaker \<Rightarrow> breaker" where
  "onError o1 now e b =
     (if \<not> counts_as_fault e then b
      else (let b = b\<lparr>cb_consecutiveFaults := cb_consecutiveFaults b + 1\<rparr>
            in if cb_s b = CB_HALF_OPEN \<or> cb_consecutiveFaults b \<ge> co_failureThreshold o1 then trip now b else b))"

text \<open>The end of a call that was admitted under the given state.\<close>

definition circuit_finish :: "circuit_opts \<Rightarrow> int \<Rightarrow> circuit_state \<Rightarrow> thrown option \<Rightarrow> breaker \<Rightarrow> breaker" where
  "circuit_finish o1 now st r b =
     (let b = (case r of None \<Rightarrow> onSuccess b | Some e \<Rightarrow> onError o1 now e b)
      in if st = CB_HALF_OPEN \<and> cb_halfOpenInFlight b > 0
         then b\<lparr>cb_halfOpenInFlight := cb_halfOpenInFlight b - 1\<rparr> else b)"

definition circuit_reset :: "breaker \<Rightarrow> breaker" where
  "circuit_reset b = b\<lparr>cb_s := CB_CLOSED, cb_consecutiveFaults := 0, cb_halfOpenInFlight := 0\<rparr>"

text \<open>\<open>run\<close> with no other call in between: the outcome given to the caller, and the breaker.\<close>

definition circuit_run :: "circuit_opts \<Rightarrow> int \<Rightarrow> int \<Rightarrow> thrown + 'a \<Rightarrow> breaker \<Rightarrow> (thrown + 'a) \<times> breaker" where
  "circuit_run o1 started ended out b =
     (case circuit_admit o1 started b of
        (Inl e, b) \<Rightarrow> (Inl e, b)
      | (Inr st, b) \<Rightarrow> (out, circuit_finish o1 ended st (case out of Inl e \<Rightarrow> Some e | Inr _ \<Rightarrow> None) b))"

text \<open>Overlapping calls: starts and ends in any order; an end names one of the calls in flight.\<close>

datatype circuit_op = Start int | Finish nat int "thrown option" | Reset

fun circuit_step :: "circuit_opts \<Rightarrow> circuit_op \<Rightarrow> breaker \<times> circuit_state list \<Rightarrow> breaker \<times> circuit_state list" where
  "circuit_step o1 (Start now) (b, fl) =
     (case circuit_admit o1 now b of (Inl _, b) \<Rightarrow> (b, fl) | (Inr st, b) \<Rightarrow> (b, fl @ [st]))"
| "circuit_step o1 (Finish i now r) (b, fl) =
     (if i < length fl then (circuit_finish o1 now (fl ! i) r b, take i fl @ drop (Suc i) fl) else (b, fl))"
| "circuit_step o1 Reset (b, fl) = (circuit_reset b, fl)"

definition circuit_ops :: "circuit_opts \<Rightarrow> circuit_op list \<Rightarrow> breaker \<times> circuit_state list \<Rightarrow> breaker \<times> circuit_state list" where
  "circuit_ops o1 ops s = fold (circuit_step o1) ops s"

definition breaker_ok :: "circuit_opts \<Rightarrow> breaker \<Rightarrow> bool" where
  "breaker_ok o1 b \<longleftrightarrow> cb_halfOpenInFlight b \<le> co_halfOpenMaxCalls o1 \<and>
     (cb_s b = CB_CLOSED \<longrightarrow> cb_consecutiveFaults b < co_failureThreshold o1) \<and>
     (cb_s b \<noteq> CB_CLOSED \<longrightarrow> 0 < cb_trips b \<and> 0 < cb_consecutiveFaults b)"

lemmas circuit_defs = circuit_admit_def retryAfterMs_def read_state_def circuit_finish_def onSuccess_def
  onError_def trip_def circuit_reset_def Let_def

lemma breaker_ok_new: "0 < co_failureThreshold o1 \<Longrightarrow> breaker_ok o1 new_breaker"
  by (simp add: breaker_ok_def new_breaker_def)

lemma breaker_ok_read: "breaker_ok o1 b \<Longrightarrow> breaker_ok o1 (read_state o1 now b)"
  by (auto simp: breaker_ok_def read_state_def)

lemma breaker_ok_admit: "breaker_ok o1 b \<Longrightarrow> breaker_ok o1 (snd (circuit_admit o1 now b))"
  by (auto simp: breaker_ok_def circuit_admit_def retryAfterMs_def read_state_def Let_def)

lemma breaker_ok_finish:
  "0 < co_failureThreshold o1 \<Longrightarrow> breaker_ok o1 b \<Longrightarrow> breaker_ok o1 (circuit_finish o1 now st r b)"
  by (auto simp: breaker_ok_def circuit_finish_def onSuccess_def onError_def trip_def Let_def split: option.split)

lemma circuit_step_fst:
  "fst (circuit_step o1 (Start now) (b, fl)) = snd (circuit_admit o1 now b)"
  "fst (circuit_step o1 (Finish i now r) (b, fl)) =
    (if i < length fl then circuit_finish o1 now (fl ! i) r b else b)"
  "fst (circuit_step o1 Reset (b, fl)) = circuit_reset b"
  by (simp_all split: prod.split sum.split)

lemma circuit_step_ok:
  assumes "0 < co_failureThreshold o1" "breaker_ok o1 b"
  shows "breaker_ok o1 (fst (circuit_step o1 x (b, fl)))"
  using assms breaker_ok_admit[OF assms(2)] breaker_ok_finish[OF assms]
  by (cases x) (simp_all only: circuit_step_fst, auto simp: breaker_ok_def circuit_reset_def)

lemma circuit_ops_ok:
  assumes "0 < co_failureThreshold o1"
  shows "breaker_ok o1 (fst s) \<Longrightarrow> breaker_ok o1 (fst (circuit_ops o1 ops s))"
proof (induction ops arbitrary: s)
  case (Cons x ops)
  have "breaker_ok o1 (fst (circuit_step o1 x s))"
    using circuit_step_ok[OF assms, of "fst s" x "snd s"] Cons.prems by simp
  from Cons.IH[OF this] show ?case by (simp add: circuit_ops_def)
qed (simp add: circuit_ops_def)

text \<open>An open breaker lets nothing through until the reset time, and asking does not change it.\<close>

lemma admit_open:
  "cb_s b = CB_OPEN \<Longrightarrow> now - cb_openedAt b < co_resetAfterMs o1 \<Longrightarrow>
    circuit_admit o1 now b =
      (Inl (Venue_error CIRCUIT_OPEN (Some (co_resetAfterMs o1 - (now - cb_openedAt b)))), b)"
  by (simp add: circuit_admit_def retryAfterMs_def read_state_def)

lemma starts_while_open:
  "cb_s b = CB_OPEN \<Longrightarrow> list_all (\<lambda>t. t - cb_openedAt b < co_resetAfterMs o1) ts \<Longrightarrow>
    circuit_ops o1 (map Start ts) (b, fl) = (b, fl)"
  by (induction ts) (simp_all add: circuit_ops_def admit_open)

text \<open>Faults in a row on a closed breaker, each call over before the next.\<close>

lemma run_fault_closed:
  assumes "cb_s b = CB_CLOSED" "counts_as_fault e"
  shows "circuit_run o1 t0 t1 (Inl e) b = (Inl e,
    if Suc (cb_consecutiveFaults b) < co_failureThreshold o1
    then b\<lparr>cb_consecutiveFaults := Suc (cb_consecutiveFaults b)\<rparr>
    else b\<lparr>cb_consecutiveFaults := Suc (cb_consecutiveFaults b), cb_trips := cb_trips b + 1,
      cb_s := CB_OPEN, cb_openedAt := t1\<rparr>)"
  using assms by (simp add: circuit_run_def circuit_defs)

definition fault_run :: "circuit_opts \<Rightarrow> int \<times> int \<times> thrown \<Rightarrow> breaker \<Rightarrow> breaker" where
  "fault_run o1 c b = (case c of (t0, t1, e) \<Rightarrow> snd (circuit_run o1 t0 t1 (Inl e :: thrown + unit) b))"

lemma faults_below_threshold:
  assumes "cb_s b = CB_CLOSED" "list_all (\<lambda>(t0, t1, e). counts_as_fault e) cs"
    and "cb_consecutiveFaults b + length cs < co_failureThreshold o1"
  shows "fold (fault_run o1) cs b =
    b\<lparr>cb_consecutiveFaults := cb_consecutiveFaults b + length cs\<rparr>"
  using assms
proof (induction cs arbitrary: b)
  case (Cons c cs)
  let ?b = "b\<lparr>cb_consecutiveFaults := Suc (cb_consecutiveFaults b)\<rparr>"
  have "fault_run o1 c b = ?b"
    using Cons.prems by (cases c) (simp add: fault_run_def run_fault_closed)
  moreover have "fold (fault_run o1) cs ?b =
      ?b\<lparr>cb_consecutiveFaults := cb_consecutiveFaults ?b + length cs\<rparr>"
    using Cons.prems by (intro Cons.IH) (simp_all split: prod.splits)
  ultimately show ?case by simp
qed simp

text \<open>C14: Whatever the overlap of calls, the breaker's own bookkeeping holds: it never counts more
  trial calls than allowed, it is closed only below the failure threshold, and when it is not
  closed it has tripped and seen a fault. While it is open and the reset time has not passed,
  no call is admitted, however many ask, and their asking changes nothing.\<close>

theorem circuit_guards:
  assumes "0 < co_failureThreshold o1"
  shows "let (b, fl) = circuit_ops o1 ops (new_breaker, []) in
      cb_halfOpenInFlight b \<le> co_halfOpenMaxCalls o1 \<and>
      (cb_s b = CB_CLOSED \<longrightarrow> cb_consecutiveFaults b < co_failureThreshold o1) \<and>
      (cb_s b \<noteq> CB_CLOSED \<longrightarrow> 0 < cb_trips b \<and> 0 < cb_consecutiveFaults b) \<and>
      (cb_s b = CB_OPEN \<longrightarrow> list_all (\<lambda>t. t - cb_openedAt b < co_resetAfterMs o1) ts \<longrightarrow>
        circuit_ops o1 (map Start ts) (b, fl) = (b, fl))"
proof -
  obtain b fl where s: "circuit_ops o1 ops (new_breaker, []) = (b, fl)" by (metis surj_pair)
  have "breaker_ok o1 b"
    using circuit_ops_ok[OF assms, of "(new_breaker, [])" ops] breaker_ok_new[OF assms] s by simp
  then show ?thesis using starts_while_open[of b o1 ts fl] by (simp add: s breaker_ok_def)
qed

theorem circuit_guards_witness:
  "let (b, fl) = circuit_ops DEFAULT_CIRCUIT (replicate 5 (Start 0) @ replicate 5 (Finish 0 1 (Some Other_error)))
      (new_breaker, []) in
    cb_s b = CB_OPEN \<and> circuit_ops DEFAULT_CIRCUIT (map Start [2, 30000]) (b, fl) = (b, fl)"
  using circuit_guards[of DEFAULT_CIRCUIT "replicate 5 (Start 0) @ replicate 5 (Finish 0 1 (Some Other_error))" "[2, 30000]"]
  by code_simp

lemma circuit_sequential_parts:
  assumes faults: "list_all (\<lambda>(t0, t1, e). counts_as_fault e) (cs @ [(t0, t1, e)])"
    and n: "Suc (length cs) = co_failureThreshold o1" and trial: "0 < co_halfOpenMaxCalls o1"
  shows "cb_s (fold (fault_run o1) cs new_breaker) = CB_CLOSED"
    and "let b = fold (fault_run o1) (cs @ [(t0, t1, e)]) new_breaker in
      cb_s b = CB_OPEN \<and>
      (now < t1 + co_resetAfterMs o1 \<longrightarrow> circuit_run o1 now fin (out :: thrown + 'a) b =
        (Inl (Venue_error CIRCUIT_OPEN (Some (t1 + co_resetAfterMs o1 - now))), b)) \<and>
      (t1 + co_resetAfterMs o1 \<le> now \<longrightarrow> fst (circuit_run o1 now fin (Inr (v :: 'a)) b) = Inr v \<and>
        cb_s (snd (circuit_run o1 now fin (Inr v) b)) = CB_CLOSED \<and>
        cb_s (snd (circuit_run o1 now fin (Inl e :: thrown + 'a) b)) = CB_OPEN \<and>
        cb_openedAt (snd (circuit_run o1 now fin (Inl e :: thrown + 'a) b)) = fin)"
proof -
  have below: "fold (fault_run o1) cs new_breaker = new_breaker\<lparr>cb_consecutiveFaults := length cs\<rparr>"
    using faults_below_threshold[of new_breaker cs o1] faults n by (simp add: new_breaker_def)
  then show "cb_s (fold (fault_run o1) cs new_breaker) = CB_CLOSED" by (simp add: new_breaker_def)
  have "fold (fault_run o1) (cs @ [(t0, t1, e)]) new_breaker = new_breaker\<lparr>cb_consecutiveFaults := Suc (length cs),
      cb_trips := 1, cb_s := CB_OPEN, cb_openedAt := t1\<rparr>"
    using faults n by (simp add: below fault_run_def) (simp add: new_breaker_def run_fault_closed)
  then show "let b = fold (fault_run o1) (cs @ [(t0, t1, e)]) new_breaker in
      cb_s b = CB_OPEN \<and>
      (now < t1 + co_resetAfterMs o1 \<longrightarrow> circuit_run o1 now fin (out :: thrown + 'a) b =
        (Inl (Venue_error CIRCUIT_OPEN (Some (t1 + co_resetAfterMs o1 - now))), b)) \<and>
      (t1 + co_resetAfterMs o1 \<le> now \<longrightarrow> fst (circuit_run o1 now fin (Inr (v :: 'a)) b) = Inr v \<and>
        cb_s (snd (circuit_run o1 now fin (Inr v) b)) = CB_CLOSED \<and>
        cb_s (snd (circuit_run o1 now fin (Inl e :: thrown + 'a) b)) = CB_OPEN \<and>
        cb_openedAt (snd (circuit_run o1 now fin (Inl e :: thrown + 'a) b)) = fin)"
    using faults trial by (simp only: Let_def) (simp add: circuit_run_def circuit_defs new_breaker_def)
qed

text \<open>Called one at a time, the breaker trips at the threshold and not before: fewer faults in a
  row than the threshold leave a fresh breaker closed, that many open it at the end of the last
  call, and then every call is refused without reaching the venue until the reset time; after
  it one trial is admitted, and its outcome closes the breaker or opens it again from then.\<close>

theorem circuit_sequential:
  assumes "list_all (\<lambda>(t0, t1, e). counts_as_fault e) (cs @ [(t0, t1, e)])"
    and "Suc (length cs) = co_failureThreshold o1" and "0 < co_halfOpenMaxCalls o1"
  shows "cb_s (fold (fault_run o1) cs new_breaker) = CB_CLOSED \<and>
    (let b = fold (fault_run o1) (cs @ [(t0, t1, e)]) new_breaker in
      cb_s b = CB_OPEN \<and>
      (now < t1 + co_resetAfterMs o1 \<longrightarrow> circuit_run o1 now fin (out :: thrown + 'a) b =
        (Inl (Venue_error CIRCUIT_OPEN (Some (t1 + co_resetAfterMs o1 - now))), b)) \<and>
      (t1 + co_resetAfterMs o1 \<le> now \<longrightarrow> fst (circuit_run o1 now fin (Inr (v :: 'a)) b) = Inr v \<and>
        cb_s (snd (circuit_run o1 now fin (Inr v) b)) = CB_CLOSED \<and>
        cb_s (snd (circuit_run o1 now fin (Inl e :: thrown + 'a) b)) = CB_OPEN \<and>
        cb_openedAt (snd (circuit_run o1 now fin (Inl e :: thrown + 'a) b)) = fin))"
  by (rule conjI[OF circuit_sequential_parts(1)[OF assms] circuit_sequential_parts(2)[OF assms]])

theorem circuit_sequential_witness:
  "cb_s (fold (fault_run DEFAULT_CIRCUIT) (replicate 4 (0, 1, Other_error)) new_breaker) = CB_CLOSED \<and>
   cb_s (fold (fault_run DEFAULT_CIRCUIT) (replicate 4 (0, 1, Other_error) @ [(0, 1, Other_error)]) new_breaker) = CB_OPEN"
proof -
  have pre: "list_all (\<lambda>(t0, t1, e). counts_as_fault e) (replicate 4 (0 :: int, 1 :: int, Other_error) @ [(0, 1, Other_error)])"
    "Suc (length (replicate 4 (0 :: int, 1 :: int, Other_error))) = co_failureThreshold DEFAULT_CIRCUIT"
    "0 < co_halfOpenMaxCalls DEFAULT_CIRCUIT" by code_simp+
  from circuit_sequential[OF pre, where now = 5 and fin = 6 and out = "Inr ()" and v = "()"]
  show ?thesis by (simp only: Let_def)
qed

text \<open>With overlapping calls two guards can be passed. A call admitted before the breaker
  tripped and successful after it closes the open breaker at once, so calls go through long
  before the reset time; and after a second trip more trial calls can be in flight than the
  limit of trial calls allows.\<close>

theorem circuit_overlap:
  "fst (circuit_admit DEFAULT_CIRCUIT 3 (fst (circuit_ops (DEFAULT_CIRCUIT\<lparr>co_failureThreshold := 1\<rparr>)
     [Start 0, Start 0, Finish 1 1 (Some Other_error), Finish 0 2 None] (new_breaker, [])))) = Inr CB_CLOSED"
  "snd (circuit_ops (DEFAULT_CIRCUIT\<lparr>co_failureThreshold := 1, co_resetAfterMs := 10\<rparr>)
     [Start 0, Start 0, Finish 1 0 (Some Other_error), Start 10, Finish 0 11 (Some Other_error), Start 21]
     (new_breaker, [])) = [CB_HALF_OPEN, CB_HALF_OPEN]"
  by code_simp+

section \<open>Retries\<close>

definition backoffDelay :: "nat \<Rightarrow> int \<Rightarrow> int \<Rightarrow> int" where
  "backoffDelay attempt base mx = min mx (base * 2 ^ (attempt - 1))"

text \<open>The loop from one attempt on, with the attempts that remain: the outcome of the last call
  made, and the delays slept before each retry. The jitter source gives a number in [0,1).\<close>

fun retry_from :: "int \<Rightarrow> int \<Rightarrow> (nat \<Rightarrow> num) \<Rightarrow> (nat \<Rightarrow> thrown + 'a) \<Rightarrow> thrown \<Rightarrow> nat \<Rightarrow> nat
    \<Rightarrow> (thrown + 'a) \<times> int list" where
  "retry_from base mx rnd call prev attempt 0 = (Inl prev, [])"
| "retry_from base mx rnd call prev attempt (Suc n) =
     (case call attempt of
        Inr v \<Rightarrow> (Inr v, [])
      | Inl e \<Rightarrow>
          if n = 0 \<or> \<not> isRetryable e then (Inl e, [])
          else
            (let jittered = \<lfloor>rnd attempt * of_int (backoffDelay attempt base mx)\<rfloor>;
                 delay = max jittered (retry_after e)
             in case retry_from base mx rnd call e (Suc attempt) n of (r, ds) \<Rightarrow> (r, delay # ds)))"

definition retry :: "nat \<Rightarrow> int \<Rightarrow> int \<Rightarrow> (nat \<Rightarrow> num) \<Rightarrow> (nat \<Rightarrow> thrown + 'a) \<Rightarrow> (thrown + 'a) \<times> int list" where
  "retry attempts base mx rnd call = retry_from base mx rnd call Undefined_error 1 attempts"

lemma backoffDelay_le: "backoffDelay attempt base mx \<le> mx"
  by (simp add: backoffDelay_def)

lemma jitter_le:
  assumes "0 \<le> r" "r < 1" "0 \<le> base" "0 \<le> mx"
  shows "\<lfloor>r * of_int (backoffDelay attempt base mx)\<rfloor> \<le> mx"
proof -
  have "0 \<le> backoffDelay attempt base mx" using assms by (simp add: backoffDelay_def)
  then have "r * of_int (backoffDelay attempt base mx) \<le> of_int (backoffDelay attempt base mx)"
    using assms by (intro mult_left_le_one_le) auto
  then have "\<lfloor>r * of_int (backoffDelay attempt base mx)\<rfloor> \<le> backoffDelay attempt base mx"
    by (simp add: floor_le_iff)
  then show ?thesis using backoffDelay_le order_trans by blast
qed

lemma retry_from_spec:
  assumes "\<And>k. 0 \<le> rnd k \<and> rnd k < 1" "0 \<le> base" "0 \<le> mx"
  shows "retry_from base mx rnd call prev a (Suc n) = (r, ds) \<Longrightarrow>
    length ds \<le> n \<and> r = call (a + length ds) \<and>
    (\<forall>i < length ds. \<exists>e. call (a + i) = Inl e \<and> isRetryable e \<and>
      retry_after e \<le> ds ! i \<and> ds ! i \<le> max mx (retry_after e)) \<and>
    (\<forall>e. r = Inl e \<longrightarrow> isRetryable e \<longrightarrow> length ds = n)"
proof (induction n arbitrary: a prev r ds)
  case 0
  then show ?case by (auto split: sum.splits)
next
  case (Suc n)
  show ?case
  proof (cases "call a")
    case (Inr v)
    with Suc.prems show ?thesis by auto
  next
    case (Inl e)
    show ?thesis
    proof (cases "isRetryable e")
      case False
      with Suc.prems Inl show ?thesis by auto
    next
      case True
      obtain r' ds' where rest: "retry_from base mx rnd call e (Suc a) (Suc n) = (r', ds')"
        by (metis surj_pair)
      let ?d = "max \<lfloor>rnd a * of_int (backoffDelay a base mx)\<rfloor> (retry_after e)"
      have eq: "r = r'" "ds = ?d # ds'"
        using Suc.prems Inl True rest by (simp_all add: Let_def del: retry_from.simps(2)
            add: retry_from.simps(2)[of base mx rnd call prev a "Suc n"])
      have "?d \<le> max mx (retry_after e)"
        using jitter_le[of "rnd a" base mx a] assms by auto
      with Suc.IH[OF rest] True Inl show ?thesis
        unfolding eq by (auto simp: All_less_Suc2)
    qed
  qed
qed

text \<open>C38: The retry loop makes at most the given number of calls and answers with the outcome of the
  last one made. Every call before it failed with a transient fault (never with a schema
  error), the pause after it is at least the delay the venue asked for and at most the larger
  of that and the ceiling; and the loop gives up on a transient fault only when no attempt is
  left.\<close>

theorem retry_spec:
  assumes "\<And>k. 0 \<le> rnd k \<and> rnd k < 1" "0 \<le> base" "0 \<le> mx" and "0 < attempts"
    and "retry attempts base mx rnd call = (r, ds)"
  shows "length ds < attempts \<and> r = call (1 + length ds) \<and>
    (\<forall>i < length ds. \<exists>e. call (1 + i) = Inl e \<and> isRetryable e \<and> e \<noteq> Venue_error VENUE_SCHEMA None \<and>
      retry_after e \<le> ds ! i \<and> ds ! i \<le> max mx (retry_after e)) \<and>
    (\<forall>e. r = Inl e \<longrightarrow> isRetryable e \<longrightarrow> Suc (length ds) = attempts)"
proof -
  obtain n where n: "attempts = Suc n" using assms(4) by (cases attempts) auto
  have "retry_from base mx rnd call Undefined_error 1 (Suc n) = (r, ds)"
    using assms(5) by (simp only: retry_def n)
  note spec = retry_from_spec[OF assms(1-3) this]
  have "\<not> isRetryable (Venue_error VENUE_SCHEMA None)" by (simp add: isRetryable_def)
  then show ?thesis using spec unfolding n by (metis less_Suc_eq_le)
qed

definition sample_calls :: "nat \<Rightarrow> thrown + nat" where
  "sample_calls k = (if k = 1 then Inl (Venue_error VENUE_RATE_LIMITED (Some 700))
     else if k = 2 then Inl (Venue_error VENUE_TIMEOUT None) else Inr k)"

theorem retry_spec_witness:
  "retry 3 200 5000 (\<lambda>_. 1 / 2) sample_calls = (Inr 3, [700, 200]) \<and> length [700, 200 :: int] < 3"
proof -
  have r: "retry 3 200 5000 (\<lambda>_. 1 / 2) sample_calls = (Inr 3, [700, 200])" by code_simp
  from retry_spec[OF _ _ _ _ r] r show ?thesis by simp
qed

section \<open>Cache\<close>

record cache_ttls =
  ct_eventList :: num
  ct_openMarket :: num
  ct_orderbook :: num
  ct_settledMarket :: num
  ct_tradingStatus :: num

definition DEFAULT_CACHE_TTLS :: cache_ttls where
  "DEFAULT_CACHE_TTLS = \<lparr>ct_eventList = 45000, ct_openMarket = 15000, ct_orderbook = 10000,
     ct_settledMarket = 3600000, ct_tradingStatus = 30000\<rparr>"

definition inRange :: "num \<Rightarrow> num \<Rightarrow> num \<Rightarrow> bool" where
  "inRange v lo hi \<longleftrightarrow> lo \<le> v \<and> v \<le> hi"

definition assertCacheTtls :: "cache_ttls \<Rightarrow> thrown + cache_ttls" where
  "assertCacheTtls t =
     (if inRange (ct_eventList t) 30000 60000 \<and> inRange (ct_openMarket t) 10000 30000 \<and>
         inRange (ct_orderbook t) 10000 30000 \<and> ct_settledMarket t \<ge> ct_openMarket t * 10 \<and>
         ct_tradingStatus t > 0
      then Inr t else Inl (Venue_error VENUE_MISCONFIGURED None))"

definition ttlForStatus :: "venue_market_status \<Rightarrow> cache_ttls \<Rightarrow> num" where
  "ttlForStatus s t = (if isSettledStatus s then ct_settledMarket t else ct_openMarket t)"

record 'v entry =
  en_value :: 'v
  en_storedAt :: num
  en_expiresAt :: num

record 'v cache =
  ch_entries :: "(string, 'v entry) jmap"
  ch_inflight :: "string list"
  ch_maxEntries :: nat
  ch_hits :: nat
  ch_misses :: nat
  ch_expiries :: nat
  ch_coalesced :: nat
  ch_evictions :: nat

definition cache_get :: "num \<Rightarrow> string \<Rightarrow> 'v cache \<Rightarrow> 'v option \<times> 'v cache" where
  "cache_get now k c =
     (case jm_get (ch_entries c) k of
        None \<Rightarrow> (None, c\<lparr>ch_misses := ch_misses c + 1\<rparr>)
      | Some e \<Rightarrow>
          if en_expiresAt e \<le> now
          then (None, c\<lparr>ch_entries := jm_del k (ch_entries c), ch_expiries := ch_expiries c + 1,
                       ch_misses := ch_misses c + 1\<rparr>)
          else (Some (en_value e), c\<lparr>ch_hits := ch_hits c + 1\<rparr>))"

definition evict_oldest :: "string \<Rightarrow> 'v cache \<Rightarrow> 'v cache" where
  "evict_oldest k c =
     (if length (ch_entries c) \<ge> ch_maxEntries c \<and> jm_get (ch_entries c) k = None
      then (case ch_entries c of
              [] \<Rightarrow> c
            | (oldest, _) # _ \<Rightarrow> c\<lparr>ch_entries := jm_del oldest (ch_entries c), ch_evictions := ch_evictions c + 1\<rparr>)
      else c)"

definition cache_set :: "num \<Rightarrow> string \<Rightarrow> 'v \<Rightarrow> num \<Rightarrow> 'v cache \<Rightarrow> 'v cache" where
  "cache_set now k v ttl c =
     (let c = evict_oldest k c
      in c\<lparr>ch_entries := jm_set k \<lparr>en_value = v, en_storedAt = now, en_expiresAt = now + ttl\<rparr> (ch_entries c)\<rparr>)"

definition cache_delete :: "string \<Rightarrow> 'v cache \<Rightarrow> 'v cache" where
  "cache_delete k c = c\<lparr>ch_entries := jm_del k (ch_entries c)\<rparr>"

definition cache_clear :: "'v cache \<Rightarrow> 'v cache" where
  "cache_clear c = c\<lparr>ch_entries := [], ch_inflight := []\<rparr>"

text \<open>\<open>load\<close> in its two steps: what the caller gets at once (a hit, a wait for the load under way,
  or a load of its own), and the end of the load it started.\<close>

datatype 'v loading = Hit 'v | Coalesced | Loading

definition load_start :: "num \<Rightarrow> string \<Rightarrow> 'v cache \<Rightarrow> 'v loading \<times> 'v cache" where
  "load_start now k c =
     (case cache_get now k c of
        (Some v, c) \<Rightarrow> (Hit v, c)
      | (None, c) \<Rightarrow>
          if k \<in> set (ch_inflight c) then (Coalesced, c\<lparr>ch_coalesced := ch_coalesced c + 1\<rparr>)
          else (Loading, c\<lparr>ch_inflight := set_add k (ch_inflight c)\<rparr>))"

definition load_end :: "num \<Rightarrow> ('v \<Rightarrow> num) \<Rightarrow> string \<Rightarrow> thrown + 'v \<Rightarrow> 'v cache \<Rightarrow> 'v cache" where
  "load_end now ttlOf k r c =
     (let c = (case r of Inl _ \<Rightarrow> c | Inr v \<Rightarrow> cache_set now k v (ttlOf v) c)
      in c\<lparr>ch_inflight := filter (\<lambda>x. x \<noteq> k) (ch_inflight c)\<rparr>)"

definition new_cache :: "nat \<Rightarrow> 'v cache" where
  "new_cache n = \<lparr>ch_entries = [], ch_inflight = [], ch_maxEntries = n, ch_hits = 0, ch_misses = 0,
     ch_expiries = 0, ch_coalesced = 0, ch_evictions = 0\<rparr>"

text \<open>Loads of many callers. Beside the cache there is the list of the keys whose load is running, one
  entry for each load, and \<open>over\<close>, which notes for each clear the keys that had a load running then: a
  clear forgets the loads under way but does not stop them, and the end of such a load removes
  whatever marker its key has by then.\<close>

datatype 'v cache_op = Load num string | Loaded num string "thrown + 'v" | Put num string 'v | Drop string | Clear

fun cache_step :: "('v \<Rightarrow> num) \<Rightarrow> 'v cache_op \<Rightarrow> 'v cache \<times> string list \<times> string list
    \<Rightarrow> 'v cache \<times> string list \<times> string list" where
  "cache_step ttl (Load now k) (c, run, over) =
     (case load_start now k c of (Loading, c) \<Rightarrow> (c, run @ [k], over) | (_, c) \<Rightarrow> (c, run, over))"
| "cache_step ttl (Loaded now k r) (c, run, over) =
     (if k \<in> set run then (load_end now ttl k r c, remove1 k run, over) else (c, run, over))"
| "cache_step ttl (Put now k v) (c, run, over) = (cache_set now k v (ttl v) c, run, over)"
| "cache_step ttl (Drop k) (c, run, over) = (cache_delete k c, run, over)"
| "cache_step ttl Clear (c, run, over) = (cache_clear c, run, over @ remdups run)"

definition cache_ok :: "nat \<Rightarrow> 'v cache \<Rightarrow> bool" where
  "cache_ok n c \<longleftrightarrow> ch_maxEntries c = n \<and> jm_wf (ch_entries c) \<and> length (ch_entries c) \<le> max 1 n"

text \<open>A marker stands for a running load, and a key has one running load for its marker and at most one
  more for each clear that overlapped one.\<close>

definition flights_ok :: "string list \<Rightarrow> string list \<Rightarrow> string list \<Rightarrow> bool" where
  "flights_ok inflight run over \<longleftrightarrow> set inflight \<subseteq> set run \<and>
     (\<forall>k. count_list run k \<le> count_list over k + (if k \<in> set inflight then 1 else 0))"

definition caching_ok :: "nat \<Rightarrow> 'v cache \<times> string list \<times> string list \<Rightarrow> bool" where
  "caching_ok n s \<longleftrightarrow> (case s of (c, run, over) \<Rightarrow> cache_ok n c \<and> flights_ok (ch_inflight c) run over)"

lemma length_jm_del: "length (jm_del k m) \<le> length m"
  by (induction m) auto

lemma length_jm_del_key: "jm_get m k \<noteq> None \<Longrightarrow> length (jm_del k m) < length m"
  using length_jm_del[of k] by (induction m) (auto simp: less_Suc_eq_le)

lemma length_jm_set: "length (jm_set k v m) = (if jm_get m k = None then Suc (length m) else length m)"
  by (induction m) auto

lemma evict_oldest_room:
  assumes "length (ch_entries c) \<le> max 1 n" "ch_maxEntries c = n"
  shows "length (jm_set k e (ch_entries (evict_oldest k c))) \<le> max 1 n"
proof -
  have "length (jm_del o2 m) < length m" if "m = (o2, x) # m'" for o2 x m and m' :: "(string \<times> 'a entry) list"
    using that by (intro length_jm_del_key) simp
  then show ?thesis using assms
    by (auto simp: evict_oldest_def length_jm_set jm_get_del split: list.splits) force+
qed

lemma cache_set_ok: "cache_ok n c \<Longrightarrow> cache_ok n (cache_set now k v t c)"
  using evict_oldest_room[of c n k "\<lparr>en_value = v, en_storedAt = now, en_expiresAt = now + t\<rparr>"]
  by (auto simp: cache_ok_def cache_set_def Let_def evict_oldest_def split: list.split)

lemma cache_get_ok: "cache_ok n c \<Longrightarrow> cache_ok n (snd (cache_get now k c))"
  using length_jm_del[of k "ch_entries c"] by (auto simp: cache_ok_def cache_get_def split: option.split)

lemma cache_ok_more [simp]:
  "cache_ok n (c\<lparr>ch_coalesced := x\<rparr>) = cache_ok n c" "cache_ok n (c\<lparr>ch_inflight := ks\<rparr>) = cache_ok n c"
  by (simp_all add: cache_ok_def)

lemma inflight_kept [simp]:
  "ch_inflight (cache_set now k v t c) = ch_inflight c" "ch_inflight (cache_delete k c) = ch_inflight c"
  by (simp_all add: cache_set_def Let_def evict_oldest_def cache_delete_def split: list.split)

lemma inflight_read: "ch_inflight (snd (cache_get now k c)) = ch_inflight c"
  by (simp add: cache_get_def split: option.split)

lemma count_remove1: "k \<in> set xs \<Longrightarrow> count_list (remove1 k xs) j = (if j = k then count_list xs k - 1 else count_list xs j)"
  by (induction xs) auto

lemma count_pos: "0 < count_list xs k \<longleftrightarrow> k \<in> set xs"
  by (induction xs) auto

lemma count_remdups: "count_list (remdups xs) k = (if k \<in> set xs then 1 else 0)"
  by (induction xs) auto

text \<open>How the three kinds of step that touch the markers keep the count: a new load, an ended one, a clear.\<close>

lemma flights_start:
  assumes "flights_ok inflight run over" "k \<notin> set inflight"
  shows "flights_ok (set_add k inflight) (run @ [k]) over"
proof -
  have le: "count_list run j \<le> count_list over j + (if j \<in> set inflight then 1 else 0)" for j
    using assms(1) by (simp add: flights_ok_def)
  have "count_list (run @ [k]) j \<le> count_list over j + (if j \<in> set (set_add k inflight) then 1 else 0)" for j
    using le[of j] assms(2) by (auto simp: set_add_def)
  moreover have "set (set_add k inflight) \<subseteq> set (run @ [k])"
    using assms(1) by (auto simp: flights_ok_def set_add_def)
  ultimately show ?thesis by (simp add: flights_ok_def)
qed

lemma flights_end:
  assumes "flights_ok inflight run over" "k \<in> set run"
  shows "flights_ok (filter (\<lambda>x. x \<noteq> k) inflight) (remove1 k run) over"
proof -
  have le: "count_list run j \<le> count_list over j + (if j \<in> set inflight then 1 else 0)" for j
    using assms(1) by (simp add: flights_ok_def)
  have "count_list run k \<le> Suc (count_list over k)" using le[of k] by (simp split: if_splits)
  then have "count_list (remove1 k run) j \<le> count_list over j +
      (if j \<in> set (filter (\<lambda>x. x \<noteq> k) inflight) then 1 else 0)" for j
    using le[of j] by (auto simp: count_remove1[OF assms(2)])
  moreover have "set (filter (\<lambda>x. x \<noteq> k) inflight) \<subseteq> set (remove1 k run)"
    using assms(1) by (auto simp: flights_ok_def)
  ultimately show ?thesis by (simp add: flights_ok_def)
qed

lemma flights_clear:
  assumes "flights_ok inflight run over"
  shows "flights_ok [] run (over @ remdups run)"
proof -
  have "count_list run k \<le> count_list over k + count_list (remdups run) k" for k
  proof (cases "k \<in> set run")
    case True
    have "count_list run k \<le> count_list over k + (if k \<in> set inflight then 1 else 0)"
      using assms by (simp add: flights_ok_def)
    then show ?thesis using True by (simp add: count_remdups split: if_splits)
  next
    case False
    then show ?thesis by (simp add: count_list_0_iff)
  qed
  then show ?thesis by (simp add: flights_ok_def)
qed

lemma cache_step_ok: "caching_ok n s \<Longrightarrow> caching_ok n (cache_step ttl x s)"
proof -
  assume "caching_ok n s"
  then obtain c run over where s: "s = (c, run, over)" and ok: "cache_ok n c" and fl: "flights_ok (ch_inflight c) run over"
    by (auto simp: caching_ok_def)
  show ?thesis
  proof (cases x)
    case (Load now k)
    obtain v c' where g: "cache_get now k c = (v, c')" by (metis surj_pair)
    have c': "cache_ok n c'" "ch_inflight c' = ch_inflight c"
      using cache_get_ok[OF ok, of now k] inflight_read[of now k c] g by simp_all
    show ?thesis using g c' fl flights_start[OF fl, of k] unfolding s Load
      by (cases v) (simp_all add: load_start_def caching_ok_def)
  next
    case (Loaded now k r)
    show ?thesis using ok fl flights_end[OF fl, of k] cache_set_ok[OF ok] unfolding s Loaded
      by (cases r) (simp_all add: load_end_def caching_ok_def Let_def)
  next
    case (Put now k v)
    then show ?thesis using cache_set_ok[OF ok] fl by (simp add: s caching_ok_def)
  next
    case (Drop k)
    have "cache_ok n (cache_delete k c)"
      using ok length_jm_del[of k "ch_entries c"] by (simp add: cache_ok_def cache_delete_def)
    then show ?thesis using fl by (simp add: s Drop caching_ok_def)
  next
    case Clear
    have "cache_ok n (cache_clear c)" using ok by (simp add: cache_ok_def cache_clear_def)
    then show ?thesis using flights_clear[OF fl] by (simp add: s Clear caching_ok_def cache_clear_def)
  qed
qed

lemma cache_ops_ok: "caching_ok n s \<Longrightarrow> caching_ok n (fold (cache_step ttl) ops s)"
  by (induction ops arbitrary: s) (simp_all add: cache_step_ok)

lemma load_start_eq:
  "fst (load_start now k c) = (case fst (cache_get now k c) of Some v \<Rightarrow> Hit v
     | None \<Rightarrow> if k \<in> set (ch_inflight c) then Coalesced else Loading)"
  using inflight_read[of now k c] by (auto simp: load_start_def split: prod.split option.split)

text \<open>C15: Any number of callers share one load, as far as the cache is not cleared under it. Over any
  interleaving of lookups, finished loads, writes, deletions and clears, a key has at most one
  running load, and one more for each clear that overlapped a load of that key, a load that
  is about to start included; a lookup that misses starts a load or joins one that runs; if no
  clear overlapped a load of the key, it joins exactly when one runs, so the key never has two;
  and the cache never holds more entries than its bound (one when the bound is 0).\<close>

theorem cache_single_flight:
  "let (c, run, over) = fold (cache_step ttl) ops (new_cache n, [], []);
       start = fst (load_start now k c)
   in length (ch_entries c) \<le> max 1 n \<and>
     count_list run k + (if start = Loading then 1 else 0) \<le> 1 + count_list over k \<and>
     (case fst (cache_get now k c) of
        Some v \<Rightarrow> start = Hit v
      | None \<Rightarrow> start = Loading \<or> start = Coalesced \<and> k \<in> set run) \<and>
     (if k \<in> set over then True
      else count_list run k \<le> 1 \<and> (if fst (cache_get now k c) = None
        then start = (if k \<in> set run then Coalesced else Loading) else True))"
proof -
  obtain c run over where s: "fold (cache_step ttl) ops (new_cache n, [], []) = (c, run, over)" by (metis prod_cases3)
  have "caching_ok n (new_cache n, [], [])" by (simp add: caching_ok_def cache_ok_def flights_ok_def new_cache_def)
  from cache_ops_ok[OF this, of ttl ops] s have ok: "cache_ok n c" and sub: "set (ch_inflight c) \<subseteq> set run"
    and fl: "count_list run k \<le> count_list over k + (if k \<in> set (ch_inflight c) then 1 else 0)"
    by (simp_all add: caching_ok_def flights_ok_def)
  have room: "length (ch_entries c) \<le> max 1 n" using ok by (simp add: cache_ok_def)
  have bound: "count_list run k + (if fst (load_start now k c) = Loading then 1 else 0) \<le> 1 + count_list over k"
    using fl by (auto simp: load_start_eq split: option.splits if_splits)
  have joins: "k \<in> set (ch_inflight c) \<longleftrightarrow> k \<in> set run" if none: "k \<notin> set over"
  proof -
    have "count_list over k = 0" using none by (simp add: count_list_0_iff)
    then show ?thesis using fl sub count_pos[of run k] by (auto split: if_splits)
  qed
  have one: "count_list run k \<le> 1" if none: "k \<notin> set over"
    using none fl by (auto simp: count_list_0_iff[THEN iffD2] split: if_splits)
  show ?thesis unfolding s Let_def prod.case
  proof (intro conjI)
    show "case fst (cache_get now k c) of Some v \<Rightarrow> fst (load_start now k c) = Hit v
      | None \<Rightarrow> fst (load_start now k c) = Loading \<or> fst (load_start now k c) = Coalesced \<and> k \<in> set run"
      using sub by (auto simp: load_start_eq split: option.split)
    show "if k \<in> set over then True
      else count_list run k \<le> 1 \<and> (if fst (cache_get now k c) = None
        then fst (load_start now k c) = (if k \<in> set run then Coalesced else Loading) else True)"
      using joins one by (auto simp: load_start_eq)
  qed (rule room bound)+
qed

text \<open>Why the clears count: a load that was running at a clear and fails takes away the marker of the
  load started after it, so a third load starts while the second runs, both younger than the clear.\<close>

lemma cleared_flights:
  "let ops = [Load 0 ''k'', Clear, Load 1 ''k'', Loaded 2 ''k'' (Inl Other_error), Load 3 ''k''];
       (c, run, over) = fold (cache_step (\<lambda>v::num. 10)) ops (new_cache 4, [], [])
   in run = [''k'', ''k''] \<and> over = [''k'']"
  by code_simp

lemma cache_set_get:
  "fst (cache_get t k (cache_set now k v ttl c)) = (if t < now + ttl then Some v else None)"
  by (simp add: cache_get_def cache_set_def Let_def)

text \<open>A loaded value is served until its time to live is over, and a failed load is not cached.
  After a load ends well, the next lookup of the key is a hit exactly before the expiry and
  starts a new load from then on; after one that fails, a key with no entry is loaded again.
  Under accepted times to live a settled market is kept at least ten times as long as an open
  one, and an open one between 10 and 30 seconds.\<close>

theorem cache_serves:
  assumes "assertCacheTtls t = Inr t'" and "jm_get (ch_entries c) k = None"
  shows "fst (load_start now' k (load_end now (\<lambda>v. ttlForStatus (st v) t') k (Inr v) c)) =
      (if now' < now + ttlForStatus (st v) t' then Hit v else Loading)"
    and "fst (load_start now' k (load_end now (\<lambda>v. ttlForStatus (st v) t') k (Inl e) c)) = Loading"
    and "isSettledStatus s1 \<Longrightarrow> \<not> isSettledStatus s2 \<Longrightarrow>
      10 * ttlForStatus s2 t' \<le> ttlForStatus s1 t' \<and> inRange (ttlForStatus s2 t') 10000 30000"
proof -
  have gets: "fst (cache_get now' k (x\<lparr>ch_inflight := i\<rparr>)) = fst (cache_get now' k x)"
    "ch_inflight (snd (cache_get now' k x)) = ch_inflight x" for x :: "'a cache" and i
    by (simp_all add: cache_get_def split: option.split)
  have start: "fst (load_start now' k x) = (case fst (cache_get now' k x) of Some v \<Rightarrow> Hit v
      | None \<Rightarrow> if k \<in> set (ch_inflight x) then Coalesced else Loading)" for x :: "'a cache"
    using gets(2)[of x] by (auto simp: load_start_def split: prod.split option.split)
  show "fst (load_start now' k (load_end now (\<lambda>v. ttlForStatus (st v) t') k (Inr v) c)) =
      (if now' < now + ttlForStatus (st v) t' then Hit v else Loading)"
    by (simp add: start load_end_def Let_def gets cache_set_get)
  show "fst (load_start now' k (load_end now (\<lambda>v. ttlForStatus (st v) t') k (Inl e) c)) = Loading"
    using assms(2) by (simp add: start load_end_def Let_def gets) (simp add: cache_get_def)
  show "isSettledStatus s1 \<Longrightarrow> \<not> isSettledStatus s2 \<Longrightarrow>
      10 * ttlForStatus s2 t' \<le> ttlForStatus s1 t' \<and> inRange (ttlForStatus s2 t') 10000 30000"
    using assms(1) by (auto simp: assertCacheTtls_def ttlForStatus_def split: if_splits)
qed

theorem cache_serves_witness:
  "fst (load_start 16000 ''m'' (load_end 1000 (\<lambda>v. ttlForStatus v DEFAULT_CACHE_TTLS) ''m'' (Inr M_OPEN) (new_cache 2))) = Loading \<and>
   fst (load_start 15999 ''m'' (load_end 1000 (\<lambda>v. ttlForStatus v DEFAULT_CACHE_TTLS) ''m'' (Inr M_OPEN) (new_cache 2))) = Hit M_OPEN"
proof -
  have a: "assertCacheTtls DEFAULT_CACHE_TTLS = Inr DEFAULT_CACHE_TTLS" by code_simp
  have b: "jm_get (ch_entries (new_cache 2)) ''m'' = (None :: venue_market_status entry option)" by (simp add: new_cache_def)
  have ttl: "ttlForStatus M_OPEN DEFAULT_CACHE_TTLS = 15000" by code_simp
  show ?thesis
    using cache_serves(1)[OF a b, where now = 1000 and st = "\<lambda>v. v" and v = M_OPEN and now' = 16000]
      cache_serves(1)[OF a b, where now = 1000 and st = "\<lambda>v. v" and v = M_OPEN and now' = 15999]
    by (simp add: ttl)
qed

end
