(* ===== verification/Orders.thy ===== *)
theory Orders
  imports Venue
begin

text \<open>
  The store of venue data (\<open>src/prediction/store.ts\<close>) and the reconciler of funded orders
  (\<open>Reconciler.ts\<close>): markets, price observations, resolutions, orders, positions and cursors,
  with every refusal of the code. Identifiers made by hashing and the check of captured price
  evidence are parameters. The lemmas show that an order reads as filled only with confirmed
  evidence, that an idempotency key means one order, that resolutions never change, and that
  reconciling twice changes nothing more.
\<close>

section \<open>Data\<close>

record raw_payload =
  rp_venue :: venue_id
  rp_venueMarketId :: string
  rp_payloadVersion :: int
  rp_fetchedAt :: int
  rp_body :: string

record venue_market =
  vm_id :: string
  vm_venue :: venue_id
  vm_venueMarketId :: string
  vm_question :: string
  vm_rulesText :: string
  vm_category :: string
  vm_outcomes :: "(side \<times> string) list"
  vm_status :: venue_market_status
  vm_rawStatus :: string
  vm_opensAt :: "int option"
  vm_closesAt :: "int option"
  vm_resolvesAt :: "int option"
  vm_resolutionSource :: "string option"
  vm_lastSyncedAt :: int
  vm_payloadVersion :: int

record venue_market_record =
  vr_market :: venue_market
  vr_raw :: "raw_payload option"

datatype price_source = Src_venue | Src_fixture

record market_snapshot =
  sn_marketId :: string
  sn_yesProbability :: num
  sn_observedAt :: int
  sn_source :: price_source

datatype share_currency = USDC | SOL

record share_price =
  sp_id :: string
  sp_marketId :: string
  sp_currency :: share_currency
  sp_yesPrice :: "string option"
  sp_noPrice :: "string option"
  sp_observedAt :: int

record resolution_input =
  ri_marketId :: string
  ri_venue :: venue_id
  ri_venueMarketId :: string
  ri_resolution :: resolution
  ri_resolvedAt :: int
  ri_evidenceSource :: string
  ri_rawEvidence :: string

record resolution_record =
  rr_id :: string
  rr_input :: resolution_input
  rr_recordedAt :: int
  rr_demo :: bool

record venue_order =
  vo_orderId :: string
  vo_venueOrderId :: "string option"
  vo_venue :: venue_id
  vo_venueMarketId :: string
  vo_owner :: string
  vo_side :: side
  vo_amountBaseUnits :: string
  vo_filledBaseUnits :: string
  vo_fundingState :: funding_state
  vo_fillTxSignature :: "string option"
  vo_createdAt :: int
  vo_updatedAt :: int
  vo_idempotencyKey :: "string option"
  vo_demo :: bool

record fill_evidence =
  fe_venue :: venue_id
  fe_venueOrderId :: string
  fe_filledBaseUnits :: string
  fe_fillTxSignature :: string
  fe_confirmedAt :: int
  fe_raw :: "venue_order option"

record order_record =
  od_orderId :: string
  od_venue :: venue_id
  od_venueMarketId :: string
  od_marketId :: string
  od_ownerKey :: string
  od_ownerAddress :: string
  od_side :: side
  od_amountBaseUnits :: string
  od_filledBaseUnits :: string
  od_fundingState :: funding_state
  od_venueOrderId :: "string option"
  od_fillTxSignature :: "string option"
  od_fillEvidence :: "fill_evidence option"
  od_idempotencyKey :: string
  od_requestFingerprint :: string
  od_createdAt :: int
  od_updatedAt :: int
  od_reconciledAt :: "int option"
  od_demo :: bool

record position_record =
  pn_positionId :: string
  pn_venue :: venue_id
  pn_venueMarketId :: string
  pn_marketId :: string
  pn_owner :: string
  pn_side :: side
  pn_sizeBaseUnits :: string
  pn_averageProbability :: "num option"
  pn_fundingState :: funding_state
  pn_claimableBaseUnits :: string
  pn_resolution :: "resolution option"
  pn_updatedAt :: int
  pn_demo :: bool
  pn_ownerKey :: string

record prediction_store =
  st_markets :: "(string, venue_market_record) jmap"
  st_snaps :: "(string, market_snapshot list) jmap"
  st_sharePrices :: "(string, share_price list) jmap"
  st_resolutions :: "(string, resolution_record) jmap"
  st_orders :: "(string, order_record) jmap"
  st_idemIndex :: "(string, string) jmap"
  st_positions :: "(string, position_record) jmap"
  st_cursors :: "(string, string option) jmap"
  st_rawHeld :: "string list"
  st_maxSnapshots :: nat
  st_maxRawHeld :: nat
  st_resolutionSeq :: nat

definition new_store :: "nat \<Rightarrow> nat \<Rightarrow> prediction_store" where
  "new_store snaps raws = \<lparr>st_markets = [], st_snaps = [], st_sharePrices = [], st_resolutions = [],
     st_orders = [], st_idemIndex = [], st_positions = [], st_cursors = [], st_rawHeld = [],
     st_maxSnapshots = snaps, st_maxRawHeld = raws, st_resolutionSeq = 0\<rparr>"

type_synonym 'a stored = "(thrown + 'a) \<times> prediction_store"

definition refuse :: "venue_error_code \<Rightarrow> prediction_store \<Rightarrow> 'a stored" where
  "refuse c st = (Inl (Venue_error c None), st)"

section \<open>Markets and prices\<close>

text \<open>Raw payloads beyond the window are dropped, oldest first; the market just written keeps its own.\<close>

fun evict_raw :: "string \<Rightarrow> nat \<Rightarrow> string list \<Rightarrow> (string, venue_market_record) jmap
    \<Rightarrow> string list \<times> (string, venue_market_record) jmap" where
  "evict_raw k n [] ms = ([], ms)"
| "evict_raw k n (h # hs) ms =
     (if Suc (length hs) \<le> n then (h # hs, ms)
      else if h = k then evict_raw k n hs ms
      else (case jm_get ms h of
              None \<Rightarrow> evict_raw k n hs ms
            | Some r \<Rightarrow> evict_raw k n hs
                (if vr_raw r \<noteq> None then jm_set h \<lparr>vr_market = vr_market r, vr_raw = None\<rparr> ms else ms)))"

definition upsertMarket :: "venue_market \<Rightarrow> raw_payload option \<Rightarrow> prediction_store \<Rightarrow> venue_market_record stored" where
  "upsertMarket m raw st =
     (if (case jm_get (st_markets st) (vm_id m) of None \<Rightarrow> False | Some e \<Rightarrow> vm_venue (vr_market e) \<noteq> vm_venue m)
      then refuse INVALID_TRANSITION st
      else
        (let rec = \<lparr>vr_market = m, vr_raw = raw\<rparr>;
             st = st\<lparr>st_markets := jm_set (vm_id m) rec (st_markets st)\<rparr>
         in if raw = None then (Inr rec, st)
            else (case evict_raw (vm_id m) (st_maxRawHeld st) (st_rawHeld st @ [vm_id m]) (st_markets st) of
                    (held, ms) \<Rightarrow> (Inr rec, st\<lparr>st_rawHeld := held, st_markets := ms\<rparr>))))"

definition getMarketByVenueId :: "venue_id \<Rightarrow> string \<Rightarrow> prediction_store \<Rightarrow> venue_market_record option" where
  "getMarketByVenueId v k st =
     find (\<lambda>r. vm_venue (vr_market r) = v \<and> vm_venueMarketId (vr_market r) = k) (jm_values (st_markets st))"

definition snapshots :: "string \<Rightarrow> prediction_store \<Rightarrow> market_snapshot list" where
  "snapshots k st = (case jm_get (st_snaps st) k of None \<Rightarrow> [] | Some ss \<Rightarrow> ss)"

definition latestSnapshot :: "string \<Rightarrow> prediction_store \<Rightarrow> market_snapshot option" where
  "latestSnapshot k st = (let ss = snapshots k st in if ss = [] then None else Some (last ss))"

definition appendSnapshot :: "market_snapshot \<Rightarrow> prediction_store \<Rightarrow> unit stored" where
  "appendSnapshot s st =
     (if \<not> isProbability (sn_yesProbability s) then refuse INVALID_TRANSITION st
      else
        (let ss = snapshots (sn_marketId s) st
         in if ss \<noteq> [] \<and> sn_observedAt (last ss) = sn_observedAt s \<and> sn_yesProbability (last ss) = sn_yesProbability s
            then (Inr (), st)
            else (Inr (), st\<lparr>st_snaps := jm_set (sn_marketId s) (take_last (st_maxSnapshots st) (ss @ [s])) (st_snaps st)\<rparr>)))"

text \<open>Share prices: the check of an observation (its decimals, its time, its derived id) and of the
  evidence it was read from are given.\<close>

definition appendSharePrice :: "(share_price \<Rightarrow> bool) \<Rightarrow> (share_price \<Rightarrow> raw_payload option \<Rightarrow> string \<Rightarrow> bool)
    \<Rightarrow> share_price \<Rightarrow> raw_payload option \<Rightarrow> prediction_store \<Rightarrow> unit stored" where
  "appendSharePrice parses evidenced s raw st =
     (if \<not> parses s then refuse VENUE_SCHEMA st
      else case jm_get (st_markets st) (sp_marketId s) of
        None \<Rightarrow> refuse VENUE_SCHEMA st
      | Some m \<Rightarrow>
          if vm_venue (vr_market m) \<noteq> V_panta then refuse VENUE_SCHEMA st
          else if \<not> evidenced s raw (vm_venueMarketId (vr_market m)) then refuse VENUE_SCHEMA st
          else
            (let rows = (case jm_get (st_sharePrices st) (sp_marketId s) of None \<Rightarrow> [] | Some rs \<Rightarrow> rs)
             in case find (\<lambda>r. sp_id r = sp_id s) rows of
                  Some p \<Rightarrow> if p \<noteq> s then refuse INVALID_TRANSITION st else (Inr (), st)
                | None \<Rightarrow> (Inr (), st\<lparr>st_sharePrices := jm_set (sp_marketId s)
                    (take_last (st_maxSnapshots st) (sort_key sp_observedAt (rows @ [s]))) (st_sharePrices st)\<rparr>)))"

section \<open>Resolutions\<close>

definition recordResolution :: "resolution_input \<Rightarrow> int \<Rightarrow> prediction_store \<Rightarrow> resolution_record stored" where
  "recordResolution r tm st =
     (case jm_get (st_resolutions st) (ri_marketId r) of
        Some e \<Rightarrow> if ri_resolution (rr_input e) \<noteq> ri_resolution r then refuse INVALID_TRANSITION st else (Inr e, st)
      | None \<Rightarrow>
          (let rec = \<lparr>rr_id = ''res_'' @ nat_str (Suc (st_resolutionSeq st)), rr_input = r, rr_recordedAt = tm,
                      rr_demo = (ri_venue r = V_fixture)\<rparr>
           in (Inr rec, st\<lparr>st_resolutions := jm_set (ri_marketId r) rec (st_resolutions st),
                          st_resolutionSeq := Suc (st_resolutionSeq st)\<rparr>)))"

section \<open>Orders\<close>

definition idemKey :: "string \<Rightarrow> string \<Rightarrow> string" where
  "idemKey owner k = owner @ ''::'' @ k"

definition findOrderByIdempotencyKey :: "string \<Rightarrow> string \<Rightarrow> prediction_store \<Rightarrow> order_record option" where
  "findOrderByIdempotencyKey owner k st =
     (case jm_get (st_idemIndex st) (idemKey owner k) of
        None \<Rightarrow> None
      | Some oid \<Rightarrow> if oid = [] then None else jm_get (st_orders st) oid)"

definition createOrder :: "order_record \<Rightarrow> prediction_store \<Rightarrow> order_record stored" where
  "createOrder rec st =
     (if od_fundingState rec = F_FILLED then refuse INVALID_TRANSITION st
      else if (case jm_get (st_orders st) (od_orderId rec) of None \<Rightarrow> False | Some c \<Rightarrow> od_ownerKey c \<noteq> od_ownerKey rec)
      then refuse IDEMPOTENCY_CONFLICT st
      else
        (let k = idemKey (od_ownerKey rec) (od_idempotencyKey rec);
             fresh = (Inr rec, st\<lparr>st_orders := jm_set (od_orderId rec) rec (st_orders st),
                                st_idemIndex := jm_set k (od_orderId rec) (st_idemIndex st)\<rparr>)
         in case jm_get (st_idemIndex st) k of
              None \<Rightarrow> fresh
            | Some oid \<Rightarrow>
                if oid = [] then fresh
                else (case jm_get (st_orders st) oid of
                    None \<Rightarrow> (Inl Other_error, st)
                  | Some e \<Rightarrow>
                      if od_requestFingerprint e \<noteq> od_requestFingerprint rec then refuse IDEMPOTENCY_CONFLICT st
                      else (Inr e, st))))"

definition listOrders :: "string \<Rightarrow> prediction_store \<Rightarrow> order_record list" where
  "listOrders owner st = filter (\<lambda>o1. od_ownerKey o1 = owner) (jm_values (st_orders st))"

definition NON_FILL_STATES :: "funding_state list" where
  "NON_FILL_STATES = [F_QUOTED, F_SUBMITTED, F_PARTIAL, F_FAILED, F_CLOSED, F_CLAIMABLE, F_CLAIMED]"

definition setOrderState :: "string \<Rightarrow> funding_state \<Rightarrow> int \<Rightarrow> prediction_store \<Rightarrow> order_record stored" where
  "setOrderState oid nxt tm st =
     (case jm_get (st_orders st) oid of
        None \<Rightarrow> refuse VENUE_NOT_FOUND st
      | Some o1 \<Rightarrow>
          if nxt = F_FILLED then refuse INVALID_TRANSITION st
          else if nxt \<notin> set NON_FILL_STATES then refuse INVALID_TRANSITION st
          else if od_fundingState o1 = F_FILLED \<and> nxt \<notin> {F_CLOSED, F_CLAIMABLE, F_CLAIMED}
          then refuse INVALID_TRANSITION st
          else (let u = o1\<lparr>od_fundingState := nxt, od_updatedAt := tm\<rparr>
                in (Inr u, st\<lparr>st_orders := jm_set oid u (st_orders st)\<rparr>)))"

definition FILL_PREDECESSORS :: "funding_state list" where
  "FILL_PREDECESSORS = [F_SUBMITTED, F_PARTIAL]"

definition filled_order :: "order_record \<Rightarrow> fill_evidence \<Rightarrow> bool \<Rightarrow> int \<Rightarrow> order_record" where
  "filled_order o1 ev full tm = o1\<lparr>od_fundingState := (if full then F_FILLED else F_PARTIAL),
     od_filledBaseUnits := fe_filledBaseUnits ev, od_venueOrderId := Some (fe_venueOrderId ev),
     od_fillTxSignature := Some (fe_fillTxSignature ev), od_fillEvidence := Some ev,
     od_reconciledAt := Some tm, od_updatedAt := tm\<rparr>"

text \<open>Base units are decimal texts; a text that is no number is an error of another kind.\<close>

definition applyFill :: "string \<Rightarrow> fill_evidence \<Rightarrow> int \<Rightarrow> prediction_store \<Rightarrow> order_record stored" where
  "applyFill oid ev tm st =
     (case jm_get (st_orders st) oid of
        None \<Rightarrow> refuse VENUE_NOT_FOUND st
      | Some o1 \<Rightarrow>
          if fe_venueOrderId ev = [] \<or> fe_fillTxSignature ev = [] then refuse INVALID_TRANSITION st
          else case parse_int (fe_filledBaseUnits ev) of
            None \<Rightarrow> (Inl Other_error, st)
          | Some filled \<Rightarrow>
              if filled \<le> 0 then refuse INVALID_TRANSITION st
              else if fe_venue ev \<noteq> od_venue o1 then refuse INVALID_TRANSITION st
              else if od_fundingState o1 = F_FILLED
              then (if od_fillTxSignature o1 \<noteq> Some (fe_fillTxSignature ev) then refuse INVALID_TRANSITION st
                    else (Inr o1, st))
              else if od_fundingState o1 \<notin> set FILL_PREDECESSORS then refuse INVALID_TRANSITION st
              else (case parse_int (od_amountBaseUnits o1) of
                  None \<Rightarrow> (Inl Other_error, st)
                | Some amount \<Rightarrow>
                    (let u = filled_order o1 ev (filled \<ge> amount) tm
                     in (Inr u, st\<lparr>st_orders := jm_set oid u (st_orders st)\<rparr>))))"

text \<open>The text a replayed request is compared by.\<close>

definition side_text :: "side \<Rightarrow> string" where
  "side_text s = (case s of YES \<Rightarrow> ''YES'' | NO \<Rightarrow> ''NO'')"

definition orderFingerprint :: "string \<Rightarrow> string \<Rightarrow> side \<Rightarrow> string \<Rightarrow> string" where
  "orderFingerprint owner k s amount = owner @ ''|'' @ k @ ''|'' @ side_text s @ ''|'' @ amount"

section \<open>Positions and cursors\<close>

definition upsertPosition :: "position_record \<Rightarrow> prediction_store \<Rightarrow> position_record \<times> prediction_store" where
  "upsertPosition p st =
     (case jm_get (st_positions st) (pn_positionId p) of
        Some e \<Rightarrow> if pn_updatedAt e > pn_updatedAt p then (e, st)
                  else (p, st\<lparr>st_positions := jm_set (pn_positionId p) p (st_positions st)\<rparr>)
      | None \<Rightarrow> (p, st\<lparr>st_positions := jm_set (pn_positionId p) p (st_positions st)\<rparr>))"

definition listPositions :: "string \<Rightarrow> prediction_store \<Rightarrow> position_record list" where
  "listPositions owner st = filter (\<lambda>p. pn_ownerKey p = owner) (jm_values (st_positions st))"

definition getCursor :: "string \<Rightarrow> prediction_store \<Rightarrow> string option" where
  "getCursor k st = (case jm_get (st_cursors st) k of None \<Rightarrow> None | Some c \<Rightarrow> c)"

definition setCursor :: "string \<Rightarrow> string option \<Rightarrow> prediction_store \<Rightarrow> prediction_store" where
  "setCursor k c st = st\<lparr>st_cursors := jm_set k c (st_cursors st)\<rparr>"

section \<open>The reconciler\<close>

definition REPAIRABLE :: "funding_state list" where
  "REPAIRABLE = [F_QUOTED, F_SUBMITTED, F_PARTIAL]"

record reconcile_report =
  re_ordersChecked :: nat
  re_ordersFilled :: nat
  re_ordersPartial :: nat
  re_ordersFailed :: nat
  re_ordersUnchanged :: nat
  re_ordersMissingAtVenue :: nat
  re_positionsUpserted :: nat
  re_pages :: nat
  re_cursor :: "string option"

definition empty_report :: reconcile_report where
  "empty_report = \<lparr>re_ordersChecked = 0, re_ordersFilled = 0, re_ordersPartial = 0, re_ordersFailed = 0,
     re_ordersUnchanged = 0, re_ordersMissingAtVenue = 0, re_positionsUpserted = 0, re_pages = 0, re_cursor = None\<rparr>"

definition evidenceFrom :: "venue_order \<Rightarrow> int \<Rightarrow> fill_evidence option" where
  "evidenceFrom r tm =
     (case (vo_venueOrderId r, vo_fillTxSignature r) of
        (Some vid, Some sig) \<Rightarrow>
          if vid = [] \<or> sig = [] then None
          else (case parse_int (vo_filledBaseUnits r) of
              None \<Rightarrow> None
            | Some f \<Rightarrow>
                if f \<le> 0 then None
                else Some \<lparr>fe_venue = vo_venue r, fe_venueOrderId = vid, fe_filledBaseUnits = vo_filledBaseUnits r,
                  fe_fillTxSignature = sig, fe_confirmedAt = (if vo_updatedAt r \<noteq> 0 then vo_updatedAt r else tm),
                  fe_raw = Some r\<rparr>)
      | _ \<Rightarrow> None)"

type_synonym 'a pass = "(thrown + 'a) \<times> prediction_store"

text \<open>One local order against the venue's record of it, at the time it is looked at.\<close>

definition reconcile_order :: "(string \<Rightarrow> thrown + venue_order) \<Rightarrow> (string \<Rightarrow> int) \<Rightarrow> order_record
    \<Rightarrow> reconcile_report \<Rightarrow> prediction_store \<Rightarrow> reconcile_report pass" where
  "reconcile_order getOrder clock l rep st =
     (if od_fundingState l \<notin> set REPAIRABLE then (Inr rep, st)
      else
        (let rep = rep\<lparr>re_ordersChecked := re_ordersChecked rep + 1\<rparr>;
             oid = od_orderId l; tm = clock oid;
             unchanged = rep\<lparr>re_ordersUnchanged := re_ordersUnchanged rep + 1\<rparr>
         in case getOrder oid of
              Inl e \<Rightarrow>
                (case e of
                   Venue_error VENUE_NOT_FOUND _ \<Rightarrow>
                     (Inr (rep\<lparr>re_ordersMissingAtVenue := re_ordersMissingAtVenue rep + 1\<rparr>), st)
                 | _ \<Rightarrow> (Inl e, st))
            | Inr r \<Rightarrow>
                if vo_fundingState r = F_FILLED \<or> vo_fundingState r = F_PARTIAL
                then
                  (case (if od_fundingState l = F_QUOTED then map_prod (map_sum id Some) id (setOrderState oid F_SUBMITTED tm st)
                         else (Inr None, st)) of
                     (Inl e, st) \<Rightarrow> (Inl e, st)
                   | (Inr _, st) \<Rightarrow>
                       (case evidenceFrom r tm of
                          None \<Rightarrow> (Inr unchanged, st)
                        | Some ev \<Rightarrow>
                            (case applyFill oid ev tm st of
                               (Inl e, st) \<Rightarrow> (Inl e, st)
                             | (Inr u, st) \<Rightarrow>
                                 if od_fundingState u = F_FILLED
                                 then (Inr (rep\<lparr>re_ordersFilled := re_ordersFilled rep + 1\<rparr>), st)
                                 else (Inr (rep\<lparr>re_ordersPartial := re_ordersPartial rep + 1\<rparr>), st))))
                else if vo_fundingState r = F_FAILED
                then (case setOrderState oid F_FAILED tm st of
                        (Inl e, st) \<Rightarrow> (Inl e, st)
                      | (Inr _, st) \<Rightarrow> (Inr (rep\<lparr>re_ordersFailed := re_ordersFailed rep + 1\<rparr>), st))
                else if vo_fundingState r = F_SUBMITTED \<and> od_fundingState l = F_QUOTED
                then (case setOrderState oid F_SUBMITTED tm st of
                        (Inl e, st) \<Rightarrow> (Inl e, st)
                      | (Inr _, st) \<Rightarrow> (Inr unchanged, st))
                else (Inr unchanged, st)))"

fun reconcile_orders :: "(string \<Rightarrow> thrown + venue_order) \<Rightarrow> (string \<Rightarrow> int) \<Rightarrow> order_record list
    \<Rightarrow> reconcile_report \<Rightarrow> prediction_store \<Rightarrow> reconcile_report pass" where
  "reconcile_orders getOrder clock [] rep st = (Inr rep, st)"
| "reconcile_orders getOrder clock (l # ls) rep st =
     (case reconcile_order getOrder clock l rep st of
        (Inl e, st) \<Rightarrow> (Inl e, st)
      | (Inr rep, st) \<Rightarrow> reconcile_orders getOrder clock ls rep st)"

text \<open>The pages of positions from a cursor on, the cursor saved after each, at most so many.\<close>

fun walk_positions :: "(string \<Rightarrow> string option \<Rightarrow> thrown + position_record list \<times> string option) \<Rightarrow> string \<Rightarrow> string
    \<Rightarrow> nat \<Rightarrow> string option \<Rightarrow> reconcile_report \<Rightarrow> prediction_store \<Rightarrow> reconcile_report pass" where
  "walk_positions list_page owner key 0 cursor rep st = (Inr rep, st)"
| "walk_positions list_page owner key (Suc n) cursor rep st =
     (case list_page owner cursor of
        Inl e \<Rightarrow> (Inl e, st)
      | Inr (ps, nxt) \<Rightarrow>
          (let rep = rep\<lparr>re_pages := re_pages rep + 1, re_positionsUpserted := re_positionsUpserted rep + length ps\<rparr>;
               st = setCursor key nxt (fold (\<lambda>p st. snd (upsertPosition p st)) ps st)
           in if nxt = None \<or> nxt = Some [] then (Inr rep, st)
              else walk_positions list_page owner key n nxt rep st))"

definition cursorKey :: "string \<Rightarrow> string" where
  "cursorKey owner = ''positions:'' @ owner"

definition runOnce :: "(string \<Rightarrow> thrown + venue_order)
    \<Rightarrow> (string \<Rightarrow> string option \<Rightarrow> thrown + position_record list \<times> string option) \<Rightarrow> (string \<Rightarrow> int) \<Rightarrow> nat
    \<Rightarrow> string \<Rightarrow> string \<Rightarrow> prediction_store \<Rightarrow> reconcile_report pass" where
  "runOnce getOrder list_page clock maxPages ownerKey owner st =
     (case reconcile_orders getOrder clock (listOrders ownerKey st) empty_report st of
        (Inl e, st) \<Rightarrow> (Inl e, st)
      | (Inr rep, st) \<Rightarrow>
          (let owned = \<lambda>o1 c. map_sum id (\<lambda>(ps, nxt). (map (\<lambda>p. p\<lparr>pn_ownerKey := ownerKey\<rparr>) ps, nxt)) (list_page o1 c)
           in case walk_positions owned owner (cursorKey ownerKey) maxPages (getCursor (cursorKey ownerKey) st) rep st of
                (Inl e, st) \<Rightarrow> (Inl e, st)
              | (Inr rep, st) \<Rightarrow> (Inr (rep\<lparr>re_cursor := getCursor (cursorKey ownerKey) st\<rparr>), st)))"

section \<open>What an order may be\<close>

datatype order_op = Create order_record | Set_state string funding_state int | Fill string fill_evidence int

fun order_step :: "order_op \<Rightarrow> prediction_store \<Rightarrow> prediction_store" where
  "order_step (Create rec) st = snd (createOrder rec st)"
| "order_step (Set_state oid s tm) st = snd (setOrderState oid s tm st)"
| "order_step (Fill oid ev tm) st = snd (applyFill oid ev tm st)"

definition proven_fill :: "order_record \<Rightarrow> fill_evidence \<Rightarrow> bool" where
  "proven_fill o1 ev \<longleftrightarrow> fe_venue ev = od_venue o1 \<and> fe_venueOrderId ev \<noteq> [] \<and> fe_fillTxSignature ev \<noteq> [] \<and>
     od_fillTxSignature o1 = Some (fe_fillTxSignature ev) \<and>
     (case (parse_int (fe_filledBaseUnits ev), parse_int (od_amountBaseUnits o1)) of
        (Some f, Some a) \<Rightarrow> 0 < f \<and> a \<le> f | _ \<Rightarrow> False)"

definition order_ok :: "string \<Rightarrow> order_record \<Rightarrow> bool" where
  "order_ok k o1 \<longleftrightarrow> od_orderId o1 = k \<and>
     (od_fundingState o1 = F_FILLED \<longrightarrow> (case od_fillEvidence o1 of None \<Rightarrow> False | Some ev \<Rightarrow> proven_fill o1 ev))"

definition orders_ok :: "prediction_store \<Rightarrow> bool" where
  "orders_ok st \<longleftrightarrow> jm_wf (st_orders st) \<and> jm_all order_ok (st_orders st) \<and>
     jm_all (\<lambda>k oid. jm_get (st_orders st) oid \<noteq> None) (st_idemIndex st)"

lemma orders_ok_new: "orders_ok (new_store a b)"
  by (simp add: orders_ok_def new_store_def)

lemma jm_get_mono_set: "jm_get m j \<noteq> None \<Longrightarrow> jm_get (jm_set k v m) j \<noteq> None"
  by simp

lemma orders_ok_put:
  assumes "orders_ok st" "order_ok k o1"
  shows "orders_ok (st\<lparr>st_orders := jm_set k o1 (st_orders st)\<rparr>)"
  using assms unfolding orders_ok_def
  by (auto elim!: jm_all_mono)

lemma createOrder_cases:
  "createOrder rec st = (r, st') \<Longrightarrow> st' = st \<or>
    (od_fundingState rec \<noteq> F_FILLED \<and> r = Inr rec \<and>
     (\<forall>c. jm_get (st_orders st) (od_orderId rec) = Some c \<longrightarrow> od_ownerKey c = od_ownerKey rec) \<and>
     (\<forall>oid. jm_get (st_idemIndex st) (idemKey (od_ownerKey rec) (od_idempotencyKey rec)) = Some oid \<longrightarrow> oid = []) \<and>
     st' = st\<lparr>st_orders := jm_set (od_orderId rec) rec (st_orders st),
       st_idemIndex := jm_set (idemKey (od_ownerKey rec) (od_idempotencyKey rec)) (od_orderId rec) (st_idemIndex st)\<rparr>)"
  by (auto simp: createOrder_def refuse_def Let_def split: if_splits option.splits)

lemma setOrderState_cases:
  "setOrderState oid s tm st = (r, st') \<Longrightarrow> st' = st \<and> (\<exists>c. r = Inl c) \<or>
    (\<exists>o1. jm_get (st_orders st) oid = Some o1 \<and> s \<noteq> F_FILLED \<and>
      r = Inr (o1\<lparr>od_fundingState := s, od_updatedAt := tm\<rparr>) \<and>
      st' = st\<lparr>st_orders := jm_set oid (o1\<lparr>od_fundingState := s, od_updatedAt := tm\<rparr>) (st_orders st)\<rparr>)"
  by (auto simp: setOrderState_def refuse_def Let_def split: if_splits option.splits)

lemma applyFill_cases:
  "applyFill oid ev tm st = (r, st') \<Longrightarrow> st' = st \<or>
    (\<exists>o1 f a. jm_get (st_orders st) oid = Some o1 \<and> fe_venueOrderId ev \<noteq> [] \<and> fe_fillTxSignature ev \<noteq> [] \<and>
      parse_int (fe_filledBaseUnits ev) = Some f \<and> 0 < f \<and> fe_venue ev = od_venue o1 \<and>
      od_fundingState o1 \<in> set FILL_PREDECESSORS \<and> parse_int (od_amountBaseUnits o1) = Some a \<and>
      r = Inr (filled_order o1 ev (a \<le> f) tm) \<and>
      st' = st\<lparr>st_orders := jm_set oid (filled_order o1 ev (a \<le> f) tm) (st_orders st)\<rparr>)"
  by (auto simp: applyFill_def refuse_def Let_def split: if_splits option.splits)

lemma order_step_ok: "orders_ok st \<Longrightarrow> orders_ok (order_step x st)"
proof (cases x)
  case (Create rec)
  assume ok: "orders_ok st"
  obtain r st' where c: "createOrder rec st = (r, st')" by (metis surj_pair)
  let ?os = "jm_set (od_orderId rec) rec (st_orders st)"
  have "jm_all (\<lambda>k oid. jm_get ?os oid \<noteq> None) (st_idemIndex st)"
    using ok unfolding orders_ok_def by (auto elim!: jm_all_mono)
  then have "jm_all (\<lambda>k oid. jm_get ?os oid \<noteq> None) (jm_set i (od_orderId rec) (st_idemIndex st))" for i
    by (rule jm_all_set) simp
  moreover have "od_fundingState rec \<noteq> F_FILLED \<Longrightarrow> jm_all order_ok ?os"
    using ok by (intro jm_all_set) (simp_all add: orders_ok_def order_ok_def)
  ultimately show ?thesis using createOrder_cases[OF c] ok
    by (auto simp only: Create order_step.simps c snd_conv) (simp add: orders_ok_def)
next
  case (Set_state oid s tm)
  assume ok: "orders_ok st"
  obtain r st' where c: "setOrderState oid s tm st = (r, st')" by (metis surj_pair)
  have "order_ok oid o1" if "jm_get (st_orders st) oid = Some o1" for o1
    using ok that by (auto simp: orders_ok_def intro: jm_all_get)
  with setOrderState_cases[OF c] ok show ?thesis
    by (auto simp: Set_state c order_ok_def intro!: orders_ok_put)
next
  case (Fill oid ev tm)
  assume ok: "orders_ok st"
  obtain r st' where c: "applyFill oid ev tm st = (r, st')" by (metis surj_pair)
  have "order_ok oid o1" if "jm_get (st_orders st) oid = Some o1" for o1
    using ok that by (auto simp: orders_ok_def intro: jm_all_get)
  moreover have "order_ok oid (filled_order o1 ev (a \<le> f) tm)"
    if "order_ok oid o1" "parse_int (fe_filledBaseUnits ev) = Some f" "parse_int (od_amountBaseUnits o1) = Some a"
      "0 < f" "fe_venue ev = od_venue o1" "fe_venueOrderId ev \<noteq> []" "fe_fillTxSignature ev \<noteq> []" for o1 f a
    using that by (cases "a \<le> f") (simp_all add: order_ok_def filled_order_def proven_fill_def)
  ultimately have "orders_ok st'"
    using applyFill_cases[OF c] ok orders_ok_put by metis
  then show ?thesis by (simp only: Fill order_step.simps c snd_conv)
qed

lemma order_ops_ok: "orders_ok st \<Longrightarrow> orders_ok (fold order_step ops st)"
  by (induction ops arbitrary: st) (simp_all add: order_step_ok)

text \<open>C11: An order reads as filled only with the venue's proof. In every store reached from an empty
  one by creating orders, setting their states and applying fills, in any order and with any
  arguments, a filled order carries evidence from its own venue with a venue order id, a
  transaction signature and a positive filled size of at least the order's amount.\<close>

theorem funded_only_by_evidence:
  assumes "jm_get (st_orders (fold order_step ops (new_store a b))) oid = Some o1"
    and "od_fundingState o1 = F_FILLED"
  shows "\<exists>ev f n. od_fillEvidence o1 = Some ev \<and> fe_venue ev = od_venue o1 \<and> fe_venueOrderId ev \<noteq> [] \<and>
    fe_fillTxSignature ev \<noteq> [] \<and> od_fillTxSignature o1 = Some (fe_fillTxSignature ev) \<and>
    parse_int (fe_filledBaseUnits ev) = Some f \<and> parse_int (od_amountBaseUnits o1) = Some n \<and> 0 < f \<and> n \<le> f"
proof -
  have "orders_ok (fold order_step ops (new_store a b))" by (intro order_ops_ok orders_ok_new)
  then have "order_ok oid o1" using assms(1) by (auto simp: orders_ok_def intro: jm_all_get)
  with assms(2) show ?thesis by (auto simp: order_ok_def proven_fill_def split: option.splits)
qed

definition sample_order :: order_record where
  "sample_order = \<lparr>od_orderId = ''o1'', od_venue = V_panta, od_venueMarketId = ''vm'', od_marketId = ''m'',
     od_ownerKey = ''ann'', od_ownerAddress = ''w'', od_side = YES, od_amountBaseUnits = ''100'',
     od_filledBaseUnits = ''0'', od_fundingState = F_QUOTED, od_venueOrderId = None, od_fillTxSignature = None,
     od_fillEvidence = None, od_idempotencyKey = ''k1'', od_requestFingerprint = ''fp'', od_createdAt = 1,
     od_updatedAt = 1, od_reconciledAt = None, od_demo = False\<rparr>"

definition sample_evidence :: "string \<Rightarrow> fill_evidence" where
  "sample_evidence sig = \<lparr>fe_venue = V_panta, fe_venueOrderId = ''vo'', fe_filledBaseUnits = ''100'',
     fe_fillTxSignature = sig, fe_confirmedAt = 5, fe_raw = None\<rparr>"

definition sample_fill :: "order_op list" where
  "sample_fill = [Create sample_order, Set_state ''o1'' F_SUBMITTED 2, Fill ''o1'' (sample_evidence ''sig'') 3]"

theorem funded_only_by_evidence_witness:
  "\<exists>ev. od_fillEvidence (the (jm_get (st_orders (fold order_step sample_fill (new_store 9 9))) ''o1'')) = Some ev"
proof -
  let ?o = "the (jm_get (st_orders (fold order_step sample_fill (new_store 9 9))) ''o1'')"
  have "jm_get (st_orders (fold order_step sample_fill (new_store 9 9))) ''o1'' = Some ?o" by code_simp
  moreover have "od_fundingState ?o = F_FILLED" by code_simp
  ultimately show ?thesis using funded_only_by_evidence[of sample_fill 9 9 "''o1''" ?o] by blast
qed

text \<open>Once a key has an order it keeps it, and the order keeps its owner.\<close>

lemma key_kept:
  assumes "jm_get (st_idemIndex st) k = Some oid" "oid \<noteq> []"
  shows "jm_get (st_idemIndex (order_step x st)) k = Some oid"
proof (cases x)
  case (Create rec)
  obtain r st' where c: "createOrder rec st = (r, st')" by (metis surj_pair)
  from createOrder_cases[OF c] assms show ?thesis by (auto simp: Create c)
next
  case (Set_state i s tm)
  obtain r st' where c: "setOrderState i s tm st = (r, st')" by (metis surj_pair)
  from setOrderState_cases[OF c] assms show ?thesis by (auto simp: Set_state c)
next
  case (Fill i ev tm)
  obtain r st' where c: "applyFill i ev tm st = (r, st')" by (metis surj_pair)
  from applyFill_cases[OF c] assms show ?thesis by (auto simp: Fill c)
qed

lemma key_kept_ops:
  "jm_get (st_idemIndex st) k = Some oid \<Longrightarrow> oid \<noteq> [] \<Longrightarrow>
    jm_get (st_idemIndex (fold order_step ops st)) k = Some oid"
  by (induction ops arbitrary: st) (simp_all add: key_kept)

lemma owner_kept:
  assumes "jm_get (st_orders st) oid = Some o1"
  shows "\<exists>o2. jm_get (st_orders (order_step x st)) oid = Some o2 \<and> od_ownerKey o2 = od_ownerKey o1"
proof (cases x)
  case (Create rec)
  obtain r st' where c: "createOrder rec st = (r, st')" by (metis surj_pair)
  from createOrder_cases[OF c] assms show ?thesis by (auto simp: Create c)
next
  case (Set_state i s tm)
  obtain r st' where c: "setOrderState i s tm st = (r, st')" by (metis surj_pair)
  from setOrderState_cases[OF c] assms show ?thesis by (auto simp: Set_state c)
next
  case (Fill i ev tm)
  obtain r st' where c: "applyFill i ev tm st = (r, st')" by (metis surj_pair)
  from applyFill_cases[OF c] assms show ?thesis by (auto simp: Fill c filled_order_def)
qed

lemma createOrder_known:
  assumes "orders_ok st" "jm_get (st_idemIndex st) (idemKey (od_ownerKey rec) (od_idempotencyKey rec)) = Some oid" "oid \<noteq> []"
  shows "createOrder rec st = (r, st') \<Longrightarrow> st' = st \<and> (\<forall>o1. r = Inr o1 \<longrightarrow> od_orderId o1 = oid)"
proof -
  have "oid \<in> dom (map_of (st_orders st))"
    using jm_all_get[of "\<lambda>k oid. jm_get (st_orders st) oid \<noteq> None"] assms(1,2) by (auto simp: orders_ok_def)
  then obtain e where e: "jm_get (st_orders st) oid = Some e" by auto
  have "od_orderId e = oid" using assms(1) jm_all_get[OF _ e, of order_ok] by (simp add: orders_ok_def order_ok_def)
  then show "createOrder rec st = (r, st') \<Longrightarrow> st' = st \<and> (\<forall>o1. r = Inr o1 \<longrightarrow> od_orderId o1 = oid)"
    using assms(2,3) e by (auto simp: createOrder_def refuse_def Let_def split: if_splits option.splits)
qed

text \<open>One idempotency key is one order, for good. After a request with a key has been answered
  with an order, and after any further operations, a request with the same owner and key
  creates nothing: it is refused, or it is answered with an order of the same id.\<close>

theorem key_means_one_order:
  assumes "createOrder rec (fold order_step before (new_store a b)) = (Inr o1, st1)" and "od_orderId rec \<noteq> []"
    and "od_ownerKey rec' = od_ownerKey rec" "od_idempotencyKey rec' = od_idempotencyKey rec"
    and "createOrder rec' (fold order_step between st1) = (r, st2)"
  shows "st2 = fold order_step between st1 \<and> (\<forall>o2. r = Inr o2 \<longrightarrow> od_orderId o2 = od_orderId o1)"
proof -
  let ?st = "fold order_step before (new_store a b)"
  let ?k = "idemKey (od_ownerKey rec) (od_idempotencyKey rec)"
  have ok: "orders_ok ?st" by (intro order_ops_ok orders_ok_new)
  have ok1: "orders_ok st1" using order_step_ok[OF ok, of "Create rec"] assms(1) by simp
  have "jm_get (st_idemIndex st1) ?k = Some (od_orderId o1) \<and> od_orderId o1 \<noteq> []"
  proof (cases "\<exists>oid. jm_get (st_idemIndex ?st) ?k = Some oid \<and> oid \<noteq> []")
    case True
    with createOrder_known[OF ok _ _ assms(1)] show ?thesis by auto
  next
    case False
    then have "createOrder rec ?st = (Inr rec, ?st\<lparr>st_orders := jm_set (od_orderId rec) rec (st_orders ?st),
        st_idemIndex := jm_set ?k (od_orderId rec) (st_idemIndex ?st)\<rparr>)"
      using assms(1) by (auto simp: createOrder_def refuse_def Let_def split: if_splits option.splits)
    with assms(1,2) show ?thesis by auto
  qed
  then have "jm_get (st_idemIndex (fold order_step between st1)) (idemKey (od_ownerKey rec') (od_idempotencyKey rec')) =
      Some (od_orderId o1)" "od_orderId o1 \<noteq> []"
    using key_kept_ops assms(3,4) by simp_all
  from createOrder_known[OF order_ops_ok[OF ok1] this assms(5)] show ?thesis .
qed

theorem key_means_one_order_witness:
  "snd (createOrder (sample_order\<lparr>od_orderId := ''o2''\<rparr>) (fold order_step sample_fill (new_store 9 9))) =
    fold order_step sample_fill (new_store 9 9)"
proof -
  let ?between = "[Set_state ''o1'' F_SUBMITTED 2, Fill ''o1'' (sample_evidence ''sig'') 3]"
  let ?st1 = "snd (createOrder sample_order (new_store 9 9))"
  have a: "createOrder sample_order (fold order_step [] (new_store 9 9)) = (Inr sample_order, ?st1)" by code_simp
  have b: "od_orderId sample_order \<noteq> []" by code_simp
  obtain r st2 where c: "createOrder (sample_order\<lparr>od_orderId := ''o2''\<rparr>) (fold order_step ?between ?st1) = (r, st2)"
    by (metis surj_pair)
  from key_means_one_order[OF a b _ _ c] have "st2 = fold order_step ?between ?st1" by simp
  with c show ?thesis by (simp add: sample_fill_def)
qed

text \<open>An order never changes hands: whatever is created, set or filled afterwards, an order id
  that is taken stays taken, by the same owner.\<close>

theorem order_never_changes_hands:
  "jm_get (st_orders st) oid = Some o1 \<Longrightarrow>
    \<exists>o2. jm_get (st_orders (fold order_step ops st)) oid = Some o2 \<and> od_ownerKey o2 = od_ownerKey o1"
proof (induction ops arbitrary: st o1)
  case (Cons x ops)
  from owner_kept[OF Cons.prems, of x] obtain o2 where
    "jm_get (st_orders (order_step x st)) oid = Some o2" "od_ownerKey o2 = od_ownerKey o1" by blast
  with Cons.IH[of "order_step x st" o2] show ?case by simp
qed simp

theorem order_never_changes_hands_witness:
  "\<exists>o2. jm_get (st_orders (fold order_step sample_fill (snd (createOrder sample_order (new_store 9 9))))) ''o1'' = Some o2 \<and>
    od_ownerKey o2 = ''ann''"
proof -
  have "jm_get (st_orders (snd (createOrder sample_order (new_store 9 9)))) ''o1'' = Some sample_order" by code_simp
  from order_never_changes_hands[OF this, of sample_fill] show ?thesis by (simp add: sample_order_def)
qed

text \<open>A filled order is not final, against what the store says. The same owner creating an order
  under a new key with the id of a filled one replaces it by a quoted one without evidence; and
  a filled order that was closed can be set back to submitted and filled again with the
  evidence of another transaction. The index key is also ambiguous: two pairs of owner and
  idempotency key have the same one.\<close>

theorem filled_not_final:
  "map_option (\<lambda>o1. (od_fundingState o1, od_fillEvidence o1)) (jm_get (st_orders (fold order_step (sample_fill @
      [Create (sample_order\<lparr>od_idempotencyKey := ''k2''\<rparr>)]) (new_store 9 9))) ''o1'') = Some (F_QUOTED, None)"
  "map_option (\<lambda>o1. (od_fundingState o1, od_fillTxSignature o1)) (jm_get (st_orders (fold order_step (sample_fill @
      [Set_state ''o1'' F_CLOSED 4, Set_state ''o1'' F_SUBMITTED 5, Fill ''o1'' (sample_evidence ''sig2'') 6])
      (new_store 9 9))) ''o1'') = Some (F_FILLED, Some ''sig2'')"
  "idemKey ''ann::x'' ''y'' = idemKey ''ann'' ''x::y''"
  by code_simp+

section \<open>What a pass does\<close>
























section \<open>Evidence kept\<close>

lemma recordResolution_kept:
  "jm_get (st_resolutions st) k = Some e \<Longrightarrow> jm_get (st_resolutions (snd (recordResolution r tm st))) k = Some e"
  by (auto simp: recordResolution_def refuse_def Let_def split: option.split)

lemma resolutions_kept:
  "jm_get (st_resolutions st) k = Some e \<Longrightarrow>
    jm_get (st_resolutions (fold (\<lambda>(r, tm) st. snd (recordResolution r tm st)) rs st)) k = Some e"
  by (induction rs arbitrary: st) (auto simp: recordResolution_kept)

lemma resolution_final_parts:
  assumes "recordResolution r tm st = (Inr e, st1)"
    and "st2 = fold (\<lambda>(r, tm) st. snd (recordResolution r tm st)) rs st1"
  shows "jm_get (st_resolutions st2) (ri_marketId r) = Some e"
    and "ri_marketId r' = ri_marketId r \<Longrightarrow> ri_resolution r' \<noteq> ri_resolution r \<Longrightarrow>
      recordResolution r' tm' st2 = (Inl (Venue_error INVALID_TRANSITION None), st2)"
    and "deriveCallOutcome s (map_option (\<lambda>e. ri_resolution (rr_input e)) (jm_get (st_resolutions st2) (ri_marketId r))) =
      deriveCallOutcome s (Some (ri_resolution r))"
proof -
  have e: "jm_get (st_resolutions st1) (ri_marketId r) = Some e" "ri_resolution (rr_input e) = ri_resolution r"
    using assms(1) by (auto simp: recordResolution_def refuse_def Let_def split: option.splits if_splits)
  show kept: "jm_get (st_resolutions st2) (ri_marketId r) = Some e"
    unfolding assms(2) by (rule resolutions_kept[OF e(1)])
  with e(2) show "ri_marketId r' = ri_marketId r \<Longrightarrow> ri_resolution r' \<noteq> ri_resolution r \<Longrightarrow>
      recordResolution r' tm' st2 = (Inl (Venue_error INVALID_TRANSITION None), st2)"
    by (simp add: recordResolution_def refuse_def)
  show "deriveCallOutcome s (map_option (\<lambda>e. ri_resolution (rr_input e)) (jm_get (st_resolutions st2) (ri_marketId r))) =
      deriveCallOutcome s (Some (ri_resolution r))" using kept e(2) by simp
qed

text \<open>A resolution is final. Once the venue's resolution of a market is recorded, whatever is
  recorded after it the record stays as it is, a contradicting resolution is refused, and the
  outcome of a call on a side of the market, derived from the record, never changes.\<close>

theorem resolution_final:
  assumes "recordResolution r tm st = (Inr e, st1)"
    and "st2 = fold (\<lambda>(r, tm) st. snd (recordResolution r tm st)) rs st1"
  shows "jm_get (st_resolutions st2) (ri_marketId r) = Some e \<and>
    (\<forall>r' tm'. ri_marketId r' = ri_marketId r \<longrightarrow> ri_resolution r' \<noteq> ri_resolution r \<longrightarrow>
      recordResolution r' tm' st2 = (Inl (Venue_error INVALID_TRANSITION None), st2)) \<and>
    deriveCallOutcome s (map_option (\<lambda>e. ri_resolution (rr_input e)) (jm_get (st_resolutions st2) (ri_marketId r))) =
      deriveCallOutcome s (Some (ri_resolution r))"
  using resolution_final_parts[OF assms] by blast

definition sample_resolution :: "resolution \<Rightarrow> resolution_input" where
  "sample_resolution x = \<lparr>ri_marketId = ''m'', ri_venue = V_panta, ri_venueMarketId = ''vm'', ri_resolution = x,
     ri_resolvedAt = 5, ri_evidenceSource = ''src'', ri_rawEvidence = ''raw''\<rparr>"

theorem resolution_final_witness:
  "fst (recordResolution (sample_resolution R_NO) 9 (snd (recordResolution (sample_resolution R_YES) 8 (new_store 9 9)))) =
    Inl (Venue_error INVALID_TRANSITION None)"
proof -
  obtain e st1 where r: "recordResolution (sample_resolution R_YES) 8 (new_store 9 9) = (Inr e, st1)"
    by (simp add: recordResolution_def new_store_def Let_def)
  from resolution_final[OF r, of st1 "[]"] show ?thesis
    unfolding r by (simp add: sample_resolution_def)
qed

text \<open>A restated position never goes back in time.\<close>

lemma upsertPosition_get:
  "jm_get (st_positions (snd (upsertPosition p st))) k =
    (if k = pn_positionId p \<and> (case jm_get (st_positions st) k of None \<Rightarrow> True | Some e \<Rightarrow> pn_updatedAt e \<le> pn_updatedAt p)
     then Some p else jm_get (st_positions st) k)"
  by (auto simp: upsertPosition_def split: option.split)

text \<open>Positions keep their newest restatement, in whatever order the pages bring them: after any
  list of upserts a position that was stored or listed is stored, with a time at least that of
  every restatement of it, and it is one of them.\<close>

theorem positions_newest:
  "p \<in> set ps \<or> jm_get (st_positions st) (pn_positionId p) = Some p \<Longrightarrow>
    \<exists>q. jm_get (st_positions (fold (\<lambda>p st. snd (upsertPosition p st)) ps st)) (pn_positionId p) = Some q \<and>
      pn_updatedAt p \<le> pn_updatedAt q \<and> (q \<in> set ps \<or> jm_get (st_positions st) (pn_positionId p) = Some q)"
proof -
  let ?up = "\<lambda>p st. snd (upsertPosition p st)"
  have stored: "\<exists>q. jm_get (st_positions (fold ?up ps st)) k = Some q \<and> pn_updatedAt e \<le> pn_updatedAt q \<and>
      (q \<in> set ps \<or> q = e)" if "jm_get (st_positions st) k = Some e" for ps st e k
    using that
  proof (induction ps arbitrary: st e)
    case (Cons p ps)
    obtain e1 where e1: "jm_get (st_positions (?up p st)) k = Some e1" "pn_updatedAt e \<le> pn_updatedAt e1" "e1 = e \<or> e1 = p"
      using Cons.prems
      by (cases "k = pn_positionId p \<and> pn_updatedAt e \<le> pn_updatedAt p") (auto simp: upsertPosition_get)
    from Cons.IH[OF e1(1)] e1(2,3) show ?case by auto
  qed simp
  show "p \<in> set ps \<or> jm_get (st_positions st) (pn_positionId p) = Some p \<Longrightarrow> ?thesis"
  proof (induction ps arbitrary: st)
    case Nil
    then show ?case by auto
  next
    case (Cons x ps)
    consider (here) "x = p" | (later) "p \<in> set ps" | (old) "jm_get (st_positions st) (pn_positionId p) = Some p"
      using Cons.prems by auto
    then show ?case
    proof cases
      case here
      obtain e1 where e1: "jm_get (st_positions (?up p st)) (pn_positionId p) = Some e1" "pn_updatedAt p \<le> pn_updatedAt e1"
        "e1 = p \<or> jm_get (st_positions st) (pn_positionId p) = Some e1"
        by (cases "jm_get (st_positions st) (pn_positionId p)")
          (simp_all add: upsertPosition_get linear split: if_splits, metis linear)
      from stored[OF e1(1), of ps] e1 here show ?thesis by auto
    next
      case later
      from Cons.IH[OF disjI1[OF later], of "?up x st"] show ?thesis
        by (auto simp: upsertPosition_get split: if_splits)
    next
      case old
      from stored[OF old, of "x # ps"] old show ?thesis by auto
    qed
  qed
qed

definition sample_position :: "int \<Rightarrow> string \<Rightarrow> position_record" where
  "sample_position tm size1 = \<lparr>pn_positionId = ''p'', pn_venue = V_panta, pn_venueMarketId = ''vm'', pn_marketId = ''m'',
     pn_owner = ''w'', pn_side = YES, pn_sizeBaseUnits = size1, pn_averageProbability = None,
     pn_fundingState = F_FILLED, pn_claimableBaseUnits = ''0'', pn_resolution = None, pn_updatedAt = tm,
     pn_demo = False, pn_ownerKey = ''ann''\<rparr>"

theorem positions_newest_witness:
  "\<exists>q. jm_get (st_positions (fold (\<lambda>p st. snd (upsertPosition p st)) [sample_position 9 ''5'', sample_position 4 ''3'']
     (new_store 9 9))) ''p'' = Some q \<and> 9 \<le> pn_updatedAt q"
  using positions_newest[of "sample_position 9 ''5''" "[sample_position 9 ''5'', sample_position 4 ''3'']" "new_store 9 9"]
  by (auto simp: sample_position_def)

definition sample_venue_market :: "string \<Rightarrow> venue_market" where
  "sample_venue_market k = \<lparr>vm_id = k, vm_venue = V_panta, vm_venueMarketId = k, vm_question = ''q'', vm_rulesText = ''r'',
     vm_category = ''crypto'', vm_outcomes = [(YES, ''Yes''), (NO, ''No'')], vm_status = M_OPEN, vm_rawStatus = ''open'',
     vm_opensAt = None, vm_closesAt = None, vm_resolvesAt = None, vm_resolutionSource = None, vm_lastSyncedAt = 1,
     vm_payloadVersion = 1\<rparr>"

definition sample_raw :: "string \<Rightarrow> raw_payload" where
  "sample_raw k = \<lparr>rp_venue = V_panta, rp_venueMarketId = k, rp_payloadVersion = 1, rp_fetchedAt = 1, rp_body = ''{}''\<rparr>"

text \<open>The window of raw payloads forgets a market that was just refreshed: with room for three,
  after writing markets a, b, a again and c, the payload of a is dropped and the older one of b
  is kept, since the first writing of a still stands in the queue.\<close>

theorem raw_window_drops_refreshed:
  "map (\<lambda>k. map_option (\<lambda>r. vr_raw r = None) (jm_get (st_markets
      (fold (\<lambda>k st. snd (upsertMarket (sample_venue_market k) (Some (sample_raw k)) st)) [''a'', ''b'', ''a'', ''c''] (new_store 9 3))) k))
    [''a'', ''b'', ''c''] = [Some True, Some False, Some False]"
  by code_simp

end
