(* ===== verification/JsText.thy ===== *)
theory JsText
  imports Prelude
begin

text \<open>
  What the social layer uses of the language's texts and arrays: \<open>Array.sort\<close> with a comparator,
  \<open>toLowerCase\<close>, \<open>includes\<close>, \<open>endsWith\<close>, \<open>Number(text)\<close> and the base64url text of a
  \<open>Buffer\<close>. Texts are lists of one-byte characters, so their UTF-8 bytes are the text itself.
\<close>

section \<open>Sorting with a comparator\<close>

text \<open>The sort is stable; a comparator answers a number, negative when its first argument comes first.\<close>

fun insert_by :: "('a \<Rightarrow> 'a \<Rightarrow> int) \<Rightarrow> 'a \<Rightarrow> 'a list \<Rightarrow> 'a list" where
  "insert_by c x [] = [x]"
| "insert_by c x (y # ys) = (if c x y \<le> 0 then x # y # ys else y # insert_by c x ys)"

definition sort_by :: "('a \<Rightarrow> 'a \<Rightarrow> int) \<Rightarrow> 'a list \<Rightarrow> 'a list" where
  "sort_by c xs = foldr (insert_by c) xs []"

text \<open>\<open>a || b\<close> on comparator answers.\<close>

definition or_else :: "int \<Rightarrow> int \<Rightarrow> int" where
  "or_else a b = (if a \<noteq> 0 then a else b)"

lemma sort_by_simps [simp]: "sort_by c [] = []" "sort_by c (x # xs) = insert_by c x (sort_by c xs)"
  by (simp_all add: sort_by_def)

lemma mset_insert_by [simp]: "mset (insert_by c x xs) = add_mset x (mset xs)"
  by (induction xs) simp_all

lemma mset_sort_by [simp]: "mset (sort_by c xs) = mset xs"
  by (induction xs) simp_all

lemma set_sort_by [simp]: "set (sort_by c xs) = set xs"
  by (metis mset_sort_by set_mset_mset)

lemma length_sort_by [simp]: "length (sort_by c xs) = length xs"
  by (metis mset_sort_by size_mset)

lemma distinct_map_sort_by [simp]: "distinct (map f (sort_by c xs)) = distinct (map f xs)"
  by (metis mset_sort_by mset_map mset_eq_imp_distinct_iff)

lemma set_insert_by [simp]: "set (insert_by c x xs) = insert x (set xs)"
  by (induction xs) auto

text \<open>A comparator that respects a relation sorts by it.\<close>

lemma sorted_insert_by:
  assumes "\<And>x y. c x y \<le> 0 \<Longrightarrow> R x y" "\<And>x y. \<not> c x y \<le> 0 \<Longrightarrow> R y x" "transp R" "sorted_wrt R xs"
  shows "sorted_wrt R (insert_by c x xs)"
  using assms(4)
proof (induction xs)
  case (Cons y ys)
  show ?case
  proof (cases "c x y \<le> 0")
    case True
    with assms(1) have "R x y" by blast
    with Cons.prems True show ?thesis by (auto intro: transpD[OF assms(3)])
  next
    case False
    with assms(2) have "R y x" by blast
    with Cons False show ?thesis by simp
  qed
qed simp

lemma sorted_sort_by:
  assumes "\<And>x y. c x y \<le> 0 \<Longrightarrow> R x y" "\<And>x y. \<not> c x y \<le> 0 \<Longrightarrow> R y x" "transp R"
  shows "sorted_wrt R (sort_by c xs)"
proof (induction xs)
  case (Cons x xs)
  then show ?case using sorted_insert_by[OF assms] by simp
qed simp

section \<open>Texts\<close>

definition lower_char :: "char \<Rightarrow> char" where
  "lower_char c = (let n = of_char c :: nat in if 65 \<le> n \<and> n \<le> 90 then char_of (n + 32) else c)"

definition js_lower :: "string \<Rightarrow> string" where
  "js_lower = map lower_char"

definition ends_with :: "string \<Rightarrow> string \<Rightarrow> bool" where
  "ends_with p s \<longleftrightarrow> starts_with (rev p) (rev s)"

fun js_includes :: "string \<Rightarrow> string \<Rightarrow> bool" where
  "js_includes p [] = (p = [])"
| "js_includes p (c # cs) = (starts_with p (c # cs) \<or> js_includes p cs)"

text \<open>An optional text that the code tests for truth: null and the empty text are false.\<close>

definition truthy :: "string option \<Rightarrow> bool" where
  "truthy s \<longleftrightarrow> (case s of None \<Rightarrow> False | Some t \<Rightarrow> t \<noteq> [])"

lemma ends_with_iff: "ends_with p s \<longleftrightarrow> (\<exists>t. s = t @ p)"
  unfolding ends_with_def starts_with_iff
  by (metis rev_append rev_rev_ident)

section \<open>Numbers\<close>

definition is_digit_char :: "char \<Rightarrow> bool" where
  "is_digit_char c \<longleftrightarrow> digit_val c \<noteq> None"

definition hex_val :: "char \<Rightarrow> nat option" where
  "hex_val c = (let n = of_char (lower_char c) :: nat
     in if 48 \<le> n \<and> n \<le> 57 then Some (n - 48) else if 97 \<le> n \<and> n \<le> 102 then Some (n - 87) else None)"

fun parse_radix :: "nat \<Rightarrow> nat \<Rightarrow> string \<Rightarrow> nat option" where
  "parse_radix b acc [] = Some acc"
| "parse_radix b acc (c # cs) =
     (case hex_val c of None \<Rightarrow> None | Some d \<Rightarrow> if d < b then parse_radix b (acc * b + d) cs else None)"

definition js_exponent :: "num \<Rightarrow> string \<Rightarrow> num option" where
  "js_exponent m t =
     (case t of
        [] \<Rightarrow> Some m
      | c # cs \<Rightarrow>
          if c \<noteq> CHR ''e'' \<and> c \<noteq> CHR ''E'' then None
          else
            (let neg = (cs \<noteq> [] \<and> hd cs = CHR ''-'');
                 ds = (if cs \<noteq> [] \<and> hd cs \<in> {CHR ''-'', CHR ''+''} then tl cs else cs)
             in if ds = [] then None
                else map_option (\<lambda>k. if neg then m / 10 ^ k else m * 10 ^ k) (parse_digits 0 ds)))"

definition js_decimal :: "string \<Rightarrow> num option" where
  "js_decimal t =
     (let i = takeWhile is_digit_char t; r = dropWhile is_digit_char t;
          dot = (r \<noteq> [] \<and> hd r = CHR ''.'');
          f = (if dot then takeWhile is_digit_char (tl r) else []);
          r = (if dot then dropWhile is_digit_char (tl r) else r)
      in if i = [] \<and> f = [] then None
         else (case parse_digits 0 (i @ f) of
             None \<Rightarrow> None
           | Some n \<Rightarrow> js_exponent (of_nat n / 10 ^ length f) r))"

text \<open>\<open>Number(text)\<close>: None where the answer is not a finite number.\<close>

definition js_number :: "string \<Rightarrow> num option" where
  "js_number s =
     (let t = js_trim s; p = map lower_char (take 2 t); ds = drop 2 t;
          radix = (\<lambda>b. if ds = [] then None else map_option of_nat (parse_radix b 0 ds))
      in if t = [] then Some 0
         else if p = ''0x'' then radix 16
         else if p = ''0o'' then radix 8
         else if p = ''0b'' then radix 2
         else if hd t = CHR ''-'' then map_option uminus (js_decimal (tl t))
         else if hd t = CHR ''+'' then js_decimal (tl t)
         else js_decimal t)"

lemma digit_char_range: "is_digit_char c \<Longrightarrow> 48 \<le> (of_char c :: nat) \<and> (of_char c :: nat) \<le> 57"
  by (auto simp: is_digit_char_def digit_val_def Let_def split: if_splits)

lemma digits_trim:
  assumes "\<And>c. c \<in> set s \<Longrightarrow> \<not> is_space c"
  shows "js_trim s = s"
proof -
  have d: "dropWhile is_space t = t" if "\<And>c. c \<in> set t \<Longrightarrow> \<not> is_space c" for t
    using that by (cases t) auto
  from assms have "dropWhile is_space s = s" by (intro d)
  moreover from assms have "dropWhile is_space (rev s) = rev s" by (intro d) simp
  ultimately show ?thesis by (simp add: js_trim_def)
qed

lemma nat_str_digit_chars: "c \<in> set (nat_str n) \<Longrightarrow> is_digit_char c"
  using nat_str_digits by (simp add: is_digit_char_def)

lemma digit_not_space: "is_digit_char c \<Longrightarrow> \<not> is_space c"
  using digit_char_range[of c] by (auto simp: is_space_def)

lemma lower_digit: "is_digit_char c \<Longrightarrow> lower_char c = c"
  using digit_char_range[of c] by (simp add: lower_char_def Let_def)

lemma digit_not_letter:
  "is_digit_char c \<Longrightarrow> c \<noteq> CHR ''x'' \<and> c \<noteq> CHR ''o'' \<and> c \<noteq> CHR ''b'' \<and> c \<noteq> CHR ''+''"
  by (auto simp: is_digit_char_def digit_val_def Let_def)

lemma js_decimal_nat: "js_decimal (nat_str n) = Some (of_nat n)"
proof -
  have a: "takeWhile is_digit_char (nat_str n) = nat_str n" "dropWhile is_digit_char (nat_str n) = []"
    using nat_str_digit_chars by (simp_all add: takeWhile_eq_all_conv dropWhile_eq_Nil_conv)
  show ?thesis by (simp add: js_decimal_def a js_exponent_def parse_nat_str)
qed

lemma no_radix_prefix:
  assumes "\<And>c. c \<in> set s \<Longrightarrow> is_digit_char c"
  shows "map lower_char (take 2 s) \<notin> {''0x'', ''0o'', ''0b''}"
proof
  assume a: "map lower_char (take 2 s) \<in> {''0x'', ''0o'', ''0b''}"
  have m: "map lower_char (take 2 s) = take 2 s"
    using assms by (intro map_idI lower_digit) (meson in_set_takeD)
  with a have "\<exists>c \<in> set s. c = CHR ''x'' \<or> c = CHR ''o'' \<or> c = CHR ''b''"
    by (metis insertE list.set_intros(1) list.set_intros(2) in_set_takeD singletonD)
  with assms digit_not_letter show False by blast
qed

lemma js_number_nat_str: "js_number (nat_str n) = Some (of_nat n)"
proof -
  have t: "js_trim (nat_str n) = nat_str n"
    using nat_str_digit_chars digit_not_space by (intro digits_trim) blast
  have h: "hd (nat_str n) \<in> set (nat_str n)" by simp
  then have "hd (nat_str n) \<noteq> CHR ''-''" "hd (nat_str n) \<noteq> CHR ''+''"
    using nat_str_digits digit_val_not_minus nat_str_digit_chars digit_not_letter by blast+
  with no_radix_prefix[of "nat_str n"] nat_str_digit_chars show ?thesis
    by (simp add: js_number_def t js_decimal_nat Let_def)
qed

lemma js_number_int_str: "js_number (int_str i) = Some (of_int i)"
proof (cases "i < 0")
  case False
  then show ?thesis by (simp add: int_str_def js_number_nat_str)
next
  case True
  let ?d = "nat_str (nat (- i))"
  have t: "js_trim (CHR ''-'' # ?d) = CHR ''-'' # ?d"
    using nat_str_digit_chars digit_not_space
    by (intro digits_trim) (auto simp: is_space_def)
  have "lower_char CHR ''-'' = CHR ''-''" by (simp add: lower_char_def)
  with True show ?thesis
    by (simp add: int_str_def js_number_def t js_decimal_nat Let_def numeral_2_eq_2)
qed

section \<open>base64url\<close>

definition b64_char :: "nat \<Rightarrow> char" where
  "b64_char n = char_of (if n < 26 then n + 65 else if n < 52 then n + 71 else if n < 62 then n - 4
     else if n = 62 then 45 else 95)"

text \<open>Decoding also takes the plain base64 alphabet and skips what belongs to neither.\<close>

definition b64_val :: "char \<Rightarrow> nat option" where
  "b64_val c = (let n = of_char c :: nat
     in if 65 \<le> n \<and> n \<le> 90 then Some (n - 65) else if 97 \<le> n \<and> n \<le> 122 then Some (n - 71)
        else if 48 \<le> n \<and> n \<le> 57 then Some (n + 4) else if n = 45 \<or> n = 43 then Some 62
        else if n = 95 \<or> n = 47 then Some 63 else None)"

fun b64_groups :: "nat list \<Rightarrow> nat list" where
  "b64_groups [] = []"
| "b64_groups [a] = [a div 4, (a mod 4) * 16]"
| "b64_groups [a, b] = [a div 4, (a mod 4) * 16 + b div 16, (b mod 16) * 4]"
| "b64_groups (a # b # c # r) =
     [a div 4, (a mod 4) * 16 + b div 16, (b mod 16) * 4 + c div 64, c mod 64] @ b64_groups r"

fun b64_bytes :: "nat list \<Rightarrow> nat list" where
  "b64_bytes [] = []"
| "b64_bytes [p] = []"
| "b64_bytes [p, q] = [(p * 4 + q div 16) mod 256]"
| "b64_bytes [p, q, r] = [(p * 4 + q div 16) mod 256, (q mod 16) * 16 + r div 4]"
| "b64_bytes (p # q # r # s # t) =
     [(p * 4 + q div 16) mod 256, (q mod 16) * 16 + r div 4, (r mod 4) * 64 + s] @ b64_bytes t"

definition base64url :: "string \<Rightarrow> string" where
  "base64url s = map b64_char (b64_groups (map of_char s))"

definition from_base64url :: "string \<Rightarrow> string" where
  "from_base64url s = map char_of (b64_bytes (List.map_filter b64_val s))"

lemma b64_val_char: "n < 64 \<Longrightarrow> b64_val (b64_char n) = Some n"
  by (auto simp: b64_val_def b64_char_def Let_def)

lemma b64_groups_small: "\<forall>x \<in> set xs. x < 256 \<Longrightarrow> \<forall>g \<in> set (b64_groups xs). g < 64"
  by (induction xs rule: b64_groups.induct) auto

lemma b64_bytes_groups: "\<forall>x \<in> set xs. x < 256 \<Longrightarrow> b64_bytes (b64_groups xs) = xs"
  by (induction xs rule: b64_groups.induct) auto

lemma map_filter_b64: "\<forall>g \<in> set gs. g < 64 \<Longrightarrow> List.map_filter b64_val (map b64_char gs) = gs"
  by (induction gs) (simp_all add: map_filter_simps b64_val_char)

lemma base64url_inverse: "from_base64url (base64url s) = s"
proof -
  have small: "\<forall>x \<in> set (map of_char s). (x :: nat) < 256" by auto
  show ?thesis
    unfolding from_base64url_def base64url_def map_filter_b64[OF b64_groups_small[OF small]] b64_bytes_groups[OF small]
    by (simp add: comp_def)
qed

end
