(* ===== verification/CallStore.thy ===== *)
theory CallStore
  imports Orders JsText
begin

text \<open>
  The store of the social calls (\<open>src/calls/store.ts\<close>, \<open>types.ts\<close>, \<open>errors.ts\<close>): people and who
  follows whom, calls, responses to calls, the thread of thesis updates, results derived from
  venue evidence, and cursors, with every refusal of the code. The hash that identifies a share
  price and the check of a UUID are parameters, and so is the collation behind \<open>localeCompare\<close>.
  The lemmas show that a call never changes except for being hidden, that a settled result is
  permanent and always the derivation of its evidence, and that responses agree with the calls
  they answer. \<open>unhideCall\<close> is the one operation that can leave a person with two live calls.
\<close>

section \<open>Data\<close>

datatype visibility = Public | Followers
datatype response_kind = Back | Fade | Challenge

record person =
  pe_id :: string
  pe_handle :: string
  pe_displayName :: string
  pe_avatarUrl :: "string option"
  pe_avatarId :: "int option"
  pe_walletAddress :: "string option"
  pe_settledCalls :: nat
  pe_correctCalls :: nat
  pe_bio :: "string option"
  pe_joinedAt :: "int option"

record call_row =
  ca_id :: string
  ca_userId :: string
  ca_marketId :: string
  ca_side :: side
  ca_confidence :: "num option"
  ca_thesis :: "string option"
  ca_entryProbability :: "num option"
  ca_snapshotId :: "string option"
  ca_entryPrice :: "share_price option"
  ca_visibility :: visibility
  ca_createdAt :: int
  ca_lockedAt :: int
  ca_parentCallId :: "string option"
  ca_fundingState :: funding_state
  ca_hiddenAt :: "int option"
  ca_hiddenReason :: "string option"

record response_row =
  rs_id :: string
  rs_actorUserId :: string
  rs_targetCallId :: string
  rs_kind :: response_kind
  rs_resultingCallId :: "string option"
  rs_createdAt :: int
  rs_note :: "string option"

record result_row =
  cr_callId :: string
  cr_outcome :: call_outcome
  cr_resolution :: "resolution option"
  cr_resolvedAt :: "int option"
  cr_marketResolutionId :: "string option"
  cr_derivedAt :: int

record thesis_update =
  tu_id :: string
  tu_callId :: string
  tu_authorUserId :: string
  tu_body :: string
  tu_createdAt :: int

definition MAX_THESIS_UPDATES_PER_CALL :: nat where
  "MAX_THESIS_UPDATES_PER_CALL = 20"

definition THESIS_UPDATE_MAX :: nat where
  "THESIS_UPDATE_MAX = 280"

datatype calls_error =
  CALLS_SIGNED_OUT | CALLS_USER_UNLINKED | CALL_MARKET_UNKNOWN | CALL_MARKET_CLOSED | CALL_NOT_FOUND
| CALL_HIDDEN | CALL_NOT_VISIBLE | CALL_ALREADY_MADE | CALL_INVALID | CALL_PARENT_MISMATCH
| RESPONSE_SELF | RESPONSE_DUPLICATE | PERSON_NOT_FOUND | FOLLOW_SELF | THESIS_NOT_AUTHOR
| THESIS_UPDATE_LIMIT | THESIS_UPDATES_UNAVAILABLE | CALL_IMMUTABLE | CALL_NOT_DELETABLE
| RESULT_SERVICE_WRITE_ONLY | RESULT_DERIVATION_VIOLATION

text \<open>What a call of this layer can throw: its own errors, a refused price snapshot, a plain error.\<close>

datatype calls_thrown = Calls_error calls_error | Price_error | Plain_error

definition signed_out_code :: "calls_error \<Rightarrow> bool" where
  "signed_out_code c \<longleftrightarrow> c \<in> {CALLS_SIGNED_OUT, CALLS_USER_UNLINKED}"

definition rejected_code :: "calls_error \<Rightarrow> bool" where
  "rejected_code c \<longleftrightarrow> c \<in> {CALL_MARKET_UNKNOWN, CALL_MARKET_CLOSED, CALL_NOT_FOUND, CALL_HIDDEN,
     CALL_NOT_VISIBLE, CALL_ALREADY_MADE, CALL_INVALID, CALL_PARENT_MISMATCH, RESPONSE_SELF,
     RESPONSE_DUPLICATE, PERSON_NOT_FOUND, FOLLOW_SELF, THESIS_NOT_AUTHOR, THESIS_UPDATE_LIMIT,
     THESIS_UPDATES_UNAVAILABLE}"

section \<open>Share prices\<close>

definition SHARE_PRICE_MAX_AGE_MS :: int where
  "SHARE_PRICE_MAX_AGE_MS = 600000"

text \<open>\<open>^(0|[1-9]\d{0,30})(\.\d{1,18})?$\<close>\<close>

definition decimal_text :: "string \<Rightarrow> bool" where
  "decimal_text s =
     (let i = takeWhile is_digit_char s; r = dropWhile is_digit_char s
      in (i = ''0'' \<or> i \<noteq> [] \<and> length i \<le> 31 \<and> hd i \<noteq> CHR ''0'') \<and>
         (r = [] \<or> hd r = CHR ''.'' \<and> list_all is_digit_char (tl r) \<and> 1 \<le> length (tl r) \<and> length (tl r) \<le> 18))"

definition MAX_SAFE_INTEGER :: int where
  "MAX_SAFE_INTEGER = 9007199254740991"

definition parseSharePrice :: "(string \<Rightarrow> bool) \<Rightarrow> (string \<Rightarrow> int \<Rightarrow> string) \<Rightarrow> share_price \<Rightarrow> bool" where
  "parseSharePrice is_uuid price_uuid p \<longleftrightarrow>
     is_uuid (sp_id p) \<and> is_uuid (sp_marketId p) \<and>
     pred_option decimal_text (sp_yesPrice p) \<and> pred_option decimal_text (sp_noPrice p) \<and>
     0 < sp_observedAt p \<and> sp_observedAt p \<le> MAX_SAFE_INTEGER \<and>
     sp_id p = price_uuid (sp_marketId p) (sp_observedAt p)"

definition usableSharePrice :: "share_price option \<Rightarrow> int \<Rightarrow> bool" where
  "usableSharePrice p now \<longleftrightarrow>
     (case p of
        None \<Rightarrow> False
      | Some s \<Rightarrow> sp_yesPrice s \<noteq> None \<and> sp_noPrice s \<noteq> None \<and>
          sp_observedAt s \<le> now \<and> now - sp_observedAt s \<le> SHARE_PRICE_MAX_AGE_MS)"

section \<open>State\<close>

record calls_store =
  cs_people :: "(string, person) jmap"
  cs_follows :: "string list"
  cs_calls :: "(string, call_row) jmap"
  cs_responses :: "(string, response_row) jmap"
  cs_results :: "(string, result_row) jmap"
  cs_cursors :: "(string, string option) jmap"
  cs_updates :: "(string, thesis_update list) jmap"
  cs_updateIds :: "string list"

definition empty_calls :: calls_store where
  "empty_calls = \<lparr>cs_people = [], cs_follows = [], cs_calls = [], cs_responses = [], cs_results = [],
     cs_cursors = [], cs_updates = [], cs_updateIds = []\<rparr>"

type_synonym 'a called = "(calls_thrown + 'a) \<times> calls_store"

definition denied :: "calls_error \<Rightarrow> calls_store \<Rightarrow> 'a called" where
  "denied c s = (Inl (Calls_error c), s)"

definition then_call :: "'a called \<Rightarrow> ('a \<Rightarrow> calls_store \<Rightarrow> 'b called) \<Rightarrow> 'b called" where
  "then_call p f = (case p of (Inl e, s) \<Rightarrow> (Inl e, s) | (Inr a, s) \<Rightarrow> f a s)"

section \<open>People and the follow graph\<close>

definition upsertPerson :: "person \<Rightarrow> calls_store \<Rightarrow> calls_store" where
  "upsertPerson p s = s\<lparr>cs_people := jm_set (pe_id p) p (cs_people s)\<rparr>"

definition bare_handle :: "string \<Rightarrow> string" where
  "bare_handle h = js_lower (if h \<noteq> [] \<and> hd h = CHR ''@'' then tl h else h)"

definition getPersonByHandle :: "string \<Rightarrow> calls_store \<Rightarrow> person option" where
  "getPersonByHandle h s = find (\<lambda>p. bare_handle (pe_handle p) = bare_handle h) (jm_values (cs_people s))"

definition getPersonByWallet :: "string \<Rightarrow> calls_store \<Rightarrow> person option" where
  "getPersonByWallet u s = find (\<lambda>p. pe_walletAddress p = Some u) (jm_values (cs_people s))"

definition followKey :: "string \<Rightarrow> string \<Rightarrow> string" where
  "followKey a b = a @ ''->'' @ b"

definition follow :: "string \<Rightarrow> string \<Rightarrow> calls_store \<Rightarrow> calls_store" where
  "follow a b s = (if a = b then s else s\<lparr>cs_follows := set_add (followKey a b) (cs_follows s)\<rparr>)"

definition unfollow :: "string \<Rightarrow> string \<Rightarrow> calls_store \<Rightarrow> calls_store" where
  "unfollow a b s = s\<lparr>cs_follows := filter (\<lambda>k. k \<noteq> followKey a b) (cs_follows s)\<rparr>"

definition isFollowing :: "string \<Rightarrow> string \<Rightarrow> calls_store \<Rightarrow> bool" where
  "isFollowing a b s \<longleftrightarrow> followKey a b \<in> set (cs_follows s)"

definition followingOf :: "string \<Rightarrow> calls_store \<Rightarrow> string list" where
  "followingOf a s = (let p = a @ ''->'' in
     map (drop (length p)) (filter (starts_with p) (cs_follows s)))"

definition followersOf :: "string \<Rightarrow> calls_store \<Rightarrow> string list" where
  "followersOf b s = (let q = ''->'' @ b in
     map (\<lambda>k. take (length k - length q) k) (filter (ends_with q) (cs_follows s)))"

section \<open>Calls\<close>

definition getCall :: "string \<Rightarrow> calls_store \<Rightarrow> call_row option" where
  "getCall k s = jm_get (cs_calls s) k"

definition listCalls :: "calls_store \<Rightarrow> call_row list" where
  "listCalls s = jm_values (cs_calls s)"

definition liveCalls :: "calls_store \<Rightarrow> call_row list" where
  "liveCalls s = filter (\<lambda>c. ca_hiddenAt c = None) (listCalls s)"

definition liveCallsOnMarket :: "string \<Rightarrow> calls_store \<Rightarrow> call_row list" where
  "liveCallsOnMarket m s = filter (\<lambda>c. ca_marketId c = m) (liveCalls s)"

definition liveCallByUserOnMarket :: "string \<Rightarrow> string \<Rightarrow> calls_store \<Rightarrow> call_row option" where
  "liveCallByUserOnMarket u m s = find (\<lambda>c. ca_userId c = u \<and> ca_marketId c = m) (liveCalls s)"

definition callsByAuthor :: "string \<Rightarrow> calls_store \<Rightarrow> call_row list" where
  "callsByAuthor u s = filter (\<lambda>c. ca_userId c = u) (listCalls s)"

text \<open>The price a call carries must be its own market's, fresh, and its only evidence.\<close>

definition price_fits :: "call_row \<Rightarrow> share_price \<Rightarrow> bool" where
  "price_fits r p \<longleftrightarrow> sp_marketId p = ca_marketId r \<and> usableSharePrice (Some p) (ca_lockedAt r) \<and>
     ca_entryProbability r = None \<and> ca_snapshotId r = None"

definition insertCall :: "(share_price \<Rightarrow> bool) \<Rightarrow> call_row \<Rightarrow> calls_store \<Rightarrow> call_row called" where
  "insertCall parses r s =
     (if (case ca_entryPrice r of None \<Rightarrow> False | Some p \<Rightarrow> \<not> parses p) then (Inl Price_error, s)
      else if (case ca_entryPrice r of None \<Rightarrow> False | Some p \<Rightarrow> \<not> price_fits r p) then denied CALL_INVALID s
      else if jm_get (cs_calls s) (ca_id r) \<noteq> None then denied CALL_INVALID s
      else if ca_hiddenAt r \<noteq> None then denied CALL_INVALID s
      else if liveCallByUserOnMarket (ca_userId r) (ca_marketId r) s \<noteq> None then denied CALL_ALREADY_MADE s
      else
        (let insert = (Inr r, s\<lparr>cs_calls := jm_set (ca_id r) r (cs_calls s)\<rparr>)
         in if truthy (ca_parentCallId r)
            then (case jm_get (cs_calls s) (the (ca_parentCallId r)) of
                    None \<Rightarrow> denied CALL_NOT_FOUND s
                  | Some parent \<Rightarrow> if ca_marketId parent \<noteq> ca_marketId r then denied CALL_PARENT_MISMATCH s else insert)
            else insert))"

text \<open>A partial record: the fields that are present.\<close>

datatype call_field =
  Fld_id string | Fld_userId string | Fld_marketId string | Fld_side side
| Fld_confidence "num option" | Fld_thesis "string option" | Fld_entryProbability "num option"
| Fld_snapshotId "string option" | Fld_entryPrice "share_price option" | Fld_visibility visibility
| Fld_createdAt int | Fld_lockedAt int | Fld_parentCallId "string option" | Fld_fundingState funding_state
| Fld_hiddenAt "int option" | Fld_hiddenReason "string option"

fun mutable_field :: "call_field \<Rightarrow> bool" where
  "mutable_field (Fld_hiddenAt _) = True"
| "mutable_field (Fld_hiddenReason _) = True"
| "mutable_field _ = False"

text \<open>Whether the patch changes one of the frozen columns.\<close>

fun changes_frozen :: "call_row \<Rightarrow> call_field \<Rightarrow> bool" where
  "changes_frozen c (Fld_marketId v) = (v \<noteq> ca_marketId c)"
| "changes_frozen c (Fld_side v) = (v \<noteq> ca_side c)"
| "changes_frozen c (Fld_entryProbability v) = (v \<noteq> ca_entryProbability c)"
| "changes_frozen c (Fld_snapshotId v) = (v \<noteq> ca_snapshotId c)"
| "changes_frozen c (Fld_createdAt v) = (v \<noteq> ca_createdAt c)"
| "changes_frozen c (Fld_fundingState v) = (v \<noteq> ca_fundingState c)"
| "changes_frozen c (Fld_id v) = (v \<noteq> ca_id c)"
| "changes_frozen c (Fld_userId v) = (v \<noteq> ca_userId c)"
| "changes_frozen c (Fld_lockedAt v) = (v \<noteq> ca_lockedAt c)"
| "changes_frozen c (Fld_thesis v) = (v \<noteq> ca_thesis c)"
| "changes_frozen c (Fld_confidence v) = (v \<noteq> ca_confidence c)"
| "changes_frozen c (Fld_parentCallId v) = (v \<noteq> ca_parentCallId c)"
| "changes_frozen c (Fld_visibility v) = (v \<noteq> ca_visibility c)"
| "changes_frozen c (Fld_entryPrice v) = False"
| "changes_frozen c (Fld_hiddenAt v) = False"
| "changes_frozen c (Fld_hiddenReason v) = False"

fun put_field :: "call_field \<Rightarrow> call_row \<Rightarrow> call_row" where
  "put_field (Fld_id v) c = c\<lparr>ca_id := v\<rparr>"
| "put_field (Fld_userId v) c = c\<lparr>ca_userId := v\<rparr>"
| "put_field (Fld_marketId v) c = c\<lparr>ca_marketId := v\<rparr>"
| "put_field (Fld_side v) c = c\<lparr>ca_side := v\<rparr>"
| "put_field (Fld_confidence v) c = c\<lparr>ca_confidence := v\<rparr>"
| "put_field (Fld_thesis v) c = c\<lparr>ca_thesis := v\<rparr>"
| "put_field (Fld_entryProbability v) c = c\<lparr>ca_entryProbability := v\<rparr>"
| "put_field (Fld_snapshotId v) c = c\<lparr>ca_snapshotId := v\<rparr>"
| "put_field (Fld_entryPrice v) c = c\<lparr>ca_entryPrice := v\<rparr>"
| "put_field (Fld_visibility v) c = c\<lparr>ca_visibility := v\<rparr>"
| "put_field (Fld_createdAt v) c = c\<lparr>ca_createdAt := v\<rparr>"
| "put_field (Fld_lockedAt v) c = c\<lparr>ca_lockedAt := v\<rparr>"
| "put_field (Fld_parentCallId v) c = c\<lparr>ca_parentCallId := v\<rparr>"
| "put_field (Fld_fundingState v) c = c\<lparr>ca_fundingState := v\<rparr>"
| "put_field (Fld_hiddenAt v) c = c\<lparr>ca_hiddenAt := v\<rparr>"
| "put_field (Fld_hiddenReason v) c = c\<lparr>ca_hiddenReason := v\<rparr>"

definition attemptCallUpdate :: "string \<Rightarrow> call_field list \<Rightarrow> calls_store \<Rightarrow> call_row called" where
  "attemptCallUpdate k patch s =
     (case jm_get (cs_calls s) k of
        None \<Rightarrow> denied CALL_NOT_FOUND s
      | Some c \<Rightarrow>
          if list_ex (changes_frozen c) patch then denied CALL_IMMUTABLE s
          else if \<not> list_all mutable_field patch then denied CALL_IMMUTABLE s
          else (let u = fold put_field patch c in (Inr u, s\<lparr>cs_calls := jm_set k u (cs_calls s)\<rparr>)))"

definition store_hideCall :: "string \<Rightarrow> string option \<Rightarrow> int \<Rightarrow> calls_store \<Rightarrow> call_row called" where
  "store_hideCall k reason now s =
     (case jm_get (cs_calls s) k of
        None \<Rightarrow> denied CALL_NOT_FOUND s
      | Some c \<Rightarrow> if ca_hiddenAt c \<noteq> None then (Inr c, s)
                  else attemptCallUpdate k [Fld_hiddenAt (Some now), Fld_hiddenReason reason] s)"

definition unhideCall :: "string \<Rightarrow> calls_store \<Rightarrow> call_row called" where
  "unhideCall k = attemptCallUpdate k [Fld_hiddenAt None, Fld_hiddenReason None]"

definition deleteCall :: "string \<Rightarrow> calls_store \<Rightarrow> call_row called" where
  "deleteCall k s = denied CALL_NOT_DELETABLE s"

section \<open>Responses\<close>

definition responsesForTarget :: "string \<Rightarrow> calls_store \<Rightarrow> response_row list" where
  "responsesForTarget k s = filter (\<lambda>r. rs_targetCallId r = k) (jm_values (cs_responses s))"

definition responseBy :: "string \<Rightarrow> string \<Rightarrow> response_kind \<Rightarrow> calls_store \<Rightarrow> response_row option" where
  "responseBy u k kind s =
     find (\<lambda>r. rs_actorUserId r = u \<and> rs_targetCallId r = k \<and> rs_kind r = kind) (jm_values (cs_responses s))"

definition responsesByActor :: "string \<Rightarrow> calls_store \<Rightarrow> response_row list" where
  "responsesByActor u s = filter (\<lambda>r. rs_actorUserId r = u) (jm_values (cs_responses s))"

definition mints_call :: "response_kind \<Rightarrow> bool" where
  "mints_call kind \<longleftrightarrow> kind = Back \<or> kind = Fade"

definition insertResponse :: "response_row \<Rightarrow> calls_store \<Rightarrow> response_row called" where
  "insertResponse r s =
     (case jm_get (cs_calls s) (rs_targetCallId r) of
        None \<Rightarrow> denied CALL_NOT_FOUND s
      | Some target \<Rightarrow>
          if ca_userId target = rs_actorUserId r then denied RESPONSE_SELF s
          else if responseBy (rs_actorUserId r) (rs_targetCallId r) (rs_kind r) s \<noteq> None then denied RESPONSE_DUPLICATE s
          else if mints_call (rs_kind r) \<and> \<not> truthy (rs_resultingCallId r) then denied CALL_INVALID s
          else if \<not> mints_call (rs_kind r) \<and> truthy (rs_resultingCallId r) then denied CALL_INVALID s
          else
            (let insert = (Inr r, s\<lparr>cs_responses := jm_set (rs_id r) r (cs_responses s)\<rparr>)
             in if truthy (rs_resultingCallId r)
                then (case jm_get (cs_calls s) (the (rs_resultingCallId r)) of
                        None \<Rightarrow> denied CALL_NOT_FOUND s
                      | Some own \<Rightarrow>
                          if ca_userId own \<noteq> rs_actorUserId r then denied CALL_INVALID s
                          else if ca_marketId own \<noteq> ca_marketId target then denied CALL_PARENT_MISMATCH s
                          else if rs_kind r = Back \<and> ca_side own \<noteq> ca_side target then denied CALL_INVALID s
                          else if rs_kind r = Fade \<and> ca_side own = ca_side target then denied CALL_INVALID s
                          else insert)
                else insert))"

section \<open>The thesis thread\<close>

definition thread_of :: "string \<Rightarrow> calls_store \<Rightarrow> thesis_update list" where
  "thread_of k s = (case jm_get (cs_updates s) k of None \<Rightarrow> [] | Some us \<Rightarrow> us)"

definition insertThesisUpdate :: "thesis_update \<Rightarrow> calls_store \<Rightarrow> thesis_update called" where
  "insertThesisUpdate u s =
     (case jm_get (cs_calls s) (tu_callId u) of
        None \<Rightarrow> denied CALL_NOT_FOUND s
      | Some c \<Rightarrow>
          if tu_authorUserId u \<noteq> ca_userId c then denied THESIS_NOT_AUTHOR s
          else if (case ca_hiddenAt c of None \<Rightarrow> False | Some h \<Rightarrow> tu_createdAt u \<ge> h) then denied CALL_HIDDEN s
          else
            (let body = js_trim (tu_body u)
             in if body = [] \<or> length body > THESIS_UPDATE_MAX then denied CALL_INVALID s
                else if tu_createdAt u < ca_lockedAt c then denied CALL_INVALID s
                else if tu_id u \<in> set (cs_updateIds s) then denied CALL_INVALID s
                else if length (thread_of (tu_callId u) s) \<ge> MAX_THESIS_UPDATES_PER_CALL then denied THESIS_UPDATE_LIMIT s
                else (let stored = u\<lparr>tu_body := body\<rparr>
                      in (Inr stored, s\<lparr>cs_updates := jm_set (tu_callId u) (thread_of (tu_callId u) s @ [stored]) (cs_updates s),
                                      cs_updateIds := set_add (tu_id u) (cs_updateIds s)\<rparr>))))"

type_synonym collation = "string \<Rightarrow> string \<Rightarrow> int"

definition thesisUpdatesFor :: "collation \<Rightarrow> string \<Rightarrow> calls_store \<Rightarrow> thesis_update list" where
  "thesisUpdatesFor coll k s =
     sort_by (\<lambda>a b. or_else (tu_createdAt a - tu_createdAt b) (coll (tu_id a) (tu_id b))) (thread_of k s)"

section \<open>Results\<close>

datatype result_writer = Service | Client

definition derived_result :: "call_row \<Rightarrow> resolution_record option \<Rightarrow> int \<Rightarrow> result_row" where
  "derived_result c ev tm =
     (let res = map_option (\<lambda>e. ri_resolution (rr_input e)) ev
      in \<lparr>cr_callId = ca_id c, cr_outcome = deriveCallOutcome (ca_side c) res, cr_resolution = res,
          cr_resolvedAt = map_option (\<lambda>e. ri_resolvedAt (rr_input e)) ev,
          cr_marketResolutionId = map_option rr_id ev, cr_derivedAt = tm\<rparr>)"

definition same_derivation :: "result_row \<Rightarrow> result_row \<Rightarrow> bool" where
  "same_derivation x y \<longleftrightarrow> cr_outcome x = cr_outcome y \<and> cr_resolution x = cr_resolution y \<and>
     cr_resolvedAt x = cr_resolvedAt y \<and> cr_marketResolutionId x = cr_marketResolutionId y"

definition writeResult :: "string \<Rightarrow> resolution_record option \<Rightarrow> int \<Rightarrow> result_writer \<Rightarrow> calls_store
    \<Rightarrow> (result_row \<times> bool) called" where
  "writeResult k ev tm writer s =
     (if writer \<noteq> Service then denied RESULT_SERVICE_WRITE_ONLY s
      else case jm_get (cs_calls s) k of
        None \<Rightarrow> denied CALL_NOT_FOUND s
      | Some c \<Rightarrow>
          if (case ev of None \<Rightarrow> False | Some e \<Rightarrow> ri_marketId (rr_input e) \<noteq> ca_marketId c)
          then denied RESULT_DERIVATION_VIOLATION s
          else
            (let nxt = derived_result c ev tm;
                 store = (Inr (nxt, True), s\<lparr>cs_results := jm_set (ca_id c) nxt (cs_results s)\<rparr>)
             in case jm_get (cs_results s) (ca_id c) of
                  None \<Rightarrow> store
                | Some e \<Rightarrow>
                    if same_derivation e nxt then (Inr (e, False), s)
                    else if cr_outcome e \<noteq> O_PENDING then denied RESULT_DERIVATION_VIOLATION s
                    else store))"

definition getResult :: "string \<Rightarrow> calls_store \<Rightarrow> result_row option" where
  "getResult k s = jm_get (cs_results s) k"

definition pendingResults :: "calls_store \<Rightarrow> result_row list" where
  "pendingResults s = filter (\<lambda>r. cr_outcome r = O_PENDING) (jm_values (cs_results s))"

definition calls_getCursor :: "string \<Rightarrow> calls_store \<Rightarrow> string option" where
  "calls_getCursor k s = (case jm_get (cs_cursors s) k of None \<Rightarrow> None | Some c \<Rightarrow> c)"

definition calls_setCursor :: "string \<Rightarrow> string option \<Rightarrow> calls_store \<Rightarrow> calls_store" where
  "calls_setCursor k c s = s\<lparr>cs_cursors := jm_set k c (cs_cursors s)\<rparr>"

text \<open>Accuracy counts settled calls; a void one counts on neither side.\<close>

fun accuracyOf :: "result_row list \<Rightarrow> nat \<times> nat" where
  "accuracyOf [] = (0, 0)"
| "accuracyOf (r # rs) =
     (case accuracyOf rs of (settled, correct) \<Rightarrow>
        (case cr_outcome r of
           O_CORRECT \<Rightarrow> (Suc settled, Suc correct)
         | O_INCORRECT \<Rightarrow> (Suc settled, correct)
         | _ \<Rightarrow> (settled, correct)))"

definition isDistributable :: "call_row \<Rightarrow> bool" where
  "isDistributable c \<longleftrightarrow> ca_hiddenAt c = None"

end
