(* ===== verification/CallHistory.thy ===== *)
theory CallHistory
  imports CallStore
begin

text \<open>
  What the store of the social calls promises over its whole life. A sequence of its operations
  is a list of \<open>calls_op\<close>; each is one method of \<open>InMemoryCallsStore\<close>. \<open>grows\<close> says that nothing
  said or settled is taken back, \<open>calls_ok\<close> that what is stored agrees with itself.
\<close>

section \<open>Operations as steps\<close>

datatype calls_op =
  Upsert_person person
| Follow_op string string
| Unfollow_op string string
| Insert_call call_row
| Update_call string "call_field list"
| Hide_call string "string option" int
| Unhide_call string
| Delete_call string
| Insert_response response_row
| Insert_update thesis_update
| Write_result string "resolution_record option" int result_writer
| Set_cursor string "string option"

fun calls_step :: "(share_price \<Rightarrow> bool) \<Rightarrow> calls_op \<Rightarrow> calls_store \<Rightarrow> calls_store" where
  "calls_step parses (Upsert_person p) s = upsertPerson p s"
| "calls_step parses (Follow_op a b) s = follow a b s"
| "calls_step parses (Unfollow_op a b) s = unfollow a b s"
| "calls_step parses (Insert_call r) s = snd (insertCall parses r s)"
| "calls_step parses (Update_call k patch) s = snd (attemptCallUpdate k patch s)"
| "calls_step parses (Hide_call k reason now) s = snd (store_hideCall k reason now s)"
| "calls_step parses (Unhide_call k) s = snd (unhideCall k s)"
| "calls_step parses (Delete_call k) s = snd (deleteCall k s)"
| "calls_step parses (Insert_response r) s = snd (insertResponse r s)"
| "calls_step parses (Insert_update u) s = snd (insertThesisUpdate u s)"
| "calls_step parses (Write_result k ev tm writer) s = snd (writeResult k ev tm writer s)"
| "calls_step parses (Set_cursor k c) s = calls_setCursor k c s"

definition calls_run :: "(share_price \<Rightarrow> bool) \<Rightarrow> calls_op list \<Rightarrow> calls_store \<Rightarrow> calls_store" where
  "calls_run parses ops s = fold (calls_step parses) ops s"

section \<open>Calls that only get hidden\<close>

definition frozen :: "call_row \<Rightarrow> call_row \<Rightarrow> bool" where
  "frozen c d \<longleftrightarrow> d\<lparr>ca_hiddenAt := ca_hiddenAt c, ca_hiddenReason := ca_hiddenReason c\<rparr> = c"

lemma frozen_refl [simp]: "frozen c c"
  by (simp add: frozen_def)

lemma frozen_eq:
  assumes "frozen c d"
  shows "ca_id d = ca_id c" "ca_userId d = ca_userId c" "ca_marketId d = ca_marketId c" "ca_side d = ca_side c"
    "ca_lockedAt d = ca_lockedAt c" "ca_entryProbability d = ca_entryProbability c" "ca_thesis d = ca_thesis c"
    "ca_visibility d = ca_visibility c" "ca_parentCallId d = ca_parentCallId c" "ca_entryPrice d = ca_entryPrice c"
    "ca_confidence d = ca_confidence c" "ca_createdAt d = ca_createdAt c" "ca_fundingState d = ca_fundingState c"
    "ca_snapshotId d = ca_snapshotId c"
  using assms unfolding frozen_def by (cases c; cases d; simp)+

lemma frozen_trans: "frozen c d \<Longrightarrow> frozen d e \<Longrightarrow> frozen c e"
  unfolding frozen_def by (cases c; cases d; cases e; simp)

lemma put_field_frozen: "mutable_field f \<Longrightarrow> frozen c d \<Longrightarrow> frozen c (put_field f d)"
  by (cases f) (auto simp: frozen_def)

lemma patch_frozen: "list_all mutable_field patch \<Longrightarrow> frozen c d \<Longrightarrow> frozen c (fold put_field patch d)"
  by (induction patch arbitrary: d) (auto intro: put_field_frozen)

definition ext :: "(string, call_row) jmap \<Rightarrow> (string, call_row) jmap \<Rightarrow> bool" where
  "ext m n \<longleftrightarrow> (\<forall>k c. jm_get m k = Some c \<longrightarrow> (\<exists>d. jm_get n k = Some d \<and> frozen c d))"

lemma ext_refl [simp]: "ext m m"
  by (auto simp: ext_def)

lemma ext_trans: "ext l m \<Longrightarrow> ext m n \<Longrightarrow> ext l n"
  unfolding ext_def by (meson frozen_trans)

lemma extD: "ext m n \<Longrightarrow> jm_get m k = Some c \<Longrightarrow> \<exists>d. jm_get n k = Some d \<and> frozen c d"
  by (auto simp: ext_def)

lemma ext_set: "jm_get m k = Some c \<Longrightarrow> frozen c d \<Longrightarrow> ext m (jm_set k d m)"
  by (auto simp: ext_def)

lemma ext_fresh: "jm_get m k = None \<Longrightarrow> ext m (jm_set k d m)"
  by (auto simp: ext_def)

section \<open>What each operation does to the store\<close>

lemma thread_of_frame [simp]:
  "thread_of k (s\<lparr>cs_people := p\<rparr>) = thread_of k s" "thread_of k (s\<lparr>cs_follows := f\<rparr>) = thread_of k s"
  "thread_of k (s\<lparr>cs_calls := m\<rparr>) = thread_of k s" "thread_of k (s\<lparr>cs_responses := r\<rparr>) = thread_of k s"
  "thread_of k (s\<lparr>cs_results := x\<rparr>) = thread_of k s" "thread_of k (s\<lparr>cs_cursors := c\<rparr>) = thread_of k s"
  by (simp_all add: thread_of_def)

text \<open>The two ways a call map changes: a fresh call, or a call hidden or shown.\<close>

lemma insertCall_cases:
  obtains (same) e where "insertCall parses r s = (Inl e, s)"
  | (new) "insertCall parses r s = (Inr r, s\<lparr>cs_calls := jm_set (ca_id r) r (cs_calls s)\<rparr>)"
      "jm_get (cs_calls s) (ca_id r) = None" "ca_hiddenAt r = None"
      "liveCallByUserOnMarket (ca_userId r) (ca_marketId r) s = None"
      "case ca_entryPrice r of None \<Rightarrow> True | Some p \<Rightarrow> parses p \<and> price_fits r p"
      "truthy (ca_parentCallId r) \<Longrightarrow>
        \<exists>p. jm_get (cs_calls s) (the (ca_parentCallId r)) = Some p \<and> ca_marketId p = ca_marketId r"
proof -
  have "(\<exists>e. insertCall parses r s = (Inl e, s)) \<or>
      insertCall parses r s = (Inr r, s\<lparr>cs_calls := jm_set (ca_id r) r (cs_calls s)\<rparr>) \<and>
      jm_get (cs_calls s) (ca_id r) = None \<and> ca_hiddenAt r = None \<and>
      liveCallByUserOnMarket (ca_userId r) (ca_marketId r) s = None \<and>
      (case ca_entryPrice r of None \<Rightarrow> True | Some p \<Rightarrow> parses p \<and> price_fits r p) \<and>
      (truthy (ca_parentCallId r) \<longrightarrow>
        (\<exists>p. jm_get (cs_calls s) (the (ca_parentCallId r)) = Some p \<and> ca_marketId p = ca_marketId r))"
    by (auto simp: insertCall_def denied_def Let_def split: option.split)
  then show ?thesis using same new by blast
qed

lemma attemptCallUpdate_cases:
  obtains (same) e where "attemptCallUpdate k patch s = (Inl e, s)"
  | (put) c u where "attemptCallUpdate k patch s = (Inr u, s\<lparr>cs_calls := jm_set k u (cs_calls s)\<rparr>)"
      "jm_get (cs_calls s) k = Some c" "frozen c u" "u = fold put_field patch c"
proof (cases "jm_get (cs_calls s) k")
  case None
  then show ?thesis by (intro same) (simp add: attemptCallUpdate_def denied_def)
next
  case (Some c)
  show ?thesis
  proof (cases "list_ex (changes_frozen c) patch \<or> \<not> list_all mutable_field patch")
    case True
    with Some show ?thesis by (intro same) (auto simp: attemptCallUpdate_def denied_def)
  next
    case False
    with Some show ?thesis
      by (intro put[of "fold put_field patch c" c]) (auto simp: attemptCallUpdate_def Let_def intro: patch_frozen)
  qed
qed

lemma store_hideCall_cases:
  obtains (same) x where "store_hideCall k reason now s = (x, s)"
  | (put) c where "store_hideCall k reason now s =
        (Inr (c\<lparr>ca_hiddenAt := Some now, ca_hiddenReason := reason\<rparr>),
         s\<lparr>cs_calls := jm_set k (c\<lparr>ca_hiddenAt := Some now, ca_hiddenReason := reason\<rparr>) (cs_calls s)\<rparr>)"
      "jm_get (cs_calls s) k = Some c" "ca_hiddenAt c = None"
proof (cases "jm_get (cs_calls s) k")
  case None
  then show ?thesis by (intro same) (simp add: store_hideCall_def denied_def)
next
  case (Some c)
  show ?thesis
  proof (cases "ca_hiddenAt c")
    case None
    with Some show ?thesis
      by (intro put[of c]) (simp_all add: store_hideCall_def attemptCallUpdate_def Let_def)
  next
    case h: (Some a)
    with Some show ?thesis by (intro same) (simp add: store_hideCall_def)
  qed
qed

lemma insertResponse_cases:
  obtains (same) e where "insertResponse r s = (Inl e, s)"
  | (new) target where "insertResponse r s = (Inr r, s\<lparr>cs_responses := jm_set (rs_id r) r (cs_responses s)\<rparr>)"
      "jm_get (cs_calls s) (rs_targetCallId r) = Some target" "ca_userId target \<noteq> rs_actorUserId r"
      "responseBy (rs_actorUserId r) (rs_targetCallId r) (rs_kind r) s = None"
      "mints_call (rs_kind r) = truthy (rs_resultingCallId r)"
      "truthy (rs_resultingCallId r) \<Longrightarrow>
        \<exists>own. jm_get (cs_calls s) (the (rs_resultingCallId r)) = Some own \<and> ca_userId own = rs_actorUserId r \<and>
          ca_marketId own = ca_marketId target \<and>
          (rs_kind r = Back \<longrightarrow> ca_side own = ca_side target) \<and> (rs_kind r = Fade \<longrightarrow> ca_side own \<noteq> ca_side target)"
proof -
  have "(\<exists>e. insertResponse r s = (Inl e, s)) \<or>
      (\<exists>target. insertResponse r s = (Inr r, s\<lparr>cs_responses := jm_set (rs_id r) r (cs_responses s)\<rparr>) \<and>
      jm_get (cs_calls s) (rs_targetCallId r) = Some target \<and> ca_userId target \<noteq> rs_actorUserId r \<and>
      responseBy (rs_actorUserId r) (rs_targetCallId r) (rs_kind r) s = None \<and>
      mints_call (rs_kind r) = truthy (rs_resultingCallId r) \<and>
      (truthy (rs_resultingCallId r) \<longrightarrow>
        (\<exists>own. jm_get (cs_calls s) (the (rs_resultingCallId r)) = Some own \<and> ca_userId own = rs_actorUserId r \<and>
          ca_marketId own = ca_marketId target \<and>
          (rs_kind r = Back \<longrightarrow> ca_side own = ca_side target) \<and> (rs_kind r = Fade \<longrightarrow> ca_side own \<noteq> ca_side target))))"
    by (auto simp: insertResponse_def denied_def Let_def split: option.split)
  then show ?thesis using same new by blast
qed

lemma insertThesisUpdate_cases:
  obtains (same) e where "insertThesisUpdate u s = (Inl e, s)"
  | (new) c v where "insertThesisUpdate u s = (Inr v,
        s\<lparr>cs_updates := jm_set (tu_callId u) (thread_of (tu_callId u) s @ [v]) (cs_updates s),
          cs_updateIds := set_add (tu_id u) (cs_updateIds s)\<rparr>)"
      "v = u\<lparr>tu_body := js_trim (tu_body u)\<rparr>" "jm_get (cs_calls s) (tu_callId u) = Some c"
      "tu_authorUserId u = ca_userId c" "tu_body v \<noteq> []" "length (tu_body v) \<le> THESIS_UPDATE_MAX"
      "ca_lockedAt c \<le> tu_createdAt u" "tu_id u \<notin> set (cs_updateIds s)"
      "length (thread_of (tu_callId u) s) < MAX_THESIS_UPDATES_PER_CALL"
proof -
  let ?v = "u\<lparr>tu_body := js_trim (tu_body u)\<rparr>"
  have "(\<exists>e. insertThesisUpdate u s = (Inl e, s)) \<or>
      (\<exists>c. insertThesisUpdate u s = (Inr ?v,
        s\<lparr>cs_updates := jm_set (tu_callId u) (thread_of (tu_callId u) s @ [?v]) (cs_updates s),
          cs_updateIds := set_add (tu_id u) (cs_updateIds s)\<rparr>) \<and>
      jm_get (cs_calls s) (tu_callId u) = Some c \<and>
      tu_authorUserId u = ca_userId c \<and> tu_body ?v \<noteq> [] \<and> length (tu_body ?v) \<le> THESIS_UPDATE_MAX \<and>
      ca_lockedAt c \<le> tu_createdAt u \<and> tu_id u \<notin> set (cs_updateIds s) \<and>
      length (thread_of (tu_callId u) s) < MAX_THESIS_UPDATES_PER_CALL)"
    by (auto simp: insertThesisUpdate_def denied_def Let_def not_le not_less split: option.split)
  then show ?thesis using same new by blast
qed

lemma writeResult_cases:
  obtains (same) x where "writeResult k ev tm writer s = (x, s)"
  | (put) c nxt where "writeResult k ev tm writer s = (Inr (nxt, True), s\<lparr>cs_results := jm_set (ca_id c) nxt (cs_results s)\<rparr>)"
      "nxt = derived_result c ev tm" "jm_get (cs_calls s) k = Some c"
      "\<And>e. ev = Some e \<Longrightarrow> ri_marketId (rr_input e) = ca_marketId c"
      "case jm_get (cs_results s) (ca_id c) of None \<Rightarrow> True | Some x \<Rightarrow> cr_outcome x = O_PENDING \<and> \<not> same_derivation x nxt"
proof -
  have "(\<exists>x. writeResult k ev tm writer s = (x, s)) \<or>
      (\<exists>c. writeResult k ev tm writer s =
          (Inr (derived_result c ev tm, True), s\<lparr>cs_results := jm_set (ca_id c) (derived_result c ev tm) (cs_results s)\<rparr>) \<and>
        jm_get (cs_calls s) k = Some c \<and>
        (\<forall>e. ev = Some e \<longrightarrow> ri_marketId (rr_input e) = ca_marketId c) \<and>
        (case jm_get (cs_results s) (ca_id c) of None \<Rightarrow> True
         | Some x \<Rightarrow> cr_outcome x = O_PENDING \<and> \<not> same_derivation x (derived_result c ev tm)))"
    by (auto simp: writeResult_def denied_def Let_def split: option.split)
  then show ?thesis using same put by blast
qed

section \<open>Nothing said is taken back\<close>

definition grows :: "calls_store \<Rightarrow> calls_store \<Rightarrow> bool" where
  "grows s t \<longleftrightarrow> ext (cs_calls s) (cs_calls t) \<and>
     (\<forall>k r. jm_get (cs_results s) k = Some r \<and> cr_outcome r \<noteq> O_PENDING \<longrightarrow> jm_get (cs_results t) k = Some r) \<and>
     (\<forall>k. \<exists>us. thread_of k t = thread_of k s @ us)"

lemma grows_refl [simp]: "grows s s"
  by (simp add: grows_def)

lemma grows_trans: "grows r s \<Longrightarrow> grows s t \<Longrightarrow> grows r t"
  unfolding grows_def by (metis append.assoc ext_trans)

lemma grows_calls: "ext (cs_calls s) m \<Longrightarrow> grows s (s\<lparr>cs_calls := m\<rparr>)"
  by (simp add: grows_def thread_of_def)

lemma grows_frame:
  "grows s (s\<lparr>cs_people := p\<rparr>)" "grows s (s\<lparr>cs_follows := f\<rparr>)" "grows s (s\<lparr>cs_responses := r\<rparr>)"
  "grows s (s\<lparr>cs_cursors := c\<rparr>)"
  by (simp_all add: grows_def thread_of_def)

lemma insertCall_grows: "grows s (snd (insertCall parses r s))"
  by (cases rule: insertCall_cases[of parses r s]) (simp_all add: grows_calls ext_fresh)

lemma attemptCallUpdate_grows: "grows s (snd (attemptCallUpdate k patch s))"
  by (cases rule: attemptCallUpdate_cases[of k patch s]) (simp_all add: grows_calls ext_set)

lemma store_hideCall_grows: "grows s (snd (store_hideCall k reason now s))"
  by (cases rule: store_hideCall_cases[of k reason now s]) (simp_all add: grows_calls ext_set frozen_def)

lemma insertResponse_grows: "grows s (snd (insertResponse r s))"
  by (cases rule: insertResponse_cases[of r s]) (simp_all add: grows_frame)

lemma insertThesisUpdate_grows: "grows s (snd (insertThesisUpdate u s))"
  by (cases rule: insertThesisUpdate_cases[of u s]) (simp_all add: grows_def thread_of_def)

lemma writeResult_grows: "grows s (snd (writeResult k ev tm writer s))"
  by (cases rule: writeResult_cases[of k ev tm writer s])
    (auto simp: grows_def thread_of_def split: option.splits)

lemma calls_step_grows: "grows s (calls_step parses op1 s)"
  by (cases op1)
    (simp_all add: upsertPerson_def follow_def unfollow_def unhideCall_def deleteCall_def denied_def calls_setCursor_def
      grows_frame insertCall_grows attemptCallUpdate_grows store_hideCall_grows insertResponse_grows
      insertThesisUpdate_grows writeResult_grows)

lemma calls_run_grows: "grows s (calls_run parses ops s)"
  unfolding calls_run_def
  by (induction ops arbitrary: s) (auto intro: grows_trans calls_step_grows)

section \<open>What is stored agrees with itself\<close>

definition answers :: "(string, call_row) jmap \<Rightarrow> response_row \<Rightarrow> bool" where
  "answers m r \<longleftrightarrow> (\<exists>target. jm_get m (rs_targetCallId r) = Some target \<and> ca_userId target \<noteq> rs_actorUserId r \<and>
     (if mints_call (rs_kind r)
      then \<exists>own. rs_resultingCallId r = Some (ca_id own) \<and> jm_get m (ca_id own) = Some own \<and>
             ca_userId own = rs_actorUserId r \<and> ca_marketId own = ca_marketId target \<and>
             (ca_side own = ca_side target) = (rs_kind r = Back)
      else \<not> truthy (rs_resultingCallId r)))"

definition derived :: "(string, call_row) jmap \<Rightarrow> string \<Rightarrow> result_row \<Rightarrow> bool" where
  "derived m k x \<longleftrightarrow> (\<exists>c ev tm. jm_get m k = Some c \<and> x = derived_result c ev tm \<and>
     (\<forall>e. ev = Some e \<longrightarrow> ri_marketId (rr_input e) = ca_marketId c))"

definition thread_fits :: "call_row \<Rightarrow> thesis_update list \<Rightarrow> bool" where
  "thread_fits c us \<longleftrightarrow> length us \<le> MAX_THESIS_UPDATES_PER_CALL \<and> distinct (map tu_id us) \<and>
     (\<forall>u \<in> set us. tu_authorUserId u = ca_userId c \<and> ca_lockedAt c \<le> tu_createdAt u \<and>
        tu_body u \<noteq> [] \<and> length (tu_body u) \<le> THESIS_UPDATE_MAX)"

definition threads_fit :: "calls_store \<Rightarrow> bool" where
  "threads_fit s \<longleftrightarrow>
     (\<forall>k. thread_of k s \<noteq> [] \<longrightarrow> (\<exists>c. jm_get (cs_calls s) k = Some c \<and> thread_fits c (thread_of k s))) \<and>
     (\<forall>k. \<forall>u \<in> set (thread_of k s). tu_id u \<in> set (cs_updateIds s))"

definition one_answer :: "(string, response_row) jmap \<Rightarrow> bool" where
  "one_answer m \<longleftrightarrow> (\<forall>j r k q. jm_get m j = Some r \<and> jm_get m k = Some q \<and> rs_actorUserId r = rs_actorUserId q \<and>
     rs_targetCallId r = rs_targetCallId q \<and> rs_kind r = rs_kind q \<longrightarrow> j = k)"

definition calls_ok :: "calls_store \<Rightarrow> bool" where
  "calls_ok s \<longleftrightarrow> jm_wf (cs_calls s) \<and> jm_wf (cs_responses s) \<and> jm_wf (cs_results s) \<and>
     jm_all (\<lambda>k c. ca_id c = k) (cs_calls s) \<and>
     jm_all (\<lambda>k. answers (cs_calls s)) (cs_responses s) \<and> one_answer (cs_responses s) \<and>
     jm_all (derived (cs_calls s)) (cs_results s) \<and>
     threads_fit s"

lemma answers_ext:
  assumes "answers m r" "ext m n" "jm_all (\<lambda>k c. ca_id c = k) n"
  shows "answers n r"
proof -
  from assms(1) obtain t where t: "jm_get m (rs_targetCallId r) = Some t" "ca_userId t \<noteq> rs_actorUserId r"
    and q: "if mints_call (rs_kind r)
      then \<exists>own. rs_resultingCallId r = Some (ca_id own) \<and> jm_get m (ca_id own) = Some own \<and>
             ca_userId own = rs_actorUserId r \<and> ca_marketId own = ca_marketId t \<and>
             (ca_side own = ca_side t) = (rs_kind r = Back)
      else \<not> truthy (rs_resultingCallId r)"
    by (auto simp: answers_def)
  obtain t' where t': "jm_get n (rs_targetCallId r) = Some t'" "frozen t t'"
    using extD[OF assms(2) t(1)] by blast
  show ?thesis
  proof (cases "mints_call (rs_kind r)")
    case True
    with q obtain own where own: "rs_resultingCallId r = Some (ca_id own)" "jm_get m (ca_id own) = Some own"
      "ca_userId own = rs_actorUserId r" "ca_marketId own = ca_marketId t"
      "(ca_side own = ca_side t) = (rs_kind r = Back)" by auto
    obtain own' where "jm_get n (ca_id own) = Some own'" "frozen own own'"
      using extD[OF assms(2) own(2)] by blast
    with own t t' True show ?thesis
      by (auto simp: answers_def frozen_eq intro!: exI[of _ t'] exI[of _ own'])
  next
    case False
    with q t t' show ?thesis by (auto simp: answers_def frozen_eq)
  qed
qed

lemma derived_ext: "derived m k x \<Longrightarrow> ext m n \<Longrightarrow> derived n k x"
proof -
  assume "derived m k x" "ext m n"
  then obtain c ev tm d where *: "x = derived_result c ev tm" "jm_get n k = Some d" "frozen c d"
    "\<forall>e. ev = Some e \<longrightarrow> ri_marketId (rr_input e) = ca_marketId c"
    unfolding derived_def by (blast dest: extD)
  then have "x = derived_result d ev tm" by (simp add: derived_result_def frozen_eq)
  moreover have "\<forall>e. ev = Some e \<longrightarrow> ri_marketId (rr_input e) = ca_marketId d" using * by (simp add: frozen_eq)
  ultimately show ?thesis using *(2) unfolding derived_def by blast
qed

lemma thread_fits_frozen: "thread_fits c us \<Longrightarrow> frozen c d \<Longrightarrow> thread_fits d us"
  by (simp add: thread_fits_def frozen_eq)

lemma threads_fit_frame [simp]:
  "threads_fit (s\<lparr>cs_people := p\<rparr>) = threads_fit s" "threads_fit (s\<lparr>cs_follows := f\<rparr>) = threads_fit s"
  "threads_fit (s\<lparr>cs_responses := r\<rparr>) = threads_fit s" "threads_fit (s\<lparr>cs_results := x\<rparr>) = threads_fit s"
  "threads_fit (s\<lparr>cs_cursors := c\<rparr>) = threads_fit s"
  by (simp_all add: threads_fit_def)

lemma threads_fit_ext:
  assumes "threads_fit s" "ext (cs_calls s) m"
  shows "threads_fit (s\<lparr>cs_calls := m\<rparr>)"
proof -
  have "\<exists>c. jm_get m k = Some c \<and> thread_fits c (thread_of k s)" if "thread_of k s \<noteq> []" for k
  proof -
    from assms(1) that obtain c where "jm_get (cs_calls s) k = Some c" "thread_fits c (thread_of k s)"
      unfolding threads_fit_def by blast
    then show ?thesis using extD[OF assms(2)] thread_fits_frozen by blast
  qed
  with assms(1) show ?thesis by (simp add: threads_fit_def)
qed

lemma calls_ok_empty: "calls_ok empty_calls"
  by (simp add: calls_ok_def empty_calls_def one_answer_def threads_fit_def thread_of_def)

lemma calls_ok_ext:
  assumes "calls_ok s" "ext (cs_calls s) m" "jm_wf m" "jm_all (\<lambda>k c. ca_id c = k) m"
  shows "calls_ok (s\<lparr>cs_calls := m\<rparr>)"
proof -
  have a: "jm_all (\<lambda>k. answers (cs_calls s)) (cs_responses s)" "jm_all (derived (cs_calls s)) (cs_results s)"
    using assms(1) by (simp_all add: calls_ok_def)
  have "jm_all (\<lambda>k. answers m) (cs_responses s)"
    using a(1) by (rule jm_all_mono) (rule answers_ext[OF _ assms(2,4)])
  moreover have "jm_all (derived m) (cs_results s)"
    using a(2) by (rule jm_all_mono) (rule derived_ext[OF _ assms(2)])
  ultimately show ?thesis using assms by (simp add: calls_ok_def threads_fit_ext)
qed

lemma calls_ok_set:
  "calls_ok s \<Longrightarrow> jm_get (cs_calls s) k = Some c \<Longrightarrow> frozen c u \<Longrightarrow> calls_ok (s\<lparr>cs_calls := jm_set k u (cs_calls s)\<rparr>)"
proof (rule calls_ok_ext)
  assume "calls_ok s" "jm_get (cs_calls s) k = Some c" "frozen c u"
  then show "ext (cs_calls s) (jm_set k u (cs_calls s))" by (intro ext_set)
  from \<open>calls_ok s\<close> have keys: "jm_all (\<lambda>k c. ca_id c = k) (cs_calls s)" and w: "jm_wf (cs_calls s)"
    by (simp_all add: calls_ok_def)
  have "ca_id c = k" using jm_all_get[OF keys \<open>jm_get (cs_calls s) k = Some c\<close>] .
  with \<open>frozen c u\<close> keys show "jm_all (\<lambda>k c. ca_id c = k) (jm_set k u (cs_calls s))"
    by (simp add: frozen_eq)
  from w show "jm_wf (jm_set k u (cs_calls s))" by simp
qed

lemma calls_ok_new:
  "calls_ok s \<Longrightarrow> jm_get (cs_calls s) (ca_id r) = None \<Longrightarrow> calls_ok (s\<lparr>cs_calls := jm_set (ca_id r) r (cs_calls s)\<rparr>)"
  by (rule calls_ok_ext) (simp_all add: calls_ok_def ext_fresh)

lemma insertCall_ok: "calls_ok s \<Longrightarrow> calls_ok (snd (insertCall parses r s))"
  by (cases rule: insertCall_cases[of parses r s]) (simp_all add: calls_ok_new)

lemma attemptCallUpdate_ok: "calls_ok s \<Longrightarrow> calls_ok (snd (attemptCallUpdate k patch s))"
  by (cases rule: attemptCallUpdate_cases[of k patch s]) (simp_all add: calls_ok_set)

lemma store_hideCall_ok: "calls_ok s \<Longrightarrow> calls_ok (snd (store_hideCall k reason now s))"
  by (cases rule: store_hideCall_cases[of k reason now s]) (simp_all add: calls_ok_set frozen_def)

lemma one_answer_set:
  assumes "one_answer m" "\<And>k q. jm_get m k = Some q \<Longrightarrow>
    \<not> (rs_actorUserId q = rs_actorUserId r \<and> rs_targetCallId q = rs_targetCallId r \<and> rs_kind q = rs_kind r)"
  shows "one_answer (jm_set i r m)"
  using assms unfolding one_answer_def jm_get_set by (metis option.inject)

lemma responseBy_None:
  "responseBy u k kind s = None \<Longrightarrow> jm_get (cs_responses s) j = Some q \<Longrightarrow>
    \<not> (rs_actorUserId q = u \<and> rs_targetCallId q = k \<and> rs_kind q = kind)"
  unfolding responseBy_def find_None_iff by (force dest: jm_get_mem)

lemma truthy_the: "truthy t \<Longrightarrow> t = Some (the t)"
  by (auto simp: truthy_def split: option.splits)

lemma insertResponse_ok:
  assumes "calls_ok s"
  shows "calls_ok (snd (insertResponse r s))"
proof (cases rule: insertResponse_cases[of r s])
  case (new target)
  have "answers (cs_calls s) r"
  proof (cases "truthy (rs_resultingCallId r)")
    case True
    from new(6)[OF True] obtain own where own: "jm_get (cs_calls s) (the (rs_resultingCallId r)) = Some own"
      "ca_userId own = rs_actorUserId r" "ca_marketId own = ca_marketId target"
      "rs_kind r = Back \<longrightarrow> ca_side own = ca_side target" "rs_kind r = Fade \<longrightarrow> ca_side own \<noteq> ca_side target"
      by blast
    have i: "ca_id own = the (rs_resultingCallId r)"
      using assms own(1) by (auto simp: calls_ok_def dest: jm_all_get)
    show ?thesis
      unfolding answers_def using new(2,3,5) True own i truthy_the[OF True]
      by (auto simp: mints_call_def intro!: exI[of _ target] exI[of _ own])
  next
    case False
    with new show ?thesis by (auto simp: answers_def)
  qed
  with new assms show ?thesis
    by (auto simp: calls_ok_def intro!: one_answer_set dest: responseBy_None)
qed (use assms in simp)

lemma insertThesisUpdate_ok:
  assumes "calls_ok s"
  shows "calls_ok (snd (insertThesisUpdate u s))"
proof (cases rule: insertThesisUpdate_cases[of u s])
  case (new c v)
  let ?k = "tu_callId u" and ?s = "snd (insertThesisUpdate u s)"
  have t: "thread_of j ?s = (if j = ?k then thread_of ?k s @ [v] else thread_of j s)" for j
    by (simp add: new(1) thread_of_def)
  have f: "threads_fit s" using assms by (simp add: calls_ok_def)
  then have "thread_fits c (thread_of ?k s) \<or> thread_of ?k s = []"
    using new(3) unfolding threads_fit_def by (metis option.inject)
  moreover have "tu_id v \<notin> tu_id ` set (thread_of ?k s)"
    using f new(2,8) by (auto simp: threads_fit_def)
  ultimately have "thread_fits c (thread_of ?k s @ [v])"
    using new(2,4-7,9) by (auto simp: thread_fits_def MAX_THESIS_UPDATES_PER_CALL_def)
  with f new(3) have "\<exists>c. jm_get (cs_calls s) j = Some c \<and> thread_fits c (thread_of j ?s)"
    if "thread_of j ?s \<noteq> []" for j
    using that by (cases "j = ?k") (simp_all add: t threads_fit_def)
  moreover have "tu_id x \<in> insert (tu_id u) (set (cs_updateIds s))" if "x \<in> set (thread_of j ?s)" for x j
    using that f new(2) by (cases "j = ?k") (auto simp: t threads_fit_def)
  moreover have "cs_calls ?s = cs_calls s" "set (cs_updateIds ?s) = insert (tu_id u) (set (cs_updateIds s))"
    by (simp_all add: new(1))
  ultimately have "threads_fit ?s" by (simp add: threads_fit_def)
  with assms show ?thesis by (simp add: calls_ok_def new(1))
qed (use assms in simp)

lemma writeResult_ok:
  assumes "calls_ok s"
  shows "calls_ok (snd (writeResult k ev tm writer s))"
proof (cases rule: writeResult_cases[of k ev tm writer s])
  case (put c nxt)
  have "ca_id c = k" using assms put(3) by (auto simp: calls_ok_def dest: jm_all_get)
  with put have "derived (cs_calls s) (ca_id c) nxt" unfolding derived_def by blast
  with put assms show ?thesis by (simp add: calls_ok_def)
qed (use assms in simp)

lemma calls_step_ok: "calls_ok s \<Longrightarrow> calls_ok (calls_step parses op1 s)"
proof (cases op1)
  case (Upsert_person p)
  then show "calls_ok s \<Longrightarrow> ?thesis" by (simp add: upsertPerson_def calls_ok_def)
next
  case (Follow_op a b)
  then show "calls_ok s \<Longrightarrow> ?thesis" by (simp add: follow_def calls_ok_def)
next
  case (Unfollow_op a b)
  then show "calls_ok s \<Longrightarrow> ?thesis" by (simp add: unfollow_def calls_ok_def)
next
  case (Set_cursor k c)
  then show "calls_ok s \<Longrightarrow> ?thesis" by (simp add: calls_setCursor_def calls_ok_def)
qed (simp_all add: unhideCall_def deleteCall_def denied_def insertCall_ok attemptCallUpdate_ok store_hideCall_ok
    insertResponse_ok insertThesisUpdate_ok writeResult_ok)

lemma calls_run_ok: "calls_ok s \<Longrightarrow> calls_ok (calls_run parses ops s)"
  unfolding calls_run_def by (induction ops arbitrary: s) (auto intro: calls_step_ok)

section \<open>One live call for each person and market\<close>

definition one_live :: "calls_store \<Rightarrow> bool" where
  "one_live s \<longleftrightarrow> (\<forall>c \<in> set (liveCalls s). \<forall>d \<in> set (liveCalls s).
     ca_userId c = ca_userId d \<and> ca_marketId c = ca_marketId d \<longrightarrow> c = d)"

lemma live_mem: "c \<in> set (liveCalls s) \<longleftrightarrow> c \<in> snd ` set (cs_calls s) \<and> ca_hiddenAt c = None"
  by (auto simp: liveCalls_def listCalls_def)

lemma liveCall_None: "liveCallByUserOnMarket u m s = None \<longleftrightarrow>
    (\<forall>c \<in> set (liveCalls s). \<not> (ca_userId c = u \<and> ca_marketId c = m))"
  by (auto simp: liveCallByUserOnMarket_def find_None_iff)

lemma liveCall_Some: "liveCallByUserOnMarket u m s = Some c \<Longrightarrow>
    c \<in> set (liveCalls s) \<and> ca_userId c = u \<and> ca_marketId c = m"
  unfolding liveCallByUserOnMarket_def find_Some_iff by (metis nth_mem)

lemma one_live_put:
  assumes "one_live s" "ca_hiddenAt u = None \<Longrightarrow> liveCallByUserOnMarket (ca_userId u) (ca_marketId u) s = None"
  shows "one_live (s\<lparr>cs_calls := jm_set k u (cs_calls s)\<rparr>)"
proof -
  have m: "c = u \<and> ca_hiddenAt u = None \<or> c \<in> set (liveCalls s)"
    if "c \<in> set (liveCalls (s\<lparr>cs_calls := jm_set k u (cs_calls s)\<rparr>))" for c
    using that by (auto simp: live_mem image_iff dest!: in_jm_set)
  show ?thesis
    unfolding one_live_def using assms m by (metis liveCall_None one_live_def)
qed

lemma one_live_frame [simp]:
  "one_live (s\<lparr>cs_responses := r\<rparr>) = one_live s" "one_live (s\<lparr>cs_results := x\<rparr>) = one_live s"
  "one_live (s\<lparr>cs_people := p\<rparr>) = one_live s" "one_live (s\<lparr>cs_follows := f\<rparr>) = one_live s"
  "one_live (s\<lparr>cs_cursors := c\<rparr>) = one_live s" "one_live (s\<lparr>cs_updates := v, cs_updateIds := i\<rparr>) = one_live s"
  by (simp_all add: one_live_def liveCalls_def listCalls_def)

lemma insertCall_one_live: "one_live s \<Longrightarrow> one_live (snd (insertCall parses r s))"
  by (cases rule: insertCall_cases[of parses r s]) (simp_all add: one_live_put)

lemma store_hideCall_one_live: "one_live s \<Longrightarrow> one_live (snd (store_hideCall k reason now s))"
  by (cases rule: store_hideCall_cases[of k reason now s]) (simp_all, rule one_live_put, simp_all)

lemma insertResponse_one_live: "one_live s \<Longrightarrow> one_live (snd (insertResponse r s))"
  by (cases rule: insertResponse_cases[of r s]) simp_all

lemma insertThesisUpdate_one_live: "one_live s \<Longrightarrow> one_live (snd (insertThesisUpdate u s))"
  by (cases rule: insertThesisUpdate_cases[of u s]) simp_all

lemma writeResult_one_live: "one_live s \<Longrightarrow> one_live (snd (writeResult k ev tm writer s))"
  by (cases rule: writeResult_cases[of k ev tm writer s]) simp_all

lemma unhideCall_one_live:
  assumes "one_live s" "\<And>c. jm_get (cs_calls s) k = Some c \<Longrightarrow> liveCallByUserOnMarket (ca_userId c) (ca_marketId c) s = None"
  shows "one_live (snd (unhideCall k s))"
  using assms by (auto simp: unhideCall_def attemptCallUpdate_def denied_def Let_def one_live_put split: option.split)

text \<open>Operations that may show a hidden call again are the only ones that can break it.\<close>

fun may_show :: "calls_op \<Rightarrow> bool" where
  "may_show (Update_call _ _) = True"
| "may_show (Unhide_call _) = True"
| "may_show _ = False"

lemma calls_step_one_live: "one_live s \<Longrightarrow> \<not> may_show op1 \<Longrightarrow> one_live (calls_step parses op1 s)"
  by (cases op1)
    (simp_all add: upsertPerson_def follow_def unfollow_def deleteCall_def denied_def calls_setCursor_def insertCall_one_live
      store_hideCall_one_live insertResponse_one_live insertThesisUpdate_one_live writeResult_one_live)

lemma calls_run_one_live: "one_live s \<Longrightarrow> list_all (\<lambda>o1. \<not> may_show o1) ops \<Longrightarrow> one_live (calls_run parses ops s)"
  unfolding calls_run_def by (induction ops arbitrary: s) (auto intro: calls_step_one_live)

lemma one_live_empty [simp]: "one_live empty_calls"
  by (simp add: one_live_def empty_calls_def liveCalls_def listCalls_def)

section \<open>The follow graph\<close>

text \<open>A user id in a follow key holds no arrow; the graph is then what \<open>isFollowing\<close> says.\<close>

definition arrow_free :: "string \<Rightarrow> bool" where
  "arrow_free a \<longleftrightarrow> \<not> js_includes ''->'' a"

lemma js_includes_iff: "js_includes p s \<longleftrightarrow> (\<exists>u v. s = u @ p @ v)"
proof (induction s)
  case Nil
  then show ?case by auto
next
  case (Cons c cs)
  have "(\<exists>u v. c # cs = u @ p @ v) \<longleftrightarrow> starts_with p (c # cs) \<or> (\<exists>u v. cs = u @ p @ v)"
    unfolding starts_with_iff by (metis append_Cons append_Nil list.exhaust list.sel(3))
  with Cons show ?case by simp
qed

lemma arrow_split:
  assumes "a @ ''->'' @ b = c @ ''->'' @ d" "arrow_free a" "arrow_free c"
  shows "a = c"
proof -
  have "us = []" if e: "c = a @ us" "us @ ''->'' @ d = ''->'' @ b" and f: "arrow_free c" for a b c d us
  proof (cases us)
    case (Cons x xs)
    with e(2) have x: "x = CHR ''-''" by simp
    show ?thesis
    proof (cases xs)
      case Nil
      with Cons e(2) show ?thesis by simp
    next
      case (Cons y ys)
      with \<open>us = x # xs\<close> e(2) have "y = CHR ''>''" by simp
      with \<open>us = x # xs\<close> x Cons e(1) have "c = a @ ''->'' @ ys" by simp
      with f show ?thesis by (auto simp: arrow_free_def js_includes_iff)
    qed
  qed simp
  with assms show ?thesis
    unfolding append_eq_append_conv2 by (metis append_Nil2)
qed

definition follows_fit :: "calls_store \<Rightarrow> bool" where
  "follows_fit s \<longleftrightarrow> distinct (cs_follows s) \<and>
     (\<forall>k \<in> set (cs_follows s). \<exists>a b. arrow_free a \<and> arrow_free b \<and> a \<noteq> b \<and> k = followKey a b)"

lemma follow_fit: "follows_fit s \<Longrightarrow> arrow_free a \<Longrightarrow> arrow_free b \<Longrightarrow> follows_fit (follow a b s)"
  by (auto simp: follows_fit_def follow_def)

lemma unfollow_fit: "follows_fit s \<Longrightarrow> follows_fit (unfollow a b s)"
  by (auto simp: follows_fit_def unfollow_def)

lemma isFollowing_follow: "isFollowing a b (follow c d s) \<longleftrightarrow>
    isFollowing a b s \<or> c \<noteq> d \<and> followKey a b = followKey c d"
  by (auto simp: isFollowing_def follow_def)

lemma isFollowing_unfollow: "isFollowing a b (unfollow c d s) \<longleftrightarrow> isFollowing a b s \<and> followKey a b \<noteq> followKey c d"
  by (auto simp: isFollowing_def unfollow_def)

lemma followKey_inj: "arrow_free a \<Longrightarrow> arrow_free c \<Longrightarrow> followKey a b = followKey c d \<longleftrightarrow> a = c \<and> b = d"
  unfolding followKey_def using arrow_split by fastforce

lemma followingOf_iff: "b \<in> set (followingOf a s) \<longleftrightarrow> isFollowing a b s"
  by (auto simp: followingOf_def isFollowing_def followKey_def starts_with_iff image_iff Let_def
      intro!: bexI[of _ "a @ ''->'' @ b"])

lemma followersOf_iff: "a \<in> set (followersOf b s) \<longleftrightarrow> isFollowing a b s"
  by (auto simp: followersOf_def isFollowing_def followKey_def ends_with_iff image_iff Let_def
      intro!: bexI[of _ "a @ ''->'' @ b"])

section \<open>Properties\<close>

definition free_call :: "string \<Rightarrow> string \<Rightarrow> string \<Rightarrow> side \<Rightarrow> int \<Rightarrow> string option \<Rightarrow> call_row" where
  "free_call k u m sd tm parent = \<lparr>ca_id = k, ca_userId = u, ca_marketId = m, ca_side = sd, ca_confidence = None,
     ca_thesis = None, ca_entryProbability = Some (1 / 2), ca_snapshotId = Some ''snap'', ca_entryPrice = None,
     ca_visibility = Public, ca_createdAt = tm, ca_lockedAt = tm, ca_parentCallId = parent, ca_fundingState = F_NONE,
     ca_hiddenAt = None, ca_hiddenReason = None\<rparr>"

definition sample_evidence :: "string \<Rightarrow> resolution \<Rightarrow> resolution_record" where
  "sample_evidence m r = \<lparr>rr_id = ''res_1'', rr_input = \<lparr>ri_marketId = m, ri_venue = V_fixture, ri_venueMarketId = ''v'',
     ri_resolution = r, ri_resolvedAt = 90, ri_evidenceSource = ''venue'', ri_rawEvidence = ''{}''\<rparr>,
     rr_recordedAt = 95, rr_demo = True\<rparr>"

definition sample_ops :: "calls_op list" where
  "sample_ops = [Insert_call (free_call ''c1'' ''ann'' ''m'' YES 10 None), Write_result ''c1'' None 10 Service,
     Insert_call (free_call ''c2'' ''bob'' ''m'' NO 20 (Some ''c1'')), Write_result ''c2'' None 20 Service,
     Insert_response \<lparr>rs_id = ''r1'', rs_actorUserId = ''bob'', rs_targetCallId = ''c1'', rs_kind = Fade,
       rs_resultingCallId = Some ''c2'', rs_createdAt = 20, rs_note = None\<rparr>,
     Insert_update \<lparr>tu_id = ''u1'', tu_callId = ''c1'', tu_authorUserId = ''ann'', tu_body = '' so far '', tu_createdAt = 30\<rparr>,
     Write_result ''c1'' (Some (sample_evidence ''m'' R_NO)) 100 Service]"

text \<open>C16: Over any life of the store nothing said is taken back. A call stays, unchanged but for its
  being hidden; a settled result stays exactly as it was; a thesis thread only gets longer.\<close>

theorem calls_history:
  assumes "s = calls_run parses ops empty_calls" "t = calls_run parses later s"
  shows "(\<forall>k c. getCall k s = Some c \<longrightarrow>
      (\<exists>d. getCall k t = Some d \<and> d\<lparr>ca_hiddenAt := ca_hiddenAt c, ca_hiddenReason := ca_hiddenReason c\<rparr> = c)) \<and>
    (\<forall>k r. getResult k s = Some r \<and> cr_outcome r \<noteq> O_PENDING \<longrightarrow> getResult k t = Some r) \<and>
    (\<forall>k. \<exists>us. thread_of k t = thread_of k s @ us)"
  using calls_run_grows[of s parses later] assms(2)
  unfolding grows_def ext_def frozen_def getCall_def getResult_def by simp

theorem calls_history_witness:
  "\<exists>r d. getResult ''c1'' (calls_run (\<lambda>_. False) [Hide_call ''c1'' None 200, Write_result ''c1'' None 300 Service]
      (calls_run (\<lambda>_. False) sample_ops empty_calls)) = Some r \<and> cr_outcome r = O_INCORRECT \<and>
     getCall ''c1'' (calls_run (\<lambda>_. False) [Hide_call ''c1'' None 200, Write_result ''c1'' None 300 Service]
      (calls_run (\<lambda>_. False) sample_ops empty_calls)) = Some d \<and> ca_side d = YES"
proof -
  let ?s = "calls_run (\<lambda>_. False) sample_ops empty_calls"
  have r: "getResult ''c1'' ?s = Some (derived_result (free_call ''c1'' ''ann'' ''m'' YES 10 None) (Some (sample_evidence ''m'' R_NO)) 100)"
    by code_simp
  have c: "getCall ''c1'' ?s = Some (free_call ''c1'' ''ann'' ''m'' YES 10 None)" by code_simp
  have i: "cr_outcome (derived_result (free_call ''c1'' ''ann'' ''m'' YES 10 None) (Some (sample_evidence ''m'' R_NO)) 100) = O_INCORRECT"
    by code_simp
  note h = calls_history[OF refl refl, where parses = "\<lambda>_. False" and ops = sample_ops
      and later = "[Hide_call ''c1'' None 200, Write_result ''c1'' None 300 Service]"]
  from h c obtain d where d: "getCall ''c1'' (calls_run (\<lambda>_. False) [Hide_call ''c1'' None 200, Write_result ''c1'' None 300 Service] ?s) = Some d"
    and f: "frozen (free_call ''c1'' ''ann'' ''m'' YES 10 None) d" unfolding frozen_def by blast
  from f have "ca_side d = YES" by (simp add: frozen_eq free_call_def)
  with h r i d show ?thesis by (metis call_outcome.distinct(3))
qed

text \<open>C18: What is stored agrees with itself. Every result is what its call's side makes of the cited
  resolution, and pending exactly while none is cited; every back or fade carries the actor's own
  call on the same market, on the same or the other side, and a challenge carries none.\<close>

theorem calls_agree:
  assumes "s = calls_run parses ops empty_calls"
  shows "(\<forall>k r. getResult k s = Some r \<longrightarrow>
      (\<exists>c. getCall k s = Some c \<and> cr_outcome r = deriveCallOutcome (ca_side c) (cr_resolution r) \<and>
        (cr_outcome r = O_PENDING) = (cr_marketResolutionId r = None))) \<and>
    (\<forall>k r. jm_get (cs_responses s) k = Some r \<longrightarrow>
      (\<exists>target. getCall (rs_targetCallId r) s = Some target \<and> ca_userId target \<noteq> rs_actorUserId r \<and>
        (case rs_kind r of
           Challenge \<Rightarrow> \<not> truthy (rs_resultingCallId r)
         | kind \<Rightarrow> (\<exists>own. rs_resultingCallId r = Some (ca_id own) \<and> getCall (ca_id own) s = Some own \<and>
             ca_userId own = rs_actorUserId r \<and> ca_marketId own = ca_marketId target \<and>
             (ca_side own = ca_side target) = (kind = Back)))))"
proof (intro conjI allI impI)
  have ok: "calls_ok s" using assms calls_run_ok[OF calls_ok_empty] by simp
  {
    fix k r assume r: "getResult k s = Some r"
    from ok have d: "jm_all (derived (cs_calls s)) (cs_results s)" by (simp add: calls_ok_def)
    obtain c ev tm where "jm_get (cs_calls s) k = Some c" "r = derived_result c ev tm"
      using jm_all_get[OF d r[unfolded getResult_def]] by (auto simp: derived_def)
    then show "\<exists>c. getCall k s = Some c \<and> cr_outcome r = deriveCallOutcome (ca_side c) (cr_resolution r) \<and>
        (cr_outcome r = O_PENDING) = (cr_marketResolutionId r = None)"
      by (cases ev) (auto simp: derived_result_def Let_def getCall_def deriveCallOutcome_def)
  next
    fix k r assume r: "jm_get (cs_responses s) k = Some r"
    from ok have d: "jm_all (\<lambda>k. answers (cs_calls s)) (cs_responses s)" by (simp add: calls_ok_def)
    have "answers (cs_calls s) r" using jm_all_get[OF d r] .
    then show "\<exists>target. getCall (rs_targetCallId r) s = Some target \<and> ca_userId target \<noteq> rs_actorUserId r \<and>
        (case rs_kind r of
           Challenge \<Rightarrow> \<not> truthy (rs_resultingCallId r)
         | kind \<Rightarrow> (\<exists>own. rs_resultingCallId r = Some (ca_id own) \<and> getCall (ca_id own) s = Some own \<and>
             ca_userId own = rs_actorUserId r \<and> ca_marketId own = ca_marketId target \<and>
             (ca_side own = ca_side target) = (kind = Back)))"
      by (cases "rs_kind r") (auto simp: answers_def mints_call_def getCall_def)
  }
qed

theorem calls_agree_witness:
  "(\<exists>r c. getResult ''c1'' (calls_run (\<lambda>_. False) sample_ops empty_calls) = Some r \<and>
     getCall ''c1'' (calls_run (\<lambda>_. False) sample_ops empty_calls) = Some c \<and>
     cr_outcome r = deriveCallOutcome (ca_side c) (cr_resolution r) \<and> cr_resolution r = Some R_NO) \<and>
   jm_get (cs_responses (calls_run (\<lambda>_. False) sample_ops empty_calls)) ''r1'' \<noteq> None"
proof -
  let ?s = "calls_run (\<lambda>_. False) sample_ops empty_calls"
  have r: "getResult ''c1'' ?s = Some (derived_result (free_call ''c1'' ''ann'' ''m'' YES 10 None) (Some (sample_evidence ''m'' R_NO)) 100)"
    by code_simp
  have x: "jm_get (cs_responses ?s) ''r1'' \<noteq> None" by code_simp
  have y: "cr_resolution (derived_result (free_call ''c1'' ''ann'' ''m'' YES 10 None) (Some (sample_evidence ''m'' R_NO)) 100) = Some R_NO"
    by code_simp
  from calls_agree[OF refl, of "\<lambda>_. False" sample_ops] r x y show ?thesis by blast
qed

text \<open>A person has at most one live call on a market as long as no operation shows a hidden call
  again; showing one, with \<open>unhideCall\<close> or a patch of its columns, checks nothing and can leave two.\<close>

theorem one_live_call:
  "(list_all (\<lambda>o1. \<not> may_show o1) ops \<longrightarrow>
      (\<forall>c \<in> set (liveCalls (calls_run parses ops empty_calls)). \<forall>d \<in> set (liveCalls (calls_run parses ops empty_calls)).
         ca_userId c = ca_userId d \<and> ca_marketId c = ca_marketId d \<longrightarrow> c = d)) \<and>
   length (filter (\<lambda>c. ca_userId c = ''ann'' \<and> ca_marketId c = ''m'')
     (liveCalls (calls_run parses [Insert_call (free_call ''c1'' ''ann'' ''m'' YES 10 None), Hide_call ''c1'' None 20,
        Insert_call (free_call ''c2'' ''ann'' ''m'' NO 30 None), Unhide_call ''c1''] empty_calls))) = 2"
proof (intro conjI impI)
  assume "list_all (\<lambda>o1. \<not> may_show o1) ops"
  then show "\<forall>c \<in> set (liveCalls (calls_run parses ops empty_calls)). \<forall>d \<in> set (liveCalls (calls_run parses ops empty_calls)).
       ca_userId c = ca_userId d \<and> ca_marketId c = ca_marketId d \<longrightarrow> c = d"
    using calls_run_one_live[OF one_live_empty] unfolding one_live_def by blast
next
  show "length (filter (\<lambda>c. ca_userId c = ''ann'' \<and> ca_marketId c = ''m'')
     (liveCalls (calls_run parses [Insert_call (free_call ''c1'' ''ann'' ''m'' YES 10 None), Hide_call ''c1'' None 20,
        Insert_call (free_call ''c2'' ''ann'' ''m'' NO 30 None), Unhide_call ''c1''] empty_calls))) = 2"
    by (simp add: calls_run_def empty_calls_def free_call_def insertCall_def liveCallByUserOnMarket_def liveCalls_def
        listCalls_def store_hideCall_def attemptCallUpdate_def unhideCall_def truthy_def Let_def)
qed

theorem one_live_call_witness:
  "\<not> (\<exists>c \<in> set (liveCalls (calls_run (\<lambda>_. False) sample_ops empty_calls)).
     \<exists>d \<in> set (liveCalls (calls_run (\<lambda>_. False) sample_ops empty_calls)).
       ca_userId c = ca_userId d \<and> ca_marketId c = ca_marketId d \<and> c \<noteq> d)"
proof -
  have "list_all (\<lambda>o1. \<not> may_show o1) sample_ops" by (simp add: sample_ops_def)
  then show ?thesis using one_live_call[of sample_ops "\<lambda>_. False"] by blast
qed

text \<open>With ids that hold no arrow, following one person changes nothing between any other two,
  and both lists say exactly who follows whom.\<close>

theorem follow_graph:
  assumes "arrow_free a" "arrow_free c"
  shows "(isFollowing a b (follow c d s) \<longleftrightarrow> isFollowing a b s \<or> a = c \<and> b = d \<and> a \<noteq> b) \<and>
    (isFollowing a b (unfollow c d s) \<longleftrightarrow> isFollowing a b s \<and> \<not> (a = c \<and> b = d)) \<and>
    (b \<in> set (followingOf a s) \<longleftrightarrow> isFollowing a b s) \<and> (a \<in> set (followersOf b s) \<longleftrightarrow> isFollowing a b s)"
  using followKey_inj[OF assms]
  by (auto simp: isFollowing_follow isFollowing_unfollow followingOf_iff followersOf_iff)

theorem follow_graph_witness:
  "isFollowing ''ann'' ''bob'' (follow ''ann'' ''bob'' empty_calls) \<and>
   \<not> isFollowing ''ann'' ''cat'' (follow ''ann'' ''bob'' empty_calls)"
proof -
  have "arrow_free ''ann''" by code_simp
  then show ?thesis
    using follow_graph[of "''ann''" "''ann''" "''bob''" "''bob''" empty_calls]
      follow_graph[of "''ann''" "''ann''" "''cat''" "''bob''" empty_calls]
    by (simp add: isFollowing_def empty_calls_def)
qed

end
