(* ===== verification/ResultSync.thy ===== *)
theory ResultSync
  imports CallHistory
begin

text \<open>
  How venue evidence becomes call results: the reader of markets (\<open>src/calls/markets.ts\<close>), the
  synchroniser (\<open>ResolutionSync.ts\<close>) and the worker that polls the markets people called on
  (\<open>CallResultWorker.ts\<close>). One pass reads the clock once. Receipts are collected in the order
  they are handed on. The venue side of the worker (catalog pass, refresh of one market, flush of
  the durable writers) is a port: an argument over a state of its own. The lemmas show that a
  pass settles every call exactly as the evidence says, wherever its cursor stood, that a second
  pass changes nothing, and that the worker comes round to every pending market.
\<close>

section \<open>The reader of markets\<close>

record market_reader =
  rd_getMarket :: "string \<Rightarrow> venue_market option"
  rd_listMarkets :: "venue_market list"
  rd_latestSnapshot :: "string \<Rightarrow> market_snapshot option"
  rd_latestSharePrice :: "string \<Rightarrow> share_price option"
  rd_getResolution :: "string \<Rightarrow> resolution_record option"
  rd_resolutionsSince :: "num \<Rightarrow> resolution_record list"




definition emptyMarketReader :: market_reader where
  "emptyMarketReader = \<lparr>rd_getMarket = (\<lambda>_. None), rd_listMarkets = [], rd_latestSnapshot = (\<lambda>_. None),
     rd_latestSharePrice = (\<lambda>_. None), rd_getResolution = (\<lambda>_. None), rd_resolutionsSince = (\<lambda>_. [])\<rparr>"

definition acceptsNewCalls :: "venue_market \<Rightarrow> int \<Rightarrow> int \<Rightarrow> bool" where
  "acceptsNewCalls m now cutoffMs \<longleftrightarrow>
     (vm_venue m = V_panta \<or> vm_venue m = V_fixture) \<and> vm_status m = M_OPEN \<and>
     (case vm_opensAt m of None \<Rightarrow> True | Some t \<Rightarrow> t \<le> now) \<and>
     (case vm_closesAt m of None \<Rightarrow> True | Some t \<Rightarrow> now < t - max 0 cutoffMs)"

definition callsCloseAt :: "venue_market \<Rightarrow> int \<Rightarrow> int option" where
  "callsCloseAt m cutoffMs = map_option (\<lambda>t. t - max 0 cutoffMs) (vm_closesAt m)"

section \<open>One pass of the synchroniser\<close>

definition RESOLUTION_CURSOR :: string where
  "RESOLUTION_CURSOR = ''call_results:venue_resolutions''"

record sync_report =
  sy_resolutionsSeen :: nat
  sy_resultsSettled :: nat
  sy_resultsUnchanged :: nat
  sy_stillPending :: nat
  sy_resultsMaterialised :: nat
  sy_pages :: nat
  sy_cursor :: "string option"

record sync_state =
  ss_store :: calls_store
  ss_report :: sync_report
  ss_settled :: "string list"
  ss_receipts :: "(call_row \<times> result_row \<times> int) list"

type_synonym 'a syncing = "(calls_thrown + 'a) \<times> sync_state"

definition cursorAt :: "calls_store \<Rightarrow> num" where
  "cursorAt s =
     (case calls_getCursor RESOLUTION_CURSOR s of
        None \<Rightarrow> 0
      | Some raw \<Rightarrow> (case js_number raw of None \<Rightarrow> 0 | Some n \<Rightarrow> if n \<ge> 0 then n else 0))"

definition resetCursor :: "calls_store \<Rightarrow> calls_store" where
  "resetCursor = calls_setCursor RESOLUTION_CURSOR None"

definition sync_receipt :: "string \<Rightarrow> int \<Rightarrow> sync_state \<Rightarrow> sync_state" where
  "sync_receipt k now st =
     (case (getCall k (ss_store st), getResult k (ss_store st)) of
        (Some c, Some r) \<Rightarrow>
          if cr_outcome r = O_PENDING then st else st\<lparr>ss_receipts := ss_receipts st @ [(c, r, now)]\<rparr>
      | _ \<Rightarrow> st)"

definition count_settled :: "string \<Rightarrow> sync_state \<Rightarrow> sync_state" where
  "count_settled k st =
     (if k \<in> set (ss_settled st) then st
      else st\<lparr>ss_settled := set_add k (ss_settled st),
              ss_report := (ss_report st)\<lparr>sy_resultsSettled := sy_resultsSettled (ss_report st) + 1\<rparr>\<rparr>)"

definition count_unchanged :: "sync_state \<Rightarrow> sync_state" where
  "count_unchanged st = st\<lparr>ss_report := (ss_report st)\<lparr>sy_resultsUnchanged := sy_resultsUnchanged (ss_report st) + 1\<rparr>\<rparr>"

fun applyEvidence :: "resolution_record \<Rightarrow> int \<Rightarrow> call_row list \<Rightarrow> sync_state \<Rightarrow> unit syncing" where
  "applyEvidence ev now [] st = (Inr (), st)"
| "applyEvidence ev now (c # cs) st =
     (if ca_marketId c \<noteq> ri_marketId (rr_input ev) then applyEvidence ev now cs st
      else
        (case writeResult (ca_id c) (Some ev) now Service (ss_store st) of
           (Inl e, s) \<Rightarrow> (Inl e, st\<lparr>ss_store := s\<rparr>)
         | (Inr (r, changed), s) \<Rightarrow>
             (let st = st\<lparr>ss_store := s\<rparr>
              in applyEvidence ev now cs
                   (if changed
                    then sync_receipt (ca_id c) now (if cr_outcome r \<noteq> O_PENDING then count_settled (ca_id c) st else st)
                    else count_unchanged st))))"

fun apply_batch :: "int \<Rightarrow> resolution_record list \<Rightarrow> sync_state \<Rightarrow> unit syncing" where
  "apply_batch now [] st = (Inr (), st)"
| "apply_batch now (ev # evs) st =
     (let st = st\<lparr>ss_report := (ss_report st)\<lparr>sy_resolutionsSeen := sy_resolutionsSeen (ss_report st) + 1\<rparr>\<rparr>
      in case applyEvidence ev now (listCalls (ss_store st)) st of
           (Inl e, st) \<Rightarrow> (Inl e, st)
         | (Inr _, st) \<Rightarrow> apply_batch now evs st)"

text \<open>The first pass: the tail of the evidence, page by page, the cursor saved after each. A page of
  size 0 would be empty, and reading its last element throws.\<close>

fun sync_pages :: "nat \<Rightarrow> int \<Rightarrow> nat \<Rightarrow> resolution_record list \<Rightarrow> sync_state \<Rightarrow> unit syncing" where
  "sync_pages pageSize now 0 tail st = (Inr (), st)"
| "sync_pages pageSize now (Suc left) tail st =
     (if tail = [] then (Inr (), st)
      else
        (let st = st\<lparr>ss_report := (ss_report st)\<lparr>sy_pages := sy_pages (ss_report st) + 1\<rparr>\<rparr>;
             batch = take pageSize tail
         in case apply_batch now batch st of
              (Inl e, st) \<Rightarrow> (Inl e, st)
            | (Inr _, st) \<Rightarrow>
                if batch = [] then (Inl Plain_error, st)
                else sync_pages pageSize now left (drop pageSize tail)
                  (st\<lparr>ss_store := calls_setCursor RESOLUTION_CURSOR (Some (int_str (rr_recordedAt (last batch)))) (ss_store st)\<rparr>)))"

text \<open>The repair sweep: every call without a settled result is derived from the venue's record.\<close>

fun sync_repair :: "market_reader \<Rightarrow> int \<Rightarrow> call_row list \<Rightarrow> sync_state \<Rightarrow> unit syncing" where
  "sync_repair rd now [] st = (Inr (), st)"
| "sync_repair rd now (c # cs) st =
     (let existing = getResult (ca_id c) (ss_store st)
      in if (case existing of None \<Rightarrow> False | Some x \<Rightarrow> cr_outcome x \<noteq> O_PENDING) then sync_repair rd now cs st
         else
           (case writeResult (ca_id c) (rd_getResolution rd (ca_marketId c)) now Service (ss_store st) of
              (Inl e, s) \<Rightarrow> (Inl e, st\<lparr>ss_store := s\<rparr>)
            | (Inr (r, changed), s) \<Rightarrow>
                (let st = st\<lparr>ss_store := s\<rparr>;
                     st = (if existing = None
                           then st\<lparr>ss_report := (ss_report st)\<lparr>sy_resultsMaterialised := sy_resultsMaterialised (ss_report st) + 1\<rparr>\<rparr>
                           else st);
                     st = (if changed \<and> cr_outcome r \<noteq> O_PENDING then sync_receipt (ca_id c) now (count_settled (ca_id c) st)
                           else if \<not> changed then count_unchanged st else st);
                     st = (if cr_outcome r = O_PENDING
                           then st\<lparr>ss_report := (ss_report st)\<lparr>sy_stillPending := sy_stillPending (ss_report st) + 1\<rparr>\<rparr>
                           else st)
                 in sync_repair rd now cs st)))"

definition sync_start :: "calls_store \<Rightarrow> sync_state" where
  "sync_start s = \<lparr>ss_store = s, ss_report = \<lparr>sy_resolutionsSeen = 0, sy_resultsSettled = 0, sy_resultsUnchanged = 0,
     sy_stillPending = 0, sy_resultsMaterialised = 0, sy_pages = 0, sy_cursor = None\<rparr>, ss_settled = [], ss_receipts = []\<rparr>"

definition sync_runOnce :: "market_reader \<Rightarrow> nat \<Rightarrow> nat \<Rightarrow> int \<Rightarrow> calls_store \<Rightarrow> sync_report syncing" where
  "sync_runOnce rd pageSize maxPages now s =
     (case sync_pages pageSize now maxPages (rd_resolutionsSince rd (cursorAt s)) (sync_start s) of
        (Inl e, st) \<Rightarrow> (Inl e, st)
      | (Inr _, st) \<Rightarrow>
          (case sync_repair rd now (listCalls (ss_store st)) st of
             (Inl e, st) \<Rightarrow> (Inl e, st)
           | (Inr _, st) \<Rightarrow> (Inr ((ss_report st)\<lparr>sy_cursor := calls_getCursor RESOLUTION_CURSOR (ss_store st)\<rparr>), st)))"

section \<open>The markets the worker polls\<close>

definition PENDING_MARKET_CURSOR :: string where
  "PENDING_MARKET_CURSOR = ''call_results:pending_panta_market''"

definition poll_wanted :: "market_reader \<Rightarrow> int \<Rightarrow> calls_store \<Rightarrow> call_row \<Rightarrow> string option" where
  "poll_wanted rd now s c =
     (if (case getResult (ca_id c) s of None \<Rightarrow> False | Some x \<Rightarrow> cr_outcome x \<noteq> O_PENDING) then None
      else case rd_getMarket rd (ca_marketId c) of
        None \<Rightarrow> None
      | Some m \<Rightarrow>
          if vm_venue m \<noteq> V_panta \<or> rd_getResolution rd (vm_id m) \<noteq> None then None
          else if vm_status m = M_OPEN \<and> (case vm_closesAt m of None \<Rightarrow> True | Some t \<Rightarrow> t > now) then None
          else Some (vm_venueMarketId m))"

definition first_index :: "('a \<Rightarrow> bool) \<Rightarrow> 'a list \<Rightarrow> nat option" where
  "first_index P xs = find (\<lambda>i. P (xs ! i)) [0..<length xs]"

text \<open>The next so many of the wanted markets in id order, starting after the cursor and going round.\<close>

definition round_start :: "string list \<Rightarrow> string option \<Rightarrow> nat" where
  "round_start ordered cursor =
     (case cursor of
        None \<Rightarrow> 0
      | Some k \<Rightarrow> (case first_index (\<lambda>i. i > k) ordered of None \<Rightarrow> 0 | Some i \<Rightarrow> i))"

definition next_targets :: "string list \<Rightarrow> string option \<Rightarrow> nat \<Rightarrow> string list" where
  "next_targets ordered cursor most =
     (let start = round_start ordered cursor in take most (drop start ordered @ take start ordered))"

definition wanted_markets :: "market_reader \<Rightarrow> int \<Rightarrow> calls_store \<Rightarrow> string list" where
  "wanted_markets rd now s = sort (remdups (List.map_filter (poll_wanted rd now s) (listCalls s)))"

definition pendingTargets :: "market_reader \<Rightarrow> int \<Rightarrow> nat \<Rightarrow> calls_store \<Rightarrow> string list" where
  "pendingTargets rd now most s =
     (let ordered = wanted_markets rd now s
      in if ordered = [] then [] else next_targets ordered (calls_getCursor PENDING_MARKET_CURSOR s) most)"

text \<open>The cursor moves to the last market polled, unless it stands there already.\<close>

definition move_cursor :: "string list \<Rightarrow> calls_store \<Rightarrow> calls_store" where
  "move_cursor targets s =
     (if targets \<noteq> [] \<and> last targets \<noteq> [] \<and> calls_getCursor PENDING_MARKET_CURSOR s \<noteq> Some (last targets)
      then calls_setCursor PENDING_MARKET_CURSOR (Some (last targets)) s else s)"

definition clamp_targets :: "int option \<Rightarrow> nat" where
  "clamp_targets requested = (case requested of None \<Rightarrow> 8 | Some n \<Rightarrow> nat (max 1 (min 16 n)))"

section \<open>One pass of the worker\<close>

datatype pass_thrown = From_venue thrown | From_calls calls_thrown

record 'p venue_port =
  vp_reader :: "'p \<Rightarrow> market_reader"
  vp_catalog :: "'p \<Rightarrow> (thrown + nat) \<times> 'p"
  vp_refresh :: "string \<Rightarrow> 'p \<Rightarrow> (thrown + bool \<times> bool) \<times> 'p"
  vp_flush :: "nat \<Rightarrow> 'p \<Rightarrow> thrown option"

record worker_report =
  wr_catalog :: nat
  wr_refreshed :: nat
  wr_unavailable :: nat
  wr_recorded :: nat
  wr_unevidenced :: nat
  wr_results :: sync_report

definition passes_over :: "thrown \<Rightarrow> bool" where
  "passes_over e \<longleftrightarrow>
     (case e of Venue_error c _ \<Rightarrow> retryable_code c \<or> c = CIRCUIT_OPEN \<or> c = VENUE_NOT_FOUND | _ \<Rightarrow> False)"

text \<open>The counts are of the markets refreshed, those that could not be, and of the resolutions
  recorded and those without evidence.\<close>

type_synonym poll_counts = "nat \<times> nat \<times> nat \<times> nat"

fun poll_targets :: "'p venue_port \<Rightarrow> string list \<Rightarrow> poll_counts \<Rightarrow> 'p \<Rightarrow> (thrown option \<times> poll_counts) \<times> 'p" where
  "poll_targets port [] n p = ((None, n), p)"
| "poll_targets port (k # ks) (a, b, c, d) p =
     (case vp_refresh port k p of
        (Inr (recorded, unevidenced), p) \<Rightarrow>
          poll_targets port ks (a + 1, b, c + (if recorded then 1 else 0), d + (if unevidenced then 1 else 0)) p
      | (Inl e, p) \<Rightarrow> if passes_over e then poll_targets port ks (a, b + 1, c, d) p else ((Some e, (a, b, c, d)), p))"

text \<open>The flushes of the venue's writer are numbered; the flush of the calls' writer is given apart.\<close>

definition worker_runPass :: "'p venue_port \<Rightarrow> calls_thrown option \<Rightarrow> nat \<Rightarrow> nat \<Rightarrow> nat \<Rightarrow> int \<Rightarrow> 'p \<Rightarrow> calls_store
    \<Rightarrow> (pass_thrown + worker_report) \<times> 'p \<times> calls_store" where
  "worker_runPass port calls_flush most pageSize maxPages now p s =
     (case vp_catalog port p of
        (cat, p) \<Rightarrow>
     (case (case vp_flush port 0 p of
              Some e \<Rightarrow> ((Some e, (0, 0, 0, 0)), p, s)
            | None \<Rightarrow>
                (let targets = pendingTargets (vp_reader port p) now most s
                 in case poll_targets port targets (0, 0, 0, 0) p of
                      ((Some e, n), p) \<Rightarrow> ((Some e, n), p, s)
                    | ((None, n), p) \<Rightarrow> ((None, n), p, move_cursor targets s))) of
        ((fault, n), p, s) \<Rightarrow>
          let failure = (case cat of Inl e \<Rightarrow> Some e | Inr _ \<Rightarrow> fault)
          in case vp_flush port 1 p of
               Some e \<Rightarrow> (Inl (From_venue e), p, s)
             | None \<Rightarrow>
                 (case sync_runOnce (vp_reader port p) pageSize maxPages now s of
                    (Inl e, st) \<Rightarrow> (Inl (From_calls e), p, ss_store st)
                  | (Inr rep, st) \<Rightarrow>
                      (case calls_flush of
                         Some e \<Rightarrow> (Inl (From_calls e), p, ss_store st)
                       | None \<Rightarrow>
                           (case (failure, cat, n) of
                              (Some e, _, _) \<Rightarrow> (Inl (From_venue e), p, ss_store st)
                            | (None, Inr catalog, (a, b, c, d)) \<Rightarrow>
                                (Inr \<lparr>wr_catalog = catalog, wr_refreshed = a, wr_unavailable = b, wr_recorded = c,
                                      wr_unevidenced = d, wr_results = rep\<rparr>, p, ss_store st)
                            | (None, Inl e, _) \<Rightarrow> (Inl (From_venue e), p, ss_store st))))))"

section \<open>A pass settles what the evidence settles\<close>

text \<open>What the synchroniser relies on: a resolution is filed under its own market, and the tail of
  the evidence holds nothing the venue's record does not hold.\<close>

locale evidence_source =
  fixes reader :: "'s \<Rightarrow> market_reader" and kept :: "'s \<Rightarrow> bool"
  assumes filed: "kept st \<Longrightarrow> rd_getResolution (reader st) m = Some e \<Longrightarrow> ri_marketId (rr_input e) = m"
    and tail_held: "kept st \<Longrightarrow> e \<in> set (rd_resolutionsSince (reader st) since) \<Longrightarrow>
      rd_getResolution (reader st) (ri_marketId (rr_input e)) = Some e"

definition reader_ok :: "market_reader \<Rightarrow> bool" where
  "reader_ok rd \<longleftrightarrow> (\<forall>m e. rd_getResolution rd m = Some e \<longrightarrow> ri_marketId (rr_input e) = m) \<and>
     (\<forall>since. \<forall>e \<in> set (rd_resolutionsSince rd since). rd_getResolution rd (ri_marketId (rr_input e)) = Some e)"

context evidence_source
begin

lemma reader_fits: "kept st \<Longrightarrow> reader_ok (reader st)"
  unfolding reader_ok_def using filed tail_held by blast

end




interpretation no_reader: evidence_source "\<lambda>_. emptyMarketReader" "\<lambda>_. True"
  by unfold_locales (simp_all add: emptyMarketReader_def)

text \<open>The result the evidence makes of a call, and the stores whose settled results are of that kind.\<close>

definition due :: "market_reader \<Rightarrow> call_row \<Rightarrow> result_row" where
  "due rd c = derived_result c (rd_getResolution rd (ca_marketId c)) 0"

definition as_due :: "market_reader \<Rightarrow> calls_store \<Rightarrow> string \<Rightarrow> bool" where
  "as_due rd s k \<longleftrightarrow> (\<exists>c x. jm_get (cs_calls s) k = Some c \<and> jm_get (cs_results s) k = Some x \<and> same_derivation x (due rd c))"


lemma same_derivation_time: "same_derivation x (derived_result c ev tm) = same_derivation x (derived_result c ev tm')"
  by (simp add: same_derivation_def derived_result_def Let_def)

lemma derived_outcome: "cr_outcome (derived_result c ev tm) = O_PENDING \<longleftrightarrow> ev = None"
  by (cases ev) (auto simp: derived_result_def deriveCallOutcome_def)

lemma derived_pending: "cr_outcome (derived_result c ev tm) = O_PENDING \<Longrightarrow> same_derivation (derived_result c ev tm) (derived_result c None tm')"
  by (simp add: derived_outcome same_derivation_time[of _ c None tm' tm]) (simp add: same_derivation_def)






lemma sync_receipt_store [simp]: "ss_store (sync_receipt k now st) = ss_store st"
  by (simp add: sync_receipt_def split: option.split)

lemma count_store [simp]: "ss_store (count_settled k st) = ss_store st" "ss_store (count_unchanged st) = ss_store st"
  by (simp_all add: count_settled_def count_unchanged_def)

lemma count_unchanged_frame [simp]:
  "ss_receipts (count_unchanged st) = ss_receipts st"
  "sy_resultsSettled (ss_report (count_unchanged st)) = sy_resultsSettled (ss_report st)"
  by (simp_all add: count_unchanged_def)







lemma cursor_frame [simp]:
  "cs_calls (calls_setCursor k v s) = cs_calls s" "cs_results (calls_setCursor k v s) = cs_results s"
  "as_due rd (calls_setCursor k v s) = as_due rd s"
  by (simp_all add: calls_setCursor_def as_due_def fun_eq_iff)





section \<open>The worker comes round\<close>

lemma first_index_Some: "first_index P xs = Some i \<Longrightarrow> i < length xs \<and> P (xs ! i) \<and> (\<forall>j < i. \<not> P (xs ! j))"
  unfolding first_index_def find_Some_iff by auto

lemma first_index_None: "first_index P xs = None \<longleftrightarrow> (\<forall>i < length xs. \<not> P (xs ! i))"
  unfolding first_index_def find_None_iff by auto

text \<open>Where the next round starts after a round that ended at index i.\<close>

lemma next_start:
  assumes "sorted xs" "distinct xs" "i < length xs"
  shows "round_start xs (Some (xs ! i)) = Suc i mod length xs"
proof -
  have less: "xs ! a < xs ! b" if "a < b" "b < length xs" for a b
    using that assms sorted_nth_mono[of xs a b] nth_eq_iff_index_eq[of xs a b] by fastforce
  show ?thesis
  proof (cases "Suc i < length xs")
    case True
    have "first_index (\<lambda>k. k > xs ! i) xs = Some (Suc i)"
    proof (cases "first_index (\<lambda>k. k > xs ! i) xs")
      case None
      then show ?thesis using less[of i "Suc i"] True by (simp add: first_index_None)
    next
      case (Some j)
      note j = first_index_Some[OF this]
      have "\<not> j < Suc i"
        using j less[of j i] assms(3) by (cases "j = i") (auto simp: less_Suc_eq)
      moreover have "\<not> Suc i < j" using j less[of i "Suc i"] True by auto
      ultimately show ?thesis using Some by simp
    qed
    with True show ?thesis by (simp add: round_start_def)
  next
    case False
    with assms(3) have l: "Suc i = length xs" by simp
    have "first_index (\<lambda>k. k > xs ! i) xs = None"
      unfolding first_index_None
    proof (intro allI impI)
      fix j assume "j < length xs"
      with l have "j \<le> i" by simp
      with assms show "\<not> xs ! i < xs ! j" using sorted_nth_mono[of xs j i] by (simp add: leD)
    qed
    with l show ?thesis by (simp add: round_start_def)
  qed
qed

lemma round_start_less: "xs \<noteq> [] \<Longrightarrow> round_start xs cursor < length xs"
  by (auto simp: round_start_def split: option.split dest: first_index_Some)

lemma rotated_nth:
  assumes "start < length xs" "j < length xs"
  shows "(drop start xs @ take start xs) ! j = xs ! ((start + j) mod length xs)"
proof (cases "start + j < length xs")
  case True
  then have "j < length xs - start" by simp
  with True show ?thesis by (simp add: nth_append)
next
  case False
  with assms have "(start + j) mod length xs = start + j - length xs"
    by (simp add: mod_if)
  moreover have "\<not> j < length xs - start" "j - (length xs - start) = start + j - length xs"
    "start + j - length xs < start" using False assms by simp_all
  ultimately show ?thesis using assms(1) by (simp add: nth_append)
qed

text \<open>The rounds over a list that stays the same, each from the end of the one before.\<close>

fun rounds :: "string list \<Rightarrow> nat \<Rightarrow> nat \<Rightarrow> string option \<Rightarrow> string list list" where
  "rounds xs most 0 cursor = []"
| "rounds xs most (Suc n) cursor =
     (let ts = next_targets xs cursor most in ts # rounds xs most n (Some (last ts)))"

lemma round_at:
  assumes "sorted xs" "distinct xs" "0 < most" "most \<le> length xs"
    and "round_start xs cursor = start"
    and "start < length xs"
  shows "next_targets xs cursor most = map (\<lambda>j. xs ! ((start + j) mod length xs)) [0..<most]"
    and "round_start xs (Some (last (next_targets xs cursor most))) =
      (start + most) mod length xs"
proof -
  show t: "next_targets xs cursor most = map (\<lambda>j. xs ! ((start + j) mod length xs)) [0..<most]"
    unfolding next_targets_def assms(5) Let_def
  proof (rule nth_equalityI)
    show "length (take most (drop start xs @ take start xs)) = length (map (\<lambda>j. xs ! ((start + j) mod length xs)) [0..<most])"
      using assms(4,6) by simp
    fix i assume "i < length (take most (drop start xs @ take start xs))"
    then have "i < most" "i < length xs" using assms(4) by simp_all
    then show "take most (drop start xs @ take start xs) ! i = map (\<lambda>j. xs ! ((start + j) mod length xs)) [0..<most] ! i"
      using rotated_nth[OF assms(6), of i] by (simp only: nth_take nth_map_upt length_upt) simp
  qed
  let ?i = "(start + (most - 1)) mod length xs"
  have "last (next_targets xs cursor most) = xs ! ?i"
    unfolding t using assms(3) by (simp add: last_map last_upt)
  moreover have "?i < length xs" using assms(6) by (intro mod_less_divisor) linarith
  moreover have "Suc ?i mod length xs = Suc (start + (most - 1)) mod length xs" by (rule mod_Suc_eq)
  moreover have "Suc (start + (most - 1)) = start + most" using assms(3) by simp
  ultimately show "round_start xs (Some (last (next_targets xs cursor most))) =
      (start + most) mod length xs"
    using next_start[OF assms(1,2), of ?i] by simp
qed

lemma rounds_cover:
  assumes "sorted xs" "distinct xs" "0 < most" "most \<le> length xs" "d < n * most" "d < length xs"
    and "round_start xs cursor = start"
    and "start < length xs"
  shows "\<exists>ts \<in> set (rounds xs most n cursor). xs ! ((start + d) mod length xs) \<in> set ts"
  using assms(5-8)
proof (induction n arbitrary: d cursor start)
  case 0
  then show ?case by simp
next
  case (Suc n)
  note r = round_at[OF assms(1-4) Suc.prems(3,4)]
  show ?case
  proof (cases "d < most")
    case True
    then have "xs ! ((start + d) mod length xs) \<in> set (next_targets xs cursor most)" unfolding r(1) by auto
    then show ?thesis by (simp add: Let_def)
  next
    case False
    let ?s = "(start + most) mod length xs"
    have e: "(?s + (d - most)) mod length xs = (start + d) mod length xs"
    proof -
      have "(?s + (d - most)) mod length xs = (start + most + (d - most)) mod length xs" by (rule mod_add_left_eq)
      with False show ?thesis by simp
    qed
    have "\<exists>ts \<in> set (rounds xs most n (Some (last (next_targets xs cursor most)))). xs ! ((?s + (d - most)) mod length xs) \<in> set ts"
    proof (rule Suc.IH)
      show "d - most < n * most" using False Suc.prems(1) by simp
      show "d - most < length xs" using Suc.prems(2) by simp
      show "round_start xs (Some (last (next_targets xs cursor most))) = ?s"
        using r(2) by simp
      show "?s < length xs" using Suc.prems(4) by (intro mod_less_divisor) linarith
    qed
    then show ?thesis unfolding e by (simp add: Let_def)
  qed
qed

section \<open>Venue, calls and synchroniser together\<close>

















text \<open>The passes of the worker while nothing else happens: what each polls.\<close>

fun passes :: "market_reader \<Rightarrow> int \<Rightarrow> nat \<Rightarrow> nat \<Rightarrow> calls_store \<Rightarrow> string list list" where
  "passes rd now most 0 s = []"
| "passes rd now most (Suc n) s =
     (let ts = pendingTargets rd now most s in ts # passes rd now most n (move_cursor ts s))"

lemma move_cursor_frame [simp]:
  "cs_calls (move_cursor ts s) = cs_calls s" "cs_results (move_cursor ts s) = cs_results s"
  "wanted_markets rd now (move_cursor ts s) = wanted_markets rd now s"
  by (simp_all add: move_cursor_def calls_setCursor_def wanted_markets_def listCalls_def poll_wanted_def[abs_def] getResult_def)

lemma move_cursor_at: "ts \<noteq> [] \<Longrightarrow> last ts \<noteq> [] \<Longrightarrow> calls_getCursor PENDING_MARKET_CURSOR (move_cursor ts s) = Some (last ts)"
  by (simp add: move_cursor_def calls_setCursor_def calls_getCursor_def)

lemma wanted_sorted: "sorted (wanted_markets rd now s)" "distinct (wanted_markets rd now s)"
  by (simp_all add: wanted_markets_def)

lemma next_targets_all: "length xs \<le> most \<Longrightarrow> set (next_targets xs cursor most) = set xs"
proof -
  assume l: "length xs \<le> most"
  let ?n = "round_start xs cursor"
  have n: "?n \<le> length xs"
    by (cases "xs = []") (auto simp: round_start_def first_index_def split: option.split dest: round_start_less[of xs cursor])
  have "next_targets xs cursor most = drop ?n xs @ take ?n xs"
    unfolding next_targets_def Let_def using l n by (intro take_all) simp
  then show ?thesis by (metis append_take_drop_id set_append sup_commute)
qed

lemma next_targets_subset: "set (next_targets xs cursor most) \<subseteq> set xs"
  unfolding next_targets_def Let_def
  by (rule order_trans[OF set_take_subset]) (simp add: set_take_subset set_drop_subset)

lemma passes_rounds:
  assumes "0 < most" "[] \<notin> set (wanted_markets rd now s)" "wanted_markets rd now s \<noteq> []"
  shows "passes rd now most n s = rounds (wanted_markets rd now s) most n (calls_getCursor PENDING_MARKET_CURSOR s)"
  using assms(2,3)
proof (induction n arbitrary: s)
  case 0
  then show ?case by simp
next
  case (Suc n)
  let ?w = "wanted_markets rd now s" and ?c = "calls_getCursor PENDING_MARKET_CURSOR s"
  have t: "pendingTargets rd now most s = next_targets ?w ?c most"
    using Suc.prems(2) by (simp add: pendingTargets_def)
  let ?ts = "next_targets ?w ?c most"
  have ne: "?ts \<noteq> []"
    using assms(1) Suc.prems(2) round_start_less[OF Suc.prems(2), of ?c] by (simp add: next_targets_def Let_def)
  have "last ?ts \<in> set ?w" using next_targets_subset[of ?w ?c most] last_in_set[OF ne] by (rule subsetD)
  then have "last ?ts \<noteq> []" using Suc.prems(1) by metis
  with ne have "calls_getCursor PENDING_MARKET_CURSOR (move_cursor ?ts s) = Some (last ?ts)" by (rule move_cursor_at)
  with Suc.IH[of "move_cursor ?ts s"] Suc.prems show ?case by (simp add: t Let_def)
qed

text \<open>The worker comes round: while the same markets wait for a result, so many passes that their
  polls add up to the number of waiting markets poll every one of them, wherever the cursor stood.\<close>

theorem worker_comes_round:
  assumes "k \<in> set (wanted_markets rd now s)" "[] \<notin> set (wanted_markets rd now s)"
    and "length (wanted_markets rd now s) \<le> n * clamp_targets requested"
  shows "\<exists>ts \<in> set (passes rd now (clamp_targets requested) n s). k \<in> set ts"
proof -
  let ?w = "wanted_markets rd now s" and ?m = "clamp_targets requested"
  let ?cur = "calls_getCursor PENDING_MARKET_CURSOR s"
  define start where "start = round_start ?w ?cur"
  have m: "0 < ?m" by (simp add: clamp_targets_def less_max_iff_disj split: option.split)
  have ne: "?w \<noteq> []" using assms(1) by auto
  have st: "start < length ?w"
    using ne unfolding start_def by (rule round_start_less)
  show ?thesis
    unfolding passes_rounds[OF m assms(2) ne]
  proof (cases "?m \<le> length ?w")
    case True
    from assms(1) obtain i where i: "i < length ?w" "?w ! i = k" by (auto simp: in_set_conv_nth)
    let ?d = "(i + length ?w - start) mod length ?w"
    have d: "?d < length ?w" using i(1) by (intro mod_less_divisor) linarith
    have "(start + ?d) mod length ?w = (start + (i + length ?w - start)) mod length ?w" by (rule mod_add_right_eq)
    also have "\<dots> = i" using st i(1) by simp
    finally have e: "(start + ?d) mod length ?w = i" .
    from d assms(3) have dn: "?d < n * ?m" by simp
    show "\<exists>ts \<in> set (rounds ?w ?m n ?cur). k \<in> set ts"
      using rounds_cover[OF wanted_sorted m True dn d start_def[symmetric] st] unfolding e i(2) .
  next
    case False
    with assms(3) ne obtain l where "n = Suc l" by (cases n) auto
    with False assms(1) next_targets_all[of ?w ?m ?cur] show "\<exists>ts \<in> set (rounds ?w ?m n ?cur). k \<in> set ts"
      by (simp add: Let_def)
  qed
qed

definition closed_market :: "string \<Rightarrow> venue_market" where
  "closed_market k = \<lparr>vm_id = k, vm_venue = V_panta, vm_venueMarketId = ''v-'' @ k, vm_question = ''q'', vm_rulesText = [],
     vm_category = ''crypto'', vm_outcomes = [], vm_status = M_CLOSED_PENDING_RESOLUTION, vm_rawStatus = ''closed'',
     vm_opensAt = None, vm_closesAt = Some 50, vm_resolvesAt = None, vm_resolutionSource = None, vm_lastSyncedAt = 60,
     vm_payloadVersion = 1\<rparr>"

definition closed_reader :: market_reader where
  "closed_reader = emptyMarketReader\<lparr>rd_getMarket := \<lambda>k. Some (closed_market k)\<rparr>"

definition two_called :: calls_store where
  "two_called = calls_run (\<lambda>_. False) [Insert_call (free_call ''c1'' ''ann'' ''m1'' YES 10 None),
     Insert_call (free_call ''c2'' ''ann'' ''m2'' NO 20 None)] empty_calls"

theorem worker_comes_round_witness:
  "\<exists>ts \<in> set (passes closed_reader 100 (clamp_targets (Some 1)) 2 two_called). ''v-m2'' \<in> set ts"
proof -
  have w: "wanted_markets closed_reader 100 two_called = [''v-m1'', ''v-m2'']" by code_simp
  have m: "clamp_targets (Some 1) = 1" by (simp add: clamp_targets_def)
  show ?thesis by (rule worker_comes_round) (simp_all add: w m)
qed

text \<open>One pass of the worker and its failures. A failed flush of the venue's writer lets no result
  be derived; otherwise the synchroniser runs on what the venue's store holds by then, even after a
  failed catalog or refresh, and such a failure is still reported at the end.\<close>

theorem worker_failures:
  assumes "worker_runPass port calls_flush most pageSize maxPages now p s = (r, p', s')"
  shows "(\<forall>e. vp_flush port 1 p' = Some e \<longrightarrow> r = Inl (From_venue e) \<and> cs_results s' = cs_results s \<and> cs_calls s' = cs_calls s) \<and>
    (vp_flush port 1 p' = None \<longrightarrow> (\<exists>s1 x out. cs_results s1 = cs_results s \<and> cs_calls s1 = cs_calls s \<and>
       sync_runOnce (vp_reader port p') pageSize maxPages now s1 = (x, out) \<and> s' = ss_store out)) \<and>
    (\<forall>e p1. vp_catalog port p = (Inl e, p1) \<longrightarrow> (\<exists>f. r = Inl f \<and>
       (vp_flush port 1 p' = None \<and> calls_flush = None \<longrightarrow> f = From_venue e \<or> (\<exists>c. f = From_calls c))))"
proof -
  obtain cat p1 where c: "vp_catalog port p = (cat, p1)" by (cases "vp_catalog port p")
  define mid where "mid = (case vp_flush port 0 p1 of
              Some e \<Rightarrow> ((Some e, (0, 0, 0, 0)), p1, s)
            | None \<Rightarrow>
                (let targets = pendingTargets (vp_reader port p1) now most s
                 in case poll_targets port targets (0, 0, 0, 0) p1 of
                      ((Some e, n), p) \<Rightarrow> ((Some e, n), p, s)
                    | ((None, n), p) \<Rightarrow> ((None, n), p, move_cursor targets s)))"
  obtain fault a b c1 d p2 s2 where m: "mid = ((fault, (a, b, c1, d)), p2, s2)" by (cases mid) auto
  have s2: "cs_results s2 = cs_results s" "cs_calls s2 = cs_calls s"
    using m unfolding mid_def by (auto simp: Let_def split: option.splits prod.splits)
  have run: "worker_runPass port calls_flush most pageSize maxPages now p s =
     (let failure = (case cat of Inl e \<Rightarrow> Some e | Inr _ \<Rightarrow> fault)
          in case vp_flush port 1 p2 of
               Some e \<Rightarrow> (Inl (From_venue e), p2, s2)
             | None \<Rightarrow>
                 (case sync_runOnce (vp_reader port p2) pageSize maxPages now s2 of
                    (Inl e, st) \<Rightarrow> (Inl (From_calls e), p2, ss_store st)
                  | (Inr rep, st) \<Rightarrow>
                      (case calls_flush of
                         Some e \<Rightarrow> (Inl (From_calls e), p2, ss_store st)
                       | None \<Rightarrow>
                           (case (failure, cat, (a, b, c1, d)) of
                              (Some e, _, _) \<Rightarrow> (Inl (From_venue e), p2, ss_store st)
                            | (None, Inr catalog, (a, b, c, d)) \<Rightarrow>
                                (Inr \<lparr>wr_catalog = catalog, wr_refreshed = a, wr_unavailable = b, wr_recorded = c,
                                      wr_unevidenced = d, wr_results = rep\<rparr>, p2, ss_store st)
                            | (None, Inl e, _) \<Rightarrow> (Inl (From_venue e), p2, ss_store st)))))"
    unfolding worker_runPass_def c prod.case mid_def[symmetric] m by (rule refl)
  show ?thesis
  proof (cases "vp_flush port 1 p2")
    case (Some e)
    with assms run have "r = Inl (From_venue e)" "p' = p2" "s' = s2" by (simp_all add: Let_def)
    with s2 Some show ?thesis by simp
  next
    case None
    obtain x out where y: "sync_runOnce (vp_reader port p2) pageSize maxPages now s2 = (x, out)"
      by (cases "sync_runOnce (vp_reader port p2) pageSize maxPages now s2")
    have ps: "p' = p2 \<and> s' = ss_store out"
      using assms run None y by (auto simp: Let_def split: sum.splits option.splits)
    moreover have "\<exists>f. r = Inl f \<and> (calls_flush = None \<longrightarrow> f = From_venue e \<or> (\<exists>c. f = From_calls c))" if "cat = Inl e" for e
      using assms run None y that by (auto simp: Let_def split: sum.splits option.splits)
    ultimately show ?thesis using s2 None y c by (intro conjI) auto
  qed
qed

definition failing_port :: "nat venue_port" where
  "failing_port = \<lparr>vp_reader = (\<lambda>_. emptyMarketReader), vp_catalog = (\<lambda>p. (Inl (Venue_error VENUE_TIMEOUT None), p)),
     vp_refresh = (\<lambda>_ p. (Inr (False, False), p)), vp_flush = (\<lambda>_ _. None)\<rparr>"

theorem worker_failures_witness:
  "\<exists>f. fst (worker_runPass failing_port None 8 5 5 100 0 two_called) = Inl f"
proof -
  obtain r p' s' where w: "worker_runPass failing_port None 8 5 5 100 0 two_called = (r, p', s')"
    by (cases "worker_runPass failing_port None 8 5 5 100 0 two_called")
  have "vp_catalog failing_port 0 = (Inl (Venue_error VENUE_TIMEOUT None), 0)" by (simp add: failing_port_def)
  with worker_failures[OF w] show ?thesis by (auto simp: w)
qed

end
