(* ===== verification/CallRecords.thy ===== *)
theory CallRecords
  imports ResultSync
begin

text \<open>
  A person's record and when a percentage of it is shown (\<open>src/notifications/record.ts\<close>), and the
  surroundings that every read of the social layer has: the time, the markets, which calls are
  still private, which are funded. \<open>buildCounts\<close> answers None where the code throws
  \<open>RECORD_INCOMPLETE\<close>. The lemmas show that a record accounts for every call it was given, misses
  and voids included, and that its order does not matter.
\<close>

section \<open>Counts\<close>

record tallies =
  ta_correct :: int
  ta_incorrect :: int
  ta_voided :: int
  ta_pending :: int

record call_counts =
  cc_correct :: int
  cc_incorrect :: int
  cc_voided :: int
  cc_resolved :: int
  cc_decided :: int
  cc_pending :: int

definition MIN_DECIDED_FOR_ACCURACY :: int where
  "MIN_DECIDED_FOR_ACCURACY = 10"

definition EMPTY_COUNTS :: call_counts where
  "EMPTY_COUNTS = \<lparr>cc_correct = 0, cc_incorrect = 0, cc_voided = 0, cc_resolved = 0, cc_decided = 0, cc_pending = 0\<rparr>"

definition emptyTally :: tallies where
  "emptyTally = \<lparr>ta_correct = 0, ta_incorrect = 0, ta_voided = 0, ta_pending = 0\<rparr>"

definition assertRecordComplete :: "call_counts \<Rightarrow> bool" where
  "assertRecordComplete c \<longleftrightarrow> cc_resolved c = cc_correct c + cc_incorrect c + cc_voided c \<and>
     cc_decided c = cc_correct c + cc_incorrect c"

definition buildCounts :: "tallies \<Rightarrow> call_counts option" where
  "buildCounts t =
     (if ta_correct t < 0 \<or> ta_incorrect t < 0 \<or> ta_voided t < 0 \<or> ta_pending t < 0 then None
      else
        (let c = \<lparr>cc_correct = ta_correct t, cc_incorrect = ta_incorrect t, cc_voided = ta_voided t,
                  cc_resolved = ta_correct t + ta_incorrect t + ta_voided t,
                  cc_decided = ta_correct t + ta_incorrect t, cc_pending = ta_pending t\<rparr>
         in if assertRecordComplete c then Some c else None))"

fun tally :: "call_outcome \<Rightarrow> tallies \<Rightarrow> tallies" where
  "tally O_CORRECT t = t\<lparr>ta_correct := ta_correct t + 1\<rparr>"
| "tally O_INCORRECT t = t\<lparr>ta_incorrect := ta_incorrect t + 1\<rparr>"
| "tally O_VOID t = t\<lparr>ta_voided := ta_voided t + 1\<rparr>"
| "tally O_PENDING t = t\<lparr>ta_pending := ta_pending t + 1\<rparr>"

text \<open>Below the threshold there is no accuracy to show at all.\<close>

datatype record_display = Counts_shown call_counts | Accuracy_shown num call_counts

definition displayFor :: "call_counts \<Rightarrow> record_display option" where
  "displayFor c =
     (if \<not> assertRecordComplete c then None
      else if cc_decided c < MIN_DECIDED_FOR_ACCURACY then Some (Counts_shown c)
      else Some (Accuracy_shown (of_int (cc_correct c) / of_int (cc_decided c)) c))"

definition sumCounts :: "call_counts list \<Rightarrow> call_counts option" where
  "sumCounts parts = buildCounts \<lparr>ta_correct = sum_list (map cc_correct parts),
     ta_incorrect = sum_list (map cc_incorrect parts), ta_voided = sum_list (map cc_voided parts),
     ta_pending = sum_list (map cc_pending parts)\<rparr>"

section \<open>A person's record\<close>

datatype funding_class = Free_class | Funded_class

definition fundingClassOf :: "funding_state \<Rightarrow> funding_class" where
  "fundingClassOf f = (if f = F_NONE then Free_class else Funded_class)"

record record_input =
  rin_category :: string
  rin_fundingState :: funding_state
  rin_outcome :: call_outcome
  rin_resolvedAt :: "int option"

record record_cell =
  ce_tally :: tallies
  ce_lastResolvedAt :: "int option"

record category_record =
  ct_category :: string
  ct_counts :: call_counts
  ct_lastResolvedAt :: "int option"
  ct_display :: record_display

record record_band =
  bn_class :: funding_class
  bn_total :: call_counts
  bn_display :: record_display
  bn_byCategory :: "category_record list"

record person_record =
  pr_free :: record_band
  pr_funded :: record_band

type_synonym record_cells = "(string, record_cell) jmap"

definition empty_cell :: record_cell where
  "empty_cell = \<lparr>ce_tally = emptyTally, ce_lastResolvedAt = None\<rparr>"

definition category_key :: "record_input \<Rightarrow> string" where
  "category_key i = (if rin_category i = [] then ''uncategorised'' else rin_category i)"

definition add_to_cell :: "record_input \<Rightarrow> record_cell \<Rightarrow> record_cell" where
  "add_to_cell i c =
     \<lparr>ce_tally = tally (rin_outcome i) (ce_tally c),
      ce_lastResolvedAt =
        (if rin_outcome i = O_PENDING then ce_lastResolvedAt c
         else case rin_resolvedAt i of
           None \<Rightarrow> ce_lastResolvedAt c
         | Some t \<Rightarrow> Some (max (case ce_lastResolvedAt c of None \<Rightarrow> 0 | Some u \<Rightarrow> u) t))\<rparr>"

definition add_input :: "record_input \<Rightarrow> record_cells \<Rightarrow> record_cells" where
  "add_input i m =
     (let cell = (case jm_get m (category_key i) of None \<Rightarrow> empty_cell | Some c \<Rightarrow> c)
      in jm_set (category_key i) (add_to_cell i cell) m)"

definition categoryOf :: "string \<times> record_cell \<Rightarrow> category_record option" where
  "categoryOf kc =
     (case buildCounts (ce_tally (snd kc)) of
        None \<Rightarrow> None
      | Some counts \<Rightarrow> map_option (\<lambda>d. \<lparr>ct_category = fst kc, ct_counts = counts,
          ct_lastResolvedAt = ce_lastResolvedAt (snd kc), ct_display = d\<rparr>) (displayFor counts))"

definition bandOf :: "collation \<Rightarrow> funding_class \<Rightarrow> record_cells \<Rightarrow> record_band option" where
  "bandOf coll cls m =
     (let cats = map categoryOf m
      in if None \<in> set cats then None
         else
           (let byCategory = sort_by (\<lambda>a b. or_else (cc_decided (ct_counts b) - cc_decided (ct_counts a))
                  (coll (ct_category a) (ct_category b))) (map the cats)
            in case sumCounts (map ct_counts byCategory) of
                 None \<Rightarrow> None
               | Some tot \<Rightarrow> map_option (\<lambda>d. \<lparr>bn_class = cls, bn_total = tot, bn_display = d,
                   bn_byCategory = byCategory\<rparr>) (displayFor tot)))"

definition buildPersonRecord :: "collation \<Rightarrow> record_input list \<Rightarrow> person_record option" where
  "buildPersonRecord coll inputs =
     (let cells = (\<lambda>cls. fold add_input (filter (\<lambda>i. fundingClassOf (rin_fundingState i) = cls) inputs) [])
      in case (bandOf coll Free_class (cells Free_class), bandOf coll Funded_class (cells Funded_class)) of
           (Some f, Some g) \<Rightarrow> Some \<lparr>pr_free = f, pr_funded = g\<rparr>
         | _ \<Rightarrow> None)"

section \<open>The record accounts for every call\<close>

definition tallies_of :: "call_outcome list \<Rightarrow> tallies" where
  "tallies_of os = fold tally os emptyTally"

definition tally_ok :: "tallies \<Rightarrow> bool" where
  "tally_ok t \<longleftrightarrow> 0 \<le> ta_correct t \<and> 0 \<le> ta_incorrect t \<and> 0 \<le> ta_voided t \<and> 0 \<le> ta_pending t"

lemma tally_ok_empty [simp]: "tally_ok emptyTally"
  by (simp add: tally_ok_def emptyTally_def)

lemma tally_ok_tally [simp]: "tally_ok t \<Longrightarrow> tally_ok (tally o1 t)"
  by (cases o1) (simp_all add: tally_ok_def)

lemma tally_ok_fold [simp]: "tally_ok t \<Longrightarrow> tally_ok (fold tally os t)"
  by (induction os arbitrary: t) simp_all

lemma buildCounts_ok: "tally_ok t \<Longrightarrow> buildCounts t = Some \<lparr>cc_correct = ta_correct t, cc_incorrect = ta_incorrect t,
    cc_voided = ta_voided t, cc_resolved = ta_correct t + ta_incorrect t + ta_voided t,
    cc_decided = ta_correct t + ta_incorrect t, cc_pending = ta_pending t\<rparr>"
  by (simp add: buildCounts_def tally_ok_def assertRecordComplete_def not_less)

lemma buildCounts_complete: "buildCounts t = Some c \<Longrightarrow> assertRecordComplete c"
  by (simp add: buildCounts_def Let_def split: if_splits)

lemma displayFor_complete: "assertRecordComplete c \<Longrightarrow> displayFor c \<noteq> None"
  by (simp add: displayFor_def)

text \<open>How many of a list of outcomes are of a kind.\<close>

definition count_of :: "call_outcome \<Rightarrow> call_outcome list \<Rightarrow> int" where
  "count_of o1 os = int (length (filter (\<lambda>x. x = o1) os))"

lemma count_of_simps [simp]: "count_of o1 [] = 0"
  "count_of o1 (x # os) = (if x = o1 then 1 else 0) + count_of o1 os"
  "count_of o1 (os @ os') = count_of o1 os + count_of o1 os'"
  by (simp_all add: count_of_def)

lemma fold_tally: "fold tally os t = \<lparr>ta_correct = ta_correct t + count_of O_CORRECT os,
    ta_incorrect = ta_incorrect t + count_of O_INCORRECT os, ta_voided = ta_voided t + count_of O_VOID os,
    ta_pending = ta_pending t + count_of O_PENDING os\<rparr>"
proof (induction os arbitrary: t)
  case Nil
  then show ?case by simp
next
  case (Cons o1 os)
  then show ?case by (cases o1) simp_all
qed

text \<open>The cells of a band hold exactly the inputs it was given.\<close>

definition cell_sum :: "(tallies \<Rightarrow> int) \<Rightarrow> record_cells \<Rightarrow> int" where
  "cell_sum f m = jm_sum (\<lambda>c. f (ce_tally c)) m"

lemma add_input_sum:
  assumes "jm_wf m" "f emptyTally = 0" "\<And>o1 t. f (tally o1 t) = f t + g o1"
  shows "cell_sum f (add_input i m) = cell_sum f m + g (rin_outcome i)"
  using assms
  by (simp add: cell_sum_def add_input_def Let_def jm_sum_set add_to_cell_def empty_cell_def split: option.split)

lemma add_input_wf: "jm_wf m \<Longrightarrow> jm_wf (add_input i m)"
  by (simp add: add_input_def Let_def)

lemma add_inputs_wf: "jm_wf m \<Longrightarrow> jm_wf (fold add_input is m)"
  by (induction "is" arbitrary: m) (simp_all add: add_input_wf)

lemma add_inputs_sum:
  assumes "jm_wf m" "f emptyTally = 0" "\<And>o1 t. f (tally o1 t) = f t + g o1"
  shows "cell_sum f (fold add_input is m) = cell_sum f m + (\<Sum>i\<leftarrow>is. g (rin_outcome i))"
  using assms(1)
  by (induction "is" arbitrary: m) (simp_all add: add_input_wf add_input_sum[where f = f and g = g, OF _ assms(2,3)])

lemma add_input_ok:
  "jm_all (\<lambda>k c. tally_ok (ce_tally c)) m \<Longrightarrow> jm_all (\<lambda>k c. tally_ok (ce_tally c)) (add_input i m)"
  unfolding add_input_def Let_def
  by (rule jm_all_set) (auto simp: add_to_cell_def empty_cell_def split: option.split dest: jm_all_get)

lemma add_inputs_ok:
  "jm_all (\<lambda>k c. tally_ok (ce_tally c)) m \<Longrightarrow> jm_all (\<lambda>k c. tally_ok (ce_tally c)) (fold add_input is m)"
  by (induction "is" arbitrary: m) (simp_all add: add_input_ok)

lemma categoryOf_ok:
  "tally_ok (ce_tally c) \<Longrightarrow> \<exists>r. categoryOf (k, c) = Some r \<and> cc_correct (ct_counts r) = ta_correct (ce_tally c) \<and>
    cc_incorrect (ct_counts r) = ta_incorrect (ce_tally c) \<and> cc_voided (ct_counts r) = ta_voided (ce_tally c) \<and>
    cc_pending (ct_counts r) = ta_pending (ce_tally c)"
  by (simp add: categoryOf_def buildCounts_ok displayFor_def assertRecordComplete_def)

lemma sum_list_perm: "mset xs = mset ys \<Longrightarrow> (\<Sum>x\<leftarrow>xs. f x) = (\<Sum>x\<leftarrow>ys. f x)"
  for f :: "'a \<Rightarrow> int"
  by (metis mset_map sum_mset_sum_list)

lemma band_sum:
  assumes "jm_all (\<lambda>k c. tally_ok (ce_tally c)) m"
    and "\<And>k c r. tally_ok (ce_tally c) \<Longrightarrow> categoryOf (k, c) = Some r \<Longrightarrow> g (ct_counts r) = f (ce_tally c)"
  shows "(\<Sum>r\<leftarrow>map (the \<circ> categoryOf) m. g (ct_counts r)) = cell_sum f m"
  using assms(1)
proof (induction m)
  case Nil
  then show ?case by (simp add: cell_sum_def)
next
  case (Cons kc m)
  obtain k c where kc: "kc = (k, c)" by (cases kc)
  from Cons.prems have t: "tally_ok (ce_tally c)" and r: "jm_all (\<lambda>k c. tally_ok (ce_tally c)) m"
    by (auto simp: jm_all_def kc)
  obtain x where "categoryOf (k, c) = Some x" using categoryOf_ok[OF t] by blast
  with assms(2)[OF t] Cons.IH[OF r] show ?case by (simp add: kc cell_sum_def)
qed

lemma band_complete:
  assumes "jm_all (\<lambda>k c. tally_ok (ce_tally c)) m"
  shows "\<exists>b. bandOf coll cls m = Some b \<and> bn_class b = cls \<and>
    cc_correct (bn_total b) = cell_sum ta_correct m \<and> cc_incorrect (bn_total b) = cell_sum ta_incorrect m \<and>
    cc_voided (bn_total b) = cell_sum ta_voided m \<and> cc_pending (bn_total b) = cell_sum ta_pending m \<and>
    displayFor (bn_total b) = Some (bn_display b)"
proof -
  have none: "None \<notin> set (map categoryOf m)"
  proof
    assume "None \<in> set (map categoryOf m)"
    then obtain k c where "(k, c) \<in> set m" "categoryOf (k, c) = None" by force
    with assms categoryOf_ok[of c k] show False by (auto simp: jm_all_def)
  qed
  define bc where "bc = sort_by (\<lambda>a b. or_else (cc_decided (ct_counts b) - cc_decided (ct_counts a))
    (coll (ct_category a) (ct_category b))) (map (the \<circ> categoryOf) m)"
  have s: "(\<Sum>r\<leftarrow>bc. g (ct_counts r)) = cell_sum f m"
    if "\<And>k c r. tally_ok (ce_tally c) \<Longrightarrow> categoryOf (k, c) = Some r \<Longrightarrow> g (ct_counts r) = f (ce_tally c)" for f g
    using band_sum[where f = f and g = g, OF assms that] sum_list_perm[of bc "map (the \<circ> categoryOf) m" "\<lambda>r. g (ct_counts r)"]
    by (simp add: bc_def comp_def)
  have cat: "ct_counts r = \<lparr>cc_correct = ta_correct (ce_tally c), cc_incorrect = ta_incorrect (ce_tally c),
      cc_voided = ta_voided (ce_tally c), cc_resolved = ta_correct (ce_tally c) + ta_incorrect (ce_tally c) + ta_voided (ce_tally c),
      cc_decided = ta_correct (ce_tally c) + ta_incorrect (ce_tally c), cc_pending = ta_pending (ce_tally c)\<rparr>"
    if "tally_ok (ce_tally c)" "categoryOf (k, c) = Some r" for k c r
    using that by (auto simp: categoryOf_def buildCounts_ok)
  have s1: "(\<Sum>r\<leftarrow>bc. cc_correct (ct_counts r)) = cell_sum ta_correct m" by (rule s) (simp add: cat)
  have s2: "(\<Sum>r\<leftarrow>bc. cc_incorrect (ct_counts r)) = cell_sum ta_incorrect m" by (rule s) (simp add: cat)
  have s3: "(\<Sum>r\<leftarrow>bc. cc_voided (ct_counts r)) = cell_sum ta_voided m" by (rule s) (simp add: cat)
  have s4: "(\<Sum>r\<leftarrow>bc. cc_pending (ct_counts r)) = cell_sum ta_pending m" by (rule s) (simp add: cat)
  note sums = s1 s2 s3 s4
  have nn: "0 \<le> cell_sum ta_correct m" "0 \<le> cell_sum ta_incorrect m" "0 \<le> cell_sum ta_voided m" "0 \<le> cell_sum ta_pending m"
    using assms unfolding cell_sum_def jm_all_def tally_ok_def by (auto intro!: jm_sum_nonneg)
  have "sumCounts (map ct_counts bc) \<noteq> None"
    using nn by (simp add: sumCounts_def comp_def sums buildCounts_def Let_def assertRecordComplete_def not_less)
  then obtain tot where t: "sumCounts (map ct_counts bc) = Some tot" by blast
  then have f: "cc_correct tot = cell_sum ta_correct m" "cc_incorrect tot = cell_sum ta_incorrect m"
    "cc_voided tot = cell_sum ta_voided m" "cc_pending tot = cell_sum ta_pending m"
    using nn by (auto simp: sumCounts_def comp_def sums buildCounts_def Let_def assertRecordComplete_def not_less split: if_splits)
  from t have "assertRecordComplete tot" unfolding sumCounts_def by (rule buildCounts_complete)
  with displayFor_complete obtain d where d: "displayFor tot = Some d" by blast
  have "bandOf coll cls m = Some \<lparr>bn_class = cls, bn_total = tot, bn_display = d, bn_byCategory = bc\<rparr>"
    using none t d by (simp add: bandOf_def Let_def bc_def comp_def)
  with f d show ?thesis by simp
qed

text \<open>A person's record is always made, and each band accounts for exactly the calls of its class:
  as many correct, incorrect, void and pending ones as there were, none shed and none blended in.
  A percentage is shown exactly from ten decided calls on, and it is correct over decided.\<close>

theorem record_accounts:
  "\<exists>r. buildPersonRecord coll inputs = Some r \<and>
     list_all (\<lambda>(band, cls).
        let os = map rin_outcome (filter (\<lambda>i. fundingClassOf (rin_fundingState i) = cls) inputs);
            c = bn_total band
        in cc_correct c = count_of O_CORRECT os \<and> cc_incorrect c = count_of O_INCORRECT os \<and>
           cc_voided c = count_of O_VOID os \<and> cc_pending c = count_of O_PENDING os \<and>
           cc_correct c + cc_incorrect c + cc_voided c + cc_pending c = int (length os) \<and>
           bn_display band = (if count_of O_CORRECT os + count_of O_INCORRECT os < 10 then Counts_shown c
             else Accuracy_shown (of_int (count_of O_CORRECT os) / of_int (count_of O_CORRECT os + count_of O_INCORRECT os)) c))
       [(pr_free r, Free_class), (pr_funded r, Funded_class)]"
proof -
  define mine where "mine = (\<lambda>cls. filter (\<lambda>i. fundingClassOf (rin_fundingState i) = cls) inputs)"
  define os where "os = (\<lambda>cls. map rin_outcome (mine cls))"
  have all: "count_of O_CORRECT xs + count_of O_INCORRECT xs + count_of O_VOID xs + count_of O_PENDING xs = int (length xs)" for xs
  proof (induction xs)
    case (Cons x xs)
    then show ?case by (cases x) simp_all
  qed simp
  have c: "cell_sum f (fold add_input (mine cls) []) = count_of o1 (os cls)"
    if "f emptyTally = 0" "\<And>o2 t. f (tally o2 t) = f t + (if o2 = o1 then 1 else 0)" for f o1 cls
  proof -
    have "(\<Sum>i\<leftarrow>is. if rin_outcome i = o1 then 1 else 0) = count_of o1 (map rin_outcome is)" for "is" :: "record_input list"
      by (induction "is") simp_all
    then show ?thesis
      using add_inputs_sum[of "[]" f "\<lambda>o2. if o2 = o1 then 1 else 0" "mine cls"] that by (simp add: os_def cell_sum_def)
  qed
  have sums: "cell_sum ta_correct (fold add_input (mine cls) []) = count_of O_CORRECT (os cls)"
    "cell_sum ta_incorrect (fold add_input (mine cls) []) = count_of O_INCORRECT (os cls)"
    "cell_sum ta_voided (fold add_input (mine cls) []) = count_of O_VOID (os cls)"
    "cell_sum ta_pending (fold add_input (mine cls) []) = count_of O_PENDING (os cls)" for cls
    by (rule c; simp add: emptyTally_def; (case_tac o2; simp))+
  have band: "\<exists>b. bandOf coll cls (fold add_input (mine cls) []) = Some b \<and>
      cc_correct (bn_total b) = count_of O_CORRECT (os cls) \<and> cc_incorrect (bn_total b) = count_of O_INCORRECT (os cls) \<and>
      cc_voided (bn_total b) = count_of O_VOID (os cls) \<and> cc_pending (bn_total b) = count_of O_PENDING (os cls) \<and>
      displayFor (bn_total b) = Some (bn_display b)" for cls
    using band_complete[OF add_inputs_ok[OF jm_all_Nil], of coll cls "mine cls"] unfolding sums by blast
  obtain f where f: "bandOf coll Free_class (fold add_input (mine Free_class) []) = Some f"
    "cc_correct (bn_total f) = count_of O_CORRECT (os Free_class)" "cc_incorrect (bn_total f) = count_of O_INCORRECT (os Free_class)"
    "cc_voided (bn_total f) = count_of O_VOID (os Free_class)" "cc_pending (bn_total f) = count_of O_PENDING (os Free_class)"
    "displayFor (bn_total f) = Some (bn_display f)" using band by blast
  obtain g where g: "bandOf coll Funded_class (fold add_input (mine Funded_class) []) = Some g"
    "cc_correct (bn_total g) = count_of O_CORRECT (os Funded_class)" "cc_incorrect (bn_total g) = count_of O_INCORRECT (os Funded_class)"
    "cc_voided (bn_total g) = count_of O_VOID (os Funded_class)" "cc_pending (bn_total g) = count_of O_PENDING (os Funded_class)"
    "displayFor (bn_total g) = Some (bn_display g)" using band by blast
  have shown: "bn_display b = (if count_of O_CORRECT xs + count_of O_INCORRECT xs < 10 then Counts_shown (bn_total b)
      else Accuracy_shown (of_int (count_of O_CORRECT xs) / of_int (count_of O_CORRECT xs + count_of O_INCORRECT xs)) (bn_total b))"
    if "displayFor (bn_total b) = Some (bn_display b)" "cc_correct (bn_total b) = count_of O_CORRECT xs"
      "cc_incorrect (bn_total b) = count_of O_INCORRECT xs" for b xs
    using that by (auto simp: displayFor_def MIN_DECIDED_FOR_ACCURACY_def assertRecordComplete_def split: if_splits)
  have "buildPersonRecord coll inputs = Some \<lparr>pr_free = f, pr_funded = g\<rparr>"
    using f(1) g(1) by (simp add: buildPersonRecord_def Let_def mine_def)
  then show ?thesis
    using f(2-5) g(2-5) shown[OF f(6,2,3)] shown[OF g(6,2,3)] all[of "os Free_class"] all[of "os Funded_class"]
    by (simp add: os_def mine_def Let_def)
qed

end
