(* ===== verification/People.thy ===== *)
theory People
  imports CallRecords
begin

text \<open>
  The directory of people (\<open>src/calls/people.ts\<close>): a person's public record, the leaderboard, the
  search, the open calls worth answering and the people worth following. All of it reads the
  store and changes nothing. One request reads the clock once (\<open>pv_now\<close>); \<open>Math.sqrt\<close>, the
  collation and the facts of funded calls are parameters. The lemmas show that every surface
  reads the same record, that ranks do not depend on who is looking, that the direction of the
  crowd is withheld until the viewer has called, and what a suggestion may contain.
\<close>

section \<open>Surroundings\<close>

record people_env =
  pv_now :: int
  pv_reader :: market_reader
  pv_callCutoffMs :: int
  pv_isPrivate :: "string \<Rightarrow> bool"
  pv_isFunded :: "(string \<Rightarrow> bool) option"
  pv_showsMoney :: "string option \<Rightarrow> bool"
  pv_coll :: collation
  pv_root :: "num \<Rightarrow> num"

definition hiddenBy :: "string list option \<Rightarrow> string \<Rightarrow> bool" where
  "hiddenBy excluded u \<longleftrightarrow> (case excluded of None \<Rightarrow> False | Some us \<Rightarrow> us \<noteq> [] \<and> u \<in> set us)"

definition fundedFor :: "people_env \<Rightarrow> string option \<Rightarrow> (string \<Rightarrow> bool) option" where
  "fundedFor e viewer = (case pv_isFunded e of None \<Rightarrow> None | Some f \<Rightarrow> if pv_showsMoney e viewer then Some f else None)"

definition isDeletedAccount :: "person \<Rightarrow> bool" where
  "isDeletedAccount p \<longleftrightarrow> pe_displayName p = ''Deleted account'' \<and>
     (pe_handle p = [] \<or> starts_with ''deleted_'' (pe_handle p))"

definition countsTowardsPublicRecord :: "call_row \<Rightarrow> bool" where
  "countsTowardsPublicRecord c \<longleftrightarrow> ca_visibility c = Public \<and> ca_fundingState c = F_NONE"

definition onRecord :: "people_env \<Rightarrow> call_row \<Rightarrow> bool" where
  "onRecord e c \<longleftrightarrow> countsTowardsPublicRecord c \<and> \<not> pv_isPrivate e (ca_id c)"

section \<open>The one record\<close>

record public_record =
  pb_counts :: call_counts
  pb_display :: record_display

text \<open>\<open>buildCounts\<close> and \<open>displayFor\<close> throw only on a negative tally, and these count up from zero
  (\<open>recordFrom_total\<close>).\<close>

definition recordFrom :: "tallies \<Rightarrow> public_record" where
  "recordFrom t = (let c = the (buildCounts t) in \<lparr>pb_counts = c, pb_display = the (displayFor c)\<rparr>)"

definition fold_call :: "people_env \<Rightarrow> calls_store \<Rightarrow> int option \<Rightarrow> call_row \<Rightarrow> tallies \<Rightarrow> tallies" where
  "fold_call e s since c acc =
     (if \<not> onRecord e c then acc
      else
        (let result = getResult (ca_id c) s;
             outcome = (case result of None \<Rightarrow> O_PENDING | Some r \<Rightarrow> cr_outcome r)
         in case since of
              None \<Rightarrow> tally outcome acc
            | Some t \<Rightarrow>
                if outcome = O_PENDING then acc
                else (case result of
                        None \<Rightarrow> acc
                      | Some r \<Rightarrow> (case cr_resolvedAt r of None \<Rightarrow> acc | Some u \<Rightarrow> if u < t then acc else tally outcome acc))))"

definition publicRecord :: "people_env \<Rightarrow> calls_store \<Rightarrow> string \<Rightarrow> int option \<Rightarrow> public_record" where
  "publicRecord e s u since = recordFrom (fold (fold_call e s since) (callsByAuthor u s) emptyTally)"

definition tally_author :: "people_env \<Rightarrow> calls_store \<Rightarrow> int option \<Rightarrow> call_row \<Rightarrow> (string, tallies) jmap \<Rightarrow> (string, tallies) jmap" where
  "tally_author e s since c m =
     (let acc = (case jm_get m (ca_userId c) of None \<Rightarrow> emptyTally | Some a \<Rightarrow> a)
      in jm_set (ca_userId c) (fold_call e s since c acc) m)"

definition recordsByAuthor :: "people_env \<Rightarrow> calls_store \<Rightarrow> int option \<Rightarrow> (string, public_record) jmap" where
  "recordsByAuthor e s since = map (\<lambda>(u, acc). (u, recordFrom acc)) (fold (tally_author e s since) (listCalls s) [])"

section \<open>People as lists show them\<close>

record person_summary =
  ps_id :: string
  ps_handle :: string
  ps_displayName :: string
  ps_avatarUrl :: "string option"
  ps_avatarId :: "int option"

definition summaryOf :: "person \<Rightarrow> person_summary" where
  "summaryOf p = \<lparr>ps_id = pe_id p, ps_handle = pe_handle p, ps_displayName = pe_displayName p,
     ps_avatarUrl = pe_avatarUrl p, ps_avatarId = pe_avatarId p\<rparr>"

record person_card = person_summary +
  pc_record :: public_record
  pc_viewerIsFollowing :: bool

definition card_with :: "calls_store \<Rightarrow> person \<Rightarrow> string option \<Rightarrow> public_record \<Rightarrow> person_card" where
  "card_with s p viewer rec = person_summary.extend (summaryOf p) \<lparr>pc_record = rec,
     pc_viewerIsFollowing = (case viewer of None \<Rightarrow> False | Some v \<Rightarrow> v \<noteq> pe_id p \<and> isFollowing v (pe_id p) s)\<rparr>"

section \<open>The leaderboard\<close>

datatype board_window = W_7d | W_30d | W_all

fun window_span :: "board_window \<Rightarrow> int option" where
  "window_span W_7d = Some (7 * 86400000)"
| "window_span W_30d = Some (30 * 86400000)"
| "window_span W_all = None"

definition Z95 :: num where
  "Z95 = 1959963984540054 / 1000000000000000"

definition wilsonLowerBound :: "(num \<Rightarrow> num) \<Rightarrow> int \<Rightarrow> int \<Rightarrow> num" where
  "wilsonLowerBound rt correct decided =
     (if decided \<le> 0 then 0
      else
        (let p = of_int correct / of_int decided;
             z2 = Z95 * Z95;
             centre = p + z2 / (2 * of_int decided);
             margin = Z95 * rt ((p * (1 - p) + z2 / (4 * of_int decided)) / of_int decided)
         in max 0 ((centre - margin) / (1 + z2 / of_int decided))))"

text \<open>The sign of a difference of two numbers, as a comparator answers it.\<close>

definition desc :: "num \<Rightarrow> num \<Rightarrow> int" where
  "desc a b = (if b > a then 1 else if b < a then - 1 else 0)"

record board_row =
  bw_rank :: "nat option"
  bw_person :: person_summary
  bw_record :: public_record
  bw_score :: num
  bw_fundedCalls :: "int option"

definition is_funded_call :: "people_env \<Rightarrow> (string \<Rightarrow> bool) \<Rightarrow> int option \<Rightarrow> call_row \<Rightarrow> bool" where
  "is_funded_call e f since c \<longleftrightarrow> ca_visibility c = Public \<and> ca_hiddenAt c = None \<and> \<not> pv_isPrivate e (ca_id c) \<and> f (ca_id c) \<and>
     (case since of None \<Rightarrow> True | Some t \<Rightarrow> ca_lockedAt c \<ge> t)"

definition fundedCallsByAuthor :: "people_env \<Rightarrow> calls_store \<Rightarrow> int option \<Rightarrow> (string \<Rightarrow> bool) option
    \<Rightarrow> (string, int) jmap option" where
  "fundedCallsByAuthor e s since isFunded =
     (case isFunded of
        None \<Rightarrow> None
      | Some f \<Rightarrow> Some (fold (\<lambda>c m. if is_funded_call e f since c
            then jm_set (ca_userId c) ((case jm_get m (ca_userId c) of None \<Rightarrow> 0 | Some n \<Rightarrow> n) + 1) m else m) (listCalls s) []))"

definition funded_count :: "(string, int) jmap option \<Rightarrow> string \<Rightarrow> int option" where
  "funded_count funded u = map_option (\<lambda>m. case jm_get m u of None \<Rightarrow> 0 | Some n \<Rightarrow> n) funded"

definition board_row_of :: "people_env \<Rightarrow> calls_store \<Rightarrow> (string, int) jmap option \<Rightarrow> string \<times> public_record \<Rightarrow> board_row option" where
  "board_row_of e s funded ur =
     (let r = snd ur
      in if cc_decided (pb_counts r) = 0 then None
         else map_option (\<lambda>p. \<lparr>bw_rank = None, bw_person = summaryOf p, bw_record = r,
             bw_score = wilsonLowerBound (pv_root e) (cc_correct (pb_counts r)) (cc_decided (pb_counts r)),
             bw_fundedCalls = funded_count funded (fst ur)\<rparr>) (jm_get (cs_people s) (fst ur)))"

definition bw_decided :: "board_row \<Rightarrow> int" where
  "bw_decided r = cc_decided (pb_counts (bw_record r))"

definition ranked_order :: "people_env \<Rightarrow> board_row \<Rightarrow> board_row \<Rightarrow> int" where
  "ranked_order e a b =
     or_else (desc (bw_score a) (bw_score b))
     (or_else (bw_decided b - bw_decided a)
     (or_else (cc_correct (pb_counts (bw_record b)) - cc_correct (pb_counts (bw_record a)))
     (or_else ((case bw_fundedCalls b of None \<Rightarrow> 0 | Some n \<Rightarrow> n) - (case bw_fundedCalls a of None \<Rightarrow> 0 | Some n \<Rightarrow> n))
       (pv_coll e (ps_handle (bw_person a)) (ps_handle (bw_person b))))))"

definition building_order :: "people_env \<Rightarrow> board_row \<Rightarrow> board_row \<Rightarrow> int" where
  "building_order e a b =
     or_else (bw_decided b - bw_decided a) (pv_coll e (ps_handle (bw_person a)) (ps_handle (bw_person b)))"

fun number_from :: "nat \<Rightarrow> board_row list \<Rightarrow> board_row list" where
  "number_from i [] = []"
| "number_from i (r # rs) = r\<lparr>bw_rank := Some (i + 1)\<rparr> # number_from (i + 1) rs"

definition board_rows :: "people_env \<Rightarrow> calls_store \<Rightarrow> int option \<Rightarrow> (string, int) jmap option \<Rightarrow> board_row list" where
  "board_rows e s since funded = List.map_filter (board_row_of e s funded) (recordsByAuthor e s since)"

definition all_ranked :: "people_env \<Rightarrow> board_row list \<Rightarrow> board_row list" where
  "all_ranked e rows = number_from 0 (sort_by (ranked_order e) (filter (\<lambda>r. bw_decided r \<ge> MIN_DECIDED_FOR_ACCURACY) rows))"

definition all_building :: "people_env \<Rightarrow> board_row list \<Rightarrow> board_row list" where
  "all_building e rows = sort_by (building_order e) (filter (\<lambda>r. bw_decided r < MIN_DECIDED_FOR_ACCURACY) rows)"

record leaderboard =
  lb_ranked :: "board_row list"
  lb_building :: "board_row list"
  lb_viewer :: "(board_row \<times> int) option"
  lb_servedAt :: int

definition own_row :: "people_env \<Rightarrow> calls_store \<Rightarrow> int option \<Rightarrow> (string, int) jmap option \<Rightarrow> board_row list \<Rightarrow> person \<Rightarrow> board_row" where
  "own_row e s since funded ranked me =
     (case find (\<lambda>r. ps_id (bw_person r) = pe_id me) ranked of
        Some r \<Rightarrow> r
      | None \<Rightarrow> \<lparr>bw_rank = None, bw_person = summaryOf me,
          bw_record = (case jm_get (recordsByAuthor e s since) (pe_id me) of None \<Rightarrow> recordFrom emptyTally | Some r \<Rightarrow> r),
          bw_score = 0, bw_fundedCalls = funded_count funded (pe_id me)\<rparr>)"

definition leaderboard_of :: "people_env \<Rightarrow> calls_store \<Rightarrow> board_window \<Rightarrow> nat \<Rightarrow> string option \<Rightarrow> string list option \<Rightarrow> leaderboard" where
  "leaderboard_of e s w limit viewer excluded =
     (let since = map_option (\<lambda>d. pv_now e - d) (window_span w);
          funded = fundedCallsByAuthor e s since (fundedFor e viewer);
          rows = board_rows e s since funded;
          ranked = all_ranked e rows;
          shown = (\<lambda>rs. take limit (filter (\<lambda>r. \<not> hiddenBy excluded (ps_id (bw_person r))) rs));
          me = (case viewer of None \<Rightarrow> None | Some v \<Rightarrow> jm_get (cs_people s) v)
      in \<lparr>lb_ranked = shown ranked, lb_building = shown (all_building e rows),
          lb_viewer = map_option (\<lambda>p. let r = own_row e s since funded ranked p
            in (r, max 0 (MIN_DECIDED_FOR_ACCURACY - bw_decided r))) me,
          lb_servedAt = pv_now e\<rparr>)"

section \<open>Search\<close>

definition normaliseQuery :: "string \<Rightarrow> string" where
  "normaliseQuery raw = js_lower (js_trim (dropWhile (\<lambda>c. c = CHR ''@'') (js_trim raw)))"

fun words_from :: "string \<Rightarrow> string \<Rightarrow> bool \<Rightarrow> string list" where
  "words_from w [] sp = [rev w]"
| "words_from w (c # cs) sp =
     (if is_space c then (if sp then words_from w cs True else rev w # words_from [] cs True)
      else words_from (c # w) cs False)"

text \<open>\<open>split(/\s+/)\<close>: one cut at every run of white space.\<close>

definition js_words :: "string \<Rightarrow> string list" where
  "js_words s = words_from [] s False"

definition matchTier :: "person \<Rightarrow> string \<Rightarrow> nat option" where
  "matchTier p q =
     (let handle = bare_handle (pe_handle p); name = js_lower (pe_displayName p)
      in if starts_with q handle then Some 0
         else if starts_with q name \<or> list_ex (starts_with q) (js_words name) then Some 1
         else if js_includes q handle \<or> js_includes q name then Some 2
         else None)"

type_synonym search_hit = "person \<times> nat \<times> public_record"

definition search_order :: "people_env \<Rightarrow> search_hit \<Rightarrow> search_hit \<Rightarrow> int" where
  "search_order e a b =
     (case (a, b) of ((p, t, r), (p', t', r')) \<Rightarrow>
        or_else (int t - int t')
          (or_else (cc_decided (pb_counts r') - cc_decided (pb_counts r)) (pv_coll e (pe_handle p) (pe_handle p'))))"

definition search_hits :: "people_env \<Rightarrow> calls_store \<Rightarrow> string \<Rightarrow> string list option \<Rightarrow> search_hit list" where
  "search_hits e s q excluded =
     (if q = [] then []
      else List.map_filter (\<lambda>p. if hiddenBy excluded (pe_id p) then None
        else map_option (\<lambda>t. (p, t, case jm_get (recordsByAuthor e s None) (pe_id p) of None \<Rightarrow> recordFrom emptyTally | Some r \<Rightarrow> r))
               (matchTier p q)) (jm_values (cs_people s)))"

definition searchPeople :: "people_env \<Rightarrow> calls_store \<Rightarrow> string \<Rightarrow> nat \<Rightarrow> string option \<Rightarrow> string list option
    \<Rightarrow> string \<times> person_card list \<times> int" where
  "searchPeople e s raw limit viewer excluded =
     (let q = normaliseQuery raw
      in (q, map (\<lambda>(p, t, r). card_with s p viewer r) (take limit (sort_by (search_order e) (search_hits e s q excluded))),
          pv_now e))"

definition following :: "people_env \<Rightarrow> calls_store \<Rightarrow> string \<Rightarrow> person_card list" where
  "following e s viewer =
     sort_by (\<lambda>a b. or_else (pv_coll e (ps_displayName a) (ps_displayName b)) (pv_coll e (ps_handle a) (ps_handle b)))
       (map (\<lambda>p. card_with s p (Some viewer) (publicRecord e s (pe_id p) None))
         (List.map_filter (jm_get (cs_people s)) (followingOf viewer s)))"

section \<open>Top calls\<close>

record top_candidate =
  tc_call :: call_row
  tc_responses :: "response_row list"
  tc_credibility :: num
  tc_record :: public_record

record top_call =
  te_call :: call_row
  te_author :: person_summary
  te_record :: public_record
  te_market :: venue_market
  te_responses :: nat
  te_split :: "(nat \<times> nat) option"
  te_viewerHasCalled :: bool

definition answerable :: "people_env \<Rightarrow> call_row \<Rightarrow> bool" where
  "answerable e c \<longleftrightarrow>
     (case rd_getMarket (pv_reader e) (ca_marketId c) of
        None \<Rightarrow> False
      | Some m \<Rightarrow> acceptsNewCalls m (pv_now e) (pv_callCutoffMs e) \<and> rd_getResolution (pv_reader e) (vm_id m) = None)"

definition candidate_of :: "people_env \<Rightarrow> calls_store \<Rightarrow> call_row \<Rightarrow> top_candidate" where
  "candidate_of e s c =
     (let r = (case jm_get (recordsByAuthor e s None) (ca_userId c) of None \<Rightarrow> recordFrom emptyTally | Some r \<Rightarrow> r)
      in \<lparr>tc_call = c, tc_responses = responsesForTarget (ca_id c) s,
          tc_credibility = (case pb_display r of
              Accuracy_shown _ _ \<Rightarrow> wilsonLowerBound (pv_root e) (cc_correct (pb_counts r)) (cc_decided (pb_counts r))
            | Counts_shown _ \<Rightarrow> 0),
          tc_record = r\<rparr>)"

definition candidate_order :: "people_env \<Rightarrow> (string \<Rightarrow> bool) option \<Rightarrow> top_candidate \<Rightarrow> top_candidate \<Rightarrow> int" where
  "candidate_order e isFunded a b =
     or_else (case isFunded of None \<Rightarrow> 0
              | Some f \<Rightarrow> (if f (ca_id (tc_call b)) then 1 else 0) - (if f (ca_id (tc_call a)) then 1 else 0))
     (or_else (int (length (tc_responses b)) - int (length (tc_responses a)))
     (or_else (desc (tc_credibility a) (tc_credibility b))
     (or_else (ca_lockedAt (tc_call b) - ca_lockedAt (tc_call a))
       (pv_coll e (ca_id (tc_call b)) (ca_id (tc_call a))))))"

definition top_candidates :: "people_env \<Rightarrow> calls_store \<Rightarrow> string option \<Rightarrow> string list option \<Rightarrow> top_candidate list" where
  "top_candidates e s viewer excluded =
     sort_by (candidate_order e (fundedFor e viewer)) (map (candidate_of e s)
       (filter (answerable e)
         (filter (\<lambda>c. ca_visibility c = Public \<and> Some (ca_userId c) \<noteq> viewer \<and> \<not> hiddenBy excluded (ca_userId c) \<and>
            \<not> pv_isPrivate e (ca_id c)) (liveCalls s))))"

text \<open>A call as it goes out has no hidden columns: their defaults stand for their absence.\<close>

definition toCall :: "call_row \<Rightarrow> call_row" where
  "toCall c = c\<lparr>ca_hiddenAt := None, ca_hiddenReason := None\<rparr>"

definition top_entry :: "calls_store \<Rightarrow> string option \<Rightarrow> top_candidate \<Rightarrow> venue_market \<Rightarrow> person \<Rightarrow> top_call" where
  "top_entry s viewer c m author =
     (let called = (case viewer of None \<Rightarrow> False | Some v \<Rightarrow> liveCallByUserOnMarket v (vm_id m) s \<noteq> None)
      in \<lparr>te_call = toCall (tc_call c), te_author = summaryOf author, te_record = tc_record c, te_market = m,
          te_responses = length (tc_responses c),
          te_split = (if called then Some (length (filter (\<lambda>r. rs_kind r = Back) (tc_responses c)),
                                         length (filter (\<lambda>r. rs_kind r = Fade) (tc_responses c))) else None),
          te_viewerHasCalled = called\<rparr>)"

text \<open>The strip: one call for a market, at most two for an author, up to the limit.\<close>

fun pick_top :: "people_env \<Rightarrow> calls_store \<Rightarrow> string option \<Rightarrow> nat \<Rightarrow> top_candidate list \<Rightarrow> string list
    \<Rightarrow> (string, nat) jmap \<Rightarrow> top_call list \<Rightarrow> top_call list" where
  "pick_top e s viewer limit [] seen per entries = entries"
| "pick_top e s viewer limit (c # cs) seen per entries =
     (let k = ca_marketId (tc_call c); u = ca_userId (tc_call c); n = (case jm_get per u of None \<Rightarrow> 0 | Some n \<Rightarrow> n)
      in if length entries \<ge> limit then entries
         else if k \<in> set seen then pick_top e s viewer limit cs seen per entries
         else if n \<ge> 2 then pick_top e s viewer limit cs seen per entries
         else (case (rd_getMarket (pv_reader e) k, jm_get (cs_people s) u) of
             (Some m, Some author) \<Rightarrow>
               pick_top e s viewer limit cs (set_add k seen) (jm_set u (n + 1) per) (entries @ [top_entry s viewer c m author])
           | _ \<Rightarrow> pick_top e s viewer limit cs seen per entries))"

definition topCalls :: "people_env \<Rightarrow> calls_store \<Rightarrow> nat \<Rightarrow> string option \<Rightarrow> string list option \<Rightarrow> top_call list \<times> int" where
  "topCalls e s limit viewer excluded =
     (pick_top e s viewer limit (top_candidates e s viewer excluded) [] [] [], pv_now e)"

section \<open>Who to follow\<close>

record latest_call =
  lc_callId :: string
  lc_side :: side
  lc_marketId :: string
  lc_question :: string
  lc_closesAt :: "int option"

definition hold_latest :: "people_env \<Rightarrow> call_row \<Rightarrow> (string, call_row) jmap \<Rightarrow> (string, call_row) jmap" where
  "hold_latest e c m =
     (if \<not> onRecord e c then m
      else if \<not> answerable e c then m
      else (case jm_get m (ca_userId c) of
              None \<Rightarrow> jm_set (ca_userId c) c m
            | Some held \<Rightarrow> if ca_lockedAt c > ca_lockedAt held then jm_set (ca_userId c) c m else m))"

definition latestLiveCalls :: "people_env \<Rightarrow> calls_store \<Rightarrow> (string, latest_call) jmap" where
  "latestLiveCalls e s =
     map (\<lambda>(u, c). (u, let m = the (rd_getMarket (pv_reader e) (ca_marketId c))
        in \<lparr>lc_callId = ca_id c, lc_side = ca_side c, lc_marketId = vm_id m, lc_question = vm_question m,
            lc_closesAt = vm_closesAt m\<rparr>))
       (fold (hold_latest e) (liveCalls s) [])"

datatype suggestion_reason = Ranked_reason | Top_call_reason | Building_reason | Recent_reason | Friend_reason

record suggested_person = person_card +
  sg_latestLiveCall :: "latest_call option"
  sg_reason :: suggestion_reason

definition suggest_card :: "people_env \<Rightarrow> calls_store \<Rightarrow> string option \<Rightarrow> person \<Rightarrow> suggestion_reason \<Rightarrow> suggested_person" where
  "suggest_card e s viewer p reason =
     person_card.extend (card_with s p viewer
         (case jm_get (recordsByAuthor e s None) (pe_id p) of None \<Rightarrow> recordFrom emptyTally | Some r \<Rightarrow> r))
       \<lparr>sg_latestLiveCall = jm_get (latestLiveCalls e s) (pe_id p), sg_reason = reason\<rparr>"

definition left_out :: "calls_store \<Rightarrow> string option \<Rightarrow> string list option \<Rightarrow> string \<Rightarrow> bool" where
  "left_out s viewer excluded u \<longleftrightarrow> Some u = viewer \<or> hiddenBy excluded u \<or>
     (case viewer of None \<Rightarrow> False | Some v \<Rightarrow> isFollowing v u s)"

fun pick_friends :: "people_env \<Rightarrow> calls_store \<Rightarrow> string option \<Rightarrow> string list option \<Rightarrow> nat \<Rightarrow> string list
    \<Rightarrow> string list \<Rightarrow> suggested_person list \<Rightarrow> string list \<times> suggested_person list" where
  "pick_friends e s viewer excluded limit [] seen friends = (seen, friends)"
| "pick_friends e s viewer excluded limit (u # us) seen friends =
     (if u \<in> set seen \<or> left_out s viewer excluded u then pick_friends e s viewer excluded limit us seen friends
      else (case jm_get (cs_people s) u of
              None \<Rightarrow> pick_friends e s viewer excluded limit us seen friends
            | Some p \<Rightarrow>
                if isDeletedAccount p then pick_friends e s viewer excluded limit us seen friends
                else
                  (let friends = friends @ [suggest_card e s viewer p Friend_reason]; seen = set_add u seen
                   in if length friends \<ge> limit then (seen, friends)
                      else pick_friends e s viewer excluded limit us seen friends)))"

definition add_person :: "people_env \<Rightarrow> calls_store \<Rightarrow> string option \<Rightarrow> string list option \<Rightarrow> nat
    \<Rightarrow> string \<times> suggestion_reason \<Rightarrow> string list \<times> suggested_person list \<Rightarrow> string list \<times> suggested_person list" where
  "add_person e s viewer excluded limit ur sp =
     (case (ur, sp) of ((u, reason), (seen, people)) \<Rightarrow>
        if length people \<ge> limit \<or> u \<in> set seen \<or> left_out s viewer excluded u then sp
        else (case jm_get (recordsByAuthor e s None) u of
                None \<Rightarrow> sp
              | Some r \<Rightarrow>
                  if cc_decided (pb_counts r) + cc_voided (pb_counts r) + cc_pending (pb_counts r) = 0 then sp
                  else (case jm_get (cs_people s) u of
                          None \<Rightarrow> sp
                        | Some p \<Rightarrow> if isDeletedAccount p then sp
                            else (set_add u seen, people @ [suggest_card e s viewer p reason]))))"

definition recent_callers :: "people_env \<Rightarrow> calls_store \<Rightarrow> string list" where
  "recent_callers e s = map ca_userId
     (sort_by (\<lambda>a b. or_else (ca_lockedAt b - ca_lockedAt a) (pv_coll e (ca_id b) (ca_id a))) (filter (onRecord e) (liveCalls s)))"

definition suggestion_order :: "people_env \<Rightarrow> calls_store \<Rightarrow> string list option \<Rightarrow> (string \<times> suggestion_reason) list" where
  "suggestion_order e s excluded =
     (let board = leaderboard_of e s W_all 100 None excluded
      in map (\<lambda>r. (ps_id (bw_person r), Ranked_reason)) (lb_ranked board) @
         map (\<lambda>t. (ps_id (te_author t), Top_call_reason)) (fst (topCalls e s 20 None excluded)) @
         map (\<lambda>r. (ps_id (bw_person r), Building_reason)) (lb_building board) @
         map (\<lambda>u. (u, Recent_reason)) (recent_callers e s))"

definition suggested :: "people_env \<Rightarrow> calls_store \<Rightarrow> nat \<Rightarrow> string list \<Rightarrow> string option \<Rightarrow> string list option
    \<Rightarrow> suggested_person list \<times> suggested_person list \<times> int" where
  "suggested e s limit friendIds viewer excluded =
     (let (seen, friends) = (case viewer of None \<Rightarrow> ([], []) | Some _ \<Rightarrow> pick_friends e s viewer excluded limit friendIds [] []);
          (_, people) = fold (add_person e s viewer excluded limit) (suggestion_order e s excluded) (seen, [])
      in (friends, people, pv_now e))"

section \<open>What is stored about people\<close>

definition people_ok :: "calls_store \<Rightarrow> bool" where
  "people_ok s \<longleftrightarrow> jm_wf (cs_people s) \<and> jm_all (\<lambda>k p. pe_id p = k) (cs_people s)"

lemma people_ok_upsert: "people_ok s \<Longrightarrow> people_ok (upsertPerson p s)"
  by (simp add: people_ok_def upsertPerson_def)

lemma people_ok_same: "people_ok s \<Longrightarrow> cs_people s' = cs_people s \<Longrightarrow> people_ok s'"
  by (simp add: people_ok_def)

lemma people_get: "people_ok s \<Longrightarrow> jm_get (cs_people s) u = Some p \<Longrightarrow> pe_id p = u"
  using jm_all_get[of "\<lambda>k p. pe_id p = k" "cs_people s" u p] by (simp add: people_ok_def del: map_of_eq_Some_iff)

section \<open>Every surface reads the same record\<close>

lemma tally_ok_fold_call [simp]: "tally_ok t \<Longrightarrow> tally_ok (fold_call e s since c t)"
  by (simp add: fold_call_def Let_def split: option.split)

lemma tally_ok_fold_calls: "tally_ok t \<Longrightarrow> tally_ok (fold (fold_call e s since) cs t)"
  by (induction cs arbitrary: t) simp_all

lemma recordFrom_total:
  assumes "tally_ok t"
  shows "buildCounts t = Some (pb_counts (recordFrom t)) \<and> displayFor (pb_counts (recordFrom t)) = Some (pb_display (recordFrom t))"
  using buildCounts_ok[OF assms] displayFor_complete[OF buildCounts_complete[OF buildCounts_ok[OF assms]]]
  by (auto simp: recordFrom_def Let_def)

lemma get_tally_authors:
  "jm_get (fold (tally_author e s since) cs m) u =
     (let mine = filter (\<lambda>c. ca_userId c = u) cs
      in if mine = [] then jm_get m u
         else Some (fold (fold_call e s since) mine (case jm_get m u of None \<Rightarrow> emptyTally | Some a \<Rightarrow> a)))"
  by (induction cs arbitrary: m) (simp_all add: Let_def tally_author_def split: option.split)

lemma wf_tally_authors: "jm_wf m \<Longrightarrow> jm_wf (fold (tally_author e s since) cs m)"
  by (induction cs arbitrary: m) (simp_all add: tally_author_def Let_def)

lemma wf_recordsByAuthor: "jm_wf (recordsByAuthor e s since)"
  unfolding recordsByAuthor_def by (subst jm_wf_map) (simp add: wf_tally_authors)

lemma recordsByAuthor_get:
  "jm_get (recordsByAuthor e s since) u =
     (if callsByAuthor u s = [] then None else Some (publicRecord e s u since))"
  by (simp add: recordsByAuthor_def map_of_map get_tally_authors Let_def callsByAuthor_def publicRecord_def)

lemma recordsByAuthor_in: "(u, r) \<in> set (recordsByAuthor e s since) \<Longrightarrow> r = publicRecord e s u since \<and> callsByAuthor u s \<noteq> []"
  using jm_get_in[OF wf_recordsByAuthor, of u r e s since] by (simp add: recordsByAuthor_get split: if_splits)

text \<open>What the record of an author counts: the outcomes of the calls in its scope.\<close>

definition outcome_of :: "calls_store \<Rightarrow> call_row \<Rightarrow> call_outcome" where
  "outcome_of s c = (case getResult (ca_id c) s of None \<Rightarrow> O_PENDING | Some r \<Rightarrow> cr_outcome r)"

definition in_window :: "calls_store \<Rightarrow> int option \<Rightarrow> call_row \<Rightarrow> bool" where
  "in_window s since c \<longleftrightarrow> (case since of None \<Rightarrow> True | Some t \<Rightarrow> outcome_of s c \<noteq> O_PENDING \<and>
     (\<exists>r u. getResult (ca_id c) s = Some r \<and> cr_resolvedAt r = Some u \<and> u \<ge> t))"

lemma fold_call_eq: "fold_call e s since c acc = (if onRecord e c \<and> in_window s since c then tally (outcome_of s c) acc else acc)"
  by (auto simp: fold_call_def in_window_def outcome_of_def Let_def split: option.split)

lemma fold_calls_eq:
  "fold (fold_call e s since) cs acc = fold tally (map (outcome_of s) (filter (\<lambda>c. onRecord e c \<and> in_window s since c) cs)) acc"
  by (induction cs arbitrary: acc) (simp_all add: fold_call_eq)

definition counted :: "people_env \<Rightarrow> calls_store \<Rightarrow> int option \<Rightarrow> string \<Rightarrow> call_outcome \<Rightarrow> int" where
  "counted e s since u o1 =
     int (length (filter (\<lambda>c. ca_userId c = u \<and> onRecord e c \<and> in_window s since c \<and> outcome_of s c = o1) (listCalls s)))"

lemma publicRecord_counts:
  "pb_counts (publicRecord e s u since) =
     \<lparr>cc_correct = counted e s since u O_CORRECT, cc_incorrect = counted e s since u O_INCORRECT,
      cc_voided = counted e s since u O_VOID,
      cc_resolved = counted e s since u O_CORRECT + counted e s since u O_INCORRECT + counted e s since u O_VOID,
      cc_decided = counted e s since u O_CORRECT + counted e s since u O_INCORRECT,
      cc_pending = counted e s since u O_PENDING\<rparr>"
proof -
  define os where "os = map (outcome_of s) (filter (\<lambda>c. onRecord e c \<and> in_window s since c) (callsByAuthor u s))"
  have c: "count_of o1 os = counted e s since u o1" for o1
    by (simp add: count_of_def counted_def os_def callsByAuthor_def filter_map comp_def conj_ac)
  have "fold (fold_call e s since) (callsByAuthor u s) emptyTally = fold tally os emptyTally"
    by (simp add: fold_calls_eq os_def)
  moreover have "tally_ok (fold tally os emptyTally)" by simp
  ultimately show ?thesis
    using buildCounts_ok[of "fold tally os emptyTally"]
    by (simp add: publicRecord_def recordFrom_def Let_def fold_tally emptyTally_def c)
qed

text \<open>The board, the search and the strip take a person's record from one pass over all calls; a
  profile takes it from that person's own calls. For every person with a call the two are the same
  record, whatever the window, and it counts exactly the person's public free calls that were ever
  public, hidden ones too. (An author whose calls all fall outside that scope is present with an
  empty record, not absent.)\<close>

theorem one_record:
  "jm_get (recordsByAuthor e s since) u = (if callsByAuthor u s = [] then None else Some (publicRecord e s u since)) \<and>
   list_all (\<lambda>o1.
      (case o1 of O_CORRECT \<Rightarrow> cc_correct | O_INCORRECT \<Rightarrow> cc_incorrect | O_VOID \<Rightarrow> cc_voided | O_PENDING \<Rightarrow> cc_pending)
        (pb_counts (publicRecord e s u since)) =
      int (length (filter (\<lambda>c. ca_userId c = u \<and> ca_visibility c = Public \<and> ca_fundingState c = F_NONE \<and>
        \<not> pv_isPrivate e (ca_id c) \<and> in_window s since c \<and> outcome_of s c = o1) (listCalls s))))
     [O_CORRECT, O_INCORRECT, O_VOID, O_PENDING]"
  by (simp add: recordsByAuthor_get publicRecord_counts counted_def onRecord_def countsTowardsPublicRecord_def conj_assoc)

section \<open>The board\<close>

abbreviation bw_id :: "board_row \<Rightarrow> string" where
  "bw_id r \<equiv> ps_id (bw_person r)"

lemma length_number_from [simp]: "length (number_from i rs) = length rs"
  by (induction i rs rule: number_from.induct) simp_all

lemma number_from_nth: "j < length rs \<Longrightarrow> number_from i rs ! j = (rs ! j)\<lparr>bw_rank := Some (i + 1 + j)\<rparr>"
  by (induction i rs arbitrary: j rule: number_from.induct) (auto simp: nth_Cons split: nat.split)

lemma board_row_of_Some:
  assumes "people_ok s" "board_row_of e s funded (u, rec) = Some r"
  shows "bw_id r = u" "bw_record r = rec" "bw_score r = wilsonLowerBound (pv_root e) (cc_correct (pb_counts rec)) (cc_decided (pb_counts rec))"
  using assms people_get[OF assms(1), of u] by (auto simp: board_row_of_def Let_def summaryOf_def split: if_splits)

lemma board_rows_record:
  assumes "people_ok s" "r \<in> set (board_rows e s since funded)"
  shows "bw_record r = publicRecord e s (bw_id r) since"
proof -
  from assms(2) obtain u rec where m: "(u, rec) \<in> set (recordsByAuthor e s since)" and r: "board_row_of e s funded (u, rec) = Some r"
    by (auto simp: board_rows_def map_filter_def)
  from recordsByAuthor_in[OF m] board_row_of_Some[OF assms(1) r] show ?thesis by simp
qed

lemma board_rows_ids:
  assumes "people_ok s"
  shows "distinct (map bw_id (board_rows e s since funded))"
proof -
  have "distinct (map bw_id (List.map_filter (board_row_of e s funded) m))" if "jm_wf m" for m
    using that
  proof (induction m)
    case (Cons ur m)
    obtain u rec where ur: "ur = (u, rec)" by (cases ur)
    have "bw_id r \<noteq> u" if "r \<in> set (List.map_filter (board_row_of e s funded) m)" for r
    proof -
      from that obtain v q where "(v, q) \<in> set m" "board_row_of e s funded (v, q) = Some r" by (auto simp: map_filter_def)
      with board_row_of_Some(1)[OF assms] Cons.prems ur show ?thesis by (force simp: )
    qed
    with Cons show ?case
      by (cases "board_row_of e s funded (u, rec)")
        (auto simp: ur List.map_filter_simps board_row_of_Some(1)[OF assms] simp del: map_of_eq_Some_iff)
  qed (simp add: List.map_filter_simps)
  then show ?thesis unfolding board_rows_def using wf_recordsByAuthor by blast
qed

lemma all_ranked_nth:
  "all_ranked e rows ! j = (sort_by (ranked_order e) (filter (\<lambda>r. bw_decided r \<ge> MIN_DECIDED_FOR_ACCURACY) rows) ! j)\<lparr>bw_rank := Some (j + 1)\<rparr>"
  if "j < length (all_ranked e rows)"
  using that by (simp add: all_ranked_def number_from_nth)

text \<open>Better by the order of the board: score, then decided calls, then correct ones.\<close>

definition beats :: "board_row \<Rightarrow> board_row \<Rightarrow> bool" where
  "beats a b \<longleftrightarrow> bw_score a > bw_score b \<or> bw_score a = bw_score b \<and>
     (bw_decided a > bw_decided b \<or> bw_decided a = bw_decided b \<and>
        cc_correct (pb_counts (bw_record a)) > cc_correct (pb_counts (bw_record b)))"

lemma beats_rank [simp]: "beats (a\<lparr>bw_rank := i\<rparr>) b = beats a b" "beats a (b\<lparr>bw_rank := i\<rparr>) = beats a b"
  by (simp_all add: beats_def bw_decided_def)

lemma sorted_ranked: "sorted_wrt (\<lambda>a b. \<not> beats b a) (sort_by (ranked_order e) rows)"
  by (rule sorted_sort_by)
    (auto simp: ranked_order_def or_else_def desc_def beats_def transp_def split: if_splits)

lemma all_ranked_row:
  assumes "people_ok s" "r \<in> set (all_ranked e (board_rows e s since funded))"
  obtains j where "j < length (all_ranked e (board_rows e s since funded))" "r = all_ranked e (board_rows e s since funded) ! j"
    "bw_rank r = Some (j + 1)" "bw_record r = publicRecord e s (bw_id r) since" "bw_decided r \<ge> MIN_DECIDED_FOR_ACCURACY"
proof -
  let ?rows = "board_rows e s since funded"
  let ?sorted = "sort_by (ranked_order e) (filter (\<lambda>r. bw_decided r \<ge> MIN_DECIDED_FOR_ACCURACY) ?rows)"
  from assms(2) obtain j where j: "j < length (all_ranked e ?rows)" "r = all_ranked e ?rows ! j"
    by (auto simp: in_set_conv_nth)
  then have r: "r = (?sorted ! j)\<lparr>bw_rank := Some (j + 1)\<rparr>" by (simp add: all_ranked_nth)
  have "?sorted ! j \<in> set ?sorted" using j(1) by (intro nth_mem) (simp add: all_ranked_def)
  then have "?sorted ! j \<in> set ?rows" "bw_decided (?sorted ! j) \<ge> MIN_DECIDED_FOR_ACCURACY" by (simp_all del: nth_mem)
  with r that[OF j] board_rows_record[OF assms(1)] show ?thesis by (simp add: bw_decided_def)
qed

lemma all_ranked_distinct:
  assumes "people_ok s" "i < length (all_ranked e (board_rows e s since funded))"
    "j < length (all_ranked e (board_rows e s since funded))"
    "bw_id (all_ranked e (board_rows e s since funded) ! i) = bw_id (all_ranked e (board_rows e s since funded) ! j)"
  shows "i = j"
proof -
  let ?sorted = "sort_by (ranked_order e) (filter (\<lambda>r. bw_decided r \<ge> MIN_DECIDED_FOR_ACCURACY) (board_rows e s since funded))"
  have d: "distinct (map bw_id ?sorted)"
    using board_rows_ids[OF assms(1)] by (simp add: distinct_map_filter)
  have l: "i < length ?sorted" "j < length ?sorted" using assms(2,3) by (simp_all add: all_ranked_def)
  have "map bw_id ?sorted ! i = map bw_id ?sorted ! j"
    using assms(4) l all_ranked_nth[OF assms(2)] all_ranked_nth[OF assms(3)] by simp
  with d l show ?thesis by (simp only: nth_eq_iff_index_eq length_map)
qed

lemma all_ranked_sorted:
  assumes "i < j" "j < length (all_ranked e rows)"
  shows "\<not> beats (all_ranked e rows ! j) (all_ranked e rows ! i)"
  using sorted_wrt_nth_less[OF sorted_ranked assms(1), of e "filter (\<lambda>r. bw_decided r \<ge> MIN_DECIDED_FOR_ACCURACY) rows"] assms
  by (simp add: all_ranked_nth) (simp add: all_ranked_def)

section \<open>A small directory\<close>

definition sample_person :: "string \<Rightarrow> person" where
  "sample_person u = \<lparr>pe_id = u, pe_handle = u, pe_displayName = u, pe_avatarUrl = None, pe_avatarId = None,
     pe_walletAddress = None, pe_settledCalls = 0, pe_correctCalls = 0, pe_bio = None, pe_joinedAt = None\<rparr>"

definition settled_call :: "string \<Rightarrow> resolution \<Rightarrow> nat \<Rightarrow> calls_op list" where
  "settled_call u r i = [Insert_call (free_call (u @ nat_str i) u (''m'' @ nat_str i) YES 10 None),
     Write_result (u @ nat_str i) (Some (sample_evidence (''m'' @ nat_str i) r)) 100 Service]"

text \<open>Ann is right ten times, Bob seven times out of ten; Bob follows Ann.\<close>

definition sample_directory :: calls_store where
  "sample_directory = calls_run (\<lambda>_. False)
     ([Upsert_person (sample_person ''ann''), Upsert_person (sample_person ''bob'')] @
      concat (map (settled_call ''bob'' R_YES) [0..<7]) @ concat (map (settled_call ''bob'' R_NO) [7..<10]) @
      concat (map (settled_call ''ann'' R_YES) [0..<10]) @ [Follow_op ''bob'' ''ann'']) empty_calls"

definition sample_env :: people_env where
  "sample_env = \<lparr>pv_now = 200, pv_reader = emptyMarketReader, pv_callCutoffMs = 0, pv_isPrivate = (\<lambda>_. False), pv_isFunded = None,
     pv_showsMoney = (\<lambda>_. True), pv_coll = (\<lambda>_ _. 0), pv_root = (\<lambda>x. x)\<rparr>"

lemma sample_directory_ok: "people_ok sample_directory"
  by code_simp

lemma all_ranked_ids: "bw_id ` set (all_ranked e rows) = bw_id ` {r \<in> set rows. bw_decided r \<ge> MIN_DECIDED_FOR_ACCURACY}"
proof -
  have "bw_id ` set (number_from i rs) = bw_id ` set rs" for i rs
    by (induction i rs rule: number_from.induct) auto
  then show ?thesis by (simp add: all_ranked_def)
qed

text \<open>Everybody with ten decided calls is on a board that is long enough.\<close>

lemma board_complete:
  assumes "people_ok s" "jm_get (cs_people s) u = Some p" "\<not> hiddenBy x u" "callsByAuthor u s \<noteq> []"
    "cc_decided (pb_counts (publicRecord e s u (map_option (\<lambda>d. pv_now e - d) (window_span w)))) \<ge> 10"
    "length (recordsByAuthor e s (map_option (\<lambda>d. pv_now e - d) (window_span w))) \<le> n"
  shows "\<exists>r \<in> set (lb_ranked (leaderboard_of e s w n v x)). bw_id r = u"
proof -
  define since where "since = map_option (\<lambda>d. pv_now e - d) (window_span w)"
  define funded where "funded = fundedCallsByAuthor e s since (fundedFor e v)"
  define rows where "rows = board_rows e s since funded"
  have "(u, publicRecord e s u since) \<in> set (recordsByAuthor e s since)"
    using assms(4) by (intro jm_get_mem) (simp add: recordsByAuthor_get)
  moreover obtain r where r: "board_row_of e s funded (u, publicRecord e s u since) = Some r"
    using assms(2,5) by (simp add: board_row_of_def Let_def since_def del: map_of_eq_Some_iff)
  ultimately have "r \<in> set rows" by (auto simp: rows_def board_rows_def map_filter_def intro!: image_eqI[where x = "(u, publicRecord e s u since)"])
  moreover have "bw_id r = u" "bw_decided r \<ge> MIN_DECIDED_FOR_ACCURACY"
    using board_row_of_Some[OF assms(1) r] assms(5) by (simp_all add: bw_decided_def MIN_DECIDED_FOR_ACCURACY_def since_def)
  ultimately obtain q where q: "q \<in> set (all_ranked e rows)" "bw_id q = u"
    using all_ranked_ids[of e rows] by (metis (mono_tags, lifting) image_iff mem_Collect_eq)
  have "length rows \<le> length (recordsByAuthor e s since)"
    by (simp add: rows_def board_rows_def map_filter_def)
  with assms(6) have "length rows \<le> n" by (simp add: since_def)
  moreover have "length (all_ranked e rows) \<le> length rows" by (simp add: all_ranked_def)
  ultimately have "length (filter (\<lambda>r. \<not> hiddenBy x (bw_id r)) (all_ranked e rows)) \<le> n"
    using length_filter_le[of "\<lambda>r. \<not> hiddenBy x (bw_id r)" "all_ranked e rows"] by linarith
  with q assms(3) show ?thesis
    by (auto simp: leaderboard_of_def Let_def since_def[symmetric] funded_def[symmetric] rows_def[symmetric])
qed

text \<open>The board ranks only people with ten decided calls in the window, by the record every other
  surface shows. Two viewers never see different ranks for a person, nor one rank for two people:
  what a viewer hides is left out without renumbering anybody. A better score, and on a tie more
  decided calls, then more correct ones, is always an earlier rank.\<close>

theorem leaderboard_ranks:
  assumes "people_ok s" "fundedFor e v = fundedFor e v'"
    and "r \<in> set (lb_ranked (leaderboard_of e s w n v x))" "r' \<in> set (lb_ranked (leaderboard_of e s w n' v' x'))"
  shows "bw_decided r \<ge> 10 \<and> \<not> hiddenBy x (bw_id r) \<and>
    bw_record r = publicRecord e s (bw_id r) (map_option (\<lambda>d. pv_now e - d) (window_span w)) \<and>
    (bw_id r = bw_id r' \<longleftrightarrow> bw_rank r = bw_rank r') \<and> (bw_id r = bw_id r' \<longleftrightarrow> r = r') \<and>
    (beats r r' \<longrightarrow> the (bw_rank r) < the (bw_rank r'))"
proof -
  define since where "since = map_option (\<lambda>d. pv_now e - d) (window_span w)"
  define rows where "rows = board_rows e s since (fundedCallsByAuthor e s since (fundedFor e v))"
  have m: "r \<in> set (all_ranked e rows)" "\<not> hiddenBy x (bw_id r)" "r' \<in> set (all_ranked e rows)"
    using assms(2-4) by (auto simp: leaderboard_of_def Let_def since_def rows_def dest: in_set_takeD)
  obtain i where i: "i < length (all_ranked e rows)" "r = all_ranked e rows ! i" "bw_rank r = Some (i + 1)"
    "bw_record r = publicRecord e s (bw_id r) since" "bw_decided r \<ge> MIN_DECIDED_FOR_ACCURACY"
    using all_ranked_row[OF assms(1) m(1)[unfolded rows_def]] unfolding rows_def by blast
  obtain j where j: "j < length (all_ranked e rows)" "r' = all_ranked e rows ! j" "bw_rank r' = Some (j + 1)"
    using all_ranked_row[OF assms(1) m(3)[unfolded rows_def]] unfolding rows_def by blast
  have d: "bw_id r = bw_id r' \<Longrightarrow> i = j"
    using all_ranked_distinct[OF assms(1) i(1)[unfolded rows_def] j(1)[unfolded rows_def]] i(2) j(2) by (simp add: rows_def)
  have b: "\<not> beats r r'" if "j \<le> i"
  proof (cases "i = j")
    case True
    with i(2) j(2) show ?thesis by (simp add: beats_def)
  next
    case False
    with that all_ranked_sorted[of j i e rows] i(1,2) j(2) show ?thesis by simp
  qed
  have e1: "(bw_id r = bw_id r') = (i = j)" "(r = r') = (i = j)"
    using d i(2,3) j(2,3) by auto
  show ?thesis
    using i(3-5) j(3) m(2) e1 b by (auto simp: since_def MIN_DECIDED_FOR_ACCURACY_def not_le[symmetric])
qed

theorem leaderboard_ranks_witness:
  "\<exists>a b. a \<in> set (lb_ranked (leaderboard_of sample_env sample_directory W_7d 5 None None)) \<and>
     b \<in> set (lb_ranked (leaderboard_of sample_env sample_directory W_7d 5 (Some ''ann'') (Some [''ann'']))) \<and>
     bw_id a = ''ann'' \<and> bw_id b = ''bob'' \<and> bw_rank a \<noteq> bw_rank b \<and>
     bw_record a = publicRecord sample_env sample_directory ''ann'' (Some (200 - 604800000))"
proof -
  have n: "pv_now sample_env = 200" by (simp add: sample_env_def)
  have p: "jm_get (cs_people sample_directory) ''ann'' = Some (sample_person ''ann'')"
    "jm_get (cs_people sample_directory) ''bob'' = Some (sample_person ''bob'')" by code_simp+
  have c: "callsByAuthor ''ann'' sample_directory \<noteq> []" "callsByAuthor ''bob'' sample_directory \<noteq> []" by code_simp+
  have d: "cc_decided (pb_counts (publicRecord sample_env sample_directory ''ann'' (map_option (\<lambda>d. pv_now sample_env - d) (window_span W_7d)))) \<ge> 10"
    "cc_decided (pb_counts (publicRecord sample_env sample_directory ''bob'' (map_option (\<lambda>d. pv_now sample_env - d) (window_span W_7d)))) \<ge> 10"
    by code_simp+
  have l: "length (recordsByAuthor sample_env sample_directory (map_option (\<lambda>d. pv_now sample_env - d) (window_span W_7d))) \<le> 5"
    by code_simp
  obtain r where r: "r \<in> set (lb_ranked (leaderboard_of sample_env sample_directory W_7d 5 None None))" "bw_id r = ''ann''"
    using board_complete[OF sample_directory_ok p(1) _ c(1) d(1) l, of None] by (auto simp: hiddenBy_def)
  obtain r' where r': "r' \<in> set (lb_ranked (leaderboard_of sample_env sample_directory W_7d 5 (Some ''ann'') (Some [''ann''])))" "bw_id r' = ''bob''"
    using board_complete[OF sample_directory_ok p(2) _ c(2) d(2) l, of "Some [''ann'']"] by (auto simp: hiddenBy_def)
  have f: "fundedFor sample_env None = fundedFor sample_env (Some ''ann'')" by (simp add: fundedFor_def sample_env_def)
  note h = leaderboard_ranks[OF sample_directory_ok f r(1) r'(1)]
  from h r(2) r'(2) have "bw_rank r \<noteq> bw_rank r'" by auto
  moreover from h r(2) n have "bw_record r = publicRecord sample_env sample_directory ''ann'' (Some (200 - 604800000))" by simp
  ultimately show ?thesis using r r' by blast
qed

section \<open>Top calls\<close>

text \<open>The store with the direction of every response wiped out.\<close>

definition blind :: "calls_store \<Rightarrow> calls_store" where
  "blind s = s\<lparr>cs_responses := map (\<lambda>(k, r). (k, r\<lparr>rs_kind := Challenge\<rparr>)) (cs_responses s)\<rparr>"

definition without_split :: "top_call \<Rightarrow> top_call" where
  "without_split t = (if te_viewerHasCalled t then t\<lparr>te_split := None\<rparr> else t)"

lemma blind_store [simp]:
  "cs_calls (blind s) = cs_calls s" "cs_people (blind s) = cs_people s" "cs_results (blind s) = cs_results s"
  "cs_follows (blind s) = cs_follows s"
  "listCalls (blind s) = listCalls s" "liveCalls (blind s) = liveCalls s" "getResult k (blind s) = getResult k s"
  "callsByAuthor u (blind s) = callsByAuthor u s" "liveCallByUserOnMarket u m (blind s) = liveCallByUserOnMarket u m s"
  by (simp_all add: blind_def listCalls_def liveCalls_def getResult_def callsByAuthor_def liveCallByUserOnMarket_def)

lemma blind_fold [simp]: "fold_call e (blind s) since = fold_call e s since"
  by (simp add: fold_call_def fun_eq_iff)

lemma blind_records [simp]: "recordsByAuthor e (blind s) since = recordsByAuthor e s since"
  by (simp add: recordsByAuthor_def tally_author_def [abs_def])

lemma blind_responses: "responsesForTarget k (blind s) = map (\<lambda>r. r\<lparr>rs_kind := Challenge\<rparr>) (responsesForTarget k s)"
  by (simp add: blind_def responsesForTarget_def filter_map comp_def case_prod_beta)

definition blind_candidate :: "top_candidate \<Rightarrow> top_candidate" where
  "blind_candidate c = c\<lparr>tc_responses := map (\<lambda>r. r\<lparr>rs_kind := Challenge\<rparr>) (tc_responses c)\<rparr>"

lemma blind_candidate_of: "candidate_of e (blind s) c = blind_candidate (candidate_of e s c)"
  by (simp add: candidate_of_def blind_candidate_def Let_def blind_responses)

lemma insert_by_map: "(\<And>x y. c (f x) (f y) = c x y) \<Longrightarrow> insert_by c (f x) (map f xs) = map f (insert_by c x xs)"
  by (induction xs) simp_all

lemma sort_by_map: "(\<And>x y. c (f x) (f y) = c x y) \<Longrightarrow> sort_by c (map f xs) = map f (sort_by c xs)"
  by (induction xs) (simp_all add: insert_by_map)

lemma candidate_order_blind: "candidate_order e f (blind_candidate a) (blind_candidate b) = candidate_order e f a b"
  by (cases f) (simp_all add: candidate_order_def blind_candidate_def)

lemma blind_candidates: "top_candidates e (blind s) viewer x = map blind_candidate (top_candidates e s viewer x)"
proof -
  have "map (candidate_of e (blind s)) cs = map blind_candidate (map (candidate_of e s) cs)" for cs
    by (simp add: blind_candidate_of)
  then show ?thesis
    unfolding top_candidates_def blind_store
    by (simp only: sort_by_map[where f = blind_candidate and c = "candidate_order e (fundedFor e viewer)", OF candidate_order_blind])
qed

lemma blind_entry:
  "without_split (top_entry (blind s) viewer (blind_candidate c) m p) = without_split (top_entry s viewer c m p)"
  by (cases viewer) (simp_all add: top_entry_def without_split_def blind_candidate_def Let_def)

lemma blind_candidate_call [simp]: "tc_call (blind_candidate c) = tc_call c"
  by (simp add: blind_candidate_def)

lemma blind_pick:
  "map without_split es = map without_split es' \<Longrightarrow>
   map without_split (pick_top e (blind s) viewer limit (map blind_candidate cs) seen per es) =
   map without_split (pick_top e s viewer limit cs seen per es')"
proof (induction cs arbitrary: seen per es es')
  case (Cons c cs)
  from Cons.prems have "length es = length es'" using map_eq_imp_length_eq by blast
  with Cons show ?case
    by (simp add: Let_def blind_entry split: option.split)
qed simp

lemma pick_top_mem:
  "t \<in> set (pick_top e s viewer limit cs seen per es) \<Longrightarrow> t \<in> set es \<or> (\<exists>c m p. c \<in> set cs \<and> t = top_entry s viewer c m p)"
proof (induction cs arbitrary: seen per es)
  case (Cons c cs)
  from Cons.prems obtain seen' per' es' where t: "t \<in> set es \<or> t \<in> set (pick_top e s viewer limit cs seen' per' es')"
    and es: "\<And>x. x \<in> set es' \<Longrightarrow> x \<in> set es \<or> (\<exists>m p. x = top_entry s viewer c m p)"
    by (auto simp: Let_def split: if_splits option.splits; fastforce)
  from t show ?case
  proof
    assume "t \<in> set (pick_top e s viewer limit cs seen' per' es')"
    from Cons.IH[OF this] es show ?thesis by (metis list.set_intros)
  qed simp
qed simp

text \<open>The strip of open calls never tells which way people went before the viewer has called. Were
  every back and fade in the store wiped of its direction, the strip would be the same, in the same
  order, but for the split on the markets where the viewer has a live call. And the split is there
  exactly on those.\<close>

theorem top_calls_gate:
  "map without_split (fst (topCalls e (blind s) limit viewer x)) = map without_split (fst (topCalls e s limit viewer x)) \<and>
   list_all (\<lambda>t. te_split t = None \<longleftrightarrow> \<not> te_viewerHasCalled t) (fst (topCalls e s limit viewer x))"
proof
  show "map without_split (fst (topCalls e (blind s) limit viewer x)) = map without_split (fst (topCalls e s limit viewer x))"
    unfolding topCalls_def blind_candidates fst_conv by (rule blind_pick) simp
  show "list_all (\<lambda>t. te_split t = None \<longleftrightarrow> \<not> te_viewerHasCalled t) (fst (topCalls e s limit viewer x))"
    using pick_top_mem[of _ e s viewer limit _ "[]" "[]" "[]"] by (fastforce simp: list_all_iff topCalls_def top_entry_def Let_def)
qed

text \<open>What is on the strip: only what the viewer can still answer, one call for a market, at most two
  for an author.\<close>

definition on_strip :: "people_env \<Rightarrow> calls_store \<Rightarrow> string option \<Rightarrow> string list option \<Rightarrow> call_row \<Rightarrow> bool" where
  "on_strip e s viewer x c \<longleftrightarrow> c \<in> set (liveCalls s) \<and> ca_visibility c = Public \<and> Some (ca_userId c) \<noteq> viewer \<and>
     \<not> hiddenBy x (ca_userId c) \<and> \<not> pv_isPrivate e (ca_id c) \<and> answerable e c"

lemma top_candidates_in: "c \<in> set (top_candidates e s viewer x) \<Longrightarrow> on_strip e s viewer x (tc_call c)"
  by (auto simp: top_candidates_def on_strip_def candidate_of_def Let_def)

definition strip_ok :: "top_call list \<Rightarrow> string list \<Rightarrow> (string, nat) jmap \<Rightarrow> bool" where
  "strip_ok es seen per \<longleftrightarrow> distinct (map (\<lambda>t. ca_marketId (te_call t)) es) \<and>
     (\<lambda>t. ca_marketId (te_call t)) ` set es \<subseteq> set seen \<and>
     (\<forall>u. length (filter (\<lambda>t. ca_userId (te_call t) = u) es) = (case jm_get per u of None \<Rightarrow> 0 | Some n \<Rightarrow> n) \<and>
          (case jm_get per u of None \<Rightarrow> 0 | Some n \<Rightarrow> n) \<le> 2)"

lemma pick_top_ok:
  assumes "strip_ok es seen per" "length es \<le> limit" "\<forall>c \<in> set cs. P (toCall (tc_call c))" "\<forall>t \<in> set es. P (te_call t)"
  shows "\<exists>seen' per'. strip_ok (pick_top e s viewer limit cs seen per es) seen' per' \<and>
    length (pick_top e s viewer limit cs seen per es) \<le> limit \<and>
    (\<forall>t \<in> set (pick_top e s viewer limit cs seen per es). P (te_call t))"
  using assms
proof (induction cs arbitrary: seen per es)
  case Nil
  then show ?case by auto
next
  case (Cons c cs)
  let ?k = "ca_marketId (tc_call c)" and ?u = "ca_userId (tc_call c)"
  let ?n = "case jm_get per ?u of None \<Rightarrow> 0 | Some n \<Rightarrow> n"
  consider "length es \<ge> limit" | "length es < limit" "?k \<in> set seen \<or> ?n \<ge> 2 \<or>
      rd_getMarket (pv_reader e) ?k = None \<or> jm_get (cs_people s) ?u = None"
    | m p where "length es < limit" "?k \<notin> set seen" "?n < 2" "rd_getMarket (pv_reader e) ?k = Some m" "jm_get (cs_people s) ?u = Some p"
    by force
  then show ?case
  proof cases
    case 1
    with Cons.prems show ?thesis by (auto simp: Let_def)
  next
    case 2
    then have "pick_top e s viewer limit (c # cs) seen per es = pick_top e s viewer limit cs seen per es"
      by (auto simp: Let_def split: option.split)
    with Cons show ?thesis by simp
  next
    case 3
    have ok: "strip_ok (es @ [top_entry s viewer c m p]) (set_add ?k seen) (jm_set ?u (?n + 1) per)"
      using Cons.prems(1) 3(2,3) unfolding strip_ok_def
      by (auto simp: top_entry_def toCall_def Let_def split: option.splits)
    have P: "\<forall>t \<in> set (es @ [top_entry s viewer c m p]). P (te_call t)"
      using Cons.prems(3,4) by (simp add: top_entry_def Let_def)
    have "pick_top e s viewer limit (c # cs) seen per es =
        pick_top e s viewer limit cs (set_add ?k seen) (jm_set ?u (?n + 1) per) (es @ [top_entry s viewer c m p])"
      using 3 by (simp add: Let_def)
    then show ?thesis using Cons.IH[OF ok _ _ P] 3(1) Cons.prems(3) by simp
  qed
qed

theorem top_calls_spread:
  "distinct (map (\<lambda>t. ca_marketId (te_call t)) (fst (topCalls e s limit viewer x))) \<and>
   length (fst (topCalls e s limit viewer x)) \<le> limit \<and>
   (\<forall>u. length (filter (\<lambda>t. ca_userId (te_call t) = u) (fst (topCalls e s limit viewer x))) \<le> 2) \<and>
   (\<forall>t \<in> set (fst (topCalls e s limit viewer x)). \<exists>c. te_call t = toCall c \<and> on_strip e s viewer x c)"
proof -
  have c: "\<forall>c \<in> set (top_candidates e s viewer x). \<exists>d. toCall (tc_call c) = toCall d \<and> on_strip e s viewer x d"
    using top_candidates_in by blast
  have "strip_ok [] [] []" by (simp add: strip_ok_def)
  from pick_top_ok[OF this _ c, of limit]
  obtain seen per where t: "strip_ok (fst (topCalls e s limit viewer x)) seen per"
    "length (fst (topCalls e s limit viewer x)) \<le> limit"
    "\<forall>t \<in> set (fst (topCalls e s limit viewer x)). \<exists>c. te_call t = toCall c \<and> on_strip e s viewer x c"
    unfolding topCalls_def fst_conv by (metis le0 list.size(3) empty_iff empty_set)
  from t show ?thesis by (auto simp: strip_ok_def)
qed

section \<open>Suggestions\<close>

text \<open>Someone who may be suggested: a stored person, not the viewer, not followed, blocked or deleted.\<close>

definition may_suggest :: "calls_store \<Rightarrow> string option \<Rightarrow> string list option \<Rightarrow> suggested_person \<Rightarrow> bool" where
  "may_suggest s viewer x g \<longleftrightarrow> \<not> left_out s viewer x (ps_id g) \<and>
     (\<exists>p. jm_get (cs_people s) (ps_id g) = Some p \<and> \<not> isDeletedAccount p)"

definition on_list :: "people_env \<Rightarrow> calls_store \<Rightarrow> suggested_person \<Rightarrow> bool" where
  "on_list e s g \<longleftrightarrow> (let c = pb_counts (publicRecord e s (ps_id g) None) in cc_decided c + cc_voided c + cc_pending c \<noteq> 0)"

lemma suggest_card_id [simp]: "ps_id (suggest_card e s viewer p reason) = pe_id p"
  by (simp add: suggest_card_def card_with_def summaryOf_def person_summary.defs person_card.defs)

lemma pick_friends_ok:
  assumes "people_ok s" "set seen = ps_id ` set friends" "distinct (map ps_id friends)" "\<forall>g \<in> set friends. may_suggest s viewer x g"
    and "length friends < max 1 limit" "pick_friends e s viewer x limit us seen friends = (seen', friends')"
  shows "set seen' = ps_id ` set friends' \<and> distinct (map ps_id friends') \<and> (\<forall>g \<in> set friends'. may_suggest s viewer x g) \<and>
    length friends' \<le> max 1 limit"
  using assms(2-)
proof (induction us arbitrary: seen friends)
  case Nil
  then show ?case by auto
next
  case (Cons u us)
  consider "u \<in> set seen \<or> left_out s viewer x u \<or> jm_get (cs_people s) u = None"
    | p where "jm_get (cs_people s) u = Some p" "isDeletedAccount p"
    | p where "u \<notin> set seen" "\<not> left_out s viewer x u" "jm_get (cs_people s) u = Some p" "\<not> isDeletedAccount p"
    by (cases "jm_get (cs_people s) u") auto
  then show ?case
  proof cases
    case 1
    then have "pick_friends e s viewer x limit (u # us) seen friends = pick_friends e s viewer x limit us seen friends"
      by (auto split: option.split)
    with Cons show ?thesis by simp
  next
    case 2
    then have "pick_friends e s viewer x limit (u # us) seen friends = pick_friends e s viewer x limit us seen friends"
      by simp
    with Cons show ?thesis by simp
  next
    case (3 p)
    define g where "g = suggest_card e s viewer p Friend_reason"
    have g: "ps_id g = u" using people_get[OF assms(1) 3(3)] by (simp add: g_def)
    have new: "set (set_add u seen) = ps_id ` set (friends @ [g])" "distinct (map ps_id (friends @ [g]))"
      "\<forall>h \<in> set (friends @ [g]). may_suggest s viewer x h"
      using Cons.prems(1-3) 3 g by (auto simp: may_suggest_def simp del: map_of_eq_Some_iff)
    have eq: "pick_friends e s viewer x limit (u # us) seen friends =
        (if length (friends @ [g]) \<ge> limit then (set_add u seen, friends @ [g])
         else pick_friends e s viewer x limit us (set_add u seen) (friends @ [g]))"
      using 3 by (simp add: Let_def g_def)
    show ?thesis
    proof (cases "length (friends @ [g]) \<ge> limit")
      case True
      with eq Cons.prems(5) have "seen' = set_add u seen" "friends' = friends @ [g]" by (simp_all split: if_splits)
      with new Cons.prems(4) show ?thesis by simp
    next
      case False
      with Cons.IH[OF new] Cons.prems(5) eq show ?thesis by simp
    qed
  qed
qed

lemma add_people_ok:
  assumes "people_ok s" "set seen = F \<union> ps_id ` set people" "distinct (map ps_id people)" "F \<inter> ps_id ` set people = {}"
    "\<forall>g \<in> set people. may_suggest s viewer x g \<and> on_list e s g" "length people \<le> limit"
    and "fold (add_person e s viewer x limit) urs (seen, people) = (seen', people')"
  shows "distinct (map ps_id people') \<and> F \<inter> ps_id ` set people' = {} \<and>
    (\<forall>g \<in> set people'. may_suggest s viewer x g \<and> on_list e s g) \<and> length people' \<le> limit"
  using assms(2-)
proof (induction urs arbitrary: seen people)
  case Nil
  then show ?case by auto
next
  case (Cons ur urs)
  obtain u reason where ur: "ur = (u, reason)" by (cases ur)
  have "add_person e s viewer x limit ur (seen, people) = (seen, people) \<or>
    (\<exists>p r. length people < limit \<and> u \<notin> set seen \<and> \<not> left_out s viewer x u \<and> jm_get (recordsByAuthor e s None) u = Some r \<and>
      cc_decided (pb_counts r) + cc_voided (pb_counts r) + cc_pending (pb_counts r) \<noteq> 0 \<and>
      jm_get (cs_people s) u = Some p \<and> \<not> isDeletedAccount p \<and>
      add_person e s viewer x limit ur (seen, people) = (set_add u seen, people @ [suggest_card e s viewer p reason]))"
    (is "?same \<or> ?new")
  proof (cases "jm_get (recordsByAuthor e s None) u")
    case None
    then show ?thesis by (simp add: ur add_person_def)
  next
    case r: (Some r)
    show ?thesis
    proof (cases "jm_get (cs_people s) u")
      case None
      with r show ?thesis by (simp add: ur add_person_def)
    next
      case p: (Some p)
      show ?thesis
      proof (cases "limit \<le> length people \<or> u \<in> set seen \<or> left_out s viewer x u \<or>
          cc_decided (pb_counts r) + cc_voided (pb_counts r) + cc_pending (pb_counts r) = 0 \<or> isDeletedAccount p")
        case True
        then have ?same unfolding ur add_person_def prod.case r p option.case by (simp only: if_cancel simp_thms split: if_split) blast
        then show ?thesis by (rule disjI1)
      next
        case False
        then have "add_person e s viewer x limit ur (seen, people) = (set_add u seen, people @ [suggest_card e s viewer p reason])"
          unfolding ur add_person_def prod.case r p option.case by (simp only: if_False de_Morgan_disj simp_thms)
        with False r p show ?thesis by (intro disjI2 exI[of _ p] exI[of _ r]) simp
      qed
    qed
  qed
  then show ?case
  proof (elim disjE exE conjE)
    assume "add_person e s viewer x limit ur (seen, people) = (seen, people)"
    with Cons.prems(6) have "fold (add_person e s viewer x limit) urs (seen, people) = (seen', people')"
      by (simp only: fold.simps comp_apply)
    from Cons.IH[OF Cons.prems(1-5) this] show ?thesis .
  next
    fix p r
    assume 2: "length people < limit" "u \<notin> set seen" "\<not> left_out s viewer x u" "jm_get (recordsByAuthor e s None) u = Some r"
      "cc_decided (pb_counts r) + cc_voided (pb_counts r) + cc_pending (pb_counts r) \<noteq> 0"
      "jm_get (cs_people s) u = Some p" "\<not> isDeletedAccount p"
      "add_person e s viewer x limit ur (seen, people) = (set_add u seen, people @ [suggest_card e s viewer p reason])"
    define g where "g = suggest_card e s viewer p reason"
    have g: "ps_id g = u" using people_get[OF assms(1) 2(6)] by (simp add: g_def)
    have "r = publicRecord e s u None" using 2(4) by (simp add: recordsByAuthor_get split: if_splits)
    with 2(5) g have l: "on_list e s g" by (simp add: on_list_def)
    have "set (set_add u seen) = F \<union> ps_id ` set (people @ [g])" "distinct (map ps_id (people @ [g]))"
      "F \<inter> ps_id ` set (people @ [g]) = {}" "\<forall>h \<in> set (people @ [g]). may_suggest s viewer x h \<and> on_list e s h"
      "length (people @ [g]) \<le> limit"
      using Cons.prems(1-5) 2(1-3,6,7) g l by (auto simp: may_suggest_def simp del: map_of_eq_Some_iff)
    note new = this
    from Cons.prems(6) 2(8) have "fold (add_person e s viewer x limit) urs (set_add u seen, people @ [g]) = (seen', people')"
      by (simp only: fold.simps comp_apply g_def)
    from Cons.IH[OF new this] show ?thesis .
  qed
qed

text \<open>Who is suggested to follow: nobody twice, never the viewer, never someone already followed,
  blocked, muted or deleted, and on the list of people only those with a public free call; the
  list keeps to its limit. (The friends keep to theirs from one on: a limit of zero still gives one.)\<close>

theorem suggestions_sound:
  assumes "people_ok s" "suggested e s limit friendIds viewer x = (friends, people, now)"
  shows "distinct (map ps_id friends @ map ps_id people) \<and>
    (\<forall>g \<in> set (friends @ people). Some (ps_id g) \<noteq> viewer \<and> \<not> hiddenBy x (ps_id g) \<and>
       (\<forall>v. viewer = Some v \<longrightarrow> \<not> isFollowing v (ps_id g) s) \<and>
       (\<exists>p. jm_get (cs_people s) (ps_id g) = Some p \<and> \<not> isDeletedAccount p)) \<and>
    (\<forall>g \<in> set people. \<exists>c \<in> set (listCalls s). ca_userId c = ps_id g \<and> onRecord e c) \<and>
    length people \<le> limit \<and> length friends \<le> max 1 limit"
proof -
  obtain seen where f: "(case viewer of None \<Rightarrow> ([], []) | Some _ \<Rightarrow> pick_friends e s viewer x limit friendIds [] []) = (seen, friends)"
    and p: "\<exists>seen'. fold (add_person e s viewer x limit) (suggestion_order e s x) (seen, []) = (seen', people)"
    using assms(2) by (auto simp: suggested_def Let_def split: prod.splits)
  have F: "set seen = ps_id ` set friends \<and> distinct (map ps_id friends) \<and> (\<forall>g \<in> set friends. may_suggest s viewer x g) \<and>
    length friends \<le> max 1 limit"
  proof (cases viewer)
    case None
    with f show ?thesis by simp
  next
    case (Some v)
    with f pick_friends_ok[OF assms(1), of "[]" "[]" viewer x limit e friendIds seen friends] show ?thesis by simp
  qed
  have P: "distinct (map ps_id people) \<and> ps_id ` set friends \<inter> ps_id ` set people = {} \<and>
    (\<forall>g \<in> set people. may_suggest s viewer x g \<and> on_list e s g) \<and> length people \<le> limit"
    using p add_people_ok[OF assms(1), of seen "ps_id ` set friends" "[]" viewer x e limit] F by fastforce
  have call: "\<exists>c \<in> set (listCalls s). ca_userId c = ps_id g \<and> onRecord e c" if "on_list e s g" for g
  proof -
    have "counted e s None (ps_id g) o1 \<noteq> 0 \<Longrightarrow> ?thesis" for o1
      by (auto simp: counted_def filter_empty_conv)
    moreover have "\<exists>o1. counted e s None (ps_id g) o1 \<noteq> 0"
      using that by (rule contrapos_pp) (simp add: on_list_def Let_def publicRecord_counts)
    ultimately show ?thesis by blast
  qed
  have m: "Some (ps_id g) \<noteq> viewer \<and> \<not> hiddenBy x (ps_id g) \<and> (\<forall>v. viewer = Some v \<longrightarrow> \<not> isFollowing v (ps_id g) s) \<and>
       (\<exists>p. jm_get (cs_people s) (ps_id g) = Some p \<and> \<not> isDeletedAccount p)" if "may_suggest s viewer x g" for g
    using that by (auto simp: may_suggest_def left_out_def simp del: map_of_eq_Some_iff)
  have "\<forall>g \<in> set (friends @ people). may_suggest s viewer x g" using F P by auto
  then have "\<forall>g \<in> set (friends @ people). Some (ps_id g) \<noteq> viewer \<and> \<not> hiddenBy x (ps_id g) \<and>
       (\<forall>v. viewer = Some v \<longrightarrow> \<not> isFollowing v (ps_id g) s) \<and>
       (\<exists>p. jm_get (cs_people s) (ps_id g) = Some p \<and> \<not> isDeletedAccount p)" using m by blast
  moreover have "\<forall>g \<in> set people. \<exists>c \<in> set (listCalls s). ca_userId c = ps_id g \<and> onRecord e c"
    using P call by blast
  moreover have "distinct (map ps_id friends @ map ps_id people)" using F P by simp
  ultimately show ?thesis using F P by blast
qed

theorem suggestions_sound_witness:
  "\<exists>friends people. suggested sample_env sample_directory 3 [''ann'', ''bob''] (Some ''ann'') None = (friends, people, 200) \<and>
     map ps_id friends = [''bob''] \<and> people = []"
proof -
  obtain friends people now where s: "suggested sample_env sample_directory 3 [''ann'', ''bob''] (Some ''ann'') None = (friends, people, now)"
    by (cases "suggested sample_env sample_directory 3 [''ann'', ''bob''] (Some ''ann'') None")
  have "map ps_id (snd (pick_friends sample_env sample_directory (Some ''ann'') None 3 [''ann'', ''bob''] [] [])) = [''bob'']"
    by code_simp
  with s have f: "map ps_id friends = [''bob'']" by (simp add: suggested_def Let_def split: prod.splits)
  have c: "set (map ca_userId (listCalls sample_directory)) = {''ann'', ''bob''}" by code_simp
  note h = suggestions_sound[OF sample_directory_ok s]
  have d: "distinct (map ps_id friends @ map ps_id people)" using h by (rule conjunct1)
  have m: "\<forall>g \<in> set (friends @ people). Some (ps_id g) \<noteq> Some ''ann''" using conjunct1[OF conjunct2[OF h]] by fast
  have k: "\<forall>g \<in> set people. ps_id g \<in> set (map ca_userId (listCalls sample_directory))"
    using conjunct1[OF conjunct2[OF conjunct2[OF h]]] by force
  have "g \<notin> set people" for g
  proof
    assume g: "g \<in> set people"
    with m have "ps_id g \<noteq> ''ann''" by simp
    moreover from d f have "''bob'' \<notin> set (map ps_id people)" by simp
    then have "ps_id g \<noteq> ''bob''" using g by (metis image_eqI set_map)
    moreover have "ps_id g \<in> {''ann'', ''bob''}" using k g unfolding c by blast
    ultimately show False by simp
  qed
  then have "people = []" by (cases people) auto
  moreover have "now = 200" using s by (simp add: suggested_def Let_def sample_env_def split: prod.splits)
  ultimately show ?thesis using s f by auto
qed

end
