(* ===== verification/SocialCalls.thy ===== *)
theory SocialCalls
  imports People
begin

text \<open>
  The service of the social calls (\<open>src/calls/CallsService.ts\<close>): the feed and its cursor, the open
  markets, one market with its gated crowd split, one call, a person, following, making a call,
  answering one, withdrawing one, and the calls that money funds. The surroundings are the reader
  of markets, which calls are still private, which are funded, and the clock, read once in a
  request. Generated ids are arguments. The state is the store of calls and the list of receipts
  handed on (\<open>recordMade\<close>), in their order.
\<close>

section \<open>Surroundings\<close>

datatype money_state = Pending_money | Expired_money | Free_money | Funded_money

record owner_view =
  ov_state :: money_state
  ov_amountBaseUnits :: string
  ov_side :: side
  ov_expiresAt :: int

record money_visibility =
  mv_isPrivate :: "string \<Rightarrow> bool"
  mv_ownerView :: "string \<Rightarrow> owner_view option"

record call_funding =
  fn_fundedAt :: int
  fn_amountBaseUnits :: "string option"
  fn_side :: "side option"

definition FUNDED_MIN_BASE_UNITS :: nat where
  "FUNDED_MIN_BASE_UNITS = 1000000"

text \<open>\<open>countsAsFunded\<close>: the fills sum to at least one dollar.\<close>

definition countsAsFunded :: "call_funding option \<Rightarrow> bool" where
  "countsAsFunded f \<longleftrightarrow>
     (case f of None \<Rightarrow> False
      | Some c \<Rightarrow> (case fn_amountBaseUnits c of None \<Rightarrow> False
          | Some a \<Rightarrow> a \<noteq> [] \<and> (case parse_digits 0 a of None \<Rightarrow> False | Some n \<Rightarrow> FUNDED_MIN_BASE_UNITS \<le> n)))"

record calls_env =
  ce_now :: int
  ce_reader :: market_reader
  ce_callCutoffMs :: int
  ce_allowPantaCalls :: bool
  ce_maxPageSize :: int
  ce_updatesAvailable :: bool
  ce_money :: "money_visibility option"
  ce_funding :: "string \<Rightarrow> call_funding option"
  ce_moneyFor :: "string option \<Rightarrow> bool"
  ce_parses :: "share_price \<Rightarrow> bool"
  ce_coll :: collation
  ce_root :: "num \<Rightarrow> num"

definition isPrivate :: "calls_env \<Rightarrow> string \<Rightarrow> bool" where
  "isPrivate e k \<longleftrightarrow> (case ce_money e of None \<Rightarrow> False | Some m \<Rightarrow> mv_isPrivate m k)"

text \<open>Without money calls nobody is shown money.\<close>

definition moneyFor :: "calls_env \<Rightarrow> string option \<Rightarrow> bool" where
  "moneyFor e viewer \<longleftrightarrow> ce_money e \<noteq> None \<and> ce_moneyFor e viewer"

definition people_env_of :: "calls_env \<Rightarrow> people_env" where
  "people_env_of e = \<lparr>pv_now = ce_now e, pv_reader = ce_reader e, pv_callCutoffMs = max 0 (ce_callCutoffMs e),
     pv_isPrivate = isPrivate e,
     pv_isFunded = (case ce_money e of None \<Rightarrow> None | Some _ \<Rightarrow> Some (\<lambda>k. countsAsFunded (ce_funding e k))),
     pv_showsMoney = (\<lambda>v. case ce_money e of None \<Rightarrow> True | Some _ \<Rightarrow> moneyFor e v),
     pv_coll = ce_coll e, pv_root = ce_root e\<rparr>"

definition cutoff :: "calls_env \<Rightarrow> int" where
  "cutoff e = max 0 (ce_callCutoffMs e)"

record social_state =
  so_store :: calls_store
  so_made :: "(call_row \<times> venue_market) list"

type_synonym 'a social = "(calls_thrown + 'a) \<times> social_state"

definition refuse :: "calls_error \<Rightarrow> social_state \<Rightarrow> 'a social" where
  "refuse c s = (Inl (Calls_error c), s)"

text \<open>A call of the store from the service, and what follows it.\<close>

definition on_store :: "(calls_store \<Rightarrow> 'a called) \<Rightarrow> social_state \<Rightarrow> 'a social" where
  "on_store f s = (case f (so_store s) of (r, t) \<Rightarrow> (r, s\<lparr>so_store := t\<rparr>))"

definition and_then :: "'a social \<Rightarrow> ('a \<Rightarrow> social_state \<Rightarrow> 'b social) \<Rightarrow> 'b social" where
  "and_then p f = (case p of (Inl e, s) \<Rightarrow> (Inl e, s) | (Inr a, s) \<Rightarrow> f a s)"

section \<open>Who sees what\<close>

definition canSee :: "calls_env \<Rightarrow> calls_store \<Rightarrow> call_row \<Rightarrow> string option \<Rightarrow> bool" where
  "canSee e s c viewer \<longleftrightarrow>
     (if Some (ca_userId c) = viewer then True
      else if ca_hiddenAt c \<noteq> None then False
      else if isPrivate e (ca_id c) then False
      else if ca_visibility c = Public then True
      else (case viewer of None \<Rightarrow> False | Some v \<Rightarrow> v \<noteq> [] \<and> isFollowing v (ca_userId c) s))"

definition requireVisibleCall :: "calls_env \<Rightarrow> calls_store \<Rightarrow> string \<Rightarrow> string option \<Rightarrow> calls_thrown + call_row" where
  "requireVisibleCall e s k viewer =
     (case getCall k s of
        None \<Rightarrow> Inl (Calls_error CALL_NOT_FOUND)
      | Some c \<Rightarrow> if canSee e s c viewer then Inr c else Inl (Calls_error CALL_NOT_VISIBLE))"

definition requireMarket :: "calls_env \<Rightarrow> string \<Rightarrow> calls_thrown + venue_market" where
  "requireMarket e k = (case rd_getMarket (ce_reader e) k of None \<Rightarrow> Inl (Calls_error CALL_MARKET_UNKNOWN) | Some m \<Rightarrow> Inr m)"

definition resolvePerson :: "calls_store \<Rightarrow> string \<Rightarrow> calls_thrown + person" where
  "resolvePerson s ref =
     (case jm_get (cs_people s) ref of
        Some p \<Rightarrow> Inr p
      | None \<Rightarrow> (case getPersonByHandle ref s of Some p \<Rightarrow> Inr p | None \<Rightarrow> Inl (Calls_error PERSON_NOT_FOUND)))"

section \<open>Entries\<close>

record feed_entry =
  fe_call :: call_row
  fe_author :: person
  fe_market :: venue_market
  fe_result :: "result_row option"
  fe_backCount :: nat
  fe_fadeCount :: nat
  fe_viewerHasCalled :: bool
  fe_funding :: "call_funding option"
  fe_money :: "owner_view option"

definition decorate :: "calls_store \<Rightarrow> person \<Rightarrow> person" where
  "decorate s p =
     (let (settled, correct) = accuracyOf (List.map_filter (\<lambda>c. getResult (ca_id c) s) (callsByAuthor (pe_id p) s))
      in p\<lparr>pe_settledCalls := settled, pe_correctCalls := correct\<rparr>)"

definition unknownMarket :: "string \<Rightarrow> venue_market" where
  "unknownMarket k = \<lparr>vm_id = k, vm_venue = V_fixture, vm_venueMarketId = [],
     vm_question = ''This market is no longer available.'', vm_rulesText = [], vm_category = [],
     vm_outcomes = [(YES, ''Yes''), (NO, ''No'')], vm_status = M_PAUSED, vm_rawStatus = ''unavailable'',
     vm_opensAt = None, vm_closesAt = None, vm_resolvesAt = None, vm_resolutionSource = None,
     vm_lastSyncedAt = 0, vm_payloadVersion = 0\<rparr>"

definition unknown_person :: "string \<Rightarrow> person" where
  "unknown_person u = \<lparr>pe_id = u, pe_handle = u, pe_displayName = u, pe_avatarUrl = None, pe_avatarId = None,
     pe_walletAddress = None, pe_settledCalls = 0, pe_correctCalls = 0, pe_bio = None, pe_joinedAt = None\<rparr>"

text \<open>The amount and side of a funded call only where money shows and the fills reach a dollar.\<close>

definition funded_marker :: "call_funding option \<Rightarrow> bool \<Rightarrow> call_funding option" where
  "funded_marker f withAmount =
     (case f of None \<Rightarrow> None
      | Some c \<Rightarrow> if withAmount \<and> countsAsFunded f then Some c
                  else Some (c\<lparr>fn_amountBaseUnits := None, fn_side := None\<rparr>))"

definition has_called :: "calls_store \<Rightarrow> string option \<Rightarrow> string \<Rightarrow> bool" where
  "has_called s viewer m = (case viewer of None \<Rightarrow> False
     | Some v \<Rightarrow> if v = [] then False else liveCallByUserOnMarket v m s \<noteq> None)"

definition entryOf :: "calls_env \<Rightarrow> calls_store \<Rightarrow> call_row \<Rightarrow> string option \<Rightarrow> feed_entry" where
  "entryOf e s c viewer =
     (let rs = responsesForTarget (ca_id c) s;
          author = (case jm_get (cs_people s) (ca_userId c) of None \<Rightarrow> unknown_person (ca_userId c) | Some p \<Rightarrow> p)
      in \<lparr>fe_call = toCall c, fe_author = decorate s author,
          fe_market = (case rd_getMarket (ce_reader e) (ca_marketId c) of None \<Rightarrow> unknownMarket (ca_marketId c) | Some m \<Rightarrow> m),
          fe_result = getResult (ca_id c) s,
          fe_backCount = length (filter (\<lambda>r. rs_kind r = Back) rs),
          fe_fadeCount = length (filter (\<lambda>r. rs_kind r = Fade) rs),
          fe_viewerHasCalled = has_called s viewer (ca_marketId c),
          fe_funding = funded_marker (ce_funding e (ca_id c)) (moneyFor e viewer),
          fe_money = (case ce_money e of None \<Rightarrow> None
             | Some m \<Rightarrow> if viewer = Some (ca_userId c) \<and> moneyFor e viewer then mv_ownerView m (ca_id c) else None)\<rparr>)"

section \<open>The feed\<close>

datatype feed_mode = Global_feed | Following_feed

definition page_clamp :: "int \<Rightarrow> int \<Rightarrow> int \<Rightarrow> int" where
  "page_clamp n lo hi = max lo (min hi n)"

definition newestFirst :: "collation \<Rightarrow> call_row \<Rightarrow> call_row \<Rightarrow> int" where
  "newestFirst coll a b = or_else (ca_lockedAt b - ca_lockedAt a) (coll (ca_id b) (ca_id a))"

definition fundedFirst :: "calls_env \<Rightarrow> call_row \<Rightarrow> call_row \<Rightarrow> int" where
  "fundedFirst e a b =
     or_else ((if countsAsFunded (ce_funding e (ca_id b)) then 1 else 0) - (if countsAsFunded (ce_funding e (ca_id a)) then 1 else 0))
       (newestFirst (ce_coll e) a b)"

definition encodeCursor :: "call_row \<Rightarrow> string" where
  "encodeCursor c = base64url (int_str (ca_lockedAt c) @ '':'' @ ca_id c)"

definition decodeCursor :: "string option \<Rightarrow> (num \<times> string) option" where
  "decodeCursor cursor =
     (if \<not> truthy cursor then None
      else
        (let raw = from_base64url (the cursor); a = takeWhile (\<lambda>c. c \<noteq> CHR '':'') raw; r = dropWhile (\<lambda>c. c \<noteq> CHR '':'') raw
         in if r = [] \<or> a = [] then None
            else (case js_number a of None \<Rightarrow> None | Some t \<Rightarrow> Some (t, tl r))))"

record feed_page =
  fp_entries :: "feed_entry list"
  fp_nextCursor :: "string option"
  fp_servedAt :: int

definition feed_rows :: "calls_env \<Rightarrow> calls_store \<Rightarrow> feed_mode \<Rightarrow> string option \<Rightarrow> string list option \<Rightarrow> call_row list" where
  "feed_rows e s mode viewer excluded =
     (let follows = (if mode = Following_feed \<and> truthy viewer then Some (followingOf (the viewer) s) else None)
      in sort_by (newestFirst (ce_coll e))
           (filter (\<lambda>c. case follows of None \<Rightarrow> True | Some us \<Rightarrow> ca_userId c \<in> set us)
             (filter (\<lambda>c. \<not> hiddenBy excluded (ca_userId c))
               (filter (\<lambda>c. canSee e s c viewer) (liveCalls s)))))"

text \<open>\<open>findIndex\<close> answers the length here where the source answers -1.\<close>

fun index_from :: "nat \<Rightarrow> (call_row \<Rightarrow> bool) \<Rightarrow> call_row list \<Rightarrow> nat option" where
  "index_from i P [] = None"
| "index_from i P (x # xs) = (if P x then Some i else index_from (i + 1) P xs)"

definition page_start :: "call_row list \<Rightarrow> (num \<times> string) option \<Rightarrow> nat" where
  "page_start rows after =
     (case after of None \<Rightarrow> 0
      | Some (t, k) \<Rightarrow> (case index_from 0 (\<lambda>c. of_int (ca_lockedAt c) = t \<and> ca_id c = k) rows of None \<Rightarrow> 0 | Some i \<Rightarrow> i + 1))"

definition feed :: "calls_env \<Rightarrow> calls_store \<Rightarrow> feed_mode \<Rightarrow> string option \<Rightarrow> int option \<Rightarrow> string option \<Rightarrow> string list option
    \<Rightarrow> feed_page" where
  "feed e s mode cursor limit viewer excluded =
     (let limit = nat (page_clamp (case limit of None \<Rightarrow> 20 | Some n \<Rightarrow> n) 1 (ce_maxPageSize e));
          rows = feed_rows e s mode viewer excluded;
          start = page_start rows (decodeCursor cursor);
          page = take limit (drop start rows)
      in \<lparr>fp_entries = map (\<lambda>c. entryOf e s c viewer) page,
          fp_nextCursor = (if length rows > start + limit \<and> page \<noteq> [] then Some (encodeCursor (last page)) else None),
          fp_servedAt = ce_now e\<rparr>)"

section \<open>Markets\<close>

definition MAX_SAFE :: int where
  "MAX_SAFE = 9007199254740991"

definition openMarkets :: "calls_env \<Rightarrow> string option \<Rightarrow> venue_market list" where
  "openMarkets e category =
     sort_by (\<lambda>a b. (case vm_closesAt a of None \<Rightarrow> MAX_SAFE | Some t \<Rightarrow> t) - (case vm_closesAt b of None \<Rightarrow> MAX_SAFE | Some t \<Rightarrow> t))
       (filter (\<lambda>m. if truthy category then vm_category m = the category else True)
         (filter (\<lambda>m. if vm_venue m = V_panta
             then ce_allowPantaCalls e \<and> usableSharePrice (rd_latestSharePrice (ce_reader e) (vm_id m)) (ce_now e)
             else rd_latestSnapshot (ce_reader e) (vm_id m) \<noteq> None)
           (filter (\<lambda>m. rd_getResolution (ce_reader e) (vm_id m) = None)
             (filter (\<lambda>m. acceptsNewCalls m (ce_now e) (cutoff e)) (rd_listMarkets (ce_reader e))))))"

definition crowdSplitOf :: "calls_env \<Rightarrow> calls_store \<Rightarrow> string \<Rightarrow> string \<times> nat \<times> nat" where
  "crowdSplitOf e s m =
     (let cs = filter (\<lambda>c. \<not> isPrivate e (ca_id c)) (liveCallsOnMarket m s)
      in (m, length (filter (\<lambda>c. ca_side c = YES) cs), length (filter (\<lambda>c. ca_side c \<noteq> YES) cs)))"

record market_detail =
  md_market :: venue_market
  md_snapshot :: "market_snapshot option"
  md_sharePrice :: "share_price option"
  md_viewerCall :: "feed_entry option"
  md_crowdSplit :: "(string \<times> nat \<times> nat) option"
  md_callsCloseAt :: "int option"
  md_callCutoffMs :: int
  md_servedAt :: int

definition marketDetail :: "calls_env \<Rightarrow> calls_store \<Rightarrow> string \<Rightarrow> string option \<Rightarrow> calls_thrown + market_detail" where
  "marketDetail e s k viewer =
     (case requireMarket e k of
        Inl x \<Rightarrow> Inl x
      | Inr m \<Rightarrow>
          (let viewerCall = (if truthy viewer then liveCallByUserOnMarket (the viewer) (vm_id m) s else None)
           in Inr \<lparr>md_market = m,
                md_snapshot = (if vm_venue m = V_panta then None else rd_latestSnapshot (ce_reader e) (vm_id m)),
                md_sharePrice = (if vm_venue m = V_panta then rd_latestSharePrice (ce_reader e) (vm_id m) else None),
                md_viewerCall = map_option (\<lambda>c. entryOf e s c viewer) viewerCall,
                md_crowdSplit = (case viewerCall of None \<Rightarrow> None
                   | Some c \<Rightarrow> if isPrivate e (ca_id c) then None else Some (crowdSplitOf e s (vm_id m))),
                md_callsCloseAt = callsCloseAt m (cutoff e), md_callCutoffMs = cutoff e, md_servedAt = ce_now e\<rparr>))"

section \<open>One call, one person\<close>

record call_detail =
  dt_entry :: feed_entry
  dt_parent :: "feed_entry option"
  dt_responses :: "response_row list"
  dt_updates :: "thesis_update list"
  dt_updatesAvailable :: bool

text \<open>A response as it goes out has no note.\<close>

definition toCallResponse :: "response_row \<Rightarrow> response_row" where
  "toCallResponse r = r\<lparr>rs_note := None\<rparr>"

definition callDetail :: "calls_env \<Rightarrow> calls_store \<Rightarrow> string \<Rightarrow> string option \<Rightarrow> string list option \<Rightarrow> calls_thrown + call_detail" where
  "callDetail e s k viewer excluded =
     (case requireVisibleCall e s k viewer of
        Inl x \<Rightarrow> Inl x
      | Inr c \<Rightarrow>
          (let parent = (if truthy (ca_parentCallId c) then getCall (the (ca_parentCallId c)) s else None);
               authorHidden = hiddenBy excluded (ca_userId c)
           in Inr \<lparr>dt_entry = entryOf e s c viewer,
                dt_parent = (case parent of None \<Rightarrow> None
                   | Some p \<Rightarrow> if canSee e s p viewer then Some (entryOf e s p viewer) else None),
                dt_responses = map toCallResponse (sort_by (\<lambda>a b. rs_createdAt a - rs_createdAt b)
                   (filter (\<lambda>r. \<not> hiddenBy excluded (rs_actorUserId r)) (responsesForTarget (ca_id c) s))),
                dt_updates = (if authorHidden then [] else thesisUpdatesFor (ce_coll e) (ca_id c) s),
                dt_updatesAvailable = (\<not> authorHidden \<and> ce_updatesAvailable e \<and> ca_hiddenAt c = None)\<rparr>))"

record person_detail =
  pd_person :: person
  pd_calls :: "feed_entry list"
  pd_viewerIsFollowing :: bool
  pd_servedAt :: int
  pd_followerCount :: nat
  pd_followingCount :: nat
  pd_record :: public_record

definition person_calls :: "calls_env \<Rightarrow> calls_store \<Rightarrow> string \<Rightarrow> string option \<Rightarrow> call_row list" where
  "person_calls e s u viewer =
     sort_by (if moneyFor e viewer then fundedFirst e else newestFirst (ce_coll e))
       (filter (\<lambda>c. canSee e s c viewer) (filter (\<lambda>c. ca_hiddenAt c = None) (callsByAuthor u s)))"

definition getPersonDetail :: "calls_env \<Rightarrow> calls_store \<Rightarrow> string \<Rightarrow> string option \<Rightarrow> calls_thrown + person_detail" where
  "getPersonDetail e s ref viewer =
     (case resolvePerson s ref of
        Inl x \<Rightarrow> Inl x
      | Inr p \<Rightarrow> Inr \<lparr>pd_person = decorate s p,
          pd_calls = map (\<lambda>c. entryOf e s c viewer) (person_calls e s (pe_id p) viewer),
          pd_viewerIsFollowing = (case viewer of None \<Rightarrow> False | Some v \<Rightarrow> v \<noteq> pe_id p \<and> isFollowing v (pe_id p) s),
          pd_servedAt = ce_now e,
          pd_followerCount = length (followersOf (pe_id p) s), pd_followingCount = length (followingOf (pe_id p) s),
          pd_record = publicRecord (people_env_of e) s (pe_id p) None\<rparr>)"

text \<open>The people lists, with the service's bounds on their length.\<close>

definition service_leaderboard :: "calls_env \<Rightarrow> calls_store \<Rightarrow> board_window \<Rightarrow> int option \<Rightarrow> string option \<Rightarrow> string list option
    \<Rightarrow> leaderboard" where
  "service_leaderboard e s w limit = leaderboard_of (people_env_of e) s w (nat (page_clamp (case limit of None \<Rightarrow> 50 | Some n \<Rightarrow> n) 1 100))"

definition service_search :: "calls_env \<Rightarrow> calls_store \<Rightarrow> string \<Rightarrow> int option \<Rightarrow> string option \<Rightarrow> string list option
    \<Rightarrow> string \<times> person_card list \<times> int" where
  "service_search e s raw limit = searchPeople (people_env_of e) s raw (nat (page_clamp (case limit of None \<Rightarrow> 20 | Some n \<Rightarrow> n) 1 50))"

definition service_suggested :: "calls_env \<Rightarrow> calls_store \<Rightarrow> int option \<Rightarrow> string list option \<Rightarrow> string option \<Rightarrow> string list option
    \<Rightarrow> suggested_person list \<times> suggested_person list \<times> int" where
  "service_suggested e s limit friendIds =
     suggested (people_env_of e) s (nat (page_clamp (case limit of None \<Rightarrow> 10 | Some n \<Rightarrow> n) 1 20)) (case friendIds of None \<Rightarrow> [] | Some us \<Rightarrow> us)"

definition service_topCalls :: "calls_env \<Rightarrow> calls_store \<Rightarrow> int option \<Rightarrow> string option \<Rightarrow> string list option \<Rightarrow> top_call list \<times> int" where
  "service_topCalls e s limit = topCalls (people_env_of e) s (nat (page_clamp (case limit of None \<Rightarrow> 10 | Some n \<Rightarrow> n) 1 20))"

end
