(* ===== verification/CallActions.thy ===== *)
theory CallActions
  imports SocialCalls
begin

text \<open>
  What the service of the social calls changes (\<open>src/calls/CallsService.ts\<close>): a thesis update,
  following, making a call, answering one (back, fade, challenge), withdrawing one, and the calls
  money will fund: planned, locked, published, withdrawn, replaced by a free one and restored.
  Each operation answers a result or what it throws, with the state it leaves either way. The
  lemmas show that whatever the service does is a run of store operations, so all that holds of
  the store's history holds here; that a person keeps one live call on a market; what a back, a
  fade and a challenge leave behind; and where a refusal is not the whole story.
\<close>

section \<open>Small checks\<close>

definition THESIS_MAX :: nat where
  "THESIS_MAX = 280"

definition MONEY_CALL_EXPIRED_REASON :: string where
  "MONEY_CALL_EXPIRED_REASON = ''money_call_expired''"

definition MONEY_CALL_KEPT_FREE_REASON :: string where
  "MONEY_CALL_KEPT_FREE_REASON = ''money_call_kept_free''"

fun opposite :: "side \<Rightarrow> side" where
  "opposite YES = NO"
| "opposite NO = YES"

definition trimOrNull :: "string option \<Rightarrow> nat \<Rightarrow> calls_thrown + string option" where
  "trimOrNull t n =
     (case t of None \<Rightarrow> Inr None
      | Some x \<Rightarrow> (let y = js_trim x
          in if y = [] then Inr None else if length y > n then Inl (Calls_error CALL_INVALID) else Inr (Some y)))"

definition snapshotIdOf :: "string \<Rightarrow> int \<Rightarrow> price_source \<Rightarrow> string" where
  "snapshotIdOf m at0 src = ''snap:'' @ m @ '':'' @ int_str at0 @ '':'' @ (case src of Src_venue \<Rightarrow> ''venue'' | Src_fixture \<Rightarrow> ''fixture'')"

definition assertBeforeCutoff :: "calls_env \<Rightarrow> venue_market \<Rightarrow> calls_error option" where
  "assertBeforeCutoff e m =
     (case (vm_closesAt m, callsCloseAt m (cutoff e)) of
        (Some t, Some c) \<Rightarrow>
          if cutoff e > 0 \<and> vm_status m = M_OPEN \<and> t > ce_now e \<and> c \<le> ce_now e then Some CALL_MARKET_CLOSED else None
      | _ \<Rightarrow> None)"

definition assertCurrentVenue :: "venue_market \<Rightarrow> calls_error option" where
  "assertCurrentVenue m = (if vm_venue m \<noteq> V_panta \<and> vm_venue m \<noteq> V_fixture then Some CALL_INVALID else None)"

text \<open>The checks every new call on a market passes, in the order of the code.\<close>

definition market_refuses :: "calls_env \<Rightarrow> venue_market \<Rightarrow> calls_error option" where
  "market_refuses e m =
     (case assertCurrentVenue m of
        Some c \<Rightarrow> Some c
      | None \<Rightarrow>
          if vm_venue m = V_panta \<and> \<not> ce_allowPantaCalls e then Some CALL_INVALID
          else (case assertBeforeCutoff e m of
             Some c \<Rightarrow> Some c
           | None \<Rightarrow>
               if \<not> acceptsNewCalls m (ce_now e) (cutoff e) \<or> rd_getResolution (ce_reader e) (vm_id m) \<noteq> None
               then Some CALL_MARKET_CLOSED else None))"

definition panta_closed :: "calls_env \<Rightarrow> venue_market \<Rightarrow> calls_error option" where
  "panta_closed e m =
     (case assertCurrentVenue m of
        Some c \<Rightarrow> Some c
      | None \<Rightarrow> if vm_venue m = V_panta \<and> \<not> ce_allowPantaCalls e then Some CALL_INVALID else None)"

section \<open>The money-free check\<close>

definition money_words :: "string list" where
  "money_words = [''amount'', ''stake'', ''escrow'', ''wager'', ''payout'', ''price'', ''fee'', ''lamport'', ''baseunits'',
     ''units'', ''currency'', ''token'', ''signature'', ''tx'', ''txn'', ''transaction'', ''balance'', ''collateral'', ''deposit'']"

definition money_key :: "string \<Rightarrow> bool" where
  "money_key k \<longleftrightarrow> list_ex (\<lambda>w. js_includes w (js_lower k)) money_words"

text \<open>A payload: texts and other plain values, lists, and fields by name.\<close>

datatype payload = Plain | Items "payload list" | Fields "(string \<times> payload) list"

fun assertMoneyFree :: "payload \<Rightarrow> bool" where
  "assertMoneyFree Plain = True"
| "assertMoneyFree (Items vs) = list_all assertMoneyFree vs"
| "assertMoneyFree (Fields kvs) = list_all (\<lambda>kv. \<not> money_key (fst kv) \<and> assertMoneyFree (snd kv)) kvs"

record invitation =
  iv_id :: string
  iv_fromUserId :: string
  iv_toUserId :: string
  iv_marketId :: string
  iv_sourceCallId :: string
  iv_responseId :: string
  iv_note :: "string option"
  iv_createdAt :: int

text \<open>An invitation as the check reads it: its field names over plain values.\<close>

definition invitation_payload :: "invitation \<Rightarrow> payload" where
  "invitation_payload i = Fields (map (\<lambda>k. (k, Plain)) [''id'', ''fromUserId'', ''toUserId'', ''marketId'',
     ''sourceCallId'', ''responseId'', ''note'', ''createdAt''])"

section \<open>Updates and following\<close>

definition appendThesisUpdate :: "calls_env \<Rightarrow> string \<Rightarrow> string \<Rightarrow> string \<Rightarrow> string \<Rightarrow> social_state \<Rightarrow> thesis_update social" where
  "appendThesisUpdate e newId k body actor s =
     (case requireVisibleCall e (so_store s) k (Some actor) of
        Inl x \<Rightarrow> (Inl x, s)
      | Inr c \<Rightarrow>
          if ca_userId c \<noteq> actor then refuse THESIS_NOT_AUTHOR s
          else if ca_hiddenAt c \<noteq> None then refuse CALL_HIDDEN s
          else if \<not> ce_updatesAvailable e then refuse THESIS_UPDATES_UNAVAILABLE s
          else (let b = js_trim body
            in if b = [] then refuse CALL_INVALID s
               else if length b > THESIS_UPDATE_MAX then refuse CALL_INVALID s
               else on_store (insertThesisUpdate \<lparr>tu_id = newId, tu_callId = ca_id c, tu_authorUserId = actor,
                      tu_body = b, tu_createdAt = ce_now e\<rparr>) s))"

definition setFollowing :: "string \<Rightarrow> bool \<Rightarrow> string \<Rightarrow> social_state \<Rightarrow> (string \<times> bool) social" where
  "setFollowing ref wants actor s =
     (case resolvePerson (so_store s) ref of
        Inl x \<Rightarrow> (Inl x, s)
      | Inr p \<Rightarrow>
          if pe_id p = actor then refuse FOLLOW_SELF s
          else (Inr (pe_id p, wants),
                s\<lparr>so_store := (if wants then follow actor (pe_id p) else unfollow actor (pe_id p)) (so_store s)\<rparr>))"

section \<open>Making a call\<close>

record lock_args =
  la_id :: string
  la_actorUserId :: string
  la_side :: side
  la_confidence :: "num option"
  la_thesis :: "string option"
  la_visibility :: visibility
  la_parentCallId :: "string option"

definition locked_row :: "calls_env \<Rightarrow> lock_args \<Rightarrow> venue_market \<Rightarrow> call_row" where
  "locked_row e a m =
     (let entryPrice = (if vm_venue m = V_panta then rd_latestSharePrice (ce_reader e) (vm_id m) else None);
          snapshot = (if vm_venue m = V_panta then None else rd_latestSnapshot (ce_reader e) (vm_id m))
      in \<lparr>ca_id = la_id a, ca_userId = la_actorUserId a, ca_marketId = vm_id m, ca_side = la_side a,
          ca_confidence = la_confidence a, ca_thesis = la_thesis a,
          ca_entryProbability = map_option sn_yesProbability snapshot,
          ca_snapshotId = map_option (\<lambda>n. snapshotIdOf (sn_marketId n) (sn_observedAt n) (sn_source n)) snapshot,
          ca_entryPrice = entryPrice, ca_visibility = la_visibility a, ca_createdAt = ce_now e, ca_lockedAt = ce_now e,
          ca_parentCallId = la_parentCallId a, ca_fundingState = F_NONE, ca_hiddenAt = None, ca_hiddenReason = None\<rparr>)"

definition lockCall :: "calls_env \<Rightarrow> lock_args \<Rightarrow> venue_market \<Rightarrow> social_state \<Rightarrow> call_row social" where
  "lockCall e a m s =
     (if (case la_confidence a of None \<Rightarrow> False | Some c \<Rightarrow> \<not> (0 \<le> c \<and> c \<le> 1)) then refuse CALL_INVALID s
      else if (case la_thesis a of None \<Rightarrow> False | Some t \<Rightarrow> length t > THESIS_MAX) then refuse CALL_INVALID s
      else if vm_venue m = V_panta \<and> \<not> usableSharePrice (rd_latestSharePrice (ce_reader e) (vm_id m)) (ce_now e)
      then refuse CALL_INVALID s
      else and_then (on_store (insertCall (ce_parses e) (locked_row e a m)) s) (\<lambda>c s.
             and_then (on_store (writeResult (ca_id c) (rd_getResolution (ce_reader e) (ca_marketId c)) (ce_now e) Service) s)
               (\<lambda>_ s. (Inr c, s\<lparr>so_made := so_made s @ [(toCall c, m)]\<rparr>))))"

record create_input =
  ci_marketId :: string
  ci_side :: side
  ci_confidence :: "num option"
  ci_thesis :: "string option"
  ci_visibility :: "visibility option"
  ci_parentCallId :: "string option"

definition createCall :: "calls_env \<Rightarrow> string \<Rightarrow> create_input \<Rightarrow> string \<Rightarrow> social_state \<Rightarrow> feed_entry social" where
  "createCall e newId i actor s =
     (case requireMarket e (ci_marketId i) of
        Inl x \<Rightarrow> (Inl x, s)
      | Inr m \<Rightarrow>
          (case market_refuses e m of
             Some c \<Rightarrow> refuse c s
           | None \<Rightarrow>
               and_then (lockCall e \<lparr>la_id = newId, la_actorUserId = actor, la_side = ci_side i, la_confidence = ci_confidence i,
                   la_thesis = ci_thesis i, la_visibility = (case ci_visibility i of None \<Rightarrow> Public | Some v \<Rightarrow> v),
                   la_parentCallId = ci_parentCallId i\<rparr> m s)
                 (\<lambda>c s. (Inr (entryOf e (so_store s) c (Some actor)), s))))"

section \<open>Answering a call\<close>

record respond_input =
  rp_targetCallId :: string
  rp_kind :: response_kind
  rp_confidence :: "num option"
  rp_thesis :: "string option"
  rp_visibility :: "visibility option"
  rp_note :: "string option"

record respond_result =
  ro_response :: response_row
  ro_resultingCall :: "feed_entry option"
  ro_invitation :: "invitation option"

definition invitation_of :: "call_row \<Rightarrow> string \<Rightarrow> response_row \<Rightarrow> invitation" where
  "invitation_of target actor r = \<lparr>iv_id = ''inv_'' @ rs_id r, iv_fromUserId = actor, iv_toUserId = ca_userId target,
     iv_marketId = ca_marketId target, iv_sourceCallId = ca_id target, iv_responseId = rs_id r, iv_note = rs_note r,
     iv_createdAt = rs_createdAt r\<rparr>"

definition answered_side :: "response_kind \<Rightarrow> side \<Rightarrow> side" where
  "answered_side kind sd = (if kind = Back then sd else opposite sd)"

definition challenge_call :: "calls_env \<Rightarrow> string \<Rightarrow> string option \<Rightarrow> call_row \<Rightarrow> string \<Rightarrow> social_state \<Rightarrow> respond_result social" where
  "challenge_call e responseId note target actor s =
     (case trimOrNull note THESIS_MAX of
        Inl x \<Rightarrow> (Inl x, s)
      | Inr n \<Rightarrow>
          and_then (on_store (insertResponse \<lparr>rs_id = responseId, rs_actorUserId = actor, rs_targetCallId = ca_id target,
              rs_kind = Challenge, rs_resultingCallId = None, rs_createdAt = ce_now e, rs_note = n\<rparr>) s)
            (\<lambda>r s. let i = invitation_of target actor r
               in if \<not> assertMoneyFree (invitation_payload i) then (Inl Plain_error, s)
                  else (Inr \<lparr>ro_response = toCallResponse r, ro_resultingCall = None, ro_invitation = Some i\<rparr>, s)))"

definition answer_call :: "calls_env \<Rightarrow> string \<Rightarrow> string \<Rightarrow> respond_input \<Rightarrow> call_row \<Rightarrow> venue_market \<Rightarrow> string \<Rightarrow> social_state
    \<Rightarrow> respond_result social" where
  "answer_call e callId responseId i target m actor s =
     (case trimOrNull (rp_thesis i) THESIS_MAX of
        Inl x \<Rightarrow> (Inl x, s)
      | Inr thesis \<Rightarrow>
          and_then (lockCall e \<lparr>la_id = callId, la_actorUserId = actor, la_side = answered_side (rp_kind i) (ca_side target),
              la_confidence = rp_confidence i, la_thesis = thesis,
              la_visibility = (case rp_visibility i of None \<Rightarrow> Public | Some v \<Rightarrow> v), la_parentCallId = Some (ca_id target)\<rparr> m s)
            (\<lambda>own s. and_then (on_store (insertResponse \<lparr>rs_id = responseId, rs_actorUserId = actor, rs_targetCallId = ca_id target,
                rs_kind = rp_kind i, rs_resultingCallId = Some (ca_id own), rs_createdAt = ce_now e, rs_note = None\<rparr>) s)
              (\<lambda>r s. (Inr \<lparr>ro_response = toCallResponse r,
                  ro_resultingCall = Some (entryOf e (so_store s) own (Some actor)), ro_invitation = None\<rparr>, s))))"

definition respond :: "calls_env \<Rightarrow> string \<Rightarrow> string \<Rightarrow> respond_input \<Rightarrow> string \<Rightarrow> social_state \<Rightarrow> respond_result social" where
  "respond e callId responseId i actor s =
     (case requireVisibleCall e (so_store s) (rp_targetCallId i) (Some actor) of
        Inl x \<Rightarrow> (Inl x, s)
      | Inr target \<Rightarrow>
          if ca_userId target = actor then refuse RESPONSE_SELF s
          else
            (case requireMarket e (ca_marketId target) of
               Inl x \<Rightarrow> (Inl x, s)
             | Inr m \<Rightarrow>
                 (case panta_closed e m of
                    Some c \<Rightarrow> refuse c s
                  | None \<Rightarrow>
                      if rp_kind i = Challenge then challenge_call e responseId (rp_note i) target actor s
                      else (case market_refuses e m of
                              Some c \<Rightarrow> refuse c s
                            | None \<Rightarrow> answer_call e callId responseId i target m actor s))))"

definition invitations :: "calls_store \<Rightarrow> string \<Rightarrow> invitation list" where
  "invitations s viewer =
     (let mine = map ca_id (callsByAuthor viewer s)
      in map (\<lambda>r. \<lparr>iv_id = ''inv_'' @ rs_id r, iv_fromUserId = rs_actorUserId r, iv_toUserId = viewer,
             iv_marketId = (case getCall (rs_targetCallId r) s of None \<Rightarrow> [] | Some t \<Rightarrow> ca_marketId t),
             iv_sourceCallId = rs_targetCallId r, iv_responseId = rs_id r, iv_note = rs_note r, iv_createdAt = rs_createdAt r\<rparr>)
           (sort_by (\<lambda>a b. rs_createdAt b - rs_createdAt a)
             (filter (\<lambda>r. rs_kind r = Challenge \<and> rs_targetCallId r \<in> set mine) (jm_values (cs_responses s)))))"

section \<open>Withdrawing\<close>

definition withdrawCall :: "calls_env \<Rightarrow> string \<Rightarrow> string \<Rightarrow> social_state \<Rightarrow> call_row social" where
  "withdrawCall e k actor s =
     (case getCall k (so_store s) of
        None \<Rightarrow> refuse CALL_NOT_FOUND s
      | Some c \<Rightarrow>
          if ca_userId c \<noteq> actor then refuse CALL_NOT_VISIBLE s
          else and_then (on_store (store_hideCall k (Some ''withdrawn by author'') (ce_now e)) s) (\<lambda>c s. (Inr (toCall c), s)))"

section \<open>Calls that money funds\<close>

datatype funded_input = Own_input string side | Answer_input response_kind string

record funded_plan =
  fu_callId :: string
  fu_kind :: "response_kind option"
  fu_marketId :: string
  fu_side :: side
  fu_targetCallId :: "string option"

text \<open>The actor's live call on the market, unless it is the one being replaced.\<close>

definition assertNoLiveCall :: "calls_store \<Rightarrow> string \<Rightarrow> string \<Rightarrow> string option \<Rightarrow> bool" where
  "assertNoLiveCall s actor m replacing \<longleftrightarrow>
     (case liveCallByUserOnMarket actor m s of None \<Rightarrow> True | Some c \<Rightarrow> Some (ca_id c) = replacing)"

text \<open>A plan of one's own call has no kind of answer. The id of the plan is filled in later.\<close>

definition validateFundedCall :: "calls_env \<Rightarrow> calls_store \<Rightarrow> funded_input \<Rightarrow> string \<Rightarrow> string option \<Rightarrow> calls_thrown + funded_plan" where
  "validateFundedCall e s i actor replacing =
     (case i of
        Own_input k sd \<Rightarrow>
          (case requireMarket e k of
             Inl x \<Rightarrow> Inl x
           | Inr m \<Rightarrow>
               (case market_refuses e m of
                  Some c \<Rightarrow> Inl (Calls_error c)
                | None \<Rightarrow>
                    if \<not> assertNoLiveCall s actor (vm_id m) replacing then Inl (Calls_error CALL_ALREADY_MADE)
                    else Inr \<lparr>fu_callId = [], fu_kind = None, fu_marketId = vm_id m, fu_side = sd, fu_targetCallId = None\<rparr>))
      | Answer_input kind k \<Rightarrow>
          (case requireVisibleCall e s k (Some actor) of
             Inl x \<Rightarrow> Inl x
           | Inr target \<Rightarrow>
               if ca_userId target = actor then Inl (Calls_error RESPONSE_SELF)
               else if isPrivate e (ca_id target) then Inl (Calls_error CALL_NOT_VISIBLE)
               else
                 (case requireMarket e (ca_marketId target) of
                    Inl x \<Rightarrow> Inl x
                  | Inr m \<Rightarrow>
                      (case market_refuses e m of
                         Some c \<Rightarrow> Inl (Calls_error c)
                       | None \<Rightarrow>
                           if responseBy actor (ca_id target) kind s \<noteq> None then Inl (Calls_error RESPONSE_DUPLICATE)
                           else if \<not> assertNoLiveCall s actor (vm_id m) replacing then Inl (Calls_error CALL_ALREADY_MADE)
                           else Inr \<lparr>fu_callId = [], fu_kind = Some kind, fu_marketId = vm_id m,
                              fu_side = answered_side kind (ca_side target), fu_targetCallId = Some (ca_id target)\<rparr>))))"

definition planFundedCall :: "calls_env \<Rightarrow> string \<Rightarrow> calls_store \<Rightarrow> funded_input \<Rightarrow> string \<Rightarrow> calls_thrown + funded_plan" where
  "planFundedCall e newId s i actor =
     (case validateFundedCall e s i actor None of Inl x \<Rightarrow> Inl x | Inr p \<Rightarrow> Inr (p\<lparr>fu_callId := newId\<rparr>))"

definition plan_input :: "funded_plan \<Rightarrow> funded_input" where
  "plan_input p = (case fu_kind p of None \<Rightarrow> Own_input (fu_marketId p) (fu_side p)
     | Some k \<Rightarrow> Answer_input k (case fu_targetCallId p of None \<Rightarrow> [] | Some t \<Rightarrow> t))"

record statement =
  sm_confidence :: "num option"
  sm_thesis :: "string option"
  sm_visibility :: visibility

definition lockFundedCall :: "calls_env \<Rightarrow> funded_plan \<Rightarrow> statement \<Rightarrow> string \<Rightarrow> social_state \<Rightarrow> feed_entry social" where
  "lockFundedCall e p st actor s =
     (case validateFundedCall e (so_store s) (plan_input p) actor None of
        Inl x \<Rightarrow> (Inl x, s)
      | Inr now \<Rightarrow>
          if fu_marketId now \<noteq> fu_marketId p \<or> fu_side now \<noteq> fu_side p then refuse CALL_INVALID s
          else
            (case requireMarket e (fu_marketId p) of
               Inl x \<Rightarrow> (Inl x, s)
             | Inr m \<Rightarrow>
                 (case trimOrNull (sm_thesis st) THESIS_MAX of
                    Inl x \<Rightarrow> (Inl x, s)
                  | Inr thesis \<Rightarrow>
                      and_then (lockCall e \<lparr>la_id = fu_callId p, la_actorUserId = actor, la_side = fu_side p,
                          la_confidence = sm_confidence st, la_thesis = thesis, la_visibility = sm_visibility st,
                          la_parentCallId = fu_targetCallId p\<rparr> m s)
                        (\<lambda>c s. (Inr (entryOf e (so_store s) c (Some actor)), s)))))"

definition publishFundedCall :: "calls_env \<Rightarrow> string \<Rightarrow> string \<Rightarrow> social_state \<Rightarrow> unit social" where
  "publishFundedCall e newId k s =
     (case getCall k (so_store s) of
        None \<Rightarrow> (Inr (), s)
      | Some c \<Rightarrow>
          if \<not> truthy (ca_parentCallId c) then (Inr (), s)
          else
            (case getCall (the (ca_parentCallId c)) (so_store s) of
               None \<Rightarrow> (Inr (), s)
             | Some target \<Rightarrow>
                 if ca_userId target = ca_userId c then (Inr (), s)
                 else
                   (let kind = (if ca_side c = ca_side target then Back else Fade)
                    in if responseBy (ca_userId c) (ca_id target) kind (so_store s) \<noteq> None then (Inr (), s)
                       else and_then (on_store (insertResponse \<lparr>rs_id = newId, rs_actorUserId = ca_userId c,
                              rs_targetCallId = ca_id target, rs_kind = kind, rs_resultingCallId = Some (ca_id c),
                              rs_createdAt = ce_now e, rs_note = None\<rparr>) s) (\<lambda>_ s. (Inr (), s)))))"

definition withdrawFundedCall :: "calls_env \<Rightarrow> string \<Rightarrow> social_state \<Rightarrow> unit social" where
  "withdrawFundedCall e k s =
     (case getCall k (so_store s) of
        None \<Rightarrow> (Inr (), s)
      | Some c \<Rightarrow>
          if ca_hiddenAt c = None
          then and_then (on_store (store_hideCall k (Some MONEY_CALL_EXPIRED_REASON) (ce_now e)) s) (\<lambda>_ s. (Inr (), s))
          else (Inr (), s))"

definition freeReplacementOf :: "calls_store \<Rightarrow> string \<Rightarrow> string \<Rightarrow> calls_thrown + (funded_input \<times> statement)" where
  "freeReplacementOf s k actor =
     (case getCall k s of
        None \<Rightarrow> Inl (Calls_error CALL_NOT_FOUND)
      | Some c \<Rightarrow>
          if ca_userId c \<noteq> actor \<or> ca_hiddenAt c \<noteq> None then Inl (Calls_error CALL_NOT_FOUND)
          else
            (let st = \<lparr>sm_confidence = ca_confidence c, sm_thesis = ca_thesis c, sm_visibility = ca_visibility c\<rparr>
             in if \<not> truthy (ca_parentCallId c) then Inr (Own_input (ca_marketId c) (ca_side c), st)
                else (case getCall (the (ca_parentCallId c)) s of
                        None \<Rightarrow> Inl (Calls_error CALL_NOT_FOUND)
                      | Some t \<Rightarrow> Inr (Answer_input (if ca_side c = ca_side t then Back else Fade) (ca_id t), st))))"

definition assertFreeReplacement :: "calls_env \<Rightarrow> calls_store \<Rightarrow> string \<Rightarrow> string \<Rightarrow> calls_thrown + unit" where
  "assertFreeReplacement e s k actor =
     (case freeReplacementOf s k actor of
        Inl x \<Rightarrow> Inl x
      | Inr (i, st) \<Rightarrow> (case validateFundedCall e s i actor (Some k) of Inl x \<Rightarrow> Inl x | Inr _ \<Rightarrow> Inr ()))"

definition replaceFundedCallWithFree :: "calls_env \<Rightarrow> string \<Rightarrow> string \<Rightarrow> string \<Rightarrow> string \<Rightarrow> social_state \<Rightarrow> feed_entry option social" where
  "replaceFundedCallWithFree e callId responseId k actor s =
     (case freeReplacementOf (so_store s) k actor of
        Inl x \<Rightarrow> (Inl x, s)
      | Inr (i, st) \<Rightarrow>
          (case validateFundedCall e (so_store s) i actor (Some k) of
             Inl x \<Rightarrow> (Inl x, s)
           | Inr _ \<Rightarrow>
               and_then (on_store (store_hideCall k (Some MONEY_CALL_KEPT_FREE_REASON) (ce_now e)) s) (\<lambda>_ s.
                 (case i of
                    Own_input m sd \<Rightarrow>
                      and_then (createCall e callId \<lparr>ci_marketId = m, ci_side = sd, ci_confidence = sm_confidence st,
                          ci_thesis = sm_thesis st, ci_visibility = Some (sm_visibility st), ci_parentCallId = None\<rparr> actor s)
                        (\<lambda>x s. (Inr (Some x), s))
                  | Answer_input kind t \<Rightarrow>
                      and_then (respond e callId responseId \<lparr>rp_targetCallId = t, rp_kind = kind, rp_confidence = sm_confidence st,
                          rp_thesis = sm_thesis st, rp_visibility = Some (sm_visibility st), rp_note = None\<rparr> actor s)
                        (\<lambda>r s. (Inr (ro_resultingCall r), s))))))"

definition restoreFundedCall :: "string \<Rightarrow> social_state \<Rightarrow> unit social" where
  "restoreFundedCall k s =
     (case getCall k (so_store s) of
        None \<Rightarrow> (Inr (), s)
      | Some c \<Rightarrow>
          if ca_hiddenAt c = None \<or>
             ca_hiddenReason c \<noteq> Some MONEY_CALL_EXPIRED_REASON \<and> ca_hiddenReason c \<noteq> Some MONEY_CALL_KEPT_FREE_REASON
          then (Inr (), s)
          else if liveCallByUserOnMarket (ca_userId c) (ca_marketId c) (so_store s) \<noteq> None then (Inr (), s)
          else and_then (on_store (unhideCall k) s) (\<lambda>_ s. (Inr (), s)))"

datatype price_state = Price_within | Price_moved | Price_unreadable

definition side_price :: "side \<Rightarrow> share_price \<Rightarrow> num option" where
  "side_price sd p = (case (if sd = YES then sp_yesPrice p else sp_noPrice p) of None \<Rightarrow> Some 0 | Some t \<Rightarrow> js_number t)"

definition price_pair :: "calls_env \<Rightarrow> call_row \<Rightarrow> venue_market \<Rightarrow> (num \<times> num) option" where
  "price_pair e c m =
     (case ca_entryPrice c of
        Some p \<Rightarrow>
          (case rd_latestSharePrice (ce_reader e) (vm_id m) of
             None \<Rightarrow> None
           | Some at0 \<Rightarrow>
               if \<not> usableSharePrice (Some at0) (ce_now e) then None
               else (case (side_price (ca_side c) p, side_price (ca_side c) at0) of
                       (Some x, Some y) \<Rightarrow> Some (x, y) | _ \<Rightarrow> None))
      | None \<Rightarrow>
          (case (ca_entryProbability c, rd_latestSnapshot (ce_reader e) (vm_id m)) of
             (Some p, Some n) \<Rightarrow>
               Some (if ca_side c = YES then (p, sn_yesProbability n) else (1 - p, 1 - sn_yesProbability n))
           | _ \<Rightarrow> None))"

definition priceWithin :: "calls_env \<Rightarrow> calls_store \<Rightarrow> string \<Rightarrow> num \<Rightarrow> price_state" where
  "priceWithin e s k maxSlippageBps =
     (case getCall k s of
        None \<Rightarrow> Price_unreadable
      | Some c \<Rightarrow>
          (case rd_getMarket (ce_reader e) (ca_marketId c) of
             None \<Rightarrow> Price_unreadable
           | Some m \<Rightarrow>
               (case price_pair e c m of
                  None \<Rightarrow> Price_unreadable
                | Some (entry, now_at) \<Rightarrow>
                    if entry \<le> 0 then Price_unreadable
                    else if (\<bar>now_at - entry\<bar> / entry) * 10000 \<le> maxSlippageBps then Price_within else Price_moved)))"

definition priceReadable :: "calls_env \<Rightarrow> string \<Rightarrow> bool" where
  "priceReadable e k \<longleftrightarrow>
     (case rd_getMarket (ce_reader e) k of
        None \<Rightarrow> False
      | Some m \<Rightarrow> vm_venue m \<noteq> V_panta \<or> usableSharePrice (rd_latestSharePrice (ce_reader e) (vm_id m)) (ce_now e))"

definition takesCalls :: "calls_env \<Rightarrow> string \<Rightarrow> bool" where
  "takesCalls e k \<longleftrightarrow>
     (case rd_getMarket (ce_reader e) k of
        None \<Rightarrow> False
      | Some m \<Rightarrow> acceptsNewCalls m (ce_now e) (cutoff e) \<and> rd_getResolution (ce_reader e) (vm_id m) = None)"

end
