(* ===== verification/CallService.thy ===== *)
theory CallService
  imports CallActions
begin

text \<open>
  What the service of the social calls keeps (\<open>src/calls/CallsService.ts\<close>). A request is one
  operation under its own surroundings; between requests the directory is hydrated and results
  are settled. Whatever the requests, the store has gone through a run of its own operations from
  empty, so its history and its agreement with itself are those of the store, and nobody has two
  live calls on a market. Reads tell a viewer nothing about calls kept from that viewer, and the
  cursor of the feed reaches every call once.
\<close>

section \<open>Requests\<close>

datatype service_op =
  Directory_op person
| Settle_op string "resolution_record option"
| Update_op string string string string
| Following_op string bool string
| Create_op string create_input string
| Respond_op string string respond_input string
| Withdraw_op string string
| Lock_funded_op funded_plan statement string
| Publish_op string string
| Expire_op string
| Replace_op string string string string
| Restore_op string

fun service_step :: "calls_env \<Rightarrow> service_op \<Rightarrow> social_state \<Rightarrow> social_state" where
  "service_step e (Directory_op p) s = s\<lparr>so_store := upsertPerson p (so_store s)\<rparr>"
| "service_step e (Settle_op k ev) s = snd (on_store (writeResult k ev (ce_now e) Service) s)"
| "service_step e (Update_op newId k body actor) s = snd (appendThesisUpdate e newId k body actor s)"
| "service_step e (Following_op ref wants actor) s = snd (setFollowing ref wants actor s)"
| "service_step e (Create_op newId i actor) s = snd (createCall e newId i actor s)"
| "service_step e (Respond_op callId responseId i actor) s = snd (respond e callId responseId i actor s)"
| "service_step e (Withdraw_op k actor) s = snd (withdrawCall e k actor s)"
| "service_step e (Lock_funded_op p st actor) s = snd (lockFundedCall e p st actor s)"
| "service_step e (Publish_op newId k) s = snd (publishFundedCall e newId k s)"
| "service_step e (Expire_op k) s = snd (withdrawFundedCall e k s)"
| "service_step e (Replace_op callId responseId k actor) s = snd (replaceFundedCallWithFree e callId responseId k actor s)"
| "service_step e (Restore_op k) s = snd (restoreFundedCall k s)"

text \<open>The check of a share price is one function of the code: every request has the same.\<close>

definition service_run :: "(share_price \<Rightarrow> bool) \<Rightarrow> (calls_env \<times> service_op) list \<Rightarrow> social_state \<Rightarrow> social_state" where
  "service_run parses reqs s = fold (\<lambda>(e, r). service_step (e\<lparr>ce_parses := parses\<rparr>) r) reqs s"

definition empty_social :: social_state where
  "empty_social = \<lparr>so_store = empty_calls, so_made = []\<rparr>"

section \<open>Runs of store operations\<close>

text \<open>One store is reached from another by store operations that show no hidden call again.\<close>

definition via :: "(share_price \<Rightarrow> bool) \<Rightarrow> calls_store \<Rightarrow> calls_store \<Rightarrow> bool" where
  "via parses s t \<longleftrightarrow> (\<exists>ops. list_all (\<lambda>o1. \<not> may_show o1) ops \<and> t = calls_run parses ops s)"

lemma via_refl [simp]: "via parses s s"
  unfolding via_def by (rule exI[of _ "[]"]) (simp add: calls_run_def)

lemma via_trans: "via parses s t \<Longrightarrow> via parses t u \<Longrightarrow> via parses s u"
  unfolding via_def calls_run_def by (metis fold_append comp_apply list_all_append)

lemma via_step: "\<not> may_show o1 \<Longrightarrow> via parses s (calls_step parses o1 s)"
  unfolding via_def by (rule exI[of _ "[o1]"]) (simp add: calls_run_def)

lemma via_ops [simp]:
  "via parses s (upsertPerson p s)" "via parses s (follow a b s)" "via parses s (unfollow a b s)"
  "via parses s (snd (insertCall parses r s))" "via parses s (snd (store_hideCall k reason now s))"
  "via parses s (snd (insertResponse x s))" "via parses s (snd (insertThesisUpdate u s))"
  "via parses s (snd (writeResult k ev tm writer s))"
  using via_step[of "Upsert_person p" parses s] via_step[of "Follow_op a b" parses s] via_step[of "Unfollow_op a b" parses s]
    via_step[of "Insert_call r" parses s] via_step[of "Hide_call k reason now" parses s] via_step[of "Insert_response x" parses s]
    via_step[of "Insert_update u" parses s] via_step[of "Write_result k ev tm writer" parses s]
  by simp_all

lemma via_ok: "via parses s t \<Longrightarrow> calls_ok s \<Longrightarrow> calls_ok t"
  by (auto simp: via_def calls_run_ok)

lemma via_one_live: "via parses s t \<Longrightarrow> one_live s \<Longrightarrow> one_live t"
  by (auto simp: via_def calls_run_one_live)

lemma store_refuse [simp]: "so_store (snd (refuse c s)) = so_store s"
  by (simp add: refuse_def)

lemma store_on_store [simp]: "so_store (snd (on_store f s)) = snd (f (so_store s))"
  by (simp add: on_store_def split: prod.split)

lemma via_and_then:
  assumes "via parses s0 (so_store (snd p))"
    and "\<And>a s. p = (Inr a, s) \<Longrightarrow> via parses (so_store s) (so_store (snd (f a s)))"
  shows "via parses s0 (so_store (snd (and_then p f)))"
  using assms by (auto simp: and_then_def intro: via_trans split: prod.split sum.split)

lemma via_lockCall: "ce_parses e = parses \<Longrightarrow> via parses (so_store s) (so_store (snd (lockCall e a m s)))"
  unfolding lockCall_def by (auto intro!: via_and_then)

lemma via_createCall: "ce_parses e = parses \<Longrightarrow> via parses (so_store s) (so_store (snd (createCall e newId i actor s)))"
  unfolding createCall_def
  by (auto intro!: via_and_then via_lockCall split: sum.split option.split)

lemma via_challenge: "via parses (so_store s) (so_store (snd (challenge_call e responseId note target actor s)))"
  unfolding challenge_call_def by (auto intro!: via_and_then simp: Let_def split: sum.split)

lemma via_answer: "ce_parses e = parses \<Longrightarrow> via parses (so_store s) (so_store (snd (answer_call e callId responseId i target m actor s)))"
  unfolding answer_call_def by (auto intro!: via_and_then via_lockCall split: sum.split)

lemma via_respond: "ce_parses e = parses \<Longrightarrow> via parses (so_store s) (so_store (snd (respond e callId responseId i actor s)))"
  unfolding respond_def
  by (auto intro!: via_challenge via_answer split: sum.split option.split)

lemma via_replace:
  assumes "ce_parses e = parses"
  shows "via parses (so_store s) (so_store (snd (replaceFundedCallWithFree e callId responseId k actor s)))"
  unfolding replaceFundedCallWithFree_def
  by (auto intro!: via_and_then via_createCall[OF assms] via_respond[OF assms] split: sum.split funded_input.split)

lemma via_service:
  assumes "ce_parses e = parses" "\<And>k. r \<noteq> Restore_op k"
  shows "via parses (so_store s) (so_store (service_step e r s))"
proof (cases r)
  case (Update_op newId k body actor)
  then show ?thesis by (auto simp: appendThesisUpdate_def Let_def split: sum.split)
next
  case (Following_op ref wants actor)
  then show ?thesis by (auto simp: setFollowing_def split: sum.split)
next
  case (Withdraw_op k actor)
  then show ?thesis by (auto simp: withdrawCall_def intro!: via_and_then split: option.split)
next
  case (Lock_funded_op p st actor)
  then show ?thesis by (auto simp: lockFundedCall_def intro!: via_and_then via_lockCall[OF assms(1)] split: sum.split)
next
  case (Publish_op newId k)
  then show ?thesis by (auto simp: publishFundedCall_def Let_def intro!: via_and_then split: option.split)
next
  case (Expire_op k)
  then show ?thesis by (auto simp: withdrawFundedCall_def intro!: via_and_then split: option.split)
qed (use assms in \<open>simp_all add: via_createCall via_respond via_replace\<close>)

lemma restore_store:
  "so_store (snd (restoreFundedCall k s)) = so_store s \<or>
   so_store (snd (restoreFundedCall k s)) = snd (unhideCall k (so_store s)) \<and>
   (\<forall>c. getCall k (so_store s) = Some c \<longrightarrow> liveCallByUserOnMarket (ca_userId c) (ca_marketId c) (so_store s) = None)"
  by (auto simp: restoreFundedCall_def and_then_def on_store_def split: option.split prod.split sum.split)

definition service_ok :: "(share_price \<Rightarrow> bool) \<Rightarrow> calls_store \<Rightarrow> bool" where
  "service_ok parses s \<longleftrightarrow> (\<exists>ops. s = calls_run parses ops empty_calls) \<and> one_live s"

lemma service_ok_via: "service_ok parses s \<Longrightarrow> via parses s t \<Longrightarrow> service_ok parses t"
  unfolding service_ok_def by (metis via_one_live via_def calls_run_def fold_append comp_apply)

lemma service_ok_step:
  assumes "ce_parses e = parses" "service_ok parses (so_store s)"
  shows "service_ok parses (so_store (service_step e r s))"
proof (cases "\<exists>k. r = Restore_op k")
  case False
  with via_service[OF assms(1), of r s] assms(2) show ?thesis by (blast intro: service_ok_via)
next
  case True
  then obtain k where r: "r = Restore_op k" by blast
  from restore_store[of k s] show ?thesis
  proof
    assume "so_store (snd (restoreFundedCall k s)) = snd (unhideCall k (so_store s)) \<and>
      (\<forall>c. getCall k (so_store s) = Some c \<longrightarrow> liveCallByUserOnMarket (ca_userId c) (ca_marketId c) (so_store s) = None)"
    then have t: "so_store (service_step e r s) = calls_step parses (Unhide_call k) (so_store s)"
      and free: "\<And>c. jm_get (cs_calls (so_store s)) k = Some c \<Longrightarrow> liveCallByUserOnMarket (ca_userId c) (ca_marketId c) (so_store s) = None"
      by (simp_all add: r getCall_def del: map_of_eq_Some_iff)
    from assms(2) obtain ops where ops: "so_store s = calls_run parses ops empty_calls" and o: "one_live (so_store s)"
      by (auto simp: service_ok_def)
    have "so_store (service_step e r s) = calls_run parses (ops @ [Unhide_call k]) empty_calls"
      unfolding t ops by (simp add: calls_run_def)
    moreover have "one_live (so_store (service_step e r s))"
      unfolding t using unhideCall_one_live[OF o free] by simp
    ultimately show ?thesis unfolding service_ok_def by blast
  qed (use assms(2) r in simp)
qed

lemma service_run_ok: "service_ok parses (so_store s) \<Longrightarrow> service_ok parses (so_store (service_run parses reqs s))"
  unfolding service_run_def
proof (induction reqs arbitrary: s)
  case (Cons er reqs)
  then show ?case by (cases er) (simp add: service_ok_step)
qed simp

lemma service_from_empty: "service_ok parses (so_store (service_run parses reqs empty_social))"
  by (rule service_run_ok) (auto simp: service_ok_def empty_social_def calls_run_def intro!: exI[of _ "[]"])

lemma service_calls_ok: "calls_ok (so_store (service_run parses reqs empty_social))"
  using service_from_empty[of parses reqs] calls_run_ok[OF calls_ok_empty] by (auto simp: service_ok_def)

text \<open>C19: Whatever requests the service has taken, under whatever markets, clocks and switches, its store
  is one that a run of store operations builds from the empty one, it agrees with itself, and
  nobody has two live calls on one market, though a money call may be shown again.\<close>

theorem service_refines_store:
  "(\<exists>ops. so_store (service_run parses reqs empty_social) = calls_run parses ops empty_calls) \<and>
   calls_ok (so_store (service_run parses reqs empty_social)) \<and> one_live (so_store (service_run parses reqs empty_social))"
  using service_from_empty[of parses reqs] service_calls_ok[of parses reqs] by (simp add: service_ok_def)

section \<open>Making a call\<close>

lemma and_then_Inr: "and_then p f = (Inr b, t) \<Longrightarrow> \<exists>a s. p = (Inr a, s) \<and> f a s = (Inr b, t)"
  by (auto simp: and_then_def split: prod.splits sum.splits)

lemma and_then_Inl: "and_then p f = (Inl x, t) \<Longrightarrow> p = (Inl x, t) \<or> (\<exists>a s. p = (Inr a, s) \<and> f a s = (Inl x, t))"
  by (auto simp: and_then_def split: prod.splits sum.splits)

lemma on_store_eq: "on_store f s = (r, t) \<longleftrightarrow> (\<exists>u. f (so_store s) = (r, u) \<and> t = s\<lparr>so_store := u\<rparr>)"
  by (auto simp: on_store_def split: prod.splits)

lemma locked_row_simps [simp]:
  "ca_id (locked_row e a m) = la_id a" "ca_userId (locked_row e a m) = la_actorUserId a" "ca_marketId (locked_row e a m) = vm_id m"
  "ca_side (locked_row e a m) = la_side a" "ca_parentCallId (locked_row e a m) = la_parentCallId a"
  "ca_hiddenAt (locked_row e a m) = None" "ca_fundingState (locked_row e a m) = F_NONE" "ca_visibility (locked_row e a m) = la_visibility a"
  "ca_lockedAt (locked_row e a m) = ce_now e" "ca_thesis (locked_row e a m) = la_thesis a" "ca_confidence (locked_row e a m) = la_confidence a"
  by (simp_all add: locked_row_def Let_def)

lemma writeResult_calls [simp]: "cs_calls (snd (writeResult k ev tm writer s)) = cs_calls s"
  "cs_responses (snd (writeResult k ev tm writer s)) = cs_responses s"
  by (cases rule: writeResult_cases[of k ev tm writer s]; simp)+

lemma lockCall_Inr:
  assumes "lockCall e a m s = (Inr c, t)"
  shows "c = locked_row e a m \<and> getCall (la_id a) (so_store s) = None \<and>
    liveCallByUserOnMarket (la_actorUserId a) (vm_id m) (so_store s) = None \<and>
    cs_calls (so_store t) = jm_set (la_id a) c (cs_calls (so_store s)) \<and>
    cs_responses (so_store t) = cs_responses (so_store s) \<and> so_made t = so_made s @ [(toCall c, m)] \<and>
    so_store t = snd (writeResult (la_id a) (rd_getResolution (ce_reader e) (vm_id m)) (ce_now e) Service
      ((so_store s)\<lparr>cs_calls := jm_set (la_id a) c (cs_calls (so_store s))\<rparr>)) \<and>
    (truthy (la_parentCallId a) \<longrightarrow> (\<exists>p. getCall (the (la_parentCallId a)) (so_store s) = Some p \<and> ca_marketId p = vm_id m))"
proof -
  from assms have a: "and_then (on_store (insertCall (ce_parses e) (locked_row e a m)) s) (\<lambda>c s.
       and_then (on_store (writeResult (ca_id c) (rd_getResolution (ce_reader e) (ca_marketId c)) (ce_now e) Service) s)
         (\<lambda>_ s. (Inr c, s\<lparr>so_made := so_made s @ [(toCall c, m)]\<rparr>))) = (Inr c, t)"
    by (simp add: lockCall_def refuse_def split: if_splits)
  obtain d s1 where i: "on_store (insertCall (ce_parses e) (locked_row e a m)) s = (Inr d, s1)"
    and w: "and_then (on_store (writeResult (ca_id d) (rd_getResolution (ce_reader e) (ca_marketId d)) (ce_now e) Service) s1)
         (\<lambda>_ s. (Inr d, s\<lparr>so_made := so_made s @ [(toCall d, m)]\<rparr>)) = (Inr c, t)"
    using and_then_Inr[OF a] by blast
  obtain x s2 where w2: "on_store (writeResult (ca_id d) (rd_getResolution (ce_reader e) (ca_marketId d)) (ce_now e) Service) s1 = (Inr x, s2)"
    and t: "c = d" "t = s2\<lparr>so_made := so_made s2 @ [(toCall d, m)]\<rparr>"
    using and_then_Inr[OF w] by auto
  have s2: "so_store s2 = snd (writeResult (ca_id d) (rd_getResolution (ce_reader e) (ca_marketId d)) (ce_now e) Service (so_store s1))"
    "so_made s2 = so_made s1"
    using w2 by (auto simp: on_store_eq)
  show ?thesis
  proof (cases rule: insertCall_cases[of "ce_parses e" "locked_row e a m" "so_store s"])
    case (same x)
    with i show ?thesis by (simp add: on_store_eq)
  next
    case new
    with i have "d = locked_row e a m" "s1 = s\<lparr>so_store := (so_store s)\<lparr>cs_calls := jm_set (la_id a) d (cs_calls (so_store s))\<rparr>\<rparr>"
      by (auto simp: on_store_eq)
    with t s2 new(2,4,6) show ?thesis by (simp add: getCall_def)
  qed
qed

lemma fresh_result:
  assumes "calls_ok s" "getCall k s = None"
  shows "getResult k s = None"
proof (cases "jm_get (cs_results s) k")
  case (Some r)
  have "jm_all (derived (cs_calls s)) (cs_results s)" using assms(1) by (simp add: calls_ok_def)
  from jm_all_get[OF this Some] assms(2) show ?thesis by (auto simp: derived_def getCall_def)
qed (simp add: getResult_def)

lemma derive_pending: "deriveCallOutcome sd None = O_PENDING"
  by (cases sd) (simp_all add: deriveCallOutcome_def)

lemma lockCall_changes:
  assumes "calls_ok (so_store s)" "rd_getResolution (ce_reader e) (vm_id m) = None" "lockCall e a m s = (Inr c, t)"
  shows "\<exists>q. t = s\<lparr>so_store := (so_store s)\<lparr>cs_calls := jm_set (la_id a) c (cs_calls (so_store s)),
      cs_results := jm_set (la_id a) q (cs_results (so_store s))\<rparr>, so_made := so_made s @ [(toCall c, m)]\<rparr> \<and>
    getResult (la_id a) (so_store s) = None \<and> cr_outcome q = O_PENDING"
proof -
  note L = lockCall_Inr[OF assms(3)]
  have none: "getResult (la_id a) (so_store s) = None" using fresh_result[OF assms(1)] L by simp
  have id: "ca_id c = la_id a" using L by (simp add: locked_row_def Let_def)
  have "so_store t = (so_store s)\<lparr>cs_calls := jm_set (la_id a) c (cs_calls (so_store s)),
      cs_results := jm_set (la_id a) (derived_result c None (ce_now e)) (cs_results (so_store s))\<rparr>"
    using L none assms(2) id
    by (simp add: writeResult_def Let_def getResult_def del: map_of_eq_Some_iff)
  moreover have "t = s\<lparr>so_store := so_store t, so_made := so_made t\<rparr>" by simp
  moreover have "cr_outcome (derived_result c None (ce_now e)) = O_PENDING" by (simp add: derived_result_def derive_pending)
  ultimately show ?thesis using L none by metis
qed

lemma lockCall_Inl:
  assumes "calls_ok (so_store s)" "rd_getResolution (ce_reader e) (vm_id m) = None" "lockCall e a m s = (Inl x, t)"
  shows "t = s"
proof (cases "lockCall e a m s = (Inl (Calls_error CALL_INVALID), s)")
  case True
  with assms(3) show ?thesis by simp
next
  case False
  then have a: "and_then (on_store (insertCall (ce_parses e) (locked_row e a m)) s) (\<lambda>c s.
       and_then (on_store (writeResult (ca_id c) (rd_getResolution (ce_reader e) (ca_marketId c)) (ce_now e) Service) s)
         (\<lambda>_ s. (Inr c, s\<lparr>so_made := so_made s @ [(toCall c, m)]\<rparr>))) = (Inl x, t)"
    using assms(3) by (simp add: lockCall_def refuse_def split: if_splits)
  show ?thesis
  proof (cases rule: insertCall_cases[of "ce_parses e" "locked_row e a m" "so_store s"])
    case (same y)
    then have "on_store (insertCall (ce_parses e) (locked_row e a m)) s = (Inl y, s)" by (simp add: on_store_def)
    with a show ?thesis by (simp add: and_then_def)
  next
    case new
    define s1 where "s1 = s\<lparr>so_store := (so_store s)\<lparr>cs_calls := jm_set (la_id a) (locked_row e a m) (cs_calls (so_store s))\<rparr>\<rparr>"
    have "getResult (la_id a) (so_store s) = None" using fresh_result[OF assms(1)] new(2) by (simp add: getCall_def)
    then have "jm_get (cs_results (so_store s1)) (la_id a) = None" by (simp add: s1_def getResult_def)
    then have "\<exists>v u. writeResult (la_id a) None (ce_now e) Service (so_store s1) = (Inr v, u)"
      by (simp add: writeResult_def s1_def Let_def) blast
    moreover have "on_store (insertCall (ce_parses e) (locked_row e a m)) s = (Inr (locked_row e a m), s1)"
      using new(1) by (simp add: on_store_def s1_def)
    ultimately have False using a assms(2) by (auto simp: and_then_def on_store_def)
    then show ?thesis ..
  qed
qed

lemma market_refuses_open:
  assumes "market_refuses e m = None"
  shows "acceptsNewCalls m (ce_now e) (cutoff e)" "rd_getResolution (ce_reader e) (vm_id m) = None"
    "vm_venue m = V_panta \<longrightarrow> ce_allowPantaCalls e"
  using assms by (auto simp: market_refuses_def split: option.splits if_splits)

text \<open>C33: Making a call is all or nothing. Refused, it has changed nothing, receipts included. Accepted, the
  only changes are one new call under the new id, its pending result and its receipt handed on: every
  other call and result, the answers, people, follows, cursors and thesis updates are as they were. The
  new call is the actor's own, free, on an open market without a result, with the side asked for and
  the price the server holds stamped on it.\<close>

theorem create_all_or_nothing:
  assumes "calls_ok (so_store s)" "createCall e newId i actor s = (r, t)"
  shows "case r of
      Inl x \<Rightarrow> t = s
    | Inr entry \<Rightarrow> \<exists>c m q. rd_getMarket (ce_reader e) (ci_marketId i) = Some m \<and> acceptsNewCalls m (ce_now e) (cutoff e) \<and>
        rd_getResolution (ce_reader e) (vm_id m) = None \<and> getCall newId (so_store s) = None \<and>
        t = s\<lparr>so_store := (so_store s)\<lparr>cs_calls := jm_set newId c (cs_calls (so_store s)),
            cs_results := jm_set newId q (cs_results (so_store s))\<rparr>, so_made := so_made s @ [(toCall c, m)]\<rparr> \<and>
        getResult newId (so_store s) = None \<and> cr_outcome q = O_PENDING \<and>
        ca_userId c = actor \<and> ca_marketId c = vm_id m \<and> ca_side c = ci_side i \<and> ca_fundingState c = F_NONE \<and>
        ca_lockedAt c = ce_now e \<and> fe_call entry = toCall c \<and>
        ca_entryPrice c = (if vm_venue m = V_panta then rd_latestSharePrice (ce_reader e) (vm_id m) else None) \<and>
        ca_entryProbability c = (if vm_venue m = V_panta then None
          else map_option sn_yesProbability (rd_latestSnapshot (ce_reader e) (vm_id m)))"
proof (cases "rd_getMarket (ce_reader e) (ci_marketId i)")
  case None
  with assms(2) show ?thesis by (auto simp: createCall_def requireMarket_def)
next
  case m: (Some m)
  show ?thesis
  proof (cases "market_refuses e m")
    case (Some c)
    with m assms(2) show ?thesis by (auto simp: createCall_def requireMarket_def refuse_def)
  next
    case None
    define a where "a = \<lparr>la_id = newId, la_actorUserId = actor, la_side = ci_side i, la_confidence = ci_confidence i,
      la_thesis = ci_thesis i, la_visibility = (case ci_visibility i of None \<Rightarrow> Public | Some v \<Rightarrow> v), la_parentCallId = ci_parentCallId i\<rparr>"
    have c: "and_then (lockCall e a m s) (\<lambda>c s. (Inr (entryOf e (so_store s) c (Some actor)), s)) = (r, t)"
      using assms(2) m None by (simp add: createCall_def requireMarket_def a_def)
    show ?thesis
    proof (cases r)
      case (Inl x)
      with and_then_Inl[of "lockCall e a m s" _ x t] c have "lockCall e a m s = (Inl x, t)" by auto
      with lockCall_Inl[OF assms(1) market_refuses_open(2)[OF None]] Inl show ?thesis by simp
    next
      case (Inr entry)
      with c obtain d where d: "lockCall e a m s = (Inr d, t)" "entry = entryOf e (so_store t) d (Some actor)"
        using and_then_Inr[of "lockCall e a m s" _ entry t] by auto
      note L = lockCall_Inr[OF d(1)]
      obtain q where q: "t = s\<lparr>so_store := (so_store s)\<lparr>cs_calls := jm_set newId d (cs_calls (so_store s)),
            cs_results := jm_set newId q (cs_results (so_store s))\<rparr>, so_made := so_made s @ [(toCall d, m)]\<rparr>"
          "getResult newId (so_store s) = None" "cr_outcome q = O_PENDING"
        using lockCall_changes[OF assms(1) market_refuses_open(2)[OF None] d(1)] by (auto simp: a_def)
      have "ca_entryPrice d = (if vm_venue m = V_panta then rd_latestSharePrice (ce_reader e) (vm_id m) else None)"
        "ca_entryProbability d = (if vm_venue m = V_panta then None
          else map_option sn_yesProbability (rd_latestSnapshot (ce_reader e) (vm_id m)))"
        using L(1) by (simp_all add: locked_row_def Let_def)
      moreover have "ca_userId d = actor" "ca_marketId d = vm_id m" "ca_side d = ci_side i" "ca_fundingState d = F_NONE"
        "ca_lockedAt d = ce_now e" "fe_call entry = toCall d" "getCall newId (so_store s) = None"
        using L by (simp_all add: d(2) entryOf_def locked_row_def Let_def a_def)
      ultimately show ?thesis unfolding Inr sum.case
        using q m market_refuses_open[OF None] by blast
    qed
  qed
qed

section \<open>Answering a call\<close>

lemma challenge_call_made:
  assumes "challenge_call e responseId note target actor s = (Inr r, t)"
  shows "cs_calls (so_store t) = cs_calls (so_store s) \<and> so_made t = so_made s \<and> ro_resultingCall r = None \<and>
    rs_resultingCallId (ro_response r) = None \<and> rs_actorUserId (ro_response r) = actor \<and> rs_targetCallId (ro_response r) = ca_id target \<and>
    rs_kind (ro_response r) = Challenge \<and> (\<exists>v. ro_invitation r = Some v \<and> iv_fromUserId v = actor \<and> iv_toUserId v = ca_userId target)"
proof -
  obtain n where n: "trimOrNull note THESIS_MAX = Inr n"
    using assms by (cases "trimOrNull note THESIS_MAX") (simp_all add: challenge_call_def)
  define x where "x = \<lparr>rs_id = responseId, rs_actorUserId = actor, rs_targetCallId = ca_id target,
            rs_kind = Challenge, rs_resultingCallId = None, rs_createdAt = ce_now e, rs_note = n\<rparr>"
  from and_then_Inr[OF assms[unfolded challenge_call_def n sum.case]]
  obtain y s1 where y: "on_store (insertResponse x) s = (Inr y, s1)"
    and z: "t = s1" "r = \<lparr>ro_response = toCallResponse y, ro_resultingCall = None, ro_invitation = Some (invitation_of target actor y)\<rparr>"
    by (auto simp: x_def Let_def split: if_splits)
  have "y = x \<and> cs_calls (so_store s1) = cs_calls (so_store s) \<and> so_made s1 = so_made s"
    using y by (cases rule: insertResponse_cases[of x "so_store s"]) (auto simp: on_store_eq)
  with z show ?thesis by (simp add: x_def toCallResponse_def invitation_of_def)
qed

lemma answer_call_made:
  assumes "answer_call e callId responseId i target m actor s = (Inr r, t)"
  shows "\<exists>own. getCall callId (so_store s) = None \<and> cs_calls (so_store t) = jm_set callId own (cs_calls (so_store s)) \<and>
    ca_userId own = actor \<and> ca_marketId own = vm_id m \<and> (ca_side own = ca_side target \<longleftrightarrow> rp_kind i = Back) \<and>
    ca_parentCallId own = Some (ca_id target) \<and> rs_resultingCallId (ro_response r) = Some (ca_id own) \<and>
    so_made t = so_made s @ [(toCall own, m)] \<and> ro_invitation r = None \<and>
    rs_actorUserId (ro_response r) = actor \<and> rs_targetCallId (ro_response r) = ca_id target \<and> rs_kind (ro_response r) = rp_kind i"
proof -
  obtain th where th: "trimOrNull (rp_thesis i) THESIS_MAX = Inr th"
    using assms by (cases "trimOrNull (rp_thesis i) THESIS_MAX") (simp_all add: answer_call_def)
  define a where "a = \<lparr>la_id = callId, la_actorUserId = actor, la_side = answered_side (rp_kind i) (ca_side target),
            la_confidence = rp_confidence i, la_thesis = th,
            la_visibility = (case rp_visibility i of None \<Rightarrow> Public | Some v \<Rightarrow> v), la_parentCallId = Some (ca_id target)\<rparr>"
  from and_then_Inr[OF assms[unfolded answer_call_def th sum.case]]
  obtain own s1 where own: "lockCall e a m s = (Inr own, s1)"
    and b: "and_then (on_store (insertResponse \<lparr>rs_id = responseId, rs_actorUserId = actor, rs_targetCallId = ca_id target,
              rs_kind = rp_kind i, rs_resultingCallId = Some (ca_id own), rs_createdAt = ce_now e, rs_note = None\<rparr>) s1)
            (\<lambda>r s. (Inr \<lparr>ro_response = toCallResponse r,
                ro_resultingCall = Some (entryOf e (so_store s) own (Some actor)), ro_invitation = None\<rparr>, s)) = (Inr r, t)"
    by (auto simp: a_def)
  define x where "x = \<lparr>rs_id = responseId, rs_actorUserId = actor, rs_targetCallId = ca_id target,
              rs_kind = rp_kind i, rs_resultingCallId = Some (ca_id own), rs_createdAt = ce_now e, rs_note = None\<rparr>"
  from and_then_Inr[OF b[folded x_def]] obtain y s2 where y: "on_store (insertResponse x) s1 = (Inr y, s2)"
    and z: "t = s2" "ro_response r = toCallResponse y" "ro_invitation r = None" by auto
  have i: "y = x \<and> cs_calls (so_store s2) = cs_calls (so_store s1) \<and> so_made s2 = so_made s1"
    using y by (cases rule: insertResponse_cases[of x "so_store s1"]) (auto simp: on_store_eq)
  have "(answered_side (rp_kind i) (ca_side target) = ca_side target) = (rp_kind i = Back)"
    by (cases "ca_side target") (simp_all add: answered_side_def)
  then show ?thesis using lockCall_Inr[OF own] z i by (intro exI[of _ own]) (simp add: a_def x_def toCallResponse_def)
qed

text \<open>A back or a fade is the actor's own call: a new one under the new id, on the same market, on the
  same side exactly when it is a back, with the answered call as its parent, and the answer points
  to it. A challenge makes no call and hands on no receipt: it is answered with an invitation to
  the author. Either way the answered call was one the actor could see and not the actor's own.\<close>

theorem respond_mints_own_call:
  assumes "respond e callId responseId i actor s = (Inr r, t)"
  shows "\<exists>target. getCall (rp_targetCallId i) (so_store s) = Some target \<and> canSee e (so_store s) target (Some actor) \<and>
    ca_userId target \<noteq> actor \<and> rs_actorUserId (ro_response r) = actor \<and> rs_targetCallId (ro_response r) = ca_id target \<and>
    rs_kind (ro_response r) = rp_kind i \<and>
    (if rp_kind i = Challenge
     then cs_calls (so_store t) = cs_calls (so_store s) \<and> so_made t = so_made s \<and> ro_resultingCall r = None \<and>
       rs_resultingCallId (ro_response r) = None \<and>
       (\<exists>v. ro_invitation r = Some v \<and> iv_fromUserId v = actor \<and> iv_toUserId v = ca_userId target)
     else \<exists>own m. rd_getMarket (ce_reader e) (ca_marketId target) = Some m \<and> getCall callId (so_store s) = None \<and>
       cs_calls (so_store t) = jm_set callId own (cs_calls (so_store s)) \<and> ca_userId own = actor \<and> ca_marketId own = vm_id m \<and>
       (ca_side own = ca_side target \<longleftrightarrow> rp_kind i = Back) \<and> ca_parentCallId own = Some (ca_id target) \<and>
       rs_resultingCallId (ro_response r) = Some (ca_id own) \<and> so_made t = so_made s @ [(toCall own, m)] \<and> ro_invitation r = None)"
proof -
  obtain target where target: "getCall (rp_targetCallId i) (so_store s) = Some target" "canSee e (so_store s) target (Some actor)"
    using assms by (auto simp: respond_def requireVisibleCall_def split: option.splits if_splits)
  then have t: "requireVisibleCall e (so_store s) (rp_targetCallId i) (Some actor) = Inr target"
    by (simp add: requireVisibleCall_def)
  have self: "ca_userId target \<noteq> actor" using assms t by (auto simp: respond_def refuse_def)
  obtain m where m: "rd_getMarket (ce_reader e) (ca_marketId target) = Some m" and p: "panta_closed e m = None"
    using assms t self by (auto simp: respond_def requireMarket_def refuse_def split: option.splits)
  show ?thesis
  proof (cases "rp_kind i = Challenge")
    case True
    with assms t self m p have "challenge_call e responseId (rp_note i) target actor s = (Inr r, t)"
      by (simp add: respond_def requireMarket_def)
    from challenge_call_made[OF this] target self show ?thesis unfolding if_P[OF True] using True by auto
  next
    case False
    with assms t self m p have "answer_call e callId responseId i target m actor s = (Inr r, t)"
      by (auto simp: respond_def requireMarket_def refuse_def split: option.splits)
    from answer_call_made[OF this] target self m show ?thesis unfolding if_not_P[OF False] by blast
  qed
qed

text \<open>No field of an invitation is money-shaped, so the runtime check on it never fires.\<close>

lemma invitation_money_free: "assertMoneyFree (invitation_payload i)"
  unfolding invitation_payload_def by code_simp

text \<open>A challenge, an update, a follow and a withdrawal refuse without a trace.\<close>

lemma challenge_refused: "challenge_call e responseId note target actor s = (Inl x, t) \<Longrightarrow> t = s"
  by (cases rule: insertResponse_cases[of "\<lparr>rs_id = responseId, rs_actorUserId = actor, rs_targetCallId = ca_id target,
        rs_kind = Challenge, rs_resultingCallId = None, rs_createdAt = ce_now e, rs_note = the (Some (projr (trimOrNull note THESIS_MAX)))\<rparr>" "so_store s"])
    (auto simp: challenge_call_def and_then_def on_store_def Let_def invitation_money_free split: sum.splits prod.splits)

section \<open>Examples\<close>

definition sample_market :: venue_market where
  "sample_market = \<lparr>vm_id = ''m'', vm_venue = V_fixture, vm_venueMarketId = ''v'', vm_question = ''Q'', vm_rulesText = [],
     vm_category = ''football'', vm_outcomes = [(YES, ''Yes''), (NO, ''No'')], vm_status = M_OPEN, vm_rawStatus = ''open'',
     vm_opensAt = None, vm_closesAt = Some 1000, vm_resolvesAt = None, vm_resolutionSource = None, vm_lastSyncedAt = 0,
     vm_payloadVersion = 1\<rparr>"

definition sample_reader :: market_reader where
  "sample_reader = \<lparr>rd_getMarket = (\<lambda>k. if k = ''m'' then Some sample_market else None), rd_listMarkets = [sample_market],
     rd_latestSnapshot = (\<lambda>k. Some \<lparr>sn_marketId = k, sn_yesProbability = 1 / 2, sn_observedAt = 5, sn_source = Src_fixture\<rparr>),
     rd_latestSharePrice = (\<lambda>_. None), rd_getResolution = (\<lambda>_. None), rd_resolutionsSince = (\<lambda>_. [])\<rparr>"

text \<open>Money calls are on, and the call \<open>p\<close> is waiting for its money.\<close>

definition sample_calls_env :: calls_env where
  "sample_calls_env = \<lparr>ce_now = 100, ce_reader = sample_reader, ce_callCutoffMs = 0, ce_allowPantaCalls = False,
     ce_maxPageSize = 50, ce_updatesAvailable = True,
     ce_money = Some \<lparr>mv_isPrivate = (\<lambda>k. k = ''p''), mv_ownerView = (\<lambda>_. None)\<rparr>, ce_funding = (\<lambda>_. None),
     ce_moneyFor = (\<lambda>_. True), ce_parses = (\<lambda>_. False), ce_coll = (\<lambda>_ _. 0), ce_root = (\<lambda>x. x)\<rparr>"

definition say :: "string \<Rightarrow> side \<Rightarrow> string \<Rightarrow> calls_env \<times> service_op" where
  "say k sd u = (sample_calls_env, Create_op k \<lparr>ci_marketId = ''m'', ci_side = sd, ci_confidence = None, ci_thesis = None,
     ci_visibility = None, ci_parentCallId = None\<rparr> u)"

definition back_it :: "string \<Rightarrow> respond_input" where
  "back_it k = \<lparr>rp_targetCallId = k, rp_kind = Back, rp_confidence = None, rp_thesis = None, rp_visibility = None, rp_note = None\<rparr>"

definition sample_social :: social_state where
  "sample_social = service_run (\<lambda>_. False) [(sample_calls_env, Directory_op (sample_person ''ann'')),
     (sample_calls_env, Directory_op (sample_person ''bob'')), say ''a'' YES ''ann''] empty_social"

lemma sample_social_ok: "calls_ok (so_store sample_social)"
  unfolding sample_social_def by (rule service_calls_ok)

definition no_call :: create_input where
  "no_call = \<lparr>ci_marketId = ''m'', ci_side = NO, ci_confidence = None, ci_thesis = None, ci_visibility = None, ci_parentCallId = None\<rparr>"

theorem create_all_or_nothing_witness:
  "(\<exists>entry t c. createCall sample_calls_env ''b'' no_call ''bob'' sample_social = (Inr entry, t) \<and>
     cs_calls (so_store t) = jm_set ''b'' c (cs_calls (so_store sample_social)) \<and> ca_side c = NO \<and> ca_userId c = ''bob'') \<and>
   (\<exists>x. createCall sample_calls_env ''b'' no_call ''ann'' sample_social = (Inl x, sample_social))"
proof
  have i: "ci_side no_call = NO" by (simp add: no_call_def)
  have "\<not> isl (fst (createCall sample_calls_env ''b'' no_call ''bob'' sample_social))" by code_simp
  then obtain entry t where r: "createCall sample_calls_env ''b'' no_call ''bob'' sample_social = (Inr entry, t)"
    by (metis prod.collapse sum.collapse(2))
  obtain c q where "t = sample_social\<lparr>so_store := (so_store sample_social)\<lparr>cs_calls := jm_set ''b'' c (cs_calls (so_store sample_social)),
      cs_results := q\<rparr>, so_made := so_made t\<rparr>" "ca_side c = NO" "ca_userId c = ''bob''"
    using create_all_or_nothing[OF sample_social_ok r, unfolded sum.case i] by force
  then have "cs_calls (so_store t) = jm_set ''b'' c (cs_calls (so_store sample_social))" "ca_side c = NO" "ca_userId c = ''bob''"
    by (metis calls_store.select_convs(3) calls_store.surjective calls_store.update_convs(3,5) social_state.select_convs(1)
        social_state.surjective social_state.update_convs(1,2))+
  with r show "\<exists>entry t c. createCall sample_calls_env ''b'' no_call ''bob'' sample_social = (Inr entry, t) \<and>
     cs_calls (so_store t) = jm_set ''b'' c (cs_calls (so_store sample_social)) \<and> ca_side c = NO \<and> ca_userId c = ''bob''"
    by blast
  have "isl (fst (createCall sample_calls_env ''b'' no_call ''ann'' sample_social))" by code_simp
  then obtain x t where r: "createCall sample_calls_env ''b'' no_call ''ann'' sample_social = (Inl x, t)"
    by (cases "createCall sample_calls_env ''b'' no_call ''ann'' sample_social") (auto simp: isl_def)
  from create_all_or_nothing[OF sample_social_ok r] r
  show "\<exists>x. createCall sample_calls_env ''b'' no_call ''ann'' sample_social = (Inl x, sample_social)" by simp
qed

theorem respond_mints_own_call_witness:
  "\<exists>r t own. respond sample_calls_env ''b'' ''r'' (back_it ''a'') ''bob'' sample_social = (Inr r, t) \<and>
     cs_calls (so_store t) = jm_set ''b'' own (cs_calls (so_store sample_social)) \<and> ca_side own = YES"
proof -
  have "\<not> isl (fst (respond sample_calls_env ''b'' ''r'' (back_it ''a'') ''bob'' sample_social))" by code_simp
  then obtain r t where r: "respond sample_calls_env ''b'' ''r'' (back_it ''a'') ''bob'' sample_social = (Inr r, t)"
    by (metis prod.collapse sum.collapse(2))
  have k: "rp_kind (back_it ''a'') = Back" "rp_targetCallId (back_it ''a'') = ''a''" by (simp_all add: back_it_def)
  have sd: "map_option ca_side (getCall ''a'' (so_store sample_social)) = Some YES" by code_simp
  from respond_mints_own_call[OF r] sd r show ?thesis unfolding k by auto
qed

end
