(* ===== verification/SocialReads.thy ===== *)
theory SocialReads
  imports CallService
begin

text \<open>
  What the reads of the social calls may tell (\<open>src/calls/CallsService.ts\<close>), and what a refusal
  looks like on the wire (\<open>src/api/calls.ts\<close>). The lemmas show that a market's detail does not
  depend on the sides other people took until the viewer is on record there, that no read shows a
  call its viewer may not see, that following the cursor of the feed reaches every call once, and,
  as examples, where the code falls short of what it says.
\<close>

section \<open>The crowd split\<close>

text \<open>The store in which everybody but the viewer said YES on the market.\<close>

definition veil_call :: "string option \<Rightarrow> string \<Rightarrow> call_row \<Rightarrow> call_row" where
  "veil_call viewer m c = (if ca_marketId c = m \<and> Some (ca_userId c) \<noteq> viewer then c\<lparr>ca_side := YES\<rparr> else c)"

definition veil :: "string option \<Rightarrow> string \<Rightarrow> calls_store \<Rightarrow> calls_store" where
  "veil viewer m s = s\<lparr>cs_calls := map (\<lambda>(k, c). (k, veil_call viewer m c)) (cs_calls s)\<rparr>"

lemma veil_call_simps [simp]:
  "ca_id (veil_call v m c) = ca_id c" "ca_userId (veil_call v m c) = ca_userId c" "ca_marketId (veil_call v m c) = ca_marketId c"
  "ca_hiddenAt (veil_call v m c) = ca_hiddenAt c"
  by (simp_all add: veil_call_def)

lemma veil_store [simp]:
  "cs_people (veil v m s) = cs_people s" "cs_results (veil v m s) = cs_results s" "cs_responses (veil v m s) = cs_responses s"
  "getResult k (veil v m s) = getResult k s" "responsesForTarget k (veil v m s) = responsesForTarget k s"
  by (simp_all add: veil_def getResult_def responsesForTarget_def)

lemma veil_list: "listCalls (veil v m s) = map (veil_call v m) (listCalls s)"
  by (simp add: veil_def listCalls_def comp_def case_prod_beta)

lemma veil_live: "liveCalls (veil v m s) = map (veil_call v m) (liveCalls s)"
  by (simp add: liveCalls_def veil_list filter_map comp_def)

lemma find_map_veil: "(\<And>c. P (f c) = P c) \<Longrightarrow> find P (map f cs) = map_option f (find P cs)"
  by (induction cs) simp_all

lemma veil_liveCall: "liveCallByUserOnMarket u k (veil v m s) = map_option (veil_call v m) (liveCallByUserOnMarket u k s)"
  unfolding liveCallByUserOnMarket_def veil_live by (rule find_map_veil) simp

lemma veil_own: "ca_userId c = u \<Longrightarrow> veil_call (Some u) m c = c"
  by (simp add: veil_call_def)

lemma veil_decorate: "decorate (veil v m s) p = decorate s p"
  by (simp add: decorate_def callsByAuthor_def veil_list filter_map comp_def map_filter_def)

lemma veil_has_called: "has_called (veil v m s) viewer k = has_called s viewer k"
  by (simp add: has_called_def veil_liveCall split: option.split)

lemma veil_entry: "ca_userId c = u \<Longrightarrow> entryOf e (veil (Some u) m s) c (Some u) = entryOf e s c (Some u)"
  by (simp add: entryOf_def Let_def veil_decorate veil_has_called)

text \<open>C20: The crowd-split gate. Until the viewer has a public live call on a market, the detail of the
  market is the very same whichever sides other people took: it holds no split, and nothing else
  in it depends on them. A money call that has not landed unlocks nothing.\<close>

theorem crowd_gate:
  assumes "rd_getMarket (ce_reader e) k = Some m"
    and "\<And>c. truthy viewer \<Longrightarrow> liveCallByUserOnMarket (the viewer) (vm_id m) s = Some c \<Longrightarrow> isPrivate e (ca_id c)"
  shows "marketDetail e (veil viewer (vm_id m) s) k viewer = marketDetail e s k viewer \<and>
    (\<exists>d. marketDetail e s k viewer = Inr d \<and> md_crowdSplit d = None)"
proof (cases "truthy viewer")
  case False
  with assms(1) show ?thesis by (simp add: marketDetail_def requireMarket_def Let_def)
next
  case True
  then obtain u where u: "viewer = Some u" by (cases viewer) (simp_all add: truthy_def)
  show ?thesis
  proof (cases "liveCallByUserOnMarket u (vm_id m) s")
    case None
    with assms(1) True u show ?thesis by (simp add: marketDetail_def requireMarket_def Let_def veil_liveCall)
  next
    case (Some c)
    have "ca_userId c = u" using liveCall_Some[OF Some] by simp
    with assms(1) assms(2)[OF True] True Some u show ?thesis
      by (simp add: marketDetail_def requireMarket_def Let_def veil_liveCall veil_own veil_entry)
  qed
qed

section \<open>Nothing kept from the viewer is shown\<close>

definition shown_call :: "calls_env \<Rightarrow> calls_store \<Rightarrow> string option \<Rightarrow> call_row \<Rightarrow> bool" where
  "shown_call e s viewer w \<longleftrightarrow> (\<exists>c \<in> set (listCalls s). w = toCall c \<and>
     (Some (ca_userId c) = viewer \<or> ca_hiddenAt c = None \<and> \<not> isPrivate e (ca_id c) \<and>
        (ca_visibility c = Public \<or> (\<exists>v. viewer = Some v \<and> isFollowing v (ca_userId c) s))))"

lemma canSee_shown: "c \<in> set (listCalls s) \<Longrightarrow> canSee e s c viewer \<Longrightarrow> shown_call e s viewer (toCall c)"
  by (auto simp: shown_call_def canSee_def split: if_splits option.splits)

lemma entry_call [simp]: "fe_call (entryOf e s c viewer) = toCall c"
  by (simp add: entryOf_def Let_def)

lemma feed_rows_mem:
  "c \<in> set (feed_rows e s mode viewer x) \<Longrightarrow> c \<in> set (liveCalls s) \<and> canSee e s c viewer \<and> \<not> hiddenBy x (ca_userId c)"
  by (auto simp: feed_rows_def Let_def)

lemma live_listed: "c \<in> set (liveCalls s) \<Longrightarrow> c \<in> set (listCalls s)"
  by (simp add: liveCalls_def)

lemma get_listed: "getCall k s = Some c \<Longrightarrow> c \<in> set (listCalls s)"
  unfolding getCall_def listCalls_def using jm_get_mem[of "cs_calls s" k c] by force

text \<open>C21: Nobody is shown a call that is not theirs to see. Whatever the feed, a person's page or a call's
  page holds is a stored call that is the viewer's own, or is neither withdrawn nor waiting for
  its money and is public or by someone the viewer follows; and the feed holds nothing by anybody
  the viewer hides.\<close>

theorem nothing_private_shown:
  "list_all (\<lambda>n. shown_call e s viewer (fe_call n) \<and> \<not> hiddenBy x (ca_userId (fe_call n)))
     (fp_entries (feed e s mode cursor limit viewer x)) \<and>
   (case getPersonDetail e s ref viewer of Inl _ \<Rightarrow> True | Inr d \<Rightarrow> list_all (\<lambda>n. shown_call e s viewer (fe_call n)) (pd_calls d)) \<and>
   (case callDetail e s k viewer x of Inl _ \<Rightarrow> True
    | Inr d \<Rightarrow> shown_call e s viewer (fe_call (dt_entry d)) \<and> pred_option (\<lambda>n. shown_call e s viewer (fe_call n)) (dt_parent d))"
proof (intro conjI)
  show "list_all (\<lambda>n. shown_call e s viewer (fe_call n) \<and> \<not> hiddenBy x (ca_userId (fe_call n)))
     (fp_entries (feed e s mode cursor limit viewer x))"
    unfolding list_all_iff
  proof
    fix n
    assume "n \<in> set (fp_entries (feed e s mode cursor limit viewer x))"
    then obtain c where c: "c \<in> set (feed_rows e s mode viewer x)" "n = entryOf e s c viewer"
      by (auto simp: feed_def Let_def dest: in_set_takeD in_set_dropD)
    from feed_rows_mem[OF c(1)] canSee_shown[of c s e viewer] live_listed[of c s]
    show "shown_call e s viewer (fe_call n) \<and> \<not> hiddenBy x (ca_userId (fe_call n))"
      by (simp add: c(2)) (simp add: toCall_def)
  qed
  show "case getPersonDetail e s ref viewer of Inl _ \<Rightarrow> True | Inr d \<Rightarrow> list_all (\<lambda>n. shown_call e s viewer (fe_call n)) (pd_calls d)"
  proof (cases "getPersonDetail e s ref viewer")
    case (Inr d)
    then obtain p where "resolvePerson s ref = Inr p" by (cases "resolvePerson s ref") (simp_all add: getPersonDetail_def)
    with Inr have "pd_calls d = map (\<lambda>c. entryOf e s c viewer) (person_calls e s (pe_id p) viewer)"
      by (auto simp: getPersonDetail_def)
    moreover have "shown_call e s viewer (toCall c)" if "c \<in> set (person_calls e s u viewer)" for c u
      using that canSee_shown[of c s e viewer] by (simp add: person_calls_def callsByAuthor_def)
    ultimately show ?thesis by (simp add: Inr list_all_iff)
  qed simp
  show "case callDetail e s k viewer x of Inl _ \<Rightarrow> True
    | Inr d \<Rightarrow> shown_call e s viewer (fe_call (dt_entry d)) \<and> pred_option (\<lambda>n. shown_call e s viewer (fe_call n)) (dt_parent d)"
  proof (cases "callDetail e s k viewer x")
    case (Inr d)
    then obtain c where c: "getCall k s = Some c" "canSee e s c viewer" "dt_entry d = entryOf e s c viewer"
      and p: "dt_parent d = (case (if truthy (ca_parentCallId c) then getCall (the (ca_parentCallId c)) s else None) of None \<Rightarrow> None
                   | Some p \<Rightarrow> if canSee e s p viewer then Some (entryOf e s p viewer) else None)"
      by (auto simp: callDetail_def requireVisibleCall_def Let_def split: option.splits if_splits)
    have "shown_call e s viewer (toCall q)" if "getCall i s = Some q" "canSee e s q viewer" for q i
      using that get_listed canSee_shown by blast
    with c p show ?thesis by (auto simp: Inr split: option.splits if_splits)
  qed simp
qed

section \<open>The cursor of the feed\<close>

lemma int_str_no_colon: "CHR '':'' \<notin> set (int_str n)" "int_str n \<noteq> []"
proof -
  have "CHR '':'' \<notin> set (nat_str k)" for k
    using nat_str_digits[of "CHR '':''" k] by (auto simp: digit_val_def)
  then show "CHR '':'' \<notin> set (int_str n)" by (simp add: int_str_def)
  show "int_str n \<noteq> []" by (simp add: int_str_def)
qed

lemma base64url_nonempty: "s \<noteq> [] \<Longrightarrow> base64url s \<noteq> []"
proof
  assume "s \<noteq> []" "base64url s = []"
  then have "from_base64url [] = s" using base64url_inverse[of s] by simp
  with \<open>s \<noteq> []\<close> show False by (simp add: from_base64url_def map_filter_def)
qed

lemma cursor_roundtrip: "decodeCursor (Some (encodeCursor c)) = Some (of_int (ca_lockedAt c), ca_id c)"
proof -
  let ?n = "int_str (ca_lockedAt c)"
  have "takeWhile (\<lambda>x. x \<noteq> CHR '':'') (?n @ '':'' @ ca_id c) = ?n" "dropWhile (\<lambda>x. x \<noteq> CHR '':'') (?n @ '':'' @ ca_id c) = '':'' @ ca_id c"
    using int_str_no_colon(1)[of "ca_lockedAt c"] by (auto simp: takeWhile_append dropWhile_append)
  then show ?thesis
    using int_str_no_colon(2)[of "ca_lockedAt c"]
    by (simp add: decodeCursor_def encodeCursor_def truthy_def base64url_nonempty base64url_inverse js_number_int_str Let_def)
qed

lemma index_from_distinct:
  assumes "distinct (map ca_id rows)" "j < length rows"
  shows "index_from i (\<lambda>c. of_int (ca_lockedAt c) = (of_int (ca_lockedAt (rows ! j)) :: num) \<and> ca_id c = ca_id (rows ! j)) rows = Some (i + j)"
  using assms
proof (induction rows arbitrary: i j)
  case (Cons r rows)
  show ?case
  proof (cases j)
    case (Suc l)
    with Cons.prems have "ca_id r \<noteq> ca_id (rows ! l)" by auto
    with Cons Suc show ?thesis by simp
  qed simp
qed simp

text \<open>Following the cursor for \<open>n\<close> pages.\<close>

fun feed_walk :: "calls_env \<Rightarrow> calls_store \<Rightarrow> feed_mode \<Rightarrow> int option \<Rightarrow> string option \<Rightarrow> string list option \<Rightarrow> nat
    \<Rightarrow> string option \<Rightarrow> feed_entry list list" where
  "feed_walk e s mode limit viewer x 0 cursor = []"
| "feed_walk e s mode limit viewer x (Suc n) cursor =
     (let p = feed e s mode cursor limit viewer x
      in fp_entries p # (case fp_nextCursor p of None \<Rightarrow> [] | Some c \<Rightarrow> feed_walk e s mode limit viewer x n (Some c)))"

lemma feed_rows_distinct:
  assumes "calls_ok s"
  shows "distinct (map ca_id (feed_rows e s mode viewer x))"
proof -
  have "map ca_id (listCalls s) = map fst (cs_calls s)"
    using assms by (auto simp: calls_ok_def listCalls_def jm_all_def)
  then have "distinct (map ca_id (listCalls s))" using assms by (simp add: calls_ok_def)
  then show ?thesis by (simp add: feed_rows_def liveCalls_def Let_def distinct_map_filter)
qed

lemma feed_walk_from:
  assumes "distinct (map ca_id rows)" "rows = feed_rows e s mode viewer x" "start = page_start rows (decodeCursor cursor)"
    "start \<le> length rows" "length rows - start < n"
  shows "concat (feed_walk e s mode limit viewer x n cursor) = map (\<lambda>c. entryOf e s c viewer) (drop start rows) \<and>
    length (feed_walk e s mode limit viewer x n cursor) \<le> max 1 (length rows - start) \<and>
    feed_walk e s mode limit viewer x (n + m) cursor = feed_walk e s mode limit viewer x n cursor"
  using assms(3-)
proof (induction n arbitrary: cursor start)
  case (Suc n)
  define l where "l = nat (page_clamp (case limit of None \<Rightarrow> 20 | Some n \<Rightarrow> n) 1 (ce_maxPageSize e))"
  have l: "0 < l" by (simp add: l_def page_clamp_def)
  have page: "fp_entries (feed e s mode cursor limit viewer x) = map (\<lambda>c. entryOf e s c viewer) (take l (drop start rows))"
    "fp_nextCursor (feed e s mode cursor limit viewer x) =
       (if length rows > start + l \<and> take l (drop start rows) \<noteq> [] then Some (encodeCursor (last (take l (drop start rows)))) else None)"
    using Suc.prems(1) assms(2) by (simp_all add: feed_def Let_def l_def)
  show ?case
  proof (cases "length rows > start + l")
    case False
    then have "take l (drop start rows) = drop start rows" by simp
    with False page show ?thesis by (simp add: Let_def)
  next
    case True
    then have ne: "take l (drop start rows) \<noteq> []" using l by simp
    have last: "last (take l (drop start rows)) = rows ! (start + l - 1)"
      using True l by (simp add: last_conv_nth[OF ne] min_def)
    have "page_start rows (decodeCursor (Some (encodeCursor (rows ! (start + l - 1))))) = start + l"
      using index_from_distinct[OF assms(1), of "start + l - 1" 0] True l by (simp add: page_start_def cursor_roundtrip)
    with Suc.IH[of "start + l" "Some (encodeCursor (rows ! (start + l - 1)))"] True Suc.prems(3) l
    have ih: "concat (feed_walk e s mode limit viewer x n (Some (encodeCursor (rows ! (start + l - 1))))) =
        map (\<lambda>c. entryOf e s c viewer) (drop (start + l) rows)"
      "length (feed_walk e s mode limit viewer x n (Some (encodeCursor (rows ! (start + l - 1))))) \<le> length rows - (start + l)"
      "feed_walk e s mode limit viewer x (n + m) (Some (encodeCursor (rows ! (start + l - 1)))) =
        feed_walk e s mode limit viewer x n (Some (encodeCursor (rows ! (start + l - 1))))" by simp_all
    moreover have "Suc (length (feed_walk e s mode limit viewer x n (Some (encodeCursor (rows ! (start + l - 1)))))) \<le> length rows - start"
      using ih(2) True l by linarith
    moreover have "drop start rows = take l (drop start rows) @ drop (start + l) rows"
      by (metis append_take_drop_id drop_drop add.commute)
    ultimately show ?thesis using page ne True last
      by (simp add: Let_def) (metis map_append)
  qed
qed simp

text \<open>C37: Following the feed's cursor over an unchanged store gives every call the viewer may see exactly
  once, in the order of the feed, page after page, and ends: the walk stops by itself, on a page without
  a cursor, after at most as many pages as there are calls (one when there are none), so that following
  it any further adds no page; and no page is longer than asked for.\<close>

theorem feed_paging:
  assumes "calls_ok s" "length (feed_rows e s mode viewer x) < n"
  shows "concat (feed_walk e s mode limit viewer x n None) = map (\<lambda>c. entryOf e s c viewer) (feed_rows e s mode viewer x) \<and>
    distinct (map ca_id (feed_rows e s mode viewer x)) \<and>
    length (feed_walk e s mode limit viewer x n None) \<le> max 1 (length (feed_rows e s mode viewer x)) \<and>
    feed_walk e s mode limit viewer x (n + m) None = feed_walk e s mode limit viewer x n None \<and>
    list_all (\<lambda>p. int (length p) \<le> max 1 (min (case limit of None \<Rightarrow> 20 | Some l \<Rightarrow> l) (ce_maxPageSize e)))
      (feed_walk e s mode limit viewer x n None)"
proof (intro conjI)
  note d = feed_rows_distinct[OF assms(1), of e mode viewer x]
  show "distinct (map ca_id (feed_rows e s mode viewer x))" by (rule d)
  have w: "concat (feed_walk e s mode limit viewer x n None) = map (\<lambda>c. entryOf e s c viewer) (feed_rows e s mode viewer x) \<and>
      length (feed_walk e s mode limit viewer x n None) \<le> max 1 (length (feed_rows e s mode viewer x)) \<and>
      feed_walk e s mode limit viewer x (n + m) None = feed_walk e s mode limit viewer x n None"
    using feed_walk_from[OF d refl, of 0 None n limit m] assms(2) by (simp add: page_start_def decodeCursor_def truthy_def)
  show "concat (feed_walk e s mode limit viewer x n None) = map (\<lambda>c. entryOf e s c viewer) (feed_rows e s mode viewer x)"
    "length (feed_walk e s mode limit viewer x n None) \<le> max 1 (length (feed_rows e s mode viewer x))"
    "feed_walk e s mode limit viewer x (n + m) None = feed_walk e s mode limit viewer x n None"
    using w by blast+
  have "list_all (\<lambda>p. int (length p) \<le> max 1 (min (case limit of None \<Rightarrow> 20 | Some l \<Rightarrow> l) (ce_maxPageSize e)))
      (feed_walk e s mode limit viewer x n cursor)" for cursor
    by (induction n arbitrary: cursor) (auto simp: Let_def feed_def page_clamp_def split: option.split)
  then show "list_all (\<lambda>p. int (length p) \<le> max 1 (min (case limit of None \<Rightarrow> 20 | Some l \<Rightarrow> l) (ce_maxPageSize e)))
      (feed_walk e s mode limit viewer x n None)" .
qed

section \<open>What a refusal looks like\<close>

datatype transport_code = UNAUTHORIZED | NOT_FOUND | PRECONDITION_FAILED | CONFLICT | BAD_REQUEST | FORBIDDEN | INTERNAL_SERVER_ERROR

fun CALLS_CODE_MAP :: "calls_error \<Rightarrow> transport_code" where
  "CALLS_CODE_MAP CALLS_SIGNED_OUT = UNAUTHORIZED"
| "CALLS_CODE_MAP CALLS_USER_UNLINKED = UNAUTHORIZED"
| "CALLS_CODE_MAP CALL_MARKET_UNKNOWN = NOT_FOUND"
| "CALLS_CODE_MAP CALL_MARKET_CLOSED = PRECONDITION_FAILED"
| "CALLS_CODE_MAP CALL_NOT_FOUND = NOT_FOUND"
| "CALLS_CODE_MAP CALL_HIDDEN = NOT_FOUND"
| "CALLS_CODE_MAP CALL_NOT_VISIBLE = NOT_FOUND"
| "CALLS_CODE_MAP CALL_ALREADY_MADE = CONFLICT"
| "CALLS_CODE_MAP CALL_INVALID = BAD_REQUEST"
| "CALLS_CODE_MAP CALL_PARENT_MISMATCH = BAD_REQUEST"
| "CALLS_CODE_MAP RESPONSE_SELF = BAD_REQUEST"
| "CALLS_CODE_MAP RESPONSE_DUPLICATE = CONFLICT"
| "CALLS_CODE_MAP PERSON_NOT_FOUND = NOT_FOUND"
| "CALLS_CODE_MAP FOLLOW_SELF = BAD_REQUEST"
| "CALLS_CODE_MAP THESIS_NOT_AUTHOR = FORBIDDEN"
| "CALLS_CODE_MAP THESIS_UPDATE_LIMIT = CONFLICT"
| "CALLS_CODE_MAP THESIS_UPDATES_UNAVAILABLE = PRECONDITION_FAILED"
| "CALLS_CODE_MAP CALL_IMMUTABLE = INTERNAL_SERVER_ERROR"
| "CALLS_CODE_MAP CALL_NOT_DELETABLE = INTERNAL_SERVER_ERROR"
| "CALLS_CODE_MAP RESULT_SERVICE_WRITE_ONLY = INTERNAL_SERVER_ERROR"
| "CALLS_CODE_MAP RESULT_DERIVATION_VIOLATION = INTERNAL_SERVER_ERROR"

text \<open>A legitimate refusal never looks like a fault of the server, and a fault never like a refusal.\<close>

lemma transport_of_refusal:
  "rejected_code c \<longleftrightarrow> CALLS_CODE_MAP c \<notin> {UNAUTHORIZED, INTERNAL_SERVER_ERROR}"
  "signed_out_code c \<longleftrightarrow> CALLS_CODE_MAP c = UNAUTHORIZED"
  by (cases c; simp add: rejected_code_def signed_out_code_def)+

text \<open>A call that is not there and one the viewer may not see are refused alike.\<close>

lemma refusals_alike: "callDetail e s k viewer x = Inl y \<Longrightarrow> \<exists>c. y = Calls_error c \<and> CALLS_CODE_MAP c = NOT_FOUND"
  by (auto simp: callDetail_def requireVisibleCall_def Let_def split: option.splits if_splits)

section \<open>Examples\<close>

theorem crowd_gate_witness:
  "marketDetail sample_calls_env (veil (Some ''bob'') ''m'' (so_store sample_social)) ''m'' (Some ''bob'') =
   marketDetail sample_calls_env (so_store sample_social) ''m'' (Some ''bob'')"
proof -
  have m: "rd_getMarket (ce_reader sample_calls_env) ''m'' = Some sample_market"
    by (simp add: sample_calls_env_def sample_reader_def)
  have i: "vm_id sample_market = ''m''" by (simp add: sample_market_def)
  have n: "liveCallByUserOnMarket ''bob'' ''m'' (so_store sample_social) = None" by code_simp
  from crowd_gate[OF m, of "Some ''bob''" "so_store sample_social"] n show ?thesis unfolding i by simp
qed

theorem feed_paging_witness:
  "map (map (\<lambda>n. ca_id (fe_call n))) (feed_walk sample_calls_env (so_store sample_social) Global_feed (Some 1) None None 5 None) = [[''a'']] \<and>
   concat (feed_walk sample_calls_env (so_store sample_social) Global_feed (Some 1) None None 5 None) =
     map (\<lambda>c. entryOf sample_calls_env (so_store sample_social) c None) (feed_rows sample_calls_env (so_store sample_social) Global_feed None None) \<and>
   feed_walk sample_calls_env (so_store sample_social) Global_feed (Some 1) None None 105 None =
     feed_walk sample_calls_env (so_store sample_social) Global_feed (Some 1) None None 5 None"
proof -
  have l: "length (feed_rows sample_calls_env (so_store sample_social) Global_feed None None) < 5" by code_simp
  have "map (map (\<lambda>n. ca_id (fe_call n))) (feed_walk sample_calls_env (so_store sample_social) Global_feed (Some 1) None None 5 None) = [[''a'']]"
    by code_simp
  moreover have "(5::nat) + 100 = 105" by simp
  ultimately show ?thesis using feed_paging[OF sample_social_ok l, of "Some 1" 100] by metis
qed

section \<open>Where the code falls short of its word\<close>

text \<open>
  A refused back can still make a call. Bob backs Ann's call, withdraws his own, and backs again: the
  second answer is refused as a duplicate, but by then the new call is locked and its receipt handed on.
\<close>

theorem respond_refused_makes_call:
  "(case respond sample_calls_env ''b2'' ''r2'' (back_it ''a'') ''bob''
        (service_run (\<lambda>_. False) [(sample_calls_env, Respond_op ''b'' ''r'' (back_it ''a'') ''bob''),
           (sample_calls_env, Withdraw_op ''b'' ''bob'')] sample_social) of
      (Inl x, t) \<Rightarrow> x = Calls_error RESPONSE_DUPLICATE \<and> map ca_id (liveCalls (so_store t)) = [''a'', ''b2''] \<and>
        map (\<lambda>(c, m). ca_id c) (so_made t) = [''a'', ''b'', ''b2'']
    | (Inr _, _) \<Rightarrow> False)"
  by code_simp

text \<open>
  A money call that has not landed unlocks nothing in the detail of its market, but it does unlock the
  split on the strip of open calls, which says it has the same gate.
\<close>

theorem pending_call_opens_strip:
  "case service_run (\<lambda>_. False) [say ''p'' NO ''bob''] sample_social of s \<Rightarrow>
     (case marketDetail sample_calls_env (so_store s) ''m'' (Some ''bob'') of Inl _ \<Rightarrow> False | Inr d \<Rightarrow> md_crowdSplit d = None) \<and>
     map te_split (fst (service_topCalls sample_calls_env (so_store s) None (Some ''bob'') None)) = [Some (0, 0)]"
  by code_simp

text \<open>
  A money call that never landed is on no public record, but its result counts in the settled and
  correct calls that everybody is shown beside its author's name.
\<close>

theorem private_result_on_profile:
  "case service_run (\<lambda>_. False) [say ''p'' NO ''bob'', (sample_calls_env, Expire_op ''p''),
       (sample_calls_env, Settle_op ''p'' (Some (sample_evidence ''m'' R_NO)))] sample_social of s \<Rightarrow>
     (case getPersonDetail sample_calls_env (so_store s) ''bob'' None of
        Inl _ \<Rightarrow> False
      | Inr d \<Rightarrow> (pe_settledCalls (pd_person d), pe_correctCalls (pd_person d)) = (1, 1) \<and>
          cc_resolved (pb_counts (pd_record d)) = 0 \<and> cc_pending (pb_counts (pd_record d)) = 0 \<and> pd_calls d = [])"
  by code_simp

end
