(* ===== verification/MoneyStore.thy ===== *)
theory MoneyStore
  imports CallService
begin

text \<open>
  The two private money ledgers (\<open>src/money/store.ts\<close>, the in-memory stores, which refuse what the
  SQL guards refuse), the index of calls whose money has not landed (\<open>src/money/visibility.ts\<close>)
  and the index of confirmed fills (\<open>src/prediction/PantaFunding.ts\<close>). Times are the milliseconds
  behind the ISO texts. What the guards of a money call ask of the trades is an argument. An
  update is modelled twice: as one step, and as the two steps it takes around its questions. The
  lemmas show the life of a row, that one transfer at a time leaves a wallet, and that no fill
  is counted twice; and that two overlapping updates can undo a funded call.
\<close>

section \<open>Money calls\<close>

datatype money_end = Ended_filled | Ended_kept_free | Ended_discarded | Ended_expired | Ended_market_closed | Ended_not_created

record money_row =
  mr_call_id :: string
  mr_user_id :: string
  mr_market_id :: string
  mr_side :: side
  mr_kind :: "response_kind option"
  mr_target_call_id :: "string option"
  mr_amount_base_units :: string
  mr_max_slippage_bps :: int
  mr_wallet_address :: string
  mr_idempotency_key :: string
  mr_request_fingerprint :: string
  mr_attempts :: int
  mr_state :: money_state
  mr_ended_reason :: "money_end option"
  mr_expires_at :: int
  mr_created_at :: int
  mr_updated_at :: int

type_synonym money_rows = "(string, money_row) jmap"

datatype money_store_error =
  Duplicate_call | Call_already_exists | Target_matches_kind | Expiry_after_creation
| Funded_is_final | Attempts_only_go_up | Only_pending_requoted | Invalid_transition
| Funded_by_fill_only | Funded_by_last_quote_only | In_flight_cannot_expire | Reason_matches_state

text \<open>What the guards read of the trades; None where the store was made without the question.\<close>

record money_guards =
  gd_filled :: "(string \<Rightarrow> string \<Rightarrow> bool) option"
  gd_inFlight :: "(string \<Rightarrow> string \<Rightarrow> bool) option"
  gd_callExists :: "(string \<Rightarrow> bool) option"
  gd_lastQuoteFilled :: "(money_row \<Rightarrow> bool) option"

text \<open>A row that is asked for; its own creation time is optional.\<close>

definition money_by_key :: "string \<Rightarrow> string \<Rightarrow> money_rows \<Rightarrow> money_row option" where
  "money_by_key u key rows = find (\<lambda>r. mr_user_id r = u \<and> mr_idempotency_key r = key) (jm_values rows)"

definition money_by_call :: "string \<Rightarrow> string \<Rightarrow> money_rows \<Rightarrow> money_row option" where
  "money_by_call u k rows = (case jm_get rows k of None \<Rightarrow> None | Some r \<Rightarrow> if mr_user_id r = u then Some r else None)"

definition money_insert :: "money_guards \<Rightarrow> int \<Rightarrow> money_row \<Rightarrow> int option \<Rightarrow> money_rows
    \<Rightarrow> (money_store_error + money_row option) \<times> money_rows" where
  "money_insert g now intent created rows =
     (if money_by_key (mr_user_id intent) (mr_idempotency_key intent) rows \<noteq> None then (Inr None, rows)
      else if jm_get rows (mr_call_id intent) \<noteq> None then (Inl Duplicate_call, rows)
      else if (case gd_callExists g of None \<Rightarrow> False | Some f \<Rightarrow> f (mr_call_id intent)) then (Inl Call_already_exists, rows)
      else if (mr_kind intent = None) \<noteq> (mr_target_call_id intent = None) then (Inl Target_matches_kind, rows)
      else
        (let at0 = (case created of None \<Rightarrow> now | Some t \<Rightarrow> t);
             row = intent\<lparr>mr_attempts := 1, mr_state := Pending_money, mr_ended_reason := None,
                          mr_created_at := at0, mr_updated_at := at0\<rparr>
         in if mr_expires_at row \<le> mr_created_at row then (Inl Expiry_after_creation, rows)
            else (Inr (Some row), jm_set (mr_call_id row) row rows)))"

text \<open>A patch: the fields that are given.\<close>

record money_patch =
  mp_state :: "money_state option"
  mp_ended_reason :: "money_end option option"
  mp_attempts :: "int option"
  mp_wallet_address :: "string option"
  mp_expires_at :: "int option"

definition given :: "'a option \<Rightarrow> 'a \<Rightarrow> 'a" where
  "given p v = (case p of None \<Rightarrow> v | Some x \<Rightarrow> x)"

definition money_patched :: "money_patch \<Rightarrow> int \<Rightarrow> money_row \<Rightarrow> money_row" where
  "money_patched p now r = r\<lparr>mr_attempts := given (mp_attempts p) (mr_attempts r),
     mr_wallet_address := given (mp_wallet_address p) (mr_wallet_address r),
     mr_expires_at := given (mp_expires_at p) (mr_expires_at r), mr_state := given (mp_state p) (mr_state r),
     mr_ended_reason := given (mp_ended_reason p) (mr_ended_reason r), mr_updated_at := now\<rparr>"

definition money_transition :: "money_state \<Rightarrow> money_state \<Rightarrow> bool" where
  "money_transition a b \<longleftrightarrow>
     a = Pending_money \<and> b \<in> {Funded_money, Free_money, Expired_money} \<or>
     (a = Free_money \<or> a = Expired_money) \<and> b = Funded_money"

definition reason_ok :: "money_row \<Rightarrow> bool" where
  "reason_ok r \<longleftrightarrow>
     (case mr_state r of
        Pending_money \<Rightarrow> mr_ended_reason r = None
      | Funded_money \<Rightarrow> mr_ended_reason r = Some Ended_filled
      | Free_money \<Rightarrow> mr_ended_reason r = Some Ended_kept_free
      | Expired_money \<Rightarrow> mr_ended_reason r \<in> {Some Ended_discarded, Some Ended_expired, Some Ended_market_closed, Some Ended_not_created})"

text \<open>The checks of an update before its first question, on the row as it stood then.\<close>

definition update_checks :: "money_patch \<Rightarrow> int \<Rightarrow> money_row \<Rightarrow> money_store_error option" where
  "update_checks p now r =
     (let nxt = money_patched p now r
      in if mr_state r = Funded_money then Some Funded_is_final
         else if mr_attempts nxt < mr_attempts r then Some Attempts_only_go_up
         else if mr_state r \<noteq> Pending_money \<and>
            (mr_attempts nxt \<noteq> mr_attempts r \<or> mr_wallet_address nxt \<noteq> mr_wallet_address r \<or> mr_expires_at nxt \<noteq> mr_expires_at r)
         then Some Only_pending_requoted
         else if mr_state nxt \<noteq> mr_state r \<and> \<not> money_transition (mr_state r) (mr_state nxt) then Some Invalid_transition
         else None)"

definition asked :: "(string \<Rightarrow> string \<Rightarrow> bool) option \<Rightarrow> money_row \<Rightarrow> bool option" where
  "asked q r = map_option (\<lambda>f. f (mr_user_id r) (mr_call_id r)) q"

text \<open>Its questions and the last check.\<close>

definition update_guards :: "money_guards \<Rightarrow> money_row \<Rightarrow> money_row \<Rightarrow> money_store_error option" where
  "update_guards g r nxt =
     (if mr_state nxt \<noteq> mr_state r \<and> mr_state nxt = Funded_money \<and> asked (gd_filled g) r = Some False then Some Funded_by_fill_only
      else if mr_state nxt \<noteq> mr_state r \<and> mr_state nxt = Funded_money \<and> (mr_state r = Expired_money \<or> mr_state r = Free_money) \<and>
         (mr_ended_reason r = Some Ended_discarded \<or> (case gd_lastQuoteFilled g of None \<Rightarrow> False | Some f \<Rightarrow> \<not> f r))
      then Some Funded_by_last_quote_only
      else if mr_state nxt \<noteq> mr_state r \<and> mr_state nxt = Expired_money \<and> asked (gd_inFlight g) r = Some True then Some In_flight_cannot_expire
      else if \<not> reason_ok nxt then Some Reason_matches_state
      else None)"

text \<open>An update whose questions are answered before anything else touches the ledger, one step then (the
  database's ledger always works so); the code's two steps are \<open>update_begin\<close> and \<open>update_end\<close> below.\<close>

definition money_update :: "money_guards \<Rightarrow> int \<Rightarrow> string \<Rightarrow> money_state \<times> int \<Rightarrow> money_patch \<Rightarrow> money_rows
    \<Rightarrow> (money_store_error + money_row option) \<times> money_rows" where
  "money_update g now k expected p rows =
     (case jm_get rows k of
        None \<Rightarrow> (Inr None, rows)
      | Some r \<Rightarrow>
          if mr_state r \<noteq> fst expected \<or> mr_attempts r \<noteq> snd expected then (Inr None, rows)
          else
            (case update_checks p now r of
               Some e \<Rightarrow> (Inl e, rows)
             | None \<Rightarrow>
                 (let nxt = money_patched p now r
                  in case update_guards g r nxt of
                       Some e \<Rightarrow> (Inl e, rows)
                     | None \<Rightarrow> (Inr (Some nxt), jm_set k nxt rows))))"

definition money_private_rows :: "money_rows \<Rightarrow> money_row list" where
  "money_private_rows rows = filter (\<lambda>r. mr_state r \<noteq> Funded_money) (jm_values rows)"

definition money_pending_for_user :: "string \<Rightarrow> nat \<Rightarrow> money_rows \<Rightarrow> money_row list" where
  "money_pending_for_user u limit rows =
     take limit (sort_by (\<lambda>a b. mr_created_at b - mr_created_at a)
       (filter (\<lambda>r. mr_user_id r = u \<and> mr_state r = Pending_money) (jm_values rows)))"

definition money_last_amount :: "string \<Rightarrow> money_rows \<Rightarrow> string option" where
  "money_last_amount u rows =
     (case sort_by (\<lambda>a b. mr_created_at b - mr_created_at a) (filter (\<lambda>r. mr_user_id r = u) (jm_values rows)) of
        [] \<Rightarrow> None | r # _ \<Rightarrow> Some (mr_amount_base_units r))"

section \<open>The index of private calls\<close>

definition index_put :: "money_row \<Rightarrow> money_rows \<Rightarrow> money_rows" where
  "index_put r ix = (if mr_state r = Funded_money then jm_del (mr_call_id r) ix else jm_set (mr_call_id r) r ix)"

definition index_isPrivate :: "money_rows \<Rightarrow> string \<Rightarrow> bool" where
  "index_isPrivate ix k \<longleftrightarrow> jm_get ix k \<noteq> None"

definition index_ownerView :: "money_rows \<Rightarrow> string \<Rightarrow> owner_view option" where
  "index_ownerView ix k =
     (case jm_get ix k of
        None \<Rightarrow> None
      | Some r \<Rightarrow> if mr_state r = Funded_money then None
          else Some \<lparr>ov_state = mr_state r, ov_amountBaseUnits = mr_amount_base_units r, ov_side = mr_side r, ov_expiresAt = mr_expires_at r\<rparr>)"

definition index_pending :: "money_rows \<Rightarrow> money_row list" where
  "index_pending ix = filter (\<lambda>r. mr_state r = Pending_money) (jm_values ix)"

definition index_closed :: "money_rows \<Rightarrow> int \<Rightarrow> money_row list" where
  "index_closed ix since = filter (\<lambda>r. (mr_state r = Expired_money \<or> mr_state r = Free_money) \<and> since \<le> mr_expires_at r) (jm_values ix)"

definition index_hydrate :: "money_row list \<Rightarrow> money_rows \<Rightarrow> money_rows" where
  "index_hydrate rs ix = fold index_put rs ix"

definition index_visibility :: "money_rows \<Rightarrow> money_visibility" where
  "index_visibility ix = \<lparr>mv_isPrivate = index_isPrivate ix, mv_ownerView = index_ownerView ix\<rparr>"

section \<open>The index of confirmed fills\<close>

record filled_row =
  fr_id :: "string option"
  fr_call_id :: string
  fr_amount_base_units :: "string option"
  fr_side :: "side option"

record funded_call =
  fc_at :: int
  fc_amount :: nat
  fc_side :: "side option"
  fc_known :: bool

record funding_index =
  fx_funded :: "(string, funded_call) jmap"
  fx_seen :: "string list"

definition empty_funding :: funding_index where
  "empty_funding = \<lparr>fx_funded = [], fx_seen = []\<rparr>"

definition fill_amount :: "filled_row \<Rightarrow> nat option" where
  "fill_amount r = (case fr_amount_base_units r of None \<Rightarrow> None | Some a \<Rightarrow> if a = [] then None else parse_digits 0 a)"

definition funding_add :: "filled_row \<Rightarrow> int \<Rightarrow> funding_index \<Rightarrow> bool \<times> funding_index" where
  "funding_add r at0 x =
     (if (case fr_id r of None \<Rightarrow> False | Some i \<Rightarrow> i \<in> set (fx_seen x)) then (False, x)
      else
        (let x = (case fr_id r of None \<Rightarrow> x | Some i \<Rightarrow> x\<lparr>fx_seen := set_add i (fx_seen x)\<rparr>);
             amount = fill_amount r
         in case jm_get (fx_funded x) (fr_call_id r) of
              None \<Rightarrow> (True, x\<lparr>fx_funded := jm_set (fr_call_id r) \<lparr>fc_at = at0, fc_amount = (case amount of None \<Rightarrow> 0 | Some n \<Rightarrow> n),
                  fc_side = fr_side r, fc_known = (amount \<noteq> None \<and> fr_id r \<noteq> None)\<rparr> (fx_funded x)\<rparr>)
            | Some h \<Rightarrow> (False, x\<lparr>fx_funded := jm_set (fr_call_id r)
                (case amount of
                   Some n \<Rightarrow> if fr_id r \<noteq> None \<and> fc_known h then h\<lparr>fc_amount := fc_amount h + n\<rparr> else h\<lparr>fc_known := False\<rparr>
                 | None \<Rightarrow> h\<lparr>fc_known := False\<rparr>) (fx_funded x)\<rparr>)))"

definition fundingOf :: "funding_index \<Rightarrow> string \<Rightarrow> call_funding option" where
  "fundingOf x k =
     map_option (\<lambda>f. \<lparr>fn_fundedAt = fc_at f,
        fn_amountBaseUnits = (if fc_known f \<and> fc_amount f > 0 then Some (nat_str (fc_amount f)) else None),
        fn_side = fc_side f\<rparr>) (jm_get (fx_funded x) k)"

text \<open>One refresh: the pages the ledger gives, each row at its own time, until one is short and at most 20.\<close>

fun funding_refresh :: "nat \<Rightarrow> (filled_row \<times> int) list list \<Rightarrow> nat \<Rightarrow> funding_index \<Rightarrow> nat \<times> funding_index" where
  "funding_refresh pageSize [] added x = (added, x)"
| "funding_refresh pageSize (page # pages) added x =
     (let (added, x) = fold (\<lambda>(r, at0) (n, x). case funding_add r at0 x of (new, x) \<Rightarrow> (if new then n + 1 else n, x)) page (added, x)
      in if length page < pageSize then (added, x) else funding_refresh pageSize pages added x)"

definition refresh_fills :: "nat \<Rightarrow> (filled_row \<times> int) list list \<Rightarrow> funding_index \<Rightarrow> nat \<times> funding_index" where
  "refresh_fills pageSize pages x = funding_refresh pageSize (take 20 pages) 0 x"

section \<open>Wallet transfers\<close>

datatype transfer_kind = Cash_out | Deposit_transfer
datatype transfer_state = Built_transfer | Submitted_transfer | Confirmed_transfer | Failed_transfer

record transfer_evidence =
  tv_messageHash :: string
  tv_signature :: string
  tv_amountBaseUnits :: string
  tv_slot :: int

record prepared_transfer =
  px_from :: string
  px_to :: string
  px_amountBaseUnits :: string
  px_mint :: string
  px_transaction :: string
  px_messageHash :: string
  px_recentBlockhash :: string
  px_lastValidBlockHeight :: int
  px_createsAccount :: bool
  px_networkFeeLamports :: string
  px_rentLamports :: string
  px_createdAt :: int
  px_expiresAt :: int

record transfer_row =
  tr_id :: string
  tr_user_id :: string
  tr_kind :: transfer_kind
  tr_from_wallet :: string
  tr_to_wallet :: string
  tr_amount_base_units :: string
  tr_idempotency_key :: string
  tr_request_fingerprint :: string
  tr_state :: transfer_state
  tr_prepared :: prepared_transfer
  tr_signed_transaction :: "string option"
  tr_signature :: "string option"
  tr_confirm_evidence :: "transfer_evidence option"
  tr_created_at :: int
  tr_updated_at :: int

type_synonym transfer_rows = "(string, transfer_row) jmap"

datatype transfer_store_error =
  Not_to_self | One_in_flight_per_wallet | Settled_is_final | One_transaction_only | Invalid_transfer_transition | Evidence_state

definition in_flight :: "transfer_row \<Rightarrow> bool" where
  "in_flight r \<longleftrightarrow> tr_state r = Built_transfer \<or> tr_state r = Submitted_transfer"

definition transfer_by_key :: "string \<Rightarrow> string \<Rightarrow> transfer_rows \<Rightarrow> transfer_row option" where
  "transfer_by_key u key rows = find (\<lambda>r. tr_user_id r = u \<and> tr_idempotency_key r = key) (jm_values rows)"

definition transfer_by_id :: "string \<Rightarrow> string \<Rightarrow> transfer_rows \<Rightarrow> transfer_row option" where
  "transfer_by_id u i rows = (case jm_get rows i of None \<Rightarrow> None | Some r \<Rightarrow> if tr_user_id r = u then Some r else None)"

definition in_flight_from :: "string \<Rightarrow> transfer_rows \<Rightarrow> transfer_row option" where
  "in_flight_from w rows = find (\<lambda>r. tr_from_wallet r = w \<and> in_flight r) (jm_values rows)"

definition transfer_insert :: "int \<Rightarrow> transfer_row \<Rightarrow> transfer_rows \<Rightarrow> (transfer_store_error + transfer_row option) \<times> transfer_rows" where
  "transfer_insert now intent rows =
     (if transfer_by_key (tr_user_id intent) (tr_idempotency_key intent) rows \<noteq> None then (Inr None, rows)
      else if tr_from_wallet intent = tr_to_wallet intent then (Inl Not_to_self, rows)
      else if in_flight_from (tr_from_wallet intent) rows \<noteq> None then (Inl One_in_flight_per_wallet, rows)
      else
        (let row = intent\<lparr>tr_state := Built_transfer, tr_signed_transaction := None, tr_signature := None,
                          tr_confirm_evidence := None, tr_created_at := now, tr_updated_at := now\<rparr>
         in (Inr (Some row), jm_set (tr_id row) row rows)))"

record transfer_patch =
  tp_state :: "transfer_state option"
  tp_signed_transaction :: "string option option"
  tp_signature :: "string option option"
  tp_confirm_evidence :: "transfer_evidence option option"

definition transfer_patched :: "transfer_patch \<Rightarrow> int \<Rightarrow> transfer_row \<Rightarrow> transfer_row" where
  "transfer_patched p now r = r\<lparr>tr_state := given (tp_state p) (tr_state r),
     tr_signed_transaction := given (tp_signed_transaction p) (tr_signed_transaction r),
     tr_signature := given (tp_signature p) (tr_signature r),
     tr_confirm_evidence := given (tp_confirm_evidence p) (tr_confirm_evidence r), tr_updated_at := now\<rparr>"

definition transfer_transition :: "transfer_state \<Rightarrow> transfer_state \<Rightarrow> bool" where
  "transfer_transition a b \<longleftrightarrow>
     a = Built_transfer \<and> b \<in> {Submitted_transfer, Failed_transfer} \<or>
     a = Submitted_transfer \<and> b \<in> {Confirmed_transfer, Failed_transfer}"

definition transfer_update :: "int \<Rightarrow> string \<Rightarrow> transfer_state \<Rightarrow> transfer_patch \<Rightarrow> transfer_rows
    \<Rightarrow> (transfer_store_error + transfer_row option) \<times> transfer_rows" where
  "transfer_update now i previous p rows =
     (case jm_get rows i of
        None \<Rightarrow> (Inr None, rows)
      | Some r \<Rightarrow>
          if tr_state r \<noteq> previous then (Inr None, rows)
          else if tr_state r = Confirmed_transfer \<or> tr_state r = Failed_transfer then (Inl Settled_is_final, rows)
          else if tr_signature r \<noteq> None \<and>
             (given (tp_signature p) (tr_signature r) \<noteq> tr_signature r \<or>
              given (tp_signed_transaction p) (tr_signed_transaction r) \<noteq> tr_signed_transaction r)
          then (Inl One_transaction_only, rows)
          else
            (let nxt = transfer_patched p now r
             in if tr_state nxt \<noteq> tr_state r \<and> \<not> transfer_transition (tr_state r) (tr_state nxt) then (Inl Invalid_transfer_transition, rows)
                else if (tr_state nxt = Confirmed_transfer) \<noteq> (tr_confirm_evidence nxt \<noteq> None) then (Inl Evidence_state, rows)
                else (Inr (Some nxt), jm_set i nxt rows)))"

definition transfers_listForUser :: "string \<Rightarrow> nat \<Rightarrow> transfer_rows \<Rightarrow> transfer_row list" where
  "transfers_listForUser u limit rows =
     take limit (sort_by (\<lambda>a b. tr_created_at b - tr_created_at a)
       (filter (\<lambda>r. tr_user_id r = u \<and> tr_signature r \<noteq> None) (jm_values rows)))"

definition transfers_submitted :: "nat \<Rightarrow> transfer_rows \<Rightarrow> transfer_row list" where
  "transfers_submitted limit rows =
     take limit (sort_by (\<lambda>a b. tr_updated_at a - tr_updated_at b) (filter (\<lambda>r. tr_state r = Submitted_transfer) (jm_values rows)))"

section \<open>The life of a money call\<close>

text \<open>What a later row of a call may be: the same terms, at least as many attempts, and a state its
  state leads to; once funded it does not change, and out of \<open>PENDING\<close> its quote terms do not.\<close>

definition same_terms :: "money_row \<Rightarrow> money_row \<Rightarrow> bool" where
  "same_terms r q \<longleftrightarrow> q\<lparr>mr_attempts := mr_attempts r, mr_state := mr_state r, mr_ended_reason := mr_ended_reason r,
     mr_wallet_address := mr_wallet_address r, mr_expires_at := mr_expires_at r, mr_updated_at := mr_updated_at r\<rparr> = r"

definition money_later :: "money_row \<Rightarrow> money_row \<Rightarrow> bool" where
  "money_later r q \<longleftrightarrow> same_terms r q \<and> mr_attempts r \<le> mr_attempts q \<and>
     (mr_state r = Funded_money \<longrightarrow> q = r) \<and>
     (mr_state q = mr_state r \<or> money_transition (mr_state r) (mr_state q)) \<and>
     (mr_state r \<noteq> Pending_money \<longrightarrow> mr_attempts q = mr_attempts r \<and> mr_wallet_address q = mr_wallet_address r \<and>
        mr_expires_at q = mr_expires_at r)"

lemma same_terms_eq:
  "same_terms r q \<Longrightarrow> mr_call_id q = mr_call_id r \<and> mr_user_id q = mr_user_id r \<and> mr_idempotency_key q = mr_idempotency_key r \<and>
     mr_side q = mr_side r \<and> mr_amount_base_units q = mr_amount_base_units r \<and> mr_market_id q = mr_market_id r"
  unfolding same_terms_def by (cases r; cases q; simp)

lemma same_terms_trans: "same_terms r q \<Longrightarrow> same_terms q x \<Longrightarrow> same_terms r x"
  unfolding same_terms_def by (cases r; cases q; cases x; simp)

lemma same_terms_refl: "same_terms r r"
  by (simp add: same_terms_def)

lemma money_later_refl [simp]: "money_later r r"
  by (simp add: money_later_def same_terms_def)

lemma money_later_trans: "money_later r q \<Longrightarrow> money_later q x \<Longrightarrow> money_later r x"
  unfolding money_later_def by (auto intro: same_terms_trans simp: money_transition_def)

lemma money_update_cases:
  obtains (same) e where "money_update g now k expected p rows = (e, rows)" "\<And>r. e \<noteq> Inr (Some r)"
  | (put) r q where "money_update g now k expected p rows = (Inr (Some q), jm_set k q rows)" "jm_get rows k = Some r"
      "q = money_patched p now r" "money_later r q" "reason_ok q" "update_guards g r q = None" "mr_state r \<noteq> Funded_money"
proof (cases "jm_get rows k")
  case None
  then show ?thesis by (intro same[of "Inr None"]) (simp_all add: money_update_def)
next
  case (Some r)
  show ?thesis
  proof (cases "mr_state r = fst expected \<and> mr_attempts r = snd expected \<and> update_checks p now r = None \<and> update_guards g r (money_patched p now r) = None")
    case True
    have "same_terms r (money_patched p now r)" by (simp add: same_terms_def money_patched_def)
    moreover from True have "money_later r (money_patched p now r)"
      using calculation by (auto simp: update_checks_def Let_def money_later_def split: if_splits)
    moreover have "mr_state r \<noteq> Funded_money" using True by (auto simp: update_checks_def Let_def)
    moreover have "reason_ok (money_patched p now r)" using True by (auto simp: update_guards_def split: if_splits)
    ultimately show ?thesis using Some True by (intro put[of "money_patched p now r" r]) (simp_all add: money_update_def Let_def)
  next
    case False
    then show ?thesis
      by (intro same[of "fst (money_update g now k expected p rows)"])
        (use Some in \<open>auto simp: money_update_def Let_def split: option.splits\<close>)
  qed
qed

lemma money_insert_cases:
  obtains (same) e where "money_insert g now intent created rows = (e, rows)" "\<And>r. e \<noteq> Inr (Some r)"
  | (new) r where "money_insert g now intent created rows = (Inr (Some r), jm_set (mr_call_id r) r rows)"
      "jm_get rows (mr_call_id r) = None" "money_by_key (mr_user_id r) (mr_idempotency_key r) rows = None"
      "mr_state r = Pending_money" "reason_ok r" "mr_attempts r = 1" "(mr_kind r = None) = (mr_target_call_id r = None)"
      "mr_created_at r < mr_expires_at r" "mr_user_id r = mr_user_id intent" "mr_call_id r = mr_call_id intent"
      "mr_wallet_address r = mr_wallet_address intent" "mr_market_id r = mr_market_id intent"
proof -
  define q where "q = intent\<lparr>mr_attempts := 1, mr_state := Pending_money, mr_ended_reason := None,
                          mr_created_at := (case created of None \<Rightarrow> now | Some t \<Rightarrow> t),
                          mr_updated_at := (case created of None \<Rightarrow> now | Some t \<Rightarrow> t)\<rparr>"
  show ?thesis
  proof (cases "money_insert g now intent created rows = (Inr (Some q), jm_set (mr_call_id q) q rows)")
    case True
    then have c: "money_by_key (mr_user_id intent) (mr_idempotency_key intent) rows = None \<and> jm_get rows (mr_call_id intent) = None \<and>
      (mr_kind intent = None) = (mr_target_call_id intent = None) \<and> mr_created_at q < mr_expires_at q"
      by (auto simp: money_insert_def Let_def q_def not_le split: if_splits)
    show ?thesis by (rule new[of q]) (use True c in \<open>simp_all add: q_def reason_ok_def\<close>)
  next
    case False
    then show ?thesis
      by (intro same[of "fst (money_insert g now intent created rows)"])
        (auto simp: money_insert_def Let_def q_def split: if_splits)
  qed
qed

definition money_ok :: "money_rows \<Rightarrow> bool" where
  "money_ok rows \<longleftrightarrow> jm_wf rows \<and> jm_all (\<lambda>k r. mr_call_id r = k \<and> reason_ok r) rows \<and>
     (\<forall>j k q r. jm_get rows j = Some q \<and> jm_get rows k = Some r \<and> mr_user_id q = mr_user_id r \<and>
        mr_idempotency_key q = mr_idempotency_key r \<longrightarrow> j = k)"

lemma by_key_None:
  "money_by_key u key rows = None \<Longrightarrow> jm_get rows k = Some r \<Longrightarrow> \<not> (mr_user_id r = u \<and> mr_idempotency_key r = key)"
  using jm_get_mem[of rows k r] by (force simp: money_by_key_def find_None_iff)

lemma money_ok_row: "money_ok rows \<Longrightarrow> jm_get rows k = Some r \<Longrightarrow> mr_call_id r = k \<and> reason_ok r"
  unfolding money_ok_def using jm_all_get[of "\<lambda>k r. mr_call_id r = k \<and> reason_ok r" rows k r] by blast

lemma money_ok_set:
  assumes "money_ok rows" "mr_call_id r = k" "reason_ok r"
    "\<And>j q. jm_get rows j = Some q \<Longrightarrow> mr_user_id q = mr_user_id r \<Longrightarrow> mr_idempotency_key q = mr_idempotency_key r \<Longrightarrow> j = k"
  shows "money_ok (jm_set k r rows)"
proof -
  from assms(1) have a: "jm_wf rows" "jm_all (\<lambda>k r. mr_call_id r = k \<and> reason_ok r) rows"
    unfolding money_ok_def by blast+
  have w: "jm_wf (jm_set k r rows)" "jm_all (\<lambda>k r. mr_call_id r = k \<and> reason_ok r) (jm_set k r rows)"
    using jm_wf_set[OF a(1)] jm_all_set[OF a(2), where k = k and v = r] assms(2,3) by blast+
  have "i = j" if "jm_get (jm_set k r rows) i = Some q" "jm_get (jm_set k r rows) j = Some x"
      "mr_user_id q = mr_user_id x" "mr_idempotency_key q = mr_idempotency_key x" for i j q x
  proof (cases "i = k")
    case True
    with that have "j \<noteq> k \<Longrightarrow> jm_get rows j = Some x" "q = r" by (auto simp del: map_of_eq_Some_iff)
    with assms(4)[of j x] that(3,4) True show ?thesis by (cases "j = k") simp_all
  next
    case False
    show ?thesis
    proof (cases "j = k")
      case True
      with that False have "jm_get rows i = Some q" "x = r" by (auto simp del: map_of_eq_Some_iff)
      with assms(4)[of i q] that(3,4) True show ?thesis by simp
    next
      case False
      with that \<open>i \<noteq> k\<close> have "jm_get rows i = Some q" "jm_get rows j = Some x" by (auto simp del: map_of_eq_Some_iff)
      with assms(1) that(3,4) show ?thesis unfolding money_ok_def by blast
    qed
  qed
  with w show ?thesis unfolding money_ok_def by blast
qed

lemma money_update_ok: "money_ok rows \<Longrightarrow> money_ok (snd (money_update g now k expected p rows))"
proof (cases rule: money_update_cases[of g now k expected p rows])
  case (put r q)
  assume ok: "money_ok rows"
  have t: "same_terms r q" using put(4) by (simp add: money_later_def)
  have i: "mr_call_id r = k" using money_ok_row[OF ok put(2)] by simp
  have "money_ok (jm_set k q rows)"
  proof (rule money_ok_set[OF ok])
    show "mr_call_id q = k" using same_terms_eq[OF t] i by simp
    show "reason_ok q" by (rule put(5))
  next
    fix j x
    assume "jm_get rows j = Some x" "mr_user_id x = mr_user_id q" "mr_idempotency_key x = mr_idempotency_key q"
    with ok put(2) same_terms_eq[OF t] show "j = k" unfolding money_ok_def by metis
  qed
  with put(1) show ?thesis by simp
qed simp

lemma money_insert_ok: "money_ok rows \<Longrightarrow> money_ok (snd (money_insert g now r created rows))"
proof (cases rule: money_insert_cases[of g now r created rows])
  case (new q)
  assume ok: "money_ok rows"
  have "money_ok (jm_set (mr_call_id q) q rows)"
    by (rule money_ok_set[OF ok refl new(5)]) (use new(3) by_key_None in blast)
  with new(1) show ?thesis by simp
qed simp

lemma money_ok_empty [simp]: "money_ok []"
  by (simp add: money_ok_def)

definition sample_money :: "string \<Rightarrow> money_row" where
  "sample_money k = \<lparr>mr_call_id = k, mr_user_id = ''ann'', mr_market_id = ''m'', mr_side = YES, mr_kind = None,
     mr_target_call_id = None, mr_amount_base_units = ''5000000'', mr_max_slippage_bps = 100, mr_wallet_address = ''w'',
     mr_idempotency_key = ''key'' @ k, mr_request_fingerprint = ''f'', mr_attempts = 0, mr_state = Free_money,
     mr_ended_reason = None, mr_expires_at = 1000, mr_created_at = 0, mr_updated_at = 0\<rparr>"

definition to_state :: "money_state \<Rightarrow> money_end \<Rightarrow> money_patch" where
  "to_state st why = \<lparr>mp_state = Some st, mp_ended_reason = Some (Some why), mp_attempts = None, mp_wallet_address = None, mp_expires_at = None\<rparr>"

text \<open>Guards under which the call has, or has not, a filled trade.\<close>

definition trade_guards :: "bool \<Rightarrow> money_guards" where
  "trade_guards b = \<lparr>gd_filled = Some (\<lambda>_ _. b), gd_inFlight = Some (\<lambda>_ _. b), gd_callExists = None, gd_lastQuoteFilled = None\<rparr>"

text \<open>A row becomes funded only over a confirmed fill, and a closed one only over its own last quote,
  never once discarded.\<close>

lemma funded_only_by_fill:
  assumes "money_update g now k expected p rows = (Inr (Some q), rows')" "mr_state q = Funded_money"
  shows "\<exists>r. jm_get rows k = Some r \<and> mr_state r \<noteq> Funded_money \<and>
    (\<forall>f. gd_filled g = Some f \<longrightarrow> f (mr_user_id r) (mr_call_id r)) \<and>
    (mr_state r \<noteq> Pending_money \<longrightarrow> mr_ended_reason r \<noteq> Some Ended_discarded \<and> (\<forall>f. gd_lastQuoteFilled g = Some f \<longrightarrow> f r))"
proof (cases rule: money_update_cases[of g now k expected p rows])
  case (put r x)
  with assms have x: "x = q" by simp
  have "update_guards g r q = None" "mr_state r \<noteq> Funded_money" using put x by simp_all
  with assms(2) put(2) show ?thesis
    by (intro exI[of _ r]) (cases "mr_state r"; auto simp: update_guards_def asked_def split: if_splits option.splits)
qed (use assms in auto)

section \<open>Overlapping updates\<close>

text \<open>
  An update reads its row, asks its questions and then stores the next row; another update can run
  between the reading and the storing. \<open>update_begin\<close> is the first half, \<open>update_end\<close> the second.
\<close>

definition update_begin :: "int \<Rightarrow> string \<Rightarrow> money_state \<times> int \<Rightarrow> money_patch \<Rightarrow> money_rows \<Rightarrow> (money_row \<times> money_row) option" where
  "update_begin now k expected p rows =
     (case jm_get rows k of
        None \<Rightarrow> None
      | Some r \<Rightarrow> if mr_state r \<noteq> fst expected \<or> mr_attempts r \<noteq> snd expected \<or> update_checks p now r \<noteq> None then None
                  else Some (r, money_patched p now r))"

definition update_end :: "money_guards \<Rightarrow> string \<Rightarrow> money_row \<times> money_row \<Rightarrow> money_rows \<Rightarrow> money_rows" where
  "update_end g k rq rows = (if update_guards g (fst rq) (snd rq) = None then jm_set k (snd rq) rows else rows)"

lemma update_is_begin_end:
  "snd (money_update g now k expected p rows) =
     (case update_begin now k expected p rows of None \<Rightarrow> rows | Some rq \<Rightarrow> update_end g k rq rows)"
proof (cases "jm_get rows k")
  case None
  then show ?thesis by (simp add: money_update_def update_begin_def)
next
  case (Some r)
  then show ?thesis
    by (cases "update_checks p now r"; cases "update_guards g r (money_patched p now r)")
      (simp_all add: money_update_def update_begin_def update_end_def Let_def)
qed

text \<open>
  The ledger in use: rows are inserted, updates begin, each under a handle of its own, and end in any
  order. The state is the rows and the updates that have begun and not ended, each with its call, the
  row it read and the row it will store.
\<close>

type_synonym ledger_use = "money_rows \<times> (nat, string \<times> money_row \<times> money_row) jmap"

datatype ledger_move =
  Insert_row money_guards int money_row "int option"
| Begin_update nat int string "money_state \<times> int" money_patch
| End_update nat money_guards

fun ledger_step :: "ledger_move \<Rightarrow> ledger_use \<Rightarrow> ledger_use" where
  "ledger_step (Insert_row g now r created) (rows, begun) = (snd (money_insert g now r created rows), begun)"
| "ledger_step (Begin_update h now k expected p) (rows, begun) =
     (case update_begin now k expected p rows of
        None \<Rightarrow> (rows, begun)
      | Some rq \<Rightarrow> if jm_get begun h = None then (rows, jm_set h (k, rq) begun) else (rows, begun))"
| "ledger_step (End_update h g) (rows, begun) =
     (case jm_get begun h of None \<Rightarrow> (rows, begun) | Some (k, rq) \<Rightarrow> (update_end g k rq rows, jm_del h begun))"

definition ledger_run :: "ledger_move list \<Rightarrow> ledger_use \<Rightarrow> ledger_use" where
  "ledger_run steps u = fold ledger_step steps u"

text \<open>An update that nothing overlaps is its begin and its end, one after the other.\<close>

lemma jm_del_set_fresh: "jm_get m k = None \<Longrightarrow> jm_del k (jm_set k v m) = m"
  by (induction m) (auto simp: jm_del_fresh split: if_splits)

lemma update_is_two_steps:
  assumes "jm_get begun h = None"
  shows "ledger_run [Begin_update h now k expected p, End_update h g] (rows, begun) =
    (snd (money_update g now k expected p rows), begun)"
  using assms by (simp add: ledger_run_def update_is_begin_end jm_del_set_fresh split: option.split)

text \<open>No update of the call ends on a row other than the one it read.\<close>

fun ends_fresh :: "string \<Rightarrow> ledger_move list \<Rightarrow> ledger_use \<Rightarrow> bool" where
  "ends_fresh k [] u \<longleftrightarrow> True"
| "ends_fresh k (x # xs) u \<longleftrightarrow>
     (case x of
        End_update h g \<Rightarrow>
          (case jm_get (snd u) h of
             None \<Rightarrow> True
           | Some (j, r, q) \<Rightarrow> j \<noteq> k \<or> jm_get (fst u) k = Some r)
      | _ \<Rightarrow> True) \<and> ends_fresh k xs (ledger_step x u)"

text \<open>What every update under way has read and will store.\<close>

definition begun_ok :: "money_rows \<Rightarrow> string \<times> money_row \<times> money_row \<Rightarrow> bool" where
  "begun_ok rows b \<longleftrightarrow> (case b of (k, r, q) \<Rightarrow> money_later r q \<and>
     (case jm_get rows k of None \<Rightarrow> False | Some x \<Rightarrow> same_terms r x))"

definition ledger_ok :: "ledger_use \<Rightarrow> bool" where
  "ledger_ok u \<longleftrightarrow> money_ok (fst u) \<and> jm_wf (snd u) \<and> jm_all (\<lambda>_. begun_ok (fst u)) (snd u)"

lemma same_terms_sym: "same_terms r q \<Longrightarrow> same_terms q r"
  unfolding same_terms_def by (cases r; cases q; simp)

lemma update_begin_Some:
  assumes "update_begin now k expected p rows = Some (r, q)"
  shows "jm_get rows k = Some r" "money_later r q"
  using assms by (auto simp: update_begin_def update_checks_def Let_def money_later_def same_terms_def money_patched_def
      split: option.splits if_splits)

lemma update_end_cases:
  obtains (same) "update_end g k (r, q) rows = rows"
  | (put) "update_end g k (r, q) rows = jm_set k q rows" "reason_ok q"
  by (cases "update_guards g r q = None") (auto simp: update_end_def update_guards_def split: if_splits)

lemma begun_ok_same:
  assumes "begun_ok rows b" "\<And>k x. jm_get rows k = Some x \<Longrightarrow> \<exists>y. jm_get rows' k = Some y \<and> same_terms x y"
  shows "begun_ok rows' b"
  using assms unfolding begun_ok_def by (fastforce split: option.splits dest: same_terms_trans)

text \<open>One step: the ledger stays in order, no row goes away or changes its terms, and a row that no
  overlapping update touches moves only forward.\<close>

lemma ledger_step_ok:
  assumes "ledger_ok u"
  shows "ledger_ok (ledger_step x u)"
    and "jm_get (fst u) k = Some r \<Longrightarrow> \<exists>q. jm_get (fst (ledger_step x u)) k = Some q \<and> same_terms r q \<and>
      (ends_fresh k [x] u \<longrightarrow> money_later r q)"
proof -
  obtain rows begun where u: "u = (rows, begun)" by (cases u)
  have ok: "money_ok rows" "jm_wf begun" and all: "jm_all (\<lambda>_. begun_ok rows) begun"
    using assms by (simp_all add: u ledger_ok_def)
  have "ledger_ok (ledger_step x u) \<and> (\<forall>k r. jm_get rows k = Some r \<longrightarrow>
    (\<exists>q. jm_get (fst (ledger_step x u)) k = Some q \<and> same_terms r q \<and> (ends_fresh k [x] u \<longrightarrow> money_later r q)))"
  proof (cases x)
    case (Insert_row g now y created)
    have m: "money_ok (snd (money_insert g now y created rows))" by (rule money_insert_ok[OF ok(1)])
    have rows: "jm_get (snd (money_insert g now y created rows)) k = Some r" if "jm_get rows k = Some r" for k r
    proof (cases rule: money_insert_cases[of g now y created rows])
      case (new q)
      then show ?thesis using that by (cases "k = mr_call_id q") (simp_all del: map_of_eq_Some_iff)
    qed (use that in simp)
    have "jm_all (\<lambda>_. begun_ok (snd (money_insert g now y created rows))) begun"
      using all rows same_terms_refl by (fastforce simp: jm_all_def intro: begun_ok_same)
    then show ?thesis using m ok(2) rows by (simp add: u Insert_row ledger_ok_def same_terms_refl)
  next
    case (Begin_update h now j expected p)
    show ?thesis
    proof (cases "update_begin now j expected p rows")
      case None
      then show ?thesis using assms by (simp add: u Begin_update same_terms_refl)
    next
      case (Some rq)
      obtain r q where rq: "rq = (r, q)" by (cases rq)
      have "begun_ok rows (j, rq)"
        using update_begin_Some[OF Some[unfolded rq]] by (simp add: begun_ok_def rq same_terms_refl)
      then show ?thesis using assms ok all Some
        by (simp add: u Begin_update ledger_ok_def same_terms_refl jm_all_set)
    qed
  next
    case (End_update h g)
    show ?thesis
    proof (cases "jm_get begun h")
      case None
      then show ?thesis using assms by (simp add: u End_update same_terms_refl)
    next
      case (Some b)
      obtain j r q where b: "b = (j, r, q)" by (cases b)
      have bo: "begun_ok rows (j, r, q)" using jm_all_get[OF all Some] b by simp
      then obtain y where later: "money_later r q" and y: "jm_get rows j = Some y" "same_terms r y"
        by (auto simp: begun_ok_def split: option.splits)
      have t: "same_terms y q" using later y(2) by (auto simp: money_later_def intro: same_terms_trans same_terms_sym)
      have step: "ledger_step x u = (update_end g j (r, q) rows, jm_del h begun)" using Some b by (simp add: u End_update)
      have fresh: "ends_fresh j [x] u \<longleftrightarrow> y = r" using Some b y(1) by (simp add: u End_update)
      have all': "jm_all (\<lambda>_. begun_ok rows) (jm_del h begun)" using all by simp
      show ?thesis
      proof (cases rule: update_end_cases[of g j r q rows])
        case same
        then show ?thesis using ok all' by (simp add: step ledger_ok_def same_terms_refl)
      next
        case put
        have "money_ok (jm_set j q rows)"
        proof (rule money_ok_set[OF ok(1)])
          show "mr_call_id q = j" using same_terms_eq[OF t] money_ok_row[OF ok(1) y(1)] by simp
          show "reason_ok q" by (rule put(2))
        next
          fix i z
          assume "jm_get rows i = Some z" "mr_user_id z = mr_user_id q" "mr_idempotency_key z = mr_idempotency_key q"
          with ok(1) y(1) same_terms_eq[OF t] show "i = j" unfolding money_ok_def by metis
        qed
        moreover have rows: "\<exists>w. jm_get (jm_set j q rows) i = Some w \<and> same_terms z w \<and> (ends_fresh i [x] u \<longrightarrow> money_later z w)"
          if "jm_get rows i = Some z" for i z
          using that t y(1) fresh later by (cases "i = j") (auto simp: same_terms_refl simp del: map_of_eq_Some_iff)
        moreover have "jm_all (\<lambda>_. begun_ok (jm_set j q rows)) (jm_del h begun)"
          using all' rows by (fastforce simp: jm_all_def intro: begun_ok_same)
        ultimately show ?thesis using ok(2) put(1) by (simp add: step ledger_ok_def)
      qed
    qed
  qed
  then show "ledger_ok (ledger_step x u)"
    and "jm_get (fst u) k = Some r \<Longrightarrow> \<exists>q. jm_get (fst (ledger_step x u)) k = Some q \<and> same_terms r q \<and>
      (ends_fresh k [x] u \<longrightarrow> money_later r q)"
    by (simp_all add: u)
qed

lemma ledger_run_ok: "ledger_ok u \<Longrightarrow> ledger_ok (ledger_run steps u)"
  unfolding ledger_run_def by (induction steps arbitrary: u) (simp_all add: ledger_step_ok(1))

lemma ledger_ok_empty [simp]: "ledger_ok ([], [])"
  by (simp add: ledger_ok_def jm_all_def)

lemma ledger_run_later:
  assumes "ledger_ok u" "jm_get (fst u) k = Some r"
  shows "\<exists>q. jm_get (fst (ledger_run steps u)) k = Some q \<and> same_terms r q \<and> (ends_fresh k steps u \<longrightarrow> money_later r q)"
  using assms unfolding ledger_run_def
proof (induction steps arbitrary: u r)
  case (Cons x xs)
  obtain q where q: "jm_get (fst (ledger_step x u)) k = Some q" "same_terms r q" "ends_fresh k [x] u \<longrightarrow> money_later r q"
    using ledger_step_ok(2)[OF Cons.prems] by blast
  obtain z where z: "jm_get (fst (fold ledger_step xs (ledger_step x u))) k = Some z" "same_terms q z"
      "ends_fresh k xs (ledger_step x u) \<longrightarrow> money_later q z"
    using Cons.IH[OF ledger_step_ok(1)[OF Cons.prems(1)] q(1)] by blast
  have "ends_fresh k (x # xs) u \<longleftrightarrow> ends_fresh k [x] u \<and> ends_fresh k xs (ledger_step x u)" by simp
  then show ?case using q z by (auto intro: same_terms_trans money_later_trans simp del: ends_fresh.simps)
qed (simp add: same_terms_refl)

definition sample_ledger_steps :: "ledger_move list" where
  "sample_ledger_steps = [Insert_row (trade_guards False) 10 (sample_money ''p'') None,
     Begin_update 1 20 ''p'' (Pending_money, 1) (to_state Expired_money Ended_expired), End_update 1 (trade_guards False)]"

text \<open>C34: The life of a money call. However the ledger is used, with updates that overlap in any way, no
  row goes away, a row keeps its terms, the reason it ended fits its state, and an idempotency key
  of a person names one row. And as long as no update of the call is stored over a row other
  than the one it read, the call moves only along its states: funded it never changes again, a
  closed one can only become funded, its quote terms untouched, and attempts only go up. (An
  update reads its row, waits for its questions about trades and stores without looking again,
  so an overlap can undo even a funded row: \<open>funded_undone_by_overlap\<close>. The database's ledger
  compares and sets in one statement.)\<close>

theorem money_row_life:
  assumes "u = ledger_run steps ([], [])" "v = ledger_run later u" "jm_get (fst u) k = Some r"
  shows "(\<exists>q. jm_get (fst v) k = Some q \<and> same_terms r q \<and> reason_ok q \<and> (if ends_fresh k later u then money_later r q else True)) \<and>
    (\<forall>j q. jm_get (fst v) j = Some q \<and> mr_user_id q = mr_user_id r \<and> mr_idempotency_key q = mr_idempotency_key r \<longrightarrow> j = k)"
proof -
  have oku: "ledger_ok u" using assms(1) by (simp add: ledger_run_ok)
  then have "ledger_ok v" using assms(2) by (simp add: ledger_run_ok)
  then have ok: "money_ok (fst v)" by (simp add: ledger_ok_def)
  obtain q where q: "jm_get (fst v) k = Some q" "same_terms r q" "ends_fresh k later u \<longrightarrow> money_later r q"
    using ledger_run_later[OF oku assms(3), of later] assms(2) by blast
  have e: "mr_user_id q = mr_user_id r \<and> mr_idempotency_key q = mr_idempotency_key r"
    using same_terms_eq[OF q(2)] by blast
  have "j = k" if "jm_get (fst v) j = Some x" "mr_user_id x = mr_user_id r" "mr_idempotency_key x = mr_idempotency_key r" for j x
    using ok that q(1) e unfolding money_ok_def by metis
  with q money_ok_row[OF ok q(1)] show ?thesis by auto
qed

theorem money_row_life_witness:
  "\<exists>q. jm_get (fst (ledger_run [Begin_update 1 30 ''p'' (Expired_money, 1) (to_state Funded_money Ended_filled),
        Begin_update 2 30 ''p'' (Expired_money, 1) (to_state Free_money Ended_kept_free), End_update 1 (trade_guards True)]
      (ledger_run sample_ledger_steps ([], [])))) ''p'' = Some q \<and>
     mr_state q = Funded_money \<and> mr_amount_base_units q = ''5000000'' \<and> mr_attempts q = 1"
proof -
  let ?u = "ledger_run sample_ledger_steps ([], [])"
  let ?later = "[Begin_update 1 30 ''p'' (Expired_money, 1) (to_state Funded_money Ended_filled),
        Begin_update 2 30 ''p'' (Expired_money, 1) (to_state Free_money Ended_kept_free), End_update 1 (trade_guards True)]"
  have "map_option (\<lambda>r. (mr_amount_base_units r, mr_attempts r, mr_state r)) (jm_get (fst ?u) ''p'') =
      Some (''5000000'', 1, Expired_money)" by code_simp
  then obtain r where r: "jm_get (fst ?u) ''p'' = Some r" "mr_amount_base_units r = ''5000000''" "mr_attempts r = 1"
      "mr_state r = Expired_money"
    by (auto simp del: map_of_eq_Some_iff)
  have f: "map_option mr_state (jm_get (fst (ledger_run ?later ?u)) ''p'') = Some Funded_money" by code_simp
  have "ends_fresh ''p'' ?later ?u" by code_simp
  then obtain q where q: "jm_get (fst (ledger_run ?later ?u)) ''p'' = Some q" "same_terms r q" "money_later r q"
    using money_row_life[OF refl refl r(1), of ?later] by auto
  have "mr_state q = Funded_money" using f q(1) by simp
  moreover have "mr_amount_base_units q = ''5000000''" using same_terms_eq[OF q(2)] r(2) by simp
  moreover have "mr_attempts q = 1" using q(3) r(3,4) by (simp add: money_later_def)
  ultimately show ?thesis using q(1) by blast
qed

text \<open>
  The sweeper begins to expire a call while nothing is going through; the buy is signed and fills, and
  the call is funded; then the sweeper's update ends. The funded row, which is final, is gone.
\<close>

theorem funded_undone_by_overlap:
  "let open_call = [Insert_row (trade_guards False) 10 (sample_money ''p'') None,
         Begin_update 1 20 ''p'' (Pending_money, 1) (to_state Expired_money Ended_expired),
         Begin_update 2 20 ''p'' (Pending_money, 1) (to_state Funded_money Ended_filled)];
       state = \<lambda>steps. map_option mr_state (jm_get (fst (ledger_run (open_call @ steps) ([], []))) ''p'')
   in state [End_update 2 (trade_guards True)] = Some Funded_money \<and>
     state [End_update 2 (trade_guards True), End_update 1 (trade_guards False)] = Some Expired_money"
  by code_simp

section \<open>The index of private calls agrees with the ledger\<close>

definition index_agrees :: "money_rows \<Rightarrow> money_rows \<Rightarrow> bool" where
  "index_agrees rows ix \<longleftrightarrow> (\<forall>k. jm_get ix k = (case jm_get rows k of None \<Rightarrow> None
     | Some r \<Rightarrow> if mr_state r = Funded_money then None else Some r))"

lemma index_put_agrees:
  assumes "index_agrees rows ix" "mr_call_id r = k"
  shows "index_agrees (jm_set k r rows) (index_put r ix)"
  using assms by (simp add: index_agrees_def index_put_def)

lemma get_index_hydrate:
  assumes "\<And>r. r \<in> set rs \<Longrightarrow> mr_state r \<noteq> Funded_money" "distinct (map mr_call_id rs)"
  shows "jm_get (index_hydrate rs ix) k = (case find (\<lambda>r. mr_call_id r = k) rs of None \<Rightarrow> jm_get ix k | Some r \<Rightarrow> Some r)"
  using assms
proof (induction rs arbitrary: ix)
  case Nil
  then show ?case by (simp add: index_hydrate_def)
next
  case (Cons r rs)
  have "jm_get (index_hydrate rs (index_put r ix)) k =
      (case find (\<lambda>r. mr_call_id r = k) rs of None \<Rightarrow> jm_get (index_put r ix) k | Some r \<Rightarrow> Some r)"
    using Cons.IH Cons.prems by simp
  moreover have "find (\<lambda>q. mr_call_id q = k) rs = None" if "mr_call_id r = k"
    using Cons.prems(2) that by (auto simp: find_None_iff image_iff)
  ultimately show ?case
    using Cons.prems(1)[of r] by (auto simp: index_hydrate_def index_put_def split: option.split)
qed

lemma hydrated_agrees:
  assumes "money_ok rows"
  shows "index_agrees rows (index_hydrate (money_private_rows rows) [])"
  unfolding index_agrees_def
proof
  fix k
  from assms have w: "jm_wf rows" and all: "jm_all (\<lambda>k r. mr_call_id r = k \<and> reason_ok r) rows"
    unfolding money_ok_def by blast+
  have key: "\<And>k r. (k, r) \<in> set rows \<Longrightarrow> mr_call_id r = k" using jm_all_in[OF all] by blast
  have m: "map mr_call_id (jm_values rows) = map fst rows" using key by auto
  then have d: "distinct (map mr_call_id (money_private_rows rows))"
    unfolding money_private_rows_def by (intro distinct_map_filter) (simp only: m w)
  have f: "find (\<lambda>r. mr_call_id r = k) (money_private_rows rows) =
      (case jm_get rows k of None \<Rightarrow> None | Some r \<Rightarrow> if mr_state r = Funded_money then None else Some r)"
  proof -
    have "find (\<lambda>r. mr_call_id r = k) (filter (\<lambda>r. mr_state r \<noteq> Funded_money) (jm_values m)) =
        (case jm_get m k of None \<Rightarrow> None | Some r \<Rightarrow> if mr_state r = Funded_money then None else Some r)"
      if "jm_wf m" "\<And>k r. (k, r) \<in> set m \<Longrightarrow> mr_call_id r = k" for m
      using that
    proof (induction m)
      case (Cons kr m)
      obtain j r where kr: "kr = (j, r)" by (cases kr)
      have r: "mr_call_id r = j" using Cons.prems(2) kr by simp
      have n: "jm_get m j = None" using Cons.prems(1) kr by (simp add: map_of_eq_None_iff)
      have IH: "find (\<lambda>r. mr_call_id r = k) (filter (\<lambda>r. mr_state r \<noteq> Funded_money) (jm_values m)) =
        (case jm_get m k of None \<Rightarrow> None | Some r \<Rightarrow> if mr_state r = Funded_money then None else Some r)"
        using Cons.prems by (intro Cons.IH) auto
      show ?case
      proof (cases "j = k")
        case True
        with r n IH kr show ?thesis by (cases "mr_state r = Funded_money") (simp_all only: list.map snd_conv filter.simps
          map_of.simps fst_conv fun_upd_same option.case find.simps if_True if_False not_False_eq_True simp_thms)
      next
        case False
        with r IH kr show ?thesis by (cases "mr_state r = Funded_money") (simp_all del: map_of_eq_Some_iff)
      qed
    qed simp
    from this[OF w key] show ?thesis by (simp add: money_private_rows_def)
  qed
  have "\<And>r. r \<in> set (money_private_rows rows) \<Longrightarrow> mr_state r \<noteq> Funded_money" by (simp add: money_private_rows_def)
  from get_index_hydrate[OF this d, of "[]" k] f
  show "jm_get (index_hydrate (money_private_rows rows) []) k =
      (case jm_get rows k of None \<Rightarrow> None | Some r \<Rightarrow> if mr_state r = Funded_money then None else Some r)"
    by (simp split: option.split)
qed

section \<open>The life of a transfer\<close>

datatype transfer_op = Transfer_insert int transfer_row | Transfer_update int string transfer_state transfer_patch

fun transfer_step :: "transfer_op \<Rightarrow> transfer_rows \<Rightarrow> transfer_rows" where
  "transfer_step (Transfer_insert now r) rows = snd (transfer_insert now r rows)"
| "transfer_step (Transfer_update now i previous p) rows = snd (transfer_update now i previous p rows)"

definition transfer_run :: "transfer_op list \<Rightarrow> transfer_rows \<Rightarrow> transfer_rows" where
  "transfer_run ops rows = fold transfer_step ops rows"

text \<open>Ids are drawn fresh for every insert.\<close>

fun fresh_transfer :: "transfer_op \<Rightarrow> transfer_rows \<Rightarrow> bool" where
  "fresh_transfer (Transfer_insert now r) rows = (jm_get rows (tr_id r) = None)"
| "fresh_transfer (Transfer_update _ _ _ _) rows = True"

fun fresh_transfers :: "transfer_op list \<Rightarrow> transfer_rows \<Rightarrow> bool" where
  "fresh_transfers [] rows = True"
| "fresh_transfers (o1 # ops) rows = (fresh_transfer o1 rows \<and> fresh_transfers ops (transfer_step o1 rows))"

definition same_transfer :: "transfer_row \<Rightarrow> transfer_row \<Rightarrow> bool" where
  "same_transfer r q \<longleftrightarrow> q\<lparr>tr_state := tr_state r, tr_signed_transaction := tr_signed_transaction r,
     tr_signature := tr_signature r, tr_confirm_evidence := tr_confirm_evidence r, tr_updated_at := tr_updated_at r\<rparr> = r"

definition settled_transfer :: "transfer_row \<Rightarrow> bool" where
  "settled_transfer r \<longleftrightarrow> tr_state r = Confirmed_transfer \<or> tr_state r = Failed_transfer"

text \<open>A later row of a transfer: the same terms, a state that follows, final once settled, and one signed
  transaction for good.\<close>

definition transfer_later :: "transfer_row \<Rightarrow> transfer_row \<Rightarrow> bool" where
  "transfer_later r q \<longleftrightarrow> same_transfer r q \<and> (settled_transfer r \<longrightarrow> q = r) \<and>
     (tr_state r = Submitted_transfer \<longrightarrow> tr_state q \<noteq> Built_transfer) \<and>
     (tr_signature r \<noteq> None \<longrightarrow> tr_signature q = tr_signature r \<and> tr_signed_transaction q = tr_signed_transaction r)"

definition transfer_row_ok :: "transfer_row \<Rightarrow> bool" where
  "transfer_row_ok r \<longleftrightarrow> (tr_state r = Confirmed_transfer \<longleftrightarrow> tr_confirm_evidence r \<noteq> None) \<and> tr_from_wallet r \<noteq> tr_to_wallet r"

definition transfers_ok :: "transfer_rows \<Rightarrow> bool" where
  "transfers_ok rows \<longleftrightarrow> (\<forall>k r. jm_get rows k = Some r \<longrightarrow> tr_id r = k \<and> transfer_row_ok r) \<and>
     (\<forall>j k q r. jm_get rows j = Some q \<and> jm_get rows k = Some r \<and> tr_from_wallet q = tr_from_wallet r \<and> in_flight q \<and> in_flight r
        \<longrightarrow> j = k)"

lemma same_transfer_eq: "same_transfer r q \<Longrightarrow> tr_id q = tr_id r \<and> tr_from_wallet q = tr_from_wallet r \<and> tr_to_wallet q = tr_to_wallet r \<and>
    tr_amount_base_units q = tr_amount_base_units r \<and> tr_user_id q = tr_user_id r"
  unfolding same_transfer_def by (cases r; cases q; simp)

lemma same_transfer_trans: "same_transfer r q \<Longrightarrow> same_transfer q x \<Longrightarrow> same_transfer r x"
  unfolding same_transfer_def by (cases r; cases q; cases x; simp)

lemma transfer_later_refl [simp]: "transfer_later r r"
  by (simp add: transfer_later_def same_transfer_def)

lemma transfer_later_trans: "transfer_later r q \<Longrightarrow> transfer_later q x \<Longrightarrow> transfer_later r x"
  unfolding transfer_later_def settled_transfer_def
  by (cases "tr_state q") (auto intro: same_transfer_trans)

lemma transfer_update_cases:
  obtains (same) e where "transfer_update now i previous p rows = (e, rows)"
  | (put) r q where "transfer_update now i previous p rows = (Inr (Some q), jm_set i q rows)" "jm_get rows i = Some r"
      "transfer_later r q" "tr_state q = Confirmed_transfer \<longleftrightarrow> tr_confirm_evidence q \<noteq> None" "in_flight r"
proof (cases "jm_get rows i")
  case None
  then show ?thesis by (intro same[of "Inr None"]) (simp add: transfer_update_def)
next
  case (Some r)
  define q where "q = transfer_patched p now r"
  show ?thesis
  proof (cases "transfer_update now i previous p rows = (Inr (Some q), jm_set i q rows)")
    case True
    show ?thesis
    proof (cases "tr_state r = previous \<and> \<not> (tr_state r = Confirmed_transfer \<or> tr_state r = Failed_transfer) \<and>
        \<not> (tr_signature r \<noteq> None \<and> (given (tp_signature p) (tr_signature r) \<noteq> tr_signature r \<or>
              given (tp_signed_transaction p) (tr_signed_transaction r) \<noteq> tr_signed_transaction r)) \<and>
        \<not> (tr_state q \<noteq> tr_state r \<and> \<not> transfer_transition (tr_state r) (tr_state q)) \<and>
        (tr_state q = Confirmed_transfer) = (tr_confirm_evidence q \<noteq> None)")
      case ok: True
      have "same_transfer r q" by (simp add: same_transfer_def q_def transfer_patched_def)
      moreover have "tr_signature r \<noteq> None \<Longrightarrow> tr_signature q = tr_signature r \<and> tr_signed_transaction q = tr_signed_transaction r"
        using ok by (auto simp: q_def transfer_patched_def)
      ultimately have "transfer_later r q" using ok by (auto simp: transfer_later_def settled_transfer_def transfer_transition_def)
      moreover have "in_flight r" using ok by (cases "tr_state r") (simp_all add: in_flight_def)
      ultimately show ?thesis using put[OF True Some] ok by blast
    next
      case False
      then show ?thesis
        by (intro same[of "fst (transfer_update now i previous p rows)"])
          (use Some in \<open>auto simp: transfer_update_def Let_def q_def[symmetric]\<close>)
    qed
  next
    case False
    then show ?thesis
      by (intro same[of "fst (transfer_update now i previous p rows)"])
        (use Some in \<open>auto simp: transfer_update_def Let_def q_def[symmetric]\<close>)
  qed
qed

lemma transfer_insert_cases:
  obtains (same) e where "transfer_insert now r rows = (e, rows)"
  | (new) q where "transfer_insert now r rows = (Inr (Some q), jm_set (tr_id r) q rows)" "tr_id q = tr_id r"
      "in_flight_from (tr_from_wallet q) rows = None" "transfer_row_ok q" "in_flight q" "tr_from_wallet q = tr_from_wallet r"
proof -
  define q where "q = r\<lparr>tr_state := Built_transfer, tr_signed_transaction := None, tr_signature := None,
                          tr_confirm_evidence := None, tr_created_at := now, tr_updated_at := now\<rparr>"
  show ?thesis
  proof (cases "transfer_by_key (tr_user_id r) (tr_idempotency_key r) rows = None \<and> tr_from_wallet r \<noteq> tr_to_wallet r \<and>
      in_flight_from (tr_from_wallet r) rows = None")
    case True
    then show ?thesis by (intro new[of q]) (simp_all add: transfer_insert_def Let_def q_def transfer_row_ok_def in_flight_def)
  next
    case False
    then show ?thesis
      by (intro same[of "fst (transfer_insert now r rows)"]) (auto simp: transfer_insert_def Let_def)
  qed
qed

lemma in_flight_None:
  "in_flight_from w rows = None \<Longrightarrow> jm_get rows k = Some r \<Longrightarrow> in_flight r \<Longrightarrow> tr_from_wallet r \<noteq> w"
  using jm_get_mem[of rows k r] by (force simp: in_flight_from_def find_None_iff)

lemma transfers_ok_set:
  assumes "transfers_ok rows" "tr_id r = k" "transfer_row_ok r"
    and o: "\<And>j q. jm_get rows j = Some q \<Longrightarrow> in_flight q \<Longrightarrow> in_flight r \<Longrightarrow> tr_from_wallet q = tr_from_wallet r \<Longrightarrow> j = k"
  shows "transfers_ok (jm_set k r rows)"
proof -
  have "i = j" if "jm_get (jm_set k r rows) i = Some q" "jm_get (jm_set k r rows) j = Some x"
      "tr_from_wallet q = tr_from_wallet x" "in_flight q" "in_flight x" for i j q x
  proof (cases "i = k")
    case True
    with that have "j \<noteq> k \<Longrightarrow> jm_get rows j = Some x" "q = r" by (auto simp del: map_of_eq_Some_iff)
    with o[of j x] that(3-5) True show ?thesis by (cases "j = k") simp_all
  next
    case False
    show ?thesis
    proof (cases "j = k")
      case True
      with that False have "jm_get rows i = Some q" "x = r" by (auto simp del: map_of_eq_Some_iff)
      with o[of i q] that(3-5) True show ?thesis by simp
    next
      case False
      with that \<open>i \<noteq> k\<close> have "jm_get rows i = Some q" "jm_get rows j = Some x" by (auto simp del: map_of_eq_Some_iff)
      with assms(1) that(3-5) show ?thesis unfolding transfers_ok_def by blast
    qed
  qed
  moreover have "tr_id q = i \<and> transfer_row_ok q" if "jm_get (jm_set k r rows) i = Some q" for i q
    using that assms(1-3) unfolding transfers_ok_def by (cases "i = k") (auto simp del: map_of_eq_Some_iff)
  ultimately show ?thesis unfolding transfers_ok_def by blast
qed

lemma transfer_step_ok:
  assumes "transfers_ok rows"
  shows "transfers_ok (transfer_step o1 rows)"
proof (cases o1)
  case (Transfer_insert now r)
  show ?thesis unfolding Transfer_insert transfer_step.simps
  proof (cases rule: transfer_insert_cases[of now r rows])
    case (new q)
    have "transfers_ok (jm_set (tr_id r) q rows)"
      by (rule transfers_ok_set[OF assms new(2,4)]) (use in_flight_None[OF new(3)] in blast)
    with new(1) show "transfers_ok (snd (transfer_insert now r rows))" by simp
  qed (use assms in simp)
next
  case (Transfer_update now i previous p)
  show ?thesis unfolding Transfer_update transfer_step.simps
  proof (cases rule: transfer_update_cases[of now i previous p rows])
    case (put r q)
    have t: "same_transfer r q" using put(3) by (simp add: transfer_later_def)
    have r: "tr_id r = i" "transfer_row_ok r" using assms put(2) unfolding transfers_ok_def by blast+
    have "transfers_ok (jm_set i q rows)"
    proof (rule transfers_ok_set[OF assms])
      show "tr_id q = i" using same_transfer_eq[OF t] r(1) by simp
      show "transfer_row_ok q" using same_transfer_eq[OF t] r(2) put(4) by (simp add: transfer_row_ok_def)
    next
      fix j x
      assume "jm_get rows j = Some x" "in_flight x" "tr_from_wallet x = tr_from_wallet q"
      with assms put(2,5) same_transfer_eq[OF t] show "j = i" unfolding transfers_ok_def by metis
    qed
    with put(1) show "transfers_ok (snd (transfer_update now i previous p rows))" by simp
  qed (use assms in simp)
qed

lemma transfer_run_ok: "transfers_ok rows \<Longrightarrow> transfers_ok (transfer_run ops rows)"
  unfolding transfer_run_def by (induction ops arbitrary: rows) (simp_all add: transfer_step_ok)

lemma transfer_step_later:
  assumes "jm_get rows k = Some r" "fresh_transfer o1 rows"
  shows "\<exists>q. jm_get (transfer_step o1 rows) k = Some q \<and> transfer_later r q"
proof (cases o1)
  case (Transfer_insert now x)
  show ?thesis unfolding Transfer_insert transfer_step.simps
  proof (cases rule: transfer_insert_cases[of now x rows])
    case (new q)
    with assms Transfer_insert show "\<exists>q. jm_get (snd (transfer_insert now x rows)) k = Some q \<and> transfer_later r q"
      by (cases "k = tr_id x") (simp_all del: map_of_eq_Some_iff)
  qed (use assms in simp)
next
  case (Transfer_update now i previous p)
  show ?thesis unfolding Transfer_update transfer_step.simps
  proof (cases rule: transfer_update_cases[of now i previous p rows])
    case (put x q)
    with assms show "\<exists>q. jm_get (snd (transfer_update now i previous p rows)) k = Some q \<and> transfer_later r q"
      by (cases "k = i") (simp_all del: map_of_eq_Some_iff)
  qed (use assms in simp)
qed

lemma transfer_run_later:
  "jm_get rows k = Some r \<Longrightarrow> fresh_transfers ops rows \<Longrightarrow> \<exists>q. jm_get (transfer_run ops rows) k = Some q \<and> transfer_later r q"
  unfolding transfer_run_def
proof (induction ops arbitrary: rows r)
  case (Cons o1 ops)
  from transfer_step_later[OF Cons.prems(1), of o1] Cons.prems(2)
  obtain q where q: "jm_get (transfer_step o1 rows) k = Some q" "transfer_later r q" by auto
  from Cons.IH[OF q(1)] Cons.prems(2) q(2) show ?case by (auto intro: transfer_later_trans)
qed auto

text \<open>The life of a wallet transfer. At any time at most one transfer from a wallet is in flight; a transfer
  keeps its terms, is confirmed exactly with the evidence, is final once settled, does not go back
  once submitted, and never changes the transaction it was signed for.\<close>

theorem transfer_life:
  assumes "s = transfer_run ops []" "t = transfer_run later s" "fresh_transfers later s" "jm_get s k = Some r"
  shows "(\<exists>q. jm_get t k = Some q \<and> transfer_later r q \<and> transfer_row_ok q) \<and>
    (\<forall>i j x y. jm_get t i = Some x \<and> jm_get t j = Some y \<and> tr_from_wallet x = tr_from_wallet y \<and> in_flight x \<and> in_flight y \<longrightarrow> i = j)"
proof -
  have "transfers_ok []" by (simp add: transfers_ok_def)
  then have ok: "transfers_ok t" using assms(1,2) by (simp add: transfer_run_ok)
  from transfer_run_later[OF assms(4,3)] assms(2) obtain q where q: "jm_get t k = Some q" "transfer_later r q" by blast
  with ok show ?thesis unfolding transfers_ok_def by blast
qed

definition sample_transfer :: "string \<Rightarrow> transfer_row" where
  "sample_transfer i = \<lparr>tr_id = i, tr_user_id = ''ann'', tr_kind = Cash_out, tr_from_wallet = ''w'', tr_to_wallet = ''x'',
     tr_amount_base_units = ''1000000'', tr_idempotency_key = ''k'' @ i, tr_request_fingerprint = ''f'', tr_state = Failed_transfer,
     tr_prepared = \<lparr>px_from = ''w'', px_to = ''x'', px_amountBaseUnits = ''1000000'', px_mint = ''usdc'', px_transaction = [],
       px_messageHash = ''h'', px_recentBlockhash = ''b'', px_lastValidBlockHeight = 9, px_createsAccount = False,
       px_networkFeeLamports = ''5000'', px_rentLamports = ''0'', px_createdAt = 0, px_expiresAt = 60\<rparr>,
     tr_signed_transaction = None, tr_signature = None, tr_confirm_evidence = None, tr_created_at = 0, tr_updated_at = 0\<rparr>"

definition sample_submit :: transfer_patch where
  "sample_submit = \<lparr>tp_state = Some Submitted_transfer, tp_signed_transaction = Some (Some ''tx''), tp_signature = Some (Some ''sig''),
     tp_confirm_evidence = None\<rparr>"

theorem transfer_life_witness:
  "\<exists>q. jm_get (transfer_run [Transfer_insert 2 (sample_transfer ''b''), Transfer_update 3 ''a'' Submitted_transfer
      \<lparr>tp_state = Some Failed_transfer, tp_signed_transaction = None, tp_signature = Some (Some ''other''), tp_confirm_evidence = None\<rparr>]
      (transfer_run [Transfer_insert 0 (sample_transfer ''a''), Transfer_update 1 ''a'' Built_transfer sample_submit] [])) ''a'' = Some q \<and>
     tr_signature q = Some ''sig''"
proof -
  let ?s = "transfer_run [Transfer_insert 0 (sample_transfer ''a''), Transfer_update 1 ''a'' Built_transfer sample_submit] []"
  let ?l = "[Transfer_insert 2 (sample_transfer ''b''), Transfer_update 3 ''a'' Submitted_transfer
      \<lparr>tp_state = Some Failed_transfer, tp_signed_transaction = None, tp_signature = Some (Some ''other''), tp_confirm_evidence = None\<rparr>]"
  have f: "fresh_transfers ?l ?s" by code_simp
  have "map_option tr_signature (jm_get ?s ''a'') = Some (Some ''sig'')" by code_simp
  then obtain r where r: "jm_get ?s ''a'' = Some r" "tr_signature r = Some ''sig''" by (auto simp del: map_of_eq_Some_iff)
  from transfer_life[OF refl refl f r(1)] obtain q where q: "jm_get (transfer_run ?l ?s) ''a'' = Some q" "transfer_later r q" by blast
  from q(2) r(2) have "tr_signature q = Some ''sig''" by (simp add: transfer_later_def)
  with q(1) show ?thesis by blast
qed

section \<open>No fill is counted twice\<close>

definition add_fills :: "(filled_row \<times> int) list \<Rightarrow> funding_index \<Rightarrow> funding_index" where
  "add_fills rows x = fold (\<lambda>(r, at0) x. snd (funding_add r at0 x)) rows x"

definition fills_of :: "string \<Rightarrow> (filled_row \<times> int) list \<Rightarrow> filled_row set" where
  "fills_of k rows = {r \<in> fst ` set rows. fr_call_id r = k}"

lemma fills_of_snoc: "fills_of k (rows @ [(r, t)]) = (if fr_call_id r = k then insert r (fills_of k rows) else fills_of k rows)"
  by (auto simp: fills_of_def)

lemma finite_fills [simp]: "finite (fills_of k rows)"
  by (simp add: fills_of_def)

text \<open>The index after some rows: a call's amount is the sum of its own, and the rows seen are known by their ids.\<close>

definition counted :: "string \<Rightarrow> (filled_row \<times> int) list \<Rightarrow> funding_index \<Rightarrow> bool" where
  "counted k rows x \<longleftrightarrow>
     (if fills_of k rows = {} then jm_get (fx_funded x) k = None
      else \<exists>f. jm_get (fx_funded x) k = Some f \<and> fc_known f \<and> fc_amount f = (\<Sum>r \<in> fills_of k rows. the (fill_amount r))) \<and>
     set (fx_seen x) = {i. \<exists>r \<in> fst ` set rows. fr_id r = Some i}"

lemma counted_again:
  assumes "counted k rows x" "r \<in> fst ` set rows" "fr_id r = Some i"
  shows "counted k (rows @ [(r, t)]) (snd (funding_add r t x))"
proof -
  have "i \<in> set (fx_seen x)" using assms unfolding counted_def by auto
  then have "snd (funding_add r t x) = x" using assms(3) by (simp add: funding_add_def)
  moreover have "fills_of k (rows @ [(r, t)]) = fills_of k rows" using assms(2) by (auto simp: fills_of_def)
  moreover have "{i. \<exists>q \<in> fst ` set (rows @ [(r, t)]). fr_id q = Some i} = {i. \<exists>q \<in> fst ` set rows. fr_id q = Some i}" using assms(2) by auto
  ultimately show ?thesis using assms(1) by (simp add: counted_def)
qed

lemma counted_new:
  assumes "counted k rows x" "\<And>q. q \<in> fst ` set rows \<Longrightarrow> fr_id q \<noteq> fr_id r" "fr_id r = Some i" "fill_amount r = Some n"
  shows "counted k (rows @ [(r, t)]) (snd (funding_add r t x))"
proof -
  have "i \<notin> set (fx_seen x)" using assms(1-3) unfolding counted_def by auto
  note add = funding_add_def Let_def this assms(3,4)
  have "set (fx_seen (snd (funding_add r t x))) = insert i (set (fx_seen x))" by (simp add: add split: option.split)
  then have ids: "set (fx_seen (snd (funding_add r t x))) = {i. \<exists>q \<in> fst ` set (rows @ [(r, t)]). fr_id q = Some i}"
    using assms(1,3) unfolding counted_def by auto
  have nr: "r \<notin> fills_of k rows" using assms(2) by (auto simp: fills_of_def)
  show ?thesis
  proof (cases "fr_call_id r = k")
    case False
    then have "jm_get (fx_funded (snd (funding_add r t x))) k = jm_get (fx_funded x) k" by (simp add: add split: option.split)
    then show ?thesis using assms(1) ids False by (simp add: counted_def fills_of_snoc)
  next
    case True
    have "\<exists>f. jm_get (fx_funded (snd (funding_add r t x))) k = Some f \<and> fc_known f \<and> fc_amount f = n + (\<Sum>r \<in> fills_of k rows. the (fill_amount r))"
    proof (cases "fills_of k rows = {}")
      case empty: True
      then have "jm_get (fx_funded x) k = None" using assms(1) by (simp add: counted_def)
      then show ?thesis using empty True by (simp add: add)
    next
      case ne: False
      then obtain f where "jm_get (fx_funded x) k = Some f" "fc_known f" "fc_amount f = (\<Sum>r \<in> fills_of k rows. the (fill_amount r))"
        using assms(1) unfolding counted_def by auto
      then show ?thesis using True by (simp add: add del: map_of_eq_Some_iff)
    qed
    then show ?thesis using ids True nr assms(4) by (simp add: counted_def fills_of_snoc)
  qed
qed

text \<open>A call's funding is the sum of its confirmed fills, each once, however often the ledger's pages
  are read again and in whatever order its own fills are told twice: a row is known by its id.\<close>

theorem fills_counted_once:
  assumes "\<forall>(r, t) \<in> set rows. fr_id r \<noteq> None \<and> fill_amount r \<noteq> None"
    and "\<forall>r \<in> fst ` set rows. \<forall>q \<in> fst ` set rows. fr_id r = fr_id q \<longrightarrow> r = q"
  shows "(if fills_of k rows = {} then jm_get (fx_funded (add_fills rows empty_funding)) k = None
    else \<exists>f. jm_get (fx_funded (add_fills rows empty_funding)) k = Some f \<and> fc_known f \<and>
      fc_amount f = (\<Sum>r \<in> fills_of k rows. the (fill_amount r)))"
proof -
  have "counted k rows (add_fills rows empty_funding)" using assms
  proof (induction rows rule: rev_induct)
    case Nil
    then show ?case by (simp add: counted_def add_fills_def empty_funding_def fills_of_def)
  next
    case (snoc rt rows)
    obtain r t where rt: "rt = (r, t)" by (cases rt)
    obtain i n where i: "fr_id r = Some i" and n: "fill_amount r = Some n" using snoc.prems(1) rt by auto
    have IH: "counted k rows (add_fills rows empty_funding)"
    proof (rule snoc.IH)
      show "\<forall>(r, t) \<in> set rows. fr_id r \<noteq> None \<and> fill_amount r \<noteq> None" using snoc.prems(1) by simp
      show "\<forall>r \<in> fst ` set rows. \<forall>q \<in> fst ` set rows. fr_id r = fr_id q \<longrightarrow> r = q"
        using snoc.prems(2) unfolding set_append image_Un by blast
    qed
    have step: "add_fills (rows @ [(r, t)]) empty_funding = snd (funding_add r t (add_fills rows empty_funding))" by (simp add: add_fills_def)
    show ?case
    proof (cases "r \<in> fst ` set rows")
      case True
      then show ?thesis using counted_again[OF IH True i] by (simp only: step rt)
    next
      case False
      have "fr_id q \<noteq> fr_id r" if "q \<in> fst ` set rows" for q using snoc.prems(2) that False rt by auto
      from counted_new[OF IH this i n] show ?thesis by (simp only: step rt)
    qed
  qed
  then show ?thesis by (simp add: counted_def)
qed

theorem fills_counted_once_witness:
  "\<exists>f. jm_get (fx_funded (add_fills [(\<lparr>fr_id = Some ''1'', fr_call_id = ''c'', fr_amount_base_units = Some ''6'', fr_side = None\<rparr>, 5),
      (\<lparr>fr_id = Some ''2'', fr_call_id = ''c'', fr_amount_base_units = Some ''5'', fr_side = None\<rparr>, 6),
      (\<lparr>fr_id = Some ''1'', fr_call_id = ''c'', fr_amount_base_units = Some ''6'', fr_side = None\<rparr>, 7)] empty_funding)) ''c'' = Some f \<and>
    fc_amount f = 11"
proof -
  let ?a = "\<lparr>fr_id = Some ''1'', fr_call_id = ''c'', fr_amount_base_units = Some ''6'', fr_side = None\<rparr>"
  let ?b = "\<lparr>fr_id = Some ''2'', fr_call_id = ''c'', fr_amount_base_units = Some ''5'', fr_side = None\<rparr>"
  have n: "fill_amount ?a = Some 6" "fill_amount ?b = Some 5"
    by (simp_all add: fill_amount_def digit_val_def)
  have s: "fills_of ''c'' [(?a, 5), (?b, 6), (?a, 7)] = {?a, ?b}" by (auto simp: fills_of_def)
  have sum: "(\<Sum>r \<in> {?a, ?b}. the (fill_amount r)) = 11" using n by simp
  have h: "\<forall>(r, t) \<in> set [(?a, 5 :: int), (?b, 6), (?a, 7)]. fr_id r \<noteq> None \<and> fill_amount r \<noteq> None" using n by simp
  have d: "\<forall>r \<in> fst ` set [(?a, 5 :: int), (?b, 6), (?a, 7)]. \<forall>q \<in> fst ` set [(?a, 5 :: int), (?b, 6), (?a, 7)]. fr_id r = fr_id q \<longrightarrow> r = q"
    by simp
  from fills_counted_once[OF h d, of "''c''", unfolded s sum if_not_P[OF insert_not_empty]] show ?thesis by blast
qed

end
