(* ===== verification/PantaTrading.thy ===== *)
theory PantaTrading
  imports MoneyStore
begin

text \<open>
  Funded trades: the private ledger of approvals (\<open>src/prediction/PantaTradingStore.ts\<close>) and the
  service over it (\<open>src/prediction/PantaTradingService.ts\<close>): quoting a buy, taking the signed
  approval, broadcasting it, and the one transition that turns an approval into a fill or a failure.
  The ledger is a table: a read is a filtered, ordered selection, an insert ignores a taken
  (person, key) pair, an update is a compare-and-set on the state, and the database's own guards may
  refuse a write. Between the reads of a request and its write, other requests move the ledger: the
  moves they make are an argument. The lemmas show that the service only ever makes such moves, that
  an approval is durable before it is broadcast and never replaced, and that a fill is proved and
  told once.
\<close>

section \<open>The ledger of trades\<close>

datatype trade_state = T_PREPARING | T_QUOTED | T_SUBMITTED | T_FILLED | T_FAILED

text \<open>What is read of a prepared order: the order, the binding and the review are one artifact.\<close>

record prepared_order =
  po_orderId :: string
  po_expiresAt :: int
  po_messageHash :: string
  po_payload :: string
  po_lastValidBlockHeight :: int
  po_review :: string

record trade_row =
  tw_id :: string
  tw_user_id :: string
  tw_call_id :: string
  tw_market_id :: string
  tw_wallet_address :: string
  tw_venue_market_id :: string
  tw_side :: side
  tw_amount_base_units :: string
  tw_max_slippage_bps :: int
  tw_idempotency_key :: string
  tw_request_fingerprint :: string
  tw_state :: trade_state
  tw_provider_order_id :: "string option"
  tw_prepared :: "prepared_order option"
  tw_signed_transaction :: "string option"
  tw_signature :: "string option"
  tw_fill_evidence :: "venue_order option"
  tw_created_at :: int
  tw_updated_at :: int

type_synonym trade_rows = "(string, trade_row) jmap"

definition trade_find :: "string \<Rightarrow> string \<Rightarrow> trade_rows \<Rightarrow> trade_row option" where
  "trade_find u key rows = find (\<lambda>r. tw_user_id r = u \<and> tw_idempotency_key r = key) (jm_values rows)"

definition trade_byOrder :: "string \<Rightarrow> string \<Rightarrow> trade_rows \<Rightarrow> trade_row option" where
  "trade_byOrder u orderId rows = find (\<lambda>r. tw_user_id r = u \<and> tw_provider_order_id r = Some orderId) (jm_values rows)"

definition newest :: "trade_row list \<Rightarrow> trade_row option" where
  "newest rs = (case sort_by (\<lambda>a b. tw_created_at b - tw_created_at a) rs of [] \<Rightarrow> None | r # _ \<Rightarrow> Some r)"

definition activeForCall :: "string \<Rightarrow> string \<Rightarrow> string \<Rightarrow> trade_rows \<Rightarrow> trade_row option" where
  "activeForCall u k wal rows =
     newest (filter (\<lambda>r. tw_user_id r = u \<and> tw_call_id r = k \<and> tw_wallet_address r = wal \<and>
       (tw_state r = T_SUBMITTED \<or> tw_state r = T_FILLED)) (jm_values rows))"

definition reached_wallet :: "trade_row \<Rightarrow> bool" where
  "reached_wallet r \<longleftrightarrow> (tw_state r = T_SUBMITTED \<or> tw_state r = T_FILLED \<or> tw_state r = T_FAILED) \<and> tw_signature r \<noteq> None"

definition latestForCall :: "string \<Rightarrow> string \<Rightarrow> trade_rows \<Rightarrow> trade_row option" where
  "latestForCall u k rows =
     newest (filter (\<lambda>r. tw_user_id r = u \<and> tw_call_id r = k \<and> reached_wallet r) (jm_values rows))"

definition trades_submitted :: "int \<Rightarrow> trade_rows \<Rightarrow> trade_row list" where
  "trades_submitted limit rows =
     take (nat (max 1 (min 100 limit)))
       (sort_by (\<lambda>a b. tw_updated_at a - tw_updated_at b) (filter (\<lambda>r. tw_state r = T_SUBMITTED) (jm_values rows)))"

definition trades_listForUser :: "string \<Rightarrow> int \<Rightarrow> trade_rows \<Rightarrow> trade_row list" where
  "trades_listForUser u limit rows =
     take (nat (max 1 (min 200 limit)))
       (sort_by (\<lambda>a b. tw_created_at b - tw_created_at a) (filter (\<lambda>r. tw_user_id r = u \<and> reached_wallet r) (jm_values rows)))"

text \<open>Confirmed fills for the funding index, oldest change first.\<close>

definition filledSince :: "(string \<Rightarrow> string \<Rightarrow> int) \<Rightarrow> int option \<Rightarrow> int \<Rightarrow> trade_rows \<Rightarrow> (filled_row \<times> int) list" where
  "filledSince coll since limit rows =
     take (nat (max 1 (min 1000 limit)))
       (map (\<lambda>r. (\<lparr>fr_id = Some (tw_id r), fr_call_id = tw_call_id r, fr_amount_base_units = Some (tw_amount_base_units r),
                   fr_side = Some (tw_side r)\<rparr>, tw_updated_at r))
         (sort_by (\<lambda>a b. or_else (tw_updated_at a - tw_updated_at b) (coll (tw_id a) (tw_id b)))
           (filter (\<lambda>r. tw_state r = T_FILLED \<and> (case since of None \<Rightarrow> True | Some t \<Rightarrow> t \<le> tw_updated_at r)) (jm_values rows))))"

text \<open>
  The writes. The database may refuse one (its guards, or it cannot be reached): then it throws and
  nothing changed. A new row starts as \<open>PREPARING\<close>, with nothing prepared, signed or proved.
\<close>

type_synonym trade_guard = "trade_row option \<Rightarrow> trade_row \<Rightarrow> bool"

definition trade_reserve :: "trade_guard \<Rightarrow> int \<Rightarrow> trade_row \<Rightarrow> trade_rows \<Rightarrow> (thrown + trade_row option) \<times> trade_rows" where
  "trade_reserve allows now intent rows =
     (if trade_find (tw_user_id intent) (tw_idempotency_key intent) rows \<noteq> None then (Inr None, rows)
      else if jm_get rows (tw_id intent) \<noteq> None then (Inl Other_error, rows)
      else
        (let row = intent\<lparr>tw_state := T_PREPARING, tw_provider_order_id := None, tw_prepared := None, tw_signed_transaction := None,
                          tw_signature := None, tw_fill_evidence := None, tw_created_at := now, tw_updated_at := now\<rparr>
         in if allows None row then (Inr (Some row), jm_set (tw_id row) row rows) else (Inl Other_error, rows)))"

record trade_patch =
  td_state :: trade_state
  td_prepared :: "prepared_order option"
  td_signed :: "(string \<times> string) option"
  td_fill_evidence :: "venue_order option"

definition trade_patched :: "trade_patch \<Rightarrow> int \<Rightarrow> trade_row \<Rightarrow> trade_row" where
  "trade_patched p now r = r\<lparr>tw_state := td_state p,
     tw_provider_order_id := (case td_prepared p of None \<Rightarrow> tw_provider_order_id r | Some o1 \<Rightarrow> Some (po_orderId o1)),
     tw_prepared := (case td_prepared p of None \<Rightarrow> tw_prepared r | Some o1 \<Rightarrow> Some o1),
     tw_signed_transaction := (case td_signed p of None \<Rightarrow> tw_signed_transaction r | Some (payload, sig) \<Rightarrow> Some payload),
     tw_signature := (case td_signed p of None \<Rightarrow> tw_signature r | Some (payload, sig) \<Rightarrow> Some sig),
     tw_fill_evidence := (case td_fill_evidence p of None \<Rightarrow> tw_fill_evidence r | Some x \<Rightarrow> Some x),
     tw_updated_at := now\<rparr>"

definition trade_update :: "trade_guard \<Rightarrow> int \<Rightarrow> string \<Rightarrow> trade_state \<Rightarrow> trade_patch \<Rightarrow> trade_rows
    \<Rightarrow> (thrown + trade_row option) \<times> trade_rows" where
  "trade_update allows now i previous p rows =
     (case jm_get rows i of
        None \<Rightarrow> (Inr None, rows)
      | Some r \<Rightarrow>
          if tw_state r \<noteq> previous then (Inr None, rows)
          else (let nxt = trade_patched p now r
            in if allows (Some r) nxt then (Inr (Some nxt), jm_set i nxt rows) else (Inl Other_error, rows)))"

definition to_trade_state :: "trade_state \<Rightarrow> trade_patch" where
  "to_trade_state s = \<lparr>td_state = s, td_prepared = None, td_signed = None, td_fill_evidence = None\<rparr>"

definition quote_patch :: "prepared_order \<Rightarrow> trade_patch" where
  "quote_patch p = (to_trade_state T_QUOTED)\<lparr>td_prepared := Some p\<rparr>"

definition sign_patch :: "string \<Rightarrow> string \<Rightarrow> trade_patch" where
  "sign_patch payload sig = (to_trade_state T_SUBMITTED)\<lparr>td_signed := Some (payload, sig)\<rparr>"

definition fill_patch :: "venue_order \<Rightarrow> trade_patch" where
  "fill_patch x = (to_trade_state T_FILLED)\<lparr>td_fill_evidence := Some x\<rparr>"

section \<open>The world of the trades and the moves that change it\<close>

text \<open>Beside the ledger: what was broadcast, and which fills were told on.\<close>

record trade_world =
  tl_rows :: trade_rows
  tl_broadcasts :: "(string \<times> string) list"
  tl_told :: "trade_row list"

datatype trade_move =
  Mv_reserve trade_row
| Mv_quote string prepared_order
| Mv_drop string trade_state
| Mv_sign string string string
| Mv_fill string venue_order
| Mv_fail string
| Mv_broadcast string string

definition set_rows :: "('a \<times> trade_rows) \<Rightarrow> trade_world \<Rightarrow> trade_world" where
  "set_rows x w = w\<lparr>tl_rows := snd x\<rparr>"

definition told_fill :: "trade_guard \<Rightarrow> int \<Rightarrow> string \<Rightarrow> venue_order \<Rightarrow> trade_world \<Rightarrow> (thrown + trade_row option) \<times> trade_world" where
  "told_fill allows now i x w =
     (case trade_update allows now i T_SUBMITTED (fill_patch x) (tl_rows w) of
        (Inr (Some r), rows) \<Rightarrow> (Inr (Some r), w\<lparr>tl_rows := rows, tl_told := tl_told w @ [r]\<rparr>)
      | (res, rows) \<Rightarrow> (res, w\<lparr>tl_rows := rows\<rparr>))"

fun trade_moved :: "trade_guard \<Rightarrow> int \<Rightarrow> trade_move \<Rightarrow> trade_world \<Rightarrow> trade_world" where
  "trade_moved g now (Mv_reserve intent) w = set_rows (trade_reserve g now intent (tl_rows w)) w"
| "trade_moved g now (Mv_quote i p) w = set_rows (trade_update g now i T_PREPARING (quote_patch p) (tl_rows w)) w"
| "trade_moved g now (Mv_drop i s) w =
     (if s = T_PREPARING \<or> s = T_QUOTED then set_rows (trade_update g now i s (to_trade_state T_FAILED) (tl_rows w)) w else w)"
| "trade_moved g now (Mv_sign i payload sig) w = set_rows (trade_update g now i T_QUOTED (sign_patch payload sig) (tl_rows w)) w"
| "trade_moved g now (Mv_fill i x) w = (if vo_fundingState x = F_FILLED then snd (told_fill g now i x w) else w)"
| "trade_moved g now (Mv_fail i) w = set_rows (trade_update g now i T_SUBMITTED (to_trade_state T_FAILED) (tl_rows w)) w"
| "trade_moved g now (Mv_broadcast i sig) w =
     (case jm_get (tl_rows w) i of
        None \<Rightarrow> w
      | Some r \<Rightarrow> if tw_signature r = Some sig then w\<lparr>tl_broadcasts := tl_broadcasts w @ [(i, sig)]\<rparr> else w)"

definition trade_run :: "trade_guard \<Rightarrow> int \<Rightarrow> trade_move list \<Rightarrow> trade_world \<Rightarrow> trade_world" where
  "trade_run g now ms w = fold (trade_moved g now) ms w"

section \<open>The service\<close>

record call_intent =
  cn_callId :: string
  cn_marketId :: string
  cn_venueMarketId :: string
  cn_side :: side
  cn_tradable :: bool
  cn_moneyState :: "money_state option"
  cn_moneyTradeKey :: "string option"
  cn_moneyExpiresAt :: "int option"

definition PANTA_PAYLOAD_VERSION :: int where
  "PANTA_PAYLOAD_VERSION = 1"

definition PANTA_CHAIN_PAYLOAD_VERSION :: int where
  "PANTA_CHAIN_PAYLOAD_VERSION = 2"

definition pantaQuoteCurrency :: "venue_market \<Rightarrow> share_currency option" where
  "pantaQuoteCurrency m =
     (if vm_venue m \<noteq> V_panta then None
      else if vm_payloadVersion m = PANTA_PAYLOAD_VERSION then Some USDC
      else if vm_payloadVersion m = PANTA_CHAIN_PAYLOAD_VERSION then Some SOL
      else None)"

definition pantaTradable :: "venue_market \<Rightarrow> bool" where
  "pantaTradable m \<longleftrightarrow> pantaQuoteCurrency m = Some USDC \<and> (vm_rawStatus m = ''primary'' \<or> vm_rawStatus m = ''open'')"

text \<open>The payload at hand, with the phase its body states.\<close>

record raw_phase =
  rx_venueMarketId :: string
  rx_payloadVersion :: int
  rx_phase :: "string option"

definition pantaInPrimarySale :: "venue_market \<Rightarrow> raw_phase option \<Rightarrow> bool" where
  "pantaInPrimarySale m raw \<longleftrightarrow> pantaTradable m \<and>
     (case raw of None \<Rightarrow> True
      | Some r \<Rightarrow> rx_venueMarketId r = vm_venueMarketId m \<and> rx_payloadVersion r = PANTA_PAYLOAD_VERSION \<and> rx_phase r = Some ''primary'')"

text \<open>
  The call a buy is for, as the ledger's store reads it: one's own call, its public Panta market, and
  the state of its money call where money calls are on.
\<close>

definition trade_key :: "money_row \<Rightarrow> string" where
  "trade_key r = mr_idempotency_key r @ ''.t'' @ int_str (mr_attempts r)"

definition callIntent :: "(string \<Rightarrow> call_row option) \<Rightarrow> (string \<Rightarrow> venue_market option) \<Rightarrow> money_rows option \<Rightarrow> string \<Rightarrow> string \<Rightarrow> call_intent option" where
  "callIntent callOf publicMarket money u k =
     (case callOf k of
        None \<Rightarrow> None
      | Some c \<Rightarrow>
          if ca_userId c \<noteq> u then None
          else (case publicMarket (ca_marketId c) of
             None \<Rightarrow> None
           | Some m \<Rightarrow>
               if vm_venue m \<noteq> V_panta then None
               else (let row = (case money of None \<Rightarrow> None | Some rows \<Rightarrow> jm_get rows k)
                 in Some \<lparr>cn_callId = k, cn_marketId = ca_marketId c, cn_venueMarketId = vm_venueMarketId m, cn_side = ca_side c,
                      cn_tradable = (pantaQuoteCurrency m = Some USDC), cn_moneyState = map_option mr_state row,
                      cn_moneyTradeKey = map_option trade_key row, cn_moneyExpiresAt = map_option mr_expires_at row\<rparr>)))"

datatype wallet_status = W_active | W_revoked | W_other | W_none

record prepare_input =
  ti_callId :: string
  ti_wallet :: string
  ti_amountBaseUnits :: string
  ti_idempotencyKey :: string
  ti_maxSlippageBps :: int

text \<open>What the venue's verification of an approval answers.\<close>

record verified_order =
  vf_order :: venue_order
  vf_confirmed :: bool

text \<open>
  What surrounds the service: the clock, the limit, new ids, the digest of a request, the account's
  wallets, the calls, the venue, the venue's builder, the check of a signed payload, the chain, the
  database's guards, and what other requests do to the ledger between a read and a write.
\<close>

record trade_env =
  te_now :: int
  te_max :: int
  te_newId :: string
  te_fingerprint :: "prepare_input \<Rightarrow> string"
  te_wallets :: "string \<Rightarrow> string \<Rightarrow> wallet_status option"
  te_callIntent :: "string \<Rightarrow> string \<Rightarrow> call_intent option"
  te_market :: "string \<Rightarrow> thrown + venue_market \<times> raw_phase option"
  te_buildBuy :: "trade_row \<Rightarrow> thrown + prepared_order"
  te_validate :: "string \<Rightarrow> string \<Rightarrow> prepared_order \<Rightarrow> string option"
  te_broadcast :: "string \<Rightarrow> thrown option"
  te_submitOrder :: "prepared_order \<Rightarrow> string \<Rightarrow> thrown option"
  te_verify :: "prepared_order \<Rightarrow> string \<Rightarrow> string option \<Rightarrow> thrown + verified_order"
  te_failed :: "string \<Rightarrow> thrown + bool"
  te_neverLanded :: "string \<Rightarrow> int \<Rightarrow> thrown + bool"
  te_allows :: trade_guard
  te_race :: "trade_move list"

type_synonym 'a traded = "(thrown + 'a) \<times> trade_world"

abbreviation bad_request :: thrown where
  "bad_request \<equiv> Venue_error VENUE_BAD_REQUEST None"

definition raced :: "trade_env \<Rightarrow> trade_world \<Rightarrow> trade_world" where
  "raced e w = trade_run (te_allows e) (te_now e) (te_race e) w"

definition amount_text :: "string \<Rightarrow> bool" where
  "amount_text s \<longleftrightarrow> s \<noteq> [] \<and> hd s \<noteq> CHR ''0'' \<and> length s \<le> 16 \<and> list_all (\<lambda>c. digit_val c \<noteq> None) s"

fun digits_value :: "int \<Rightarrow> string \<Rightarrow> int" where
  "digits_value acc [] = acc"
| "digits_value acc (c # cs) = digits_value (acc * 10 + (case digit_val c of None \<Rightarrow> 0 | Some d \<Rightarrow> int d)) cs"

text \<open>\<open>BigInt\<close> of a text of digits.\<close>

definition amount_of :: "string \<Rightarrow> int" where
  "amount_of s = digits_value 0 s"

lemma digits_value_parse: "parse_digits n s = Some m \<Longrightarrow> digits_value (int n) s = int m"
  by (induction n s rule: parse_digits.induct) (auto split: option.splits simp: algebra_simps)

text \<open>Decimal digits of a number, computed on integers.\<close>

function int_text :: "int \<Rightarrow> string" where
  "int_text i = (if i < 10 then [digit_char (nat i)] else int_text (i div 10) @ [digit_char (nat (i mod 10))])"
  by auto
termination by (relation "measure nat") auto

declare int_text.simps [simp del]

lemma int_text_nat: "0 \<le> i \<Longrightarrow> int_text i = nat_str (nat i)"
proof (induction i rule: int_text.induct)
  case (1 i)
  then show ?case
  proof (cases "i < 10")
    case True
    then show ?thesis using 1(2) by (simp add: int_text.simps[of i] nat_str.simps[of "nat i"])
  next
    case False
    then have "int_text (i div 10) = nat_str (nat i div 10)" using 1 by (simp add: nat_div_distrib)
    then show ?thesis using False by (simp add: int_text.simps[of i] nat_str.simps[of "nat i"] nat_mod_distrib)
  qed
qed

lemma int_str_text [code]: "int_str i = (if i < 0 then CHR ''-'' # int_text (- i) else int_text i)"
  by (simp add: int_str_def int_text_nat)

lemma amount_round: "0 \<le> n \<Longrightarrow> amount_of (int_str n) = n"
  using digits_value_parse[OF parse_nat_str[of "nat n"]] by (simp add: amount_of_def int_str_def)

text \<open>A money call is traded only by the money calls, only while pending, current and in its window.\<close>

definition moneyCallRefused :: "call_intent option \<Rightarrow> string \<Rightarrow> int \<Rightarrow> bool" where
  "moneyCallRefused call key now \<longleftrightarrow>
     (case call of
        None \<Rightarrow> False
      | Some c \<Rightarrow>
          (case cn_moneyState c of
             None \<Rightarrow> False
           | Some st \<Rightarrow> st \<noteq> Pending_money \<or>
               (case cn_moneyTradeKey c of None \<Rightarrow> False | Some t \<Rightarrow> t \<noteq> [] \<and> key \<noteq> t) \<or>
               (case cn_moneyExpiresAt c of None \<Rightarrow> False | Some t \<Rightarrow> t \<le> now)))"

definition trade_replay :: "trade_env \<Rightarrow> trade_row \<Rightarrow> prepare_input \<Rightarrow> thrown + prepared_order" where
  "trade_replay e r i =
     (if tw_request_fingerprint r \<noteq> te_fingerprint e i then Inl (Venue_error IDEMPOTENCY_CONFLICT None)
      else if tw_state r = T_PREPARING then Inl (Venue_error IDEMPOTENCY_CONFLICT None)
      else (case tw_prepared r of
              None \<Rightarrow> Inl bad_request
            | Some p \<Rightarrow>
                if tw_state r \<noteq> T_QUOTED then Inl bad_request
                else if po_expiresAt p \<le> te_now e then Inl bad_request
                else Inr p))"

definition assertOwnWallet :: "trade_env \<Rightarrow> string \<Rightarrow> string \<Rightarrow> string option \<Rightarrow> thrown option" where
  "assertOwnWallet e u wal signIn =
     (case te_wallets e u wal of
        None \<Rightarrow> Some (Venue_error VENUE_UNAVAILABLE None)
      | Some W_active \<Rightarrow> None
      | Some W_none \<Rightarrow> if signIn = Some wal then None else Some (Venue_error WALLET_NOT_LINKED None)
      | Some _ \<Rightarrow> Some (Venue_error WALLET_NOT_LINKED None))"

text \<open>The checks before anything is reserved: a replayed quote, or the call to be bought.\<close>

definition market_open_for_buy :: "trade_env \<Rightarrow> call_intent \<Rightarrow> thrown option" where
  "market_open_for_buy e c =
     (case te_market e (cn_venueMarketId c) of
        Inl x \<Rightarrow> Some x
      | Inr (m, raw) \<Rightarrow>
          if vm_venue m \<noteq> V_panta \<or> vm_status m \<noteq> M_OPEN \<or> (case vm_opensAt m of None \<Rightarrow> False | Some t \<Rightarrow> te_now e < t)
          then Some bad_request
          else if \<not> pantaInPrimarySale m raw then Some bad_request else None)"

definition prepare_checks :: "trade_env \<Rightarrow> string \<Rightarrow> prepare_input \<Rightarrow> string option \<Rightarrow> bool \<Rightarrow> trade_rows
    \<Rightarrow> thrown + prepared_order + call_intent" where
  "prepare_checks e u i signIn moneyCall rows =
     (if \<not> amount_text (ti_amountBaseUnits i) \<or> amount_of (ti_amountBaseUnits i) > te_max e then Inl bad_request
      else (case assertOwnWallet e u (ti_wallet i) signIn of
        Some x \<Rightarrow> Inl x
      | None \<Rightarrow>
          (case trade_find u (ti_idempotencyKey i) rows of
             Some r \<Rightarrow> (case trade_replay e r i of Inl x \<Rightarrow> Inl x | Inr p \<Rightarrow> Inr (Inl p))
           | None \<Rightarrow>
               if activeForCall u (ti_callId i) (ti_wallet i) rows \<noteq> None then Inl bad_request
               else (case te_callIntent e u (ti_callId i) of
                 None \<Rightarrow> Inl bad_request
               | Some c \<Rightarrow>
                   if cn_moneyState c \<noteq> None \<and> \<not> moneyCall then Inl bad_request
                   else if moneyCallRefused (Some c) (ti_idempotencyKey i) (te_now e) then Inl bad_request
                   else if \<not> cn_tradable c then Inl bad_request
                   else (case market_open_for_buy e c of Some x \<Rightarrow> Inl x | None \<Rightarrow> Inr (Inr c))))))"

definition intent_row :: "trade_env \<Rightarrow> string \<Rightarrow> prepare_input \<Rightarrow> call_intent \<Rightarrow> trade_row" where
  "intent_row e u i c = \<lparr>tw_id = te_newId e, tw_user_id = u, tw_call_id = cn_callId c, tw_market_id = cn_marketId c,
     tw_wallet_address = ti_wallet i, tw_venue_market_id = cn_venueMarketId c, tw_side = cn_side c,
     tw_amount_base_units = ti_amountBaseUnits i, tw_max_slippage_bps = ti_maxSlippageBps i,
     tw_idempotency_key = ti_idempotencyKey i, tw_request_fingerprint = te_fingerprint e i, tw_state = T_PREPARING,
     tw_provider_order_id = None, tw_prepared = None, tw_signed_transaction = None, tw_signature = None,
     tw_fill_evidence = None, tw_created_at = te_now e, tw_updated_at = te_now e\<rparr>"

text \<open>A quote that could not be built or saved leaves a failed row, and throws.\<close>

definition drop_reserved :: "trade_env \<Rightarrow> string \<Rightarrow> thrown \<Rightarrow> trade_world \<Rightarrow> 'a traded" where
  "drop_reserved e i x w =
     (case trade_update (te_allows e) (te_now e) i T_PREPARING (to_trade_state T_FAILED) (tl_rows w) of
        (Inl y, rows) \<Rightarrow> (Inl y, w\<lparr>tl_rows := rows\<rparr>)
      | (Inr _, rows) \<Rightarrow> (Inl x, w\<lparr>tl_rows := rows\<rparr>))"

definition build_quote :: "trade_env \<Rightarrow> trade_row \<Rightarrow> trade_world \<Rightarrow> prepared_order traded" where
  "build_quote e reserved w =
     (case te_buildBuy e reserved of
        Inl x \<Rightarrow> drop_reserved e (tw_id reserved) x (raced e w)
      | Inr p \<Rightarrow>
          (let w = raced e w
           in case trade_update (te_allows e) (te_now e) (tw_id reserved) T_PREPARING (quote_patch p) (tl_rows w) of
                (Inl x, rows) \<Rightarrow> drop_reserved e (tw_id reserved) x (w\<lparr>tl_rows := rows\<rparr>)
              | (Inr None, rows) \<Rightarrow> drop_reserved e (tw_id reserved) bad_request (w\<lparr>tl_rows := rows\<rparr>)
              | (Inr (Some _), rows) \<Rightarrow> (Inr p, w\<lparr>tl_rows := rows\<rparr>)))"

definition trade_prepare :: "trade_env \<Rightarrow> string \<Rightarrow> prepare_input \<Rightarrow> string option \<Rightarrow> bool \<Rightarrow> trade_world \<Rightarrow> prepared_order traded" where
  "trade_prepare e u i signIn moneyCall w =
     (case prepare_checks e u i signIn moneyCall (tl_rows w) of
        Inl x \<Rightarrow> (Inl x, w)
      | Inr (Inl p) \<Rightarrow> (Inr p, w)
      | Inr (Inr c) \<Rightarrow>
          (let w = raced e w
           in case trade_reserve (te_allows e) (te_now e) (intent_row e u i c) (tl_rows w) of
                (Inl x, rows) \<Rightarrow> (Inl x, w\<lparr>tl_rows := rows\<rparr>)
              | (Inr None, rows) \<Rightarrow>
                  (case trade_find u (ti_idempotencyKey i) rows of
                     None \<Rightarrow> (Inl bad_request, w)
                   | Some r \<Rightarrow> (trade_replay e r i, w))
              | (Inr (Some reserved), rows) \<Rightarrow> build_quote e reserved (w\<lparr>tl_rows := rows\<rparr>)))"

definition own_trade :: "string \<Rightarrow> string \<Rightarrow> trade_rows \<Rightarrow> (trade_row \<times> prepared_order) option" where
  "own_trade u orderId rows =
     (case trade_byOrder u orderId rows of
        None \<Rightarrow> None
      | Some r \<Rightarrow> (case tw_prepared r of None \<Rightarrow> None | Some p \<Rightarrow> Some (r, p)))"

definition view_state :: "trade_state \<Rightarrow> funding_state" where
  "view_state s = (case s of T_FAILED \<Rightarrow> F_FAILED | T_SUBMITTED \<Rightarrow> F_SUBMITTED | _ \<Rightarrow> F_QUOTED)"

definition trade_view :: "trade_row \<Rightarrow> venue_order" where
  "trade_view r =
     (case (tw_state r, tw_fill_evidence r) of
        (T_FILLED, Some x) \<Rightarrow> x
      | _ \<Rightarrow> \<lparr>vo_orderId = (case tw_provider_order_id r of None \<Rightarrow> [] | Some i \<Rightarrow> i), vo_venueOrderId = tw_provider_order_id r,
           vo_venue = V_panta, vo_venueMarketId = tw_venue_market_id r, vo_owner = tw_wallet_address r, vo_side = tw_side r,
           vo_amountBaseUnits = tw_amount_base_units r, vo_filledBaseUnits = ''0'', vo_fundingState = view_state (tw_state r),
           vo_fillTxSignature = None, vo_createdAt = tw_created_at r, vo_updatedAt = tw_updated_at r,
           vo_idempotencyKey = Some (tw_idempotency_key r), vo_demo = False\<rparr>)"

definition trade_forCall :: "string \<Rightarrow> string \<Rightarrow> string \<Rightarrow> trade_rows \<Rightarrow> venue_order option" where
  "trade_forCall u k wal rows = map_option trade_view (activeForCall u k wal rows)"

definition trade_callOrder :: "string \<Rightarrow> string \<Rightarrow> trade_rows \<Rightarrow> venue_order option" where
  "trade_callOrder u k rows =
     (case latestForCall u k rows of None \<Rightarrow> None | Some r \<Rightarrow> if tw_prepared r = None then None else Some (trade_view r))"

definition other_approval :: "trade_row \<Rightarrow> string \<Rightarrow> string \<Rightarrow> bool" where
  "other_approval r payload sig \<longleftrightarrow> tw_signature r \<noteq> Some sig \<or> tw_signed_transaction r \<noteq> Some payload"

text \<open>The broadcast of an approval that is saved, and the report to the venue.\<close>

definition send_approval :: "trade_env \<Rightarrow> trade_row \<Rightarrow> prepared_order \<Rightarrow> string \<Rightarrow> trade_world \<Rightarrow> venue_order traded" where
  "send_approval e r p sig w =
     (let w = w\<lparr>tl_broadcasts := tl_broadcasts w @ [(tw_id r, sig)]\<rparr>
      in case te_broadcast e sig of
           Some x \<Rightarrow> (Inl x, w)
         | None \<Rightarrow> (case te_submitOrder e p sig of Some x \<Rightarrow> (Inl x, w) | None \<Rightarrow> (Inr (trade_view r), w)))"

definition save_approval :: "trade_env \<Rightarrow> string \<Rightarrow> string \<Rightarrow> string \<Rightarrow> string \<Rightarrow> trade_row \<Rightarrow> prepared_order \<Rightarrow> trade_world \<Rightarrow> venue_order traded" where
  "save_approval e u orderId payload sig r p w =
     (if po_expiresAt p \<le> te_now e then (Inl bad_request, w)
      else if moneyCallRefused (te_callIntent e u (tw_call_id r)) (tw_idempotency_key r) (te_now e) then (Inl bad_request, w)
      else
        (let w = raced e w
         in case trade_update (te_allows e) (te_now e) (tw_id r) T_QUOTED (sign_patch payload sig) (tl_rows w) of
              (Inl x, rows) \<Rightarrow> (Inl x, w\<lparr>tl_rows := rows\<rparr>)
            | (Inr (Some saved), rows) \<Rightarrow>
                if other_approval saved payload sig then (Inl bad_request, w\<lparr>tl_rows := rows\<rparr>)
                else send_approval e saved p sig (w\<lparr>tl_rows := rows\<rparr>)
            | (Inr None, rows) \<Rightarrow>
                (case own_trade u orderId rows of
                   None \<Rightarrow> (Inl (Venue_error VENUE_NOT_FOUND None), w)
                 | Some (fresh, p) \<Rightarrow>
                     if other_approval fresh payload sig then (Inl bad_request, w) else send_approval e fresh p sig w)))"

definition trade_submit :: "trade_env \<Rightarrow> string \<Rightarrow> string \<Rightarrow> string \<Rightarrow> string option \<Rightarrow> trade_world \<Rightarrow> venue_order traded" where
  "trade_submit e u orderId payload signIn w =
     (case own_trade u orderId (tl_rows w) of
        None \<Rightarrow> (Inl (Venue_error VENUE_NOT_FOUND None), w)
      | Some (r, p) \<Rightarrow>
          if tw_state r = T_FAILED then (Inl bad_request, w)
          else (case (if tw_state r \<noteq> T_FILLED then assertOwnWallet e u (tw_wallet_address r) signIn else None) of
            Some x \<Rightarrow> (Inl x, w)
          | None \<Rightarrow>
              (case te_validate e payload (tw_wallet_address r) p of
                 None \<Rightarrow> (Inl bad_request, w)
               | Some sig \<Rightarrow>
                   if tw_signature r \<noteq> None \<and> other_approval r payload sig then (Inl bad_request, w)
                   else if tw_state r = T_FILLED then (Inr (trade_view r), w)
                   else if tw_state r = T_QUOTED then save_approval e u orderId payload sig r p w
                   else send_approval e r p sig w)))"

text \<open>The one transition out of \<open>SUBMITTED\<close>; the row is the caller's copy.\<close>

definition saved_or_current :: "trade_row \<Rightarrow> (thrown + trade_row option) \<times> trade_world \<Rightarrow> trade_row traded" where
  "saved_or_current r x =
     (case x of
        (Inl y, w) \<Rightarrow> (Inl y, w)
      | (Inr (Some saved), w) \<Rightarrow> (Inr saved, w)
      | (Inr None, w) \<Rightarrow>
          (Inr (case (case tw_provider_order_id r of None \<Rightarrow> None | Some i \<Rightarrow> trade_byOrder (tw_user_id r) i (tl_rows w)) of
                  None \<Rightarrow> r | Some cur \<Rightarrow> cur), w))"

definition may_have_landed :: "thrown + verified_order \<Rightarrow> bool" where
  "may_have_landed remote = (case remote of Inl _ \<Rightarrow> True | Inr v \<Rightarrow> vf_confirmed v)"

definition proven_failed :: "trade_env \<Rightarrow> string \<Rightarrow> prepared_order \<Rightarrow> thrown + verified_order \<Rightarrow> thrown + bool" where
  "proven_failed e sig p remote =
     (case te_failed e sig of
        Inl x \<Rightarrow> Inl x
      | Inr True \<Rightarrow> Inr True
      | Inr False \<Rightarrow> if may_have_landed remote then Inr False else te_neverLanded e sig (po_lastValidBlockHeight p))"

definition trade_reconcile :: "trade_env \<Rightarrow> trade_row \<Rightarrow> trade_world \<Rightarrow> trade_row traded" where
  "trade_reconcile e r w =
     (case (tw_state r, tw_signature r, tw_prepared r) of
        (T_SUBMITTED, Some sig, Some p) \<Rightarrow>
          (let remote = te_verify e p sig (tw_signed_transaction r); w = raced e w
           in case remote of
                Inr v \<Rightarrow>
                  if vo_fundingState (vf_order v) = F_FILLED
                  then saved_or_current r (told_fill (te_allows e) (te_now e) (tw_id r) (vf_order v) w)
                  else (case proven_failed e sig p remote of
                          Inl x \<Rightarrow> (Inl x, w)
                        | Inr True \<Rightarrow>
                            (case trade_update (te_allows e) (te_now e) (tw_id r) T_SUBMITTED (to_trade_state T_FAILED) (tl_rows w) of
                               (res, rows) \<Rightarrow> saved_or_current r (res, w\<lparr>tl_rows := rows\<rparr>))
                        | Inr False \<Rightarrow> (Inr r, w))
              | Inl unverified \<Rightarrow>
                  (case proven_failed e sig p remote of
                     Inl x \<Rightarrow> (Inl x, w)
                   | Inr True \<Rightarrow>
                       (case trade_update (te_allows e) (te_now e) (tw_id r) T_SUBMITTED (to_trade_state T_FAILED) (tl_rows w) of
                          (res, rows) \<Rightarrow> saved_or_current r (res, w\<lparr>tl_rows := rows\<rparr>))
                   | Inr False \<Rightarrow> (Inl unverified, w)))
      | _ \<Rightarrow> (Inr r, w))"

definition trade_order :: "trade_env \<Rightarrow> string \<Rightarrow> string \<Rightarrow> trade_world \<Rightarrow> venue_order traded" where
  "trade_order e u orderId w =
     (case own_trade u orderId (tl_rows w) of
        None \<Rightarrow> (Inl (Venue_error VENUE_NOT_FOUND None), w)
      | Some (r, _) \<Rightarrow> (case trade_reconcile e r w of (Inl x, w) \<Rightarrow> (Inl x, w) | (Inr q, w) \<Rightarrow> (Inr (trade_view q), w)))"

end
