(* ===== verification/Interleaving.thy ===== *)
theory Interleaving
  imports Prelude
begin

text \<open>
  Requests that interleave. A request is a sequence of moves of a shared ledger, with the moves of other
  requests in between; what each move keeps of the ledger and of its rows, any interleaving keeps. The
  locale states what a ledger owes for that; the trades, the transfers and the win claims interpret it on their moves
  (the trades on their requests too).
\<close>

definition moved_by :: "('m \<Rightarrow> 'w \<Rightarrow> 'w) \<Rightarrow> 'w \<Rightarrow> 'w \<Rightarrow> bool" where
  "moved_by move w w' \<longleftrightarrow> (\<exists>ms. w' = fold move ms w)"

lemma moved_by_refl [simp, intro]: "moved_by move w w"
  unfolding moved_by_def by (rule exI[of _ "[]"]) simp

lemma moved_by_run [simp, intro]: "moved_by move w (fold move ms w)"
  unfolding moved_by_def by blast

lemma moved_by_one: "w' = move m w \<Longrightarrow> moved_by move w w'"
  unfolding moved_by_def by (rule exI[of _ "[m]"]) simp

lemma moved_by_trans: "moved_by move u v \<Longrightarrow> moved_by move v w \<Longrightarrow> moved_by move u w"
  unfolding moved_by_def by (metis comp_apply fold_append)

locale moved_ledger =
  fixes move :: "'m \<Rightarrow> 'w \<Rightarrow> 'w"
    and ok :: "'w \<Rightarrow> bool"
    and row :: "'w \<Rightarrow> 'k \<Rightarrow> 'r option"
    and sound :: "'r \<Rightarrow> bool"
    and later :: "'r \<Rightarrow> 'r \<Rightarrow> bool"
  assumes keeps: "ok w \<Longrightarrow> ok (move m w)"
    and advances: "ok w \<Longrightarrow> row w k = Some r \<Longrightarrow> \<exists>q. row (move m w) k = Some q \<and> later r q"
    and row_sound: "ok w \<Longrightarrow> row w k = Some r \<Longrightarrow> sound r"
    and later_same: "later r r"
    and later_next: "later r q \<Longrightarrow> later q x \<Longrightarrow> sound r \<Longrightarrow> sound q \<Longrightarrow> later r x"
begin

lemma run_keeps: "ok w \<Longrightarrow> ok (fold move ms w)"
  by (induction ms arbitrary: w) (simp_all add: keeps)

lemma run_advances: "ok w \<Longrightarrow> row w k = Some r \<Longrightarrow> \<exists>q. row (fold move ms w) k = Some q \<and> later r q"
proof (induction ms arbitrary: w r)
  case Nil
  then show ?case by (simp add: later_same)
next
  case (Cons m ms)
  obtain q where q: "row (move m w) k = Some q" "later r q" using advances[OF Cons.prems] by blast
  obtain x where x: "row (fold move ms (move m w)) k = Some x" "later q x" using Cons.IH[OF keeps[OF Cons.prems(1)] q(1)] by blast
  have "later r x" by (rule later_next[OF q(2) x(2) row_sound[OF Cons.prems] row_sound[OF keeps[OF Cons.prems(1)] q(1)]])
  then show ?case using x(1) by simp
qed

lemma moved_keeps: "moved_by move w w' \<Longrightarrow> ok w \<Longrightarrow> ok w'"
  unfolding moved_by_def using run_keeps by blast

lemma moved_advances: "moved_by move w w' \<Longrightarrow> ok w \<Longrightarrow> row w k = Some r \<Longrightarrow> \<exists>q. row w' k = Some q \<and> later r q"
  unfolding moved_by_def using run_advances by blast

end

end
