(* ===== verification/PantaFills.thy ===== *)
theory PantaFills
  imports PantaTrading Interleaving
begin

text \<open>
  What the trades keep (the lemmas of \<open>PantaTrading\<close>). Every operation of the service is a sequence of
  moves of the ledger, with the moves of other requests in between; so what a move keeps, any
  interleaving of requests keeps: a trade keeps its terms and goes forward, it approves one
  transaction, what is broadcast was saved before, and a fill is proved and told once.
\<close>

section \<open>What a move does\<close>

definition advance :: "trade_state \<Rightarrow> trade_patch \<Rightarrow> bool" where
  "advance s p \<longleftrightarrow>
     s = T_PREPARING \<and> (\<exists>x. p = quote_patch x) \<or>
     (s = T_PREPARING \<or> s = T_QUOTED \<or> s = T_SUBMITTED) \<and> p = to_trade_state T_FAILED \<or>
     s = T_QUOTED \<and> (\<exists>payload sig. p = sign_patch payload sig) \<or>
     s = T_SUBMITTED \<and> (\<exists>x. p = fill_patch x \<and> vo_fundingState x = F_FILLED)"

definition blank_trade :: "int \<Rightarrow> trade_row \<Rightarrow> trade_row" where
  "blank_trade now r = r\<lparr>tw_state := T_PREPARING, tw_provider_order_id := None, tw_prepared := None, tw_signed_transaction := None,
     tw_signature := None, tw_fill_evidence := None, tw_created_at := now, tw_updated_at := now\<rparr>"

definition told_by :: "trade_patch \<Rightarrow> trade_row \<Rightarrow> trade_row list" where
  "told_by p r = (if td_state p = T_FILLED then [r] else [])"

lemma trade_update_cases:
  obtains (refused) "snd (trade_update g now i s p rows) = rows" "\<forall>r. fst (trade_update g now i s p rows) \<noteq> Inr (Some r)"
  | (wrote) r where "jm_get rows i = Some r" "tw_state r = s" "trade_update g now i s p rows = (Inr (Some (trade_patched p now r)), jm_set i (trade_patched p now r) rows)"
proof (cases "jm_get rows i")
  case None
  then show ?thesis using refused by (simp add: trade_update_def)
next
  case (Some r)
  then show ?thesis using refused wrote
    by (cases "tw_state r = s"; cases "g (Some r) (trade_patched p now r)") (simp_all add: trade_update_def Let_def)
qed

lemma trade_reserve_cases:
  obtains (refused) "snd (trade_reserve g now r rows) = rows" "\<forall>q. fst (trade_reserve g now r rows) \<noteq> Inr (Some q)"
  | (wrote) "trade_find (tw_user_id r) (tw_idempotency_key r) rows = None" "jm_get rows (tw_id r) = None"
      "trade_reserve g now r rows = (Inr (Some (blank_trade now r)), jm_set (tw_id r) (blank_trade now r) rows)"
proof (cases "trade_find (tw_user_id r) (tw_idempotency_key r) rows = None \<and> jm_get rows (tw_id r) = None \<and> g None (blank_trade now r)")
  case True
  then show ?thesis using wrote by (simp add: trade_reserve_def Let_def blank_trade_def)
next
  case False
  then show ?thesis using refused
    by (auto simp: trade_reserve_def Let_def blank_trade_def simp del: map_of_eq_None_iff)
qed

lemma trade_move_cases:
  obtains (same) "trade_moved g now m w = w"
  | (new) r where "trade_find (tw_user_id r) (tw_idempotency_key r) (tl_rows w) = None" "jm_get (tl_rows w) (tw_id r) = None"
      "trade_moved g now m w = w\<lparr>tl_rows := jm_set (tw_id r) (blank_trade now r) (tl_rows w)\<rparr>"
  | (patch) i r p where "jm_get (tl_rows w) i = Some r" "advance (tw_state r) p"
      "trade_moved g now m w = w\<lparr>tl_rows := jm_set i (trade_patched p now r) (tl_rows w), tl_told := tl_told w @ told_by p (trade_patched p now r)\<rparr>"
  | (sent) i r sig where "jm_get (tl_rows w) i = Some r" "tw_signature r = Some sig"
      "trade_moved g now m w = w\<lparr>tl_broadcasts := tl_broadcasts w @ [(i, sig)]\<rparr>"
proof -
  have plain: thesis if m: "trade_moved g now m w = set_rows (trade_update g now i s p (tl_rows w)) w"
    and a: "advance s p" "td_state p \<noteq> T_FILLED" for i s p
  proof (cases rule: trade_update_cases[of g now i s p "tl_rows w"])
    case refused
    then show thesis using same m by (simp add: set_rows_def)
  next
    case (wrote r)
    then show thesis using patch[of i r p] m a by (simp add: set_rows_def told_by_def)
  qed
  show thesis
  proof (cases m)
    case (Mv_reserve r)
    show thesis
    proof (cases rule: trade_reserve_cases[of g now r "tl_rows w"])
      case refused
      then show thesis using same Mv_reserve by (simp add: set_rows_def)
    next
      case wrote
      then show thesis using new[of r] Mv_reserve by (simp add: set_rows_def)
    qed
  next
    case (Mv_quote i p)
    then show thesis using plain[of i T_PREPARING "quote_patch p"] by (auto simp: advance_def quote_patch_def to_trade_state_def)
  next
    case (Mv_drop i s)
    show thesis
    proof (cases "s = T_PREPARING \<or> s = T_QUOTED")
      case True
      then show thesis using Mv_drop plain[of i s "to_trade_state T_FAILED"] by (auto simp: advance_def to_trade_state_def)
    next
      case False
      then show thesis using Mv_drop same by simp
    qed
  next
    case (Mv_sign i payload sig)
    then show thesis using plain[of i T_QUOTED "sign_patch payload sig"] by (auto simp: advance_def sign_patch_def to_trade_state_def)
  next
    case (Mv_fail i)
    then show thesis using plain[of i T_SUBMITTED "to_trade_state T_FAILED"] by (auto simp: advance_def to_trade_state_def)
  next
    case (Mv_fill i x)
    show thesis
    proof (cases "vo_fundingState x = F_FILLED")
      case filled: True
      show thesis
      proof (cases rule: trade_update_cases[of g now i T_SUBMITTED "fill_patch x" "tl_rows w"])
        case refused
        then show thesis using same Mv_fill filled
          by (cases "trade_update g now i T_SUBMITTED (fill_patch x) (tl_rows w)")
            (auto simp: told_fill_def split: sum.splits option.splits)
      next
        case (wrote r)
        have "advance (tw_state r) (fill_patch x)" using wrote filled by (auto simp: advance_def)
        then show thesis using wrote patch[of i r "fill_patch x"] Mv_fill filled
          by (simp add: told_fill_def told_by_def fill_patch_def to_trade_state_def)
      qed
    next
      case False
      then show thesis using same Mv_fill by simp
    qed
  next
    case (Mv_broadcast i sig)
    show thesis
    proof (cases "jm_get (tl_rows w) i")
      case None
      then show thesis using same Mv_broadcast by simp
    next
      case (Some r)
      then show thesis using same sent[of i r sig] Mv_broadcast by (cases "tw_signature r = Some sig") simp_all
    qed
  qed
qed

section \<open>What the trades keep\<close>

definition trade_row_ok :: "trade_row \<Rightarrow> bool" where
  "trade_row_ok r \<longleftrightarrow>
     (tw_signature r = None) = (tw_signed_transaction r = None) \<and>
     tw_provider_order_id r = map_option po_orderId (tw_prepared r) \<and>
     (tw_signature r \<noteq> None \<longrightarrow> tw_prepared r \<noteq> None) \<and>
     (case tw_state r of
        T_PREPARING \<Rightarrow> tw_prepared r = None \<and> tw_fill_evidence r = None
      | T_QUOTED \<Rightarrow> tw_prepared r \<noteq> None \<and> tw_signature r = None \<and> tw_fill_evidence r = None
      | T_SUBMITTED \<Rightarrow> tw_signature r \<noteq> None \<and> tw_fill_evidence r = None
      | T_FILLED \<Rightarrow> tw_signature r \<noteq> None \<and> map_option vo_fundingState (tw_fill_evidence r) = Some F_FILLED
      | T_FAILED \<Rightarrow> tw_fill_evidence r = None)"

definition same_trade :: "trade_row \<Rightarrow> trade_row \<Rightarrow> bool" where
  "same_trade r q \<longleftrightarrow> q\<lparr>tw_state := tw_state r, tw_provider_order_id := tw_provider_order_id r, tw_prepared := tw_prepared r,
     tw_signed_transaction := tw_signed_transaction r, tw_signature := tw_signature r, tw_fill_evidence := tw_fill_evidence r,
     tw_updated_at := tw_updated_at r\<rparr> = r"

definition settled_trade :: "trade_row \<Rightarrow> bool" where
  "settled_trade r \<longleftrightarrow> tw_state r = T_FILLED \<or> tw_state r = T_FAILED"

text \<open>A later row of the same trade.\<close>

definition trade_later :: "trade_row \<Rightarrow> trade_row \<Rightarrow> bool" where
  "trade_later r q \<longleftrightarrow> same_trade r q \<and> (settled_trade r \<longrightarrow> q = r) \<and>
     (tw_prepared r \<noteq> None \<longrightarrow> tw_prepared q = tw_prepared r) \<and>
     (tw_signature r \<noteq> None \<longrightarrow> tw_signature q = tw_signature r \<and> tw_signed_transaction q = tw_signed_transaction r) \<and>
     (tw_state r = T_SUBMITTED \<longrightarrow> q = r \<or> settled_trade q) \<and>
     (tw_state r = T_QUOTED \<longrightarrow> tw_state q \<noteq> T_PREPARING)"

definition trades_ok :: "trade_world \<Rightarrow> bool" where
  "trades_ok w \<longleftrightarrow> jm_wf (tl_rows w) \<and>
     (\<forall>i r. jm_get (tl_rows w) i = Some r \<longrightarrow> tw_id r = i \<and> trade_row_ok r) \<and>
     (\<forall>i r j q. jm_get (tl_rows w) i = Some r \<longrightarrow> jm_get (tl_rows w) j = Some q \<longrightarrow>
        tw_user_id r = tw_user_id q \<longrightarrow> tw_idempotency_key r = tw_idempotency_key q \<longrightarrow> i = j) \<and>
     (\<forall>i sig. (i, sig) \<in> set (tl_broadcasts w) \<longrightarrow> (\<exists>r. jm_get (tl_rows w) i = Some r \<and> tw_signature r = Some sig)) \<and>
     distinct (map tw_id (tl_told w)) \<and>
     (\<forall>q \<in> set (tl_told w). tw_state q = T_FILLED \<and> jm_get (tl_rows w) (tw_id q) = Some q) \<and>
     (\<forall>i r. jm_get (tl_rows w) i = Some r \<longrightarrow> tw_state r = T_FILLED \<longrightarrow> r \<in> set (tl_told w))"

lemma trades_ok_row: "trades_ok w \<Longrightarrow> jm_get (tl_rows w) i = Some r \<Longrightarrow> tw_id r = i \<and> trade_row_ok r"
  unfolding trades_ok_def by blast

lemma trades_ok_wf: "trades_ok w \<Longrightarrow> jm_wf (tl_rows w)"
  unfolding trades_ok_def by blast

lemma trades_ok_sent: "trades_ok w \<Longrightarrow> (i, sig) \<in> set (tl_broadcasts w) \<Longrightarrow> \<exists>r. jm_get (tl_rows w) i = Some r \<and> tw_signature r = Some sig"
  unfolding trades_ok_def by (elim conjE) blast

lemma trades_ok_told: "trades_ok w \<Longrightarrow> q \<in> set (tl_told w) \<Longrightarrow> tw_state q = T_FILLED \<and> jm_get (tl_rows w) (tw_id q) = Some q"
  unfolding trades_ok_def by (elim conjE) blast

lemma trades_ok_filled: "trades_ok w \<Longrightarrow> jm_get (tl_rows w) i = Some r \<Longrightarrow> tw_state r = T_FILLED \<Longrightarrow> r \<in> set (tl_told w)"
  unfolding trades_ok_def by (elim conjE) blast

lemma trades_ok_keys: "trades_ok w \<Longrightarrow> jm_get (tl_rows w) i = Some r \<Longrightarrow> jm_get (tl_rows w) j = Some q \<Longrightarrow>
    tw_user_id r = tw_user_id q \<Longrightarrow> tw_idempotency_key r = tw_idempotency_key q \<Longrightarrow> i = j"
  unfolding trades_ok_def by (elim conjE) blast

definition empty_trades :: trade_world where
  "empty_trades = \<lparr>tl_rows = [], tl_broadcasts = [], tl_told = []\<rparr>"

lemma trades_ok_empty [simp]: "trades_ok empty_trades"
  by (simp add: trades_ok_def empty_trades_def)

lemma same_trade_eq: "same_trade r q \<Longrightarrow> tw_id q = tw_id r \<and> tw_user_id q = tw_user_id r \<and> tw_call_id q = tw_call_id r \<and>
    tw_wallet_address q = tw_wallet_address r \<and> tw_side q = tw_side r \<and> tw_amount_base_units q = tw_amount_base_units r \<and>
    tw_idempotency_key q = tw_idempotency_key r \<and> tw_created_at q = tw_created_at r"
  by (cases r; cases q) (simp add: same_trade_def)

lemma same_trade_trans: "same_trade r q \<Longrightarrow> same_trade q x \<Longrightarrow> same_trade r x"
  by (cases r; cases q; cases x) (simp add: same_trade_def)

lemma trade_later_refl [simp]: "trade_later r r"
  by (auto simp: trade_later_def same_trade_def)

lemma trade_later_trans: "trade_later r q \<Longrightarrow> trade_later q x \<Longrightarrow> trade_row_ok r \<Longrightarrow> trade_row_ok q \<Longrightarrow> trade_later r x"
  unfolding trade_later_def by (cases "tw_state r"; cases "tw_state q") (auto simp: settled_trade_def trade_row_ok_def intro: same_trade_trans)

lemmas patch_defs = trade_patched_def quote_patch_def sign_patch_def fill_patch_def to_trade_state_def

lemma patched_ok:
  assumes "trade_row_ok r" "advance (tw_state r) p"
  shows "trade_row_ok (trade_patched p now r)"
  using assms(2) unfolding advance_def
  by (elim disjE exE conjE; cases "tw_signature r"; cases "tw_signed_transaction r"; cases "tw_prepared r")
    (use assms(1) in \<open>simp_all add: trade_row_ok_def patch_defs\<close>)

lemma patched_same: "same_trade r (trade_patched p now r)"
  by (cases r) (simp add: same_trade_def trade_patched_def)

lemma patched_later:
  assumes "trade_row_ok r" "advance (tw_state r) p"
  shows "trade_later r (trade_patched p now r)"
proof -
  let ?q = "trade_patched p now r"
  have "\<not> settled_trade r" using assms(2) by (auto simp: advance_def settled_trade_def)
  moreover have "tw_prepared r \<noteq> None \<longrightarrow> tw_prepared ?q = tw_prepared r"
    using assms by (auto simp: advance_def trade_row_ok_def patch_defs)
  moreover have "tw_signature r \<noteq> None \<longrightarrow> tw_signature ?q = tw_signature r \<and> tw_signed_transaction ?q = tw_signed_transaction r"
    using assms by (auto simp: advance_def trade_row_ok_def patch_defs)
  moreover have "tw_state r = T_SUBMITTED \<longrightarrow> settled_trade ?q" "tw_state r = T_QUOTED \<longrightarrow> tw_state ?q \<noteq> T_PREPARING"
    using assms(2) by (auto simp: advance_def settled_trade_def patch_defs)
  ultimately show ?thesis using patched_same[of r p now] unfolding trade_later_def by blast
qed

lemma patched_fixed [simp]: "tw_id (trade_patched p now r) = tw_id r" "tw_user_id (trade_patched p now r) = tw_user_id r"
  "tw_idempotency_key (trade_patched p now r) = tw_idempotency_key r" "tw_state (trade_patched p now r) = td_state p"
  by (simp_all add: trade_patched_def)

lemma blank_trade_fixed [simp]: "tw_id (blank_trade now r) = tw_id r" "tw_user_id (blank_trade now r) = tw_user_id r"
  "tw_idempotency_key (blank_trade now r) = tw_idempotency_key r" "tw_state (blank_trade now r) = T_PREPARING" "trade_row_ok (blank_trade now r)"
  by (simp_all add: blank_trade_def trade_row_ok_def)

lemma find_trade_None:
  "trade_find u key rows = None \<Longrightarrow> jm_get rows i = Some r \<Longrightarrow> tw_user_id r = u \<Longrightarrow> tw_idempotency_key r \<noteq> key"
  by (auto simp: trade_find_def find_None_iff dest!: jm_get_mem)

lemma trades_ok_set:
  assumes ok: "trades_ok w" and v: "tw_id v = i" "trade_row_ok v"
    and keys: "\<And>j q. jm_get (tl_rows w) j = Some q \<Longrightarrow> tw_user_id q = tw_user_id v \<Longrightarrow> tw_idempotency_key q = tw_idempotency_key v \<Longrightarrow> j = i"
    and old: "\<And>r. jm_get (tl_rows w) i = Some r \<Longrightarrow> trade_later r v \<and> tw_state r \<noteq> T_FILLED"
    and ts: "ts = (if tw_state v = T_FILLED then [v] else [])"
  shows "trades_ok (w\<lparr>tl_rows := jm_set i v (tl_rows w), tl_told := tl_told w @ ts\<rparr>)"
proof -
  from ok have o1: "jm_wf (tl_rows w)" and o2: "\<And>j r. jm_get (tl_rows w) j = Some r \<Longrightarrow> tw_id r = j \<and> trade_row_ok r"
    and o3: "\<And>j r k q. jm_get (tl_rows w) j = Some r \<Longrightarrow> jm_get (tl_rows w) k = Some q \<Longrightarrow> tw_user_id r = tw_user_id q \<Longrightarrow>
        tw_idempotency_key r = tw_idempotency_key q \<Longrightarrow> j = k"
    and o4: "\<And>j sig. (j, sig) \<in> set (tl_broadcasts w) \<Longrightarrow> \<exists>r. jm_get (tl_rows w) j = Some r \<and> tw_signature r = Some sig"
    and o5: "distinct (map tw_id (tl_told w))" and o6: "\<And>q. q \<in> set (tl_told w) \<Longrightarrow> tw_state q = T_FILLED \<and> jm_get (tl_rows w) (tw_id q) = Some q"
    and o7: "\<And>j r. jm_get (tl_rows w) j = Some r \<Longrightarrow> tw_state r = T_FILLED \<Longrightarrow> r \<in> set (tl_told w)"
    unfolding trades_ok_def by (elim conjE, blast)+
  have untold: "tw_id q \<noteq> i" if "q \<in> set (tl_told w)" for q
    using o6[OF that] old by auto
  then have untold': "i \<notin> tw_id ` set (tl_told w)" by blast
  have s4: "\<exists>r. (if j = i then Some v else jm_get (tl_rows w) j) = Some r \<and> tw_signature r = Some sig" if "(j, sig) \<in> set (tl_broadcasts w)" for j sig
    using o4[OF that] old by (auto simp: trade_later_def)
  show ?thesis
    unfolding trades_ok_def
  proof (intro conjI allI impI ballI, goal_cases)
    case 1 then show ?case using o1 by simp
  next
    case 2 then show ?case using o2 v by (simp split: if_splits)
  next
    case 3 then show ?case using o2 v by (simp split: if_splits)
  next
    case (4 j r k q) then show ?case using o3 keys by (simp split: if_splits)
  next
    case 5 then show ?case using s4 by simp
  next
    case 6 then show ?case using o5 untold' v ts by simp
  next
    case 7 then show ?case using o6 ts by (auto split: if_splits)
  next
    case 8 then show ?case using o6 untold v ts by (auto split: if_splits)
  next
    case 9 then show ?case using o7 ts by (simp split: if_splits)
  qed
qed

lemma trades_ok_moved:
  assumes "trades_ok w" shows "trades_ok (trade_moved g now m w)"
proof (cases rule: trade_move_cases[of g now m w])
  case same
  then show ?thesis using assms by simp
next
  case (new r)
  have "trades_ok (w\<lparr>tl_rows := jm_set (tw_id r) (blank_trade now r) (tl_rows w), tl_told := tl_told w @ []\<rparr>)"
    by (rule trades_ok_set) (use assms new find_trade_None in auto)
  then show ?thesis using new(3) by simp
next
  case (patch i r p)
  have r: "tw_id r = i" "trade_row_ok r" using trades_ok_row[OF assms patch(1)] by blast+
  have later: "trade_later r (trade_patched p now r)" using patched_later r(2) patch(2) by blast
  have "trades_ok (w\<lparr>tl_rows := jm_set i (trade_patched p now r) (tl_rows w), tl_told := tl_told w @ told_by p (trade_patched p now r)\<rparr>)"
  proof (rule trades_ok_set)
    show "j = i" if "jm_get (tl_rows w) j = Some q" "tw_user_id q = tw_user_id (trade_patched p now r)"
      "tw_idempotency_key q = tw_idempotency_key (trade_patched p now r)" for j q
      using that assms patch(1) unfolding trades_ok_def patched_fixed by blast
    show "trade_later q (trade_patched p now r) \<and> tw_state q \<noteq> T_FILLED" if "jm_get (tl_rows w) i = Some q" for q
      using that patch later by (auto simp: advance_def)
  qed (use assms r patch(2) patched_ok in \<open>auto simp: told_by_def\<close>)
  then show ?thesis using patch(3) by simp
next
  case (sent i r sig)
  then show ?thesis using assms unfolding trades_ok_def sent(3) by auto
qed

lemma trade_moved_later:
  assumes "trades_ok w" "jm_get (tl_rows w) i = Some r"
  shows "\<exists>q. jm_get (tl_rows (trade_moved g now m w)) i = Some q \<and> trade_later r q"
proof (cases rule: trade_move_cases[of g now m w])
  case (patch j q p)
  then show ?thesis using assms trades_ok_row patched_later by (cases "i = j") auto
qed (use assms in auto)

interpretation trade_ledger: moved_ledger "trade_moved g now" trades_ok "\<lambda>w. jm_get (tl_rows w)" trade_row_ok trade_later for g now
  by unfold_locales (fact trades_ok_moved trade_moved_later trade_later_refl trade_later_trans | use trades_ok_row in blast)+

section \<open>The service only makes moves\<close>

definition moves_to :: "trade_env \<Rightarrow> trade_world \<Rightarrow> trade_world \<Rightarrow> bool" where
  "moves_to e = moved_by (trade_moved (te_allows e) (te_now e))"

lemma moves_refl [simp, intro]: "moves_to e w w"
  by (simp add: moves_to_def)

lemma moves_one: "w' = trade_moved (te_allows e) (te_now e) m w \<Longrightarrow> moves_to e w w'"
  unfolding moves_to_def by (rule moved_by_one)

lemma moves_trans: "moves_to e w w' \<Longrightarrow> moves_to e w' w'' \<Longrightarrow> moves_to e w w''"
  unfolding moves_to_def by (rule moved_by_trans)

lemma moves_raced [simp, intro]: "moves_to e w (raced e w)"
  by (simp add: moves_to_def raced_def trade_run_def)

lemma moves_ok: "moves_to e w w' \<Longrightarrow> trades_ok w \<Longrightarrow> trades_ok w'"
  unfolding moves_to_def by (rule trade_ledger.moved_keeps)

lemma moves_later: "moves_to e w w' \<Longrightarrow> trades_ok w \<Longrightarrow> jm_get (tl_rows w) i = Some r \<Longrightarrow>
    \<exists>q. jm_get (tl_rows w') i = Some q \<and> trade_later r q"
  unfolding moves_to_def by (rule trade_ledger.moved_advances)

lemma moves_quote: "moves_to e w (w\<lparr>tl_rows := snd (trade_update (te_allows e) (te_now e) i T_PREPARING (quote_patch p) (tl_rows w))\<rparr>)"
  by (rule moves_one[of _ _ "Mv_quote i p"]) (simp add: set_rows_def)

lemma moves_drop: "s = T_PREPARING \<or> s = T_QUOTED \<Longrightarrow>
    moves_to e w (w\<lparr>tl_rows := snd (trade_update (te_allows e) (te_now e) i s (to_trade_state T_FAILED) (tl_rows w))\<rparr>)"
  by (rule moves_one[of _ _ "Mv_drop i s"]) (auto simp: set_rows_def)

lemma moves_fail: "moves_to e w (w\<lparr>tl_rows := snd (trade_update (te_allows e) (te_now e) i T_SUBMITTED (to_trade_state T_FAILED) (tl_rows w))\<rparr>)"
  by (rule moves_one[of _ _ "Mv_fail i"]) (simp add: set_rows_def)

lemma moves_sign: "moves_to e w (w\<lparr>tl_rows := snd (trade_update (te_allows e) (te_now e) i T_QUOTED (sign_patch payload sig) (tl_rows w))\<rparr>)"
  by (rule moves_one[of _ _ "Mv_sign i payload sig"]) (simp add: set_rows_def)

lemma moves_reserve: "moves_to e w (w\<lparr>tl_rows := snd (trade_reserve (te_allows e) (te_now e) r (tl_rows w))\<rparr>)"
  by (rule moves_one[of _ _ "Mv_reserve r"]) (simp add: set_rows_def)

lemma moves_fill: "vo_fundingState x = F_FILLED \<Longrightarrow> moves_to e w (snd (told_fill (te_allows e) (te_now e) i x w))"
  by (rule moves_one[of _ _ "Mv_fill i x"]) simp

lemma moves_sent: "jm_get (tl_rows w) i = Some r \<Longrightarrow> tw_signature r = Some sig \<Longrightarrow>
    moves_to e w (w\<lparr>tl_broadcasts := tl_broadcasts w @ [(i, sig)]\<rparr>)"
  by (rule moves_one[of _ _ "Mv_broadcast i sig"]) simp

lemma find_in_ledger:
  assumes "trades_ok w" "find P (jm_values (tl_rows w)) = Some r"
  shows "jm_get (tl_rows w) (tw_id r) = Some r"
proof -
  obtain k where "(k, r) \<in> set (tl_rows w)" using assms(2) by (auto simp: find_Some_iff) (metis nth_mem prod.collapse)
  then have "jm_get (tl_rows w) k = Some r" using trades_ok_wf[OF assms(1)] by (rule jm_get_in[rotated])
  then show ?thesis using trades_ok_row[OF assms(1)] by blast
qed

lemma own_in_ledger:
  assumes "trades_ok w" "own_trade u orderId (tl_rows w) = Some (r, p)"
  shows "jm_get (tl_rows w) (tw_id r) = Some r \<and> tw_prepared r = Some p \<and> tw_user_id r = u \<and> trade_row_ok r"
proof -
  have f: "find (\<lambda>r. tw_user_id r = u \<and> tw_provider_order_id r = Some orderId) (jm_values (tl_rows w)) = Some r" "tw_prepared r = Some p"
    using assms(2) by (auto simp: own_trade_def trade_byOrder_def split: option.splits)
  have "tw_user_id r = u" using f(1) by (auto simp: find_Some_iff)
  then show ?thesis using find_in_ledger[OF assms(1) f(1)] trades_ok_row[OF assms(1)] f(2) by blast
qed

lemma drop_reserved_moves: "moves_to e w (snd (drop_reserved e i x w))"
  using moves_drop[of T_PREPARING e w i]
  by (cases "trade_update (te_allows e) (te_now e) i T_PREPARING (to_trade_state T_FAILED) (tl_rows w)")
    (auto simp: drop_reserved_def split: sum.splits)

lemma build_quote_moves: "moves_to e w (snd (build_quote e r w))"
proof (cases "te_buildBuy e r")
  case (Inl x)
  then show ?thesis using moves_trans[OF moves_raced drop_reserved_moves] by (simp add: build_quote_def)
next
  case (Inr p)
  let ?u = "trade_update (te_allows e) (te_now e) (tw_id r) T_PREPARING (quote_patch p) (tl_rows (raced e w))"
  have q: "moves_to e w (raced e w\<lparr>tl_rows := snd ?u\<rparr>)" by (rule moves_trans[OF moves_raced moves_quote])
  show ?thesis
    using q moves_trans[OF q drop_reserved_moves] Inr
    by (cases ?u) (auto simp: build_quote_def Let_def split: sum.splits option.splits)
qed

lemma trade_prepare_moves: "moves_to e w (snd (trade_prepare e u i signIn mc w))"
proof -
  have "moves_to e w (snd (case trade_reserve (te_allows e) (te_now e) (intent_row e u i c) (tl_rows (raced e w)) of
      (Inl x, rows) \<Rightarrow> (Inl x, raced e w\<lparr>tl_rows := rows\<rparr>)
    | (Inr None, rows) \<Rightarrow> (case trade_find u (ti_idempotencyKey i) rows of None \<Rightarrow> (Inl bad_request, raced e w)
         | Some r \<Rightarrow> (trade_replay e r i, raced e w))
    | (Inr (Some reserved), rows) \<Rightarrow> build_quote e reserved (raced e w\<lparr>tl_rows := rows\<rparr>)))" for c
  proof (cases "trade_reserve (te_allows e) (te_now e) (intent_row e u i c) (tl_rows (raced e w))")
    case (Pair res rows)
    have m: "moves_to e w (raced e w\<lparr>tl_rows := rows\<rparr>)"
      using moves_trans[OF moves_raced moves_reserve[of e "raced e w" "intent_row e u i c"]] Pair by simp
    show ?thesis using m moves_trans[OF m build_quote_moves] Pair by (auto split: sum.splits option.splits)
  qed
  then show ?thesis by (auto simp: trade_prepare_def Let_def split: sum.splits)
qed

lemma send_approval_moves:
  assumes "jm_get (tl_rows w) (tw_id r) = Some q" "tw_signature q = Some sig"
  shows "moves_to e w (snd (send_approval e r p sig w))"
  using moves_sent[OF assms] by (auto simp: send_approval_def Let_def split: option.splits)

lemma save_approval_moves:
  assumes "trades_ok w" "jm_get (tl_rows w) (tw_id r) = Some r"
  shows "moves_to e w (snd (save_approval e u orderId payload sig r p w))"
proof -
  let ?w = "raced e w"
  let ?u = "trade_update (te_allows e) (te_now e) (tw_id r) T_QUOTED (sign_patch payload sig) (tl_rows ?w)"
  have ok: "trades_ok ?w" using moves_ok[OF moves_raced assms(1)] .
  have m: "moves_to e w (?w\<lparr>tl_rows := snd ?u\<rparr>)" by (rule moves_trans[OF moves_raced moves_sign])
  have "moves_to e w (snd (case ?u of (Inl x, rows) \<Rightarrow> (Inl x, ?w\<lparr>tl_rows := rows\<rparr>)
      | (Inr (Some saved), rows) \<Rightarrow> if other_approval saved payload sig then (Inl bad_request, ?w\<lparr>tl_rows := rows\<rparr>)
          else send_approval e saved p sig (?w\<lparr>tl_rows := rows\<rparr>)
      | (Inr None, rows) \<Rightarrow> (case own_trade u orderId rows of None \<Rightarrow> (Inl (Venue_error VENUE_NOT_FOUND None), ?w)
          | Some (fresh, p) \<Rightarrow> if other_approval fresh payload sig then (Inl bad_request, ?w) else send_approval e fresh p sig ?w)))"
  proof (cases rule: trade_update_cases[of "te_allows e" "te_now e" "tw_id r" T_QUOTED "sign_patch payload sig" "tl_rows ?w"])
    case refused
    have sent: "moves_to e w (snd (send_approval e fresh p1 sig ?w))"
      if "own_trade u orderId (tl_rows ?w) = Some (fresh, p1)" "\<not> other_approval fresh payload sig" for fresh p1
      using moves_trans[OF moves_raced send_approval_moves] own_in_ledger[OF ok that(1)] that(2)
      by (auto simp: other_approval_def)
    show ?thesis using refused m sent
      by (cases ?u) (auto split: sum.splits option.splits prod.splits)
  next
    case (wrote q)
    let ?q = "trade_patched (sign_patch payload sig) (te_now e) q"
    have q: "tw_signature ?q = Some sig" "tw_id ?q = tw_id r" using trades_ok_row[OF ok wrote(1)] by (simp_all add: patch_defs)
    have "moves_to e (?w\<lparr>tl_rows := snd ?u\<rparr>) (snd (send_approval e ?q p sig (?w\<lparr>tl_rows := snd ?u\<rparr>)))"
      by (rule send_approval_moves[of _ _ ?q]) (use q wrote in simp_all)
    then show ?thesis using m wrote(3) moves_trans by auto
  qed
  then show ?thesis by (simp add: save_approval_def Let_def)
qed

lemma trade_submit_moves:
  assumes "trades_ok w" shows "moves_to e w (snd (trade_submit e u orderId payload signIn w))"
proof (cases "own_trade u orderId (tl_rows w)")
  case None
  then show ?thesis by (simp add: trade_submit_def)
next
  case (Some rp)
  obtain r p where rp: "rp = (r, p)" by (cases rp)
  have r: "jm_get (tl_rows w) (tw_id r) = Some r" "tw_prepared r = Some p" "trade_row_ok r"
    using own_in_ledger[OF assms] Some rp by blast+
  have "moves_to e w (snd (send_approval e r p sig w))"
    if "\<not> (tw_signature r \<noteq> None \<and> other_approval r payload sig)" "tw_state r \<noteq> T_FAILED" "tw_state r \<noteq> T_FILLED" "tw_state r \<noteq> T_QUOTED" for sig
  proof (rule send_approval_moves[OF r(1)])
    show "tw_signature r = Some sig" using that r(2,3) by (cases "tw_state r") (auto simp: trade_row_ok_def other_approval_def)
  qed
  then show ?thesis using Some rp save_approval_moves[OF assms r(1)]
    by (simp add: trade_submit_def split: option.splits)
qed

lemma saved_or_current_world [simp]: "snd (saved_or_current r x) = snd x"
  by (cases x) (simp add: saved_or_current_def split: sum.splits option.splits)

lemma trade_reconcile_moves: "moves_to e w (snd (trade_reconcile e r w))"
proof -
  have f: "moves_to e w (raced e w\<lparr>tl_rows := snd (trade_update (te_allows e) (te_now e) (tw_id r) T_SUBMITTED (to_trade_state T_FAILED) (tl_rows (raced e w)))\<rparr>)"
    by (rule moves_trans[OF moves_raced moves_fail])
  have g: "vo_fundingState x = F_FILLED \<Longrightarrow> moves_to e w (snd (told_fill (te_allows e) (te_now e) (tw_id r) x (raced e w)))" for x
    by (rule moves_trans[OF moves_raced moves_fill])
  show ?thesis using f g
    by (cases "trade_update (te_allows e) (te_now e) (tw_id r) T_SUBMITTED (to_trade_state T_FAILED) (tl_rows (raced e w))")
      (auto simp: trade_reconcile_def Let_def split: trade_state.splits option.splits sum.splits bool.splits)
qed

lemma trade_order_moves: "moves_to e w (snd (trade_order e u orderId w))"
proof (cases "own_trade u orderId (tl_rows w)")
  case (Some rp)
  obtain r p where rp: "rp = (r, p)" by (cases rp)
  obtain res w' where res: "trade_reconcile e r w = (res, w')" by (cases "trade_reconcile e r w")
  then have "moves_to e w w'" using trade_reconcile_moves[of e w r] by simp
  then show ?thesis using Some rp res by (cases res) (simp_all add: trade_order_def)
qed (simp add: trade_order_def)

section \<open>Whatever requests come, in whatever order\<close>

datatype trade_op =
  Op_prepare trade_env string prepare_input "string option" bool
| Op_submit trade_env string string string "string option"
| Op_reconcile trade_env trade_row
| Op_order trade_env string string
| Op_others trade_env

fun trade_op_step :: "trade_op \<Rightarrow> trade_world \<Rightarrow> trade_world" where
  "trade_op_step (Op_prepare e u i signIn mc) w = snd (trade_prepare e u i signIn mc w)"
| "trade_op_step (Op_submit e u orderId payload signIn) w = snd (trade_submit e u orderId payload signIn w)"
| "trade_op_step (Op_reconcile e r) w = snd (trade_reconcile e r w)"
| "trade_op_step (Op_order e u orderId) w = snd (trade_order e u orderId w)"
| "trade_op_step (Op_others e) w = raced e w"

definition trade_ops :: "trade_op list \<Rightarrow> trade_world \<Rightarrow> trade_world" where
  "trade_ops ops w = fold trade_op_step ops w"

lemma trade_op_moves: "trades_ok w \<Longrightarrow> \<exists>e. moves_to e w (trade_op_step op1 w)"
proof (cases op1)
  case (Op_prepare e u i signIn mc)
  then show ?thesis using trade_prepare_moves[of e w u i signIn mc] by auto
next
  case (Op_submit e u orderId payload signIn)
  assume "trades_ok w"
  then show ?thesis using trade_submit_moves[of w e u orderId payload signIn] Op_submit by auto
next
  case (Op_reconcile e r)
  then show ?thesis using trade_reconcile_moves[of e w r] by auto
next
  case (Op_order e u orderId)
  then show ?thesis using trade_order_moves[of e w u orderId] by auto
next
  case (Op_others e)
  then show ?thesis using moves_raced[of e w] by auto
qed

interpretation trade_requests: moved_ledger trade_op_step trades_ok "\<lambda>w. jm_get (tl_rows w)" trade_row_ok trade_later
proof (unfold_locales, goal_cases)
  case (1 w m)
  then show ?case using trade_op_moves[of w m] moves_ok by blast
next
  case (2 w k r m)
  then show ?case using trade_op_moves[of w m] moves_later by blast
qed (fact trade_later_refl trade_later_trans | use trades_ok_row in blast)+

lemmas trade_ops_ok = trade_requests.run_keeps[folded trade_ops_def]

lemmas trade_ops_later = trade_requests.run_advances[folded trade_ops_def]

text \<open>C35: Approvals are durable before they are sent. Whatever quotes, approvals and checks come in
  whatever order, with the moves of other requests in between: every transaction that was broadcast is
  the one approval saved on its row, which is no longer an unsigned quote; and every confirmed fill was
  told on exactly once, with the venue's proof on its row.\<close>

theorem approval_durable:
  "case trade_ops ops empty_trades of w \<Rightarrow>
     list_all (\<lambda>(i, sig). case jm_get (tl_rows w) i of None \<Rightarrow> False
       | Some r \<Rightarrow> tw_signature r = Some sig \<and> reached_wallet r) (tl_broadcasts w) \<and>
     distinct (map tw_id (tl_told w)) \<and>
     set (tl_told w) = set (filter (\<lambda>r. tw_state r = T_FILLED) (jm_values (tl_rows w))) \<and>
     list_all (\<lambda>r. map_option vo_fundingState (tw_fill_evidence r) = Some F_FILLED) (tl_told w)"
proof -
  define w where "w = trade_ops ops empty_trades"
  have ok: "trades_ok w" unfolding w_def by (rule trade_ops_ok) simp
  have b: "\<exists>r. jm_get (tl_rows w) i = Some r \<and> tw_signature r = Some sig \<and> reached_wallet r" if "(i, sig) \<in> set (tl_broadcasts w)" for i sig
  proof -
    obtain r where r: "jm_get (tl_rows w) i = Some r" "tw_signature r = Some sig" using trades_ok_sent[OF ok \<open>(i, sig) \<in> set (tl_broadcasts w)\<close>] by blast
    then have "reached_wallet r" using trades_ok_row[OF ok r(1)]
      by (cases "tw_state r") (auto simp: reached_wallet_def trade_row_ok_def)
    then show ?thesis using r by blast
  qed
  have told: "q \<in> set (tl_told w) \<longleftrightarrow> q \<in> set (jm_values (tl_rows w)) \<and> tw_state q = T_FILLED" for q
  proof
    assume "q \<in> set (tl_told w)"
    then have "tw_state q = T_FILLED" "jm_get (tl_rows w) (tw_id q) = Some q" using trades_ok_told[OF ok] by blast+
    then show "q \<in> set (jm_values (tl_rows w)) \<and> tw_state q = T_FILLED" by (auto dest!: jm_get_mem intro: rev_image_eqI)
  next
    assume q: "q \<in> set (jm_values (tl_rows w)) \<and> tw_state q = T_FILLED"
    then obtain k where "(k, q) \<in> set (tl_rows w)" by auto
    then have "jm_get (tl_rows w) k = Some q" using jm_get_in trades_ok_wf[OF ok] by fast
    then show "q \<in> set (tl_told w)" using trades_ok_filled[OF ok] q by blast
  qed
  have ev: "map_option vo_fundingState (tw_fill_evidence q) = Some F_FILLED" if "q \<in> set (tl_told w)" for q
  proof -
    have q: "tw_state q = T_FILLED" "jm_get (tl_rows w) (tw_id q) = Some q" using trades_ok_told[OF ok that] by blast+
    have "trade_row_ok q" using trades_ok_row[OF ok q(2)] by blast
    then show ?thesis using q(1) by (simp add: trade_row_ok_def)
  qed
  have d: "distinct (map tw_id (tl_told w))" using ok unfolding trades_ok_def by blast
  have s: "case jm_get (tl_rows w) i of None \<Rightarrow> False | Some r \<Rightarrow> tw_signature r = Some sig \<and> reached_wallet r"
    if "(i, sig) \<in> set (tl_broadcasts w)" for i sig
    using b[OF that] by auto
  have t: "set (tl_told w) = set (filter (\<lambda>r. tw_state r = T_FILLED) (jm_values (tl_rows w)))"
    unfolding set_filter set_eq_iff mem_Collect_eq using told by blast
  show ?thesis unfolding w_def[symmetric] using s ev d t by (simp add: list_all_iff case_prod_beta del: set_filter filter_map set_map)
qed

text \<open>C36: The life of a trade. However requests interleave, a trade keeps its terms; its quote and its
  approval are set once; submitted it can only fill or fail; filled or failed it never changes; and a
  person's key names one trade.\<close>

theorem trade_life:
  "case trade_ops ops1 empty_trades of w \<Rightarrow> case trade_ops ops2 w of w' \<Rightarrow>
     list_all (\<lambda>(i, r). case jm_get (tl_rows w') i of None \<Rightarrow> False | Some q \<Rightarrow> trade_later r q) (tl_rows w) \<and>
     distinct (map (\<lambda>r. (tw_user_id r, tw_idempotency_key r)) (jm_values (tl_rows w')))"
proof -
  define w where "w = trade_ops ops1 empty_trades"
  have ok: "trades_ok w" unfolding w_def by (rule trade_ops_ok) simp
  have ok': "trades_ok (trade_ops ops2 w)" using ok by (rule trade_ops_ok)
  have l: "\<exists>q. jm_get (tl_rows (trade_ops ops2 w)) i = Some q \<and> trade_later r q" if "(i, r) \<in> set (tl_rows w)" for i r
    using trade_ops_later[OF ok] jm_get_in[OF trades_ok_wf[OF ok] that] by blast
  have "distinct (map (\<lambda>r. (tw_user_id r, tw_idempotency_key r)) (jm_values rows))"
    if "jm_wf rows" "\<And>i r j q. (i, r) \<in> set rows \<Longrightarrow> (j, q) \<in> set rows \<Longrightarrow> tw_user_id r = tw_user_id q \<Longrightarrow>
        tw_idempotency_key r = tw_idempotency_key q \<Longrightarrow> i = j" for rows
    using that
  proof (induction rows)
    case (Cons kv rows)
    show ?case
    proof (cases kv)
      case (Pair k r)
      have "\<not> (tw_user_id q = tw_user_id r \<and> tw_idempotency_key q = tw_idempotency_key r)" if "(j, q) \<in> set rows" for j q
        using Cons.prems(1) Cons.prems(2)[of j q k r] that Pair by (auto intro: rev_image_eqI)
      moreover have "distinct (map (\<lambda>r. (tw_user_id r, tw_idempotency_key r)) (jm_values rows))"
        by (rule Cons.IH) (use Cons.prems in \<open>simp, meson list.set_intros(2)\<close>)
      ultimately show ?thesis using Pair by (fastforce simp: image_iff)
    qed
  qed simp
  moreover have "i = j" if "(i, r) \<in> set (tl_rows (trade_ops ops2 w))" "(j, q) \<in> set (tl_rows (trade_ops ops2 w))"
    "tw_user_id r = tw_user_id q" "tw_idempotency_key r = tw_idempotency_key q" for i r j q
    using trades_ok_keys[OF ok'] that jm_get_in[OF trades_ok_wf[OF ok']] by metis
  ultimately have "distinct (map (\<lambda>r. (tw_user_id r, tw_idempotency_key r)) (jm_values (tl_rows (trade_ops ops2 w))))"
    using trades_ok_wf[OF ok'] by blast
  moreover have "case jm_get (tl_rows (trade_ops ops2 w)) i of None \<Rightarrow> False | Some q \<Rightarrow> trade_later r q" if "(i, r) \<in> set (tl_rows w)" for i r
    using l[OF that] by auto
  ultimately show ?thesis unfolding w_def[symmetric] by (auto simp: list_all_iff)
qed

end
