(* ===== verification/MoneyCalls.thy ===== *)
theory MoneyCalls
  imports PantaFills
begin

text \<open>
  Calls with an amount (\<open>src/money/MoneyCallsService.ts\<close>, and the choice of the wallet in
  \<open>src/wallet/tradingWallet.ts\<close>): preparing one, quoting it again, going free instead, dropping it, the
  reads, the transition a confirmed fill makes, and the sweeper. Its world joins the ledger of money
  calls with its index, the social calls and the trades. A request reads and writes them as one step
  here, but for the trades, which other requests move in between (as in \<open>PantaTrading\<close>). The answers of
  the balances, the gas quote and the durable flush are arguments.
\<close>

section \<open>The world, the surroundings and what is thrown\<close>

record money_world =
  qw_rows :: money_rows
  qw_index :: money_rows
  qw_social :: social_state
  qw_trades :: trade_world

record deposit_wallet =
  dw_address :: string
  dw_walletType :: string
  dw_primary :: bool
  dw_session :: bool

record deposit_person =
  dp_userId :: string
  dp_wallets :: "deposit_wallet list"

record prepare_call_input =
  pc_call :: funded_input
  pc_amountBaseUnits :: string
  pc_idempotencyKey :: string
  pc_wallet :: "string option"
  pc_confidence :: "num option"
  pc_thesis :: "string option"
  pc_visibility :: visibility
  pc_maxSlippageBps :: int

record gas_answer =
  ga_needsSol :: bool
  ga_topUp :: "int option"

datatype money_error_code = DISABLED | SIGNED_OUT | NOT_LINKED | NO_WALLET | NOT_LINKED_WALLET | AMOUNT | NOT_FOUND | STATE | IN_FLIGHT
  | KEY_CONFLICT | MARKET_CLOSED | NOT_TRADABLE | PRICE_UNAVAILABLE | PRICE_MOVED | TRANSFER_IN_FLIGHT | BAD_SIGNATURE | EXPIRED
  | RATE_LIMITED | UNAVAILABLE

datatype money_thrown = Money_error money_error_code | Calls_threw calls_thrown | Trade_threw thrown | Store_threw money_store_error
  | Flush_threw

record money_env =
  qe_calls :: calls_env
  qe_trade :: trade_env
  qe_publicMarket :: "string \<Rightarrow> venue_market option"
  qe_trading :: "bool \<Rightarrow> thrown option"
  qe_hasLedger :: bool
  qe_balances :: "(string \<Rightarrow> (int \<times> int) option) option"
  qe_gas :: "string \<Rightarrow> string \<Rightarrow> int \<Rightarrow> gas_answer"
  qe_maxBaseUnits :: "int option"
  qe_chumbucketWallet :: "string \<Rightarrow> bool"
  qe_tradable :: "string \<Rightarrow> bool"
  qe_flushes :: bool
  qe_newCallId :: string
  qe_newResponseId :: string
  qe_fingerprint :: "prepare_call_input \<Rightarrow> string"

type_synonym 'a moneyed = "(money_thrown + 'a) \<times> money_world"

definition money_fail :: "money_error_code \<Rightarrow> money_world \<Rightarrow> 'a moneyed" where
  "money_fail c w = (Inl (Money_error c), w)"

definition and_next :: "'a moneyed \<Rightarrow> ('a \<Rightarrow> money_world \<Rightarrow> 'b moneyed) \<Rightarrow> 'b moneyed" where
  "and_next p f = (case p of (Inl x, w) \<Rightarrow> (Inl x, w) | (Inr a, w) \<Rightarrow> f a w)"

definition money_now :: "money_env \<Rightarrow> int" where
  "money_now e = ce_now (qe_calls e)"

text \<open>The calls service with the index of this world; the trading service with the calls and money rows of this world.\<close>

definition calls_env_in :: "money_env \<Rightarrow> money_world \<Rightarrow> calls_env" where
  "calls_env_in e w = (qe_calls e)\<lparr>ce_money := Some (index_visibility (qw_index w))\<rparr>"

definition trade_env_in :: "money_env \<Rightarrow> money_world \<Rightarrow> trade_env" where
  "trade_env_in e w = (qe_trade e)\<lparr>te_now := money_now e,
     te_callIntent := callIntent (\<lambda>k. getCall k (so_store (qw_social w))) (qe_publicMarket e) (Some (qw_rows w))\<rparr>"

definition on_social :: "(social_state \<Rightarrow> 'a social) \<Rightarrow> money_world \<Rightarrow> 'a moneyed" where
  "on_social f w = (case f (qw_social w) of (r, s) \<Rightarrow> (case r of Inl x \<Rightarrow> Inl (Calls_threw x) | Inr a \<Rightarrow> Inr a, w\<lparr>qw_social := s\<rparr>))"

definition on_trades :: "(trade_world \<Rightarrow> 'a traded) \<Rightarrow> money_world \<Rightarrow> 'a moneyed" where
  "on_trades f w = (case f (qw_trades w) of (r, t) \<Rightarrow> (case r of Inl x \<Rightarrow> Inl (Trade_threw x) | Inr a \<Rightarrow> Inr a, w\<lparr>qw_trades := t\<rparr>))"

text \<open>What the money ledger's guard reads of the trades.\<close>

definition call_trades :: "string \<Rightarrow> string \<Rightarrow> trade_world \<Rightarrow> trade_row list" where
  "call_trades u k t = filter (\<lambda>r. tw_user_id r = u \<and> tw_call_id r = k) (jm_values (tl_rows t))"

definition last_quote_filled :: "trade_world \<Rightarrow> money_row \<Rightarrow> bool" where
  "last_quote_filled t r \<longleftrightarrow>
     list_ex (\<lambda>q. tw_state q = T_FILLED \<and> tw_idempotency_key q = trade_key r \<and>
        (case tw_prepared q of None \<Rightarrow> False | Some p \<Rightarrow> po_expiresAt p \<le> mr_expires_at r)) (call_trades (mr_user_id r) (mr_call_id r) t)"

definition ledger_guards :: "money_world \<Rightarrow> money_guards" where
  "ledger_guards w = \<lparr>gd_filled = Some (\<lambda>u k. list_ex (\<lambda>q. tw_state q = T_FILLED) (call_trades u k (qw_trades w))),
     gd_inFlight = Some (\<lambda>u k. list_ex (\<lambda>q. tw_state q = T_SUBMITTED \<or> tw_state q = T_FILLED) (call_trades u k (qw_trades w))),
     gd_callExists = Some (\<lambda>k. getCall k (so_store (qw_social w)) \<noteq> None),
     gd_lastQuoteFilled = Some (last_quote_filled (qw_trades w))\<rparr>"

definition on_ledger :: "(money_rows \<Rightarrow> (money_store_error + 'a) \<times> money_rows) \<Rightarrow> money_world \<Rightarrow> 'a moneyed" where
  "on_ledger f w = (case f (qw_rows w) of (r, rows) \<Rightarrow> (case r of Inl x \<Rightarrow> Inl (Store_threw x) | Inr a \<Rightarrow> Inr a, w\<lparr>qw_rows := rows\<rparr>))"

definition patch_row :: "money_env \<Rightarrow> money_row \<Rightarrow> money_state \<Rightarrow> money_patch \<Rightarrow> money_world \<Rightarrow> money_row option moneyed" where
  "patch_row e r previous p w = on_ledger (money_update (ledger_guards w) (money_now e) (mr_call_id r) (previous, mr_attempts r) p) w"

definition put_index :: "money_row \<Rightarrow> money_world \<Rightarrow> money_world" where
  "put_index r w = w\<lparr>qw_index := index_put r (qw_index w)\<rparr>"

definition flush :: "money_env \<Rightarrow> money_world \<Rightarrow> unit moneyed" where
  "flush e w = (if qe_flushes e then Inr () else Inl Flush_threw, w)"

definition no_patch :: money_patch where
  "no_patch = \<lparr>mp_state = None, mp_ended_reason = None, mp_attempts = None, mp_wallet_address = None, mp_expires_at = None\<rparr>"

definition ends_as :: "money_state \<Rightarrow> money_end \<Rightarrow> money_patch" where
  "ends_as s x = no_patch\<lparr>mp_state := Some s, mp_ended_reason := Some (Some x)\<rparr>"

section \<open>Helpers\<close>

definition PENDING_GRACE_MS :: int where
  "PENDING_GRACE_MS = 60000"

definition PENDING_INITIAL_MS :: int where
  "PENDING_INITIAL_MS = 120000"

definition CLOSED_REPAIR_MS :: int where
  "CLOSED_REPAIR_MS = 86400000"

definition NOT_CREATED_GRACE_MS :: int where
  "NOT_CREATED_GRACE_MS = 120000"

definition CENT :: int where
  "CENT = 10000"

definition MONEY_MIN_BASE_UNITS :: int where
  "MONEY_MIN_BASE_UNITS = 1000000"

lemma money_min: "MONEY_MIN_BASE_UNITS = int FUNDED_MIN_BASE_UNITS"
  by (simp add: MONEY_MIN_BASE_UNITS_def FUNDED_MIN_BASE_UNITS_def)

definition MONEY_DEFAULT_BASE_UNITS :: string where
  "MONEY_DEFAULT_BASE_UNITS = ''5000000''"

definition money_amount :: "money_env \<Rightarrow> string \<Rightarrow> int option" where
  "money_amount e v =
     (if \<not> amount_text v then None
      else (let n = amount_of v
        in if n mod CENT \<noteq> 0 \<or> n < MONEY_MIN_BASE_UNITS \<or> (case qe_maxBaseUnits e of None \<Rightarrow> False | Some m \<Rightarrow> n > m) then None
           else Some n))"

definition first_of :: "'a list \<Rightarrow> 'a option" where
  "first_of xs = (case xs of [] \<Rightarrow> None | x # _ \<Rightarrow> Some x)"

definition or_first :: "'a option \<Rightarrow> 'a option \<Rightarrow> 'a option" where
  "or_first a b = (case a of None \<Rightarrow> b | Some x \<Rightarrow> Some x)"

definition chooseTradingWallet :: "deposit_person \<Rightarrow> bool \<Rightarrow> deposit_wallet option" where
  "chooseTradingWallet p chumbucket =
     or_first (if chumbucket then find (\<lambda>d. dw_walletType d = ''chumbucket'') (dp_wallets p) else None)
       (or_first (find dw_session (dp_wallets p)) (or_first (find dw_primary (dp_wallets p)) (first_of (dp_wallets p))))"

definition pick_wallet :: "money_env \<Rightarrow> deposit_person \<Rightarrow> string option \<Rightarrow> money_error_code + deposit_wallet" where
  "pick_wallet e p hint =
     (if truthy hint
      then (case find (\<lambda>d. dw_address d = the hint) (dp_wallets p) of None \<Rightarrow> Inl NOT_LINKED_WALLET | Some d \<Rightarrow> Inr d)
      else (case chooseTradingWallet p (qe_chumbucketWallet e (dp_userId p)) of None \<Rightarrow> Inl NO_WALLET | Some d \<Rightarrow> Inr d))"

definition recordedWallet :: "deposit_person \<Rightarrow> money_row \<Rightarrow> money_error_code + deposit_wallet" where
  "recordedWallet p r =
     (case find (\<lambda>d. dw_address d = mr_wallet_address r) (dp_wallets p) of None \<Rightarrow> Inl NOT_LINKED_WALLET | Some d \<Rightarrow> Inr d)"

definition session_wallet :: "deposit_person \<Rightarrow> string option" where
  "session_wallet p = map_option dw_address (find dw_session (dp_wallets p))"

datatype blocked =
  Needs_funds deposit_wallet int int int
| Needs_gas deposit_wallet "int option"

text \<open>Gas, then funds.\<close>

definition readiness :: "money_env \<Rightarrow> deposit_person \<Rightarrow> deposit_wallet \<Rightarrow> int \<Rightarrow> money_error_code + blocked option" where
  "readiness e p d amount =
     (case qe_balances e of
        None \<Rightarrow> Inl UNAVAILABLE
      | Some read \<Rightarrow>
          (case read (dw_address d) of
             None \<Rightarrow> Inl UNAVAILABLE
           | Some (usdc, lamports) \<Rightarrow>
               (let gas = qe_gas e (dp_userId p) (dw_address d) lamports;
                    topUp = (if ga_needsSol gas then (case ga_topUp gas of None \<Rightarrow> 0 | Some n \<Rightarrow> n) else 0);
                    needed = amount + topUp
                in if usdc < needed then Inr (Some (Needs_funds d usdc needed (needed - usdc)))
                   else if ga_needsSol gas then Inr (Some (Needs_gas d (ga_topUp gas)))
                   else Inr None)))"

definition latest_trade :: "money_env \<Rightarrow> money_row \<Rightarrow> money_world \<Rightarrow> trade_row option" where
  "latest_trade e r w = (if qe_hasLedger e then latestForCall (mr_user_id r) (mr_call_id r) (tl_rows (qw_trades w)) else None)"

definition current_trade :: "money_env \<Rightarrow> string \<Rightarrow> money_row \<Rightarrow> money_world \<Rightarrow> trade_row option" where
  "current_trade e u r w = (if qe_hasLedger e then trade_find u (trade_key r) (tl_rows (qw_trades w)) else None)"

definition own_money_row :: "string \<Rightarrow> string \<Rightarrow> money_world \<Rightarrow> money_row option" where
  "own_money_row u k w = money_by_call u k (qw_rows w)"

text \<open>Whether a filled trade funds a money call.\<close>

definition fundsIt :: "money_row \<Rightarrow> trade_row \<Rightarrow> bool" where
  "fundsIt r t \<longleftrightarrow>
     (if tw_state t \<noteq> T_FILLED \<or> mr_state r = Funded_money then False
      else if mr_state r = Pending_money then True
      else if mr_ended_reason r = Some Ended_discarded \<or> tw_idempotency_key t \<noteq> trade_key r then False
      else (case tw_prepared t of None \<Rightarrow> False | Some p \<Rightarrow> po_expiresAt p \<le> mr_expires_at r))"

definition current_or :: "money_row \<Rightarrow> money_world \<Rightarrow> money_row" where
  "current_or r w = (case money_by_call (mr_user_id r) (mr_call_id r) (qw_rows w) of None \<Rightarrow> r | Some f \<Rightarrow> f)"

definition markFunded :: "money_env \<Rightarrow> money_row \<Rightarrow> money_world \<Rightarrow> money_row moneyed" where
  "markFunded e r w =
     (if mr_state r = Funded_money then (Inr r, w)
      else and_next (patch_row e r (mr_state r) (ends_as Funded_money Ended_filled) w) (\<lambda>saved w.
        let nxt = (case saved of Some s \<Rightarrow> s | None \<Rightarrow> current_or r w); w = put_index nxt w
        in if mr_state nxt = Funded_money
           then and_next (if mr_state r = Expired_money then on_social (restoreFundedCall (mr_call_id r)) w else (Inr (), w)) (\<lambda>_ w.
                and_next (on_social (publishFundedCall (calls_env_in e w) (qe_newResponseId e) (mr_call_id r)) w) (\<lambda>_ w.
                and_next (flush e w) (\<lambda>_ w. (Inr nxt, w))))
           else (Inr nxt, w)))"

definition end_call :: "money_env \<Rightarrow> money_row \<Rightarrow> money_end \<Rightarrow> money_world \<Rightarrow> money_row moneyed" where
  "end_call e r reason w =
     and_next (patch_row e r Pending_money (ends_as Expired_money reason) w) (\<lambda>saved w.
       case saved of
         None \<Rightarrow>
           (case money_by_call (mr_user_id r) (mr_call_id r) (qw_rows w) of
              None \<Rightarrow> money_fail STATE w
            | Some f \<Rightarrow> (let w = put_index f w in if mr_state f = Expired_money then (Inr f, w) else money_fail STATE w))
       | Some s \<Rightarrow>
           (let w = put_index s w
            in if getCall (mr_call_id r) (so_store (qw_social w)) \<noteq> None
               then and_next (on_social (withdrawFundedCall (calls_env_in e w) (mr_call_id r)) w) (\<lambda>_ w.
                    and_next (flush e w) (\<lambda>_ w. (Inr s, w)))
               else (Inr s, w)))"

text \<open>The unsigned quote of the current attempt fails; a signature that got there first wins.\<close>

definition retireQuote :: "money_env \<Rightarrow> money_row \<Rightarrow> money_world \<Rightarrow> unit moneyed" where
  "retireQuote e r w =
     (case current_trade e (mr_user_id r) r w of
        None \<Rightarrow> (Inr (), w)
      | Some c \<Rightarrow>
          if tw_state c \<noteq> T_QUOTED \<and> tw_state c \<noteq> T_PREPARING then (Inr (), w)
          else
            (let te = trade_env_in e w; w = w\<lparr>qw_trades := raced te (qw_trades w)\<rparr>
             in case trade_update (te_allows te) (te_now te) (tw_id c) (tw_state c) (to_trade_state T_FAILED) (tl_rows (qw_trades w)) of
                  (Inl x, rows) \<Rightarrow> (Inl (Trade_threw x), w)
                | (Inr (Some _), rows) \<Rightarrow> (Inr (), w\<lparr>qw_trades := (qw_trades w)\<lparr>tl_rows := rows\<rparr>\<rparr>)
                | (Inr None, rows) \<Rightarrow>
                    (case trade_find (mr_user_id r) (trade_key r) rows of
                       None \<Rightarrow> (Inr (), w)
                     | Some q \<Rightarrow> if tw_state q = T_SUBMITTED \<or> tw_state q = T_FILLED then money_fail IN_FLIGHT w else (Inr (), w))))"

text \<open>A call past its time is expired on the spot; whether that worked or not, no choice is offered.\<close>

definition assertAlive :: "money_env \<Rightarrow> money_row \<Rightarrow> money_world \<Rightarrow> unit moneyed" where
  "assertAlive e r w = (if money_now e < mr_expires_at r then (Inr (), w) else money_fail EXPIRED (snd (end_call e r Ended_expired w)))"

section \<open>The owner's view\<close>

datatype shown_trade = Trade_none | Trade_is trade_state

record money_view =
  vw_callId :: string
  vw_kind :: "response_kind option"
  vw_targetCallId :: "string option"
  vw_marketId :: string
  vw_side :: side
  vw_amountBaseUnits :: string
  vw_wallet :: string
  vw_state :: money_state
  vw_trade :: shown_trade
  vw_orderId :: "string option"
  vw_filledBaseUnits :: "string option"
  vw_createdAt :: int
  vw_updatedAt :: int
  vw_expiresAt :: int
  vw_canRetry :: bool
  vw_canKeepFree :: bool
  vw_canDiscard :: bool

text \<open>Of a trade the view reads the state and the order: a quote just made is shown like a saved one.\<close>

definition seen_trade :: "trade_row option \<Rightarrow> (trade_state \<times> string option) option" where
  "seen_trade t = map_option (\<lambda>r. (tw_state r, tw_provider_order_id r)) t"

definition viewOf :: "money_env \<Rightarrow> money_world \<Rightarrow> money_row \<Rightarrow> trade_row option \<Rightarrow> (trade_state \<times> string option) option \<Rightarrow> money_view" where
  "viewOf e w r latest cur =
     (let going = (case latest of None \<Rightarrow> False | Some t \<Rightarrow> tw_state t = T_SUBMITTED \<or> tw_state t = T_FILLED);
          shown = (if going then seen_trade latest
                   else case cur of None \<Rightarrow> seen_trade latest | Some c \<Rightarrow> if fst c \<noteq> T_PREPARING then Some c else seen_trade latest);
          trade = (case shown of None \<Rightarrow> Trade_none | Some (s, _) \<Rightarrow> if s = T_PREPARING then Trade_none else Trade_is s);
          inFlight = (trade = Trade_is T_SUBMITTED);
          pending = (mr_state r = Pending_money \<and> money_now e < mr_expires_at r);
          takes = (pending \<and> takesCalls (calls_env_in e w) (mr_market_id r))
      in \<lparr>vw_callId = mr_call_id r, vw_kind = mr_kind r, vw_targetCallId = mr_target_call_id r, vw_marketId = mr_market_id r,
          vw_side = mr_side r, vw_amountBaseUnits = mr_amount_base_units r, vw_wallet = mr_wallet_address r, vw_state = mr_state r,
          vw_trade = trade, vw_orderId = (case shown of None \<Rightarrow> None | Some (_, i) \<Rightarrow> i),
          vw_filledBaseUnits = (case latest of None \<Rightarrow> None
             | Some t \<Rightarrow> if mr_state r = Funded_money \<and> tw_state t = T_FILLED then Some (tw_amount_base_units t) else None),
          vw_createdAt = mr_created_at r, vw_updatedAt = mr_updated_at r, vw_expiresAt = mr_expires_at r,
          vw_canRetry = (pending \<and> \<not> inFlight), vw_canKeepFree = (pending \<and> \<not> inFlight \<and> takes), vw_canDiscard = (pending \<and> \<not> inFlight)\<rparr>)"

definition describe_call :: "money_env \<Rightarrow> money_row \<Rightarrow> money_world \<Rightarrow> money_view" where
  "describe_call e r w = viewOf e w r (latest_trade e r w) (seen_trade (current_trade e (mr_user_id r) r w))"

definition entry_of_row :: "money_env \<Rightarrow> money_row \<Rightarrow> money_world \<Rightarrow> feed_entry option" where
  "entry_of_row e r w =
     (case callDetail (calls_env_in e w) (so_store (qw_social w)) (mr_call_id r) (Some (mr_user_id r)) None of
        Inl _ \<Rightarrow> None | Inr d \<Rightarrow> Some (dt_entry d))"

section \<open>A quote\<close>

datatype quote_result =
  Blocked_by blocked
| Ready_to_sign money_view feed_entry prepared_order
| Already_settled money_view feed_entry

definition live_quote :: "money_env \<Rightarrow> deposit_wallet \<Rightarrow> trade_row option \<Rightarrow> prepared_order option" where
  "live_quote e d cur =
     (case cur of
        None \<Rightarrow> None
      | Some t \<Rightarrow>
          (case tw_prepared t of
             None \<Rightarrow> None
           | Some p \<Rightarrow> if tw_state t = T_QUOTED \<and> tw_wallet_address t = dw_address d \<and> money_now e + 5000 < po_expiresAt p then Some p else None))"

text \<open>A new attempt where the current one has a trade already or another wallet is asked for.\<close>

definition next_attempt :: "money_env \<Rightarrow> money_row \<Rightarrow> deposit_wallet \<Rightarrow> trade_row option \<Rightarrow> money_world \<Rightarrow> money_row moneyed" where
  "next_attempt e r d cur w =
     (if cur = None \<and> dw_address d = mr_wallet_address r then (Inr r, w)
      else and_next (retireQuote e r w) (\<lambda>_ w.
        and_next (patch_row e r Pending_money
            (no_patch\<lparr>mp_attempts := Some (mr_attempts r + 1), mp_wallet_address := Some (dw_address d)\<rparr>) w) (\<lambda>bumped w.
          case bumped of None \<Rightarrow> money_fail STATE w | Some n \<Rightarrow> (Inr n, put_index n w))))"

definition set_window :: "money_env \<Rightarrow> money_row \<Rightarrow> prepared_order \<Rightarrow> money_world \<Rightarrow> money_row moneyed" where
  "set_window e r po w =
     and_next (patch_row e r Pending_money (no_patch\<lparr>mp_expires_at := Some (po_expiresAt po + PENDING_GRACE_MS)\<rparr>) w) (\<lambda>saved w.
       case saved of None \<Rightarrow> (Inr r, w) | Some n \<Rightarrow> (Inr n, put_index n w))"

definition place_quote :: "money_env \<Rightarrow> deposit_person \<Rightarrow> money_row \<Rightarrow> deposit_wallet \<Rightarrow> feed_entry \<Rightarrow> trade_row option
    \<Rightarrow> trade_row option \<Rightarrow> money_world \<Rightarrow> quote_result moneyed" where
  "place_quote e p r d call latest cur w =
     (case qe_trading e False of
        Some x \<Rightarrow> (Inl (Trade_threw x), w)
      | None \<Rightarrow>
          and_next (on_trades (trade_prepare (trade_env_in e w) (dp_userId p)
              \<lparr>ti_callId = mr_call_id r, ti_wallet = dw_address d, ti_amountBaseUnits = mr_amount_base_units r,
               ti_idempotencyKey = trade_key r, ti_maxSlippageBps = mr_max_slippage_bps r\<rparr> (session_wallet p) True) w) (\<lambda>po w.
            let firstQuote = (cur = None \<and> mr_attempts r = 1)
            in if \<not> firstQuote \<and> mr_expires_at r < po_expiresAt po then money_fail EXPIRED (snd (retireQuote e r w))
               else and_next (if firstQuote then set_window e r po w else (Inr r, w)) (\<lambda>r w.
                 (Inr (Ready_to_sign (viewOf e w r latest (Some (T_QUOTED, Some (po_orderId po)))) call po), w))))"

definition fresh_quote :: "money_env \<Rightarrow> deposit_person \<Rightarrow> money_row \<Rightarrow> deposit_wallet \<Rightarrow> feed_entry \<Rightarrow> bool \<Rightarrow> trade_row option
    \<Rightarrow> trade_row option \<Rightarrow> money_world \<Rightarrow> quote_result moneyed" where
  "fresh_quote e p r d call fresh latest cur w =
     (if \<not> takesCalls (calls_env_in e w) (mr_market_id r) then money_fail MARKET_CLOSED w
      else
        (case (if fresh then Price_within
               else priceWithin (calls_env_in e w) (so_store (qw_social w)) (mr_call_id r) (of_int (mr_max_slippage_bps r))) of
           Price_moved \<Rightarrow> money_fail PRICE_MOVED w
         | Price_unreadable \<Rightarrow> money_fail PRICE_UNAVAILABLE w
         | Price_within \<Rightarrow>
             (case readiness e p d (amount_of (mr_amount_base_units r)) of
                Inl c \<Rightarrow> money_fail c w
              | Inr (Some b) \<Rightarrow> (Inr (Blocked_by b), w)
              | Inr None \<Rightarrow> and_next (next_attempt e r d cur w) (\<lambda>n w. place_quote e p n d call latest cur w))))"

definition alive_quote :: "money_env \<Rightarrow> deposit_person \<Rightarrow> money_row \<Rightarrow> string option \<Rightarrow> feed_entry option \<Rightarrow> bool \<Rightarrow> trade_row option
    \<Rightarrow> money_world \<Rightarrow> quote_result moneyed" where
  "alive_quote e p r hint given_entry fresh latest w =
     and_next (assertAlive e r w) (\<lambda>_ w.
       case (if truthy hint then pick_wallet e p hint else recordedWallet p r) of
         Inl c \<Rightarrow> money_fail c w
       | Inr d \<Rightarrow>
           (let cur = current_trade e (dp_userId p) r w
            in case or_first given_entry (entry_of_row e r w) of
                 None \<Rightarrow> money_fail NOT_FOUND w
               | Some call \<Rightarrow>
                   if map_option tw_state cur = Some T_PREPARING then money_fail IN_FLIGHT w
                   else (case live_quote e d cur of
                           Some po \<Rightarrow> (Inr (Ready_to_sign (viewOf e w r latest (seen_trade cur)) call po), w)
                         | None \<Rightarrow> fresh_quote e p r d call fresh latest cur w)))"

definition money_quote :: "money_env \<Rightarrow> deposit_person \<Rightarrow> money_row \<Rightarrow> string option \<Rightarrow> feed_entry option \<Rightarrow> bool \<Rightarrow> money_world
    \<Rightarrow> quote_result moneyed" where
  "money_quote e p r hint given_entry fresh w =
     (case latest_trade e r w of
        None \<Rightarrow> alive_quote e p r hint given_entry fresh None w
      | Some t \<Rightarrow>
          if tw_state t = T_FILLED
          then and_next (if fundsIt r t then markFunded e r w else (Inr r, w)) (\<lambda>_ w. money_fail STATE w)
          else if tw_state t = T_SUBMITTED then money_fail IN_FLIGHT w
          else alive_quote e p r hint given_entry fresh (Some t) w)"

section \<open>Making one\<close>

text \<open>A call that cannot be locked, or not durably, leaves an expired intent.\<close>

definition lock_money_call :: "money_env \<Rightarrow> money_row \<Rightarrow> funded_plan \<Rightarrow> prepare_call_input \<Rightarrow> money_world \<Rightarrow> feed_entry moneyed" where
  "lock_money_call e r plan i w =
     (case and_next (on_social (lockFundedCall (calls_env_in e w) plan
             \<lparr>sm_confidence = pc_confidence i, sm_thesis = pc_thesis i, sm_visibility = pc_visibility i\<rparr> (mr_user_id r)) w)
           (\<lambda>x w. and_next (flush e w) (\<lambda>_ w. (Inr x, w))) of
        (Inr x, w) \<Rightarrow> (Inr x, w)
      | (Inl err, w) \<Rightarrow> (Inl err, snd (end_call e r Ended_not_created w)))"

definition row_plan :: "money_row \<Rightarrow> funded_plan" where
  "row_plan r = \<lparr>fu_callId = mr_call_id r, fu_kind = mr_kind r, fu_marketId = mr_market_id r, fu_side = mr_side r,
     fu_targetCallId = mr_target_call_id r\<rparr>"

definition replay_money :: "money_env \<Rightarrow> deposit_person \<Rightarrow> money_row \<Rightarrow> prepare_call_input \<Rightarrow> money_world \<Rightarrow> quote_result moneyed" where
  "replay_money e p r i w =
     (if mr_request_fingerprint r \<noteq> qe_fingerprint e i then money_fail KEY_CONFLICT w
      else
        and_next (case (if mr_state r = Pending_money then latest_trade e r w else None) of
            None \<Rightarrow> (Inr r, w)
          | Some t \<Rightarrow> if fundsIt r t then markFunded e r w else (Inr r, w)) (\<lambda>r w.
          if mr_state r \<noteq> Pending_money
          then (case entry_of_row e r w of
                  None \<Rightarrow> money_fail NOT_FOUND w
                | Some x \<Rightarrow> (Inr (Already_settled (describe_call e r w) x), w))
          else if getCall (mr_call_id r) (so_store (qw_social w)) = None
          then and_next (lock_money_call e r (row_plan r) i w) (\<lambda>x w. money_quote e p r (pc_wallet i) (Some x) False w)
          else money_quote e p r (pc_wallet i) None False w))"

definition new_money_row :: "money_env \<Rightarrow> deposit_person \<Rightarrow> prepare_call_input \<Rightarrow> funded_plan \<Rightarrow> deposit_wallet \<Rightarrow> int \<Rightarrow> money_row" where
  "new_money_row e p i plan d amount =
     \<lparr>mr_call_id = fu_callId plan, mr_user_id = dp_userId p, mr_market_id = fu_marketId plan, mr_side = fu_side plan,
      mr_kind = fu_kind plan, mr_target_call_id = fu_targetCallId plan, mr_amount_base_units = int_str amount,
      mr_max_slippage_bps = pc_maxSlippageBps i, mr_wallet_address = dw_address d, mr_idempotency_key = pc_idempotencyKey i,
      mr_request_fingerprint = qe_fingerprint e i, mr_attempts = 1, mr_state = Pending_money, mr_ended_reason = None,
      mr_expires_at = money_now e + PENDING_INITIAL_MS, mr_created_at = money_now e, mr_updated_at = money_now e\<rparr>"

definition record_intent :: "money_env \<Rightarrow> deposit_person \<Rightarrow> prepare_call_input \<Rightarrow> funded_plan \<Rightarrow> deposit_wallet \<Rightarrow> int \<Rightarrow> money_world
    \<Rightarrow> quote_result moneyed" where
  "record_intent e p i plan d amount w =
     and_next (on_ledger (money_insert (ledger_guards w) (money_now e) (new_money_row e p i plan d amount) (Some (money_now e))) w)
       (\<lambda>inserted w.
         case inserted of
           None \<Rightarrow>
             (case money_by_key (dp_userId p) (pc_idempotencyKey i) (qw_rows w) of
                None \<Rightarrow> money_fail UNAVAILABLE w
              | Some r \<Rightarrow> replay_money e p r i w)
         | Some r \<Rightarrow>
             (let w = put_index r w
              in and_next (lock_money_call e r plan i w) (\<lambda>x w. money_quote e p r None (Some x) True w)))"

definition prepareCall :: "money_env \<Rightarrow> deposit_person \<Rightarrow> prepare_call_input \<Rightarrow> money_world \<Rightarrow> quote_result moneyed" where
  "prepareCall e p i w =
     (case money_amount e (pc_amountBaseUnits i) of
        None \<Rightarrow> money_fail AMOUNT w
      | Some amount \<Rightarrow>
          (case money_by_key (dp_userId p) (pc_idempotencyKey i) (qw_rows w) of
             Some r \<Rightarrow> replay_money e p r i w
           | None \<Rightarrow>
               (case pick_wallet e p (pc_wallet i) of
                  Inl c \<Rightarrow> money_fail c w
                | Inr d \<Rightarrow>
                    (case planFundedCall (calls_env_in e w) (qe_newCallId e) (so_store (qw_social w)) (pc_call i) (dp_userId p) of
                       Inl x \<Rightarrow> (Inl (Calls_threw x), w)
                     | Inr plan \<Rightarrow>
                         if \<not> qe_tradable e (fu_marketId plan) then money_fail NOT_TRADABLE w
                         else (case qe_trading e False of
                           Some x \<Rightarrow> (Inl (Trade_threw x), w)
                         | None \<Rightarrow>
                             (case readiness e p d amount of
                                Inl c \<Rightarrow> money_fail c w
                              | Inr (Some b) \<Rightarrow> (Inr (Blocked_by b), w)
                              | Inr None \<Rightarrow> record_intent e p i plan d amount w))))))"

section \<open>The owner's choices\<close>

definition money_retry :: "money_env \<Rightarrow> deposit_person \<Rightarrow> string \<Rightarrow> string option \<Rightarrow> money_world \<Rightarrow> quote_result moneyed" where
  "money_retry e p k hint w =
     (case own_money_row (dp_userId p) k w of
        None \<Rightarrow> money_fail NOT_FOUND w
      | Some r \<Rightarrow> if mr_state r \<noteq> Pending_money then money_fail STATE w else money_quote e p r hint None False w)"

definition with_entry :: "money_env \<Rightarrow> money_row \<Rightarrow> money_world \<Rightarrow> (money_view \<times> feed_entry option) moneyed" where
  "with_entry e r w =
     (case entry_of_row e r w of None \<Rightarrow> money_fail NOT_FOUND w | Some x \<Rightarrow> (Inr (describe_call e r w, Some x), w))"

definition go_free :: "money_env \<Rightarrow> money_row \<Rightarrow> money_world \<Rightarrow> (money_view \<times> feed_entry option) moneyed" where
  "go_free e r w =
     (if \<not> takesCalls (calls_env_in e w) (mr_market_id r) then money_fail MARKET_CLOSED w
      else if \<not> priceReadable (calls_env_in e w) (mr_market_id r) then money_fail PRICE_UNAVAILABLE w
      else (case assertFreeReplacement (calls_env_in e w) (so_store (qw_social w)) (mr_call_id r) (mr_user_id r) of
        Inl x \<Rightarrow> (Inl (Calls_threw x), w)
      | Inr _ \<Rightarrow>
          and_next (retireQuote e r w) (\<lambda>_ w.
          and_next (on_social (replaceFundedCallWithFree (calls_env_in e w) (qe_newCallId e) (qe_newResponseId e) (mr_call_id r) (mr_user_id r)) w)
            (\<lambda>x w. and_next (flush e w) (\<lambda>_ w.
             and_next (patch_row e r Pending_money (ends_as Free_money Ended_kept_free) w) (\<lambda>saved w.
               let r = (case saved of Some s \<Rightarrow> s | None \<Rightarrow> current_or r w); w = put_index r w
               in (Inr (describe_call e r w, x), w)))))))"

definition keepFree :: "money_env \<Rightarrow> string \<Rightarrow> string \<Rightarrow> money_world \<Rightarrow> (money_view \<times> feed_entry option) moneyed" where
  "keepFree e u k w =
     (case own_money_row u k w of
        None \<Rightarrow> money_fail NOT_FOUND w
      | Some r \<Rightarrow>
          (case (if mr_state r = Free_money then liveCallByUserOnMarket u (mr_market_id r) (so_store (qw_social w)) else None) of
             Some live \<Rightarrow>
               (case callDetail (calls_env_in e w) (so_store (qw_social w)) (ca_id live) (Some u) None of
                  Inl x \<Rightarrow> (Inl (Calls_threw x), w)
                | Inr d \<Rightarrow> (Inr (describe_call e r w, Some (dt_entry d)), w))
           | None \<Rightarrow>
               if mr_state r \<noteq> Pending_money then money_fail STATE w
               else (case map_option tw_state (latest_trade e r w) of
                 Some T_FILLED \<Rightarrow> and_next (markFunded e r w) (\<lambda>r w. with_entry e r w)
               | Some T_SUBMITTED \<Rightarrow> money_fail IN_FLIGHT w
               | _ \<Rightarrow> and_next (assertAlive e r w) (\<lambda>_ w. go_free e r w))))"

definition discard :: "money_env \<Rightarrow> string \<Rightarrow> string \<Rightarrow> money_world \<Rightarrow> money_view moneyed" where
  "discard e u k w =
     (case own_money_row u k w of
        None \<Rightarrow> money_fail NOT_FOUND w
      | Some r \<Rightarrow>
          and_next
            (if mr_state r = Pending_money
             then (case map_option tw_state (latest_trade e r w) of
                     Some T_FILLED \<Rightarrow> markFunded e r w
                   | Some T_SUBMITTED \<Rightarrow> money_fail IN_FLIGHT w
                   | _ \<Rightarrow> and_next (retireQuote e r w) (\<lambda>_ w. end_call e r Ended_discarded w))
             else if mr_state r \<noteq> Expired_money then money_fail STATE w else (Inr r, w))
            (\<lambda>r w. (Inr (describe_call e r w), w)))"

section \<open>Reads\<close>

text \<open>The order in flight is checked first; when that fails the answer says it is still going through.\<close>

definition recheck :: "money_env \<Rightarrow> trade_row option \<Rightarrow> money_world \<Rightarrow> trade_row option \<times> money_world" where
  "recheck e latest w =
     (case latest of
        None \<Rightarrow> (None, w)
      | Some t \<Rightarrow>
          if tw_state t \<noteq> T_SUBMITTED \<or> qe_trading e True \<noteq> None then (Some t, w)
          else (case trade_reconcile (trade_env_in e w) t (qw_trades w) of
                  (Inl _, tw) \<Rightarrow> (Some t, w\<lparr>qw_trades := tw\<rparr>)
                | (Inr q, tw) \<Rightarrow> (Some q, w\<lparr>qw_trades := tw\<rparr>)))"

definition money_status :: "money_env \<Rightarrow> string \<Rightarrow> string \<Rightarrow> money_world \<Rightarrow> (money_view \<times> venue_order option) moneyed" where
  "money_status e u k w =
     (case own_money_row u k w of
        None \<Rightarrow> money_fail NOT_FOUND w
      | Some r \<Rightarrow>
          (case recheck e (latest_trade e r w) w of
             (latest, w) \<Rightarrow>
               and_next (case latest of None \<Rightarrow> (Inr r, w) | Some t \<Rightarrow> if fundsIt r t then markFunded e r w else (Inr r, w)) (\<lambda>r w.
                 let cur = current_trade e u r w;
                     going = (case latest of None \<Rightarrow> False | Some t \<Rightarrow> tw_state t = T_SUBMITTED \<or> tw_state t = T_FILLED);
                     shown = (if going then latest else case cur of None \<Rightarrow> latest | Some c \<Rightarrow> if tw_prepared c \<noteq> None then Some c else latest)
                 in (Inr (viewOf e w r latest (seen_trade cur),
                       case shown of None \<Rightarrow> None
                       | Some t \<Rightarrow> if tw_prepared t \<noteq> None \<and> qe_trading e True = None then Some (trade_view t) else None), w))))"

fun list_pending :: "money_env \<Rightarrow> money_row list \<Rightarrow> money_world \<Rightarrow> money_error_code + (money_view \<times> feed_entry) list" where
  "list_pending e [] w = Inr []"
| "list_pending e (r # rs) w =
     (if getCall (mr_call_id r) (so_store (qw_social w)) = None then list_pending e rs w
      else (case entry_of_row e r w of
              None \<Rightarrow> Inl NOT_FOUND
            | Some x \<Rightarrow> (case list_pending e rs w of Inl c \<Rightarrow> Inl c | Inr ys \<Rightarrow> Inr ((describe_call e r w, x) # ys))))"

definition money_pending :: "money_env \<Rightarrow> string \<Rightarrow> money_world \<Rightarrow> money_error_code + (money_view \<times> feed_entry) list" where
  "money_pending e u w = list_pending e (money_pending_for_user u 20 (qw_rows w)) w"

definition defaultAmount :: "string \<Rightarrow> money_world \<Rightarrow> string" where
  "defaultAmount u w = (case money_last_amount u (qw_rows w) of None \<Rightarrow> MONEY_DEFAULT_BASE_UNITS | Some a \<Rightarrow> a)"

section \<open>The fill transition and the sweeper\<close>

definition onFilled :: "money_env \<Rightarrow> trade_row \<Rightarrow> money_world \<Rightarrow> unit moneyed" where
  "onFilled e t w =
     (if tw_state t \<noteq> T_FILLED then (Inr (), w)
      else (case or_first (jm_get (qw_index w) (tw_call_id t)) (money_by_call (tw_user_id t) (tw_call_id t) (qw_rows w)) of
              None \<Rightarrow> (Inr (), w)
            | Some r \<Rightarrow> if fundsIt r t then and_next (markFunded e r w) (\<lambda>_ w. (Inr (), w)) else (Inr (), w)))"

record sweep_report =
  sw_funded :: nat
  sw_expired :: nat
  sw_errors :: "money_error_code option list"

definition swept_error :: "money_thrown \<Rightarrow> money_error_code option" where
  "swept_error x = (case x of Money_error c \<Rightarrow> Some c | _ \<Rightarrow> None)"

definition sweep_closed :: "money_env \<Rightarrow> money_row \<Rightarrow> sweep_report \<times> money_world \<Rightarrow> sweep_report \<times> money_world" where
  "sweep_closed e r x =
     (case x of
        (rep, w) \<Rightarrow>
          (case latest_trade e r w of
             None \<Rightarrow> (rep, w)
           | Some t \<Rightarrow>
               if fundsIt r t
               then (case markFunded e r w of
                       (Inl err, w) \<Rightarrow> (rep\<lparr>sw_errors := sw_errors rep @ [swept_error err]\<rparr>, w)
                     | (Inr _, w) \<Rightarrow> (rep\<lparr>sw_funded := sw_funded rep + 1\<rparr>, w))
               else (rep, w)))"

definition sweep_reason :: "money_env \<Rightarrow> money_row \<Rightarrow> money_world \<Rightarrow> money_end option" where
  "sweep_reason e r w =
     (if getCall (mr_call_id r) (so_store (qw_social w)) = None
      then (if NOT_CREATED_GRACE_MS < money_now e - mr_created_at r then Some Ended_not_created else None)
      else if \<not> takesCalls (calls_env_in e w) (mr_market_id r) then Some Ended_market_closed
      else if mr_expires_at r \<le> money_now e then Some Ended_expired
      else None)"

definition sweep_pending :: "money_env \<Rightarrow> money_row \<Rightarrow> sweep_report \<times> money_world \<Rightarrow> sweep_report \<times> money_world" where
  "sweep_pending e r x =
     (case x of
        (rep, w) \<Rightarrow>
          (case map_option tw_state (latest_trade e r w) of
             Some T_FILLED \<Rightarrow>
               (case markFunded e r w of
                  (Inl err, w) \<Rightarrow> (rep\<lparr>sw_errors := sw_errors rep @ [swept_error err]\<rparr>, w)
                | (Inr _, w) \<Rightarrow> (rep\<lparr>sw_funded := sw_funded rep + 1\<rparr>, w))
           | Some T_SUBMITTED \<Rightarrow> (rep, w)
           | _ \<Rightarrow>
               (case sweep_reason e r w of
                  None \<Rightarrow> (rep, w)
                | Some reason \<Rightarrow>
                    (case and_next (retireQuote e r w) (\<lambda>_ w. end_call e r reason w) of
                       (Inl err, w) \<Rightarrow> (rep\<lparr>sw_errors := sw_errors rep @ [swept_error err]\<rparr>, w)
                     | (Inr _, w) \<Rightarrow> (rep\<lparr>sw_expired := sw_expired rep + 1\<rparr>, w)))))"

definition sweep :: "money_env \<Rightarrow> money_world \<Rightarrow> sweep_report \<times> money_world" where
  "sweep e w =
     (let x = fold (sweep_closed e) (index_closed (qw_index w) (money_now e - CLOSED_REPAIR_MS)) (\<lparr>sw_funded = 0, sw_expired = 0, sw_errors = []\<rparr>, w)
      in fold (sweep_pending e) (index_pending (qw_index (snd x))) x)"

end
