(* ===== verification/MoneyFlow.thy ===== *)
theory MoneyFlow
  imports MoneyCalls
begin

text \<open>
  What the calls with an amount keep (the lemmas of \<open>MoneyCalls\<close>). Every request is a sequence of
  steps: a compare-and-set or an insertion in the ledger followed by the index, the index told a
  current row again, moves of the trades, and changes of the social calls. A step keeps the index
  in agreement with the ledger, so a call whose money has not landed is its owner's alone whatever
  was requested before; and a call is funded only by a proven fill of its own.
\<close>

section \<open>Steps of the world\<close>

inductive money_moves :: "money_world \<Rightarrow> money_world \<Rightarrow> bool" where
  stay: "money_moves w w"
| step_update: "money_moves w v \<Longrightarrow> money_update (ledger_guards v) now k expected p (qw_rows v) = (Inr (Some r), rows) \<Longrightarrow>
    money_moves w (put_index r (v\<lparr>qw_rows := rows\<rparr>))"
| step_insert: "money_moves w v \<Longrightarrow> money_insert (ledger_guards v) now i created (qw_rows v) = (Inr (Some r), rows) \<Longrightarrow>
    money_moves w (put_index r (v\<lparr>qw_rows := rows\<rparr>))"
| step_put: "money_moves w v \<Longrightarrow> jm_get (qw_rows v) k = Some r \<Longrightarrow> money_moves w (put_index r v)"
| step_trades: "money_moves w v \<Longrightarrow> moves_to te (qw_trades v) t \<Longrightarrow> money_moves w (v\<lparr>qw_trades := t\<rparr>)"
| step_social: "money_moves w v \<Longrightarrow> money_moves w (v\<lparr>qw_social := s\<rparr>)"

declare money_moves.stay [simp, intro]

lemma money_moves_trans: "money_moves v w \<Longrightarrow> money_moves u v \<Longrightarrow> money_moves u w"
  by (induction rule: money_moves.induct) (auto intro: money_moves.intros)

definition known :: "money_row \<Rightarrow> money_world \<Rightarrow> bool" where
  "known r w \<longleftrightarrow> (\<exists>f. jm_get (qw_rows w) (mr_call_id r) = Some f \<and> mr_user_id f = mr_user_id r)"

definition same_call :: "money_row \<Rightarrow> money_row \<Rightarrow> bool" where
  "same_call r q \<longleftrightarrow> mr_call_id q = mr_call_id r \<and> mr_user_id q = mr_user_id r"

lemma same_call_refl [simp]: "same_call r r"
  by (simp add: same_call_def)

lemma known_same: "known r w \<Longrightarrow> same_call r q \<Longrightarrow> known q w"
  by (simp add: known_def same_call_def)

lemma qw_put [simp]: "qw_rows (put_index r w) = qw_rows w" "qw_index (put_index r w) = index_put r (qw_index w)"
  "qw_social (put_index r w) = qw_social w" "qw_trades (put_index r w) = qw_trades w"
  by (simp_all add: put_index_def)

lemma money_update_row:
  assumes "money_update g now k expected p rows = (Inr (Some q), rows')"
  obtains r where "jm_get rows k = Some r" "q = money_patched p now r" "rows' = jm_set k q rows" "update_checks p now r = None"
    "update_guards g r q = None" "mr_state r = fst expected" "mr_attempts r = snd expected"
  using assms by (auto simp: money_update_def Let_def split: option.splits if_splits)

lemma money_insert_row:
  assumes "money_insert g now i created rows = (Inr (Some q), rows')"
  shows "jm_get rows (mr_call_id i) = None \<and> rows' = jm_set (mr_call_id i) q rows \<and> mr_call_id q = mr_call_id i \<and>
    mr_user_id q = mr_user_id i \<and> mr_state q = Pending_money"
  using assms by (auto simp: money_insert_def Let_def split: option.splits if_splits)

lemma patched_call [simp]: "mr_call_id (money_patched p now r) = mr_call_id r" "mr_user_id (money_patched p now r) = mr_user_id r"
  by (simp_all add: money_patched_def)

lemma known_moves: "money_moves w w' \<Longrightarrow> known r w \<Longrightarrow> known r w'"
proof (induction rule: money_moves.induct)
  case (step_update w v now k expected p q rows)
  then show ?case by (auto simp: known_def elim!: money_update_row)
next
  case (step_insert w v now i created q rows)
  then show ?case using money_insert_row[OF step_insert(2)] by (auto simp: known_def)
qed (auto simp: known_def)

section \<open>What the steps keep\<close>

definition filled_trade :: "string \<Rightarrow> string \<Rightarrow> trade_world \<Rightarrow> bool" where
  "filled_trade u k t \<longleftrightarrow> (\<exists>i q. jm_get (tl_rows t) i = Some q \<and> tw_user_id q = u \<and> tw_call_id q = k \<and> tw_state q = T_FILLED)"

definition money_inv :: "money_world \<Rightarrow> bool" where
  "money_inv w \<longleftrightarrow> index_agrees (qw_rows w) (qw_index w) \<and> money_ok (qw_rows w) \<and> trades_ok (qw_trades w) \<and>
     (\<forall>k r. jm_get (qw_rows w) k = Some r \<longrightarrow> mr_state r = Funded_money \<longrightarrow> filled_trade (mr_user_id r) k (qw_trades w))"

lemma call_trades_get: "trades_ok t \<Longrightarrow> q \<in> set (call_trades u k t) \<longleftrightarrow>
    jm_get (tl_rows t) (tw_id q) = Some q \<and> tw_user_id q = u \<and> tw_call_id q = k"
proof
  assume ok: "trades_ok t" "q \<in> set (call_trades u k t)"
  then obtain i where "(i, q) \<in> set (tl_rows t)" "tw_user_id q = u" "tw_call_id q = k" by (auto simp: call_trades_def)
  then show "jm_get (tl_rows t) (tw_id q) = Some q \<and> tw_user_id q = u \<and> tw_call_id q = k"
    using jm_get_in[OF trades_ok_wf[OF ok(1)]] trades_ok_row[OF ok(1)] by blast
next
  assume "jm_get (tl_rows t) (tw_id q) = Some q \<and> tw_user_id q = u \<and> tw_call_id q = k"
  then show "q \<in> set (call_trades u k t)" by (auto simp: call_trades_def dest!: jm_get_mem intro: rev_image_eqI)
qed

lemma guard_filled:
  assumes "trades_ok (qw_trades w)" "update_guards (ledger_guards w) r q = None" "mr_state q = Funded_money" "mr_state r \<noteq> Funded_money"
  shows "filled_trade (mr_user_id r) (mr_call_id r) (qw_trades w)"
proof -
  have "list_ex (\<lambda>q. tw_state q = T_FILLED) (call_trades (mr_user_id r) (mr_call_id r) (qw_trades w))"
    using assms(2-4) by (simp add: update_guards_def ledger_guards_def asked_def split: if_splits)
  then obtain q where "q \<in> set (call_trades (mr_user_id r) (mr_call_id r) (qw_trades w))" "tw_state q = T_FILLED"
    by (auto simp: list_ex_iff)
  then show ?thesis using call_trades_get[OF assms(1)] unfolding filled_trade_def by blast
qed

lemma filled_trade_moves:
  assumes "filled_trade u k t" "trades_ok t" "moves_to e t t'"
  shows "filled_trade u k t'"
proof -
  obtain i q where q: "jm_get (tl_rows t) i = Some q" "tw_user_id q = u" "tw_call_id q = k" "tw_state q = T_FILLED"
    using assms(1) unfolding filled_trade_def by blast
  obtain x where "jm_get (tl_rows t') i = Some x" "trade_later q x" using moves_later[OF assms(3,2) q(1)] by blast
  then show ?thesis using q unfolding filled_trade_def trade_later_def settled_trade_def by blast
qed

lemma money_inv_moves: "money_moves w w' \<Longrightarrow> money_inv w \<Longrightarrow> money_inv w'"
proof (induction rule: money_moves.induct)
  case (step_update w v now k expected p q rows)
  then have inv: "money_inv v" by blast
  obtain r where r: "jm_get (qw_rows v) k = Some r" "q = money_patched p now r" "rows = jm_set k q (qw_rows v)"
    "update_checks p now r = None" "update_guards (ledger_guards v) r q = None"
    using money_update_row[OF step_update(2)] by blast
  have id: "mr_call_id r = k" using inv r(1) money_ok_row unfolding money_inv_def by blast
  have "money_ok rows" using money_update_ok[of "qw_rows v" "ledger_guards v" now k expected p] inv step_update(2)
    unfolding money_inv_def by simp
  moreover have "mr_state r \<noteq> Funded_money" using r(4) by (auto simp: update_checks_def Let_def split: if_splits)
  then have "mr_state q = Funded_money \<Longrightarrow> filled_trade (mr_user_id q) k (qw_trades v)"
    using guard_filled[OF _ r(5)] inv id r(2) unfolding money_inv_def by simp
  ultimately show ?case using inv index_put_agrees[of "qw_rows v" "qw_index v" q k] id r(2,3) unfolding money_inv_def by auto
next
  case (step_insert w v now i created q rows)
  then have inv: "money_inv v" by blast
  have q: "rows = jm_set (mr_call_id i) q (qw_rows v)" "mr_call_id q = mr_call_id i" "mr_state q = Pending_money"
    using money_insert_row[OF step_insert(2)] by blast+
  have "money_ok rows" using money_insert_ok[of "qw_rows v" "ledger_guards v" now i created] inv step_insert(2)
    unfolding money_inv_def by simp
  then show ?case using inv index_put_agrees[of "qw_rows v" "qw_index v" q "mr_call_id i"] q unfolding money_inv_def by auto
next
  case (step_put w v k r)
  then have inv: "money_inv v" by blast
  have "mr_call_id r = k" using inv step_put(2) money_ok_row unfolding money_inv_def by blast
  then have "index_agrees (qw_rows v) (index_put r (qw_index v))"
    using inv step_put(2) unfolding money_inv_def index_agrees_def index_put_def by auto
  then show ?case using inv unfolding money_inv_def by simp
next
  case (step_trades w v te t)
  then have inv: "money_inv v" by blast
  have "trades_ok t" "\<And>u k. filled_trade u k (qw_trades v) \<Longrightarrow> filled_trade u k t"
    using inv step_trades(2) moves_ok filled_trade_moves unfolding money_inv_def by blast+
  then show ?case using inv unfolding money_inv_def by simp
next
  case (step_social w v s)
  then show ?case unfolding money_inv_def by simp
qed

section \<open>Every request is such steps\<close>

definition keeps :: "money_world \<Rightarrow> 'a moneyed \<Rightarrow> ('a \<Rightarrow> bool) \<Rightarrow> bool" where
  "keeps w m Q \<longleftrightarrow> money_moves w (snd m) \<and> (\<forall>a. fst m = Inr a \<longrightarrow> Q a)"

lemma keeps_ret: "money_moves w v \<Longrightarrow> Q a \<Longrightarrow> keeps w (Inr a, v) Q"
  by (simp add: keeps_def)

lemma keeps_inl [simp]: "keeps w (Inl x, v) Q = money_moves w v"
  by (simp add: keeps_def)

lemma keeps_fail [simp]: "keeps w (money_fail c v) Q = money_moves w v"
  by (simp add: money_fail_def)

lemma keeps_snd: "keeps w m Q \<Longrightarrow> money_moves w (snd m)"
  by (simp add: keeps_def)

lemma keeps_weaken: "keeps w m Q \<Longrightarrow> (\<And>a. Q a \<Longrightarrow> R a) \<Longrightarrow> keeps w m R"
  by (simp add: keeps_def)

lemma keeps_next:
  assumes "keeps w m Q" "\<And>a v. money_moves w v \<Longrightarrow> Q a \<Longrightarrow> keeps w (f a v) R"
  shows "keeps w (and_next m f) R"
  using assms by (cases m; cases "fst m") (auto simp: and_next_def keeps_def)

lemma keeps_social: "money_moves w v \<Longrightarrow> keeps w (on_social f v) (\<lambda>_. True)"
  by (simp add: keeps_def on_social_def case_prod_beta money_moves.step_social)

lemma keeps_flush: "money_moves w v \<Longrightarrow> keeps w (flush e v) (\<lambda>_. True)"
  by (simp add: keeps_def flush_def)

lemma keeps_trades:
  "money_moves w v \<Longrightarrow> moves_to te (qw_trades v) (snd (f (qw_trades v))) \<Longrightarrow> keeps w (on_trades f v) (\<lambda>_. True)"
  by (simp add: keeps_def on_trades_def case_prod_beta money_moves.step_trades)

lemma money_inv_row: "money_inv w \<Longrightarrow> jm_get (qw_rows w) k = Some r \<Longrightarrow> mr_call_id r = k"
  unfolding money_inv_def using money_ok_row by blast

lemma by_call_get: "money_by_call u k rows = Some f \<longleftrightarrow> jm_get rows k = Some f \<and> mr_user_id f = u"
  by (auto simp: money_by_call_def split: option.splits if_splits)

lemma current_or_known:
  assumes "money_inv v" "known r v"
  shows "jm_get (qw_rows v) (mr_call_id r) = Some (current_or r v)" "same_call r (current_or r v)"
proof -
  obtain f where f: "jm_get (qw_rows v) (mr_call_id r) = Some f" "mr_user_id f = mr_user_id r" using assms(2) unfolding known_def by blast
  then have c: "current_or r v = f" by (simp add: current_or_def money_by_call_def)
  show "jm_get (qw_rows v) (mr_call_id r) = Some (current_or r v)" using f c by simp
  show "same_call r (current_or r v)" using f c money_inv_row[OF assms(1) f(1)] by (simp add: same_call_def)
qed

lemma keeps_patch:
  assumes "money_inv w" "money_moves w v" "known r w"
    and none: "keeps w (f None v) R"
    and some: "\<And>q v'. money_moves w (put_index q v') \<Longrightarrow> same_call r q \<Longrightarrow> keeps w (f (Some q) v') R"
  shows "keeps w (and_next (patch_row e r s p v) f) R"
proof -
  have v: "money_inv v" "known r v" using money_inv_moves[OF assms(2,1)] known_moves[OF assms(2,3)] by blast+
  show ?thesis
  proof (cases rule: money_update_cases[of "ledger_guards v" "money_now e" "mr_call_id r" "(s, mr_attempts r)" p "qw_rows v"])
    case (same x)
    then show ?thesis using none assms(2)
      by (cases x) (auto simp: patch_row_def on_ledger_def and_next_def split: option.splits)
  next
    case (put x q)
    have m: "money_moves w (put_index q (v\<lparr>qw_rows := jm_set (mr_call_id r) q (qw_rows v)\<rparr>))"
      by (rule money_moves.step_update[OF assms(2) put(1)])
    have "same_call r q"
      using put(2,3) v(2) money_inv_row[OF v(1) put(2)] unfolding known_def same_call_def by auto
    then show ?thesis using some[OF m] put(1) by (simp add: patch_row_def on_ledger_def and_next_def)
  qed
qed

lemma keeps_markFunded:
  assumes "money_inv w" "money_moves w v" "known r w" shows "keeps w (markFunded e r v) (same_call r)"
proof -
  have rest: "keeps w (if mr_state n = Funded_money
      then and_next (if mr_state r = Expired_money then on_social (restoreFundedCall (mr_call_id r)) x else (Inr (), x)) (\<lambda>_ x.
           and_next (on_social (publishFundedCall (calls_env_in e x) (qe_newResponseId e) (mr_call_id r)) x) (\<lambda>_ x.
           and_next (flush e x) (\<lambda>_ x. (Inr n, x))))
      else (Inr n, x)) (same_call r)" if "money_moves w x" "same_call r n" for n x
    using that by (auto intro!: keeps_next[where Q = "\<lambda>_. True"] keeps_social keeps_flush keeps_ret)
  show ?thesis
  proof (cases "mr_state r = Funded_money")
    case True
    then show ?thesis using assms(2) by (simp add: markFunded_def keeps_ret)
  next
    case False
    have cur: "money_moves w (put_index (current_or r v) v)" "same_call r (current_or r v)"
      using current_or_known[OF money_inv_moves[OF assms(2,1)] known_moves[OF assms(2,3)]] money_moves.step_put[OF assms(2)] by blast+
    have "keeps w (and_next (patch_row e r (mr_state r) (ends_as Funded_money Ended_filled) v) (\<lambda>saved x.
        let nxt = (case saved of Some s \<Rightarrow> s | None \<Rightarrow> current_or r x); x = put_index nxt x
        in if mr_state nxt = Funded_money
           then and_next (if mr_state r = Expired_money then on_social (restoreFundedCall (mr_call_id r)) x else (Inr (), x)) (\<lambda>_ x.
                and_next (on_social (publishFundedCall (calls_env_in e x) (qe_newResponseId e) (mr_call_id r)) x) (\<lambda>_ x.
                and_next (flush e x) (\<lambda>_ x. (Inr nxt, x))))
           else (Inr nxt, x))) (same_call r)"
      by (rule keeps_patch[OF assms]) (use rest cur in \<open>simp_all add: Let_def\<close>)
    then show ?thesis using False by (simp add: markFunded_def)
  qed
qed

lemma keeps_end_call:
  assumes "money_inv w" "money_moves w v" "known r w" shows "keeps w (end_call e r reason v) (same_call r)"
  unfolding end_call_def
proof (rule keeps_patch[OF assms], goal_cases)
  case 1
  show ?case using assms money_moves.step_put[OF assms(2)] money_inv_row[OF money_inv_moves[OF assms(2,1)]]
    by (auto simp: by_call_get Let_def same_call_def intro!: keeps_ret split: option.splits)
next
  case (2 q x)
  then show ?case
    by (auto simp: Let_def intro!: keeps_next[where Q = "\<lambda>_. True"] keeps_social keeps_flush keeps_ret)
qed

lemma keeps_retireQuote:
  assumes "money_inv w" "money_moves w v" shows "keeps w (retireQuote e r v) (\<lambda>_. True)"
proof (cases "current_trade e (mr_user_id r) r v")
  case None
  then show ?thesis using assms by (simp add: retireQuote_def keeps_ret)
next
  case (Some c)
  let ?te = "trade_env_in e v"
  let ?x = "v\<lparr>qw_trades := raced ?te (qw_trades v)\<rparr>"
  let ?u = "trade_update (te_allows ?te) (te_now ?te) (tw_id c) (tw_state c) (to_trade_state T_FAILED) (tl_rows (qw_trades ?x))"
  have r: "money_moves w ?x" by (rule money_moves.step_trades[OF assms(2) moves_raced])
  have "money_moves w (?x\<lparr>qw_trades := (qw_trades ?x)\<lparr>tl_rows := snd ?u\<rparr>\<rparr>)" if "tw_state c = T_QUOTED \<or> tw_state c = T_PREPARING"
    by (rule money_moves.step_trades[OF r], rule moves_drop) (use that in blast)
  then show ?thesis using Some r assms
    by (cases ?u) (auto simp: retireQuote_def Let_def keeps_ret split: sum.splits option.splits)
qed

lemma keeps_assertAlive:
  assumes "money_inv w" "money_moves w v" "known r w" shows "keeps w (assertAlive e r v) (\<lambda>_. True)"
  using assms keeps_snd[OF keeps_end_call[OF assms]] by (simp add: assertAlive_def keeps_ret)

lemma keeps_true: "keeps w m Q \<Longrightarrow> keeps w m (\<lambda>_. True)"
  by (simp add: keeps_def)

lemma keeps_next_true:
  "keeps w m Q \<Longrightarrow> (\<And>a v. money_moves w v \<Longrightarrow> keeps w (f a v) R) \<Longrightarrow> keeps w (and_next m f) R"
  by (rule keeps_next[where Q = "\<lambda>_. True"]) (auto simp: keeps_def)

lemma keeps_next_row:
  "known r w \<Longrightarrow> keeps w m (same_call r) \<Longrightarrow> (\<And>q v. money_moves w v \<Longrightarrow> same_call r q \<Longrightarrow> known q w \<Longrightarrow> keeps w (f q v) R) \<Longrightarrow>
    keeps w (and_next m f) R"
  by (rule keeps_next[where Q = "same_call r"]) (auto intro: known_same)

lemma keeps_next_attempt:
  assumes "money_inv w" "money_moves w v" "known r w" shows "keeps w (next_attempt e r d cur v) (same_call r)"
proof (cases "cur = None \<and> dw_address d = mr_wallet_address r")
  case True
  then show ?thesis using assms by (simp add: next_attempt_def keeps_ret)
next
  case False
  have p: "keeps w (and_next (patch_row e r Pending_money p x) (\<lambda>bumped x. case bumped of None \<Rightarrow> money_fail STATE x | Some n \<Rightarrow> (Inr n, put_index n x)))
      (same_call r)" if "money_moves w x" for p x
    by (rule keeps_patch[OF assms(1) that assms(3)]) (use that in \<open>auto intro: keeps_ret\<close>)
  show ?thesis unfolding next_attempt_def if_not_P[OF False]
    by (rule keeps_next_true[OF keeps_retireQuote[OF assms(1,2)] p])
qed

lemma keeps_set_window:
  assumes "money_inv w" "money_moves w v" "known r w" shows "keeps w (set_window e r po v) (same_call r)"
  unfolding set_window_def by (rule keeps_patch[OF assms]) (use assms in \<open>auto intro: keeps_ret\<close>)

lemma keeps_place_quote:
  assumes "money_inv w" "money_moves w v" "known r w" shows "keeps w (place_quote e p r d call latest cur v) (\<lambda>_. True)"
proof (cases "qe_trading e False")
  case (Some x)
  then show ?thesis using assms by (simp add: place_quote_def)
next
  case None
  have t: "keeps w (on_trades (trade_prepare (trade_env_in e v) u i signIn True) v) (\<lambda>_. True)" for u i signIn
    by (rule keeps_trades[OF assms(2), of "trade_env_in e v"]) (rule trade_prepare_moves)
  have win: "keeps w (if b then set_window e r po x else (Inr r, x)) (same_call r)" if "money_moves w x" for b po x
    using keeps_set_window[OF assms(1) that assms(3)] that by (simp add: keeps_ret)
  have late: "money_moves w (snd (retireQuote e r x))" if "money_moves w x" for x
    using keeps_snd[OF keeps_retireQuote[OF assms(1) that]] .
  have z: "keeps w (let firstQuote = b in if \<not> firstQuote \<and> late_by then money_fail EXPIRED (snd (retireQuote e r x))
      else and_next (if firstQuote then set_window e r po x else (Inr r, x)) (\<lambda>r x. (Inr (g r x), x))) (\<lambda>_. True)"
    if "money_moves w x" for b late_by po x and g :: "money_row \<Rightarrow> money_world \<Rightarrow> quote_result"
    using late[OF that] keeps_next_true[OF win[OF that, where b = b and po = po], where f = "\<lambda>r x. (Inr (g r x), x)" and R = "\<lambda>_. True"] by (simp add: Let_def keeps_ret)
  show ?thesis
    unfolding place_quote_def None option.case
    by (rule keeps_next_true[OF t]) (rule z)
qed

lemma keeps_fresh_quote:
  assumes "money_inv w" "money_moves w v" "known r w" shows "keeps w (fresh_quote e p r d call fresh latest cur v) (\<lambda>_. True)"
  using assms keeps_next_row[OF assms(3) keeps_next_attempt[OF assms] keeps_place_quote[OF assms(1)]]
  by (auto simp: fresh_quote_def keeps_ret split: price_state.splits sum.splits option.splits)

lemma keeps_alive_quote:
  assumes "money_inv w" "money_moves w v" "known r w" shows "keeps w (alive_quote e p r hint x fresh latest v) (\<lambda>_. True)"
  unfolding alive_quote_def
  by (rule keeps_next_true[OF keeps_assertAlive[OF assms]])
    (auto simp: Let_def keeps_ret keeps_fresh_quote[OF assms(1) _ assms(3)] split: sum.splits option.splits)

lemma keeps_money_quote:
  assumes "money_inv w" "money_moves w v" "known r w" shows "keeps w (money_quote e p r hint x fresh v) (\<lambda>_. True)"
proof -
  have f: "keeps w (and_next (if b then markFunded e r v else (Inr r, v)) (\<lambda>_ v. money_fail STATE v)) (\<lambda>_ :: quote_result. True)" for b
    using keeps_markFunded[OF assms, of e] assms(2) by (auto intro!: keeps_next_true keeps_ret)
  show ?thesis using f[of True] f[of False] assms(2) keeps_alive_quote[OF assms]
    by (auto simp: money_quote_def split: option.splits)
qed

lemma keeps_lock:
  assumes "money_inv w" "money_moves w v" "known r w" shows "keeps w (lock_money_call e r plan i v) (\<lambda>_. True)"
proof -
  let ?m = "and_next (on_social (lockFundedCall (calls_env_in e v) plan
      \<lparr>sm_confidence = pc_confidence i, sm_thesis = pc_thesis i, sm_visibility = pc_visibility i\<rparr> (mr_user_id r)) v)
      (\<lambda>x w. and_next (flush e w) (\<lambda>_ w. (Inr x, w)))"
  have "keeps w ?m (\<lambda>_. True)"
    by (auto intro!: keeps_next_true[OF keeps_social] keeps_next_true[OF keeps_flush] keeps_ret assms(2))
  then have m: "money_moves w (snd ?m)" by (rule keeps_snd)
  show ?thesis
  proof (cases ?m)
    case (Pair res x)
    then show ?thesis using m keeps_snd[OF keeps_end_call[OF assms(1) _ assms(3)]]
      by (cases res) (simp_all add: lock_money_call_def keeps_ret)
  qed
qed

lemma keeps_replay:
  assumes "money_inv w" "money_moves w v" "known r w" shows "keeps w (replay_money e p r i v) (\<lambda>_. True)"
proof -
  have f: "keeps w (case t of None \<Rightarrow> (Inr r, v) | Some t \<Rightarrow> if fundsIt r t then markFunded e r v else (Inr r, v)) (same_call r)" for t
    using keeps_markFunded[OF assms, of e] assms(2) by (auto intro: keeps_ret split: option.splits)
  have g: "keeps w (if mr_state q \<noteq> Pending_money
          then (case entry_of_row e q x of None \<Rightarrow> money_fail NOT_FOUND x | Some y \<Rightarrow> (Inr (Already_settled (describe_call e q x) y), x))
          else if getCall (mr_call_id q) (so_store (qw_social x)) = None
          then and_next (lock_money_call e q (row_plan q) i x) (\<lambda>y x. money_quote e p q (pc_wallet i) (Some y) False x)
          else money_quote e p q (pc_wallet i) None False x) (\<lambda>_. True)" if "money_moves w x" "known q w" for q x
    using that keeps_lock[OF assms(1) that] keeps_money_quote[OF assms(1) _ that(2)]
    by (auto intro!: keeps_ret keeps_next_true split: option.splits)
  show ?thesis using assms(2) keeps_next_row[OF assms(3) f g] by (simp add: replay_money_def)
qed

lemma by_key_known: "money_inv w \<Longrightarrow> money_by_key u key (qw_rows w) = Some r \<Longrightarrow> known r w"
proof -
  assume inv: "money_inv w" and "money_by_key u key (qw_rows w) = Some r"
  then obtain k where k: "(k, r) \<in> set (qw_rows w)" by (auto simp: money_by_key_def find_Some_iff) (metis nth_mem prod.collapse)
  have "jm_wf (qw_rows w)" using inv unfolding money_inv_def money_ok_def by blast
  then have g: "jm_get (qw_rows w) k = Some r" using k by (rule jm_get_in)
  then show "known r w" using money_inv_row[OF inv g] unfolding known_def by blast
qed

lemma by_call_known: "money_inv w \<Longrightarrow> money_by_call u k (qw_rows w) = Some r \<Longrightarrow> known r w"
  using money_inv_row by (fastforce simp: by_call_get known_def)

text \<open>A new intent is known only from here on.\<close>

lemma moves_record_intent:
  assumes "money_inv w" shows "money_moves w (snd (record_intent e p i plan d amount w))"
proof (cases rule: money_insert_cases[of "ledger_guards w" "money_now e" "new_money_row e p i plan d amount" "Some (money_now e)" "qw_rows w"])
  case (same x)
  then show ?thesis using keeps_snd[OF keeps_replay[OF assms money_moves.stay by_key_known[OF assms]]]
    by (cases x) (auto simp: record_intent_def on_ledger_def and_next_def money_fail_def split: option.splits)
next
  case (new r)
  let ?v = "put_index r (w\<lparr>qw_rows := jm_set (mr_call_id r) r (qw_rows w)\<rparr>)"
  have m: "money_moves w ?v" by (rule money_moves.step_insert[OF money_moves.stay new(1)])
  have inv: "money_inv ?v" and k: "known r ?v" using money_inv_moves[OF m assms] by (simp_all add: known_def)
  have "keeps ?v (and_next (lock_money_call e r plan i ?v) (\<lambda>x w. money_quote e p r None (Some x) True w)) (\<lambda>_. True)"
    by (rule keeps_next_true[OF keeps_lock[OF inv money_moves.stay k] keeps_money_quote[OF inv _ k]])
  then have "money_moves w (snd (and_next (lock_money_call e r plan i ?v) (\<lambda>x w. money_quote e p r None (Some x) True w)))"
    using money_moves_trans[OF keeps_snd m] by blast
  then show ?thesis using new(1) by (simp add: record_intent_def on_ledger_def and_next_def Let_def)
qed

lemma moves_prepareCall:
  assumes "money_inv w" shows "money_moves w (snd (prepareCall e p i w))"
  using moves_record_intent[OF assms] keeps_snd[OF keeps_replay[OF assms money_moves.stay by_key_known[OF assms]]]
  by (auto simp: prepareCall_def money_fail_def split: option.splits sum.splits)

lemma moves_retry:
  assumes "money_inv w" shows "money_moves w (snd (money_retry e p k hint w))"
  using keeps_snd[OF keeps_money_quote[OF assms money_moves.stay by_call_known[OF assms]]]
  by (auto simp: money_retry_def own_money_row_def money_fail_def split: option.splits)

lemma keeps_with_entry: "money_moves w v \<Longrightarrow> keeps w (with_entry e r v) (\<lambda>_. True)"
  by (auto simp: with_entry_def keeps_ret split: option.splits)

lemma keeps_go_free:
  assumes "money_inv w" "money_moves w v" "known r w" shows "keeps w (go_free e r v) (\<lambda>_. True)"
proof -
  have fin: "keeps w (and_next (patch_row e r Pending_money (ends_as Free_money Ended_kept_free) x) (\<lambda>saved x.
      let r = (case saved of Some s \<Rightarrow> s | None \<Rightarrow> current_or r x); x = put_index r x in (Inr (describe_call e r x, y), x))) (\<lambda>_. True)"
    if "money_moves w x" for x and y :: "feed_entry option"
  proof (rule keeps_patch[OF assms(1) that assms(3)], goal_cases)
    case 1
    have "money_moves w (put_index (current_or r x) x)"
      using money_moves.step_put[OF that current_or_known(1)[OF money_inv_moves[OF that assms(1)] known_moves[OF that assms(3)]]] .
    then show ?case by (simp add: Let_def keeps_ret)
  qed (simp add: Let_def keeps_ret)
  show ?thesis using assms(2)
    by (auto simp: go_free_def intro!: keeps_next_true[OF keeps_retireQuote[OF assms(1)]] keeps_next_true[OF keeps_social]
        keeps_next_true[OF keeps_flush] fin split: sum.splits)
qed

lemma moves_keepFree:
  assumes "money_inv w" shows "money_moves w (snd (keepFree e u k w))"
proof (cases "own_money_row u k w")
  case None
  then show ?thesis by (simp add: keepFree_def money_fail_def)
next
  case (Some r)
  have k: "known r w" using by_call_known[OF assms] Some by (simp add: own_money_row_def)
  have a: "keeps w (and_next (markFunded e r w) (\<lambda>r w. with_entry e r w)) (\<lambda>_. True)"
    by (rule keeps_next_true[OF keeps_markFunded[OF assms money_moves.stay k] keeps_with_entry])
  have b: "keeps w (and_next (assertAlive e r w) (\<lambda>_ w. go_free e r w)) (\<lambda>_. True)"
    by (rule keeps_next_true[OF keeps_assertAlive[OF assms money_moves.stay k] keeps_go_free[OF assms _ k]])
  have "keeps w (case map_option tw_state t of Some T_FILLED \<Rightarrow> and_next (markFunded e r w) (\<lambda>r w. with_entry e r w)
      | Some T_SUBMITTED \<Rightarrow> money_fail IN_FLIGHT w | _ \<Rightarrow> and_next (assertAlive e r w) (\<lambda>_ w. go_free e r w)) (\<lambda>_. True)" for t
    using a b by (auto split: option.splits trade_state.splits)
  then have c: "money_moves w (snd (case map_option tw_state t of Some T_FILLED \<Rightarrow> and_next (markFunded e r w) (\<lambda>r w. with_entry e r w)
      | Some T_SUBMITTED \<Rightarrow> money_fail IN_FLIGHT w | _ \<Rightarrow> and_next (assertAlive e r w) (\<lambda>_ w. go_free e r w)))" for t
    by (rule keeps_snd)
  show ?thesis using Some c[of "latest_trade e r w"] by (simp add: keepFree_def money_fail_def split: option.splits sum.splits)
qed

lemma moves_discard:
  assumes "money_inv w" shows "money_moves w (snd (discard e u k w))"
proof (cases "own_money_row u k w")
  case None
  then show ?thesis by (simp add: discard_def money_fail_def)
next
  case (Some r)
  have k: "known r w" using by_call_known[OF assms] Some by (simp add: own_money_row_def)
  have a: "keeps w (markFunded e r w) (\<lambda>_. True)" by (rule keeps_true[OF keeps_markFunded[OF assms money_moves.stay k]])
  have b: "keeps w (and_next (retireQuote e r w) (\<lambda>_ w. end_call e r Ended_discarded w)) (\<lambda>_. True)"
    by (rule keeps_next_true[OF keeps_retireQuote[OF assms money_moves.stay] keeps_true[OF keeps_end_call[OF assms _ k]]])
  define s where "s = map_option tw_state (latest_trade e r w)"
  have "keeps w (case s of Some T_FILLED \<Rightarrow> markFunded e r w | Some T_SUBMITTED \<Rightarrow> money_fail IN_FLIGHT w
      | _ \<Rightarrow> and_next (retireQuote e r w) (\<lambda>_ w. end_call e r Ended_discarded w)) (\<lambda>_. True)"
    using a b by (auto split: option.splits trade_state.splits)
  then have c: "keeps w (if mr_state r = Pending_money
       then (case s of Some T_FILLED \<Rightarrow> markFunded e r w | Some T_SUBMITTED \<Rightarrow> money_fail IN_FLIGHT w
         | _ \<Rightarrow> and_next (retireQuote e r w) (\<lambda>_ w. end_call e r Ended_discarded w))
       else if mr_state r \<noteq> Expired_money then money_fail STATE w else (Inr r, w)) (\<lambda>_. True)"
    by (simp add: keeps_ret)
  show ?thesis unfolding discard_def Some option.case s_def[symmetric]
    by (rule keeps_snd[where Q = "\<lambda>_. True"], rule keeps_next_true[OF c]) (simp add: keeps_ret)
qed

lemma moves_recheck: "money_moves w v \<Longrightarrow> money_moves w (snd (recheck e t v))"
proof -
  assume v: "money_moves w v"
  have c: "money_moves w (v\<lparr>qw_trades := snd (trade_reconcile (trade_env_in e v) q (qw_trades v))\<rparr>)" for q
    by (rule money_moves.step_trades[OF v trade_reconcile_moves])
  show "money_moves w (snd (recheck e t v))"
  proof (cases t)
    case None
    then show ?thesis using v by (simp add: recheck_def)
  next
    case (Some q)
    obtain res tw where "trade_reconcile (trade_env_in e v) q (qw_trades v) = (res, tw)" by (cases "trade_reconcile (trade_env_in e v) q (qw_trades v)")
    then show ?thesis using v c[of q] Some by (cases res) (simp_all add: recheck_def)
  qed
qed

lemma moves_status:
  assumes "money_inv w" shows "money_moves w (snd (money_status e u k w))"
proof (cases "own_money_row u k w")
  case None
  then show ?thesis by (simp add: money_status_def money_fail_def)
next
  case (Some r)
  have k: "known r w" using by_call_known[OF assms] Some by (simp add: own_money_row_def)
  obtain latest v where v: "recheck e (latest_trade e r w) w = (latest, v)" by (cases "recheck e (latest_trade e r w) w")
  have m: "money_moves w v" using moves_recheck[OF money_moves.stay, of w e "latest_trade e r w"] v by simp
  have f: "keeps w (case latest of None \<Rightarrow> (Inr r, v) | Some t \<Rightarrow> if fundsIt r t then markFunded e r v else (Inr r, v)) (same_call r)"
    using keeps_markFunded[OF assms m k] m by (auto intro: keeps_ret split: option.splits)
  show ?thesis unfolding money_status_def Some option.case v prod.case
    by (rule keeps_snd[where Q = "\<lambda>_. True"], rule keeps_next_true[OF f]) (simp add: Let_def keeps_ret)
qed

lemma index_row: "money_inv w \<Longrightarrow> jm_get (qw_index w) k = Some r \<Longrightarrow> jm_get (qw_rows w) k = Some r \<and> mr_state r \<noteq> Funded_money \<and> mr_call_id r = k"
  unfolding money_inv_def index_agrees_def using money_ok_row by (fastforce split: option.splits if_splits)

lemma index_known: "money_inv w \<Longrightarrow> r \<in> set (jm_values (qw_index w)) \<Longrightarrow> jm_wf (qw_index w) \<Longrightarrow> known r w"
  using index_row jm_get_in unfolding known_def by fastforce

lemma moves_onFilled:
  assumes "money_inv w" shows "money_moves w (snd (onFilled e t w))"
proof -
  have k: "known r w" if "or_first (jm_get (qw_index w) (tw_call_id t)) (money_by_call (tw_user_id t) (tw_call_id t) (qw_rows w)) = Some r" for r
    using that index_row[OF assms] by_call_known[OF assms] unfolding or_first_def known_def by (fastforce split: option.splits)
  have m: "money_moves w (snd (and_next (markFunded e r w) (\<lambda>_ w. (Inr (), w))))" if "known r w" for r
    by (rule keeps_snd[where Q = "\<lambda>_. True"], rule keeps_next_true[OF keeps_markFunded[OF assms money_moves.stay that]]) (simp add: keeps_ret)
  show ?thesis
  proof (cases "or_first (jm_get (qw_index w) (tw_call_id t)) (money_by_call (tw_user_id t) (tw_call_id t) (qw_rows w))")
    case (Some r)
    then show ?thesis using m[OF k[OF Some]] by (simp add: onFilled_def)
  qed (simp add: onFilled_def)
qed

lemma moves_sweep_closed:
  assumes "money_inv w" "money_moves w (snd x)" "known r w" shows "money_moves w (snd (sweep_closed e r x))"
proof -
  obtain rep v where x: "x = (rep, v)" by (cases x)
  have "money_moves w (snd (markFunded e r v))" using keeps_snd[OF keeps_markFunded[OF assms(1) _ assms(3)]] assms(2) x by simp
  then show ?thesis using x assms(2)
    by (cases "markFunded e r v") (auto simp: sweep_closed_def split: option.splits sum.splits)
qed

lemma moves_sweep_pending:
  assumes "money_inv w" "money_moves w (snd x)" "known r w" shows "money_moves w (snd (sweep_pending e r x))"
proof -
  obtain rep v where x: "x = (rep, v)" by (cases x)
  have v: "money_moves w v" using assms(2) x by simp
  have a: "money_moves w (snd (markFunded e r v))" using keeps_snd[OF keeps_markFunded[OF assms(1) v assms(3)]] .
  have b: "money_moves w (snd (and_next (retireQuote e r v) (\<lambda>_ w. end_call e r reason w)))" for reason
    by (rule keeps_snd[OF keeps_next_true[OF keeps_retireQuote[OF assms(1) v] keeps_end_call[OF assms(1) _ assms(3)]]])
  have c: "money_moves w (snd (case m of (Inl err, w) \<Rightarrow> (f err, w) | (Inr _, w) \<Rightarrow> (g, w)))" if "money_moves w (snd m)"
    for m :: "money_row moneyed" and f :: "money_thrown \<Rightarrow> sweep_report" and g
    using that by (cases m; cases "fst m") auto
  define s where "s = map_option tw_state (latest_trade e r v)"
  show ?thesis unfolding sweep_pending_def x prod.case s_def[symmetric]
    using v c[OF a] c[OF b] by (auto split: option.splits trade_state.splits)
qed

lemma moves_fold:
  assumes "money_inv w" "money_moves w (snd x)" "\<And>r. r \<in> set rs \<Longrightarrow> known r w"
    "\<And>r x. known r w \<Longrightarrow> money_moves w (snd x) \<Longrightarrow> money_moves w (snd (f r x))"
  shows "money_moves w (snd (fold f rs x))"
  using assms(2,3)
proof (induction rs arbitrary: x)
  case (Cons r rs)
  have "money_moves w (snd (f r x))" using assms(4) Cons.prems by simp
  then show ?case using Cons by simp
qed simp

lemma moves_wf_index: "money_moves w w' \<Longrightarrow> jm_wf (qw_index w) \<Longrightarrow> jm_wf (qw_index w')"
  by (induction rule: money_moves.induct) (auto simp: index_put_def)

lemma moves_sweep:
  assumes "money_inv w" "jm_wf (qw_index w)" shows "money_moves w (snd (sweep e w))"
proof -
  let ?x = "fold (sweep_closed e) (index_closed (qw_index w) (money_now e - CLOSED_REPAIR_MS)) (\<lparr>sw_funded = 0, sw_expired = 0, sw_errors = []\<rparr>, w)"
  have k: "known r w" if "r \<in> set (index_closed (qw_index w) t)" for r t
    using index_known[OF assms(1) _ assms(2)] that by (auto simp: index_closed_def)
  have m: "money_moves w (snd ?x)"
    by (rule moves_fold[OF assms(1)]) (use k moves_sweep_closed[OF assms(1)] in auto)
  have inv: "money_inv (snd ?x)" "jm_wf (qw_index (snd ?x))"
    using money_inv_moves[OF m assms(1)] moves_wf_index[OF m assms(2)] .
  have k2: "known r (snd ?x)" if "r \<in> set (index_pending (qw_index (snd ?x)))" for r
    using index_known[OF inv(1) _ inv(2)] that by (auto simp: index_pending_def)
  have "money_moves (snd ?x) (snd (fold (sweep_pending e) (index_pending (qw_index (snd ?x))) ?x))"
    by (rule moves_fold[OF inv(1)]) (use k2 moves_sweep_pending[OF inv(1)] in auto)
  then show ?thesis using money_moves_trans m by (simp add: sweep_def Let_def)
qed

section \<open>Any sequence of requests\<close>

datatype money_request =
  Prepare_call deposit_person prepare_call_input
| Retry_call deposit_person string "string option"
| Keep_free string string
| Discard string string
| Status string string
| Filled_hook trade_row
| Sweep
| Calls_request service_op
| Prepare_trade string prepare_input "string option"
| Submit_trade string string string "string option"
| Check_trade string string
| Reconcile_trade trade_row

fun request_step :: "money_env \<Rightarrow> money_request \<Rightarrow> money_world \<Rightarrow> money_world" where
  "request_step e (Prepare_call p i) w = snd (prepareCall e p i w)"
| "request_step e (Retry_call p k hint) w = snd (money_retry e p k hint w)"
| "request_step e (Keep_free u k) w = snd (keepFree e u k w)"
| "request_step e (Discard u k) w = snd (discard e u k w)"
| "request_step e (Status u k) w = snd (money_status e u k w)"
| "request_step e (Filled_hook t) w = snd (onFilled e t w)"
| "request_step e Sweep w = snd (sweep e w)"
| "request_step e (Calls_request o1) w = w\<lparr>qw_social := service_step (calls_env_in e w) o1 (qw_social w)\<rparr>"
| "request_step e (Prepare_trade u i signIn) w = snd (on_trades (trade_prepare (trade_env_in e w) u i signIn False) w)"
| "request_step e (Submit_trade u orderId payload signIn) w = snd (on_trades (trade_submit (trade_env_in e w) u orderId payload signIn) w)"
| "request_step e (Check_trade u orderId) w = snd (on_trades (trade_order (trade_env_in e w) u orderId) w)"
| "request_step e (Reconcile_trade t) w = snd (on_trades (trade_reconcile (trade_env_in e w) t) w)"

definition money_run_requests :: "(money_env \<times> money_request) list \<Rightarrow> money_world \<Rightarrow> money_world" where
  "money_run_requests reqs w = fold (\<lambda>(e, q). request_step e q) reqs w"

definition empty_money :: money_world where
  "empty_money = \<lparr>qw_rows = [], qw_index = [], qw_social = empty_social, qw_trades = empty_trades\<rparr>"

lemma snd_on_trades: "snd (on_trades f w) = w\<lparr>qw_trades := snd (f (qw_trades w))\<rparr>"
  by (simp add: on_trades_def case_prod_beta)

lemma money_request_moves:
  assumes "money_inv w" "jm_wf (qw_index w)" shows "money_moves w (request_step e q w)"
proof (cases q)
  case (Calls_request o1)
  then show ?thesis using money_moves.step_social[OF money_moves.stay] by simp
next
  case (Submit_trade u orderId payload signIn)
  have "trades_ok (qw_trades w)" using assms(1) unfolding money_inv_def by blast
  then have "moves_to (trade_env_in e w) (qw_trades w) (snd (trade_submit (trade_env_in e w) u orderId payload signIn (qw_trades w)))"
    by (rule trade_submit_moves)
  then show ?thesis using Submit_trade money_moves.step_trades[OF money_moves.stay] by (simp add: snd_on_trades)
qed (use assms moves_prepareCall moves_retry moves_keepFree moves_discard moves_status moves_onFilled moves_sweep
     in \<open>auto simp: snd_on_trades intro: money_moves.step_trades trade_prepare_moves trade_order_moves trade_reconcile_moves\<close>)

lemma money_run_inv:
  assumes "money_inv w" "jm_wf (qw_index w)"
  shows "money_inv (money_run_requests reqs w) \<and> jm_wf (qw_index (money_run_requests reqs w)) \<and> money_moves w (money_run_requests reqs w)"
  using assms unfolding money_run_requests_def
proof (induction reqs arbitrary: w)
  case (Cons eq reqs)
  obtain e q where eq: "eq = (e, q)" by (cases eq)
  have m: "money_moves w (request_step e q w)" using money_request_moves[OF Cons.prems] .
  then show ?case using Cons.IH[of "request_step e q w"] money_inv_moves[OF m] moves_wf_index[OF m] Cons.prems eq money_moves_trans[OF _ m] by simp
qed simp

lemma money_inv_empty [simp]: "money_inv empty_money" "jm_wf (qw_index empty_money)"
  by (simp_all add: money_inv_def empty_money_def index_agrees_def)

text \<open>C22: A call whose money has not landed is its owner's alone. Whatever was requested, in whatever
  order, every call that anyone but its author may see is free of a money call or its money call is
  funded, and the index of private calls holds exactly the rows that are not funded.\<close>

theorem unfunded_is_private:
  "case money_run_requests reqs empty_money of w \<Rightarrow>
     list_all (\<lambda>c. case jm_get (qw_rows w) (ca_id c) of None \<Rightarrow> True | Some r \<Rightarrow> mr_state r = Funded_money)
       (filter (\<lambda>c. canSee (calls_env_in e w) (so_store (qw_social w)) c viewer \<and> viewer \<noteq> Some (ca_userId c))
         (jm_values (cs_calls (so_store (qw_social w))))) \<and>
     list_all (\<lambda>(k, r). index_isPrivate (qw_index w) k = (mr_state r \<noteq> Funded_money)) (qw_rows w)"
proof -
  define w where "w = money_run_requests reqs empty_money"
  have inv: "money_inv w" using money_run_inv[of empty_money reqs] by (simp add: w_def)
  have priv: "index_isPrivate (qw_index w) k = (\<exists>r. jm_get (qw_rows w) k = Some r \<and> mr_state r \<noteq> Funded_money)" for k
    using inv unfolding money_inv_def index_agrees_def index_isPrivate_def by (auto split: option.splits)
  have a: "case jm_get (qw_rows w) (ca_id c) of None \<Rightarrow> True | Some r \<Rightarrow> mr_state r = Funded_money"
    if "canSee (calls_env_in e w) (so_store (qw_social w)) c viewer" "viewer \<noteq> Some (ca_userId c)" for c
  proof -
    have "\<not> isPrivate (calls_env_in e w) (ca_id c)" using that by (auto simp: canSee_def split: if_splits)
    then have "\<not> index_isPrivate (qw_index w) (ca_id c)" by (simp add: isPrivate_def calls_env_in_def index_visibility_def)
    then show ?thesis using priv[of "ca_id c"] by (auto split: option.splits)
  qed
  have wf: "jm_wf (qw_rows w)" using inv unfolding money_inv_def money_ok_def by blast
  have b: "index_isPrivate (qw_index w) k = (mr_state r \<noteq> Funded_money)" if "(k, r) \<in> set (qw_rows w)" for k r
    using priv[of k] jm_get_in[OF wf that] by simp
  show ?thesis unfolding w_def[symmetric] using a b by (auto simp: list_all_iff)
qed

text \<open>C23: A call is funded only by a proven fill of its own. Whatever was requested, every funded money
  call has a trade of its owner on that very call that filled with the venue's proof.\<close>

theorem funded_means_filled:
  "case money_run_requests reqs empty_money of w \<Rightarrow>
     list_all (\<lambda>r. list_ex (\<lambda>t. tw_state t = T_FILLED \<and> map_option vo_fundingState (tw_fill_evidence t) = Some F_FILLED \<and> tw_signature t \<noteq> None)
         (call_trades (mr_user_id r) (mr_call_id r) (qw_trades w)))
       (filter (\<lambda>r. mr_state r = Funded_money) (jm_values (qw_rows w)))"
proof -
  define w where "w = money_run_requests reqs empty_money"
  have inv: "money_inv w" using money_run_inv[of empty_money reqs] by (simp add: w_def)
  have wf: "jm_wf (qw_rows w)" and ok: "trades_ok (qw_trades w)" using inv unfolding money_inv_def money_ok_def by blast+
  have "\<exists>t \<in> set (call_trades (mr_user_id r) (mr_call_id r) (qw_trades w)). tw_state t = T_FILLED \<and>
      map_option vo_fundingState (tw_fill_evidence t) = Some F_FILLED \<and> tw_signature t \<noteq> None"
    if "(k, r) \<in> set (qw_rows w)" "mr_state r = Funded_money" for k r
  proof -
    have r: "jm_get (qw_rows w) k = Some r" using jm_get_in[OF wf that(1)] .
    have "filled_trade (mr_user_id r) k (qw_trades w)" using inv r that(2) unfolding money_inv_def by blast
    then obtain i t where t: "jm_get (tl_rows (qw_trades w)) i = Some t" "tw_user_id t = mr_user_id r" "tw_call_id t = k" "tw_state t = T_FILLED"
      unfolding filled_trade_def by blast
    have "trade_row_ok t" "tw_id t = i" using trades_ok_row[OF ok t(1)] by blast+
    then show ?thesis using t money_inv_row[OF inv r] call_trades_get[OF ok] by (intro bexI[of _ t]) (auto simp: trade_row_ok_def)
  qed
  then show ?thesis unfolding w_def[symmetric] by (auto simp: list_all_iff list_ex_iff)
qed

end
