(* ===== verification/MoneySweep.thy ===== *)
theory MoneySweep
  imports MoneyFlow
begin

text \<open>
  Liveness of the sweeper and the window of a money call. A pass of the sweeper leaves no call waiting
  without a reason: each one still pending has a buy going through, or is young enough and its market
  still takes calls. And a money call's quote is only signed while the call waits for it.
\<close>

section \<open>What sweeping one call leaves alone\<close>

definition settled_or_sent :: "trade_row \<Rightarrow> bool" where
  "settled_or_sent q \<longleftrightarrow> reached_wallet q \<or> tw_state q = T_SUBMITTED \<or> tw_state q = T_FILLED"

text \<open>Trades whose unsigned quotes may have failed, nothing else.\<close>

definition quiet :: "trade_world \<Rightarrow> trade_world \<Rightarrow> bool" where
  "quiet t t' \<longleftrightarrow> filter settled_or_sent (jm_values (tl_rows t')) = filter settled_or_sent (jm_values (tl_rows t))"

definition aside :: "money_row \<Rightarrow> money_world \<Rightarrow> money_world \<Rightarrow> bool" where
  "aside r v v' \<longleftrightarrow> (\<forall>k. k \<noteq> mr_call_id r \<longrightarrow> jm_get (qw_rows v') k = jm_get (qw_rows v) k) \<and>
     (\<forall>k. (getCall k (so_store (qw_social v')) = None) = (getCall k (so_store (qw_social v)) = None)) \<and>
     quiet (qw_trades v) (qw_trades v')"

lemma aside_refl [simp]: "aside r v v"
  by (simp add: aside_def quiet_def)

lemma aside_trans: "aside r u v \<Longrightarrow> aside r v w \<Longrightarrow> aside r u w"
  by (simp add: aside_def quiet_def)

lemma aside_put [simp]: "aside r v (put_index q w) = aside r v w"
  by (simp add: aside_def)

definition going :: "money_row \<Rightarrow> money_world \<Rightarrow> bool" where
  "going r v \<longleftrightarrow> list_ex (\<lambda>q. tw_state q = T_SUBMITTED \<or> tw_state q = T_FILLED) (call_trades (mr_user_id r) (mr_call_id r) (qw_trades v))"

lemma quiet_filter:
  assumes "quiet t t'" "\<And>q. P q \<Longrightarrow> settled_or_sent q"
  shows "filter P (jm_values (tl_rows t')) = filter P (jm_values (tl_rows t))"
proof -
  have "filter P xs = filter P (filter settled_or_sent xs)" for xs using assms(2) by (induction xs) auto
  then show ?thesis using assms(1) unfolding quiet_def by metis
qed

lemma aside_latest: "aside r v v' \<Longrightarrow> latest_trade e q v' = latest_trade e q v"
  unfolding latest_trade_def latestForCall_def aside_def
  using quiet_filter[of "qw_trades v" "qw_trades v'" "\<lambda>x. tw_user_id x = mr_user_id q \<and> tw_call_id x = mr_call_id q \<and> reached_wallet x"]
  by (auto simp: settled_or_sent_def)

lemma going_filter: "going r v \<longleftrightarrow> filter (\<lambda>q. tw_user_id q = mr_user_id r \<and> tw_call_id q = mr_call_id r \<and>
    (tw_state q = T_SUBMITTED \<or> tw_state q = T_FILLED)) (jm_values (tl_rows (qw_trades v))) \<noteq> []"
  by (auto simp: going_def call_trades_def list_ex_iff filter_empty_conv)

lemma aside_going: "aside r v v' \<Longrightarrow> going q v' = going q v"
  unfolding going_filter aside_def
  using quiet_filter[of "qw_trades v" "qw_trades v'" "\<lambda>x. tw_user_id x = mr_user_id q \<and> tw_call_id x = mr_call_id q \<and>
    (tw_state x = T_SUBMITTED \<or> tw_state x = T_FILLED)"]
  by (auto simp: settled_or_sent_def)

lemma takesCalls_in [simp]: "takesCalls (calls_env_in e v) m = takesCalls (qe_calls e) m"
  by (cases "rd_getMarket (ce_reader (qe_calls e)) m") (simp_all add: takesCalls_def calls_env_in_def cutoff_def)

lemma aside_reason: "aside r v v' \<Longrightarrow> sweep_reason e q v' = sweep_reason e q v"
  by (simp add: sweep_reason_def aside_def)

section \<open>The pieces\<close>

lemma same_calls_update: "(getCall j (snd (attemptCallUpdate k fs s)) = None) = (getCall j s = None)"
  by (cases rule: attemptCallUpdate_cases[of k fs s]) (auto simp: getCall_def)

lemma same_calls_hide: "(getCall j (snd (store_hideCall k reason now s)) = None) = (getCall j s = None)"
  by (cases rule: store_hideCall_cases[of k reason now s]) (auto simp: getCall_def)

lemma same_calls_response: "(getCall j (snd (insertResponse r s)) = None) = (getCall j s = None)"
  by (cases rule: insertResponse_cases[of r s]) (auto simp: getCall_def)

lemma store_of_on_store: "so_store (snd (and_then (on_store f s) (\<lambda>_ s. (Inr x, s)))) = snd (f (so_store s))"
  by (cases "f (so_store s)") (auto simp: and_then_def on_store_def split: sum.splits)

lemma same_calls_withdraw: "(getCall j (so_store (snd (withdrawFundedCall e k s))) = None) = (getCall j (so_store s) = None)"
  by (auto simp: withdrawFundedCall_def store_of_on_store same_calls_hide split: option.splits)

lemma same_calls_restore: "(getCall j (so_store (snd (restoreFundedCall k s))) = None) = (getCall j (so_store s) = None)"
  by (auto simp: restoreFundedCall_def store_of_on_store unhideCall_def same_calls_update split: option.splits)

lemma same_calls_publish: "(getCall j (so_store (snd (publishFundedCall e i k s))) = None) = (getCall j (so_store s) = None)"
  by (auto simp: publishFundedCall_def Let_def store_of_on_store same_calls_response split: option.splits)

lemma aside_social:
  assumes "\<And>k s. (getCall k (so_store (snd (f s))) = None) = (getCall k (so_store s) = None)"
  shows "aside r v (snd (on_social f v))" "qw_rows (snd (on_social f v)) = qw_rows v"
  using assms by (simp_all add: aside_def on_social_def case_prod_beta quiet_def)

lemma aside_patch: "aside r v (snd (patch_row e r s p v))"
proof (cases rule: money_update_cases[of "ledger_guards v" "money_now e" "mr_call_id r" "(s, mr_attempts r)" p "qw_rows v"])
  case (same x)
  then show ?thesis by (simp add: patch_row_def on_ledger_def)
next
  case (put x q)
  show ?thesis using put(1) by (simp add: patch_row_def on_ledger_def aside_def quiet_def)
qed

lemma snd_flush [simp]: "snd (flush e w) = w"
  by (simp add: flush_def)

lemma snd_and_next: "(\<And>a. fst m = Inr a \<Longrightarrow> P (snd (f a (snd m)))) \<Longrightarrow> P (snd m) \<Longrightarrow> P (snd (and_next m f))"
  by (cases m; cases "fst m") (auto simp: and_next_def)

text \<open>After the row is written, what follows changes no row.\<close>

definition publish_rest :: "money_env \<Rightarrow> money_row \<Rightarrow> money_row \<Rightarrow> money_world \<Rightarrow> money_row moneyed" where
  "publish_rest e r n w =
     (if mr_state n = Funded_money
      then and_next (if mr_state r = Expired_money then on_social (restoreFundedCall (mr_call_id r)) w else (Inr (), w)) (\<lambda>_ w.
           and_next (on_social (publishFundedCall (calls_env_in e w) (qe_newResponseId e) (mr_call_id r)) w) (\<lambda>_ w.
           and_next (flush e w) (\<lambda>_ w. (Inr n, w))))
      else (Inr n, w))"

lemma publish_rest: "aside r v (snd (publish_rest e r n v)) \<and> qw_rows (snd (publish_rest e r n v)) = qw_rows v"
proof -
  let ?P = "\<lambda>x. aside r v x \<and> qw_rows x = qw_rows v"
  have soc: "?P (snd (on_social f x))" if "?P x" "\<And>k s. (getCall k (so_store (snd (f s))) = None) = (getCall k (so_store s) = None)"
    for x and f :: "social_state \<Rightarrow> unit social"
    using aside_social(1)[of f, OF that(2)] aside_social(2)[of f, OF that(2)] that(1) aside_trans by metis
  have a: "?P (snd (if mr_state r = Expired_money then on_social (restoreFundedCall (mr_call_id r)) v else (Inr (), v)))"
    using soc[of v "restoreFundedCall (mr_call_id r)"] same_calls_restore by simp
  have b: "?P (snd (and_next (on_social (publishFundedCall (calls_env_in e x) (qe_newResponseId e) (mr_call_id r)) x) (\<lambda>_ w.
           and_next (flush e w) (\<lambda>_ w. (Inr n, w)))))" if "?P x" for x
  proof (rule snd_and_next)
    have y: "?P (snd (on_social (publishFundedCall (calls_env_in e x) (qe_newResponseId e) (mr_call_id r)) x))"
      by (rule soc[OF that]) (rule same_calls_publish)
    then show "?P (snd (on_social (publishFundedCall (calls_env_in e x) (qe_newResponseId e) (mr_call_id r)) x))" .
    show "?P (snd (and_next (flush e (snd (on_social (publishFundedCall (calls_env_in e x) (qe_newResponseId e) (mr_call_id r)) x)))
        (\<lambda>_ w. (Inr n, w))))"
      by (rule snd_and_next[where P = ?P]) (use y in simp_all)
  qed
  show ?thesis
  proof (cases "mr_state n = Funded_money")
    case True
    show ?thesis unfolding publish_rest_def if_P[OF True]
      by (rule snd_and_next[where P = ?P]) (rule b[OF a], rule a)
  qed (simp add: publish_rest_def)
qed

lemma markFunded_eq:
  "markFunded e r w = (if mr_state r = Funded_money then (Inr r, w)
     else and_next (patch_row e r (mr_state r) (ends_as Funded_money Ended_filled) w) (\<lambda>saved w.
       let n = (case saved of Some s \<Rightarrow> s | None \<Rightarrow> current_or r w) in publish_rest e r n (put_index n w)))"
  by (simp add: markFunded_def publish_rest_def Let_def)

lemma aside_markFunded: "aside r v (snd (markFunded e r v))"
proof (cases "mr_state r = Funded_money")
  case False
  show ?thesis unfolding markFunded_eq if_not_P[OF False]
  proof (rule snd_and_next[where P = "aside r v"])
    show p: "aside r v (snd (patch_row e r (mr_state r) (ends_as Funded_money Ended_filled) v))" by (rule aside_patch)
    show "aside r v (snd (let n = case a of None \<Rightarrow> current_or r (snd (patch_row e r (mr_state r) (ends_as Funded_money Ended_filled) v))
        | Some s \<Rightarrow> s in publish_rest e r n (put_index n (snd (patch_row e r (mr_state r) (ends_as Funded_money Ended_filled) v)))))" for a
      unfolding Let_def by (rule aside_trans[OF _ conjunct1[OF publish_rest]]) (simp add: p)
  qed
qed (simp add: markFunded_def)

definition end_rest :: "money_env \<Rightarrow> money_row \<Rightarrow> money_row \<Rightarrow> money_world \<Rightarrow> money_row moneyed" where
  "end_rest e r s w =
     (if getCall (mr_call_id r) (so_store (qw_social w)) \<noteq> None
      then and_next (on_social (withdrawFundedCall (calls_env_in e w) (mr_call_id r)) w) (\<lambda>_ w.
           and_next (flush e w) (\<lambda>_ w. (Inr s, w)))
      else (Inr s, w))"

lemma end_rest: "aside r v (snd (end_rest e r s v)) \<and> qw_rows (snd (end_rest e r s v)) = qw_rows v"
proof (cases "getCall (mr_call_id r) (so_store (qw_social v)) \<noteq> None")
  case True
  let ?P = "\<lambda>x. aside r v x \<and> qw_rows x = qw_rows v"
  have a: "?P (snd (on_social (withdrawFundedCall (calls_env_in e v) (mr_call_id r)) v))"
    using aside_social(1)[of "withdrawFundedCall (calls_env_in e v) (mr_call_id r)"]
      aside_social(2)[of "withdrawFundedCall (calls_env_in e v) (mr_call_id r)"] same_calls_withdraw by blast
  show ?thesis unfolding end_rest_def if_P[OF True]
    by (rule snd_and_next[where P = ?P]) (use a in \<open>auto intro!: snd_and_next[where P = ?P]\<close>)
qed (simp add: end_rest_def)

lemma aside_end_call: "aside r v (snd (end_call e r reason v))"
  unfolding end_call_def
proof (rule snd_and_next[where P = "aside r v"], goal_cases)
  case (1 a)
  let ?x = "snd (patch_row e r Pending_money (ends_as Expired_money reason) v)"
  have x: "aside r v ?x" by (rule aside_patch)
  show ?case
  proof (cases a)
    case None
    then show ?thesis using x by (simp add: money_fail_def Let_def split: option.splits)
  next
    case (Some s)
    have "aside r v (snd (end_rest e r s (put_index s ?x)))"
      by (rule aside_trans[OF _ conjunct1[OF end_rest]]) (simp add: x)
    then show ?thesis using Some by (simp add: end_rest_def Let_def)
  qed
qed (rule aside_patch)

lemma filter_values_set:
  "jm_get m i = Some x \<Longrightarrow> \<not> P x \<Longrightarrow> \<not> P y \<Longrightarrow> filter P (jm_values (jm_set i y m)) = filter P (jm_values m)"
  by (induction m) auto

text \<open>With no other request in between and a database that takes the write, the unsigned quote is retired.\<close>

definition undisturbed :: "money_env \<Rightarrow> bool" where
  "undisturbed e \<longleftrightarrow> te_race (qe_trade e) = [] \<and> te_allows (qe_trade e) = (\<lambda>_ _. True)"

lemma retireQuote_quiet:
  assumes "undisturbed e" "trades_ok (qw_trades v)"
  shows "\<exists>v'. retireQuote e r v = (Inr (), v') \<and> qw_rows v' = qw_rows v \<and> qw_social v' = qw_social v \<and> aside r v v'"
proof (cases "current_trade e (mr_user_id r) r v")
  case None
  then show ?thesis by (simp add: retireQuote_def)
next
  case (Some c)
  show ?thesis
  proof (cases "tw_state c = T_QUOTED \<or> tw_state c = T_PREPARING")
    case True
    have "find (\<lambda>x. tw_user_id x = mr_user_id r \<and> tw_idempotency_key x = trade_key r) (jm_values (tl_rows (qw_trades v))) = Some c"
      using Some by (simp add: current_trade_def trade_find_def split: if_splits)
    then have g: "jm_get (tl_rows (qw_trades v)) (tw_id c) = Some c" using find_in_ledger[OF assms(2)] by blast
    have ok: "trade_row_ok c" using trades_ok_row[OF assms(2) g] by blast
    let ?n = "trade_patched (to_trade_state T_FAILED) (money_now e) c"
    have env: "raced (trade_env_in e v) (qw_trades v) = qw_trades v" "te_allows (trade_env_in e v) = (\<lambda>_ _. True)" "te_now (trade_env_in e v) = money_now e"
      using assms(1) by (simp_all add: undisturbed_def raced_def trade_env_in_def trade_run_def)
    have u: "trade_update (\<lambda>_ _. True) (money_now e) (tw_id c) (tw_state c) (to_trade_state T_FAILED) (tl_rows (qw_trades v)) =
        (Inr (Some ?n), jm_set (tw_id c) ?n (tl_rows (qw_trades v)))"
      using g by (simp add: trade_update_def Let_def)
    have sig: "tw_signature c = None" using ok True
      by (cases "tw_signature c") (auto simp: trade_row_ok_def)
    have "filter settled_or_sent (jm_values (jm_set (tw_id c) ?n (tl_rows (qw_trades v)))) = filter settled_or_sent (jm_values (tl_rows (qw_trades v)))"
      by (rule filter_values_set[OF g]) (use True sig in \<open>auto simp: settled_or_sent_def reached_wallet_def patch_defs\<close>)
    then show ?thesis using Some True env u by (auto simp: retireQuote_def Let_def aside_def quiet_def)
  qed (use Some in \<open>simp add: retireQuote_def\<close>)
qed

section \<open>One call swept\<close>

text \<open>Why a call may still wait after a pass.\<close>

definition excused :: "money_env \<Rightarrow> money_row \<Rightarrow> money_world \<Rightarrow> bool" where
  "excused e r w \<longleftrightarrow> map_option tw_state (latest_trade e r w) \<noteq> Some T_FILLED \<and> (going r w \<or> sweep_reason e r w = None)"

definition swept :: "money_env \<Rightarrow> string \<Rightarrow> money_world \<Rightarrow> bool" where
  "swept e k w \<longleftrightarrow> (case jm_get (qw_rows w) k of None \<Rightarrow> True | Some r \<Rightarrow> mr_state r \<noteq> Pending_money \<or> excused e r w)"

lemma aside_excused: "aside r v v' \<Longrightarrow> excused e q v' = excused e q v"
  by (simp add: excused_def aside_latest aside_going aside_reason)

lemma aside_swept: "aside r v v' \<Longrightarrow> k \<noteq> mr_call_id r \<Longrightarrow> swept e k v' = swept e k v"
  using aside_excused[of r v v' e] by (auto simp: swept_def aside_def split: option.splits)

lemma newest_in: "newest rs = Some t \<Longrightarrow> t \<in> set rs"
proof -
  assume "newest rs = Some t"
  then obtain ys where "sort_by (\<lambda>a b. tw_created_at b - tw_created_at a) rs = t # ys" by (auto simp: newest_def split: list.splits)
  then have "t \<in> set (sort_by (\<lambda>a b. tw_created_at b - tw_created_at a) rs)" by simp
  then show "t \<in> set rs" by simp
qed

lemma latest_in_call:
  assumes "latest_trade e r v = Some t"
  shows "t \<in> set (call_trades (mr_user_id r) (mr_call_id r) (qw_trades v)) \<and> reached_wallet t"
proof -
  let ?f = "filter (\<lambda>x. tw_user_id x = mr_user_id r \<and> tw_call_id x = mr_call_id r \<and> reached_wallet x) (jm_values (tl_rows (qw_trades v)))"
  have "newest ?f = Some t" using assms by (simp add: latest_trade_def latestForCall_def split: if_splits)
  then have "t \<in> set ?f" by (rule newest_in)
  then show ?thesis by (auto simp: call_trades_def)
qed

lemma funded_now:
  assumes "jm_get (qw_rows v) (mr_call_id r) = Some r" "mr_state r = Pending_money" "latest_trade e r v = Some t" "tw_state t = T_FILLED"
  shows "\<exists>q. jm_get (qw_rows (snd (markFunded e r v))) (mr_call_id r) = Some q \<and> mr_state q = Funded_money"
proof -
  let ?p = "ends_as Funded_money Ended_filled"
  let ?q = "money_patched ?p (money_now e) r"
  have f: "list_ex (\<lambda>q. tw_state q = T_FILLED) (call_trades (mr_user_id r) (mr_call_id r) (qw_trades v))"
    using latest_in_call[OF assms(3)] assms(4) by (auto simp: list_ex_iff)
  have q: "mr_state ?q = Funded_money" "mr_ended_reason ?q = Some Ended_filled" "mr_attempts ?q = mr_attempts r"
    by (simp_all add: money_patched_def ends_as_def no_patch_def given_def)
  have c: "update_checks ?p (money_now e) r = None" using assms(2) q
    by (simp add: update_checks_def Let_def money_transition_def)
  have g: "update_guards (ledger_guards v) r ?q = None" using assms(2) q f
    by (simp add: update_guards_def ledger_guards_def asked_def reason_ok_def)
  have "patch_row e r Pending_money ?p v = (Inr (Some ?q), v\<lparr>qw_rows := jm_set (mr_call_id r) ?q (qw_rows v)\<rparr>)"
    using assms(1,2) c g by (simp add: patch_row_def on_ledger_def money_update_def Let_def)
  then have "snd (markFunded e r v) = snd (publish_rest e r ?q (put_index ?q (v\<lparr>qw_rows := jm_set (mr_call_id r) ?q (qw_rows v)\<rparr>)))"
    using assms(2) by (simp add: markFunded_eq and_next_def Let_def)
  then show ?thesis using conjunct2[OF publish_rest] q(1) by simp
qed

lemma ended_now:
  assumes "jm_get (qw_rows v) (mr_call_id r) = Some r" "mr_state r = Pending_money" "\<not> going r v"
    "reason \<in> {Ended_discarded, Ended_expired, Ended_market_closed, Ended_not_created}"
  shows "\<exists>q. jm_get (qw_rows (snd (end_call e r reason v))) (mr_call_id r) = Some q \<and> mr_state q = Expired_money"
proof -
  let ?p = "ends_as Expired_money reason"
  let ?q = "money_patched ?p (money_now e) r"
  have q: "mr_state ?q = Expired_money" "mr_ended_reason ?q = Some reason" "mr_attempts ?q = mr_attempts r"
    by (simp_all add: money_patched_def ends_as_def no_patch_def given_def)
  have c: "update_checks ?p (money_now e) r = None" using assms(2) q
    by (simp add: update_checks_def Let_def money_transition_def)
  have g: "update_guards (ledger_guards v) r ?q = None" using assms(2-4) q
    by (auto simp: update_guards_def ledger_guards_def asked_def reason_ok_def going_def)
  have "patch_row e r Pending_money ?p v = (Inr (Some ?q), v\<lparr>qw_rows := jm_set (mr_call_id r) ?q (qw_rows v)\<rparr>)"
    using assms(1,2) c g by (simp add: patch_row_def on_ledger_def money_update_def Let_def)
  then have "snd (end_call e r reason v) = snd (end_rest e r ?q (put_index ?q (v\<lparr>qw_rows := jm_set (mr_call_id r) ?q (qw_rows v)\<rparr>)))"
    by (simp add: end_call_def end_rest_def and_next_def Let_def)
  then show ?thesis using conjunct2[OF end_rest] q(1) by simp
qed

lemma reason_kinds: "sweep_reason e r v = Some reason \<Longrightarrow> reason \<in> {Ended_discarded, Ended_expired, Ended_market_closed, Ended_not_created}"
  by (auto simp: sweep_reason_def split: if_splits)

lemma end_call_going:
  assumes "jm_get (qw_rows v) (mr_call_id r) = Some r" "mr_state r = Pending_money" "going r v"
  shows "jm_get (qw_rows (snd (end_call e r reason v))) (mr_call_id r) = Some r"
proof -
  let ?p = "ends_as Expired_money reason"
  let ?q = "money_patched ?p (money_now e) r"
  have q: "mr_state ?q = Expired_money" "mr_attempts ?q = mr_attempts r"
    by (simp_all add: money_patched_def ends_as_def no_patch_def given_def)
  have c: "update_checks ?p (money_now e) r = None" using assms(2) q
    by (simp add: update_checks_def Let_def money_transition_def)
  have g: "update_guards (ledger_guards v) r ?q = Some In_flight_cannot_expire" using assms(2,3) q
    by (simp add: update_guards_def ledger_guards_def asked_def going_def)
  have "patch_row e r Pending_money ?p v = (Inl (Store_threw In_flight_cannot_expire), v)"
    using assms(1,2) c g by (simp add: patch_row_def on_ledger_def money_update_def Let_def)
  then show ?thesis using assms(1) by (simp add: end_call_def and_next_def)
qed

lemma sweep_pending_one:
  assumes e: "undisturbed e" and inv: "money_inv v" and r: "jm_get (qw_rows v) (mr_call_id r) = Some r" "mr_state r = Pending_money"
  shows "aside r v (snd (sweep_pending e r (rep, v))) \<and> swept e (mr_call_id r) (snd (sweep_pending e r (rep, v)))"
proof -
  have ok: "trades_ok (qw_trades v)" using inv unfolding money_inv_def by blast
  have funded: "snd (sweep_pending e r (rep, v)) = snd (markFunded e r v)" if "map_option tw_state (latest_trade e r v) = Some T_FILLED"
    using that by (cases "latest_trade e r v"; cases "markFunded e r v") (auto simp: sweep_pending_def split: sum.splits)
  have waits: "snd (sweep_pending e r (rep, v)) = v"
    if "map_option tw_state (latest_trade e r v) = Some T_SUBMITTED \<or>
        sweep_reason e r v = None \<and> map_option tw_state (latest_trade e r v) \<noteq> Some T_FILLED"
    using that by (cases "latest_trade e r v"; cases "tw_state (the (latest_trade e r v))") (auto simp: sweep_pending_def)
  have ends: "snd (sweep_pending e r (rep, v)) = snd (and_next (retireQuote e r v) (\<lambda>_ w. end_call e r reason w))"
    if "map_option tw_state (latest_trade e r v) \<noteq> Some T_FILLED" "map_option tw_state (latest_trade e r v) \<noteq> Some T_SUBMITTED"
      "sweep_reason e r v = Some reason" for reason
    using that by (cases "latest_trade e r v"; cases "tw_state (the (latest_trade e r v))";
        cases "and_next (retireQuote e r v) (\<lambda>_ w. end_call e r reason w)") (auto simp: sweep_pending_def split: sum.splits)
  consider (filled) t where "latest_trade e r v = Some t" "tw_state t = T_FILLED"
    | (sent) t where "latest_trade e r v = Some t" "tw_state t = T_SUBMITTED"
    | (waiting) "map_option tw_state (latest_trade e r v) \<noteq> Some T_FILLED" "map_option tw_state (latest_trade e r v) \<noteq> Some T_SUBMITTED"
      "sweep_reason e r v = None"
    | (over) reason where "map_option tw_state (latest_trade e r v) \<noteq> Some T_FILLED" "map_option tw_state (latest_trade e r v) \<noteq> Some T_SUBMITTED"
      "sweep_reason e r v = Some reason"
    by (cases "latest_trade e r v"; cases "sweep_reason e r v") auto
  then show ?thesis
  proof cases
    case filled
    then show ?thesis using funded aside_markFunded funded_now[OF r filled] by (auto simp: swept_def)
  next
    case sent
    have "going r v" using latest_in_call[OF sent(1)] sent(2) by (auto simp: going_def list_ex_iff)
    then show ?thesis using waits sent r by (simp add: swept_def excused_def)
  next
    case waiting
    then show ?thesis using waits r by (simp add: swept_def excused_def)
  next
    case over
    obtain v' where v': "retireQuote e r v = (Inr (), v')" "qw_rows v' = qw_rows v" "aside r v v'"
      using retireQuote_quiet[OF e ok] by blast
    have w: "snd (sweep_pending e r (rep, v)) = snd (end_call e r reason v')"
      using ends[OF over] v'(1) by (simp add: and_next_def)
    have a: "aside r v (snd (end_call e r reason v'))" by (rule aside_trans[OF v'(3) aside_end_call])
    have r': "jm_get (qw_rows v') (mr_call_id r) = Some r" using r(1) v'(2) by simp
    have "swept e (mr_call_id r) (snd (end_call e r reason v'))"
    proof (cases "going r v'")
      case True
      have "going r (snd (end_call e r reason v'))" using True aside_going[OF aside_end_call] by blast
      then show ?thesis using end_call_going[OF r' r(2) True] over(1) aside_latest[OF a]
        by (simp add: swept_def excused_def)
    next
      case False
      then show ?thesis using ended_now[OF r' r(2) False reason_kinds[OF over(3)], of e] by (auto simp: swept_def)
    qed
    then show ?thesis using w a by simp
  qed
qed

section \<open>A whole pass\<close>

lemma pending_index:
  assumes "money_inv w" "jm_wf (qw_index w)"
  shows "r \<in> set (index_pending (qw_index w)) \<longleftrightarrow> jm_get (qw_rows w) (mr_call_id r) = Some r \<and> mr_state r = Pending_money"
proof
  assume "r \<in> set (index_pending (qw_index w))"
  then obtain k where "(k, r) \<in> set (qw_index w)" "mr_state r = Pending_money" by (auto simp: index_pending_def)
  then show "jm_get (qw_rows w) (mr_call_id r) = Some r \<and> mr_state r = Pending_money"
    using index_row[OF assms(1)] jm_get_in[OF assms(2)] by blast
next
  assume r: "jm_get (qw_rows w) (mr_call_id r) = Some r \<and> mr_state r = Pending_money"
  then have "jm_get (qw_index w) (mr_call_id r) = Some r" using assms(1) unfolding money_inv_def index_agrees_def by auto
  then show "r \<in> set (index_pending (qw_index w))" using r by (auto simp: index_pending_def dest!: jm_get_mem intro: rev_image_eqI)
qed

lemma pending_index_distinct:
  assumes "money_inv w" "jm_wf (qw_index w)" shows "distinct (map mr_call_id (index_pending (qw_index w)))"
proof -
  have k: "mr_call_id r = k" if "(k, r) \<in> set (qw_index w)" for k r
    using index_row[OF assms(1) jm_get_in[OF assms(2) that]] by blast
  have "distinct (map mr_call_id (jm_values m))" if "jm_wf m" "\<And>k r. (k, r) \<in> set m \<Longrightarrow> mr_call_id r = k" for m
  proof -
    have "map (\<lambda>kv. mr_call_id (snd kv)) m = map fst m" using that(2) by (intro map_cong) auto
    then have "map mr_call_id (jm_values m) = map fst m" unfolding map_map comp_def .
    then show ?thesis using that(1) by (simp only:)
  qed
  then have "distinct (map mr_call_id (jm_values (qw_index w)))" using assms(2) k by blast
  then show ?thesis unfolding index_pending_def by (rule distinct_map_filter)
qed

lemma sweep_fold:
  assumes "undisturbed e" "money_inv v" "distinct (map mr_call_id rs)"
    "\<And>r. r \<in> set rs \<Longrightarrow> jm_get (qw_rows v) (mr_call_id r) = Some r \<and> mr_state r = Pending_money"
  shows "(\<forall>r \<in> set rs. swept e (mr_call_id r) (snd (fold (sweep_pending e) rs (rep, v)))) \<and>
    (\<forall>k. k \<notin> mr_call_id ` set rs \<longrightarrow> swept e k (snd (fold (sweep_pending e) rs (rep, v))) = swept e k v)"
  using assms(2-4)
proof (induction rs arbitrary: rep v)
  case (Cons r rs)
  have r: "jm_get (qw_rows v) (mr_call_id r) = Some r" "mr_state r = Pending_money" using Cons.prems(3)[of r] by auto
  obtain rep' v' where x: "sweep_pending e r (rep, v) = (rep', v')" by (cases "sweep_pending e r (rep, v)")
  have one: "aside r v v'" "swept e (mr_call_id r) v'" using sweep_pending_one[OF assms(1) Cons.prems(1) r, of rep] x by simp_all
  have inv: "money_inv v'"
    using money_inv_moves[OF moves_sweep_pending[OF Cons.prems(1), of "(rep, v)" r e] Cons.prems(1)] r(1) x by (auto simp: known_def)
  have rows: "jm_get (qw_rows v') (mr_call_id q) = Some q \<and> mr_state q = Pending_money" if "q \<in> set rs" for q
  proof -
    have "mr_call_id q \<noteq> mr_call_id r" using Cons.prems(2) that by (auto intro: rev_image_eqI)
    then show ?thesis using one(1) Cons.prems(3)[of q] that by (simp add: aside_def)
  qed
  have "distinct (map mr_call_id rs)" "mr_call_id r \<notin> mr_call_id ` set rs" using Cons.prems(2) by auto
  then show ?case using Cons.IH[OF inv _ rows, of rep'] x one aside_swept[OF one(1)] by auto
qed simp

section \<open>A concrete ledger\<close>

text \<open>One call prepared and quoted at time 100.\<close>

definition sample_prepared :: prepared_order where
  "sample_prepared = \<lparr>po_orderId = ''o'', po_expiresAt = 200, po_messageHash = ''h'', po_payload = ''x'', po_lastValidBlockHeight = 9, po_review = []\<rparr>"

definition sample_trade_env :: "string \<Rightarrow> trade_env" where
  "sample_trade_env i = \<lparr>te_now = 100, te_max = 10000000, te_newId = i, te_fingerprint = ti_amountBaseUnits,
     te_wallets = (\<lambda>_ _. Some W_active), te_callIntent = (\<lambda>_ _. None),
     te_market = (\<lambda>_. Inr (sample_market\<lparr>vm_venue := V_panta\<rparr>, None)), te_buildBuy = (\<lambda>_. Inr sample_prepared),
     te_validate = (\<lambda>_ _ _. Some ''sig''), te_broadcast = (\<lambda>_. None), te_submitOrder = (\<lambda>_ _. None),
     te_verify = (\<lambda>_ _ _. Inl bad_request), te_failed = (\<lambda>_. Inr False), te_neverLanded = (\<lambda>_ _. Inr False),
     te_allows = (\<lambda>_ _. True), te_race = []\<rparr>"

definition sample_money_env :: "int \<Rightarrow> money_env" where
  "sample_money_env now = \<lparr>qe_calls = sample_calls_env\<lparr>ce_now := now\<rparr>, qe_trade = sample_trade_env ''t'',
     qe_publicMarket = (\<lambda>_. Some (sample_market\<lparr>vm_venue := V_panta\<rparr>)), qe_trading = (\<lambda>_. None), qe_hasLedger = True,
     qe_balances = Some (\<lambda>_. Some (9000000, 5)), qe_gas = (\<lambda>_ _ _. \<lparr>ga_needsSol = False, ga_topUp = None\<rparr>),
     qe_maxBaseUnits = Some 10000000, qe_chumbucketWallet = (\<lambda>_. False), qe_tradable = (\<lambda>_. True), qe_flushes = True,
     qe_newCallId = ''c'', qe_newResponseId = ''r'', qe_fingerprint = pc_idempotencyKey\<rparr>"

definition sample_payer :: deposit_person where
  "sample_payer = \<lparr>dp_userId = ''ann'', dp_wallets = [\<lparr>dw_address = ''w'', dw_walletType = ''mwa'', dw_primary = True, dw_session = True\<rparr>]\<rparr>"

definition sample_tap :: prepare_call_input where
  "sample_tap = \<lparr>pc_call = Own_input ''m'' YES, pc_amountBaseUnits = ''1000000'', pc_idempotencyKey = ''k'', pc_wallet = None,
     pc_confidence = None, pc_thesis = None, pc_visibility = Public, pc_maxSlippageBps = 100\<rparr>"

definition sample_requests :: "(money_env \<times> money_request) list" where
  "sample_requests = [(sample_money_env 100, Calls_request (Directory_op (sample_person ''ann''))),
     (sample_money_env 100, Prepare_call sample_payer sample_tap)]"

text \<open>What lets a pending call wait, said without the sweeper's own reasons: a buy of it was sent or
  filled; or the call exists, is in its window, and its market is read, accepts new calls and has no
  resolution; or the call does not exist yet and its approval is younger than the grace of
  two minutes.\<close>

definition may_wait :: "money_env \<Rightarrow> money_row \<Rightarrow> money_world \<Rightarrow> bool" where
  "may_wait e r w \<longleftrightarrow> going r w \<or>
     (case getCall (mr_call_id r) (so_store (qw_social w)) of
        None \<Rightarrow> money_now e - mr_created_at r \<le> 120000
      | Some _ \<Rightarrow> money_now e < mr_expires_at r \<and>
          (case rd_getMarket (ce_reader (qe_calls e)) (mr_market_id r) of
             None \<Rightarrow> False
           | Some m \<Rightarrow> acceptsNewCalls m (money_now e) (cutoff (qe_calls e)) \<and>
               rd_getResolution (ce_reader (qe_calls e)) (vm_id m) = None))"

lemma excused_may_wait: "excused e r w \<Longrightarrow> may_wait e r w"
  by (auto simp: excused_def may_wait_def sweep_reason_def takesCalls_def calls_env_in_def money_now_def
      NOT_CREATED_GRACE_MS_def cutoff_def split: if_splits option.splits)

text \<open>C24: No call is left waiting. After any history, a pass of the sweeper that no other request
  disturbs and whose writes the database's guard lets through leaves a call waiting only when a
  buy of it was sent or filled, or the call is still in its window on a market that takes
  calls, or the call has not appeared yet and its grace of two minutes is not over; none waits
  whose latest approval filled.\<close>

theorem sweep_leaves_none_waiting:
  assumes "te_race (qe_trade e) = []" "te_allows (qe_trade e) = (\<lambda>_ _. True)"
  shows "case snd (sweep e (money_run_requests reqs empty_money)) of w \<Rightarrow>
    list_all (\<lambda>r. map_option tw_state (latest_trade e r w) \<noteq> Some T_FILLED \<and> may_wait e r w)
      (index_pending (qw_index w))"
proof -
  define v where "v = money_run_requests reqs empty_money"
  have inv: "money_inv v" "jm_wf (qw_index v)" using money_run_inv[of empty_money reqs] by (simp_all add: v_def)
  define x where "x = fold (sweep_closed e) (index_closed (qw_index v) (money_now e - CLOSED_REPAIR_MS)) (\<lparr>sw_funded = 0, sw_expired = 0, sw_errors = []\<rparr>, v)"
  have k: "known r v" if "r \<in> set (index_closed (qw_index v) t)" for r t
    using index_known[OF inv(1) _ inv(2)] that by (auto simp: index_closed_def)
  have m: "money_moves v (snd x)" unfolding x_def
    by (rule moves_fold[OF inv(1)]) (use k moves_sweep_closed[OF inv(1)] in auto)
  have inv2: "money_inv (snd x)" "jm_wf (qw_index (snd x))" using money_inv_moves[OF m inv(1)] moves_wf_index[OF m inv(2)] .
  let ?w = "snd (fold (sweep_pending e) (index_pending (qw_index (snd x))) x)"
  have w: "snd (sweep e v) = ?w" by (simp add: sweep_def Let_def x_def)
  have m2: "money_moves v ?w" using moves_sweep[OF inv, of e] w by simp
  have inv3: "money_inv ?w" "jm_wf (qw_index ?w)" using money_inv_moves[OF m2 inv(1)] moves_wf_index[OF m2 inv(2)] .
  have und: "undisturbed e" using assms by (simp add: undisturbed_def)
  have f: "(\<forall>r \<in> set (index_pending (qw_index (snd x))). swept e (mr_call_id r) ?w) \<and>
      (\<forall>k. k \<notin> mr_call_id ` set (index_pending (qw_index (snd x))) \<longrightarrow> swept e k ?w = swept e k (snd x))"
    using sweep_fold[OF und inv2(1) pending_index_distinct[OF inv2], of "fst x"] pending_index[OF inv2] by simp
  have "excused e r ?w" if "r \<in> set (index_pending (qw_index ?w))" for r
  proof -
    have r: "jm_get (qw_rows ?w) (mr_call_id r) = Some r" "mr_state r = Pending_money" using pending_index[OF inv3] that by blast+
    have "swept e (mr_call_id r) ?w"
    proof (cases "mr_call_id r \<in> mr_call_id ` set (index_pending (qw_index (snd x)))")
      case True
      then show ?thesis using f by auto
    next
      case False
      have "swept e (mr_call_id r) (snd x)"
      proof (cases "jm_get (qw_rows (snd x)) (mr_call_id r)")
        case (Some q)
        then have "mr_call_id q = mr_call_id r" using money_inv_row[OF inv2(1)] by blast
        moreover have "q \<notin> set (index_pending (qw_index (snd x)))" using False calculation by (metis image_eqI)
        ultimately show ?thesis using Some pending_index[OF inv2, of q] by (simp add: swept_def)
      qed (simp add: swept_def)
      then show ?thesis using f False by blast
    qed
    then show ?thesis using r by (simp add: swept_def)
  qed
  then show ?thesis unfolding v_def[symmetric] w using excused_may_wait[of e _ ?w]
    by (auto simp: list_all_iff excused_def)
qed

theorem sweep_leaves_none_waiting_witness:
  "map mr_state (index_pending (qw_index (money_run_requests sample_requests empty_money))) = [Pending_money] \<and>
   map mr_state (jm_values (qw_rows (snd (sweep (sample_money_env 70000) (money_run_requests sample_requests empty_money))))) = [Expired_money] \<and>
   (case snd (sweep (sample_money_env 70000) (money_run_requests sample_requests empty_money)) of w \<Rightarrow>
    list_all (\<lambda>r. map_option tw_state (latest_trade (sample_money_env 70000) r w) \<noteq> Some T_FILLED \<and>
      may_wait (sample_money_env 70000) r w) (index_pending (qw_index w)))"
proof -
  have a: "map mr_state (index_pending (qw_index (money_run_requests sample_requests empty_money))) = [Pending_money]" by code_simp
  have b: "map mr_state (jm_values (qw_rows (snd (sweep (sample_money_env 70000) (money_run_requests sample_requests empty_money))))) = [Expired_money]"
    by code_simp
  show ?thesis
    by (intro conjI a b sweep_leaves_none_waiting) (simp_all add: sample_money_env_def sample_trade_env_def)
qed

section \<open>Signed only while the call waits for it\<close>

text \<open>The sample call's quote, submitted at time 110 with a given signature.\<close>

definition sample_world :: money_world where
  "sample_world = money_run_requests sample_requests empty_money"

definition sample_quote :: "(trade_row \<times> prepared_order) option" where
  "sample_quote = own_trade ''ann'' ''o'' (tl_rows (qw_trades sample_world))"

definition call_readable :: "money_env \<Rightarrow> string \<Rightarrow> string \<Rightarrow> money_world \<Rightarrow> bool" where
  "call_readable e u k w \<longleftrightarrow>
     (case getCall k (so_store (qw_social w)) of
        None \<Rightarrow> False
      | Some c \<Rightarrow> ca_userId c = u \<and>
          (case qe_publicMarket e (ca_marketId c) of None \<Rightarrow> False | Some m \<Rightarrow> vm_venue m = V_panta))"

lemma call_readable_iff: "call_readable e u k w \<longleftrightarrow> te_callIntent (trade_env_in e w) u k \<noteq> None"
  by (auto simp: call_readable_def trade_env_in_def callIntent_def Let_def split: option.splits)

text \<open>C25: A money call's quote is signed only while the call waits for it. After any history, when a
  request to submit, with no other request moving the trades while it runs, takes a money
  call's quote from quoted to submitted, the quote has not expired and the wallet is one the
  account may use; and if the call can be read (it exists, it is the owner's, and its market is
  readable as a public market of the venue) the money call is pending, the quote carries the
  key of its current attempt, and its window is open. A call that cannot be read is not
  checked at all: then only the database's guard stands (\<open>unreadable_call_signs\<close>).\<close>

theorem signed_in_window:
  assumes "w = money_run_requests reqs empty_money"
    and "own_trade u orderId (tl_rows (qw_trades w)) = Some (t, p)" "tw_state t = T_QUOTED" "te_race (qe_trade e) = []"
    and "jm_get (qw_rows w) (tw_call_id t) = Some r"
    and "map_option tw_state (jm_get (tl_rows (snd (trade_submit (trade_env_in e w) u orderId payload signIn (qw_trades w)))) (tw_id t)) = Some T_SUBMITTED"
  shows "(if call_readable e u (tw_call_id t) w
      then mr_state r = Pending_money \<and> tw_idempotency_key t = trade_key r \<and> money_now e < mr_expires_at r
      else True) \<and>
    money_now e < po_expiresAt p \<and>
    (te_wallets (qe_trade e) u (tw_wallet_address t) = Some W_active \<or>
     te_wallets (qe_trade e) u (tw_wallet_address t) = Some W_none \<and> signIn = Some (tw_wallet_address t))"
proof -
  let ?te = "trade_env_in e w"
  have inv: "money_inv w" using money_run_inv[of empty_money reqs] assms(1) by simp
  then have ok: "trades_ok (qw_trades w)" unfolding money_inv_def by blast
  have g: "jm_get (tl_rows (qw_trades w)) (tw_id t) = Some t" using own_in_ledger[OF ok assms(2)] by blast
  have sub: "trade_submit ?te u orderId payload signIn (qw_trades w) =
      (case assertOwnWallet ?te u (tw_wallet_address t) signIn of
         Some x \<Rightarrow> (Inl x, qw_trades w)
       | None \<Rightarrow> (case te_validate ?te payload (tw_wallet_address t) p of
            None \<Rightarrow> (Inl bad_request, qw_trades w)
          | Some sig \<Rightarrow> if tw_signature t \<noteq> None \<and> other_approval t payload sig then (Inl bad_request, qw_trades w)
              else save_approval ?te u orderId payload sig t p (qw_trades w)))"
    using assms(2,3) by (auto simp: trade_submit_def split: option.splits)
  have moved: "snd (trade_submit ?te u orderId payload signIn (qw_trades w)) \<noteq> qw_trades w"
    using assms(3,6) g by auto
  have wal: "assertOwnWallet ?te u (tw_wallet_address t) signIn = None"
    using moved by (cases "assertOwnWallet ?te u (tw_wallet_address t) signIn") (simp_all add: sub)
  obtain sig where sig: "snd (save_approval ?te u orderId payload sig t p (qw_trades w)) \<noteq> qw_trades w"
    using moved wal by (auto simp: sub split: option.splits if_splits)
  have exp: "money_now e < po_expiresAt p"
    and mon: "\<not> moneyCallRefused (te_callIntent ?te u (tw_call_id t)) (tw_idempotency_key t) (money_now e)"
    using sig by (auto simp: save_approval_def trade_env_in_def split: if_splits)
  have key: "trade_key r \<noteq> []" by (simp add: trade_key_def)
  have "mr_state r = Pending_money \<and> tw_idempotency_key t = trade_key r \<and> money_now e < mr_expires_at r"
    if "call_readable e u (tw_call_id t) w"
  proof -
    obtain c where c: "te_callIntent ?te u (tw_call_id t) = Some c" using \<open>call_readable e u (tw_call_id t) w\<close>
      by (auto simp: call_readable_iff)
    have "cn_moneyState c = Some (mr_state r) \<and> cn_moneyTradeKey c = Some (trade_key r) \<and> cn_moneyExpiresAt c = Some (mr_expires_at r)"
      using c assms(5) by (auto simp: trade_env_in_def callIntent_def Let_def split: option.splits if_splits)
    then show ?thesis using mon c key by (auto simp: moneyCallRefused_def)
  qed
  moreover have "te_wallets (qe_trade e) u (tw_wallet_address t) = Some W_active \<or>
     te_wallets (qe_trade e) u (tw_wallet_address t) = Some W_none \<and> signIn = Some (tw_wallet_address t)"
    using wal by (auto simp: assertOwnWallet_def trade_env_in_def split: option.splits wallet_status.splits if_splits)
  ultimately show ?thesis using exp by simp
qed

theorem signed_in_window_witness:
  "case (the sample_quote, the (jm_get (qw_rows sample_world) ''c'')) of ((t, p), r) \<Rightarrow>
     tw_state t = T_QUOTED \<and> call_readable (sample_money_env 110) ''ann'' ''c'' sample_world \<and>
     map_option tw_state (jm_get (tl_rows (snd (trade_submit (trade_env_in (sample_money_env 110) sample_world) ''ann'' ''o'' ''x'' None (qw_trades sample_world)))) (tw_id t)) = Some T_SUBMITTED \<and>
     mr_state r = Pending_money \<and> tw_idempotency_key t = trade_key r \<and> 110 < mr_expires_at r \<and> 110 < po_expiresAt p"
proof -
  let ?w = "sample_world" and ?e = "sample_money_env 110"
  have q: "sample_quote \<noteq> None" by code_simp
  obtain t p where tp: "sample_quote = Some (t, p)" using q by auto
  have r: "jm_get (qw_rows ?w) ''c'' \<noteq> None" and rd: "call_readable ?e ''ann'' ''c'' ?w" by code_simp+
  have t: "map_option (\<lambda>(t, p). tw_state t = T_QUOTED \<and> tw_call_id t = ''c'' \<and>
      map_option tw_state (jm_get (tl_rows (snd (trade_submit (trade_env_in ?e ?w) ''ann'' ''o'' ''x'' None (qw_trades ?w)))) (tw_id t)) = Some T_SUBMITTED)
     sample_quote = Some True" by code_simp
  have n: "money_now ?e = 110" by code_simp
  have race: "te_race (qe_trade ?e) = []" by (simp add: sample_money_env_def sample_trade_env_def)
  obtain r where r: "jm_get (qw_rows ?w) ''c'' = Some r" using r by auto
  have f: "tw_state t = T_QUOTED" "tw_call_id t = ''c''"
    "map_option tw_state (jm_get (tl_rows (snd (trade_submit (trade_env_in ?e ?w) ''ann'' ''o'' ''x'' None (qw_trades ?w)))) (tw_id t)) = Some T_SUBMITTED"
    using t unfolding tp by simp_all
  have own: "own_trade ''ann'' ''o'' (tl_rows (qw_trades ?w)) = Some (t, p)" using tp by (simp only: sample_quote_def)
  have "mr_state r = Pending_money \<and> tw_idempotency_key t = trade_key r \<and> 110 < mr_expires_at r \<and> 110 < po_expiresAt p"
    using signed_in_window[OF sample_world_def own f(1) race _ f(3), of r] f(2) r rd n by simp
  then show ?thesis using f(1,3) rd unfolding tp r option.sel prod.case by blast
qed

text \<open>A call that ended while its quote stood (its retiring can miss a quote that is being prepared at
  that moment), submitted while the market can and cannot be read as public: only the second is signed.\<close>

definition ended_world :: money_world where
  "ended_world = (case jm_get (qw_rows sample_world) ''c'' of None \<Rightarrow> sample_world
     | Some r \<Rightarrow> snd (end_call (sample_money_env 105) r Ended_market_closed sample_world))"

lemma unreadable_call_signs:
  "let submit = \<lambda>e. map tw_state (jm_values (tl_rows (snd (trade_submit (trade_env_in e ended_world) ''ann'' ''o'' ''x'' None
      (qw_trades ended_world)))))
   in map mr_state (jm_values (qw_rows ended_world)) = [Expired_money] \<and>
    submit (sample_money_env 110) = [T_QUOTED] \<and>
    submit ((sample_money_env 110)\<lparr>qe_publicMarket := (\<lambda>_. None)\<rparr>) = [T_SUBMITTED]"
  by code_simp

end
