(* ===== verification/PantaChain.thy ===== *)
theory PantaChain
  imports PantaTrading "HOL-Library.Word"
begin

text \<open>
  What is read from and sent to the Solana chain (\<open>prediction/PantaChain.ts\<close>) and what a wallet app may
  add to a reviewed transaction before it signs (\<open>prediction/walletAmendment.ts\<close>). Parsing, hashing,
  signature verification and base encodings belong to libraries and are arguments; the RPC's answers
  are arguments too, one set per moment at which they are read.
\<close>

section \<open>Bytes\<close>

text \<open>The loop that reads a little-endian number, with its shifts.\<close>

definition readLe :: "8 word list \<Rightarrow> nat \<Rightarrow> nat \<Rightarrow> int" where
  "readLe data offset n = fold (\<lambda>i value. or (push_bit 8 value) (uint (data ! (offset + i)))) (rev [0..<n]) 0"

primrec le_value :: "8 word list \<Rightarrow> int" where
  "le_value [] = 0"
| "le_value (b # bs) = uint b + 256 * le_value bs"

primrec le_bytes :: "nat \<Rightarrow> int \<Rightarrow> 8 word list" where
  "le_bytes 0 v = []"
| "le_bytes (Suc n) v = word_of_int v # le_bytes n (v div 256)"

lemma shift_or: "or (push_bit 8 v) (uint (b :: 8 word)) = uint b + 256 * v"
proof -
  have "and (push_bit 8 v) (uint b) = 0"
  proof (rule bit_eqI)
    fix n
    show "bit (and (push_bit 8 v) (uint b)) n = bit 0 n"
      using bit_uint_iff[of b n] by (auto simp: bit_and_iff bit_push_bit_iff)
  qed
  then have "push_bit 8 v + uint b = or (push_bit 8 v) (uint b)" by (rule disjunctive_add_eq_or)
  then show ?thesis by (simp add: push_bit_eq_mult)
qed

lemma readLe_value: "offset + n \<le> length data \<Longrightarrow> readLe data offset n = le_value (take n (drop offset data))"
proof (induction n arbitrary: offset)
  case (Suc n)
  have up: "rev [0..<Suc n] = map Suc (rev [0..<n]) @ [0]" by (simp add: rev_map[symmetric] map_Suc_upt upt_rec[of 0 "Suc n"] del: upt_Suc)
  have "readLe data offset (Suc n) = or (push_bit 8 (readLe data (Suc offset) n)) (uint (data ! offset))"
    unfolding readLe_def up by (simp add: fold_map comp_def)
  moreover have "drop offset data = data ! offset # drop (Suc offset) data" using Suc.prems by (simp add: Cons_nth_drop_Suc)
  ultimately show ?case using Suc.IH[of "Suc offset"] Suc.prems by (simp add: shift_or)
qed (simp add: readLe_def)

lemma length_le_bytes [simp]: "length (le_bytes n v) = n"
  by (induction n arbitrary: v) simp_all

lemma le_value_bounds: "0 \<le> le_value bs \<and> le_value bs < 256 ^ length bs"
proof (induction bs)
  case (Cons b bs)
  have "0 \<le> uint b" "uint b < 256" using uint_bounded[of b] by simp_all
  then show ?case using Cons.IH by simp
qed simp

lemma readLe_nonneg: "offset + n \<le> length data \<Longrightarrow> 0 \<le> readLe data offset n"
  using le_value_bounds by (simp add: readLe_value)

text \<open>The bytes of a number are the only ones that read as it.\<close>

lemma le_bytes_value: "le_bytes (length bs) (le_value bs) = bs"
proof (induction bs)
  case (Cons b bs)
  have u: "0 \<le> uint b" "uint b < 256" using uint_bounded[of b] by simp_all
  have d: "(uint b + 256 * le_value bs) div 256 = le_value bs" using u by simp
  have "word_of_int (uint b + 256 * le_value bs) = b"
  proof -
    have "word_of_int (256 * le_value bs) = (0 :: 8 word)"
      by (rule iffD2[OF word_of_int_eq_0_iff]) simp
    then show ?thesis by (simp add: wi_hom_add[symmetric])
  qed
  then show ?case using Cons.IH d by simp
qed simp

lemma le_value_bytes: "0 \<le> v \<Longrightarrow> v < 256 ^ n \<Longrightarrow> le_value (le_bytes n v) = v"
proof (induction n arbitrary: v)
  case (Suc n)
  have "le_value (le_bytes n (v div 256)) = v div 256" using Suc by (intro Suc.IH) (auto simp: div_less_iff_less_mult)
  moreover have "uint (word_of_int v :: 8 word) = v mod 256" by (simp add: uint_word_of_int)
  ultimately show ?case by simp
qed simp

section \<open>Transactions\<close>

datatype tx_version = Legacy_tx | V0_tx

record compiled_instruction =
  ci_programIdIndex :: nat
  ci_accountKeyIndexes :: "nat list"
  ci_data :: "8 word list"

record tx_message =
  tm_version :: tx_version
  tm_addressTableLookups :: nat
  tm_recentBlockhash :: string
  tm_numRequiredSignatures :: nat
  tm_numReadonlySignedAccounts :: nat
  tm_staticAccountKeys :: "string list"
  tm_compiledInstructions :: "compiled_instruction list"

record signed_tx =
  sx_signatures :: "8 word list list"
  sx_message :: tx_message

record account_meta =
  am_pubkey :: string
  am_isSigner :: bool
  am_isWritable :: bool

record tx_instruction =
  xi_programId :: string
  xi_keys :: "account_meta list"
  xi_data :: "8 word list"

text \<open>The libraries: base64 both ways, parsing, the digest of a message, decompiling, Ed25519,
  base58, the programs' ids, and the address of a wallet's USDC account.\<close>

record solana =
  sl_fromBase64 :: "string \<Rightarrow> 8 word list"
  sl_toBase64 :: "8 word list \<Rightarrow> string"
  sl_deserialize :: "8 word list \<Rightarrow> signed_tx option"
  sl_hash :: "tx_message \<Rightarrow> string"
  sl_decompile :: "tx_message \<Rightarrow> tx_instruction list option"
  sl_verify :: "tx_message \<Rightarrow> string \<Rightarrow> 8 word list \<Rightarrow> bool"
  sl_base58 :: "8 word list \<Rightarrow> string"
  sl_computeBudget :: string
  sl_tokenProgram :: string
  sl_associatedTokenProgram :: string
  sl_systemProgram :: string
  sl_usdcAccount :: "string \<Rightarrow> string"

definition first_key :: "tx_message \<Rightarrow> string option" where
  "first_key m = (case tm_staticAccountKeys m of [] \<Rightarrow> None | k # _ \<Rightarrow> Some k)"

section \<open>What a wallet may add\<close>

definition LIGHTHOUSE_PROGRAM :: string where
  "LIGHTHOUSE_PROGRAM = ''L2TExMFKdjpN9kozasaurPirfHy9P8sbXoAN1qA3S95''"

definition MAX_COMPUTE_UNITS :: int where
  "MAX_COMPUTE_UNITS = 1400000"

definition DEFAULT_UNITS_PER_INSTRUCTION :: int where
  "DEFAULT_UNITS_PER_INSTRUCTION = 200000"

definition MAX_WALLET_PRIORITY_FEE_LAMPORTS :: int where
  "MAX_WALLET_PRIORITY_FEE_LAMPORTS = 1000000"

definition MAX_LIGHTHOUSE_INSTRUCTIONS :: nat where
  "MAX_LIGHTHOUSE_INSTRUCTIONS = 4"

definition isWalletAddition :: "solana \<Rightarrow> tx_instruction \<Rightarrow> bool" where
  "isWalletAddition sl ix \<longleftrightarrow> xi_programId ix = sl_computeBudget sl \<or> xi_programId ix = LIGHTHOUSE_PROGRAM"

definition sameInstruction :: "tx_instruction \<Rightarrow> tx_instruction \<Rightarrow> bool" where
  "sameInstruction a b \<longleftrightarrow> xi_programId a = xi_programId b \<and> xi_data a = xi_data b \<and> length (xi_keys a) = length (xi_keys b) \<and>
     list_all2 (\<lambda>k q. am_pubkey k = am_pubkey q \<and> am_isSigner k = am_isSigner q \<and> am_isWritable k = am_isWritable q) (xi_keys a) (xi_keys b)"

datatype amendment_refusal = Version_changed | Lookup_tables | Blockhash_changed | Signers_changed | Payer_changed
  | Instructions_changed | Budget_with_accounts | Units_out_of_range | Bad_budget | Not_an_assertion | Too_many_accounts
  | Too_many_assertions | Fee_above_ceiling | Unreadable

definition assertion_tag :: "8 word list \<Rightarrow> bool" where
  "assertion_tag data \<longleftrightarrow> (case data of [] \<Rightarrow> False | t # _ \<Rightarrow> 2 \<le> uint t \<and> uint t \<le> 17)"

text \<open>The walk over the signed instructions: the unit limit, the unit price and the assertions so far.\<close>

fun additions :: "solana \<Rightarrow> tx_instruction list \<Rightarrow> int option \<Rightarrow> int option \<Rightarrow> nat \<Rightarrow> amendment_refusal + int option \<times> int option" where
  "additions sl [] units price lighthouse = Inr (units, price)"
| "additions sl (ix # ixs) units price lighthouse =
     (if xi_programId ix = sl_computeBudget sl
      then
        if xi_keys ix \<noteq> [] then Inl Budget_with_accounts
        else if take 1 (xi_data ix) = [2] \<and> length (xi_data ix) = 5 \<and> units = None
        then (let u = readLe (xi_data ix) 1 4
              in if u \<le> 0 \<or> MAX_COMPUTE_UNITS < u then Inl Units_out_of_range else additions sl ixs (Some u) price lighthouse)
        else if take 1 (xi_data ix) = [3] \<and> length (xi_data ix) = 9 \<and> price = None
        then additions sl ixs units (Some (readLe (xi_data ix) 1 8)) lighthouse
        else Inl Bad_budget
      else if xi_programId ix = LIGHTHOUSE_PROGRAM
      then
        if \<not> assertion_tag (xi_data ix) then Inl Not_an_assertion
        else if 2 < length (xi_keys ix) then Inl Too_many_accounts
        else if MAX_LIGHTHOUSE_INSTRUCTIONS < lighthouse + 1 then Inl Too_many_assertions
        else additions sl ixs units price (lighthouse + 1)
      else additions sl ixs units price lighthouse)"

definition wallet_fee :: "solana \<Rightarrow> tx_instruction list \<Rightarrow> int option \<Rightarrow> int \<Rightarrow> int" where
  "wallet_fee sl after units price =
     (let nonBudget = length (filter (\<lambda>ix. xi_programId ix \<noteq> sl_computeBudget sl) after);
          limit = (case units of Some u \<Rightarrow> u | None \<Rightarrow> min MAX_COMPUTE_UNITS (DEFAULT_UNITS_PER_INSTRUCTION * int nonBudget))
      in (limit * price + 999999) div 1000000)"

definition amendment_body :: "solana \<Rightarrow> tx_instruction list \<Rightarrow> tx_instruction list \<Rightarrow> amendment_refusal option" where
  "amendment_body sl before after =
     (let kept = filter (\<lambda>ix. \<not> isWalletAddition sl ix) after; core = filter (\<lambda>ix. \<not> isWalletAddition sl ix) before
      in if length kept \<noteq> length core \<or> \<not> list_all2 sameInstruction kept core then Some Instructions_changed
         else (case additions sl after None None 0 of
                 Inl x \<Rightarrow> Some x
               | Inr (units, price) \<Rightarrow>
                   (case price of
                      None \<Rightarrow> None
                    | Some p \<Rightarrow> if 0 < p \<and> MAX_WALLET_PRIORITY_FEE_LAMPORTS < wallet_fee sl after units p then Some Fee_above_ceiling else None)))"

definition walletAmendmentRefusal :: "solana \<Rightarrow> tx_message \<Rightarrow> tx_message \<Rightarrow> amendment_refusal option" where
  "walletAmendmentRefusal sl reviewed amended =
     (if tm_version reviewed \<noteq> tm_version amended then Some Version_changed
      else if tm_addressTableLookups reviewed \<noteq> 0 \<or> tm_addressTableLookups amended \<noteq> 0 then Some Lookup_tables
      else if tm_recentBlockhash reviewed \<noteq> tm_recentBlockhash amended then Some Blockhash_changed
      else if tm_numRequiredSignatures reviewed \<noteq> 1 \<or> tm_numRequiredSignatures amended \<noteq> 1 then Some Signers_changed
      else if first_key reviewed = None \<or> first_key amended \<noteq> first_key reviewed then Some Payer_changed
      else (case (sl_decompile sl reviewed, sl_decompile sl amended) of
              (Some before, Some after) \<Rightarrow> amendment_body sl before after
            | _ \<Rightarrow> Some Unreadable))"

section \<open>Approvals\<close>

record signed_approval =
  sg_bytes :: "8 word list"
  sg_signature :: string
  sg_messageHash :: string

definition signedMessageHash :: "solana \<Rightarrow> string \<Rightarrow> string option" where
  "signedMessageHash sl payload = map_option (\<lambda>tx. sl_hash sl (sx_message tx)) (sl_deserialize sl (sl_fromBase64 sl payload))"

text \<open>The reviewed message, or the wallet's amendment of it when the reviewed bytes are given.\<close>

definition message_accepted :: "solana \<Rightarrow> tx_message \<Rightarrow> string \<Rightarrow> string option \<Rightarrow> bool" where
  "message_accepted sl m messageHash reviewedPayload \<longleftrightarrow>
     (if sl_hash sl m = messageHash then True
      else (case reviewedPayload of
              None \<Rightarrow> False
            | Some p \<Rightarrow>
                (case sl_deserialize sl (sl_fromBase64 sl p) of
                   None \<Rightarrow> False
                 | Some reviewed \<Rightarrow> sl_hash sl (sx_message reviewed) = messageHash \<and>
                     walletAmendmentRefusal sl (sx_message reviewed) m = None)))"

definition validateSignedPantaTransaction :: "solana \<Rightarrow> string \<Rightarrow> string \<Rightarrow> string \<Rightarrow> string option \<Rightarrow> signed_approval option" where
  "validateSignedPantaTransaction sl payload owner messageHash reviewedPayload =
     (let bytes = sl_fromBase64 sl payload
      in if sl_toBase64 sl bytes \<noteq> payload \<or> 1232 < length bytes then None
         else (case sl_deserialize sl bytes of
            None \<Rightarrow> None
          | Some tx \<Rightarrow>
              if tm_numRequiredSignatures (sx_message tx) \<noteq> 1 \<or> length (sx_signatures tx) \<noteq> 1 \<or> first_key (sx_message tx) \<noteq> Some owner then None
              else if \<not> message_accepted sl (sx_message tx) messageHash reviewedPayload then None
              else if \<not> sl_verify sl (sx_message tx) owner (hd (sx_signatures tx)) then None
              else Some \<lparr>sg_bytes = bytes, sg_signature = sl_base58 sl (hd (sx_signatures tx)), sg_messageHash = sl_hash sl (sx_message tx)\<rparr>))"

section \<open>The chain as the RPC shows it\<close>

record token_balance =
  tb_owner :: "string option"
  tb_mint :: string
  tb_amount :: string
  tb_decimals :: int

record tx_meta =
  xm_err :: bool
  xm_preTokenBalances :: "token_balance list option"
  xm_postTokenBalances :: "token_balance list option"

record tx_result =
  xr_meta :: "tx_meta option"
  xr_signature :: "string option"
  xr_message :: tx_message
  xr_slot :: int

datatype confirmation = Processed_level | Confirmed_level | Finalized_level

record signature_status =
  ss_err :: bool
  ss_confirmationStatus :: "confirmation option"

datatype account_owner = System_owner | Token_owner | Other_owner

record account_info =
  ai_executable :: bool
  ai_owner :: account_owner

text \<open>
  One moment of the RPC. The outer option of an answer is a read that failed; a transaction or account
  that does not exist is \<open>Some None\<close>; \<open>rp_mainnet\<close> is the check of the genesis hash.
\<close>

record rpc =
  rp_mainnet :: bool
  rp_transaction :: "string \<Rightarrow> tx_result option option"
  rp_statuses :: "string \<Rightarrow> signature_status option list option"
  rp_blockHeight :: "int option"
  rp_blockhashValid :: "string \<Rightarrow> bool option"
  rp_send :: "8 word list \<Rightarrow> string option"
  rp_account :: "string \<Rightarrow> account_info option option"

definition MAINNET_USDC_MINT :: string where
  "MAINNET_USDC_MINT = ''EPjFWdd5AufqSSqeM2qN1xzybapC8G4wEGGkZwyTDt1v''"

definition misconfigured :: thrown where
  "misconfigured = Venue_error VENUE_MISCONFIGURED None"

definition digits_text :: "string \<Rightarrow> bool" where
  "digits_text s \<longleftrightarrow> s \<noteq> [] \<and> list_all is_digit_char s"

text \<open>An owner's USDC in a list of balances; it throws on a balance of the mint that is not six-decimal digits.\<close>

fun usdc_total :: "string \<Rightarrow> token_balance list \<Rightarrow> int option" where
  "usdc_total owner [] = Some 0"
| "usdc_total owner (b # bs) =
     (if tb_owner b \<noteq> Some owner \<or> tb_mint b \<noteq> MAINNET_USDC_MINT then usdc_total owner bs
      else if tb_decimals b \<noteq> 6 \<or> \<not> digits_text (tb_amount b) then None
      else map_option ((+) (amount_of (tb_amount b))) (usdc_total owner bs))"

definition confirmsUsdcDeposit :: "tx_meta \<Rightarrow> string \<Rightarrow> string \<Rightarrow> bool" where
  "confirmsUsdcDeposit meta owner expected \<longleftrightarrow>
     digits_text expected \<and> hd expected \<noteq> CHR ''0'' \<and>
     (case (xm_preTokenBalances meta, xm_postTokenBalances meta) of
        (Some pre, Some post) \<Rightarrow>
          (case (usdc_total owner pre, usdc_total owner post) of
             (Some a, Some b) \<Rightarrow> a - b = amount_of expected
           | _ \<Rightarrow> False)
      | _ \<Rightarrow> False)"

definition assertMainnet :: "rpc \<Rightarrow> thrown option" where
  "assertMainnet r = (if rp_mainnet r then None else Some misconfigured)"

definition chain_broadcast :: "rpc \<Rightarrow> signed_approval \<Rightarrow> thrown option" where
  "chain_broadcast r tx =
     (case assertMainnet r of
        Some x \<Rightarrow> Some x
      | None \<Rightarrow> if rp_send r (sg_bytes tx) = Some (sg_signature tx) then None else Some (Venue_error VENUE_UNAVAILABLE None))"

record verify_input =
  vi_signature :: string
  vi_owner :: string
  vi_market :: string
  vi_programId :: string
  vi_amountBaseUnits :: string
  vi_feeBaseUnits :: "string option"
  vi_messageHash :: string

definition fee_text :: "string \<Rightarrow> bool" where
  "fee_text s \<longleftrightarrow> digits_text s \<and> hd s \<noteq> CHR ''0'' \<and> length s \<le> 20"

definition debits :: "verify_input \<Rightarrow> string list option" where
  "debits i =
     (case vi_feeBaseUnits i of
        None \<Rightarrow> Some [vi_amountBaseUnits i]
      | Some f \<Rightarrow>
          if \<not> fee_text f then Some [vi_amountBaseUnits i]
          else (case parse_int (vi_amountBaseUnits i) of
                  None \<Rightarrow> None
                | Some a \<Rightarrow> Some [vi_amountBaseUnits i, int_str (a + amount_of f)]))"

definition calls_program :: "string \<Rightarrow> tx_message \<Rightarrow> bool" where
  "calls_program p m \<longleftrightarrow> list_ex (\<lambda>ix. ci_programIdIndex ix < length (tm_staticAccountKeys m) \<and>
     tm_staticAccountKeys m ! ci_programIdIndex ix = p) (tm_compiledInstructions m)"

definition verifyTransaction :: "solana \<Rightarrow> rpc \<Rightarrow> verify_input \<Rightarrow> thrown + bool" where
  "verifyTransaction sl r i =
     (case assertMainnet r of
        Some x \<Rightarrow> Inl x
      | None \<Rightarrow> Inr
          (case rp_transaction r (vi_signature i) of
             Some (Some x) \<Rightarrow>
               (case xr_meta x of
                  None \<Rightarrow> False
                | Some meta \<Rightarrow>
                    \<not> xm_err meta \<and> xr_signature x = Some (vi_signature i) \<and>
                    tm_numRequiredSignatures (xr_message x) = 1 \<and> first_key (xr_message x) = Some (vi_owner i) \<and>
                    sl_hash sl (xr_message x) = vi_messageHash i \<and>
                    (case debits i of None \<Rightarrow> False | Some ds \<Rightarrow> list_ex (confirmsUsdcDeposit meta (vi_owner i)) ds) \<and>
                    vi_market i \<in> set (tm_staticAccountKeys (xr_message x)) \<and> calls_program (vi_programId i) (xr_message x))
           | _ \<Rightarrow> False))"

definition chain_failed :: "rpc \<Rightarrow> string \<Rightarrow> thrown + bool" where
  "chain_failed r signature =
     (case assertMainnet r of
        Some x \<Rightarrow> Inl x
      | None \<Rightarrow> Inr
          (case rp_statuses r signature of
             Some (Some s # _) \<Rightarrow> ss_err s \<and> ss_confirmationStatus s \<in> {Some Confirmed_level, Some Finalized_level}
           | _ \<Rightarrow> False))"

text \<open>The three reads are three moments, in this order: the height, the blockhash, the signature.\<close>

definition chain_neverLanded :: "rpc \<Rightarrow> rpc \<Rightarrow> rpc \<Rightarrow> string \<Rightarrow> int \<Rightarrow> string \<Rightarrow> thrown + bool" where
  "chain_neverLanded r1 r2 r3 signature lastValidBlockHeight recentBlockhash =
     (case assertMainnet r1 of
        Some x \<Rightarrow> Inl x
      | None \<Rightarrow> Inr
          (case rp_blockHeight r1 of
             None \<Rightarrow> False
           | Some h \<Rightarrow>
               if h \<le> lastValidBlockHeight then False
               else if rp_blockhashValid r2 recentBlockhash \<noteq> Some False then False
               else (case rp_statuses r3 signature of Some [None] \<Rightarrow> True | _ \<Rightarrow> False)))"

section \<open>What an accepted amendment is\<close>

text \<open>The values asked for by Compute Budget instructions of one kind.\<close>

definition asked_values :: "solana \<Rightarrow> 8 word \<Rightarrow> nat \<Rightarrow> tx_instruction list \<Rightarrow> int list" where
  "asked_values sl tag n ixs = map (\<lambda>ix. readLe (xi_data ix) 1 n)
     (filter (\<lambda>ix. xi_programId ix = sl_computeBudget sl \<and> take 1 (xi_data ix) = [tag] \<and> length (xi_data ix) = Suc n) ixs)"

definition unit_limits :: "solana \<Rightarrow> tx_instruction list \<Rightarrow> int list" where
  "unit_limits sl = asked_values sl 2 4"

definition unit_prices :: "solana \<Rightarrow> tx_instruction list \<Rightarrow> int list" where
  "unit_prices sl = asked_values sl 3 8"

definition priority_fee :: "solana \<Rightarrow> tx_instruction list \<Rightarrow> int" where
  "priority_fee sl ixs =
     (case unit_prices sl ixs of
        [] \<Rightarrow> 0
      | p # _ \<Rightarrow> wallet_fee sl ixs (case unit_limits sl ixs of [] \<Rightarrow> None | u # _ \<Rightarrow> Some u) p)"

definition budget_ok :: "tx_instruction \<Rightarrow> bool" where
  "budget_ok ix \<longleftrightarrow> xi_keys ix = [] \<and>
     (take 1 (xi_data ix) = [2] \<and> length (xi_data ix) = 5 \<or> take 1 (xi_data ix) = [3] \<and> length (xi_data ix) = 9)"

definition assertion_ok :: "tx_instruction \<Rightarrow> bool" where
  "assertion_ok ix \<longleftrightarrow> assertion_tag (xi_data ix) \<and> length (xi_keys ix) \<le> 2"

definition is_budget :: "solana \<Rightarrow> tx_instruction \<Rightarrow> bool" where
  "is_budget sl ix \<longleftrightarrow> xi_programId ix = sl_computeBudget sl"

definition is_lighthouse :: "solana \<Rightarrow> tx_instruction \<Rightarrow> bool" where
  "is_lighthouse sl ix \<longleftrightarrow> xi_programId ix \<noteq> sl_computeBudget sl \<and> xi_programId ix = LIGHTHOUSE_PROGRAM"

definition option_list :: "'a option \<Rightarrow> 'a list" where
  "option_list x = (case x of None \<Rightarrow> [] | Some a \<Rightarrow> [a])"

lemma option_list_simps [simp]: "option_list None = []" "option_list (Some a) = [a]"
  by (simp_all add: option_list_def)

lemma additions_spec:
  "additions sl ixs units price n = Inr (u, p) \<Longrightarrow> n \<le> MAX_LIGHTHOUSE_INSTRUCTIONS \<Longrightarrow>
   list_all budget_ok (filter (is_budget sl) ixs) \<and> list_all assertion_ok (filter (is_lighthouse sl) ixs) \<and>
   n + length (filter (is_lighthouse sl) ixs) \<le> MAX_LIGHTHOUSE_INSTRUCTIONS \<and>
   option_list units @ unit_limits sl ixs = option_list u \<and> option_list price @ unit_prices sl ixs = option_list p"
proof (induction sl ixs units price n rule: additions.induct)
  case (1 sl units price n)
  then show ?case by (simp add: unit_limits_def unit_prices_def asked_values_def)
next
  case (2 sl ix ixs units price n)
  note defs = budget_ok_def assertion_ok_def is_budget_def is_lighthouse_def unit_limits_def unit_prices_def asked_values_def
  consider (limit) "xi_programId ix = sl_computeBudget sl" "xi_keys ix = []" "take 1 (xi_data ix) = [2]" "length (xi_data ix) = 5" "units = None"
      "\<not> (readLe (xi_data ix) 1 4 \<le> 0 \<or> MAX_COMPUTE_UNITS < readLe (xi_data ix) 1 4)"
      "additions sl ixs (Some (readLe (xi_data ix) 1 4)) price n = Inr (u, p)"
    | (price) "xi_programId ix = sl_computeBudget sl" "xi_keys ix = []" "take 1 (xi_data ix) = [3]" "length (xi_data ix) = 9" "price = None"
      "additions sl ixs units (Some (readLe (xi_data ix) 1 8)) n = Inr (u, p)"
    | (assertion) "xi_programId ix \<noteq> sl_computeBudget sl" "xi_programId ix = LIGHTHOUSE_PROGRAM" "assertion_tag (xi_data ix)" "length (xi_keys ix) \<le> 2"
      "n + 1 \<le> MAX_LIGHTHOUSE_INSTRUCTIONS" "additions sl ixs units price (n + 1) = Inr (u, p)"
    | (other) "xi_programId ix \<noteq> sl_computeBudget sl" "xi_programId ix \<noteq> LIGHTHOUSE_PROGRAM" "additions sl ixs units price n = Inr (u, p)"
    using 2(5) by (auto simp: Let_def not_less split: if_splits)
  then show ?case
  proof cases
    case limit
    then show ?thesis using 2(1)[OF limit(1) _ _ refl] 2(6) by (auto simp: defs)
  next
    case price
    then show ?thesis using 2(2)[OF price(1)] 2(6) by (auto simp: defs)
  next
    case assertion
    then show ?thesis using 2(3)[OF assertion(1,2)] by (auto simp: defs)
  next
    case other
    then show ?thesis using 2(4)[OF other(1,2)] 2(6) by (auto simp: defs)
  qed
qed

lemma sameInstruction_eq: "sameInstruction a b \<longleftrightarrow> a = b"
proof
  assume "sameInstruction a b"
  then have "list_all2 (=) (xi_keys a) (xi_keys b)" "xi_programId a = xi_programId b" "xi_data a = xi_data b"
    unfolding sameInstruction_def by (auto elim!: list_all2_mono)
  then show "a = b" by (simp add: list.rel_eq)
qed (simp add: sameInstruction_def list_all2_same)

text \<open>What an approved message still is: the reviewed instructions, by the reviewed payer, with assertions and a bounded fee added.\<close>

definition amended_from :: "solana \<Rightarrow> tx_message \<Rightarrow> tx_message \<Rightarrow> bool" where
  "amended_from sl reviewed m \<longleftrightarrow>
     tm_version m = tm_version reviewed \<and> tm_addressTableLookups m = 0 \<and> tm_recentBlockhash m = tm_recentBlockhash reviewed \<and>
     tm_numRequiredSignatures m = 1 \<and> first_key m = first_key reviewed \<and>
     (case (sl_decompile sl reviewed, sl_decompile sl m) of
        (Some before, Some after) \<Rightarrow>
          filter (\<lambda>ix. \<not> isWalletAddition sl ix) after = filter (\<lambda>ix. \<not> isWalletAddition sl ix) before \<and>
          list_all budget_ok (filter (is_budget sl) after) \<and> length (unit_limits sl after) \<le> 1 \<and> length (unit_prices sl after) \<le> 1 \<and>
          list_all assertion_ok (filter (is_lighthouse sl) after) \<and> length (filter (is_lighthouse sl) after) \<le> 4 \<and>
          priority_fee sl after \<le> MAX_WALLET_PRIORITY_FEE_LAMPORTS
      | _ \<Rightarrow> False)"

lemma unit_prices_nonneg: "x \<in> set (unit_prices sl ixs) \<Longrightarrow> 0 \<le> x"
  by (auto simp: unit_prices_def asked_values_def readLe_nonneg)

lemma amendment_accepted:
  assumes "walletAmendmentRefusal sl reviewed m = None" shows "amended_from sl reviewed m"
proof -
  obtain before after where d: "sl_decompile sl reviewed = Some before" "sl_decompile sl m = Some after"
    and body: "amendment_body sl before after = None"
    using assms by (auto simp: walletAmendmentRefusal_def split: if_splits option.splits)
  obtain u p where a: "additions sl after None None 0 = Inr (u, p)"
    and same: "list_all2 sameInstruction (filter (\<lambda>ix. \<not> isWalletAddition sl ix) after) (filter (\<lambda>ix. \<not> isWalletAddition sl ix) before)"
    and fee: "\<And>x. p = Some x \<Longrightarrow> 0 < x \<Longrightarrow> wallet_fee sl after u x \<le> MAX_WALLET_PRIORITY_FEE_LAMPORTS"
    using body by (auto simp: amendment_body_def Let_def split: if_splits sum.splits option.splits)
  have eq: "filter (\<lambda>ix. \<not> isWalletAddition sl ix) after = filter (\<lambda>ix. \<not> isWalletAddition sl ix) before"
    using same by (simp add: sameInstruction_eq[abs_def] list.rel_eq)
  have spec: "list_all budget_ok (filter (is_budget sl) after)" "list_all assertion_ok (filter (is_lighthouse sl) after)"
    "length (filter (is_lighthouse sl) after) \<le> 4" "unit_limits sl after = option_list u" "unit_prices sl after = option_list p"
    using additions_spec[OF a] by (simp_all add: MAX_LIGHTHOUSE_INSTRUCTIONS_def)
  have "priority_fee sl after \<le> MAX_WALLET_PRIORITY_FEE_LAMPORTS"
  proof (cases p)
    case (Some x)
    have f: "priority_fee sl after = wallet_fee sl after u x" using spec(4,5) Some by (cases u) (simp_all add: priority_fee_def)
    show ?thesis
    proof (cases "0 < x")
      case False
      have "x = 0" using False unit_prices_nonneg[of x sl after] spec(5) Some by simp
      then show ?thesis using f by (simp add: wallet_fee_def MAX_WALLET_PRIORITY_FEE_LAMPORTS_def)
    qed (use fee Some f in simp)
  qed (use spec(5) in \<open>simp add: priority_fee_def MAX_WALLET_PRIORITY_FEE_LAMPORTS_def\<close>)
  moreover have "length (option_list x) \<le> 1" for x :: "int option" by (cases x) simp_all
  moreover have "tm_version m = tm_version reviewed \<and> tm_addressTableLookups m = 0 \<and> tm_recentBlockhash m = tm_recentBlockhash reviewed \<and>
     tm_numRequiredSignatures m = 1 \<and> first_key m = first_key reviewed"
    using assms by (auto simp: walletAmendmentRefusal_def split: if_splits)
  ultimately show ?thesis using spec eq d by (simp add: amended_from_def)
qed

lemma validated:
  assumes "validateSignedPantaTransaction sl payload owner h reviewed = Some a"
  obtains tx where "sl_deserialize sl (sl_fromBase64 sl payload) = Some tx" "first_key (sx_message tx) = Some owner"
    "tm_numRequiredSignatures (sx_message tx) = 1" "sg_messageHash a = sl_hash sl (sx_message tx)" "sg_bytes a = sl_fromBase64 sl payload"
    "length (sx_signatures tx) = 1" "sl_verify sl (sx_message tx) owner (hd (sx_signatures tx))"
    "sg_signature a = sl_base58 sl (hd (sx_signatures tx))" "message_accepted sl (sx_message tx) h reviewed" "length (sg_bytes a) \<le> 1232"
  using assms that by (auto simp: validateSignedPantaTransaction_def Let_def split: if_splits option.splits)

text \<open>C29: An approval is the owner's, over what was reviewed. A signed payload the check accepts parses to a
  transaction with one signature, by the owner who pays for it, over either the reviewed message itself
  or, where the reviewed bytes are given, a message with exactly the reviewed instructions, blockhash and
  payer, to which only one unit limit, one unit price with a fee of at most 0.001 SOL and at most four
  Lighthouse assertions were added.\<close>

theorem approval_keeps_intent:
  assumes "validateSignedPantaTransaction sl payload owner h reviewedPayload = Some a"
  shows "\<exists>tx. sl_deserialize sl (sl_fromBase64 sl payload) = Some tx \<and> length (sx_signatures tx) = 1 \<and>
    first_key (sx_message tx) = Some owner \<and> tm_numRequiredSignatures (sx_message tx) = 1 \<and>
    sl_verify sl (sx_message tx) owner (hd (sx_signatures tx)) \<and> sg_signature a = sl_base58 sl (hd (sx_signatures tx)) \<and>
    sg_messageHash a = sl_hash sl (sx_message tx) \<and>
    (sl_hash sl (sx_message tx) = h \<or>
     (\<exists>p reviewed. reviewedPayload = Some p \<and> sl_deserialize sl (sl_fromBase64 sl p) = Some reviewed \<and>
        sl_hash sl (sx_message reviewed) = h \<and> amended_from sl (sx_message reviewed) (sx_message tx)))"
proof -
  obtain tx where tx: "sl_deserialize sl (sl_fromBase64 sl payload) = Some tx" "first_key (sx_message tx) = Some owner"
    "tm_numRequiredSignatures (sx_message tx) = 1" "sg_messageHash a = sl_hash sl (sx_message tx)"
    "length (sx_signatures tx) = 1" "sl_verify sl (sx_message tx) owner (hd (sx_signatures tx))"
    "sg_signature a = sl_base58 sl (hd (sx_signatures tx))" "message_accepted sl (sx_message tx) h reviewedPayload"
    by (rule validated[OF assms])
  have "sl_hash sl (sx_message tx) = h \<or>
     (\<exists>p reviewed. reviewedPayload = Some p \<and> sl_deserialize sl (sl_fromBase64 sl p) = Some reviewed \<and>
        sl_hash sl (sx_message reviewed) = h \<and> amended_from sl (sx_message reviewed) (sx_message tx))"
    using tx(8) amendment_accepted by (auto simp: message_accepted_def split: if_splits option.splits)
  then show ?thesis using tx by blast
qed

text \<open>A wallet that puts a unit price in front of the one reviewed instruction.\<close>

definition sample_transfer_ix :: tx_instruction where
  "sample_transfer_ix = \<lparr>xi_programId = ''token'', xi_keys = [\<lparr>am_pubkey = ''ann'', am_isSigner = True, am_isWritable = True\<rparr>], xi_data = [12]\<rparr>"

definition sample_price_ix :: tx_instruction where
  "sample_price_ix = \<lparr>xi_programId = ''budget'', xi_keys = [], xi_data = [3, 16, 39, 0, 0, 0, 0, 0, 0]\<rparr>"

definition sample_message :: "bool \<Rightarrow> tx_message" where
  "sample_message amended = \<lparr>tm_version = V0_tx, tm_addressTableLookups = 0, tm_recentBlockhash = ''b'', tm_numRequiredSignatures = 1,
     tm_numReadonlySignedAccounts = 0, tm_staticAccountKeys = [''ann'', ''token'', ''budget''],
     tm_compiledInstructions = (if amended then [\<lparr>ci_programIdIndex = 2, ci_accountKeyIndexes = [], ci_data = [3, 16, 39, 0, 0, 0, 0, 0, 0]\<rparr>] else []) @
       [\<lparr>ci_programIdIndex = 1, ci_accountKeyIndexes = [0], ci_data = [12]\<rparr>]\<rparr>"

definition sample_solana :: solana where
  "sample_solana = \<lparr>sl_fromBase64 = map (\<lambda>c. of_nat (of_char c)), sl_toBase64 = map (\<lambda>b. char_of (unat b)),
     sl_deserialize = (\<lambda>bs. Some \<lparr>sx_signatures = [[7]], sx_message = sample_message (length bs = 1)\<rparr>),
     sl_hash = (\<lambda>m. if length (tm_compiledInstructions m) = 1 then ''h'' else ''g''),
     sl_decompile = (\<lambda>m. Some (if length (tm_compiledInstructions m) = 1 then [sample_transfer_ix] else [sample_price_ix, sample_transfer_ix])),
     sl_verify = (\<lambda>m owner sig. owner = ''ann'' \<and> sig = [7]), sl_base58 = (\<lambda>bs. ''s''), sl_computeBudget = ''budget'', sl_tokenProgram = ''token'',
     sl_associatedTokenProgram = ''ata'', sl_systemProgram = ''system'', sl_usdcAccount = (\<lambda>w. w @ ''.usdc'')\<rparr>"

theorem approval_keeps_intent_witness:
  "validateSignedPantaTransaction sample_solana ''x'' ''ann'' ''h'' None = None \<and>
   (\<exists>tx p reviewed. sl_deserialize sample_solana (sl_fromBase64 sample_solana ''x'') = Some tx \<and> sl_hash sample_solana (sx_message tx) = ''g'' \<and>
      p = ''yy'' \<and> sl_deserialize sample_solana (sl_fromBase64 sample_solana p) = Some reviewed \<and>
      amended_from sample_solana (sx_message reviewed) (sx_message tx))"
proof -
  have n: "validateSignedPantaTransaction sample_solana ''x'' ''ann'' ''h'' None = None" by code_simp
  have "map_option sg_signature (validateSignedPantaTransaction sample_solana ''x'' ''ann'' ''h'' (Some ''yy'')) = Some ''s''" by code_simp
  then obtain a where a: "validateSignedPantaTransaction sample_solana ''x'' ''ann'' ''h'' (Some ''yy'') = Some a" by auto
  have g: "map_option (\<lambda>tx. sl_hash sample_solana (sx_message tx)) (sl_deserialize sample_solana (sl_fromBase64 sample_solana ''x'')) = Some ''g''" by code_simp
  show ?thesis using approval_keeps_intent[OF a] n g by fastforce
qed

section \<open>When an approval can no longer land\<close>

text \<open>
  What the code relies on, of a chain read over time: a transaction that has landed is found by its
  signature from then on, and once its blockhash is no longer accepted it does not land any more.
\<close>

definition lands_visibly :: "(nat \<Rightarrow> rpc) \<Rightarrow> (nat \<Rightarrow> bool) \<Rightarrow> string \<Rightarrow> bool" where
  "lands_visibly chain lands signature \<longleftrightarrow> (\<forall>t u. lands t \<longrightarrow> t \<le> u \<longrightarrow> rp_statuses (chain u) signature \<noteq> Some [None])"

definition lands_in_life :: "(nat \<Rightarrow> rpc) \<Rightarrow> (nat \<Rightarrow> bool) \<Rightarrow> string \<Rightarrow> bool" where
  "lands_in_life chain lands blockhash \<longleftrightarrow> (\<forall>t u. rp_blockhashValid (chain t) blockhash = Some False \<longrightarrow> t \<le> u \<longrightarrow> \<not> lands u)"

lemma never_landed_then:
  assumes "chain_neverLanded (chain t1) (chain t2) (chain t3) signature height blockhash = Inr True" "t2 \<le> t3"
    and "lands_visibly chain lands signature" "lands_in_life chain lands blockhash"
  shows "\<not> lands t"
proof -
  have inv: "rp_blockhashValid (chain t2) blockhash = Some False" and st: "rp_statuses (chain t3) signature = Some [None]"
    using assms(1) by (auto simp: chain_neverLanded_def split: option.splits if_splits list.splits)
  show ?thesis
  proof (cases "t \<le> t3")
    case True
    then show ?thesis using assms(3) st unfolding lands_visibly_def by blast
  next
    case False
    then show ?thesis using assms(2,4) inv unfolding lands_in_life_def by (meson le_trans nat_le_linear)
  qed
qed

text \<open>
  The order of the reads carries the answer. With the signature looked up before the expiry, a
  transaction that lands in between would be called never landed.
\<close>

definition late_landing :: "nat \<Rightarrow> rpc" where
  "late_landing t = \<lparr>rp_mainnet = True, rp_transaction = (\<lambda>_. Some None),
     rp_statuses = (\<lambda>_. if t = 0 then Some [None] else Some [Some \<lparr>ss_err = False, ss_confirmationStatus = Some Confirmed_level\<rparr>]),
     rp_blockHeight = Some (if t \<le> 1 then 5 else 10), rp_blockhashValid = (\<lambda>_. Some (t \<le> 1)), rp_send = (\<lambda>_. None), rp_account = (\<lambda>_. None)\<rparr>"

theorem status_before_expiry_misses:
  "lands_visibly late_landing (\<lambda>t. t = 1) ''s'' \<and> lands_in_life late_landing (\<lambda>t. t = 1) ''b'' \<and>
   chain_neverLanded (late_landing 2) (late_landing 2) (late_landing 0) ''s'' 7 ''b'' = Inr True \<and>
   chain_neverLanded (late_landing 2) (late_landing 2) (late_landing 2) ''s'' 7 ''b'' = Inr False"
  by (simp add: lands_visibly_def lands_in_life_def late_landing_def chain_neverLanded_def assertMainnet_def)

end
