(* ===== verification/MoneyTransfers.thy ===== *)
theory MoneyTransfers
  imports PantaChain MoneyCalls
begin

text \<open>
  USDC transfers a person's own wallet signs (\<open>money/transfers.ts\<close>), with the gas port (\<open>money/gas.ts\<close>,
  \<open>solTopUp/need.ts\<close>): the transaction the server builds and the rules it must pass, what the chain says
  of a landed one, and every operation of the service over the transfer ledger of \<open>MoneyStore\<close>. The
  clock, new ids, balances, the top-up suggestion and the token library are arguments; what other
  requests do to the ledger between a read and a write is a list of moves.
\<close>

section \<open>Gas\<close>

definition PANTA_POSITION_BYTES :: nat where
  "PANTA_POSITION_BYTES = 202"

definition TOKEN_ACCOUNT_BYTES :: nat where
  "TOKEN_ACCOUNT_BYTES = 165"

definition TRADE_FEE_ALLOWANCE_LAMPORTS :: int where
  "TRADE_FEE_ALLOWANCE_LAMPORTS = 10000"

record sol_need =
  sn_perTradeLamports :: int
  sn_floorLamports :: int

definition solNeed :: "(nat \<Rightarrow> int option) \<Rightarrow> sol_need option" where
  "solNeed rent =
     (case (rent 0, rent PANTA_POSITION_BYTES) of
        (Some base, Some position) \<Rightarrow> Some \<lparr>sn_perTradeLamports = position + TRADE_FEE_ALLOWANCE_LAMPORTS, sn_floorLamports = base\<rparr>
      | _ \<Rightarrow> None)"

definition tradesCovered :: "int \<Rightarrow> sol_need \<Rightarrow> int" where
  "tradesCovered lamports need =
     (if lamports \<le> sn_floorLamports need then 0 else big_div (lamports - sn_floorLamports need) (sn_perTradeLamports need))"

datatype transfer_thrown = Transfer_refused money_error_code | Ledger_threw transfer_store_error | Unsafe_transfer | Chain_threw

text \<open>The rent reader, when there is one, and the swap service: its plan can fail or suggest nothing.\<close>

record gas_deps =
  gs_rent :: "(nat \<Rightarrow> int option) option"
  gs_topUp :: "((string \<Rightarrow> string \<Rightarrow> int option option) \<times> int) option"

definition gas_topUp :: "gas_deps \<Rightarrow> string \<Rightarrow> string \<Rightarrow> int option" where
  "gas_topUp g u wal =
     (case gs_topUp g of
        None \<Rightarrow> None
      | Some (plan, target) \<Rightarrow> (case plan u wal of Some (Some suggestion) \<Rightarrow> Some suggestion | _ \<Rightarrow> Some target))"

definition forTrade :: "gas_deps \<Rightarrow> string \<Rightarrow> string \<Rightarrow> int \<Rightarrow> transfer_thrown + gas_answer" where
  "forTrade g u wal lamports =
     (case gs_rent g of
        None \<Rightarrow> Inl (Transfer_refused UNAVAILABLE)
      | Some rent \<Rightarrow>
          (case solNeed rent of
             None \<Rightarrow> Inl Chain_threw
           | Some need \<Rightarrow>
               if 1 \<le> tradesCovered lamports need then Inr \<lparr>ga_needsSol = False, ga_topUp = None\<rparr>
               else Inr \<lparr>ga_needsSol = True, ga_topUp = gas_topUp g u wal\<rparr>))"

definition forTransfer :: "gas_deps \<Rightarrow> string \<Rightarrow> string \<Rightarrow> int \<Rightarrow> int \<Rightarrow> transfer_thrown + gas_answer" where
  "forTransfer g u wal lamports extraLamports =
     (case gs_rent g of
        None \<Rightarrow> Inl (Transfer_refused UNAVAILABLE)
      | Some rent \<Rightarrow>
          (case rent 0 of
             None \<Rightarrow> Inl Chain_threw
           | Some base \<Rightarrow>
               if base + TRADE_FEE_ALLOWANCE_LAMPORTS + extraLamports \<le> lamports then Inr \<lparr>ga_needsSol = False, ga_topUp = None\<rparr>
               else Inr \<lparr>ga_needsSol = True, ga_topUp = gas_topUp g u wal\<rparr>))"

section \<open>The transaction\<close>

definition TRANSFER_COMPUTE_UNITS :: int where
  "TRANSFER_COMPUTE_UNITS = 60000"

definition TRANSFER_COMPUTE_PRICE :: int where
  "TRANSFER_COMPUTE_PRICE = 10000"

definition MAX_TRANSFER_COMPUTE_UNITS :: int where
  "MAX_TRANSFER_COMPUTE_UNITS = 200000"

definition MAX_TRANSFER_COMPUTE_PRICE :: int where
  "MAX_TRANSFER_COMPUTE_PRICE = 1000000"

definition SIGNATURE_FEE_LAMPORTS :: int where
  "SIGNATURE_FEE_LAMPORTS = 5000"

definition TRANSFER_TTL_MS :: int where
  "TRANSFER_TTL_MS = 60000"

definition base58_char :: "char \<Rightarrow> bool" where
  "base58_char c \<longleftrightarrow> (let n = of_char c :: nat in
     49 \<le> n \<and> n \<le> 57 \<or> 65 \<le> n \<and> n \<le> 72 \<or> 74 \<le> n \<and> n \<le> 78 \<or> 80 \<le> n \<and> n \<le> 90 \<or> 97 \<le> n \<and> n \<le> 107 \<or> 109 \<le> n \<and> n \<le> 122)"

datatype address_shape = Bad_address | Wallet_address | Off_curve

text \<open>The key library answers the canonical text of an address and whether it is on the curve.\<close>

definition addressShape :: "(string \<Rightarrow> (string \<times> bool) option) \<Rightarrow> string \<Rightarrow> address_shape" where
  "addressShape key value =
     (if \<not> (32 \<le> length value \<and> length value \<le> 44 \<and> list_all base58_char value) \<or> value = MAINNET_USDC_MINT then Bad_address
      else (case key value of
              None \<Rightarrow> Bad_address
            | Some (canonical, curve) \<Rightarrow> if canonical \<noteq> value then Bad_address else if curve then Wallet_address else Off_curve))"

record transfer_review =
  rv_from :: string
  rv_to :: string
  rv_amountBaseUnits :: string
  rv_createsAccount :: bool

text \<open>The instruction builders, the compiler of messages and the serializer are the token library's.\<close>

record spl =
  sp_setComputeUnitLimit :: "int \<Rightarrow> tx_instruction"
  sp_setComputeUnitPrice :: "int \<Rightarrow> tx_instruction"
  sp_createAccount :: "string \<Rightarrow> string \<Rightarrow> string \<Rightarrow> string \<Rightarrow> tx_instruction"
  sp_transferChecked :: "string \<Rightarrow> string \<Rightarrow> string \<Rightarrow> string \<Rightarrow> int \<Rightarrow> nat \<Rightarrow> tx_instruction"
  sp_compile :: "string \<Rightarrow> string \<Rightarrow> tx_instruction list \<Rightarrow> tx_message"
  sp_serialize :: "signed_tx \<Rightarrow> 8 word list"

definition transfer_message :: "solana \<Rightarrow> spl \<Rightarrow> transfer_review \<Rightarrow> string \<Rightarrow> tx_message" where
  "transfer_message sl sp v recentBlockhash =
     sp_compile sp (rv_from v) recentBlockhash
       ([sp_setComputeUnitLimit sp TRANSFER_COMPUTE_UNITS, sp_setComputeUnitPrice sp TRANSFER_COMPUTE_PRICE] @
        (if rv_createsAccount v then [sp_createAccount sp (rv_from v) (sl_usdcAccount sl (rv_to v)) (rv_to v) MAINNET_USDC_MINT] else []) @
        [sp_transferChecked sp (sl_usdcAccount sl (rv_from v)) MAINNET_USDC_MINT (sl_usdcAccount sl (rv_to v)) (rv_from v)
           (amount_of (rv_amountBaseUnits v)) 6])"

text \<open>A new transaction has an empty signature for each signer.\<close>

definition unsigned_tx :: "tx_message \<Rightarrow> signed_tx" where
  "unsigned_tx m = \<lparr>sx_signatures = replicate (tm_numRequiredSignatures m) (replicate 64 0), sx_message = m\<rparr>"

definition buildUsdcTransfer :: "solana \<Rightarrow> spl \<Rightarrow> transfer_review \<Rightarrow> string \<Rightarrow> string \<times> string" where
  "buildUsdcTransfer sl sp v recentBlockhash =
     (let m = transfer_message sl sp v recentBlockhash
      in (sl_toBase64 sl (sp_serialize sp (unsigned_tx m)), sl_hash sl m))"

definition key_at :: "string list \<Rightarrow> nat \<Rightarrow> string option" where
  "key_at keys i = (if i < length keys then Some (keys ! i) else None)"

text \<open>\<open>join\<close>: a missing key is the empty text.\<close>

fun js_join :: "string list \<Rightarrow> string" where
  "js_join [] = []"
| "js_join [s] = s"
| "js_join (s # t # ss) = s @ CHR '','' # js_join (t # ss)"

definition accounts_text :: "string list \<Rightarrow> compiled_instruction \<Rightarrow> string" where
  "accounts_text keys ix = js_join (map (\<lambda>i. case key_at keys i of None \<Rightarrow> [] | Some k \<Rightarrow> k) (ci_accountKeyIndexes ix))"

text \<open>The Compute Budget instructions in front; the rest, unless one of them is not allowed.\<close>

fun budget_rest :: "solana \<Rightarrow> string list \<Rightarrow> compiled_instruction list \<Rightarrow> bool \<Rightarrow> bool \<Rightarrow> compiled_instruction list option" where
  "budget_rest sl keys [] limit price = Some []"
| "budget_rest sl keys (ix # ixs) limit price =
     (if key_at keys (ci_programIdIndex ix) \<noteq> Some (sl_computeBudget sl) then Some (ix # ixs)
      else if ci_accountKeyIndexes ix \<noteq> [] then None
      else if length (ci_data ix) = 5 \<and> take 1 (ci_data ix) = [2] \<and> \<not> limit
      then (if readLe (ci_data ix) 1 4 \<le> MAX_TRANSFER_COMPUTE_UNITS then budget_rest sl keys ixs True price else None)
      else if length (ci_data ix) = 9 \<and> take 1 (ci_data ix) = [3] \<and> \<not> price
      then (if readLe (ci_data ix) 1 8 \<le> MAX_TRANSFER_COMPUTE_PRICE then budget_rest sl keys ixs limit True else None)
      else None)"

definition create_ok :: "solana \<Rightarrow> transfer_review \<Rightarrow> string list \<Rightarrow> compiled_instruction \<Rightarrow> bool" where
  "create_ok sl v keys ix \<longleftrightarrow>
     key_at keys (ci_programIdIndex ix) = Some (sl_associatedTokenProgram sl) \<and> ci_data ix = [1] \<and>
     accounts_text keys ix = js_join [rv_from v, sl_usdcAccount sl (rv_to v), rv_to v, MAINNET_USDC_MINT, sl_systemProgram sl, sl_tokenProgram sl]"

definition transfer_ok :: "solana \<Rightarrow> transfer_review \<Rightarrow> string list \<Rightarrow> compiled_instruction \<Rightarrow> bool" where
  "transfer_ok sl v keys ix \<longleftrightarrow>
     key_at keys (ci_programIdIndex ix) = Some (sl_tokenProgram sl) \<and>
     length (ci_data ix) = 10 \<and> ci_data ix ! 0 = 12 \<and> readLe (ci_data ix) 1 8 = amount_of (rv_amountBaseUnits v) \<and> ci_data ix ! 9 = 6 \<and>
     accounts_text keys ix = js_join [sl_usdcAccount sl (rv_from v), MAINNET_USDC_MINT, sl_usdcAccount sl (rv_to v), rv_from v]"

definition transfer_tail_ok :: "solana \<Rightarrow> transfer_review \<Rightarrow> string list \<Rightarrow> compiled_instruction list \<Rightarrow> bool" where
  "transfer_tail_ok sl v keys ixs \<longleftrightarrow>
     (if rv_createsAccount v
      then (case ixs of [c, x] \<Rightarrow> create_ok sl v keys c \<and> transfer_ok sl v keys x | _ \<Rightarrow> False)
      else (case ixs of [x] \<Rightarrow> transfer_ok sl v keys x | _ \<Rightarrow> False))"

text \<open>\<open>False\<close> is \<open>UnsafeTransfer\<close>.\<close>

definition checkUsdcTransfer :: "solana \<Rightarrow> 8 word list \<Rightarrow> transfer_review \<Rightarrow> bool" where
  "checkUsdcTransfer sl bytes v \<longleftrightarrow>
     65 < length bytes \<and> length bytes \<le> 1232 \<and>
     (case sl_deserialize sl bytes of
        None \<Rightarrow> False
      | Some tx \<Rightarrow>
          (let m = sx_message tx; keys = tm_staticAccountKeys m
           in tm_version m = V0_tx \<and> tm_addressTableLookups m = 0 \<and>
              tm_numRequiredSignatures m = 1 \<and> tm_numReadonlySignedAccounts m = 0 \<and>
              length (sx_signatures tx) = 1 \<and> list_all (\<lambda>b. b = 0) (hd (sx_signatures tx)) \<and>
              first_key m = Some (rv_from v) \<and> distinct keys \<and>
              fee_text (rv_amountBaseUnits v) \<and> amount_of (rv_amountBaseUnits v) < 2 ^ 64 \<and>
              (case budget_rest sl keys (tm_compiledInstructions m) False False of
                 None \<Rightarrow> False
               | Some rest \<Rightarrow> transfer_tail_ok sl v keys rest)))"

section \<open>The shape of a checked transfer\<close>

text \<open>What is left of the instructions is a suffix; what came before are limits and prices, at most one of each.\<close>

definition budget_fine :: "solana \<Rightarrow> string list \<Rightarrow> compiled_instruction \<Rightarrow> bool" where
  "budget_fine sl keys ix \<longleftrightarrow> key_at keys (ci_programIdIndex ix) = Some (sl_computeBudget sl) \<and> ci_accountKeyIndexes ix = [] \<and>
     (length (ci_data ix) = 5 \<and> take 1 (ci_data ix) = [2] \<and> readLe (ci_data ix) 1 4 \<le> MAX_TRANSFER_COMPUTE_UNITS \<or>
      length (ci_data ix) = 9 \<and> take 1 (ci_data ix) = [3] \<and> readLe (ci_data ix) 1 8 \<le> MAX_TRANSFER_COMPUTE_PRICE)"

lemma budget_rest_split:
  "budget_rest sl keys ixs limit price = Some rest \<Longrightarrow>
   \<exists>front. ixs = front @ rest \<and> list_all (budget_fine sl keys) front \<and>
     length front + (if limit then 1 else 0) + (if price then 1 else 0) \<le> 2"
proof (induction sl keys ixs limit price rule: budget_rest.induct)
  case (2 sl keys ix ixs limit price)
  consider (stop) "rest = ix # ixs"
    | (unit) "\<not> limit" "budget_fine sl keys ix" "budget_rest sl keys ixs True price = Some rest"
        "key_at keys (ci_programIdIndex ix) = Some (sl_computeBudget sl)" "length (ci_data ix) = 5" "take 1 (ci_data ix) = [2]"
        "readLe (ci_data ix) 1 4 \<le> MAX_TRANSFER_COMPUTE_UNITS" "ci_accountKeyIndexes ix = []"
    | (cost) "\<not> price" "budget_fine sl keys ix" "budget_rest sl keys ixs limit True = Some rest"
        "key_at keys (ci_programIdIndex ix) = Some (sl_computeBudget sl)" "length (ci_data ix) = 9" "take 1 (ci_data ix) = [3]"
        "readLe (ci_data ix) 1 8 \<le> MAX_TRANSFER_COMPUTE_PRICE" "ci_accountKeyIndexes ix = []"
    using 2(3) by (auto simp: budget_fine_def split: if_splits)
  then show ?case
  proof cases
    case stop
    then show ?thesis by (intro exI[of _ "[]"]) simp
  next
    case unit
    obtain front where "ixs = front @ rest" "list_all (budget_fine sl keys) front" "length front + 1 + (if price then 1 else 0) \<le> 2"
      using 2(1) unit by auto
    then show ?thesis using unit(1,2) by (intro exI[of _ "ix # front"]) simp
  next
    case cost
    obtain front where "ixs = front @ rest" "list_all (budget_fine sl keys) front" "length front + (if limit then 1 else 0) + 1 \<le> 2"
      using 2(2) cost by auto
    then show ?thesis using cost(1,2) by (intro exI[of _ "ix # front"]) simp
  qed
qed simp

text \<open>The keys' texts hold no comma, so equal joins are equal lists.\<close>

definition plain :: "string \<Rightarrow> bool" where
  "plain s \<longleftrightarrow> s \<noteq> [] \<and> CHR '','' \<notin> set s"

lemma js_join_cons: "ss \<noteq> [] \<Longrightarrow> js_join (s # ss) = s @ CHR '','' # js_join ss"
  by (cases ss) simp_all

lemma split_comma: "CHR '','' \<notin> set s \<Longrightarrow> CHR '','' \<notin> set t \<Longrightarrow> s @ CHR '','' # x = t @ CHR '','' # y \<longleftrightarrow> s = t \<and> x = y"
  by (auto simp: append_eq_append_conv2 append_eq_Cons_conv Cons_eq_append_conv)

lemma js_join_inj:
  "js_join xs = js_join ys \<Longrightarrow> list_all (\<lambda>s. CHR '','' \<notin> set s) xs \<Longrightarrow> list_all plain ys \<Longrightarrow> ys \<noteq> [] \<Longrightarrow> xs = ys"
proof (induction ys arbitrary: xs)
  case (Cons y ys)
  have y: "y \<noteq> []" "CHR '','' \<notin> set y" using Cons.prems(3) by (simp_all add: plain_def)
  show ?case
  proof (cases xs)
    case Nil
    then show ?thesis using Cons.prems(1) y by (cases ys) simp_all
  next
    case (Cons x xs')
    have x: "CHR '','' \<notin> set x" using Cons Cons.prems(2) by simp
    show ?thesis
    proof (cases "xs' = [] \<or> ys = []")
      case True
      then show ?thesis using Cons Cons.prems(1) x y js_join_cons[of xs' x] js_join_cons[of ys y]
        by (cases "xs' = []"; cases "ys = []") auto
    next
      case False
      then have "x = y" "js_join xs' = js_join ys" using Cons.prems(1) Cons x y js_join_cons split_comma by auto
      then show ?thesis using Cons.IH[of xs'] Cons.prems(2,3) Cons False by simp
    qed
  qed
qed simp

definition account_names :: "string list \<Rightarrow> compiled_instruction \<Rightarrow> string list" where
  "account_names keys ix = map (\<lambda>i. case key_at keys i of None \<Rightarrow> [] | Some k \<Rightarrow> k) (ci_accountKeyIndexes ix)"

text \<open>One signer who pays, bounded limits in front, the destination's account when it is missing, and one
  transfer of exactly the amount, in its bytes, between the two wallets' USDC accounts.\<close>

definition moves_exactly :: "solana \<Rightarrow> transfer_review \<Rightarrow> tx_message \<Rightarrow> bool" where
  "moves_exactly sl v m \<longleftrightarrow>
     (let keys = tm_staticAccountKeys m; ixs = tm_compiledInstructions m;
          n = length ixs - (if rv_createsAccount v then 2 else 1); x = last ixs
      in first_key m = Some (rv_from v) \<and> tm_numRequiredSignatures m = 1 \<and> tm_addressTableLookups m = 0 \<and>
         ixs \<noteq> [] \<and> n \<le> 2 \<and> list_all (budget_fine sl keys) (take n ixs) \<and>
         map (\<lambda>c. (key_at keys (ci_programIdIndex c), ci_data c, account_names keys c)) (drop n ixs) =
           (if rv_createsAccount v
            then [(Some (sl_associatedTokenProgram sl), [1],
                   [rv_from v, sl_usdcAccount sl (rv_to v), rv_to v, MAINNET_USDC_MINT, sl_systemProgram sl, sl_tokenProgram sl])] else []) @
           [(Some (sl_tokenProgram sl), 12 # le_bytes 8 (amount_of (rv_amountBaseUnits v)) @ [6],
             [sl_usdcAccount sl (rv_from v), MAINNET_USDC_MINT, sl_usdcAccount sl (rv_to v), rv_from v])])"

definition review_names :: "solana \<Rightarrow> transfer_review \<Rightarrow> string list" where
  "review_names sl v = [rv_from v, sl_usdcAccount sl (rv_from v), rv_to v, sl_usdcAccount sl (rv_to v), sl_systemProgram sl, sl_tokenProgram sl]"

lemma mint_plain [simp]: "plain MAINNET_USDC_MINT"
  by (simp add: plain_def MAINNET_USDC_MINT_def)

lemma account_names_text: "accounts_text keys ix = js_join (account_names keys ix)"
  by (simp add: accounts_text_def account_names_def)

lemma account_names_plain: "list_all plain keys \<Longrightarrow> list_all (\<lambda>s. CHR '','' \<notin> set s) (account_names keys ix)"
  by (auto simp: account_names_def key_at_def list_all_iff plain_def split: option.splits if_splits)

lemma names_of:
  assumes "accounts_text keys ix = js_join ys" "list_all plain keys" "list_all plain ys" "ys \<noteq> []"
  shows "account_names keys ix = ys"
  using js_join_inj[OF _ account_names_plain[OF assms(2)] assms(3,4)] assms(1) by (simp add: account_names_text)

lemma ten_bytes: "length d = 10 \<Longrightarrow> d = d ! 0 # take 8 (drop 1 d) @ [d ! 9]"
proof -
  assume a: "length d = 10"
  have "drop 1 d = take 8 (drop 1 d) @ drop 9 d" using append_take_drop_id[of 8 "drop 1 d"] by simp
  moreover have "drop 9 d = [d ! 9]" using a Cons_nth_drop_Suc[of 9 d] by simp
  moreover have "d = d ! 0 # drop 1 d" using a Cons_nth_drop_Suc[of 0 d] by simp
  ultimately show ?thesis by simp
qed

lemma transfer_ok_exact:
  assumes "transfer_ok sl v keys x" "list_all plain keys" "list_all plain (review_names sl v)"
  shows "key_at keys (ci_programIdIndex x) = Some (sl_tokenProgram sl)"
    "ci_data x = 12 # le_bytes 8 (amount_of (rv_amountBaseUnits v)) @ [6]"
    "account_names keys x = [sl_usdcAccount sl (rv_from v), MAINNET_USDC_MINT, sl_usdcAccount sl (rv_to v), rv_from v]"
proof -
  have l: "length (ci_data x) = 10" "ci_data x ! 0 = 12" "ci_data x ! 9 = 6" "readLe (ci_data x) 1 8 = amount_of (rv_amountBaseUnits v)"
    using assms(1) by (simp_all add: transfer_ok_def)
  have "le_value (take 8 (drop 1 (ci_data x))) = amount_of (rv_amountBaseUnits v)" using readLe_value[of 1 8 "ci_data x"] l by simp
  then have "le_bytes 8 (amount_of (rv_amountBaseUnits v)) = take 8 (drop 1 (ci_data x))"
    using le_bytes_value[of "take 8 (drop 1 (ci_data x))"] l(1) by simp
  then show "ci_data x = 12 # le_bytes 8 (amount_of (rv_amountBaseUnits v)) @ [6]" using ten_bytes[OF l(1)] l(2,3) by metis
  show "key_at keys (ci_programIdIndex x) = Some (sl_tokenProgram sl)" using assms(1) by (simp add: transfer_ok_def)
  show "account_names keys x = [sl_usdcAccount sl (rv_from v), MAINNET_USDC_MINT, sl_usdcAccount sl (rv_to v), rv_from v]"
    by (rule names_of[OF _ assms(2)]) (use assms(1,3) in \<open>simp_all add: transfer_ok_def review_names_def\<close>)
qed

lemma create_ok_exact:
  assumes "create_ok sl v keys c" "list_all plain keys" "list_all plain (review_names sl v)"
  shows "account_names keys c = [rv_from v, sl_usdcAccount sl (rv_to v), rv_to v, MAINNET_USDC_MINT, sl_systemProgram sl, sl_tokenProgram sl]"
  by (rule names_of[OF _ assms(2)]) (use assms(1,3) in \<open>simp_all add: create_ok_def review_names_def\<close>)

lemma checked_moves:
  assumes "checkUsdcTransfer sl bytes v" "sl_deserialize sl bytes = Some tx" "list_all plain (tm_staticAccountKeys (sx_message tx))"
    "list_all plain (review_names sl v)"
  shows "moves_exactly sl v (sx_message tx)"
proof -
  let ?m = "sx_message tx" and ?keys = "tm_staticAccountKeys (sx_message tx)"
  obtain rest where b: "budget_rest sl ?keys (tm_compiledInstructions ?m) False False = Some rest" and t: "transfer_tail_ok sl v ?keys rest"
    and h: "first_key ?m = Some (rv_from v)" "tm_numRequiredSignatures ?m = 1" "tm_addressTableLookups ?m = 0"
    using assms(1,2) by (auto simp: checkUsdcTransfer_def Let_def split: option.splits)
  obtain front where f: "tm_compiledInstructions ?m = front @ rest" "list_all (budget_fine sl ?keys) front" "length front \<le> 2"
    using budget_rest_split[OF b] by auto
  note exact = transfer_ok_exact[OF _ assms(3,4)] create_ok_exact[OF _ assms(3,4)]
  show ?thesis
  proof (cases "rv_createsAccount v")
    case True
    obtain c x where r: "rest = [c, x]" "create_ok sl v ?keys c" "transfer_ok sl v ?keys x"
      using t True by (auto simp: transfer_tail_ok_def split: list.splits)
    then show ?thesis using f h True exact(1-3)[OF r(3)] exact(4)[OF r(2)] by (simp add: moves_exactly_def Let_def create_ok_def)
  next
    case False
    obtain x where r: "rest = [x]" "transfer_ok sl v ?keys x" using t False by (auto simp: transfer_tail_ok_def split: list.splits)
    then show ?thesis using f h False exact(1-3)[OF r(2)] by (simp add: moves_exactly_def Let_def)
  qed
qed

section \<open>What the chain says\<close>

datatype account_kind = Kind_none | Kind_wallet | Kind_token | Kind_executable | Kind_other

definition accountKind :: "rpc \<Rightarrow> string \<Rightarrow> account_kind option" where
  "accountKind r address =
     (if \<not> rp_mainnet r then None
      else (case rp_account r address of
              None \<Rightarrow> None
            | Some None \<Rightarrow> Some Kind_none
            | Some (Some a) \<Rightarrow> Some
                (if ai_executable a then Kind_executable
                 else (case ai_owner a of System_owner \<Rightarrow> Kind_wallet | Token_owner \<Rightarrow> Kind_token | Other_owner \<Rightarrow> Kind_other))))"

definition accountExists :: "rpc \<Rightarrow> string \<Rightarrow> bool option" where
  "accountExists r address = (if \<not> rp_mainnet r then None else map_option (\<lambda>a. a \<noteq> None) (rp_account r address))"

text \<open>The owner's USDC after minus before.\<close>

definition usdcDelta :: "tx_meta \<Rightarrow> string \<Rightarrow> int option" where
  "usdcDelta meta owner =
     (case (xm_preTokenBalances meta, xm_postTokenBalances meta) of
        (Some pre, Some post) \<Rightarrow>
          (case (usdc_total owner post, usdc_total owner pre) of (Some b, Some a) \<Rightarrow> Some (b - a) | _ \<Rightarrow> None)
      | _ \<Rightarrow> None)"

datatype transfer_lookup = Lookup_confirmed int | Lookup_missing | Lookup_unknown

definition verifyTransfer :: "solana \<Rightarrow> rpc \<Rightarrow> string \<Rightarrow> string \<Rightarrow> string \<Rightarrow> string \<Rightarrow> string \<Rightarrow> transfer_thrown + transfer_lookup" where
  "verifyTransfer sl r signature wal dest amount messageHash =
     (if \<not> rp_mainnet r then Inl Chain_threw
      else Inr
        (case rp_transaction r signature of
           None \<Rightarrow> Lookup_unknown
         | Some None \<Rightarrow> Lookup_missing
         | Some (Some x) \<Rightarrow>
             (case xr_meta x of
                None \<Rightarrow> Lookup_unknown
              | Some meta \<Rightarrow>
                  if xm_err meta \<or> xr_signature x \<noteq> Some signature then Lookup_unknown
                  else if tm_numRequiredSignatures (xr_message x) \<noteq> 1 \<or> first_key (xr_message x) \<noteq> Some wal \<or>
                     sl_hash sl (xr_message x) \<noteq> messageHash then Lookup_unknown
                  else (case parse_int amount of
                          None \<Rightarrow> Lookup_unknown
                        | Some a \<Rightarrow>
                            if usdcDelta meta wal \<noteq> Some (- a) \<or> usdcDelta meta dest \<noteq> Some a then Lookup_unknown
                            else Lookup_confirmed (xr_slot x)))))"

section \<open>The ledger, its moves and the surroundings\<close>

text \<open>\<open>xw_sent\<close> records every broadcast: the row and the signature sent.\<close>

record transfer_world =
  xw_rows :: transfer_rows
  xw_sent :: "(string \<times> string) list"

definition review_of :: "prepared_transfer \<Rightarrow> transfer_review" where
  "review_of p = \<lparr>rv_from = px_from p, rv_to = px_to p, rv_amountBaseUnits = px_amountBaseUnits p, rv_createsAccount = px_createsAccount p\<rparr>"

definition no_transfer_patch :: transfer_patch where
  "no_transfer_patch = \<lparr>tp_state = None, tp_signed_transaction = None, tp_signature = None, tp_confirm_evidence = None\<rparr>"

definition fail_patch :: transfer_patch where
  "fail_patch = no_transfer_patch\<lparr>tp_state := Some Failed_transfer\<rparr>"

definition approve_patch :: "string \<Rightarrow> string \<Rightarrow> transfer_patch" where
  "approve_patch payload signature = no_transfer_patch\<lparr>tp_state := Some Submitted_transfer, tp_signed_transaction := Some (Some payload),
     tp_signature := Some (Some signature)\<rparr>"

definition confirm_patch :: "transfer_row \<Rightarrow> string \<Rightarrow> int \<Rightarrow> transfer_patch" where
  "confirm_patch r signature slot = no_transfer_patch\<lparr>tp_state := Some Confirmed_transfer,
     tp_confirm_evidence := Some (Some \<lparr>tv_messageHash = px_messageHash (tr_prepared r), tv_signature = signature,
       tv_amountBaseUnits = tr_amount_base_units r, tv_slot = slot\<rparr>)\<rparr>"

text \<open>The stored review is built for the row's terms and passed the rules.\<close>

definition row_built :: "solana \<Rightarrow> spl \<Rightarrow> transfer_row \<Rightarrow> bool" where
  "row_built sl sp r \<longleftrightarrow>
     (let p = tr_prepared r; v = review_of p
      in px_from p = tr_from_wallet r \<and> px_to p = tr_to_wallet r \<and> px_amountBaseUnits p = tr_amount_base_units r \<and>
         tr_to_wallet r \<noteq> [] \<and> list_all base58_char (tr_to_wallet r) \<and>
         (px_transaction p, px_messageHash p) = buildUsdcTransfer sl sp v (px_recentBlockhash p) \<and>
         checkUsdcTransfer sl (sl_fromBase64 sl (px_transaction p)) v)"

definition own_approval :: "solana \<Rightarrow> transfer_row \<Rightarrow> string \<Rightarrow> signed_approval option" where
  "own_approval sl r payload = validateSignedPantaTransaction sl payload (tr_from_wallet r) (px_messageHash (tr_prepared r)) None"

definition row_lookup :: "solana \<Rightarrow> rpc \<Rightarrow> transfer_row \<Rightarrow> string \<Rightarrow> transfer_thrown + transfer_lookup" where
  "row_lookup sl r row signature =
     verifyTransfer sl r signature (tr_from_wallet row) (tr_to_wallet row) (tr_amount_base_units row) (px_messageHash (tr_prepared row))"

definition chain_answer :: "thrown + bool \<Rightarrow> transfer_thrown + bool" where
  "chain_answer x = (case x of Inl _ \<Rightarrow> Inl Chain_threw | Inr b \<Rightarrow> Inr b)"

text \<open>Proof that an approval failed, read from moment \<open>t\<close> on: the chain says so, or knows no such transaction
  and can no longer take it.\<close>

definition proved_failed :: "(nat \<Rightarrow> rpc) \<Rightarrow> nat \<Rightarrow> transfer_row \<Rightarrow> string \<Rightarrow> transfer_lookup \<Rightarrow> transfer_thrown + bool" where
  "proved_failed chain t row signature lookup =
     (case chain_answer (chain_failed (chain t) signature) of
        Inl x \<Rightarrow> Inl x
      | Inr True \<Rightarrow> Inr True
      | Inr False \<Rightarrow>
          if lookup = Lookup_missing
          then chain_answer (chain_neverLanded (chain (t + 1)) (chain (t + 2)) (chain (t + 3)) signature
                 (px_lastValidBlockHeight (tr_prepared row)) (px_recentBlockhash (tr_prepared row)))
          else Inr False)"

text \<open>What any request does to the ledger, each under the check that stands before it in the service.\<close>

datatype transfer_move =
    Xm_insert transfer_row
  | Xm_retire string
  | Xm_approve string string
  | Xm_confirm string nat
  | Xm_fail string nat
  | Xm_send string

definition patch_transfer :: "int \<Rightarrow> string \<Rightarrow> transfer_state \<Rightarrow> transfer_patch \<Rightarrow> transfer_world \<Rightarrow> transfer_world" where
  "patch_transfer now i s p w = w\<lparr>xw_rows := snd (transfer_update now i s p (xw_rows w))\<rparr>"

definition send_transfer :: "string \<Rightarrow> string \<Rightarrow> transfer_world \<Rightarrow> transfer_world" where
  "send_transfer i signature w = w\<lparr>xw_sent := xw_sent w @ [(i, signature)]\<rparr>"

definition move_row :: "solana \<Rightarrow> (nat \<Rightarrow> rpc) \<Rightarrow> int \<Rightarrow> transfer_move \<Rightarrow> transfer_row \<Rightarrow> transfer_world \<Rightarrow> transfer_world" where
  "move_row sl chain now m r w =
     (case m of
        Xm_insert _ \<Rightarrow> w
      | Xm_retire i \<Rightarrow> if px_expiresAt (tr_prepared r) \<le> now then patch_transfer now i Built_transfer fail_patch w else w
      | Xm_approve i payload \<Rightarrow>
          (case own_approval sl r payload of
             None \<Rightarrow> w
           | Some a \<Rightarrow> if px_expiresAt (tr_prepared r) \<le> now then w else patch_transfer now i Built_transfer (approve_patch payload (sg_signature a)) w)
      | Xm_confirm i t \<Rightarrow>
          (case tr_signature r of
             None \<Rightarrow> w
           | Some signature \<Rightarrow>
               (case row_lookup sl (chain t) r signature of
                  Inr (Lookup_confirmed slot) \<Rightarrow> patch_transfer now i Submitted_transfer (confirm_patch r signature slot) w
                | _ \<Rightarrow> w))
      | Xm_fail i t \<Rightarrow>
          (case tr_signature r of
             None \<Rightarrow> w
           | Some signature \<Rightarrow>
               (case row_lookup sl (chain t) r signature of
                  Inl _ \<Rightarrow> w
                | Inr lookup \<Rightarrow> if proved_failed chain (t + 1) r signature lookup = Inr True
                    then patch_transfer now i Submitted_transfer fail_patch w else w))
      | Xm_send i \<Rightarrow> (case tr_signature r of None \<Rightarrow> w | Some signature \<Rightarrow> send_transfer i signature w))"

definition move_id :: "transfer_move \<Rightarrow> string" where
  "move_id m = (case m of Xm_insert r \<Rightarrow> tr_id r | Xm_retire i \<Rightarrow> i | Xm_approve i _ \<Rightarrow> i | Xm_confirm i _ \<Rightarrow> i | Xm_fail i _ \<Rightarrow> i | Xm_send i \<Rightarrow> i)"

definition transfer_moved :: "solana \<Rightarrow> spl \<Rightarrow> (nat \<Rightarrow> rpc) \<Rightarrow> int \<Rightarrow> transfer_move \<Rightarrow> transfer_world \<Rightarrow> transfer_world" where
  "transfer_moved sl sp chain now m w =
     (case m of
        Xm_insert r \<Rightarrow>
          if row_built sl sp r \<and> jm_get (xw_rows w) (tr_id r) = None
          then w\<lparr>xw_rows := snd (transfer_insert now r (xw_rows w))\<rparr> else w
      | _ \<Rightarrow> (case jm_get (xw_rows w) (move_id m) of None \<Rightarrow> w | Some r \<Rightarrow> move_row sl chain now m r w))"

record transfer_env =
  xe_now :: int
  xe_newId :: string
  xe_sl :: solana
  xe_spl :: spl
  xe_chain :: "nat \<Rightarrow> rpc"
  xe_moment :: nat
  xe_hasChain :: bool
  xe_balances :: "(string \<Rightarrow> (int \<times> int) option) option"
  xe_gas :: gas_deps
  xe_addressKey :: "string \<Rightarrow> (string \<times> bool) option"
  xe_latestBlockhash :: "(string \<times> int) option"
  xe_rentOf :: "nat \<Rightarrow> int option"
  xe_fingerprint :: "transfer_kind \<Rightarrow> string \<Rightarrow> string \<Rightarrow> string \<Rightarrow> string"
  xe_race :: "transfer_move list"

definition transfer_raced :: "transfer_env \<Rightarrow> transfer_world \<Rightarrow> transfer_world" where
  "transfer_raced e w = fold (transfer_moved (xe_sl e) (xe_spl e) (xe_chain e) (xe_now e)) (xe_race e) w"

type_synonym 'a transferred = "(transfer_thrown + 'a) \<times> transfer_world"

definition transfer_fail :: "money_error_code \<Rightarrow> transfer_world \<Rightarrow> 'a transferred" where
  "transfer_fail c w = (Inl (Transfer_refused c), w)"

text \<open>An update of the ledger; \<open>Inr None\<close> is a row that had moved on.\<close>

definition update_transfer :: "transfer_env \<Rightarrow> string \<Rightarrow> transfer_state \<Rightarrow> transfer_patch \<Rightarrow> transfer_world \<Rightarrow> transfer_row option transferred" where
  "update_transfer e i s p w =
     (case transfer_update (xe_now e) i s p (xw_rows w) of
        (Inl x, rows) \<Rightarrow> (Inl (Ledger_threw x), w\<lparr>xw_rows := rows\<rparr>)
      | (Inr r, rows) \<Rightarrow> (Inr r, w\<lparr>xw_rows := rows\<rparr>))"

section \<open>The service\<close>

datatype transfer_invalid = INVALID_ADDRESS | SAME_WALLET | TOKEN_ACCOUNT | OVER_BALANCE | INVALID_AMOUNT | NOT_YOUR_WALLET

record transfer_view =
  tq_transferId :: string
  tq_kind :: transfer_kind
  tq_from :: string
  tq_to :: string
  tq_amountBaseUnits :: string
  tq_state :: transfer_state
  tq_signature :: "string option"
  tq_createdAt :: int
  tq_updatedAt :: int
  tq_expiresAt :: int

datatype transfer_result =
    Transfer_invalid transfer_invalid
  | Transfer_sent transfer_view
  | Transfer_needs_gas string string "int option"
  | Transfer_ready transfer_view prepared_transfer

definition view_transfer :: "transfer_row \<Rightarrow> transfer_view" where
  "view_transfer r = \<lparr>tq_transferId = tr_id r, tq_kind = tr_kind r, tq_from = tr_from_wallet r, tq_to = tr_to_wallet r,
     tq_amountBaseUnits = tr_amount_base_units r, tq_state = tr_state r,
     tq_signature = (if tr_state r = Submitted_transfer \<or> tr_state r = Confirmed_transfer then tr_signature r else None),
     tq_createdAt = tr_created_at r, tq_updatedAt = tr_updated_at r, tq_expiresAt = px_expiresAt (tr_prepared r)\<rparr>"

definition ready :: "transfer_row \<Rightarrow> transfer_result" where
  "ready r = Transfer_ready (view_transfer r) (tr_prepared r)"

text \<open>The one transition out of \<open>SUBMITTED\<close>. The first read is the transaction, the next ones the proof of failure.\<close>

definition or_row :: "transfer_row \<Rightarrow> transfer_row option transferred \<Rightarrow> transfer_row transferred" where
  "or_row r x = (case x of (Inl y, w) \<Rightarrow> (Inl y, w) | (Inr None, w) \<Rightarrow> (Inr r, w) | (Inr (Some q), w) \<Rightarrow> (Inr q, w))"

definition transfer_reconcile :: "transfer_env \<Rightarrow> transfer_row \<Rightarrow> transfer_world \<Rightarrow> transfer_row transferred" where
  "transfer_reconcile e r w =
     (case (tr_state r, tr_signature r) of
        (Submitted_transfer, Some signature) \<Rightarrow>
          if \<not> xe_hasChain e then transfer_fail UNAVAILABLE w
          else (case row_lookup (xe_sl e) (xe_chain e (xe_moment e)) r signature of
            Inl x \<Rightarrow> (Inl x, w)
          | Inr (Lookup_confirmed slot) \<Rightarrow>
              or_row r (update_transfer e (tr_id r) Submitted_transfer (confirm_patch r signature slot) (transfer_raced e w))
          | Inr lookup \<Rightarrow>
              (case proved_failed (xe_chain e) (xe_moment e + 1) r signature lookup of
                 Inl x \<Rightarrow> (Inl x, w)
               | Inr True \<Rightarrow> or_row r (update_transfer e (tr_id r) Submitted_transfer fail_patch (transfer_raced e w))
               | Inr False \<Rightarrow> (Inr r, w)))
      | _ \<Rightarrow> (Inr r, w))"

text \<open>One transfer in flight per source wallet: an expired review is retired, anything else waits.\<close>

definition assertNothingInFlight :: "transfer_env \<Rightarrow> string \<Rightarrow> transfer_world \<Rightarrow> unit transferred" where
  "assertNothingInFlight e fromWallet w =
     (case in_flight_from fromWallet (xw_rows w) of
        None \<Rightarrow> (Inr (), w)
      | Some f \<Rightarrow>
          if tr_state f = Built_transfer \<and> px_expiresAt (tr_prepared f) \<le> xe_now e
          then (case update_transfer e (tr_id f) Built_transfer fail_patch (transfer_raced e w) of
                  (Inl x, w) \<Rightarrow> (Inl x, w)
                | (Inr (Some _), w) \<Rightarrow> (Inr (), w)
                | (Inr None, w) \<Rightarrow> transfer_fail TRANSFER_IN_FLIGHT w)
          else transfer_fail TRANSFER_IN_FLIGHT w)"

text \<open>\<open>randomUUID\<close>: an id no row has.\<close>

definition fresh_id :: "string \<Rightarrow> transfer_rows \<Rightarrow> string" where
  "fresh_id seed rows =
     (if jm_get rows seed = None then seed else seed @ replicate (Suc (sum_list (map (\<lambda>kv. length (fst kv)) rows))) (CHR ''0''))"

record transfer_input =
  tn_kind :: transfer_kind
  tn_from :: deposit_wallet
  tn_to :: string
  tn_amountBaseUnits :: string
  tn_idempotencyKey :: string

definition input_fingerprint :: "transfer_env \<Rightarrow> transfer_input \<Rightarrow> string" where
  "input_fingerprint e i = xe_fingerprint e (tn_kind i) (dw_address (tn_from i)) (tn_to i) (tn_amountBaseUnits i)"

definition prepared_of :: "transfer_env \<Rightarrow> transfer_review \<Rightarrow> string \<times> int \<Rightarrow> int \<Rightarrow> prepared_transfer" where
  "prepared_of e v bh rent =
     (case buildUsdcTransfer (xe_sl e) (xe_spl e) v (fst bh) of
        (payload, messageHash) \<Rightarrow>
          \<lparr>px_from = rv_from v, px_to = rv_to v, px_amountBaseUnits = rv_amountBaseUnits v, px_mint = MAINNET_USDC_MINT,
           px_transaction = payload, px_messageHash = messageHash, px_recentBlockhash = fst bh, px_lastValidBlockHeight = snd bh,
           px_createsAccount = rv_createsAccount v,
           px_networkFeeLamports = int_str (SIGNATURE_FEE_LAMPORTS + (TRANSFER_COMPUTE_UNITS * TRANSFER_COMPUTE_PRICE + 999999) div 1000000),
           px_rentLamports = int_str rent, px_createdAt = xe_now e, px_expiresAt = xe_now e + TRANSFER_TTL_MS\<rparr>)"

definition intent_transfer :: "transfer_env \<Rightarrow> string \<Rightarrow> transfer_input \<Rightarrow> prepared_transfer \<Rightarrow> transfer_rows \<Rightarrow> transfer_row" where
  "intent_transfer e u i p rows =
     \<lparr>tr_id = fresh_id (xe_newId e) rows, tr_user_id = u, tr_kind = tn_kind i, tr_from_wallet = px_from p, tr_to_wallet = px_to p,
      tr_amount_base_units = px_amountBaseUnits p, tr_idempotency_key = tn_idempotencyKey i, tr_request_fingerprint = input_fingerprint e i,
      tr_state = Built_transfer, tr_prepared = p, tr_signed_transaction = None, tr_signature = None, tr_confirm_evidence = None,
      tr_created_at = xe_now e, tr_updated_at = xe_now e\<rparr>"

text \<open>The reviewed bytes are checked and stored before any wallet sees them.\<close>

definition store_review :: "transfer_env \<Rightarrow> string \<Rightarrow> transfer_input \<Rightarrow> transfer_review \<Rightarrow> string \<times> int \<Rightarrow> int \<Rightarrow> transfer_world \<Rightarrow> transfer_result transferred" where
  "store_review e u i v bh rent w =
     (let p = prepared_of e v bh rent
      in if \<not> checkUsdcTransfer (xe_sl e) (sl_fromBase64 (xe_sl e) (px_transaction p)) v then (Inl Unsafe_transfer, w)
         else
           (let w = transfer_raced e w
            in case transfer_insert (xe_now e) (intent_transfer e u i p (xw_rows w)) (xw_rows w) of
                 (Inl x, rows) \<Rightarrow>
                   (case assertNothingInFlight e (rv_from v) (w\<lparr>xw_rows := rows\<rparr>) of
                      (Inl y, w) \<Rightarrow> (Inl y, w) | (Inr _, w) \<Rightarrow> (Inl (Ledger_threw x), w))
               | (Inr (Some r), rows) \<Rightarrow> (Inr (ready r), w\<lparr>xw_rows := rows\<rparr>)
               | (Inr None, rows) \<Rightarrow>
                   (case transfer_by_key u (tn_idempotencyKey i) rows of
                      None \<Rightarrow> transfer_fail KEY_CONFLICT w
                    | Some r \<Rightarrow> if tr_request_fingerprint r \<noteq> input_fingerprint e i then transfer_fail KEY_CONFLICT w else (Inr (ready r), w))))"

text \<open>What must hold before the transaction is built, in the order of the code.\<close>

definition review_checks :: "transfer_env \<Rightarrow> string \<Rightarrow> transfer_input \<Rightarrow> address_shape
    \<Rightarrow> transfer_thrown + (transfer_result + transfer_review \<times> (string \<times> int) \<times> int)" where
  "review_checks e u i shape =
     (let a = dw_address (tn_from i); chain = xe_chain e (xe_moment e); unavailable = Inl (Transfer_refused UNAVAILABLE)
      in if \<not> xe_hasChain e then unavailable
         else (case accountKind chain (tn_to i) of
            None \<Rightarrow> unavailable
          | Some kind \<Rightarrow>
              if kind = Kind_token then Inr (Inl (Transfer_invalid TOKEN_ACCOUNT))
              else if shape \<noteq> Wallet_address \<or> kind = Kind_executable \<or> kind = Kind_other then Inr (Inl (Transfer_invalid INVALID_ADDRESS))
              else (case xe_balances e of
                 None \<Rightarrow> unavailable
               | Some balances \<Rightarrow>
                   (case balances a of
                      None \<Rightarrow> unavailable
                    | Some (usdc, lamports) \<Rightarrow>
                        if usdc < amount_of (tn_amountBaseUnits i) then Inr (Inl (Transfer_invalid OVER_BALANCE))
                        else (case accountExists chain (sl_usdcAccount (xe_sl e) (tn_to i)) of
                           None \<Rightarrow> unavailable
                         | Some held \<Rightarrow>
                             (case (if held then Some 0 else xe_rentOf e TOKEN_ACCOUNT_BYTES) of
                                None \<Rightarrow> unavailable
                              | Some rent \<Rightarrow>
                                  (case forTransfer (xe_gas e) u a lamports rent of
                                     Inl x \<Rightarrow> Inl x
                                   | Inr gas \<Rightarrow>
                                       if ga_needsSol gas then Inr (Inl (Transfer_needs_gas a (dw_walletType (tn_from i)) (ga_topUp gas)))
                                       else (case xe_latestBlockhash e of
                                          None \<Rightarrow> unavailable
                                        | Some bh \<Rightarrow> Inr (Inr (\<lparr>rv_from = a, rv_to = tn_to i, rv_amountBaseUnits = tn_amountBaseUnits i,
                                            rv_createsAccount = \<not> held\<rparr>, bh, rent))))))))))"

definition replay_transfer :: "transfer_env \<Rightarrow> transfer_input \<Rightarrow> transfer_row \<Rightarrow> transfer_world \<Rightarrow> transfer_result transferred" where
  "replay_transfer e i r w =
     (if tr_request_fingerprint r \<noteq> input_fingerprint e i then transfer_fail KEY_CONFLICT w
      else if tr_state r \<noteq> Built_transfer
      then (case transfer_reconcile e r w of (Inl x, w) \<Rightarrow> (Inl x, w) | (Inr q, w) \<Rightarrow> (Inr (Transfer_sent (view_transfer q)), w))
      else if px_expiresAt (tr_prepared r) \<le> xe_now e
      then transfer_fail EXPIRED (snd (update_transfer e (tr_id r) Built_transfer fail_patch (transfer_raced e w)))
      else (Inr (ready r), w))"

definition transfer_prepare :: "transfer_env \<Rightarrow> string \<Rightarrow> transfer_input \<Rightarrow> transfer_world \<Rightarrow> transfer_result transferred" where
  "transfer_prepare e u i w =
     (let shape = addressShape (xe_addressKey e) (tn_to i)
      in if \<not> amount_text (tn_amountBaseUnits i) then (Inr (Transfer_invalid INVALID_AMOUNT), w)
         else if shape = Bad_address then (Inr (Transfer_invalid INVALID_ADDRESS), w)
         else if tn_to i = dw_address (tn_from i) then (Inr (Transfer_invalid SAME_WALLET), w)
         else (case transfer_by_key u (tn_idempotencyKey i) (xw_rows w) of
            Some r \<Rightarrow> replay_transfer e i r w
          | None \<Rightarrow>
              (case assertNothingInFlight e (dw_address (tn_from i)) w of
                 (Inl x, w) \<Rightarrow> (Inl x, w)
               | (Inr _, w) \<Rightarrow>
                   (case review_checks e u i shape of
                      Inl x \<Rightarrow> (Inl x, w)
                    | Inr (Inl res) \<Rightarrow> (Inr res, w)
                    | Inr (Inr (v, bh, rent)) \<Rightarrow> store_review e u i v bh rent w))))"

definition cashOut :: "transfer_env \<Rightarrow> string \<Rightarrow> deposit_wallet \<Rightarrow> string \<Rightarrow> string \<Rightarrow> string \<Rightarrow> transfer_world \<Rightarrow> transfer_result transferred" where
  "cashOut e u trading destination amount key w =
     transfer_prepare e u \<lparr>tn_kind = Cash_out, tn_from = trading, tn_to = js_trim destination, tn_amountBaseUnits = amount, tn_idempotencyKey = key\<rparr> w"

definition depositFromWallet :: "transfer_env \<Rightarrow> deposit_person \<Rightarrow> deposit_wallet \<Rightarrow> string \<Rightarrow> string \<Rightarrow> string \<Rightarrow> transfer_world \<Rightarrow> transfer_result transferred" where
  "depositFromWallet e p trading fromWallet amount key w =
     (case find (\<lambda>x. dw_address x = fromWallet) (dp_wallets p) of
        None \<Rightarrow> (Inr (Transfer_invalid NOT_YOUR_WALLET), w)
      | Some d \<Rightarrow>
          if dw_address d = dw_address trading then (Inr (Transfer_invalid SAME_WALLET), w)
          else transfer_prepare e (dp_userId p)
            \<lparr>tn_kind = Deposit_transfer, tn_from = d, tn_to = dw_address trading, tn_amountBaseUnits = amount, tn_idempotencyKey = key\<rparr> w)"

text \<open>The approval is durable before the RPC; whether the broadcast was acknowledged does not matter.\<close>

definition broadcast_saved :: "transfer_env \<Rightarrow> transfer_row \<Rightarrow> string \<Rightarrow> transfer_world \<Rightarrow> transfer_view transferred" where
  "broadcast_saved e r signature w =
     (Inr (view_transfer r), if xe_hasChain e then send_transfer (tr_id r) signature w else w)"

definition same_approval :: "transfer_row \<Rightarrow> string \<Rightarrow> string \<Rightarrow> bool" where
  "same_approval r payload signature \<longleftrightarrow> tr_signature r = Some signature \<and> tr_signed_transaction r = Some payload"

definition save_transfer_approval :: "transfer_env \<Rightarrow> string \<Rightarrow> string \<Rightarrow> string \<Rightarrow> transfer_row \<Rightarrow> transfer_world \<Rightarrow> transfer_view transferred" where
  "save_transfer_approval e u payload signature r w =
     (if px_expiresAt (tr_prepared r) \<le> xe_now e then transfer_fail EXPIRED w
      else (case update_transfer e (tr_id r) Built_transfer (approve_patch payload signature) (transfer_raced e w) of
        (Inl x, w) \<Rightarrow> (Inl x, w)
      | (Inr saved, w) \<Rightarrow>
          (case (case saved of Some q \<Rightarrow> Some q | None \<Rightarrow> transfer_by_id u (tr_id r) (xw_rows w)) of
             None \<Rightarrow> transfer_fail NOT_FOUND w
           | Some q \<Rightarrow> if \<not> same_approval q payload signature then transfer_fail BAD_SIGNATURE w
               else broadcast_saved e q signature w)))"

definition transfer_submit :: "transfer_env \<Rightarrow> string \<Rightarrow> string \<Rightarrow> string \<Rightarrow> transfer_world \<Rightarrow> transfer_view transferred" where
  "transfer_submit e u i payload w =
     (case transfer_by_id u i (xw_rows w) of
        None \<Rightarrow> transfer_fail NOT_FOUND w
      | Some r \<Rightarrow>
          if tr_state r = Failed_transfer then transfer_fail STATE w
          else (case own_approval (xe_sl e) r payload of
             None \<Rightarrow> transfer_fail BAD_SIGNATURE w
           | Some a \<Rightarrow>
               if tr_signature r \<noteq> None \<and> \<not> same_approval r payload (sg_signature a) then transfer_fail BAD_SIGNATURE w
               else if tr_state r = Confirmed_transfer then (Inr (view_transfer r), w)
               else if tr_state r = Built_transfer then save_transfer_approval e u payload (sg_signature a) r w
               else broadcast_saved e r (sg_signature a) w))"

definition transfer_status :: "transfer_env \<Rightarrow> string \<Rightarrow> string \<Rightarrow> transfer_world \<Rightarrow> transfer_view transferred" where
  "transfer_status e u i w =
     (case transfer_by_id u i (xw_rows w) of
        None \<Rightarrow> transfer_fail NOT_FOUND w
      | Some r \<Rightarrow> (case transfer_reconcile e r w of (Inl x, w) \<Rightarrow> (Inl x, w) | (Inr q, w) \<Rightarrow> (Inr (view_transfer q), w)))"

record transfer_report =
  tt_confirmed :: nat
  tt_failed :: nat
  tt_errors :: nat

definition sweep_transfer :: "transfer_env \<Rightarrow> transfer_row \<Rightarrow> transfer_report \<times> transfer_world \<Rightarrow> transfer_report \<times> transfer_world" where
  "sweep_transfer e r x =
     (case x of (rep, w) \<Rightarrow>
       (case transfer_reconcile e r w of
          (Inl _, w) \<Rightarrow> (rep\<lparr>tt_errors := tt_errors rep + 1\<rparr>, w)
        | (Inr q, w) \<Rightarrow>
            (if tr_state q = Confirmed_transfer then rep\<lparr>tt_confirmed := tt_confirmed rep + 1\<rparr>
             else if tr_state q = Failed_transfer then rep\<lparr>tt_failed := tt_failed rep + 1\<rparr> else rep, w)))"

definition sweep_transfers :: "transfer_env \<Rightarrow> transfer_world \<Rightarrow> transfer_report \<times> transfer_world" where
  "sweep_transfers e w =
     (let rep = \<lparr>tt_confirmed = 0, tt_failed = 0, tt_errors = 0\<rparr>
      in if \<not> xe_hasChain e then (rep, w) else fold (sweep_transfer e) (transfers_submitted 50 (xw_rows w)) (rep, w))"

end
