(* ===== verification/TransferFlow.thy ===== *)
theory TransferFlow
  imports MoneyTransfers Interleaving
begin

text \<open>
  What the transfers keep. Every operation of the transfer service is a sequence of moves of the ledger,
  with the moves of other requests in between, so what a move keeps any interleaving of requests keeps:
  a broadcast transaction is the one approval stored before, over the very message that was built and
  checked for the row's terms, and a transfer ends only with the chain's proof.
\<close>

section \<open>What a move does\<close>

text \<open>A patch the service's checks allow on a row.\<close>

definition allowed_patch :: "solana \<Rightarrow> (nat \<Rightarrow> rpc) \<Rightarrow> transfer_row \<Rightarrow> transfer_patch \<Rightarrow> bool" where
  "allowed_patch sl chain r p \<longleftrightarrow>
     tr_state r = Built_transfer \<and> p = fail_patch \<or>
     tr_state r = Built_transfer \<and> (\<exists>payload a. own_approval sl r payload = Some a \<and> p = approve_patch payload (sg_signature a)) \<or>
     tr_state r = Submitted_transfer \<and> (\<exists>s t slot. tr_signature r = Some s \<and> row_lookup sl (chain t) r s = Inr (Lookup_confirmed slot) \<and>
        p = confirm_patch r s slot) \<or>
     tr_state r = Submitted_transfer \<and> p = fail_patch \<and> (\<exists>s t lookup. tr_signature r = Some s \<and> row_lookup sl (chain t) r s = Inr lookup \<and>
        proved_failed chain (t + 1) r s lookup = Inr True)"

lemma transfer_update_wrote:
  obtains (refused) "snd (transfer_update now i s p rows) = rows" "\<And>q. fst (transfer_update now i s p rows) \<noteq> Inr (Some q)"
  | (wrote) r where "jm_get rows i = Some r" "tr_state r = s"
      "transfer_update now i s p rows = (Inr (Some (transfer_patched p now r)), jm_set i (transfer_patched p now r) rows)"
proof (cases "jm_get rows i")
  case None
  then show ?thesis using refused by (simp add: transfer_update_def)
next
  case (Some r)
  show ?thesis
  proof (cases "transfer_update now i s p rows = (Inr (Some (transfer_patched p now r)), jm_set i (transfer_patched p now r) rows) \<and> tr_state r = s")
    case True
    then show ?thesis using wrote Some by blast
  next
    case False
    then have "snd (transfer_update now i s p rows) = rows" "\<And>q. fst (transfer_update now i s p rows) \<noteq> Inr (Some q)"
      using Some by (auto simp: transfer_update_def Let_def split: if_splits)
    then show ?thesis by (rule refused)
  qed
qed

definition stored_transfer :: "int \<Rightarrow> transfer_row \<Rightarrow> transfer_row" where
  "stored_transfer now r = r\<lparr>tr_state := Built_transfer, tr_signed_transaction := None, tr_signature := None,
     tr_confirm_evidence := None, tr_created_at := now, tr_updated_at := now\<rparr>"

lemma transfer_insert_wrote:
  obtains (refused) "snd (transfer_insert now r rows) = rows" "\<And>q. fst (transfer_insert now r rows) \<noteq> Inr (Some q)"
  | (wrote) "transfer_by_key (tr_user_id r) (tr_idempotency_key r) rows = None" "tr_from_wallet r \<noteq> tr_to_wallet r"
      "in_flight_from (tr_from_wallet r) rows = None"
      "transfer_insert now r rows = (Inr (Some (stored_transfer now r)), jm_set (tr_id r) (stored_transfer now r) rows)"
proof (cases "transfer_by_key (tr_user_id r) (tr_idempotency_key r) rows = None \<and> tr_from_wallet r \<noteq> tr_to_wallet r \<and>
    in_flight_from (tr_from_wallet r) rows = None")
  case True
  then show ?thesis using wrote by (simp add: transfer_insert_def stored_transfer_def Let_def)
next
  case False
  have "snd (transfer_insert now r rows) = rows" "\<And>q. fst (transfer_insert now r rows) \<noteq> Inr (Some q)"
    using False by (auto simp: transfer_insert_def Let_def simp del: not_None_eq)
  then show ?thesis by (rule refused)
qed

lemma move_row_cases:
  obtains (id) "move_row sl chain now m r w = w"
  | (retire) "move_row sl chain now m r w = patch_transfer now (move_id m) Built_transfer fail_patch w"
  | (approve) payload a where "own_approval sl r payload = Some a"
      "move_row sl chain now m r w = patch_transfer now (move_id m) Built_transfer (approve_patch payload (sg_signature a)) w"
  | (confirm) s t slot where "tr_signature r = Some s" "row_lookup sl (chain t) r s = Inr (Lookup_confirmed slot)"
      "move_row sl chain now m r w = patch_transfer now (move_id m) Submitted_transfer (confirm_patch r s slot) w"
  | (fail) s t lookup where "tr_signature r = Some s" "row_lookup sl (chain t) r s = Inr lookup" "proved_failed chain (t + 1) r s lookup = Inr True"
      "move_row sl chain now m r w = patch_transfer now (move_id m) Submitted_transfer fail_patch w"
  | (send) s where "tr_signature r = Some s" "move_row sl chain now m r w = send_transfer (move_id m) s w"
proof (cases m)
  case (Xm_insert x)
  then show ?thesis using id by (simp add: move_row_def)
next
  case (Xm_retire i)
  then show ?thesis using id retire by (cases "px_expiresAt (tr_prepared r) \<le> now") (simp_all add: move_row_def move_id_def)
next
  case (Xm_approve i payload)
  then show ?thesis using id approve[of payload]
    by (cases "own_approval sl r payload"; cases "px_expiresAt (tr_prepared r) \<le> now") (simp_all add: move_row_def move_id_def)
next
  case (Xm_confirm i t)
  show ?thesis
  proof (cases "tr_signature r")
    case None
    then show ?thesis using id Xm_confirm by (simp add: move_row_def)
  next
    case (Some s)
    show ?thesis
    proof (cases "\<exists>slot. row_lookup sl (chain t) r s = Inr (Lookup_confirmed slot)")
      case True
      then obtain slot where l: "row_lookup sl (chain t) r s = Inr (Lookup_confirmed slot)" by blast
      show ?thesis by (rule confirm[OF Some l]) (simp add: Xm_confirm move_row_def move_id_def Some l)
    next
      case False
      then show ?thesis using id Some Xm_confirm
        by (cases "row_lookup sl (chain t) r s"; cases "projr (row_lookup sl (chain t) r s)") (simp_all add: move_row_def)
    qed
  qed
next
  case (Xm_fail i t)
  show ?thesis
  proof (cases "tr_signature r")
    case None
    then show ?thesis using id Xm_fail by (simp add: move_row_def)
  next
    case (Some s)
    show ?thesis
    proof (cases "row_lookup sl (chain t) r s")
      case (Inl x)
      then show ?thesis using id Some Xm_fail by (simp add: move_row_def)
    next
      case (Inr lookup)
      show ?thesis
      proof (cases "proved_failed chain (t + 1) r s lookup = Inr True")
        case True
        show ?thesis by (rule fail[OF Some Inr True]) (use True in \<open>simp add: Xm_fail move_row_def move_id_def Some Inr\<close>)
      qed (use id Some Inr Xm_fail in \<open>simp add: move_row_def\<close>)
    qed
  qed
next
  case (Xm_send i)
  then show ?thesis using id send by (cases "tr_signature r") (simp_all add: move_row_def move_id_def)
qed

lemma transfer_move_cases:
  obtains (same) "transfer_moved sl sp chain now m w = w"
  | (new) r where "row_built sl sp r" "jm_get (xw_rows w) (tr_id r) = None" "transfer_by_key (tr_user_id r) (tr_idempotency_key r) (xw_rows w) = None"
      "tr_from_wallet r \<noteq> tr_to_wallet r" "in_flight_from (tr_from_wallet r) (xw_rows w) = None"
      "transfer_moved sl sp chain now m w = w\<lparr>xw_rows := jm_set (tr_id r) (stored_transfer now r) (xw_rows w)\<rparr>"
  | (patch) i r p where "jm_get (xw_rows w) i = Some r" "allowed_patch sl chain r p"
      "transfer_moved sl sp chain now m w = w\<lparr>xw_rows := jm_set i (transfer_patched p now r) (xw_rows w)\<rparr>"
  | (sent) i r s where "jm_get (xw_rows w) i = Some r" "tr_signature r = Some s"
      "transfer_moved sl sp chain now m w = w\<lparr>xw_sent := xw_sent w @ [(i, s)]\<rparr>"
proof (cases "\<exists>r. m = Xm_insert r")
  case True
  then obtain r where m: "m = Xm_insert r" by blast
  show ?thesis
  proof (cases "row_built sl sp r \<and> jm_get (xw_rows w) (tr_id r) = None")
    case ok: True
    show ?thesis
    proof (cases rule: transfer_insert_wrote[of now r "xw_rows w"])
      case refused
      then show ?thesis using same m ok by (simp add: transfer_moved_def)
    next
      case wrote
      then show ?thesis using new[of r] m ok by (simp add: transfer_moved_def)
    qed
  next
    case False
    then show ?thesis using same m by (auto simp: transfer_moved_def)
  qed
next
  case False
  show ?thesis
  proof (cases "jm_get (xw_rows w) (move_id m)")
    case None
    then show ?thesis using same False by (cases m) (simp_all add: transfer_moved_def)
  next
    case (Some r)
    have eq: "transfer_moved sl sp chain now m w = move_row sl chain now m r w" using Some False by (cases m) (simp_all add: transfer_moved_def)
    have patched: ?thesis if x: "move_row sl chain now m r w = patch_transfer now (move_id m) s p w" and a: "tr_state r = s \<Longrightarrow> allowed_patch sl chain r p"
      for s p
    proof (cases rule: transfer_update_wrote[of now "move_id m" s p "xw_rows w"])
      case refused
      then show ?thesis using same eq x by (simp add: patch_transfer_def)
    next
      case (wrote q)
      then show ?thesis using patch[of "move_id m" r p] Some eq x a by (simp add: patch_transfer_def)
    qed
    show ?thesis
    proof (cases rule: move_row_cases[of sl chain now m r w])
      case id
      then show ?thesis using same eq by simp
    next
      case retire
      then show ?thesis using patched by (auto simp: allowed_patch_def)
    next
      case approve
      show ?thesis by (rule patched[OF approve(2)]) (use approve(1) in \<open>auto simp: allowed_patch_def\<close>)
    next
      case confirm
      show ?thesis by (rule patched[OF confirm(3)]) (use confirm(1,2) in \<open>auto simp: allowed_patch_def\<close>)
    next
      case fail
      show ?thesis by (rule patched[OF fail(4)]) (use fail(1-3) in \<open>auto simp: allowed_patch_def\<close>)
    next
      case (send s)
      then show ?thesis using sent[of "move_id m" r s] Some eq by (simp add: send_transfer_def)
    qed
  qed
qed

section \<open>What the transfers keep\<close>

definition transfer_fine :: "solana \<Rightarrow> spl \<Rightarrow> (nat \<Rightarrow> rpc) \<Rightarrow> transfer_row \<Rightarrow> bool" where
  "transfer_fine sl sp chain r \<longleftrightarrow>
     row_built sl sp r \<and>
     (case (tr_signed_transaction r, tr_signature r) of
        (None, None) \<Rightarrow> tr_state r = Built_transfer \<or> tr_state r = Failed_transfer
      | (Some payload, Some s) \<Rightarrow> tr_state r \<noteq> Built_transfer \<and> map_option sg_signature (own_approval sl r payload) = Some s \<and>
          (tr_state r = Confirmed_transfer \<longrightarrow> (\<exists>t slot. row_lookup sl (chain t) r s = Inr (Lookup_confirmed slot) \<and>
             tr_confirm_evidence r = Some \<lparr>tv_messageHash = px_messageHash (tr_prepared r), tv_signature = s,
               tv_amountBaseUnits = tr_amount_base_units r, tv_slot = slot\<rparr>)) \<and>
          (tr_state r = Failed_transfer \<longrightarrow> (\<exists>t lookup. row_lookup sl (chain t) r s = Inr lookup \<and> proved_failed chain (t + 1) r s lookup = Inr True))
      | _ \<Rightarrow> False)"

definition transfers_kept :: "solana \<Rightarrow> spl \<Rightarrow> (nat \<Rightarrow> rpc) \<Rightarrow> transfer_world \<Rightarrow> bool" where
  "transfers_kept sl sp chain w \<longleftrightarrow>
     jm_wf (xw_rows w) \<and> transfers_ok (xw_rows w) \<and>
     (\<forall>i r. jm_get (xw_rows w) i = Some r \<longrightarrow> transfer_fine sl sp chain r) \<and>
     (\<forall>i r j q. jm_get (xw_rows w) i = Some r \<longrightarrow> jm_get (xw_rows w) j = Some q \<longrightarrow>
        tr_user_id r = tr_user_id q \<longrightarrow> tr_idempotency_key r = tr_idempotency_key q \<longrightarrow> i = j) \<and>
     (\<forall>i s. (i, s) \<in> set (xw_sent w) \<longrightarrow> (\<exists>r. jm_get (xw_rows w) i = Some r \<and> tr_signature r = Some s))"

lemma kept_parts:
  assumes "transfers_kept sl sp chain w"
  shows "jm_wf (xw_rows w)" "transfers_ok (xw_rows w)"
    "\<And>i r. jm_get (xw_rows w) i = Some r \<Longrightarrow> transfer_fine sl sp chain r"
    "\<And>i r j q. jm_get (xw_rows w) i = Some r \<Longrightarrow> jm_get (xw_rows w) j = Some q \<Longrightarrow>
       tr_user_id r = tr_user_id q \<Longrightarrow> tr_idempotency_key r = tr_idempotency_key q \<Longrightarrow> i = j"
    "\<And>i s. (i, s) \<in> set (xw_sent w) \<Longrightarrow> \<exists>r. jm_get (xw_rows w) i = Some r \<and> tr_signature r = Some s"
    "\<And>i r. jm_get (xw_rows w) i = Some r \<Longrightarrow> tr_id r = i"
  using assms unfolding transfers_kept_def transfers_ok_def by blast+

lemma transfer_patched_fixed [simp]:
  "tr_id (transfer_patched p now r) = tr_id r" "tr_user_id (transfer_patched p now r) = tr_user_id r"
  "tr_from_wallet (transfer_patched p now r) = tr_from_wallet r" "tr_to_wallet (transfer_patched p now r) = tr_to_wallet r"
  "tr_amount_base_units (transfer_patched p now r) = tr_amount_base_units r" "tr_prepared (transfer_patched p now r) = tr_prepared r"
  "tr_idempotency_key (transfer_patched p now r) = tr_idempotency_key r"
  by (simp_all add: transfer_patched_def)

lemma terms_patched [simp]:
  "row_built sl sp (transfer_patched p now r) = row_built sl sp r"
  "own_approval sl (transfer_patched p now r) payload = own_approval sl r payload"
  "row_lookup sl c (transfer_patched p now r) s = row_lookup sl c r s"
  "proved_failed chain t (transfer_patched p now r) s l = proved_failed chain t r s l"
  by (simp_all add: row_built_def own_approval_def row_lookup_def proved_failed_def split: sum.split bool.split)

lemma patched_fields [simp]:
  "tr_state (transfer_patched fail_patch now r) = Failed_transfer" "tr_signature (transfer_patched fail_patch now r) = tr_signature r"
  "tr_signed_transaction (transfer_patched fail_patch now r) = tr_signed_transaction r"
  "tr_confirm_evidence (transfer_patched fail_patch now r) = tr_confirm_evidence r"
  "tr_state (transfer_patched (approve_patch payload s) now r) = Submitted_transfer"
  "tr_signature (transfer_patched (approve_patch payload s) now r) = Some s"
  "tr_signed_transaction (transfer_patched (approve_patch payload s) now r) = Some payload"
  "tr_confirm_evidence (transfer_patched (approve_patch payload s) now r) = tr_confirm_evidence r"
  "tr_state (transfer_patched (confirm_patch q s slot) now r) = Confirmed_transfer"
  "tr_signature (transfer_patched (confirm_patch q s slot) now r) = tr_signature r"
  "tr_signed_transaction (transfer_patched (confirm_patch q s slot) now r) = tr_signed_transaction r"
  "tr_confirm_evidence (transfer_patched (confirm_patch q s slot) now r) = Some \<lparr>tv_messageHash = px_messageHash (tr_prepared q), tv_signature = s,
     tv_amountBaseUnits = tr_amount_base_units q, tv_slot = slot\<rparr>"
  by (simp_all add: transfer_patched_def fail_patch_def approve_patch_def confirm_patch_def no_transfer_patch_def given_def)

lemma stored_fixed [simp]:
  "tr_id (stored_transfer now r) = tr_id r" "tr_user_id (stored_transfer now r) = tr_user_id r"
  "tr_from_wallet (stored_transfer now r) = tr_from_wallet r" "tr_to_wallet (stored_transfer now r) = tr_to_wallet r"
  "tr_idempotency_key (stored_transfer now r) = tr_idempotency_key r" "tr_state (stored_transfer now r) = Built_transfer"
  "row_built sl sp (stored_transfer now r) = row_built sl sp r" "tr_signature (stored_transfer now r) = None"
  "tr_signed_transaction (stored_transfer now r) = None" "tr_confirm_evidence (stored_transfer now r) = None"
  by (simp_all add: stored_transfer_def row_built_def)

lemma patched_fine:
  assumes "transfer_fine sl sp chain r" "allowed_patch sl chain r p"
  shows "transfer_fine sl sp chain (transfer_patched p now r)"
  using assms unfolding allowed_patch_def transfer_fine_def
  by (elim disjE conjE exE; cases "tr_signed_transaction r"; cases "tr_signature r") auto

lemma patched_row_ok:
  assumes "transfer_row_ok r" "allowed_patch sl chain r p" shows "transfer_row_ok (transfer_patched p now r)"
  using assms unfolding allowed_patch_def by (elim disjE conjE exE) (auto simp: transfer_row_ok_def)

lemma patched_transfer_later:
  assumes "transfer_fine sl sp chain r" "allowed_patch sl chain r p" shows "transfer_later r (transfer_patched p now r)"
proof -
  have "same_transfer r (transfer_patched p now r)" by (simp add: same_transfer_def transfer_patched_def)
  moreover have "\<not> settled_transfer r" using assms(2) by (auto simp: allowed_patch_def settled_transfer_def)
  moreover have "tr_state r = Submitted_transfer \<longrightarrow> tr_state (transfer_patched p now r) \<noteq> Built_transfer"
    using assms(2) by (auto simp: allowed_patch_def)
  moreover have "tr_signature r \<noteq> None \<longrightarrow> tr_signature (transfer_patched p now r) = tr_signature r \<and>
      tr_signed_transaction (transfer_patched p now r) = tr_signed_transaction r"
    using assms unfolding allowed_patch_def transfer_fine_def by (elim disjE conjE exE) (auto split: option.splits)
  ultimately show ?thesis by (simp add: transfer_later_def)
qed

lemma allowed_in_flight: "allowed_patch sl chain r p \<Longrightarrow> in_flight r"
  by (auto simp: allowed_patch_def in_flight_def)

lemma find_by_key_None:
  "transfer_by_key u key rows = None \<Longrightarrow> jm_get rows i = Some r \<Longrightarrow> tr_user_id r = u \<Longrightarrow> tr_idempotency_key r \<noteq> key"
  by (auto simp: transfer_by_key_def find_None_iff dest!: jm_get_mem)

lemma kept_put:
  assumes "transfers_kept sl sp chain w" "tr_id v = i" "transfer_fine sl sp chain v" "transfers_ok (jm_set i v (xw_rows w))"
    and "\<And>j q. jm_get (xw_rows w) j = Some q \<Longrightarrow> tr_user_id q = tr_user_id v \<Longrightarrow> tr_idempotency_key q = tr_idempotency_key v \<Longrightarrow> j = i"
    and "\<And>r. jm_get (xw_rows w) i = Some r \<Longrightarrow> tr_signature r \<noteq> None \<Longrightarrow> tr_signature v = tr_signature r"
  shows "transfers_kept sl sp chain (w\<lparr>xw_rows := jm_set i v (xw_rows w)\<rparr>)"
proof -
  note k = kept_parts[OF assms(1)]
  have get: "jm_get (jm_set i v (xw_rows w)) j = (if j = i then Some v else jm_get (xw_rows w) j)" for j by simp
  have keys: "j = l" if "jm_get (jm_set i v (xw_rows w)) j = Some r" "jm_get (jm_set i v (xw_rows w)) l = Some q"
    "tr_user_id r = tr_user_id q" "tr_idempotency_key r = tr_idempotency_key q" for j r l q
    using that assms(5) k(4) unfolding get by (metis option.inject)
  have sent: "\<exists>r. jm_get (jm_set i v (xw_rows w)) j = Some r \<and> tr_signature r = Some s" if "(j, s) \<in> set (xw_sent w)" for j s
    using k(5)[OF that] assms(6) unfolding get by (cases "j = i") auto
  have fine: "transfer_fine sl sp chain r" if "jm_get (jm_set i v (xw_rows w)) j = Some r" for j r
    using that assms(3) k(3) unfolding get by (auto split: if_splits)
  have eq: "xw_rows (w\<lparr>xw_rows := jm_set i v (xw_rows w)\<rparr>) = jm_set i v (xw_rows w)" "xw_sent (w\<lparr>xw_rows := jm_set i v (xw_rows w)\<rparr>) = xw_sent w"
    by simp_all
  have wf: "jm_wf (jm_set i v (xw_rows w))" using k(1) by simp
  show ?thesis unfolding transfers_kept_def eq
    by (intro conjI allI impI) (rule wf assms(4) | rule fine keys sent, assumption+)+
qed

lemma kept_moved:
  assumes kept: "transfers_kept sl sp chain w"
  shows "transfers_kept sl sp chain (transfer_moved sl sp chain now m w)"
proof (cases rule: transfer_move_cases[of sl sp chain now m w])
  case (new r)
  let ?v = "stored_transfer now r"
  have ok: "transfers_ok (jm_set (tr_id r) ?v (xw_rows w))"
    by (rule transfers_ok_set[OF kept_parts(2)[OF kept]])
      (use new(4) in_flight_None[OF new(5)] in \<open>auto simp: transfer_row_ok_def\<close>)
  have "transfers_kept sl sp chain (w\<lparr>xw_rows := jm_set (tr_id r) ?v (xw_rows w)\<rparr>)"
    by (rule kept_put[OF kept _ _ ok]) (use new(1,2) find_by_key_None[OF new(3)] in \<open>auto simp: transfer_fine_def\<close>)
  then show ?thesis using new(6) by simp
next
  case (patch i r p)
  let ?v = "transfer_patched p now r"
  have f: "transfer_fine sl sp chain r" and i: "tr_id r = i" and rok: "transfer_row_ok r"
    using kept_parts(2,3,6)[OF kept] patch(1) unfolding transfers_ok_def by blast+
  have ok: "transfers_ok (jm_set i ?v (xw_rows w))"
  proof (rule transfers_ok_set[OF kept_parts(2)[OF kept]])
    show "tr_id ?v = i" using i by simp
    show "transfer_row_ok ?v" by (rule patched_row_ok[OF rok patch(2)])
  next
    fix j x
    assume "jm_get (xw_rows w) j = Some x" "in_flight x" "tr_from_wallet x = tr_from_wallet ?v"
    then show "j = i" using kept_parts(2)[OF kept] patch(1) allowed_in_flight[OF patch(2)] unfolding transfers_ok_def by (metis transfer_patched_fixed(3))
  qed
  have "transfers_kept sl sp chain (w\<lparr>xw_rows := jm_set i ?v (xw_rows w)\<rparr>)"
  proof (rule kept_put[OF kept _ patched_fine[OF f patch(2)] ok])
    show "tr_id ?v = i" using i by simp
    show "j = i" if "jm_get (xw_rows w) j = Some q" "tr_user_id q = tr_user_id ?v" "tr_idempotency_key q = tr_idempotency_key ?v" for j q
      using kept_parts(4)[OF kept that(1) patch(1)] that(2,3) by simp
    show "tr_signature ?v = tr_signature q" if "jm_get (xw_rows w) i = Some q" "tr_signature q \<noteq> None" for q
      using patched_transfer_later[OF f patch(2)] that patch(1) by (simp add: transfer_later_def)
  qed
  then show ?thesis using patch(3) by simp
next
  case (sent i r s)
  then show ?thesis using kept unfolding transfers_kept_def by auto
qed (use kept in simp)

lemma moved_later:
  assumes "transfers_kept sl sp chain w" "jm_get (xw_rows w) i = Some r"
  shows "\<exists>q. jm_get (xw_rows (transfer_moved sl sp chain now m w)) i = Some q \<and> transfer_later r q"
proof (cases rule: transfer_move_cases[of sl sp chain now m w])
  case (new x)
  then show ?thesis using assms(2) by (cases "i = tr_id x") auto
next
  case (patch j x p)
  then show ?thesis using assms(2) patched_transfer_later[OF kept_parts(3)[OF assms(1) patch(1)] patch(2)] by (cases "i = j") auto
qed (use assms(2) in auto)

section \<open>Operations are moves\<close>

interpretation transfer_ledger: moved_ledger "transfer_moved sl sp chain now" "transfers_kept sl sp chain" "\<lambda>w. jm_get (xw_rows w)"
    "\<lambda>_. True" transfer_later for sl sp chain now
  by unfold_locales (fact kept_moved moved_later transfer_later_refl | rule TrueI | erule (1) transfer_later_trans)+

definition transfer_moves :: "transfer_env \<Rightarrow> transfer_world \<Rightarrow> transfer_world \<Rightarrow> bool" where
  "transfer_moves e = moved_by (transfer_moved (xe_sl e) (xe_spl e) (xe_chain e) (xe_now e))"

abbreviation kept_in :: "transfer_env \<Rightarrow> transfer_world \<Rightarrow> bool" where
  "kept_in e \<equiv> transfers_kept (xe_sl e) (xe_spl e) (xe_chain e)"

lemma tmoves_refl [simp]: "transfer_moves e w w"
  by (simp add: transfer_moves_def)

lemma tmoves_trans: "transfer_moves e u v \<Longrightarrow> transfer_moves e v w \<Longrightarrow> transfer_moves e u w"
  unfolding transfer_moves_def by (rule moved_by_trans)

lemma tmoves_raced [simp]: "transfer_moves e w (transfer_raced e w)"
  by (simp add: transfer_moves_def transfer_raced_def)

lemma tmoves_one: "transfer_moved (xe_sl e) (xe_spl e) (xe_chain e) (xe_now e) m w = w' \<Longrightarrow> transfer_moves e w w'"
  unfolding transfer_moves_def using moved_by_one by metis

lemma tmoves_kept: "transfer_moves e w w' \<Longrightarrow> kept_in e w \<Longrightarrow> kept_in e w'"
  unfolding transfer_moves_def by (rule transfer_ledger.moved_keeps)

lemma tmoves_later: "transfer_moves e w w' \<Longrightarrow> kept_in e w \<Longrightarrow> jm_get (xw_rows w) i = Some r \<Longrightarrow>
    \<exists>q. jm_get (xw_rows w') i = Some q \<and> transfer_later r q"
  unfolding transfer_moves_def by (rule transfer_ledger.moved_advances)

text \<open>A row read earlier is still there, perhaps further on.\<close>

definition seen :: "transfer_row \<Rightarrow> transfer_world \<Rightarrow> bool" where
  "seen r w \<longleftrightarrow> (\<exists>q. jm_get (xw_rows w) (tr_id r) = Some q \<and> transfer_later r q)"

lemma seen_moves: "seen r w \<Longrightarrow> kept_in e w \<Longrightarrow> transfer_moves e w w' \<Longrightarrow> seen r w'"
  unfolding seen_def using tmoves_later transfer_later_trans by blast

lemma seen_row: "kept_in e w \<Longrightarrow> jm_get (xw_rows w) i = Some r \<Longrightarrow> seen r w \<and> tr_id r = i"
  using kept_parts(6) by (auto simp: seen_def simp del: map_of_eq_Some_iff)

lemma seen_found:
  assumes "kept_in e w" "find P (jm_values (xw_rows w)) = Some r" shows "seen r w"
proof -
  obtain k where "(k, r) \<in> set (xw_rows w)" using assms(2) by (auto simp: find_Some_iff) (metis nth_mem prod.collapse)
  then have "jm_get (xw_rows w) k = Some r" using kept_parts(1)[OF assms(1)] by (rule jm_get_in[rotated])
  then show ?thesis using seen_row[OF assms(1)] by blast
qed

lemma seen_by_key: "kept_in e w \<Longrightarrow> transfer_by_key u key (xw_rows w) = Some r \<Longrightarrow> seen r w"
  unfolding transfer_by_key_def by (rule seen_found)

lemma seen_in_flight: "kept_in e w \<Longrightarrow> in_flight_from wal (xw_rows w) = Some r \<Longrightarrow> seen r w"
  unfolding in_flight_from_def by (rule seen_found)

lemma seen_by_id: "kept_in e w \<Longrightarrow> transfer_by_id u i (xw_rows w) = Some r \<Longrightarrow> jm_get (xw_rows w) i = Some r \<and> seen r w \<and> tr_id r = i"
  using seen_row by (auto simp: transfer_by_id_def split: option.splits if_splits)

lemma later_terms:
  assumes "transfer_later r q"
  shows "tr_id q = tr_id r" "tr_prepared q = tr_prepared r" "own_approval sl q = own_approval sl r" "row_lookup sl c q = row_lookup sl c r"
    "proved_failed chain t q = proved_failed chain t r" "confirm_patch q = confirm_patch r"
proof -
  have "same_transfer r q" using assms by (simp add: transfer_later_def)
  then have t: "tr_id q = tr_id r" "tr_prepared q = tr_prepared r" "tr_from_wallet q = tr_from_wallet r" "tr_to_wallet q = tr_to_wallet r"
      "tr_amount_base_units q = tr_amount_base_units r"
    by (cases r; cases q; simp add: same_transfer_def)+
  show "tr_id q = tr_id r" "tr_prepared q = tr_prepared r" using t by simp_all
  show "own_approval sl q = own_approval sl r" "row_lookup sl c q = row_lookup sl c r" "proved_failed chain t q = proved_failed chain t r"
      "confirm_patch q = confirm_patch r"
    by (intro ext; simp add: own_approval_def row_lookup_def proved_failed_def confirm_patch_def t split: sum.split bool.split)+
qed

lemma snd_update [simp]: "snd (update_transfer e i s p w) = patch_transfer (xe_now e) i s p w"
  by (cases "transfer_update (xe_now e) i s p (xw_rows w)") (auto simp: update_transfer_def patch_transfer_def split: sum.splits)

lemma patch_at: "tr_state r \<noteq> s \<Longrightarrow> jm_get (xw_rows w) i = Some r \<Longrightarrow> patch_transfer now i s p w = w"
  by (simp add: patch_transfer_def transfer_update_def)

lemma moves_retire:
  assumes "seen r w" "px_expiresAt (tr_prepared r) \<le> xe_now e"
  shows "transfer_moves e w (patch_transfer (xe_now e) (tr_id r) Built_transfer fail_patch w)"
proof -
  obtain q where q: "jm_get (xw_rows w) (tr_id r) = Some q" "transfer_later r q" using assms(1) unfolding seen_def by blast
  show ?thesis by (rule tmoves_one[of e "Xm_retire (tr_id r)"])
    (simp add: transfer_moved_def move_id_def move_row_def q(1) later_terms[OF q(2)] assms(2) del: map_of_eq_Some_iff)
qed

lemma moves_approve:
  assumes "seen r w" "\<not> px_expiresAt (tr_prepared r) \<le> xe_now e" "own_approval (xe_sl e) r payload = Some a"
  shows "transfer_moves e w (patch_transfer (xe_now e) (tr_id r) Built_transfer (approve_patch payload (sg_signature a)) w)"
proof -
  obtain q where q: "jm_get (xw_rows w) (tr_id r) = Some q" "transfer_later r q" using assms(1) unfolding seen_def by blast
  show ?thesis by (rule tmoves_one[of e "Xm_approve (tr_id r) payload"])
    (use assms(2,3) in \<open>simp add: transfer_moved_def move_id_def move_row_def q(1) later_terms[OF q(2)] del: map_of_eq_Some_iff\<close>)
qed

text \<open>A submitted row keeps its signature, so what was read of the chain for it still speaks of it.\<close>

lemma later_signature: "transfer_later r q \<Longrightarrow> tr_signature r = Some s \<Longrightarrow> tr_signature q = Some s"
  by (simp add: transfer_later_def)

lemma moves_confirm:
  assumes "seen r w" "tr_signature r = Some s" "row_lookup (xe_sl e) (xe_chain e t) r s = Inr (Lookup_confirmed slot)"
  shows "transfer_moves e w (patch_transfer (xe_now e) (tr_id r) Submitted_transfer (confirm_patch r s slot) w)"
proof -
  obtain q where q: "jm_get (xw_rows w) (tr_id r) = Some q" "transfer_later r q" using assms(1) unfolding seen_def by blast
  show ?thesis by (rule tmoves_one[of e "Xm_confirm (tr_id r) t"])
    (use assms(3) later_signature[OF q(2) assms(2)] in
      \<open>simp add: transfer_moved_def move_id_def move_row_def q(1) later_terms[OF q(2)] del: map_of_eq_Some_iff\<close>)
qed

lemma moves_fail_proved:
  assumes "seen r w" "tr_signature r = Some s" "row_lookup (xe_sl e) (xe_chain e t) r s = Inr lookup"
    "proved_failed (xe_chain e) (t + 1) r s lookup = Inr True"
  shows "transfer_moves e w (patch_transfer (xe_now e) (tr_id r) Submitted_transfer fail_patch w)"
proof -
  obtain q where q: "jm_get (xw_rows w) (tr_id r) = Some q" "transfer_later r q" using assms(1) unfolding seen_def by blast
  show ?thesis by (rule tmoves_one[of e "Xm_fail (tr_id r) t"])
    (use assms(3,4) later_signature[OF q(2) assms(2)] in
      \<open>simp add: transfer_moved_def move_id_def move_row_def q(1) later_terms[OF q(2)] del: map_of_eq_Some_iff\<close>)
qed

lemma snd_or_row [simp]: "snd (or_row r x) = snd x"
  by (cases x; cases "fst x") (auto simp: or_row_def split: option.splits)

lemma reconcile_moves:
  assumes "kept_in e w" "seen r w" shows "transfer_moves e w (snd (transfer_reconcile e r w))"
proof (cases "tr_signature r")
  case None
  then show ?thesis by (cases "tr_state r") (simp_all add: transfer_reconcile_def)
next
  case (Some s)
  let ?w = "transfer_raced e w"
  have seen: "seen r ?w" by (rule seen_moves[OF assms(2,1) tmoves_raced])
  show ?thesis
  proof (cases "tr_state r = Submitted_transfer \<and> xe_hasChain e")
    case True
    show ?thesis
    proof (cases "row_lookup (xe_sl e) (xe_chain e (xe_moment e)) r s")
      case (Inr lookup)
      have fail: "transfer_moves e w (patch_transfer (xe_now e) (tr_id r) Submitted_transfer fail_patch ?w)"
        if "proved_failed (xe_chain e) (xe_moment e + 1) r s lookup = Inr True"
        by (rule tmoves_trans[OF tmoves_raced moves_fail_proved[OF seen Some Inr that]])
      show ?thesis
      proof (cases "\<exists>slot. lookup = Lookup_confirmed slot")
        case True
        then obtain slot where l: "lookup = Lookup_confirmed slot" by blast
        show ?thesis using \<open>tr_state r = Submitted_transfer \<and> xe_hasChain e\<close> Some Inr
            tmoves_trans[OF tmoves_raced moves_confirm[OF seen Some Inr[unfolded l]]] by (simp add: transfer_reconcile_def l)
      next
        case False
        then have eq: "transfer_reconcile e r w = (case proved_failed (xe_chain e) (xe_moment e + 1) r s lookup of
             Inl x \<Rightarrow> (Inl x, w)
           | Inr True \<Rightarrow> or_row r (update_transfer e (tr_id r) Submitted_transfer fail_patch ?w)
           | Inr False \<Rightarrow> (Inr r, w))"
          using True Some Inr by (cases lookup) (simp_all add: transfer_reconcile_def)
        show ?thesis using fail unfolding eq by (cases "proved_failed (xe_chain e) (xe_moment e + 1) r s lookup") (auto split: bool.split)
      qed
    qed (use True Some in \<open>simp add: transfer_reconcile_def\<close>)
  next
    case False
    then show ?thesis using Some by (cases "tr_state r") (auto simp: transfer_reconcile_def transfer_fail_def)
  qed
qed

lemma free_moves:
  assumes "kept_in e w" shows "transfer_moves e w (snd (assertNothingInFlight e wal w))"
proof (cases "in_flight_from wal (xw_rows w)")
  case (Some f)
  have f: "seen f w" by (rule seen_in_flight[OF assms Some])
  have m: "transfer_moves e w (patch_transfer (xe_now e) (tr_id f) Built_transfer fail_patch (transfer_raced e w))"
    if "px_expiresAt (tr_prepared f) \<le> xe_now e"
    using tmoves_trans[OF tmoves_raced moves_retire[OF seen_moves[OF f assms tmoves_raced] that]] .
  show ?thesis
  proof (cases "tr_state f = Built_transfer \<and> px_expiresAt (tr_prepared f) \<le> xe_now e")
    case True
    let ?u = "update_transfer e (tr_id f) Built_transfer fail_patch (transfer_raced e w)"
    have "snd (assertNothingInFlight e wal w) = snd ?u"
      using Some True by (cases ?u; cases "fst ?u") (auto simp: assertNothingInFlight_def transfer_fail_def split: option.splits)
    then show ?thesis using m True by simp
  qed (use Some in \<open>auto simp: assertNothingInFlight_def transfer_fail_def\<close>)
qed (simp add: assertNothingInFlight_def)

lemma fresh_id: "jm_get rows (fresh_id seed rows) = None"
proof (cases "jm_get rows seed = None")
  case False
  have "length k \<le> sum_list (map (\<lambda>kv. length (fst kv)) rows)" if "jm_get rows k = Some r" for k r
  proof -
    have "(k, r) \<in> set rows" using that by (rule map_of_SomeD)
    then have "length (fst (k, r)) \<in> set (map (\<lambda>kv. length (fst kv)) rows)" by (simp add: rev_image_eqI)
    then show ?thesis using member_le_sum_list[of "length k"] by simp
  qed
  from this[of "fresh_id seed rows"] False show ?thesis
    by (cases "jm_get rows (fresh_id seed rows)") (auto simp: fresh_id_def simp del: map_of_eq_Some_iff)
qed (simp add: fresh_id_def)

lemma store_review_moves:
  assumes "kept_in e w" and to: "rv_to v \<noteq> []" "list_all base58_char (rv_to v)"
  shows "transfer_moves e w (snd (store_review e u i v bh rent w))"
proof (cases "checkUsdcTransfer (xe_sl e) (sl_fromBase64 (xe_sl e) (px_transaction (prepared_of e v bh rent))) v")
  case True
  let ?p = "prepared_of e v bh rent" and ?w = "transfer_raced e w"
  let ?r = "intent_transfer e u i ?p (xw_rows ?w)"
  let ?x = "transfer_insert (xe_now e) ?r (xw_rows ?w)"
  have kept: "kept_in e ?w" by (rule tmoves_kept[OF tmoves_raced assms(1)])
  have b: "row_built (xe_sl e) (xe_spl e) ?r"
    using True to by (cases v) (simp add: row_built_def intent_transfer_def prepared_of_def review_of_def Let_def split: prod.splits)
  have ins: "transfer_moves e w (?w\<lparr>xw_rows := snd ?x\<rparr>)"
    by (rule tmoves_trans[OF tmoves_raced tmoves_one[of e "Xm_insert ?r"]])
      (use b fresh_id[of "xw_rows ?w" "xe_newId e"] in \<open>simp add: transfer_moved_def intent_transfer_def\<close>)
  have eq: "snd (store_review e u i v bh rent w) =
      (case fst ?x of Inl _ \<Rightarrow> snd (assertNothingInFlight e (rv_from v) (?w\<lparr>xw_rows := snd ?x\<rparr>))
       | Inr (Some _) \<Rightarrow> ?w\<lparr>xw_rows := snd ?x\<rparr> | Inr None \<Rightarrow> ?w)"
    using True by (simp add: store_review_def Let_def case_prod_beta transfer_fail_def split: sum.splits option.splits)
  show ?thesis unfolding eq
    using ins tmoves_trans[OF ins free_moves[OF tmoves_kept[OF ins assms(1)]]] by (auto split: sum.split option.split)
qed (simp add: store_review_def Let_def)

lemma replay_moves:
  assumes "kept_in e w" "seen r w" shows "transfer_moves e w (snd (replay_transfer e i r w))"
  using reconcile_moves[OF assms] tmoves_trans[OF tmoves_raced moves_retire[OF seen_moves[OF assms(2,1) tmoves_raced]]]
  by (cases "transfer_reconcile e r w"; cases "fst (transfer_reconcile e r w)") (auto simp: replay_transfer_def transfer_fail_def)

lemma transfer_prepare_moves:
  assumes "kept_in e w" shows "transfer_moves e w (snd (transfer_prepare e u i w))"
proof (cases "transfer_by_key u (tn_idempotencyKey i) (xw_rows w)")
  case (Some r)
  show ?thesis using replay_moves[OF assms seen_by_key[OF assms Some]] Some by (auto simp: transfer_prepare_def Let_def)
next
  case None
  let ?x = "assertNothingInFlight e (dw_address (tn_from i)) w" and ?c = "review_checks e u i (addressShape (xe_addressKey e) (tn_to i))"
  have x: "transfer_moves e w (snd ?x)" by (rule free_moves[OF assms])
  have st: "transfer_moves e w (snd (store_review e u i v bh rent (snd ?x)))" if "?c = Inr (Inr (v, bh, rent))" for v bh rent
  proof (rule tmoves_trans[OF x store_review_moves[OF tmoves_kept[OF x assms]]])
    have t: "rv_to v = tn_to i" "addressShape (xe_addressKey e) (tn_to i) = Wallet_address"
      using that by (auto simp: review_checks_def Let_def split: if_splits option.splits sum.splits)
    then show "rv_to v \<noteq> []" "list_all base58_char (rv_to v)" by (auto simp: addressShape_def split: if_splits)
  qed
  have "snd (transfer_prepare e u i w) \<in> {w, snd ?x} \<or>
      (\<exists>v bh rent. ?c = Inr (Inr (v, bh, rent)) \<and> snd (transfer_prepare e u i w) = snd (store_review e u i v bh rent (snd ?x)))"
    using None by (cases ?x; cases "fst ?x"; cases ?c) (auto simp: transfer_prepare_def Let_def split: sum.splits)
  then show ?thesis using x st by auto
qed

lemma sent_moves: "jm_get (xw_rows w) i = Some r \<Longrightarrow> tr_signature r = Some s \<Longrightarrow> transfer_moves e w (send_transfer i s w)"
  by (rule tmoves_one[of e "Xm_send i"]) (simp add: transfer_moved_def move_id_def move_row_def del: map_of_eq_Some_iff)

lemma broadcast_moves:
  assumes "jm_get (xw_rows w) (tr_id r) = Some r" "tr_signature r = Some s" shows "transfer_moves e w (snd (broadcast_saved e r s w))"
  using sent_moves[OF assms] by (simp add: broadcast_saved_def)

lemma save_moves:
  assumes "kept_in e w" "seen r w" "own_approval (xe_sl e) r payload = Some a"
  shows "transfer_moves e w (snd (save_transfer_approval e u payload (sg_signature a) r w))"
proof (cases "px_expiresAt (tr_prepared r) \<le> xe_now e")
  case False
  let ?w = "transfer_raced e w"
  let ?x = "update_transfer e (tr_id r) Built_transfer (approve_patch payload (sg_signature a)) ?w"
  have m: "transfer_moves e w (snd ?x)"
    using tmoves_trans[OF tmoves_raced moves_approve[OF seen_moves[OF assms(2,1) tmoves_raced] False assms(3)]] by simp
  have kept: "kept_in e (snd ?x)" by (rule tmoves_kept[OF m assms(1)])
  have send: "transfer_moves e w (snd (broadcast_saved e q (sg_signature a) (snd ?x)))"
    if "jm_get (xw_rows (snd ?x)) (tr_id q) = Some q" "same_approval q payload (sg_signature a)" for q
    by (rule tmoves_trans[OF m broadcast_moves[OF that(1)]]) (use that(2) in \<open>simp add: same_approval_def\<close>)
  have found: "jm_get (xw_rows (snd ?x)) (tr_id q) = Some q" if "transfer_by_id u (tr_id r) (xw_rows (snd ?x)) = Some q" for q
    using seen_by_id[OF kept that] by simp
  have saved: "jm_get (xw_rows (snd ?x)) (tr_id q) = Some q" if "fst ?x = Inr (Some q)" for q
  proof (cases rule: transfer_update_wrote[of "xe_now e" "tr_id r" Built_transfer "approve_patch payload (sg_signature a)" "xw_rows ?w"])
    case refused
    then show ?thesis using that
      by (cases "transfer_update (xe_now e) (tr_id r) Built_transfer (approve_patch payload (sg_signature a)) (xw_rows ?w)")
        (auto simp: update_transfer_def split: sum.splits)
  next
    case (wrote x)
    have "tr_id x = tr_id r" using kept_parts(6)[OF tmoves_kept[OF tmoves_raced assms(1)] wrote(1)] .
    then show ?thesis using that wrote by (auto simp: update_transfer_def)
  qed
  have "snd (save_transfer_approval e u payload (sg_signature a) r w) = snd ?x \<or>
      (\<exists>q. (fst ?x = Inr (Some q) \<or> transfer_by_id u (tr_id r) (xw_rows (snd ?x)) = Some q) \<and> same_approval q payload (sg_signature a) \<and>
         snd (save_transfer_approval e u payload (sg_signature a) r w) = snd (broadcast_saved e q (sg_signature a) (snd ?x)))"
    using False unfolding save_transfer_approval_def
    by (cases ?x; cases "fst ?x") (auto simp: transfer_fail_def simp del: snd_update split: option.splits)
  then show ?thesis using m send saved found by metis
qed (simp add: save_transfer_approval_def transfer_fail_def)

lemma transfer_submit_moves:
  assumes "kept_in e w" shows "transfer_moves e w (snd (transfer_submit e u i payload w))"
proof (cases "transfer_by_id u i (xw_rows w)")
  case (Some r)
  have r: "jm_get (xw_rows w) i = Some r" "seen r w" "tr_id r = i" using seen_by_id[OF assms Some] by simp_all
  have fine: "transfer_fine (xe_sl e) (xe_spl e) (xe_chain e) r" by (rule kept_parts(3)[OF assms r(1)])
  show ?thesis
  proof (cases "own_approval (xe_sl e) r payload")
    case (Some a)
    have send: "transfer_moves e w (snd (broadcast_saved e r (sg_signature a) w))" if "tr_signature r = Some (sg_signature a)"
      by (rule broadcast_moves) (use r that in simp_all)
    have sub: "tr_signature r \<noteq> None" if "tr_state r = Submitted_transfer"
      using fine that by (auto simp: transfer_fine_def split: option.splits)
    show ?thesis using save_moves[OF assms r(2) Some, of u] send sub Some \<open>transfer_by_id u i (xw_rows w) = Some r\<close>
      by (cases "tr_state r") (auto simp: transfer_submit_def transfer_fail_def same_approval_def)
  qed (use Some in \<open>simp add: transfer_submit_def transfer_fail_def\<close>)
qed (simp add: transfer_submit_def transfer_fail_def)

lemma transfer_status_moves:
  assumes "kept_in e w" shows "transfer_moves e w (snd (transfer_status e u i w))"
proof (cases "transfer_by_id u i (xw_rows w)")
  case (Some r)
  then show ?thesis using reconcile_moves[OF assms, of r] seen_by_id[OF assms Some]
    by (cases "transfer_reconcile e r w"; cases "fst (transfer_reconcile e r w)") (auto simp: transfer_status_def)
qed (simp add: transfer_status_def transfer_fail_def)

lemma snd_sweep_transfer [simp]: "snd (sweep_transfer e r x) = snd (transfer_reconcile e r (snd x))"
  by (cases x; cases "transfer_reconcile e r (snd x)"; cases "fst (transfer_reconcile e r (snd x))") (auto simp: sweep_transfer_def)

lemma sweep_transfers_moves:
  assumes "kept_in e w" shows "transfer_moves e w (snd (sweep_transfers e w))"
proof -
  have "transfer_moves e w (snd (fold (sweep_transfer e) rs (rep, v)))" if "transfer_moves e w v" "\<And>r. r \<in> set rs \<Longrightarrow> seen r w" for rs rep v
    using that
  proof (induction rs arbitrary: rep v)
    case (Cons r rs)
    have "seen r v" by (rule seen_moves[OF _ assms Cons.prems(1)]) (simp add: Cons.prems(2))
    then have "transfer_moves e w (snd (sweep_transfer e r (rep, v)))"
      using tmoves_trans[OF Cons.prems(1) reconcile_moves[OF tmoves_kept[OF Cons.prems(1) assms]]] by simp
    then show ?case
      using Cons.IH[of "snd (sweep_transfer e r (rep, v))" "fst (sweep_transfer e r (rep, v))"] Cons.prems(2)
      by (simp del: snd_sweep_transfer)
  qed simp
  moreover have "seen r w" if "r \<in> set (transfers_submitted 50 (xw_rows w))" for r
  proof -
    have "r \<in> set (jm_values (xw_rows w))" using that by (auto simp: transfers_submitted_def dest!: in_set_takeD)
    then obtain k where "(k, r) \<in> set (xw_rows w)" by auto
    then show ?thesis using seen_row[OF assms] jm_get_in[OF kept_parts(1)[OF assms]] by blast
  qed
  ultimately show ?thesis by (simp add: sweep_transfers_def Let_def)
qed

section \<open>Requests\<close>

datatype transfer_request =
    Cash_out_request string deposit_wallet string string string
  | Deposit_request deposit_person deposit_wallet string string string
  | Submit_request string string string
  | Status_request string string
  | Sweep_request

fun serve_transfer :: "transfer_env \<Rightarrow> transfer_request \<Rightarrow> transfer_world \<Rightarrow> transfer_world" where
  "serve_transfer e (Cash_out_request u d dest amount key) w = snd (cashOut e u d dest amount key w)"
| "serve_transfer e (Deposit_request p d source amount key) w = snd (depositFromWallet e p d source amount key w)"
| "serve_transfer e (Submit_request u i payload) w = snd (transfer_submit e u i payload w)"
| "serve_transfer e (Status_request u i) w = snd (transfer_status e u i w)"
| "serve_transfer e Sweep_request w = snd (sweep_transfers e w)"

text \<open>Requests over one chain, with one set of libraries, each with its own surroundings and interleaving.\<close>

definition run_transfers :: "solana \<Rightarrow> spl \<Rightarrow> (nat \<Rightarrow> rpc) \<Rightarrow> (transfer_env \<times> transfer_request) list \<Rightarrow> transfer_world" where
  "run_transfers sl sp chain reqs =
     fold (\<lambda>(e, q). serve_transfer (e\<lparr>xe_sl := sl, xe_spl := sp, xe_chain := chain\<rparr>) q) reqs \<lparr>xw_rows = [], xw_sent = []\<rparr>"

lemma serve_moves:
  assumes "kept_in e w" shows "transfer_moves e w (serve_transfer e q w)"
  by (cases q) (use assms in \<open>auto simp: cashOut_def depositFromWallet_def transfer_prepare_moves transfer_submit_moves
    transfer_status_moves sweep_transfers_moves split: option.split\<close>)

lemma run_kept: "transfers_kept sl sp chain (run_transfers sl sp chain reqs)"
proof -
  have "transfers_kept sl sp chain (fold (\<lambda>(e, q). serve_transfer (e\<lparr>xe_sl := sl, xe_spl := sp, xe_chain := chain\<rparr>) q) reqs w)"
    if "transfers_kept sl sp chain w" for w
    using that
  proof (induction reqs arbitrary: w)
    case (Cons eq reqs)
    obtain e q where eq: "eq = (e, q)" by (cases eq)
    let ?e = "e\<lparr>xe_sl := sl, xe_spl := sp, xe_chain := chain\<rparr>"
    have "transfers_kept sl sp chain (serve_transfer ?e q w)"
      using tmoves_kept[OF serve_moves, of ?e w q] Cons.prems by simp
    then show ?case using Cons.IH eq by simp
  qed simp
  moreover have "transfers_kept sl sp chain \<lparr>xw_rows = [], xw_sent = []\<rparr>" by (simp add: transfers_kept_def transfers_ok_def)
  ultimately show ?thesis by (simp add: run_transfers_def)
qed

lemma distinct_values:
  assumes "distinct (map fst m)"
    "\<And>j q k r. (j, q) \<in> set m \<Longrightarrow> (k, r) \<in> set m \<Longrightarrow> P q \<Longrightarrow> P r \<Longrightarrow> f q = f r \<Longrightarrow> j = k"
  shows "distinct (map f (filter P (jm_values m)))"
  using assms
proof (induction m)
  case (Cons x m)
  obtain k r where x: "x = (k, r)" by (cases x)
  have "f r \<notin> f ` {q \<in> set (jm_values m). P q}" if "P r"
  proof
    assume "f r \<in> f ` {q \<in> set (jm_values m). P q}"
    then obtain j q where q: "(j, q) \<in> set m" "P q" "f q = f r" by auto
    then have "j = k" using Cons.prems(2)[of j q k r] x that by simp
    then show False using Cons.prems(1) q(1) x by (auto intro: rev_image_eqI)
  qed
  moreover have "distinct (map f (filter P (jm_values m)))" using Cons.IH Cons.prems by (metis distinct.simps(2) list.set_intros(2) list.simps(9))
  ultimately show ?case using x by auto
qed simp

text \<open>C28: A transfer is the one approval stored before it is sent. Whatever was asked of the transfer service,
  and however requests interleaved, every broadcast carries the signature saved on its row, which is the
  owner's over the row's stored message; every row holds the transaction built and checked for its own
  terms; at most one transfer in flight leaves a wallet, and a person's key names one transfer.\<close>

theorem transfers_durable:
  "case run_transfers sl sp chain reqs of w \<Rightarrow>
     list_all (\<lambda>(i, s). case jm_get (xw_rows w) i of None \<Rightarrow> False | Some r \<Rightarrow> tr_signature r = Some s \<and>
        (case tr_signed_transaction r of None \<Rightarrow> False | Some payload \<Rightarrow> map_option sg_signature (own_approval sl r payload) = Some s))
       (xw_sent w) \<and>
     list_all (row_built sl sp) (jm_values (xw_rows w)) \<and>
     distinct (map tr_from_wallet (filter in_flight (jm_values (xw_rows w)))) \<and>
     distinct (map (\<lambda>r. (tr_user_id r, tr_idempotency_key r)) (jm_values (xw_rows w)))"
proof -
  define w where "w = run_transfers sl sp chain reqs"
  have kept: "transfers_kept sl sp chain w" using run_kept by (simp add: w_def)
  have sent: "case jm_get (xw_rows w) i of None \<Rightarrow> False | Some r \<Rightarrow> tr_signature r = Some s \<and>
        (case tr_signed_transaction r of None \<Rightarrow> False | Some payload \<Rightarrow> map_option sg_signature (own_approval sl r payload) = Some s)"
    if "(i, s) \<in> set (xw_sent w)" for i s
  proof -
    note in_log = kept_parts(5)[OF kept that]
    obtain r where r: "jm_get (xw_rows w) i = Some r" "tr_signature r = Some s" using in_log by blast
    show ?thesis using kept_parts(3)[OF kept r(1)] r by (auto simp: transfer_fine_def split: option.splits)
  qed
  have get: "jm_get (xw_rows w) k = Some r" if "(k, r) \<in> set (xw_rows w)" for k r using jm_get_in[OF kept_parts(1)[OF kept] that] .
  have built: "row_built sl sp r" if "(k, r) \<in> set (xw_rows w)" for k r
    using kept_parts(3)[OF kept get[OF that]] by (simp add: transfer_fine_def)
  have d: "distinct (map fst (xw_rows w))" using kept_parts(1)[OF kept] by simp
  have f: "distinct (map tr_from_wallet (filter in_flight (jm_values (xw_rows w))))"
  proof (rule distinct_values[OF d])
    show "j = k" if "(j, q) \<in> set (xw_rows w)" "(k, r) \<in> set (xw_rows w)" "in_flight q" "in_flight r" "tr_from_wallet q = tr_from_wallet r" for j q k r
      using kept_parts(2)[OF kept] get that unfolding transfers_ok_def by blast
  qed
  have u: "distinct (map (\<lambda>r. (tr_user_id r, tr_idempotency_key r)) (filter (\<lambda>_. True) (jm_values (xw_rows w))))"
    by (rule distinct_values[OF d]) (use kept_parts(4)[OF kept] get in auto)
  show ?thesis unfolding w_def[symmetric] using sent built f u by (auto simp: list_all_iff)
qed

section \<open>What was sent moves what was reviewed\<close>

text \<open>
  What the code relies on of the libraries: a built transaction parses back, the digest of a built message
  stands for that message, and addresses are texts without commas.
\<close>

definition built_parses :: "solana \<Rightarrow> spl \<Rightarrow> bool" where
  "built_parses sl sp \<longleftrightarrow>
     (\<forall>v b. sl_deserialize sl (sl_fromBase64 sl (fst (buildUsdcTransfer sl sp v b))) = Some (unsigned_tx (transfer_message sl sp v b)))"

definition hash_binds :: "solana \<Rightarrow> spl \<Rightarrow> bool" where
  "hash_binds sl sp \<longleftrightarrow> (\<forall>v b m. sl_hash sl m = sl_hash sl (transfer_message sl sp v b) \<longrightarrow> m = transfer_message sl sp v b)"

definition plain_addresses :: "solana \<Rightarrow> spl \<Rightarrow> bool" where
  "plain_addresses sl sp \<longleftrightarrow> (\<forall>v b. list_all plain (tm_staticAccountKeys (transfer_message sl sp v b))) \<and>
     (\<forall>x. plain (sl_usdcAccount sl x)) \<and> plain (sl_systemProgram sl) \<and> plain (sl_tokenProgram sl)"

definition row_review :: "transfer_row \<Rightarrow> transfer_review" where
  "row_review r = \<lparr>rv_from = tr_from_wallet r, rv_to = tr_to_wallet r, rv_amountBaseUnits = tr_amount_base_units r,
     rv_createsAccount = px_createsAccount (tr_prepared r)\<rparr>"

lemma built_moves:
  assumes "built_parses sl sp" "plain_addresses sl sp" "row_built sl sp r"
  shows "moves_exactly sl (row_review r) (transfer_message sl sp (row_review r) (px_recentBlockhash (tr_prepared r)))"
    "px_messageHash (tr_prepared r) = sl_hash sl (transfer_message sl sp (row_review r) (px_recentBlockhash (tr_prepared r)))"
proof -
  let ?b = "px_recentBlockhash (tr_prepared r)" let ?m = "transfer_message sl sp (row_review r) ?b"
  have v: "review_of (tr_prepared r) = row_review r" using assms(3) by (simp add: row_built_def review_of_def row_review_def Let_def)
  have p: "(px_transaction (tr_prepared r), px_messageHash (tr_prepared r)) = buildUsdcTransfer sl sp (row_review r) ?b"
    and c: "checkUsdcTransfer sl (sl_fromBase64 sl (px_transaction (tr_prepared r))) (row_review r)"
    using assms(3) by (simp_all add: row_built_def v Let_def)
  have d: "sl_deserialize sl (sl_fromBase64 sl (px_transaction (tr_prepared r))) = Some (unsigned_tx ?m)"
    using assms(1) p unfolding built_parses_def by (metis fst_conv)
  have keys: "list_all plain (tm_staticAccountKeys (sx_message (unsigned_tx ?m)))" using assms(2) by (simp add: plain_addresses_def unsigned_tx_def)
  have "first_key (sx_message (unsigned_tx ?m)) = Some (rv_from (row_review r))" using c d by (auto simp: checkUsdcTransfer_def Let_def)
  then have "rv_from (row_review r) \<in> set (tm_staticAccountKeys (sx_message (unsigned_tx ?m)))" by (auto simp: first_key_def split: list.splits)
  then have "plain (rv_from (row_review r))" using keys by (auto simp: list_all_iff)
  moreover have "plain (rv_to (row_review r))"
    using assms(3) by (auto simp: plain_def row_built_def row_review_def Let_def list_all_iff base58_char_def)
  ultimately have names: "list_all plain (review_names sl (row_review r))" using assms(2) by (simp add: review_names_def plain_addresses_def)
  show "moves_exactly sl (row_review r) ?m" using checked_moves[OF c d keys names] by (simp add: unsigned_tx_def)
  show "px_messageHash (tr_prepared r) = sl_hash sl ?m" using p by (simp add: buildUsdcTransfer_def Let_def)
qed

text \<open>C26: What is broadcast moves exactly what was reviewed. Whatever was asked, each transaction the service
  sends is signed by the transfer's own wallet, which alone signs and pays, and holds at most two bounded
  Compute Budget instructions, the creation of the destination's USDC account only when it was reviewed,
  and one transfer of exactly the row's amount, in its bytes, to the destination's USDC account.\<close>

theorem broadcast_moves_reviewed:
  assumes "built_parses sl sp" "hash_binds sl sp" "plain_addresses sl sp"
  shows "case run_transfers sl sp chain reqs of w \<Rightarrow>
    list_all (\<lambda>(i, s).
      case jm_get (xw_rows w) i of None \<Rightarrow> False | Some r \<Rightarrow>
        (case tr_signed_transaction r of None \<Rightarrow> False | Some payload \<Rightarrow>
           (case sl_deserialize sl (sl_fromBase64 sl payload) of None \<Rightarrow> False | Some tx \<Rightarrow>
              s = sl_base58 sl (hd (sx_signatures tx)) \<and> sl_verify sl (sx_message tx) (tr_from_wallet r) (hd (sx_signatures tx)) \<and>
              moves_exactly sl (row_review r) (sx_message tx))))
      (xw_sent w)"
proof -
  define w where "w = run_transfers sl sp chain reqs"
  have kept: "transfers_kept sl sp chain w" using run_kept by (simp add: w_def)
  have one: "\<exists>r payload tx. jm_get (xw_rows w) i = Some r \<and> tr_signed_transaction r = Some payload \<and>
      sl_deserialize sl (sl_fromBase64 sl payload) = Some tx \<and> s = sl_base58 sl (hd (sx_signatures tx)) \<and>
      sl_verify sl (sx_message tx) (tr_from_wallet r) (hd (sx_signatures tx)) \<and> moves_exactly sl (row_review r) (sx_message tx)"
    if "(i, s) \<in> set (xw_sent w)" for i s
  proof -
    note in_log = kept_parts(5)[OF kept that]
    obtain r where r: "jm_get (xw_rows w) i = Some r" "tr_signature r = Some s" using in_log by blast
    have fine: "transfer_fine sl sp chain r" by (rule kept_parts(3)[OF kept r(1)])
    then obtain payload a where a: "tr_signed_transaction r = Some payload" "own_approval sl r payload = Some a" "sg_signature a = s"
      using r(2) by (auto simp: transfer_fine_def split: option.splits)
    have built: "row_built sl sp r" using fine by (simp add: transfer_fine_def)
    note m = built_moves[OF assms(1,3) built]
    obtain tx where tx: "sl_deserialize sl (sl_fromBase64 sl payload) = Some tx" "sl_verify sl (sx_message tx) (tr_from_wallet r) (hd (sx_signatures tx))"
      "sg_signature a = sl_base58 sl (hd (sx_signatures tx))" "message_accepted sl (sx_message tx) (px_messageHash (tr_prepared r)) None"
      by (rule validated[OF a(2)[unfolded own_approval_def]])
    have "sl_hash sl (sx_message tx) = px_messageHash (tr_prepared r)" using tx(4) by (simp add: message_accepted_def split: if_splits)
    then have "sx_message tx = transfer_message sl sp (row_review r) (px_recentBlockhash (tr_prepared r))"
      using assms(2) m(2) unfolding hash_binds_def by metis
    then show ?thesis using r a tx m(1) by auto
  qed
  have "list_all (\<lambda>(i, s).
      case jm_get (xw_rows w) i of None \<Rightarrow> False | Some r \<Rightarrow>
        (case tr_signed_transaction r of None \<Rightarrow> False | Some payload \<Rightarrow>
           (case sl_deserialize sl (sl_fromBase64 sl payload) of None \<Rightarrow> False | Some tx \<Rightarrow>
              s = sl_base58 sl (hd (sx_signatures tx)) \<and> sl_verify sl (sx_message tx) (tr_from_wallet r) (hd (sx_signatures tx)) \<and>
              moves_exactly sl (row_review r) (sx_message tx)))) (xw_sent w)"
    unfolding list_all_iff using one by fastforce
  then show ?thesis unfolding w_def[symmetric] by simp
qed

section \<open>How a transfer ends\<close>

text \<open>A moment of the chain shows that the row's message landed and moved exactly its amount.\<close>

definition moved_on_chain :: "solana \<Rightarrow> rpc \<Rightarrow> transfer_row \<Rightarrow> string \<Rightarrow> bool" where
  "moved_on_chain sl c r s \<longleftrightarrow>
     (case rp_transaction c s of
        Some (Some x) \<Rightarrow>
          (case (xr_meta x, parse_int (tr_amount_base_units r)) of
             (Some meta, Some a) \<Rightarrow> \<not> xm_err meta \<and> sl_hash sl (xr_message x) = px_messageHash (tr_prepared r) \<and>
               usdcDelta meta (tr_from_wallet r) = Some (- a) \<and> usdcDelta meta (tr_to_wallet r) = Some a
           | _ \<Rightarrow> False)
      | _ \<Rightarrow> False)"

lemma lookup_confirmed: "row_lookup sl c r s = Inr (Lookup_confirmed slot) \<Longrightarrow> moved_on_chain sl c r s"
  by (auto simp: row_lookup_def verifyTransfer_def moved_on_chain_def split: if_splits option.splits)

text \<open>C27: A transfer ends as the chain ended it. Whatever was asked, a row is confirmed only when the chain
  showed, at some moment, its message landed without error with exactly its amount leaving the one
  wallet and arriving at the other; and once signed it has failed only when the chain showed it failed or
  it can never land, however late it is looked up.\<close>

theorem transfer_outcomes:
  assumes "w = run_transfers sl sp chain reqs" "jm_get (xw_rows w) i = Some r" "tr_signature r = Some s"
    and "lands_visibly chain lands s" "lands_in_life chain lands (px_recentBlockhash (tr_prepared r))"
  shows "(tr_state r = Confirmed_transfer \<longrightarrow> (\<exists>t. moved_on_chain sl (chain t) r s)) \<and>
    (tr_state r = Failed_transfer \<longrightarrow> (\<exists>t. chain_failed (chain t) s = Inr True) \<or> (\<forall>t. \<not> lands t))"
proof -
  have kept: "transfers_kept sl sp chain w" using run_kept assms(1) by simp
  have fine: "transfer_fine sl sp chain r" by (rule kept_parts(3)[OF kept assms(2)])
  obtain payload where p: "tr_signed_transaction r = Some payload" using fine assms(3) by (auto simp: transfer_fine_def split: option.splits)
  have a: "\<exists>t. moved_on_chain sl (chain t) r s" if "tr_state r = Confirmed_transfer"
    using fine p assms(3) that lookup_confirmed by (fastforce simp: transfer_fine_def)
  have b: "(\<exists>t. chain_failed (chain t) s = Inr True) \<or> (\<forall>t. \<not> lands t)" if "tr_state r = Failed_transfer"
  proof -
    note state = that
    obtain t lookup where "proved_failed chain (t + 1) r s lookup = Inr True"
      using fine p assms(3) state by (auto simp: transfer_fine_def)
    then consider "chain_failed (chain (t + 1)) s = Inr True"
      | "chain_neverLanded (chain (t + 1 + 1)) (chain (t + 1 + 2)) (chain (t + 1 + 3)) s (px_lastValidBlockHeight (tr_prepared r)) (px_recentBlockhash (tr_prepared r)) = Inr True"
      by (auto simp: proved_failed_def chain_answer_def split: sum.splits bool.splits if_splits)
    then show ?thesis
    proof cases
      case 2
      then show ?thesis using never_landed_then[OF 2 _ assms(4,5)] by auto
    qed blast
  qed
  show ?thesis using a b by blast
qed

section \<open>A concrete history\<close>

text \<open>A cash out of nine base units prepared, signed, sent, and never landed.\<close>

definition sample_to :: string where
  "sample_to = replicate 32 CHR ''1''"

definition sample_built :: tx_message where
  "sample_built = \<lparr>tm_version = V0_tx, tm_addressTableLookups = 0, tm_recentBlockhash = ''b'', tm_numRequiredSignatures = 1,
     tm_numReadonlySignedAccounts = 0,
     tm_staticAccountKeys = [''w'', ''w.usdc'', sample_to @ ''.usdc'', MAINNET_USDC_MINT, ''token'', ''budget''],
     tm_compiledInstructions =
       [\<lparr>ci_programIdIndex = 5, ci_accountKeyIndexes = [], ci_data = [2, 96, 234, 0, 0]\<rparr>,
        \<lparr>ci_programIdIndex = 5, ci_accountKeyIndexes = [], ci_data = [3, 16, 39, 0, 0, 0, 0, 0, 0]\<rparr>,
        \<lparr>ci_programIdIndex = 4, ci_accountKeyIndexes = [1, 3, 2, 0], ci_data = [12, 9, 0, 0, 0, 0, 0, 0, 0, 6]\<rparr>]\<rparr>"

definition transfer_solana :: solana where
  "transfer_solana = \<lparr>sl_fromBase64 = map (\<lambda>c. of_nat (of_char c)), sl_toBase64 = map (\<lambda>b. char_of (unat b)),
     sl_deserialize = (\<lambda>bs. Some (if length bs = 100 then unsigned_tx sample_built else \<lparr>sx_signatures = [[7]], sx_message = sample_built\<rparr>)),
     sl_hash = (\<lambda>m. if m = sample_built then ''h'' else ''g''), sl_decompile = (\<lambda>_. None),
     sl_verify = (\<lambda>m owner sig. owner = ''w'' \<and> sig = [7]), sl_base58 = (\<lambda>bs. ''s''), sl_computeBudget = ''budget'', sl_tokenProgram = ''token'',
     sl_associatedTokenProgram = ''ata'', sl_systemProgram = ''system'', sl_usdcAccount = (\<lambda>w. if w = ''w'' then ''w.usdc'' else sample_to @ ''.usdc'')\<rparr>"

definition transfer_spl :: spl where
  "transfer_spl = \<lparr>sp_setComputeUnitLimit = (\<lambda>_. sample_price_ix), sp_setComputeUnitPrice = (\<lambda>_. sample_price_ix),
     sp_createAccount = (\<lambda>_ _ _ _. sample_price_ix), sp_transferChecked = (\<lambda>_ _ _ _ _ _. sample_transfer_ix),
     sp_compile = (\<lambda>_ _ _. sample_built), sp_serialize = (\<lambda>_. replicate 100 0)\<rparr>"

definition transfer_chain :: "nat \<Rightarrow> rpc" where
  "transfer_chain t = \<lparr>rp_mainnet = True, rp_transaction = (\<lambda>_. Some None), rp_statuses = (\<lambda>_. Some [None]),
     rp_blockHeight = Some (int t), rp_blockhashValid = (\<lambda>_. Some (t \<le> 9)), rp_send = (\<lambda>_. Some ''s''),
     rp_account = (\<lambda>a. Some (Some \<lparr>ai_executable = False, ai_owner = (if a = sample_to then System_owner else Token_owner)\<rparr>))\<rparr>"

definition sample_transfer_env :: "int \<Rightarrow> nat \<Rightarrow> transfer_env" where
  "sample_transfer_env now t = \<lparr>xe_now = now, xe_newId = ''i'', xe_sl = transfer_solana, xe_spl = transfer_spl, xe_chain = transfer_chain,
     xe_moment = t, xe_hasChain = True, xe_balances = Some (\<lambda>_. Some (5000000, 9000000)),
     xe_gas = \<lparr>gs_rent = Some (\<lambda>_. Some 890880), gs_topUp = None\<rparr>, xe_addressKey = (\<lambda>a. Some (a, True)), xe_latestBlockhash = Some (''b'', 9),
     xe_rentOf = (\<lambda>_. None), xe_fingerprint = (\<lambda>_ _ _ amount. amount), xe_race = []\<rparr>"

definition sample_transfer_requests :: "(transfer_env \<times> transfer_request) list" where
  "sample_transfer_requests =
     [(sample_transfer_env 100 0, Cash_out_request ''ann'' \<lparr>dw_address = ''w'', dw_walletType = ''mwa'', dw_primary = True, dw_session = True\<rparr>
         sample_to ''9'' ''k''),
      (sample_transfer_env 200 1, Submit_request ''ann'' ''i'' ''x'')]"

lemma transfer_libraries:
  "built_parses transfer_solana transfer_spl" "hash_binds transfer_solana transfer_spl" "plain_addresses transfer_solana transfer_spl"
proof -
  have m: "transfer_message transfer_solana transfer_spl v b = sample_built" for v b by (simp add: transfer_message_def transfer_spl_def)
  show "built_parses transfer_solana transfer_spl"
    by (simp add: built_parses_def buildUsdcTransfer_def m Let_def) (simp add: transfer_solana_def transfer_spl_def)
  show "hash_binds transfer_solana transfer_spl" by (simp add: hash_binds_def m) (simp add: transfer_solana_def)
  have k: "list_all plain (tm_staticAccountKeys sample_built)" by (simp add: sample_built_def plain_def sample_to_def MAINNET_USDC_MINT_def)
  show "plain_addresses transfer_solana transfer_spl"
    by (simp add: plain_addresses_def m k) (simp add: transfer_solana_def plain_def sample_to_def)
qed

theorem broadcast_moves_reviewed_witness:
  "xw_sent (run_transfers transfer_solana transfer_spl transfer_chain sample_transfer_requests) = [(''i'', ''s'')] \<and>
   (case run_transfers transfer_solana transfer_spl transfer_chain sample_transfer_requests of w \<Rightarrow>
    list_all (\<lambda>(i, s).
      case jm_get (xw_rows w) i of None \<Rightarrow> False | Some r \<Rightarrow>
        (case tr_signed_transaction r of None \<Rightarrow> False | Some payload \<Rightarrow>
           (case sl_deserialize transfer_solana (sl_fromBase64 transfer_solana payload) of None \<Rightarrow> False | Some tx \<Rightarrow>
              s = sl_base58 transfer_solana (hd (sx_signatures tx)) \<and>
              sl_verify transfer_solana (sx_message tx) (tr_from_wallet r) (hd (sx_signatures tx)) \<and>
              moves_exactly transfer_solana (row_review r) (sx_message tx))))
      (xw_sent w))"
proof -
  have s: "xw_sent (run_transfers transfer_solana transfer_spl transfer_chain sample_transfer_requests) = [(''i'', ''s'')]" by code_simp
  show ?thesis by (rule conjI[OF s broadcast_moves_reviewed[OF transfer_libraries]])
qed

text \<open>The same cash out, landing between the submission and the check.\<close>

definition landing_chain :: "nat \<Rightarrow> rpc" where
  "landing_chain t = (transfer_chain t)\<lparr>
     rp_statuses := (\<lambda>_. if t < 8 then Some [None] else Some [Some \<lparr>ss_err = False, ss_confirmationStatus = Some Confirmed_level\<rparr>]),
     rp_transaction := (\<lambda>_. if t < 8 then Some None else Some (Some
       \<lparr>xr_meta = Some \<lparr>xm_err = False,
          xm_preTokenBalances = Some [\<lparr>tb_owner = Some ''w'', tb_mint = MAINNET_USDC_MINT, tb_amount = ''50'', tb_decimals = 6\<rparr>],
          xm_postTokenBalances = Some [\<lparr>tb_owner = Some ''w'', tb_mint = MAINNET_USDC_MINT, tb_amount = ''41'', tb_decimals = 6\<rparr>,
            \<lparr>tb_owner = Some sample_to, tb_mint = MAINNET_USDC_MINT, tb_amount = ''9'', tb_decimals = 6\<rparr>]\<rparr>,
        xr_signature = Some ''s'', xr_message = sample_built, xr_slot = 77\<rparr>))\<rparr>"

definition landed_requests :: "(transfer_env \<times> transfer_request) list" where
  "landed_requests = sample_transfer_requests @ [(sample_transfer_env 300 16, Status_request ''ann'' ''i'')]"

definition landed_row :: "transfer_row option" where
  "landed_row = jm_get (xw_rows (run_transfers transfer_solana transfer_spl landing_chain landed_requests)) ''i''"

theorem transfer_outcomes_witness:
  "map_option tr_state landed_row = Some Confirmed_transfer \<and>
   (\<exists>r t. landed_row = Some r \<and> moved_on_chain transfer_solana (landing_chain t) r ''s'')"
proof -
  have s: "map_option (\<lambda>r. (tr_state r, tr_signature r, px_recentBlockhash (tr_prepared r))) landed_row = Some (Confirmed_transfer, Some ''s'', ''b'')"
    by code_simp
  then obtain r where r: "landed_row = Some r" "tr_state r = Confirmed_transfer" "tr_signature r = Some ''s''" "px_recentBlockhash (tr_prepared r) = ''b''"
    by auto
  have v: "lands_visibly landing_chain (\<lambda>t. t = 8) ''s''" by (simp add: lands_visibly_def landing_chain_def)
  have l: "lands_in_life landing_chain (\<lambda>t. t = 8) (px_recentBlockhash (tr_prepared r))"
    by (simp add: lands_in_life_def landing_chain_def transfer_chain_def)
  have "\<exists>t. moved_on_chain transfer_solana (landing_chain t) r ''s''"
    using transfer_outcomes[OF refl r(1)[unfolded landed_row_def] r(3) v l] r(2) by blast
  moreover have "map_option tr_state landed_row = Some Confirmed_transfer" by (simp only: r(1,2) option.map)
  ultimately show ?thesis using r(1) by blast
qed

end
