(* ===== verification/WinClaims.thy ===== *)
theory WinClaims
  imports MoneyTransfers
begin

text \<open>
  Win claims (\<open>prediction/PantaClaims.ts\<close>, \<open>PantaSettlementChain.ts\<close>, \<open>PantaClaimStore.ts\<close>,
  \<open>PantaClaimService.ts\<close>): the rules a claim transaction built by the venue must pass, the chain's proof
  that its owner was paid, the private ledger of claims, and every operation of the service. The venue's
  answer to a build arrives parsed by the schema library; its two address rules, the compiler of messages
  and the hashing are arguments, as are the clock, new ids and the RPC.
\<close>

section \<open>The rules of a claim transaction\<close>

definition MEMO_PROGRAM :: string where
  "MEMO_PROGRAM = ''MemoSq4gqABAXKb96qnH8TysNcWxMyWCqXgDLGmfcHr''"

definition ATA_PROGRAM :: string where
  "ATA_PROGRAM = ''ATokenGPvbdGVxr1b2hvZbsiqW5xWH25efTNsLJA8knL''"

definition TOKEN_PROGRAM :: string where
  "TOKEN_PROGRAM = ''TokenkegQfeZyiNwAJbNbGKPFXCWuBvf9Ss623VQ5DA''"

definition CLAIM_COMPUTE_UNITS :: int where
  "CLAIM_COMPUTE_UNITS = 1400000"

definition CLAIM_COMPUTE_PRICE :: int where
  "CLAIM_COMPUTE_PRICE = 1000000"

definition CLAIM_APPROVAL_TTL_MS :: int where
  "CLAIM_APPROVAL_TTL_MS = 60000"

text \<open>The venue's program, the discriminator of its claim, and the libraries' part.\<close>

record claim_rules =
  cu_sl :: solana
  cu_programId :: string
  cu_discriminator :: "8 word list"
  cu_canonical :: "string \<Rightarrow> bool"
  cu_compile :: "string \<Rightarrow> string \<Rightarrow> tx_instruction list \<Rightarrow> tx_message option"
  cu_serialize :: "signed_tx \<Rightarrow> 8 word list option"
  cu_isSigner :: "tx_message \<Rightarrow> nat \<Rightarrow> bool"
  cu_isWritable :: "tx_message \<Rightarrow> nat \<Rightarrow> bool"

record claim_derived =
  cd_winClaim :: string
  cd_positionPda :: string
  cd_vaultAuthority :: string

text \<open>How a byte starts a character in UTF-8: how many bytes follow, and the range of the first of them.\<close>

definition utf8_more :: "8 word \<Rightarrow> (nat \<times> int \<times> int) option" where
  "utf8_more b =
     (let u = uint b
      in if u < 128 then Some (0, 128, 191)
         else if 194 \<le> u \<and> u \<le> 223 then Some (1, 128, 191)
         else if u = 224 then Some (2, 160, 191)
         else if u = 237 then Some (2, 128, 159)
         else if 225 \<le> u \<and> u \<le> 239 then Some (2, 128, 191)
         else if u = 240 then Some (3, 144, 191)
         else if 241 \<le> u \<and> u \<le> 243 then Some (3, 128, 191)
         else if u = 244 then Some (3, 128, 143)
         else None)"

text \<open>Bytes that decoding as text and encoding again gives back.\<close>

fun utf8_valid :: "8 word list \<Rightarrow> bool" where
  "utf8_valid [] = True"
| "utf8_valid (b # bs) =
     (case utf8_more b of
        None \<Rightarrow> False
      | Some (n, lo, hi) \<Rightarrow>
          n \<le> length bs \<and> (n = 0 \<or> lo \<le> uint (hd bs) \<and> uint (hd bs) \<le> hi) \<and>
          list_all (\<lambda>c. 128 \<le> uint c \<and> uint c \<le> 191) (take n bs) \<and> utf8_valid (drop n bs))"

definition printable_text :: "8 word list \<Rightarrow> bool" where
  "printable_text data \<longleftrightarrow> utf8_valid data \<and> list_all (\<lambda>b. 32 \<le> uint b \<and> uint b \<noteq> 127) data"

text \<open>What the walk over the instructions has met: its stage, and each kind at most once.\<close>

record claim_walk =
  wk_stage :: nat
  wk_limit :: bool
  wk_price :: bool
  wk_ata :: bool
  wk_claim :: bool
  wk_memo :: bool

definition walk_start :: claim_walk where
  "walk_start = \<lparr>wk_stage = 0, wk_limit = False, wk_price = False, wk_ata = False, wk_claim = False, wk_memo = False\<rparr>"

definition reserved_programs :: "claim_rules \<Rightarrow> string list" where
  "reserved_programs R = [cu_programId R, MEMO_PROGRAM, sl_computeBudget (cu_sl R)]"

definition claim_accounts :: "string \<Rightarrow> claim_derived \<Rightarrow> string list" where
  "claim_accounts market d = [market, cd_winClaim d, cd_positionPda d, cd_vaultAuthority d]"

definition key_names :: "tx_instruction \<Rightarrow> string list" where
  "key_names ix = map am_pubkey (xi_keys ix)"

definition budget_step :: "claim_walk \<Rightarrow> tx_instruction \<Rightarrow> claim_walk option" where
  "budget_step s ix =
     (if wk_stage s \<noteq> 0 \<or> xi_keys ix \<noteq> [] then None
      else if take 1 (xi_data ix) = [2] \<and> length (xi_data ix) = 5
      then (let units = readLe (xi_data ix) 1 4
            in if wk_limit s \<or> units \<le> 0 \<or> CLAIM_COMPUTE_UNITS < units then None else Some (s\<lparr>wk_limit := True\<rparr>))
      else if take 1 (xi_data ix) = [3] \<and> length (xi_data ix) = 9
      then (if wk_price s \<or> CLAIM_COMPUTE_PRICE < readLe (xi_data ix) 1 8 then None else Some (s\<lparr>wk_price := True\<rparr>))
      else None)"

definition ata_ok :: "claim_rules \<Rightarrow> string \<Rightarrow> tx_instruction \<Rightarrow> bool" where
  "ata_ok R owner ix \<longleftrightarrow>
     xi_data ix = [1] \<and>
     key_names ix = [owner, sl_usdcAccount (cu_sl R) owner, owner, MAINNET_USDC_MINT, sl_systemProgram (cu_sl R), TOKEN_PROGRAM] \<and>
     am_isSigner (xi_keys ix ! 0) \<and> am_isWritable (xi_keys ix ! 0) \<and> am_isWritable (xi_keys ix ! 1)"

definition meta_of :: "string \<Rightarrow> tx_instruction \<Rightarrow> account_meta option" where
  "meta_of key ix = find (\<lambda>k. am_pubkey k = key) (xi_keys ix)"

definition win_ok :: "claim_rules \<Rightarrow> string \<Rightarrow> string \<Rightarrow> claim_derived \<Rightarrow> tx_instruction \<Rightarrow> bool" where
  "win_ok R owner market d ix \<longleftrightarrow>
     8 \<le> length (xi_data ix) \<and> length (xi_data ix) \<le> 40 \<and> take 8 (xi_data ix) = cu_discriminator R \<and>
     distinct (key_names ix) \<and> list_all (\<lambda>k. k \<notin> set (reserved_programs R)) (key_names ix) \<and>
     map_option am_isSigner (meta_of owner ix) = Some True \<and>
     list_all (\<lambda>k. k \<in> set (key_names ix)) (claim_accounts market d) \<and>
     map_option am_isWritable (meta_of (sl_usdcAccount (cu_sl R) owner) ix) = Some True"

definition memo_ok :: "string \<Rightarrow> bool \<Rightarrow> tx_instruction \<Rightarrow> bool" where
  "memo_ok owner compiled ix \<longleftrightarrow>
     (case xi_keys ix of
        [k] \<Rightarrow> am_pubkey k = owner \<and> am_isSigner k \<and> (compiled \<or> \<not> am_isWritable k)
      | _ \<Rightarrow> False) \<and> printable_text (xi_data ix)"

definition sized_for :: "string \<Rightarrow> tx_instruction \<Rightarrow> bool" where
  "sized_for owner ix \<longleftrightarrow> list_all (\<lambda>k. \<not> am_isSigner k \<or> am_pubkey k = owner) (xi_keys ix) \<and>
     length (xi_data ix) \<le> 566 \<and> length (xi_keys ix) \<le> 24"

definition claim_step :: "claim_rules \<Rightarrow> string \<Rightarrow> string \<Rightarrow> claim_derived \<Rightarrow> bool \<Rightarrow> claim_walk \<Rightarrow> tx_instruction \<Rightarrow> claim_walk option" where
  "claim_step R owner market d compiled s ix =
     (if \<not> sized_for owner ix then None
      else if xi_programId ix = sl_computeBudget (cu_sl R) then budget_step s ix
      else if xi_programId ix = ATA_PROGRAM
      then (if \<not> wk_ata s \<and> wk_stage s = 0 \<and> ata_ok R owner ix then Some (s\<lparr>wk_ata := True, wk_stage := 1\<rparr>) else None)
      else if xi_programId ix = cu_programId R
      then (if \<not> wk_claim s \<and> wk_stage s \<le> 1 \<and> win_ok R owner market d ix then Some (s\<lparr>wk_claim := True, wk_stage := 2\<rparr>) else None)
      else if xi_programId ix = MEMO_PROGRAM
      then (if \<not> wk_memo s \<and> wk_stage s = 2 \<and> memo_ok owner compiled ix then Some (s\<lparr>wk_memo := True, wk_stage := 3\<rparr>) else None)
      else None)"

fun claim_walked :: "claim_rules \<Rightarrow> string \<Rightarrow> string \<Rightarrow> claim_derived \<Rightarrow> bool \<Rightarrow> claim_walk \<Rightarrow> tx_instruction list \<Rightarrow> claim_walk option" where
  "claim_walked R owner market d compiled s [] = Some s"
| "claim_walked R owner market d compiled s (ix # ixs) =
     (case claim_step R owner market d compiled s ix of
        None \<Rightarrow> None
      | Some s' \<Rightarrow> claim_walked R owner market d compiled s' ixs)"

definition validateInstructions :: "claim_rules \<Rightarrow> tx_instruction list \<Rightarrow> string \<Rightarrow> string \<Rightarrow> claim_derived \<Rightarrow> bool \<Rightarrow> bool" where
  "validateInstructions R ixs owner market d compiled \<longleftrightarrow>
     1 \<le> length ixs \<and> length ixs \<le> 6 \<and>
     list_all (\<lambda>k. k \<noteq> owner \<and> k \<notin> set (reserved_programs R)) (claim_accounts market d) \<and>
     distinct (claim_accounts market d @ [sl_usdcAccount (cu_sl R) owner]) \<and>
     (case claim_walked R owner market d compiled walk_start ixs of None \<Rightarrow> False | Some s \<Rightarrow> wk_claim s)"

section \<open>Building and re-checking a claim\<close>

record claim_review =
  cr_outcome :: side
  cr_winningShares :: string
  cr_estimatedPayoutUsdc :: string

record claim_binding =
  cb_owner :: string
  cb_venueMarketId :: string
  cb_programId :: string
  cb_messageHash :: string
  cb_lastValidBlockHeight :: int
  cb_createdAt :: int
  cb_expiresAt :: int
  cb_derived :: claim_derived
  cb_review :: claim_review

record prepared_claim =
  pc_payload :: string
  pc_expiresAt :: int
  pc_binding :: claim_binding

text \<open>The venue's answer, parsed.\<close>

record claim_build =
  bd_wallet :: string
  bd_marketId :: string
  bd_outcome :: side
  bd_winningShares :: string
  bd_instructions :: "tx_instruction list"
  bd_derived :: claim_derived
  bd_recentBlockhash :: string
  bd_lastValidBlockHeight :: int
  bd_blockhashExpiryHintSec :: "int option"

definition schema_refused :: thrown where
  "schema_refused = Venue_error VENUE_SCHEMA None"

definition claim_address :: "claim_rules \<Rightarrow> string \<Rightarrow> bool" where
  "claim_address R s \<longleftrightarrow> 32 \<le> length s \<and> length s \<le> 44 \<and> cu_canonical R s"

text \<open>The constructor's check of the configured program.\<close>

definition claim_configured :: "claim_rules \<Rightarrow> bool" where
  "claim_configured R \<longleftrightarrow> claim_address R (cu_programId R) \<and>
     cu_programId R \<notin> {sl_systemProgram (cu_sl R), sl_computeBudget (cu_sl R), MEMO_PROGRAM, TOKEN_PROGRAM, ATA_PROGRAM}"

text \<open>A payload is canonical when its bytes encode to it again, which the pattern of the code follows from.\<close>

definition canonical_base64 :: "solana \<Rightarrow> string \<Rightarrow> bool" where
  "canonical_base64 sl payload \<longleftrightarrow> length payload \<le> 1644 \<and> sl_toBase64 sl (sl_fromBase64 sl payload) = payload"

definition programs_plain :: "claim_rules \<Rightarrow> tx_message \<Rightarrow> bool" where
  "programs_plain R m \<longleftrightarrow>
     list_all (\<lambda>ix. \<not> cu_isSigner R m (ci_programIdIndex ix) \<and> \<not> cu_isWritable R m (ci_programIdIndex ix)) (tm_compiledInstructions m)"

definition validateTransaction :: "claim_rules \<Rightarrow> string \<Rightarrow> claim_binding \<Rightarrow> bool" where
  "validateTransaction R payload b \<longleftrightarrow>
     canonical_base64 (cu_sl R) payload \<and>
     (case sl_deserialize (cu_sl R) (sl_fromBase64 (cu_sl R) payload) of
        None \<Rightarrow> False
      | Some tx \<Rightarrow>
          (let m = sx_message tx
           in cu_serialize R tx = Some (sl_fromBase64 (cu_sl R) payload) \<and>
              tm_version m = V0_tx \<and> tm_addressTableLookups m = 0 \<and> tm_numRequiredSignatures m = 1 \<and>
              tm_numReadonlySignedAccounts m = 0 \<and> first_key m = Some (cb_owner b) \<and> length (sx_signatures tx) = 1 \<and>
              programs_plain R m \<and> sl_hash (cu_sl R) m = cb_messageHash b \<and> cb_programId b = cu_programId R \<and>
              (case sl_decompile (cu_sl R) m of
                 None \<Rightarrow> False
               | Some ixs \<Rightarrow> validateInstructions R ixs (cb_owner b) (cb_venueMarketId b) (cb_derived b) True)))"

definition claim_prepared :: "claim_rules \<Rightarrow> int \<Rightarrow> string \<Rightarrow> string \<Rightarrow> claim_build \<Rightarrow> tx_message \<Rightarrow> 8 word list \<Rightarrow> prepared_claim" where
  "claim_prepared R createdAt owner market a m bytes =
     (let expiresAt = createdAt + min CLAIM_APPROVAL_TTL_MS ((case bd_blockhashExpiryHintSec a of None \<Rightarrow> 60 | Some s \<Rightarrow> s) * 1000)
      in \<lparr>pc_payload = sl_toBase64 (cu_sl R) bytes, pc_expiresAt = expiresAt,
          pc_binding = \<lparr>cb_owner = owner, cb_venueMarketId = market, cb_programId = cu_programId R,
            cb_messageHash = sl_hash (cu_sl R) m, cb_lastValidBlockHeight = bd_lastValidBlockHeight a,
            cb_createdAt = createdAt, cb_expiresAt = expiresAt, cb_derived = bd_derived a,
            cb_review = \<lparr>cr_outcome = bd_outcome a, cr_winningShares = bd_winningShares a,
              cr_estimatedPayoutUsdc = bd_winningShares a\<rparr>\<rparr>\<rparr>)"

definition claim_compiled :: "claim_rules \<Rightarrow> int \<Rightarrow> string \<Rightarrow> string \<Rightarrow> claim_build \<Rightarrow> thrown + prepared_claim" where
  "claim_compiled R createdAt owner market a =
     (case cu_compile R owner (bd_recentBlockhash a) (bd_instructions a) of
        None \<Rightarrow> Inl schema_refused
      | Some m \<Rightarrow>
          (case cu_serialize R (unsigned_tx m) of
             None \<Rightarrow> Inl schema_refused
           | Some bytes \<Rightarrow>
               if 1232 < length bytes then Inl schema_refused
               else (let p = claim_prepared R createdAt owner market a m bytes
                     in if validateTransaction R (pc_payload p) (pc_binding p) then Inr p else Inl schema_refused)))"

definition transport_error :: "thrown \<Rightarrow> thrown" where
  "transport_error x = (case x of Venue_error _ _ \<Rightarrow> x | _ \<Rightarrow> Venue_error VENUE_UNAVAILABLE None)"

text \<open>The request answers a failed transport, or the parsed build when the schema accepts it.\<close>

definition claim_built :: "claim_rules \<Rightarrow> (string \<Rightarrow> string \<Rightarrow> thrown + claim_build option) \<Rightarrow> int \<Rightarrow> string \<Rightarrow> string \<Rightarrow> thrown + prepared_claim" where
  "claim_built R request now owner market =
     (if \<not> claim_address R owner \<or> \<not> claim_address R market \<or> owner = market \<or> owner = cu_programId R then Inl bad_request
      else (case request owner market of
         Inl x \<Rightarrow> Inl (transport_error x)
       | Inr None \<Rightarrow> Inl schema_refused
       | Inr (Some a) \<Rightarrow>
           if bd_wallet a \<noteq> owner \<or> bd_marketId a \<noteq> market then Inl schema_refused
           else if \<not> validateInstructions R (bd_instructions a) owner market (bd_derived a) False then Inl schema_refused
           else claim_compiled R now owner market a))"

section \<open>What the chain proves\<close>

definition DROPPED_SAFETY_BLOCKS :: int where
  "DROPPED_SAFETY_BLOCKS = 150"

definition usdcDeltaOf :: "tx_meta \<Rightarrow> string \<Rightarrow> int option" where
  "usdcDeltaOf meta owner =
     (case (xm_preTokenBalances meta, xm_postTokenBalances meta) of
        (Some pre, Some post) \<Rightarrow>
          (case (usdc_total owner post, usdc_total owner pre) of (Some b, Some a) \<Rightarrow> Some (b - a) | _ \<Rightarrow> None)
      | _ \<Rightarrow> None)"

definition seen_on_chain :: "rpc \<Rightarrow> string \<Rightarrow> bool option" where
  "seen_on_chain r signature = map_option (\<lambda>xs. case xs of Some _ # _ \<Rightarrow> True | _ \<Rightarrow> False) (rp_statuses r signature)"

text \<open>The three reads are three moments: the signature, the finalized height, the signature again.\<close>

definition settlement_neverLanded :: "rpc \<Rightarrow> rpc \<Rightarrow> rpc \<Rightarrow> string \<Rightarrow> int \<Rightarrow> thrown + bool" where
  "settlement_neverLanded r1 r2 r3 signature lastValidBlockHeight =
     (if 9007199254740991 < lastValidBlockHeight \<or> lastValidBlockHeight \<le> 0 then Inr False
      else (case assertMainnet r1 of
        Some x \<Rightarrow> Inl x
      | None \<Rightarrow> Inr
          (if seen_on_chain r1 signature \<noteq> Some False then False
           else (case rp_blockHeight r2 of
                   None \<Rightarrow> False
                 | Some h \<Rightarrow> lastValidBlockHeight + DROPPED_SAFETY_BLOCKS < h \<and> seen_on_chain r3 signature = Some False))))"

record claim_query =
  cq_signature :: string
  cq_owner :: string
  cq_market :: string
  cq_programId :: string
  cq_messageHash :: string

definition verifyClaim :: "solana \<Rightarrow> rpc \<Rightarrow> claim_query \<Rightarrow> thrown + (int \<times> int) option" where
  "verifyClaim sl r q =
     (case assertMainnet r of
        Some x \<Rightarrow> Inl x
      | None \<Rightarrow> Inr
          (case rp_transaction r (cq_signature q) of
             Some (Some x) \<Rightarrow>
               (case xr_meta x of
                  None \<Rightarrow> None
                | Some meta \<Rightarrow>
                    if xm_err meta \<or> xr_signature x \<noteq> Some (cq_signature q) \<or>
                       tm_numRequiredSignatures (xr_message x) \<noteq> 1 \<or> first_key (xr_message x) \<noteq> Some (cq_owner q) \<or>
                       sl_hash sl (xr_message x) \<noteq> cq_messageHash q \<or>
                       cq_market q \<notin> set (tm_staticAccountKeys (xr_message x)) \<or> \<not> calls_program (cq_programId q) (xr_message x)
                    then None
                    else (case usdcDeltaOf meta (cq_owner q) of
                            None \<Rightarrow> None
                          | Some delta \<Rightarrow> if delta \<le> 0 then None else Some (delta, xr_slot x)))
           | _ \<Rightarrow> None))"

section \<open>The shape of an accepted claim\<close>

definition bounded_budget :: "claim_rules \<Rightarrow> tx_instruction \<Rightarrow> bool" where
  "bounded_budget R ix \<longleftrightarrow> xi_programId ix = sl_computeBudget (cu_sl R) \<and> xi_keys ix = [] \<and>
     (take 1 (xi_data ix) = [2] \<and> length (xi_data ix) = 5 \<and> 0 < readLe (xi_data ix) 1 4 \<and> readLe (xi_data ix) 1 4 \<le> CLAIM_COMPUTE_UNITS \<or>
      take 1 (xi_data ix) = [3] \<and> length (xi_data ix) = 9 \<and> readLe (xi_data ix) 1 8 \<le> CLAIM_COMPUTE_PRICE)"

definition memos_only :: "string \<Rightarrow> bool \<Rightarrow> tx_instruction list \<Rightarrow> bool" where
  "memos_only owner compiled ixs \<longleftrightarrow> length ixs \<le> 1 \<and> list_all (\<lambda>ix. xi_programId ix = MEMO_PROGRAM \<and> memo_ok owner compiled ix) ixs"

definition wins_then_memo :: "claim_rules \<Rightarrow> string \<Rightarrow> string \<Rightarrow> claim_derived \<Rightarrow> bool \<Rightarrow> tx_instruction list \<Rightarrow> bool" where
  "wins_then_memo R owner market d compiled ixs \<longleftrightarrow>
     (case ixs of
        [] \<Rightarrow> False
      | c # rest \<Rightarrow> xi_programId c = cu_programId R \<and> win_ok R owner market d c \<and> memos_only owner compiled rest)"

text \<open>Bounded budget instructions, perhaps the owner's own account, one claim, perhaps a memo.\<close>

definition claim_shaped :: "claim_rules \<Rightarrow> string \<Rightarrow> string \<Rightarrow> claim_derived \<Rightarrow> tx_instruction list \<Rightarrow> bool" where
  "claim_shaped R owner market d ixs \<longleftrightarrow>
     list_all (sized_for owner) ixs \<and>
     (\<exists>front atas rest. ixs = front @ atas @ rest \<and> length front \<le> 2 \<and> list_all (bounded_budget R) front \<and>
        length atas \<le> 1 \<and> list_all (\<lambda>ix. xi_programId ix = ATA_PROGRAM \<and> ata_ok R owner ix) atas \<and>
        wins_then_memo R owner market d True rest)"

lemma walk_cons:
  assumes "claim_walked R owner market d compiled s (ix # ixs) = Some z"
  obtains s' where "claim_step R owner market d compiled s ix = Some s'" "claim_walked R owner market d compiled s' ixs = Some z"
  using assms by (auto split: option.splits)

lemma step_cases:
  assumes "claim_step R owner market d compiled s ix = Some s'"
  obtains (limit) "wk_stage s = 0" "\<not> wk_limit s" "bounded_budget R ix" "s' = s\<lparr>wk_limit := True\<rparr>"
  | (price) "wk_stage s = 0" "\<not> wk_price s" "bounded_budget R ix" "s' = s\<lparr>wk_price := True\<rparr>"
  | (ata) "wk_stage s = 0" "xi_programId ix = ATA_PROGRAM" "ata_ok R owner ix" "s' = s\<lparr>wk_ata := True, wk_stage := 1\<rparr>"
  | (win) "wk_stage s \<le> 1" "\<not> wk_claim s" "xi_programId ix = cu_programId R" "win_ok R owner market d ix" "s' = s\<lparr>wk_claim := True, wk_stage := 2\<rparr>"
  | (memo) "wk_stage s = 2" "xi_programId ix = MEMO_PROGRAM" "memo_ok owner compiled ix" "s' = s\<lparr>wk_memo := True, wk_stage := 3\<rparr>"
  using assms by (auto simp: claim_step_def budget_step_def bounded_budget_def Let_def split: if_splits)

lemma step_sized: "claim_step R owner market d compiled s ix = Some s' \<Longrightarrow> sized_for owner ix"
  by (auto simp: claim_step_def split: if_splits)

lemma walk_sized: "claim_walked R owner market d compiled s ixs = Some z \<Longrightarrow> list_all (sized_for owner) ixs"
  by (induction ixs arbitrary: s) (auto split: option.splits dest: step_sized)

lemma walk_end: "claim_walked R owner market d compiled s ixs = Some z \<Longrightarrow> wk_stage s = 3 \<Longrightarrow> ixs = []"
  by (cases ixs) (auto elim!: step_cases split: option.splits)

lemma walk_memo:
  assumes "claim_walked R owner market d compiled s ixs = Some z" "wk_stage s = 2" shows "memos_only owner compiled ixs"
proof (cases ixs)
  case (Cons ix rest)
  obtain s' where s: "claim_step R owner market d compiled s ix = Some s'" "claim_walked R owner market d compiled s' rest = Some z"
    using assms(1) unfolding Cons by (rule walk_cons)
  show ?thesis using s(1) by (cases rule: step_cases) (use assms(2) walk_end[OF s(2)] Cons in \<open>auto simp: memos_only_def\<close>)
qed (simp add: memos_only_def)

lemma walk_win:
  assumes "claim_walked R owner market d compiled s ixs = Some z" "wk_stage s = 1" "\<not> wk_claim s" "wk_claim z"
  shows "wins_then_memo R owner market d compiled ixs"
proof (cases ixs)
  case Nil
  then show ?thesis using assms by simp
next
  case (Cons ix rest)
  obtain s' where s: "claim_step R owner market d compiled s ix = Some s'" "claim_walked R owner market d compiled s' rest = Some z"
    using assms(1) unfolding Cons by (rule walk_cons)
  show ?thesis using s(1) by (cases rule: step_cases) (use assms(2) walk_memo[OF s(2)] Cons in \<open>auto simp: wins_then_memo_def\<close>)
qed

lemma walk_shape:
  assumes "claim_walked R owner market d compiled s ixs = Some z" "wk_stage s = 0" "\<not> wk_claim s" "wk_claim z"
  shows "\<exists>front atas rest. ixs = front @ atas @ rest \<and> length front + (if wk_limit s then 1 else 0) + (if wk_price s then 1 else 0) \<le> 2 \<and>
     list_all (bounded_budget R) front \<and> length atas \<le> 1 \<and>
     list_all (\<lambda>ix. xi_programId ix = ATA_PROGRAM \<and> ata_ok R owner ix) atas \<and> wins_then_memo R owner market d compiled rest"
  using assms
proof (induction ixs arbitrary: s)
  case (Cons ix ixs)
  obtain s' where s: "claim_step R owner market d compiled s ix = Some s'" "claim_walked R owner market d compiled s' ixs = Some z"
    using Cons.prems(1) by (rule walk_cons)
  from s(1) show ?case
  proof (cases rule: step_cases)
    case limit
    obtain front atas rest where "ixs = front @ atas @ rest" "length front + 1 + (if wk_price s then 1 else 0) \<le> 2" "list_all (bounded_budget R) front"
      "length atas \<le> 1" "list_all (\<lambda>ix. xi_programId ix = ATA_PROGRAM \<and> ata_ok R owner ix) atas" "wins_then_memo R owner market d compiled rest"
      using Cons.IH[OF s(2)] Cons.prems limit(4) by auto
    then show ?thesis using limit(2,3) by (intro exI[of _ "ix # front"] exI[of _ atas] exI[of _ rest]) simp
  next
    case price
    obtain front atas rest where "ixs = front @ atas @ rest" "length front + (if wk_limit s then 1 else 0) + 1 \<le> 2" "list_all (bounded_budget R) front"
      "length atas \<le> 1" "list_all (\<lambda>ix. xi_programId ix = ATA_PROGRAM \<and> ata_ok R owner ix) atas" "wins_then_memo R owner market d compiled rest"
      using Cons.IH[OF s(2)] Cons.prems price(4) by auto
    then show ?thesis using price(2,3) by (intro exI[of _ "ix # front"] exI[of _ atas] exI[of _ rest]) simp
  next
    case ata
    have "wins_then_memo R owner market d compiled ixs" by (rule walk_win[OF s(2)]) (use Cons.prems ata(4) in simp_all)
    then show ?thesis using ata(2,3) by (intro exI[of _ "[]"] exI[of _ "[ix]"] exI[of _ ixs]) simp
  next
    case win
    have "memos_only owner compiled ixs" by (rule walk_memo[OF s(2)]) (simp add: win(5))
    then show ?thesis using win(3,4) by (intro exI[of _ "[]"] exI[of _ "[]"] exI[of _ "ix # ixs"]) (simp add: wins_then_memo_def)
  next
    case memo
    then show ?thesis using Cons.prems(2) by simp
  qed
qed simp

lemma validated_shape:
  assumes "validateInstructions R ixs owner market d True" shows "claim_shaped R owner market d ixs"
proof -
  obtain z where z: "claim_walked R owner market d True walk_start ixs = Some z" "wk_claim z"
    using assms by (auto simp: validateInstructions_def split: option.splits)
  show ?thesis using walk_shape[OF z(1)] walk_sized[OF z(1)] z(2) by (simp add: claim_shaped_def walk_start_def)
qed

end
