(* ===== verification/WinClaimService.thy ===== *)
theory WinClaimService
  imports WinClaims
begin

text \<open>
  The private ledger of win claims (\<open>prediction/PantaClaimStore.ts\<close>) and the service over it
  (\<open>PantaClaimService.ts\<close>). The ledger is a table as that of the trades is: a read is a filtered, ordered
  selection, an insert ignores a taken (person, key) pair, an update is a compare-and-set on the state, and
  the database's guards may refuse a write. What other requests do between a read and a write is a list of
  moves, each under the check that stands before it in the service.
\<close>

section \<open>The ledger of claims\<close>

datatype claim_state = Preparing_claim | Built_claim | Submitted_claim | Confirmed_claim | Failed_claim

record claim_evidence =
  cv_payoutBaseUnits :: string
  cv_slot :: int
  cv_messageHash :: string
  cv_signedMessageHash :: "string option"
  cv_providerTrade :: "string option"

record win_claim =
  wc_id :: string
  wc_user_id :: string
  wc_trade_session_id :: string
  wc_market_id :: string
  wc_order_id :: string
  wc_wallet_address :: string
  wc_venue_market_id :: string
  wc_idempotency_key :: string
  wc_request_fingerprint :: string
  wc_state :: claim_state
  wc_prepared :: "prepared_claim option"
  wc_signed_transaction :: "string option"
  wc_signature :: "string option"
  wc_confirm_evidence :: "claim_evidence option"
  wc_created_at :: int
  wc_updated_at :: int

type_synonym claim_rows = "(string, win_claim) jmap"

definition claim_find :: "string \<Rightarrow> string \<Rightarrow> claim_rows \<Rightarrow> win_claim option" where
  "claim_find u key rows = find (\<lambda>r. wc_user_id r = u \<and> wc_idempotency_key r = key) (jm_values rows)"

definition claim_byId :: "string \<Rightarrow> string \<Rightarrow> claim_rows \<Rightarrow> win_claim option" where
  "claim_byId u i rows = find (\<lambda>r. wc_user_id r = u \<and> wc_id r = i) (jm_values rows)"

definition claim_live :: "win_claim \<Rightarrow> bool" where
  "claim_live r \<longleftrightarrow> wc_state r = Submitted_claim \<or> wc_state r = Confirmed_claim"

definition claim_newest :: "win_claim list \<Rightarrow> win_claim list" where
  "claim_newest rs = sort_by (\<lambda>a b. wc_created_at b - wc_created_at a) rs"

definition claim_activeFor :: "string \<Rightarrow> string \<Rightarrow> string \<Rightarrow> claim_rows \<Rightarrow> win_claim option" where
  "claim_activeFor u wal market rows =
     (case claim_newest (filter (\<lambda>r. wc_user_id r = u \<and> wc_wallet_address r = wal \<and> wc_venue_market_id r = market \<and> claim_live r)
         (jm_values rows)) of [] \<Rightarrow> None | r # _ \<Rightarrow> Some r)"

definition claims_listForUser :: "string \<Rightarrow> claim_rows \<Rightarrow> win_claim list" where
  "claims_listForUser u rows =
     take 200 (claim_newest (filter (\<lambda>r. wc_user_id r = u \<and> (claim_live r \<or> wc_state r = Failed_claim)) (jm_values rows)))"

definition claims_submitted :: "int \<Rightarrow> claim_rows \<Rightarrow> win_claim list" where
  "claims_submitted limit rows =
     take (nat (max 1 (min 100 limit)))
       (sort_by (\<lambda>a b. wc_updated_at a - wc_updated_at b) (filter (\<lambda>r. wc_state r = Submitted_claim) (jm_values rows)))"

type_synonym claim_guard = "win_claim option \<Rightarrow> win_claim \<Rightarrow> bool"

definition blank_claim :: "int \<Rightarrow> win_claim \<Rightarrow> win_claim" where
  "blank_claim now r = r\<lparr>wc_state := Preparing_claim, wc_prepared := None, wc_signed_transaction := None, wc_signature := None,
     wc_confirm_evidence := None, wc_created_at := now, wc_updated_at := now\<rparr>"

definition claim_reserve :: "claim_guard \<Rightarrow> int \<Rightarrow> win_claim \<Rightarrow> claim_rows \<Rightarrow> (thrown + win_claim option) \<times> claim_rows" where
  "claim_reserve allows now intent rows =
     (if claim_find (wc_user_id intent) (wc_idempotency_key intent) rows \<noteq> None then (Inr None, rows)
      else if jm_get rows (wc_id intent) \<noteq> None then (Inl Other_error, rows)
      else if allows None (blank_claim now intent)
      then (Inr (Some (blank_claim now intent)), jm_set (wc_id intent) (blank_claim now intent) rows)
      else (Inl Other_error, rows))"

record claim_patch =
  cp_state :: claim_state
  cp_prepared :: "prepared_claim option"
  cp_signed :: "(string \<times> string) option"
  cp_confirm_evidence :: "claim_evidence option"

definition to_claim_state :: "claim_state \<Rightarrow> claim_patch" where
  "to_claim_state s = \<lparr>cp_state = s, cp_prepared = None, cp_signed = None, cp_confirm_evidence = None\<rparr>"

definition built_patch :: "prepared_claim \<Rightarrow> claim_patch" where
  "built_patch p = (to_claim_state Built_claim)\<lparr>cp_prepared := Some p\<rparr>"

definition signed_patch :: "string \<Rightarrow> string \<Rightarrow> claim_patch" where
  "signed_patch payload sig = (to_claim_state Submitted_claim)\<lparr>cp_signed := Some (payload, sig)\<rparr>"

definition confirmed_patch :: "claim_evidence \<Rightarrow> claim_patch" where
  "confirmed_patch x = (to_claim_state Confirmed_claim)\<lparr>cp_confirm_evidence := Some x\<rparr>"

definition claim_patched :: "claim_patch \<Rightarrow> int \<Rightarrow> win_claim \<Rightarrow> win_claim" where
  "claim_patched p now r = r\<lparr>wc_state := cp_state p,
     wc_prepared := (case cp_prepared p of None \<Rightarrow> wc_prepared r | Some x \<Rightarrow> Some x),
     wc_signed_transaction := (case cp_signed p of None \<Rightarrow> wc_signed_transaction r | Some (payload, sig) \<Rightarrow> Some payload),
     wc_signature := (case cp_signed p of None \<Rightarrow> wc_signature r | Some (payload, sig) \<Rightarrow> Some sig),
     wc_confirm_evidence := (case cp_confirm_evidence p of None \<Rightarrow> wc_confirm_evidence r | Some x \<Rightarrow> Some x),
     wc_updated_at := now\<rparr>"

definition claim_update :: "claim_guard \<Rightarrow> int \<Rightarrow> string \<Rightarrow> claim_state \<Rightarrow> claim_patch \<Rightarrow> claim_rows
    \<Rightarrow> (thrown + win_claim option) \<times> claim_rows" where
  "claim_update allows now i previous p rows =
     (case jm_get rows i of
        None \<Rightarrow> (Inr None, rows)
      | Some r \<Rightarrow>
          if wc_state r \<noteq> previous then (Inr None, rows)
          else if allows (Some r) (claim_patched p now r) then (Inr (Some (claim_patched p now r)), jm_set i (claim_patched p now r) rows)
          else (Inl Other_error, rows))"

section \<open>What the service checks of a row\<close>

definition claim_approval :: "claim_rules \<Rightarrow> win_claim \<Rightarrow> prepared_claim \<Rightarrow> string \<Rightarrow> signed_approval option" where
  "claim_approval R r p payload =
     validateSignedPantaTransaction (cu_sl R) payload (wc_wallet_address r) (cb_messageHash (pc_binding p)) (Some (pc_payload p))"

text \<open>The chain holds the message the wallet signed, which may be its amendment of the reviewed one.\<close>

definition claim_message :: "claim_rules \<Rightarrow> win_claim \<Rightarrow> prepared_claim \<Rightarrow> string" where
  "claim_message R r p =
     (case wc_signed_transaction r of
        None \<Rightarrow> cb_messageHash (pc_binding p)
      | Some payload \<Rightarrow>
          if payload = [] then cb_messageHash (pc_binding p)
          else (case signedMessageHash (cu_sl R) payload of None \<Rightarrow> cb_messageHash (pc_binding p) | Some h \<Rightarrow> h))"

definition claim_proof :: "claim_rules \<Rightarrow> rpc \<Rightarrow> win_claim \<Rightarrow> prepared_claim \<Rightarrow> string \<Rightarrow> thrown + (int \<times> int) option" where
  "claim_proof R c r p sig =
     verifyClaim (cu_sl R) c \<lparr>cq_signature = sig, cq_owner = wc_wallet_address r, cq_market = wc_venue_market_id r,
       cq_programId = cb_programId (pc_binding p), cq_messageHash = claim_message R r p\<rparr>"

definition claim_evidence_of :: "claim_rules \<Rightarrow> win_claim \<Rightarrow> prepared_claim \<Rightarrow> int \<times> int \<Rightarrow> string option \<Rightarrow> claim_evidence" where
  "claim_evidence_of R r p proof provider =
     \<lparr>cv_payoutBaseUnits = int_str (fst proof), cv_slot = snd proof, cv_messageHash = cb_messageHash (pc_binding p),
      cv_signedMessageHash = (if claim_message R r p \<noteq> cb_messageHash (pc_binding p) then Some (claim_message R r p) else None),
      cv_providerTrade = provider\<rparr>"

text \<open>The chain says the approval failed, or can never land.\<close>

definition claim_lost :: "(nat \<Rightarrow> rpc) \<Rightarrow> nat \<Rightarrow> prepared_claim \<Rightarrow> string \<Rightarrow> thrown + bool" where
  "claim_lost chain t p sig =
     (case chain_failed (chain t) sig of
        Inl x \<Rightarrow> Inl x
      | Inr True \<Rightarrow> Inr True
      | Inr False \<Rightarrow> settlement_neverLanded (chain (t + 1)) (chain (t + 2)) (chain (t + 3)) sig (cb_lastValidBlockHeight (pc_binding p)))"

text \<open>The reviewed claim a row may hold: for its own wallet and market, and within the rules.\<close>

definition claim_for_row :: "claim_rules \<Rightarrow> win_claim \<Rightarrow> prepared_claim \<Rightarrow> bool" where
  "claim_for_row R r p \<longleftrightarrow> cb_owner (pc_binding p) = wc_wallet_address r \<and> cb_venueMarketId (pc_binding p) = wc_venue_market_id r \<and>
     validateTransaction R (pc_payload p) (pc_binding p)"

text \<open>A claim is for a position: a confirmed buy of the same person, wallet and market.\<close>

definition claim_of_fill :: "trade_rows \<Rightarrow> win_claim \<Rightarrow> bool" where
  "claim_of_fill trades r \<longleftrightarrow>
     list_ex (\<lambda>t. tw_id t = wc_trade_session_id r \<and> tw_user_id t = wc_user_id r \<and> tw_state t = T_FILLED \<and>
        tw_wallet_address t = wc_wallet_address r \<and> tw_venue_market_id t = wc_venue_market_id r \<and>
        tw_provider_order_id t = Some (wc_order_id r)) (jm_values trades)"

section \<open>The world of the claims and the moves that change it\<close>

text \<open>\<open>cl_sent\<close> records every broadcast: the row and the signature sent.\<close>

record claim_world =
  cl_rows :: claim_rows
  cl_sent :: "(string \<times> string) list"

datatype claim_move =
  Cm_reserve win_claim
| Cm_build string prepared_claim
| Cm_drop string
| Cm_sign string string
| Cm_confirm string nat "string option"
| Cm_fail string nat
| Cm_send string

record claim_surface =
  su_rules :: claim_rules
  su_chain :: "nat \<Rightarrow> rpc"
  su_allows :: claim_guard
  su_trades :: trade_rows
  su_now :: int

definition put_claim :: "claim_surface \<Rightarrow> string \<Rightarrow> claim_state \<Rightarrow> claim_patch \<Rightarrow> claim_world \<Rightarrow> claim_world" where
  "put_claim S i s p w = w\<lparr>cl_rows := snd (claim_update (su_allows S) (su_now S) i s p (cl_rows w))\<rparr>"

definition send_claim :: "string \<Rightarrow> string \<Rightarrow> claim_world \<Rightarrow> claim_world" where
  "send_claim i sig w = w\<lparr>cl_sent := cl_sent w @ [(i, sig)]\<rparr>"

definition move_claim :: "claim_surface \<Rightarrow> claim_move \<Rightarrow> win_claim \<Rightarrow> claim_world \<Rightarrow> claim_world" where
  "move_claim S m r w =
     (case m of
        Cm_reserve _ \<Rightarrow> w
      | Cm_build i p \<Rightarrow> if claim_for_row (su_rules S) r p then put_claim S i Preparing_claim (built_patch p) w else w
      | Cm_drop i \<Rightarrow> put_claim S i Preparing_claim (to_claim_state Failed_claim) w
      | Cm_sign i payload \<Rightarrow>
          (case wc_prepared r of
             None \<Rightarrow> w
           | Some p \<Rightarrow>
               (case claim_approval (su_rules S) r p payload of
                  None \<Rightarrow> w
                | Some a \<Rightarrow>
                    if cb_expiresAt (pc_binding p) \<le> su_now S then w
                    else put_claim S i Built_claim (signed_patch payload (sg_signature a)) w))
      | Cm_confirm i t provider \<Rightarrow>
          (case (wc_signature r, wc_prepared r) of
             (Some sig, Some p) \<Rightarrow>
               (case claim_proof (su_rules S) (su_chain S t) r p sig of
                  Inr (Some pf) \<Rightarrow> put_claim S i Submitted_claim (confirmed_patch (claim_evidence_of (su_rules S) r p pf provider)) w
                | _ \<Rightarrow> w)
           | _ \<Rightarrow> w)
      | Cm_fail i t \<Rightarrow>
          (case (wc_signature r, wc_prepared r) of
             (Some sig, Some p) \<Rightarrow>
               if claim_proof (su_rules S) (su_chain S t) r p sig = Inr None \<and> claim_lost (su_chain S) (t + 1) p sig = Inr True
               then put_claim S i Submitted_claim (to_claim_state Failed_claim) w else w
           | _ \<Rightarrow> w)
      | Cm_send i \<Rightarrow> (case wc_signature r of None \<Rightarrow> w | Some sig \<Rightarrow> send_claim i sig w))"

definition claim_move_id :: "claim_move \<Rightarrow> string" where
  "claim_move_id m = (case m of Cm_reserve r \<Rightarrow> wc_id r | Cm_build i _ \<Rightarrow> i | Cm_drop i \<Rightarrow> i | Cm_sign i _ \<Rightarrow> i
     | Cm_confirm i _ _ \<Rightarrow> i | Cm_fail i _ \<Rightarrow> i | Cm_send i \<Rightarrow> i)"

definition claim_moved :: "claim_surface \<Rightarrow> claim_move \<Rightarrow> claim_world \<Rightarrow> claim_world" where
  "claim_moved S m w =
     (case m of
        Cm_reserve r \<Rightarrow>
          if claim_of_fill (su_trades S) r then w\<lparr>cl_rows := snd (claim_reserve (su_allows S) (su_now S) r (cl_rows w))\<rparr> else w
      | _ \<Rightarrow> (case jm_get (cl_rows w) (claim_move_id m) of None \<Rightarrow> w | Some r \<Rightarrow> move_claim S m r w))"

section \<open>The service\<close>

record claim_env = claim_surface +
  we_moment :: nat
  we_newId :: string
  we_fingerprint :: "string \<Rightarrow> string \<Rightarrow> string \<Rightarrow> string \<Rightarrow> string"
  we_request :: "string \<Rightarrow> string \<Rightarrow> thrown + claim_build option"
  we_send :: "string \<Rightarrow> thrown option"
  we_report :: "string \<Rightarrow> (string \<times> string \<times> string) option"
  we_race :: "claim_move list"

type_synonym 'a claimed = "(thrown + 'a) \<times> claim_world"

definition claim_raced :: "claim_env \<Rightarrow> claim_world \<Rightarrow> claim_world" where
  "claim_raced e w = fold (claim_moved (claim_surface.truncate e)) (we_race e) w"

definition write_claim :: "claim_env \<Rightarrow> string \<Rightarrow> claim_state \<Rightarrow> claim_patch \<Rightarrow> claim_world \<Rightarrow> win_claim option claimed" where
  "write_claim e i s p w =
     (case claim_update (su_allows e) (su_now e) i s p (cl_rows w) of (res, rows) \<Rightarrow> (res, w\<lparr>cl_rows := rows\<rparr>))"

datatype claim_shown = Shown_built | Shown_submitted | Shown_confirmed | Shown_failed

record claim_view =
  vw_claimId :: string
  vw_orderId :: string
  vw_venueMarketId :: string
  vw_owner :: string
  vw_state :: claim_shown
  vw_signature :: "string option"
  vw_payoutBaseUnits :: "string option"
  vw_createdAt :: int
  vw_updatedAt :: int
  vw_expiresAt :: "int option"

definition claim_view :: "win_claim \<Rightarrow> claim_view" where
  "claim_view r =
     \<lparr>vw_claimId = wc_id r, vw_orderId = wc_order_id r, vw_venueMarketId = wc_venue_market_id r, vw_owner = wc_wallet_address r,
      vw_state = (case wc_state r of Preparing_claim \<Rightarrow> Shown_failed | Built_claim \<Rightarrow> Shown_built | Submitted_claim \<Rightarrow> Shown_submitted
        | Confirmed_claim \<Rightarrow> Shown_confirmed | Failed_claim \<Rightarrow> Shown_failed),
      vw_signature = (if claim_live r then wc_signature r else None),
      vw_payoutBaseUnits = (if wc_state r = Confirmed_claim then map_option cv_payoutBaseUnits (wc_confirm_evidence r) else None),
      vw_createdAt = wc_created_at r, vw_updatedAt = wc_updated_at r,
      vw_expiresAt = map_option (\<lambda>p. cb_expiresAt (pc_binding p)) (wc_prepared r)\<rparr>"

text \<open>A prepared answer: the claim, with its transaction and review while it waits for the wallet.\<close>

type_synonym claim_answer = "claim_view \<times> (string \<times> claim_review) option"

definition claim_offer :: "win_claim \<Rightarrow> prepared_claim \<Rightarrow> claim_answer" where
  "claim_offer r p = (claim_view r, Some (pc_payload p, cb_review (pc_binding p)))"

definition claim_replay :: "claim_env \<Rightarrow> win_claim \<Rightarrow> string \<Rightarrow> thrown + claim_answer" where
  "claim_replay e r fingerprint =
     (if wc_request_fingerprint r \<noteq> fingerprint then Inl (Venue_error IDEMPOTENCY_CONFLICT None)
      else if wc_state r = Preparing_claim then Inl (Venue_error IDEMPOTENCY_CONFLICT None)
      else (case wc_prepared r of
              None \<Rightarrow> Inr (claim_view r, None)
            | Some p \<Rightarrow>
                if wc_state r \<noteq> Built_claim then Inr (claim_view r, None)
                else if cb_expiresAt (pc_binding p) \<le> su_now e then Inl bad_request
                else Inr (claim_offer r p)))"

text \<open>A claim that could not be built or saved leaves a failed row; what was thrown first is thrown.\<close>

definition drop_claim :: "claim_env \<Rightarrow> string \<Rightarrow> thrown \<Rightarrow> claim_world \<Rightarrow> 'a claimed" where
  "drop_claim e i x w = (Inl x, snd (write_claim e i Preparing_claim (to_claim_state Failed_claim) w))"

definition build_claim :: "claim_env \<Rightarrow> win_claim \<Rightarrow> claim_world \<Rightarrow> claim_answer claimed" where
  "build_claim e r w =
     (case claim_built (su_rules e) (we_request e) (su_now e) (wc_wallet_address r) (wc_venue_market_id r) of
        Inl x \<Rightarrow> drop_claim e (wc_id r) x (claim_raced e w)
      | Inr p \<Rightarrow>
          (case write_claim e (wc_id r) Preparing_claim (built_patch p) (claim_raced e w) of
             (Inl x, w) \<Rightarrow> drop_claim e (wc_id r) x w
           | (Inr None, w) \<Rightarrow> drop_claim e (wc_id r) bad_request w
           | (Inr (Some stored), w) \<Rightarrow> (Inr (claim_offer stored p), w)))"

definition claim_intent :: "claim_env \<Rightarrow> string \<Rightarrow> string \<Rightarrow> string \<Rightarrow> trade_row \<Rightarrow> win_claim" where
  "claim_intent e u orderId key t =
     \<lparr>wc_id = we_newId e, wc_user_id = u, wc_trade_session_id = tw_id t, wc_market_id = tw_market_id t, wc_order_id = orderId,
      wc_wallet_address = tw_wallet_address t, wc_venue_market_id = tw_venue_market_id t, wc_idempotency_key = key,
      wc_request_fingerprint = we_fingerprint e orderId (tw_wallet_address t) (tw_venue_market_id t) key, wc_state = Preparing_claim,
      wc_prepared = None, wc_signed_transaction = None, wc_signature = None, wc_confirm_evidence = None,
      wc_created_at = su_now e, wc_updated_at = su_now e\<rparr>"

definition reserve_claim :: "claim_env \<Rightarrow> win_claim \<Rightarrow> claim_world \<Rightarrow> claim_answer claimed" where
  "reserve_claim e intent w =
     (let w = claim_raced e w
      in case claim_reserve (su_allows e) (su_now e) intent (cl_rows w) of
           (Inl x, rows) \<Rightarrow> (Inl x, w\<lparr>cl_rows := rows\<rparr>)
         | (Inr None, rows) \<Rightarrow>
             (case claim_find (wc_user_id intent) (wc_idempotency_key intent) rows of
                None \<Rightarrow> (Inl bad_request, w)
              | Some won \<Rightarrow> (claim_replay e won (wc_request_fingerprint intent), w))
         | (Inr (Some reserved), rows) \<Rightarrow> build_claim e reserved (w\<lparr>cl_rows := rows\<rparr>))"

definition claim_prepare :: "claim_env \<Rightarrow> string \<Rightarrow> string \<Rightarrow> string \<Rightarrow> claim_world \<Rightarrow> claim_answer claimed" where
  "claim_prepare e u orderId key w =
     (case trade_byOrder u orderId (su_trades e) of
        None \<Rightarrow> (Inl bad_request, w)
      | Some t \<Rightarrow>
          if tw_state t \<noteq> T_FILLED then (Inl bad_request, w)
          else (case claim_activeFor u (tw_wallet_address t) (tw_venue_market_id t) (cl_rows w) of
            Some active \<Rightarrow> (Inr (claim_view active, None), w)
          | None \<Rightarrow>
              (let intent = claim_intent e u orderId key t
               in case claim_find u key (cl_rows w) of
                    Some r \<Rightarrow> (claim_replay e r (wc_request_fingerprint intent), w)
                  | None \<Rightarrow> reserve_claim e intent w)))"

definition own_claim :: "string \<Rightarrow> string \<Rightarrow> claim_rows \<Rightarrow> (win_claim \<times> prepared_claim) option" where
  "own_claim u i rows =
     (case claim_byId u i rows of
        None \<Rightarrow> None
      | Some r \<Rightarrow> (case wc_prepared r of None \<Rightarrow> None | Some p \<Rightarrow> Some (r, p)))"

definition no_such_claim :: thrown where
  "no_such_claim = Venue_error VENUE_NOT_FOUND None"

definition claim_differs :: "win_claim \<Rightarrow> string \<Rightarrow> string \<Rightarrow> bool" where
  "claim_differs r payload sig \<longleftrightarrow> wc_signature r \<noteq> Some sig \<or> wc_signed_transaction r \<noteq> Some payload"

text \<open>The approval is durable before the RPC; a broadcast the RPC refuses throws, and can be tried again.\<close>

definition broadcast_claim :: "claim_env \<Rightarrow> win_claim \<Rightarrow> string \<Rightarrow> claim_world \<Rightarrow> claim_view claimed" where
  "broadcast_claim e r sig w =
     (let w = send_claim (wc_id r) sig w
      in case we_send e sig of Some x \<Rightarrow> (Inl x, w) | None \<Rightarrow> (Inr (claim_view r), w))"

definition save_claim :: "claim_env \<Rightarrow> string \<Rightarrow> string \<Rightarrow> string \<Rightarrow> win_claim \<Rightarrow> prepared_claim \<Rightarrow> claim_world \<Rightarrow> claim_view claimed" where
  "save_claim e u payload sig r p w =
     (if cb_expiresAt (pc_binding p) \<le> su_now e then (Inl bad_request, w)
      else if \<not> validateTransaction (su_rules e) (pc_payload p) (pc_binding p) then (Inl schema_refused, w)
      else (case write_claim e (wc_id r) Built_claim (signed_patch payload sig) (claim_raced e w) of
        (Inl x, w) \<Rightarrow> (Inl x, w)
      | (Inr saved, w) \<Rightarrow>
          (case (case saved of Some q \<Rightarrow> Some q | None \<Rightarrow> map_option fst (own_claim u (wc_id r) (cl_rows w))) of
             None \<Rightarrow> (Inl no_such_claim, w)
           | Some q \<Rightarrow> if claim_differs q payload sig then (Inl bad_request, w) else broadcast_claim e q sig w)))"

definition claim_submit :: "claim_env \<Rightarrow> string \<Rightarrow> string \<Rightarrow> string \<Rightarrow> claim_world \<Rightarrow> claim_view claimed" where
  "claim_submit e u i payload w =
     (case own_claim u i (cl_rows w) of
        None \<Rightarrow> (Inl no_such_claim, w)
      | Some (r, p) \<Rightarrow>
          if wc_state r = Failed_claim then (Inl bad_request, w)
          else (case claim_approval (su_rules e) r p payload of
            None \<Rightarrow> (Inl bad_request, w)
          | Some a \<Rightarrow>
              if wc_signature r \<noteq> None \<and> claim_differs r payload (sg_signature a) then (Inl bad_request, w)
              else if wc_state r = Confirmed_claim then (Inr (claim_view r), w)
              else if wc_state r = Built_claim then save_claim e u payload (sg_signature a) r p w
              else broadcast_claim e r (sg_signature a) w))"

text \<open>The one transition out of \<open>SUBMITTED\<close>; the row is the caller's copy.\<close>

definition saved_or_row :: "win_claim \<Rightarrow> win_claim option claimed \<Rightarrow> win_claim claimed" where
  "saved_or_row r x = (case x of (Inl y, w) \<Rightarrow> (Inl y, w) | (Inr None, w) \<Rightarrow> (Inr r, w) | (Inr (Some q), w) \<Rightarrow> (Inr q, w))"

definition provider_trade :: "claim_env \<Rightarrow> string \<Rightarrow> string option" where
  "provider_trade e sig =
     (case we_report e sig of
        None \<Rightarrow> None
      | Some (s, status, kind) \<Rightarrow> if s = sig \<and> status = ''processed'' \<and> kind = ''claim'' then Some sig else None)"

definition claim_reconcile :: "claim_env \<Rightarrow> win_claim \<Rightarrow> claim_world \<Rightarrow> win_claim claimed" where
  "claim_reconcile e r w =
     (case (wc_state r, wc_signature r, wc_prepared r) of
        (Submitted_claim, Some sig, Some p) \<Rightarrow>
          (case claim_proof (su_rules e) (su_chain e (we_moment e)) r p sig of
             Inl x \<Rightarrow> (Inl x, w)
           | Inr (Some pf) \<Rightarrow>
               saved_or_row r (write_claim e (wc_id r) Submitted_claim
                 (confirmed_patch (claim_evidence_of (su_rules e) r p pf (provider_trade e sig))) (claim_raced e w))
           | Inr None \<Rightarrow>
               (case claim_lost (su_chain e) (we_moment e + 1) p sig of
                  Inl x \<Rightarrow> (Inl x, w)
                | Inr True \<Rightarrow> saved_or_row r (write_claim e (wc_id r) Submitted_claim (to_claim_state Failed_claim) (claim_raced e w))
                | Inr False \<Rightarrow> (Inr r, w)))
      | _ \<Rightarrow> (Inr r, w))"

definition claim_status :: "claim_env \<Rightarrow> string \<Rightarrow> string \<Rightarrow> claim_world \<Rightarrow> claim_view claimed" where
  "claim_status e u i w =
     (case own_claim u i (cl_rows w) of
        None \<Rightarrow> (Inl no_such_claim, w)
      | Some (r, p) \<Rightarrow> (case claim_reconcile e r w of (Inl x, w) \<Rightarrow> (Inl x, w) | (Inr q, w) \<Rightarrow> (Inr (claim_view q), w)))"

end
