(* ===== verification/WinClaimFlow.thy ===== *)
theory WinClaimFlow
  imports WinClaimService Interleaving
begin

text \<open>
  What the win claims keep. Every operation of the service is a sequence of moves of the ledger, with the
  moves of other requests in between: a claim is made only for a confirmed position, what is broadcast was
  saved before and is the owner's approval of a claim within the rules, and a claim is confirmed only with
  the chain's proof that its owner was paid.
\<close>

section \<open>What a move does\<close>

definition allowed_claim :: "claim_rules \<Rightarrow> (nat \<Rightarrow> rpc) \<Rightarrow> win_claim \<Rightarrow> claim_patch \<Rightarrow> bool" where
  "allowed_claim R chain r p \<longleftrightarrow>
     wc_state r = Preparing_claim \<and> (\<exists>x. claim_for_row R r x \<and> p = built_patch x) \<or>
     wc_state r = Preparing_claim \<and> p = to_claim_state Failed_claim \<or>
     wc_state r = Built_claim \<and> (\<exists>x payload a. wc_prepared r = Some x \<and> claim_approval R r x payload = Some a \<and>
        p = signed_patch payload (sg_signature a)) \<or>
     wc_state r = Submitted_claim \<and> (\<exists>s x t pf provider. wc_signature r = Some s \<and> wc_prepared r = Some x \<and>
        claim_proof R (chain t) r x s = Inr (Some pf) \<and> p = confirmed_patch (claim_evidence_of R r x pf provider)) \<or>
     wc_state r = Submitted_claim \<and> p = to_claim_state Failed_claim \<and> (\<exists>s x t. wc_signature r = Some s \<and> wc_prepared r = Some x \<and>
        claim_proof R (chain t) r x s = Inr None \<and> claim_lost chain (t + 1) x s = Inr True)"

lemma allowed_confirm:
  "wc_state r = Submitted_claim \<Longrightarrow> wc_signature r = Some s \<Longrightarrow> wc_prepared r = Some x \<Longrightarrow>
   claim_proof R (chain t) r x s = Inr (Some pf) \<Longrightarrow> allowed_claim R chain r (confirmed_patch (claim_evidence_of R r x pf provider))"
  unfolding allowed_claim_def by blast

lemma allowed_lost:
  "wc_state r = Submitted_claim \<Longrightarrow> wc_signature r = Some s \<Longrightarrow> wc_prepared r = Some x \<Longrightarrow>
   claim_proof R (chain t) r x s = Inr None \<Longrightarrow> claim_lost chain (t + 1) x s = Inr True \<Longrightarrow>
   allowed_claim R chain r (to_claim_state Failed_claim)"
  unfolding allowed_claim_def by blast

lemma claim_update_cases:
  obtains (refused) "snd (claim_update g now i s p rows) = rows" "\<And>q. fst (claim_update g now i s p rows) \<noteq> Inr (Some q)"
  | (wrote) r where "jm_get rows i = Some r" "wc_state r = s"
      "claim_update g now i s p rows = (Inr (Some (claim_patched p now r)), jm_set i (claim_patched p now r) rows)"
proof (cases "jm_get rows i")
  case None
  then show ?thesis using refused by (simp add: claim_update_def)
next
  case (Some r)
  then show ?thesis using refused wrote
    by (cases "wc_state r = s"; cases "g (Some r) (claim_patched p now r)") (simp_all add: claim_update_def)
qed

lemma claim_reserve_cases:
  obtains (refused) "snd (claim_reserve g now r rows) = rows" "\<And>q. fst (claim_reserve g now r rows) \<noteq> Inr (Some q)"
  | (wrote) "claim_find (wc_user_id r) (wc_idempotency_key r) rows = None" "jm_get rows (wc_id r) = None"
      "claim_reserve g now r rows = (Inr (Some (blank_claim now r)), jm_set (wc_id r) (blank_claim now r) rows)"
proof (cases "claim_find (wc_user_id r) (wc_idempotency_key r) rows = None \<and> jm_get rows (wc_id r) = None \<and> g None (blank_claim now r)")
  case True
  then show ?thesis using wrote by (simp add: claim_reserve_def)
next
  case False
  then show ?thesis using refused by (auto simp: claim_reserve_def simp del: map_of_eq_None_iff)
qed

lemma move_claim_cases:
  obtains (id) "move_claim S m r w = w"
  | (put) s p where "move_claim S m r w = put_claim S (claim_move_id m) s p w"
      "wc_state r = s \<Longrightarrow> allowed_claim (su_rules S) (su_chain S) r p"
  | (send) s where "wc_signature r = Some s" "move_claim S m r w = send_claim (claim_move_id m) s w"
proof (cases m)
  case (Cm_reserve x)
  then show ?thesis using id by (simp add: move_claim_def)
next
  case (Cm_build i p)
  then show ?thesis using id put[of Preparing_claim "built_patch p"]
    by (cases "claim_for_row (su_rules S) r p") (auto simp: move_claim_def claim_move_id_def allowed_claim_def)
next
  case (Cm_drop i)
  then show ?thesis using put[of Preparing_claim "to_claim_state Failed_claim"] by (auto simp: move_claim_def claim_move_id_def allowed_claim_def)
next
  case (Cm_sign i payload)
  show ?thesis
  proof (cases "wc_prepared r")
    case None
    then show ?thesis using id Cm_sign by (simp add: move_claim_def)
  next
    case (Some p)
    show ?thesis
    proof (cases "claim_approval (su_rules S) r p payload")
      case None
      then show ?thesis using id Cm_sign Some by (simp add: move_claim_def)
    next
      case (Some a)
      then show ?thesis using id Cm_sign \<open>wc_prepared r = Some p\<close> put[of Built_claim "signed_patch payload (sg_signature a)"]
        by (cases "cb_expiresAt (pc_binding p) \<le> su_now S") (auto simp: move_claim_def claim_move_id_def allowed_claim_def)
    qed
  qed
next
  case (Cm_confirm i t provider)
  show ?thesis
  proof (cases "\<exists>sig p pf. wc_signature r = Some sig \<and> wc_prepared r = Some p \<and> claim_proof (su_rules S) (su_chain S t) r p sig = Inr (Some pf)")
    case True
    then obtain sig p pf where a: "wc_signature r = Some sig" "wc_prepared r = Some p" "claim_proof (su_rules S) (su_chain S t) r p sig = Inr (Some pf)"
      by blast
    show ?thesis
      by (rule put[of Submitted_claim "confirmed_patch (claim_evidence_of (su_rules S) r p pf provider)"])
        (use a in \<open>simp_all add: Cm_confirm move_claim_def claim_move_id_def allowed_confirm\<close>)
  next
    case False
    then have "move_claim S m r w = w" by (auto simp: Cm_confirm move_claim_def split: option.splits sum.splits)
    then show ?thesis by (rule id)
  qed
next
  case (Cm_fail i t)
  show ?thesis
  proof (cases "\<exists>sig p. wc_signature r = Some sig \<and> wc_prepared r = Some p \<and> claim_proof (su_rules S) (su_chain S t) r p sig = Inr None \<and>
      claim_lost (su_chain S) (t + 1) p sig = Inr True")
    case True
    then obtain sig p where a: "wc_signature r = Some sig" "wc_prepared r = Some p" "claim_proof (su_rules S) (su_chain S t) r p sig = Inr None"
      "claim_lost (su_chain S) (t + 1) p sig = Inr True" by blast
    show ?thesis
      by (rule put[of Submitted_claim "to_claim_state Failed_claim"])
        (use a allowed_lost[OF _ a] in \<open>simp_all add: Cm_fail move_claim_def claim_move_id_def\<close>)
  next
    case False
    then have "move_claim S m r w = w" by (auto simp: Cm_fail move_claim_def split: option.splits)
    then show ?thesis by (rule id)
  qed
next
  case (Cm_send i)
  then show ?thesis using id send by (cases "wc_signature r") (simp_all add: move_claim_def claim_move_id_def)
qed

lemma claim_move_cases:
  obtains (same) "claim_moved S m w = w"
  | (new) r where "claim_of_fill (su_trades S) r" "claim_find (wc_user_id r) (wc_idempotency_key r) (cl_rows w) = None"
      "jm_get (cl_rows w) (wc_id r) = None"
      "claim_moved S m w = w\<lparr>cl_rows := jm_set (wc_id r) (blank_claim (su_now S) r) (cl_rows w)\<rparr>"
  | (patch) i r p where "jm_get (cl_rows w) i = Some r" "allowed_claim (su_rules S) (su_chain S) r p"
      "claim_moved S m w = w\<lparr>cl_rows := jm_set i (claim_patched p (su_now S) r) (cl_rows w)\<rparr>"
  | (sent) i r s where "jm_get (cl_rows w) i = Some r" "wc_signature r = Some s"
      "claim_moved S m w = w\<lparr>cl_sent := cl_sent w @ [(i, s)]\<rparr>"
proof (cases "\<exists>r. m = Cm_reserve r")
  case True
  then obtain r where m: "m = Cm_reserve r" by blast
  show ?thesis
  proof (cases "claim_of_fill (su_trades S) r")
    case fill: True
    show ?thesis
    proof (cases rule: claim_reserve_cases[of "su_allows S" "su_now S" r "cl_rows w"])
      case refused
      then show ?thesis using same m fill by (simp add: claim_moved_def)
    next
      case wrote
      then show ?thesis using new[of r] m fill by (simp add: claim_moved_def)
    qed
  next
    case False
    then show ?thesis using same m by (simp add: claim_moved_def)
  qed
next
  case False
  show ?thesis
  proof (cases "jm_get (cl_rows w) (claim_move_id m)")
    case None
    then show ?thesis using same False by (cases m) (simp_all add: claim_moved_def)
  next
    case (Some r)
    have eq: "claim_moved S m w = move_claim S m r w" using Some False by (cases m) (simp_all add: claim_moved_def)
    show ?thesis
    proof (cases rule: move_claim_cases[of S m r w])
      case id
      then show ?thesis using same eq by simp
    next
      case (put s p)
      show ?thesis
      proof (cases rule: claim_update_cases[of "su_allows S" "su_now S" "claim_move_id m" s p "cl_rows w"])
        case refused
        then show ?thesis using same eq put(1) by (simp add: put_claim_def)
      next
        case (wrote q)
        then show ?thesis using patch[of "claim_move_id m" r p] Some eq put by (simp add: put_claim_def)
      qed
    next
      case (send s)
      then show ?thesis using sent[of "claim_move_id m" r s] Some eq by (simp add: send_claim_def)
    qed
  qed
qed

section \<open>What the claims keep\<close>

definition unprepared :: "win_claim \<Rightarrow> bool" where
  "unprepared r \<longleftrightarrow> wc_prepared r = None \<and> wc_signed_transaction r = None \<and> wc_signature r = None"

text \<open>The owner's approval of the row's reviewed claim is on the row.\<close>

definition approved_claim :: "claim_rules \<Rightarrow> win_claim \<Rightarrow> bool" where
  "approved_claim R r \<longleftrightarrow>
     (case (wc_prepared r, wc_signed_transaction r, wc_signature r) of
        (Some p, Some payload, Some s) \<Rightarrow> claim_for_row R r p \<and> map_option sg_signature (claim_approval R r p payload) = Some s
      | _ \<Rightarrow> False)"

definition paid_claim :: "claim_rules \<Rightarrow> (nat \<Rightarrow> rpc) \<Rightarrow> win_claim \<Rightarrow> bool" where
  "paid_claim R chain r \<longleftrightarrow> (\<exists>p s t pf provider. wc_prepared r = Some p \<and> wc_signature r = Some s \<and>
     claim_proof R (chain t) r p s = Inr (Some pf) \<and> wc_confirm_evidence r = Some (claim_evidence_of R r p pf provider))"

definition lost_claim :: "claim_rules \<Rightarrow> (nat \<Rightarrow> rpc) \<Rightarrow> win_claim \<Rightarrow> bool" where
  "lost_claim R chain r \<longleftrightarrow> (\<exists>p s t. wc_prepared r = Some p \<and> wc_signature r = Some s \<and>
     claim_proof R (chain t) r p s = Inr None \<and> claim_lost chain (t + 1) p s = Inr True)"

definition claim_fine :: "claim_rules \<Rightarrow> (nat \<Rightarrow> rpc) \<Rightarrow> win_claim \<Rightarrow> bool" where
  "claim_fine R chain r \<longleftrightarrow>
     (case wc_state r of
        Preparing_claim \<Rightarrow> unprepared r \<and> wc_confirm_evidence r = None
      | Built_claim \<Rightarrow> (\<exists>p. wc_prepared r = Some p \<and> claim_for_row R r p) \<and> wc_signed_transaction r = None \<and> wc_signature r = None \<and>
          wc_confirm_evidence r = None
      | Submitted_claim \<Rightarrow> approved_claim R r \<and> wc_confirm_evidence r = None
      | Confirmed_claim \<Rightarrow> approved_claim R r \<and> paid_claim R chain r
      | Failed_claim \<Rightarrow> (unprepared r \<or> approved_claim R r \<and> lost_claim R chain r) \<and> wc_confirm_evidence r = None)"

definition same_claim :: "win_claim \<Rightarrow> win_claim \<Rightarrow> bool" where
  "same_claim r q \<longleftrightarrow> q\<lparr>wc_state := wc_state r, wc_prepared := wc_prepared r, wc_signed_transaction := wc_signed_transaction r,
     wc_signature := wc_signature r, wc_confirm_evidence := wc_confirm_evidence r, wc_updated_at := wc_updated_at r\<rparr> = r"

definition settled_claim :: "win_claim \<Rightarrow> bool" where
  "settled_claim r \<longleftrightarrow> wc_state r = Confirmed_claim \<or> wc_state r = Failed_claim"

text \<open>A later row of the same claim.\<close>

definition claim_later :: "win_claim \<Rightarrow> win_claim \<Rightarrow> bool" where
  "claim_later r q \<longleftrightarrow> same_claim r q \<and> (settled_claim r \<longrightarrow> q = r) \<and>
     (wc_prepared r \<noteq> None \<longrightarrow> wc_prepared q = wc_prepared r) \<and>
     (wc_signature r \<noteq> None \<longrightarrow> wc_signature q = wc_signature r \<and> wc_signed_transaction q = wc_signed_transaction r) \<and>
     (wc_state r = Submitted_claim \<longrightarrow> q = r \<or> settled_claim q)"

lemma claim_later_refl [simp]: "claim_later r r"
  by (simp add: claim_later_def same_claim_def)

lemma same_claim_trans: "same_claim r q \<Longrightarrow> same_claim q x \<Longrightarrow> same_claim r x"
  by (cases r; cases q; cases x) (simp add: same_claim_def)

lemma claim_later_trans: "claim_later r q \<Longrightarrow> claim_later q x \<Longrightarrow> claim_later r x"
  unfolding claim_later_def by (auto intro: same_claim_trans)

lemma same_claim_eq:
  assumes "same_claim r q"
  shows "wc_id q = wc_id r" "wc_user_id q = wc_user_id r" "wc_wallet_address q = wc_wallet_address r"
    "wc_venue_market_id q = wc_venue_market_id r" "wc_idempotency_key q = wc_idempotency_key r"
    "wc_trade_session_id q = wc_trade_session_id r" "wc_order_id q = wc_order_id r"
  by (use assms in \<open>cases r; cases q; simp add: same_claim_def\<close>)+

lemma same_claim_terms:
  assumes "same_claim r q"
  shows "claim_for_row R q = claim_for_row R r" "claim_approval R q = claim_approval R r" "claim_of_fill T q = claim_of_fill T r"
proof -
  note eq = same_claim_eq[OF assms]
  show "claim_for_row R q = claim_for_row R r" "claim_approval R q = claim_approval R r"
    by (intro ext; simp add: claim_for_row_def claim_approval_def eq)+
  show "claim_of_fill T q = claim_of_fill T r" by (simp add: claim_of_fill_def eq)
qed

lemma proof_terms: "same_claim r q \<Longrightarrow> wc_signed_transaction q = wc_signed_transaction r \<Longrightarrow>
    claim_proof R c q = claim_proof R c r \<and> claim_evidence_of R q = claim_evidence_of R r"
  by (intro conjI ext) (simp_all add: claim_proof_def claim_evidence_of_def claim_message_def same_claim_eq)

lemma patched_same_claim: "same_claim r (claim_patched p now r)"
  by (cases r) (simp add: same_claim_def claim_patched_def)

lemmas claim_patch_defs = claim_patched_def built_patch_def signed_patch_def confirmed_patch_def to_claim_state_def

lemma claim_patched_fields [simp]:
  "wc_state (claim_patched p now r) = cp_state p"
  "wc_prepared (claim_patched p now r) = (case cp_prepared p of None \<Rightarrow> wc_prepared r | Some x \<Rightarrow> Some x)"
  "wc_signed_transaction (claim_patched p now r) = (case cp_signed p of None \<Rightarrow> wc_signed_transaction r | Some (payload, sig) \<Rightarrow> Some payload)"
  "wc_signature (claim_patched p now r) = (case cp_signed p of None \<Rightarrow> wc_signature r | Some (payload, sig) \<Rightarrow> Some sig)"
  "wc_confirm_evidence (claim_patched p now r) = (case cp_confirm_evidence p of None \<Rightarrow> wc_confirm_evidence r | Some x \<Rightarrow> Some x)"
  by (simp_all add: claim_patched_def)

lemma patch_fields [simp]:
  "cp_state (to_claim_state s) = s" "cp_prepared (to_claim_state s) = None" "cp_signed (to_claim_state s) = None"
  "cp_confirm_evidence (to_claim_state s) = None"
  "cp_state (built_patch x) = Built_claim" "cp_prepared (built_patch x) = Some x" "cp_signed (built_patch x) = None"
  "cp_confirm_evidence (built_patch x) = None"
  "cp_state (signed_patch payload sig) = Submitted_claim" "cp_prepared (signed_patch payload sig) = None"
  "cp_signed (signed_patch payload sig) = Some (payload, sig)" "cp_confirm_evidence (signed_patch payload sig) = None"
  "cp_state (confirmed_patch y) = Confirmed_claim" "cp_prepared (confirmed_patch y) = None" "cp_signed (confirmed_patch y) = None"
  "cp_confirm_evidence (confirmed_patch y) = Some y"
  by (simp_all add: to_claim_state_def built_patch_def signed_patch_def confirmed_patch_def)

lemmas patched_terms [simp] = same_claim_terms[OF patched_same_claim] same_claim_eq[OF patched_same_claim]

lemma patched_claim_fine:
  assumes f: "claim_fine R chain r" and a: "allowed_claim R chain r p"
  shows "claim_fine R chain (claim_patched p now r)"
proof -
  let ?q = "claim_patched p now r"
  have pt: "claim_proof R c ?q = claim_proof R c r \<and> claim_evidence_of R ?q = claim_evidence_of R r"
    if "cp_signed p = None" for c by (rule proof_terms[OF patched_same_claim]) (simp add: that)
  from a consider (build) x where "wc_state r = Preparing_claim" "claim_for_row R r x" "p = built_patch x"
    | (drop) "wc_state r = Preparing_claim" "p = to_claim_state Failed_claim"
    | (sign) x payload y where "wc_state r = Built_claim" "wc_prepared r = Some x" "claim_approval R r x payload = Some y"
        "p = signed_patch payload (sg_signature y)"
    | (confirm) s x u pf provider where "wc_state r = Submitted_claim" "wc_signature r = Some s" "wc_prepared r = Some x"
        "claim_proof R (chain u) r x s = Inr (Some pf)" "p = confirmed_patch (claim_evidence_of R r x pf provider)"
    | (lost) s x u where "wc_state r = Submitted_claim" "p = to_claim_state Failed_claim" "wc_signature r = Some s" "wc_prepared r = Some x"
        "claim_proof R (chain u) r x s = Inr None" "claim_lost chain (u + 1) x s = Inr True"
    unfolding allowed_claim_def by blast
  then show ?thesis
  proof cases
    case build
    then show ?thesis using f by (simp add: claim_fine_def unprepared_def)
  next
    case drop
    then show ?thesis using f by (simp add: claim_fine_def unprepared_def)
  next
    case sign
    then show ?thesis using f by (simp add: claim_fine_def approved_claim_def)
  next
    case confirm
    have "approved_claim R ?q" using f confirm by (simp add: claim_fine_def approved_claim_def split: option.splits)
    moreover have "paid_claim R chain ?q" unfolding paid_claim_def
      by (intro exI[of _ x] exI[of _ s] exI[of _ u] exI[of _ pf] exI[of _ provider]) (use confirm pt in simp)
    ultimately show ?thesis using confirm(5) by (simp add: claim_fine_def)
  next
    case lost
    have "approved_claim R ?q" using f lost by (simp add: claim_fine_def approved_claim_def split: option.splits)
    moreover have "lost_claim R chain ?q" unfolding lost_claim_def
      by (intro exI[of _ x] exI[of _ s] exI[of _ u]) (use lost pt in simp)
    ultimately show ?thesis using f lost(1,2) by (simp add: claim_fine_def)
  qed
qed

lemma patched_claim_later:
  assumes "claim_fine R chain r" "allowed_claim R chain r p" shows "claim_later r (claim_patched p now r)"
proof -
  have "\<not> settled_claim r" using assms(2) by (auto simp: allowed_claim_def settled_claim_def)
  moreover have "wc_prepared r \<noteq> None \<longrightarrow> wc_prepared (claim_patched p now r) = wc_prepared r"
    using assms by (auto simp: allowed_claim_def claim_fine_def unprepared_def)
  moreover have "wc_signature r \<noteq> None \<longrightarrow> wc_signature (claim_patched p now r) = wc_signature r \<and>
      wc_signed_transaction (claim_patched p now r) = wc_signed_transaction r"
    using assms by (auto simp: allowed_claim_def claim_fine_def unprepared_def)
  moreover have "wc_state r = Submitted_claim \<longrightarrow> settled_claim (claim_patched p now r)"
    using assms(2) by (auto simp: allowed_claim_def settled_claim_def)
  ultimately show ?thesis using patched_same_claim by (simp add: claim_later_def)
qed

text \<open>The ledger: every claim for a position confirmed in one of the trade tables the requests read.\<close>

definition claims_kept :: "claim_rules \<Rightarrow> (nat \<Rightarrow> rpc) \<Rightarrow> trade_rows list \<Rightarrow> claim_world \<Rightarrow> bool" where
  "claims_kept R chain Ts w \<longleftrightarrow>
     jm_wf (cl_rows w) \<and>
     (\<forall>i r. jm_get (cl_rows w) i = Some r \<longrightarrow> wc_id r = i \<and> claim_fine R chain r \<and> list_ex (\<lambda>T. claim_of_fill T r) Ts) \<and>
     (\<forall>i r j q. jm_get (cl_rows w) i = Some r \<longrightarrow> jm_get (cl_rows w) j = Some q \<longrightarrow>
        wc_user_id r = wc_user_id q \<longrightarrow> wc_idempotency_key r = wc_idempotency_key q \<longrightarrow> i = j) \<and>
     (\<forall>i s. (i, s) \<in> set (cl_sent w) \<longrightarrow> (\<exists>r. jm_get (cl_rows w) i = Some r \<and> wc_signature r = Some s))"

lemma claims_kept_parts:
  assumes "claims_kept R chain Ts w"
  shows "jm_wf (cl_rows w)"
    "\<And>i r. jm_get (cl_rows w) i = Some r \<Longrightarrow> wc_id r = i"
    "\<And>i r. jm_get (cl_rows w) i = Some r \<Longrightarrow> claim_fine R chain r"
    "\<And>i r. jm_get (cl_rows w) i = Some r \<Longrightarrow> list_ex (\<lambda>T. claim_of_fill T r) Ts"
    "\<And>i r j q. jm_get (cl_rows w) i = Some r \<Longrightarrow> jm_get (cl_rows w) j = Some q \<Longrightarrow>
       wc_user_id r = wc_user_id q \<Longrightarrow> wc_idempotency_key r = wc_idempotency_key q \<Longrightarrow> i = j"
    "\<And>i s. (i, s) \<in> set (cl_sent w) \<Longrightarrow> \<exists>r. jm_get (cl_rows w) i = Some r \<and> wc_signature r = Some s"
  using assms unfolding claims_kept_def by blast+

lemma claims_put:
  assumes "claims_kept R chain Ts w" "wc_id v = i" "claim_fine R chain v" "list_ex (\<lambda>T. claim_of_fill T v) Ts"
    and "\<And>j q. jm_get (cl_rows w) j = Some q \<Longrightarrow> wc_user_id q = wc_user_id v \<Longrightarrow> wc_idempotency_key q = wc_idempotency_key v \<Longrightarrow> j = i"
    and "\<And>r. jm_get (cl_rows w) i = Some r \<Longrightarrow> wc_signature r \<noteq> None \<Longrightarrow> wc_signature v = wc_signature r"
  shows "claims_kept R chain Ts (w\<lparr>cl_rows := jm_set i v (cl_rows w)\<rparr>)"
proof -
  note k = claims_kept_parts[OF assms(1)]
  let ?m = "jm_set i v (cl_rows w)"
  have get: "jm_get ?m j = (if j = i then Some v else jm_get (cl_rows w) j)" for j by simp
  have row: "wc_id r = j \<and> claim_fine R chain r \<and> list_ex (\<lambda>T. claim_of_fill T r) Ts" if "jm_get ?m j = Some r" for j r
    using that assms(2-4) k(2-4) unfolding get by (metis option.inject)
  have keys: "j = l" if "jm_get ?m j = Some r" "jm_get ?m l = Some q" "wc_user_id r = wc_user_id q" "wc_idempotency_key r = wc_idempotency_key q" for j r l q
    using that assms(5) k(5) unfolding get by (metis option.inject)
  have sent: "\<exists>r. jm_get ?m j = Some r \<and> wc_signature r = Some s" if "(j, s) \<in> set (cl_sent w)" for j s
    using k(6)[OF that] assms(6) unfolding get by (cases "j = i") auto
  have eq: "cl_rows (w\<lparr>cl_rows := ?m\<rparr>) = ?m" "cl_sent (w\<lparr>cl_rows := ?m\<rparr>) = cl_sent w" by simp_all
  have wf: "jm_wf ?m" using k(1) by simp
  show ?thesis unfolding claims_kept_def eq
    by (intro conjI allI impI) (rule wf | (rule row[THEN conjunct1], assumption) | (rule row[THEN conjunct2, THEN conjunct1], assumption)
      | (rule row[THEN conjunct2, THEN conjunct2], assumption) | rule keys sent, assumption+)+
qed

lemma blank_claim_fields [simp]:
  "wc_id (blank_claim now r) = wc_id r" "wc_user_id (blank_claim now r) = wc_user_id r"
  "wc_wallet_address (blank_claim now r) = wc_wallet_address r" "wc_venue_market_id (blank_claim now r) = wc_venue_market_id r"
  "wc_idempotency_key (blank_claim now r) = wc_idempotency_key r" "wc_state (blank_claim now r) = Preparing_claim"
  "claim_of_fill T (blank_claim now r) = claim_of_fill T r" "claim_fine R chain (blank_claim now r)"
  "wc_signature (blank_claim now r) = None"
  by (simp_all add: blank_claim_def claim_of_fill_def claim_fine_def unprepared_def)

lemma claim_find_None: "claim_find u key rows = None \<Longrightarrow> jm_get rows i = Some r \<Longrightarrow> wc_user_id r = u \<Longrightarrow> wc_idempotency_key r \<noteq> key"
  by (auto simp: claim_find_def find_None_iff dest!: jm_get_mem)

lemma claims_moved_kept:
  assumes kept: "claims_kept (su_rules S) (su_chain S) Ts w" and T: "su_trades S \<in> set Ts"
  shows "claims_kept (su_rules S) (su_chain S) Ts (claim_moved S m w)"
proof (cases rule: claim_move_cases[of S m w])
  case (new r)
  have "claims_kept (su_rules S) (su_chain S) Ts (w\<lparr>cl_rows := jm_set (wc_id r) (blank_claim (su_now S) r) (cl_rows w)\<rparr>)"
    by (rule claims_put[OF kept]) (use new(1,3) T claim_find_None[OF new(2)] in \<open>auto simp: list_ex_iff\<close>)
  then show ?thesis using new(4) by simp
next
  case (patch i r p)
  note k = claims_kept_parts[OF kept]
  have later: "claim_later r (claim_patched p (su_now S) r)" by (rule patched_claim_later[OF k(3)[OF patch(1)] patch(2)])
  have "claims_kept (su_rules S) (su_chain S) Ts (w\<lparr>cl_rows := jm_set i (claim_patched p (su_now S) r) (cl_rows w)\<rparr>)"
  proof (rule claims_put[OF kept])
    show "wc_id (claim_patched p (su_now S) r) = i" using k(2)[OF patch(1)] by simp
    show "claim_fine (su_rules S) (su_chain S) (claim_patched p (su_now S) r)" by (rule patched_claim_fine[OF k(3)[OF patch(1)] patch(2)])
    show "list_ex (\<lambda>T. claim_of_fill T (claim_patched p (su_now S) r)) Ts" using k(4)[OF patch(1)] by simp
    show "j = i" if "jm_get (cl_rows w) j = Some q" "wc_user_id q = wc_user_id (claim_patched p (su_now S) r)"
      "wc_idempotency_key q = wc_idempotency_key (claim_patched p (su_now S) r)" for j q
      using k(5)[OF that(1) patch(1)] that(2,3) by simp
    show "wc_signature (claim_patched p (su_now S) r) = wc_signature q" if "jm_get (cl_rows w) i = Some q" "wc_signature q \<noteq> None" for q
      using later that patch(1) unfolding claim_later_def by (metis option.inject)
  qed
  then show ?thesis using patch(3) by simp
next
  case (sent i r s)
  have "claims_kept (su_rules S) (su_chain S) Ts (w\<lparr>cl_sent := cl_sent w @ [(i, s)]\<rparr>)"
    using kept sent(1,2) unfolding claims_kept_def by auto
  then show ?thesis using sent(3) by simp
qed (use kept in simp)

lemma claims_moved_later:
  assumes "claims_kept (su_rules S) (su_chain S) Ts w" "jm_get (cl_rows w) i = Some r"
  shows "\<exists>q. jm_get (cl_rows (claim_moved S m w)) i = Some q \<and> claim_later r q"
proof (cases rule: claim_move_cases[of S m w])
  case (new x)
  then show ?thesis using assms(2) by (cases "i = wc_id x") auto
next
  case (patch j x p)
  then show ?thesis using assms(2) patched_claim_later[OF claims_kept_parts(3)[OF assms(1) patch(1)] patch(2)] by (cases "i = j") auto
qed (use assms(2) in auto)

text \<open>The ledger as the moves of one surface keep it.\<close>

definition kept_by :: "claim_surface \<Rightarrow> trade_rows list \<Rightarrow> claim_world \<Rightarrow> bool" where
  "kept_by S Ts w \<longleftrightarrow> su_trades S \<in> set Ts \<and> claims_kept (su_rules S) (su_chain S) Ts w"

interpretation claim_ledger: moved_ledger "claim_moved S" "kept_by S Ts" "\<lambda>w. jm_get (cl_rows w)" "\<lambda>_. True" claim_later for S Ts
proof (unfold_locales, goal_cases)
  case (1 w m)
  then show ?case using claims_moved_kept by (simp add: kept_by_def)
next
  case (2 w k r m)
  then show ?case using claims_moved_later[of S Ts w k r m] by (simp add: kept_by_def)
next
  case (5 r q x)
  then show ?case using claim_later_trans by blast
qed simp_all

section \<open>Operations are moves\<close>

abbreviation surface :: "claim_env \<Rightarrow> claim_surface" where
  "surface \<equiv> claim_surface.truncate"

lemma surface_simps [simp]: "su_rules (surface e) = su_rules e" "su_chain (surface e) = su_chain e" "su_allows (surface e) = su_allows e"
  "su_now (surface e) = su_now e" "su_trades (surface e) = su_trades e"
  by (simp_all add: claim_surface.truncate_def)

lemma surface_moment [simp]: "surface (e\<lparr>we_moment := t\<rparr>) = surface e"
  by (simp add: claim_surface.truncate_def)

definition claim_moves :: "claim_env \<Rightarrow> claim_world \<Rightarrow> claim_world \<Rightarrow> bool" where
  "claim_moves e = moved_by (claim_moved (surface e))"

lemma cmoves_refl [simp]: "claim_moves e w w"
  by (simp add: claim_moves_def)

lemma cmoves_trans: "claim_moves e u v \<Longrightarrow> claim_moves e v w \<Longrightarrow> claim_moves e u w"
  unfolding claim_moves_def by (rule moved_by_trans)

lemma cmoves_raced [simp]: "claim_moves e w (claim_raced e w)"
  by (simp add: claim_moves_def claim_raced_def)

lemma cmoves_one: "claim_moved (surface e) m w = w' \<Longrightarrow> claim_moves e w w'"
  unfolding claim_moves_def using moved_by_one by metis

lemma cmoves_kept: "claim_moves e w w' \<Longrightarrow> kept_by (surface e) Ts w \<Longrightarrow> kept_by (surface e) Ts w'"
  unfolding claim_moves_def by (rule claim_ledger.moved_keeps)

text \<open>A row read earlier is still there, perhaps further on.\<close>

definition stands :: "win_claim \<Rightarrow> claim_world \<Rightarrow> bool" where
  "stands r w \<longleftrightarrow> (\<exists>q. jm_get (cl_rows w) (wc_id r) = Some q \<and> claim_later r q)"

lemma stands_moves: "stands r w \<Longrightarrow> kept_by (surface e) Ts w \<Longrightarrow> claim_moves e w w' \<Longrightarrow> stands r w'"
  unfolding stands_def claim_moves_def using claim_ledger.moved_advances claim_later_trans by meson

lemma stands_row: "kept_by S Ts w \<Longrightarrow> jm_get (cl_rows w) i = Some r \<Longrightarrow> stands r w \<and> wc_id r = i"
  using claims_kept_parts(2) by (auto simp: stands_def kept_by_def simp del: map_of_eq_Some_iff)

lemma stands_found:
  assumes "kept_by S Ts w" "r \<in> set (jm_values (cl_rows w))" shows "stands r w \<and> jm_get (cl_rows w) (wc_id r) = Some r"
proof -
  obtain k where "(k, r) \<in> set (cl_rows w)" using assms(2) by auto
  then have "jm_get (cl_rows w) k = Some r" using claims_kept_parts(1) assms(1) by (auto simp: kept_by_def intro: jm_get_in)
  then show ?thesis using stands_row[OF assms(1)] by metis
qed

lemma own_claim_row:
  assumes "kept_by S Ts w" "own_claim u i (cl_rows w) = Some (r, p)"
  shows "jm_get (cl_rows w) i = Some r" "wc_prepared r = Some p" "stands r w" "wc_id r = i" "claim_fine (su_rules S) (su_chain S) r"
proof -
  have r: "r \<in> set (jm_values (cl_rows w))" "wc_id r = i" "wc_prepared r = Some p"
    using assms(2) find_Some_iff[of _ "jm_values (cl_rows w)"] nth_mem
    by (fastforce simp: own_claim_def claim_byId_def simp del: length_map split: option.splits)+
  show "jm_get (cl_rows w) i = Some r" "wc_prepared r = Some p" "stands r w" "wc_id r = i" using stands_found[OF assms(1) r(1)] r by simp_all
  then show "claim_fine (su_rules S) (su_chain S) r" using claims_kept_parts(3)[of "su_rules S" "su_chain S" Ts w i r] assms(1) by (simp add: kept_by_def)
qed

lemma snd_write [simp]: "snd (write_claim e i s p w) = put_claim (surface e) i s p w"
  by (cases "claim_update (su_allows e) (su_now e) i s p (cl_rows w)") (simp add: write_claim_def put_claim_def)

lemma write_row:
  assumes "kept_by (surface e) Ts w" "fst (write_claim e i s p w) = Inr (Some q)"
  shows "jm_get (cl_rows (put_claim (surface e) i s p w)) (wc_id q) = Some q \<and> wc_id q = i"
proof (cases rule: claim_update_cases[of "su_allows e" "su_now e" i s p "cl_rows w"])
  case refused
  then have False using assms(2) by (cases "claim_update (su_allows e) (su_now e) i s p (cl_rows w)") (auto simp: write_claim_def)
  then show ?thesis by simp
next
  case (wrote r)
  have "wc_id r = i" using claims_kept_parts(2) assms(1) wrote(1) by (auto simp: kept_by_def simp del: map_of_eq_Some_iff)
  then show ?thesis
    using wrote assms(2) by (auto simp: write_claim_def put_claim_def)
qed

lemma later_claim_terms: "claim_later r q \<Longrightarrow> claim_for_row R q = claim_for_row R r" "claim_later r q \<Longrightarrow> claim_approval R q = claim_approval R r"
  by (rule same_claim_terms, simp add: claim_later_def)+

lemma cmoves_build:
  assumes "stands r w" "claim_for_row (su_rules e) r p"
  shows "claim_moves e w (put_claim (surface e) (wc_id r) Preparing_claim (built_patch p) w)"
proof -
  obtain q where q: "jm_get (cl_rows w) (wc_id r) = Some q" "claim_later r q" using assms(1) unfolding stands_def by blast
  have "claim_for_row (su_rules e) q p" using assms(2) by (simp add: later_claim_terms[OF q(2)])
  then show ?thesis by (intro cmoves_one[of e "Cm_build (wc_id r) p"])
    (simp add: claim_moved_def claim_move_id_def move_claim_def q(1) del: map_of_eq_Some_iff)
qed

lemma cmoves_drop:
  assumes "stands r w" shows "claim_moves e w (put_claim (surface e) (wc_id r) Preparing_claim (to_claim_state Failed_claim) w)"
proof -
  obtain q where q: "jm_get (cl_rows w) (wc_id r) = Some q" using assms unfolding stands_def by blast
  show ?thesis by (rule cmoves_one[of e "Cm_drop (wc_id r)"])
    (simp add: claim_moved_def claim_move_id_def move_claim_def q del: map_of_eq_Some_iff)
qed

lemma cmoves_sign:
  assumes "stands r w" "wc_prepared r = Some p" "\<not> cb_expiresAt (pc_binding p) \<le> su_now e" "claim_approval (su_rules e) r p payload = Some a"
  shows "claim_moves e w (put_claim (surface e) (wc_id r) Built_claim (signed_patch payload (sg_signature a)) w)"
proof -
  obtain q where q: "jm_get (cl_rows w) (wc_id r) = Some q" "claim_later r q" using assms(1) unfolding stands_def by blast
  have "wc_prepared q = Some p" "claim_approval (su_rules e) q p payload = Some a"
    using assms(2,4) q(2) by (simp add: claim_later_def) (use assms(4) in \<open>simp add: later_claim_terms[OF q(2)]\<close>)
  then show ?thesis using assms(3) by (intro cmoves_one[of e "Cm_sign (wc_id r) payload"])
    (simp add: claim_moved_def claim_move_id_def move_claim_def q(1) del: map_of_eq_Some_iff)
qed

text \<open>A submitted row keeps its approval, so what was read of the chain for it still speaks of it.\<close>

lemma later_approved:
  assumes "claim_later r q" "wc_signature r = Some s" "wc_prepared r = Some p"
  shows "wc_signature q = Some s" "wc_prepared q = Some p" "claim_proof R c q = claim_proof R c r" "claim_evidence_of R q = claim_evidence_of R r"
  using assms proof_terms[of r q R c] by (simp_all add: claim_later_def)

lemma cmoves_confirm:
  assumes "stands r w" "wc_signature r = Some s" "wc_prepared r = Some p" "claim_proof (su_rules e) (su_chain e t) r p s = Inr (Some pf)"
  shows "claim_moves e w (put_claim (surface e) (wc_id r) Submitted_claim (confirmed_patch (claim_evidence_of (su_rules e) r p pf provider)) w)"
proof -
  obtain q where q: "jm_get (cl_rows w) (wc_id r) = Some q" "claim_later r q" using assms(1) unfolding stands_def by blast
  show ?thesis by (rule cmoves_one[of e "Cm_confirm (wc_id r) t provider"])
    (simp add: claim_moved_def claim_move_id_def move_claim_def q(1) later_approved[OF q(2) assms(2,3)] assms(4) del: map_of_eq_Some_iff)
qed

lemma cmoves_fail:
  assumes "stands r w" "wc_signature r = Some s" "wc_prepared r = Some p" "claim_proof (su_rules e) (su_chain e t) r p s = Inr None"
    "claim_lost (su_chain e) (t + 1) p s = Inr True"
  shows "claim_moves e w (put_claim (surface e) (wc_id r) Submitted_claim (to_claim_state Failed_claim) w)"
proof -
  obtain q where q: "jm_get (cl_rows w) (wc_id r) = Some q" "claim_later r q" using assms(1) unfolding stands_def by blast
  show ?thesis by (rule cmoves_one[of e "Cm_fail (wc_id r) t"])
    (use assms(5) in \<open>simp add: claim_moved_def claim_move_id_def move_claim_def q(1) later_approved[OF q(2) assms(2,3)] assms(4) del: map_of_eq_Some_iff\<close>)
qed

lemma cmoves_send: "jm_get (cl_rows w) i = Some r \<Longrightarrow> wc_signature r = Some s \<Longrightarrow> claim_moves e w (send_claim i s w)"
  by (rule cmoves_one[of e "Cm_send i"]) (simp add: claim_moved_def claim_move_id_def move_claim_def del: map_of_eq_Some_iff)

text \<open>A build is for the wallet and market it was asked for.\<close>

lemma claim_built_row:
  assumes "claim_built R request now (wc_wallet_address r) (wc_venue_market_id r) = Inr p"
  shows "claim_for_row R r p"
  using assms by (auto simp: claim_built_def claim_compiled_def claim_prepared_def claim_for_row_def Let_def split: if_splits sum.splits option.splits)

lemma drop_claim_moves: "stands r w \<Longrightarrow> claim_moves e w (snd (drop_claim e (wc_id r) x w))"
  by (simp add: drop_claim_def cmoves_drop)

lemma build_claim_moves:
  assumes "kept_by (surface e) Ts w" "stands r w" shows "claim_moves e w (snd (build_claim e r w))"
proof (cases "claim_built (su_rules e) (we_request e) (su_now e) (wc_wallet_address r) (wc_venue_market_id r)")
  case (Inl x)
  have "stands r (claim_raced e w)" by (rule stands_moves[OF assms(2,1) cmoves_raced])
  then show ?thesis using Inl cmoves_trans[OF cmoves_raced drop_claim_moves] by (simp add: build_claim_def)
next
  case (Inr p)
  let ?x = "write_claim e (wc_id r) Preparing_claim (built_patch p) (claim_raced e w)"
  have st: "stands r (claim_raced e w)" by (rule stands_moves[OF assms(2,1) cmoves_raced])
  have m: "claim_moves e w (snd ?x)"
    using cmoves_trans[OF cmoves_raced cmoves_build[OF st claim_built_row[OF Inr]]] by simp
  have d: "claim_moves e w (snd (drop_claim e (wc_id r) x (snd ?x)))" for x :: thrown
    by (rule cmoves_trans[OF m drop_claim_moves[OF stands_moves[OF assms(2,1) m]]])
  have "snd (build_claim e r w) = snd ?x \<or> (\<exists>x. snd (build_claim e r w) = snd (drop_claim e (wc_id r) x (snd ?x) :: claim_answer claimed))"
    using Inr by (cases ?x; cases "fst ?x") (auto simp: build_claim_def simp del: snd_write split: option.splits)
  then show ?thesis using m d by (auto simp: drop_claim_def)
qed

lemma claim_prepare_moves:
  assumes "kept_by (surface e) Ts w" shows "claim_moves e w (snd (claim_prepare e u orderId key w))"
proof -
  have "claim_moves e w (snd (reserve_claim e (claim_intent e u orderId key t) w))"
    if t: "trade_byOrder u orderId (su_trades e) = Some t" "tw_state t = T_FILLED" for t
  proof -
    let ?w = "claim_raced e w" let ?i = "claim_intent e u orderId key t"
    let ?x = "claim_reserve (su_allows e) (su_now e) ?i (cl_rows ?w)"
    have "t \<in> set (jm_values (su_trades e))" "tw_user_id t = u" "tw_provider_order_id t = Some orderId"
      using t(1) find_Some_iff[of _ "jm_values (su_trades e)"] nth_mem by (fastforce simp: trade_byOrder_def simp del: length_map)+
    then have fill: "claim_of_fill (su_trades e) ?i" using t(2) by (auto simp: claim_of_fill_def claim_intent_def list_ex_iff)
    have m: "claim_moves e w (?w\<lparr>cl_rows := snd ?x\<rparr>)"
      by (rule cmoves_trans[OF cmoves_raced cmoves_one[of e "Cm_reserve ?i"]]) (simp add: claim_moved_def fill)
    have b: "claim_moves e w (snd (build_claim e q (?w\<lparr>cl_rows := snd ?x\<rparr>)))" if "fst ?x = Inr (Some q)" for q
    proof (rule cmoves_trans[OF m build_claim_moves[OF cmoves_kept[OF m assms]]])
      show "stands q (?w\<lparr>cl_rows := snd ?x\<rparr>)"
        using that by (cases rule: claim_reserve_cases[of "su_allows e" "su_now e" ?i "cl_rows ?w"]) (auto simp: stands_def)
    qed
    show ?thesis using m b by (cases ?x; cases "fst ?x") (auto simp: reserve_claim_def Let_def split: option.splits)
  qed
  then show ?thesis by (simp add: claim_prepare_def Let_def split: option.splits)
qed

lemma broadcast_claim_moves: "jm_get (cl_rows w) (wc_id r) = Some r \<Longrightarrow> wc_signature r = Some s \<Longrightarrow> claim_moves e w (snd (broadcast_claim e r s w))"
  using cmoves_send[of w "wc_id r" r s e] by (simp add: broadcast_claim_def Let_def split: option.splits)

lemma save_claim_moves:
  assumes "kept_by (surface e) Ts w" "stands r w" "wc_prepared r = Some p" "claim_approval (su_rules e) r p payload = Some a"
  shows "claim_moves e w (snd (save_claim e u payload (sg_signature a) r p w))"
proof (cases "cb_expiresAt (pc_binding p) \<le> su_now e \<or> \<not> validateTransaction (su_rules e) (pc_payload p) (pc_binding p)")
  case False
  let ?w = "claim_raced e w"
  let ?x = "write_claim e (wc_id r) Built_claim (signed_patch payload (sg_signature a)) ?w"
  have st: "stands r ?w" by (rule stands_moves[OF assms(2,1) cmoves_raced])
  have m: "claim_moves e w (snd ?x)"
    using cmoves_trans[OF cmoves_raced cmoves_sign[OF st assms(3) _ assms(4)]] False by simp
  have kept: "kept_by (surface e) Ts (snd ?x)" by (rule cmoves_kept[OF m assms(1)])
  have send: "claim_moves e w (snd (broadcast_claim e q (sg_signature a) (snd ?x)))"
    if "jm_get (cl_rows (snd ?x)) (wc_id q) = Some q" "\<not> claim_differs q payload (sg_signature a)" for q
    by (rule cmoves_trans[OF m broadcast_claim_moves[OF that(1)]]) (use that(2) in \<open>simp add: claim_differs_def\<close>)
  have saved: "jm_get (cl_rows (snd ?x)) (wc_id q) = Some q" if "fst ?x = Inr (Some q)" for q
    using write_row[OF cmoves_kept[OF cmoves_raced assms(1)] that] by (auto simp del: map_of_eq_Some_iff)
  have found: "jm_get (cl_rows (snd ?x)) (wc_id q) = Some q" if "own_claim u (wc_id r) (cl_rows (snd ?x)) = Some (q, y)" for q y
    using own_claim_row(1,4)[OF kept that] by simp
  have "snd (save_claim e u payload (sg_signature a) r p w) = snd ?x \<or>
      (\<exists>q y. (fst ?x = Inr (Some q) \<or> own_claim u (wc_id r) (cl_rows (snd ?x)) = Some (q, y)) \<and> \<not> claim_differs q payload (sg_signature a) \<and>
         snd (save_claim e u payload (sg_signature a) r p w) = snd (broadcast_claim e q (sg_signature a) (snd ?x)))"
    using False unfolding save_claim_def
    by (cases ?x; cases "fst ?x") (auto simp del: snd_write split: option.splits)
  then show ?thesis using m send saved found by metis
qed (auto simp: save_claim_def)

lemma claim_submit_moves:
  assumes "kept_by (surface e) Ts w" shows "claim_moves e w (snd (claim_submit e u i payload w))"
proof (cases "own_claim u i (cl_rows w)")
  case (Some rp)
  obtain r p where rp: "rp = (r, p)" by (cases rp)
  note r = own_claim_row[OF assms Some[unfolded rp]]
  show ?thesis
  proof (cases "claim_approval (su_rules e) r p payload")
    case (Some a)
    have send: "claim_moves e w (snd (broadcast_claim e r (sg_signature a) w))" if "wc_signature r = Some (sg_signature a)"
      by (rule broadcast_claim_moves) (use r that in simp_all)
    have sub: "wc_signature r \<noteq> None" if "wc_state r = Submitted_claim"
      using r(5) that by (auto simp: claim_fine_def approved_claim_def split: option.splits)
    have unprepared: "wc_state r \<noteq> Preparing_claim" using r(2,5) by (auto simp: claim_fine_def unprepared_def)
    show ?thesis using save_claim_moves[OF assms r(3,2) Some, of u] send sub unprepared Some \<open>own_claim u i (cl_rows w) = Some rp\<close> rp
      by (cases "wc_state r") (auto simp: claim_submit_def claim_differs_def)
  qed (use Some rp in \<open>simp add: claim_submit_def\<close>)
qed (simp add: claim_submit_def)

lemma snd_saved_or_row [simp]: "snd (saved_or_row r x) = snd x"
  by (cases x; cases "fst x") (auto simp: saved_or_row_def split: option.splits)

lemma claim_reconcile_moves:
  assumes "kept_by (surface e) Ts w" "stands r w" shows "claim_moves e w (snd (claim_reconcile e r w))"
proof (cases "wc_state r = Submitted_claim \<and> wc_signature r \<noteq> None \<and> wc_prepared r \<noteq> None")
  case True
  then obtain s p where a: "wc_state r = Submitted_claim" "wc_signature r = Some s" "wc_prepared r = Some p" by auto
  have st: "stands r (claim_raced e w)" by (rule stands_moves[OF assms(2,1) cmoves_raced])
  show ?thesis
  proof (cases "claim_proof (su_rules e) (su_chain e (we_moment e)) r p s")
    case (Inr found)
    show ?thesis
    proof (cases found)
      case (Some pf)
      show ?thesis using a Inr Some cmoves_trans[OF cmoves_raced cmoves_confirm[OF st a(2,3) Inr[unfolded Some]]]
        by (simp add: claim_reconcile_def)
    next
      case None
      have "claim_moves e w (put_claim (surface e) (wc_id r) Submitted_claim (to_claim_state Failed_claim) (claim_raced e w))"
        if "claim_lost (su_chain e) (we_moment e + 1) p s = Inr True"
        by (rule cmoves_trans[OF cmoves_raced cmoves_fail[OF st a(2,3) Inr[unfolded None] that]])
      then show ?thesis using a Inr None
        by (cases "claim_lost (su_chain e) (we_moment e + 1) p s") (auto simp: claim_reconcile_def split: bool.split)
    qed
  qed (use a in \<open>simp add: claim_reconcile_def\<close>)
qed (auto simp: claim_reconcile_def split: claim_state.split option.split)

lemma claim_status_moves:
  assumes "kept_by (surface e) Ts w" shows "claim_moves e w (snd (claim_status e u i w))"
proof (cases "own_claim u i (cl_rows w)")
  case (Some rp)
  obtain r p where rp: "rp = (r, p)" by (cases rp)
  show ?thesis using claim_reconcile_moves[OF assms own_claim_row(3)[OF assms Some[unfolded rp]]] Some rp
    by (cases "claim_reconcile e r w"; cases "fst (claim_reconcile e r w)") (auto simp: claim_status_def)
qed (simp add: claim_status_def)

section \<open>Requests\<close>

text \<open>The worker checks copies of rows it read before, one after the other, each at its own moment of the chain.\<close>

datatype claim_request =
  Prepare_request string string string
| Sign_request string string string
| Look_request string string
| Worker_request "(string \<times> nat) list"

definition worker_checks :: "claim_env \<Rightarrow> win_claim list \<Rightarrow> (string \<times> nat) list \<Rightarrow> claim_world \<Rightarrow> claim_world" where
  "worker_checks e read = fold (\<lambda>(i, t) w. case find (\<lambda>r. wc_id r = i) read of None \<Rightarrow> w
     | Some r \<Rightarrow> snd (claim_reconcile (e\<lparr>we_moment := t\<rparr>) r w))"

fun serve_claim :: "claim_env \<Rightarrow> claim_request \<Rightarrow> claim_world \<Rightarrow> claim_world" where
  "serve_claim e (Prepare_request u orderId key) w = snd (claim_prepare e u orderId key w)"
| "serve_claim e (Sign_request u i payload) w = snd (claim_submit e u i payload w)"
| "serve_claim e (Look_request u i) w = snd (claim_status e u i w)"
| "serve_claim e (Worker_request is) w = worker_checks e (claims_submitted 100 (cl_rows w)) is w"

text \<open>Requests over one chain under one set of rules, each with its own surroundings and interleaving.\<close>

definition run_claims :: "claim_rules \<Rightarrow> (nat \<Rightarrow> rpc) \<Rightarrow> (claim_env \<times> claim_request) list \<Rightarrow> claim_world" where
  "run_claims R chain reqs =
     fold (\<lambda>(e, q). serve_claim (e\<lparr>su_rules := R, su_chain := chain\<rparr>) q) reqs \<lparr>cl_rows = [], cl_sent = []\<rparr>"

lemma worker_moves:
  assumes "kept_by (surface e) Ts w" "\<And>r. r \<in> set read \<Longrightarrow> stands r w" shows "claim_moves e w (worker_checks e read is w)"
proof -
  have "claim_moves e w (worker_checks e read is v)" if "claim_moves e w v" for v
    using that
  proof (induction "is" arbitrary: v)
    case (Cons it "is")
    obtain i t where it: "it = (i, t)" by (cases it)
    have "claim_moves e w (case find (\<lambda>r. wc_id r = i) read of None \<Rightarrow> v | Some r \<Rightarrow> snd (claim_reconcile (e\<lparr>we_moment := t\<rparr>) r v))"
    proof (cases "find (\<lambda>r. wc_id r = i) read")
      case (Some r)
      have "r \<in> set read" using Some by (auto simp: find_Some_iff)
      then have st: "stands r v" using stands_moves[OF assms(2) assms(1) Cons.prems] by simp
      have "claim_moves e v (snd (claim_reconcile (e\<lparr>we_moment := t\<rparr>) r v))"
        using claim_reconcile_moves[of "e\<lparr>we_moment := t\<rparr>" Ts v r] cmoves_kept[OF Cons.prems assms(1)] st by (simp add: claim_moves_def)
      then show ?thesis using Some cmoves_trans[OF Cons.prems] by simp
    qed (use Cons.prems in simp)
    then show ?case using Cons.IH it by (simp add: worker_checks_def)
  qed (simp add: worker_checks_def)
  then show ?thesis by simp
qed

lemma serve_claim_moves:
  assumes "kept_by (surface e) Ts w" shows "claim_moves e w (serve_claim e q w)"
proof (cases q)
  case (Worker_request "is")
  have "stands r w" if "r \<in> set (claims_submitted 100 (cl_rows w))" for r
  proof -
    have "r \<in> set (jm_values (cl_rows w))" using that by (auto simp: claims_submitted_def dest!: in_set_takeD)
    then show ?thesis using stands_found[OF assms] by blast
  qed
  then show ?thesis using worker_moves[OF assms] Worker_request by simp
qed (use assms claim_prepare_moves claim_submit_moves claim_status_moves in simp_all)

lemma run_claims_kept: "claims_kept R chain (map (\<lambda>(e, q). su_trades e) reqs) (run_claims R chain reqs)"
proof -
  have "claims_kept R chain Ts (fold (\<lambda>(e, q). serve_claim (e\<lparr>su_rules := R, su_chain := chain\<rparr>) q) rs w)"
    if "claims_kept R chain Ts w" "(\<lambda>(e, q). su_trades e) ` set rs \<subseteq> set Ts" for w rs Ts
    using that
  proof (induction rs arbitrary: w)
    case (Cons eq rs)
    obtain e q where eq: "eq = (e, q)" by (cases eq)
    let ?e = "e\<lparr>su_rules := R, su_chain := chain\<rparr>"
    have k: "kept_by (surface ?e) Ts w" using Cons.prems eq by (simp add: kept_by_def)
    have "claims_kept R chain Ts (serve_claim ?e q w)" using cmoves_kept[OF serve_claim_moves[OF k] k] by (simp add: kept_by_def)
    then show ?case using Cons.IH Cons.prems(2) eq by simp
  qed simp
  moreover have "claims_kept R chain Ts \<lparr>cl_rows = [], cl_sent = []\<rparr>" for Ts by (simp add: claims_kept_def)
  ultimately show ?thesis unfolding run_claims_def by (metis list.set_map subset_refl)
qed

lemma fine_signed: "claim_fine R chain r \<Longrightarrow> wc_signature r \<noteq> None \<Longrightarrow> approved_claim R r"
  by (cases "wc_state r") (auto simp: claim_fine_def unprepared_def)

lemma distinct_by_key:
  assumes "distinct (map fst m)" "\<And>j q k r. (j, q) \<in> set m \<Longrightarrow> (k, r) \<in> set m \<Longrightarrow> f q = f r \<Longrightarrow> j = k"
  shows "distinct (map f (jm_values m))"
  using assms
proof (induction m)
  case (Cons x m)
  obtain k r where x: "x = (k, r)" by (cases x)
  have "f r \<noteq> f q" if "(j, q) \<in> set m" for j q
  proof
    assume "f r = f q"
    then have "k = j" using Cons.prems(2)[of k r j q] that x by simp
    then show False using Cons.prems(1) that x by (auto intro: rev_image_eqI)
  qed
  moreover have "distinct (map f (jm_values m))" using Cons.IH Cons.prems by (metis distinct.simps(2) list.set_intros(2) list.simps(9))
  ultimately show ?case using x by fastforce
qed simp

text \<open>C32: A claim is made for a position and sent once approved. Whatever was asked of the claims, in
  whatever order and interleaving: every broadcast carries the signature saved on its row, the owner's over
  the row's reviewed claim, which is within the rules for the row's wallet and market; every row is for a
  confirmed buy of the same person, wallet and market in the trades of one of the requests; and a person's
  key names one claim.\<close>

theorem claims_durable:
  "case run_claims R chain reqs of w \<Rightarrow>
     list_all (\<lambda>(i, s). case jm_get (cl_rows w) i of None \<Rightarrow> False | Some r \<Rightarrow> wc_signature r = Some s \<and> approved_claim R r) (cl_sent w) \<and>
     list_all (\<lambda>r. list_ex (\<lambda>(e, q). claim_of_fill (su_trades e) r) reqs) (jm_values (cl_rows w)) \<and>
     distinct (map (\<lambda>r. (wc_user_id r, wc_idempotency_key r)) (jm_values (cl_rows w)))"
proof -
  define w where "w = run_claims R chain reqs"
  note k = claims_kept_parts[OF run_claims_kept[of R chain reqs, folded w_def]]
  have get: "jm_get (cl_rows w) i = Some r" if "(i, r) \<in> set (cl_rows w)" for i r using jm_get_in[OF k(1) that] .
  have sent: "case jm_get (cl_rows w) i of None \<Rightarrow> False | Some r \<Rightarrow> wc_signature r = Some s \<and> approved_claim R r"
    if "(i, s) \<in> set (cl_sent w)" for i s
    using k(6)[OF that] k(3) fine_signed by fastforce
  have fill: "list_ex (\<lambda>(e, q). claim_of_fill (su_trades e) r) reqs" if "(i, r) \<in> set (cl_rows w)" for i r
    using k(4)[OF get[OF that]] by (auto simp: list_ex_iff split: prod.splits)
  have "distinct (map (\<lambda>r. (wc_user_id r, wc_idempotency_key r)) (jm_values (cl_rows w)))"
    by (rule distinct_by_key) (use k(1,5) get in auto)
  then show ?thesis unfolding w_def[symmetric] using sent fill by (auto simp: list_all_iff)
qed

text \<open>C30: Nothing but a win claim is signed. Each transaction the claims send parses to one signed by the
  row's wallet, over the reviewed message or over that message with only a bounded fee and assertions added;
  and the reviewed message holds, beside at most two bounded Compute Budget instructions, the owner's own
  USDC account and a memo, exactly one instruction of the venue's program: the claim of a win, for the row's
  market, paying the owner's own USDC account.\<close>

theorem broadcast_claims_shaped:
  "case run_claims R chain reqs of w \<Rightarrow> list_all (\<lambda>(i, s).
     case jm_get (cl_rows w) i of None \<Rightarrow> False | Some r \<Rightarrow>
       (case (wc_signed_transaction r, wc_prepared r) of
          (Some payload, Some p) \<Rightarrow>
            (case (sl_deserialize (cu_sl R) (sl_fromBase64 (cu_sl R) payload), sl_deserialize (cu_sl R) (sl_fromBase64 (cu_sl R) (pc_payload p))) of
               (Some tx, Some reviewed) \<Rightarrow>
                 s = sl_base58 (cu_sl R) (hd (sx_signatures tx)) \<and> length (sx_signatures tx) = 1 \<and>
                 sl_verify (cu_sl R) (sx_message tx) (wc_wallet_address r) (hd (sx_signatures tx)) \<and>
                 (sl_hash (cu_sl R) (sx_message tx) = sl_hash (cu_sl R) (sx_message reviewed) \<or>
                  amended_from (cu_sl R) (sx_message reviewed) (sx_message tx)) \<and>
                 (case sl_decompile (cu_sl R) (sx_message reviewed) of None \<Rightarrow> False
                  | Some ixs \<Rightarrow> claim_shaped R (wc_wallet_address r) (wc_venue_market_id r) (cb_derived (pc_binding p)) ixs)
             | _ \<Rightarrow> False)
        | _ \<Rightarrow> False)) (cl_sent w)"
proof -
  define w where "w = run_claims R chain reqs"
  note k = claims_kept_parts[OF run_claims_kept[of R chain reqs, folded w_def]]
  have one: "\<exists>r payload p tx reviewed ixs. jm_get (cl_rows w) i = Some r \<and> wc_signed_transaction r = Some payload \<and> wc_prepared r = Some p \<and>
      sl_deserialize (cu_sl R) (sl_fromBase64 (cu_sl R) payload) = Some tx \<and>
      sl_deserialize (cu_sl R) (sl_fromBase64 (cu_sl R) (pc_payload p)) = Some reviewed \<and>
      s = sl_base58 (cu_sl R) (hd (sx_signatures tx)) \<and> length (sx_signatures tx) = 1 \<and>
      sl_verify (cu_sl R) (sx_message tx) (wc_wallet_address r) (hd (sx_signatures tx)) \<and>
      (sl_hash (cu_sl R) (sx_message tx) = sl_hash (cu_sl R) (sx_message reviewed) \<or>
       amended_from (cu_sl R) (sx_message reviewed) (sx_message tx)) \<and>
      sl_decompile (cu_sl R) (sx_message reviewed) = Some ixs \<and>
      claim_shaped R (wc_wallet_address r) (wc_venue_market_id r) (cb_derived (pc_binding p)) ixs"
    if sent: "(i, s) \<in> set (cl_sent w)" for i s
  proof -
    obtain r where r: "jm_get (cl_rows w) i = Some r" "wc_signature r = Some s" using k(6)[OF sent] by blast
    obtain p payload a where p: "wc_prepared r = Some p" "wc_signed_transaction r = Some payload" "claim_for_row R r p"
        "claim_approval R r p payload = Some a" "sg_signature a = s"
      using fine_signed[OF k(3)[OF r(1)]] r(2) by (auto simp: approved_claim_def split: option.splits)
    obtain tx where tx: "sl_deserialize (cu_sl R) (sl_fromBase64 (cu_sl R) payload) = Some tx" "length (sx_signatures tx) = 1"
        "sl_verify (cu_sl R) (sx_message tx) (wc_wallet_address r) (hd (sx_signatures tx))" "s = sl_base58 (cu_sl R) (hd (sx_signatures tx))"
        "message_accepted (cu_sl R) (sx_message tx) (cb_messageHash (pc_binding p)) (Some (pc_payload p))"
      using p(4,5) unfolding claim_approval_def by (auto elim: validated)
    obtain reviewed ixs where v: "sl_deserialize (cu_sl R) (sl_fromBase64 (cu_sl R) (pc_payload p)) = Some reviewed"
        "sl_hash (cu_sl R) (sx_message reviewed) = cb_messageHash (pc_binding p)" "sl_decompile (cu_sl R) (sx_message reviewed) = Some ixs"
        "validateInstructions R ixs (wc_wallet_address r) (wc_venue_market_id r) (cb_derived (pc_binding p)) True"
      using p(3) by (auto simp: claim_for_row_def validateTransaction_def Let_def split: option.splits)
    have "sl_hash (cu_sl R) (sx_message tx) = sl_hash (cu_sl R) (sx_message reviewed) \<or>
        amended_from (cu_sl R) (sx_message reviewed) (sx_message tx)"
      using tx(5) v(1,2) amendment_accepted by (auto simp: message_accepted_def split: if_splits)
    then show ?thesis using r p(1,2) tx(1-4) v(1,3) validated_shape[OF v(4)] by blast
  qed
  show ?thesis unfolding w_def[symmetric] list_all_iff using one by fastforce
qed

lemma claim_proved:
  assumes "claim_proof R c r p s = Inr (Some pf)"
  obtains x meta where "rp_transaction c s = Some (Some x)" "xr_meta x = Some meta" "\<not> xm_err meta" "xr_signature x = Some s"
    "first_key (xr_message x) = Some (wc_wallet_address r)" "wc_venue_market_id r \<in> set (tm_staticAccountKeys (xr_message x))"
    "calls_program (cb_programId (pc_binding p)) (xr_message x)" "usdcDeltaOf meta (wc_wallet_address r) = Some (fst pf)" "0 < fst pf"
  using assms by (auto simp: claim_proof_def verifyClaim_def split: option.splits if_splits)

text \<open>C31: A claim ends only with the chain's word. It is confirmed only when the chain showed a transaction
  with the row's signature that succeeded, was paid for and signed by the row's wallet, called the venue's
  program on the row's market and credited the wallet's USDC, by exactly the recorded payout. Once signed it
  has failed only when the chain showed no such payment and then that it failed or can no longer land.\<close>

theorem claim_outcomes:
  "case run_claims R chain reqs of w \<Rightarrow> list_all (\<lambda>r.
     (case (wc_state r, wc_signature r, wc_prepared r) of
        (Confirmed_claim, Some s, Some p) \<Rightarrow>
          (\<exists>t x meta d. rp_transaction (chain t) s = Some (Some x) \<and> xr_meta x = Some meta \<and> \<not> xm_err meta \<and> xr_signature x = Some s \<and>
             first_key (xr_message x) = Some (wc_wallet_address r) \<and> wc_venue_market_id r \<in> set (tm_staticAccountKeys (xr_message x)) \<and>
             calls_program (cu_programId R) (xr_message x) \<and> usdcDeltaOf meta (wc_wallet_address r) = Some d \<and> 0 < d \<and>
             map_option cv_payoutBaseUnits (wc_confirm_evidence r) = Some (int_str d))
      | (Confirmed_claim, _, _) \<Rightarrow> False
      | (Failed_claim, Some s, Some p) \<Rightarrow>
          (\<exists>t. claim_proof R (chain t) r p s = Inr None \<and>
             (chain_failed (chain (t + 1)) s = Inr True \<or>
              settlement_neverLanded (chain (t + 2)) (chain (t + 3)) (chain (t + 4)) s (cb_lastValidBlockHeight (pc_binding p)) = Inr True))
      | (Failed_claim, Some s, None) \<Rightarrow> False
      | _ \<Rightarrow> True)) (jm_values (cl_rows w))"
proof -
  define w where "w = run_claims R chain reqs"
  note k = claims_kept_parts[OF run_claims_kept[of R chain reqs, folded w_def]]
  have paid: "\<exists>p s t x meta d. wc_signature r = Some s \<and> wc_prepared r = Some p \<and>
      rp_transaction (chain t) s = Some (Some x) \<and> xr_meta x = Some meta \<and> \<not> xm_err meta \<and> xr_signature x = Some s \<and>
      first_key (xr_message x) = Some (wc_wallet_address r) \<and> wc_venue_market_id r \<in> set (tm_staticAccountKeys (xr_message x)) \<and>
      calls_program (cu_programId R) (xr_message x) \<and> usdcDeltaOf meta (wc_wallet_address r) = Some d \<and> 0 < d \<and>
      map_option cv_payoutBaseUnits (wc_confirm_evidence r) = Some (int_str d)"
    if fine: "claim_fine R chain r" "wc_state r = Confirmed_claim" for r
  proof -
    obtain p s t pf provider where c: "wc_prepared r = Some p" "wc_signature r = Some s" "claim_proof R (chain t) r p s = Inr (Some pf)"
        "wc_confirm_evidence r = Some (claim_evidence_of R r p pf provider)" "approved_claim R r"
      using fine by (auto simp: claim_fine_def paid_claim_def)
    have "cb_programId (pc_binding p) = cu_programId R"
      using c(1,5) by (auto simp: approved_claim_def claim_for_row_def validateTransaction_def Let_def split: option.splits)
    moreover have "map_option cv_payoutBaseUnits (wc_confirm_evidence r) = Some (int_str (fst pf))"
      using c(4) by (simp add: claim_evidence_of_def)
    ultimately show ?thesis using c(1,2) by (rule_tac claim_proved[OF c(3)]) metis
  qed
  have lost: "wc_signature r = None \<or> (\<exists>p s t. wc_signature r = Some s \<and> wc_prepared r = Some p \<and> claim_proof R (chain t) r p s = Inr None \<and>
      (chain_failed (chain (t + 1)) s = Inr True \<or>
       settlement_neverLanded (chain (t + 2)) (chain (t + 3)) (chain (t + 4)) s (cb_lastValidBlockHeight (pc_binding p)) = Inr True))"
    if fine: "claim_fine R chain r" "wc_state r = Failed_claim" for r
  proof (cases "unprepared r")
    case False
    then obtain p s t where "wc_prepared r = Some p" "wc_signature r = Some s" "claim_proof R (chain t) r p s = Inr None"
        "claim_lost chain (t + 1) p s = Inr True"
      using fine by (auto simp: claim_fine_def lost_claim_def)
    then show ?thesis by (fastforce simp: claim_lost_def numeral_eq_Suc split: sum.splits bool.splits)
  qed (simp add: unprepared_def)
  have "claim_fine R chain r" if r: "r \<in> set (jm_values (cl_rows w))" for r
  proof -
    obtain i where "(i, r) \<in> set (cl_rows w)" using r by auto
    then show ?thesis using k(3) jm_get_in[OF k(1)] by blast
  qed
  then show ?thesis unfolding w_def[symmetric] list_all_iff
    using paid lost by (fastforce split: claim_state.split option.split)
qed

section \<open>When a claim can no longer land\<close>

text \<open>What the code relies on of the chain: past a transaction's last valid height by the safety blocks, nothing of it lands any more.\<close>

definition lands_by_height :: "(nat \<Rightarrow> rpc) \<Rightarrow> (nat \<Rightarrow> bool) \<Rightarrow> int \<Rightarrow> bool" where
  "lands_by_height chain lands height \<longleftrightarrow>
     (\<forall>t u h. rp_blockHeight (chain t) = Some h \<longrightarrow> height + DROPPED_SAFETY_BLOCKS < h \<longrightarrow> t \<le> u \<longrightarrow> \<not> lands u)"

lemma claim_never_lands:
  assumes "settlement_neverLanded (chain t1) (chain t2) (chain t3) s height = Inr True" "t2 \<le> t3"
    and visible: "\<And>t u. lands t \<Longrightarrow> t \<le> u \<Longrightarrow> seen_on_chain (chain u) s \<noteq> Some False" and "lands_by_height chain lands height"
  shows "\<not> lands t"
proof -
  obtain h where h: "rp_blockHeight (chain t2) = Some h" "height + DROPPED_SAFETY_BLOCKS < h" "seen_on_chain (chain t3) s = Some False"
    using assms(1) by (auto simp: settlement_neverLanded_def split: option.splits if_splits)
  show ?thesis
  proof (cases "t \<le> t3")
    case True
    then show ?thesis using visible h(3) by blast
  next
    case False
    then show ?thesis using assms(2,4) h(1,2) unfolding lands_by_height_def by (meson le_trans nat_le_linear)
  qed
qed

end
