(* ===== verification/Spec2Isabelle.thy ===== *)
theory Spec2Isabelle
  imports EngineRuns Memory ResultSync SocialReads MoneySweep TransferFlow WinClaimFlow
begin

text \<open>
  Verification of Chumbucket Arena (\<open>src/src\<close>, the TypeScript server).

  \<^bold>\<open>The program.\<close> The server is three programs over one process.

  \<^item> The game engine. Every fact is an event in an append-only log, one stream per player, match and
    challenge. Projections fold the log into a read model: the players' files, the pots of the markets,
    the challenges, the settled calls, the chat. Player actors are the only writers of player streams: a
    command checks the file and appends. The engine writes the match and challenge streams and sends the
    actors instructions when it settles. A mirror copies the events that move money to an outside memory.
  \<^item> The social calls. People say publicly which side of a venue's market they think right, answer each
    other's calls and follow each other. Results are derived from the venue's resolutions.
  \<^item> The money. A call may carry an amount: it stays private until a trade its owner's wallet signed is
    confirmed on the chain, or it is replaced by a free call, or it ends. The same wallets make transfers.
    The server holds no key: it builds a transaction, stores what was reviewed, takes back the signed
    bytes, checks that they are what was reviewed, saves them and only then sends them.

  \<^bold>\<open>Theories and code.\<close> Each theory imports the ones its code calls.

  \<^item> \<open>Prelude\<close>, \<open>JsText\<close>: what the program uses of the language: \<open>Map\<close> as an association list in insertion
    order, \<open>Array.sort\<close>, texts, numbers read from texts. \<open>Interleaving\<close>: requests as sequences of moves of a
    shared ledger (below).
  \<^item> \<open>Domain\<close> (\<open>domain/\<close>): the events and value objects. \<open>Parimutuel\<close>, \<open>Rating\<close>, \<open>Markets\<close> (\<open>game/\<close>): the rules
    as pure functions; payouts are whole units and add up with the rake to the pot.
  \<^item> \<open>EventStore\<close> (\<open>core/eventstore/\<close>): the contract of the log as the locale \<open>event_store\<close>, and both
    stores as its interpretations.
  \<^item> \<open>Projection\<close>, \<open>Dossier\<close>, \<open>Pots\<close>, \<open>Challenges\<close>, \<open>Ledgers\<close>, \<open>ReadModel\<close> (\<open>core/projections/\<close>): one record per
    projection with one equation per event; the locales \<open>projection\<close> and \<open>keyed_projection\<close> make a view
    independent of how streams interleave.
  \<^item> \<open>World\<close>, \<open>PlayerActor\<close>, \<open>Players\<close> (\<open>core/actor/\<close>): the state of the write side and every command of a player.
    A command is one step because the mailbox runs the commands of one player one at a time; what it asks of
    custody in between is noted in the world with the log of that moment. \<open>Custody\<close> (\<open>ports/Custody.ts\<close>): the
    play ledger and the Solana custody, over the answers of the chain.
  \<^item> \<open>RateLimiter\<close>, \<open>Engine\<close>, \<open>Settlement\<close>, \<open>Books\<close>, \<open>EngineRuns\<close> (\<open>engine/\<close>): every operation of the engine, what
    settling does to the money (the locale \<open>releasing\<close>: four instructions, one contract), and the soundness
    of the books over any sequence of operations.
  \<^item> \<open>Memory\<close> (\<open>core/memory/\<close>, \<open>engine/MemoryWriter.ts\<close>, \<open>WalrusLedgerMirror.ts\<close>): the memory and the mirror.
  \<^item> \<open>Venue\<close> (\<open>prediction/types.ts\<close>, \<open>errors.ts\<close>, \<open>circuit.ts\<close>, \<open>backoff.ts\<close>, \<open>cache.ts\<close>) and \<open>Orders\<close> (\<open>store.ts\<close>,
    \<open>Reconciler.ts\<close>): the vocabulary of the venues, the breaker, the retries, the cache, the store of venue
    data and the reconciliation of orders with what the venue says.
  \<^item> \<open>CallStore\<close>, \<open>CallHistory\<close>, \<open>ResultSync\<close>, \<open>CallRecords\<close>, \<open>People\<close>, \<open>SocialCalls\<close>, \<open>CallActions\<close>, \<open>CallService\<close>,
    \<open>SocialReads\<close> (\<open>calls/\<close>, \<open>notifications/record.ts\<close>): the store of the social calls, its life as runs of its
    operations, the synchroniser of results, the records and lists of people, every operation of the
    service, and what its reads may show to whom.
  \<^item> \<open>MoneyStore\<close>, \<open>PantaTrading\<close>, \<open>PantaFills\<close>, \<open>MoneyCalls\<close>, \<open>MoneyFlow\<close>, \<open>MoneySweep\<close> (\<open>money/\<close>,
    \<open>prediction/PantaTradingService.ts\<close>, \<open>PantaTradingStore.ts\<close>, \<open>PantaFunding.ts\<close>): the ledgers of money calls
    and of trades, the services over them, and the sweeper that ends what nobody finished.
  \<^item> \<open>PantaChain\<close> (\<open>prediction/PantaChain.ts\<close>, \<open>walletAmendment.ts\<close>), \<open>MoneyTransfers\<close>, \<open>TransferFlow\<close>
    (\<open>money/transfers.ts\<close>, \<open>gas.ts\<close>, \<open>solTopUp/need.ts\<close>): reading the chain, what a wallet may add to a
    transaction before it signs, and the transfers.
  \<^item> \<open>WinClaims\<close>, \<open>WinClaimService\<close>, \<open>WinClaimFlow\<close> (\<open>prediction/PantaClaims.ts\<close>, \<open>PantaSettlementChain.ts\<close>,
    \<open>PantaClaimStore.ts\<close>, \<open>PantaClaimService.ts\<close>): how winnings come back: the rules of a claim transaction, the
    chain's proof of the payout, the ledger of claims and the service over it.

  A record of the model has the fields of the interface or class it models; a thrown error is the \<open>Inl\<close> of a
  sum or a constructor of the component's own error type; an optional or nullable field is an \<open>option\<close>. Money
  in the smallest unit is an \<open>int\<close>, as \<open>bigint\<close> is; fractions are exact rationals, so the rounding of IEEE
  doubles is not modelled. Clocks, generated ids, prices, balances and the answers of services are arguments
  of the operation that reads them.

  \<^bold>\<open>Interleaving.\<close> The server is one thread, but a request gives way at each \<open>await\<close>. Where that matters a
  request takes the moves of the others as an argument: a list of ledger moves applied between its reads and
  its write. What every move keeps, every interleaving of requests keeps (the locale \<open>moved_ledger\<close>,
  interpreted for the trades, the transfers and the win claims). Breaker and cache are written
  as the starts and ends of overlapping calls, with the cache cleared at any point; the updates of the
  in-memory ledger of money calls as their reads and their writes, in any order (the services over that ledger
  use an update as one step, as the database's ledger carries it out). The engine's operations run to their end in the property
  about its books; \<open>challenge_races\<close> shows the two interleavings in which they do not agree afterwards.

  \<^bold>\<open>What is shown.\<close>

  \<^item> Engine: the books agree after any run; moving money between players makes and loses none; nothing settles
    without the verifier; an instruction takes effect once; a deposit on the chain is credited once; a
    withdrawal is debited before it is paid, and paid once; commands keep the world consistent and never meet a version conflict; both stores implement the
    log; a mirror read whole gives back the same money.
  \<^item> Venue data: an order is filled only with evidence; reconciling twice is reconciling once; the breaker's
    and the cache's invariants under overlap; the retry loop ends.
  \<^item> Social calls: what is said is never unsaid, a result is the derivation of its evidence and permanent;
    whatever is requested the store stays a run of its own operations; a refusal changes nothing; nobody sees
    what is kept from them, nor the crowd before having called; paging gives each call once.
  \<^item> Money: only a proven fill funds a call; a call without its money is its owner's alone; the sweeper leaves
    nothing waiting without a reason; what is broadcast is the owner's one approval, saved before, of the
    reviewed transaction with nothing but a bounded fee and assertions added; a transfer and a win
    claim end only with the chain's proof, and a claim is made only for a confirmed position.

  \<^bold>\<open>Hypotheses.\<close> Libraries are parameters. What is asked of them is stated where it is used: a text codec reads
  back what it wrote; hashes and generated ids differ when the code relies on it; the token library's
  addresses are what its documentation says; the chain's answers do not contradict each other over time. Each
  property with such hypotheses has a witness that meets them with concrete functions. The guards the
  database puts on money calls are computed from the modelled trades, from the rows they select.

  \<^bold>\<open>Bounds.\<close> No operation runs on invented fuel, so every one is total. Loops of the code are recursions over
  the list they walk; the retry loop recurses on the code's own number of attempts and the synchroniser on
  its own number of pages, so running out is a branch of the code and modelled as such. That following the
  feed's cursor ends is part of the property about it.

  \<^bold>\<open>Not modelled.\<close>
  \<^item> The adapters to outside services and chains: the venues (Jupiter, Polymarket, the Panta program's
    accounts and builder), Privy, Crossmint, match data, Walrus, the language models. They parse other
    people's formats; their answers are arguments here.
  \<^item> The SQL stores and their queries: they carry out the contracts of the in-memory stores, which are
    modelled, in a database whose functions and constraints are not TypeScript.
  \<^item> The HTTP API, except for the wire form of the calls' errors; authentication and account linking, which
    rest on signatures and an identity provider; notifications other than the record, trust and safety,
    market creation, the swap for transaction fees and deposits by card; receipts.
  \<^item> The on-chain program in Rust, the keeper and the indexer that drive it, the web client, scripts, tests.
\<close>

end
